(* ===== verification/JB_Prelude.thy ===== *)
theory JB_Prelude
  imports Main "HOL-Library.Word"
begin

text \<open>
  Shared vocabulary of the development: bytes and JavaScript strings, the result type of code
  that throws, the few JavaScript number conversions the sources use, and the generic lemmas
  on lists, folds and results that the component theories rely on.

  A JavaScript string is modelled by its UTF-8 bytes, as a HOL \<open>string\<close>; equality, concatenation
  and prefix tests agree with the code's for well-formed strings. A number that the code
  uses as an integer is an \<open>int\<close> or a \<open>nat\<close>; where the code applies 32-bit operators
  (\<open>&\<close>, \<open><<\<close>, \<open>>>\<close>) the width is written out.
\<close>

type_synonym byte = "8 word"
type_synonym bytes = "byte list"
type_synonym u32 = "32 word"

named_theorems res_simps \<open>evaluation of sequenced results\<close>
named_theorems res_dests \<open>inversion of successful results\<close>

section \<open>Results\<close>

text \<open>A call that may throw returns \<open>error + 'a\<close>; \<open>res_bind\<close> is the sequencing of two calls.\<close>

definition res_bind :: "'e + 'a \<Rightarrow> ('a \<Rightarrow> 'e + 'b) \<Rightarrow> 'e + 'b" where
  "res_bind r f = (case r of Inl e \<Rightarrow> Inl e | Inr x \<Rightarrow> f x)"

definition res_guard :: "bool \<Rightarrow> 'e \<Rightarrow> 'e + unit" where
  "res_guard b e = (if b then Inr () else Inl e)"

lemma res_bind_Inl [simp, res_simps]: "res_bind (Inl e) f = Inl e"
  by (simp add: res_bind_def)

lemma res_bind_Inr [simp, res_simps]: "res_bind (Inr x) f = f x"
  by (simp add: res_bind_def)

lemma res_bind_eq_Inr [res_dests]:
  "res_bind r f = Inr y \<longleftrightarrow> (\<exists>x. r = Inr x \<and> f x = Inr y)"
  by (cases r) (auto simp: res_bind_def)

lemma res_bind_eq_Inl:
  "res_bind r f = Inl e \<longleftrightarrow> r = Inl e \<or> (\<exists>x. r = Inr x \<and> f x = Inl e)"
  by (cases r) (auto simp: res_bind_def)

lemma res_guard_Inr [simp, res_dests]: "res_guard b e = Inr u \<longleftrightarrow> b"
  by (simp add: res_guard_def)

lemma res_guard_Inl [simp]: "res_guard b e = Inl e' \<longleftrightarrow> \<not> b \<and> e' = e"
  by (auto simp: res_guard_def)

lemma res_guard_True [res_simps]: "res_guard True e = Inr ()"
  by simp

section \<open>Lists of results, loops\<close>

text \<open>A loop that throws out of its body stops at the first error.\<close>

fun res_fold :: "('s \<Rightarrow> 'a \<Rightarrow> 'e + 's) \<Rightarrow> 's \<Rightarrow> 'a list \<Rightarrow> 'e + 's" where
  "res_fold f s [] = Inr s"
| "res_fold f s (x # xs) = res_bind (f s x) (\<lambda>s'. res_fold f s' xs)"

lemma res_fold_append:
  "res_fold f s (xs @ ys) = res_bind (res_fold f s xs) (\<lambda>s'. res_fold f s' ys)"
  by (induction xs arbitrary: s) (auto simp: res_bind_def split: sum.splits)

lemma res_fold_invariant:
  assumes "\<And>s x s'. I s \<Longrightarrow> f s x = Inr s' \<Longrightarrow> I s'" and "I s" and "res_fold f s xs = Inr s'"
  shows "I s'"
  using assms(2,3) by (induction xs arbitrary: s) (auto simp: res_bind_eq_Inr dest: assms(1))

lemma foldl_invariant:
  assumes "\<And>s x. I s \<Longrightarrow> x \<in> set xs \<Longrightarrow> I (f s x)" and "I s"
  shows "I (foldl f s xs)"
  using assms by (induction xs arbitrary: s) auto

text \<open>An optional list element, for fields that are written only when they are non-zero.\<close>

definition opt :: "bool \<Rightarrow> 'a \<Rightarrow> 'a list" where
  "opt b x = (if b then [x] else [])"

lemma in_set_opt [simp]: "y \<in> set (opt b x) \<longleftrightarrow> b \<and> y = x"
  by (cases b) (simp_all add: opt_def)

lemma opt_True [simp]: "opt True x = [x]" and opt_False [simp]: "opt False x = []"
  by (simp_all add: opt_def)

section \<open>JavaScript numbers\<close>

text \<open>
  \<open>Number(n)\<close> of a BigInt: the nearest double, ties to even, for magnitudes that do not
  overflow to infinity (every caller passes a value below \<open>2 ^ 71\<close>).
\<close>

fun bit_length_fuel :: "nat \<Rightarrow> nat \<Rightarrow> nat" where
  "bit_length_fuel 0 n = 0"
| "bit_length_fuel (Suc k) n = (if n = 0 then 0 else Suc (bit_length_fuel k (n div 2)))"

definition js_number_nat :: "nat \<Rightarrow> nat" where
  "js_number_nat n =
     (if n \<le> 2 ^ 53 then n
      else let e = bit_length_fuel 1024 n - 53; q = n div 2 ^ e; r = n mod 2 ^ e; h = 2 ^ (e - 1)
           in if r > h \<or> (r = h \<and> odd q) then (q + 1) * 2 ^ e else q * 2 ^ e)"

definition js_number :: "int \<Rightarrow> int" where
  "js_number z = sgn z * int (js_number_nat (nat \<bar>z\<bar>))"

lemma js_number_nat_exact [simp]: "n \<le> 2 ^ 53 \<Longrightarrow> js_number_nat n = n"
  by (simp add: js_number_nat_def)

lemma js_number_exact [simp]: "\<bar>z\<bar> \<le> 2 ^ 53 \<Longrightarrow> js_number z = z"
proof -
  assume "\<bar>z\<bar> \<le> 2 ^ 53"
  then have "nat \<bar>z\<bar> \<le> 2 ^ 53" by simp
  then have "js_number z = sgn z * \<bar>z\<bar>" by (simp add: js_number_def)
  then show ?thesis by (simp add: sgn_mult_abs)
qed

lemma js_number_nonneg: "0 \<le> z \<Longrightarrow> 0 \<le> js_number z"
  by (cases "z = 0") (auto simp: js_number_def)

text \<open>\<open>ToInt32\<close>, the conversion the bitwise operators apply to their number operands.\<close>

definition to_int32 :: "int \<Rightarrow> int" where
  "to_int32 z = (let m = z mod 2 ^ 32 in if m \<ge> 2 ^ 31 then m - 2 ^ 32 else m)"

lemma to_int32_id [simp]: "- (2 ^ 31) \<le> z \<Longrightarrow> z < 2 ^ 31 \<Longrightarrow> to_int32 z = z"
proof -
  assume a: "- (2 ^ 31) \<le> z" "z < 2 ^ 31"
  show ?thesis
  proof (cases "0 \<le> z")
    case True
    with a show ?thesis by (simp add: to_int32_def)
  next
    case False
    with a have "z mod 2 ^ 32 = z + 2 ^ 32"
      by (intro mod_pos_pos_trivial [of "z + 2 ^ 32" "2 ^ 32", simplified mod_add_self2]) auto
    with a False show ?thesis by (simp add: to_int32_def)
  qed
qed

lemma to_int32_range: "- (2 ^ 31) \<le> to_int32 z \<and> to_int32 z < 2 ^ 31"
  by (simp add: to_int32_def Let_def) (smt (verit) pos_mod_bound pos_mod_sign)

text \<open>\<open>String(n)\<close> of an integer number: its decimal digits.\<close>

fun digits_of :: "nat \<Rightarrow> string" where
  "digits_of n = (if n < 10 then [char_of (48 + n)] else digits_of (n div 10) @ [char_of (48 + n mod 10)])"

declare digits_of.simps [simp del]

definition js_string_of_int :: "int \<Rightarrow> string" where
  "js_string_of_int z = (if z < 0 then CHR ''-'' # digits_of (nat (- z)) else digits_of (nat z))"

fun value_of_digits :: "string \<Rightarrow> nat" where
  "value_of_digits cs = foldl (\<lambda>v c. 10 * v + (of_char c - 48)) 0 cs"

lemma value_of_digits_of: "value_of_digits (digits_of n) = n"
proof (induction n rule: digits_of.induct)
  case (1 n)
  show ?case
  proof (cases "n < 10")
    case True
    then show ?thesis by (subst digits_of.simps) (simp add: of_char_of)
  next
    case False
    with "1.IH" have "foldl (\<lambda>v c. 10 * v + (of_char c - 48)) 0 (digits_of (n div 10)) = n div 10"
      by simp
    with False show ?thesis by (subst digits_of.simps) (simp add: of_char_of)
  qed
qed

lemma digits_of_inj: "digits_of m = digits_of n \<Longrightarrow> m = n"
  by (metis value_of_digits_of)

lemma digits_of_range: "c \<in> set (digits_of n) \<Longrightarrow> 48 \<le> (of_char c :: nat) \<and> (of_char c :: nat) \<le> 57"
proof (induction n rule: digits_of.induct)
  case (1 n)
  show ?case
  proof (cases "n < 10")
    case True
    with "1.prems" show ?thesis by (subst (asm) digits_of.simps) (simp add: of_char_of)
  next
    case False
    with 1 show ?thesis by (subst (asm) digits_of.simps) (auto simp: of_char_of)
  qed
qed

lemma digits_of_nonempty [simp]: "digits_of n \<noteq> []"
  by (subst digits_of.simps) simp

lemma js_string_of_int_inj: "js_string_of_int a = js_string_of_int b \<Longrightarrow> a = b"
proof -
  assume eq: "js_string_of_int a = js_string_of_int b"
  have no_minus: "CHR ''-'' # xs \<noteq> digits_of n" for xs n
  proof
    assume "CHR ''-'' # xs = digits_of n"
    then have "CHR ''-'' \<in> set (digits_of n)" by (metis list.set_intros(1))
    then show False using digits_of_range [of "CHR ''-''" n] by simp
  qed
  show "a = b"
    using eq no_minus [THEN not_sym] no_minus
    by (auto simp: js_string_of_int_def split: if_splits dest!: digits_of_inj)
qed

text \<open>Fields joined by a separator that the first field does not contain can be told apart again.\<close>

lemma delimited_eq:
  assumes "c \<notin> set a" and "c \<notin> set b"
  shows "a @ c # x = b @ c # y \<longleftrightarrow> a = b \<and> x = y"
proof
  assume eq: "a @ c # x = b @ c # y"
  have "takeWhile (\<lambda>d. d \<noteq> c) (a @ c # x) = a" "takeWhile (\<lambda>d. d \<noteq> c) (b @ c # y) = b"
    using assms by (simp_all add: takeWhile_tail) (metis takeWhile_eq_all_conv)+
  with eq show "a = b \<and> x = y" by simp
qed simp

section \<open>Text and bytes\<close>

text \<open>\<open>TextEncoder.encode\<close>: a string is its UTF-8 bytes, so only the element type changes.\<close>

definition text_encode :: "string \<Rightarrow> bytes" where
  "text_encode s = map (\<lambda>c. of_nat (of_char c)) s"

definition text_of_bytes :: "bytes \<Rightarrow> string" where
  "text_of_bytes b = map (\<lambda>w. char_of (unat w)) b"

lemma of_char_less_256 [simp]: "(of_char c :: nat) < 256"
  using of_char_mod_256 [of c, where ?'a = nat] by (metis mod_less_divisor zero_less_numeral)

lemma unat_of_char_byte [simp]: "unat (of_nat (of_char c) :: byte) = of_char c"
  by (simp add: unat_of_nat)

lemma byte_of_char_of_unat [simp]: "of_nat (of_char (char_of (unat w))) = (w :: byte)"
proof -
  have "unat w mod 256 = unat w" using unsigned_less [of w, where ?'a = nat] by simp
  then show ?thesis by (simp add: of_char_of)
qed

lemma text_of_text_encode [simp]: "text_of_bytes (text_encode s) = s"
  by (simp add: text_encode_def text_of_bytes_def comp_def map_idI)

lemma text_encode_text_of [simp]: "text_encode (text_of_bytes b) = b"
proof -
  have "of_nat (of_char (char_of (unat w))) = w" for w :: byte by (rule byte_of_char_of_unat)
  then show ?thesis
    by (simp add: text_encode_def text_of_bytes_def comp_def map_idI del: of_char_of)
qed

lemma text_encode_inj [simp]: "text_encode a = text_encode b \<longleftrightarrow> a = b"
  by (metis text_of_text_encode)

lemma text_encode_Nil [simp]: "text_encode s = [] \<longleftrightarrow> s = []" "text_encode [] = []"
  by (simp_all add: text_encode_def)

lemma text_encode_append [simp]: "text_encode (a @ b) = text_encode a @ text_encode b"
  by (simp add: text_encode_def)

lemma length_text_encode [simp]: "length (text_encode s) = length s"
  by (simp add: text_encode_def)

text \<open>\<open>toString('hex')\<close>, used wherever a key becomes a map key.\<close>

definition hex_digit :: "nat \<Rightarrow> char" where
  "hex_digit n = (if n < 10 then char_of (48 + n) else char_of (87 + n))"

definition hex_byte :: "byte \<Rightarrow> string" where
  "hex_byte b = [hex_digit (unat b div 16), hex_digit (unat b mod 16)]"

definition hex :: "bytes \<Rightarrow> string" where
  "hex bs = concat (map hex_byte bs)"

lemma of_char_hex_digit: "n < 16 \<Longrightarrow> (of_char (hex_digit n) :: nat) = (if n < 10 then 48 + n else 87 + n)"
  by (simp add: hex_digit_def of_char_of)

lemma hex_digit_inj: "m < 16 \<Longrightarrow> n < 16 \<Longrightarrow> hex_digit m = hex_digit n \<longleftrightarrow> m = n"
proof -
  assume m: "m < 16" and n: "n < 16"
  have "m = n" if "hex_digit m = hex_digit n"
  proof -
    from that have "(if m < 10 then 48 + m else 87 + m) = (if n < 10 then 48 + n else 87 + n)"
      by (metis m n of_char_hex_digit)
    then show "m = n" by presburger
  qed
  then show ?thesis by auto
qed

lemma unat_byte_div16 [simp]: "unat (b :: byte) div 16 < 16"
  using unsigned_less [of b, where ?'a = nat] by simp

lemma hex_chars:
  assumes "c \<in> set (hex bs)"
  shows "48 \<le> (of_char c :: nat) \<and> (of_char c :: nat) \<le> 57 \<or> 97 \<le> (of_char c :: nat) \<and> (of_char c :: nat) \<le> 102"
proof -
  from assms obtain b :: byte where "c = hex_digit (unat b div 16) \<or> c = hex_digit (unat b mod 16)"
    by (auto simp: hex_def hex_byte_def)
  then obtain n where "n < 16" "c = hex_digit n"
    using unat_byte_div16 [of b] mod_less_divisor [of 16 "unat b"] by (metis zero_less_numeral)
  then show ?thesis by (auto simp: of_char_hex_digit)
qed

lemma hex_no_colon: "CHR '':'' \<notin> set (hex bs)"
  by (auto dest: hex_chars)

lemma hex_byte_inj: "hex_byte a = hex_byte b \<longleftrightarrow> a = b"
proof
  assume "hex_byte a = hex_byte b"
  then have "unat a div 16 = unat b div 16" "unat a mod 16 = unat b mod 16"
    by (simp_all add: hex_byte_def hex_digit_inj)
  then have "unat a = unat b" by (metis div_mult_mod_eq)
  then show "a = b" by (simp add: unsigned_word_eqI)
qed simp

lemma length_hex [simp]: "length (hex bs) = 2 * length bs"
  by (induction bs) (simp_all add: hex_def hex_byte_def)

lemma hex_inj: "hex a = hex b \<longleftrightarrow> a = b"
proof
  show "hex a = hex b \<Longrightarrow> a = b"
  proof (induction a arbitrary: b)
    case Nil
    then show ?case by (cases b) (auto simp: hex_def hex_byte_def)
  next
    case (Cons x xs)
    then obtain y ys where b: "b = y # ys" by (cases b) (auto simp: hex_def hex_byte_def)
    with Cons.prems have "hex_byte x = hex_byte y \<and> hex xs = hex ys"
      by (simp add: hex_def hex_byte_def)
    with Cons.IH b show ?case by (simp add: hex_byte_inj)
  qed
qed simp

section \<open>Maps kept as association lists\<close>

text \<open>
  A JavaScript \<open>Map\<close> remembers the order in which its keys were first set, and the code reads
  that order (\<open>values()\<close>, \<open>entries()\<close>). \<open>al_set\<close> overwrites in place or appends, \<open>al_del\<close> removes.
\<close>

type_synonym ('k, 'v) jsmap = "('k \<times> 'v) list"

fun al_set :: "'k \<Rightarrow> 'v \<Rightarrow> ('k, 'v) jsmap \<Rightarrow> ('k, 'v) jsmap" where
  "al_set k v [] = [(k, v)]"
| "al_set k v ((k', v') # m) = (if k' = k then (k, v) # m else (k', v') # al_set k v m)"

definition al_del :: "'k \<Rightarrow> ('k, 'v) jsmap \<Rightarrow> ('k, 'v) jsmap" where
  "al_del k m = filter (\<lambda>(k', _). k' \<noteq> k) m"

lemma map_of_al_set [simp]: "map_of (al_set k v m) = (map_of m)(k \<mapsto> v)"
  by (induction k v m rule: al_set.induct) auto

lemma map_of_al_del [simp]: "map_of (al_del k m) = (map_of m)(k := None)"
  by (induction m) (auto simp: al_del_def)

lemma al_set_fresh: "map_of m k = None \<Longrightarrow> al_set k v m = m @ [(k, v)]"
  by (induction k v m rule: al_set.induct) (auto split: if_splits)

lemma keys_al_set: "map fst (al_set k v m) = (if k \<in> fst ` set m then map fst m else map fst m @ [k])"
  by (induction k v m rule: al_set.induct) auto

lemma distinct_al_set [simp]: "distinct (map fst m) \<Longrightarrow> distinct (map fst (al_set k v m))"
  by (auto simp: keys_al_set)

lemma distinct_al_del [simp]: "distinct (map fst m) \<Longrightarrow> distinct (map fst (al_del k m))"
  by (induction m) (auto simp: al_del_def)

lemma set_al_set_subset: "set (al_set k v m) \<subseteq> insert (k, v) (set m)"
  by (induction k v m rule: al_set.induct) auto

lemma dom_map_of_fst: "k \<in> fst ` set m \<longleftrightarrow> map_of m k \<noteq> None"
  by (simp add: map_of_eq_None_iff)

text \<open>The contract of such a map, as its clients rely on it.\<close>

locale keyed_store =
  fixes look :: "'m \<Rightarrow> 'k \<Rightarrow> 'v option"
    and store :: "'k \<Rightarrow> 'v \<Rightarrow> 'm \<Rightarrow> 'm"
    and erase :: "'k \<Rightarrow> 'm \<Rightarrow> 'm"
    and inv :: "'m \<Rightarrow> bool"
  assumes look_store: "inv m \<Longrightarrow> look (store k v m) k' = (if k' = k then Some v else look m k')"
    and look_erase: "inv m \<Longrightarrow> look (erase k m) k' = (if k' = k then None else look m k')"
    and inv_store: "inv m \<Longrightarrow> inv (store k v m)"
    and inv_erase: "inv m \<Longrightarrow> inv (erase k m)"
begin

lemma look_store_all:
  assumes "inv m"
  shows "look (foldl (\<lambda>m (k, v). store k v m) m kvs) k' =
    (case map_of (rev kvs) k' of Some v \<Rightarrow> Some v | None \<Rightarrow> look m k')"
  using assms
proof (induction kvs arbitrary: m)
  case Nil
  then show ?case by simp
next
  case (Cons kv kvs)
  obtain k v where kv: "kv = (k, v)" by (cases kv)
  from Cons kv show ?case
    by (auto simp: inv_store look_store map_add_def split: option.splits)
qed

lemma inv_store_all:
  assumes "inv m"
  shows "inv (foldl (\<lambda>m (k, v). store k v m) m kvs)"
  using assms by (induction kvs arbitrary: m) (auto simp: inv_store split: prod.splits)

end

interpretation js_map: keyed_store map_of al_set al_del "\<lambda>m. distinct (map fst m)"
  by unfold_locales auto

end
