(* ===== verification/JB_Wire.thy ===== *)
theory JB_Wire
  imports JB_Prelude
begin

unbundle bit_operations_syntax

text \<open>
  The protobuf wire primitives of \<open>packages/sdk-ts/src/core/wire.ts\<close> and the byte cursor of
  \<open>packages/sdk-ts/src/core/decode.ts\<close>: the growable \<open>ByteWriter\<close>, base-128 varints, tags,
  length-delimited fields, the length-framed concatenation that signing structures use, and the
  matching readers. The lemmas show that the growable buffer is a plain byte list, that a varint
  or a field that was written is read back with the rest of the input untouched, and that a list
  of such items has one decoding.
\<close>

section \<open>ByteWriter\<close>

text \<open>
  The writer is a buffer and a fill mark. \<open>grow_cap\<close> is the doubling loop of \<open>#ensure\<close>; on a
  zero capacity it never ends, so it is a partial function and every write is one too.
\<close>

record byte_writer =
  wbuf :: bytes
  wlen :: nat

definition bw_new :: "nat \<Rightarrow> byte_writer" where
  "bw_new initial_capacity = \<lparr>wbuf = replicate initial_capacity 0, wlen = 0\<rparr>"

partial_function (option) grow_cap :: "nat \<Rightarrow> nat \<Rightarrow> nat option" where
  "grow_cap cap needed = (if cap < needed then grow_cap (cap * 2) needed else Some cap)"

definition bw_set :: "bytes \<Rightarrow> nat \<Rightarrow> bytes \<Rightarrow> bytes" where
  "bw_set buf at src = take at buf @ src @ drop (at + length src) buf"

definition bw_ensure :: "nat \<Rightarrow> byte_writer \<Rightarrow> byte_writer option" where
  "bw_ensure extra w =
     (let needed = wlen w + extra
      in if needed \<le> length (wbuf w) then Some w
         else (case grow_cap (length (wbuf w) * 2) needed of
                 None \<Rightarrow> None
               | Some cap \<Rightarrow> Some (w\<lparr>wbuf := bw_set (replicate cap 0) 0 (take (wlen w) (wbuf w))\<rparr>)))"

definition bw_byte :: "byte \<Rightarrow> byte_writer \<Rightarrow> byte_writer option" where
  "bw_byte b w = (case bw_ensure 1 w of None \<Rightarrow> None
     | Some w' \<Rightarrow> Some (w'\<lparr>wbuf := (wbuf w')[wlen w' := b], wlen := wlen w' + 1\<rparr>))"

definition bw_bytes :: "bytes \<Rightarrow> byte_writer \<Rightarrow> byte_writer option" where
  "bw_bytes src w = (case bw_ensure (length src) w of None \<Rightarrow> None
     | Some w' \<Rightarrow> Some (w'\<lparr>wbuf := bw_set (wbuf w') (wlen w') src, wlen := wlen w' + length src\<rparr>))"

definition bw_finish :: "byte_writer \<Rightarrow> bytes" where
  "bw_finish w = take (wlen w) (wbuf w)"

definition bw_inv :: "byte_writer \<Rightarrow> bool" where
  "bw_inv w \<longleftrightarrow> 0 < length (wbuf w) \<and> wlen w \<le> length (wbuf w)"

lemma grow_cap_returns:
  assumes "0 < cap"
  shows "\<exists>c. grow_cap cap needed = Some c \<and> needed \<le> c \<and> cap \<le> c"
  using assms
proof (induction "needed - cap" arbitrary: cap rule: less_induct)
  case less
  show ?case
  proof (cases "cap < needed")
    case True
    with less.prems have "needed - cap * 2 < needed - cap" "0 < cap * 2" by auto
    then obtain c where "grow_cap (cap * 2) needed = Some c" "needed \<le> c" "cap * 2 \<le> c"
      using less.hyps by blast
    with True show ?thesis by (subst grow_cap.simps) auto
  next
    case False
    then show ?thesis by (subst grow_cap.simps) auto
  qed
qed

lemma length_bw_set: "at + length src \<le> length buf \<Longrightarrow> length (bw_set buf at src) = length buf"
  by (simp add: bw_set_def)

lemma bw_ensure_ok:
  assumes "bw_inv w"
  shows "\<exists>w'. bw_ensure extra w = Some w' \<and> bw_inv w' \<and> wlen w' = wlen w
           \<and> wlen w' + extra \<le> length (wbuf w') \<and> bw_finish w' = bw_finish w"
proof (cases "wlen w + extra \<le> length (wbuf w)")
  case True
  with assms show ?thesis by (auto simp: bw_ensure_def)
next
  case False
  from assms have "0 < length (wbuf w) * 2" by (simp add: bw_inv_def)
  then obtain c where c: "grow_cap (length (wbuf w) * 2) (wlen w + extra) = Some c"
    "wlen w + extra \<le> c" "length (wbuf w) * 2 \<le> c"
    using grow_cap_returns by blast
  from assms have "wlen w \<le> length (wbuf w)" by (simp add: bw_inv_def)
  with assms False c show ?thesis
    by (auto simp: bw_ensure_def bw_inv_def bw_finish_def bw_set_def min_def)
qed

text \<open>The writer refines the plain byte list: it always returns, and it appends.\<close>

lemma bw_byte_ok:
  assumes "bw_inv w"
  shows "\<exists>w'. bw_byte b w = Some w' \<and> bw_inv w' \<and> bw_finish w' = bw_finish w @ [b]"
proof -
  obtain w' where w': "bw_ensure 1 w = Some w'" "bw_inv w'" "wlen w' + 1 \<le> length (wbuf w')"
    "bw_finish w' = bw_finish w"
    using bw_ensure_ok [OF assms] by blast
  then have "take (Suc (wlen w')) ((wbuf w')[wlen w' := b]) = bw_finish w @ [b]"
    by (simp add: bw_finish_def take_Suc_conv_app_nth)
  with w' show ?thesis by (simp add: bw_byte_def bw_inv_def bw_finish_def)
qed

lemma bw_bytes_ok:
  assumes "bw_inv w"
  shows "\<exists>w'. bw_bytes src w = Some w' \<and> bw_inv w' \<and> bw_finish w' = bw_finish w @ src"
proof -
  obtain w' where w': "bw_ensure (length src) w = Some w'" "bw_inv w'"
    "wlen w' + length src \<le> length (wbuf w')" "bw_finish w' = bw_finish w"
    using bw_ensure_ok [OF assms] by blast
  from w'(3) have "take (wlen w' + length src) (bw_set (wbuf w') (wlen w') src) = bw_finish w' @ src"
    by (simp add: bw_finish_def bw_set_def)
  with w'(4) have "take (wlen w' + length src) (bw_set (wbuf w') (wlen w') src) = bw_finish w @ src"
    by simp
  moreover have "bw_set (wbuf w') (wlen w') src \<noteq> []"
    using length_bw_set [OF w'(3)] w'(2) unfolding bw_inv_def by (metis list.size(3) less_irrefl)
  ultimately show ?thesis using w' by (simp add: bw_bytes_def bw_inv_def bw_finish_def length_bw_set)
qed

section \<open>Varints and fields\<close>

definition WIRE_VARINT :: nat where "WIRE_VARINT = 0"
definition WIRE_LEN :: nat where "WIRE_LEN = 2"

text \<open>The loop of \<open>varint\<close>; \<open>Number(v)\<close> stored into a byte array keeps the low eight bits.\<close>

function varint_loop :: "int \<Rightarrow> bytes" where
  "varint_loop v =
     (if v \<ge> 128 then word_of_int (js_number ((v AND 127) OR 128)) # varint_loop (drop_bit 7 v)
      else [word_of_int (js_number v)])"
  by pat_completeness auto
termination
  by (relation "measure (\<lambda>v. nat v)") (auto simp: drop_bit_eq_div)

declare varint_loop.simps [simp del]

definition varint :: "int \<Rightarrow> bytes" where
  "varint v = varint_loop (if v < 0 then 2 ^ 64 + v else v)"

definition tag :: "nat \<Rightarrow> nat \<Rightarrow> bytes" where
  "tag field_number wire_type = varint (int (push_bit 3 field_number OR wire_type))"

definition write_length_delimited :: "nat \<Rightarrow> bytes \<Rightarrow> bytes" where
  "write_length_delimited field_number payload =
     tag field_number WIRE_LEN @ varint (int (length payload)) @ payload"

definition write_varint_field :: "nat \<Rightarrow> int \<Rightarrow> bytes" where
  "write_varint_field field_number v = tag field_number WIRE_VARINT @ varint v"

text \<open>The same bytes through the growable writer, one \<open>byte\<close> at a time as the code does.\<close>

fun bw_all :: "bytes \<Rightarrow> byte_writer \<Rightarrow> byte_writer option" where
  "bw_all [] w = Some w"
| "bw_all (b # bs) w = (case bw_byte b w of None \<Rightarrow> None | Some w' \<Rightarrow> bw_all bs w')"

definition bw_varint :: "int \<Rightarrow> byte_writer \<Rightarrow> byte_writer option" where
  "bw_varint v = bw_all (varint v)"

definition bw_length_delimited :: "nat \<Rightarrow> bytes \<Rightarrow> byte_writer \<Rightarrow> byte_writer option" where
  "bw_length_delimited field_number payload w =
     (case bw_varint (int (push_bit 3 field_number OR WIRE_LEN)) w of None \<Rightarrow> None
      | Some w1 \<Rightarrow> (case bw_varint (int (length payload)) w1 of None \<Rightarrow> None
          | Some w2 \<Rightarrow> bw_bytes payload w2))"

lemma bw_all_ok:
  "bw_inv w \<Longrightarrow> \<exists>w'. bw_all bs w = Some w' \<and> bw_inv w' \<and> bw_finish w' = bw_finish w @ bs"
proof (induction bs arbitrary: w)
  case Nil
  then show ?case by simp
next
  case (Cons b bs)
  obtain w1 where w1: "bw_byte b w = Some w1" "bw_inv w1" "bw_finish w1 = bw_finish w @ [b]"
    using bw_byte_ok [OF Cons.prems] by blast
  with Cons.IH [of w1] show ?case by auto
qed

lemma bw_length_delimited_ok:
  assumes "bw_inv w"
  shows "\<exists>w'. bw_length_delimited n payload w = Some w' \<and> bw_inv w'
           \<and> bw_finish w' = bw_finish w @ write_length_delimited n payload"
proof -
  obtain w1 where w1: "bw_varint (int (push_bit 3 n OR WIRE_LEN)) w = Some w1" "bw_inv w1"
    "bw_finish w1 = bw_finish w @ tag n WIRE_LEN"
    using bw_all_ok [OF assms] by (auto simp: bw_varint_def tag_def)
  obtain w2 where w2: "bw_varint (int (length payload)) w1 = Some w2" "bw_inv w2"
    "bw_finish w2 = bw_finish w1 @ varint (int (length payload))"
    using bw_all_ok [OF w1(2)] by (auto simp: bw_varint_def)
  from bw_bytes_ok [OF w2(2), of payload] w1 w2 show ?thesis
    by (auto simp: bw_length_delimited_def write_length_delimited_def)
qed

section \<open>Reading varints and fields back\<close>

text \<open>
  The reader's state is the part of the buffer after the cursor. Lengths and numbers are
  natural numbers here: a varint is never negative once decoded.
\<close>

datatype decode_error =
    TruncatedVarint
  | VarintTooLong
  | LengthExceedsBuffer
  | FieldZero
  | UnsupportedWireType
  | FieldTwice
  | FieldOutOfOrder
  | UnknownAntiAbuseField
  | UnknownEnvelopeField
  | InvalidUtf8
  | NotCanonical

fun read_varint_loop :: "nat \<Rightarrow> nat \<Rightarrow> nat \<Rightarrow> bytes \<Rightarrow> decode_error + (nat \<times> bytes)" where
  "read_varint_loop bytes_read shift result [] = Inl TruncatedVarint"
| "read_varint_loop bytes_read shift result (b # bs) =
     (if bytes_read + 1 > 10 then Inl VarintTooLong
      else let result' = result OR push_bit shift (unat (b AND 127))
           in if b AND 128 = 0 then Inr (result', bs)
              else read_varint_loop (bytes_read + 1) (shift + 7) result' bs)"

definition read_varint :: "bytes \<Rightarrow> decode_error + (nat \<times> bytes)" where
  "read_varint bs = read_varint_loop 0 0 0 bs"

definition read_take :: "nat \<Rightarrow> bytes \<Rightarrow> decode_error + (bytes \<times> bytes)" where
  "read_take n bs = (if n > length bs then Inl LengthExceedsBuffer else Inr (take n bs, drop n bs))"

datatype raw_field = RawVarint (raw_no: nat) nat | RawBytes (raw_no: nat) bytes

lemma read_varint_loop_shrinks:
  "read_varint_loop k s r bs = Inr (n, rest) \<Longrightarrow> length rest < length bs"
  by (induction k s r bs rule: read_varint_loop.induct)
     (auto simp: Let_def split: if_splits)

lemma read_varint_shrinks: "read_varint bs = Inr (n, rest) \<Longrightarrow> length rest < length bs"
  by (auto simp: read_varint_def dest: read_varint_loop_shrinks)

definition read_field :: "bytes \<Rightarrow> decode_error + (raw_field \<times> bytes)" where
  "read_field bs =
     res_bind (read_varint bs) (\<lambda>(t, r1).
       let field = js_number_nat (drop_bit 3 t); wire_type = js_number_nat (t AND 7)
       in if field = 0 then Inl FieldZero
          else if wire_type = WIRE_VARINT then
            res_bind (read_varint r1) (\<lambda>(v, r2). Inr (RawVarint field v, r2))
          else if wire_type = WIRE_LEN then
            res_bind (read_varint r1) (\<lambda>(n, r2).
              res_bind (read_take (js_number_nat n) r2) (\<lambda>(b, r3). Inr (RawBytes field b, r3)))
          else Inl UnsupportedWireType)"

lemma read_field_shrinks: "read_field bs = Inr (f, rest) \<Longrightarrow> length rest < length bs"
proof -
  assume h: "read_field bs = Inr (f, rest)"
  then obtain t r1 where r1: "read_varint bs = Inr (t, r1)"
    by (auto simp: read_field_def res_bind_eq_Inr)
  note s1 = read_varint_shrinks [OF r1]
  from h r1 obtain v r2 where r2: "read_varint r1 = Inr (v, r2)" "length rest \<le> length r2"
    by (fastforce simp: read_field_def res_bind_eq_Inr Let_def read_take_def split: if_splits)
  from s1 read_varint_shrinks [OF r2(1)] r2(2) show ?thesis by simp
qed

function (sequential) read_fields :: "bytes \<Rightarrow> decode_error + raw_field list" where
  "read_fields [] = Inr []"
| "read_fields bs =
     (case read_field bs of
        Inl e \<Rightarrow> Inl e
      | Inr (f, rest) \<Rightarrow> res_bind (read_fields rest) (\<lambda>fs. Inr (f # fs)))"
  by pat_completeness auto
termination
  by (relation "measure length") (auto dest: read_field_shrinks)

section \<open>Codec laws\<close>

lemma int_and_127: "(v::int) AND 127 = v mod 128"
  using take_bit_eq_mask [of 7 v] by (simp add: take_bit_eq_mod mask_eq_exp_minus_1)

lemma nat_and_127: "(v::nat) AND 127 = v mod 128"
  using take_bit_eq_mask [of 7 v] by (simp add: take_bit_eq_mod mask_eq_exp_minus_1)

lemma nat_and_7: "(v::nat) AND 7 = v mod 8"
  using take_bit_eq_mask [of 3 v] by (simp add: take_bit_eq_mod mask_eq_exp_minus_1)

lemma int_or_128: "0 \<le> m \<Longrightarrow> m < 128 \<Longrightarrow> (m::int) OR 128 = m + 128"
  using and_exp_eq_0_iff_not_bit [of m 7] disjunctive_add_eq_or [of m 128]
  by (simp add: bit_iff_odd)

lemma unat_and_127: "unat ((b::byte) AND 127) = unat b mod 128"
  by (simp add: unsigned_and_eq nat_and_127)

lemma and_128_eq0: "(b::byte) AND 128 = 0 \<longleftrightarrow> unat b < 128"
proof -
  have "unat b div 128 < 2" using unsigned_less [of b, where ?'a = nat] by simp
  then have "odd (unat b div 128) \<longleftrightarrow> \<not> unat b < 128" by (auto simp: less_2_cases_iff)
  moreover have "b AND 128 = 0 \<longleftrightarrow> unat b AND 128 = 0"
  proof -
    have "b AND 128 = 0 \<longleftrightarrow> unat (b AND 128) = 0" by (simp only: unat_eq_zero)
    also have "unat (b AND 128) = unat b AND 128" by (simp add: unsigned_and_eq)
    finally show ?thesis .
  qed
  ultimately show ?thesis
    using and_exp_eq_0_iff_not_bit [of "unat b" 7] by (simp add: bit_iff_odd)
qed

lemma nat_or_push_bit: "r < 2 ^ k \<Longrightarrow> (r::nat) OR push_bit k m = r + m * 2 ^ k"
proof -
  assume "r < 2 ^ k"
  then have "take_bit k r = r" by (simp add: take_bit_nat_eq_self_iff)
  then have "\<not> bit r n" if "k \<le> n" for n
    using that by (metis bit_take_bit_iff not_le)
  then have "r AND push_bit k m = 0"
    by (intro bit_eqI) (auto simp: bit_simps)
  then show ?thesis
    using disjunctive_add_eq_or [of r "push_bit k m"] by (simp add: push_bit_eq_mult)
qed

text \<open>
  A codec whose reader hands back the rest of the input. Its client law is unique decoding: two
  sequences of items that were written to the same bytes are the same sequence.
\<close>

locale prefix_code =
  fixes enc :: "'a \<Rightarrow> bytes"
    and dec :: "bytes \<Rightarrow> 'e + ('a \<times> bytes)"
    and ok :: "'a \<Rightarrow> bool"
  assumes dec_enc: "ok x \<Longrightarrow> dec (enc x @ rest) = Inr (x, rest)"
    and enc_nonempty: "ok x \<Longrightarrow> enc x \<noteq> []"
begin

lemma enc_append_inj:
  assumes "ok x" and "ok y" and "enc x @ r = enc y @ s"
  shows "x = y \<and> r = s"
proof -
  have "Inr (x, r) = dec (enc x @ r)" by (simp only: dec_enc [OF assms(1)])
  also have "\<dots> = dec (enc y @ s)" by (simp only: assms(3))
  also have "\<dots> = Inr (y, s)" by (simp only: dec_enc [OF assms(2)])
  finally show ?thesis by simp
qed

lemma concat_enc_inj:
  assumes "\<forall>x \<in> set xs. ok x" and "\<forall>y \<in> set ys. ok y"
    and "concat (map enc xs) = concat (map enc ys)"
  shows "xs = ys"
  using assms
proof (induction xs arbitrary: ys)
  case Nil
  show ?case
  proof (cases ys)
    case (Cons y ys')
    with Nil.prems have "ok y" by simp
    then have "enc y \<noteq> []" by (rule enc_nonempty)
    with Nil.prems(3) Cons show ?thesis by simp
  qed simp
next
  case (Cons x xs)
  from Cons.prems(1) have "ok x" by simp
  then have "enc x \<noteq> []" by (rule enc_nonempty)
  with Cons.prems(3) obtain y ys' where ys: "ys = y # ys'" by (cases ys) simp_all
  have "x = y \<and> concat (map enc xs) = concat (map enc ys')"
    by (rule enc_append_inj) (use Cons.prems ys in simp_all)
  with Cons.IH [of ys'] Cons.prems ys show ?case by simp
qed

end

subsection \<open>Varints\<close>

lemma varint_loop_read:
  assumes "0 \<le> v" and "nat v < 128 ^ (10 - k)" and "k < 10" and "r < 2 ^ (7 * k)"
  shows "read_varint_loop k (7 * k) r (varint_loop v @ rest) = Inr (r + nat v * 2 ^ (7 * k), rest)"
  using assms
proof (induction v arbitrary: k r rule: varint_loop.induct)
  case (1 v)
  show ?case
  proof (cases "v \<ge> 128")
    case True
    define b :: byte where "b = word_of_int (js_number ((v AND 127) OR 128))"
    have m: "0 \<le> v mod 128" "v mod 128 < 128" by simp_all
    then have b: "b = word_of_int (v mod 128 + 128)"
      by (simp add: b_def int_and_127 int_or_128)
    then have "uint b = v mod 128 + 128"
      using m by (simp only: b uint_word_of_int) simp
    then have ub: "unat b = nat (v mod 128) + 128"
      using m by (simp only: unat_eq_nat_uint nat_add_distrib)
    have "nat v < 128 ^ (10 - k)" by fact
    moreover have "128 \<le> nat v" using True by simp
    ultimately have k: "Suc k < 10"
    proof -
      have "\<not> 10 - k \<le> 1"
      proof
        assume "10 - k \<le> 1"
        then have "128 ^ (10 - k) \<le> (128::nat) ^ 1" by (rule power_increasing) simp
        with \<open>nat v < 128 ^ (10 - k)\<close> \<open>128 \<le> nat v\<close> show False
          by (simp only: power_one_right)
      qed
      then show ?thesis by simp
    qed
    have v': "drop_bit 7 v = v div 128" by (simp add: drop_bit_eq_div)
    have nv: "nat (v div 128) = nat v div 128" using True by (simp add: nat_div_distrib)
    have small: "nat (v div 128) < 128 ^ (10 - Suc k)"
    proof -
      have "10 - k = Suc (10 - Suc k)" using k by simp
      with \<open>nat v < 128 ^ (10 - k)\<close> have "nat v < 128 ^ (10 - Suc k) * 128" by simp
      then show ?thesis unfolding nv by (rule less_mult_imp_div_less)
    qed
    let ?r = "r + nat (v mod 128) * 2 ^ (7 * k)"
    have r': "?r < 2 ^ (7 * Suc k)"
    proof -
      have "nat (v mod 128) \<le> 127" using m by simp
      then have "nat (v mod 128) * 2 ^ (7 * k) \<le> 127 * 2 ^ (7 * k)" by (rule mult_le_mono1)
      with \<open>r < 2 ^ (7 * k)\<close> have "?r < 128 * 2 ^ (7 * k)" by linarith
      then show ?thesis by (simp add: power_add mult.commute)
    qed
    have ih: "read_varint_loop (Suc k) (7 * Suc k) ?r (varint_loop (v div 128) @ rest)
        = Inr (?r + nat (v div 128) * 2 ^ (7 * Suc k), rest)"
      using "1.IH" [OF True, of "Suc k" ?r] k small r' True by (simp add: v')
    have "varint_loop v = b # varint_loop (v div 128)"
      using True by (subst varint_loop.simps) (simp add: b_def v')
    moreover have "b AND 128 \<noteq> 0" using ub by (simp add: and_128_eq0)
    moreover have "unat (b AND 127) = nat (v mod 128)" using ub m by (simp add: unat_and_127)
    ultimately have "read_varint_loop k (7 * k) r (varint_loop v @ rest)
        = Inr (?r + nat (v div 128) * 2 ^ (7 * Suc k), rest)"
      using ih \<open>r < 2 ^ (7 * k)\<close> k by (simp add: nat_or_push_bit Let_def add.commute)
    moreover have "?r + nat (v div 128) * 2 ^ (7 * Suc k) = r + nat v * 2 ^ (7 * k)"
    proof -
      have "nat v = nat (v mod 128) + nat (v div 128) * 128"
        using True by (simp add: nv nat_mod_distrib)
      then show ?thesis by (simp add: power_add algebra_simps)
    qed
    ultimately show ?thesis by simp
  next
    case False
    with "1.prems" have v: "0 \<le> v" "v < 128" by auto
    then have b: "varint_loop v = [word_of_int v]" by (subst varint_loop.simps) simp
    have "uint (word_of_int v :: byte) = v" using v by (simp add: uint_word_of_int)
    then have "unat (word_of_int v :: byte) = nat v" by (simp only: unat_eq_nat_uint)
    moreover have "nat v < 128" using v by simp
    ultimately show ?thesis using "1.prems" v b
      by (simp add: and_128_eq0 unat_and_127 nat_or_push_bit Let_def)
  qed
qed

lemma varint_read:
  assumes "n < 2 ^ 70"
  shows "read_varint (varint (int n) @ rest) = Inr (n, rest)"
  using varint_loop_read [of "int n" 0 0 rest] assms by (simp add: read_varint_def varint_def)

lemma varint_nonempty [simp]: "varint v \<noteq> []"
  unfolding varint_def by (subst varint_loop.simps) simp

interpretation varint_code: prefix_code "\<lambda>n. varint (int n)" read_varint "\<lambda>n. n < 2 ^ 70"
  by unfold_locales (simp_all add: varint_read)

subsection \<open>Fields\<close>

definition enc_field :: "raw_field \<Rightarrow> bytes" where
  "enc_field f = (case f of RawVarint n v \<Rightarrow> write_varint_field n (int v)
                          | RawBytes n b \<Rightarrow> write_length_delimited n b)"

definition field_ok :: "raw_field \<Rightarrow> bool" where
  "field_ok f = (case f of RawVarint n v \<Rightarrow> 0 < n \<and> n \<le> 2 ^ 53 \<and> v < 2 ^ 70
                         | RawBytes n b \<Rightarrow> 0 < n \<and> n \<le> 2 ^ 53 \<and> length b \<le> 2 ^ 53)"

lemma nat_tag:
  assumes "w < 8"
  shows "push_bit 3 n OR w = n * 8 + (w::nat)"
proof -
  have "push_bit 3 n OR w = w OR push_bit 3 n" by (simp add: or.commute)
  also have "\<dots> = w + n * 2 ^ 3" using assms by (intro nat_or_push_bit) simp
  finally show ?thesis by simp
qed

lemma tag_read:
  assumes "w < 8" and "n \<le> 2 ^ 53"
  shows "read_varint (tag n w @ rest) = Inr (n * 8 + w, rest)"
proof -
  have "n * 8 + w < 2 ^ 70" using assms by simp
  then show ?thesis using assms by (simp only: tag_def nat_tag varint_read)
qed

lemma read_field_enc:
  assumes "field_ok f"
  shows "read_field (enc_field f @ rest) = Inr (f, rest)"
proof (cases f)
  case (RawVarint n v)
  with assms have "0 < n" "n \<le> 2 ^ 53" "v < 2 ^ 70" by (simp_all add: field_ok_def)
  then show ?thesis
    by (simp add: RawVarint enc_field_def write_varint_field_def WIRE_VARINT_def read_field_def
        tag_read drop_bit_eq_div nat_and_7 varint_read)
next
  case (RawBytes n b)
  with assms have "0 < n" "n \<le> 2 ^ 53" "length b \<le> 2 ^ 53" by (simp_all add: field_ok_def)
  moreover have "Suc (Suc (n * 8)) div 8 = n" "Suc (Suc (n * 8)) mod 8 = 2" by presburger+
  ultimately show ?thesis
    by (simp add: Let_def RawBytes enc_field_def write_length_delimited_def WIRE_VARINT_def WIRE_LEN_def
        read_field_def tag_read drop_bit_eq_div nat_and_7 varint_read read_take_def)
qed

lemma tag_nonempty [simp]: "tag n w \<noteq> []"
  by (simp add: tag_def)

interpretation field_code: prefix_code enc_field read_field field_ok
proof unfold_locales
  show "field_ok f \<Longrightarrow> read_field (enc_field f @ rest) = Inr (f, rest)" for f rest
    by (rule read_field_enc)
  show "field_ok f \<Longrightarrow> enc_field f \<noteq> []" for f
    by (simp add: enc_field_def write_varint_field_def write_length_delimited_def split: raw_field.splits)
qed

lemma read_fields_concat:
  assumes "\<forall>f \<in> set fs. field_ok f"
  shows "read_fields (concat (map enc_field fs)) = Inr fs"
  using assms
proof (induction fs)
  case Nil
  then show ?case by simp
next
  case (Cons f fs)
  let ?bs = "enc_field f @ concat (map enc_field fs)"
  have "field_ok f" using Cons.prems by simp
  then have ne: "enc_field f \<noteq> []" and rd: "read_field ?bs = Inr (f, concat (map enc_field fs))"
    by (rule field_code.enc_nonempty, intro read_field_enc)
  from ne obtain b bs where bs: "?bs = b # bs" by (cases "enc_field f") auto
  have "read_fields ?bs = res_bind (read_fields (concat (map enc_field fs))) (\<lambda>fs. Inr (f # fs))"
    using rd unfolding bs by simp
  with Cons show ?case by simp
qed

section \<open>Framed concatenation\<close>

text \<open>
  \<open>setUint32\<close> writes the length modulo \<open>2 ^ 32\<close>, big-endian, in front of every part.
\<close>

definition set_uint32_be :: "nat \<Rightarrow> bytes" where
  "set_uint32_be n = [of_nat (n div 2 ^ 24), of_nat (n div 2 ^ 16), of_nat (n div 2 ^ 8), of_nat n]"

definition frame_part :: "bytes \<Rightarrow> bytes" where
  "frame_part part = set_uint32_be (length part) @ part"

definition frame_parts :: "bytes list \<Rightarrow> bytes" where
  "frame_parts parts = foldl (\<lambda>out part. out @ frame_part part) [] parts"

definition concat_bytes :: "bytes list \<Rightarrow> bytes" where
  "concat_bytes parts = foldl (\<lambda>out part. out @ part) [] parts"

lemma frame_parts_concat: "frame_parts parts = concat (map frame_part parts)"
proof -
  have "foldl (\<lambda>out part. out @ frame_part part) acc ps = acc @ concat (map frame_part ps)" for acc ps
    by (induction ps arbitrary: acc) auto
  then show ?thesis by (simp add: frame_parts_def)
qed

lemma concat_bytes_concat: "concat_bytes parts = concat parts"
proof -
  have "foldl (\<lambda>out part. out @ part) acc ps = acc @ concat ps" for acc and ps :: "bytes list"
    by (induction ps arbitrary: acc) auto
  then show ?thesis by (simp add: concat_bytes_def)
qed

text \<open>The unique reading of a frame; the sources only ever write frames.\<close>

definition uint32_be :: "byte \<Rightarrow> byte \<Rightarrow> byte \<Rightarrow> byte \<Rightarrow> nat" where
  "uint32_be a b c d = ((unat a * 256 + unat b) * 256 + unat c) * 256 + unat d"

fun read_frame :: "bytes \<Rightarrow> unit + (bytes \<times> bytes)" where
  "read_frame (a # b # c # d # rest) =
     (let n = uint32_be a b c d
      in if n \<le> length rest then Inr (take n rest, drop n rest) else Inl ())"
| "read_frame _ = Inl ()"

lemma uint32_be_set:
  assumes "n < 2 ^ 32"
  shows "uint32_be (of_nat (n div 2 ^ 24)) (of_nat (n div 2 ^ 16)) (of_nat (n div 2 ^ 8)) (of_nat n) = n"
proof -
  have m: "n div 2 ^ 24 mod 256 = n div 2 ^ 24" using assms by (simp add: less_mult_imp_div_less)
  moreover have "n div 2 ^ 24 = n div 2 ^ 16 div 256" "n div 2 ^ 16 = n div 2 ^ 8 div 256"
    using div_mult2_eq [of n "2 ^ 16" 256] div_mult2_eq [of n "2 ^ 8" 256] by simp_all
  moreover have "n div 2 ^ 16 div 256 * 256 + n div 2 ^ 16 mod 256 = n div 2 ^ 16"
    "n div 2 ^ 8 div 256 * 256 + n div 2 ^ 8 mod 256 = n div 2 ^ 8"
    "n div 2 ^ 8 * 256 + n mod 256 = n"
    using div_mult_mod_eq [of n 256] by (simp_all only: div_mult_mod_eq power_numeral) simp
  ultimately have "((n div 2 ^ 24 * 256 + n div 2 ^ 16 mod 256) * 256 + n div 2 ^ 8 mod 256) * 256
           + n mod 256 = n"
    by (simp only:)
  then show ?thesis using m by (simp add: uint32_be_def unat_of_nat)
qed

lemma read_frame_part:
  assumes "length p < 2 ^ 32"
  shows "read_frame (frame_part p @ rest) = Inr (p, rest)"
  by (simp add: frame_part_def set_uint32_be_def uint32_be_set [OF assms, simplified])

interpretation frame_code: prefix_code frame_part read_frame "\<lambda>p. length p < 2 ^ 32"
proof unfold_locales
  show "length p < 2 ^ 32 \<Longrightarrow> read_frame (frame_part p @ rest) = Inr (p, rest)" for p rest
    by (rule read_frame_part)
  show "length p < 2 ^ 32 \<Longrightarrow> frame_part p \<noteq> []" for p
    by (simp add: frame_part_def set_uint32_be_def)
qed

lemma frame_parts_inj:
  assumes "\<forall>p \<in> set ps. length p < 2 ^ 32" and "\<forall>q \<in> set qs. length q < 2 ^ 32"
    and "frame_parts ps = frame_parts qs"
  shows "ps = qs"
  using frame_code.concat_enc_inj [OF assms(1,2)] assms(3) by (simp add: frame_parts_concat)

section \<open>Byte equality\<close>

definition bytes_equal :: "bytes \<Rightarrow> bytes \<Rightarrow> bool" where
  "bytes_equal a b =
     (if length a \<noteq> length b then False
      else foldl (\<lambda>diff (x, y). diff OR (x XOR y)) 0 (zip a b) = 0)"

lemma bytes_diff_zero:
  "length a = length b \<Longrightarrow>
   foldl (\<lambda>diff (x, y). diff OR (x XOR y)) d (zip a b) = 0 \<longleftrightarrow> d = (0 :: byte) \<and> a = b"
proof (induction a b arbitrary: d rule: list_induct2)
  case Nil
  then show ?case by simp
next
  case (Cons x xs y ys)
  have "d OR (x XOR y) = 0 \<longleftrightarrow> d = 0 \<and> x = y"
    by (auto simp: or_eq_0_iff) (metis xor.assoc xor_self_eq xor.right_neutral xor.left_neutral)
  with Cons show ?case by auto
qed

lemma bytes_equal_iff [simp]: "bytes_equal a b \<longleftrightarrow> a = b"
  using bytes_diff_zero [of a b 0] by (auto simp: bytes_equal_def)

end
