(* ===== verification/JB_Canonical.thy ===== *)
theory JB_Canonical
  imports JB_Wire
begin

unbundle bit_operations_syntax

text \<open>
  The signed shape of an envelope and its one encoded form: \<open>core/types.ts\<close>, \<open>core/canonical.ts\<close>
  and \<open>core/decode.ts\<close> of \<open>packages/sdk-ts\<close>. Unicode normalisation (\<open>normalize('NFC')\<close>) is the
  parameter \<open>nfc\<close>. The lemmas show that what is encoded is decoded to the same envelope, that the
  decoder accepts exactly the encodings of well-formed envelopes, and that the signed bytes
  determine every signed field.
\<close>

section \<open>Data\<close>

definition ENVELOPE_VERSION :: int where "ENVELOPE_VERSION = 1"
definition PLANE_FORUM :: int where "PLANE_FORUM = 1"
definition PLANE_SIGNAL :: int where "PLANE_SIGNAL = 2"
definition ALG_ED25519 :: int where "ALG_ED25519 = 1"
definition PRIO_BROADCAST :: int where "PRIO_BROADCAST = 1"
definition PRIO_DIRECT :: int where "PRIO_DIRECT = 2"
definition PRIO_CHECKIN :: int where "PRIO_CHECKIN = 3"
definition PRIO_BULK :: int where "PRIO_BULK = 4"
definition NONCE_BYTES :: nat where "NONCE_BYTES = 16"
definition ED25519_SIGNATURE_BYTES :: nat where "ED25519_SIGNATURE_BYTES = 64"

record anti_abuse =
  aa_credential :: "bytes option"
  aa_nullifier :: "bytes option"
  aa_epoch :: "int option"
  aa_pow :: "bytes option"

record envelope =
  version :: int
  plane :: int
  domain :: string
  author_key :: bytes
  key_alg :: int
  parent :: string
  env_scope :: string
  created_at_ms :: int
  nonce :: bytes
  priority :: int
  body :: bytes
  env_anti_abuse :: "anti_abuse option"

record signed_envelope = envelope +
  signature :: bytes

section \<open>The encoder\<close>

text \<open>
  The two calls the encoder makes on its writer, as data, so that the same sequence can be run on
  the growable writer and on a plain byte list.
\<close>

datatype wfield = WVarint nat int | WBytes nat bytes

fun write_field :: "wfield \<Rightarrow> bytes" where
  "write_field (WVarint n v) = write_varint_field n v"
| "write_field (WBytes n b) = write_length_delimited n b"

fun bw_field :: "wfield \<Rightarrow> byte_writer \<Rightarrow> byte_writer option" where
  "bw_field (WVarint n v) w =
     (case bw_varint (int (push_bit 3 n OR WIRE_VARINT)) w of None \<Rightarrow> None
      | Some w' \<Rightarrow> bw_varint v w')"
| "bw_field (WBytes n b) w = bw_length_delimited n b w"

fun bw_fields :: "wfield list \<Rightarrow> byte_writer \<Rightarrow> byte_writer option" where
  "bw_fields [] w = Some w"
| "bw_fields (f # fs) w = (case bw_field f w of None \<Rightarrow> None | Some w' \<Rightarrow> bw_fields fs w')"

definition encode_utf8_nfc :: "(string \<Rightarrow> string) \<Rightarrow> string \<Rightarrow> bytes" where
  "encode_utf8_nfc nfc s = text_encode (nfc s)"

definition opt_length :: "bytes option \<Rightarrow> nat" where
  "opt_length b = (case b of None \<Rightarrow> 0 | Some x \<Rightarrow> length x)"

definition aa_bytes :: "bytes option \<Rightarrow> bytes" where
  "aa_bytes b = (case b of None \<Rightarrow> [] | Some x \<Rightarrow> x)"

definition aa_number :: "int option \<Rightarrow> int" where
  "aa_number b = (case b of None \<Rightarrow> 0 | Some x \<Rightarrow> x)"

definition is_anti_abuse_empty :: "anti_abuse option \<Rightarrow> bool" where
  "is_anti_abuse_empty a = (case a of None \<Rightarrow> True
     | Some a \<Rightarrow> opt_length (aa_credential a) = 0 \<and> opt_length (aa_nullifier a) = 0
                \<and> aa_number (aa_epoch a) = 0 \<and> opt_length (aa_pow a) = 0)"

definition anti_abuse_fields :: "anti_abuse \<Rightarrow> wfield list" where
  "anti_abuse_fields a =
     opt (opt_length (aa_credential a) \<noteq> 0) (WBytes 1 (aa_bytes (aa_credential a)))
     @ opt (opt_length (aa_nullifier a) \<noteq> 0) (WBytes 2 (aa_bytes (aa_nullifier a)))
     @ opt (aa_number (aa_epoch a) \<noteq> 0) (WVarint 3 (aa_number (aa_epoch a)))
     @ opt (opt_length (aa_pow a) \<noteq> 0) (WBytes 4 (aa_bytes (aa_pow a)))"

definition encode_anti_abuse :: "anti_abuse \<Rightarrow> bytes" where
  "encode_anti_abuse a = concat (map write_field (anti_abuse_fields a))"

definition envelope_fields :: "(string \<Rightarrow> string) \<Rightarrow> 'a envelope_scheme \<Rightarrow> wfield list" where
  "envelope_fields nfc env =
     opt (version env \<noteq> 0) (WVarint 1 (version env))
     @ opt (plane env \<noteq> 0) (WVarint 2 (plane env))
     @ opt (domain env \<noteq> []) (WBytes 3 (encode_utf8_nfc nfc (domain env)))
     @ opt (author_key env \<noteq> []) (WBytes 4 (author_key env))
     @ opt (key_alg env \<noteq> 0) (WVarint 5 (key_alg env))
     @ opt (parent env \<noteq> []) (WBytes 6 (encode_utf8_nfc nfc (parent env)))
     @ opt (env_scope env \<noteq> []) (WBytes 7 (encode_utf8_nfc nfc (env_scope env)))
     @ opt (created_at_ms env \<noteq> 0) (WVarint 8 (created_at_ms env))
     @ opt (nonce env \<noteq> []) (WBytes 9 (nonce env))
     @ opt (priority env \<noteq> 0) (WVarint 10 (priority env))
     @ opt (body env \<noteq> []) (WBytes 11 (body env))
     @ opt (\<not> is_anti_abuse_empty (env_anti_abuse env))
           (WBytes 12 (encode_anti_abuse (the (env_anti_abuse env))))"

definition canonical_bytes :: "(string \<Rightarrow> string) \<Rightarrow> 'a envelope_scheme \<Rightarrow> bytes" where
  "canonical_bytes nfc env = concat (map write_field (envelope_fields nfc env))"

definition signature_fields :: "bytes \<Rightarrow> wfield list" where
  "signature_fields sig = opt (sig \<noteq> []) (WBytes 13 sig)"

definition encode_signed_envelope :: "(string \<Rightarrow> string) \<Rightarrow> signed_envelope \<Rightarrow> bytes" where
  "encode_signed_envelope nfc env =
     canonical_bytes nfc env @ concat (map write_field (signature_fields (signature env)))"

text \<open>The same through the growable writer, with the initial capacities of the code.\<close>

definition canonical_bytes_bw :: "(string \<Rightarrow> string) \<Rightarrow> 'a envelope_scheme \<Rightarrow> bytes option" where
  "canonical_bytes_bw nfc env = map_option bw_finish (bw_fields (envelope_fields nfc env) (bw_new 512))"

definition encode_signed_envelope_bw :: "(string \<Rightarrow> string) \<Rightarrow> signed_envelope \<Rightarrow> bytes option" where
  "encode_signed_envelope_bw nfc env =
     (case canonical_bytes_bw nfc env of None \<Rightarrow> None
      | Some c \<Rightarrow> (case bw_bytes c (bw_new 640) of None \<Rightarrow> None
          | Some w \<Rightarrow> map_option bw_finish (bw_fields (signature_fields (signature env)) w)))"

lemma bw_field_ok:
  assumes "bw_inv w"
  shows "\<exists>w'. bw_field f w = Some w' \<and> bw_inv w' \<and> bw_finish w' = bw_finish w @ write_field f"
proof (cases f)
  case (WVarint n v)
  obtain w1 where w1: "bw_varint (int (push_bit 3 n OR WIRE_VARINT)) w = Some w1" "bw_inv w1"
    "bw_finish w1 = bw_finish w @ tag n WIRE_VARINT"
    using bw_all_ok [OF assms] by (auto simp: bw_varint_def tag_def)
  from bw_all_ok [OF w1(2), of "varint v"] w1 show ?thesis
    by (auto simp: WVarint bw_varint_def write_varint_field_def)
next
  case (WBytes n b)
  with bw_length_delimited_ok [OF assms] show ?thesis by simp
qed

lemma bw_fields_ok:
  "bw_inv w \<Longrightarrow> \<exists>w'. bw_fields fs w = Some w' \<and> bw_inv w' \<and> bw_finish w' = bw_finish w @ concat (map write_field fs)"
proof (induction fs arbitrary: w)
  case (Cons f fs)
  obtain w1 where "bw_field f w = Some w1" "bw_inv w1" "bw_finish w1 = bw_finish w @ write_field f"
    using bw_field_ok [OF Cons.prems] by blast
  with Cons.IH [of w1] show ?case by auto
qed simp

lemma bw_new_inv [simp]: "0 < n \<Longrightarrow> bw_inv (bw_new n)" "bw_finish (bw_new n) = []"
  by (simp_all add: bw_inv_def bw_new_def bw_finish_def)

lemma canonical_bytes_bw: "canonical_bytes_bw nfc env = Some (canonical_bytes nfc env)"
  using bw_fields_ok [of "bw_new 512" "envelope_fields nfc env"]
  by (auto simp: canonical_bytes_bw_def canonical_bytes_def)

lemma encode_signed_envelope_bw: "encode_signed_envelope_bw nfc env = Some (encode_signed_envelope nfc env)"
proof -
  obtain w where w: "bw_bytes (canonical_bytes nfc env) (bw_new 640) = Some w" "bw_inv w"
    "bw_finish w = canonical_bytes nfc env"
    using bw_bytes_ok [of "bw_new 640" "canonical_bytes nfc env"] by auto
  from bw_fields_ok [OF w(2), of "signature_fields (signature env)"] w show ?thesis
    by (auto simp: encode_signed_envelope_bw_def canonical_bytes_bw encode_signed_envelope_def)
qed

section \<open>The decoder\<close>

text \<open>
  \<open>TextDecoder('utf-8', { fatal: true })\<close>: the well-formed sequences of the Unicode standard; a
  leading byte order mark is dropped, since \<open>ignoreBOM\<close> is not set.
\<close>

definition cont :: "byte \<Rightarrow> bool" where
  "cont b \<longleftrightarrow> 0x80 \<le> b \<and> b \<le> 0xBF"

fun utf8_valid :: "bytes \<Rightarrow> bool" where
  "utf8_valid [] = True"
| "utf8_valid (a # r) =
     (if a \<le> 0x7F then utf8_valid r
      else if 0xC2 \<le> a \<and> a \<le> 0xDF then
        (case r of b # r1 \<Rightarrow> cont b \<and> utf8_valid r1 | _ \<Rightarrow> False)
      else if 0xE0 \<le> a \<and> a \<le> 0xEF then
        (case r of b # c # r2 \<Rightarrow>
           (if a = 0xE0 then 0xA0 \<le> b \<and> b \<le> 0xBF else if a = 0xED then 0x80 \<le> b \<and> b \<le> 0x9F else cont b)
           \<and> cont c \<and> utf8_valid r2 | _ \<Rightarrow> False)
      else if 0xF0 \<le> a \<and> a \<le> 0xF4 then
        (case r of b # c # d # r3 \<Rightarrow>
           (if a = 0xF0 then 0x90 \<le> b \<and> b \<le> 0xBF else if a = 0xF4 then 0x80 \<le> b \<and> b \<le> 0x8F else cont b)
           \<and> cont c \<and> cont d \<and> utf8_valid r3 | _ \<Rightarrow> False)
      else False)"

definition BOM :: bytes where "BOM = [0xEF, 0xBB, 0xBF]"

definition text_decode :: "bytes \<Rightarrow> decode_error + string" where
  "text_decode b =
     (if utf8_valid b then Inr (text_of_bytes (if take 3 b = BOM then drop 3 b else b)) else Inl InvalidUtf8)"

fun raw_bytes :: "raw_field \<Rightarrow> bytes" where
  "raw_bytes (RawBytes n b) = b"
| "raw_bytes (RawVarint n v) = []"

fun raw_varint :: "raw_field \<Rightarrow> nat" where
  "raw_varint (RawVarint n v) = v"
| "raw_varint (RawBytes n b) = 0"

fun assert_ascending_unique :: "nat \<Rightarrow> raw_field list \<Rightarrow> decode_error + unit" where
  "assert_ascending_unique previous [] = Inr ()"
| "assert_ascending_unique previous (f # fs) =
     (if raw_no f = previous then Inl FieldTwice
      else if raw_no f < previous then Inl FieldOutOfOrder
      else assert_ascending_unique (raw_no f) fs)"

definition anti_abuse_step :: "anti_abuse \<Rightarrow> raw_field \<Rightarrow> decode_error + anti_abuse" where
  "anti_abuse_step out f =
     (let n = raw_no f in
      if n = 1 then Inr (out\<lparr>aa_credential := Some (raw_bytes f)\<rparr>)
      else if n = 2 then Inr (out\<lparr>aa_nullifier := Some (raw_bytes f)\<rparr>)
      else if n = 3 then Inr (out\<lparr>aa_epoch := Some (int (js_number_nat (raw_varint f)))\<rparr>)
      else if n = 4 then Inr (out\<lparr>aa_pow := Some (raw_bytes f)\<rparr>)
      else Inl UnknownAntiAbuseField)"

definition no_anti_abuse :: anti_abuse where
  "no_anti_abuse = \<lparr>aa_credential = None, aa_nullifier = None, aa_epoch = None, aa_pow = None\<rparr>"

definition decode_anti_abuse :: "bytes \<Rightarrow> decode_error + anti_abuse" where
  "decode_anti_abuse buf =
     res_bind (read_fields buf) (\<lambda>fields.
     res_bind (assert_ascending_unique 0 fields) (\<lambda>_.
     res_fold anti_abuse_step no_anti_abuse fields))"

definition base_envelope :: signed_envelope where
  "base_envelope = \<lparr>version = 0, plane = 0, domain = [], author_key = [], key_alg = 0, parent = [],
     env_scope = [], created_at_ms = 0, nonce = [], priority = 0, body = [], env_anti_abuse = None,
     signature = []\<rparr>"

definition envelope_step :: "signed_envelope \<Rightarrow> raw_field \<Rightarrow> decode_error + signed_envelope" where
  "envelope_step e f =
     (let n = raw_no f; num = int (js_number_nat (raw_varint f)) in
      if n = 1 then Inr (e\<lparr>version := num\<rparr>)
      else if n = 2 then Inr (e\<lparr>plane := num\<rparr>)
      else if n = 3 then res_bind (text_decode (raw_bytes f)) (\<lambda>s. Inr (e\<lparr>domain := s\<rparr>))
      else if n = 4 then Inr (e\<lparr>author_key := raw_bytes f\<rparr>)
      else if n = 5 then Inr (e\<lparr>key_alg := num\<rparr>)
      else if n = 6 then res_bind (text_decode (raw_bytes f)) (\<lambda>s. Inr (e\<lparr>parent := s\<rparr>))
      else if n = 7 then res_bind (text_decode (raw_bytes f)) (\<lambda>s. Inr (e\<lparr>env_scope := s\<rparr>))
      else if n = 8 then Inr (e\<lparr>created_at_ms := int (raw_varint f)\<rparr>)
      else if n = 9 then Inr (e\<lparr>nonce := raw_bytes f\<rparr>)
      else if n = 10 then Inr (e\<lparr>priority := num\<rparr>)
      else if n = 11 then Inr (e\<lparr>body := raw_bytes f\<rparr>)
      else if n = 12 then res_bind (decode_anti_abuse (raw_bytes f)) (\<lambda>a. Inr (e\<lparr>env_anti_abuse := Some a\<rparr>))
      else if n = 13 then Inr (e\<lparr>signature := raw_bytes f\<rparr>)
      else Inl UnknownEnvelopeField)"

definition decode_signed_envelope :: "(string \<Rightarrow> string) \<Rightarrow> bytes \<Rightarrow> decode_error + signed_envelope" where
  "decode_signed_envelope nfc raw =
     res_bind (read_fields raw) (\<lambda>fields.
     res_bind (assert_ascending_unique 0 fields) (\<lambda>_.
     res_bind (res_fold envelope_step base_envelope fields) (\<lambda>envelope.
     if \<not> bytes_equal (encode_signed_envelope nfc envelope) raw then Inl NotCanonical
     else Inr envelope)))"

section \<open>Reading back what was written\<close>

definition to_raw :: "wfield \<Rightarrow> raw_field" where
  "to_raw w = (case w of WVarint n v \<Rightarrow> RawVarint n (nat v) | WBytes n b \<Rightarrow> RawBytes n b)"

text \<open>A field as the encoder writes it, before any bound on the number it carries.\<close>

definition written :: "wfield \<Rightarrow> bool" where
  "written w = (case w of WVarint n v \<Rightarrow> 0 < n \<and> n \<le> 2 ^ 53 \<and> 0 \<le> v
     | WBytes n b \<Rightarrow> 0 < n \<and> n \<le> 2 ^ 53 \<and> length b \<le> 2 ^ 53)"

definition in_range :: "wfield \<Rightarrow> bool" where
  "in_range w = (case w of WVarint n v \<Rightarrow> v < 2 ^ 70 | WBytes n b \<Rightarrow> True)"

lemma write_field_enc: "written w \<Longrightarrow> write_field w = enc_field (to_raw w)"
  by (cases w) (simp_all add: written_def to_raw_def enc_field_def)

lemma field_ok_to_raw: "written w \<Longrightarrow> in_range w \<Longrightarrow> field_ok (to_raw w)"
  by (cases w) (auto simp: written_def in_range_def to_raw_def field_ok_def nat_less_iff)

lemma read_varint_loop_too_long:
  assumes "128 ^ (10 - k) \<le> nat v" and "k \<le> 10"
  shows "read_varint_loop k s r (varint_loop v @ rest) = Inl VarintTooLong"
  using assms
proof (induction v arbitrary: k s r rule: varint_loop.induct)
  case (1 v)
  show ?case
  proof (cases "k = 10")
    case True
    then show ?thesis by (subst varint_loop.simps) simp
  next
    case False
    with "1.prems" have k: "Suc k \<le> 10" "10 - k = Suc (10 - Suc k)" by simp_all
    have "(128 :: nat) * 1 \<le> 128 * 128 ^ (10 - Suc k)" by (rule mult_le_mono2) simp
    also have "\<dots> = 128 ^ (10 - k)" by (simp only: k(2) power_Suc)
    also have "\<dots> \<le> nat v" by (rule "1.prems"(1))
    finally have "128 \<le> nat v" by simp
    then have ge: "v \<ge> 128" by simp
    define b :: byte where "b = word_of_int (js_number ((v AND 127) OR 128))"
    have m: "0 \<le> v mod 128" "v mod 128 < 128" by simp_all
    then have b: "b = word_of_int (v mod 128 + 128)"
      by (simp add: b_def int_and_127 int_or_128)
    then have "uint b = v mod 128 + 128"
      using m by (simp only: b uint_word_of_int) simp
    then have "unat b = nat (v mod 128) + 128"
      using m by (simp only: unat_eq_nat_uint nat_add_distrib)
    then have hi: "b AND 128 \<noteq> 0" by (simp add: and_128_eq0)
    have "128 * 128 ^ (10 - Suc k) \<le> nat v" using "1.prems" k by simp
    then have "128 ^ (10 - Suc k) \<le> nat v div 128"
      by (simp add: less_eq_div_iff_mult_less_eq mult.commute)
    moreover have "nat (drop_bit 7 v) = nat v div 128" using ge by (simp add: drop_bit_eq_div nat_div_distrib)
    ultimately have "read_varint_loop (Suc k) s' r' (varint_loop (drop_bit 7 v) @ rest) = Inl VarintTooLong" for s' r'
      using "1.IH" [OF ge] k by simp
    with hi k ge show ?thesis
      by (subst varint_loop.simps) (simp add: b_def [symmetric] Let_def)
  qed
qed

lemma read_field_out_of_range:
  assumes "written w" and "\<not> in_range w"
  shows "read_field (write_field w @ rest) = Inl VarintTooLong"
proof -
  obtain n v where w: "w = WVarint n v" using assms(2) by (cases w) (auto simp: in_range_def)
  with assms have n: "0 < n" "n \<le> 2 ^ 53" and "0 \<le> v" "2 ^ 70 \<le> v"
    by (auto simp: written_def in_range_def)
  then have "128 ^ (10 - 0) \<le> nat v" by (simp add: le_nat_iff)
  then have "read_varint (varint v @ rest) = Inl VarintTooLong"
    using read_varint_loop_too_long [of 0 v 0 0 rest] \<open>0 \<le> v\<close> by (simp add: read_varint_def varint_def)
  with n show ?thesis
    by (simp add: w write_varint_field_def WIRE_VARINT_def read_field_def tag_read drop_bit_eq_div nat_and_7)
qed

text \<open>Reading the encoder's output succeeds only with exactly the fields it wrote.\<close>

lemma read_fields_written:
  assumes "\<forall>w \<in> set ws. written w"
    and "read_fields (concat (map write_field ws)) = Inr fs"
  shows "fs = map to_raw ws \<and> (\<forall>w \<in> set ws. in_range w)"
  using assms
proof (induction ws arbitrary: fs)
  case Nil
  then show ?case by simp
next
  case (Cons w ws)
  let ?rest = "concat (map write_field ws)"
  have w: "written w" using Cons.prems by simp
  have "write_field w \<noteq> []" using w by (cases w) (simp_all add: write_varint_field_def write_length_delimited_def)
  then obtain b bs where bs: "write_field w @ ?rest = b # bs" by (cases "write_field w") auto
  have run: "read_fields (write_field w @ ?rest) = (case read_field (write_field w @ ?rest) of
        Inl e \<Rightarrow> Inl e | Inr (f, rest) \<Rightarrow> res_bind (read_fields rest) (\<lambda>fs. Inr (f # fs)))"
    unfolding bs by simp
  have r: "in_range w"
    using Cons.prems(2) run read_field_out_of_range [OF w, of ?rest] by (cases "in_range w") auto
  have "read_field (write_field w @ ?rest) = Inr (to_raw w, ?rest)"
    using read_field_enc [OF field_ok_to_raw [OF w r]] by (simp add: write_field_enc [OF w])
  with Cons.prems run obtain fs' where "read_fields ?rest = Inr fs'" "fs = to_raw w # fs'"
    by (auto simp: res_bind_eq_Inr)
  with Cons.IH [of fs'] Cons.prems r show ?case by simp
qed

lemma read_fields_in_range:
  assumes "\<forall>w \<in> set ws. written w \<and> in_range w"
  shows "read_fields (concat (map write_field ws)) = Inr (map to_raw ws)"
proof -
  have "map write_field ws = map enc_field (map to_raw ws)"
    using assms by (simp add: write_field_enc)
  moreover have "\<forall>f \<in> set (map to_raw ws). field_ok f" using assms by (auto intro: field_ok_to_raw)
  ultimately show ?thesis using read_fields_concat by metis
qed

lemma map_opt: "map f (opt b x) = opt b (f x)"
  by (simp add: opt_def)

lemma sorted_opt_append: "p < x \<Longrightarrow> sorted_wrt (<) (x # r) \<Longrightarrow> sorted_wrt (<) (p # opt b x @ r)"
  and sorted_opt_last: "p < x \<Longrightarrow> sorted_wrt (<) (p # opt b x)" for p :: nat
  by (cases b; force)+

lemma assert_ascending_sorted:
  "assert_ascending_unique p fs = Inr () \<longleftrightarrow> sorted_wrt (<) (p # map raw_no fs)"
  by (induction fs arbitrary: p) (force split: if_splits)+

lemma raw_no_to_raw [simp]: "raw_no (to_raw (WVarint n v)) = n" "raw_no (to_raw (WBytes n b)) = n"
  by (simp_all add: to_raw_def)

lemma anti_abuse_fields_ascending:
  "assert_ascending_unique 0 (map to_raw (anti_abuse_fields a)) = Inr ()"
  unfolding assert_ascending_sorted anti_abuse_fields_def map_append map_opt raw_no_to_raw
  by (intro sorted_opt_append sorted_opt_last) simp_all

lemma envelope_fields_ascending:
  "assert_ascending_unique 0 (map to_raw (envelope_fields nfc e @ signature_fields sig)) = Inr ()"
  unfolding assert_ascending_sorted envelope_fields_def signature_fields_def map_append map_opt
    raw_no_to_raw append_assoc
  by (intro sorted_opt_append sorted_opt_last) simp_all

section \<open>What the fold rebuilds\<close>

lemma res_fold_opt: "res_fold f s (opt b x) = (if b then f s x else Inr s)"
  by (cases "f s x") (simp_all add: opt_def)

definition aa_norm_bytes :: "bytes option \<Rightarrow> bytes option" where
  "aa_norm_bytes b = (if opt_length b = 0 then None else b)"

definition aa_norm :: "anti_abuse \<Rightarrow> anti_abuse" where
  "aa_norm a = \<lparr>aa_credential = aa_norm_bytes (aa_credential a), aa_nullifier = aa_norm_bytes (aa_nullifier a),
     aa_epoch = (if aa_number (aa_epoch a) = 0 then None
                 else Some (int (js_number_nat (nat (aa_number (aa_epoch a)))))),
     aa_pow = aa_norm_bytes (aa_pow a)\<rparr>"

lemma fold_anti_abuse:
  "res_fold anti_abuse_step no_anti_abuse (map to_raw (anti_abuse_fields a)) = Inr (aa_norm a)"
proof -
  have b: "opt_length x \<noteq> 0 \<Longrightarrow> aa_norm_bytes x = Some (aa_bytes x)"
    and n: "opt_length x = 0 \<Longrightarrow> aa_norm_bytes x = None" for x
    by (cases x; simp add: opt_length_def aa_bytes_def aa_norm_bytes_def)+
  show ?thesis
    by (cases "opt_length (aa_credential a) = 0"; cases "opt_length (aa_nullifier a) = 0";
        cases "aa_number (aa_epoch a) = 0"; cases "opt_length (aa_pow a) = 0")
       (simp_all add: anti_abuse_fields_def to_raw_def anti_abuse_step_def no_anti_abuse_def aa_norm_def b n)
qed

lemma decode_anti_abuse_encode:
  assumes "\<forall>w \<in> set (anti_abuse_fields a). written w"
  shows "decode_anti_abuse (encode_anti_abuse a) = Inr a' \<Longrightarrow>
           a' = aa_norm a \<and> (\<forall>w \<in> set (anti_abuse_fields a). in_range w)"
    and "\<forall>w \<in> set (anti_abuse_fields a). in_range w \<Longrightarrow>
           decode_anti_abuse (encode_anti_abuse a) = Inr (aa_norm a)"
proof -
  show "a' = aa_norm a \<and> (\<forall>w \<in> set (anti_abuse_fields a). in_range w)"
    if h: "decode_anti_abuse (encode_anti_abuse a) = Inr a'"
  proof -
    obtain fs where fs: "read_fields (encode_anti_abuse a) = Inr fs"
      and f: "res_fold anti_abuse_step no_anti_abuse fs = Inr a'"
      using h unfolding decode_anti_abuse_def res_bind_eq_Inr by blast
    from read_fields_written [OF assms fs [unfolded encode_anti_abuse_def]] f
    show ?thesis by (auto simp: fold_anti_abuse)
  qed
  show "decode_anti_abuse (encode_anti_abuse a) = Inr (aa_norm a)"
    if "\<forall>w \<in> set (anti_abuse_fields a). in_range w"
    using read_fields_in_range [of "anti_abuse_fields a"] assms that
    by (simp add: decode_anti_abuse_def encode_anti_abuse_def anti_abuse_fields_ascending fold_anti_abuse)
qed

text \<open>Each segment of the envelope resets one field of the base record, or leaves its default.\<close>

definition dec_num :: "int \<Rightarrow> int" where
  "dec_num v = int (js_number_nat (nat v))"

definition dec_str :: "(string \<Rightarrow> string) \<Rightarrow> string \<Rightarrow> decode_error + string" where
  "dec_str nfc s = (if s = [] then Inr [] else text_decode (encode_utf8_nfc nfc s))"

definition dec_aa :: "anti_abuse option \<Rightarrow> decode_error + anti_abuse option" where
  "dec_aa a = (if is_anti_abuse_empty a then Inr None
     else res_bind (decode_anti_abuse (encode_anti_abuse (the a))) (\<lambda>a. Inr (Some a)))"

lemma dec_num_0 [simp]: "dec_num 0 = 0"
  by (simp add: dec_num_def)

lemma fold_varint_segments:
  "version s = 0 \<Longrightarrow> res_fold envelope_step s (opt (v \<noteq> 0) (to_raw (WVarint 1 v))) = Inr (s\<lparr>version := dec_num v\<rparr>)"
  "plane s = 0 \<Longrightarrow> res_fold envelope_step s (opt (v \<noteq> 0) (to_raw (WVarint 2 v))) = Inr (s\<lparr>plane := dec_num v\<rparr>)"
  "key_alg s = 0 \<Longrightarrow> res_fold envelope_step s (opt (v \<noteq> 0) (to_raw (WVarint 5 v))) = Inr (s\<lparr>key_alg := dec_num v\<rparr>)"
  "created_at_ms s = 0 \<Longrightarrow> 0 \<le> v \<Longrightarrow>
     res_fold envelope_step s (opt (v \<noteq> 0) (to_raw (WVarint 8 v))) = Inr (s\<lparr>created_at_ms := v\<rparr>)"
  "priority s = 0 \<Longrightarrow> res_fold envelope_step s (opt (v \<noteq> 0) (to_raw (WVarint 10 v))) = Inr (s\<lparr>priority := dec_num v\<rparr>)"
  by (simp_all add: res_fold_opt envelope_step_def to_raw_def dec_num_def)

lemma fold_bytes_segments:
  "author_key s = [] \<Longrightarrow> res_fold envelope_step s (opt (b \<noteq> []) (to_raw (WBytes 4 b))) = Inr (s\<lparr>author_key := b\<rparr>)"
  "nonce s = [] \<Longrightarrow> res_fold envelope_step s (opt (b \<noteq> []) (to_raw (WBytes 9 b))) = Inr (s\<lparr>nonce := b\<rparr>)"
  "body s = [] \<Longrightarrow> res_fold envelope_step s (opt (b \<noteq> []) (to_raw (WBytes 11 b))) = Inr (s\<lparr>body := b\<rparr>)"
  "signature s = [] \<Longrightarrow> res_fold envelope_step s (opt (b \<noteq> []) (to_raw (WBytes 13 b))) = Inr (s\<lparr>signature := b\<rparr>)"
  by (simp_all add: res_fold_opt envelope_step_def to_raw_def)

lemma fold_string_segments:
  "domain s = [] \<Longrightarrow> res_fold envelope_step s (opt (x \<noteq> []) (to_raw (WBytes 3 (encode_utf8_nfc nfc x))))
     = res_bind (dec_str nfc x) (\<lambda>d. Inr (s\<lparr>domain := d\<rparr>))"
  "parent s = [] \<Longrightarrow> res_fold envelope_step s (opt (x \<noteq> []) (to_raw (WBytes 6 (encode_utf8_nfc nfc x))))
     = res_bind (dec_str nfc x) (\<lambda>d. Inr (s\<lparr>parent := d\<rparr>))"
  "env_scope s = [] \<Longrightarrow> res_fold envelope_step s (opt (x \<noteq> []) (to_raw (WBytes 7 (encode_utf8_nfc nfc x))))
     = res_bind (dec_str nfc x) (\<lambda>d. Inr (s\<lparr>env_scope := d\<rparr>))"
  "env_anti_abuse s = None \<Longrightarrow>
   res_fold envelope_step s (opt (\<not> is_anti_abuse_empty a) (to_raw (WBytes 12 (encode_anti_abuse (the a)))))
     = res_bind (dec_aa a) (\<lambda>a. Inr (s\<lparr>env_anti_abuse := a\<rparr>))"
  by (simp_all add: res_fold_opt envelope_step_def to_raw_def dec_str_def dec_aa_def res_bind_def split: sum.splits)

lemma fold_envelope_fields:
  assumes "0 \<le> created_at_ms e"
  shows "res_fold envelope_step base_envelope (map to_raw (envelope_fields nfc e @ signature_fields (signature e))) =
    res_bind (dec_str nfc (domain e)) (\<lambda>d.
    res_bind (dec_str nfc (parent e)) (\<lambda>p.
    res_bind (dec_str nfc (env_scope e)) (\<lambda>sc.
    res_bind (dec_aa (env_anti_abuse e)) (\<lambda>a.
      Inr \<lparr>version = dec_num (version e), plane = dec_num (plane e), domain = d, author_key = author_key e,
        key_alg = dec_num (key_alg e), parent = p, env_scope = sc, created_at_ms = created_at_ms e,
        nonce = nonce e, priority = dec_num (priority e), body = body e, env_anti_abuse = a,
        signature = signature e\<rparr>))))"
  unfolding envelope_fields_def signature_fields_def map_append map_opt append_assoc
  using assms
  by (cases "dec_str nfc (domain e)"; cases "dec_str nfc (parent e)"; cases "dec_str nfc (env_scope e)";
      cases "dec_aa (env_anti_abuse e)")
     (simp_all add: res_fold_append fold_varint_segments fold_bytes_segments fold_string_segments base_envelope_def
       del: One_nat_def)

section \<open>Well-formed envelopes\<close>

text \<open>
  The envelopes that have an accepted encoding: numbers a double holds exactly, a time below the
  reach of a ten-byte varint, normalised text without a byte order mark in front, and no empty
  anti-abuse member.
\<close>

definition num_ok :: "int \<Rightarrow> bool" where
  "num_ok v \<longleftrightarrow> 0 \<le> v \<and> v < 2 ^ 70 \<and> js_number v = v"

definition string_ok :: "(string \<Rightarrow> string) \<Rightarrow> string \<Rightarrow> bool" where
  "string_ok nfc s \<longleftrightarrow> s = [] \<or> (nfc s = s \<and> utf8_valid (text_encode s) \<and> take 3 (text_encode s) \<noteq> BOM)"

definition anti_abuse_ok :: "anti_abuse option \<Rightarrow> bool" where
  "anti_abuse_ok a = (case a of None \<Rightarrow> True
     | Some x \<Rightarrow> \<not> is_anti_abuse_empty a \<and> aa_credential x \<noteq> Some [] \<and> aa_nullifier x \<noteq> Some []
         \<and> aa_pow x \<noteq> Some [] \<and> aa_epoch x \<noteq> Some 0 \<and> num_ok (aa_number (aa_epoch x)))"

definition envelope_ok :: "(string \<Rightarrow> string) \<Rightarrow> 'a envelope_scheme \<Rightarrow> bool" where
  "envelope_ok nfc e \<longleftrightarrow> num_ok (version e) \<and> num_ok (plane e) \<and> num_ok (key_alg e) \<and> num_ok (priority e)
     \<and> 0 \<le> created_at_ms e \<and> created_at_ms e < 2 ^ 70
     \<and> string_ok nfc (domain e) \<and> string_ok nfc (parent e) \<and> string_ok nfc (env_scope e)
     \<and> anti_abuse_ok (env_anti_abuse e)"

definition nonneg_aa :: "anti_abuse \<Rightarrow> bool" where
  "nonneg_aa a \<longleftrightarrow> 0 \<le> aa_number (aa_epoch a)"

definition nonneg :: "'a envelope_scheme \<Rightarrow> bool" where
  "nonneg e \<longleftrightarrow> 0 \<le> version e \<and> 0 \<le> plane e \<and> 0 \<le> key_alg e \<and> 0 \<le> priority e \<and> 0 \<le> created_at_ms e
     \<and> pred_option nonneg_aa (env_anti_abuse e)"

lemma dec_num_js: "0 \<le> v \<Longrightarrow> dec_num v = js_number v"
  by (cases "v = 0") (simp_all add: dec_num_def js_number_def)

lemma dec_str_ok: "string_ok nfc s \<Longrightarrow> dec_str nfc s = Inr s"
  by (auto simp: string_ok_def dec_str_def encode_utf8_nfc_def text_decode_def)

text \<open>
  The other direction uses two facts of Unicode normalisation: it is idempotent, and a byte order
  mark in front of a string stays in front.
\<close>

lemma string_ok_dec:
  assumes "\<And>s. nfc (nfc s) = nfc s" and "\<And>s. nfc (text_of_bytes BOM @ s) = text_of_bytes BOM @ nfc s"
    and "dec_str nfc s = Inr s"
  shows "string_ok nfc s"
proof (cases "s = []")
  case False
  with assms(3) have v: "utf8_valid (text_encode (nfc s))"
    and s: "s = text_of_bytes (if take 3 (text_encode (nfc s)) = BOM then drop 3 (text_encode (nfc s))
                               else text_encode (nfc s))"
    by (auto simp: dec_str_def encode_utf8_nfc_def text_decode_def split: if_splits)
  have "take 3 (text_encode (nfc s)) \<noteq> BOM"
  proof
    assume bom: "take 3 (text_encode (nfc s)) = BOM"
    with s have "text_encode s = drop 3 (text_encode (nfc s))" by (metis text_encode_text_of)
    with bom have "text_encode (nfc s) = BOM @ text_encode s" by (metis append_take_drop_id)
    then have n: "nfc s = text_of_bytes BOM @ s"
      by (metis text_encode_append text_encode_text_of text_of_text_encode)
    then have "nfc (text_of_bytes BOM @ s) = text_of_bytes BOM @ s" using assms(1) [of s] by simp
    with assms(2) [of s] n have "text_of_bytes BOM @ s = s" by simp
    then show False by (simp add: BOM_def text_of_bytes_def)
  qed
  with s v show ?thesis by (simp add: string_ok_def)
qed (simp add: string_ok_def)

lemma aa_norm_ok:
  assumes "anti_abuse_ok (Some x)"
  shows "aa_norm x = x"
proof -
  have n: "b \<noteq> Some [] \<Longrightarrow> aa_norm_bytes b = b" for b
    by (cases b) (simp_all add: aa_norm_bytes_def opt_length_def)
  have "num_ok (aa_number (aa_epoch x))" and "aa_epoch x \<noteq> Some 0"
    using assms by (simp_all add: anti_abuse_ok_def)
  then have "(if aa_number (aa_epoch x) = 0 then None
       else Some (int (js_number_nat (nat (aa_number (aa_epoch x)))))) = aa_epoch x"
    using dec_num_js [of "aa_number (aa_epoch x)"]
    by (cases "aa_epoch x") (auto simp: aa_number_def num_ok_def dec_num_def)
  with assms n show ?thesis by (simp add: aa_norm_def anti_abuse_ok_def)
qed

lemma anti_abuse_ok_norm:
  assumes "aa_norm x = x" and "\<not> is_anti_abuse_empty (Some x)" and "nonneg_aa x"
    and "aa_number (aa_epoch x) < 2 ^ 70"
  shows "anti_abuse_ok (Some x)"
proof -
  have b: "aa_credential x = aa_norm_bytes (aa_credential x)" "aa_nullifier x = aa_norm_bytes (aa_nullifier x)"
    "aa_pow x = aa_norm_bytes (aa_pow x)"
    and e: "aa_epoch x = (if aa_number (aa_epoch x) = 0 then None
                 else Some (int (js_number_nat (nat (aa_number (aa_epoch x))))))"
    by (subst assms(1) [symmetric], simp add: aa_norm_def)+
  have n: "aa_norm_bytes y \<noteq> Some []" for y
    by (cases y) (auto simp: aa_norm_bytes_def opt_length_def)
  have "anti_abuse_ok (Some x)"
    if "aa_epoch x = Some v" for v
  proof -
    have v: "v \<noteq> 0" "dec_num v = v"
      using e unfolding that by (auto simp: aa_number_def dec_num_def split: if_splits)
    have "0 \<le> v" "v < 2 ^ 70" using assms(3,4) that by (simp_all add: nonneg_aa_def aa_number_def)
    with v have "num_ok v" using dec_num_js [of v] by (simp add: num_ok_def)
    with v that assms(2) n show ?thesis by (simp add: anti_abuse_ok_def aa_number_def) (metis b)
  qed
  moreover have "anti_abuse_ok (Some x)" if "aa_epoch x = None"
    using that assms(2) n by (simp add: anti_abuse_ok_def aa_number_def num_ok_def) (metis b)
  ultimately show ?thesis by (cases "aa_epoch x") auto
qed

lemma write_field_length: "WBytes n b \<in> set ws \<Longrightarrow> length b \<le> length (concat (map write_field ws))"
proof (induction ws)
  case (Cons w ws)
  then show ?case by (auto simp: write_length_delimited_def)
qed simp

lemma fields_written:
  assumes "nonneg e" and "length (encode_signed_envelope nfc e) \<le> 2 ^ 53"
  shows "\<forall>w \<in> set (envelope_fields nfc e @ signature_fields (signature e)). written w"
proof
  fix w
  assume w: "w \<in> set (envelope_fields nfc e @ signature_fields (signature e))"
  show "written w"
  proof (cases w)
    case (WVarint n v)
    with w assms(1) show ?thesis
      by (auto simp: envelope_fields_def signature_fields_def nonneg_def written_def )
  next
    case (WBytes n b)
    with w have "length b \<le> length (encode_signed_envelope nfc e)"
      using write_field_length [of n b "envelope_fields nfc e @ signature_fields (signature e)"]
      by (simp add: encode_signed_envelope_def canonical_bytes_def)
    moreover from w WBytes have "0 < n \<and> n \<le> 13"
      by (auto simp: envelope_fields_def signature_fields_def)
    ultimately show ?thesis using assms(2) by (simp add: WBytes written_def)
  qed
qed

lemma aa_fields_written:
  assumes "nonneg e" and "length (encode_signed_envelope nfc e) \<le> 2 ^ 53"
    and "env_anti_abuse e = Some a" and "\<not> is_anti_abuse_empty (Some a)"
  shows "\<forall>w \<in> set (anti_abuse_fields a). written w"
proof
  fix w
  assume w: "w \<in> set (anti_abuse_fields a)"
  have a: "length (encode_anti_abuse a) \<le> 2 ^ 53"
    using fields_written [OF assms(1,2)] assms(3,4) by (auto simp: envelope_fields_def written_def)
  show "written w"
  proof (cases w)
    case (WVarint n v)
    with w assms(1,3) show ?thesis
      by (auto simp: anti_abuse_fields_def nonneg_def nonneg_aa_def written_def )
  next
    case (WBytes n b)
    with w have "length b \<le> length (encode_anti_abuse a)"
      using write_field_length [of n b "anti_abuse_fields a"] by (simp add: encode_anti_abuse_def)
    moreover from w WBytes have "0 < n \<and> n \<le> 4"
      by (auto simp: anti_abuse_fields_def split: if_splits)
    ultimately show ?thesis using a by (simp add: WBytes written_def)
  qed
qed

lemma envelope_ok_nonneg: "envelope_ok nfc e \<Longrightarrow> nonneg e"
  by (auto simp: envelope_ok_def nonneg_def num_ok_def anti_abuse_ok_def nonneg_aa_def split: option.splits)

lemma envelope_ok_in_range:
  "envelope_ok nfc e \<Longrightarrow> w \<in> set (envelope_fields nfc e @ signature_fields sig) \<Longrightarrow> in_range w"
  by (auto simp: envelope_ok_def num_ok_def envelope_fields_def signature_fields_def in_range_def)

lemma encode_signed_fields:
  "encode_signed_envelope nfc e = concat (map write_field (envelope_fields nfc e @ signature_fields (signature e)))"
  by (simp add: encode_signed_envelope_def canonical_bytes_def)

lemma dec_aa_ok:
  assumes "envelope_ok nfc e" and "length (encode_signed_envelope nfc e) \<le> 2 ^ 53"
  shows "dec_aa (env_anti_abuse e) = Inr (env_anti_abuse e)"
proof (cases "env_anti_abuse e")
  case None
  then show ?thesis by (simp add: dec_aa_def is_anti_abuse_empty_def)
next
  case (Some a)
  with assms(1) have ok: "anti_abuse_ok (Some a)" by (simp add: envelope_ok_def)
  then have ne: "\<not> is_anti_abuse_empty (Some a)" by (simp add: anti_abuse_ok_def)
  have "\<forall>w \<in> set (anti_abuse_fields a). in_range w"
    using ok by (auto simp: anti_abuse_ok_def num_ok_def anti_abuse_fields_def in_range_def split: if_splits)
  then have "decode_anti_abuse (encode_anti_abuse a) = Inr (aa_norm a)"
    by (intro decode_anti_abuse_encode(2) aa_fields_written [OF envelope_ok_nonneg [OF assms(1)] assms(2) Some ne])
  with ne aa_norm_ok [OF ok] Some show ?thesis by (simp add: dec_aa_def)
qed

lemma decode_encode:
  assumes "envelope_ok nfc e" and "length (encode_signed_envelope nfc e) \<le> 2 ^ 53"
  shows "decode_signed_envelope nfc (encode_signed_envelope nfc e) = Inr e"
proof -
  let ?ws = "envelope_fields nfc e @ signature_fields (signature e)"
  have "\<forall>w \<in> set ?ws. written w \<and> in_range w"
    using fields_written [OF envelope_ok_nonneg [OF assms(1)] assms(2)] envelope_ok_in_range [OF assms(1)] by blast
  then have "read_fields (encode_signed_envelope nfc e) = Inr (map to_raw ?ws)"
    unfolding encode_signed_fields by (rule read_fields_in_range)
  moreover have "res_fold envelope_step base_envelope (map to_raw ?ws) = Inr e"
    using assms(1) dec_aa_ok [OF assms] fold_envelope_fields [of e nfc]
    by (simp add: envelope_ok_def num_ok_def dec_num_js dec_str_ok)
  ultimately show ?thesis by (simp only: decode_signed_envelope_def res_simps envelope_fields_ascending
        bytes_equal_iff simp_thms if_False)
qed

lemma decode_nonneg_aa: "decode_anti_abuse b = Inr a \<Longrightarrow> nonneg_aa a"
proof -
  assume "decode_anti_abuse b = Inr a"
  then obtain fs where "res_fold anti_abuse_step no_anti_abuse fs = Inr a"
    unfolding decode_anti_abuse_def res_bind_eq_Inr by blast
  moreover have "nonneg_aa s \<Longrightarrow> anti_abuse_step s x = Inr s' \<Longrightarrow> nonneg_aa s'" for s x s'
    by (auto simp: anti_abuse_step_def nonneg_aa_def aa_number_def Let_def split: if_splits)
  moreover have "nonneg_aa no_anti_abuse" by (simp add: nonneg_aa_def no_anti_abuse_def aa_number_def)
  ultimately show ?thesis using res_fold_invariant [of nonneg_aa anti_abuse_step] by blast
qed

lemma envelope_step_nonneg: "nonneg s \<Longrightarrow> envelope_step s x = Inr s' \<Longrightarrow> nonneg s'"
  by (auto simp: envelope_step_def nonneg_def Let_def res_bind_eq_Inr split: if_splits dest: decode_nonneg_aa)

text \<open>Everything the decoder accepts is well formed and is the encoding of what it returns.\<close>

lemma decode_sound:
  assumes "\<And>s. nfc (nfc s) = nfc s" and "\<And>s. nfc (text_of_bytes BOM @ s) = text_of_bytes BOM @ nfc s"
    and "length raw \<le> 2 ^ 53" and "decode_signed_envelope nfc raw = Inr e"
  shows "envelope_ok nfc e \<and> encode_signed_envelope nfc e = raw"
proof -
  let ?ws = "envelope_fields nfc e @ signature_fields (signature e)"
  obtain fs where fs: "read_fields raw = Inr fs" and f: "res_fold envelope_step base_envelope fs = Inr e"
    and eq: "encode_signed_envelope nfc e = raw"
    using assms(4) by (auto simp: decode_signed_envelope_def res_bind_eq_Inr split: if_splits)
  have "nonneg base_envelope" by (simp add: nonneg_def base_envelope_def)
  then have nn: "nonneg e"
    using res_fold_invariant [of nonneg envelope_step] envelope_step_nonneg f by blast
  have written: "\<forall>w \<in> set ?ws. written w" by (rule fields_written) (use nn eq assms(3) in simp_all)
  from read_fields_written [OF written] fs eq have fs': "fs = map to_raw ?ws" and r: "\<forall>w \<in> set ?ws. in_range w"
    unfolding encode_signed_fields by blast+
  have "0 \<le> created_at_ms e" using nn by (simp add: nonneg_def)
  from fold_envelope_fields [OF this, of nfc] f fs'
  obtain d p sc a where
    s: "dec_str nfc (domain e) = Inr d" "dec_str nfc (parent e) = Inr p" "dec_str nfc (env_scope e) = Inr sc"
    "dec_aa (env_anti_abuse e) = Inr a" and
    e: "e = \<lparr>version = dec_num (version e), plane = dec_num (plane e), domain = d, author_key = author_key e,
        key_alg = dec_num (key_alg e), parent = p, env_scope = sc, created_at_ms = created_at_ms e,
        nonce = nonce e, priority = dec_num (priority e), body = body e, env_anti_abuse = a,
        signature = signature e\<rparr>"
    by (auto simp: res_bind_eq_Inr)
  have fields: "version e = dec_num (version e)" "plane e = dec_num (plane e)" "key_alg e = dec_num (key_alg e)"
    "priority e = dec_num (priority e)" "domain e = d" "parent e = p" "env_scope e = sc" "env_anti_abuse e = a"
    using e by (metis signed_envelope.simps envelope.simps)+
  have nums: "v \<noteq> 0 \<Longrightarrow> WVarint n v \<in> set ?ws \<Longrightarrow> v < 2 ^ 70" for n v
    using r by (force simp: in_range_def)
  have num: "num_ok v" if "v = dec_num v" "0 \<le> v" "v \<noteq> 0 \<Longrightarrow> WVarint n v \<in> set ?ws" for n v
    using that nums [of v n] dec_num_js [of v] by (cases "v = 0") (auto simp: num_ok_def)
  have "num_ok (version e)" by (rule num [of _ 1]) (use fields(1) nn in \<open>simp_all add: nonneg_def envelope_fields_def\<close>)
  moreover have "num_ok (plane e)" by (rule num [of _ 2]) (use fields(2) nn in \<open>simp_all add: nonneg_def envelope_fields_def\<close>)
  moreover have "num_ok (key_alg e)" by (rule num [of _ 5]) (use fields(3) nn in \<open>simp_all add: nonneg_def envelope_fields_def\<close>)
  moreover have "num_ok (priority e)" by (rule num [of _ 10]) (use fields(4) nn in \<open>simp_all add: nonneg_def envelope_fields_def\<close>)
  moreover have "created_at_ms e < 2 ^ 70" using nums [of "created_at_ms e" 8]
    by (cases "created_at_ms e = 0") (simp_all add: envelope_fields_def)
  moreover have "anti_abuse_ok (env_anti_abuse e)"
  proof (cases "env_anti_abuse e")
    case None
    then show ?thesis by (simp add: anti_abuse_ok_def)
  next
    case (Some x)
    with s(4) fields(8) have ne: "\<not> is_anti_abuse_empty (Some x)"
      and d: "decode_anti_abuse (encode_anti_abuse x) = Inr x"
      by (auto simp: dec_aa_def res_bind_eq_Inr split: if_splits)
    have w: "\<forall>w \<in> set (anti_abuse_fields x). written w"
      by (rule aa_fields_written [OF nn _ Some ne, of nfc]) (use eq assms(3) in simp)
    from decode_anti_abuse_encode(1) [OF w d] have "aa_norm x = x" and
      ir: "\<forall>w \<in> set (anti_abuse_fields x). in_range w" by simp_all
    moreover have "nonneg_aa x" using nn Some by (simp add: nonneg_def)
    moreover have "aa_number (aa_epoch x) < 2 ^ 70"
      using ir by (cases "aa_number (aa_epoch x) = 0") (simp_all add: anti_abuse_fields_def in_range_def)
    ultimately show ?thesis using ne Some by (simp add: anti_abuse_ok_norm)
  qed
  ultimately show ?thesis using s fields nn eq string_ok_dec [OF assms(1,2)]
    by (simp add: envelope_ok_def nonneg_def)
qed

text \<open>The signed bytes determine every signed field: a signature covers one envelope only.\<close>

lemma canonical_bytes_inj:
  assumes "envelope_ok nfc e1" and "length (encode_signed_envelope nfc e1) \<le> 2 ^ 53"
    and "envelope_ok nfc e2" and "length (encode_signed_envelope nfc e2) \<le> 2 ^ 53"
    and "canonical_bytes nfc e1 = canonical_bytes nfc e2"
  shows "e1\<lparr>signature := []\<rparr> = e2\<lparr>signature := []\<rparr>"
proof -
  have enc: "encode_signed_envelope nfc (e\<lparr>signature := []\<rparr>) = canonical_bytes nfc e" for e
    by (simp add: encode_signed_envelope_def signature_fields_def canonical_bytes_def envelope_fields_def)
  have ok: "envelope_ok nfc (e\<lparr>signature := []\<rparr>) = envelope_ok nfc e" for e :: signed_envelope
    by (simp add: envelope_ok_def)
  have len: "length (canonical_bytes nfc e) \<le> length (encode_signed_envelope nfc e)" for e
    by (simp add: encode_signed_envelope_def)
  have "decode_signed_envelope nfc (canonical_bytes nfc e) = Inr (e\<lparr>signature := []\<rparr>)"
    if "envelope_ok nfc e" "length (encode_signed_envelope nfc e) \<le> 2 ^ 53" for e
    using decode_encode [of nfc "e\<lparr>signature := []\<rparr>"] that len [of e] by (simp add: enc ok)
  from this [OF assms(1,2)] this [OF assms(3,4)] assms(5) show ?thesis by simp
qed

section \<open>Properties\<close>

text \<open>A small envelope the witnesses are evaluated on.\<close>

definition sample_envelope :: signed_envelope where
  "sample_envelope = \<lparr>version = 1, plane = 1, domain = ''jb:vote:cast:v1'', author_key = [7, 8], key_alg = 1,
     parent = [], env_scope = ''town@jbs1a'', created_at_ms = 90, nonce = [1, 2, 3], priority = 0, body = [255],
     env_anti_abuse = Some \<lparr>aa_credential = None, aa_nullifier = Some [9], aa_epoch = Some 20, aa_pow = None\<rparr>,
     signature = [5]\<rparr>"

lemma sample_ok: "envelope_ok (\<lambda>s. s) sample_envelope"
  by (simp add: envelope_ok_def num_ok_def string_ok_def anti_abuse_ok_def is_anti_abuse_empty_def
      sample_envelope_def aa_number_def opt_length_def text_encode_def BOM_def)

lemma varint_small: "0 \<le> v \<Longrightarrow> v < 128 \<Longrightarrow> varint v = [word_of_int v]"
  unfolding varint_def by (subst varint_loop.simps) simp

lemma tag_small: "w < 8 \<Longrightarrow> n < 16 \<Longrightarrow> tag n w = [word_of_int (int n * 8 + int w)]"
  by (simp add: tag_def nat_tag varint_small)

lemma sample_length: "length (encode_signed_envelope (\<lambda>s. s) sample_envelope) \<le> 2 ^ 53"
  by (simp add: encode_signed_envelope_def canonical_bytes_def envelope_fields_def signature_fields_def
      sample_envelope_def write_varint_field_def write_length_delimited_def tag_small WIRE_VARINT_def WIRE_LEN_def
      varint_small is_anti_abuse_empty_def aa_number_def opt_length_def encode_utf8_nfc_def
      text_encode_def encode_anti_abuse_def anti_abuse_fields_def aa_bytes_def del: One_nat_def)

lemma sample_decodes:
  "decode_signed_envelope (\<lambda>s. s) (encode_signed_envelope (\<lambda>s. s) sample_envelope) = Inr sample_envelope"
  by (rule decode_encode [OF sample_ok sample_length])

text \<open>C33: A well-formed envelope (numbers a double holds, normalised valid UTF-8 text, no empty
  anti-abuse member) that is encoded is decoded to exactly the same envelope: the canonicality gate
  of the decoder never rejects the encoder's output.\<close>

theorem envelope_roundtrip:
  assumes "envelope_ok nfc e" and "length (encode_signed_envelope nfc e) \<le> 2 ^ 53"
  shows "decode_signed_envelope nfc (encode_signed_envelope nfc e) = Inr e"
  by (rule decode_encode [OF assms])

theorem envelope_roundtrip_witness:
  "decode_signed_envelope (\<lambda>s. s) (encode_signed_envelope (\<lambda>s. s) sample_envelope) = Inr sample_envelope"
  by (rule envelope_roundtrip [OF sample_ok sample_length])

text \<open>C32: There is one accepted form: the decoder accepts a byte string exactly when it is the encoding
  of the well-formed envelope it returns, so no envelope has two accepted encodings. Normalisation
  enters by two documented facts: it is idempotent and keeps a leading byte order mark.\<close>

theorem one_accepted_form:
  assumes "\<And>s. nfc (nfc s) = nfc s" and "\<And>s. nfc (text_of_bytes BOM @ s) = text_of_bytes BOM @ nfc s"
    and "length raw \<le> 2 ^ 53"
  shows "decode_signed_envelope nfc raw = Inr e \<longleftrightarrow> envelope_ok nfc e \<and> encode_signed_envelope nfc e = raw"
  using decode_sound [OF assms] decode_encode [of nfc e] assms(3) by blast

theorem one_accepted_form_witness:
  "decode_signed_envelope (\<lambda>s. s) (encode_signed_envelope (\<lambda>s. s) sample_envelope) = Inr sample_envelope \<and>
   encode_signed_envelope (\<lambda>s. s) sample_envelope = encode_signed_envelope (\<lambda>s. s) sample_envelope"
  using one_accepted_form [of "\<lambda>s. s" "encode_signed_envelope (\<lambda>s. s) sample_envelope" sample_envelope]
    sample_length sample_ok by simp

text \<open>No signature confusion: two accepted envelopes with the same signed bytes agree in every field
  but the signature, so a signature made for one post never covers a post with other content.\<close>

theorem signed_bytes_determine_envelope:
  assumes "\<And>s. nfc (nfc s) = nfc s" and "\<And>s. nfc (text_of_bytes BOM @ s) = text_of_bytes BOM @ nfc s"
    and "length raw1 \<le> 2 ^ 53" and "length raw2 \<le> 2 ^ 53"
    and "decode_signed_envelope nfc raw1 = Inr e1" and "decode_signed_envelope nfc raw2 = Inr e2"
    and "canonical_bytes nfc e1 = canonical_bytes nfc e2"
  shows "e1\<lparr>signature := []\<rparr> = e2\<lparr>signature := []\<rparr>"
proof (rule canonical_bytes_inj [OF _ _ _ _ assms(7)])
  from decode_sound [OF assms(1,2,3,5)] assms(3)
  show "envelope_ok nfc e1" "length (encode_signed_envelope nfc e1) \<le> 2 ^ 53" by auto
  from decode_sound [OF assms(1,2,4,6)] assms(4)
  show "envelope_ok nfc e2" "length (encode_signed_envelope nfc e2) \<le> 2 ^ 53" by auto
qed

theorem signed_bytes_determine_envelope_witness:
  "sample_envelope\<lparr>signature := []\<rparr> = sample_envelope\<lparr>signature := []\<rparr> \<and>
   decode_signed_envelope (\<lambda>s. s) (encode_signed_envelope (\<lambda>s. s) sample_envelope) = Inr sample_envelope"
  using signed_bytes_determine_envelope [OF _ _ sample_length sample_length sample_decodes sample_decodes refl]
    sample_decodes by simp

text \<open>C40: The growable writer the code encodes with returns, on every envelope, exactly the field
  bytes in ascending order: its doubling loop ends and no write is lost or overwritten.\<close>

theorem writer_refines_encoder:
  "canonical_bytes_bw nfc env = Some (canonical_bytes nfc env)
   \<and> encode_signed_envelope_bw nfc senv = Some (encode_signed_envelope nfc senv)"
  by (simp add: canonical_bytes_bw encode_signed_envelope_bw)

end
