(* ===== verification/JB_Base32.thy ===== *)
theory JB_Base32
  imports JB_Prelude
begin

text \<open>
  \<open>packages/sdk-ts/src/core/base32.ts\<close> and \<open>content-id.ts\<close>: the base32 text form of every
  identifier, with its 32-bit accumulator as the code keeps it (\<open>value << 8 | byte\<close> wraps and
  \<open>>>>\<close> reads it unsigned), and the identifiers built from it. The hash function is a parameter.
\<close>

unbundle bit_operations_syntax

section \<open>The code\<close>

definition ALPHABET :: string where
  "ALPHABET = ''abcdefghijklmnopqrstuvwxyz234567''"

text \<open>The \<open>Int8Array(128)\<close> filled at module load; each alphabet character also sets the entry 32 below it.\<close>

definition DECODE :: "int list" where
  "DECODE = foldl (\<lambda>table i. let c = of_char (ALPHABET ! i) in table[c := int i, c - 32 := int i])
     (replicate 128 (- 1)) [0..<32]"

text \<open>The inner \<open>while (bits >= 5)\<close>: the characters it appends and the bits it leaves.\<close>

function b32_emit :: "u32 \<Rightarrow> nat \<Rightarrow> string \<times> nat" where
  "b32_emit v bits =
     (if bits \<ge> 5
      then let c = ALPHABET ! unat (drop_bit (bits - 5) v AND 31);
               (out, bits') = b32_emit v (bits - 5)
           in (c # out, bits')
      else ([], bits))"
  by auto
termination by (relation "measure snd") auto

declare b32_emit.simps [simp del]

fun b32_encode_loop :: "u32 \<Rightarrow> nat \<Rightarrow> bytes \<Rightarrow> string" where
  "b32_encode_loop v bits [] =
     (if bits > 0 then [ALPHABET ! unat (push_bit (5 - bits) v AND 31)] else [])"
| "b32_encode_loop v bits (b # bs) =
     (let v' = push_bit 8 v OR ucast b;
          (out, bits') = b32_emit v' (bits + 8)
      in out @ b32_encode_loop v' bits' bs)"

definition base32Encode :: "bytes \<Rightarrow> string" where
  "base32Encode data = b32_encode_loop 0 0 data"

text \<open>The error of \<open>base32Decode\<close> names the index of the first invalid character.\<close>

datatype base32_error = InvalidCharacter nat

definition b32_digit :: "char \<Rightarrow> int" where
  "b32_digit c = (let code = of_char c in if code < 128 then DECODE ! code else - 1)"

record b32_state =
  dst :: bytes
  dbits :: nat
  dvalue :: u32
  dwritten :: nat

fun b32_decode_loop :: "nat \<Rightarrow> b32_state \<Rightarrow> string \<Rightarrow> base32_error + b32_state" where
  "b32_decode_loop i st [] = Inr st"
| "b32_decode_loop i st (c # cs) =
     (let digit = b32_digit c in
      if digit < 0 then Inl (InvalidCharacter i)
      else let v = push_bit 5 (dvalue st) OR of_int digit; bits = dbits st + 5 in
           if bits \<ge> 8
           then b32_decode_loop (i + 1)
                  \<lparr>dst = (dst st)[dwritten st := ucast (drop_bit (bits - 8) v AND 0xff)],
                   dbits = bits - 8, dvalue = v, dwritten = dwritten st + 1\<rparr> cs
           else b32_decode_loop (i + 1) (st\<lparr>dbits := bits, dvalue := v\<rparr>) cs)"

definition base32Decode :: "string \<Rightarrow> base32_error + bytes" where
  "base32Decode s =
     res_bind (b32_decode_loop 0
        \<lparr>dst = replicate (length s * 5 div 8) 0, dbits = 0, dvalue = 0, dwritten = 0\<rparr> s)
       (\<lambda>st. Inr (take (dwritten st) (dst st)))"

section \<open>Bit strings\<close>

text \<open>The low \<open>n\<close> bits of a word, most significant first: what both loops carry in the accumulator.\<close>

definition low :: "nat \<Rightarrow> 'a::len word \<Rightarrow> bool list" where
  "low n v = rev (map (bit v) [0..<n])"

lemma length_low [simp]: "length (low n v) = n"
  by (simp add: low_def)

lemma low_0 [simp]: "low 0 v = []"
  by (simp add: low_def)

lemma low_add: "low (m + n) v = low m (drop_bit n v) @ low n v"
proof -
  have "[0..<m + n] = [0..<n] @ map (\<lambda>i. i + n) [0..<m]"
    by (simp only: add.commute [of m n] upt_add_eq_append [of 0 n m, simplified] map_add_upt)
  then have "low (m + n) v = rev (map (\<lambda>i. bit v (i + n)) [0..<m]) @ low n v"
    by (simp only: low_def map_append rev_append map_map comp_def)
  then show ?thesis by (simp add: low_def bit_drop_bit_eq comp_def add.commute)
qed

lemma low_cong: "(\<And>i. i < n \<Longrightarrow> bit v i = bit w i) \<Longrightarrow> low n v = low n w"
  by (simp add: low_def)

lemma low_eq_iff: "low n v = low n w \<longleftrightarrow> (\<forall>i<n. bit v i = bit w i)"
  by (auto simp: low_def)

lemma low_inj: "low LENGTH('a) v = low LENGTH('a) w \<Longrightarrow> v = w" for v w :: "'a::len word"
  by (rule bit_word_eqI) (simp add: low_eq_iff)

definition bits_of_bytes :: "bytes \<Rightarrow> bool list" where
  "bits_of_bytes bs = concat (map (low 8) bs)"

lemma bits_of_bytes_simps [simp]:
  "bits_of_bytes [] = []" "bits_of_bytes (b # bs) = low 8 b @ bits_of_bytes bs"
  "bits_of_bytes (as @ bs) = bits_of_bytes as @ bits_of_bytes bs"
  by (simp_all add: bits_of_bytes_def)

lemma length_bits_of_bytes [simp]: "length (bits_of_bytes bs) = 8 * length bs"
  by (induction bs) auto

lemma bits_of_bytes_prefix:
  "bits_of_bytes as @ xs = bits_of_bytes bs @ ys \<Longrightarrow> length as = length bs \<Longrightarrow> as = bs"
proof (induction as arbitrary: bs)
  case Nil
  then show ?case by simp
next
  case (Cons a as)
  then obtain b bs' where "bs = b # bs'" by (cases bs) auto
  with Cons show ?case using low_inj [of a b] by simp
qed

definition bits_of_digits :: "string \<Rightarrow> bool list" where
  "bits_of_digits s = concat (map (\<lambda>c. low 5 (of_int (b32_digit c) :: u32)) s)"

lemma bits_of_digits_simps [simp]:
  "bits_of_digits [] = []"
  "bits_of_digits (c # cs) = low 5 (of_int (b32_digit c) :: u32) @ bits_of_digits cs"
  "bits_of_digits (s @ t) = bits_of_digits s @ bits_of_digits t"
  by (simp_all add: bits_of_digits_def)

lemma length_bits_of_digits [simp]: "length (bits_of_digits s) = 5 * length s"
  by (induction s) auto

text \<open>The table once evaluated: the entries of \<open>0x12\<close> to \<open>0x17\<close> are those 32 below the digits \<open>2\<close> to \<open>7\<close>.\<close>

lemma DECODE_eval: "DECODE =
     [- 1, - 1, - 1, - 1, - 1, - 1, - 1, - 1, - 1, - 1, - 1, - 1, - 1, - 1, - 1, - 1, - 1, - 1,
      26, 27, 28, 29, 30, 31, - 1, - 1, - 1, - 1, - 1, - 1, - 1, - 1, - 1, - 1, - 1, - 1, - 1,
      - 1, - 1, - 1, - 1, - 1, - 1, - 1, - 1, - 1, - 1, - 1, - 1, - 1, 26, 27, 28, 29, 30, 31,
      - 1, - 1, - 1, - 1, - 1, - 1, - 1, - 1, - 1, 0, 1, 2, 3, 4, 5, 6, 7, 8, 9, 10, 11, 12,
      13, 14, 15, 16, 17, 18, 19, 20, 21, 22, 23, 24, 25, - 1, - 1, - 1, - 1, - 1, - 1, 0, 1,
      2, 3, 4, 5, 6, 7, 8, 9, 10, 11, 12, 13, 14, 15, 16, 17, 18, 19, 20, 21, 22, 23, 24, 25, -
      1, - 1, - 1, - 1, - 1]"
  by code_simp

lemma digit_of_alphabet_all: "map (\<lambda>i. b32_digit (ALPHABET ! i)) [0..<32] = map int [0..<32]"
  by (simp add: b32_digit_def DECODE_eval ALPHABET_def upt_rec)

lemma digit_of_alphabet [simp]: "i < 32 \<Longrightarrow> b32_digit (ALPHABET ! i) = int i"
proof -
  assume "i < 32"
  moreover have "\<forall>i\<in>set [0..<32]. b32_digit (ALPHABET ! i) = int i"
    using digit_of_alphabet_all by (simp only: map_eq_conv)
  ultimately show ?thesis by (simp only: set_upt atLeastLessThan_iff) simp
qed

lemma digit_bound_all: "list_all (\<lambda>d. d < 32) DECODE" "length DECODE = 128"
  by (simp_all add: DECODE_eval)

lemma digit_bound: "b32_digit c < 32"
  using digit_bound_all by (simp add: b32_digit_def list_all_iff Let_def)

lemma and31_less: "unat (v AND 31 :: u32) < 32"
proof -
  have "v AND 31 \<le> (31 :: u32)" by (rule word_and_le1)
  then show ?thesis by (simp add: word_le_nat_alt)
qed

lemma low5_and31: "low 5 (v AND 31 :: u32) = low 5 v"
proof -
  have m: "(31 :: u32) = mask 5" by (simp add: mask_eq_exp_minus_1)
  show ?thesis by (rule low_cong) (simp add: m bit_and_iff bit_mask_iff del: mask_numeral)
qed

lemma low_emitted: "low 5 (of_int (b32_digit (ALPHABET ! unat (v AND 31 :: u32))) :: u32) = low 5 v"
  by (simp add: and31_less low5_and31)

section \<open>The encoder\<close>

lemma b32_emit_bits:
  "b32_emit v n = (out, n') \<Longrightarrow> bits_of_digits out @ low n' v = low n v \<and> n' < 5"
proof (induction v n arbitrary: out n' rule: b32_emit.induct)
  case (1 v n)
  show ?case
  proof (cases "n \<ge> 5")
    case True
    obtain o' m where rec: "b32_emit v (n - 5) = (o', m)" by force
    from True rec "1.prems" have eq: "out = ALPHABET ! unat (drop_bit (n - 5) v AND 31) # o'" "n' = m"
      by (auto simp: b32_emit.simps [of v n])
    have "bits_of_digits o' @ low m v = low (n - 5) v \<and> m < 5"
      by (rule "1.IH" [OF True refl rec])
    moreover from True have "low n v = low 5 (drop_bit (n - 5) v) @ low (n - 5) v"
      using low_add [of 5 "n - 5" v] by simp
    ultimately show ?thesis by (simp add: eq low_emitted)
  next
    case False
    with "1.prems" show ?thesis by (auto simp: b32_emit.simps [of v n])
  qed
qed

lemma low_shift_in: 
  assumes "n + k \<le> 32" and "\<And>i. k \<le> i \<Longrightarrow> i < 32 \<Longrightarrow> \<not> bit w i"
  shows "low (n + k) (push_bit k v OR w :: u32) = low n v @ low k w"
proof -
  have "low n (drop_bit k (push_bit k v OR w)) = low n v"
    using assms by (intro low_cong) (auto simp: bit_drop_bit_eq bit_or_iff bit_push_bit_iff)
  moreover have "low k (push_bit k v OR w) = low k w"
    using assms by (intro low_cong) (auto simp: bit_or_iff bit_push_bit_iff)
  ultimately show ?thesis by (simp add: low_add)
qed

lemma low_ucast_byte: "low 8 (ucast (b :: byte) :: u32) = low 8 b"
  by (simp add: low_def bit_ucast_iff)

lemma b32_encode_loop_bits:
  assumes "n < 5"
  shows "\<exists>pad. bits_of_digits (b32_encode_loop v n bs) = low n v @ bits_of_bytes bs @ replicate pad False \<and> pad < 5"
  using assms
proof (induction bs arbitrary: v n)
  case Nil
  show ?case
  proof (cases "n = 0")
    case True
    then show ?thesis by (intro exI [of _ 0]) simp
  next
    case False
    with Nil have "low 5 (push_bit (5 - n) v) = low n v @ low (5 - n) (0 :: u32)"
      using low_shift_in [of n "5 - n" 0 v] by simp
    moreover have "low (5 - n) (0 :: u32) = replicate (5 - n) False"
      by (intro nth_equalityI) (simp_all add: low_def rev_nth)
    ultimately show ?thesis using False by (intro exI [of _ "5 - n"]) (simp add: low_emitted)
  qed
next
  case (Cons b bs)
  define v' where "v' = push_bit 8 v OR (ucast b :: u32)"
  obtain out m where em: "b32_emit v' (n + 8) = (out, m)" by force
  from b32_emit_bits [OF em] have bits: "bits_of_digits out @ low m v' = low (n + 8) v'" and "m < 5" by auto
  from Cons.IH [OF \<open>m < 5\<close>, of v'] obtain pad where pad:
    "bits_of_digits (b32_encode_loop v' m bs) = low m v' @ bits_of_bytes bs @ replicate pad False" "pad < 5"
    by auto
  have "low (n + 8) v' = low n v @ low 8 b"
    unfolding v'_def using Cons.prems
    by (subst low_shift_in) (auto simp: low_ucast_byte bit_ucast_iff dest: bit_imp_le_length)
  with bits pad em show ?case
    by (intro exI [of _ pad]) (simp add: v'_def [symmetric] append_assoc [symmetric] del: append_assoc)
qed

lemma base32Encode_bits:
  obtains pad where "bits_of_digits (base32Encode bs) = bits_of_bytes bs @ replicate pad False" "pad < 5"
proof -
  obtain pad where "bits_of_digits (b32_encode_loop 0 0 bs) = low 0 (0 :: u32) @ bits_of_bytes bs @ replicate pad False"
      "pad < 5"
    using b32_encode_loop_bits [of 0 0 bs, OF zero_less_numeral] by blast
  then show ?thesis by (intro that [of pad]) (simp_all only: base32Encode_def low_0 append_Nil)
qed

text \<open>The identifier is as short as the alphabet allows: five bits per character.\<close>

lemma length_base32Encode: "length (base32Encode bs) = (8 * length bs + 4) div 5"
proof -
  obtain pad where "bits_of_digits (base32Encode bs) = bits_of_bytes bs @ replicate pad False" "pad < 5"
    by (rule base32Encode_bits)
  then have "length (bits_of_digits (base32Encode bs)) = length (bits_of_bytes bs @ replicate pad False)"
    by (simp only:)
  then have "5 * length (base32Encode bs) = 8 * length bs + pad" by simp
  with \<open>pad < 5\<close> show ?thesis by (intro div_nat_eqI [symmetric]) auto
qed

section \<open>The decoder\<close>

text \<open>
  What the loop keeps: the bits of the bytes written and the bits waiting in the accumulator are
  the bits of the characters read, and the write position stays inside the output array.
\<close>

definition b32_inv :: "string \<Rightarrow> nat \<Rightarrow> b32_state \<Rightarrow> bool" where
  "b32_inv s tot st \<longleftrightarrow>
     bits_of_bytes (take (dwritten st) (dst st)) @ low (dbits st) (dvalue st) = bits_of_digits s \<and>
     dbits st < 8 \<and> dwritten st \<le> length (dst st) \<and> length (dst st) = tot * 5 div 8"

lemma digit_bits_high:
  assumes "0 \<le> b32_digit c"
  shows "5 \<le> i \<Longrightarrow> i < 32 \<Longrightarrow> \<not> bit (of_int (b32_digit c) :: u32) i"
proof -
  assume i: "5 \<le> i" "i < 32"
  have "b32_digit c = take_bit 5 (b32_digit c)"
    using assms digit_bound [of c] by (simp add: take_bit_int_eq_self)
  then have "\<not> bit (b32_digit c) i"
    using i by (metis bit_take_bit_iff not_less)
  then show ?thesis by (simp add: bit_of_int_iff)
qed

lemma low_byte_of: "low 8 (ucast (drop_bit k v AND 0xff :: u32) :: byte) = low 8 (drop_bit k v)"
proof -
  have m: "(0xff :: u32) = mask 8" by (simp add: mask_eq_exp_minus_1)
  show ?thesis
    by (simp only: low_eq_iff low_def rev_is_rev_conv map_eq_conv)
       (simp add: m bit_ucast_iff bit_and_iff bit_mask_iff del: mask_numeral)
qed

lemma b32_inv_step:
  fixes st :: b32_state and c :: char
  defines "v \<equiv> push_bit 5 (dvalue st) OR of_int (b32_digit c)"
  assumes inv: "b32_inv s tot st" and dig: "0 \<le> b32_digit c" and len: "length s < tot"
  shows "dbits st + 5 \<ge> 8 \<Longrightarrow>
      b32_inv (s @ [c]) tot \<lparr>dst = (dst st)[dwritten st := ucast (drop_bit (dbits st + 5 - 8) v AND 0xff)],
        dbits = dbits st + 5 - 8, dvalue = v, dwritten = dwritten st + 1\<rparr>"
    and "\<not> dbits st + 5 \<ge> 8 \<Longrightarrow> b32_inv (s @ [c]) tot (st\<lparr>dbits := dbits st + 5, dvalue := v\<rparr>)"
proof -
  have bits: "bits_of_bytes (take (dwritten st) (dst st)) @ low (dbits st) (dvalue st) = bits_of_digits s"
    and n: "dbits st < 8" and w: "dwritten st \<le> length (dst st)" and l: "length (dst st) = tot * 5 div 8"
    using inv by (simp_all add: b32_inv_def)
  have sh: "low (dbits st + 5) v = low (dbits st) (dvalue st) @ low 5 (of_int (b32_digit c) :: u32)"
    unfolding v_def using n digit_bits_high [OF dig] by (intro low_shift_in) auto
  have "length (bits_of_bytes (take (dwritten st) (dst st)) @ low (dbits st) (dvalue st)) = 5 * length s"
    by (simp only: bits length_bits_of_digits)
  then have cnt: "8 * dwritten st + dbits st = 5 * length s" using w by simp
  show "b32_inv (s @ [c]) tot (st\<lparr>dbits := dbits st + 5, dvalue := v\<rparr>)" if "\<not> dbits st + 5 \<ge> 8"
    using that w l by (simp add: b32_inv_def sh bits [symmetric])
  show "b32_inv (s @ [c]) tot \<lparr>dst = (dst st)[dwritten st := ucast (drop_bit (dbits st + 5 - 8) v AND 0xff)],
        dbits = dbits st + 5 - 8, dvalue = v, dwritten = dwritten st + 1\<rparr>" if g: "dbits st + 5 \<ge> 8"
  proof -
    have "5 * (length s + 1) \<le> 5 * tot" using len by (intro mult_le_mono2) simp
    then have "8 * (dwritten st + 1) \<le> tot * 5" using cnt g by simp
    then have "dwritten st + 1 \<le> tot * 5 div 8" by (subst less_eq_div_iff_mult_less_eq) auto
    then have lt: "dwritten st < length (dst st)" using l by simp
    have "8 + (dbits st + 5 - 8) = dbits st + 5" using g by simp
    then have "low 8 (drop_bit (dbits st + 5 - 8) v) @ low (dbits st + 5 - 8) v = low (dbits st + 5) v"
      using low_add [of 8 "dbits st + 5 - 8" v] by (simp only:)
    with lt l n show ?thesis
      by (simp add: b32_inv_def take_Suc_conv_app_nth low_byte_of sh bits [symmetric])
  qed
qed

lemma b32_decode_loop_inv:
  "b32_inv s tot st \<Longrightarrow> length s + length cs \<le> tot \<Longrightarrow> b32_decode_loop i st cs = Inr st' \<Longrightarrow>
   b32_inv (s @ cs) tot st'"
proof (induction cs arbitrary: s st i)
  case Nil
  then show ?case by simp
next
  case (Cons c cs)
  have dig: "0 \<le> b32_digit c" using Cons.prems(3) by (auto simp: Let_def split: if_splits)
  have len: "length s < tot" using Cons.prems(2) by simp
  note st = b32_inv_step [OF Cons.prems(1) dig len]
  show ?case
  proof (cases "dbits st + 5 \<ge> 8")
    case True
    from Cons.IH [OF st(1) [OF True]] Cons.prems(2,3) dig True show ?thesis by (simp add: Let_def)
  next
    case False
    from Cons.IH [OF st(2) [OF False]] Cons.prems(2,3) dig False show ?thesis by (simp add: Let_def)
  qed
qed

lemma b32_decode_loop_total:
  "\<forall>c\<in>set cs. 0 \<le> b32_digit c \<Longrightarrow> \<exists>st'. b32_decode_loop i st cs = Inr st'"
  by (induction cs arbitrary: i st) (auto simp: Let_def)

lemma b32_inv_start:
  "b32_inv [] (length s) \<lparr>dst = replicate (length s * 5 div 8) 0, dbits = 0, dvalue = 0, dwritten = 0\<rparr>"
  by (simp add: b32_inv_def)

lemma base32Decode_bits:
  assumes "base32Decode s = Inr bs"
  obtains r where "bits_of_digits s = bits_of_bytes bs @ r" "length r < 8"
proof -
  obtain st where run: "b32_decode_loop 0
      \<lparr>dst = replicate (length s * 5 div 8) 0, dbits = 0, dvalue = 0, dwritten = 0\<rparr> s = Inr st"
    and bs: "bs = take (dwritten st) (dst st)"
    using assms by (auto simp: base32Decode_def res_bind_eq_Inr)
  have "b32_inv s (length s) st"
    using b32_decode_loop_inv [OF b32_inv_start _ run] by simp
  then show ?thesis using that [of "low (dbits st) (dvalue st)"] by (simp add: b32_inv_def bs)
qed

lemma b32_encode_loop_digits: "c \<in> set (b32_encode_loop v n bs) \<Longrightarrow> 0 \<le> b32_digit c"
proof (induction bs arbitrary: v n)
  case Nil
  then show ?case by (auto simp: and31_less split: if_splits)
next
  case (Cons b bs)
  have emit: "c \<in> set (fst (b32_emit v n)) \<Longrightarrow> 0 \<le> b32_digit c" for v n
  proof (induction v n rule: b32_emit.induct)
    case (1 v n)
    then show ?case
      by (cases "n \<ge> 5") (auto simp: b32_emit.simps [of v n] and31_less split: prod.splits)
  qed
  from Cons emit show ?case
    by (auto simp: Let_def split: prod.splits) (metis fst_conv)+
qed

section \<open>Round trip\<close>

text \<open>Every identifier the encoder prints is read back as the bytes it was made of.\<close>

lemma base32_decode_encode: "base32Decode (base32Encode bs) = Inr bs"
proof -
  have "\<forall>c\<in>set (base32Encode bs). 0 \<le> b32_digit c"
    unfolding base32Encode_def using b32_encode_loop_digits by blast
  then obtain out where out: "base32Decode (base32Encode bs) = Inr out"
    using b32_decode_loop_total [of "base32Encode bs" 0
      "\<lparr>dst = replicate (length (base32Encode bs) * 5 div 8) 0, dbits = 0, dvalue = 0, dwritten = 0\<rparr>"]
    by (auto simp: base32Decode_def)
  then obtain r where r: "bits_of_digits (base32Encode bs) = bits_of_bytes out @ r" "length r < 8"
    by (rule base32Decode_bits)
  obtain pad where pad: "bits_of_digits (base32Encode bs) = bits_of_bytes bs @ replicate pad False" "pad < 5"
    by (rule base32Encode_bits)
  have eq: "bits_of_bytes out @ r = bits_of_bytes bs @ replicate pad False" by (simp only: r(1) [symmetric] pad(1))
  then have "length (bits_of_bytes out @ r) = length (bits_of_bytes bs @ replicate pad False)" by (simp only:)
  then have "length out = length bs" using r(2) pad(2) by simp
  with eq have "out = bs" by (rule bits_of_bytes_prefix)
  with out show ?thesis by simp
qed

lemma base32Encode_inj [simp]: "base32Encode a = base32Encode b \<longleftrightarrow> a = b"
  by (metis base32_decode_encode sum.inject(2))

text \<open>Upper case is read as lower case; the alphabet is exactly what is printed.\<close>

lemma b32_emit_alphabet: "set (fst (b32_emit v n)) \<subseteq> set ALPHABET"
proof (induction v n rule: b32_emit.induct)
  case (1 v n)
  have "ALPHABET ! unat (w AND 31 :: u32) \<in> set ALPHABET" for w
    using and31_less [of w] by (intro nth_mem) (simp add: ALPHABET_def)
  with 1 show ?case
    by (cases "n \<ge> 5") (auto simp: b32_emit.simps [of v n] split: prod.splits)
qed

lemma base32Encode_alphabet: "set (base32Encode bs) \<subseteq> set ALPHABET"
proof -
  have mem: "ALPHABET ! unat (w AND 31 :: u32) \<in> set ALPHABET" for w
    using and31_less [of w] by (intro nth_mem) (simp add: ALPHABET_def)
  have "set (b32_encode_loop v n bs) \<subseteq> set ALPHABET" for v n
  proof (induction bs arbitrary: v n)
    case Nil
    then show ?case using mem [of "push_bit (5 - n) v"] by auto
  next
    case (Cons b bs)
    then show ?case using b32_emit_alphabet
      by (auto simp: Let_def split: prod.splits) (metis fst_conv subset_iff)
  qed
  then show ?thesis by (simp add: base32Encode_def)
qed

section \<open>Identifiers\<close>

definition prefix_content :: string where "prefix_content = ''jb1''"
definition prefix_identity :: string where "prefix_identity = ''jbk1''"
definition prefix_channel :: string where "prefix_channel = ''jbc1''"
definition prefix_server :: string where "prefix_server = ''jbs1''"

definition contentIdFromCanonical :: "(bytes \<Rightarrow> bytes) \<Rightarrow> bytes \<Rightarrow> string" where
  "contentIdFromCanonical sha canonical = prefix_content @ base32Encode (sha canonical)"

definition identityId :: "bytes \<Rightarrow> string" where
  "identityId publicKey = prefix_identity @ base32Encode publicKey"

definition channelId :: "bytes \<Rightarrow> string" where
  "channelId signingKey = prefix_channel @ base32Encode signingKey"

definition serverId :: "bytes \<Rightarrow> string" where
  "serverId serverKey = prefix_server @ base32Encode serverKey"

definition communityId :: "string \<Rightarrow> string \<Rightarrow> string" where
  "communityId name originServerId = name @ ''@'' @ originServerId"

text \<open>The test \<open>/^jb1[a-z2-7]{52}$/\<close>.\<close>

definition isContentId :: "string \<Rightarrow> bool" where
  "isContentId s \<longleftrightarrow> take 3 s = prefix_content \<and> length s = 55 \<and>
     list_all (\<lambda>c. let n = of_char c in (97 \<le> n \<and> n \<le> (122 :: nat)) \<or> (50 \<le> n \<and> n \<le> 55)) (drop 3 s)"

lemma alphabet_class:
  "c \<in> set ALPHABET \<Longrightarrow> let n = of_char c in (97 \<le> n \<and> n \<le> (122 :: nat)) \<or> (50 \<le> n \<and> n \<le> 55)"
  by (auto simp: ALPHABET_def)

lemma contentId_wellformed:
  "length (sha canonical) = 32 \<Longrightarrow> isContentId (contentIdFromCanonical sha canonical)"
  using base32Encode_alphabet [of "sha canonical"] alphabet_class
  by (auto simp: isContentId_def contentIdFromCanonical_def prefix_content_def length_base32Encode list_all_iff)

text \<open>Two kinds of identifier never coincide, and within a kind the key is determined.\<close>

lemma identityId_inj [simp]: "identityId a = identityId b \<longleftrightarrow> a = b"
  by (simp add: identityId_def)

lemma serverId_inj [simp]: "serverId a = serverId b \<longleftrightarrow> a = b"
  by (simp add: serverId_def)

lemma channelId_inj [simp]: "channelId a = channelId b \<longleftrightarrow> a = b"
  by (simp add: channelId_def)

lemma id_kinds_distinct:
  "identityId a \<noteq> serverId b" "identityId a \<noteq> channelId b" "serverId a \<noteq> channelId b"
  "contentIdFromCanonical sha c \<noteq> identityId a" "contentIdFromCanonical sha c \<noteq> serverId a"
  "contentIdFromCanonical sha c \<noteq> channelId a"
  by (simp_all add: identityId_def serverId_def channelId_def contentIdFromCanonical_def
      prefix_content_def prefix_identity_def prefix_channel_def prefix_server_def)

lemma contentId_determines:
  assumes "contentIdFromCanonical sha a = contentIdFromCanonical sha b"
  shows "sha a = sha b"
  using assms by (simp add: contentIdFromCanonical_def)

text \<open>
  A community identifier is unambiguous: the origin, which has no \<open>@\<close>, is what follows the last one.
\<close>

lemma communityId_inj:
  assumes "CHR ''@'' \<notin> set o1" "CHR ''@'' \<notin> set o2" and "communityId n1 o1 = communityId n2 o2"
  shows "n1 = n2 \<and> o1 = o2"
proof -
  let ?p = "\<lambda>c. c \<noteq> CHR ''@''"
  have tw: "takeWhile ?p (rev (communityId n o')) = rev o'" if "CHR ''@'' \<notin> set o'" for n o'
    using that by (auto simp: communityId_def takeWhile_append)
  from tw [OF assms(1), of n1] tw [OF assms(2), of n2] assms(3) have "o1 = o2" by simp
  with assms(3) show ?thesis by (simp add: communityId_def)
qed

lemma serverId_no_at: "CHR ''@'' \<notin> set (serverId k)"
  using base32Encode_alphabet [of k] by (auto simp: serverId_def prefix_server_def ALPHABET_def)

section \<open>Properties\<close>

text \<open>The base32 text of any byte string is decoded to the same bytes, is as short as five bits per
  character allow, and uses only the lower-case alphabet; so identifiers are unambiguous.\<close>

theorem base32_roundtrip:
  "base32Decode (base32Encode bs) = Inr bs \<and> length (base32Encode bs) = (8 * length bs + 4) div 5
   \<and> set (base32Encode bs) \<subseteq> set ALPHABET"
  by (simp add: base32_decode_encode length_base32Encode base32Encode_alphabet)

text \<open>A community identifier determines the name and the origin node, although names are free text:
  a node's fingerprint never contains the separator.\<close>

theorem community_id_determines:
  "communityId n1 (serverId k1) = communityId n2 (serverId k2) \<longleftrightarrow> n1 = n2 \<and> k1 = k2"
  using communityId_inj [OF serverId_no_at serverId_no_at, of n1 k1 n2 k2] by auto

end
