(* ===== verification/JB_Registry.thy ===== *)
theory JB_Registry
  imports JB_Canonical JB_Base32
begin

text \<open>
  The domain registry: the generated policy table of \<open>packages/sdk-ts/src/gen/registry.ts\<close> (row
  by row), and from \<open>backend/src/core/domain\<close> the parsed envelope (\<open>envelope.ts\<close>), the typed
  rejections (\<open>errors.ts\<close>), the handler interface (\<open>domain-handler.ts\<close>), registration and lookup
  (\<open>domain-registry.ts\<close>) and the header checks of pipeline steps 3 to 5 (\<open>accept.ts\<close>). A handler
  is a record of functions over the projections, whose documents are a type parameter.
\<close>

section \<open>Rejections\<close>

datatype rejection_code =
    UNKNOWN_VERSION | UNKNOWN_DOMAIN | PLANE_MISMATCH | MALFORMED | ALG_NOT_PERMITTED | PRIORITY_MISMATCH
  | CLOCK_SKEW | BAD_SIGNATURE | NO_CERTIFICATE | KEY_REVOKED | DUPLICATE | REPLAY | INSUFFICIENT_CREDITS
  | NULLIFIER_SPENT | CREDENTIAL_INVALID | FORBIDDEN | BODY_INVALID | TOO_LARGE | RATE_LIMITED
  | TRANSPORT_UNSUPPORTED

definition RETRYABLE :: "rejection_code list" where
  "RETRYABLE = [CLOCK_SKEW, INSUFFICIENT_CREDITS, NULLIFIER_SPENT, CREDENTIAL_INVALID, NO_CERTIFICATE,
     RATE_LIMITED, TRANSPORT_UNSUPPORTED]"

text \<open>\<open>EnvelopeRejected\<close>; of the challenge only its presence is kept, the proof-of-work scheme is not modelled.\<close>

record rejection =
  rj_code :: rejection_code
  rj_detail :: string
  rj_field :: "string option"
  rj_retry_after_ms :: "int option"
  rj_challenge :: bool

definition rejected :: "rejection_code \<Rightarrow> string \<Rightarrow> string option \<Rightarrow> rejection" where
  "rejected code detail fld =
     \<lparr>rj_code = code, rj_detail = detail, rj_field = fld, rj_retry_after_ms = None, rj_challenge = False\<rparr>"

definition rj_retryable :: "rejection \<Rightarrow> bool" where
  "rj_retryable r \<longleftrightarrow> rj_code r \<in> set RETRYABLE"

lemma rejected_code [simp]: "rj_code (rejected c d f) = c"
  by (simp add: rejected_def)

text \<open>Whatever else the pipeline can throw: the two duplicate errors of the stores, and plain errors.\<close>

datatype ingress_error =
    Rejected rejection
  | DuplicateContentError string
  | DuplicateFederationEntryError string
  | ErrorThrown string

section \<open>The generated policy table\<close>

datatype registry_plane = FORUM | SIGNAL
datatype registry_priority = BROADCAST | DIRECT | CHECKIN | BULK
datatype registry_scope_kind = SCOPE_COMMUNITY | SCOPE_CHANNEL | SCOPE_NONE
datatype registry_gate = CREDENTIAL | NULLIFIER | POW
datatype registry_key_alg = ED25519 | ML_DSA_44 | FALCON_512

record domain_spec =
  ds_domain :: string
  ds_plane :: registry_plane
  ds_body :: string
  ds_priority :: registry_priority
  ds_idempotent :: bool
  ds_scope_kind :: registry_scope_kind
  ds_key_algs :: "registry_key_alg list"
  ds_max_bytes :: nat
  ds_credit_cost :: int
  ds_credit_cost_per_mb :: "int option"
  ds_requires :: "registry_gate list"
  ds_requires_certificate :: bool
  ds_federate :: bool
  ds_permission :: string

definition domain_specs_1 :: "domain_spec list" where
  "domain_specs_1 = [
   \<lparr>ds_domain = ''jb:post:create:v1'', ds_plane = FORUM, ds_body = ''jagoo.v1.PostCreate'',
     ds_priority = BULK, ds_idempotent = True, ds_scope_kind = SCOPE_COMMUNITY, ds_key_algs = [ED25519], ds_max_bytes = 65536,
     ds_credit_cost = 10, ds_credit_cost_per_mb = None, ds_requires = [CREDENTIAL, NULLIFIER], ds_requires_certificate = True,
     ds_federate = True, ds_permission = ''post.create''\<rparr>,
   \<lparr>ds_domain = ''jb:post:update:v1'', ds_plane = FORUM, ds_body = ''jagoo.v1.PostUpdate'',
     ds_priority = BULK, ds_idempotent = False, ds_scope_kind = SCOPE_COMMUNITY, ds_key_algs = [ED25519], ds_max_bytes = 65536,
     ds_credit_cost = 2, ds_credit_cost_per_mb = None, ds_requires = [CREDENTIAL], ds_requires_certificate = True,
     ds_federate = True, ds_permission = ''owner''\<rparr>,
   \<lparr>ds_domain = ''jb:post:delete:v1'', ds_plane = FORUM, ds_body = ''jagoo.v1.PostDelete'',
     ds_priority = BULK, ds_idempotent = True, ds_scope_kind = SCOPE_COMMUNITY, ds_key_algs = [ED25519], ds_max_bytes = 4096,
     ds_credit_cost = 0, ds_credit_cost_per_mb = None, ds_requires = [CREDENTIAL], ds_requires_certificate = True,
     ds_federate = True, ds_permission = ''owner''\<rparr>,
   \<lparr>ds_domain = ''jb:comment:create:v1'', ds_plane = FORUM, ds_body = ''jagoo.v1.CommentCreate'',
     ds_priority = BULK, ds_idempotent = True, ds_scope_kind = SCOPE_COMMUNITY, ds_key_algs = [ED25519], ds_max_bytes = 16384,
     ds_credit_cost = 3, ds_credit_cost_per_mb = None, ds_requires = [CREDENTIAL, NULLIFIER], ds_requires_certificate = True,
     ds_federate = True, ds_permission = ''post.create''\<rparr>,
   \<lparr>ds_domain = ''jb:comment:update:v1'', ds_plane = FORUM, ds_body = ''jagoo.v1.CommentUpdate'',
     ds_priority = BULK, ds_idempotent = False, ds_scope_kind = SCOPE_COMMUNITY, ds_key_algs = [ED25519], ds_max_bytes = 16384,
     ds_credit_cost = 1, ds_credit_cost_per_mb = None, ds_requires = [CREDENTIAL], ds_requires_certificate = True,
     ds_federate = True, ds_permission = ''owner''\<rparr>,
   \<lparr>ds_domain = ''jb:comment:delete:v1'', ds_plane = FORUM, ds_body = ''jagoo.v1.CommentDelete'',
     ds_priority = BULK, ds_idempotent = True, ds_scope_kind = SCOPE_COMMUNITY, ds_key_algs = [ED25519], ds_max_bytes = 4096,
     ds_credit_cost = 0, ds_credit_cost_per_mb = None, ds_requires = [CREDENTIAL], ds_requires_certificate = True,
     ds_federate = True, ds_permission = ''owner''\<rparr>,
   \<lparr>ds_domain = ''jb:vote:cast:v1'', ds_plane = FORUM, ds_body = ''jagoo.v1.VoteCast'',
     ds_priority = BULK, ds_idempotent = False, ds_scope_kind = SCOPE_COMMUNITY, ds_key_algs = [ED25519], ds_max_bytes = 1024,
     ds_credit_cost = 1, ds_credit_cost_per_mb = None, ds_requires = [CREDENTIAL], ds_requires_certificate = True,
     ds_federate = True, ds_permission = ''member''\<rparr>,
   \<lparr>ds_domain = ''jb:community:create:v1'', ds_plane = FORUM, ds_body = ''jagoo.v1.CommunityCreate'',
     ds_priority = BULK, ds_idempotent = True, ds_scope_kind = SCOPE_NONE, ds_key_algs = [ED25519], ds_max_bytes = 32768,
     ds_credit_cost = 200, ds_credit_cost_per_mb = None, ds_requires = [CREDENTIAL, NULLIFIER, POW], ds_requires_certificate = True,
     ds_federate = True, ds_permission = ''authenticated''\<rparr>,
   \<lparr>ds_domain = ''jb:community:update:v1'', ds_plane = FORUM, ds_body = ''jagoo.v1.CommunityUpdate'',
     ds_priority = BULK, ds_idempotent = False, ds_scope_kind = SCOPE_COMMUNITY, ds_key_algs = [ED25519], ds_max_bytes = 32768,
     ds_credit_cost = 5, ds_credit_cost_per_mb = None, ds_requires = [CREDENTIAL], ds_requires_certificate = True,
     ds_federate = True, ds_permission = ''community.update''\<rparr>,
   \<lparr>ds_domain = ''jb:community:archive:v1'', ds_plane = FORUM, ds_body = ''jagoo.v1.CommunityArchive'',
     ds_priority = BULK, ds_idempotent = False, ds_scope_kind = SCOPE_COMMUNITY, ds_key_algs = [ED25519], ds_max_bytes = 1024,
     ds_credit_cost = 5, ds_credit_cost_per_mb = None, ds_requires = [CREDENTIAL], ds_requires_certificate = True,
     ds_federate = True, ds_permission = ''owner''\<rparr>]"

definition domain_specs_2 :: "domain_spec list" where
  "domain_specs_2 = [
   \<lparr>ds_domain = ''jb:membership:join:v1'', ds_plane = FORUM, ds_body = ''jagoo.v1.MembershipJoin'',
     ds_priority = BULK, ds_idempotent = True, ds_scope_kind = SCOPE_COMMUNITY, ds_key_algs = [ED25519], ds_max_bytes = 1024,
     ds_credit_cost = 1, ds_credit_cost_per_mb = None, ds_requires = [CREDENTIAL], ds_requires_certificate = True,
     ds_federate = True, ds_permission = ''''\<rparr>,
   \<lparr>ds_domain = ''jb:membership:leave:v1'', ds_plane = FORUM, ds_body = ''jagoo.v1.MembershipLeave'',
     ds_priority = BULK, ds_idempotent = True, ds_scope_kind = SCOPE_COMMUNITY, ds_key_algs = [ED25519], ds_max_bytes = 1024,
     ds_credit_cost = 0, ds_credit_cost_per_mb = None, ds_requires = [], ds_requires_certificate = True,
     ds_federate = True, ds_permission = ''''\<rparr>,
   \<lparr>ds_domain = ''jb:mod:action:v1'', ds_plane = FORUM, ds_body = ''jagoo.v1.ModAction'',
     ds_priority = BULK, ds_idempotent = False, ds_scope_kind = SCOPE_COMMUNITY, ds_key_algs = [ED25519], ds_max_bytes = 4096,
     ds_credit_cost = 0, ds_credit_cost_per_mb = None, ds_requires = [CREDENTIAL], ds_requires_certificate = True,
     ds_federate = True, ds_permission = ''per_verb''\<rparr>,
   \<lparr>ds_domain = ''jb:report:create:v1'', ds_plane = FORUM, ds_body = ''jagoo.v1.ReportCreate'',
     ds_priority = BULK, ds_idempotent = True, ds_scope_kind = SCOPE_COMMUNITY, ds_key_algs = [ED25519], ds_max_bytes = 8192,
     ds_credit_cost = 2, ds_credit_cost_per_mb = None, ds_requires = [CREDENTIAL, NULLIFIER], ds_requires_certificate = True,
     ds_federate = True, ds_permission = ''member''\<rparr>,
   \<lparr>ds_domain = ''jb:report:resolve:v1'', ds_plane = FORUM, ds_body = ''jagoo.v1.ReportResolve'',
     ds_priority = BULK, ds_idempotent = False, ds_scope_kind = SCOPE_COMMUNITY, ds_key_algs = [ED25519], ds_max_bytes = 4096,
     ds_credit_cost = 0, ds_credit_cost_per_mb = None, ds_requires = [CREDENTIAL], ds_requires_certificate = True,
     ds_federate = True, ds_permission = ''report.review''\<rparr>,
   \<lparr>ds_domain = ''jb:role:define:v1'', ds_plane = FORUM, ds_body = ''jagoo.v1.RoleDefine'',
     ds_priority = BULK, ds_idempotent = False, ds_scope_kind = SCOPE_COMMUNITY, ds_key_algs = [ED25519], ds_max_bytes = 2048,
     ds_credit_cost = 5, ds_credit_cost_per_mb = None, ds_requires = [CREDENTIAL], ds_requires_certificate = True,
     ds_federate = True, ds_permission = ''member.role.update''\<rparr>,
   \<lparr>ds_domain = ''jb:role:assign:v1'', ds_plane = FORUM, ds_body = ''jagoo.v1.RoleAssign'',
     ds_priority = BULK, ds_idempotent = False, ds_scope_kind = SCOPE_COMMUNITY, ds_key_algs = [ED25519], ds_max_bytes = 1024,
     ds_credit_cost = 1, ds_credit_cost_per_mb = None, ds_requires = [CREDENTIAL], ds_requires_certificate = True,
     ds_federate = True, ds_permission = ''member.role.update''\<rparr>,
   \<lparr>ds_domain = ''jb:role:revoke:v1'', ds_plane = FORUM, ds_body = ''jagoo.v1.RoleRevoke'',
     ds_priority = BULK, ds_idempotent = False, ds_scope_kind = SCOPE_COMMUNITY, ds_key_algs = [ED25519], ds_max_bytes = 1024,
     ds_credit_cost = 1, ds_credit_cost_per_mb = None, ds_requires = [CREDENTIAL], ds_requires_certificate = True,
     ds_federate = True, ds_permission = ''member.role.update''\<rparr>,
   \<lparr>ds_domain = ''jb:profile:update:v1'', ds_plane = FORUM, ds_body = ''jagoo.v1.ProfileUpdate'',
     ds_priority = BULK, ds_idempotent = False, ds_scope_kind = SCOPE_NONE, ds_key_algs = [ED25519], ds_max_bytes = 8192,
     ds_credit_cost = 2, ds_credit_cost_per_mb = None, ds_requires = [CREDENTIAL], ds_requires_certificate = True,
     ds_federate = True, ds_permission = ''self''\<rparr>,
   \<lparr>ds_domain = ''jb:social:follow:v1'', ds_plane = FORUM, ds_body = ''jagoo.v1.FollowIdentity'',
     ds_priority = BULK, ds_idempotent = False, ds_scope_kind = SCOPE_NONE, ds_key_algs = [ED25519], ds_max_bytes = 1024,
     ds_credit_cost = 1, ds_credit_cost_per_mb = None, ds_requires = [CREDENTIAL], ds_requires_certificate = True,
     ds_federate = True, ds_permission = ''self''\<rparr>]"

definition domain_specs_3 :: "domain_spec list" where
  "domain_specs_3 = [
   \<lparr>ds_domain = ''jb:social:block:v1'', ds_plane = FORUM, ds_body = ''jagoo.v1.BlockIdentity'',
     ds_priority = BULK, ds_idempotent = False, ds_scope_kind = SCOPE_NONE, ds_key_algs = [ED25519], ds_max_bytes = 2048,
     ds_credit_cost = 0, ds_credit_cost_per_mb = None, ds_requires = [CREDENTIAL], ds_requires_certificate = True,
     ds_federate = True, ds_permission = ''self''\<rparr>,
   \<lparr>ds_domain = ''jb:social:save:v1'', ds_plane = FORUM, ds_body = ''jagoo.v1.SaveContent'',
     ds_priority = BULK, ds_idempotent = False, ds_scope_kind = SCOPE_NONE, ds_key_algs = [ED25519], ds_max_bytes = 1024,
     ds_credit_cost = 0, ds_credit_cost_per_mb = None, ds_requires = [], ds_requires_certificate = True,
     ds_federate = True, ds_permission = ''self''\<rparr>,
   \<lparr>ds_domain = ''jb:prefs:feed:v1'', ds_plane = FORUM, ds_body = ''jagoo.v1.FeedPreferences'',
     ds_priority = BULK, ds_idempotent = False, ds_scope_kind = SCOPE_NONE, ds_key_algs = [ED25519], ds_max_bytes = 8192,
     ds_credit_cost = 0, ds_credit_cost_per_mb = None, ds_requires = [], ds_requires_certificate = True,
     ds_federate = True, ds_permission = ''self''\<rparr>,
   \<lparr>ds_domain = ''jb:award:give:v1'', ds_plane = FORUM, ds_body = ''jagoo.v1.AwardGive'',
     ds_priority = BULK, ds_idempotent = True, ds_scope_kind = SCOPE_COMMUNITY, ds_key_algs = [ED25519], ds_max_bytes = 2048,
     ds_credit_cost = 5, ds_credit_cost_per_mb = None, ds_requires = [CREDENTIAL], ds_requires_certificate = True,
     ds_federate = True, ds_permission = ''member''\<rparr>,
   \<lparr>ds_domain = ''jb:award:type:v1'', ds_plane = FORUM, ds_body = ''jagoo.v1.AwardTypeDefine'',
     ds_priority = BULK, ds_idempotent = False, ds_scope_kind = SCOPE_NONE, ds_key_algs = [ED25519], ds_max_bytes = 2048,
     ds_credit_cost = 0, ds_credit_cost_per_mb = None, ds_requires = [CREDENTIAL], ds_requires_certificate = True,
     ds_federate = True, ds_permission = ''admin''\<rparr>,
   \<lparr>ds_domain = ''jb:attachment:claim:v1'', ds_plane = FORUM, ds_body = ''jagoo.v1.AttachmentClaim'',
     ds_priority = BULK, ds_idempotent = True, ds_scope_kind = SCOPE_NONE, ds_key_algs = [ED25519], ds_max_bytes = 4096,
     ds_credit_cost = 5, ds_credit_cost_per_mb = Some 1, ds_requires = [CREDENTIAL], ds_requires_certificate = True,
     ds_federate = True, ds_permission = ''authenticated''\<rparr>,
   \<lparr>ds_domain = ''jb:message:forum:v1'', ds_plane = FORUM, ds_body = ''jagoo.v1.ForumMessageSend'',
     ds_priority = DIRECT, ds_idempotent = True, ds_scope_kind = SCOPE_NONE, ds_key_algs = [ED25519], ds_max_bytes = 1024,
     ds_credit_cost = 2, ds_credit_cost_per_mb = None, ds_requires = [CREDENTIAL], ds_requires_certificate = True,
     ds_federate = True, ds_permission = ''authenticated''\<rparr>,
   \<lparr>ds_domain = ''jb:label:emit:v1'', ds_plane = FORUM, ds_body = ''jagoo.v1.Label'',
     ds_priority = BULK, ds_idempotent = False, ds_scope_kind = SCOPE_COMMUNITY, ds_key_algs = [ED25519], ds_max_bytes = 8192,
     ds_credit_cost = 0, ds_credit_cost_per_mb = None, ds_requires = [], ds_requires_certificate = True,
     ds_federate = True, ds_permission = ''label.trust''\<rparr>,
   \<lparr>ds_domain = ''jb:key:certify:forum:v1'', ds_plane = FORUM, ds_body = ''jagoo.v1.KeyCertificate'',
     ds_priority = BULK, ds_idempotent = True, ds_scope_kind = SCOPE_NONE, ds_key_algs = [ED25519], ds_max_bytes = 8192,
     ds_credit_cost = 0, ds_credit_cost_per_mb = None, ds_requires = [POW], ds_requires_certificate = False,
     ds_federate = True, ds_permission = ''self''\<rparr>,
   \<lparr>ds_domain = ''jb:key:revoke:forum:v1'', ds_plane = FORUM, ds_body = ''jagoo.v1.KeyRevocation'',
     ds_priority = BROADCAST, ds_idempotent = True, ds_scope_kind = SCOPE_NONE, ds_key_algs = [ED25519], ds_max_bytes = 512,
     ds_credit_cost = 0, ds_credit_cost_per_mb = None, ds_requires = [], ds_requires_certificate = True,
     ds_federate = True, ds_permission = ''self''\<rparr>]"

definition domain_specs_4 :: "domain_spec list" where
  "domain_specs_4 = [
   \<lparr>ds_domain = ''jb:channel:declare:v1'', ds_plane = SIGNAL, ds_body = ''jagoo.v1.ChannelDeclare'',
     ds_priority = BULK, ds_idempotent = True, ds_scope_kind = SCOPE_NONE, ds_key_algs = [ED25519], ds_max_bytes = 16384,
     ds_credit_cost = 100, ds_credit_cost_per_mb = None, ds_requires = [POW], ds_requires_certificate = True,
     ds_federate = True, ds_permission = ''authenticated''\<rparr>,
   \<lparr>ds_domain = ''jb:channel:update:v1'', ds_plane = SIGNAL, ds_body = ''jagoo.v1.ChannelUpdate'',
     ds_priority = BULK, ds_idempotent = False, ds_scope_kind = SCOPE_CHANNEL, ds_key_algs = [ED25519], ds_max_bytes = 16384,
     ds_credit_cost = 5, ds_credit_cost_per_mb = None, ds_requires = [], ds_requires_certificate = True,
     ds_federate = True, ds_permission = ''channel.owner''\<rparr>,
   \<lparr>ds_domain = ''jb:channel:rotate:v1'', ds_plane = SIGNAL, ds_body = ''jagoo.v1.ChannelRotate'',
     ds_priority = BROADCAST, ds_idempotent = True, ds_scope_kind = SCOPE_CHANNEL, ds_key_algs = [ED25519], ds_max_bytes = 512,
     ds_credit_cost = 0, ds_credit_cost_per_mb = None, ds_requires = [], ds_requires_certificate = True,
     ds_federate = True, ds_permission = ''channel.owner''\<rparr>,
   \<lparr>ds_domain = ''jb:channel:retire:v1'', ds_plane = SIGNAL, ds_body = ''jagoo.v1.ChannelRetire'',
     ds_priority = BROADCAST, ds_idempotent = True, ds_scope_kind = SCOPE_CHANNEL, ds_key_algs = [ED25519], ds_max_bytes = 512,
     ds_credit_cost = 0, ds_credit_cost_per_mb = None, ds_requires = [], ds_requires_certificate = True,
     ds_federate = True, ds_permission = ''channel.owner''\<rparr>,
   \<lparr>ds_domain = ''jb:channel:vouch:v1'', ds_plane = SIGNAL, ds_body = ''jagoo.v1.ChannelVouch'',
     ds_priority = BULK, ds_idempotent = False, ds_scope_kind = SCOPE_CHANNEL, ds_key_algs = [ED25519], ds_max_bytes = 2048,
     ds_credit_cost = 1, ds_credit_cost_per_mb = None, ds_requires = [], ds_requires_certificate = True,
     ds_federate = True, ds_permission = ''authenticated''\<rparr>,
   \<lparr>ds_domain = ''jb:channel:subscribe:v1'', ds_plane = SIGNAL, ds_body = ''jagoo.v1.ChannelSubscribe'',
     ds_priority = BULK, ds_idempotent = False, ds_scope_kind = SCOPE_CHANNEL, ds_key_algs = [ED25519], ds_max_bytes = 2048,
     ds_credit_cost = 0, ds_credit_cost_per_mb = None, ds_requires = [], ds_requires_certificate = True,
     ds_federate = False, ds_permission = ''authenticated''\<rparr>,
   \<lparr>ds_domain = ''jb:signal:profile:v1'', ds_plane = SIGNAL, ds_body = ''jagoo.v1.SignalDirectoryProfile'',
     ds_priority = BULK, ds_idempotent = False, ds_scope_kind = SCOPE_NONE, ds_key_algs = [ED25519], ds_max_bytes = 4096,
     ds_credit_cost = 1, ds_credit_cost_per_mb = None, ds_requires = [], ds_requires_certificate = True,
     ds_federate = True, ds_permission = ''authenticated''\<rparr>,
   \<lparr>ds_domain = ''jb:broadcast:emit:v1'', ds_plane = SIGNAL, ds_body = ''jagoo.v1.BroadcastEmit'',
     ds_priority = BROADCAST, ds_idempotent = True, ds_scope_kind = SCOPE_CHANNEL, ds_key_algs = [ED25519], ds_max_bytes = 512,
     ds_credit_cost = 0, ds_credit_cost_per_mb = None, ds_requires = [], ds_requires_certificate = True,
     ds_federate = True, ds_permission = ''broadcast.emit''\<rparr>,
   \<lparr>ds_domain = ''jb:broadcast:revoke:v1'', ds_plane = SIGNAL, ds_body = ''jagoo.v1.BroadcastRevoke'',
     ds_priority = BROADCAST, ds_idempotent = True, ds_scope_kind = SCOPE_CHANNEL, ds_key_algs = [ED25519], ds_max_bytes = 512,
     ds_credit_cost = 0, ds_credit_cost_per_mb = None, ds_requires = [], ds_requires_certificate = True,
     ds_federate = True, ds_permission = ''broadcast.emit''\<rparr>,
   \<lparr>ds_domain = ''jb:checkin:post:v1'', ds_plane = SIGNAL, ds_body = ''jagoo.v1.CheckIn'',
     ds_priority = CHECKIN, ds_idempotent = False, ds_scope_kind = SCOPE_NONE, ds_key_algs = [ED25519], ds_max_bytes = 512,
     ds_credit_cost = 0, ds_credit_cost_per_mb = None, ds_requires = [], ds_requires_certificate = True,
     ds_federate = True, ds_permission = ''''\<rparr>]"

definition domain_specs_5 :: "domain_spec list" where
  "domain_specs_5 = [
   \<lparr>ds_domain = ''jb:missing:report:v1'', ds_plane = SIGNAL, ds_body = ''jagoo.v1.MissingPersonReport'',
     ds_priority = CHECKIN, ds_idempotent = False, ds_scope_kind = SCOPE_NONE, ds_key_algs = [ED25519], ds_max_bytes = 512,
     ds_credit_cost = 0, ds_credit_cost_per_mb = None, ds_requires = [], ds_requires_certificate = True,
     ds_federate = True, ds_permission = ''authenticated''\<rparr>,
   \<lparr>ds_domain = ''jb:resource:report:v1'', ds_plane = SIGNAL, ds_body = ''jagoo.v1.ResourceReport'',
     ds_priority = CHECKIN, ds_idempotent = False, ds_scope_kind = SCOPE_NONE, ds_key_algs = [ED25519], ds_max_bytes = 512,
     ds_credit_cost = 0, ds_credit_cost_per_mb = None, ds_requires = [], ds_requires_certificate = True,
     ds_federate = True, ds_permission = ''authenticated''\<rparr>,
   \<lparr>ds_domain = ''jb:message:signal:v1'', ds_plane = SIGNAL, ds_body = ''jagoo.v1.SignalMessage'',
     ds_priority = DIRECT, ds_idempotent = True, ds_scope_kind = SCOPE_NONE, ds_key_algs = [ED25519], ds_max_bytes = 2048,
     ds_credit_cost = 1, ds_credit_cost_per_mb = None, ds_requires = [], ds_requires_certificate = True,
     ds_federate = True, ds_permission = ''authenticated''\<rparr>,
   \<lparr>ds_domain = ''jb:message:session:v1'', ds_plane = SIGNAL, ds_body = ''jagoo.v1.SignalSessionInit'',
     ds_priority = DIRECT, ds_idempotent = True, ds_scope_kind = SCOPE_NONE, ds_key_algs = [ED25519], ds_max_bytes = 2048,
     ds_credit_cost = 1, ds_credit_cost_per_mb = None, ds_requires = [], ds_requires_certificate = True,
     ds_federate = True, ds_permission = ''authenticated''\<rparr>,
   \<lparr>ds_domain = ''jb:message:receipt:v1'', ds_plane = SIGNAL, ds_body = ''jagoo.v1.SignalDeliveryReceipt'',
     ds_priority = DIRECT, ds_idempotent = False, ds_scope_kind = SCOPE_NONE, ds_key_algs = [ED25519], ds_max_bytes = 512,
     ds_credit_cost = 0, ds_credit_cost_per_mb = None, ds_requires = [], ds_requires_certificate = True,
     ds_federate = True, ds_permission = ''authenticated''\<rparr>,
   \<lparr>ds_domain = ''jb:message:prekeys:v1'', ds_plane = SIGNAL, ds_body = ''jagoo.v1.PrekeyBundle'',
     ds_priority = BULK, ds_idempotent = False, ds_scope_kind = SCOPE_NONE, ds_key_algs = [ED25519], ds_max_bytes = 8192,
     ds_credit_cost = 0, ds_credit_cost_per_mb = None, ds_requires = [], ds_requires_certificate = True,
     ds_federate = True, ds_permission = ''self''\<rparr>,
   \<lparr>ds_domain = ''jb:group:create:v1'', ds_plane = SIGNAL, ds_body = ''jagoo.v1.SignalGroupCreate'',
     ds_priority = BULK, ds_idempotent = True, ds_scope_kind = SCOPE_NONE, ds_key_algs = [ED25519], ds_max_bytes = 131072,
     ds_credit_cost = 2, ds_credit_cost_per_mb = None, ds_requires = [], ds_requires_certificate = True,
     ds_federate = True, ds_permission = ''authenticated''\<rparr>,
   \<lparr>ds_domain = ''jb:group:update:v1'', ds_plane = SIGNAL, ds_body = ''jagoo.v1.SignalGroupUpdate'',
     ds_priority = BULK, ds_idempotent = False, ds_scope_kind = SCOPE_NONE, ds_key_algs = [ED25519], ds_max_bytes = 131072,
     ds_credit_cost = 1, ds_credit_cost_per_mb = None, ds_requires = [], ds_requires_certificate = True,
     ds_federate = True, ds_permission = ''group.admin''\<rparr>,
   \<lparr>ds_domain = ''jb:key:certify:signal:v1'', ds_plane = SIGNAL, ds_body = ''jagoo.v1.KeyCertificate'',
     ds_priority = BULK, ds_idempotent = True, ds_scope_kind = SCOPE_NONE, ds_key_algs = [ED25519], ds_max_bytes = 8192,
     ds_credit_cost = 0, ds_credit_cost_per_mb = None, ds_requires = [POW], ds_requires_certificate = False,
     ds_federate = True, ds_permission = ''self''\<rparr>,
   \<lparr>ds_domain = ''jb:key:revoke:signal:v1'', ds_plane = SIGNAL, ds_body = ''jagoo.v1.KeyRevocation'',
     ds_priority = BROADCAST, ds_idempotent = True, ds_scope_kind = SCOPE_NONE, ds_key_algs = [ED25519], ds_max_bytes = 512,
     ds_credit_cost = 0, ds_credit_cost_per_mb = None, ds_requires = [], ds_requires_certificate = True,
     ds_federate = True, ds_permission = ''self''\<rparr>]"

definition DOMAIN_SPECS :: "domain_spec list" where
  "DOMAIN_SPECS = domain_specs_1 @ domain_specs_2 @ domain_specs_3 @ domain_specs_4 @ domain_specs_5"

definition BY_DOMAIN :: "(string, domain_spec) jsmap" where
  "BY_DOMAIN = foldl (\<lambda>m s. al_set (ds_domain s) s m) [] DOMAIN_SPECS"

definition lookup_domain :: "string \<Rightarrow> domain_spec option" where
  "lookup_domain d = map_of BY_DOMAIN d"

definition domains_for_plane :: "registry_plane \<Rightarrow> domain_spec list" where
  "domains_for_plane p = filter (\<lambda>s. ds_plane s = p) DOMAIN_SPECS"

lemmas domain_specs_defs = domain_specs_1_def domain_specs_2_def domain_specs_3_def domain_specs_4_def
  domain_specs_5_def

lemma domain_names_distinct: "distinct (map ds_domain DOMAIN_SPECS)"
  by (simp add: DOMAIN_SPECS_def domain_specs_defs)

lemma foldl_al_set_map_of:
  "map_of (foldl (\<lambda>m s. al_set (f s) s m) m0 xs) k = (case map_of (rev (map (\<lambda>s. (f s, s)) xs)) k of
     Some v \<Rightarrow> Some v | None \<Rightarrow> map_of m0 k)"
  by (induction xs arbitrary: m0) (auto simp: map_add_def split: option.splits)

lemma lookup_domain_iff: "lookup_domain d = Some s \<longleftrightarrow> s \<in> set DOMAIN_SPECS \<and> ds_domain s = d"
proof -
  let ?kvs = "map (\<lambda>s. (ds_domain s, s)) DOMAIN_SPECS"
  have fst: "map fst ?kvs = map ds_domain DOMAIN_SPECS" by (simp add: comp_def)
  have dist: "distinct (map fst (rev ?kvs))"
    using domain_names_distinct by (simp only: rev_map [symmetric] distinct_rev fst)
  have "map_of (rev ?kvs) d = Some s \<longleftrightarrow> (d, s) \<in> set ?kvs"
    using map_of_eq_Some_iff [OF dist, of d s] by (simp only: set_rev)
  then have "lookup_domain d = Some s \<longleftrightarrow> (d, s) \<in> set ?kvs"
    by (cases "map_of (rev ?kvs) d") (simp_all add: lookup_domain_def BY_DOMAIN_def foldl_al_set_map_of)
  then show ?thesis by auto
qed

section \<open>Envelopes inside the node\<close>

record parsed_envelope = signed_envelope +
  content_id :: string

text \<open>Projections: named collections of documents, in the insertion order a \<open>Map\<close> keeps.\<close>

type_synonym 'd projections = "(string, (string, 'd) jsmap) jsmap"

datatype validation = Valid | Invalid string "string option"
datatype auth_decision = Allowed | Denied string

text \<open>A handler; \<open>h_decode\<close> gives \<open>None\<close> where the code throws, \<open>h_project\<close> its error and the state it left.\<close>

record ('b, 'd) handler =
  h_domain :: string
  h_plane :: int
  h_decode :: "bytes \<Rightarrow> 'b option"
  h_validate :: "'b \<Rightarrow> parsed_envelope \<Rightarrow> validation"
  h_authorize :: "'b \<Rightarrow> parsed_envelope \<Rightarrow> string \<Rightarrow> 'd projections \<Rightarrow> auth_decision"
  h_project :: "'b \<Rightarrow> parsed_envelope \<Rightarrow> string \<Rightarrow> 'd projections \<Rightarrow> (ingress_error + unit) \<times> 'd projections"

section \<open>DomainRegistry\<close>

type_synonym ('b, 'd) registry = "(string, ('b, 'd) handler \<times> domain_spec) jsmap"

datatype registration_error = DuplicateHandler | NotInRegistry | PlaneDisagrees

definition plane_by_name :: "registry_plane \<Rightarrow> int" where
  "plane_by_name p = (case p of FORUM \<Rightarrow> 1 | SIGNAL \<Rightarrow> 2)"

definition register :: "('b, 'd) handler \<Rightarrow> ('b, 'd) registry \<Rightarrow> registration_error + ('b, 'd) registry" where
  "register handler reg =
     (if map_of reg (h_domain handler) \<noteq> None then Inl DuplicateHandler
      else (case lookup_domain (h_domain handler) of
          None \<Rightarrow> Inl NotInRegistry
        | Some spec \<Rightarrow>
            if plane_by_name (ds_plane spec) \<noteq> h_plane handler then Inl PlaneDisagrees
            else Inr (al_set (h_domain handler) (handler, spec) reg)))"

definition reg_lookup :: "string \<Rightarrow> ('b, 'd) registry \<Rightarrow> (('b, 'd) handler \<times> domain_spec) option" where
  "reg_lookup d reg = map_of reg d"

definition reg_has :: "string \<Rightarrow> ('b, 'd) registry \<Rightarrow> bool" where
  "reg_has d reg \<longleftrightarrow> map_of reg d \<noteq> None"

definition reg_plane_for :: "string \<Rightarrow> ('b, 'd) registry \<Rightarrow> int option" where
  "reg_plane_for d reg = map_option (\<lambda>(h, s). h_plane h) (map_of reg d)"

text \<open>
  Every entry joins a handler to its own policy row, on the plane both name: what registration
  guarantees to the pipeline.
\<close>

definition reg_inv :: "('b, 'd) registry \<Rightarrow> bool" where
  "reg_inv reg \<longleftrightarrow> distinct (map fst reg) \<and>
     (\<forall>(d, h, s) \<in> set reg. h_domain h = d \<and> lookup_domain d = Some s \<and> h_plane h = plane_by_name (ds_plane s))"

lemma register_inv:
  assumes "reg_inv reg" and "register h reg = Inr reg'"
  shows "reg_inv reg'"
proof -
  from assms(2) obtain s where n: "map_of reg (h_domain h) = None" and s: "lookup_domain (h_domain h) = Some s"
    and p: "plane_by_name (ds_plane s) = h_plane h" and r: "reg' = al_set (h_domain h) (h, s) reg"
    by (cases "map_of reg (h_domain h)"; cases "lookup_domain (h_domain h)")
       (auto simp: register_def split: if_splits)
  have "set reg' \<subseteq> insert (h_domain h, h, s) (set reg)" unfolding r by (rule set_al_set_subset)
  with assms(1) s p r show ?thesis unfolding reg_inv_def by fastforce
qed

lemma reg_inv_lookup:
  assumes "reg_inv reg" and "reg_lookup d reg = Some (h, s)"
  shows "h_domain h = d" and "lookup_domain d = Some s" and "h_plane h = plane_by_name (ds_plane s)"
  using assms by (auto simp: reg_inv_def reg_lookup_def dest!: map_of_SomeD)

section \<open>Steps 3 to 5\<close>

definition acceptVersion :: "int \<Rightarrow> rejection + unit" where
  "acceptVersion v =
     (if v \<noteq> ENVELOPE_VERSION
      then Inl (rejected UNKNOWN_VERSION (''envelope version '' @ js_string_of_int v @ '' is not supported'')
              (Some ''version''))
      else Inr ())"

definition acceptDomain :: "string \<Rightarrow> ('b, 'd) registry \<Rightarrow> rejection + unit" where
  "acceptDomain d reg =
     (if \<not> reg_has d reg then Inl (rejected UNKNOWN_DOMAIN ''domain is not registered'' (Some ''domain''))
      else Inr ())"

definition acceptPlane :: "string \<Rightarrow> int \<Rightarrow> ('b, 'd) registry \<Rightarrow> rejection + unit" where
  "acceptPlane d p reg =
     (case reg_plane_for d reg of
        None \<Rightarrow> Inl (rejected UNKNOWN_DOMAIN ''domain is not registered'' (Some ''domain''))
      | Some expected \<Rightarrow>
          if expected \<noteq> p
          then Inl (rejected PLANE_MISMATCH (''envelope plane does not match the domain'' @ [CHR 0x27] @ ''s plane'')
                 (Some ''plane''))
          else Inr ())"

definition acceptEnvelopeHeader :: "parsed_envelope \<Rightarrow> ('b, 'd) registry \<Rightarrow> rejection + unit" where
  "acceptEnvelopeHeader env reg =
     res_bind (acceptVersion (version env)) (\<lambda>_.
     res_bind (acceptDomain (domain env) reg) (\<lambda>_.
     acceptPlane (domain env) (plane env) reg))"

lemma header_ok_iff:
  "acceptEnvelopeHeader env reg = Inr () \<longleftrightarrow>
     version env = 1 \<and> (\<exists>h s. reg_lookup (domain env) reg = Some (h, s) \<and> h_plane h = plane env)"
  by (auto simp: acceptEnvelopeHeader_def acceptVersion_def acceptDomain_def acceptPlane_def res_bind_def
      reg_has_def reg_plane_for_def reg_lookup_def ENVELOPE_VERSION_def split: option.splits)

section \<open>Properties\<close>

text \<open>The policy table keeps the contract's promises: no domain has two rows and each is found by
  its name; a check-in is free and ungated; only the two self-certifying domains skip the certificate
  check, and they demand proof of work; every emergency row (broadcast or check-in) fits a 512-byte
  frame, and every row accepts Ed25519.\<close>

theorem policy_table_promises:
  "distinct (map ds_domain DOMAIN_SPECS) \<and>
   list_all (\<lambda>s. lookup_domain (ds_domain s) = Some s
     \<and> (ds_priority s = CHECKIN \<longrightarrow> ds_credit_cost s = 0 \<and> ds_requires s = [])
     \<and> (ds_requires_certificate s \<longleftrightarrow> ds_body s \<noteq> ''jagoo.v1.KeyCertificate'')
     \<and> (\<not> ds_requires_certificate s \<longrightarrow> ds_requires s = [POW])
     \<and> (ds_priority s = BROADCAST \<or> ds_priority s = CHECKIN \<longrightarrow> ds_max_bytes s \<le> 512)
     \<and> ED25519 \<in> set (ds_key_algs s)) DOMAIN_SPECS"
proof -
  have "list_all (\<lambda>s. (ds_priority s = CHECKIN \<longrightarrow> ds_credit_cost s = 0 \<and> ds_requires s = [])
     \<and> (ds_requires_certificate s \<longleftrightarrow> ds_body s \<noteq> ''jagoo.v1.KeyCertificate'')
     \<and> (\<not> ds_requires_certificate s \<longrightarrow> ds_requires s = [POW])
     \<and> (ds_priority s = BROADCAST \<or> ds_priority s = CHECKIN \<longrightarrow> ds_max_bytes s \<le> 512)
     \<and> ED25519 \<in> set (ds_key_algs s)) DOMAIN_SPECS"
    by (simp add: DOMAIN_SPECS_def domain_specs_defs)
  moreover have "list_all (\<lambda>s. lookup_domain (ds_domain s) = Some s) DOMAIN_SPECS"
    by (simp add: list_all_iff lookup_domain_iff)
  ultimately show ?thesis using domain_names_distinct by (simp add: list_all_iff)
qed

theorem policy_table_promises_witness:
  "distinct (map ds_domain DOMAIN_SPECS) \<and> list_ex (\<lambda>s. ds_priority s = CHECKIN \<and> ds_credit_cost s = 0
     \<and> ds_requires s = [] \<and> lookup_domain (ds_domain s) = Some s) DOMAIN_SPECS"
proof -
  have "list_ex (\<lambda>s. ds_priority s = CHECKIN) DOMAIN_SPECS" by (simp add: DOMAIN_SPECS_def domain_specs_defs)
  then show ?thesis using policy_table_promises unfolding list_ex_iff list_all_iff by blast
qed

end
