(* ===== verification/JB_Trust.thy ===== *)
theory JB_Trust
  imports JB_Registry
begin

text \<open>
  How far a peer node is trusted, \<open>backend/src/core/domain/federation/trust.ts\<close>, with the peer types of
  \<open>backend/src/core/ports/network.port.ts\<close>. Trust is a function of its inputs: the operator's decision, the
  vouches held, our own opinion of each asserter (\<open>asserter_trust\<close>) and the clock. The lemmas show that
  an evaluation depends only on who said what, and on nothing a stranger said. Instants and counts are
  integers; an absent optional field is \<open>None\<close>.
\<close>

section \<open>Levels of trust\<close>

datatype peer_trust = UNSPECIFIED | BLOCKED | PROBATION | NORMAL | TRUSTED

definition trust_order :: "peer_trust list" where
  "trust_order = [BLOCKED, UNSPECIFIED, PROBATION, NORMAL, TRUSTED]"

fun js_index_of :: "'a \<Rightarrow> 'a list \<Rightarrow> int" where
  "js_index_of x [] = -1"
| "js_index_of x (y # ys) = (if x = y then 0 else let i = js_index_of x ys in if i < 0 then -1 else i + 1)"

definition trust_rank :: "peer_trust \<Rightarrow> int" where
  "trust_rank level = (let index = js_index_of level trust_order in if index < 0 then 0 else index)"

definition at_least :: "peer_trust \<Rightarrow> peer_trust \<Rightarrow> bool" where
  "at_least level minimum \<longleftrightarrow> trust_rank minimum \<le> trust_rank level"

definition demote_one :: "peer_trust \<Rightarrow> peer_trust" where
  "demote_one level =
     (let index = js_index_of level trust_order
      in if index \<le> 0 then BLOCKED
         else let next = trust_order ! nat (index - 1) in if next = UNSPECIFIED then BLOCKED else next)"

definition PROBATION_PERIOD_MS :: int where "PROBATION_PERIOD_MS = 7 * 24 * 60 * 60 * 1000"
definition QUOTA_BREACH_LIMIT :: int where "QUOTA_BREACH_LIMIT = 3"

lemma trust_rank_simps [simp]:
  "trust_rank BLOCKED = 0" "trust_rank UNSPECIFIED = 1" "trust_rank PROBATION = 2" "trust_rank NORMAL = 3"
  "trust_rank TRUSTED = 4"
  by (simp_all add: trust_rank_def trust_order_def Let_def)

lemma trust_rank_inj: "trust_rank a = trust_rank b \<Longrightarrow> a = b"
  by (cases a; cases b) simp_all

text \<open>The levels in order of reach, so that comparisons are the library's.\<close>

instantiation peer_trust :: linorder
begin

definition less_eq_peer_trust :: "peer_trust \<Rightarrow> peer_trust \<Rightarrow> bool" where
  "less_eq_peer_trust a b \<longleftrightarrow> trust_rank a \<le> trust_rank b"

definition less_peer_trust :: "peer_trust \<Rightarrow> peer_trust \<Rightarrow> bool" where
  "less_peer_trust a b \<longleftrightarrow> trust_rank a < trust_rank b"

instance
  by standard (auto simp: less_eq_peer_trust_def less_peer_trust_def intro: trust_rank_inj)

end

lemma at_least_iff: "at_least level minimum \<longleftrightarrow> minimum \<le> level"
  by (simp add: at_least_def less_eq_peer_trust_def)

lemma trust_less_eq_simps [simp]:
  "BLOCKED \<le> a" "a \<le> TRUSTED" "NORMAL \<le> a \<longleftrightarrow> a = NORMAL \<or> a = TRUSTED"
  "PROBATION \<le> a \<longleftrightarrow> a = PROBATION \<or> a = NORMAL \<or> a = TRUSTED" "a \<le> BLOCKED \<longleftrightarrow> a = BLOCKED"
  "TRUSTED \<le> a \<longleftrightarrow> a = TRUSTED"
  by (cases a; simp add: less_eq_peer_trust_def)+

lemma demote_one_simps [simp]:
  "demote_one TRUSTED = NORMAL" "demote_one NORMAL = PROBATION" "demote_one PROBATION = BLOCKED"
  "demote_one UNSPECIFIED = BLOCKED" "demote_one BLOCKED = BLOCKED"
  by (simp_all add: demote_one_def trust_order_def Let_def)

lemma demote_one_less: "a \<noteq> BLOCKED \<Longrightarrow> demote_one a < a"
  by (cases a) (simp_all add: less_peer_trust_def)

section \<open>Vouches and the evaluation\<close>

record peer_vouch =
  pv_asserter_key :: bytes
  pv_peer_key :: bytes
  pv_level :: peer_trust
  pv_note :: string
  pv_asserted_at_ms :: int
  pv_signature :: bytes

record trust_input =
  ti_current :: "peer_trust option"
  ti_admin_level :: "peer_trust option"
  ti_vouches :: "peer_vouch list"
  ti_asserter_trust :: "bytes \<Rightarrow> peer_trust"
  ti_first_seen_ms :: int
  ti_now_ms :: int
  ti_quota_breaches :: "int option"
  ti_blocked_reason :: "string option"

definition keyOf :: "bytes \<Rightarrow> string" where "keyOf key = hex key"

definition distinct_asserters ::
  "peer_vouch list \<Rightarrow> (peer_vouch \<Rightarrow> peer_trust \<Rightarrow> bool) \<Rightarrow> (bytes \<Rightarrow> peer_trust) \<Rightarrow> nat" where
  "distinct_asserters vouches predicate asserter_trust =
     length (fold (\<lambda>vouch seen. let asserter = asserter_trust (pv_asserter_key vouch); k = keyOf (pv_asserter_key vouch)
       in if predicate vouch asserter \<and> k \<notin> set seen then seen @ [k] else seen) vouches [])"

text \<open>\<open>a && a !== ''\<close>: the empty string and an absent field are both false.\<close>

definition truthy :: "string option \<Rightarrow> bool" where
  "truthy s \<longleftrightarrow> (case s of Some t \<Rightarrow> t \<noteq> [] | None \<Rightarrow> False)"

definition evaluate_trust :: "trust_input \<Rightarrow> peer_trust \<times> string" where
  "evaluate_trust inp =
     (case (case ti_admin_level inp of Some a \<Rightarrow> if a \<noteq> UNSPECIFIED then Some a else None | None \<Rightarrow> None) of
        Some a \<Rightarrow> (a, ''operator decision'')
      | None \<Rightarrow>
     if truthy (ti_blocked_reason inp) then (BLOCKED, the (ti_blocked_reason inp)) else
     let negative = distinct_asserters (ti_vouches inp) (\<lambda>v a. pv_level v = BLOCKED \<and> a = TRUSTED) (ti_asserter_trust inp)
     in if negative \<ge> 2 then (BLOCKED, js_string_of_int (int negative) @ '' trusted peers vouched negative'') else
     let trusted = distinct_asserters (ti_vouches inp) (\<lambda>v a. pv_level v = TRUSTED \<and> a = TRUSTED) (ti_asserter_trust inp)
     in if trusted \<ge> 3 then (TRUSTED, js_string_of_int (int trusted) @ '' trusted vouches'') else
     let normal = distinct_asserters (ti_vouches inp) (\<lambda>v a. at_least (pv_level v) NORMAL \<and> at_least a NORMAL)
       (ti_asserter_trust inp)
     in if normal \<ge> 2 then (NORMAL, js_string_of_int (int normal) @ '' vouches from normal-or-better peers'') else
     (case ti_current inp of
        None \<Rightarrow> (PROBATION, ''first contact (TOFU)'')
      | Some current \<Rightarrow>
          if current = PROBATION \<and> (case ti_quota_breaches inp of Some q \<Rightarrow> q | None \<Rightarrow> 0) = 0
             \<and> ti_now_ms inp - ti_first_seen_ms inp \<ge> PROBATION_PERIOD_MS
          then (NORMAL, ''7 days clean at probation'')
          else (current, ''unchanged'')))"

section \<open>Reach\<close>

record peer_quota =
  pq_envelopes_per_min :: int
  pq_bytes_per_min :: int
  pq_max_concurrent_streams :: int
  pq_allowed_classes :: "int list"

fun allowed_classes :: "peer_trust \<Rightarrow> int list" where
  "allowed_classes TRUSTED = [PRIO_BROADCAST, PRIO_DIRECT, PRIO_CHECKIN, PRIO_BULK]"
| "allowed_classes NORMAL = [PRIO_BROADCAST, PRIO_DIRECT, PRIO_CHECKIN, PRIO_BULK]"
| "allowed_classes PROBATION = [PRIO_BROADCAST, PRIO_DIRECT, PRIO_CHECKIN]"
| "allowed_classes _ = []"

fun quota_for :: "peer_trust \<Rightarrow> peer_quota" where
  "quota_for TRUSTED = \<lparr>pq_envelopes_per_min = 6000, pq_bytes_per_min = 64 * 1024 * 1024,
     pq_max_concurrent_streams = 8, pq_allowed_classes = allowed_classes TRUSTED\<rparr>"
| "quota_for NORMAL = \<lparr>pq_envelopes_per_min = 1200, pq_bytes_per_min = 16 * 1024 * 1024,
     pq_max_concurrent_streams = 4, pq_allowed_classes = allowed_classes NORMAL\<rparr>"
| "quota_for PROBATION = \<lparr>pq_envelopes_per_min = 120, pq_bytes_per_min = 1024 * 1024,
     pq_max_concurrent_streams = 1, pq_allowed_classes = allowed_classes PROBATION\<rparr>"
| "quota_for _ = \<lparr>pq_envelopes_per_min = 0, pq_bytes_per_min = 0, pq_max_concurrent_streams = 0,
     pq_allowed_classes = []\<rparr>"

definition is_gossip_partner :: "peer_trust \<Rightarrow> bool" where
  "is_gossip_partner level \<longleftrightarrow> level = TRUSTED"

fun TRUST_LEVEL_WIRE :: "peer_trust \<Rightarrow> int" where
  "TRUST_LEVEL_WIRE UNSPECIFIED = 0"
| "TRUST_LEVEL_WIRE BLOCKED = 1"
| "TRUST_LEVEL_WIRE PROBATION = 2"
| "TRUST_LEVEL_WIRE NORMAL = 3"
| "TRUST_LEVEL_WIRE TRUSTED = 4"

lemma TRUST_LEVEL_WIRE_inj: "TRUST_LEVEL_WIRE a = TRUST_LEVEL_WIRE b \<longleftrightarrow> a = b"
  by (cases a; cases b) simp_all

lemma allowed_classes_mono: "a \<le> b \<Longrightarrow> set (allowed_classes a) \<subseteq> set (allowed_classes b)"
  by (cases a; cases b) (auto simp: less_eq_peer_trust_def)

section \<open>Who is counted\<close>

definition asserters :: "peer_vouch list \<Rightarrow> (peer_vouch \<Rightarrow> peer_trust \<Rightarrow> bool) \<Rightarrow> (bytes \<Rightarrow> peer_trust) \<Rightarrow> bytes set" where
  "asserters vouches predicate trust =
     {pv_asserter_key v |v. v \<in> set vouches \<and> predicate v (trust (pv_asserter_key v))}"

lemma finite_asserters [simp]: "finite (asserters vouches predicate trust)"
proof -
  have "asserters vouches predicate trust \<subseteq> pv_asserter_key ` set vouches" by (auto simp: asserters_def)
  then show ?thesis by (rule finite_subset) simp
qed

lemma seen_keys:
  assumes "distinct seen"
  shows "distinct (fold (\<lambda>v s. let a = tr (pv_asserter_key v); k = keyOf (pv_asserter_key v)
            in if P v a \<and> k \<notin> set s then s @ [k] else s) vs seen)
    \<and> set (fold (\<lambda>v s. let a = tr (pv_asserter_key v); k = keyOf (pv_asserter_key v)
            in if P v a \<and> k \<notin> set s then s @ [k] else s) vs seen) = set seen \<union> keyOf ` asserters vs P tr"
  using assms
proof (induction vs arbitrary: seen)
  case Nil
  then show ?case by (simp add: asserters_def)
next
  case (Cons v vs)
  have split: "asserters (v # vs) P tr =
      (if P v (tr (pv_asserter_key v)) then insert (pv_asserter_key v) (asserters vs P tr) else asserters vs P tr)"
    by (auto simp: asserters_def)
  show ?case
  proof (cases "P v (tr (pv_asserter_key v)) \<and> keyOf (pv_asserter_key v) \<notin> set seen")
    case True
    with Cons.prems have "distinct (seen @ [keyOf (pv_asserter_key v)])" by simp
    from Cons.IH [OF this] True show ?thesis by (simp add: split Let_def)
  next
    case False
    with Cons.IH [OF Cons.prems] show ?thesis by (auto simp: split Let_def)
  qed
qed

lemma keyOf_inj: "inj keyOf"
  by (rule injI) (simp add: keyOf_def hex_inj)

lemma distinct_asserters_card: "distinct_asserters vouches predicate trust = card (asserters vouches predicate trust)"
proof -
  note s = seen_keys [where seen = "[]" and vs = vouches and P = predicate and tr = trust, simplified]
  have "distinct_asserters vouches predicate trust = card (keyOf ` asserters vouches predicate trust)"
    unfolding distinct_asserters_def using distinct_card [OF conjunct1 [OF s]] s by (simp add: Let_def)
  also have "\<dots> = card (asserters vouches predicate trust)"
    by (rule card_image) (rule inj_on_subset [OF keyOf_inj], simp)
  finally show ?thesis .
qed

section \<open>What an evaluation rests on\<close>

definition operator_decided :: "trust_input \<Rightarrow> bool" where
  "operator_decided inp \<longleftrightarrow> ti_admin_level inp \<noteq> None \<and> ti_admin_level inp \<noteq> Some UNSPECIFIED"

definition standing :: "peer_vouch list \<Rightarrow> (bytes \<Rightarrow> peer_trust) \<Rightarrow> (bytes \<times> peer_trust) set" where
  "standing vouches trust =
     {(pv_asserter_key v, pv_level v) |v. v \<in> set vouches \<and> NORMAL \<le> trust (pv_asserter_key v)}"

lemma asserters_standing:
  assumes "\<And>level a. P level a \<Longrightarrow> NORMAL \<le> a"
  shows "asserters vs (\<lambda>v. P (pv_level v)) trust =
    fst ` {(k, level). (k, level) \<in> standing vs trust \<and> P level (trust k)}"
  using assms by (force simp: asserters_def standing_def)

lemma counts_standing:
  assumes "standing vs trust = standing ws trust"
  shows "distinct_asserters vs (\<lambda>v a. pv_level v = BLOCKED \<and> a = TRUSTED) trust =
      distinct_asserters ws (\<lambda>v a. pv_level v = BLOCKED \<and> a = TRUSTED) trust"
    "distinct_asserters vs (\<lambda>v a. pv_level v = TRUSTED \<and> a = TRUSTED) trust =
      distinct_asserters ws (\<lambda>v a. pv_level v = TRUSTED \<and> a = TRUSTED) trust"
    "distinct_asserters vs (\<lambda>v a. at_least (pv_level v) NORMAL \<and> at_least a NORMAL) trust =
      distinct_asserters ws (\<lambda>v a. at_least (pv_level v) NORMAL \<and> at_least a NORMAL) trust"
proof -
  have same: "asserters vs (\<lambda>v. P (pv_level v)) trust = asserters ws (\<lambda>v. P (pv_level v)) trust"
    if "\<And>level a. P level a \<Longrightarrow> NORMAL \<le> a" for P
    using asserters_standing [where P = P and trust = trust, OF that] assms by simp
  show "distinct_asserters vs (\<lambda>v a. pv_level v = BLOCKED \<and> a = TRUSTED) trust =
      distinct_asserters ws (\<lambda>v a. pv_level v = BLOCKED \<and> a = TRUSTED) trust"
    unfolding distinct_asserters_card using same [of "\<lambda>l a. l = BLOCKED \<and> a = TRUSTED"] by simp
  show "distinct_asserters vs (\<lambda>v a. pv_level v = TRUSTED \<and> a = TRUSTED) trust =
      distinct_asserters ws (\<lambda>v a. pv_level v = TRUSTED \<and> a = TRUSTED) trust"
    unfolding distinct_asserters_card using same [of "\<lambda>l a. l = TRUSTED \<and> a = TRUSTED"] by simp
  show "distinct_asserters vs (\<lambda>v a. at_least (pv_level v) NORMAL \<and> at_least a NORMAL) trust =
      distinct_asserters ws (\<lambda>v a. at_least (pv_level v) NORMAL \<and> at_least a NORMAL) trust"
    unfolding distinct_asserters_card using same [of "\<lambda>l a. at_least l NORMAL \<and> at_least a NORMAL"]
    by (simp add: at_least_iff)
qed

lemma evaluate_undecided: "\<not> operator_decided inp \<Longrightarrow>
    (case ti_admin_level inp of Some a \<Rightarrow> if a \<noteq> UNSPECIFIED then Some a else None | None \<Rightarrow> None) = None"
  by (auto simp: operator_decided_def split: option.splits)

text \<open>Every way an undecided evaluation can come out, with what it rests on.\<close>

lemma evaluate_trust_cases:
  assumes "\<not> operator_decided inp"
  obtains
    (forked) "truthy (ti_blocked_reason inp)" "evaluate_trust inp = (BLOCKED, the (ti_blocked_reason inp))"
  | (negative) "\<not> truthy (ti_blocked_reason inp)" "fst (evaluate_trust inp) = BLOCKED"
      "2 \<le> card (asserters (ti_vouches inp) (\<lambda>v a. pv_level v = BLOCKED \<and> a = TRUSTED) (ti_asserter_trust inp))"
  | (trusted) "\<not> truthy (ti_blocked_reason inp)" "fst (evaluate_trust inp) = TRUSTED"
      "3 \<le> card (asserters (ti_vouches inp) (\<lambda>v a. pv_level v = TRUSTED \<and> a = TRUSTED) (ti_asserter_trust inp))"
  | (normal) "\<not> truthy (ti_blocked_reason inp)" "fst (evaluate_trust inp) = NORMAL"
      "2 \<le> card (asserters (ti_vouches inp) (\<lambda>v a. NORMAL \<le> pv_level v \<and> NORMAL \<le> a) (ti_asserter_trust inp))"
  | (first_contact) "\<not> truthy (ti_blocked_reason inp)" "ti_current inp = None" "fst (evaluate_trust inp) = PROBATION"
  | (clean) "\<not> truthy (ti_blocked_reason inp)" "ti_current inp = Some PROBATION" "fst (evaluate_trust inp) = NORMAL"
      "case ti_quota_breaches inp of Some q \<Rightarrow> q = 0 | None \<Rightarrow> True"
      "PROBATION_PERIOD_MS \<le> ti_now_ms inp - ti_first_seen_ms inp"
  | (unchanged) "\<not> truthy (ti_blocked_reason inp)" "ti_current inp = Some (fst (evaluate_trust inp))"
proof -
  note d = evaluate_trust_def [of inp, unfolded evaluate_undecided [OF assms] option.case Let_def at_least_iff
      distinct_asserters_card]
  let ?n = "card (asserters (ti_vouches inp) (\<lambda>v a. pv_level v = BLOCKED \<and> a = TRUSTED) (ti_asserter_trust inp))"
  let ?t = "card (asserters (ti_vouches inp) (\<lambda>v a. pv_level v = TRUSTED \<and> a = TRUSTED) (ti_asserter_trust inp))"
  let ?m = "card (asserters (ti_vouches inp) (\<lambda>v a. NORMAL \<le> pv_level v \<and> NORMAL \<le> a) (ti_asserter_trust inp))"
  consider "truthy (ti_blocked_reason inp)" | "\<not> truthy (ti_blocked_reason inp)" "2 \<le> ?n"
    | "\<not> truthy (ti_blocked_reason inp)" "\<not> 2 \<le> ?n" "3 \<le> ?t"
    | "\<not> truthy (ti_blocked_reason inp)" "\<not> 2 \<le> ?n" "\<not> 3 \<le> ?t" "2 \<le> ?m"
    | "\<not> truthy (ti_blocked_reason inp)" "\<not> 2 \<le> ?n" "\<not> 3 \<le> ?t" "\<not> 2 \<le> ?m" by blast
  then show thesis
  proof cases
    case 1 then show ?thesis by (intro forked) (simp_all only: d if_True)
  next
    case 2 then show ?thesis by (intro negative) (simp_all only: d if_True if_False fst_conv simp_thms)
  next
    case 3 then show ?thesis by (intro trusted) (simp_all only: d if_True if_False fst_conv simp_thms)
  next
    case 4 then show ?thesis by (intro normal) (simp_all only: d if_True if_False fst_conv simp_thms)
  next
    case 5
    then have e: "evaluate_trust inp = (case ti_current inp of None \<Rightarrow> (PROBATION, ''first contact (TOFU)'')
      | Some current \<Rightarrow>
          if current = PROBATION \<and> (case ti_quota_breaches inp of Some q \<Rightarrow> q | None \<Rightarrow> 0) = 0
             \<and> ti_now_ms inp - ti_first_seen_ms inp \<ge> PROBATION_PERIOD_MS
          then (NORMAL, ''7 days clean at probation'') else (current, ''unchanged''))"
      by (simp only: d if_False)
    show ?thesis
    proof (cases "ti_current inp")
      case None
      then show ?thesis by (intro first_contact) (simp_all add: e 5)
    next
      case (Some c)
      show ?thesis
      proof (cases "fst (evaluate_trust inp) = c")
        case True
        with Some 5 show ?thesis by (intro unchanged) simp_all
      next
        case False
        with Some have "c = PROBATION" "(case ti_quota_breaches inp of Some q \<Rightarrow> q | None \<Rightarrow> 0) = 0"
          "PROBATION_PERIOD_MS \<le> ti_now_ms inp - ti_first_seen_ms inp"
          by (auto simp: e split: if_splits)
        with Some 5 show ?thesis by (intro clean) (auto simp: e split: option.splits)
      qed
    qed
  qed
qed

section \<open>Properties\<close>


definition sample_vouch :: "byte \<Rightarrow> peer_trust \<Rightarrow> peer_vouch" where
  "sample_vouch k level = \<lparr>pv_asserter_key = [k], pv_peer_key = [9], pv_level = level, pv_note = '''',
     pv_asserted_at_ms = 5, pv_signature = []\<rparr>"

definition sample_trust_input :: "peer_vouch list \<Rightarrow> trust_input" where
  "sample_trust_input vs = \<lparr>ti_current = Some PROBATION, ti_admin_level = None, ti_vouches = vs,
     ti_asserter_trust = (\<lambda>k. if k = [1] \<or> k = [2] then NORMAL else UNSPECIFIED), ti_first_seen_ms = 0, ti_now_ms = 1000,
     ti_quota_breaches = Some 0, ti_blocked_reason = None\<rparr>"

lemmas sample_trust_defs = sample_trust_input_def sample_vouch_def evaluate_trust_def truthy_def distinct_asserters_def
  at_least_iff Let_def keyOf_def hex_inj


text \<open>A vouch weighs exactly as much as the node that made it: the evaluation depends only on which nodes we
  ourselves hold at NORMAL or better said which level. Repeating a vouch, reordering or rewording vouches,
  or adding any number of vouches from nodes below NORMAL, such as freshly minted keys, changes nothing.\<close>

theorem strangers_cannot_vouch:
  assumes "standing vs (ti_asserter_trust inp) = standing ws (ti_asserter_trust inp)"
  shows "evaluate_trust (inp\<lparr>ti_vouches := vs\<rparr>) = evaluate_trust (inp\<lparr>ti_vouches := ws\<rparr>)"
proof -
  have fields: "ti_admin_level (inp\<lparr>ti_vouches := x\<rparr>) = ti_admin_level inp"
    "ti_blocked_reason (inp\<lparr>ti_vouches := x\<rparr>) = ti_blocked_reason inp" "ti_vouches (inp\<lparr>ti_vouches := x\<rparr>) = x"
    "ti_asserter_trust (inp\<lparr>ti_vouches := x\<rparr>) = ti_asserter_trust inp" "ti_current (inp\<lparr>ti_vouches := x\<rparr>) = ti_current inp"
    "ti_quota_breaches (inp\<lparr>ti_vouches := x\<rparr>) = ti_quota_breaches inp"
    "ti_now_ms (inp\<lparr>ti_vouches := x\<rparr>) = ti_now_ms inp" "ti_first_seen_ms (inp\<lparr>ti_vouches := x\<rparr>) = ti_first_seen_ms inp"
    for x by simp_all
  show ?thesis unfolding evaluate_trust_def fields counts_standing [OF assms] by (rule refl)
qed

theorem strangers_cannot_vouch_witness:
  "fst (evaluate_trust (sample_trust_input [sample_vouch 1 NORMAL, sample_vouch 1 NORMAL, sample_vouch 7 TRUSTED,
     sample_vouch 8 TRUSTED, sample_vouch 9 TRUSTED])) = PROBATION"
proof -
  let ?i = "sample_trust_input []" and ?v = "sample_vouch 1 NORMAL"
  let ?vs = "[?v, ?v, sample_vouch 7 TRUSTED, sample_vouch 8 TRUSTED, sample_vouch 9 TRUSTED]"
  have "standing ?vs (ti_asserter_trust ?i) = standing [?v] (ti_asserter_trust ?i)"
    by (auto simp: standing_def sample_trust_input_def sample_vouch_def intro!: exI [of _ "sample_vouch 1 NORMAL"])
  from strangers_cannot_vouch [OF this]
  have "evaluate_trust (sample_trust_input ?vs) = evaluate_trust (sample_trust_input [?v])"
    by (simp add: sample_trust_input_def)
  then show ?thesis by (simp add: sample_trust_defs PROBATION_PERIOD_MS_def)
qed

end
