(* ===== verification/JB_Quota.thy ===== *)
theory JB_Quota
  imports JB_Trust Complex_Main
begin

text \<open>
  What a peer may push and how fast: the token buckets of \<open>backend/src/core/domain/federation/quota.ts\<close>, the
  retry schedule of \<open>backoff.ts\<close> beside it, and the limiter and alert list of
  \<open>backend/src/adapters/outbound/in-memory/in-memory-quota.ts\<close>. Bucket levels are rational numbers, so
  \<open>(elapsed / 60_000) * perMinute\<close> is exact where JavaScript rounds to a double. The lemmas show that a bucket
  admits, over any span, at most its rate and one burst (a minute's grant or the largest single request), and that the
  buckets of other peers and classes never touch it.
\<close>

section \<open>Token buckets\<close>

record bucket_state =
  bk_tokens :: rat
  bk_last_refill_ms :: int

definition new_bucket :: "rat \<Rightarrow> int \<Rightarrow> bucket_state" where
  "new_bucket capacity now_ms = \<lparr>bk_tokens = capacity, bk_last_refill_ms = now_ms\<rparr>"

definition refill :: "bucket_state \<Rightarrow> rat \<Rightarrow> rat \<Rightarrow> int \<Rightarrow> bucket_state" where
  "refill st per_minute capacity now_ms =
     (if now_ms \<le> bk_last_refill_ms st then st
      else let elapsed = now_ms - bk_last_refill_ms st; gained = of_int elapsed / 60000 * per_minute
           in \<lparr>bk_tokens = min capacity (bk_tokens st + gained), bk_last_refill_ms = now_ms\<rparr>)"

record quota_decision =
  qd_allowed :: bool
  qd_state :: bucket_state
  qd_over_by :: rat

definition consume :: "bucket_state \<Rightarrow> rat \<Rightarrow> rat \<Rightarrow> int \<Rightarrow> quota_decision" where
  "consume st cost per_minute now_ms =
     (let capacity = max per_minute cost; refilled = refill st per_minute capacity now_ms
      in if cost \<le> bk_tokens refilled
         then \<lparr>qd_allowed = True, qd_state = refilled\<lparr>bk_tokens := bk_tokens refilled - cost\<rparr>, qd_over_by = 0\<rparr>
         else \<lparr>qd_allowed = False, qd_state = refilled, qd_over_by = cost - bk_tokens refilled\<rparr>)"

record pair_decision =
  pd_allowed :: bool
  pd_envelopes :: bucket_state
  pd_bytes :: bucket_state
  pd_over_by :: rat

record pair_input =
  pi_envelopes :: bucket_state
  pi_bytes :: bucket_state
  pi_envelope_cost :: rat
  pi_envelopes_per_minute :: rat
  pi_byte_cost :: rat
  pi_bytes_per_minute :: rat
  pi_now_ms :: int

definition consume_pair :: "pair_input \<Rightarrow> pair_decision" where
  "consume_pair inp =
     (let envelope_capacity = max (pi_envelopes_per_minute inp) (pi_envelope_cost inp);
          byte_capacity = max (pi_bytes_per_minute inp) (pi_byte_cost inp);
          envelopes = refill (pi_envelopes inp) (pi_envelopes_per_minute inp) envelope_capacity (pi_now_ms inp);
          byts = refill (pi_bytes inp) (pi_bytes_per_minute inp) byte_capacity (pi_now_ms inp);
          envelope_short = max 0 (pi_envelope_cost inp - bk_tokens envelopes);
          byte_short = max 0 (pi_byte_cost inp - bk_tokens byts)
      in if envelope_short > 0 \<or> byte_short > 0
         then \<lparr>pd_allowed = False, pd_envelopes = envelopes, pd_bytes = byts, pd_over_by = max envelope_short byte_short\<rparr>
         else \<lparr>pd_allowed = True,
                pd_envelopes = envelopes\<lparr>bk_tokens := bk_tokens envelopes - pi_envelope_cost inp\<rparr>,
                pd_bytes = byts\<lparr>bk_tokens := bk_tokens byts - pi_byte_cost inp\<rparr>, pd_over_by = 0\<rparr>)"

definition class_permitted :: "peer_trust \<Rightarrow> int \<Rightarrow> bool" where
  "class_permitted level prio \<longleftrightarrow> prio \<in> set (allowed_classes level)"

definition should_demote :: "int \<Rightarrow> int \<Rightarrow> bool" where
  "should_demote breaches limit \<longleftrightarrow> breaches \<ge> limit"

definition cost_of :: "int \<Rightarrow> rat" where
  "cost_of prio = (if prio = 0 then 0 else 1)"

definition envelopes_per_minute_for :: "peer_quota \<Rightarrow> int \<Rightarrow> int" where
  "envelopes_per_minute_for quota prio =
     (if prio \<notin> set (pq_allowed_classes quota) then 0
      else if prio = PRIO_BULK then pq_envelopes_per_min quota div 2 else pq_envelopes_per_min quota)"

definition bytes_per_minute_for :: "peer_quota \<Rightarrow> int \<Rightarrow> int" where
  "bytes_per_minute_for quota prio =
     (if prio \<notin> set (pq_allowed_classes quota) then 0
      else if prio = PRIO_BULK then pq_bytes_per_min quota div 2 else pq_bytes_per_min quota)"

section \<open>Backoff\<close>

definition INITIAL_BACKOFF_MS :: int where "INITIAL_BACKOFF_MS = 1000"
definition MAX_BACKOFF_MS :: int where "MAX_BACKOFF_MS = 15 * 60 * 1000"
definition MAX_DELIVERY_ATTEMPTS :: int where "MAX_DELIVERY_ATTEMPTS = 13"

definition backoff_delay_ms :: "int \<Rightarrow> int" where
  "backoff_delay_ms n =
     (if n \<le> 0 then 0 else min (INITIAL_BACKOFF_MS * 2 ^ nat (min (n - 1) 30)) MAX_BACKOFF_MS)"

record retry_decision =
  rd_next_attempt_at_ms :: "int option"
  rd_attempts :: int
  rd_dead_lettered :: bool

definition next_retry :: "int \<Rightarrow> int \<Rightarrow> retry_decision" where
  "next_retry attempts now_ms =
     (let next = attempts + 1
      in if next \<ge> MAX_DELIVERY_ATTEMPTS
         then \<lparr>rd_next_attempt_at_ms = None, rd_attempts = next, rd_dead_lettered = True\<rparr>
         else \<lparr>rd_next_attempt_at_ms = Some (now_ms + backoff_delay_ms next), rd_attempts = next,
                rd_dead_lettered = False\<rparr>)"

definition backpressure_hint_ms :: "rat \<Rightarrow> int \<Rightarrow> int" where
  "backpressure_hint_ms over_by per_minute =
     (if over_by \<le> 0 \<or> per_minute \<le> 0 then 0
      else let ms_per_envelope = 60000 / of_int per_minute in min \<lceil>over_by * ms_per_envelope\<rceil> 60000)"

section \<open>The limiter and the alert list\<close>

record quota_request =
  qr_peer_id :: string
  qr_priority :: int
  qr_cost :: rat
  qr_per_minute :: int
  qr_bytes :: rat
  qr_bytes_per_minute :: int
  qr_now_ms :: int

record quota_verdict =
  qv_allowed :: bool
  qv_over_by :: rat

record limiter =
  lm_envelopes :: "(string, bucket_state) jsmap"
  lm_bytes :: "(string, bucket_state) jsmap"

definition empty_limiter :: limiter where
  "empty_limiter = \<lparr>lm_envelopes = [], lm_bytes = []\<rparr>"

definition bucket_key :: "string \<Rightarrow> int \<Rightarrow> string" where
  "bucket_key peer_id prio = peer_id @ ''|'' @ js_string_of_int prio"

definition limiter_consume :: "quota_request \<Rightarrow> limiter \<Rightarrow> quota_verdict \<times> limiter" where
  "limiter_consume r lm =
     (if qr_per_minute r \<le> 0 then (\<lparr>qv_allowed = False, qv_over_by = qr_cost r\<rparr>, lm)
      else if qr_bytes_per_minute r \<le> 0 then (\<lparr>qv_allowed = False, qv_over_by = qr_bytes r\<rparr>, lm)
      else let k = bucket_key (qr_peer_id r) (qr_priority r);
               decision = consume_pair
                 \<lparr>pi_envelopes = (case map_of (lm_envelopes lm) k of Some b \<Rightarrow> b
                     | None \<Rightarrow> new_bucket (of_int (qr_per_minute r)) (qr_now_ms r)),
                  pi_bytes = (case map_of (lm_bytes lm) k of Some b \<Rightarrow> b
                     | None \<Rightarrow> new_bucket (of_int (qr_bytes_per_minute r)) (qr_now_ms r)),
                  pi_envelope_cost = qr_cost r, pi_envelopes_per_minute = of_int (qr_per_minute r),
                  pi_byte_cost = qr_bytes r, pi_bytes_per_minute = of_int (qr_bytes_per_minute r),
                  pi_now_ms = qr_now_ms r\<rparr>
           in (\<lparr>qv_allowed = pd_allowed decision, qv_over_by = pd_over_by decision\<rparr>,
               \<lparr>lm_envelopes = al_set k (pd_envelopes decision) (lm_envelopes lm),
                lm_bytes = al_set k (pd_bytes decision) (lm_bytes lm)\<rparr>))"

datatype alert_severity = INFO | WARNING | CRITICAL

record operator_alert =
  oa_id :: string
  oa_severity :: alert_severity
  oa_code :: string
  oa_subject :: string
  oa_detail :: string
  oa_raised_at_ms :: int

record operator_alerts =
  al_alerts :: "operator_alert list"
  al_sequence :: int
  al_capacity :: nat

definition new_alerts :: "nat \<Rightarrow> operator_alerts" where
  "new_alerts capacity = \<lparr>al_alerts = [], al_sequence = 0, al_capacity = capacity\<rparr>"

text \<open>The identifier the caller leaves out is whatever it passes; \<open>raise_alert\<close> overwrites it.\<close>

definition raise_alert :: "operator_alert \<Rightarrow> operator_alerts \<Rightarrow> operator_alerts" where
  "raise_alert alert a =
     (let n = al_sequence a + 1; alerts = alert\<lparr>oa_id := ''alert-'' @ js_string_of_int n\<rparr> # al_alerts a
      in a\<lparr>al_sequence := n, al_alerts := take (al_capacity a) alerts\<rparr>)"

definition list_alerts :: "nat \<Rightarrow> operator_alerts \<Rightarrow> operator_alert list" where
  "list_alerts limit a = take limit (al_alerts a)"

section \<open>What a bucket admits\<close>

text \<open>
  A rate-bounded component: each request is admitted or not, and what it admits comes out of a level that
  refills at \<open>rate\<close> per minute of the component's clock.
\<close>

locale rate_bounded =
  fixes step :: "'r \<Rightarrow> 's \<Rightarrow> bool \<times> 's"
    and cost :: "'r \<Rightarrow> rat"
    and now :: "'r \<Rightarrow> int"
    and level :: "'s \<Rightarrow> rat"
    and clock :: "'s \<Rightarrow> int"
    and rate :: rat
    and sound :: "'s \<Rightarrow> bool"
    and ok :: "'r \<Rightarrow> bool"
  assumes rate_pos: "0 \<le> rate"
    and sound_level: "sound s \<Longrightarrow> 0 \<le> level s"
    and sound_step: "ok r \<Longrightarrow> sound s \<Longrightarrow> step r s = (admitted, s') \<Longrightarrow> sound s'"
    and spends: "ok r \<Longrightarrow> sound s \<Longrightarrow> step r s = (admitted, s') \<Longrightarrow>
      (if admitted then cost r else 0) + level s' \<le> level s + rate / 60000 * of_int (clock s' - clock s)"
    and clock_moves: "ok r \<Longrightarrow> sound s \<Longrightarrow> step r s = (admitted, s') \<Longrightarrow> clock s' \<le> max (clock s) (now r)"
begin

fun admitted_cost :: "'r list \<Rightarrow> 's \<Rightarrow> rat \<times> 's" where
  "admitted_cost [] s = (0, s)"
| "admitted_cost (r # rs) s =
     (let (b, s1) = step r s; (c, s2) = admitted_cost rs s1 in ((if b then cost r else 0) + c, s2))"

lemma admitted_bound:
  assumes "admitted_cost rs s = (c, s')" and "\<forall>r \<in> set rs. ok r" and "sound s"
  shows "c + level s' \<le> level s + rate / 60000 * of_int (clock s' - clock s) \<and> sound s'"
  using assms
proof (induction rs arbitrary: s c)
  case (Cons r rs)
  obtain b s1 where st: "step r s = (b, s1)" by fastforce
  obtain c1 where rest: "admitted_cost rs s1 = (c1, s')" "c = (if b then cost r else 0) + c1"
    using Cons.prems(1) st by (auto split: prod.splits)
  have okr: "ok r" and oks: "\<forall>q \<in> set rs. ok q" using Cons.prems(2) by simp_all
  from Cons.IH [OF rest(1) oks sound_step [OF okr Cons.prems(3) st]]
  have "c1 + level s' \<le> level s1 + rate / 60000 * of_int (clock s' - clock s1)" "sound s'" by simp_all
  moreover have "(if b then cost r else 0) + level s1 \<le> level s + rate / 60000 * of_int (clock s1 - clock s)"
    by (rule spends [OF okr Cons.prems(3) st])
  ultimately show ?case unfolding rest(2) by (simp add: algebra_simps diff_divide_distrib split: if_splits)
qed simp

lemma clock_bound:
  assumes "admitted_cost rs s = (c, s')" and "\<forall>r \<in> set rs. ok r \<and> now r \<le> t" and "sound s" and "clock s \<le> t"
  shows "clock s' \<le> t"
  using assms
proof (induction rs arbitrary: s c)
  case (Cons r rs)
  obtain b s1 where st: "step r s = (b, s1)" by fastforce
  then obtain c1 where rest: "admitted_cost rs s1 = (c1, s')" using Cons.prems(1) by (auto split: prod.splits)
  have "clock s1 \<le> t" "sound s1" using clock_moves [OF _ _ st] sound_step [OF _ _ st] Cons.prems by force+
  with Cons.IH [OF rest] Cons.prems show ?case by simp
qed simp

lemma window_bound:
  assumes "\<forall>r \<in> set rs. ok r \<and> now r \<le> t" and "sound s" and "clock s \<le> t"
  shows "fst (admitted_cost rs s) \<le> level s + rate / 60000 * of_int (t - clock s)"
proof -
  obtain c s' where run: "admitted_cost rs s = (c, s')" by fastforce
  have "c + level s' \<le> level s + rate / 60000 * of_int (clock s' - clock s)" "0 \<le> level s'"
    using admitted_bound [OF run] assms sound_level by simp_all
  moreover have "clock s' \<le> t" using clock_bound [OF run] assms by simp
  then have "rate / 60000 * (of_int (clock s' - clock s) :: rat) \<le> rate / 60000 * of_int (t - clock s)"
    using rate_pos by (intro mult_left_mono) simp_all
  ultimately show ?thesis using run by simp
qed

end

lemma refill_clock [simp]: "bk_last_refill_ms (refill st r c t) = max (bk_last_refill_ms st) t"
  by (simp add: refill_def)

lemma refill_le:
  assumes "0 \<le> r"
  shows "bk_tokens (refill st r c t) \<le> bk_tokens st + r / 60000 * of_int (max (bk_last_refill_ms st) t - bk_last_refill_ms st)"
  using assms by (auto simp: refill_def max_def min_le_iff_disj ac_simps)

lemma refill_pos: "0 \<le> r \<Longrightarrow> 0 \<le> c \<Longrightarrow> 0 \<le> bk_tokens st \<Longrightarrow> 0 \<le> bk_tokens (refill st r c t)"
  by (simp add: refill_def Let_def)

lemma refill_full:
  assumes "bk_last_refill_ms st + 60000 \<le> t" and "0 \<le> bk_tokens st" and "0 \<le> r"
  shows "min c r \<le> bk_tokens (refill st r c t)"
proof -
  have "1 * r \<le> of_int (t - bk_last_refill_ms st) / 60000 * r"
  proof (rule mult_right_mono)
    have "(60000 :: rat) \<le> of_int (t - bk_last_refill_ms st)" using assms(1) by linarith
    then show "(1 :: rat) \<le> of_int (t - bk_last_refill_ms st) / 60000" by simp
  qed (rule assms(3))
  with assms show ?thesis by (simp add: refill_def Let_def min_le_iff_disj min.coboundedI2)
qed

text \<open>One bucket with \<open>consume\<close>.\<close>

definition consume_step :: "rat \<Rightarrow> rat \<times> int \<Rightarrow> bucket_state \<Rightarrow> bool \<times> bucket_state" where
  "consume_step rate r s = (case consume s (fst r) rate (snd r) of d \<Rightarrow> (qd_allowed d, qd_state d))"

lemma consume_bounded: "0 \<le> rate \<Longrightarrow>
    rate_bounded (consume_step rate) fst snd bk_tokens bk_last_refill_ms rate (\<lambda>s. 0 \<le> bk_tokens s) (\<lambda>r. 0 \<le> fst r)"
proof (unfold_locales)
  fix r s b s'
  assume rate: "0 \<le> rate" and ok: "0 \<le> fst (r :: rat \<times> int)" and pos: "0 \<le> bk_tokens s" and st: "consume_step rate r s = (b, s')"
  let ?f = "refill s rate (max rate (fst r)) (snd r)"
  have s': "s' = (if b then ?f\<lparr>bk_tokens := bk_tokens ?f - fst r\<rparr> else ?f)" and b: "b \<longleftrightarrow> fst r \<le> bk_tokens ?f"
    using st by (auto simp: consume_step_def consume_def Let_def split: if_splits)
  show "bk_last_refill_ms s' \<le> max (bk_last_refill_ms s) (snd r)" by (simp add: s')
  show "(if b then fst r else 0) + bk_tokens s' \<le> bk_tokens s + rate / 60000 * of_int (bk_last_refill_ms s' - bk_last_refill_ms s)"
    using refill_le [OF rate, of s "max rate (fst r)" "snd r"] by (simp add: s')
  show "0 \<le> bk_tokens s'"
    using refill_pos [OF rate _ pos, of "max rate (fst r)" "snd r"] ok b by (auto simp: s')
qed simp_all

interpretation one_bucket: rate_bounded "consume_step (of_nat n)" fst snd bk_tokens bk_last_refill_ms "of_nat n"
    "\<lambda>s. 0 \<le> bk_tokens s" "\<lambda>r. 0 \<le> fst r"
  for n by (rule consume_bounded) simp

section \<open>One limiter, many buckets\<close>

fun verdicts :: "quota_request list \<Rightarrow> limiter \<Rightarrow> (quota_request \<times> quota_verdict) list" where
  "verdicts [] lm = []"
| "verdicts (r # rs) lm = (case limiter_consume r lm of (v, lm') \<Rightarrow> (r, v) # verdicts rs lm')"

fun limiter_after :: "quota_request list \<Rightarrow> limiter \<Rightarrow> limiter" where
  "limiter_after [] lm = lm"
| "limiter_after (r # rs) lm = limiter_after rs (snd (limiter_consume r lm))"

definition for_bucket :: "string \<Rightarrow> int \<Rightarrow> quota_request \<Rightarrow> bool" where
  "for_bucket p c r \<longleftrightarrow> qr_peer_id r = p \<and> qr_priority r = c"

definition same_bucket :: "string \<Rightarrow> limiter \<Rightarrow> limiter \<Rightarrow> bool" where
  "same_bucket k a b \<longleftrightarrow>
     map_of (lm_envelopes a) k = map_of (lm_envelopes b) k \<and> map_of (lm_bytes a) k = map_of (lm_bytes b) k"

lemma no_bar: "CHR ''|'' \<notin> set (js_string_of_int z)"
  using digits_of_range [of "CHR ''|''" "nat z"] digits_of_range [of "CHR ''|''" "nat (- z)"]
  by (auto simp: js_string_of_int_def)

lemma bucket_key_inj: "bucket_key p c = bucket_key p' c' \<longleftrightarrow> p = p' \<and> c = c'"
proof
  assume eq: "bucket_key p c = bucket_key p' c'"
  let ?t = "takeWhile (\<lambda>x. x \<noteq> CHR ''|'')"
  have tail: "?t (rev (bucket_key q z)) = rev (js_string_of_int z)" for q z
    using no_bar [of z] by (auto simp: bucket_key_def takeWhile_append)
  have "rev (js_string_of_int c) = rev (js_string_of_int c')" using tail [of p c] tail [of p' c'] eq by simp
  then have "c = c'" using js_string_of_int_inj by simp
  with eq show "p = p' \<and> c = c'" by (simp add: bucket_key_def)
qed simp

lemma bucket_of: "for_bucket p c r \<longleftrightarrow> bucket_key (qr_peer_id r) (qr_priority r) = bucket_key p c"
  by (simp add: for_bucket_def bucket_key_inj)

lemma other_bucket: "\<not> for_bucket p c r \<Longrightarrow> same_bucket (bucket_key p c) (snd (limiter_consume r lm)) lm"
  by (auto simp: bucket_of same_bucket_def limiter_consume_def Let_def)

lemma own_bucket:
  assumes "for_bucket p c r" and "same_bucket (bucket_key p c) a b"
  shows "fst (limiter_consume r a) = fst (limiter_consume r b)
    \<and> same_bucket (bucket_key p c) (snd (limiter_consume r a)) (snd (limiter_consume r b))"
proof -
  have k: "bucket_key (qr_peer_id r) (qr_priority r) = bucket_key p c" using assms(1) by (simp add: bucket_of)
  show ?thesis using assms(2) unfolding limiter_consume_def k Let_def by (auto simp: same_bucket_def)
qed

lemma same_bucket_refl [simp]: "same_bucket k a a"
  by (simp add: same_bucket_def)

lemma same_bucket_sym: "same_bucket k a b \<Longrightarrow> same_bucket k b a"
  by (simp add: same_bucket_def)

lemma same_bucket_trans: "same_bucket k a b \<Longrightarrow> same_bucket k b c \<Longrightarrow> same_bucket k a c"
  by (simp add: same_bucket_def)

lemma verdicts_filter:
  assumes "same_bucket (bucket_key p c) a b"
  shows "filter (\<lambda>(r, _). for_bucket p c r) (verdicts rs a) = verdicts (filter (for_bucket p c) rs) b"
  using assms
proof (induction rs arbitrary: a b)
  case (Cons r rs)
  show ?case
  proof (cases "for_bucket p c r")
    case True
    with own_bucket [OF True Cons.prems] Cons.IH show ?thesis
      by (cases "limiter_consume r a"; cases "limiter_consume r b") simp
  next
    case False
    have "same_bucket (bucket_key p c) (snd (limiter_consume r a)) b"
      using other_bucket [OF False] Cons.prems by (rule same_bucket_trans)
    from Cons.IH [OF this] False show ?thesis by (cases "limiter_consume r a") simp
  qed
qed simp

lemma after_filter:
  assumes "same_bucket (bucket_key p c) a b"
  shows "same_bucket (bucket_key p c) (limiter_after rs a) (limiter_after (filter (for_bucket p c) rs) b)"
  using assms
proof (induction rs arbitrary: a b)
  case (Cons r rs)
  show ?case
  proof (cases "for_bucket p c r")
    case True
    with own_bucket [OF True Cons.prems] Cons.IH show ?thesis by simp
  next
    case False
    have "same_bucket (bucket_key p c) (snd (limiter_consume r a)) b"
      using other_bucket [OF False] Cons.prems by (rule same_bucket_trans)
    from Cons.IH [OF this] False show ?thesis by simp
  qed
qed simp

section \<open>The two halves of one bucket\<close>

text \<open>
  The limiter keeps one bucket for the envelopes and one for the bytes of a peer's class; each is created full, is
  refilled up to the larger of the rate and the request's own cost, and is debited when both halves can pay.
\<close>

definition refilled :: "bucket_state option \<Rightarrow> int \<Rightarrow> rat \<Rightarrow> int \<Rightarrow> bucket_state" where
  "refilled old rate cost t =
     refill (case old of Some s \<Rightarrow> s | None \<Rightarrow> new_bucket (of_int rate) t) (of_int rate) (max (of_int rate) cost) t"

definition debited :: "bool \<Rightarrow> rat \<Rightarrow> bucket_state \<Rightarrow> bucket_state" where
  "debited admitted cost s = (if admitted then s\<lparr>bk_tokens := bk_tokens s - cost\<rparr> else s)"

definition half_level :: "rat \<Rightarrow> int \<Rightarrow> bucket_state option \<Rightarrow> rat" where
  "half_level cap t0 old = (case old of None \<Rightarrow> cap | Some s \<Rightarrow> if bk_last_refill_ms s < t0 then cap else bk_tokens s)"

definition half_clock :: "int \<Rightarrow> bucket_state option \<Rightarrow> int" where
  "half_clock t0 old = (case old of None \<Rightarrow> t0 | Some s \<Rightarrow> max t0 (bk_last_refill_ms s))"

definition half_sound :: "rat \<Rightarrow> bucket_state option \<Rightarrow> bool" where
  "half_sound cap old \<longleftrightarrow> 0 \<le> cap \<and> (\<forall>s. old = Some s \<longrightarrow> 0 \<le> bk_tokens s \<and> bk_tokens s \<le> cap)"

lemma half_step:
  assumes rate: "0 < rate" "rate \<le> int e" "of_nat e \<le> cap" and cost: "0 \<le> cost" "cost \<le> cap"
    and t: "t0 \<le> t" and old: "half_sound cap old" and paid: "admitted \<longrightarrow> cost \<le> bk_tokens (refilled old rate cost t)"
  defines "s' \<equiv> debited admitted cost (refilled old rate cost t)"
  shows "half_sound cap (Some s')" and "half_clock t0 (Some s') \<le> max (half_clock t0 old) t"
    and "(if admitted then cost else 0) + half_level cap t0 (Some s')
      \<le> half_level cap t0 old + of_nat e / 60000 * of_int (half_clock t0 (Some s') - half_clock t0 old)"
proof -
  let ?f = "refilled old rate cost t" and ?b = "case old of Some s \<Rightarrow> s | None \<Rightarrow> new_bucket (of_int rate) t"
  have re: "(of_int rate :: rat) \<le> of_nat e" using rate(2) by (metis of_int_le_iff of_int_of_nat_eq)
  have rp: "(0 :: rat) \<le> of_int rate" using rate(1) by simp
  have widest: "max (of_int rate) cost \<le> cap" using re rate(3) cost(2) by simp
  have b: "0 \<le> bk_tokens ?b" "bk_tokens ?b \<le> cap"
    using old re rate(3) rp by (auto simp: half_sound_def new_bucket_def split: option.split)
  have f: "0 \<le> bk_tokens ?f" unfolding refilled_def using rp b(1) cost(1) by (intro refill_pos) simp_all
  have cap: "bk_tokens ?f \<le> cap" using b(2) widest by (auto simp: refilled_def refill_def Let_def)
  have last: "bk_last_refill_ms ?f = (case old of Some s \<Rightarrow> max (bk_last_refill_ms s) t | None \<Rightarrow> t)"
    by (simp add: refilled_def new_bucket_def split: option.split)
  have s': "bk_last_refill_ms s' = bk_last_refill_ms ?f" "(if admitted then cost else 0) + bk_tokens s' = bk_tokens ?f"
    by (simp_all add: s'_def debited_def)
  show "half_sound cap (Some s')" using f cap paid cost(1) old by (auto simp: half_sound_def s'_def debited_def)
  show "half_clock t0 (Some s') \<le> max (half_clock t0 old) t"
    using last by (auto simp: half_clock_def s' split: option.splits)
  have lv: "half_level cap t0 (Some s') = bk_tokens s'" using last t by (auto simp: half_level_def s'(1) split: option.splits)
  have gain: "0 \<le> (of_nat e :: rat) / 60000 * of_int (half_clock t0 (Some s') - half_clock t0 old)"
    using last t by (intro mult_nonneg_nonneg) (auto simp: half_clock_def s'(1) split: option.splits)
  have "bk_tokens ?f \<le> half_level cap t0 old + of_nat e / 60000 * of_int (half_clock t0 (Some s') - half_clock t0 old)"
  proof (cases "\<exists>s. old = Some s \<and> t0 \<le> bk_last_refill_ms s")
    case True
    then obtain s where s: "old = Some s" "t0 \<le> bk_last_refill_ms s" by blast
    have "bk_tokens ?f \<le> bk_tokens s + of_int rate / 60000 * of_int (max (bk_last_refill_ms s) t - bk_last_refill_ms s)"
      using refill_le [OF rp, of s] by (simp add: refilled_def s(1))
    moreover have "(of_int rate / 60000 :: rat) * of_int (max (bk_last_refill_ms s) t - bk_last_refill_ms s)
        \<le> of_nat e / 60000 * of_int (max (bk_last_refill_ms s) t - bk_last_refill_ms s)"
      using re by (intro mult_right_mono) simp_all
    ultimately show ?thesis using s t last by (simp add: half_level_def half_clock_def s'(1))
  next
    case False
    then have "half_level cap t0 old = cap" by (auto simp: half_level_def split: option.split)
    with cap gain show ?thesis by linarith
  qed
  then show "(if admitted then cost else 0) + half_level cap t0 (Some s')
      \<le> half_level cap t0 old + of_nat e / 60000 * of_int (half_clock t0 (Some s') - half_clock t0 old)"
    unfolding lv s'(2) .
qed

lemma limiter_consume_cases:
  assumes "for_bucket p c r"
  defines "k \<equiv> bucket_key p c"
  obtains (refused) v where "limiter_consume r lm = (v, lm)" "\<not> qv_allowed v" "qr_per_minute r \<le> 0 \<or> qr_bytes_per_minute r \<le> 0"
  | (asked) v lm' f g where "0 < qr_per_minute r" "0 < qr_bytes_per_minute r" "limiter_consume r lm = (v, lm')"
      "f = refilled (map_of (lm_envelopes lm) k) (qr_per_minute r) (qr_cost r) (qr_now_ms r)"
      "g = refilled (map_of (lm_bytes lm) k) (qr_bytes_per_minute r) (qr_bytes r) (qr_now_ms r)"
      "qv_allowed v \<longleftrightarrow> qr_cost r \<le> bk_tokens f \<and> qr_bytes r \<le> bk_tokens g"
      "map_of (lm_envelopes lm') k = Some (debited (qv_allowed v) (qr_cost r) f)"
      "map_of (lm_bytes lm') k = Some (debited (qv_allowed v) (qr_bytes r) g)"
proof (cases "qr_per_minute r \<le> 0 \<or> qr_bytes_per_minute r \<le> 0")
  case True
  show ?thesis by (rule refused [of "fst (limiter_consume r lm)"]) (use True in \<open>auto simp: limiter_consume_def\<close>)
next
  case False
  have k: "bucket_key (qr_peer_id r) (qr_priority r) = k" using assms by (simp add: bucket_of)
  show ?thesis
    by (rule asked [OF _ _ surjective_pairing refl refl])
      (use False in \<open>auto simp: limiter_consume_def k Let_def consume_pair_def refilled_def debited_def less_max_iff_disj
        split: if_splits\<close>)
qed

definition admitted :: "(quota_request \<Rightarrow> rat) \<Rightarrow> (quota_request \<times> quota_verdict) list \<Rightarrow> rat" where
  "admitted f vs = sum_list (map (\<lambda>(r, v). if qv_allowed v then f r else 0) vs)"

definition limiter_step :: "quota_request \<Rightarrow> limiter \<Rightarrow> bool \<times> limiter" where
  "limiter_step r lm = (case limiter_consume r lm of (v, lm') \<Rightarrow> (qv_allowed v, lm'))"

definition asks :: "string \<Rightarrow> int \<Rightarrow> int \<Rightarrow> nat \<Rightarrow> rat \<Rightarrow> int \<Rightarrow> rat \<Rightarrow> quota_request \<Rightarrow> bool" where
  "asks p c t0 e cap rate cost r \<longleftrightarrow> for_bucket p c r \<and> t0 \<le> qr_now_ms r \<and> rate \<le> int e \<and> of_nat e \<le> cap \<and> 0 \<le> cost \<and> cost \<le> cap"

interpretation envelope_half: rate_bounded limiter_step qr_cost qr_now_ms
    "\<lambda>lm. half_level cap t0 (map_of (lm_envelopes lm) (bucket_key p c))"
    "\<lambda>lm. half_clock t0 (map_of (lm_envelopes lm) (bucket_key p c))" "of_nat e"
    "\<lambda>lm. half_sound cap (map_of (lm_envelopes lm) (bucket_key p c))"
    "\<lambda>r. asks p c t0 e cap (qr_per_minute r) (qr_cost r) r"
  for cap t0 p c e
proof (unfold_locales)
  show "0 \<le> half_level cap t0 (map_of (lm_envelopes lm) (bucket_key p c))"
    if "half_sound cap (map_of (lm_envelopes lm) (bucket_key p c))" for lm
    using that by (auto simp: half_sound_def half_level_def split: option.split)
  fix r lm b lm'
  assume ok: "asks p c t0 e cap (qr_per_minute r) (qr_cost r) r"
    and s: "half_sound cap (map_of (lm_envelopes lm) (bucket_key p c))" and st: "limiter_step r lm = (b, lm')"
  from ok have own: "for_bucket p c r" by (simp add: asks_def)
  have "half_sound cap (map_of (lm_envelopes lm') (bucket_key p c))
    \<and> half_clock t0 (map_of (lm_envelopes lm') (bucket_key p c))
        \<le> max (half_clock t0 (map_of (lm_envelopes lm) (bucket_key p c))) (qr_now_ms r)
    \<and> (if b then qr_cost r else 0) + half_level cap t0 (map_of (lm_envelopes lm') (bucket_key p c))
        \<le> half_level cap t0 (map_of (lm_envelopes lm) (bucket_key p c)) + of_nat e / 60000
          * of_int (half_clock t0 (map_of (lm_envelopes lm') (bucket_key p c))
              - half_clock t0 (map_of (lm_envelopes lm) (bucket_key p c)))"
  proof (cases rule: limiter_consume_cases [OF own, where lm = lm, case_names refused asked])
    case (refused v)
    with st s show ?thesis by (simp add: limiter_step_def)
  next
    case (asked v m f g)
    with st have "b = qv_allowed v" "lm' = m" by (simp_all add: limiter_step_def)
    with asked half_step [of "qr_per_minute r" e cap "qr_cost r" t0 "qr_now_ms r" _ b, OF asked(1)] ok s show ?thesis
      by (simp add: asks_def)
  qed
  then show "half_sound cap (map_of (lm_envelopes lm') (bucket_key p c))"
    "half_clock t0 (map_of (lm_envelopes lm') (bucket_key p c))
        \<le> max (half_clock t0 (map_of (lm_envelopes lm) (bucket_key p c))) (qr_now_ms r)"
    "(if b then qr_cost r else 0) + half_level cap t0 (map_of (lm_envelopes lm') (bucket_key p c))
        \<le> half_level cap t0 (map_of (lm_envelopes lm) (bucket_key p c)) + of_nat e / 60000
          * of_int (half_clock t0 (map_of (lm_envelopes lm') (bucket_key p c))
              - half_clock t0 (map_of (lm_envelopes lm) (bucket_key p c)))" by blast+
qed simp

interpretation byte_half: rate_bounded limiter_step qr_bytes qr_now_ms
    "\<lambda>lm. half_level cap t0 (map_of (lm_bytes lm) (bucket_key p c))"
    "\<lambda>lm. half_clock t0 (map_of (lm_bytes lm) (bucket_key p c))" "of_nat e"
    "\<lambda>lm. half_sound cap (map_of (lm_bytes lm) (bucket_key p c))"
    "\<lambda>r. asks p c t0 e cap (qr_bytes_per_minute r) (qr_bytes r) r"
  for cap t0 p c e
proof (unfold_locales)
  show "0 \<le> half_level cap t0 (map_of (lm_bytes lm) (bucket_key p c))"
    if "half_sound cap (map_of (lm_bytes lm) (bucket_key p c))" for lm
    using that by (auto simp: half_sound_def half_level_def split: option.split)
  fix r lm b lm'
  assume ok: "asks p c t0 e cap (qr_bytes_per_minute r) (qr_bytes r) r"
    and s: "half_sound cap (map_of (lm_bytes lm) (bucket_key p c))" and st: "limiter_step r lm = (b, lm')"
  from ok have own: "for_bucket p c r" by (simp add: asks_def)
  have "half_sound cap (map_of (lm_bytes lm') (bucket_key p c))
    \<and> half_clock t0 (map_of (lm_bytes lm') (bucket_key p c))
        \<le> max (half_clock t0 (map_of (lm_bytes lm) (bucket_key p c))) (qr_now_ms r)
    \<and> (if b then qr_bytes r else 0) + half_level cap t0 (map_of (lm_bytes lm') (bucket_key p c))
        \<le> half_level cap t0 (map_of (lm_bytes lm) (bucket_key p c)) + of_nat e / 60000
          * of_int (half_clock t0 (map_of (lm_bytes lm') (bucket_key p c))
              - half_clock t0 (map_of (lm_bytes lm) (bucket_key p c)))"
  proof (cases rule: limiter_consume_cases [OF own, where lm = lm, case_names refused asked])
    case (refused v)
    with st s show ?thesis by (simp add: limiter_step_def)
  next
    case (asked v m f g)
    with st have "b = qv_allowed v" "lm' = m" by (simp_all add: limiter_step_def)
    with asked half_step [of "qr_bytes_per_minute r" e cap "qr_bytes r" t0 "qr_now_ms r" _ b, OF asked(2)] ok s show ?thesis
      by (simp add: asks_def)
  qed
  then show "half_sound cap (map_of (lm_bytes lm') (bucket_key p c))"
    "half_clock t0 (map_of (lm_bytes lm') (bucket_key p c))
        \<le> max (half_clock t0 (map_of (lm_bytes lm) (bucket_key p c))) (qr_now_ms r)"
    "(if b then qr_bytes r else 0) + half_level cap t0 (map_of (lm_bytes lm') (bucket_key p c))
        \<le> half_level cap t0 (map_of (lm_bytes lm) (bucket_key p c)) + of_nat e / 60000
          * of_int (half_clock t0 (map_of (lm_bytes lm') (bucket_key p c))
              - half_clock t0 (map_of (lm_bytes lm) (bucket_key p c)))" by blast+
qed simp

text \<open>What a run of requests about one bucket admits, in either half.\<close>

lemma admitted_by_steps:
  "admitted qr_cost (verdicts rs lm) = fst (envelope_half.admitted_cost rs lm)"
  "admitted qr_bytes (verdicts rs lm) = fst (byte_half.admitted_cost rs lm)"
  by (induction rs arbitrary: lm) (simp_all add: admitted_def limiter_step_def split: prod.splits)

definition modest :: "nat \<Rightarrow> nat \<Rightarrow> rat \<Rightarrow> rat \<Rightarrow> quota_request \<Rightarrow> bool" where
  "modest e b ce cb r \<longleftrightarrow> qr_per_minute r \<le> int e \<and> qr_bytes_per_minute r \<le> int b
     \<and> 0 \<le> qr_cost r \<and> qr_cost r \<le> ce \<and> 0 \<le> qr_bytes r \<and> qr_bytes r \<le> cb"

abbreviation halves_sound :: "rat \<Rightarrow> rat \<Rightarrow> string \<Rightarrow> limiter \<Rightarrow> bool" where
  "halves_sound ce cb k lm \<equiv> half_sound ce (map_of (lm_envelopes lm) k) \<and> half_sound cb (map_of (lm_bytes lm) k)"

lemma after_sound:
  assumes "\<forall>r \<in> set rs. for_bucket p c r \<longrightarrow> modest e b ce cb r" and "of_nat e \<le> ce" and "of_nat b \<le> cb"
    and "halves_sound ce cb (bucket_key p c) lm"
  shows "halves_sound ce cb (bucket_key p c) (limiter_after rs lm)"
  using assms(1,4)
proof (induction rs arbitrary: lm)
  case (Cons r rs)
  obtain v lm' where run: "limiter_consume r lm = (v, lm')" by fastforce
  then have st: "limiter_step r lm = (qv_allowed v, lm')" by (simp add: limiter_step_def)
  have "halves_sound ce cb (bucket_key p c) lm'"
  proof (cases "for_bucket p c r")
    case True
    with Cons.prems(1) assms(2,3) have "asks p c (qr_now_ms r) e ce (qr_per_minute r) (qr_cost r) r"
      "asks p c (qr_now_ms r) b cb (qr_bytes_per_minute r) (qr_bytes r) r" by (simp_all add: asks_def modest_def)
    from envelope_half.sound_step [OF this(1) _ st] byte_half.sound_step [OF this(2) _ st] Cons.prems(2)
    show ?thesis by blast
  next
    case False
    with other_bucket [OF False, of lm] Cons.prems(2) run show ?thesis by (simp add: same_bucket_def)
  qed
  with Cons run show ?case by simp
qed simp

lemma half_window:
  assumes "half_sound cap old" and "c \<le> half_level cap t0 old + of_nat e / 60000 * of_int (max t1 (half_clock t0 old) - half_clock t0 old)"
    and "t0 \<le> t1"
  shows "c \<le> cap + of_nat e / 60000 * of_int (t1 - t0)"
proof -
  have "half_level cap t0 old \<le> cap" using assms(1) by (auto simp: half_level_def half_sound_def split: option.split)
  moreover have "(of_nat e :: rat) / 60000 * of_int (max t1 (half_clock t0 old) - half_clock t0 old) \<le> of_nat e / 60000 * of_int (t1 - t0)"
  proof (rule mult_left_mono)
    have "max t1 (half_clock t0 old) - half_clock t0 old \<le> t1 - t0"
      using assms(3) by (auto simp: half_clock_def split: option.split)
    then show "(of_int (max t1 (half_clock t0 old) - half_clock t0 old) :: rat) \<le> of_int (t1 - t0)"
      by (simp only: of_int_le_iff)
  qed simp
  ultimately show ?thesis using assms(2) by linarith
qed

lemma after_idle:
  assumes "\<forall>q \<in> set rs. for_bucket p c q \<longrightarrow> 0 \<le> qr_cost q \<and> 0 \<le> qr_bytes q \<and> qr_now_ms q \<le> t"
  defines "idle \<equiv> \<lambda>m :: (string, bucket_state) jsmap. \<forall>s. map_of m (bucket_key p c) = Some s \<longrightarrow> 0 \<le> bk_tokens s \<and> bk_last_refill_ms s \<le> t"
  assumes "idle (lm_envelopes lm)" and "idle (lm_bytes lm)"
  shows "idle (lm_envelopes (limiter_after rs lm)) \<and> idle (lm_bytes (limiter_after rs lm))"
  using assms(1,3,4)
proof (induction rs arbitrary: lm)
  case (Cons r rs)
  have half: "0 \<le> bk_tokens (debited a x f) \<and> bk_last_refill_ms (debited a x f) \<le> t"
    if "f = refilled (map_of m (bucket_key p c)) g x (qr_now_ms r)" "0 < g" "0 \<le> x" "qr_now_ms r \<le> t" "idle m" "a \<longrightarrow> x \<le> bk_tokens f"
    for a x f m g
  proof -
    let ?b = "case map_of m (bucket_key p c) of Some s \<Rightarrow> s | None \<Rightarrow> new_bucket (of_int g) (qr_now_ms r)"
    have "0 \<le> bk_tokens ?b" "bk_last_refill_ms ?b \<le> t"
      using that by (auto simp: idle_def new_bucket_def split: option.split)
    then have "0 \<le> bk_tokens f" "bk_last_refill_ms f \<le> t"
      unfolding that(1) refilled_def using that(2-4) by (auto intro!: refill_pos)
    with that(6) show ?thesis by (simp add: debited_def)
  qed
  obtain v lm' where run: "limiter_consume r lm = (v, lm')" by fastforce
  have "idle (lm_envelopes lm') \<and> idle (lm_bytes lm')"
  proof (cases "for_bucket p c r")
    case own: True
    show ?thesis
    proof (cases rule: limiter_consume_cases [OF own, where lm = lm, case_names refused asked])
      case (refused v)
      with run Cons.prems show ?thesis by simp
    next
      case (asked v m f g)
      from half [OF asked(4,1), of "qv_allowed v"] half [OF asked(5,2), of "qv_allowed v"] Cons.prems own asked run
      show ?thesis by (simp add: idle_def)
    qed
  next
    case False
    with other_bucket [OF False, of lm] Cons.prems run show ?thesis by (simp add: same_bucket_def idle_def)
  qed
  with Cons run show ?case by simp
qed simp

section \<open>Properties\<close>

text \<open>No peer and no class can starve another: in any interleaving of requests, the verdicts one peer gets for one
  priority class are exactly those it would have got had no other request been made, so a bulk backlog never
  uses up the allowance an emergency broadcast needs.\<close>

theorem quota_buckets_isolated:
  "filter (\<lambda>(r, _). for_bucket p c r) (verdicts rs lm) = verdicts (filter (for_bucket p c) rs) lm"
  by (rule verdicts_filter) simp

text \<open>C37: The quota bounds what is admitted in every window: in any sequence of requests, whatever is asked for other
  peers and classes in between, if a bucket's requests come with grants of at most \<open>e\<close> envelopes and \<open>b\<close> bytes per
  minute and each asks for at most \<open>ce\<close> and \<open>cb\<close>, then what the bucket admits from \<open>t0\<close> to \<open>t1\<close> is at most
  \<open>ce + e * (t1 - t0) / 60000\<close> envelopes and \<open>cb + b * (t1 - t0) / 60000\<close> bytes. Here \<open>ce \<ge> e\<close> and \<open>cb \<ge> b\<close>: the
  burst is one minute's grant or, when a single request was larger than that, the largest request - a bucket widens
  to whatever one request costs (\<open>Math.max(perMinute, cost)\<close>), so an idle peer's oversized request is admitted whole.\<close>

theorem quota_bounds_every_window:
  assumes "\<forall>r \<in> set (before @ during). for_bucket p c r \<longrightarrow> modest e b ce cb r" and "of_nat e \<le> ce" and "of_nat b \<le> cb"
    and "t0 \<le> t1" and "\<forall>r \<in> set during. for_bucket p c r \<longrightarrow> t0 \<le> qr_now_ms r \<and> qr_now_ms r \<le> t1"
  defines "vs \<equiv> filter (\<lambda>(r, _). for_bucket p c r) (verdicts during (limiter_after before empty_limiter))"
  shows "admitted qr_cost vs \<le> ce + of_nat e / 60000 * of_int (t1 - t0)
    \<and> admitted qr_bytes vs \<le> cb + of_nat b / 60000 * of_int (t1 - t0)"
proof -
  let ?lm = "limiter_after before empty_limiter" and ?rs = "filter (for_bucket p c) during"
  let ?env = "map_of (lm_envelopes ?lm) (bucket_key p c)" and ?byt = "map_of (lm_bytes ?lm) (bucket_key p c)"
  have "(0 :: rat) \<le> of_nat e" "(0 :: rat) \<le> of_nat b" by simp_all
  with assms(2,3) have "0 \<le> ce" "0 \<le> cb" by linarith+
  then have "halves_sound ce cb (bucket_key p c) ?lm"
    by (intro after_sound [of _ p c e b]) (use assms(1-3) in \<open>auto simp: half_sound_def empty_limiter_def\<close>)
  then have s: "half_sound ce ?env" "half_sound cb ?byt" by simp_all
  have vs: "vs = verdicts ?rs ?lm" unfolding vs_def by (rule verdicts_filter) simp
  have asks: "\<forall>r \<in> set ?rs. asks p c t0 e ce (qr_per_minute r) (qr_cost r) r \<and> qr_now_ms r \<le> max t1 (half_clock t0 ?env)"
    "\<forall>r \<in> set ?rs. asks p c t0 b cb (qr_bytes_per_minute r) (qr_bytes r) r \<and> qr_now_ms r \<le> max t1 (half_clock t0 ?byt)"
    using assms(1-3,5) by (auto simp: asks_def modest_def)
  show ?thesis unfolding vs admitted_by_steps
    using half_window [OF s(1) envelope_half.window_bound [OF asks(1) s(1)] assms(4)]
      half_window [OF s(2) byte_half.window_bound [OF asks(2) s(2)] assms(4)] by simp
qed

definition sample_request :: "string \<Rightarrow> int \<Rightarrow> int \<Rightarrow> quota_request" where
  "sample_request p c t = \<lparr>qr_peer_id = p, qr_priority = c, qr_cost = 1, qr_per_minute = 2, qr_bytes = 10,
     qr_bytes_per_minute = 100, qr_now_ms = t\<rparr>"

text \<open>Three broadcasts in one instant on a grant of two, with another peer's in between: two are admitted.\<close>

theorem quota_bounds_every_window_witness:
  "map (\<lambda>(_, v). qv_allowed v) (filter (\<lambda>(r, _). for_bucket ''a'' 1 r)
     (verdicts [sample_request ''a'' 1 5, sample_request ''b'' 1 5, sample_request ''a'' 1 5, sample_request ''a'' 1 5]
       (limiter_after [] empty_limiter))) = [True, True, False]
   \<and> admitted qr_cost (filter (\<lambda>(r, _). for_bucket ''a'' 1 r)
     (verdicts [sample_request ''a'' 1 5, sample_request ''b'' 1 5, sample_request ''a'' 1 5, sample_request ''a'' 1 5]
       (limiter_after [] empty_limiter))) \<le> 2"
proof -
  let ?rs = "[sample_request ''a'' 1 5, sample_request ''b'' 1 5, sample_request ''a'' 1 5, sample_request ''a'' 1 5]"
  have g: "\<forall>r \<in> set ([] @ ?rs). for_bucket ''a'' 1 r \<longrightarrow> modest 2 100 2 100 r"
    "\<forall>r \<in> set ?rs. for_bucket ''a'' 1 r \<longrightarrow> 5 \<le> qr_now_ms r \<and> qr_now_ms r \<le> 5"
    by (simp_all add: sample_request_def modest_def)
  let ?L = "\<lambda>x y. \<lparr>lm_envelopes = [(bucket_key ''a'' 1, \<lparr>bk_tokens = x, bk_last_refill_ms = 5\<rparr>)],
    lm_bytes = [(bucket_key ''a'' 1, \<lparr>bk_tokens = y, bk_last_refill_ms = 5\<rparr>)]\<rparr>"
  have steps: "limiter_consume (sample_request ''a'' 1 5) empty_limiter = (\<lparr>qv_allowed = True, qv_over_by = 0\<rparr>, ?L 1 90)"
    "limiter_consume (sample_request ''a'' 1 5) (?L 1 90) = (\<lparr>qv_allowed = True, qv_over_by = 0\<rparr>, ?L 0 80)"
    "limiter_consume (sample_request ''a'' 1 5) (?L 0 80) = (\<lparr>qv_allowed = False, qv_over_by = 1\<rparr>, ?L 0 80)"
    unfolding limiter_consume_def sample_request_def empty_limiter_def consume_pair_def Let_def
    by (simp_all add: new_bucket_def refill_def)
  have "filter (for_bucket ''a'' 1) ?rs = [sample_request ''a'' 1 5, sample_request ''a'' 1 5, sample_request ''a'' 1 5]"
    by (simp add: for_bucket_def sample_request_def)
  then have "map (\<lambda>(_, v). qv_allowed v) (filter (\<lambda>(r, _). for_bucket ''a'' 1 r) (verdicts ?rs empty_limiter)) = [True, True, False]"
    unfolding verdicts_filter [OF same_bucket_refl] by (simp add: steps)
  with quota_bounds_every_window [OF g(1) _ _ order_refl g(2)] show ?thesis by simp
qed

text \<open>C38: At the limiter a limit is an invitation to slow down, not a lockout: whatever was asked of a bucket before,
  under whatever grants, in whatever amounts and however often it was refused, once nothing was asked of it for a
  minute a request for no more than one minute's grant is admitted. This is the limiter alone: after three breaches
  the inbox demotes the peer, which changes the grant that its next requests come with, down to none.\<close>

theorem quota_recovers:
  assumes "\<forall>q \<in> set before. for_bucket p c q \<longrightarrow> 0 \<le> qr_cost q \<and> 0 \<le> qr_bytes q \<and> qr_now_ms q + 60000 \<le> qr_now_ms r"
    and "for_bucket p c r" and "0 < qr_per_minute r" and "0 < qr_bytes_per_minute r"
    and "qr_cost r \<le> of_int (qr_per_minute r)" and "qr_bytes r \<le> of_int (qr_bytes_per_minute r)"
  shows "qv_allowed (fst (limiter_consume r (limiter_after before empty_limiter)))"
proof -
  let ?lm = "limiter_after before empty_limiter" and ?T = "qr_now_ms r - 60000"
  have past: "\<forall>q \<in> set before. for_bucket p c q \<longrightarrow> 0 \<le> qr_cost q \<and> 0 \<le> qr_bytes q \<and> qr_now_ms q \<le> ?T"
    using assms(1) by auto
  have idle: "0 \<le> bk_tokens s \<and> bk_last_refill_ms s + 60000 \<le> qr_now_ms r"
    if "map_of (lm_envelopes ?lm) (bucket_key p c) = Some s \<or> map_of (lm_bytes ?lm) (bucket_key p c) = Some s" for s
    using after_idle [OF past, of empty_limiter] that by (auto simp: empty_limiter_def)
  have full: "of_int g \<le> bk_tokens (refilled old g x (qr_now_ms r))"
    if "0 < g" "x \<le> of_int g" "\<And>s. old = Some s \<Longrightarrow> 0 \<le> bk_tokens s \<and> bk_last_refill_ms s + 60000 \<le> qr_now_ms r" for g x old
  proof (cases old)
    case None
    then show ?thesis by (simp add: refilled_def refill_def new_bucket_def)
  next
    case (Some s)
    with refill_full [of s "qr_now_ms r" "of_int g" "max (of_int g) x"] that show ?thesis by (simp add: refilled_def)
  qed
  show ?thesis
  proof (cases rule: limiter_consume_cases [OF assms(2), where lm = ?lm, case_names refused asked])
    case (asked v lm' f g)
    have "of_int (qr_per_minute r) \<le> bk_tokens f" "of_int (qr_bytes_per_minute r) \<le> bk_tokens g"
      unfolding asked(4,5) using idle assms(3-6) by (auto intro!: full)
    with asked assms(5,6) show ?thesis by simp
  qed (use assms(3,4) in simp)
qed

text \<open>Three broadcasts in one instant, one of them refused, and one of a size no grant of this size ever carries.\<close>

theorem quota_recovers_witness:
  "qv_allowed (fst (limiter_consume (sample_request ''a'' 1 60005) (limiter_after
     [sample_request ''a'' 1 5, sample_request ''a'' 1 5, sample_request ''a'' 1 5, (sample_request ''a'' 1 5)\<lparr>qr_bytes := 5000\<rparr>]
     empty_limiter)))"
  by (rule quota_recovers [where p = "''a''" and c = 1])
    (simp_all add: sample_request_def for_bucket_def)

end
