(* ===== verification/JB_FedSigning.thy ===== *)
theory JB_FedSigning
  imports JB_Canonical
begin

text \<open>
  The statements nodes sign to each other, \<open>packages/sdk-ts/src/signer/federation-signing.ts\<close>: the
  announce handshake and its answer, vouches, tree-head gossip, directory exchange and the per-call
  authentication. Each is a frame of length-prefixed parts, a repeated field one part framed again.
  Numbers are integers rendered in decimal; Unicode normalisation is the parameter \<open>nfc\<close>, so two
  statements are the same when they agree after normalising their text.
\<close>

section \<open>The statements\<close>

record federation_tree_head =
  ft_server_key :: bytes
  ft_tree_size :: int
  ft_root_hash :: bytes
  ft_timestamp_ms :: int
  ft_signature :: bytes

record federation_endpoint =
  fe_uri :: string
  fe_scope :: int
  fe_asn :: int
  fe_isp_name :: string
  fe_region :: string
  fe_inbound_capable :: bool
  fe_last_ok_at_ms :: int
  fe_rtt_ms :: int
  fe_consecutive_failures :: int

record federation_peer_record =
  fp_server_key :: bytes
  fp_display_name :: string
  fp_endpoints :: "federation_endpoint list"
  fp_trust :: int
  fp_vouched_by :: "bytes list"
  fp_communities :: "string list"
  fp_channels :: "string list"
  fp_planes :: "int list"
  fp_is_bridge :: bool
  fp_bridged_asns :: "int list"
  fp_last_seen_ms :: int

record announce_request =
  ar_server_key :: bytes
  ar_display_name :: string
  ar_software :: string
  ar_version :: string
  ar_endpoints :: "federation_endpoint list"
  ar_communities :: "string list"
  ar_channels :: "string list"
  ar_planes :: "int list"
  ar_accepted_classes :: "int list"
  ar_current_sth :: "federation_tree_head option"
  ar_timestamp_ms :: int
  ar_nonce :: bytes

record server_vouch =
  sv_peer_key :: bytes
  sv_level :: int
  sv_note :: string
  sv_asserted_at_ms :: int

record quota_fields =
  qf_envelopes_per_min :: int
  qf_bytes_per_min :: int
  qf_max_concurrent_streams :: int
  qf_allowed_classes :: "int list"

record announce_response =
  an_server_key :: bytes
  an_assigned :: int
  an_endpoints :: "federation_endpoint list"
  an_vouches :: "server_vouch list"
  an_granted_quota :: "quota_fields option"
  an_current_sth :: "federation_tree_head option"

record peer_observation =
  po_peer_key :: bytes
  po_sth :: "federation_tree_head option"
  po_observed_at_ms :: int

record tree_head_exchange =
  te_server_key :: bytes
  te_sth :: "federation_tree_head option"
  te_observed :: "peer_observation list"

record directory_exchange =
  de_peers :: "federation_peer_record list"
  de_generated_at_ms :: int

section \<open>Their signing bytes\<close>

definition int_bytes :: "int \<Rightarrow> bytes" where
  "int_bytes v = text_encode (js_string_of_int v)"

definition bool_bytes :: "bool \<Rightarrow> bytes" where
  "bool_bytes b = text_encode (if b then ''1'' else ''0'')"

definition optional_sth :: "federation_tree_head option \<Rightarrow> bytes" where
  "optional_sth sth = (case sth of
     None \<Rightarrow> frame_parts [text_encode ''absent'']
   | Some h \<Rightarrow> frame_parts [text_encode ''present'', ft_server_key h, int_bytes (ft_tree_size h), ft_root_hash h,
       int_bytes (ft_timestamp_ms h), ft_signature h])"

definition endpoint_bytes :: "(string \<Rightarrow> string) \<Rightarrow> federation_endpoint \<Rightarrow> bytes" where
  "endpoint_bytes nfc e = frame_parts [encode_utf8_nfc nfc (fe_uri e), int_bytes (fe_scope e), int_bytes (fe_asn e),
     encode_utf8_nfc nfc (fe_isp_name e), encode_utf8_nfc nfc (fe_region e), bool_bytes (fe_inbound_capable e),
     int_bytes (fe_last_ok_at_ms e), int_bytes (fe_rtt_ms e), int_bytes (fe_consecutive_failures e)]"

definition vouch_body :: "(string \<Rightarrow> string) \<Rightarrow> server_vouch \<Rightarrow> bytes" where
  "vouch_body nfc v = frame_parts [sv_peer_key v, int_bytes (sv_level v), encode_utf8_nfc nfc (sv_note v),
     int_bytes (sv_asserted_at_ms v)]"

definition peer_record_bytes :: "(string \<Rightarrow> string) \<Rightarrow> federation_peer_record \<Rightarrow> bytes" where
  "peer_record_bytes nfc p = frame_parts [fp_server_key p, encode_utf8_nfc nfc (fp_display_name p),
     frame_parts (map (endpoint_bytes nfc) (fp_endpoints p)), int_bytes (fp_trust p), frame_parts (fp_vouched_by p),
     frame_parts (map (encode_utf8_nfc nfc) (fp_communities p)), frame_parts (map (encode_utf8_nfc nfc) (fp_channels p)),
     frame_parts (map int_bytes (fp_planes p)), bool_bytes (fp_is_bridge p),
     frame_parts (map int_bytes (fp_bridged_asns p)), int_bytes (fp_last_seen_ms p)]"

definition announce_request_signing_bytes :: "(string \<Rightarrow> string) \<Rightarrow> announce_request \<Rightarrow> bytes" where
  "announce_request_signing_bytes nfc f = frame_parts [text_encode ''jb-fed-announce-v1'', ar_server_key f,
     encode_utf8_nfc nfc (ar_display_name f), encode_utf8_nfc nfc (ar_software f), encode_utf8_nfc nfc (ar_version f),
     frame_parts (map (endpoint_bytes nfc) (ar_endpoints f)),
     frame_parts (map (encode_utf8_nfc nfc) (ar_communities f)), frame_parts (map (encode_utf8_nfc nfc) (ar_channels f)),
     frame_parts (map int_bytes (ar_planes f)), frame_parts (map int_bytes (ar_accepted_classes f)),
     optional_sth (ar_current_sth f), int_bytes (ar_timestamp_ms f), ar_nonce f]"

definition quota_bytes :: "quota_fields option \<Rightarrow> bytes" where
  "quota_bytes quota = (case quota of
     Some q \<Rightarrow> frame_parts [text_encode ''present'', int_bytes (qf_envelopes_per_min q), int_bytes (qf_bytes_per_min q),
       int_bytes (qf_max_concurrent_streams q), frame_parts (map int_bytes (qf_allowed_classes q))]
   | None \<Rightarrow> frame_parts [text_encode ''absent''])"

definition announce_response_signing_bytes :: "(string \<Rightarrow> string) \<Rightarrow> announce_response \<Rightarrow> bytes" where
  "announce_response_signing_bytes nfc f = frame_parts [text_encode ''jb-fed-announce-ack-v1'', an_server_key f,
     int_bytes (an_assigned f), frame_parts (map (endpoint_bytes nfc) (an_endpoints f)),
     frame_parts (map (vouch_body nfc) (an_vouches f)), quota_bytes (an_granted_quota f), optional_sth (an_current_sth f)]"

definition server_vouch_signing_bytes :: "(string \<Rightarrow> string) \<Rightarrow> server_vouch \<Rightarrow> bytes" where
  "server_vouch_signing_bytes nfc v = frame_parts [text_encode ''jb-fed-vouch-v1'', vouch_body nfc v]"

definition observation_bytes :: "peer_observation \<Rightarrow> bytes" where
  "observation_bytes ob = frame_parts [po_peer_key ob, optional_sth (po_sth ob), int_bytes (po_observed_at_ms ob)]"

definition tree_head_exchange_signing_bytes :: "tree_head_exchange \<Rightarrow> bytes" where
  "tree_head_exchange_signing_bytes f = frame_parts [text_encode ''jb-fed-sth-gossip-v1'', te_server_key f,
     optional_sth (te_sth f), frame_parts (map observation_bytes (te_observed f))]"

definition federation_call_auth_bytes :: "(string \<Rightarrow> string) \<Rightarrow> string \<Rightarrow> int \<Rightarrow> bytes \<Rightarrow> bytes" where
  "federation_call_auth_bytes nfc method timestamp_ms nonce' = frame_parts [text_encode ''jb-fed-call-v1'',
     encode_utf8_nfc nfc method, int_bytes timestamp_ms, nonce']"

definition directory_exchange_signing_bytes :: "(string \<Rightarrow> string) \<Rightarrow> directory_exchange \<Rightarrow> bytes" where
  "directory_exchange_signing_bytes nfc f = frame_parts [text_encode ''jb-fed-directory-v1'',
     frame_parts (map (peer_record_bytes nfc) (de_peers f)), int_bytes (de_generated_at_ms f)]"

section \<open>Nested frames\<close>

lemma frame_parts_Cons: "frame_parts (p # ps) = frame_part p @ frame_parts ps"
  by (simp add: frame_parts_concat)

lemma length_frame_part [simp]: "length (frame_part p) = 4 + length p"
  by (simp add: frame_part_def set_uint32_be_def)

lemma frame_part_shorter: "p \<in> set ps \<Longrightarrow> length p < length (frame_parts ps)"
  by (induction ps) (auto simp: frame_parts_Cons)

lemma frame_eq:
  assumes "length (frame_parts ps) < 2 ^ 32"
  shows "frame_parts ps = frame_parts qs \<longleftrightarrow> ps = qs"
proof
  assume eq: "frame_parts ps = frame_parts qs"
  have "length p < 2 ^ 32" if "p \<in> set ps" for p
    using frame_part_shorter [OF that] assms by (rule order_less_trans)
  moreover have "length p < 2 ^ 32" if "p \<in> set qs" for p
    using frame_part_shorter [OF that] assms unfolding eq by (rule order_less_trans)
  ultimately show "ps = qs" using frame_parts_inj [OF _ _ eq] by blast
qed simp

lemma map_eq_normal:
  assumes "\<And>x y. x \<in> set xs \<Longrightarrow> f x = f y \<longleftrightarrow> g x = g y"
  shows "map f xs = map f ys \<longleftrightarrow> map g xs = map g ys"
  using assms
proof (induction xs arbitrary: ys)
  case (Cons x xs)
  show ?case
  proof (cases ys)
    case (Cons y ys')
    have "map f xs = map f ys' \<longleftrightarrow> map g xs = map g ys'" by (rule Cons.IH) (simp add: Cons.prems)
    moreover have "f x = f y \<longleftrightarrow> g x = g y" by (rule Cons.prems) simp
    ultimately show ?thesis by (simp add: Cons)
  qed simp
qed auto

lemma frame_map_eq:
  assumes "length (frame_parts (map f xs)) < 2 ^ 32"
    and "\<And>x y. length (f x) < 2 ^ 32 \<Longrightarrow> f x = f y \<longleftrightarrow> g x = g y"
  shows "frame_parts (map f xs) = frame_parts (map f ys) \<longleftrightarrow> map g xs = map g ys"
proof -
  have len: "length (f x) < 2 ^ 32" if "x \<in> set xs" for x
  proof -
    from that have "f x \<in> set (map f xs)" by simp
    from order_less_trans [OF frame_part_shorter [OF this] assms(1)] show ?thesis .
  qed
  have "map f xs = map f ys \<longleftrightarrow> map g xs = map g ys"
    by (rule map_eq_normal) (rule assms(2) [OF len])
  then show ?thesis by (simp only: frame_eq [OF assms(1)])
qed

lemma nested: "length (frame_parts ps) < 2 ^ 32 \<Longrightarrow> p \<in> set ps \<Longrightarrow> length p < 2 ^ 32"
  using frame_part_shorter order_less_trans by blast

lemma int_bytes_eq [simp]: "int_bytes a = int_bytes b \<longleftrightarrow> a = b"
  using js_string_of_int_inj by (auto simp: int_bytes_def)

lemma bool_bytes_eq [simp]: "bool_bytes a = bool_bytes b \<longleftrightarrow> a = b"
  by (simp add: bool_bytes_def)

lemma utf8_eq [simp]: "encode_utf8_nfc nfc a = encode_utf8_nfc nfc b \<longleftrightarrow> nfc a = nfc b"
  by (simp add: encode_utf8_nfc_def)

section \<open>What the bytes determine\<close>

definition nf_endpoint :: "(string \<Rightarrow> string) \<Rightarrow> federation_endpoint \<Rightarrow> federation_endpoint" where
  "nf_endpoint nfc e = e\<lparr>fe_uri := nfc (fe_uri e), fe_isp_name := nfc (fe_isp_name e), fe_region := nfc (fe_region e)\<rparr>"

definition nf_vouch :: "(string \<Rightarrow> string) \<Rightarrow> server_vouch \<Rightarrow> server_vouch" where
  "nf_vouch nfc v = v\<lparr>sv_note := nfc (sv_note v)\<rparr>"

definition nf_peer :: "(string \<Rightarrow> string) \<Rightarrow> federation_peer_record \<Rightarrow> federation_peer_record" where
  "nf_peer nfc p = p\<lparr>fp_display_name := nfc (fp_display_name p), fp_endpoints := map (nf_endpoint nfc) (fp_endpoints p),
     fp_communities := map nfc (fp_communities p), fp_channels := map nfc (fp_channels p)\<rparr>"

definition nf_announce :: "(string \<Rightarrow> string) \<Rightarrow> announce_request \<Rightarrow> announce_request" where
  "nf_announce nfc f = f\<lparr>ar_display_name := nfc (ar_display_name f), ar_software := nfc (ar_software f),
     ar_version := nfc (ar_version f), ar_endpoints := map (nf_endpoint nfc) (ar_endpoints f),
     ar_communities := map nfc (ar_communities f), ar_channels := map nfc (ar_channels f)\<rparr>"

definition nf_response :: "(string \<Rightarrow> string) \<Rightarrow> announce_response \<Rightarrow> announce_response" where
  "nf_response nfc f = f\<lparr>an_endpoints := map (nf_endpoint nfc) (an_endpoints f), an_vouches := map (nf_vouch nfc) (an_vouches f)\<rparr>"

definition nf_directory :: "(string \<Rightarrow> string) \<Rightarrow> directory_exchange \<Rightarrow> directory_exchange" where
  "nf_directory nfc f = f\<lparr>de_peers := map (nf_peer nfc) (de_peers f)\<rparr>"

lemma endpoint_eq: "length (endpoint_bytes nfc e) < 2 ^ 32 \<Longrightarrow>
    endpoint_bytes nfc e = endpoint_bytes nfc e' \<longleftrightarrow> nf_endpoint nfc e = nf_endpoint nfc e'"
  unfolding endpoint_bytes_def by (subst frame_eq) (cases e; cases e'; auto simp: nf_endpoint_def)+

lemma vouch_eq: "length (vouch_body nfc v) < 2 ^ 32 \<Longrightarrow>
    vouch_body nfc v = vouch_body nfc v' \<longleftrightarrow> nf_vouch nfc v = nf_vouch nfc v'"
  unfolding vouch_body_def by (subst frame_eq) (cases v; cases v'; auto simp: nf_vouch_def)+

lemma optional_sth_eq: "length (optional_sth a) < 2 ^ 32 \<Longrightarrow> optional_sth a = optional_sth b \<longleftrightarrow> a = b"
  by (cases a; cases b) (auto simp: optional_sth_def frame_eq intro!: federation_tree_head.equality)

lemma ints_eq: "length (frame_parts (map int_bytes xs)) < 2 ^ 32 \<Longrightarrow>
    frame_parts (map int_bytes xs) = frame_parts (map int_bytes ys) \<longleftrightarrow> xs = ys"
  using frame_map_eq [of int_bytes xs "\<lambda>x. x" ys] by simp

lemma texts_eq: "length (frame_parts (map (encode_utf8_nfc nfc) xs)) < 2 ^ 32 \<Longrightarrow>
    frame_parts (map (encode_utf8_nfc nfc) xs) = frame_parts (map (encode_utf8_nfc nfc) ys) \<longleftrightarrow> map nfc xs = map nfc ys"
  using frame_map_eq [of "encode_utf8_nfc nfc" xs nfc ys] by simp

lemma endpoints_eq: "length (frame_parts (map (endpoint_bytes nfc) xs)) < 2 ^ 32 \<Longrightarrow>
    frame_parts (map (endpoint_bytes nfc) xs) = frame_parts (map (endpoint_bytes nfc) ys)
      \<longleftrightarrow> map (nf_endpoint nfc) xs = map (nf_endpoint nfc) ys"
  by (rule frame_map_eq) (auto simp: endpoint_eq)

lemma vouches_eq: "length (frame_parts (map (vouch_body nfc) xs)) < 2 ^ 32 \<Longrightarrow>
    frame_parts (map (vouch_body nfc) xs) = frame_parts (map (vouch_body nfc) ys)
      \<longleftrightarrow> map (nf_vouch nfc) xs = map (nf_vouch nfc) ys"
  by (rule frame_map_eq) (auto simp: vouch_eq)

lemma quota_eq: "length (quota_bytes a) < 2 ^ 32 \<Longrightarrow> quota_bytes a = quota_bytes b \<longleftrightarrow> a = b"
proof (cases "\<exists>p q. a = Some p \<and> b = Some q")
  case True
  then obtain p q where ab: "a = Some p" "b = Some q" by blast
  assume len: "length (quota_bytes a) < 2 ^ 32"
  let ?ps = "[text_encode ''present'', int_bytes (qf_envelopes_per_min p), int_bytes (qf_bytes_per_min p),
       int_bytes (qf_max_concurrent_streams p), frame_parts (map int_bytes (qf_allowed_classes p))]"
  have len': "length (frame_parts ?ps) < 2 ^ 32" using len ab by (simp add: quota_bytes_def)
  have "length (frame_parts (map int_bytes (qf_allowed_classes p))) < 2 ^ 32" by (rule nested [OF len']) simp
  then show ?thesis unfolding ab quota_bytes_def option.case frame_eq [OF len']
    by (cases p; cases q) (simp add: ints_eq)
next
  case False
  assume "length (quota_bytes a) < 2 ^ 32"
  with False show ?thesis by (cases a; cases b) (simp_all add: quota_bytes_def frame_eq)
qed

lemma observation_eq: "length (observation_bytes a) < 2 ^ 32 \<Longrightarrow> observation_bytes a = observation_bytes b \<longleftrightarrow> a = b"
proof -
  assume len: "length (observation_bytes a) < 2 ^ 32"
  have "length (optional_sth (po_sth a)) < 2 ^ 32" by (rule nested [OF len [unfolded observation_bytes_def]]) simp
  then show ?thesis unfolding observation_bytes_def frame_eq [OF len [unfolded observation_bytes_def]]
    by (cases a; cases b) (simp add: optional_sth_eq)
qed

lemma peer_record_eq: "length (peer_record_bytes nfc a) < 2 ^ 32 \<Longrightarrow>
    peer_record_bytes nfc a = peer_record_bytes nfc b \<longleftrightarrow> nf_peer nfc a = nf_peer nfc b"
proof -
  assume len: "length (peer_record_bytes nfc a) < 2 ^ 32"
  note n = nested [OF len [unfolded peer_record_bytes_def]]
  have "length (frame_parts (map (endpoint_bytes nfc) (fp_endpoints a))) < 2 ^ 32" by (rule n) simp
  moreover have "frame_parts (fp_vouched_by a) = frame_parts x \<longleftrightarrow> fp_vouched_by a = x" for x
    by (rule frame_eq) (rule n, simp)
  moreover have "length (frame_parts (map (encode_utf8_nfc nfc) (fp_communities a))) < 2 ^ 32" by (rule n) simp
  moreover have "length (frame_parts (map (encode_utf8_nfc nfc) (fp_channels a))) < 2 ^ 32" by (rule n) simp
  moreover have "length (frame_parts (map int_bytes (fp_planes a))) < 2 ^ 32" by (rule n) simp
  moreover have "length (frame_parts (map int_bytes (fp_bridged_asns a))) < 2 ^ 32" by (rule n) simp
  ultimately show ?thesis unfolding peer_record_bytes_def frame_eq [OF len [unfolded peer_record_bytes_def]]
    by (cases a; cases b) (auto simp: endpoints_eq texts_eq ints_eq nf_peer_def)
qed

text \<open>Every statement a node signs, and its text normalised.\<close>

datatype statement =
    Announce announce_request | AnnounceAck announce_response | Vouch server_vouch | Gossip tree_head_exchange
  | Directory directory_exchange | Call string int bytes

definition statement_bytes :: "(string \<Rightarrow> string) \<Rightarrow> statement \<Rightarrow> bytes" where
  "statement_bytes nfc s = (case s of
     Announce f \<Rightarrow> announce_request_signing_bytes nfc f
   | AnnounceAck f \<Rightarrow> announce_response_signing_bytes nfc f
   | Vouch v \<Rightarrow> server_vouch_signing_bytes nfc v
   | Gossip f \<Rightarrow> tree_head_exchange_signing_bytes f
   | Directory f \<Rightarrow> directory_exchange_signing_bytes nfc f
   | Call method t nonce' \<Rightarrow> federation_call_auth_bytes nfc method t nonce')"

definition nf_statement :: "(string \<Rightarrow> string) \<Rightarrow> statement \<Rightarrow> statement" where
  "nf_statement nfc s = (case s of
     Announce f \<Rightarrow> Announce (nf_announce nfc f) | AnnounceAck f \<Rightarrow> AnnounceAck (nf_response nfc f)
   | Vouch v \<Rightarrow> Vouch (nf_vouch nfc v) | Gossip f \<Rightarrow> Gossip f | Directory f \<Rightarrow> Directory (nf_directory nfc f)
   | Call method t nonce' \<Rightarrow> Call (nfc method) t nonce')"

lemma announce_eq: "length (announce_request_signing_bytes nfc a) < 2 ^ 32 \<Longrightarrow>
    announce_request_signing_bytes nfc a = announce_request_signing_bytes nfc b \<longleftrightarrow> nf_announce nfc a = nf_announce nfc b"
proof -
  assume len: "length (announce_request_signing_bytes nfc a) < 2 ^ 32"
  note n = nested [OF len [unfolded announce_request_signing_bytes_def]]
  have "length (frame_parts (map (endpoint_bytes nfc) (ar_endpoints a))) < 2 ^ 32" by (rule n) simp
  moreover have "length (frame_parts (map (encode_utf8_nfc nfc) (ar_communities a))) < 2 ^ 32" by (rule n) simp
  moreover have "length (frame_parts (map (encode_utf8_nfc nfc) (ar_channels a))) < 2 ^ 32" by (rule n) simp
  moreover have "length (frame_parts (map int_bytes (ar_planes a))) < 2 ^ 32" by (rule n) simp
  moreover have "length (frame_parts (map int_bytes (ar_accepted_classes a))) < 2 ^ 32" by (rule n) simp
  moreover have "length (optional_sth (ar_current_sth a)) < 2 ^ 32" by (rule n) simp
  ultimately show ?thesis
    unfolding announce_request_signing_bytes_def frame_eq [OF len [unfolded announce_request_signing_bytes_def]]
    by (cases a; cases b) (auto simp: endpoints_eq texts_eq ints_eq optional_sth_eq nf_announce_def)
qed

lemma response_eq: "length (announce_response_signing_bytes nfc a) < 2 ^ 32 \<Longrightarrow>
    announce_response_signing_bytes nfc a = announce_response_signing_bytes nfc b \<longleftrightarrow> nf_response nfc a = nf_response nfc b"
proof -
  assume len: "length (announce_response_signing_bytes nfc a) < 2 ^ 32"
  note n = nested [OF len [unfolded announce_response_signing_bytes_def]]
  have "length (frame_parts (map (endpoint_bytes nfc) (an_endpoints a))) < 2 ^ 32" by (rule n) simp
  moreover have "length (frame_parts (map (vouch_body nfc) (an_vouches a))) < 2 ^ 32" by (rule n) simp
  moreover have "length (quota_bytes (an_granted_quota a)) < 2 ^ 32" by (rule n) simp
  moreover have "length (optional_sth (an_current_sth a)) < 2 ^ 32" by (rule n) simp
  ultimately show ?thesis
    unfolding announce_response_signing_bytes_def frame_eq [OF len [unfolded announce_response_signing_bytes_def]]
    by (cases a; cases b) (auto simp: endpoints_eq vouches_eq quota_eq optional_sth_eq nf_response_def)
qed

lemma gossip_eq: "length (tree_head_exchange_signing_bytes a) < 2 ^ 32 \<Longrightarrow>
    tree_head_exchange_signing_bytes a = tree_head_exchange_signing_bytes b \<longleftrightarrow> a = b"
proof -
  assume len: "length (tree_head_exchange_signing_bytes a) < 2 ^ 32"
  note n = nested [OF len [unfolded tree_head_exchange_signing_bytes_def]]
  have o: "length (frame_parts (map observation_bytes (te_observed a))) < 2 ^ 32" by (rule n) simp
  have "frame_parts (map observation_bytes (te_observed a)) = frame_parts (map observation_bytes ys) \<longleftrightarrow> te_observed a = ys" for ys
    using frame_map_eq [OF o, of "\<lambda>x. x" ys] observation_eq by simp
  moreover have "length (optional_sth (te_sth a)) < 2 ^ 32" by (rule n) simp
  ultimately show ?thesis
    unfolding tree_head_exchange_signing_bytes_def frame_eq [OF len [unfolded tree_head_exchange_signing_bytes_def]]
    by (cases a; cases b) (auto simp: optional_sth_eq)
qed

lemma directory_eq: "length (directory_exchange_signing_bytes nfc a) < 2 ^ 32 \<Longrightarrow>
    directory_exchange_signing_bytes nfc a = directory_exchange_signing_bytes nfc b \<longleftrightarrow> nf_directory nfc a = nf_directory nfc b"
proof -
  assume len: "length (directory_exchange_signing_bytes nfc a) < 2 ^ 32"
  have p: "length (frame_parts (map (peer_record_bytes nfc) (de_peers a))) < 2 ^ 32"
    by (rule nested [OF len [unfolded directory_exchange_signing_bytes_def]]) simp
  have "frame_parts (map (peer_record_bytes nfc) (de_peers a)) = frame_parts (map (peer_record_bytes nfc) ys)
      \<longleftrightarrow> map (nf_peer nfc) (de_peers a) = map (nf_peer nfc) ys" for ys
    by (rule frame_map_eq [OF p]) (rule peer_record_eq)
  then show ?thesis
    unfolding directory_exchange_signing_bytes_def frame_eq [OF len [unfolded directory_exchange_signing_bytes_def]]
    by (cases a; cases b) (auto simp: nf_directory_def)
qed

lemma vouch_statement_eq: "length (server_vouch_signing_bytes nfc a) < 2 ^ 32 \<Longrightarrow>
    server_vouch_signing_bytes nfc a = server_vouch_signing_bytes nfc b \<longleftrightarrow> nf_vouch nfc a = nf_vouch nfc b"
proof -
  assume len: "length (server_vouch_signing_bytes nfc a) < 2 ^ 32"
  have "length (vouch_body nfc a) < 2 ^ 32" by (rule nested [OF len [unfolded server_vouch_signing_bytes_def]]) simp
  then show ?thesis
    unfolding server_vouch_signing_bytes_def frame_eq [OF len [unfolded server_vouch_signing_bytes_def]]
    by (simp add: vouch_eq)
qed

text \<open>The tag each kind of statement starts with.\<close>

definition statement_tag :: "statement \<Rightarrow> string" where
  "statement_tag s = (case s of Announce _ \<Rightarrow> ''jb-fed-announce-v1'' | AnnounceAck _ \<Rightarrow> ''jb-fed-announce-ack-v1''
     | Vouch _ \<Rightarrow> ''jb-fed-vouch-v1'' | Gossip _ \<Rightarrow> ''jb-fed-sth-gossip-v1'' | Directory _ \<Rightarrow> ''jb-fed-directory-v1''
     | Call _ _ _ \<Rightarrow> ''jb-fed-call-v1'')"

lemma statement_framed: "\<exists>ps. statement_bytes nfc s = frame_parts (text_encode (statement_tag s) # ps)"
  by (cases s) (auto simp: statement_bytes_def statement_tag_def announce_request_signing_bytes_def
      announce_response_signing_bytes_def server_vouch_signing_bytes_def tree_head_exchange_signing_bytes_def
      directory_exchange_signing_bytes_def federation_call_auth_bytes_def)

lemma same_tag:
  assumes "length (statement_bytes nfc s) < 2 ^ 32" and "statement_bytes nfc s = statement_bytes nfc s'"
  shows "statement_tag s = statement_tag s'"
proof -
  obtain ps qs where p: "statement_bytes nfc s = frame_parts (text_encode (statement_tag s) # ps)"
    and q: "statement_bytes nfc s' = frame_parts (text_encode (statement_tag s') # qs)"
    using statement_framed by blast
  have "text_encode (statement_tag s) # ps = text_encode (statement_tag s') # qs"
    using frame_eq [OF assms(1) [unfolded p]] assms(2) p q by metis
  then show ?thesis by simp
qed

text \<open>No node-to-node signature can be read two ways: if two federation statements of any kind (announce, its
  answer, vouch, tree-head gossip, directory, call authentication) have the same signing bytes, they are
  of the same kind and agree in every field, up to Unicode normalisation of their text; so a signature
  made over one never covers another, whatever an attacker puts into adjacent fields or lists.\<close>

theorem federation_signing_unambiguous:
  assumes "length (statement_bytes nfc s) < 2 ^ 32"
  shows "statement_bytes nfc s = statement_bytes nfc s' \<longleftrightarrow> nf_statement nfc s = nf_statement nfc s'"
proof (cases "statement_tag s = statement_tag s'")
  case True
  with assms show ?thesis
    by (cases s; cases s') (auto simp: statement_tag_def statement_bytes_def nf_statement_def announce_eq response_eq
        vouch_statement_eq gossip_eq directory_eq federation_call_auth_bytes_def frame_eq)
next
  case False
  then have "nf_statement nfc s \<noteq> nf_statement nfc s'"
    by (cases s; cases s') (auto simp: nf_statement_def statement_tag_def)
  with False same_tag [OF assms] show ?thesis by blast
qed

definition sample_split :: "string list \<Rightarrow> directory_exchange" where
  "sample_split cs = \<lparr>de_peers = [\<lparr>fp_server_key = [1], fp_display_name = ''a'', fp_endpoints = [], fp_trust = 2,
     fp_vouched_by = [], fp_communities = cs, fp_channels = [], fp_planes = [1], fp_is_bridge = False,
     fp_bridged_asns = [], fp_last_seen_ms = 7\<rparr>], de_generated_at_ms = 9\<rparr>"

text \<open>Two lists with the same concatenation.\<close>

theorem federation_signing_unambiguous_witness:
  "statement_bytes (\<lambda>s. s) (Directory (sample_split [''ab'', ''c''])) \<noteq>
   statement_bytes (\<lambda>s. s) (Directory (sample_split [''a'', ''bc'']))"
proof -
  have "js_string_of_int n = [char_of (48 + nat n)]" if "0 \<le> n" "n < 10" for n
    using that by (simp add: js_string_of_int_def digits_of.simps)
  then have "length (statement_bytes (\<lambda>s. s) (Directory (sample_split [''ab'', ''c'']))) < 2 ^ 32"
    by (simp add: statement_bytes_def directory_exchange_signing_bytes_def sample_split_def peer_record_bytes_def
        frame_parts_concat int_bytes_def bool_bytes_def encode_utf8_nfc_def)
  from federation_signing_unambiguous [OF this, of "Directory (sample_split [''a'', ''bc''])"]
  show ?thesis by (simp add: nf_statement_def nf_directory_def nf_peer_def sample_split_def)
qed

end
