(* ===== verification/JB_Merkle.thy ===== *)
theory JB_Merkle
  imports JB_Wire
begin

unbundle bit_operations_syntax

text \<open>
  The RFC 6962 tree of the transparency log, \<open>backend/src/core/domain/merkle.ts\<close>: roots, audit
  paths, consistency proofs and their verifiers. SHA-256 is the parameter \<open>sha\<close>; nothing is assumed
  of it but, where it matters, the length of its output. Soundness never assumes that collisions
  do not exist (they do): it says that a wrong answer exhibits one among the strings that the
  verifier and the tree builder hash, which the definitions list.
\<close>

section \<open>Roots and audit paths\<close>

definition LEAF_PREFIX :: byte where "LEAF_PREFIX = 0"
definition NODE_PREFIX :: byte where "NODE_PREFIX = 1"

definition hash_leaf :: "(bytes \<Rightarrow> bytes) \<Rightarrow> bytes \<Rightarrow> bytes" where
  "hash_leaf sha data = sha (LEAF_PREFIX # data)"

definition hash_node :: "(bytes \<Rightarrow> bytes) \<Rightarrow> bytes \<Rightarrow> bytes \<Rightarrow> bytes" where
  "hash_node sha left right = sha (NODE_PREFIX # left @ right)"

definition empty_root :: "(bytes \<Rightarrow> bytes) \<Rightarrow> bytes" where
  "empty_root sha = sha []"

text \<open>The doubling loop; it starts at 1, so the guard \<open>0 < k\<close> never fails.\<close>

function split_loop :: "nat \<Rightarrow> nat \<Rightarrow> nat" where
  "split_loop k n = (if 0 < k \<and> k * 2 < n then split_loop (k * 2) n else k)"
  by auto
termination by (relation "measure (\<lambda>(k, n). n - k)") auto

declare split_loop.simps [simp del]

definition split_point :: "nat \<Rightarrow> nat" where
  "split_point n = split_loop 1 n"

lemma split_loop_spec:
  assumes "0 < k" and "k < n"
  shows "k \<le> split_loop k n \<and> split_loop k n < n \<and> n \<le> 2 * split_loop k n
    \<and> (\<exists>e. split_loop k n = k * 2 ^ e)"
  using assms
proof (induction k n rule: split_loop.induct)
  case (1 k n)
  show ?case
  proof (cases "k * 2 < n")
    case True
    with "1.prems" have "k * 2 \<le> split_loop (k * 2) n \<and> split_loop (k * 2) n < n
      \<and> n \<le> 2 * split_loop (k * 2) n \<and> (\<exists>e. split_loop (k * 2) n = k * 2 * 2 ^ e)"
      by (intro "1.IH") auto
    moreover have "split_loop k n = split_loop (k * 2) n"
      using True "1.prems" by (subst split_loop.simps) simp
    moreover have "k * 2 * 2 ^ e = k * 2 ^ Suc e" for e by simp
    ultimately show ?thesis by (metis le_trans mult.commute mult_le_mono1 nat_le_linear one_le_numeral mult_1)
  next
    case False
    then have "split_loop k n = k * 2 ^ 0" by (subst split_loop.simps) simp
    with False "1.prems" show ?thesis by (auto intro: exI [of _ 0])
  qed
qed

lemma split_point_bounds:
  assumes "1 < n"
  shows "0 < split_point n" and "split_point n < n" and "n \<le> 2 * split_point n"
  using split_loop_spec [of 1 n] assms by (auto simp: split_point_def)

lemma split_point_power:
  assumes "1 < n"
  obtains e where "split_point n = 2 ^ e"
  using split_loop_spec [of 1 n] assms by (auto simp: split_point_def)

lemma split_shrinks [simp]:
  assumes "Suc 0 < n"
  shows "split_point n < n" and "0 < split_point n" and "\<not> n \<le> split_point n"
    and "min n (split_point n) < n" and "n - split_point n < n"
  using split_point_bounds [of n] assms by simp_all

lemma Suc_0_less_iff: "xs \<noteq> [] \<Longrightarrow> length xs \<noteq> Suc 0 \<Longrightarrow> Suc 0 < length xs"
  "\<not> int (length xs) \<le> z \<Longrightarrow> 0 \<le> z \<Longrightarrow> length xs \<noteq> Suc 0 \<Longrightarrow> Suc 0 < length xs"
  by (cases xs; simp)+

function merkle_root :: "(bytes \<Rightarrow> bytes) \<Rightarrow> bytes list \<Rightarrow> bytes" where
  "merkle_root sha leaves =
     (if length leaves = 0 then empty_root sha
      else if length leaves = 1 then leaves ! 0
      else let k = split_point (length leaves)
           in hash_node sha (merkle_root sha (take k leaves)) (merkle_root sha (drop k leaves)))"
  by pat_completeness auto
termination
  by (relation "measure (\<lambda>(_, leaves). length leaves)") (auto simp: not_le Suc_0_less_iff)

declare merkle_root.simps [simp del]

datatype merkle_error = IndexOutOfRange | SizeNotWithin

function inclusion_path_at :: "(bytes \<Rightarrow> bytes) \<Rightarrow> bytes list \<Rightarrow> int \<Rightarrow> merkle_error + bytes list" where
  "inclusion_path_at sha leaves index =
     (if index < 0 \<or> index \<ge> int (length leaves) then Inl IndexOutOfRange
      else if length leaves = 1 then Inr []
      else let k = split_point (length leaves) in
           if index < int k
           then res_bind (inclusion_path_at sha (take k leaves) index)
                  (\<lambda>p. Inr (p @ [merkle_root sha (drop k leaves)]))
           else res_bind (inclusion_path_at sha (drop k leaves) (index - int k))
                  (\<lambda>p. Inr (p @ [merkle_root sha (take k leaves)])))"
  by pat_completeness auto
termination
  by (relation "measure (\<lambda>(_, leaves, _). length leaves)") (auto simp: not_less Suc_0_less_iff)

declare inclusion_path_at.simps [simp del]

text \<open>The descent of \<open>verifyInclusion\<close>: the side taken at each level, top down.\<close>

function goes_left :: "nat \<Rightarrow> nat \<Rightarrow> bool list" where
  "goes_left i tsize =
     (if tsize > 1
      then let k = split_point tsize
           in if i < k then True # goes_left i k else False # goes_left (i - k) (tsize - k)
      else [])"
  by pat_completeness auto
termination
  by (relation "measure snd") auto

declare goes_left.simps [simp del]

definition climb_step :: "(bytes \<Rightarrow> bytes) \<Rightarrow> bytes \<Rightarrow> bool \<times> bytes \<Rightarrow> bytes" where
  "climb_step sha hash s = (if fst s then hash_node sha hash (snd s) else hash_node sha (snd s) hash)"

lemma climb_step_simps [simp]:
  "climb_step sha h (True, s) = hash_node sha h s" "climb_step sha h (False, s) = hash_node sha s h"
  by (simp_all add: climb_step_def)

definition verify_inclusion ::
  "(bytes \<Rightarrow> bytes) \<Rightarrow> bytes \<Rightarrow> int \<Rightarrow> int \<Rightarrow> bytes list \<Rightarrow> bytes \<Rightarrow> bool" where
  "verify_inclusion sha leaf_hash index tree_size path root =
     (if index < 0 \<or> index \<ge> tree_size then False
      else let gl = goes_left (nat index) (nat tree_size) in
           if length path \<noteq> length gl then False
           else bytes_equal (foldl (climb_step sha) leaf_hash (zip (rev gl) path)) root)"

section \<open>Inclusion: completeness and soundness\<close>

lemma merkle_root_single [simp]: "merkle_root sha [l] = l"
  by (subst merkle_root.simps) simp

lemma merkle_root_split:
  assumes "1 < length leaves"
  shows "merkle_root sha leaves = hash_node sha (merkle_root sha (take (split_point (length leaves)) leaves))
     (merkle_root sha (drop (split_point (length leaves)) leaves))"
  using assms by (subst merkle_root.simps) (auto simp: Let_def)

text \<open>Induction over the tree, the shape every proof below has.\<close>

lemma tree_induct [consumes 1, case_names leaf node]:
  assumes "0 < length leaves"
    and "\<And>l. P [l]"
    and "\<And>leaves k. 1 < length leaves \<Longrightarrow> k = split_point (length leaves) \<Longrightarrow> 0 < k \<Longrightarrow> k < length leaves
          \<Longrightarrow> P (take k leaves) \<Longrightarrow> P (drop k leaves) \<Longrightarrow> P leaves"
  shows "P leaves"
  using assms(1)
proof (induction leaves rule: length_induct)
  case (1 leaves)
  show ?case
  proof (cases "length leaves = 1")
    case True
    then obtain l where "leaves = [l]" by (cases leaves) auto
    with assms(2) show ?thesis by simp
  next
    case False
    define k where "k = split_point (length leaves)"
    from False "1.prems" have n: "1 < length leaves" by linarith
    note b = split_point_bounds [OF n, folded k_def]
    show ?thesis
    proof (rule assms(3) [OF n k_def b(1,2)])
      show "P (take k leaves)" using "1.IH" [rule_format, of "take k leaves"] b n by (auto simp: min_def)
      show "P (drop k leaves)" using "1.IH" [rule_format, of "drop k leaves"] b n by auto
    qed
  qed
qed

lemma inclusion_path_ok:
  assumes "0 < length leaves" and "i < length leaves"
  shows "\<exists>p. inclusion_path_at sha leaves (int i) = Inr p \<and> length p = length (goes_left i (length leaves))
     \<and> foldl (climb_step sha) (leaves ! i) (zip (rev (goes_left i (length leaves))) p) = merkle_root sha leaves"
  using assms
proof (induction leaves arbitrary: i rule: tree_induct)
  case (leaf l)
  then show ?case by (subst inclusion_path_at.simps, subst goes_left.simps) (auto simp: goes_left.simps)
next
  case (node leaves k)
  let ?n = "length leaves"
  note root = merkle_root_split [OF node(1), of sha, folded node(2)]
  show ?case
  proof (cases "i < k")
    case True
    with node obtain p where p: "inclusion_path_at sha (take k leaves) (int i) = Inr p"
      "length p = length (goes_left i k)"
      "foldl (climb_step sha) (leaves ! i) (zip (rev (goes_left i k)) p) = merkle_root sha (take k leaves)"
      using node.IH(1) [of i] by (auto simp: min_def)
    have "goes_left i ?n = True # goes_left i k"
      using node True by (subst goes_left.simps) (simp add: Let_def)
    moreover have "inclusion_path_at sha leaves (int i) = Inr (p @ [merkle_root sha (drop k leaves)])"
      using node True p(1) by (subst inclusion_path_at.simps) (simp add: Let_def)
    ultimately show ?thesis using p root by simp
  next
    case False
    with node have i: "i - k < length (drop k leaves)" "leaves ! i = drop k leaves ! (i - k)" by auto
    from node.IH(2) [OF i(1)] obtain p where p: "inclusion_path_at sha (drop k leaves) (int (i - k)) = Inr p"
      "length p = length (goes_left (i - k) (?n - k))"
      "foldl (climb_step sha) (leaves ! i) (zip (rev (goes_left (i - k) (?n - k))) p) = merkle_root sha (drop k leaves)"
      unfolding i(2) by auto
    have "goes_left i ?n = False # goes_left (i - k) (?n - k)"
      using node False by (subst goes_left.simps) (simp add: Let_def)
    moreover have "inclusion_path_at sha leaves (int i) = Inr (p @ [merkle_root sha (take k leaves)])"
      using node False p(1) by (subst inclusion_path_at.simps) (simp add: Let_def of_nat_diff)
    ultimately show ?thesis using p root by simp
  qed
qed

text \<open>The strings hashed while a root is built, and those hashed while a path is climbed.\<close>

function tree_inputs :: "(bytes \<Rightarrow> bytes) \<Rightarrow> bytes list \<Rightarrow> bytes list" where
  "tree_inputs sha leaves =
     (if length leaves \<le> 1 then []
      else let k = split_point (length leaves)
           in (NODE_PREFIX # merkle_root sha (take k leaves) @ merkle_root sha (drop k leaves))
              # tree_inputs sha (take k leaves) @ tree_inputs sha (drop k leaves))"
  by pat_completeness auto
termination
  by (relation "measure (\<lambda>(_, leaves). length leaves)") (auto simp: not_le Suc_0_less_iff)

declare tree_inputs.simps [simp del]

definition climb_input :: "bytes \<Rightarrow> bool \<times> bytes \<Rightarrow> bytes" where
  "climb_input hash s = NODE_PREFIX # (if fst s then hash @ snd s else snd s @ hash)"

fun climb_inputs :: "(bytes \<Rightarrow> bytes) \<Rightarrow> bytes \<Rightarrow> (bool \<times> bytes) list \<Rightarrow> bytes list" where
  "climb_inputs sha hash [] = []"
| "climb_inputs sha hash (s # ss) = climb_input hash s # climb_inputs sha (climb_step sha hash s) ss"

definition collision :: "(bytes \<Rightarrow> bytes) \<Rightarrow> bytes list \<Rightarrow> bytes list \<Rightarrow> bool" where
  "collision sha xs ys \<longleftrightarrow> (\<exists>x \<in> set xs. \<exists>y \<in> set ys. x \<noteq> y \<and> sha x = sha y)"

lemma collision_mono: "collision sha xs ys \<Longrightarrow> set xs \<subseteq> set xs' \<Longrightarrow> set ys \<subseteq> set ys' \<Longrightarrow> collision sha xs' ys'"
  by (auto simp: collision_def)

lemma climb_step_input: "climb_step sha h s = sha (climb_input h s)"
  by (simp add: climb_step_def climb_input_def hash_node_def)

lemma climb_inputs_snoc:
  "climb_inputs sha h (ss @ [s]) = climb_inputs sha h ss @ [climb_input (foldl (climb_step sha) h ss) s]"
  by (induction ss arbitrary: h) simp_all

lemma climb_length: 
  "length h = n \<Longrightarrow> (\<And>x. length (sha x) = n) \<Longrightarrow> length (foldl (climb_step sha) h ss) = n"
  by (induction ss arbitrary: h) (simp_all add: climb_step_input)

lemma merkle_root_length:
  assumes "0 < length leaves" and "\<forall>l \<in> set leaves. length l = n" and "\<And>x. length (sha x) = n"
  shows "length (merkle_root sha leaves) = n"
  using assms
  by (induction leaves rule: tree_induct) (auto simp: merkle_root_split hash_node_def)

lemma tree_inputs_split:
  assumes "1 < length leaves" and "k = split_point (length leaves)"
  shows "tree_inputs sha leaves =
    (NODE_PREFIX # merkle_root sha (take k leaves) @ merkle_root sha (drop k leaves))
      # tree_inputs sha (take k leaves) @ tree_inputs sha (drop k leaves)"
  using assms by (subst tree_inputs.simps) (simp add: Let_def)

text \<open>Climbing any path of the right shape to the root of the tree starts at the leaf, or collides.\<close>

lemma climb_sound:
  assumes "0 < length leaves" and "i < length leaves" and "length ss = length (goes_left i (length leaves))"
    and "length h = n" and "\<And>x. length (sha x) = n" and "\<forall>l \<in> set leaves. length l = n"
    and "foldl (climb_step sha) h (zip (rev (goes_left i (length leaves))) ss) = merkle_root sha leaves"
  shows "h = leaves ! i \<or>
    collision sha (tree_inputs sha leaves) (climb_inputs sha h (zip (rev (goes_left i (length leaves))) ss))"
  using assms
proof (induction leaves arbitrary: i ss rule: tree_induct)
  case (leaf l)
  then show ?case by (simp add: goes_left.simps)
next
  case (node leaves k)
  let ?n = "length leaves"
  note root = merkle_root_split [OF node(1), of sha, folded node(2)]
  note inputs = tree_inputs_split [OF node(1,2), of sha]
  let ?L = "merkle_root sha (take k leaves)" and ?R = "merkle_root sha (drop k leaves)"
  have lens: "\<forall>l \<in> set (take k leaves). length l = n" "\<forall>l \<in> set (drop k leaves). length l = n"
    using node.prems(5) by (auto dest: in_set_takeD in_set_dropD)
  with node(3,4) have len: "length ?L = n" "length ?R = n"
    by (simp_all add: merkle_root_length [OF _ _ node.prems(4)])
  define left where "left = (i < k)"
  define gl where "gl = (if left then goes_left i k else goes_left (i - k) (?n - k))"
  have gl: "goes_left i ?n = left # gl"
    using node(1,2) by (subst goes_left.simps) (simp add: Let_def left_def gl_def)
  then obtain ps s where ss: "ss = ps @ [s]" "length ps = length gl"
    using node.prems(2) by (cases ss rule: rev_cases) auto
  define c where "c = foldl (climb_step sha) h (zip (rev gl) ps)"
  have z: "zip (rev (goes_left i ?n)) ss = zip (rev gl) ps @ [(left, s)]" using gl ss by simp
  have clen: "length c = n" unfolding c_def by (rule climb_length [OF node.prems(3,4)])
  have eq: "sha (climb_input c (left, s)) = sha (NODE_PREFIX # ?L @ ?R)"
    using node.prems(6) root by (simp add: z c_def hash_node_def climb_step_input [of sha _ "(left, s)"])
  have step: "climb_input c (left, s) \<in> set (climb_inputs sha h (zip (rev (goes_left i ?n)) ss))"
    "set (climb_inputs sha h (zip (rev gl) ps)) \<subseteq> set (climb_inputs sha h (zip (rev (goes_left i ?n)) ss))"
    by (auto simp: z climb_inputs_snoc c_def)
  show ?case
  proof (cases "climb_input c (left, s) = NODE_PREFIX # ?L @ ?R")
    case False
    then have "collision sha (tree_inputs sha leaves) (climb_inputs sha h (zip (rev (goes_left i ?n)) ss))"
      using eq step(1) unfolding collision_def inputs
      by (intro bexI [of _ "NODE_PREFIX # ?L @ ?R"] bexI [of _ "climb_input c (left, s)"]) auto
    then show ?thesis ..
  next
    case True
    have mono: "set (tree_inputs sha (take k leaves)) \<subseteq> set (tree_inputs sha leaves)"
      "set (tree_inputs sha (drop k leaves)) \<subseteq> set (tree_inputs sha leaves)"
      by (auto simp: inputs)
    show ?thesis
    proof (cases left)
      case True
      with \<open>climb_input c (left, s) = _\<close> clen len have "c = ?L" by (simp add: climb_input_def)
      have "h = take k leaves ! i \<or> collision sha (tree_inputs sha (take k leaves)) (climb_inputs sha h (zip (rev gl) ps))"
        using node.IH(1) [OF _ _ node.prems(3,4), of i ps] node(4) lens True ss(2) \<open>c = ?L\<close>
        by (simp add: left_def gl_def c_def min_def)
      moreover have "take k leaves ! i = leaves ! i" using True by (simp add: left_def)
      ultimately show ?thesis using collision_mono [OF _ mono(1) step(2)] by auto
    next
      case False
      with \<open>climb_input c (left, s) = _\<close> clen len have "c = ?R" by (simp add: climb_input_def append_eq_append_conv)
      have "h = drop k leaves ! (i - k) \<or> collision sha (tree_inputs sha (drop k leaves)) (climb_inputs sha h (zip (rev gl) ps))"
        using node.IH(2) [OF _ _ node.prems(3,4), of "i - k" ps] node(4) node.prems(1) lens False ss(2) \<open>c = ?R\<close>
        by (simp add: left_def gl_def c_def)
      moreover have "drop k leaves ! (i - k) = leaves ! i" using False node(4) by (simp add: left_def)
      ultimately show ?thesis using collision_mono [OF _ mono(2) step(2)] by auto
    qed
  qed
qed

section \<open>Consistency proofs\<close>

function sub_proof :: "(bytes \<Rightarrow> bytes) \<Rightarrow> bytes list \<Rightarrow> nat \<Rightarrow> bool \<Rightarrow> bytes list" where
  "sub_proof sha leaves m is_root =
     (if m = length leaves then (if is_root then [] else [merkle_root sha leaves])
      else let k = split_point (length leaves) in
           if length leaves \<le> 1 then []
           else if m \<le> k then sub_proof sha (take k leaves) m is_root @ [merkle_root sha (drop k leaves)]
           else sub_proof sha (drop k leaves) (m - k) False @ [merkle_root sha (take k leaves)])"
  by pat_completeness auto
termination
  by (relation "measure (\<lambda>(_, leaves, _, _). length leaves)") (auto simp: not_le)

declare sub_proof.simps [simp del]

definition consistency_path :: "(bytes \<Rightarrow> bytes) \<Rightarrow> bytes list \<Rightarrow> int \<Rightarrow> merkle_error + bytes list" where
  "consistency_path sha leaves m =
     (if m < 0 \<or> m > int (length leaves) then Inl SizeNotWithin
      else if m = 0 \<or> m = int (length leaves) then Inr []
      else Inr (sub_proof sha leaves (nat m) True))"

text \<open>
  The verifier works on 32-bit integers: \<open>node & 1\<close> and \<open>node >>= 1\<close> convert their operand first.
  A loop that does not end is the value \<open>None\<close>; the inner \<open>None\<close> of the two climbing loops is the
  code's \<open>return false\<close> on an exhausted proof, and the proof elements not yet used are carried
  instead of the index of the next one.
\<close>

definition low_bit :: "int \<Rightarrow> bool" where
  "low_bit node \<longleftrightarrow> to_int32 node AND 1 = 1"

definition shift_right :: "int \<Rightarrow> int" where
  "shift_right node = drop_bit 1 (to_int32 node)"

partial_function (option) strip_right :: "int \<Rightarrow> int \<Rightarrow> (int \<times> int) option" where
  "strip_right node last_node =
     (if low_bit node then strip_right (shift_right node) (shift_right last_node)
      else Some (node, last_node))"

partial_function (option) climb_both ::
  "(bytes \<Rightarrow> bytes) \<Rightarrow> int \<Rightarrow> int \<Rightarrow> bytes \<Rightarrow> bytes \<Rightarrow> bytes list \<Rightarrow> (int \<times> bytes \<times> bytes \<times> bytes list) option option" where
  "climb_both sha node last_node old_hash new_hash proof_rest =
     (if node = 0 then Some (Some (last_node, old_hash, new_hash, proof_rest))
      else if low_bit node then
        (case proof_rest of [] \<Rightarrow> Some None
         | sibling # rest \<Rightarrow> climb_both sha (shift_right node) (shift_right last_node)
             (hash_node sha sibling old_hash) (hash_node sha sibling new_hash) rest)
      else if node < last_node then
        (case proof_rest of [] \<Rightarrow> Some None
         | sibling # rest \<Rightarrow> climb_both sha (shift_right node) (shift_right last_node)
             old_hash (hash_node sha new_hash sibling) rest)
      else climb_both sha (shift_right node) (shift_right last_node) old_hash new_hash proof_rest)"

partial_function (option) climb_new ::
  "(bytes \<Rightarrow> bytes) \<Rightarrow> int \<Rightarrow> bytes \<Rightarrow> bytes list \<Rightarrow> (bytes \<times> bytes list) option option" where
  "climb_new sha last_node new_hash proof_rest =
     (if last_node = 0 then Some (Some (new_hash, proof_rest))
      else (case proof_rest of [] \<Rightarrow> Some None
         | sibling # rest \<Rightarrow> climb_new sha (shift_right last_node) (hash_node sha new_hash sibling) rest))"

definition climb_all ::
  "(bytes \<Rightarrow> bytes) \<Rightarrow> int \<Rightarrow> int \<Rightarrow> bytes \<Rightarrow> bytes list \<Rightarrow> bytes \<Rightarrow> bytes \<Rightarrow> bool option" where
  "climb_all sha node last_node start proof_rest old_root new_root =
     (case climb_both sha node last_node start start proof_rest of
        None \<Rightarrow> None
      | Some None \<Rightarrow> Some False
      | Some (Some (l, old_hash, new_hash, rest)) \<Rightarrow>
          (case climb_new sha l new_hash rest of
             None \<Rightarrow> None
           | Some None \<Rightarrow> Some False
           | Some (Some (new_hash', rest')) \<Rightarrow>
               Some (rest' = [] \<and> bytes_equal old_hash old_root \<and> bytes_equal new_hash' new_root)))"

definition verify_consistency ::
  "(bytes \<Rightarrow> bytes) \<Rightarrow> int \<Rightarrow> bytes \<Rightarrow> int \<Rightarrow> bytes \<Rightarrow> bytes list \<Rightarrow> bool option" where
  "verify_consistency sha old_size old_root new_size new_root proof_path =
     (if old_size < 0 \<or> new_size < 0 then Some False
      else if old_size > new_size then Some False
      else if old_size = new_size then Some (length proof_path = 0 \<and> bytes_equal old_root new_root)
      else if old_size = 0 then Some (length proof_path = 0)
      else (case strip_right (old_size - 1) (new_size - 1) of
        None \<Rightarrow> None
      | Some (node, last_node) \<Rightarrow>
          if node \<noteq> 0 then
            (case proof_path of [] \<Rightarrow> Some False
             | h # rest \<Rightarrow> climb_all sha node last_node h rest old_root new_root)
          else climb_all sha node last_node old_root proof_path old_root new_root))"

subsection \<open>The loops on natural numbers\<close>

text \<open>
  The same climb on unbounded numbers, as one structural recursion; its last component lists the
  strings hashed for the two roots.
\<close>

type_synonym climb_result = "(bytes \<times> bytes \<times> bytes list \<times> bytes list) option"

definition add_input :: "bytes \<Rightarrow> climb_result \<Rightarrow> climb_result" where
  "add_input x r = map_option (\<lambda>(o', n', rest, xs). (o', n', rest, x # xs)) r"

fun climb_nat :: "(bytes \<Rightarrow> bytes) \<Rightarrow> nat \<Rightarrow> nat \<Rightarrow> bytes \<Rightarrow> bytes \<Rightarrow> bytes list \<Rightarrow> climb_result" where
  "climb_nat sha node last_node old new q =
     (if node \<noteq> 0 then
        (if odd node then
           (case q of [] \<Rightarrow> None
            | s # r \<Rightarrow> add_input (NODE_PREFIX # s @ old) (add_input (NODE_PREFIX # s @ new)
                (climb_nat sha (node div 2) (last_node div 2) (hash_node sha s old) (hash_node sha s new) r)))
         else if node < last_node then
           (case q of [] \<Rightarrow> None
            | s # r \<Rightarrow> add_input (NODE_PREFIX # new @ s)
                (climb_nat sha (node div 2) (last_node div 2) old (hash_node sha new s) r))
         else climb_nat sha (node div 2) (last_node div 2) old new q)
      else if last_node \<noteq> 0 then
        (case q of [] \<Rightarrow> None
         | s # r \<Rightarrow> add_input (NODE_PREFIX # new @ s)
             (climb_nat sha 0 (last_node div 2) old (hash_node sha new s) r))
      else Some (old, new, q, []))"

declare climb_nat.simps [simp del]

function strip_nat :: "nat \<Rightarrow> nat \<Rightarrow> nat \<times> nat" where
  "strip_nat node last_node =
     (if odd node then strip_nat (node div 2) (last_node div 2) else (node, last_node))"
  by auto
termination by (relation "measure fst") (auto elim: oddE)

declare strip_nat.simps [simp del]

definition run_nat :: "(bytes \<Rightarrow> bytes) \<Rightarrow> nat \<Rightarrow> nat \<Rightarrow> bytes \<Rightarrow> bytes list \<Rightarrow> climb_result" where
  "run_nat sha node last_node h q =
     (case strip_nat node last_node of (a, b) \<Rightarrow> climb_nat sha a b h h q)"

lemma low_bit_nat: "n < 2 ^ 31 \<Longrightarrow> low_bit (int n) \<longleftrightarrow> odd n"
proof -
  assume "n < 2 ^ 31"
  then have "to_int32 (int n) = int n" by (intro to_int32_id) simp_all
  then show ?thesis by (simp add: low_bit_def and_one_eq) presburger
qed

lemma shift_right_nat: "n < 2 ^ 31 \<Longrightarrow> shift_right (int n) = int (n div 2)"
proof -
  assume "n < 2 ^ 31"
  then have "to_int32 (int n) = int n" by (intro to_int32_id) simp_all
  then show ?thesis by (simp add: shift_right_def drop_bit_eq_div zdiv_int)
qed

lemma strip_right_nat:
  "node < 2 ^ 31 \<Longrightarrow> last_node < 2 ^ 31 \<Longrightarrow>
   strip_right (int node) (int last_node) = Some (map_prod int int (strip_nat node last_node))"
proof (induction node last_node rule: strip_nat.induct)
  case (1 node last_node)
  show ?case
  proof (cases "odd node")
    case True
    with 1 show ?thesis
      by (subst strip_right.simps, subst strip_nat.simps) (simp add: low_bit_nat shift_right_nat)
  next
    case False
    with 1 show ?thesis
      by (subst strip_right.simps, subst strip_nat.simps) (simp add: low_bit_nat)
  qed
qed

lemma strip_nat_le: "strip_nat a b = (a', b') \<Longrightarrow> a' \<le> a \<and> b' \<le> b"
proof (induction a b rule: strip_nat.induct)
  case (1 a b)
  show ?case
  proof (cases "odd a")
    case True
    with 1 have "a' \<le> a div 2 \<and> b' \<le> b div 2" by (simp add: strip_nat.simps [of a b])
    then show ?thesis using div_le_dividend le_trans by blast
  next
    case False
    with "1.prems" show ?thesis by (simp add: strip_nat.simps [of a b])
  qed
qed

lemma climb_new_nat:
  "l < 2 ^ 31 \<Longrightarrow> climb_new sha (int l) new q =
     Some (map_option (\<lambda>(_, n', r, _). (n', r)) (climb_nat sha 0 l old new q))"
proof (induction l arbitrary: new q rule: less_induct)
  case (less l)
  show ?case
  proof (cases "l = 0")
    case True
    then show ?thesis by (subst climb_new.simps, subst climb_nat.simps) simp
  next
    case False
    then have "l div 2 < l" by simp
    with less False show ?thesis
      by (subst climb_new.simps, subst climb_nat.simps)
         (simp add: shift_right_nat add_input_def option.map_comp comp_def split_def split: list.splits)
  qed
qed

lemma climb_both_nat:
  "node < 2 ^ 31 \<Longrightarrow> l < 2 ^ 31 \<Longrightarrow>
   (case climb_both sha (int node) (int l) old new q of None \<Rightarrow> None | Some None \<Rightarrow> Some None
    | Some (Some (l', o', n', r)) \<Rightarrow>
        map_option (map_option (\<lambda>(n'', r'). (o', n'', r'))) (climb_new sha l' n' r)) =
   Some (map_option (\<lambda>(o', n', r, _). (o', n', r)) (climb_nat sha node l old new q))"
proof (induction node arbitrary: l old new q rule: less_induct)
  case (less node)
  show ?case
  proof (cases "node = 0")
    case True
    have "climb_nat sha 0 l old new q = Some (o', r) \<Longrightarrow> o' = old" for o' r
    proof (induction l arbitrary: new q r rule: less_induct)
      case (less l)
      show ?case
      proof (cases "l = 0")
        case True
        with less.prems show ?thesis by (simp add: climb_nat.simps [of sha 0 0])
      next
        case False
        then have "l div 2 < l" by simp
        with less False show ?thesis
          by (cases q) (auto simp: climb_nat.simps [of sha 0 l] add_input_def)
      qed
    qed
    then show ?thesis using True climb_new_nat [OF less.prems(2), of sha new q old]
      by (subst climb_both.simps) (cases "climb_nat sha 0 l old new q"; force)
  next
    case False
    then have "node div 2 < node" "node div 2 < 2 ^ 31" "l div 2 < 2 ^ 31" using less.prems by auto
    note IH = less.IH [OF this]
    show ?thesis using False less.prems
      by (subst climb_both.simps, subst climb_nat.simps, cases q)
         (simp_all add: low_bit_nat shift_right_nat IH add_input_def option.map_comp comp_def split_def)
  qed
qed

subsection \<open>One level of the tree\<close>

text \<open>
  What the run for a tree adds to the run for the half that holds the old size: one new-side
  sibling when that is the left half, one shared left sibling when it is the right one.
\<close>

definition append_new :: "(bytes \<Rightarrow> bytes) \<Rightarrow> climb_result \<Rightarrow> climb_result" where
  "append_new sha r = (case r of None \<Rightarrow> None
     | Some (o', n', q, xs) \<Rightarrow> (case q of [] \<Rightarrow> None
         | x # q' \<Rightarrow> Some (o', hash_node sha n' x, q', xs @ [NODE_PREFIX # n' @ x])))"

definition append_both :: "(bytes \<Rightarrow> bytes) \<Rightarrow> climb_result \<Rightarrow> climb_result" where
  "append_both sha r = (case r of None \<Rightarrow> None
     | Some (o', n', q, xs) \<Rightarrow> (case q of [] \<Rightarrow> None
         | x # q' \<Rightarrow> Some (hash_node sha x o', hash_node sha x n', q', xs @ [NODE_PREFIX # x @ o', NODE_PREFIX # x @ n'])))"

lemma append_add_input [simp]:
  "append_new sha (add_input x r) = add_input x (append_new sha r)"
  "append_both sha (add_input x r) = add_input x (append_both sha r)"
  by (auto simp: append_new_def append_both_def add_input_def split: option.splits list.splits)

lemma append_None [simp]: "append_new sha None = None" "append_both sha None = None"
  by (simp_all add: append_new_def append_both_def)

lemma climb_nat_done [simp]: "climb_nat sha 0 0 old new q = Some (old, new, q, [])"
  by (subst climb_nat.simps) simp

lemma climb_left:
  assumes "node < 2 ^ j" and "2 ^ j \<le> l" and "l < 2 ^ Suc j"
  shows "climb_nat sha node l old new q = append_new sha (climb_nat sha node (2 ^ j - 1) old new q)"
  using assms
proof (induction j arbitrary: node l old new q)
  case 0
  then have "node = 0" "l = 1" by auto
  then show ?case by (subst climb_nat.simps) (auto simp: append_new_def add_input_def split: list.splits)
next
  case (Suc j)
  have d: "node div 2 < 2 ^ j" "2 ^ j \<le> l div 2" "l div 2 < 2 ^ Suc j" using Suc.prems by auto
  have h: "(2 ^ Suc j - 1) div 2 = (2 ^ j - 1 :: nat)" by simp
  note IH = Suc.IH [OF d]
  have IH0: "climb_nat sha 0 (l div 2) old new q = append_new sha (climb_nat sha 0 (2 ^ j - 1) old new q)"
    for old new q by (rule Suc.IH) (use d in auto)
  show ?case
  proof (cases "node = 0")
    case True
    have "(2 :: nat) * 1 \<le> 2 * 2 ^ j" by (rule mult_le_mono2) simp
    then have nz: "(2 :: nat) ^ Suc j - 1 \<noteq> 0" unfolding power_Suc by linarith
    have "0 < (2 :: nat) ^ Suc j" by simp
    with Suc.prems(2) have "l \<noteq> 0" by linarith
    with nz True IH0 show ?thesis
      by (subst (1 2) climb_nat.simps) (simp only: h, simp split: list.splits)
  next
    case False
    have "node < l" using Suc.prems(1,2) by linarith
    moreover have "node < 2 ^ Suc j - 1" if "even node"
    proof -
      have "odd (2 ^ Suc j - 1 :: nat)" by simp
      with that have "node \<noteq> 2 ^ Suc j - 1" by metis
      with Suc.prems(1) show ?thesis by linarith
    qed
    ultimately have "node < l" "even node \<Longrightarrow> node < 2 ^ Suc j - 1" by blast+
    with False IH show ?thesis
      by (subst (1 2) climb_nat.simps) (simp only: h, simp split: list.splits)
  qed
qed

lemma climb_right:
  assumes "node \<le> l" and "l < 2 ^ j"
  shows "climb_nat sha (node + 2 ^ j) (l + 2 ^ j) old new q = append_both sha (climb_nat sha node l old new q)"
  using assms
proof (induction j arbitrary: node l old new q)
  case 0
  then have "node = 0" "l = 0" by auto
  then show ?case
    by (subst climb_nat.simps) (auto simp: append_both_def add_input_def split: list.splits)
next
  case (Suc j)
  have d: "node div 2 \<le> l div 2" "l div 2 < 2 ^ j" using Suc.prems by (auto simp: div_le_mono)
  have h: "(node + 2 ^ Suc j) div 2 = node div 2 + 2 ^ j" "(l + 2 ^ Suc j) div 2 = l div 2 + 2 ^ j"
    "odd (node + 2 ^ Suc j) \<longleftrightarrow> odd node" "node + 2 ^ Suc j \<noteq> 0"
    "node + 2 ^ Suc j < l + 2 ^ Suc j \<longleftrightarrow> node < l" by simp_all
  note IH = Suc.IH [OF d]
  have IH0: "climb_nat sha (2 ^ j) (l div 2 + 2 ^ j) old new q = append_both sha (climb_nat sha 0 (l div 2) old new q)"
    for old new q using Suc.IH [of 0 "l div 2"] d by simp
  show ?case
  proof (cases "node = 0")
    case True
    then show ?thesis
    proof (cases "l = 0")
      case False
      with True show ?thesis
        by (subst climb_nat.simps, simp only: h, subst (2) climb_nat.simps) (simp add: IH0 split: list.splits)
    next
      case l: True
      with True show ?thesis
        by (subst climb_nat.simps, simp only: h) (use IH0 l in simp)
    qed
  next
    case False
    then show ?thesis
      by (subst climb_nat.simps, simp only: h, subst (4) climb_nat.simps) (simp add: IH split: list.splits)
  qed
qed

lemma run_left:
  assumes "node < 2 ^ j" and "2 ^ j \<le> l" and "l < 2 ^ Suc j"
  shows "run_nat sha node l h q = append_new sha (run_nat sha node (2 ^ j - 1) h q)"
  using assms
proof (induction j arbitrary: node l)
  case 0
  then have "node = 0" "l = 1" by auto
  then show ?case using climb_left [of 0 0 1] by (simp add: run_nat_def strip_nat.simps [of 0])
next
  case (Suc j)
  show ?case
  proof (cases "odd node")
    case True
    have d: "node div 2 < 2 ^ j" "2 ^ j \<le> l div 2" "l div 2 < 2 ^ Suc j" using Suc.prems by auto
    have h: "(2 ^ Suc j - 1) div 2 = (2 ^ j - 1 :: nat)" by simp
    from Suc.IH [OF d] True show ?thesis
      by (simp only: run_nat_def strip_nat.simps [of node] h if_True not_False_eq_True)
  next
    case False
    with climb_left [OF Suc.prems] show ?thesis
      by (simp add: run_nat_def strip_nat.simps [of node])
  qed
qed

lemma run_right:
  assumes "node < l" and "l < 2 ^ j"
  shows "run_nat sha (node + 2 ^ j) (l + 2 ^ j) h q = append_both sha (run_nat sha node l h q)"
  using assms
proof (induction j arbitrary: node l)
  case 0
  then show ?case by simp
next
  case (Suc j)
  have h: "(node + 2 ^ Suc j) div 2 = node div 2 + 2 ^ j" "(l + 2 ^ Suc j) div 2 = l div 2 + 2 ^ j"
    "odd (node + 2 ^ Suc j) \<longleftrightarrow> odd node" by simp_all
  show ?case
  proof (cases "odd node")
    case True
    then have d: "node div 2 < l div 2" "l div 2 < 2 ^ j" using Suc.prems by (auto elim!: oddE)
    from Suc.IH [OF d] True show ?thesis
      by (simp only: run_nat_def strip_nat.simps [of node] strip_nat.simps [of "node + _"] h if_True not_False_eq_True)
  next
    case False
    with climb_right [of node l "Suc j"] Suc.prems show ?thesis
      by (simp only: run_nat_def strip_nat.simps [of node] strip_nat.simps [of "node + _"] h) simp
  qed
qed

lemma run_full: "run_nat sha (2 ^ j - 1) (2 ^ j - 1) h q = Some (h, h, q, [])"
proof (induction j)
  case 0
  then show ?case by (simp add: run_nat_def strip_nat.simps [of 0])
next
  case (Suc j)
  have "(2 ^ Suc j - 1) div 2 = (2 ^ j - 1 :: nat)" "odd (2 ^ Suc j - 1 :: nat)" by simp_all
  with Suc show ?case by (simp only: run_nat_def strip_nat.simps [of "2 ^ Suc j - 1"] if_True not_False_eq_True)
qed

lemma climb_append:
  "climb_nat sha node l old new q = Some (o', n', r, xs) \<Longrightarrow>
   climb_nat sha node l old new (q @ p) = Some (o', n', r @ p, xs)"
proof (induction sha node l old new q arbitrary: xs rule: climb_nat.induct)
  case (1 sha node l old new q)
  note unf = climb_nat.simps [of sha node l old new] climb_nat.simps [of sha 0 l old new]
  show ?case
  proof (cases "node = 0")
    case True
    with 1 show ?thesis
      by (cases "l = 0"; cases q) (auto simp: unf add_input_def)
  next
    case False
    with 1 show ?thesis
      by (cases "odd node"; cases "node < l"; cases q) (auto simp: unf add_input_def)
  qed
qed

lemma run_append:
  "run_nat sha node l h q = Some (o', n', r, xs) \<Longrightarrow> run_nat sha node l h (q @ p) = Some (o', n', r @ p, xs)"
  by (auto simp: run_nat_def climb_append split: prod.splits)

subsection \<open>Completeness\<close>

lemma strip_zero_power: "fst (strip_nat a b) = 0 \<Longrightarrow> \<exists>j. a + 1 = 2 ^ j"
proof (induction a b rule: strip_nat.induct)
  case (1 a b)
  show ?case
  proof (cases "odd a")
    case True
    with 1 obtain j where "a div 2 + 1 = 2 ^ j" by (auto simp: strip_nat.simps [of a])
    moreover have "a + 1 = 2 * (a div 2 + 1)" using True by presburger
    ultimately have "a + 1 = 2 ^ Suc j" by (simp only: power_Suc)
    then show ?thesis ..
  next
    case False
    with 1 have "a + 1 = 2 ^ 0" by (simp add: strip_nat.simps [of a])
    then show ?thesis ..
  qed
qed

lemma strip_full: "fst (strip_nat (2 ^ j - 1) b) = 0"
proof (induction j arbitrary: b)
  case (Suc j)
  have "(2 ^ Suc j - 1) div 2 = (2 ^ j - 1 :: nat)" "odd (2 ^ Suc j - 1 :: nat)" by simp_all
  with Suc show ?case by (simp only: strip_nat.simps [of "2 ^ Suc j - 1"] if_True not_False_eq_True)
qed (simp add: strip_nat.simps [of 0])

text \<open>
  The recursion of the proof builder against the climb of the verifier. The frontier hash is the
  first element of the proof, unless the old tree is a perfect subtree and its root is in hand.
\<close>

lemma split_point_take:
  assumes "1 < n" and "k = split_point n" and "k < m" and "m \<le> n"
  shows "split_point m = k"
proof -
  have b: "0 < k" "k < n" "n \<le> 2 * k"
    using split_point_bounds [OF assms(1)] assms(2) by simp_all
  obtain e where e: "k = 2 ^ e" using split_point_power [OF assms(1)] assms(2) by metis
  have m: "1 < m" using b assms(3) by linarith
  obtain e' where e': "split_point m = 2 ^ e'" using split_point_power [OF m] by blast
  have "2 ^ e' < (2 :: nat) ^ Suc e" using split_point_bounds(2) [OF m] assms(4) b(3) e e' by simp
  then have "e' \<le> e" using power_less_imp_less_exp [of "2 :: nat" e' "Suc e"] by simp
  have "(2 :: nat) ^ e < 2 ^ Suc e'" using split_point_bounds(3) [OF m] assms(3) e e' by simp
  then have "e \<le> e'" using power_less_imp_less_exp [of "2 :: nat" e "Suc e'"] by simp
  with \<open>e' \<le> e\<close> e e' show ?thesis by simp
qed

lemma split_at:
  assumes "1 < length leaves" and "k = split_point (length leaves)" and "k < m" and "m \<le> length leaves"
  shows "merkle_root sha (take m leaves) = hash_node sha (merkle_root sha (take k leaves))
           (merkle_root sha (take (m - k) (drop k leaves)))"
proof -
  have "0 < k" using split_point_bounds [OF assms(1)] assms(2) by simp
  with assms(3) have m: "1 < m" by linarith
  have "split_point (length (take m leaves)) = k"
    using split_point_take [OF assms(1-4)] assms(4) by (simp add: min_def)
  moreover have "1 < length (take m leaves)" using m assms(4) by simp
  ultimately show ?thesis using merkle_root_split [of "take m leaves" sha] assms(3)
    by (simp only:) (simp add: min_def drop_take)
qed

lemma sub_proof_step:
  assumes "1 < length leaves" and "k = split_point (length leaves)" and "m \<noteq> length leaves"
  shows "sub_proof sha leaves m r =
    (if m \<le> k then sub_proof sha (take k leaves) m r @ [merkle_root sha (drop k leaves)]
     else sub_proof sha (drop k leaves) (m - k) False @ [merkle_root sha (take k leaves)])"
  using assms by (subst sub_proof.simps) (simp add: Let_def)

lemma sub_proof_run:
  assumes "0 < length leaves" and "0 < m" and "m \<le> length leaves"
    and "m = length leaves \<Longrightarrow> \<exists>j. m = 2 ^ j"
  shows "\<exists>h p xs. sub_proof sha leaves m False = h # p \<and>
     run_nat sha (m - 1) (length leaves - 1) h p = Some (merkle_root sha (take m leaves), merkle_root sha leaves, [], xs)"
  using assms
proof (induction leaves arbitrary: m rule: tree_induct)
  case (leaf l)
  then have "m = 1" by simp
  then show ?case using run_full [of sha 0 l "[]"] by (simp add: sub_proof.simps)
next
  case (node leaves k)
  let ?n = "length leaves"
  show ?case
  proof (cases "m = ?n")
    case True
    with node.prems(3) obtain j where "?n = 2 ^ j" by metis
    with True run_full [of sha j "merkle_root sha leaves" "[]"] show ?thesis
      by (subst sub_proof.simps) simp
  next
    case False
    note sp = sub_proof_step [OF node(1,2) False, of sha False]
    note root = merkle_root_split [OF node(1), of sha, folded node(2)]
    obtain e where e: "k = 2 ^ e" using split_point_power [OF node(1)] node(2) by metis
    have n2: "?n \<le> 2 * k" using split_point_bounds [OF node(1)] node(2) by simp
    show ?thesis
    proof (cases "m \<le> k")
      case True
      with node.IH(1) [of m] node(4) node.prems(1) e obtain h p xs where
        "sub_proof sha (take k leaves) m False = h # p" and
        "run_nat sha (m - 1) (k - 1) h p =
          Some (merkle_root sha (take m (take k leaves)), merkle_root sha (take k leaves), [], xs)"
        by (auto simp: min_def)
      moreover from this(2) have "run_nat sha (m - 1) (2 ^ e - 1) h (p @ [merkle_root sha (drop k leaves)]) =
          Some (merkle_root sha (take m leaves), merkle_root sha (take k leaves), [merkle_root sha (drop k leaves)], xs)"
        using True e by (auto dest: run_append simp: min_def)
      moreover have "run_nat sha (m - 1) (?n - 1) h q = append_new sha (run_nat sha (m - 1) (2 ^ e - 1) h q)" for q
        by (rule run_left) (use True node.prems(1) node(4) n2 e in auto)
      ultimately show ?thesis using sp True root by (simp add: append_new_def)
    next
      case F: False
      have mk: "0 < m - k" "m - k \<le> length (drop k leaves)" "m - k \<noteq> length (drop k leaves)"
        using F node(4) node.prems(2) False by auto
      with node.IH(2) [of "m - k"] obtain h p xs where
        "sub_proof sha (drop k leaves) (m - k) False = h # p" and
        "run_nat sha (m - k - 1) (?n - k - 1) h p =
          Some (merkle_root sha (take (m - k) (drop k leaves)), merkle_root sha (drop k leaves), [], xs)"
        by auto
      moreover from this(2) have "run_nat sha (m - k - 1) (?n - k - 1) h (p @ [merkle_root sha (take k leaves)]) =
          Some (merkle_root sha (take (m - k) (drop k leaves)), merkle_root sha (drop k leaves),
            [merkle_root sha (take k leaves)], xs)"
        by (auto dest: run_append)
      moreover have "run_nat sha (m - 1) (?n - 1) h q = append_both sha (run_nat sha (m - k - 1) (?n - k - 1) h q)" for q
      proof -
        have "m - 1 = (m - k - 1) + 2 ^ e" "?n - 1 = (?n - k - 1) + 2 ^ e" using F False node.prems(2) e by auto
        moreover have "m - k - 1 < ?n - k - 1" "?n - k - 1 < 2 ^ e" using F False node.prems(2) n2 e by auto
        ultimately show ?thesis using run_right by metis
      qed
      ultimately show ?thesis using sp F root split_at [OF node(1,2) _ node.prems(2), of sha]
        by (simp add: append_both_def)
    qed
  qed
qed

lemma sub_proof_root:
  assumes "0 < length leaves" and "0 < m" and "m \<le> length leaves"
    and "m = length leaves \<Longrightarrow> \<exists>j. m = 2 ^ j"
  shows "if \<exists>j. m = 2 ^ j
     then \<exists>xs. run_nat sha (m - 1) (length leaves - 1) (merkle_root sha (take m leaves)) (sub_proof sha leaves m True)
            = Some (merkle_root sha (take m leaves), merkle_root sha leaves, [], xs)
     else sub_proof sha leaves m True = sub_proof sha leaves m False"
  using assms
proof (induction leaves arbitrary: m rule: tree_induct)
  case (leaf l)
  then have "m = 2 ^ 0" by simp
  moreover from this have "\<exists>j. m = 2 ^ j" by blast
  ultimately show ?case using run_full [of sha 0 l "[]"] by (simp add: sub_proof.simps)
next
  case (node leaves k)
  let ?n = "length leaves"
  show ?case
  proof (cases "m = ?n")
    case True
    with node.prems(3) obtain j where j: "?n = 2 ^ j" by metis
    then have "\<exists>j. m = 2 ^ j" using True by blast
    with j True run_full [of sha j "merkle_root sha leaves" "[]"] show ?thesis
      by (subst sub_proof.simps) simp
  next
    case False
    note sp = sub_proof_step [OF node(1,2) False, of sha]
    note root = merkle_root_split [OF node(1), of sha, folded node(2)]
    obtain e where e: "k = 2 ^ e" using split_point_power [OF node(1)] node(2) by metis
    have n2: "?n \<le> 2 * k" using split_point_bounds [OF node(1)] node(2) by simp
    show ?thesis
    proof (cases "m \<le> k")
      case True
      have IH: "if \<exists>j. m = 2 ^ j
         then \<exists>xs. run_nat sha (m - 1) (k - 1) (merkle_root sha (take m leaves)) (sub_proof sha (take k leaves) m True)
            = Some (merkle_root sha (take m leaves), merkle_root sha (take k leaves), [], xs)
         else sub_proof sha (take k leaves) m True = sub_proof sha (take k leaves) m False"
        using node.IH(1) [of m] node(4) node.prems(1) True e by (auto simp: min_def)
      show ?thesis
      proof (cases "\<exists>j. m = 2 ^ j")
        case P: True
        with IH obtain xs where
          "run_nat sha (m - 1) (k - 1) (merkle_root sha (take m leaves)) (sub_proof sha (take k leaves) m True)
            = Some (merkle_root sha (take m leaves), merkle_root sha (take k leaves), [], xs)" by auto
        then have "run_nat sha (m - 1) (2 ^ e - 1) (merkle_root sha (take m leaves)) (sub_proof sha leaves m True)
            = Some (merkle_root sha (take m leaves), merkle_root sha (take k leaves), [merkle_root sha (drop k leaves)], xs)"
          using True e sp by (auto dest: run_append)
        moreover have "run_nat sha (m - 1) (?n - 1) h q = append_new sha (run_nat sha (m - 1) (2 ^ e - 1) h q)" for h q
          by (rule run_left) (use True node.prems(1) node(4) n2 e in auto)
        ultimately show ?thesis using P root by (simp add: append_new_def)
      next
        case P: False
        with IH True sp show ?thesis by simp
      qed
    next
      case F: False
      have "\<not> (\<exists>j. m = 2 ^ j)"
      proof
        assume "\<exists>j. m = 2 ^ j"
        then obtain j where j: "m = 2 ^ j" ..
        with F e have "e < j" using power_less_imp_less_exp [of "2 :: nat" e j] by simp
        then have "(2 :: nat) ^ Suc e \<le> 2 ^ j" by (intro power_increasing) auto
        with j e n2 node.prems(2) False show False by simp
      qed
      with F sp show ?thesis by simp
    qed
  qed
qed

subsection \<open>The verifier on trees\<close>

definition run_result :: "bytes \<Rightarrow> bytes \<Rightarrow> climb_result \<Rightarrow> bool" where
  "run_result old_root new_root r = (case r of None \<Rightarrow> False
     | Some (o', n', rest, _) \<Rightarrow> rest = [] \<and> o' = old_root \<and> n' = new_root)"

lemma run_result_None [simp]: "\<not> run_result old_root new_root None"
  by (simp add: run_result_def)

lemma climb_all_nat:
  assumes "a < 2 ^ 31" and "b < 2 ^ 31"
  shows "climb_all sha (int a) (int b) h q old_root new_root = Some (run_result old_root new_root (climb_nat sha a b h h q))"
  using climb_both_nat [OF assms, of sha h h q]
  by (cases "climb_nat sha a b h h q")
     (auto simp: climb_all_def run_result_def split: option.splits prod.splits)

definition consistency_run ::
  "(bytes \<Rightarrow> bytes) \<Rightarrow> nat \<Rightarrow> bytes \<Rightarrow> nat \<Rightarrow> bytes list \<Rightarrow> climb_result" where
  "consistency_run sha m old_root n q =
     (if fst (strip_nat (m - 1) (n - 1)) \<noteq> 0
      then (case q of [] \<Rightarrow> None | h # r \<Rightarrow> run_nat sha (m - 1) (n - 1) h r)
      else run_nat sha (m - 1) (n - 1) old_root q)"

lemma verify_consistency_nat:
  assumes "0 < m" and "m < n" and "n \<le> 2 ^ 31"
  shows "verify_consistency sha (int m) old_root (int n) new_root q =
    Some (run_result old_root new_root (consistency_run sha m old_root n q))"
proof -
  obtain a b where ab: "strip_nat (m - 1) (n - 1) = (a, b)" by force
  from strip_nat_le [OF ab] assms have lt: "a < 2 ^ 31" "b < 2 ^ 31" by auto
  have "strip_right (int m - 1) (int n - 1) = Some (int a, int b)"
    using strip_right_nat [of "m - 1" "n - 1"] assms ab by (simp add: of_nat_diff)
  moreover have "\<not> (int m < 0 \<or> int n < 0)" "\<not> int m > int n" "int m \<noteq> int n" "int m \<noteq> 0"
    using assms by simp_all
  ultimately have v: "verify_consistency sha (int m) old_root (int n) new_root q =
      (if int a \<noteq> 0 then (case q of [] \<Rightarrow> Some False
             | h # rest \<Rightarrow> climb_all sha (int a) (int b) h rest old_root new_root)
          else climb_all sha (int a) (int b) old_root q old_root new_root)"
    unfolding verify_consistency_def by (simp only: if_False option.case prod.case)
  show ?thesis
    unfolding v consistency_run_def run_nat_def ab climb_all_nat [OF lt] by (cases q) simp_all
qed

lemma verify_consistency_complete:
  assumes "0 < m" and "m \<le> length leaves" and "length leaves \<le> 2 ^ 31"
  shows "\<exists>p. consistency_path sha leaves (int m) = Inr p \<and>
    verify_consistency sha (int m) (merkle_root sha (take m leaves)) (int (length leaves)) (merkle_root sha leaves) p
      = Some True"
proof (cases "m = length leaves")
  case True
  then show ?thesis using assms by (auto simp: consistency_path_def verify_consistency_def)
next
  case False
  with assms have m: "m < length leaves" "0 < length leaves" by auto
  let ?p = "sub_proof sha leaves m True" and ?o = "merkle_root sha (take m leaves)"
  have p: "consistency_path sha leaves (int m) = Inr ?p" using assms m by (simp add: consistency_path_def)
  have no: "m = length leaves \<Longrightarrow> \<exists>j. m = 2 ^ j" using False by simp
  note rt = sub_proof_root [OF m(2) assms(1,2) no, of sha]
  have "run_result ?o (merkle_root sha leaves) (consistency_run sha m ?o (length leaves) ?p)"
  proof (cases "\<exists>j. m = 2 ^ j")
    case True
    then obtain j where "m = 2 ^ j" ..
    then have "fst (strip_nat (m - 1) (length leaves - 1)) = 0" using strip_full by simp
    with rt True show ?thesis by (auto simp: consistency_run_def run_result_def)
  next
    case F: False
    have "fst (strip_nat (m - 1) (length leaves - 1)) \<noteq> 0"
      using F strip_zero_power [of "m - 1" "length leaves - 1"] assms(1) by auto
    moreover obtain h q xs where "sub_proof sha leaves m False = h # q"
      "run_nat sha (m - 1) (length leaves - 1) h q = Some (?o, merkle_root sha leaves, [], xs)"
      using sub_proof_run [OF m(2) assms(1,2) no, of sha] by blast
    ultimately show ?thesis using F rt by (simp add: consistency_run_def run_result_def)
  qed
  with p verify_consistency_nat [OF assms(1) m(1) assms(3)] show ?thesis by simp
qed

subsection \<open>Soundness\<close>

lemma add_input_Some:
  "add_input x r = Some (o', n', q, xs) \<longleftrightarrow> (\<exists>ys. r = Some (o', n', q, ys) \<and> xs = x # ys)"
  by (auto simp: add_input_def)

lemma append_new_Some:
  "append_new sha res = Some (o', n', r, xs) \<Longrightarrow> \<exists>n1 x ys. res = Some (o', n1, x # r, ys) \<and>
     n' = hash_node sha n1 x \<and> xs = ys @ [NODE_PREFIX # n1 @ x]"
  by (auto simp: append_new_def split: option.splits list.splits)

lemma append_both_Some:
  "append_both sha res = Some (o', n', r, xs) \<Longrightarrow> \<exists>o1 n1 x ys. res = Some (o1, n1, x # r, ys) \<and>
     o' = hash_node sha x o1 \<and> n' = hash_node sha x n1 \<and> xs = ys @ [NODE_PREFIX # x @ o1, NODE_PREFIX # x @ n1]"
  by (auto simp: append_both_def split: option.splits list.splits)

lemma collision_or_eq:
  assumes "hash_node sha a b = merkle_root sha leaves" and "1 < length leaves" and "k = split_point (length leaves)"
    and "NODE_PREFIX # a @ b \<in> set ys"
  shows "a @ b = merkle_root sha (take k leaves) @ merkle_root sha (drop k leaves)
    \<or> collision sha (tree_inputs sha leaves) ys"
proof (cases "a @ b = merkle_root sha (take k leaves) @ merkle_root sha (drop k leaves)")
  case False
  have "sha (NODE_PREFIX # a @ b) = sha (NODE_PREFIX # merkle_root sha (take k leaves) @ merkle_root sha (drop k leaves))"
    using assms(1) merkle_root_split [OF assms(2), of sha] by (simp add: hash_node_def assms(3))
  moreover have "NODE_PREFIX # merkle_root sha (take k leaves) @ merkle_root sha (drop k leaves) \<in> set (tree_inputs sha leaves)"
    using tree_inputs_split [OF assms(2,3), of sha] by simp
  ultimately have "collision sha (tree_inputs sha leaves) ys" unfolding collision_def
    using False assms(4)
    by (intro bexI [of _ "NODE_PREFIX # merkle_root sha (take k leaves) @ merkle_root sha (drop k leaves)"]
        bexI [of _ "NODE_PREFIX # a @ b"]) auto
  then show ?thesis ..
qed simp

text \<open>Once the new side has been hashed, it has the length of a hash, whatever the proof holds.\<close>

lemma run_nat_length:
  assumes "\<And>x. length (sha x) = c" and "run_nat sha a b h q = Some (o', n', r, xs)" and "a < b"
  shows "length n' = c"
proof -
  have hn: "length (hash_node sha u v) = c" for u v using assms(1) by (simp add: hash_node_def)
  obtain j where j: "2 ^ j \<le> b" "b < 2 ^ Suc j" using ex_power_ivl1 [of 2 b] assms(3) by auto
  show ?thesis
  proof (cases "a < 2 ^ j")
    case True
    from assms(2) show ?thesis unfolding run_left [OF True j] by (auto dest!: append_new_Some simp: hn)
  next
    case False
    then have "a - 2 ^ j < b - 2 ^ j" "b - 2 ^ j < 2 ^ j" "a - 2 ^ j + 2 ^ j = a" "b - 2 ^ j + 2 ^ j = b"
      using j assms(3) by auto
    with run_right [of "a - 2 ^ j" "b - 2 ^ j" j sha h q] assms(2)
    have "append_both sha (run_nat sha (a - 2 ^ j) (b - 2 ^ j) h q) = Some (o', n', r, xs)" by simp
    then show ?thesis by (auto dest!: append_both_Some simp: hn)
  qed
qed

lemma run_sound:
  assumes "0 < length leaves" and "0 < m" and "m \<le> length leaves" and "m = length leaves \<Longrightarrow> \<exists>j. m = 2 ^ j"
    and "\<And>x. length (sha x) = c" and "\<forall>l \<in> set leaves. length l = c"
    and "length olds = m" and "\<forall>l \<in> set olds. length l = c"
    and "run_nat sha (m - 1) (length leaves - 1) h q = Some (merkle_root sha olds, merkle_root sha leaves, r, xs)"
  shows "merkle_root sha olds = merkle_root sha (take m leaves)
    \<or> collision sha (tree_inputs sha olds @ tree_inputs sha leaves) xs"
  using assms
proof (induction leaves arbitrary: m olds r xs rule: tree_induct)
  case (leaf l)
  then have "m = 1" by simp
  with leaf run_full [of sha 0 h q] show ?case by simp
next
  case (node leaves k)
  let ?n = "length leaves"
  let ?L = "merkle_root sha (take k leaves)" and ?R = "merkle_root sha (drop k leaves)"
  note root = merkle_root_split [OF node(1), of sha, folded node(2)]
  note shalen = node.prems(4)
  have oldlen: "length (merkle_root sha olds) = c"
    using node.prems(1,6,7) by (intro merkle_root_length [OF _ _ shalen]) auto
  show ?case
  proof (cases "m = ?n")
    case True
    with node.prems(3) obtain j where "?n = 2 ^ j" by metis
    with True node.prems(8) run_full [of sha j h q] show ?thesis by simp
  next
    case False
    obtain e where e: "k = 2 ^ e" using split_point_power [OF node(1)] node(2) by metis
    have n2: "?n \<le> 2 * k" using split_point_bounds [OF node(1)] node(2) by simp
    have lens: "\<forall>l \<in> set (take k leaves). length l = c" "\<forall>l \<in> set (drop k leaves). length l = c"
      using node.prems(5) by (auto dest: in_set_takeD in_set_dropD)
    with node(3,4) have len: "length ?L = c" "length ?R = c"
      by (simp_all add: merkle_root_length [OF _ _ shalen])
    have mono: "set (tree_inputs sha (take k leaves)) \<subseteq> set (tree_inputs sha leaves)"
      "set (tree_inputs sha (drop k leaves)) \<subseteq> set (tree_inputs sha leaves)"
      by (auto simp: tree_inputs_split [OF node(1,2), of sha])
    show ?thesis
    proof (cases "m \<le> k")
      case True
      have "run_nat sha (m - 1) (?n - 1) h q = append_new sha (run_nat sha (m - 1) (2 ^ e - 1) h q)"
        by (rule run_left) (use True node.prems(1) node(4) n2 e in auto)
      with node.prems(8) obtain n1 x ys where
        sub: "run_nat sha (m - 1) (k - 1) h q = Some (merkle_root sha olds, n1, x # r, ys)"
        and n1: "merkle_root sha leaves = hash_node sha n1 x" and xs: "xs = ys @ [NODE_PREFIX # n1 @ x]"
        using append_new_Some e by metis
      have "length n1 = c"
      proof (cases "m = k")
        case True
        with sub e oldlen run_full [of sha e h q] show ?thesis by simp
      next
        case False
        with True node.prems(1) show ?thesis by (intro run_nat_length [OF shalen sub]) simp
      qed
      from collision_or_eq [OF n1 [symmetric] node(1,2), of xs] xs
      consider "n1 = ?L" | "collision sha (tree_inputs sha leaves) xs" using len(1) \<open>length n1 = c\<close> by auto
      then show ?thesis
      proof cases
        case 1
        have "merkle_root sha olds = merkle_root sha (take m (take k leaves))
          \<or> collision sha (tree_inputs sha olds @ tree_inputs sha (take k leaves)) ys"
        proof (rule node.IH(1) [OF node.prems(1) _ _ shalen lens(1) node.prems(6,7)])
          show "run_nat sha (m - 1) (length (take k leaves) - 1) h q = Some (merkle_root sha olds, ?L, x # r, ys)"
            using sub 1 node(4) by (simp add: min_def)
        qed (use True node(4) e in \<open>auto simp: min_def\<close>)
        with True show ?thesis using collision_mono [of sha "tree_inputs sha olds @ tree_inputs sha (take k leaves)" ys
            "tree_inputs sha olds @ tree_inputs sha leaves" xs] mono(1) xs by (auto simp: min_def)
      qed (auto intro: collision_mono)
    next
      case F: False
      have mn: "m - 1 = (m - k - 1) + 2 ^ e" "?n - 1 = (?n - k - 1) + 2 ^ e" using F False node.prems(2) e by auto
      have lt: "m - k - 1 < ?n - k - 1" "?n - k - 1 < 2 ^ e" using F False node.prems(2) n2 e by auto
      from node.prems(8) obtain o1 n1 x ys where sub: "run_nat sha (m - k - 1) (?n - k - 1) h q = Some (o1, n1, x # r, ys)"
        and o1: "merkle_root sha olds = hash_node sha x o1" and n1: "merkle_root sha leaves = hash_node sha x n1"
        and xs: "xs = ys @ [NODE_PREFIX # x @ o1, NODE_PREFIX # x @ n1]"
        using append_both_Some run_right [OF lt, of sha h q] by (simp only: mn) blast
      have "length n1 = c" by (rule run_nat_length [OF shalen sub lt(1)])
      from collision_or_eq [OF n1 [symmetric] node(1,2), of xs] xs
      consider "x = ?L" "n1 = ?R" | "collision sha (tree_inputs sha leaves) xs" using len(2) \<open>length n1 = c\<close> by auto
      then show ?thesis
      proof cases
        case 1
        have olds: "1 < length olds" "k = split_point (length olds)" "k < length olds"
          using split_point_take [OF node(1,2) _ node.prems(2)] F node.prems(6) node(3,4) by auto
        have olens: "\<forall>l \<in> set (take k olds). length l = c" "\<forall>l \<in> set (drop k olds). length l = c"
          using node.prems(7) by (auto dest: in_set_takeD in_set_dropD)
        have "0 < k" using e by simp
        with olds olens(1) have ol: "length (merkle_root sha (take k olds)) = c"
          by (intro merkle_root_length [OF _ _ shalen]) auto
        have omono: "set (tree_inputs sha (drop k olds)) \<subseteq> set (tree_inputs sha olds)"
          by (auto simp: tree_inputs_split [OF olds(1,2), of sha])
        from collision_or_eq [OF o1 [symmetric] olds(1,2), of xs] xs 1(1) ol len(1)
        consider "o1 = merkle_root sha (drop k olds)" "?L = merkle_root sha (take k olds)"
          | "collision sha (tree_inputs sha olds) xs" by auto
        then show ?thesis
        proof cases
          case o: 1
          have "merkle_root sha (drop k olds) = merkle_root sha (take (m - k) (drop k leaves))
            \<or> collision sha (tree_inputs sha (drop k olds) @ tree_inputs sha (drop k leaves)) ys"
          proof (rule node.IH(2) [OF _ _ _ shalen lens(2) _ olens(2)])
            show "run_nat sha (m - k - 1) (length (drop k leaves) - 1) h q
                = Some (merkle_root sha (drop k olds), ?R, x # r, ys)"
              using sub 1 o by simp
          qed (use F False node(4) node.prems(2,6) in auto)
          then show ?thesis
          proof
            assume "merkle_root sha (drop k olds) = merkle_root sha (take (m - k) (drop k leaves))"
            with F 1 o o1 split_at [OF node(1,2) _ node.prems(2), of sha] show ?thesis by simp
          next
            assume "collision sha (tree_inputs sha (drop k olds) @ tree_inputs sha (drop k leaves)) ys"
            then have "collision sha (tree_inputs sha olds @ tree_inputs sha leaves) xs"
              by (rule collision_mono) (use omono mono(2) xs in auto)
            then show ?thesis ..
          qed
        qed (auto intro: collision_mono)
      qed (auto intro: collision_mono)
    qed
  qed
qed

text \<open>Two lists of as many hashes with the same root are the same list, or the two trees collide.\<close>

lemma merkle_root_agree:
  assumes "0 < length xs" and "length ys = length xs" and "merkle_root sha xs = merkle_root sha ys"
    and "\<And>x. length (sha x) = c" and "\<forall>l \<in> set xs \<union> set ys. length l = c"
  shows "xs = ys \<or> collision sha (tree_inputs sha xs) (tree_inputs sha ys)"
  using assms
proof (induction xs arbitrary: ys rule: tree_induct)
  case (leaf l)
  then show ?case by (cases ys) auto
next
  case (node xs k)
  let ?l = "take k" and ?r = "drop k"
  have ys: "1 < length ys" "k = split_point (length ys)" using node by simp_all
  have "NODE_PREFIX # merkle_root sha (?l ys) @ merkle_root sha (?r ys) \<in> set (tree_inputs sha ys)"
    using tree_inputs_split [OF ys, of sha] by simp
  moreover have "hash_node sha (merkle_root sha (?l ys)) (merkle_root sha (?r ys)) = merkle_root sha xs"
    using merkle_root_split [OF ys(1), of sha] node.prems ys(2) by simp
  ultimately have "merkle_root sha (?l ys) @ merkle_root sha (?r ys) = merkle_root sha (?l xs) @ merkle_root sha (?r xs)
      \<or> collision sha (tree_inputs sha xs) (tree_inputs sha ys)"
    using collision_or_eq [OF _ node(1,2)] by blast
  moreover have "length (merkle_root sha (?l ys)) = c" "length (merkle_root sha (?l xs)) = c"
    using node.prems node(3,4) ys split_point_bounds [OF ys(1)] by (auto intro!: merkle_root_length dest: in_set_takeD)
  ultimately consider "merkle_root sha (?l xs) = merkle_root sha (?l ys)" "merkle_root sha (?r xs) = merkle_root sha (?r ys)"
    | "collision sha (tree_inputs sha xs) (tree_inputs sha ys)" by auto
  then show ?case
  proof cases
    case 1
    have "?l xs = ?l ys \<or> collision sha (tree_inputs sha (?l xs)) (tree_inputs sha (?l ys))"
      by (rule node.IH(1)) (use 1 node.prems in \<open>auto dest: in_set_takeD\<close>)
    moreover have "?r xs = ?r ys \<or> collision sha (tree_inputs sha (?r xs)) (tree_inputs sha (?r ys))"
      by (rule node.IH(2)) (use 1 node.prems in \<open>auto dest: in_set_dropD\<close>)
    moreover have "xs = ?l xs @ ?r xs" "ys = ?l ys @ ?r ys" by simp_all
    moreover have "set (tree_inputs sha (?l xs)) \<subseteq> set (tree_inputs sha xs)" "set (tree_inputs sha (?r xs)) \<subseteq> set (tree_inputs sha xs)"
      "set (tree_inputs sha (?l ys)) \<subseteq> set (tree_inputs sha ys)" "set (tree_inputs sha (?r ys)) \<subseteq> set (tree_inputs sha ys)"
      using tree_inputs_split [OF node(1,2), of sha] tree_inputs_split [OF ys, of sha] by auto
    ultimately show ?thesis using collision_mono by metis
  qed simp
qed

text \<open>The strings the verifier hashes on its way to the two roots.\<close>

definition consistency_inputs :: "(bytes \<Rightarrow> bytes) \<Rightarrow> nat \<Rightarrow> bytes \<Rightarrow> nat \<Rightarrow> bytes list \<Rightarrow> bytes list" where
  "consistency_inputs sha m old_root n q =
     (if m = n then [] else (case consistency_run sha m old_root n q of None \<Rightarrow> [] | Some (_, _, _, xs) \<Rightarrow> xs))"

lemma verify_consistency_sound:
  assumes "verify_consistency sha (int (length olds)) (merkle_root sha olds) (int (length leaves)) (merkle_root sha leaves) q
      = Some True"
    and "olds \<noteq> []" and "length leaves \<le> 2 ^ 31"
    and "\<And>x. length (sha x) = c" and "\<forall>l \<in> set olds \<union> set leaves. length l = c"
  shows "length olds \<le> length leaves \<and> (merkle_root sha olds = merkle_root sha (take (length olds) leaves)
    \<or> collision sha (tree_inputs sha olds @ tree_inputs sha leaves)
        (consistency_inputs sha (length olds) (merkle_root sha olds) (length leaves) q))"
proof -
  let ?m = "length olds" and ?old = "merkle_root sha olds"
  have m: "?m \<le> length leaves" using assms(1) by (auto simp: verify_consistency_def split: if_splits)
  have pos: "0 < ?m" using assms(2) by simp
  show ?thesis
  proof (cases "?m = length leaves")
    case True
    with assms(1,2) show ?thesis by (simp add: verify_consistency_def)
  next
    case False
    with m pos have lt: "?m < length leaves" "0 < length leaves" by linarith+
    let ?run = "consistency_run sha ?m ?old (length leaves) q"
    from assms(1) verify_consistency_nat [OF pos lt(1) assms(3)]
    obtain xs where run: "?run = Some (?old, merkle_root sha leaves, [], xs)"
      by (auto simp: run_result_def split: option.splits)
    have no: "?m = length leaves \<Longrightarrow> \<exists>j. ?m = 2 ^ j" using False by simp
    from run obtain h r where h: "run_nat sha (?m - 1) (length leaves - 1) h r = Some (?old, merkle_root sha leaves, [], xs)"
      by (auto simp: consistency_run_def split: if_splits list.splits)
    have "?old = merkle_root sha (take ?m leaves) \<or> collision sha (tree_inputs sha olds @ tree_inputs sha leaves) xs"
      by (rule run_sound [OF lt(2) pos m no assms(4) _ refl _ h]) (use assms(5) in auto)
    with m run False show ?thesis by (simp add: consistency_inputs_def)
  qed
qed

subsection \<open>Termination\<close>

lemma verify_consistency_returns:
  assumes "old_size \<le> 2 ^ 31" and "new_size \<le> 2 ^ 31"
  shows "\<exists>b. verify_consistency sha old_size old_root new_size new_root q = Some b"
proof (cases "0 < old_size \<and> old_size < new_size")
  case True
  then have "verify_consistency sha (int (nat old_size)) old_root (int (nat new_size)) new_root q \<noteq> None"
    using assms by (subst verify_consistency_nat) (auto simp: nat_le_iff)
  with True show ?thesis by simp
next
  case False
  then show ?thesis by (auto simp: verify_consistency_def)
qed

text \<open>
  A size of \<open>2 ^ 32\<close> makes the first loop spin: the node is -1 in 32 bits and shifting keeps it.
\<close>

lemma strip_right_minus_one:
  assumes "strip_right node last_node = Some r"
  shows "node \<noteq> - 1"
proof (rule strip_right.raw_induct [of "\<lambda>n _ _. n \<noteq> - 1", OF _ assms])
  fix strip :: "int \<Rightarrow> int \<Rightarrow> (int \<times> int) option" and n l y
  assume IH: "\<And>n l y. strip n l = Some y \<Longrightarrow> n \<noteq> - 1"
    and body: "(if low_bit n then strip (shift_right n) (shift_right l) else Some (n, l)) = Some y"
  show "n \<noteq> - 1"
  proof
    assume n: "n = - 1"
    have "low_bit (- 1)" "shift_right (- 1) = - 1" by (simp_all add: low_bit_def shift_right_def)
    with body n have "strip (- 1) (shift_right l) = Some y" by simp
    from IH [OF this] show False by simp
  qed
qed

lemma verify_consistency_diverges:
  assumes "2 ^ 32 < new_size"
  shows "verify_consistency sha (2 ^ 32) old_root new_size new_root q = None"
proof -
  have t: "to_int32 (2 ^ 32 - 1) = - 1" by (simp add: to_int32_def)
  have "low_bit (2 ^ 32 - 1)" "shift_right (2 ^ 32 - 1) = - 1"
    using t by (simp_all add: low_bit_def shift_right_def)
  then have "strip_right (2 ^ 32 - 1) (new_size - 1) = strip_right (- 1) (shift_right (new_size - 1))"
    by (subst strip_right.simps) simp
  also have "\<dots> = None"
    using strip_right_minus_one [of "- 1"] by (cases "strip_right (- 1) (shift_right (new_size - 1))") auto
  finally show ?thesis using assms by (simp add: verify_consistency_def)
qed

section \<open>Properties\<close>

text \<open>A stand-in for the hash, and a tree of two leaves, for the witnesses.\<close>

definition sample_sha :: "bytes \<Rightarrow> bytes" where
  "sample_sha x = take 32 (x @ replicate 32 0)"

definition sample_leaves :: "bytes list" where
  "sample_leaves = [hash_leaf sample_sha [1], hash_leaf sample_sha [2]]"

lemma sample_sha_length: "length (sample_sha x) = 32"
  by (simp add: sample_sha_def)

lemma split_point_2: "split_point 2 = 1"
  by (simp add: split_point_def split_loop.simps)

lemma sample_root: "merkle_root sha [a, b] = hash_node sha a b"
  using merkle_root_split [of "[a, b]" sha] by (simp add: split_point_2 numeral_2_eq_2 [symmetric])

lemma sample_sides: "goes_left (Suc 0) 2 = [False]" "goes_left 0 2 = [True]"
  by (subst goes_left.simps, simp add: split_point_2 goes_left.simps)+

text \<open>Inclusion is complete: for every leaf the log builds a path, and the verifier accepts it
  against the root of the tree.\<close>

theorem inclusion_complete:
  assumes "i < length leaves"
  shows "\<exists>p. inclusion_path_at sha leaves (int i) = Inr p
    \<and> verify_inclusion sha (leaves ! i) (int i) (int (length leaves)) p (merkle_root sha leaves)"
proof -
  have "0 < length leaves" using assms by linarith
  then obtain p where "inclusion_path_at sha leaves (int i) = Inr p" "length p = length (goes_left i (length leaves))"
    "foldl (climb_step sha) (leaves ! i) (zip (rev (goes_left i (length leaves))) p) = merkle_root sha leaves"
    using inclusion_path_ok [OF _ assms, of sha] by blast
  with assms show ?thesis by (intro exI [of _ p]) (simp add: verify_inclusion_def)
qed

theorem inclusion_complete_witness:
  "\<exists>p. inclusion_path_at sample_sha sample_leaves (int 1) = Inr p
    \<and> verify_inclusion sample_sha (sample_leaves ! 1) (int 1) (int (length sample_leaves)) p
        (merkle_root sample_sha sample_leaves)"
  by (rule inclusion_complete) (simp add: sample_leaves_def)

text \<open>The strings hashed while checking one piece of content against a path.\<close>

definition inclusion_inputs :: "(bytes \<Rightarrow> bytes) \<Rightarrow> bytes \<Rightarrow> nat \<Rightarrow> nat \<Rightarrow> bytes list \<Rightarrow> bytes list" where
  "inclusion_inputs sha d i n path =
     (LEAF_PREFIX # d) # climb_inputs sha (hash_leaf sha d) (zip (rev (goes_left i n)) path)"

text \<open>C35: Inclusion is sound: when a path for some content and index verifies against the root of a log,
  the content is the one logged at that index, or the strings hashed by the log and by the verifier
  contain two different ones with the same hash. Siblings of any length are covered.\<close>

theorem inclusion_sound:
  assumes "\<And>x. length (sha x) = c"
    and "verify_inclusion sha (hash_leaf sha d) index (int (length datas)) path
           (merkle_root sha (map (hash_leaf sha) datas))"
  shows "(0 \<le> index \<and> nat index < length datas \<and> d = datas ! nat index)
    \<or> collision sha (map (\<lambda>x. LEAF_PREFIX # x) datas @ tree_inputs sha (map (hash_leaf sha) datas))
        (inclusion_inputs sha d (nat index) (length datas) path)"
proof -
  let ?ls = "map (hash_leaf sha) datas" and ?i = "nat index"
  have i: "0 \<le> index" "?i < length datas"
    using assms(2) by (auto simp: verify_inclusion_def split: if_splits)
  have v: "length path = length (goes_left ?i (length ?ls))"
    "foldl (climb_step sha) (hash_leaf sha d) (zip (rev (goes_left ?i (length ?ls))) path) = merkle_root sha ?ls"
    using assms(2) by (auto simp: verify_inclusion_def Let_def split: if_splits)
  have "hash_leaf sha d = ?ls ! ?i \<or> collision sha (tree_inputs sha ?ls)
     (climb_inputs sha (hash_leaf sha d) (zip (rev (goes_left ?i (length ?ls))) path))"
    by (rule climb_sound [OF _ _ v(1) _ assms(1) _ v(2)]) (use i assms(1) in \<open>auto simp: hash_leaf_def\<close>)
  then show ?thesis
  proof
    assume "hash_leaf sha d = ?ls ! ?i"
    then have eq: "sha (LEAF_PREFIX # datas ! ?i) = sha (LEAF_PREFIX # d)" using i by (simp add: hash_leaf_def)
    have mem: "LEAF_PREFIX # datas ! ?i \<in> set (map (\<lambda>x. LEAF_PREFIX # x) datas @ tree_inputs sha ?ls)"
      "LEAF_PREFIX # d \<in> set (inclusion_inputs sha d ?i (length datas) path)"
      using i by (simp_all add: inclusion_inputs_def)
    show ?thesis
    proof (cases "d = datas ! ?i")
      case False
      then have "LEAF_PREFIX # datas ! ?i \<noteq> LEAF_PREFIX # d" by simp
      with eq mem show ?thesis unfolding collision_def by blast
    qed (use i in simp)
  next
    assume "collision sha (tree_inputs sha ?ls)
      (climb_inputs sha (hash_leaf sha d) (zip (rev (goes_left ?i (length ?ls))) path))"
    then show ?thesis by (auto simp: inclusion_inputs_def intro: collision_mono)
  qed
qed

theorem inclusion_sound_witness:
  "(0 \<le> (1 :: int) \<and> nat 1 < length [[1], [2 :: byte]] \<and> [2] = [[1], [2 :: byte]] ! nat 1)
    \<or> collision sample_sha (map (\<lambda>x. LEAF_PREFIX # x) [[1], [2]] @ tree_inputs sample_sha (map (hash_leaf sample_sha) [[1], [2]]))
        (inclusion_inputs sample_sha [2] (nat 1) (length [[1], [2 :: byte]]) [hash_leaf sample_sha [1]])"
  by (rule inclusion_sound [OF sample_sha_length])
     (simp add: verify_inclusion_def sample_sides sample_root numeral_2_eq_2 [symmetric])

text \<open>Consistency is complete: for any two sizes of a log up to \<open>2 ^ 31\<close> leaves the node builds a
  proof, and the verifier accepts it for the two roots.\<close>

theorem consistency_complete:
  assumes "0 < m" and "m \<le> length leaves" and "length leaves \<le> 2 ^ 31"
  shows "\<exists>p. consistency_path sha leaves (int m) = Inr p \<and>
    verify_consistency sha (int m) (merkle_root sha (take m leaves)) (int (length leaves)) (merkle_root sha leaves) p
      = Some True"
  by (rule verify_consistency_complete [OF assms])

theorem consistency_complete_witness:
  "\<exists>p. consistency_path sample_sha sample_leaves (int 1) = Inr p \<and>
    verify_consistency sample_sha (int 1) (merkle_root sample_sha (take 1 sample_leaves)) (int (length sample_leaves))
      (merkle_root sample_sha sample_leaves) p = Some True"
  by (rule consistency_complete) (simp_all add: sample_leaves_def)

text \<open>
  The verifier does not look at the lengths of the elements of a proof. So it does accept an old head that is the
  head of no log: of three entries, the head below hashes the two first leaves and nothing, and the proof that the
  log of four extends it gives the empty string for the third leaf and both of the last two for the fourth.
\<close>

lemma unrooted_head_accepted:
  "verify_consistency sha 3 (hash_node sha (hash_node sha a b) []) 4 (merkle_root sha [a, b, x, y])
     [[], x @ y, hash_node sha a b] = Some True"
proof -
  have sp: "split_point 4 = 2" by (simp add: split_point_def split_loop.simps)
  have root: "merkle_root sha [a, b, x, y] = hash_node sha (hash_node sha a b) (hash_node sha x y)"
    using merkle_root_split [of "[a, b, x, y]" sha] by (simp add: sp [unfolded eval_nat_numeral BitM.simps] sample_root)
  have "verify_consistency sha (int 3) old (int 4) new q = Some (run_result old new (consistency_run sha 3 old 4 q))"
    for old new q by (rule verify_consistency_nat) simp_all
  then have "verify_consistency sha 3 old 4 new q = Some (run_result old new (consistency_run sha 3 old 4 q))"
    for old new q by simp
  then show ?thesis
    unfolding root by (simp add: consistency_run_def run_nat_def strip_nat.simps [of 2] climb_nat.simps run_result_def
        add_input_def hash_node_def)
qed

text \<open>C34: A rewrite is detected: if the verifier accepts the head of an earlier log, whose entries \<open>olds\<close> are any list
  of hashes, against the head of a log of at most \<open>2 ^ 31\<close> entries, then the later log starts with exactly the entries
  of the earlier one, or two different strings hashed by the trees and by the verifier have the same hash. The proof
  is any list of strings of any length: the verifier checks none, and the theorem needs none. So a node that drops or
  edits an entry cannot satisfy a client that holds an earlier head of the log.\<close>

theorem consistency_detects_rewrite:
  assumes "\<And>x. length (sha x) = c" and "\<forall>l \<in> set olds \<union> set leaves. length l = c"
    and "olds \<noteq> []" and "length leaves \<le> 2 ^ 31"
    and "verify_consistency sha (int (length olds)) (merkle_root sha olds) (int (length leaves)) (merkle_root sha leaves) q
      = Some True"
  shows "length olds \<le> length leaves \<and> (olds = take (length olds) leaves
    \<or> collision sha (tree_inputs sha olds @ tree_inputs sha leaves)
        (tree_inputs sha (take (length olds) leaves)
          @ consistency_inputs sha (length olds) (merkle_root sha olds) (length leaves) q))"
proof -
  let ?o = "take (length olds) leaves"
  note sound = verify_consistency_sound [OF assms(5,3,4,1,2)]
  have "olds = ?o \<or> collision sha (tree_inputs sha olds) (tree_inputs sha ?o)" if eq: "merkle_root sha olds = merkle_root sha ?o"
    by (rule merkle_root_agree [OF _ _ eq assms(1)]) (use assms(2,3) sound in \<open>auto dest: in_set_takeD\<close>)
  with sound show ?thesis by (auto intro: collision_mono)
qed

lemma sample_consistency:
  "verify_consistency sample_sha 1 (merkle_root sample_sha (take 1 sample_leaves)) 2 (merkle_root sample_sha sample_leaves)
     (drop 1 sample_leaves) = Some True"
proof -
  have "verify_consistency sha (int 1) old (int 2) new q = Some (run_result old new (consistency_run sha 1 old 2 q))"
    for sha old new q by (rule verify_consistency_nat) simp_all
  then have "verify_consistency sha 1 old 2 new q = Some (run_result old new (consistency_run sha 1 old 2 q))"
    for sha old new q by simp
  then show ?thesis
    by (simp add: consistency_run_def run_nat_def strip_nat.simps [of 0] climb_nat.simps run_result_def add_input_def
        sample_leaves_def sample_root)
qed

theorem consistency_detects_rewrite_witness:
  "length (take 1 sample_leaves) \<le> length sample_leaves \<and>
   (take 1 sample_leaves = take (length (take 1 sample_leaves)) sample_leaves
    \<or> collision sample_sha (tree_inputs sample_sha (take 1 sample_leaves) @ tree_inputs sample_sha sample_leaves)
        (tree_inputs sample_sha (take (length (take 1 sample_leaves)) sample_leaves)
          @ consistency_inputs sample_sha (length (take 1 sample_leaves)) (merkle_root sample_sha (take 1 sample_leaves))
              (length sample_leaves) (drop 1 sample_leaves)))"
  by (rule consistency_detects_rewrite [OF sample_sha_length])
     (use sample_consistency in \<open>simp_all add: sample_leaves_def hash_leaf_def sample_sha_length\<close>)

text \<open>The verifier of consistency returns on every input with sizes up to \<open>2 ^ 31\<close>, whatever the
  proof holds.\<close>

theorem consistency_terminates:
  assumes "old_size \<le> 2 ^ 31" and "new_size \<le> 2 ^ 31"
  shows "\<exists>b. verify_consistency sha old_size old_root new_size new_root q = Some b"
  by (rule verify_consistency_returns [OF assms])

theorem consistency_terminates_witness:
  "\<exists>b. verify_consistency sample_sha 3 [] 7 [] [[1], [2]] = Some b"
  by (rule consistency_terminates) simp_all

text \<open>Beyond that range it need not: an old size of \<open>2 ^ 32\<close> sends the first loop around for ever,
  because \<open>>>\<close> works on 32 bits and keeps -1.\<close>

theorem consistency_spins_at_2_32:
  assumes "2 ^ 32 < new_size"
  shows "verify_consistency sha (2 ^ 32) old_root new_size new_root q = None"
  by (rule verify_consistency_diverges [OF assms])

theorem consistency_spins_at_2_32_witness:
  "verify_consistency sample_sha (2 ^ 32) [] (2 ^ 32 + 1) [] [] = None"
  by (rule consistency_spins_at_2_32) simp

end
