(* ===== verification/JB_Evidence.thy ===== *)
theory JB_Evidence
  imports JB_Merkle JB_Base32
begin

unbundle bit_operations_syntax

text \<open>
  What a client keeps and checks with the network off: \<open>packages/sdk-ts/src/core/evidence.ts\<close>, the
  signing bytes of receipts and tree heads on both sides (\<open>backend/src/core/domain/receipt.ts\<close> and
  \<open>sthSigningBytes\<close> of \<open>adapters/outbound/in-memory/local-merkle-log.ts\<close>), and that log itself.
  The hash and the Ed25519 verification are parameters. The client's verifier is not the node's:
  it runs RFC 9162's loop on the two indexes. The lemmas show that it accepts every proof the
  node's log produces, and where it accepts more.
\<close>

section \<open>The evidence records\<close>

record tree_head =
  th_server_key :: bytes
  th_tree_size :: int
  th_root_hash :: bytes
  th_timestamp_ms :: int
  th_signature :: bytes

record receipt =
  rc_content_id :: string
  rc_log_index :: int
  rc_leaf_index :: int
  rc_accepted_at_ms :: int
  rc_server_id :: string
  rc_server_key :: bytes
  rc_signature :: bytes
  rc_sth :: tree_head
  rc_inclusion_proof :: "bytes list"

text \<open>The client's copies of the two byte layouts.\<close>

definition sth_signing_bytes :: "tree_head \<Rightarrow> bytes" where
  "sth_signing_bytes sth = concat_bytes
     [text_encode (''jb-sth-v1'' @ [CHR 0x0A] @ js_string_of_int (th_tree_size sth) @ [CHR 0x0A]
        @ js_string_of_int (th_timestamp_ms sth) @ [CHR 0x0A]), th_root_hash sth]"

definition receipt_signing_bytes :: "receipt \<Rightarrow> bytes" where
  "receipt_signing_bytes r = frame_parts
     ([text_encode ''jb-receipt-v1'', text_encode (rc_content_id r),
       text_encode (js_string_of_int (rc_log_index r)), text_encode (js_string_of_int (rc_leaf_index r)),
       text_encode (js_string_of_int (rc_accepted_at_ms r)), text_encode (rc_server_id r), rc_server_key r,
       text_encode (js_string_of_int (th_tree_size (rc_sth r))), th_root_hash (rc_sth r),
       text_encode (js_string_of_int (th_timestamp_ms (rc_sth r))), th_server_key (rc_sth r),
       th_signature (rc_sth r)] @ rc_inclusion_proof r)"

text \<open>The node's copies, with the arguments the node passes; the frame is built by \<open>set\<close> calls in place.\<close>

definition node_sth_signing_bytes :: "int \<Rightarrow> bytes \<Rightarrow> int \<Rightarrow> bytes" where
  "node_sth_signing_bytes tree_size root_hash timestamp_ms =
     (let prefix = text_encode (''jb-sth-v1'' @ [CHR 0x0A] @ js_string_of_int tree_size @ [CHR 0x0A]
            @ js_string_of_int timestamp_ms @ [CHR 0x0A]);
          out = replicate (length prefix + length root_hash) 0
      in bw_set (bw_set out 0 prefix) (length prefix) root_hash)"

definition node_receipt_signing_bytes ::
  "string \<Rightarrow> int \<Rightarrow> int \<Rightarrow> int \<Rightarrow> string \<Rightarrow> bytes \<Rightarrow> tree_head \<Rightarrow> bytes list \<Rightarrow> bytes" where
  "node_receipt_signing_bytes content_id log_index leaf_index accepted_at_ms server_id server_key sth inclusion_proof =
     (let parts = [text_encode ''jb-receipt-v1'', text_encode content_id,
            text_encode (js_string_of_int log_index), text_encode (js_string_of_int leaf_index),
            text_encode (js_string_of_int accepted_at_ms), text_encode server_id, server_key,
            text_encode (js_string_of_int (th_tree_size sth)), th_root_hash sth,
            text_encode (js_string_of_int (th_timestamp_ms sth)), th_server_key sth, th_signature sth]
            @ inclusion_proof;
          out = replicate (foldl (\<lambda>n p. n + 4 + length p) 0 parts) 0
      in fst (foldl (\<lambda>(out, offset) part.
           (bw_set (bw_set out offset (set_uint32_be (length part))) (offset + 4) part,
            offset + 4 + length part)) (out, 0) parts))"

section \<open>The client's inclusion check\<close>

lemma abs_to_int32_le: "\<bar>to_int32 z\<bar> \<le> \<bar>z\<bar>"
proof -
  define q m where "q = z div 2 ^ 32" and "m = z mod (2 ^ 32 :: int)"
  have z: "z = q * 2 ^ 32 + m" and m: "0 \<le> m" "m < 2 ^ 32" by (simp_all add: q_def m_def)
  have t: "to_int32 z = (if m \<ge> 2 ^ 31 then m - 2 ^ 32 else m)" by (simp add: to_int32_def m_def)
  show ?thesis
  proof (cases "0 \<le> q")
    case True
    then have "0 \<le> q * 2 ^ 32" by simp
    with z m t show ?thesis by auto
  next
    case False
    then have "q * 2 ^ 32 \<le> (- 1) * 2 ^ 32" by (intro mult_right_mono) auto
    with z m t show ?thesis by auto
  qed
qed

text \<open>The inner loop \<open>while ((index & 1) === 0 && index !== 0)\<close>.\<close>

function skip_even :: "int \<Rightarrow> int \<Rightarrow> int \<times> int" where
  "skip_even index last_index =
     (if \<not> low_bit index \<and> index \<noteq> 0 then skip_even (shift_right index) (shift_right last_index)
      else (index, last_index))"
  by auto
termination
proof (relation "measure (\<lambda>(i, _). nat \<bar>i\<bar>)")
  fix i l :: int
  assume h: "\<not> low_bit i \<and> i \<noteq> 0"
  define x where "x = to_int32 i"
  have even: "even x" using h by (simp add: low_bit_def x_def and_one_eq even_iff_mod_2_eq_zero)
  have "\<bar>x div 2\<bar> < \<bar>i\<bar>"
  proof (cases "x = 0")
    case True
    with h show ?thesis by simp
  next
    case False
    with even have "\<bar>x div 2\<bar> < \<bar>x\<bar>" by (auto elim!: evenE)
    with abs_to_int32_le [of i] show ?thesis by (simp add: x_def)
  qed
  then show "((shift_right i, shift_right l), i, l) \<in> measure (\<lambda>(i, _). nat \<bar>i\<bar>)"
    by (simp add: shift_right_def x_def drop_bit_eq_div)
qed simp

declare skip_even.simps [simp del]

definition evidence_step :: "(bytes \<Rightarrow> bytes) \<Rightarrow> int \<times> int \<times> bytes \<Rightarrow> bytes \<Rightarrow> int \<times> int \<times> bytes" where
  "evidence_step sha st sibling =
     (case st of (index, last_index, hash) \<Rightarrow>
        if low_bit index \<or> index = last_index
        then (case skip_even index last_index of (i, l) \<Rightarrow>
                (shift_right i, shift_right l, hash_node sha sibling hash))
        else (shift_right index, shift_right last_index, hash_node sha hash sibling))"

definition verify_inclusion_offline :: "(bytes \<Rightarrow> bytes) \<Rightarrow> receipt \<Rightarrow> bool" where
  "verify_inclusion_offline sha r =
     (if rc_leaf_index r < 0 \<or> rc_leaf_index r \<ge> th_tree_size (rc_sth r) \<or> \<not> rc_leaf_index r \<le> 2 ^ 53 - 1
      then False
      else (case foldl (evidence_step sha)
              (rc_leaf_index r, th_tree_size (rc_sth r) - 1, hash_leaf sha (text_encode (rc_content_id r)))
              (rc_inclusion_proof r) of
         (index, last_index, hash) \<Rightarrow>
           if index \<noteq> 0 \<or> last_index \<noteq> 0 \<or> length hash \<noteq> length (th_root_hash (rc_sth r)) then False
           else list_all (\<lambda>(x, y). x = y) (zip hash (th_root_hash (rc_sth r)))))"

definition verify_receipt ::
  "(bytes \<Rightarrow> bytes) \<Rightarrow> (bytes \<Rightarrow> bytes \<Rightarrow> bytes \<Rightarrow> bool) \<Rightarrow> receipt \<Rightarrow> bool" where
  "verify_receipt sha verify_ed25519 r =
     (if length (rc_server_key r) \<noteq> length (th_server_key (rc_sth r))
         \<or> \<not> list_all (\<lambda>(x, y). x = y) (zip (rc_server_key r) (th_server_key (rc_sth r)))
      then False
      else (let sth_valid = verify_ed25519 (th_signature (rc_sth r)) (sth_signing_bytes (rc_sth r))
                  (th_server_key (rc_sth r));
                receipt_valid = verify_ed25519 (rc_signature r) (receipt_signing_bytes r) (rc_server_key r)
            in sth_valid \<and> receipt_valid \<and> verify_inclusion_offline sha r))"

lemma list_all_zip_eq: "length a = length b \<Longrightarrow> list_all (\<lambda>(x, y). x = y) (zip a b) \<longleftrightarrow> a = b"
  by (induction a b rule: list_induct2) auto

section \<open>The loop on natural numbers\<close>

function skip_nat :: "nat \<Rightarrow> nat \<Rightarrow> nat \<times> nat" where
  "skip_nat i l = (if even i \<and> i \<noteq> 0 then skip_nat (i div 2) (l div 2) else (i, l))"
  by auto
termination by (relation "measure fst") auto

declare skip_nat.simps [simp del]

definition ev_step :: "(bytes \<Rightarrow> bytes) \<Rightarrow> nat \<times> nat \<times> bytes \<Rightarrow> bytes \<Rightarrow> nat \<times> nat \<times> bytes" where
  "ev_step sha st s = (case st of (i, l, h) \<Rightarrow>
     if odd i \<or> i = l then (case skip_nat i l of (i', l') \<Rightarrow> (i' div 2, l' div 2, hash_node sha s h))
     else (i div 2, l div 2, hash_node sha h s))"

lemma skip_nat_le: "skip_nat i l = (i', l') \<Longrightarrow> i' \<le> i \<and> l' \<le> l"
proof (induction i l rule: skip_nat.induct)
  case (1 i l)
  show ?case
  proof (cases "even i \<and> i \<noteq> 0")
    case True
    with 1 have "i' \<le> i div 2 \<and> l' \<le> l div 2" by (simp add: skip_nat.simps [of i l])
    then show ?thesis using div_le_dividend le_trans by blast
  next
    case False
    with "1.prems" show ?thesis by (auto simp: skip_nat.simps [of i l])
  qed
qed

lemma skip_even_nat: "i < 2 ^ 31 \<Longrightarrow> l < 2 ^ 31 \<Longrightarrow> skip_even (int i) (int l) = map_prod int int (skip_nat i l)"
proof (induction i l rule: skip_nat.induct)
  case (1 i l)
  show ?case
  proof (cases "even i \<and> i \<noteq> 0")
    case True
    with 1 show ?thesis
      by (subst skip_even.simps, subst skip_nat.simps) (simp add: low_bit_nat shift_right_nat)
  next
    case False
    with 1 show ?thesis
      by (subst skip_even.simps, subst skip_nat.simps) (auto simp: low_bit_nat)
  qed
qed

lemma evidence_step_nat:
  assumes "i < 2 ^ 31" and "l < 2 ^ 31"
  shows "evidence_step sha (int i, int l, h) s = (case ev_step sha (i, l, h) s of (i', l', h') \<Rightarrow> (int i', int l', h'))"
    and "ev_step sha (i, l, h) s = (i', l', h') \<Longrightarrow> i' < 2 ^ 31 \<and> l' < 2 ^ 31"
proof -
  obtain a b where ab: "skip_nat i l = (a, b)" by force
  from skip_nat_le [OF ab] assms have lt: "a < 2 ^ 31" "b < 2 ^ 31" by auto
  show "evidence_step sha (int i, int l, h) s = (case ev_step sha (i, l, h) s of (i', l', h') \<Rightarrow> (int i', int l', h'))"
    using assms lt ab
    by (simp add: evidence_step_def ev_step_def skip_even_nat low_bit_nat shift_right_nat)
  show "ev_step sha (i, l, h) s = (i', l', h') \<Longrightarrow> i' < 2 ^ 31 \<and> l' < 2 ^ 31"
    using assms lt ab by (auto simp: ev_step_def split: if_splits)
qed

lemma evidence_loop_nat:
  "i < 2 ^ 31 \<Longrightarrow> l < 2 ^ 31 \<Longrightarrow> foldl (evidence_step sha) (int i, int l, h) p =
     (case foldl (ev_step sha) (i, l, h) p of (i', l', h') \<Rightarrow> (int i', int l', h'))"
proof (induction p arbitrary: i l h)
  case (Cons s p)
  obtain i' l' h' where st: "ev_step sha (i, l, h) s = (i', l', h')" by (metis prod_cases3)
  with evidence_step_nat [OF Cons.prems] have "i' < 2 ^ 31" "l' < 2 ^ 31"
    "evidence_step sha (int i, int l, h) s = (int i', int l', h')" by auto
  with Cons.IH [of i' l' h'] st show ?case by simp
qed simp

text \<open>One level of the tree, as in the consistency proof: a sibling on the right, or on the left.\<close>

lemma skip_nat_odd [simp]: "odd i \<Longrightarrow> skip_nat i l = (i, l)"
  by (subst skip_nat.simps) simp

lemma ev_left:
  assumes "i < 2 ^ j" and "2 ^ j \<le> l" and "l < 2 ^ Suc j" and "length p = j"
  shows "\<exists>h'. foldl (ev_step sha) (i, 2 ^ j - 1, h) p = (0, 0, h')
    \<and> foldl (ev_step sha) (i, l, h) (p @ [x]) = (0, 0, hash_node sha h' x)"
  using assms
proof (induction p arbitrary: i l j h)
  case Nil
  then have "i = 0" "l = 1" "j = 0" by auto
  then show ?case by (simp add: ev_step_def)
next
  case (Cons y p)
  then obtain j' where j: "j = Suc j'" by (cases j) auto
  have d: "i div 2 < 2 ^ j'" "2 ^ j' \<le> l div 2" "l div 2 < 2 ^ Suc j'" "length p = j'" using Cons.prems j by auto
  have o: "odd (2 ^ Suc j' - 1 :: nat)" and h: "(2 ^ Suc j' - 1) div 2 = (2 ^ j' - 1 :: nat)" by simp_all
  have "i \<noteq> l" using Cons.prems by simp
  show ?case
  proof (cases "odd i")
    case True
    with Cons.IH [OF d, of "hash_node sha y h"] h show ?thesis by (simp add: j ev_step_def)
  next
    case False
    with o have "i \<noteq> 2 ^ Suc j' - 1" by metis
    with False Cons.IH [OF d, of "hash_node sha h y"] h \<open>i \<noteq> l\<close> show ?thesis by (simp add: j ev_step_def)
  qed
qed

lemma skip_nat_power: "skip_nat (2 ^ j) (2 ^ j) = (1, 1)"
proof (induction j)
  case (Suc j)
  then show ?case by (subst skip_nat.simps) simp
qed simp

lemma skip_nat_shifted:
  assumes "0 < i" and "i < 2 ^ j"
  shows "\<exists>u j'. odd u \<and> u < 2 ^ j' \<and> skip_nat i i = (u, u) \<and> skip_nat (i + 2 ^ j) (i + 2 ^ j) = (u + 2 ^ j', u + 2 ^ j')"
  using assms
proof (induction j arbitrary: i)
  case (Suc j)
  show ?case
  proof (cases "odd i")
    case True
    with Suc.prems show ?thesis by (intro exI [of _ i] exI [of _ "Suc j"]) simp
  next
    case False
    with Suc.prems have "0 < i div 2" "i div 2 < 2 ^ j" by (auto elim!: evenE)
    moreover have "(i + 2 ^ Suc j) div 2 = i div 2 + 2 ^ j" "even (i + 2 ^ Suc j)" "i + 2 ^ Suc j \<noteq> 0"
      using False by simp_all
    moreover have "skip_nat i i = skip_nat (i div 2) (i div 2)" using False Suc.prems by (subst skip_nat.simps) simp
    moreover have "skip_nat (i + 2 ^ Suc j) (i + 2 ^ Suc j) = skip_nat (i div 2 + 2 ^ j) (i div 2 + 2 ^ j)"
      using calculation by (subst skip_nat.simps) simp
    ultimately show ?thesis using Suc.IH [of "i div 2"] by auto
  qed
qed simp

lemma ev_right:
  assumes "i \<le> l" and "l < 2 ^ j" and "foldl (ev_step sha) (i, l, h) p = (0, 0, h')"
  shows "foldl (ev_step sha) (i + 2 ^ j, l + 2 ^ j, h) (p @ [x]) = (0, 0, hash_node sha x h')"
  using assms
proof (induction p arbitrary: i l j h)
  case Nil
  then show ?case using skip_nat_power [of j] by (simp add: ev_step_def)
next
  case (Cons y p)
  consider (odd) "odd i" | (left) "even i" "i \<noteq> l" | (last) "even i" "i = l" "0 < i" | (zero) "i = 0" "l = 0"
    by auto
  then show ?case
  proof cases
    case odd
    then obtain j' where j: "j = Suc j'" using Cons.prems by (cases j) auto
    have "i div 2 \<le> l div 2" "l div 2 < 2 ^ j'" "(i + 2 ^ j) div 2 = i div 2 + 2 ^ j'"
      "(l + 2 ^ j) div 2 = l div 2 + 2 ^ j'" "odd (i + 2 ^ j)"
      using Cons.prems odd j by (auto simp: div_le_mono)
    with Cons.IH [of "i div 2" "l div 2" j' "hash_node sha y h"] Cons.prems(3) odd show ?thesis
      by (simp add: ev_step_def)
  next
    case left
    then obtain j' where j: "j = Suc j'" using Cons.prems by (cases j) auto
    have "i div 2 \<le> l div 2" "l div 2 < 2 ^ j'" "(i + 2 ^ j) div 2 = i div 2 + 2 ^ j'"
      "(l + 2 ^ j) div 2 = l div 2 + 2 ^ j'" "even (i + 2 ^ j)"
      using Cons.prems left j by (auto simp: div_le_mono)
    with Cons.IH [of "i div 2" "l div 2" j' "hash_node sha h y"] Cons.prems(3) left show ?thesis
      by (simp add: ev_step_def)
  next
    case last
    obtain u j' where u: "odd u" "u < 2 ^ j'" "skip_nat i i = (u, u)"
      "skip_nat (i + 2 ^ j) (i + 2 ^ j) = (u + 2 ^ j', u + 2 ^ j')"
      using skip_nat_shifted [of i j] last Cons.prems(2) by auto
    then obtain j'' where j: "j' = Suc j''" by (cases j') auto
    have "u div 2 < 2 ^ j''" "(u + 2 ^ j') div 2 = u div 2 + 2 ^ j''" using u(2) j by auto
    with Cons.IH [of "u div 2" "u div 2" j'' "hash_node sha y h"] Cons.prems(3) last u show ?thesis
      by (simp add: ev_step_def)
  next
    case zero
    have st: "ev_step sha (0, 0, h) y = (0, 0, hash_node sha y h)" for h y
      by (simp add: ev_step_def skip_nat.simps [of 0])
    have "ev_step sha (2 ^ j, 2 ^ j, h) y = (0, 0, hash_node sha y h)"
      using skip_nat_power [of j] by (simp add: ev_step_def)
    with zero st Cons.prems(3) show ?thesis by simp
  qed
qed

lemma goes_left_perfect: "i < 2 ^ j \<Longrightarrow> length (goes_left i (2 ^ j)) = j"
proof (induction j arbitrary: i)
  case 0
  then show ?case by (subst goes_left.simps) simp
next
  case (Suc j)
  have n: "1 < (2 :: nat) ^ Suc j" by (rule one_less_power) auto
  obtain e where e: "split_point (2 ^ Suc j) = 2 ^ e" using split_point_power [OF n] by blast
  have "(2 :: nat) ^ e < 2 ^ Suc j" "(2 :: nat) ^ Suc j \<le> 2 ^ Suc e"
    using split_point_bounds [OF n] e by simp_all
  then have "e = j" using power_less_imp_less_exp [of "2 :: nat" e "Suc j"] power_le_imp_le_exp [of "2 :: nat" "Suc j" "Suc e"]
    by simp
  then have k: "split_point (2 ^ Suc j) = 2 ^ j" "2 ^ Suc j - 2 ^ j = (2 :: nat) ^ j" using e by simp_all
  have "i - 2 ^ j < 2 ^ j" using Suc.prems by simp
  with n Suc.IH [of i] Suc.IH [of "i - 2 ^ j"] show ?case
    by (subst goes_left.simps) (auto simp: k Let_def simp del: power_Suc)
qed

text \<open>Every path the node's log produces takes the client's loop from the leaf to the root.\<close>

lemma ev_complete:
  assumes "0 < length leaves" and "i < length leaves"
  shows "\<exists>p. inclusion_path_at sha leaves (int i) = Inr p \<and>
    foldl (ev_step sha) (i, length leaves - 1, leaves ! i) p = (0, 0, merkle_root sha leaves)"
  using assms
proof (induction leaves arbitrary: i rule: tree_induct)
  case (leaf l)
  then show ?case by (subst inclusion_path_at.simps) auto
next
  case (node leaves k)
  let ?n = "length leaves"
  note root = merkle_root_split [OF node(1), of sha, folded node(2)]
  obtain j where j: "k = 2 ^ j" using split_point_power [OF node(1)] node(2) by metis
  have n2: "?n \<le> 2 * k" using split_point_bounds [OF node(1)] node(2) by simp
  show ?case
  proof (cases "i < k")
    case True
    with node obtain p where p: "inclusion_path_at sha (take k leaves) (int i) = Inr p"
      "foldl (ev_step sha) (i, k - 1, leaves ! i) p = (0, 0, merkle_root sha (take k leaves))"
      using node.IH(1) [of i] by (auto simp: min_def)
    have "length p = length (goes_left i k)"
      using inclusion_path_ok [of "take k leaves" i sha] p(1) True node(3,4) by (auto simp: min_def)
    then have "length p = j" using goes_left_perfect [of i j] True j by simp
    moreover have "inclusion_path_at sha leaves (int i) = Inr (p @ [merkle_root sha (drop k leaves)])"
      using node(1,2) node.prems True p(1) by (subst inclusion_path_at.simps) (simp add: Let_def)
    moreover have "2 ^ j \<le> ?n - 1" "?n - 1 < 2 ^ Suc j" using node(4) n2 j by auto
    ultimately show ?thesis
      using ev_left [of i j "?n - 1" p sha "leaves ! i" "merkle_root sha (drop k leaves)"] True j p(2) root by auto
  next
    case False
    with node.prems node(4) have i: "i - k < length (drop k leaves)" "leaves ! i = drop k leaves ! (i - k)" by auto
    from node.IH(2) [OF i(1)] obtain p where p: "inclusion_path_at sha (drop k leaves) (int (i - k)) = Inr p"
      "foldl (ev_step sha) (i - k, ?n - k - 1, leaves ! i) p = (0, 0, merkle_root sha (drop k leaves))"
      unfolding i(2) by auto
    have "inclusion_path_at sha leaves (int i) = Inr (p @ [merkle_root sha (take k leaves)])"
      using node(1,2) node.prems False p(1) by (subst inclusion_path_at.simps) (simp add: Let_def of_nat_diff)
    moreover have "i - k \<le> ?n - k - 1" "?n - k - 1 < 2 ^ j" "i - k + 2 ^ j = i" "?n - k - 1 + 2 ^ j = ?n - 1"
      using False node(4) node.prems n2 j by auto
    ultimately show ?thesis using ev_right [OF _ _ p(2)] root by metis
  qed
qed

lemma verify_inclusion_offline_nat:
  assumes "0 \<le> rc_leaf_index r" and "rc_leaf_index r < th_tree_size (rc_sth r)" and "th_tree_size (rc_sth r) \<le> 2 ^ 31"
  shows "verify_inclusion_offline sha r \<longleftrightarrow>
    foldl (ev_step sha) (nat (rc_leaf_index r), nat (th_tree_size (rc_sth r)) - 1,
      hash_leaf sha (text_encode (rc_content_id r))) (rc_inclusion_proof r) = (0, 0, th_root_hash (rc_sth r))"
proof -
  let ?i = "nat (rc_leaf_index r)" and ?l = "nat (th_tree_size (rc_sth r)) - 1"
  have lt: "?i < 2 ^ 31" "?l < 2 ^ 31" using assms by (auto simp: nat_less_iff)
  have int: "int ?i = rc_leaf_index r" "int ?l = th_tree_size (rc_sth r) - 1" using assms by auto
  obtain i l h where st: "foldl (ev_step sha) (?i, ?l, hash_leaf sha (text_encode (rc_content_id r)))
      (rc_inclusion_proof r) = (i, l, h)" by (metis prod_cases3)
  have "foldl (evidence_step sha) (rc_leaf_index r, th_tree_size (rc_sth r) - 1,
      hash_leaf sha (text_encode (rc_content_id r))) (rc_inclusion_proof r) = (int i, int l, h)"
    using evidence_loop_nat [OF lt, of sha "hash_leaf sha (text_encode (rc_content_id r))" "rc_inclusion_proof r"]
    by (simp only: int st prod.case)
  moreover have "rc_leaf_index r \<le> 2 ^ 53 - 1" using assms by simp
  ultimately show ?thesis using assms st
    by (auto simp: verify_inclusion_offline_def list_all_zip_eq)
qed

section \<open>What the signatures cover\<close>

lemma bw_set_mid: "length src \<le> length zs \<Longrightarrow> bw_set (acc @ zs) (length acc) src = acc @ src @ drop (length src) zs"
  by (simp add: bw_set_def)

lemma node_sth_signing_bytes_eq:
  "node_sth_signing_bytes (th_tree_size sth) (th_root_hash sth) (th_timestamp_ms sth) = sth_signing_bytes sth"
proof -
  have "bw_set (bw_set (replicate (length p + length q) 0) 0 p) (length p) q = p @ q" for p q
    by (simp add: bw_set_def)
  then show ?thesis by (simp only: node_sth_signing_bytes_def Let_def sth_signing_bytes_def concat_bytes_concat) simp
qed

lemma frame_in_place:
  "foldl (\<lambda>(out, offset) part. (bw_set (bw_set out offset (set_uint32_be (length part))) (offset + 4) part,
     offset + 4 + length part)) (acc @ replicate (foldl (\<lambda>n p. n + 4 + length p) 0 ps) 0, length acc) ps
   = (acc @ concat (map frame_part ps), length acc + length (concat (map frame_part ps)))"
proof (induction ps arbitrary: acc)
  case Nil
  then show ?case by simp
next
  case (Cons p ps)
  have sz: "foldl (\<lambda>n p. n + 4 + length p) c qs = c + foldl (\<lambda>n p. n + 4 + length p) 0 qs" for c and qs :: "bytes list"
  proof (induction qs arbitrary: c)
    case (Cons q qs)
    show ?case using Cons [of "c + 4 + length q"] Cons [of "4 + length q"] by simp
  qed simp
  let ?n = "foldl (\<lambda>n p. n + 4 + length p) 0 ps"
  let ?g = "\<lambda>(out, offset) part. (bw_set (bw_set out offset (set_uint32_be (length part))) (offset + 4) part,
     offset + 4 + length part)"
  have len4: "length (set_uint32_be m) = 4" for m by (simp add: set_uint32_be_def)
  have "foldl (\<lambda>n p. n + 4 + length p) 0 (p # ps) = 4 + length p + ?n" using sz [of "4 + length p" ps] by simp
  then have "bw_set (bw_set (acc @ replicate (foldl (\<lambda>n p. n + 4 + length p) 0 (p # ps)) 0) (length acc)
      (set_uint32_be (length p))) (length acc + 4) p = (acc @ frame_part p) @ replicate ?n 0"
    using bw_set_mid [of "set_uint32_be (length p)" "replicate (4 + length p + ?n) 0" acc]
      bw_set_mid [of p "replicate (length p + ?n) 0" "acc @ set_uint32_be (length p)"]
    by (simp add: len4 frame_part_def add.assoc)
  moreover have "length acc + 4 + length p = length (acc @ frame_part p)" by (simp add: frame_part_def len4)
  ultimately have "foldl ?g (acc @ replicate (foldl (\<lambda>n p. n + 4 + length p) 0 (p # ps)) 0, length acc) (p # ps)
      = foldl ?g ((acc @ frame_part p) @ replicate ?n 0, length (acc @ frame_part p)) ps"
    by (simp only: foldl_Cons prod.case)
  also have "\<dots> = (acc @ frame_part p @ concat (map frame_part ps),
      length (acc @ frame_part p) + length (concat (map frame_part ps)))"
    using Cons [of "acc @ frame_part p"] by (simp only: append_assoc)
  finally show ?case by simp
qed

lemma node_receipt_signing_bytes_eq:
  "node_receipt_signing_bytes (rc_content_id r) (rc_log_index r) (rc_leaf_index r) (rc_accepted_at_ms r)
     (rc_server_id r) (rc_server_key r) (rc_sth r) (rc_inclusion_proof r) = receipt_signing_bytes r"
  unfolding node_receipt_signing_bytes_def receipt_signing_bytes_def Let_def frame_parts_concat
  using frame_in_place [of "[]"] by (simp only: append_Nil list.size(3) fst_conv)

lemma byte_of_char_eq: "(of_nat (of_char c) :: byte) = of_nat n \<longleftrightarrow> of_char c = n" if "n < 256"
proof -
  have "unat (of_nat n :: byte) = n" using that by (simp add: unat_of_nat)
  then show ?thesis by (metis unat_of_char_byte)
qed

lemma no_newline: "10 \<notin> set (text_encode (js_string_of_int z))"
proof
  assume "10 \<in> set (text_encode (js_string_of_int z))"
  then obtain c where c: "c \<in> set (js_string_of_int z)" "(of_nat (of_char c) :: byte) = of_nat 10"
    by (auto simp: text_encode_def)
  then have "of_char c = (10 :: nat)" by (simp only: byte_of_char_eq [of 10])
  with c(1) show False
    using digits_of_range [of c "nat z"] digits_of_range [of c "nat (- z)"]
    by (auto simp: js_string_of_int_def split: if_splits)
qed

lemma sth_signing_bytes_inj:
  assumes "sth_signing_bytes a = sth_signing_bytes b"
  shows "th_tree_size a = th_tree_size b \<and> th_timestamp_ms a = th_timestamp_ms b \<and> th_root_hash a = th_root_hash b"
proof -
  have nl: "text_encode [CHR 0x0A] = [10]" by (simp add: text_encode_def)
  define p where "p = text_encode ''jb-sth-v1''"
  have eq: "text_encode (js_string_of_int (th_tree_size a)) @ 10 # text_encode (js_string_of_int (th_timestamp_ms a)) @ 10 # th_root_hash a
     = text_encode (js_string_of_int (th_tree_size b)) @ 10 # text_encode (js_string_of_int (th_timestamp_ms b)) @ 10 # th_root_hash b"
    using assms by (simp only: sth_signing_bytes_def concat_bytes_concat concat.simps text_encode_append nl
        append_assoc append_Nil2 same_append_eq p_def [symmetric]) simp
  then have "js_string_of_int (th_tree_size a) = js_string_of_int (th_tree_size b)"
    "js_string_of_int (th_timestamp_ms a) = js_string_of_int (th_timestamp_ms b)" "th_root_hash a = th_root_hash b"
    by (simp_all only: delimited_eq [OF no_newline no_newline] text_encode_inj)
  then show ?thesis by (simp add: js_string_of_int_inj)
qed

lemma receipt_signing_bytes_inj:
  assumes "receipt_signing_bytes a = receipt_signing_bytes b"
    and "length (receipt_signing_bytes a) < 2 ^ 32"
  shows "a\<lparr>rc_signature := []\<rparr> = b\<lparr>rc_signature := []\<rparr>"
proof -
  have part: "length p \<le> length (concat (map frame_part ps))" if "p \<in> set ps" for p ps
    using that by (induction ps) (auto simp: frame_part_def)
  have "length p < 2 ^ 32" if "p \<in> set ps" "receipt_signing_bytes a = frame_parts ps" for p ps
    using part [OF that(1)] that(2) assms(2) by (simp add: frame_parts_concat)
  then have "frame_parts ps = frame_parts qs \<Longrightarrow> receipt_signing_bytes a = frame_parts ps \<Longrightarrow> ps = qs" for ps qs
    by (intro frame_parts_inj) auto
  from this [OF assms(1) [unfolded receipt_signing_bytes_def]]
  have parts: "text_encode (rc_content_id a) = text_encode (rc_content_id b)"
    "text_encode (js_string_of_int (rc_log_index a)) = text_encode (js_string_of_int (rc_log_index b))"
    "text_encode (js_string_of_int (rc_leaf_index a)) = text_encode (js_string_of_int (rc_leaf_index b))"
    "text_encode (js_string_of_int (rc_accepted_at_ms a)) = text_encode (js_string_of_int (rc_accepted_at_ms b))"
    "text_encode (rc_server_id a) = text_encode (rc_server_id b)" "rc_server_key a = rc_server_key b"
    "text_encode (js_string_of_int (th_tree_size (rc_sth a))) = text_encode (js_string_of_int (th_tree_size (rc_sth b)))"
    "th_root_hash (rc_sth a) = th_root_hash (rc_sth b)"
    "text_encode (js_string_of_int (th_timestamp_ms (rc_sth a))) = text_encode (js_string_of_int (th_timestamp_ms (rc_sth b)))"
    "th_server_key (rc_sth a) = th_server_key (rc_sth b)" "th_signature (rc_sth a) = th_signature (rc_sth b)"
    "rc_inclusion_proof a = rc_inclusion_proof b"
    by (simp_all add: receipt_signing_bytes_def)
  then have "rc_sth a = rc_sth b" by (intro tree_head.equality) (auto dest: js_string_of_int_inj)
  with parts show ?thesis by (intro receipt.equality) (auto dest: js_string_of_int_inj)
qed

section \<open>The node's log\<close>

text \<open>
  \<open>LocalMerkleLog\<close>: the leaves and the index of each content identifier. \<open>append\<close> registers an
  undo with the transaction; \<open>log_undo\<close> is that closure.
\<close>

record merkle_log =
  ml_leaves :: "bytes list"
  ml_index_by_id :: "(string, nat) jsmap"

definition empty_log :: merkle_log where
  "empty_log = \<lparr>ml_leaves = [], ml_index_by_id = []\<rparr>"

definition log_append :: "(bytes \<Rightarrow> bytes) \<Rightarrow> string \<Rightarrow> merkle_log \<Rightarrow> merkle_log \<times> nat \<times> (string \<times> nat) option" where
  "log_append sha cid log =
     (case map_of (ml_index_by_id log) cid of
        Some existing \<Rightarrow> (log, existing, None)
      | None \<Rightarrow> let index = length (ml_leaves log) in
          (\<lparr>ml_leaves = ml_leaves log @ [hash_leaf sha (text_encode cid)],
            ml_index_by_id = al_set cid index (ml_index_by_id log)\<rparr>, index, Some (cid, index)))"

definition log_undo :: "string \<times> nat \<Rightarrow> merkle_log \<Rightarrow> merkle_log" where
  "log_undo u log = (case u of (cid, index) \<Rightarrow>
     let ids = (if map_of (ml_index_by_id log) cid = Some index then al_del cid (ml_index_by_id log)
                else ml_index_by_id log);
         ls = (if length (ml_leaves log) = index + 1 then butlast (ml_leaves log) else ml_leaves log)
     in \<lparr>ml_leaves = ls, ml_index_by_id = ids\<rparr>)"

definition log_current_sth :: "(bytes \<Rightarrow> bytes) \<Rightarrow> bytes \<Rightarrow> (bytes \<Rightarrow> bytes) \<Rightarrow> int \<Rightarrow> merkle_log \<Rightarrow> tree_head" where
  "log_current_sth sha public_key sign now log =
     (let root = merkle_root sha (ml_leaves log); size' = int (length (ml_leaves log))
      in \<lparr>th_server_key = public_key, th_tree_size = size', th_root_hash = root, th_timestamp_ms = now,
          th_signature = sign (node_sth_signing_bytes size' root now)\<rparr>)"

datatype log_error = NotInLog | PathError merkle_error

definition log_inclusion_proof ::
  "(bytes \<Rightarrow> bytes) \<Rightarrow> string \<Rightarrow> merkle_log \<Rightarrow> log_error + (nat \<times> nat \<times> bytes list)" where
  "log_inclusion_proof sha cid log =
     (case map_of (ml_index_by_id log) cid of
        None \<Rightarrow> Inl NotInLog
      | Some leaf_index \<Rightarrow>
          (case inclusion_path_at sha (ml_leaves log) (int leaf_index) of
             Inl e \<Rightarrow> Inl (PathError e)
           | Inr p \<Rightarrow> Inr (leaf_index, length (ml_leaves log), p)))"

definition log_consistency_proof ::
  "(bytes \<Rightarrow> bytes) \<Rightarrow> int \<Rightarrow> int \<Rightarrow> merkle_log \<Rightarrow> merkle_error + bytes list" where
  "log_consistency_proof sha from_size to_size log =
     (let n = (if to_size \<ge> 0 then nat to_size else nat (int (length (ml_leaves log)) + to_size))
      in consistency_path sha (take n (ml_leaves log)) from_size)"

text \<open>Every identifier in the index names the leaf with its hash, and no leaf has two identifiers.\<close>

definition log_inv :: "(bytes \<Rightarrow> bytes) \<Rightarrow> merkle_log \<Rightarrow> bool" where
  "log_inv sha log \<longleftrightarrow> distinct (map fst (ml_index_by_id log))
     \<and> map snd (ml_index_by_id log) = [0..<length (ml_leaves log)]
     \<and> ml_leaves log = map (\<lambda>(cid, _). hash_leaf sha (text_encode cid)) (ml_index_by_id log)"

lemma log_append_fresh:
  "map_of (ml_index_by_id log) cid = None \<Longrightarrow> log_append sha cid log =
     (\<lparr>ml_leaves = ml_leaves log @ [hash_leaf sha (text_encode cid)],
       ml_index_by_id = ml_index_by_id log @ [(cid, length (ml_leaves log))]\<rparr>,
      length (ml_leaves log), Some (cid, length (ml_leaves log)))"
  by (simp add: log_append_def Let_def al_set_fresh)

lemma log_append_inv:
  assumes "log_inv sha log" and "log_append sha cid log = (log', i, u)"
  shows "log_inv sha log'"
proof (cases "map_of (ml_index_by_id log) cid")
  case None
  then have "cid \<notin> fst ` set (ml_index_by_id log)" by (simp add: map_of_eq_None_iff)
  with assms log_append_fresh [OF None, of sha] show ?thesis by (auto simp: log_inv_def)
next
  case (Some j)
  with assms show ?thesis by (simp add: log_append_def)
qed

lemma log_index:
  assumes "log_inv sha log" and "map_of (ml_index_by_id log) cid = Some i"
  shows "i < length (ml_leaves log) \<and> ml_leaves log ! i = hash_leaf sha (text_encode cid)"
proof -
  let ?m = "ml_index_by_id log"
  from assms(2) have "(cid, i) \<in> set ?m" by (rule map_of_SomeD)
  then obtain j where j: "j < length ?m" "?m ! j = (cid, i)" by (auto simp: in_set_conv_nth)
  have snd: "map snd ?m = [0..<length (ml_leaves log)]" using assms(1) by (simp add: log_inv_def)
  then have len: "length ?m = length (ml_leaves log)" by (metis length_map length_upt minus_nat.diff_0)
  have "map snd ?m ! j = [0..<length (ml_leaves log)] ! j" by (simp only: snd)
  with j len have "i = j" by simp
  moreover have "ml_leaves log = map (\<lambda>(cid, _). hash_leaf sha (text_encode cid)) ?m"
    using assms(1) by (simp add: log_inv_def)
  ultimately show ?thesis using j len by (metis (no_types, lifting) nth_map prod.case)
qed

lemma log_append_index:
  assumes "log_inv sha log" and "log_append sha cid log = (log', i, u)"
  shows "map_of (ml_index_by_id log') cid = Some i" and "i < length (ml_leaves log')"
    and "ml_leaves log' ! i = hash_leaf sha (text_encode cid)"
proof -
  show m: "map_of (ml_index_by_id log') cid = Some i"
    using assms(2) by (auto simp: log_append_def Let_def split: option.splits)
  from log_index [OF log_append_inv [OF assms] m]
  show "i < length (ml_leaves log')" "ml_leaves log' ! i = hash_leaf sha (text_encode cid)" by auto
qed

lemma log_undo_append:
  assumes "log_append sha cid log = (log', i, Some u)"
  shows "log_undo u log' = log"
proof -
  have None: "map_of (ml_index_by_id log) cid = None"
    using assms by (auto simp: log_append_def split: option.splits)
  then have "al_del cid (ml_index_by_id log) = ml_index_by_id log"
    by (auto simp: al_del_def map_of_eq_None_iff filter_id_conv) (metis fst_conv image_eqI)
  with assms log_append_fresh [OF None, of sha] None show ?thesis
    by (auto simp: log_undo_def al_del_def map_add_def)
qed

lemma log_append_prefix:
  "log_append sha cid log = (log', i, u) \<Longrightarrow> take (length (ml_leaves log)) (ml_leaves log') = ml_leaves log"
  by (auto simp: log_append_def Let_def split: option.splits)

text \<open>A receipt that states what the log holds passes the client's inclusion check.\<close>

lemma offline_complete:
  assumes "log_inv sha log" and "log_inclusion_proof sha (rc_content_id r) log = Inr (i, n, path)" and "n \<le> 2 ^ 31"
    and "rc_leaf_index r = int i" and "th_tree_size (rc_sth r) = int n"
    and "th_root_hash (rc_sth r) = merkle_root sha (ml_leaves log)" and "rc_inclusion_proof r = path"
  shows "verify_inclusion_offline sha r"
proof -
  from assms(2) have m: "map_of (ml_index_by_id log) (rc_content_id r) = Some i" and n: "n = length (ml_leaves log)"
    and p: "inclusion_path_at sha (ml_leaves log) (int i) = Inr path"
    by (auto simp: log_inclusion_proof_def split: option.splits sum.splits)
  from log_index [OF assms(1) m] have i: "i < n" "ml_leaves log ! i = hash_leaf sha (text_encode (rc_content_id r))"
    using n by auto
  then have "0 < length (ml_leaves log)" using n by linarith
  from ev_complete [OF this, of i sha] i p n
  have "foldl (ev_step sha) (i, n - 1, hash_leaf sha (text_encode (rc_content_id r))) path
    = (0, 0, merkle_root sha (ml_leaves log))" by auto
  then show ?thesis using assms i by (subst verify_inclusion_offline_nat) simp_all
qed

lemma log_inclusion_proof_exists:
  assumes "log_inv sha log" and "map_of (ml_index_by_id log) cid = Some i"
  shows "\<exists>path. log_inclusion_proof sha cid log = Inr (i, length (ml_leaves log), path)"
proof -
  from log_index [OF assms] have i: "i < length (ml_leaves log)" by simp
  then have "0 < length (ml_leaves log)" by linarith
  from inclusion_path_ok [OF this i, of sha] assms(2) show ?thesis by (auto simp: log_inclusion_proof_def)
qed

lemma verify_receipt_issued:
  assumes "\<And>m. verify_ed25519 (sign m) m public_key"
    and "log_inv sha log" and "length (ml_leaves log) \<le> 2 ^ 31"
    and "log_inclusion_proof sha (rc_content_id r) log = Inr (i, n, path)"
    and "rc_leaf_index r = int i" and "rc_inclusion_proof r = path" and "rc_server_key r = public_key"
    and "rc_sth r = log_current_sth sha public_key sign now log"
    and "rc_signature r = sign (node_receipt_signing_bytes (rc_content_id r) (rc_log_index r) (rc_leaf_index r)
           (rc_accepted_at_ms r) (rc_server_id r) (rc_server_key r) (rc_sth r) (rc_inclusion_proof r))"
  shows "verify_receipt sha verify_ed25519 r"
proof -
  have n: "n = length (ml_leaves log)"
    using assms(4) by (auto simp: log_inclusion_proof_def split: option.splits sum.splits)
  have sth: "th_server_key (rc_sth r) = public_key" "th_tree_size (rc_sth r) = int n"
    "th_root_hash (rc_sth r) = merkle_root sha (ml_leaves log)"
    "th_signature (rc_sth r) = sign (sth_signing_bytes (rc_sth r))"
    using assms(8) n node_sth_signing_bytes_eq [of "rc_sth r"] by (simp_all add: log_current_sth_def Let_def)
  have "verify_inclusion_offline sha r"
    by (rule offline_complete [OF assms(2,4) _ assms(5) sth(2,3) assms(6)]) (use n assms(3) in simp)
  moreover have "rc_signature r = sign (receipt_signing_bytes r)"
    using assms(9) by (simp only: node_receipt_signing_bytes_eq)
  ultimately show ?thesis using assms(1,7) sth by (simp add: verify_receipt_def list_all_zip_eq)
qed

section \<open>Properties\<close>

text \<open>Node and client agree on what is signed: the bytes the node signs for a tree head and for a
  receipt, written in place at growing offsets, are the bytes the client verifies.\<close>

theorem signing_bytes_agree:
  "node_sth_signing_bytes (th_tree_size sth) (th_root_hash sth) (th_timestamp_ms sth) = sth_signing_bytes sth
   \<and> node_receipt_signing_bytes (rc_content_id r) (rc_log_index r) (rc_leaf_index r) (rc_accepted_at_ms r)
       (rc_server_id r) (rc_server_key r) (rc_sth r) (rc_inclusion_proof r) = receipt_signing_bytes r"
  by (simp add: node_sth_signing_bytes_eq node_receipt_signing_bytes_eq)

text \<open>A receipt with one proof element, for the witnesses.\<close>

definition sample_receipt :: receipt where
  "sample_receipt = \<lparr>rc_content_id = ''jb1a'', rc_log_index = 4, rc_leaf_index = 0, rc_accepted_at_ms = 12,
     rc_server_id = ''jbs1b'', rc_server_key = [1], rc_signature = [2],
     rc_sth = \<lparr>th_server_key = [1], th_tree_size = 1,
       th_root_hash = hash_node sample_sha [9] (hash_leaf sample_sha (text_encode ''jb1a'')),
       th_timestamp_ms = 12, th_signature = [3]\<rparr>,
     rc_inclusion_proof = [[9]]\<rparr>"

text \<open>A receipt signature covers one statement: two receipts (or tree heads) with the same signing
  bytes agree in every signed field, so no receipt verifies as another; the statement is for byte
  strings shorter than \<open>2 ^ 32\<close>, where the length prefix is exact.\<close>

theorem receipt_bytes_determine_receipt:
  assumes "receipt_signing_bytes a = receipt_signing_bytes b" and "length (receipt_signing_bytes a) < 2 ^ 32"
  shows "a\<lparr>rc_signature := []\<rparr> = b\<lparr>rc_signature := []\<rparr>"
  by (rule receipt_signing_bytes_inj [OF assms])

theorem receipt_bytes_determine_receipt_witness:
  "sample_receipt\<lparr>rc_signature := []\<rparr> = (sample_receipt\<lparr>rc_signature := [7]\<rparr>)\<lparr>rc_signature := []\<rparr>"
proof (rule receipt_bytes_determine_receipt)
  show "receipt_signing_bytes sample_receipt = receipt_signing_bytes (sample_receipt\<lparr>rc_signature := [7]\<rparr>)"
    by (simp add: receipt_signing_bytes_def)
  show "length (receipt_signing_bytes sample_receipt) < 2 ^ 32"
    by (simp add: receipt_signing_bytes_def sample_receipt_def frame_parts_concat frame_part_def
        set_uint32_be_def js_string_of_int_def digits_of.simps hash_node_def sample_sha_length)
qed

text \<open>The client's inclusion check accepts a path longer than the tree is deep: with a tree size of 1
  and any extra sibling, the root may be the node above the leaf. The node's own verifier rejects it.\<close>

theorem offline_accepts_padded_path:
  assumes "rc_leaf_index r = 0" and "th_tree_size (rc_sth r) = 1" and "rc_inclusion_proof r = [sibling]"
    and "th_root_hash (rc_sth r) = hash_node sha sibling (hash_leaf sha (text_encode (rc_content_id r)))"
  shows "verify_inclusion_offline sha r
    \<and> \<not> verify_inclusion sha (hash_leaf sha (text_encode (rc_content_id r))) 0 1 [sibling] (th_root_hash (rc_sth r))"
proof
  have s: "skip_nat 0 0 = (0, 0)" by (simp add: skip_nat.simps)
  show "verify_inclusion_offline sha r"
    using assms by (subst verify_inclusion_offline_nat) (simp_all add: ev_step_def s)
  show "\<not> verify_inclusion sha (hash_leaf sha (text_encode (rc_content_id r))) 0 1 [sibling] (th_root_hash (rc_sth r))"
    by (simp add: verify_inclusion_def goes_left.simps)
qed

theorem offline_accepts_padded_path_witness:
  "verify_inclusion_offline sample_sha sample_receipt
    \<and> \<not> verify_inclusion sample_sha (hash_leaf sample_sha (text_encode (rc_content_id sample_receipt))) 0 1 [[9]]
        (th_root_hash (rc_sth sample_receipt))"
  by (rule offline_accepts_padded_path) (simp_all add: sample_receipt_def)

text \<open>The log is append-only and idempotent: an identifier keeps its index for ever, a second append
  changes nothing, a new one gets the next index and leaves every earlier leaf in place, the index
  always names the leaf of its identifier, and the registered undo restores the log exactly.\<close>

theorem log_append_idempotent:
  assumes "log_inv sha log" and "log_append sha cid log = (log', i, u)"
  shows "log_inv sha log' \<and> log_append sha cid log' = (log', i, None)
    \<and> ml_leaves log' ! i = hash_leaf sha (text_encode cid)
    \<and> take (length (ml_leaves log)) (ml_leaves log') = ml_leaves log
    \<and> log' = (case u of None \<Rightarrow> log | Some _ \<Rightarrow> log') \<and> (case u of None \<Rightarrow> log' | Some v \<Rightarrow> log_undo v log') = log"
proof -
  have "map_of (ml_index_by_id log') cid = Some i" by (rule log_append_index(1) [OF assms])
  then have "log_append sha cid log' = (log', i, None)" by (simp add: log_append_def)
  moreover have "log' = (case u of None \<Rightarrow> log | Some _ \<Rightarrow> log')"
    using assms(2) by (auto simp: log_append_def Let_def split: option.splits)
  moreover have "(case u of None \<Rightarrow> log' | Some v \<Rightarrow> log_undo v log') = log"
  proof (cases u)
    case None
    with calculation(2) show ?thesis by simp
  next
    case (Some v)
    with log_undo_append assms(2) show ?thesis by simp
  qed
  ultimately show ?thesis
    using log_append_inv [OF assms] log_append_index(3) [OF assms] log_append_prefix [OF assms(2)] by simp
qed

lemma empty_log_inv: "log_inv sha empty_log"
  by (simp add: log_inv_def empty_log_def)

theorem log_append_idempotent_witness:
  "log_append sample_sha ''jb1a'' \<lparr>ml_leaves = [hash_leaf sample_sha (text_encode ''jb1a'')], ml_index_by_id = [(''jb1a'', 0)]\<rparr>
    = (\<lparr>ml_leaves = [hash_leaf sample_sha (text_encode ''jb1a'')], ml_index_by_id = [(''jb1a'', 0)]\<rparr>, 0, None)"
  using log_append_idempotent [OF empty_log_inv,
      of sample_sha "''jb1a''" "\<lparr>ml_leaves = [hash_leaf sample_sha (text_encode ''jb1a'')], ml_index_by_id = [(''jb1a'', 0)]\<rparr>"
        0 "Some (''jb1a'', 0)"]
  by (simp add: log_append_def empty_log_def)

end
