(* ===== verification/JB_AntiAbuse.thy ===== *)
theory JB_AntiAbuse
  imports JB_Registry
begin

unbundle bit_operations_syntax

text \<open>
  Pipeline step 13, \<open>backend/src/core/domain/pipeline/anti-abuse.ts\<close>, with the in-memory ports it
  calls (\<open>adapters/outbound/in-memory/in-memory-services.ts\<close>): the credit ledger, the nullifier
  registry and the credential issuer. Proof of work is the parameter \<open>pow_verify\<close>; that a challenge
  is attached to a rejection is kept, its content is not. The step runs every gate the policy row
  names, in the order of the code, and its state changes survive its own rejection.
\<close>

section \<open>The in-memory ports\<close>

datatype credit_kind = KeySubject | NullifierSubject | PeerSubject

record credit_subject =
  cs_kind :: credit_kind
  cs_value :: string

record credit_status =
  ct_allowed :: bool
  ct_remaining :: int
  ct_reset_at_ms :: int

definition STARTING_BALANCE :: int where "STARTING_BALANCE = 250"

definition kind_name :: "credit_kind \<Rightarrow> string" where
  "kind_name k = (case k of KeySubject \<Rightarrow> ''key'' | NullifierSubject \<Rightarrow> ''nullifier'' | PeerSubject \<Rightarrow> ''peer'')"

definition credit_key :: "credit_subject \<Rightarrow> string" where
  "credit_key s = kind_name (cs_kind s) @ '':'' @ cs_value s"

type_synonym balances = "(string, int) jsmap"

definition balance_of :: "credit_subject \<Rightarrow> balances \<Rightarrow> int" where
  "balance_of s b = (case map_of b (credit_key s) of None \<Rightarrow> STARTING_BALANCE | Some n \<Rightarrow> n)"

definition credit_consume :: "credit_subject \<Rightarrow> int \<Rightarrow> balances \<Rightarrow> credit_status \<times> balances" where
  "credit_consume s cost b =
     (let current = balance_of s b in
      if cost = 0 then (\<lparr>ct_allowed = True, ct_remaining = current, ct_reset_at_ms = 0\<rparr>, b)
      else if current < cost then (\<lparr>ct_allowed = False, ct_remaining = current, ct_reset_at_ms = 0\<rparr>, b)
      else (\<lparr>ct_allowed = True, ct_remaining = current - cost, ct_reset_at_ms = 0\<rparr>,
            al_set (credit_key s) (current - cost) b))"

definition credit_redeem :: "credit_subject \<Rightarrow> balances \<Rightarrow> credit_status \<times> balances" where
  "credit_redeem s b =
     (let next' = balance_of s b + 10
      in (\<lparr>ct_allowed = True, ct_remaining = next', ct_reset_at_ms = 0\<rparr>, al_set (credit_key s) next' b))"

definition nullifier_key :: "bytes \<Rightarrow> int \<Rightarrow> string \<Rightarrow> string" where
  "nullifier_key n epoch sc = hex n @ '':'' @ js_string_of_int epoch @ '':'' @ sc"

definition nullifier_claim :: "bytes \<Rightarrow> int \<Rightarrow> string \<Rightarrow> string list \<Rightarrow> bool \<times> string list" where
  "nullifier_claim n epoch sc spent =
     (let key = nullifier_key n epoch sc in
      if key \<in> set spent then (False, spent) else (True, spent @ [key]))"

definition credential_issue :: "bytes \<Rightarrow> string list \<Rightarrow> bytes \<times> string list" where
  "credential_issue blinded issued =
     (let credential = map (\<lambda>b. b XOR 0xff) blinded
      in (credential, if hex credential \<in> set issued then issued else issued @ [hex credential]))"

definition credential_verify :: "bytes \<Rightarrow> string list \<Rightarrow> bool" where
  "credential_verify credential issued \<longleftrightarrow> hex credential \<in> set issued"

section \<open>Step 13\<close>

record aa_state =
  st_credits :: balances
  st_spent :: "string list"
  st_issued :: "string list"

text \<open>\<open>env.antiAbuse?.nullifier\<close> and its siblings.\<close>

definition env_nullifier :: "'a envelope_scheme \<Rightarrow> bytes" where
  "env_nullifier env = (case env_anti_abuse env of None \<Rightarrow> [] | Some a \<Rightarrow> aa_bytes (aa_nullifier a))"

definition env_credential :: "'a envelope_scheme \<Rightarrow> bytes" where
  "env_credential env = (case env_anti_abuse env of None \<Rightarrow> [] | Some a \<Rightarrow> aa_bytes (aa_credential a))"

definition env_pow :: "'a envelope_scheme \<Rightarrow> bytes" where
  "env_pow env = (case env_anti_abuse env of None \<Rightarrow> [] | Some a \<Rightarrow> aa_bytes (aa_pow a))"

definition env_epoch :: "'a envelope_scheme \<Rightarrow> int" where
  "env_epoch env = (case env_anti_abuse env of None \<Rightarrow> 0 | Some a \<Rightarrow> aa_number (aa_epoch a))"

definition creditSubjectFor :: "'a envelope_scheme \<Rightarrow> credit_subject" where
  "creditSubjectFor env =
     (if env_nullifier env \<noteq> [] then \<lparr>cs_kind = NullifierSubject, cs_value = hex (env_nullifier env)\<rparr>
      else \<lparr>cs_kind = KeySubject, cs_value = hex (author_key env)\<rparr>)"

definition pow_gate :: "(bytes \<Rightarrow> bytes \<Rightarrow> bool) \<Rightarrow> 'a envelope_scheme \<Rightarrow> rejection + unit" where
  "pow_gate pow_verify env =
     (if env_pow env = [] \<or> \<not> pow_verify (author_key env) (env_pow env)
      then Inl ((rejected INSUFFICIENT_CREDITS ''valid proof of work required'' (Some ''anti_abuse.pow''))
              \<lparr>rj_challenge := True\<rparr>)
      else Inr ())"

definition credential_gate :: "'a envelope_scheme \<Rightarrow> aa_state \<Rightarrow> rejection + unit" where
  "credential_gate env st =
     (if env_credential env = []
      then Inl (rejected CREDENTIAL_INVALID ''this domain requires a membership credential'' (Some ''anti_abuse.credential''))
      else if \<not> credential_verify (env_credential env) (st_issued st)
      then Inl (rejected CREDENTIAL_INVALID ''credential is not valid'' (Some ''anti_abuse.credential''))
      else Inr ())"

definition nullifier_gate :: "'a envelope_scheme \<Rightarrow> aa_state \<Rightarrow> (rejection + unit) \<times> aa_state" where
  "nullifier_gate env st =
     (if env_nullifier env = []
      then (Inl (rejected NULLIFIER_SPENT ''this domain requires an epoch nullifier'' (Some ''anti_abuse.nullifier'')), st)
      else (case nullifier_claim (env_nullifier env) (env_epoch env) (env_scope env) (st_spent st) of
          (claimed, spent') \<Rightarrow>
            if \<not> claimed then (Inl (rejected NULLIFIER_SPENT ''epoch quota is exhausted'' None), st\<lparr>st_spent := spent'\<rparr>)
            else (Inr (), st\<lparr>st_spent := spent'\<rparr>)))"

definition credit_gate :: "'a envelope_scheme \<Rightarrow> int \<Rightarrow> aa_state \<Rightarrow> (rejection + unit) \<times> aa_state" where
  "credit_gate env cost st =
     (if cost > 0
      then (case credit_consume (creditSubjectFor env) cost (st_credits st) of
          (status, credits') \<Rightarrow>
            if \<not> ct_allowed status
            then (Inl ((rejected INSUFFICIENT_CREDITS ''insufficient credits'' None)
                    \<lparr>rj_retry_after_ms := Some (max 0 (ct_reset_at_ms status)), rj_challenge := True\<rparr>),
                  st\<lparr>st_credits := credits'\<rparr>)
            else (Inr (), st\<lparr>st_credits := credits'\<rparr>))
      else (Inr (), st))"

definition acceptAntiAbuse ::
  "(bytes \<Rightarrow> bytes \<Rightarrow> bool) \<Rightarrow> 'a envelope_scheme \<Rightarrow> domain_spec \<Rightarrow> aa_state \<Rightarrow> (rejection + unit) \<times> aa_state" where
  "acceptAntiAbuse pow_verify env spec st =
     (case (if POW \<in> set (ds_requires spec) then pow_gate pow_verify env else Inr ()) of
        Inl r \<Rightarrow> (Inl r, st)
      | Inr _ \<Rightarrow>
     (case (if CREDENTIAL \<in> set (ds_requires spec) then credential_gate env st else Inr ()) of
        Inl r \<Rightarrow> (Inl r, st)
      | Inr _ \<Rightarrow>
     (case (if NULLIFIER \<in> set (ds_requires spec) then nullifier_gate env st else (Inr (), st)) of
        (Inl r, st1) \<Rightarrow> (Inl r, st1)
      | (Inr _, st1) \<Rightarrow> credit_gate env (ds_credit_cost spec) st1)))"

section \<open>The credit ledger's contract\<close>

text \<open>
  What the pipeline relies on: a charge is admitted exactly when the balance covers it, takes its
  cost from that subject and touches no other. A client that fires many charges gets exactly as
  many successes as the balance holds.
\<close>

locale credit_ledger =
  fixes balance :: "'s \<Rightarrow> 'st \<Rightarrow> int"
    and consume :: "'s \<Rightarrow> int \<Rightarrow> 'st \<Rightarrow> bool \<times> 'st"
    and same :: "'s \<Rightarrow> 's \<Rightarrow> bool"
  assumes allowed_iff: "0 < cost \<Longrightarrow> fst (consume s cost st) \<longleftrightarrow> cost \<le> balance s st"
    and charged: "0 < cost \<Longrightarrow> balance t (snd (consume s cost st)) =
           (if same s t \<and> fst (consume s cost st) then balance t st - cost else balance t st)"
    and same_refl: "same s s"
begin

fun charges :: "'s \<Rightarrow> int \<Rightarrow> nat \<Rightarrow> 'st \<Rightarrow> nat \<times> 'st" where
  "charges s cost 0 st = (0, st)"
| "charges s cost (Suc n) st =
     (case consume s cost st of (ok, st') \<Rightarrow> (case charges s cost n st' of (k, st'') \<Rightarrow> (if ok then Suc k else k, st'')))"

lemma charges_exact:
  assumes "0 < cost" and "0 \<le> balance s st"
  shows "int (fst (charges s cost n st)) = min (int n) (balance s st div cost)
    \<and> balance s (snd (charges s cost n st)) = balance s st - cost * int (fst (charges s cost n st))"
  using assms(2)
proof (induction n arbitrary: st)
  case 0
  then show ?case using assms(1) by (simp add: pos_imp_zdiv_nonneg_iff)
next
  case (Suc n)
  obtain ok st' where c: "consume s cost st = (ok, st')" by force
  show ?case
  proof (cases "cost \<le> balance s st")
    case True
    with allowed_iff [OF assms(1), of s st] c have ok: "ok" by simp
    with charged [OF assms(1), of s s st] c same_refl have b: "balance s st' = balance s st - cost" by simp
    with True have "0 \<le> balance s st'" by simp
    note IH = Suc.IH [OF this]
    have "(balance s st - cost) div cost = balance s st div cost - 1"
      using assms(1) div_add_self2 [of cost "balance s st - cost"] by simp
    with IH b ok c show ?thesis by (auto simp: algebra_simps split: prod.splits)
  next
    case False
    with allowed_iff [OF assms(1), of s st] c have ok: "\<not> ok" by simp
    with charged [OF assms(1), of s s st] c have b: "balance s st' = balance s st" by simp
    with Suc.prems have "0 \<le> balance s st'" by simp
    note IH = Suc.IH [OF this]
    have "balance s st div cost = 0" using False Suc.prems by simp
    with IH b ok c show ?thesis by (auto split: prod.splits)
  qed
qed

lemma never_overdrawn:
  "0 < cost \<Longrightarrow> 0 \<le> balance t st \<Longrightarrow> same s t \<Longrightarrow> (\<And>u. same s u \<Longrightarrow> balance u st = balance s st) \<Longrightarrow>
   0 \<le> balance t (snd (consume s cost st))"
  using charged [of cost t s st] allowed_iff [of cost s st] by (cases "fst (consume s cost st)") auto

end

lemma kind_name_inj: "kind_name a = kind_name b \<Longrightarrow> a = b"
  by (cases a; cases b) (simp_all add: kind_name_def)

lemma credit_key_inj: "credit_key a = credit_key b \<longleftrightarrow> a = b"
proof
  assume "credit_key a = credit_key b"
  then have "cs_kind a = cs_kind b \<and> cs_value a = cs_value b"
    by (cases "cs_kind a"; cases "cs_kind b") (simp_all add: credit_key_def kind_name_def)
  then show "a = b" by (intro credit_subject.equality) auto
qed simp

interpretation in_memory_ledger:
  credit_ledger balance_of "\<lambda>s cost b. case credit_consume s cost b of (c, b') \<Rightarrow> (ct_allowed c, b')" "(=)"
  by unfold_locales (auto simp: credit_consume_def balance_of_def Let_def credit_key_inj)

section \<open>Keys of the nullifier registry\<close>

lemma digits_no_colon: "CHR '':'' \<notin> set (js_string_of_int z)"
  using digits_of_range [of "CHR '':''" "nat z"] digits_of_range [of "CHR '':''" "nat (- z)"]
  by (auto simp: js_string_of_int_def)

lemma nullifier_key_inj:
  "nullifier_key n e s = nullifier_key n' e' s' \<longleftrightarrow> n = n' \<and> e = e' \<and> s = s'"
proof
  assume "nullifier_key n e s = nullifier_key n' e' s'"
  then have "hex n @ CHR '':'' # js_string_of_int e @ CHR '':'' # s = hex n' @ CHR '':'' # js_string_of_int e' @ CHR '':'' # s'"
    by (simp add: nullifier_key_def)
  then have "hex n = hex n'" "js_string_of_int e = js_string_of_int e'" "s = s'"
    by (simp_all only: delimited_eq [OF hex_no_colon hex_no_colon] delimited_eq [OF digits_no_colon digits_no_colon])
  then show "n = n' \<and> e = e' \<and> s = s'" by (simp add: hex_inj js_string_of_int_inj)
qed simp

section \<open>What the step guarantees\<close>

definition env_nullifier_key :: "'a envelope_scheme \<Rightarrow> string" where
  "env_nullifier_key env = nullifier_key (env_nullifier env) (env_epoch env) (env_scope env)"

lemma nullifier_gate_ok:
  "nullifier_gate env st = (Inr u, st') \<longleftrightarrow> env_nullifier env \<noteq> [] \<and> env_nullifier_key env \<notin> set (st_spent st)
     \<and> st' = st\<lparr>st_spent := st_spent st @ [env_nullifier_key env]\<rparr>"
  by (auto simp: nullifier_gate_def nullifier_claim_def env_nullifier_key_def Let_def)

lemma nullifier_gate_spent:
  "env_nullifier env \<noteq> [] \<Longrightarrow> env_nullifier_key env \<in> set (st_spent st) \<Longrightarrow>
   nullifier_gate env st = (Inl (rejected NULLIFIER_SPENT ''epoch quota is exhausted'' None), st)"
  by (simp add: nullifier_gate_def nullifier_claim_def env_nullifier_key_def Let_def)

lemma credit_gate_ok:
  assumes "credit_gate env cost st = (Inr u, st')"
  shows "st_spent st' = st_spent st \<and> st_issued st' = st_issued st
    \<and> (0 < cost \<longrightarrow> cost \<le> balance_of (creditSubjectFor env) (st_credits st))
    \<and> balance_of s (st_credits st') =
       (if 0 < cost \<and> s = creditSubjectFor env then balance_of s (st_credits st) - cost else balance_of s (st_credits st))"
proof (cases "0 < cost")
  case True
  obtain c b where cb: "credit_consume (creditSubjectFor env) cost (st_credits st) = (c, b)" by force
  with assms True have a: "ct_allowed c" "st' = st\<lparr>st_credits := b\<rparr>"
    by (auto simp: credit_gate_def split: if_splits)
  with in_memory_ledger.allowed_iff [OF True, of "creditSubjectFor env" "st_credits st"]
    in_memory_ledger.charged [OF True, of s "creditSubjectFor env" "st_credits st"] cb True
  show ?thesis by auto
next
  case False
  with assms show ?thesis by (simp add: credit_gate_def)
qed

lemma credit_gate_short:
  assumes "0 < cost" and "balance_of (creditSubjectFor env) (st_credits st) < cost"
  shows "credit_gate env cost st = (Inl ((rejected INSUFFICIENT_CREDITS ''insufficient credits'' None)
    \<lparr>rj_retry_after_ms := Some 0, rj_challenge := True\<rparr>), st)"
  using assms by (simp add: credit_gate_def credit_consume_def Let_def)

lemma acceptAntiAbuse_ok:
  assumes "acceptAntiAbuse pow_verify env spec st = (Inr u, st')"
  shows "(POW \<in> set (ds_requires spec) \<longrightarrow> env_pow env \<noteq> [] \<and> pow_verify (author_key env) (env_pow env))
    \<and> (CREDENTIAL \<in> set (ds_requires spec) \<longrightarrow> env_credential env \<noteq> [] \<and> credential_verify (env_credential env) (st_issued st))
    \<and> (NULLIFIER \<in> set (ds_requires spec) \<longrightarrow> env_nullifier env \<noteq> [] \<and> env_nullifier_key env \<notin> set (st_spent st)
         \<and> env_nullifier_key env \<in> set (st_spent st'))
    \<and> (0 < ds_credit_cost spec \<longrightarrow> ds_credit_cost spec \<le> balance_of (creditSubjectFor env) (st_credits st))
    \<and> balance_of s (st_credits st') = (if 0 < ds_credit_cost spec \<and> s = creditSubjectFor env
         then balance_of s (st_credits st) - ds_credit_cost spec else balance_of s (st_credits st))"
proof -
  from assms obtain st1 where
    pow: "(if POW \<in> set (ds_requires spec) then pow_gate pow_verify env else Inr ()) = Inr ()" and
    cred: "(if CREDENTIAL \<in> set (ds_requires spec) then credential_gate env st else Inr ()) = Inr ()" and
    nul: "(if NULLIFIER \<in> set (ds_requires spec) then nullifier_gate env st else (Inr (), st)) = (Inr (), st1)" and
    credit: "credit_gate env (ds_credit_cost spec) st1 = (Inr u, st')"
    unfolding acceptAntiAbuse_def by (simp split: sum.splits prod.splits)
  from credit_gate_ok [OF credit, of s] have c: "st_spent st' = st_spent st1"
    "0 < ds_credit_cost spec \<longrightarrow> ds_credit_cost spec \<le> balance_of (creditSubjectFor env) (st_credits st1)"
    "balance_of s (st_credits st') = (if 0 < ds_credit_cost spec \<and> s = creditSubjectFor env
       then balance_of s (st_credits st1) - ds_credit_cost spec else balance_of s (st_credits st1))" by auto
  have n: "st_credits st1 = st_credits st"
    "NULLIFIER \<in> set (ds_requires spec) \<longrightarrow> env_nullifier env \<noteq> [] \<and> env_nullifier_key env \<notin> set (st_spent st)
       \<and> env_nullifier_key env \<in> set (st_spent st1)"
    using nul by (auto simp: nullifier_gate_ok split: if_splits)
  from pow cred c n show ?thesis
    by (auto simp: pow_gate_def credential_gate_def split: if_splits)
qed

section \<open>Properties\<close>

text \<open>A post-like policy row and an envelope that carries every proof, for the witnesses.\<close>

definition sample_spec :: domain_spec where
  "sample_spec = \<lparr>ds_domain = ''jb:post:create:v1'', ds_plane = FORUM, ds_body = ''jagoo.v1.PostCreate'',
     ds_priority = BULK, ds_idempotent = True, ds_scope_kind = SCOPE_COMMUNITY, ds_key_algs = [ED25519],
     ds_max_bytes = 65536, ds_credit_cost = 10, ds_credit_cost_per_mb = None,
     ds_requires = [CREDENTIAL, NULLIFIER], ds_requires_certificate = True, ds_federate = True,
     ds_permission = ''post.create''\<rparr>"

definition sample_paid :: signed_envelope where
  "sample_paid = sample_envelope\<lparr>env_anti_abuse :=
     Some \<lparr>aa_credential = Some [1], aa_nullifier = Some [9], aa_epoch = Some 20, aa_pow = None\<rparr>\<rparr>"

definition sample_aa :: "int \<Rightarrow> aa_state" where
  "sample_aa balance = \<lparr>st_credits = [(''nullifier:09'', balance)], st_spent = [], st_issued = [''01'']\<rparr>"

lemma sample_hex: "hex [9] = ''09''" "hex [1] = ''01''"
  by (simp_all add: hex_def hex_byte_def hex_digit_def char_of_def bit_0)

lemmas sample_aa_defs = sample_hex sample_spec_def sample_paid_def sample_envelope_def sample_aa_def
  acceptAntiAbuse_def credential_gate_def nullifier_gate_def credit_gate_def env_credential_def
  env_nullifier_def env_epoch_def aa_bytes_def aa_number_def credential_verify_def nullifier_claim_def
  credit_consume_def balance_of_def creditSubjectFor_def credit_key_def kind_name_def
  rj_retryable_def RETRYABLE_def Let_def

text \<open>C39: An envelope passes step 13 only if every gate its policy row names holds: a verified proof of
  work, a credential this node issued, a nullifier not yet spent for this epoch and scope (and spent
  afterwards), a balance that covers the cost. The author's subject pays exactly the cost and no
  other balance changes.\<close>

theorem anti_abuse_gates_enforced:
  assumes "acceptAntiAbuse pow_verify env spec st = (Inr u, st')"
  shows "(POW \<in> set (ds_requires spec) \<longrightarrow> env_pow env \<noteq> [] \<and> pow_verify (author_key env) (env_pow env))
    \<and> (CREDENTIAL \<in> set (ds_requires spec) \<longrightarrow> env_credential env \<noteq> [] \<and> credential_verify (env_credential env) (st_issued st))
    \<and> (NULLIFIER \<in> set (ds_requires spec) \<longrightarrow> env_nullifier env \<noteq> [] \<and> env_nullifier_key env \<notin> set (st_spent st)
         \<and> env_nullifier_key env \<in> set (st_spent st'))
    \<and> (0 < ds_credit_cost spec \<longrightarrow> ds_credit_cost spec \<le> balance_of (creditSubjectFor env) (st_credits st))
    \<and> (\<forall>s. balance_of s (st_credits st') = (if 0 < ds_credit_cost spec \<and> s = creditSubjectFor env
         then balance_of s (st_credits st) - ds_credit_cost spec else balance_of s (st_credits st)))"
  using acceptAntiAbuse_ok [OF assms] by blast

theorem anti_abuse_gates_enforced_witness:
  "env_nullifier_key sample_paid \<in> set (st_spent (snd (acceptAntiAbuse (\<lambda>_ _. True) sample_paid sample_spec (sample_aa 30))))"
proof -
  obtain st' where run: "acceptAntiAbuse (\<lambda>_ _. True) sample_paid sample_spec (sample_aa 30) = (Inr (), st')"
    by (simp add: sample_aa_defs)
  from anti_abuse_gates_enforced [OF run] run show ?thesis by (simp add: sample_spec_def)
qed

text \<open>A check-in never pays: a row without gates and without cost is admitted in every state, and the
  ledger and the registries are left as they were.\<close>

theorem free_domains_never_charged:
  assumes "ds_requires spec = []" and "ds_credit_cost spec = 0"
  shows "acceptAntiAbuse pow_verify env spec st = (Inr (), st)"
  using assms by (simp add: acceptAntiAbuse_def credit_gate_def)

theorem free_domains_never_charged_witness:
  "acceptAntiAbuse (\<lambda>_ _. False) sample_envelope (sample_spec\<lparr>ds_requires := [], ds_credit_cost := 0\<rparr>) (sample_aa 0)
     = (Inr (), sample_aa 0)"
  by (rule free_domains_never_charged) simp_all

text \<open>Charges are exact: firing any number of charges of one cost at a ledger admits exactly as many
  as the balance holds, and the balance ends at what is left, never below zero.\<close>

theorem ledger_charges_exact:
  assumes "0 < cost" and "0 \<le> balance_of s b"
  shows "int (fst (in_memory_ledger.charges s cost n b)) = min (int n) (balance_of s b div cost)
    \<and> balance_of s (snd (in_memory_ledger.charges s cost n b))
        = balance_of s b - cost * int (fst (in_memory_ledger.charges s cost n b))"
  by (rule in_memory_ledger.charges_exact [OF assms])

theorem ledger_charges_exact_witness:
  "int (fst (in_memory_ledger.charges \<lparr>cs_kind = PeerSubject, cs_value = ''p''\<rparr> 25 50 [])) = 10"
  using ledger_charges_exact [of 25 "\<lparr>cs_kind = PeerSubject, cs_value = ''p''\<rparr>" "[]" 50]
  by (simp add: balance_of_def STARTING_BALANCE_def)

text \<open>A rejection for credits burns the nullifier: on a row that requires a nullifier and has a cost, an
  author who is short of credits is rejected with the retryable code, yet the nullifier is already
  spent, so the same envelope is rejected again, as spent, whatever credits the author then redeems.\<close>

theorem credit_rejection_burns_nullifier:
  assumes "NULLIFIER \<in> set (ds_requires spec)" and "POW \<notin> set (ds_requires spec)"
    and "CREDENTIAL \<in> set (ds_requires spec) \<Longrightarrow> credential_gate env st = Inr ()"
    and "env_nullifier env \<noteq> []" and "env_nullifier_key env \<notin> set (st_spent st)"
    and "balance_of (creditSubjectFor env) (st_credits st) < ds_credit_cost spec" and "0 < ds_credit_cost spec"
  shows "\<exists>r st'. acceptAntiAbuse pow_verify env spec st = (Inl r, st') \<and> rj_code r = INSUFFICIENT_CREDITS
    \<and> rj_retryable r
    \<and> (\<forall>credits. \<exists>r'. acceptAntiAbuse pow_verify env spec (st'\<lparr>st_credits := credits\<rparr>)
          = (Inl r', st'\<lparr>st_credits := credits\<rparr>) \<and> rj_code r' = NULLIFIER_SPENT)"
proof -
  let ?st = "st\<lparr>st_spent := st_spent st @ [env_nullifier_key env]\<rparr>"
  have "nullifier_gate env st = (Inr (), ?st)" using assms(4,5) by (simp add: nullifier_gate_ok)
  then have "acceptAntiAbuse pow_verify env spec st =
    (Inl ((rejected INSUFFICIENT_CREDITS ''insufficient credits'' None)\<lparr>rj_retry_after_ms := Some 0, rj_challenge := True\<rparr>), ?st)"
    using assms credit_gate_short [of "ds_credit_cost spec" env ?st] by (simp add: acceptAntiAbuse_def)
  moreover have "acceptAntiAbuse pow_verify env spec (?st\<lparr>st_credits := c\<rparr>)
      = (Inl (rejected NULLIFIER_SPENT ''epoch quota is exhausted'' None), ?st\<lparr>st_credits := c\<rparr>)" for c
  proof -
    have "CREDENTIAL \<in> set (ds_requires spec) \<Longrightarrow> credential_gate env (?st\<lparr>st_credits := c\<rparr>) = Inr ()"
      using assms(3) by (simp add: credential_gate_def split: if_splits)
    with assms show ?thesis using nullifier_gate_spent [of env "?st\<lparr>st_credits := c\<rparr>"]
      by (simp add: acceptAntiAbuse_def)
  qed
  ultimately show ?thesis by (auto simp: rj_retryable_def RETRYABLE_def rejected_def)
qed

theorem credit_rejection_burns_nullifier_witness:
  "\<exists>r st'. acceptAntiAbuse (\<lambda>_ _. True) sample_paid sample_spec (sample_aa 9) = (Inl r, st')
    \<and> rj_code r = INSUFFICIENT_CREDITS \<and> rj_retryable r
    \<and> (\<forall>credits. \<exists>r'. acceptAntiAbuse (\<lambda>_ _. True) sample_paid sample_spec (st'\<lparr>st_credits := credits\<rparr>)
          = (Inl r', st'\<lparr>st_credits := credits\<rparr>) \<and> rj_code r' = NULLIFIER_SPENT)"
  by (rule credit_rejection_burns_nullifier) (simp_all add: sample_aa_defs)

end
