(* ===== verification/JB_Store.thy ===== *)
theory JB_Store
  imports JB_Evidence JB_AntiAbuse
begin

unbundle bit_operations_syntax

text \<open>
  The stores that step 16 and 17 of the pipeline write, as the in-memory adapters implement them:
  the envelope store and the projection store (\<open>in-memory-stores.ts\<close>), the nonce store and the node
  identity (\<open>in-memory-node.ts\<close>), the federation ledger (\<open>in-memory-federation.ts\<close>), and their
  transaction. A transaction body is a function that returns its outcome together with the state
  it left and the rollback closures it registered, in order, whether it returned or threw: the
  closures are HOL functions on the state. The locale \<open>tx_step\<close> is the contract every store
  operation keeps (its rollbacks undo exactly its writes), and it is interpreted on each of them.

  Records in the log are compared by value where the code compares references: two entries of the
  log differ at least in their log index.
\<close>

section \<open>The envelope store\<close>

record stored_envelope =
  se_envelope :: parsed_envelope
  se_raw :: bytes
  se_log_index :: nat
  se_received_at_ms :: int
  se_receipt :: "receipt option"
  se_leaf_index :: "nat option"

record envelope_store =
  es_by_content_id :: "(string, stored_envelope) jsmap"
  es_log :: "stored_envelope list"

definition empty_envelope_store :: envelope_store where
  "empty_envelope_store = \<lparr>es_by_content_id = [], es_log = []\<rparr>"

text \<open>An operation that registers a rollback returns the closure with its result.\<close>

definition env_put ::
  "parsed_envelope \<Rightarrow> bytes \<Rightarrow> int \<Rightarrow> envelope_store
     \<Rightarrow> ingress_error + (stored_envelope \<times> envelope_store \<times> (envelope_store \<Rightarrow> envelope_store))" where
  "env_put env raw now st =
     (case map_of (es_by_content_id st) (content_id env) of
        Some existing \<Rightarrow> Inl (DuplicateContentError (content_id env))
      | None \<Rightarrow>
          let stored = \<lparr>se_envelope = env, se_raw = raw, se_log_index = length (es_log st),
                se_received_at_ms = now, se_receipt = None, se_leaf_index = None\<rparr>
          in Inr (stored,
               st\<lparr>es_by_content_id := al_set (content_id env) stored (es_by_content_id st),
                  es_log := es_log st @ [stored]\<rparr>,
               (\<lambda>st'. st'\<lparr>es_by_content_id := al_del (content_id env) (es_by_content_id st'),
                  es_log := (if es_log st' \<noteq> [] \<and> last (es_log st') = stored then butlast (es_log st')
                             else es_log st')\<rparr>)))"

fun index_of :: "'a \<Rightarrow> 'a list \<Rightarrow> nat option" where
  "index_of x [] = None"
| "index_of x (y # ys) = (if x = y then Some 0 else map_option Suc (index_of x ys))"

definition log_replace :: "nat option \<Rightarrow> 'a \<Rightarrow> 'a list \<Rightarrow> 'a list" where
  "log_replace i x xs = (case i of None \<Rightarrow> xs | Some i \<Rightarrow> xs[i := x])"

definition env_record_receipt ::
  "string \<Rightarrow> receipt \<Rightarrow> nat \<Rightarrow> envelope_store
     \<Rightarrow> ingress_error + (unit \<times> envelope_store \<times> (envelope_store \<Rightarrow> envelope_store))" where
  "env_record_receipt cid receipt merkle_leaf_index st =
     (case map_of (es_by_content_id st) cid of
        None \<Rightarrow> Inl (ErrorThrown (''cannot receipt missing envelope '' @ cid))
      | Some previous \<Rightarrow>
          let next' = previous\<lparr>se_receipt := Some receipt, se_leaf_index := Some merkle_leaf_index\<rparr>;
              index = index_of previous (es_log st)
          in Inr ((),
               st\<lparr>es_by_content_id := al_set cid next' (es_by_content_id st),
                  es_log := log_replace index next' (es_log st)\<rparr>,
               (\<lambda>st'. st'\<lparr>es_by_content_id := al_set cid previous (es_by_content_id st'),
                  es_log := log_replace index previous (es_log st')\<rparr>)))"

definition env_get :: "string \<Rightarrow> envelope_store \<Rightarrow> stored_envelope option" where
  "env_get cid st = map_of (es_by_content_id st) cid"

definition env_has :: "string \<Rightarrow> envelope_store \<Rightarrow> bool" where
  "env_has cid st \<longleftrightarrow> map_of (es_by_content_id st) cid \<noteq> None"

definition env_range :: "int \<Rightarrow> int \<Rightarrow> envelope_store \<Rightarrow> stored_envelope list" where
  "env_range from_ix to_ix st = drop (nat (max 0 from_ix)) (take (nat (max 0 to_ix)) (es_log st))"

definition env_bloom :: "int list \<Rightarrow> int \<Rightarrow> envelope_store \<Rightarrow> bytes" where
  "env_bloom classes since_ms st =
     (let matching = filter (\<lambda>e. priority (se_envelope e) \<in> set classes \<and> se_received_at_ms e \<ge> since_ms) (es_log st)
      in [of_nat (length matching) AND 0xff])"

section \<open>The nonce store and the node identity\<close>

definition nonce_key :: "bytes \<Rightarrow> bytes \<Rightarrow> string" where
  "nonce_key author_key' nonce' = hex author_key' @ '':'' @ hex nonce'"

definition nonce_seen :: "bytes \<Rightarrow> bytes \<Rightarrow> string list \<Rightarrow> bool" where
  "nonce_seen k n seen \<longleftrightarrow> nonce_key k n \<in> set seen"

definition nonce_reserve ::
  "bytes \<Rightarrow> bytes \<Rightarrow> string list \<Rightarrow> bool \<times> string list \<times> (string list \<Rightarrow> string list) option" where
  "nonce_reserve k n seen =
     (if length n = 0 then (True, seen, None)
      else (let key = nonce_key k n in
        if key \<in> set seen then (False, seen, None)
        else (True, seen @ [key], Some (filter (\<lambda>x. x \<noteq> key)))))"

definition node_server_id :: "bytes \<Rightarrow> string" where
  "node_server_id public_key =
     (let s = identityId public_key in if take 4 s = ''jbk1'' then ''jbs1'' @ drop 4 s else s)"

section \<open>The federation ledger\<close>

datatype federation_direction = FedIn | FedOut

definition direction_text :: "federation_direction \<Rightarrow> string" where
  "direction_text d = (case d of FedIn \<Rightarrow> ''in'' | FedOut \<Rightarrow> ''out'')"

record ledger_entry =
  le_content_id :: string
  le_direction :: federation_direction
  le_peer_id :: string
  le_recorded_at_ms :: int

record ledger =
  ld_entries :: "(string, ledger_entry) jsmap"
  ld_positions :: "(string, int) jsmap"
  ld_peer_heads :: "(string, tree_head) jsmap"
  ld_duplicate_hits :: nat

definition empty_ledger :: ledger where
  "empty_ledger = \<lparr>ld_entries = [], ld_positions = [], ld_peer_heads = [], ld_duplicate_hits = 0\<rparr>"

definition ledger_key :: "string \<Rightarrow> federation_direction \<Rightarrow> string" where
  "ledger_key cid d = cid @ [CHR 0x00] @ direction_text d"

text \<open>The counter of duplicates survives the error it is raised with.\<close>

definition ledger_record ::
  "ledger_entry \<Rightarrow> ledger \<Rightarrow> (ingress_error + (ledger \<Rightarrow> ledger)) \<times> ledger" where
  "ledger_record entry st =
     (let key = ledger_key (le_content_id entry) (le_direction entry) in
      if map_of (ld_entries st) key \<noteq> None
      then (Inl (DuplicateFederationEntryError (le_content_id entry)),
            st\<lparr>ld_duplicate_hits := ld_duplicate_hits st + 1\<rparr>)
      else (Inr (\<lambda>st'. st'\<lparr>ld_entries := al_del key (ld_entries st')\<rparr>),
            st\<lparr>ld_entries := al_set key entry (ld_entries st)\<rparr>))"

definition ledger_entries_for :: "string \<Rightarrow> ledger \<Rightarrow> ledger_entry list" where
  "ledger_entries_for cid st = filter (\<lambda>e. le_content_id e = cid) (map snd (ld_entries st))"

definition stream_position :: "string \<Rightarrow> ledger \<Rightarrow> int" where
  "stream_position peer st = (case map_of (ld_positions st) peer of None \<Rightarrow> 0 | Some i \<Rightarrow> i)"

definition record_stream_position :: "string \<Rightarrow> int \<Rightarrow> ledger \<Rightarrow> ledger" where
  "record_stream_position peer index st =
     (if index > stream_position peer st then st\<lparr>ld_positions := al_set peer index (ld_positions st)\<rparr> else st)"

definition last_peer_sth :: "string \<Rightarrow> ledger \<Rightarrow> tree_head option" where
  "last_peer_sth peer st = map_of (ld_peer_heads st) peer"

definition record_peer_sth :: "string \<Rightarrow> tree_head \<Rightarrow> ledger \<Rightarrow> ledger" where
  "record_peer_sth peer sth st = st\<lparr>ld_peer_heads := al_set peer sth (ld_peer_heads st)\<rparr>"

section \<open>The projection store\<close>

record 'd projection_store =
  pj_data :: "'d projections"
  pj_staged :: "'d projections option"
  pj_tx_counter :: nat

definition empty_projection_store :: "'d projection_store" where
  "empty_projection_store = \<lparr>pj_data = [], pj_staged = None, pj_tx_counter = 0\<rparr>"

definition pj_live :: "'d projection_store \<Rightarrow> 'd projections" where
  "pj_live st = (case pj_staged st of Some s \<Rightarrow> s | None \<Rightarrow> pj_data st)"

definition pj_set_live :: "'d projections \<Rightarrow> 'd projection_store \<Rightarrow> 'd projection_store" where
  "pj_set_live ps st = (case pj_staged st of Some _ \<Rightarrow> st\<lparr>pj_staged := Some ps\<rparr> | None \<Rightarrow> st\<lparr>pj_data := ps\<rparr>)"

text \<open>Touching a collection creates it, a read included.\<close>

definition collection_map :: "string \<Rightarrow> 'd projections \<Rightarrow> (string, 'd) jsmap \<times> 'd projections" where
  "collection_map name ps =
     (case map_of ps name of Some existing \<Rightarrow> (existing, ps) | None \<Rightarrow> ([], al_set name [] ps))"

definition col_find_by_id :: "string \<Rightarrow> string \<Rightarrow> 'd projections \<Rightarrow> 'd option \<times> 'd projections" where
  "col_find_by_id name ident ps = (case collection_map name ps of (m, ps') \<Rightarrow> (map_of m ident, ps'))"

definition col_find_first :: "string \<Rightarrow> ('d \<Rightarrow> bool) \<Rightarrow> 'd projections \<Rightarrow> 'd option \<times> 'd projections" where
  "col_find_first name matches ps = (case collection_map name ps of (m, ps') \<Rightarrow> (find matches (map snd m), ps'))"

definition col_find :: "string \<Rightarrow> ('d \<Rightarrow> bool) \<Rightarrow> nat option \<Rightarrow> 'd projections \<Rightarrow> 'd list \<times> 'd projections" where
  "col_find name matches limit ps =
     (case collection_map name ps of (m, ps') \<Rightarrow>
        let docs = filter matches (map snd m)
        in (case limit of None \<Rightarrow> docs | Some k \<Rightarrow> take k docs, ps'))"

definition col_put :: "string \<Rightarrow> string \<Rightarrow> 'd \<Rightarrow> 'd projections \<Rightarrow> 'd projections" where
  "col_put name ident doc ps = (case collection_map name ps of (m, ps') \<Rightarrow> al_set name (al_set ident doc m) ps')"

definition col_delete :: "string \<Rightarrow> string \<Rightarrow> 'd projections \<Rightarrow> 'd projections" where
  "col_delete name ident ps = (case collection_map name ps of (m, ps') \<Rightarrow> al_set name (al_del ident m) ps')"

definition pj_reset :: "'d projection_store \<Rightarrow> ingress_error + 'd projection_store" where
  "pj_reset st = (case pj_staged st of
     Some _ \<Rightarrow> Inl (ErrorThrown ''cannot reset projections during a transaction'')
   | None \<Rightarrow> Inr (st\<lparr>pj_data := []\<rparr>))"

section \<open>The node's state and its transactions\<close>

record 'd node_state =
  nd_envelopes :: envelope_store
  nd_projections :: "'d projection_store"
  nd_nonces :: "string list"
  nd_log :: merkle_log
  nd_ledger :: ledger
  nd_anti_abuse :: aa_state

type_synonym 'n rollbacks = "('n \<Rightarrow> 'n) list"
type_synonym ('n, 'a) txn = "'n \<times> 'n rollbacks \<Rightarrow> (ingress_error + 'a) \<times> 'n \<times> 'n rollbacks"

definition tx_return :: "'a \<Rightarrow> ('n, 'a) txn" where
  "tx_return x = (\<lambda>s. (Inr x, s))"

definition tx_throw :: "ingress_error \<Rightarrow> ('n, 'a) txn" where
  "tx_throw e = (\<lambda>s. (Inl e, s))"

definition tx_bind :: "('n, 'a) txn \<Rightarrow> ('a \<Rightarrow> ('n, 'b) txn) \<Rightarrow> ('n, 'b) txn" where
  "tx_bind m f = (\<lambda>s. case m s of (Inl e, s') \<Rightarrow> (Inl e, s') | (Inr x, s') \<Rightarrow> f x s')"

text \<open>\<open>for (const rollback of rollbacks.reverse()) rollback()\<close>.\<close>

definition undo_all :: "'n rollbacks \<Rightarrow> 'n \<Rightarrow> 'n" where
  "undo_all us n = foldl (\<lambda>n u. u n) n (rev us)"

definition merge_staged :: "'d projections \<Rightarrow> 'd projections \<Rightarrow> 'd projections" where
  "merge_staged staged data = foldl (\<lambda>d (name, docs). al_set name docs d) data staged"

definition transaction ::
  "('d node_state, 'a) txn \<Rightarrow> 'd node_state \<Rightarrow> (ingress_error + 'a) \<times> 'd node_state" where
  "transaction act n =
     (let pj = nd_projections n in
      if pj_staged pj \<noteq> None then (Inl (ErrorThrown ''nested transactions are not supported''), n)
      else (let opened = n\<lparr>nd_projections := pj\<lparr>pj_tx_counter := pj_tx_counter pj + 1, pj_staged := Some (pj_data pj)\<rparr>\<rparr>
        in (case act (opened, []) of
            (Inr result, n', rollbacks) \<Rightarrow>
              let pj' = nd_projections n'
              in (Inr result, n'\<lparr>nd_projections := pj'\<lparr>pj_data := merge_staged (pj_live pj') (pj_data pj'),
                    pj_staged := None\<rparr>\<rparr>)
          | (Inl error, n', rollbacks) \<Rightarrow>
              let n'' = undo_all rollbacks n'
              in (Inl error, n''\<lparr>nd_projections := (nd_projections n'')\<lparr>pj_staged := None\<rparr>\<rparr>))))"

text \<open>The store operations as steps of a transaction.\<close>

definition tx_put :: "parsed_envelope \<Rightarrow> bytes \<Rightarrow> int \<Rightarrow> ('d node_state, stored_envelope) txn" where
  "tx_put env raw now = (\<lambda>(n, us). case env_put env raw now (nd_envelopes n) of
       Inl e \<Rightarrow> (Inl e, n, us)
     | Inr (stored, st, undo) \<Rightarrow>
         (Inr stored, n\<lparr>nd_envelopes := st\<rparr>, us @ [\<lambda>n'. n'\<lparr>nd_envelopes := undo (nd_envelopes n')\<rparr>]))"

definition tx_record_receipt :: "string \<Rightarrow> receipt \<Rightarrow> nat \<Rightarrow> ('d node_state, unit) txn" where
  "tx_record_receipt cid r leaf = (\<lambda>(n, us). case env_record_receipt cid r leaf (nd_envelopes n) of
       Inl e \<Rightarrow> (Inl e, n, us)
     | Inr (x, st, undo) \<Rightarrow>
         (Inr x, n\<lparr>nd_envelopes := st\<rparr>, us @ [\<lambda>n'. n'\<lparr>nd_envelopes := undo (nd_envelopes n')\<rparr>]))"

definition tx_reserve :: "bytes \<Rightarrow> bytes \<Rightarrow> ('d node_state, bool) txn" where
  "tx_reserve k nonce' = (\<lambda>(n, us). case nonce_reserve k nonce' (nd_nonces n) of
       (ok, seen, None) \<Rightarrow> (Inr ok, n\<lparr>nd_nonces := seen\<rparr>, us)
     | (ok, seen, Some undo) \<Rightarrow>
         (Inr ok, n\<lparr>nd_nonces := seen\<rparr>, us @ [\<lambda>n'. n'\<lparr>nd_nonces := undo (nd_nonces n')\<rparr>]))"

definition tx_witness_append :: "(bytes \<Rightarrow> bytes) \<Rightarrow> string \<Rightarrow> ('d node_state, nat) txn" where
  "tx_witness_append sha cid = (\<lambda>(n, us). case log_append sha cid (nd_log n) of
       (log', index, None) \<Rightarrow> (Inr index, n\<lparr>nd_log := log'\<rparr>, us)
     | (log', index, Some u) \<Rightarrow>
         (Inr index, n\<lparr>nd_log := log'\<rparr>, us @ [\<lambda>n'. n'\<lparr>nd_log := log_undo u (nd_log n')\<rparr>]))"

definition tx_ledger_record :: "ledger_entry \<Rightarrow> ('d node_state, unit) txn" where
  "tx_ledger_record entry = (\<lambda>(n, us). case ledger_record entry (nd_ledger n) of
       (Inl e, st) \<Rightarrow> (Inl e, n\<lparr>nd_ledger := st\<rparr>, us)
     | (Inr undo, st) \<Rightarrow>
         (Inr (), n\<lparr>nd_ledger := st\<rparr>, us @ [\<lambda>n'. n'\<lparr>nd_ledger := undo (nd_ledger n')\<rparr>]))"

text \<open>A handler's projection writes through to the staged collections and registers no rollback.\<close>

definition tx_project ::
  "('d projections \<Rightarrow> (ingress_error + unit) \<times> 'd projections) \<Rightarrow> ('d node_state, unit) txn" where
  "tx_project f = (\<lambda>(n, us). case f (pj_live (nd_projections n)) of
       (res, ps) \<Rightarrow> (res, n\<lparr>nd_projections := pj_set_live ps (nd_projections n)\<rparr>, us))"

text \<open>What a step only reads of the node.\<close>

definition tx_read :: "('n \<Rightarrow> ingress_error + 'a) \<Rightarrow> ('n, 'a) txn" where
  "tx_read f = (\<lambda>(n, us). (f n, n, us))"

section \<open>The rollback contract\<close>

text \<open>
  The rollbacks a step registers take the state it left back to the state it found, whatever the
  frame, the part of the state a rollback does not concern: the staged projections, which the
  transaction discards, and the counter of duplicates.
\<close>

locale tx_step =
  fixes frame :: "'f \<Rightarrow> 'n \<Rightarrow> 'n" and in_tx :: "'n \<Rightarrow> bool" and m :: "('n, 'a) txn"
  assumes undoes: "in_tx n \<Longrightarrow> m (n, us) = (res, n', us') \<Longrightarrow>
      in_tx n' \<and> (\<exists>vs. us' = us @ vs \<and> (\<forall>f. undo_all vs (frame f n') = frame f n))"
begin

lemma abort:
  assumes "in_tx n" and "m (n, []) = (res, n', us)"
  shows "undo_all us (frame f n') = frame f n"
  using undoes [OF assms] by auto

end

lemma undo_all_append: "undo_all (us @ vs) n = undo_all us (undo_all vs n)"
  by (simp add: undo_all_def)

lemma undo_all_simps [simp]: "undo_all [] n = n" "undo_all [u] n = u n"
  by (simp_all add: undo_all_def)

lemma tx_step_bind:
  assumes "tx_step frame ok m" and "\<And>x. tx_step frame ok (f x)"
  shows "tx_step frame ok (tx_bind m f)"
proof
  fix n us res n' us'
  assume ok: "ok n" and run: "tx_bind m f (n, us) = (res, n', us')"
  obtain r1 n1 us1 where m: "m (n, us) = (r1, n1, us1)" by (cases "m (n, us)")
  from tx_step.undoes [OF assms(1) ok m] obtain vs1 where ok1: "ok n1" and
    v1: "us1 = us @ vs1" "\<forall>g. undo_all vs1 (frame g n1) = frame g n" by auto
  show "ok n' \<and> (\<exists>vs. us' = us @ vs \<and> (\<forall>g. undo_all vs (frame g n') = frame g n))"
  proof (cases r1)
    case (Inl e)
    with run m v1 ok1 show ?thesis by (auto simp: tx_bind_def)
  next
    case (Inr x)
    with run m have "f x (n1, us1) = (res, n', us')" by (simp add: tx_bind_def)
    from tx_step.undoes [OF assms(2) ok1 this] obtain vs2 where "ok n'"
      "us' = us1 @ vs2" "\<forall>g. undo_all vs2 (frame g n') = frame g n1" by auto
    with v1 show ?thesis by (intro conjI exI [of _ "vs1 @ vs2"]) (simp_all add: undo_all_append)
  qed
qed

definition node_frame :: "'d projections option \<times> nat \<Rightarrow> 'd node_state \<Rightarrow> 'd node_state" where
  "node_frame f n = n\<lparr>nd_projections := (nd_projections n)\<lparr>pj_staged := fst f\<rparr>,
     nd_ledger := (nd_ledger n)\<lparr>ld_duplicate_hits := snd f\<rparr>\<rparr>"

definition in_transaction :: "'d node_state \<Rightarrow> bool" where
  "in_transaction n \<longleftrightarrow> pj_staged (nd_projections n) \<noteq> None"

lemma al_del_fresh: "map_of m k = None \<Longrightarrow> al_del k m = m"
  by (auto simp: al_del_def map_of_eq_None_iff filter_id_conv) (metis fst_conv image_eqI)

lemma al_del_set: "map_of m k = None \<Longrightarrow> al_del k (al_set k v m) = m"
  by (simp add: al_set_fresh al_del_fresh) (simp add: al_del_def al_del_fresh [unfolded al_del_def])

lemma al_set_back: "map_of m k = Some v \<Longrightarrow> al_set k v (al_set k v' m) = m"
  by (induction m) auto

lemma index_of_Some: "index_of x xs = Some i \<Longrightarrow> i < length xs \<and> xs ! i = x"
  by (induction xs arbitrary: i) (auto split: if_splits)

lemma log_replace_back: "log_replace (index_of x xs) x (log_replace (index_of x xs) y xs) = xs"
  by (auto simp: log_replace_def dest!: index_of_Some split: option.splits)

lemma env_put_undo:
  assumes "env_put env raw now st = Inr (stored, st', undo)" shows "undo st' = st"
  using assms by (auto simp: env_put_def Let_def al_del_set split: option.splits)

lemma env_record_receipt_undo:
  assumes "env_record_receipt cid r leaf st = Inr (x, st', undo)" shows "undo st' = st"
  using assms by (auto simp: env_record_receipt_def Let_def al_set_back log_replace_back split: option.splits)

lemma nonce_reserve_undo:
  assumes "nonce_reserve k n' seen = (ok, seen', u)"
  shows "case u of None \<Rightarrow> seen' = seen | Some undo \<Rightarrow> undo seen' = seen"
  using assms by (auto simp: nonce_reserve_def Let_def filter_id_conv split: if_splits)

lemma ledger_record_undo:
  "ledger_record entry st = (Inr undo, st') \<Longrightarrow>
     \<forall>h. undo (st'\<lparr>ld_duplicate_hits := h\<rparr>) = st\<lparr>ld_duplicate_hits := h\<rparr>"
  by (auto simp: ledger_record_def Let_def al_del_set split: if_splits)

lemma ledger_record_error:
  "ledger_record entry st = (Inl e, st') \<Longrightarrow> \<forall>h. st'\<lparr>ld_duplicate_hits := h\<rparr> = st\<lparr>ld_duplicate_hits := h\<rparr>"
  by (auto simp: ledger_record_def Let_def split: if_splits)

lemma log_append_undo:
  "log_append sha cid log = (log', i, u) \<Longrightarrow> case u of None \<Rightarrow> log' = log | Some v \<Rightarrow> log_undo v log' = log"
  by (auto split: option.splits dest: log_undo_append) (auto simp: log_append_def Let_def split: option.splits)

interpretation put_step: tx_step node_frame in_transaction "tx_put env raw now" for env raw now
  by unfold_locales
     (auto simp: tx_put_def node_frame_def in_transaction_def split: sum.splits prod.splits dest: env_put_undo)

interpretation receipt_step: tx_step node_frame in_transaction "tx_record_receipt cid r leaf" for cid r leaf
  by unfold_locales
     (auto simp: tx_record_receipt_def node_frame_def in_transaction_def split: sum.splits prod.splits
       dest: env_record_receipt_undo)

interpretation reserve_step: tx_step node_frame in_transaction "tx_reserve k nonce'" for k nonce'
  by unfold_locales
     (auto simp: tx_reserve_def node_frame_def in_transaction_def split: option.splits prod.splits
       dest: nonce_reserve_undo)

interpretation witness_step: tx_step node_frame in_transaction "tx_witness_append sha cid" for sha cid
  by unfold_locales
     (auto simp: tx_witness_append_def node_frame_def in_transaction_def split: option.splits prod.splits
       dest: log_append_undo)

interpretation ledger_step: tx_step node_frame in_transaction "tx_ledger_record entry" for entry
  by unfold_locales
     (auto simp: tx_ledger_record_def node_frame_def in_transaction_def split: sum.splits prod.splits
       dest!: ledger_record_undo ledger_record_error)

interpretation project_step: tx_step node_frame in_transaction "tx_project f" for f
  by unfold_locales
     (auto simp: tx_project_def node_frame_def in_transaction_def pj_set_live_def split: prod.splits option.splits)

interpretation read_step: tx_step node_frame in_transaction "tx_read f" for f
  by unfold_locales (auto simp: tx_read_def)

lemma tx_step_return: "tx_step frame ok (tx_return x)"
  by unfold_locales (auto simp: tx_return_def)

lemma tx_step_throw: "tx_step frame ok (tx_throw e)"
  by unfold_locales (auto simp: tx_throw_def)

text \<open>An aborted transaction leaves only its number and the counter of duplicates behind.\<close>

lemma node_frame_self: "node_frame (pj_staged (nd_projections n), ld_duplicate_hits (nd_ledger n)) n = n"
  by (simp add: node_frame_def)

lemma transaction_abort:
  assumes "tx_step node_frame in_transaction act" and "pj_staged (nd_projections n) = None"
    and "transaction act n = (Inl e, n')"
  shows "\<exists>h. n' = n\<lparr>nd_projections := (nd_projections n)\<lparr>pj_tx_counter := pj_tx_counter (nd_projections n) + 1\<rparr>,
    nd_ledger := (nd_ledger n)\<lparr>ld_duplicate_hits := h\<rparr>\<rparr>"
proof -
  define pj where "pj = nd_projections n"
  define n0 where "n0 = n\<lparr>nd_projections := pj\<lparr>pj_tx_counter := pj_tx_counter pj + 1, pj_staged := Some (pj_data pj)\<rparr>\<rparr>"
  obtain res n1 us where run: "act (n0, []) = (res, n1, us)" by (cases "act (n0, [])")
  from assms(2,3) run obtain e' where e: "res = Inl e'"
    by (cases res) (auto simp: transaction_def Let_def n0_def pj_def)
  define n2 where "n2 = undo_all us n1"
  have n': "n' = n2\<lparr>nd_projections := (nd_projections n2)\<lparr>pj_staged := None\<rparr>\<rparr>"
    using assms(2,3) run e by (simp add: transaction_def Let_def n0_def pj_def n2_def)
  have "in_transaction n0" by (simp add: in_transaction_def n0_def)
  from tx_step.abort [OF assms(1) this run]
  have "n2 = node_frame (pj_staged (nd_projections n1), ld_duplicate_hits (nd_ledger n1)) n0"
    unfolding n2_def by (metis node_frame_self)
  with n' have "n' = n\<lparr>nd_projections := pj\<lparr>pj_tx_counter := pj_tx_counter pj + 1, pj_staged := None\<rparr>,
      nd_ledger := (nd_ledger n)\<lparr>ld_duplicate_hits := ld_duplicate_hits (nd_ledger n1)\<rparr>\<rparr>"
    by (simp add: node_frame_def n0_def)
  moreover have "pj\<lparr>pj_tx_counter := pj_tx_counter pj + 1, pj_staged := None\<rparr> = pj\<lparr>pj_tx_counter := pj_tx_counter pj + 1\<rparr>"
    using assms(2) by (cases pj) (simp add: pj_def)
  ultimately show ?thesis unfolding pj_def by (intro exI) simp
qed

lemma map_of_merge_staged: "map_of (merge_staged staged data) k =
    (case map_of (rev staged) k of Some v \<Rightarrow> Some v | None \<Rightarrow> map_of data k)"
  by (induction staged arbitrary: data) (auto simp: merge_staged_def map_add_def split: option.splits)

end
