(* ===== verification/JB_Peers.thy ===== *)
theory JB_Peers
  imports JB_Quota JB_FedSigning JB_Store
begin

text \<open>
  What a node knows about its peers: the peer types of \<open>backend/src/core/ports/network.port.ts\<close>, the
  directory of \<open>in-memory-services.ts\<close>, the admission of a handshake (\<open>announce.ts\<close>) and what a peer's
  stream request selects (\<open>stream-filter.ts\<close>, both in \<open>backend/src/core/domain/federation\<close>). Optional
  fields are options. A JavaScript string is its UTF-8 bytes here; \<open>utf16_length\<close> is its \<open>length\<close>.
\<close>

section \<open>Peers\<close>

datatype reachability_scope = GLOBAL | NATIONAL | ISP_LOCAL | LAN | MESH | RETICULUM

definition SCOPE_PREFERENCE :: "reachability_scope list" where
  "SCOPE_PREFERENCE = [LAN, ISP_LOCAL, NATIONAL, GLOBAL, MESH, RETICULUM]"

record peer_endpoint =
  ep_address :: string
  ep_scope :: reachability_scope
  ep_asn :: "int option"
  ep_isp :: "string option"
  ep_region :: "string option"
  ep_inbound_capable :: "bool option"
  ep_last_ok_at_ms :: "int option"
  ep_last_attempt_at_ms :: "int option"
  ep_rtt_ms :: "int option"
  ep_consecutive_failures :: "int option"

record peer_record =
  pr_server_id :: string
  pr_public_key :: bytes
  pr_display_name :: "string option"
  pr_software :: "string option"
  pr_version :: "string option"
  pr_endpoints :: "peer_endpoint list"
  pr_trust :: peer_trust
  pr_planes :: "int list option"
  pr_accepted_classes :: "int list option"
  pr_communities :: "string list option"
  pr_channels :: "string list option"
  pr_vouches :: "peer_vouch list option"
  pr_is_bridge :: "bool option"
  pr_bridged_asns :: "int list option"
  pr_first_seen_ms :: "int option"
  pr_last_seen_ms :: int
  pr_quota_breaches :: "int option"
  pr_blocked_reason :: "string option"

text \<open>\<open>a ?? b\<close>\<close>

definition nullish :: "'a option \<Rightarrow> 'a \<Rightarrow> 'a" where
  "nullish x d = (case x of Some y \<Rightarrow> y | None \<Rightarrow> d)"

lemma nullish_simps [simp]: "nullish None d = d" "nullish (Some y) d = y"
  by (simp_all add: nullish_def)

type_synonym directory = "(string, peer_record) jsmap"

definition dir_get :: "string \<Rightarrow> directory \<Rightarrow> peer_record option" where
  "dir_get server_id peers = map_of peers server_id"

definition dir_upsert :: "peer_record \<Rightarrow> directory \<Rightarrow> directory" where
  "dir_upsert record' peers = al_set (pr_server_id record') record' peers"

definition dir_all :: "directory \<Rightarrow> peer_record list" where
  "dir_all peers = map snd peers"

definition dir_for_scope :: "reachability_scope \<Rightarrow> directory \<Rightarrow> peer_record list" where
  "dir_for_scope scope peers = filter (\<lambda>p. \<exists>e \<in> set (pr_endpoints p). ep_scope e = scope) (dir_all peers)"

definition dir_for_asn :: "int \<Rightarrow> directory \<Rightarrow> peer_record list" where
  "dir_for_asn asn peers = filter (\<lambda>p. \<exists>e \<in> set (pr_endpoints p). ep_asn e = Some asn) (dir_all peers)"

lemma dir_get_upsert [simp]:
  "dir_get k (dir_upsert p peers) = (if k = pr_server_id p then Some p else dir_get k peers)"
  by (simp add: dir_get_def dir_upsert_def)

section \<open>Admission of a handshake\<close>

definition ED25519_PUBLIC_KEY_BYTES :: nat where "ED25519_PUBLIC_KEY_BYTES = 32"
definition ANNOUNCE_WINDOW_MS :: int where "ANNOUNCE_WINDOW_MS = 5 * 60 * 1000"
definition MIN_ANNOUNCE_NONCE_BYTES :: nat where "MIN_ANNOUNCE_NONCE_BYTES = 8"

definition ROUTABLE_SCHEMES :: "string list" where
  "ROUTABLE_SCHEMES = [''grpc://'', ''grpcs://'', ''https://'', ''http://'', ''rns://'', ''mesh://'']"

definition utf16_units :: "char \<Rightarrow> nat" where
  "utf16_units c = (let n = of_char c :: nat in if n < 128 then 1 else if n < 192 then 0 else if n < 240 then 1 else 2)"

definition utf16_length :: "string \<Rightarrow> nat" where
  "utf16_length s = sum_list (map utf16_units s)"

definition starts_with :: "string \<Rightarrow> string \<Rightarrow> bool" where
  "starts_with prefix s \<longleftrightarrow> take (length prefix) s = prefix"

definition is_routable_endpoint_uri :: "string \<Rightarrow> bool" where
  "is_routable_endpoint_uri uri =
     (if utf16_length uri = 0 \<or> utf16_length uri > 512 then False
      else \<exists>scheme \<in> set ROUTABLE_SCHEMES. starts_with scheme uri)"

record announce_check =
  ac_fields :: announce_request
  ac_signature :: bytes
  ac_now_ms :: int
  ac_window_ms :: "int option"
  ac_verify :: "bytes \<Rightarrow> bytes \<Rightarrow> bytes \<Rightarrow> bool"

text \<open>\<open>{ ok: true }\<close> is \<open>Inr ()\<close>, \<open>{ ok: false, reason }\<close> is \<open>Inl reason\<close>.\<close>

definition check_announce :: "(string \<Rightarrow> string) \<Rightarrow> announce_check \<Rightarrow> string + unit" where
  "check_announce nfc inp =
     (let fields = ac_fields inp in
      if length (ar_server_key fields) \<noteq> ED25519_PUBLIC_KEY_BYTES then Inl ''server_key is not an Ed25519 public key''
      else if length (ac_signature inp) \<noteq> ED25519_SIGNATURE_BYTES then Inl ''signature is not an Ed25519 signature''
      else if length (ar_nonce fields) < MIN_ANNOUNCE_NONCE_BYTES then Inl ''nonce is too short to prevent replay''
      else
        let window = nullish (ac_window_ms inp) ANNOUNCE_WINDOW_MS;
            skew = js_number (ar_timestamp_ms fields) - ac_now_ms inp
        in if skew > window then Inl ''announce timestamp is in the future''
        else if - skew > window then Inl ''announce timestamp is too old''
        else if ar_planes fields = [] then Inl ''peer advertises no planes''
        else (case find (\<lambda>e. \<not> is_routable_endpoint_uri (fe_uri e)) (ar_endpoints fields) of
            Some e \<Rightarrow> Inl (''endpoint uri is not routable: '' @ fe_uri e)
          | None \<Rightarrow>
              let message = announce_request_signing_bytes nfc fields
              in if \<not> ac_verify inp (ar_server_key fields) message (ac_signature inp)
                 then Inl ''announce signature verification failed''
                 else Inr ()))"

lemma check_announce_ok:
  assumes "check_announce nfc inp = Inr u"
  shows "ac_verify inp (ar_server_key (ac_fields inp)) (announce_request_signing_bytes nfc (ac_fields inp)) (ac_signature inp)"
    and "length (ar_server_key (ac_fields inp)) = 32" and "ar_planes (ac_fields inp) \<noteq> []"
    and "\<bar>js_number (ar_timestamp_ms (ac_fields inp)) - ac_now_ms inp\<bar> \<le> nullish (ac_window_ms inp) ANNOUNCE_WINDOW_MS"
    and "\<forall>e \<in> set (ar_endpoints (ac_fields inp)). is_routable_endpoint_uri (fe_uri e)"
  using assms by (auto simp: check_announce_def Let_def ED25519_PUBLIC_KEY_BYTES_def find_None_iff split: if_splits option.splits)

section \<open>What a stream request selects\<close>

record stream_candidate =
  sc_plane :: int
  sc_priority :: int
  sc_scope :: string
  sc_log_index :: int

record stream_filter =
  sf_communities :: "string list option"
  sf_channels :: "string list option"
  sf_planes :: "int list option"
  sf_classes :: "int list option"
  sf_since_index :: "int option"

definition unrestricted :: "'a list option \<Rightarrow> bool" where
  "unrestricted l \<longleftrightarrow> l = None \<or> l = Some []"

definition matches_stream_filter :: "stream_candidate \<Rightarrow> stream_filter \<Rightarrow> bool" where
  "matches_stream_filter c f =
     (if (case sf_since_index f of Some i \<Rightarrow> sc_log_index c < i | None \<Rightarrow> False) then False
      else if \<not> unrestricted (sf_planes f) \<and> sc_plane c \<notin> set (the (sf_planes f)) then False
      else if \<not> unrestricted (sf_classes f) \<and> sc_priority c \<notin> set (the (sf_classes f)) then False
      else let scoped = nullish (sf_communities f) [] @ nullish (sf_channels f) []
           in \<not> (scoped \<noteq> [] \<and> sc_scope c \<notin> set scoped))"

definition sole_requested_plane :: "stream_filter \<Rightarrow> int option" where
  "sole_requested_plane f = (let planes = nullish (sf_planes f) [] in if length planes = 1 then Some (hd planes) else None)"

definition assert_stream_plane :: "int \<Rightarrow> int \<Rightarrow> rejection + unit" where
  "assert_stream_plane stream_plane frame_plane =
     (if stream_plane \<noteq> frame_plane
      then Inl (rejected PLANE_MISMATCH ''a federation stream carries exactly one plane'' (Some ''plane''))
      else Inr ())"

text \<open>A stream opened for one plane never carries an envelope of the other.\<close>

lemma sole_plane_matches:
  assumes "sole_requested_plane f = Some p" and "matches_stream_filter c f"
  shows "sc_plane c = p"
proof (cases "sf_planes f")
  case None
  with assms(1) show ?thesis by (simp add: sole_requested_plane_def Let_def)
next
  case (Some ps)
  with assms(1) obtain q where "ps = [q]" "q = p"
    by (cases ps) (auto simp: sole_requested_plane_def Let_def split: if_splits)
  with Some assms(2) show ?thesis
    by (auto simp: matches_stream_filter_def unrestricted_def split: if_splits)
qed

end
