(* ===== verification/JB_Order.thy ===== *)
theory JB_Order
  imports JB_Prelude Complex_Main "HOL-Library.Product_Lexorder"
begin

text \<open>
  \<open>Array.prototype.sort\<close> with a comparator: a stable sort in which \<open>a\<close> comes before \<open>b\<close> when the comparator
  answers a negative number. The result is fixed by the language when the comparator is consistent, which
  the interpretations of \<open>ranked_order\<close> show for the comparators of the code: each agrees with a rank.
\<close>

type_synonym 'a comparator = "'a \<Rightarrow> 'a \<Rightarrow> rat"

fun insert_by :: "'a comparator \<Rightarrow> 'a \<Rightarrow> 'a list \<Rightarrow> 'a list" where
  "insert_by cmp x [] = [x]"
| "insert_by cmp x (y # ys) = (if cmp y x < 0 then y # insert_by cmp x ys else x # y # ys)"

definition js_sort :: "'a comparator \<Rightarrow> 'a list \<Rightarrow> 'a list" where
  "js_sort cmp xs = foldr (insert_by cmp) xs []"

lemma set_insert_by [simp]: "set (insert_by cmp x ys) = insert x (set ys)"
  by (induction cmp x ys rule: insert_by.induct) auto

lemma set_js_sort [simp]: "set (js_sort cmp xs) = set xs"
  by (induction xs) (simp_all add: js_sort_def)

lemma length_insert_by [simp]: "length (insert_by cmp x ys) = Suc (length ys)"
  by (induction cmp x ys rule: insert_by.induct) auto

lemma length_js_sort [simp]: "length (js_sort cmp xs) = length xs"
  by (induction xs) (simp_all add: js_sort_def)

lemma distinct_insert_by [simp]: "distinct (insert_by cmp x ys) \<longleftrightarrow> x \<notin> set ys \<and> distinct ys"
  by (induction cmp x ys rule: insert_by.induct) auto

lemma distinct_js_sort [simp]: "distinct (js_sort cmp xs) \<longleftrightarrow> distinct xs"
  by (induction xs) (simp_all add: js_sort_def, simp add: js_sort_def [symmetric])

lemma js_sort_Nil [simp]: "js_sort cmp xs = [] \<longleftrightarrow> xs = []"
  by (metis length_0_conv length_js_sort)

text \<open>A comparator that never contradicts a rank: what sorts first has the least rank.\<close>

locale ranked_order =
  fixes cmp :: "'a comparator" and rank :: "'a \<Rightarrow> 'k :: linorder"
  assumes before: "cmp a b < 0 \<Longrightarrow> rank a \<le> rank b" and not_before: "\<not> cmp a b < 0 \<Longrightarrow> rank b \<le> rank a"
begin

lemma sorted_insert: "sorted (map rank ys) \<Longrightarrow> sorted (map rank (insert_by cmp x ys))"
proof (induction ys)
  case (Cons y ys)
  then show ?case using before [of y x] not_before [of y x] by (auto intro: order_trans)
qed simp

lemma sorted_rank: "sorted (map rank (js_sort cmp xs))"
  by (induction xs) (simp_all add: js_sort_def sorted_insert)

lemma first_least:
  assumes "js_sort cmp xs = y # ys" and "x \<in> set xs"
  shows "rank y \<le> rank x"
proof -
  have "x \<in> set (y # ys)" using assms set_js_sort by metis
  with sorted_rank [of xs] assms(1) show ?thesis by auto
qed

lemma later_not_less:
  assumes "js_sort cmp xs = as @ bs" and "a \<in> set as" and "b \<in> set bs"
  shows "rank a \<le> rank b"
  using sorted_rank [of xs] assms by (auto simp: sorted_append)

end

end
