(* ===== verification/JB_Transport.thy ===== *)
theory JB_Transport
  imports JB_Peers JB_Order
begin

text \<open>
  Which way out: reachability scopes (\<open>scope.ts\<close>), the measured state of an uplink (\<open>uplink-state.ts\<close>) and
  path selection (\<open>path-selection.ts\<close>), all under \<open>backend/src/core/domain/transport\<close>. Ranks and the jitter
  fraction are rational numbers; \<open>localeCompare\<close>, which the language leaves to the host, is the parameter
  \<open>lc\<close>. The lemmas show that the narrowest working scope is always taken and what the probe history says
  about an uplink.
\<close>

section \<open>Scopes\<close>

definition scope_rank :: "reachability_scope \<Rightarrow> int" where
  "scope_rank scope = (let index = js_index_of scope SCOPE_PREFERENCE
     in if index < 0 then int (length SCOPE_PREFERENCE) else index)"

lemma scope_rank_simps [simp]:
  "scope_rank LAN = 0" "scope_rank ISP_LOCAL = 1" "scope_rank NATIONAL = 2" "scope_rank GLOBAL = 3"
  "scope_rank MESH = 4" "scope_rank RETICULUM = 5"
  by (simp_all add: scope_rank_def SCOPE_PREFERENCE_def Let_def)

lemma scope_rank_inj: "scope_rank a = scope_rank b \<Longrightarrow> a = b"
  by (cases a; cases b) simp_all

instantiation reachability_scope :: linorder
begin

definition less_eq_reachability_scope :: "reachability_scope \<Rightarrow> reachability_scope \<Rightarrow> bool" where
  "less_eq_reachability_scope a b \<longleftrightarrow> scope_rank a \<le> scope_rank b"

definition less_reachability_scope :: "reachability_scope \<Rightarrow> reachability_scope \<Rightarrow> bool" where
  "less_reachability_scope a b \<longleftrightarrow> scope_rank a < scope_rank b"

instance
  by standard (auto simp: less_eq_reachability_scope_def less_reachability_scope_def intro: scope_rank_inj)

end

definition is_narrower_or_equal :: "reachability_scope \<Rightarrow> reachability_scope \<Rightarrow> bool" where
  "is_narrower_or_equal a b \<longleftrightarrow> scope_rank a \<le> scope_rank b"

definition narrowest :: "reachability_scope list \<Rightarrow> reachability_scope option" where
  "narrowest scopes = fold (\<lambda>scope best. case best of None \<Rightarrow> Some scope
     | Some b \<Rightarrow> if scope_rank scope < scope_rank b then Some scope else Some b) scopes None"

definition by_scope_preference :: "reachability_scope comparator" where
  "by_scope_preference a b = of_int (scope_rank a - scope_rank b)"

fun implied_scopes :: "reachability_scope \<Rightarrow> reachability_scope list" where
  "implied_scopes GLOBAL = [GLOBAL, NATIONAL, ISP_LOCAL]"
| "implied_scopes NATIONAL = [NATIONAL, ISP_LOCAL]"
| "implied_scopes scope = [scope]"

definition SCOPE_LABEL :: "reachability_scope \<Rightarrow> string" where
  "SCOPE_LABEL s = (case s of LAN \<Rightarrow> ''Local network'' | ISP_LOCAL \<Rightarrow> ''ISP-local'' | NATIONAL \<Rightarrow> ''National''
     | GLOBAL \<Rightarrow> ''Internet'' | MESH \<Rightarrow> ''Mesh'' | RETICULUM \<Rightarrow> ''Reticulum'')"

lemma narrowest_min: "narrowest scopes = (if scopes = [] then None else Some (Min (set scopes)))"
proof -
  have "fold (\<lambda>scope best. case best of None \<Rightarrow> Some scope
     | Some b \<Rightarrow> if scope_rank scope < scope_rank b then Some scope else Some b) ss (Some b) = Some (Min (insert b (set ss)))" for ss b
  proof (induction ss arbitrary: b)
    case (Cons s ss)
    have pick: "(if scope_rank s < scope_rank b then Some s else Some b) = Some (min b s)"
      by (auto simp: less_reachability_scope_def [symmetric] min_def)
    have "Min (insert b (insert s (set ss))) = Min (insert (min b s) (set ss))"
      by (cases "set ss = {}") (simp_all add: min.assoc)
    then show ?case by (simp add: pick Cons)
  qed simp
  then show ?thesis by (cases scopes) (simp_all add: narrowest_def)
qed

section \<open>Uplinks\<close>

datatype uplink_state = UnknownState | Up | Degraded | Down

record scope_probe_result =
  sp_scope :: reachability_scope
  sp_reachable :: bool
  sp_rtt_ms :: "int option"

record scope_health =
  sh_scope :: reachability_scope
  sh_live :: bool
  sh_consecutive_failures :: int
  sh_last_ok_at_ms :: "int option"
  sh_rtt_ms :: "int option"

record uplink_health =
  uh_state :: uplink_state
  uh_scopes :: "scope_health list"
  uh_last_probed_at_ms :: "int option"
  uh_forced_state :: "uplink_state option"

definition initial_health :: "reachability_scope list \<Rightarrow> uplink_health" where
  "initial_health declared = \<lparr>uh_state = UnknownState,
     uh_scopes = map (\<lambda>s. \<lparr>sh_scope = s, sh_live = False, sh_consecutive_failures = 0, sh_last_ok_at_ms = None,
       sh_rtt_ms = None\<rparr>) declared,
     uh_last_probed_at_ms = None, uh_forced_state = None\<rparr>"

definition derive_state :: "scope_health list \<Rightarrow> uplink_state" where
  "derive_state scopes =
     (if length scopes = 0 then UnknownState
      else let live = length (filter sh_live scopes)
           in if live = 0 then Down else if live = length scopes then Up else Degraded)"

definition probe_scope :: "int \<Rightarrow> int \<Rightarrow> scope_probe_result list \<Rightarrow> scope_health \<Rightarrow> scope_health" where
  "probe_scope failure_threshold now_ms results health =
     (case map_of (rev (map (\<lambda>r. (sp_scope r, r)) results)) (sh_scope health) of
        None \<Rightarrow> health
      | Some r \<Rightarrow>
          if sp_reachable r
          then \<lparr>sh_scope = sh_scope health, sh_live = True, sh_consecutive_failures = 0, sh_last_ok_at_ms = Some now_ms,
                 sh_rtt_ms = sp_rtt_ms r\<rparr>
          else let failures = sh_consecutive_failures health + 1
               in \<lparr>sh_scope = sh_scope health, sh_live = (if failures < failure_threshold then sh_live health else False),
                    sh_consecutive_failures = failures, sh_last_ok_at_ms = sh_last_ok_at_ms health,
                    sh_rtt_ms = sh_rtt_ms health\<rparr>)"

definition apply_probe_round ::
  "uplink_health \<Rightarrow> scope_probe_result list \<Rightarrow> int \<Rightarrow> int \<Rightarrow> uplink_health \<times> (uplink_state \<times> uplink_state) option" where
  "apply_probe_round current results failure_threshold now_ms =
     (let scopes = map (probe_scope failure_threshold now_ms results) (uh_scopes current);
          measured = derive_state scopes;
          next' = \<lparr>uh_state = nullish (uh_forced_state current) measured, uh_scopes = scopes,
            uh_last_probed_at_ms = Some now_ms, uh_forced_state = uh_forced_state current\<rparr>
      in (next', if uh_state next' = uh_state current then None else Some (uh_state current, uh_state next')))"

definition with_forced_state :: "uplink_health \<Rightarrow> uplink_state option \<Rightarrow> uplink_health" where
  "with_forced_state health forced =
     health\<lparr>uh_state := nullish forced (derive_state (uh_scopes health)), uh_forced_state := forced\<rparr>"

definition live_scopes :: "uplink_health \<Rightarrow> reachability_scope list" where
  "live_scopes health =
     (if uh_state health = Down then []
      else if uh_forced_state health = Some Up \<and> uh_last_probed_at_ms health = None
      then js_sort by_scope_preference (map sh_scope (uh_scopes health))
      else js_sort by_scope_preference (map sh_scope (filter sh_live (uh_scopes health))))"

definition narrowest_live_scope :: "uplink_health \<Rightarrow> reachability_scope option" where
  "narrowest_live_scope health = narrowest (live_scopes health)"

definition is_selectable :: "uplink_health \<Rightarrow> bool" where
  "is_selectable health \<longleftrightarrow> uh_state health = Up \<or> uh_state health = Degraded"

interpretation scope_sort: ranked_order by_scope_preference scope_rank
  by unfold_locales (auto simp: by_scope_preference_def)

section \<open>Path selection\<close>

definition ENDPOINT_FAILURE_THRESHOLD :: int where "ENDPOINT_FAILURE_THRESHOLD = 3"
definition ENDPOINT_INITIAL_BACKOFF_MS :: int where "ENDPOINT_INITIAL_BACKOFF_MS = 1000"
definition ENDPOINT_MAX_BACKOFF_MS :: int where "ENDPOINT_MAX_BACKOFF_MS = 5 * 60 * 1000"

record uplink_view =
  uv_id :: string
  uv_source_ip :: string
  uv_asn :: "int option"
  uv_isp_name :: "string option"
  uv_priority :: int
  uv_live_scopes :: "reachability_scope list"
  uv_selectable :: bool

record path_candidate =
  pc_endpoint :: peer_endpoint
  pc_uplink :: uplink_view
  pc_rank :: rat
  pc_same_asn :: bool

record path_selection_input =
  ps_peer :: peer_record
  ps_uplinks :: "uplink_view list"
  ps_now_ms :: int
  ps_jitter01 :: rat

text \<open>\<open>Math.round\<close> rounds halves up.\<close>

definition endpoint_backoff_ms :: "int \<Rightarrow> rat \<Rightarrow> int" where
  "endpoint_backoff_ms failures jitter01 =
     (if failures < ENDPOINT_FAILURE_THRESHOLD then 0
      else let exponent = min (failures - ENDPOINT_FAILURE_THRESHOLD) 30;
               ceil = min (ENDPOINT_INITIAL_BACKOFF_MS * 2 ^ nat exponent) ENDPOINT_MAX_BACKOFF_MS;
               bounded = min (max jitter01 0) (999999 / 1000000)
           in \<lfloor>of_int ceil / 2 + of_int ceil / 2 * bounded + 1 / 2\<rfloor>)"

definition is_backing_off :: "peer_endpoint \<Rightarrow> int \<Rightarrow> rat \<Rightarrow> bool" where
  "is_backing_off endpoint now_ms jitter01 =
     (let failures = nullish (ep_consecutive_failures endpoint) 0
      in if failures < ENDPOINT_FAILURE_THRESHOLD then False
         else let since = nullish (ep_last_attempt_at_ms endpoint) (nullish (ep_last_ok_at_ms endpoint) 0)
              in now_ms - since < endpoint_backoff_ms failures jitter01)"

definition uplink_match :: "peer_endpoint \<Rightarrow> uplink_view \<Rightarrow> int" where
  "uplink_match endpoint u = (if ep_asn endpoint \<noteq> None \<and> uv_asn u = ep_asn endpoint then 0 else 1)"

definition compare_uplinks :: "(string \<Rightarrow> string \<Rightarrow> rat) \<Rightarrow> peer_endpoint \<Rightarrow> uplink_view comparator" where
  "compare_uplinks lc endpoint a b =
     (if uplink_match endpoint a \<noteq> uplink_match endpoint b then of_int (uplink_match endpoint a - uplink_match endpoint b)
      else if uv_priority a \<noteq> uv_priority b then of_int (uv_priority a - uv_priority b)
      else lc (uv_id a) (uv_id b))"

definition uplink_for ::
  "(string \<Rightarrow> string \<Rightarrow> rat) \<Rightarrow> uplink_view list \<Rightarrow> peer_endpoint \<Rightarrow> uplink_view option" where
  "uplink_for lc uplinks endpoint =
     (let reaching = filter (\<lambda>u. ep_scope endpoint \<in> set (uv_live_scopes u)) uplinks
      in if reaching = [] then None
         else (case js_sort (compare_uplinks lc endpoint) reaching of u # _ \<Rightarrow> Some u | [] \<Rightarrow> None))"

text \<open>The two round trip times compared, an absent one being infinite.\<close>

definition compare_rtt :: "int option \<Rightarrow> int option \<Rightarrow> rat" where
  "compare_rtt a b = (case (a, b) of (Some x, Some y) \<Rightarrow> of_int (x - y) | (None, Some _) \<Rightarrow> 1 | (Some _, None) \<Rightarrow> -1
     | (None, None) \<Rightarrow> 0)"

definition compare_candidates :: "(string \<Rightarrow> string \<Rightarrow> rat) \<Rightarrow> path_candidate comparator" where
  "compare_candidates lc a b =
     (if pc_rank a \<noteq> pc_rank b then pc_rank a - pc_rank b
      else if ep_rtt_ms (pc_endpoint a) \<noteq> ep_rtt_ms (pc_endpoint b)
      then compare_rtt (ep_rtt_ms (pc_endpoint a)) (ep_rtt_ms (pc_endpoint b))
      else let a_ok = nullish (ep_last_ok_at_ms (pc_endpoint a)) 0; b_ok = nullish (ep_last_ok_at_ms (pc_endpoint b)) 0
           in if a_ok \<noteq> b_ok then of_int (b_ok - a_ok)
              else lc (ep_address (pc_endpoint a)) (ep_address (pc_endpoint b)))"

definition rank_paths :: "(string \<Rightarrow> string \<Rightarrow> rat) \<Rightarrow> path_selection_input \<Rightarrow> path_candidate list" where
  "rank_paths lc inp =
     (let usable = filter uv_selectable (ps_uplinks inp);
          live = concat (map uv_live_scopes usable);
          our_asns = map uv_asn (filter (\<lambda>u. uv_asn u \<noteq> None) usable)
      in js_sort (compare_candidates lc) (List.map_filter (\<lambda>endpoint.
           if ep_scope endpoint \<notin> set live then None
           else if is_backing_off endpoint (ps_now_ms inp) (ps_jitter01 inp) then None
           else (case uplink_for lc usable endpoint of
                None \<Rightarrow> None
              | Some uplink \<Rightarrow>
                  let same_asn = (ep_asn endpoint \<noteq> None \<and> ep_asn endpoint \<in> set our_asns)
                  in Some \<lparr>pc_endpoint = endpoint, pc_uplink = uplink,
                       pc_rank = of_int (scope_rank (ep_scope endpoint)) - (if same_asn then 1 / 2 else 0),
                       pc_same_asn = same_asn\<rparr>)) (pr_endpoints (ps_peer inp))))"

definition select_path :: "(string \<Rightarrow> string \<Rightarrow> rat) \<Rightarrow> path_selection_input \<Rightarrow> path_candidate option" where
  "select_path lc inp = (case rank_paths lc inp of c # _ \<Rightarrow> Some c | [] \<Rightarrow> None)"

definition must_wait_for_peer :: "peer_record \<Rightarrow> bool" where
  "must_wait_for_peer peer \<longleftrightarrow> pr_endpoints peer = [] \<or> (\<forall>e \<in> set (pr_endpoints peer). ep_inbound_capable e = Some False)"

definition endpoint_succeeded :: "peer_endpoint \<Rightarrow> int \<Rightarrow> int option \<Rightarrow> peer_endpoint" where
  "endpoint_succeeded endpoint now_ms rtt_ms =
     endpoint\<lparr>ep_last_ok_at_ms := Some now_ms, ep_last_attempt_at_ms := Some now_ms, ep_consecutive_failures := Some 0,
       ep_rtt_ms := (case rtt_ms of None \<Rightarrow> ep_rtt_ms endpoint | Some r \<Rightarrow> Some r)\<rparr>"

definition endpoint_failed :: "peer_endpoint \<Rightarrow> int \<Rightarrow> peer_endpoint" where
  "endpoint_failed endpoint now_ms =
     endpoint\<lparr>ep_last_attempt_at_ms := Some now_ms,
       ep_consecutive_failures := Some (nullish (ep_consecutive_failures endpoint) 0 + 1)\<rparr>"

definition with_endpoint :: "peer_record \<Rightarrow> peer_endpoint \<Rightarrow> peer_record" where
  "with_endpoint peer updated =
     peer\<lparr>pr_endpoints := map (\<lambda>e. if ep_address e = ep_address updated \<and> ep_scope e = ep_scope updated then updated else e)
       (pr_endpoints peer)\<rparr>"

section \<open>The order of candidates\<close>

interpretation candidate_sort: ranked_order "compare_candidates lc" pc_rank for lc
  by unfold_locales (auto simp: compare_candidates_def split: if_splits)

interpretation uplink_sort: ranked_order "compare_uplinks lc endpoint" "\<lambda>u. (uplink_match endpoint u, uv_priority u)" for lc endpoint
  by unfold_locales (auto simp: compare_uplinks_def split: if_splits)

lemma uplink_for_Some:
  assumes "uplink_for lc us e = Some u"
  shows "u \<in> set us" and "ep_scope e \<in> set (uv_live_scopes u)"
    and "v \<in> set us \<Longrightarrow> ep_scope e \<in> set (uv_live_scopes v) \<Longrightarrow>
      (uplink_match e u, uv_priority u) \<le> (uplink_match e v, uv_priority v)"
proof -
  let ?r = "filter (\<lambda>u. ep_scope e \<in> set (uv_live_scopes u)) us"
  obtain vs where sorted: "js_sort (compare_uplinks lc e) ?r = u # vs"
    using assms by (auto simp: uplink_for_def Let_def split: if_splits list.splits)
  then have "u \<in> set ?r" using set_js_sort by (metis list.set_intros(1))
  then show "u \<in> set us" "ep_scope e \<in> set (uv_live_scopes u)" by simp_all
  show "(uplink_match e u, uv_priority u) \<le> (uplink_match e v, uv_priority v)"
    if "v \<in> set us" "ep_scope e \<in> set (uv_live_scopes v)"
    by (rule uplink_sort.first_least [OF sorted]) (use that in simp)
qed

lemma uplink_for_None: "uplink_for lc us e = None \<longleftrightarrow> (\<forall>u \<in> set us. ep_scope e \<notin> set (uv_live_scopes u))"
proof (cases "filter (\<lambda>u. ep_scope e \<in> set (uv_live_scopes u)) us = []")
  case True
  then show ?thesis by (simp add: uplink_for_def filter_empty_conv)
next
  case False
  then obtain v vs where "js_sort (compare_uplinks lc e) (filter (\<lambda>u. ep_scope e \<in> set (uv_live_scopes u)) us) = v # vs"
    by (metis js_sort_Nil neq_Nil_conv)
  with False show ?thesis by (simp add: uplink_for_def) (auto simp: filter_empty_conv)
qed

text \<open>An endpoint the peer advertises that some usable uplink reaches now and that is not benched.\<close>

definition workable :: "path_selection_input \<Rightarrow> peer_endpoint \<Rightarrow> bool" where
  "workable inp e \<longleftrightarrow> e \<in> set (pr_endpoints (ps_peer inp))
     \<and> (\<exists>u \<in> set (ps_uplinks inp). uv_selectable u \<and> ep_scope e \<in> set (uv_live_scopes u))
     \<and> \<not> is_backing_off e (ps_now_ms inp) (ps_jitter01 inp)"

definition on_our_asn :: "path_selection_input \<Rightarrow> peer_endpoint \<Rightarrow> bool" where
  "on_our_asn inp e \<longleftrightarrow> ep_asn e \<noteq> None \<and> (\<exists>u \<in> set (ps_uplinks inp). uv_selectable u \<and> uv_asn u = ep_asn e)"

lemma rank_paths_candidates:
  "c \<in> set (rank_paths lc inp) \<longleftrightarrow> workable inp (pc_endpoint c)
     \<and> uplink_for lc (filter uv_selectable (ps_uplinks inp)) (pc_endpoint c) = Some (pc_uplink c)
     \<and> pc_same_asn c = on_our_asn inp (pc_endpoint c)
     \<and> pc_rank c = of_int (scope_rank (ep_scope (pc_endpoint c))) - (if pc_same_asn c then 1 / 2 else 0)"
proof -
  let ?us = "filter uv_selectable (ps_uplinks inp)"
  have asn: "ep_asn e \<noteq> None \<and> ep_asn e \<in> set (map uv_asn (filter (\<lambda>u. uv_asn u \<noteq> None) ?us)) \<longleftrightarrow> on_our_asn inp e" for e
    by (force simp: on_our_asn_def)
  have live: "ep_scope e \<in> set (concat (map uv_live_scopes ?us)) \<longleftrightarrow>
      (\<exists>u \<in> set (ps_uplinks inp). uv_selectable u \<and> ep_scope e \<in> set (uv_live_scopes u))" for e by auto
  have mf: "set (List.map_filter f xs) = {y. \<exists>x \<in> set xs. f x = Some y}" for f :: "peer_endpoint \<Rightarrow> path_candidate option" and xs
    by (induction xs) (auto simp: List.map_filter_simps split: option.splits)
  have choose: "(if \<not> P then None else if B then None else (case u of None \<Rightarrow> None | Some x \<Rightarrow> Some (g x))) = Some c \<longleftrightarrow>
      P \<and> \<not> B \<and> (\<exists>x. u = Some x \<and> c = g x)" for P B u and g :: "uplink_view \<Rightarrow> path_candidate"
    by (auto split: option.splits)
  show ?thesis
    unfolding rank_paths_def Let_def set_js_sort asn live mf mem_Collect_eq choose
    by (cases c) (auto simp: workable_def)
qed

lemma rank_paths_complete:
  assumes "workable inp e"
  obtains c where "c \<in> set (rank_paths lc inp)" and "pc_endpoint c = e"
proof -
  have "uplink_for lc (filter uv_selectable (ps_uplinks inp)) e \<noteq> None"
    using assms by (auto simp: uplink_for_None workable_def)
  then obtain u where "uplink_for lc (filter uv_selectable (ps_uplinks inp)) e = Some u" by blast
  with assms that [of "\<lparr>pc_endpoint = e, pc_uplink = u, pc_rank = of_int (scope_rank (ep_scope e))
      - (if on_our_asn inp e then 1 / 2 else 0), pc_same_asn = on_our_asn inp e\<rparr>"]
  show thesis by (simp add: rank_paths_candidates)
qed

section \<open>Properties\<close>

text \<open>The narrowest working path always wins, during normal operation too: whenever some endpoint of a peer can be
  reached over a usable uplink and is not serving a backoff a path is selected, no workable endpoint has a
  narrower scope than the selected one, an endpoint on one of our own networks is preferred within a scope,
  and the uplink that carries it reaches that scope by measurement.\<close>

theorem narrowest_working_path_wins:
  "(select_path lc inp = None \<longleftrightarrow> (\<forall>e. \<not> workable inp e))
   \<and> (\<forall>c. select_path lc inp = Some c \<longrightarrow> workable inp (pc_endpoint c)
        \<and> pc_uplink c \<in> set (ps_uplinks inp) \<and> uv_selectable (pc_uplink c)
        \<and> ep_scope (pc_endpoint c) \<in> set (uv_live_scopes (pc_uplink c))
        \<and> (\<forall>e. workable inp e \<longrightarrow> ep_scope (pc_endpoint c) \<le> ep_scope e
              \<and> (ep_scope e = ep_scope (pc_endpoint c) \<and> on_our_asn inp e \<longrightarrow> on_our_asn inp (pc_endpoint c))))"
proof (cases "rank_paths lc inp")
  case Nil
  then have "\<not> workable inp e" for e using rank_paths_complete [of inp e lc] by auto
  with Nil show ?thesis by (simp add: select_path_def)
next
  case (Cons c cs)
  then have c: "c \<in> set (rank_paths lc inp)" by simp
  note k = c [unfolded rank_paths_candidates]
  have u: "pc_uplink c \<in> set (filter uv_selectable (ps_uplinks inp))" "ep_scope (pc_endpoint c) \<in> set (uv_live_scopes (pc_uplink c))"
    using uplink_for_Some k by blast+
  have best: "ep_scope (pc_endpoint c) \<le> ep_scope e
      \<and> (ep_scope e = ep_scope (pc_endpoint c) \<and> on_our_asn inp e \<longrightarrow> on_our_asn inp (pc_endpoint c))" if w: "workable inp e" for e
  proof -
    obtain x where x: "x \<in> set (rank_paths lc inp)" "pc_endpoint x = e" by (rule rank_paths_complete [OF w])
    have "pc_rank c \<le> pc_rank x"
      by (rule candidate_sort.first_least [where lc = lc]) (use x(1) Cons in \<open>auto simp: rank_paths_def Let_def\<close>)
    then show ?thesis using k x(1) [unfolded rank_paths_candidates x(2)]
      by (auto simp: less_eq_reachability_scope_def split: if_splits)
  qed
  show ?thesis using Cons k u best by (auto simp: select_path_def)
qed

definition sample_endpoint :: "reachability_scope \<Rightarrow> int option \<Rightarrow> int \<Rightarrow> peer_endpoint" where
  "sample_endpoint s asn failures = \<lparr>ep_address = ''grpc://a'', ep_scope = s, ep_asn = asn, ep_isp = None, ep_region = None,
     ep_inbound_capable = None, ep_last_ok_at_ms = Some 0, ep_last_attempt_at_ms = Some 990, ep_rtt_ms = None,
     ep_consecutive_failures = Some failures\<rparr>"

definition sample_selection :: path_selection_input where
  "sample_selection = \<lparr>ps_peer = \<lparr>pr_server_id = ''jbs1b'', pr_public_key = [6], pr_display_name = None, pr_software = None,
       pr_version = None, pr_endpoints = [sample_endpoint GLOBAL None 0, sample_endpoint ISP_LOCAL (Some 7) 0, sample_endpoint LAN None 5],
       pr_trust = NORMAL, pr_planes = None, pr_accepted_classes = None, pr_communities = None, pr_channels = None,
       pr_vouches = None, pr_is_bridge = None, pr_bridged_asns = None, pr_first_seen_ms = None, pr_last_seen_ms = 0,
       pr_quota_breaches = None, pr_blocked_reason = None\<rparr>,
     ps_uplinks = [\<lparr>uv_id = ''u'', uv_source_ip = '''', uv_asn = Some 7, uv_isp_name = None, uv_priority = 0,
       uv_live_scopes = [LAN, ISP_LOCAL, GLOBAL], uv_selectable = True\<rparr>], ps_now_ms = 1000, ps_jitter01 = 0\<rparr>"

text \<open>The LAN endpoint has failed five times and is benched, so the ISP-local one is taken over the global one.\<close>

theorem narrowest_working_path_wins_witness:
  "\<exists>c. select_path (\<lambda>a b. 0) sample_selection = Some c \<and> ep_scope (pc_endpoint c) = ISP_LOCAL"
proof -
  have benched: "is_backing_off (sample_endpoint LAN None 5) 1000 0"
    by (simp add: is_backing_off_def sample_endpoint_def ENDPOINT_FAILURE_THRESHOLD_def endpoint_backoff_ms_def Let_def
        ENDPOINT_INITIAL_BACKOFF_MS_def ENDPOINT_MAX_BACKOFF_MS_def)
  have w: "workable sample_selection (sample_endpoint ISP_LOCAL (Some 7) 0)"
    by (simp add: workable_def sample_selection_def is_backing_off_def sample_endpoint_def ENDPOINT_FAILURE_THRESHOLD_def)
  then obtain c where c: "select_path (\<lambda>a b. 0) sample_selection = Some c"
    using narrowest_working_path_wins [of "\<lambda>a b. 0" sample_selection] by blast
  with w have "workable sample_selection (pc_endpoint c)" "ep_scope (pc_endpoint c) \<le> ISP_LOCAL"
    using narrowest_working_path_wins [of "\<lambda>a b. 0" sample_selection] by (auto simp: sample_endpoint_def)
  then have "pc_endpoint c \<in> {sample_endpoint GLOBAL None 0, sample_endpoint ISP_LOCAL (Some 7) 0, sample_endpoint LAN None 5}"
    "pc_endpoint c \<noteq> sample_endpoint LAN None 5" "ep_scope (pc_endpoint c) \<le> ISP_LOCAL"
    using benched by (auto simp: workable_def sample_selection_def)
  then have "ep_scope (pc_endpoint c) = ISP_LOCAL" by (auto simp: sample_endpoint_def less_eq_reachability_scope_def)
  with c show ?thesis by blast
qed

section \<open>What the probes say\<close>

type_synonym probe_round = "int \<times> scope_probe_result list"

fun probe_all :: "int \<Rightarrow> probe_round list \<Rightarrow> uplink_health \<Rightarrow> uplink_health" where
  "probe_all k [] h = h"
| "probe_all k ((t, rs) # rounds) h = probe_all k rounds (fst (apply_probe_round h rs k t))"

text \<open>The results of one scope, oldest first, and how many failures there have been since the last success.\<close>

definition outcomes :: "reachability_scope \<Rightarrow> probe_round list \<Rightarrow> bool list" where
  "outcomes s rounds = List.map_filter (\<lambda>(t, rs). map_option sp_reachable (map_of (rev (map (\<lambda>r. (sp_scope r, r)) rs)) s)) rounds"

definition failures_since :: "bool list \<Rightarrow> nat" where
  "failures_since os = length (takeWhile Not (rev os))"

definition tracks :: "int \<Rightarrow> bool list \<Rightarrow> scope_health \<Rightarrow> bool" where
  "tracks k os h \<longleftrightarrow> sh_consecutive_failures h = int (failures_since os)
     \<and> (sh_live h \<longleftrightarrow> True \<in> set os \<and> int (failures_since os) < k)"

lemma outcomes_Cons: "outcomes s (r # rounds) = outcomes s [r] @ outcomes s rounds"
  by (simp add: outcomes_def List.map_filter_simps split: option.splits)

lemma probe_scope_tracks:
  assumes "tracks k os h" and "0 < k"
  shows "tracks k (os @ outcomes (sh_scope h) [(t, rs)]) (probe_scope k t rs h) \<and> sh_scope (probe_scope k t rs h) = sh_scope h"
  using assms
  by (auto simp: tracks_def probe_scope_def outcomes_def failures_since_def List.map_filter_simps Let_def split: option.splits)

lemma probe_all_tracks:
  assumes "\<forall>h \<in> set (uh_scopes health). tracks k (os (sh_scope h)) h" and "0 < k"
  shows "\<forall>h \<in> set (uh_scopes (probe_all k rounds health)). tracks k (os (sh_scope h) @ outcomes (sh_scope h) rounds) h"
    and "map sh_scope (uh_scopes (probe_all k rounds health)) = map sh_scope (uh_scopes health)"
    and "uh_forced_state (probe_all k rounds health) = uh_forced_state health"
proof -
  have "(\<forall>h \<in> set (uh_scopes (probe_all k rounds health)). tracks k (os (sh_scope h) @ outcomes (sh_scope h) rounds) h)
      \<and> map sh_scope (uh_scopes (probe_all k rounds health)) = map sh_scope (uh_scopes health)
      \<and> uh_forced_state (probe_all k rounds health) = uh_forced_state health"
    using assms(1)
  proof (induction rounds arbitrary: health os)
    case Nil
    then show ?case by (simp add: outcomes_def List.map_filter_simps)
  next
    case (Cons r rounds)
    obtain t rs where r: "r = (t, rs)" by (cases r)
    let ?h1 = "fst (apply_probe_round health rs k t)"
    have scopes: "uh_scopes ?h1 = map (probe_scope k t rs) (uh_scopes health)" "uh_forced_state ?h1 = uh_forced_state health"
      by (simp_all add: apply_probe_round_def Let_def)
    have same: "sh_scope (probe_scope k t rs h) = sh_scope h" for h
      by (simp add: probe_scope_def Let_def split: option.splits)
    have "\<forall>h \<in> set (uh_scopes ?h1). tracks k (os (sh_scope h) @ outcomes (sh_scope h) [(t, rs)]) h"
      using Cons.prems probe_scope_tracks [OF _ assms(2)] by (simp add: scopes same)
    from Cons.IH [OF this] scopes same show ?case
      unfolding outcomes_Cons [of _ r rounds] by (simp add: r comp_def)
  qed
  then show "\<forall>h \<in> set (uh_scopes (probe_all k rounds health)). tracks k (os (sh_scope h) @ outcomes (sh_scope h) rounds) h"
    "map sh_scope (uh_scopes (probe_all k rounds health)) = map sh_scope (uh_scopes health)"
    "uh_forced_state (probe_all k rounds health) = uh_forced_state health" by blast+
qed

text \<open>What an uplink can reach is measured, never declared: while no operator override is set, a declared scope counts
  as live exactly when it has answered a probe and fewer than the threshold of probes have failed since its
  last answer; so one lost packet never tears it down, the first answer brings it back, and the uplink is a
  candidate for path selection exactly when some scope is live.\<close>

theorem live_scopes_follow_probes:
  assumes "0 < k"
  shows "(s \<in> set (live_scopes (probe_all k rounds (initial_health declared))) \<longleftrightarrow>
      s \<in> set declared \<and> True \<in> set (outcomes s rounds) \<and> int (failures_since (outcomes s rounds)) < k)
    \<and> (rounds \<noteq> [] \<longrightarrow> (is_selectable (probe_all k rounds (initial_health declared)) \<longleftrightarrow>
        live_scopes (probe_all k rounds (initial_health declared)) \<noteq> []))"
proof -
  let ?h = "probe_all k rounds (initial_health declared)"
  have "\<forall>h \<in> set (uh_scopes (initial_health declared)). tracks k [] h"
    using assms by (simp add: initial_health_def tracks_def failures_since_def)
  note t = probe_all_tracks [where os = "\<lambda>_. []", OF this assms, of rounds]
  have scopes: "map sh_scope (uh_scopes ?h) = declared" using t(2) by (simp add: initial_health_def comp_def)
  have forced: "uh_forced_state ?h = None" using t(3) by (simp add: initial_health_def)
  have state: "uh_state ?h = (if rounds = [] then UnknownState else derive_state (uh_scopes ?h))"
  proof (cases rounds rule: rev_cases)
    case (snoc rs r)
    obtain u res where r: "r = (u, res)" by (cases r)
    have step: "probe_all k (as @ [r]) h = fst (apply_probe_round (probe_all k as h) res k u)" for as h
      by (induction as arbitrary: h) (auto simp: r)
    have "uh_forced_state (probe_all k rs (initial_health declared)) = None"
      using probe_all_tracks(3) [where os = "\<lambda>_. []", OF \<open>\<forall>h \<in> set (uh_scopes (initial_health declared)). tracks k [] h\<close> assms]
      by (simp add: initial_health_def)
    then show ?thesis by (simp add: snoc step apply_probe_round_def Let_def)
  qed (simp add: initial_health_def)
  have down: "uh_state ?h = Down \<Longrightarrow> filter sh_live (uh_scopes ?h) = []"
    by (auto simp: state derive_state_def Let_def split: if_splits)
  have live: "set (live_scopes ?h) = sh_scope ` set (filter sh_live (uh_scopes ?h))"
    using down by (cases "uh_state ?h = Down") (simp_all add: live_scopes_def forced)
  have "s \<in> set (live_scopes ?h) \<longleftrightarrow> s \<in> sh_scope ` set (uh_scopes ?h) \<and> True \<in> set (outcomes s rounds)
      \<and> int (failures_since (outcomes s rounds)) < k"
    using t(1) unfolding live by (auto simp: tracks_def)
  moreover have "sh_scope ` set (uh_scopes ?h) = set declared" using scopes by (metis set_map)
  moreover have "is_selectable ?h \<longleftrightarrow> live_scopes ?h \<noteq> []" if "rounds \<noteq> []"
  proof -
    have "is_selectable ?h \<longleftrightarrow> filter sh_live (uh_scopes ?h) \<noteq> []"
      using that by (auto simp: is_selectable_def state derive_state_def Let_def split: if_splits)
    moreover have "live_scopes ?h \<noteq> [] \<longleftrightarrow> set (live_scopes ?h) \<noteq> {}" by simp
    ultimately show ?thesis unfolding live by (auto simp: filter_empty_conv)
  qed
  ultimately show ?thesis by blast
qed

definition sample_probe :: "int \<Rightarrow> bool \<Rightarrow> probe_round" where
  "sample_probe t ok = (t, [\<lparr>sp_scope = ISP_LOCAL, sp_reachable = ok, sp_rtt_ms = None\<rparr>])"

theorem live_scopes_follow_probes_witness:
  "ISP_LOCAL \<in> set (live_scopes (probe_all 3 [sample_probe 1 True, sample_probe 2 False, sample_probe 3 False] (initial_health [ISP_LOCAL, GLOBAL])))
   \<and> ISP_LOCAL \<notin> set (live_scopes (probe_all 3 [sample_probe 1 True, sample_probe 2 False, sample_probe 3 False, sample_probe 4 False]
       (initial_health [ISP_LOCAL, GLOBAL])))"
  using live_scopes_follow_probes [of 3 ISP_LOCAL "[sample_probe 1 True, sample_probe 2 False, sample_probe 3 False]" "[ISP_LOCAL, GLOBAL]"]
    live_scopes_follow_probes [of 3 ISP_LOCAL "[sample_probe 1 True, sample_probe 2 False, sample_probe 3 False, sample_probe 4 False]" "[ISP_LOCAL, GLOBAL]"]
  by (simp add: outcomes_def sample_probe_def List.map_filter_simps failures_since_def)

end
