(* ===== verification/JB_Bridge.thy ===== *)
theory JB_Bridge
  imports JB_Transport
begin

text \<open>
  The bridge between two networks: the relay policy \<open>backend/src/core/domain/transport/bridge-policy.ts\<close> and
  the service \<open>backend/src/core/app/bridge-relay.ts\<close> that keeps its buckets and counters. Which uplink reaches
  a peer is asked of the path selector, here the parameter \<open>uplink_of\<close> (\<open>select(peer)?.uplinkId\<close>).
\<close>

section \<open>Policy\<close>

record bridge_config =
  bc_enabled :: bool
  bc_pairs :: "(string \<times> string) list"
  bc_classes :: "int list"
  bc_envelopes_per_min :: int
  bc_bytes_per_min :: int

definition DISABLED_BRIDGE :: bridge_config where
  "DISABLED_BRIDGE = \<lparr>bc_enabled = False, bc_pairs = [], bc_classes = [], bc_envelopes_per_min = 0, bc_bytes_per_min = 0\<rparr>"

datatype relay_refusal = CLASS_EXCLUDED | QUOTA | LOOP | SAME_ISLAND | DISABLED

datatype relay_decision = Relay "string list" | NoRelay relay_refusal

record pair_bucket =
  pb_envelopes :: bucket_state
  pb_bytes :: bucket_state

record relay_input =
  ri_config :: bridge_config
  ri_via_uplink_id :: string
  ri_priority :: int
  ri_bytes :: nat
  ri_trusted_uplinks :: "string list"
  ri_buckets :: "(string, pair_bucket) jsmap"
  ri_now_ms :: int

definition bridge_readiness :: "bridge_config \<Rightarrow> string list \<Rightarrow> bool \<times> string option" where
  "bridge_readiness config trusted =
     (if \<not> bc_enabled config then (False, Some ''bridging is not enabled'')
      else if length (bc_pairs config) = 0 then (False, Some ''no uplink pairs configured'')
      else if \<exists>(left, right) \<in> set (bc_pairs config). left \<in> set trusted \<and> right \<in> set trusted then (True, None)
      else (False, Some ''no uplink pair has a TRUSTED peer on both sides''))"

definition envelopes_per_min_for :: "bridge_config \<Rightarrow> int \<Rightarrow> int" where
  "envelopes_per_min_for config prio =
     (if prio \<notin> set (bc_classes config) then 0
      else if prio = PRIO_BULK then bc_envelopes_per_min config div 2 else bc_envelopes_per_min config)"

definition bytes_per_min_for :: "bridge_config \<Rightarrow> int \<Rightarrow> int" where
  "bytes_per_min_for config prio =
     (if prio \<notin> set (bc_classes config) then 0
      else if prio = PRIO_BULK then bc_bytes_per_min config div 2 else bc_bytes_per_min config)"

text \<open>\<open>a <= b\<close> on strings compares UTF-16 code units.\<close>

fun utf16_of :: "nat list \<Rightarrow> nat list" where
  "utf16_of [] = []"
| "utf16_of (a # xs) =
     (if a < 128 then a # utf16_of xs
      else if a < 224 then (case xs of b # ys \<Rightarrow> (a mod 32 * 64 + b mod 64) # utf16_of ys | [] \<Rightarrow> [])
      else if a < 240 then (case xs of b # c # ys \<Rightarrow> (a mod 16 * 4096 + b mod 64 * 64 + c mod 64) # utf16_of ys | _ \<Rightarrow> [])
      else (case xs of
          b # c # d # ys \<Rightarrow>
            let cp = a mod 8 * 262144 + b mod 64 * 4096 + c mod 64 * 64 + d mod 64 - 65536
            in (55296 + cp div 1024) # (56320 + cp mod 1024) # utf16_of ys
        | _ \<Rightarrow> []))"

fun list_le :: "nat list \<Rightarrow> nat list \<Rightarrow> bool" where
  "list_le [] ys = True"
| "list_le (x # xs) [] = False"
| "list_le (x # xs) (y # ys) = (x < y \<or> x = y \<and> list_le xs ys)"

definition js_string_le :: "string \<Rightarrow> string \<Rightarrow> bool" where
  "js_string_le a b = list_le (utf16_of (map of_char a)) (utf16_of (map of_char b))"

definition pair_key :: "string \<Rightarrow> string \<Rightarrow> int \<Rightarrow> string" where
  "pair_key a b prio =
     (case (if js_string_le a b then (a, b) else (b, a)) of (lo, hi) \<Rightarrow> lo @ ''::'' @ hi @ ''::'' @ js_string_of_int prio)"

definition fresh_bucket :: "bridge_config \<Rightarrow> int \<Rightarrow> int \<Rightarrow> pair_bucket" where
  "fresh_bucket config prio now_ms =
     \<lparr>pb_envelopes = new_bucket (of_int (envelopes_per_min_for config prio)) now_ms,
      pb_bytes = new_bucket (of_int (bytes_per_min_for config prio)) now_ms\<rparr>"

text \<open>\<open>[...new Set(values)]\<close> keeps first occurrences.\<close>

definition unique :: "'a list \<Rightarrow> 'a list" where
  "unique xs = rev (remdups (rev xs))"

definition partners :: "bridge_config \<Rightarrow> string \<Rightarrow> string list" where
  "partners config via = List.map_filter (\<lambda>(left, right).
     if left = via \<and> right \<noteq> via then Some right
     else if right = via \<and> left \<noteq> via then Some left else None) (bc_pairs config)"

text \<open>One partner: charge the bucket of the pair, and relay when it had room.\<close>

definition charge_partner ::
  "relay_input \<Rightarrow> string \<Rightarrow> string list \<times> (string, pair_bucket) jsmap \<Rightarrow> string list \<times> (string, pair_bucket) jsmap" where
  "charge_partner inp partner = (\<lambda>(accepted, buckets).
     if partner \<notin> set (ri_trusted_uplinks inp) \<or> ri_via_uplink_id inp \<notin> set (ri_trusted_uplinks inp) then (accepted, buckets)
     else
       let key = pair_key (ri_via_uplink_id inp) partner (ri_priority inp);
           current = nullish (map_of buckets key) (fresh_bucket (ri_config inp) (ri_priority inp) (ri_now_ms inp));
           verdict = consume_pair \<lparr>pi_envelopes = pb_envelopes current, pi_bytes = pb_bytes current, pi_envelope_cost = 1,
             pi_envelopes_per_minute = of_int (envelopes_per_min_for (ri_config inp) (ri_priority inp)),
             pi_byte_cost = of_nat (ri_bytes inp),
             pi_bytes_per_minute = of_int (bytes_per_min_for (ri_config inp) (ri_priority inp)), pi_now_ms = ri_now_ms inp\<rparr>
       in (if pd_allowed verdict then accepted @ [partner] else accepted,
           al_set key \<lparr>pb_envelopes = pd_envelopes verdict, pb_bytes = pd_bytes verdict\<rparr> buckets))"

definition decide_relay :: "relay_input \<Rightarrow> relay_decision \<times> (string, pair_bucket) jsmap" where
  "decide_relay inp =
     (let config = ri_config inp; via = ri_via_uplink_id inp in
      if \<not> fst (bridge_readiness config (ri_trusted_uplinks inp)) then (NoRelay DISABLED, ri_buckets inp)
      else if ri_priority inp \<notin> set (bc_classes config) then (NoRelay CLASS_EXCLUDED, ri_buckets inp)
      else
        let ps = partners config via in
        if ps = []
        then let names_itself = \<exists>(left, right) \<in> set (bc_pairs config). left = via \<and> right = via
             in (NoRelay (if names_itself then LOOP else SAME_ISLAND), ri_buckets inp)
        else (case fold (charge_partner inp) (unique ps) ([], ri_buckets inp) of (accepted, buckets) \<Rightarrow>
            if accepted = [] then (NoRelay QUOTA, buckets) else (Relay accepted, buckets)))"

section \<open>The relay service\<close>

record relay_tally =
  rt_envelopes :: nat
  rt_bytes :: nat

record bridge_state =
  bs_uplink_by_peer :: "(string, string) jsmap"
  bs_trusted_uplinks :: "string list"
  bs_buckets :: "(string, pair_bucket) jsmap"
  bs_relayed :: "(string, relay_tally) jsmap"
  bs_refused :: "relay_refusal \<Rightarrow> nat"

definition new_bridge :: bridge_state where
  "new_bridge = \<lparr>bs_uplink_by_peer = [], bs_trusted_uplinks = [], bs_buckets = [], bs_relayed = [], bs_refused = (\<lambda>_. 0)\<rparr>"

definition some_uplink :: "(peer_record \<Rightarrow> string option) \<Rightarrow> peer_record \<Rightarrow> string option" where
  "some_uplink uplink_of peer = (if truthy (uplink_of peer) then uplink_of peer else None)"

definition bridge_refresh ::
  "(peer_record \<Rightarrow> string option) \<Rightarrow> directory \<Rightarrow> bridge_state \<Rightarrow> bridge_state" where
  "bridge_refresh uplink_of peers bs =
     (case fold (\<lambda>peer (by_peer, trusted). case some_uplink uplink_of peer of
          None \<Rightarrow> (by_peer, trusted)
        | Some u \<Rightarrow> (al_set (pr_server_id peer) u by_peer,
            if pr_trust peer = TRUSTED \<and> u \<notin> set trusted then trusted @ [u] else trusted)) (dir_all peers) ([], []) of
        (by_peer, trusted) \<Rightarrow> bs\<lparr>bs_uplink_by_peer := by_peer, bs_trusted_uplinks := trusted\<rparr>)"

definition should_relay ::
  "bridge_config \<Rightarrow> int \<Rightarrow> parsed_envelope \<Rightarrow> string \<Rightarrow> nat \<Rightarrow> bridge_state \<Rightarrow> relay_decision \<times> bridge_state" where
  "should_relay config now_ms envelope via byts bs =
     (case decide_relay \<lparr>ri_config = config, ri_via_uplink_id = via, ri_priority = priority envelope, ri_bytes = byts,
          ri_trusted_uplinks = bs_trusted_uplinks bs, ri_buckets = bs_buckets bs, ri_now_ms = now_ms\<rparr> of
        (decision, buckets) \<Rightarrow>
          (decision, bs\<lparr>bs_buckets := buckets, bs_refused := (case decision of
             NoRelay reason \<Rightarrow> (bs_refused bs)(reason := bs_refused bs reason + 1) | Relay _ \<Rightarrow> bs_refused bs)\<rparr>))"

definition uplink_for_peer ::
  "(peer_record \<Rightarrow> string option) \<Rightarrow> directory \<Rightarrow> string \<Rightarrow> bridge_state \<Rightarrow> string option \<times> bridge_state" where
  "uplink_for_peer uplink_of peers peer_id bs =
     (if truthy (map_of (bs_uplink_by_peer bs) peer_id) then (map_of (bs_uplink_by_peer bs) peer_id, bs)
      else (case dir_get peer_id peers of
          None \<Rightarrow> (None, bs)
        | Some peer \<Rightarrow> (case some_uplink uplink_of peer of
              None \<Rightarrow> (None, bs)
            | Some u \<Rightarrow> (Some u, bs\<lparr>bs_uplink_by_peer := al_set peer_id u (bs_uplink_by_peer bs)\<rparr>))))"

definition peers_on ::
  "(peer_record \<Rightarrow> string option) \<Rightarrow> directory \<Rightarrow> string \<Rightarrow> bridge_state \<Rightarrow> string list \<times> bridge_state" where
  "peers_on uplink_of peers uplink_id bs =
     (let bs' = (if bs_uplink_by_peer bs = [] then bridge_refresh uplink_of peers bs else bs)
      in (map fst (filter (\<lambda>(_, u). u = uplink_id) (bs_uplink_by_peer bs')), bs'))"

definition record_relay :: "string \<Rightarrow> string \<Rightarrow> int \<Rightarrow> nat \<Rightarrow> bridge_state \<Rightarrow> bridge_state" where
  "record_relay from_uplink to_uplink prio byts bs =
     (let key = from_uplink @ ''>'' @ to_uplink @ ''::'' @ js_string_of_int prio;
          tally = nullish (map_of (bs_relayed bs) key) \<lparr>rt_envelopes = 0, rt_bytes = 0\<rparr>
      in bs\<lparr>bs_relayed := al_set key \<lparr>rt_envelopes = rt_envelopes tally + 1, rt_bytes = rt_bytes tally + byts\<rparr> (bs_relayed bs)\<rparr>)"

definition grant_for :: "bridge_config \<Rightarrow> int \<Rightarrow> int \<times> int" where
  "grant_for config prio = (envelopes_per_min_for config prio, bytes_per_min_for config prio)"

definition headroom_for :: "string \<Rightarrow> string \<Rightarrow> int \<Rightarrow> bridge_state \<Rightarrow> pair_bucket option" where
  "headroom_for a b prio bs = map_of (bs_buckets bs) (pair_key a b prio)"

section \<open>What is relayed\<close>

lemma set_partners: "u \<in> set (partners config via) \<longleftrightarrow> u \<noteq> via \<and> ((via, u) \<in> set (bc_pairs config) \<or> (u, via) \<in> set (bc_pairs config))"
proof -
  have "set (List.map_filter f xs) = {y. \<exists>x \<in> set xs. f x = Some y}" for f :: "string \<times> string \<Rightarrow> string option" and xs
    by (induction xs) (auto simp: List.map_filter_simps split: option.splits)
  then show ?thesis by (force simp: partners_def split: if_splits)
qed

lemma set_unique [simp]: "set (unique xs) = set xs"
  by (simp add: unique_def)

lemma charge_partners:
  assumes "fold (charge_partner inp) ps (acc, buckets) = (acc', buckets')"
  shows "set acc' \<subseteq> set acc \<union> {p \<in> set ps. p \<in> set (ri_trusted_uplinks inp) \<and> ri_via_uplink_id inp \<in> set (ri_trusted_uplinks inp)}"
  using assms
proof (induction ps arbitrary: acc buckets)
  case (Cons p ps)
  obtain a b where step: "charge_partner inp p (acc, buckets) = (a, b)" by (rule prod.exhaust)
  then have "set a \<subseteq> set acc \<union> {q. q = p \<and> p \<in> set (ri_trusted_uplinks inp) \<and> ri_via_uplink_id inp \<in> set (ri_trusted_uplinks inp)}"
    by (auto simp: charge_partner_def Let_def split: if_splits)
  with Cons.IH [of a b] Cons.prems step show ?case by auto
qed simp

text \<open>A relay goes only across a configured pair, between networks with a trusted peer on each, and never back.\<close>

lemma relay_targets:
  assumes "decide_relay inp = (Relay us, buckets)"
  shows "bc_enabled (ri_config inp)" and "ri_priority inp \<in> set (bc_classes (ri_config inp))" and "us \<noteq> []"
    and "\<forall>u \<in> set us. u \<noteq> ri_via_uplink_id inp \<and> u \<in> set (ri_trusted_uplinks inp) \<and> ri_via_uplink_id inp \<in> set (ri_trusted_uplinks inp)
      \<and> ((ri_via_uplink_id inp, u) \<in> set (bc_pairs (ri_config inp)) \<or> (u, ri_via_uplink_id inp) \<in> set (bc_pairs (ri_config inp)))"
proof -
  have ready: "fst (bridge_readiness (ri_config inp) (ri_trusted_uplinks inp))" "ri_priority inp \<in> set (bc_classes (ri_config inp))"
    and run: "fold (charge_partner inp) (unique (partners (ri_config inp) (ri_via_uplink_id inp))) ([], ri_buckets inp) = (us, buckets)"
    and ne: "us \<noteq> []"
    using assms by (auto simp: decide_relay_def Let_def split: if_splits prod.splits)
  show "bc_enabled (ri_config inp)" using ready(1) by (auto simp: bridge_readiness_def split: if_splits)
  show "ri_priority inp \<in> set (bc_classes (ri_config inp))" by (rule ready)
  show "us \<noteq> []" by (rule ne)
  show "\<forall>u \<in> set us. u \<noteq> ri_via_uplink_id inp \<and> u \<in> set (ri_trusted_uplinks inp) \<and> ri_via_uplink_id inp \<in> set (ri_trusted_uplinks inp)
      \<and> ((ri_via_uplink_id inp, u) \<in> set (bc_pairs (ri_config inp)) \<or> (u, ri_via_uplink_id inp) \<in> set (bc_pairs (ri_config inp)))"
    using charge_partners [OF run] by (auto simp: set_partners)
qed


section \<open>The classes do not share an allowance\<close>

lemma pair_key_priority: "pair_key a b p = pair_key c d q \<Longrightarrow> p = q"
proof -
  have key: "\<exists>u. pair_key a b p = u @ CHR '':'' # js_string_of_int p" for a b p
    by (cases "js_string_le a b") (simp_all add: pair_key_def; metis append.assoc append_Cons append_Nil)+
  assume eq: "pair_key a b p = pair_key c d q"
  from key obtain u where "pair_key a b p = u @ CHR '':'' # js_string_of_int p" by blast
  moreover from key obtain v where "pair_key c d q = v @ CHR '':'' # js_string_of_int q" by blast
  ultimately have "rev (js_string_of_int p) @ CHR '':'' # rev u = rev (js_string_of_int q) @ CHR '':'' # rev v"
    using eq by (metis append.assoc append_Cons append_Nil rev.simps(2) rev_append)
  then show "p = q" by (subst (asm) delimited_eq) (auto simp: digits_no_colon intro: js_string_of_int_inj)
qed

text \<open>Two sets of buckets that agree on one class decide that class alike.\<close>

definition class_agrees :: "int \<Rightarrow> (string, pair_bucket) jsmap \<Rightarrow> (string, pair_bucket) jsmap \<Rightarrow> bool" where
  "class_agrees p B B' \<longleftrightarrow> (\<forall>a b. map_of B (pair_key a b p) = map_of B' (pair_key a b p))"

lemma charge_other_class:
  assumes "ri_priority inp \<noteq> p" and "fold (charge_partner inp) ps (acc, B) = (acc', B')"
  shows "class_agrees p B' B"
  using assms(2)
proof (induction ps arbitrary: acc B)
  case (Cons q ps)
  obtain acc1 B1 where step: "charge_partner inp q (acc, B) = (acc1, B1)" by (rule prod.exhaust)
  have "class_agrees p B1 B"
    using step assms(1) by (auto simp: charge_partner_def class_agrees_def Let_def dest: pair_key_priority split: if_splits)
  with Cons.IH [of acc1 B1] Cons.prems step show ?case by (simp add: class_agrees_def)
qed (simp add: class_agrees_def)

lemma charge_same_class:
  assumes "class_agrees (ri_priority inp) B C"
  shows "fst (fold (charge_partner inp) ps (acc, B)) = fst (fold (charge_partner inp) ps (acc, C))
    \<and> class_agrees (ri_priority inp) (snd (fold (charge_partner inp) ps (acc, B))) (snd (fold (charge_partner inp) ps (acc, C)))"
  using assms
proof (induction ps arbitrary: acc B C)
  case (Cons q ps)
  obtain acc1 B1 where stepB: "charge_partner inp q (acc, B) = (acc1, B1)" by (rule prod.exhaust)
  obtain acc2 C1 where stepC: "charge_partner inp q (acc, C) = (acc2, C1)" by (rule prod.exhaust)
  have "acc1 = acc2 \<and> class_agrees (ri_priority inp) B1 C1"
    using stepB stepC Cons.prems by (auto simp: charge_partner_def class_agrees_def Let_def split: if_splits)
  with Cons.IH [of B1 C1 acc1] stepB stepC show ?case by simp
qed simp

lemma decide_other_class:
  assumes "ri_priority inp \<noteq> p"
  shows "class_agrees p (snd (decide_relay inp)) (ri_buckets inp)"
  using charge_other_class [OF assms]
  by (auto simp: decide_relay_def Let_def class_agrees_def split: prod.splits)

lemma decide_same_class:
  assumes "class_agrees (ri_priority inp) (ri_buckets inp) C"
  shows "fst (decide_relay inp) = fst (decide_relay (inp\<lparr>ri_buckets := C\<rparr>))"
proof -
  have charge: "charge_partner (inp\<lparr>ri_buckets := C\<rparr>) = charge_partner inp"
    by (simp add: fun_eq_iff charge_partner_def)
  show ?thesis
    using charge_same_class [OF assms, of "unique (partners (ri_config inp) (ri_via_uplink_id inp))" "[]"]
    by (auto simp: decide_relay_def Let_def charge split: prod.splits)
qed

text \<open>A run of fanout decisions: the instant, the envelope, the uplink it came in on and its encoded size.\<close>

type_synonym relay_request = "int \<times> parsed_envelope \<times> string \<times> nat"

definition relay_one :: "bridge_config \<Rightarrow> relay_request \<Rightarrow> bridge_state \<Rightarrow> bridge_state" where
  "relay_one config r bs = (case r of (now_ms, envelope, via, byts) \<Rightarrow> snd (should_relay config now_ms envelope via byts bs))"

lemma relay_others:
  assumes "\<forall>(t, e, v, n) \<in> set traffic. priority e \<noteq> p"
  shows "class_agrees p (bs_buckets (fold (relay_one config) traffic bs)) (bs_buckets bs)
    \<and> bs_trusted_uplinks (fold (relay_one config) traffic bs) = bs_trusted_uplinks bs"
  using assms
proof (induction traffic arbitrary: bs)
  case (Cons r traffic)
  obtain t e v n where r: "r = (t, e, v, n)" by (cases r) auto
  let ?inp = "\<lparr>ri_config = config, ri_via_uplink_id = v, ri_priority = priority e, ri_bytes = n,
    ri_trusted_uplinks = bs_trusted_uplinks bs, ri_buckets = bs_buckets bs, ri_now_ms = t\<rparr>"
  have "priority e \<noteq> p" using Cons.prems by (simp add: r)
  then have "class_agrees p (snd (decide_relay ?inp)) (bs_buckets bs)"
    using decide_other_class [of ?inp p] by simp
  then have "class_agrees p (bs_buckets (relay_one config r bs)) (bs_buckets bs)"
    "bs_trusted_uplinks (relay_one config r bs) = bs_trusted_uplinks bs"
    by (simp_all add: relay_one_def r should_relay_def case_prod_beta)
  with Cons show ?case by (simp add: class_agrees_def)
qed (simp add: class_agrees_def)

text \<open>A backlog cannot starve an emergency on the bridge: whatever run of envelopes of other priority classes was
  relayed or refused before it, an envelope is relayed to the same uplinks, or refused for the same reason, as
  on the bridge that had seen none of them.\<close>

theorem backlog_cannot_starve_a_class:
  assumes "\<forall>(t, e, v, n) \<in> set traffic. priority e \<noteq> priority envelope"
  shows "fst (should_relay config now_ms envelope via byts (fold (relay_one config) traffic bs))
    = fst (should_relay config now_ms envelope via byts bs)"
proof -
  let ?bs = "fold (relay_one config) traffic bs"
  let ?inp = "\<lparr>ri_config = config, ri_via_uplink_id = via, ri_priority = priority envelope, ri_bytes = byts,
    ri_trusted_uplinks = bs_trusted_uplinks bs, ri_buckets = bs_buckets ?bs, ri_now_ms = now_ms\<rparr>"
  have "class_agrees (priority envelope) (bs_buckets ?bs) (bs_buckets bs)"
    and trusted: "bs_trusted_uplinks ?bs = bs_trusted_uplinks bs"
    using relay_others [OF assms] by blast+
  then have "fst (decide_relay ?inp) = fst (decide_relay (?inp\<lparr>ri_buckets := bs_buckets bs\<rparr>))"
    by (intro decide_same_class) simp
  then show ?thesis by (simp add: should_relay_def trusted case_prod_beta)
qed


text \<open>A bridge is never a chokepoint it has not earned: an envelope relayed leaves over at least one uplink, each
  a configured partner of the uplink it came in on and never that uplink itself, with a trusted peer on both
  sides, and only when bridging is enabled and the envelope's class is one of those the operator listed.\<close>

theorem relay_crosses_only_trusted_pairs:
  assumes "fst (should_relay config now_ms envelope via byts bs) = Relay us"
  shows "bc_enabled config \<and> priority envelope \<in> set (bc_classes config) \<and> us \<noteq> [] \<and> via \<notin> set us
    \<and> via \<in> set (bs_trusted_uplinks bs) \<and> set us \<subseteq> set (bs_trusted_uplinks bs)
    \<and> (\<forall>u \<in> set us. (via, u) \<in> set (bc_pairs config) \<or> (u, via) \<in> set (bc_pairs config))"
proof -
  obtain B where "decide_relay \<lparr>ri_config = config, ri_via_uplink_id = via, ri_priority = priority envelope, ri_bytes = byts,
      ri_trusted_uplinks = bs_trusted_uplinks bs, ri_buckets = bs_buckets bs, ri_now_ms = now_ms\<rparr> = (Relay us, B)"
    using assms by (auto simp: should_relay_def split: prod.splits)
  from relay_targets [OF this] show ?thesis by (cases us) auto
qed

definition sample_bridge_config :: bridge_config where
  "sample_bridge_config = \<lparr>bc_enabled = True, bc_pairs = [(''a'', ''b'')], bc_classes = [PRIO_BROADCAST, PRIO_BULK],
     bc_envelopes_per_min = 60, bc_bytes_per_min = 6000\<rparr>"

definition sample_bridge :: bridge_state where
  "sample_bridge = new_bridge\<lparr>bs_trusted_uplinks := [''a'', ''b'']\<rparr>"

definition sample_class :: "int \<Rightarrow> parsed_envelope" where
  "sample_class p = signed_envelope.extend (sample_envelope\<lparr>priority := p\<rparr>) (parsed_envelope.fields ''c'')"

lemma sample_class_priority [simp]: "priority (sample_class p) = p"
  by (simp add: sample_class_def signed_envelope.defs parsed_envelope.defs)

lemma sample_relay:
  "fst (should_relay sample_bridge_config 5 (sample_class PRIO_BROADCAST) ''a'' 10 sample_bridge) = Relay [''b'']"
  by (simp add: should_relay_def decide_relay_def Let_def sample_bridge_config_def sample_bridge_def new_bridge_def
      bridge_readiness_def partners_def List.map_filter_simps unique_def charge_partner_def fresh_bucket_def
      envelopes_per_min_for_def bytes_per_min_for_def consume_pair_def refill_def new_bucket_def PRIO_BROADCAST_def PRIO_BULK_def)

theorem relay_crosses_only_trusted_pairs_witness:
  "fst (should_relay sample_bridge_config 5 (sample_class PRIO_BROADCAST) ''a'' 10 sample_bridge) = Relay [''b'']
   \<and> ''a'' \<in> set (bs_trusted_uplinks sample_bridge) \<and> set [''b''] \<subseteq> set (bs_trusted_uplinks sample_bridge)"
  using sample_relay relay_crosses_only_trusted_pairs [OF sample_relay] by blast

text \<open>A thousand queued bulk envelopes leave the broadcast its relay.\<close>

theorem backlog_cannot_starve_a_class_witness:
  "fst (should_relay sample_bridge_config 5 (sample_class PRIO_BROADCAST) ''a'' 10
     (fold (relay_one sample_bridge_config) (replicate 1000 (4, sample_class PRIO_BULK, ''a'', 100)) sample_bridge)) = Relay [''b'']"
  using backlog_cannot_starve_a_class [of "replicate 1000 (4, sample_class PRIO_BULK, ''a'', 100)" "sample_class PRIO_BROADCAST"
      sample_bridge_config 5 "''a''" 10 sample_bridge] sample_relay
  by (simp add: PRIO_BULK_def PRIO_BROADCAST_def)

end
