(* ===== verification/JB_Pipeline.thy ===== *)
theory JB_Pipeline
  imports JB_Registry
begin

text \<open>
  The pure steps of the validation pipeline in \<open>backend/src/core/domain/pipeline\<close>: SIZE, ALG POLICY
  and PRIORITY (\<open>policy.ts\<close>), PARSE (\<open>parse.ts\<close>), CLOCK (\<open>clock-window.ts\<close>), SIGNATURE and
  CERTIFICATE (\<open>signature.ts\<close>), DEDUPE and REPLAY (\<open>dedupe.ts\<close>). The hash, the signature
  verification and Unicode normalisation are parameters, and what a step reads of the stores is an
  argument.
\<close>

section \<open>Steps 1, 6 and 7: policy lookups\<close>

definition PRIORITY_BY_NAME :: "registry_priority \<Rightarrow> int" where
  "PRIORITY_BY_NAME p = (case p of BROADCAST \<Rightarrow> 1 | DIRECT \<Rightarrow> 2 | CHECKIN \<Rightarrow> 3 | BULK \<Rightarrow> 4)"

definition KEY_ALG_BY_NAME :: "registry_key_alg \<Rightarrow> int" where
  "KEY_ALG_BY_NAME a = (case a of ED25519 \<Rightarrow> 1 | ML_DSA_44 \<Rightarrow> 2 | FALCON_512 \<Rightarrow> 3)"

definition priority_name :: "registry_priority \<Rightarrow> string" where
  "priority_name p = (case p of BROADCAST \<Rightarrow> ''BROADCAST'' | DIRECT \<Rightarrow> ''DIRECT'' | CHECKIN \<Rightarrow> ''CHECKIN'' | BULK \<Rightarrow> ''BULK'')"

definition CLASS_SIZE_BUDGET :: "int \<Rightarrow> nat option" where
  "CLASS_SIZE_BUDGET c = map_of [(1, 512), (2, 2048), (3, 512), (4, 131072)] c"

definition ABSOLUTE_MAX :: nat where "ABSOLUTE_MAX = 131072"

definition acceptSize :: "bytes \<Rightarrow> rejection + unit" where
  "acceptSize raw =
     (if length raw > ABSOLUTE_MAX
      then Inl (rejected TOO_LARGE (''envelope is '' @ js_string_of_int (int (length raw)) @ '' bytes, limit is ''
              @ js_string_of_int (int ABSOLUTE_MAX)) None)
      else if length raw = 0 then Inl (rejected MALFORMED ''envelope is empty'' None)
      else Inr ())"

definition domain_budget :: "domain_spec \<Rightarrow> nat" where
  "domain_budget spec = min (ds_max_bytes spec)
     (case CLASS_SIZE_BUDGET (PRIORITY_BY_NAME (ds_priority spec)) of None \<Rightarrow> ds_max_bytes spec | Some b \<Rightarrow> b)"

definition acceptDomainSize :: "bytes \<Rightarrow> domain_spec \<Rightarrow> rejection + unit" where
  "acceptDomainSize raw spec =
     (if length raw > domain_budget spec
      then Inl (rejected TOO_LARGE (''envelope is '' @ js_string_of_int (int (length raw)) @ '' bytes, budget for ''
              @ priority_name (ds_priority spec) @ '' is '' @ js_string_of_int (int (domain_budget spec))) None)
      else Inr ())"

definition acceptAlgPolicy :: "'a envelope_scheme \<Rightarrow> domain_spec \<Rightarrow> rejection + unit" where
  "acceptAlgPolicy env spec =
     (let permitted = map KEY_ALG_BY_NAME (ds_key_algs spec) in
      if key_alg env \<notin> set permitted
      then Inl (rejected ALG_NOT_PERMITTED ''key algorithm is not permitted for this domain'' (Some ''key_alg''))
      else Inr ())"

definition acceptPriority :: "'a envelope_scheme \<Rightarrow> domain_spec \<Rightarrow> rejection + unit" where
  "acceptPriority env spec =
     (let expected = PRIORITY_BY_NAME (ds_priority spec) in
      if expected \<noteq> priority env
      then Inl (rejected PRIORITY_MISMATCH ''priority does not match the class declared for this domain'' (Some ''priority''))
      else Inr ())"

section \<open>Step 2: parse\<close>

text \<open>The content identifier is derived here from the canonical bytes, never read from the wire.\<close>

definition parseEnvelope ::
  "(bytes \<Rightarrow> bytes) \<Rightarrow> (string \<Rightarrow> string) \<Rightarrow> bytes \<Rightarrow> rejection + (parsed_envelope \<times> bytes)" where
  "parseEnvelope sha nfc raw =
     (case decode_signed_envelope nfc raw of
        Inl e \<Rightarrow> Inl (rejected MALFORMED ''envelope could not be decoded'' None)
      | Inr decoded \<Rightarrow>
          let canonical = canonical_bytes nfc decoded
          in Inr (signed_envelope.extend decoded \<lparr>content_id = contentIdFromCanonical sha canonical\<rparr>, canonical))"

section \<open>Step 8: clock\<close>

definition DEFAULT_MAX_AGE_MS :: int where "DEFAULT_MAX_AGE_MS = 7 * 24 * 60 * 60 * 1000"
definition DEFAULT_MAX_SKEW_MS :: int where "DEFAULT_MAX_SKEW_MS = 10 * 60 * 1000"

record clock_window =
  max_age_ms :: int
  max_skew_ms :: int

definition DEFAULT_CLOCK_WINDOW :: clock_window where
  "DEFAULT_CLOCK_WINDOW = \<lparr>max_age_ms = DEFAULT_MAX_AGE_MS, max_skew_ms = DEFAULT_MAX_SKEW_MS\<rparr>"

definition acceptClock :: "int \<Rightarrow> int \<Rightarrow> clock_window \<Rightarrow> rejection + unit" where
  "acceptClock created now_ms window =
     (if created > now_ms + max_skew_ms window
      then Inl (rejected CLOCK_SKEW ''created_at_ms is too far in the future'' (Some ''created_at_ms''))
      else if created < now_ms - max_age_ms window
      then Inl (rejected CLOCK_SKEW ''created_at_ms is too far in the past'' (Some ''created_at_ms''))
      else Inr ())"

section \<open>Steps 9 and 10: signature and certificate\<close>

type_synonym verifier = "int \<Rightarrow> bytes \<Rightarrow> bytes \<Rightarrow> bytes \<Rightarrow> bool"

definition acceptSignature :: "verifier \<Rightarrow> signed_envelope \<Rightarrow> bytes \<Rightarrow> rejection + unit" where
  "acceptSignature verify env canonical =
     (if \<not> verify (key_alg env) (author_key env) canonical (signature env)
      then Inl (rejected BAD_SIGNATURE ''signature verification failed'' (Some ''signature''))
      else Inr ())"

text \<open>
  The certificate port: whether a certificate covers a key on a plane at an instant, and from when
  a revocation of the key takes effect.
\<close>

record certificate_port =
  certificate_at :: "int \<Rightarrow> bytes \<Rightarrow> int \<Rightarrow> bool"
  revocation_for :: "int \<Rightarrow> bytes \<Rightarrow> int option"

definition acceptCertificate :: "'a envelope_scheme \<Rightarrow> certificate_port \<Rightarrow> bool \<Rightarrow> rejection + unit" where
  "acceptCertificate env store requires_certificate =
     (if \<not> requires_certificate then Inr ()
      else let created_at = js_number (created_at_ms env) in
        if \<not> certificate_at store (plane env) (author_key env) created_at
        then Inl (rejected NO_CERTIFICATE ''author key is not certified'' None)
        else (case revocation_for store (plane env) (author_key env) of
            Some effective_from \<Rightarrow>
              if created_at \<ge> effective_from then Inl (rejected KEY_REVOKED ''author key was revoked'' None) else Inr ()
          | None \<Rightarrow> Inr ()))"

text \<open>The in-memory store behind the port, keyed by plane and key.\<close>

record key_certificate =
  kc_key :: bytes
  kc_plane :: int
  kc_issued_at_ms :: int

record key_revocation =
  kr_key :: bytes
  kr_plane :: int
  kr_effective_from_ms :: int

record cert_store =
  cs_certs :: "(string, key_certificate) jsmap"
  cs_revocations :: "(string, key_revocation) jsmap"

definition plane_key :: "int \<Rightarrow> bytes \<Rightarrow> string" where
  "plane_key p k = js_string_of_int p @ '':'' @ hex k"

definition cert_add :: "key_certificate \<Rightarrow> cert_store \<Rightarrow> cert_store" where
  "cert_add c st = st\<lparr>cs_certs := al_set (plane_key (kc_plane c) (kc_key c)) c (cs_certs st)\<rparr>"

definition cert_revoke :: "key_revocation \<Rightarrow> cert_store \<Rightarrow> cert_store" where
  "cert_revoke r st = st\<lparr>cs_revocations := al_set (plane_key (kr_plane r) (kr_key r)) r (cs_revocations st)\<rparr>"

definition in_memory_certificates :: "cert_store \<Rightarrow> certificate_port" where
  "in_memory_certificates st =
     \<lparr>certificate_at = (\<lambda>p k at_ms. case map_of (cs_certs st) (plane_key p k) of
          None \<Rightarrow> False | Some c \<Rightarrow> \<not> kc_issued_at_ms c > at_ms),
      revocation_for = (\<lambda>p k. map_option kr_effective_from_ms (map_of (cs_revocations st) (plane_key p k)))\<rparr>"

section \<open>Steps 11 and 12: dedupe and replay\<close>

definition acceptDedupe :: "bool \<Rightarrow> rejection + unit" where
  "acceptDedupe known = (if known then Inl (rejected DUPLICATE ''content already accepted'' None) else Inr ())"

definition acceptReplay :: "'a envelope_scheme \<Rightarrow> bool \<Rightarrow> (bytes \<Rightarrow> bytes \<Rightarrow> bool) \<Rightarrow> rejection + unit" where
  "acceptReplay env idempotent seen =
     (if idempotent then Inr ()
      else if length (nonce env) = 0
      then Inl (rejected REPLAY ''nonce is required for this domain'' (Some ''nonce''))
      else if seen (author_key env) (nonce env)
      then Inl (rejected REPLAY ''nonce has already been used'' None)
      else Inr ())"

section \<open>Facts of the steps\<close>

lemmas step_defs = acceptSize_def acceptDomainSize_def acceptAlgPolicy_def acceptPriority_def acceptClock_def
  acceptSignature_def acceptDedupe_def acceptReplay_def

lemma parseEnvelope_ok:
  "parseEnvelope sha nfc raw = Inr (env, canonical) \<longleftrightarrow> (\<exists>d. decode_signed_envelope nfc raw = Inr d \<and>
     canonical = canonical_bytes nfc d \<and>
     env = signed_envelope.extend d \<lparr>content_id = contentIdFromCanonical sha canonical\<rparr>)"
  by (auto simp: parseEnvelope_def Let_def split: sum.splits)

lemma truncate_extend [simp]: "signed_envelope.truncate (signed_envelope.extend d m) = d"
  by (cases d) (simp add: signed_envelope.extend_def signed_envelope.truncate_def)

lemma parse_truncate:
  "parseEnvelope sha nfc raw = Inr (env, canonical) \<Longrightarrow>
     decode_signed_envelope nfc raw = Inr (signed_envelope.truncate env)
     \<and> canonical = canonical_bytes nfc (signed_envelope.truncate env)
     \<and> content_id env = contentIdFromCanonical sha canonical"
  by (auto simp: parseEnvelope_ok) (simp add: signed_envelope.extend_def)

lemma acceptCertificate_ok:
  "acceptCertificate env store rc = Inr () \<longleftrightarrow> (rc \<longrightarrow>
     certificate_at store (plane env) (author_key env) (js_number (created_at_ms env)) \<and>
     (case revocation_for store (plane env) (author_key env) of None \<Rightarrow> True | Some t \<Rightarrow> js_number (created_at_ms env) < t))"
  by (auto simp: acceptCertificate_def Let_def split: option.splits)

lemma plane_key_inj: "plane_key p k = plane_key p' k' \<longleftrightarrow> p = p' \<and> k = k'"
proof
  have nc: "CHR '':'' \<notin> set (js_string_of_int z)" for z
    using digits_of_range [of "CHR '':''" "nat z"] digits_of_range [of "CHR '':''" "nat (- z)"]
    by (auto simp: js_string_of_int_def)
  assume "plane_key p k = plane_key p' k'"
  then have "js_string_of_int p @ CHR '':'' # hex k = js_string_of_int p' @ CHR '':'' # hex k'"
    by (simp add: plane_key_def)
  then show "p = p' \<and> k = k'" by (simp add: delimited_eq [OF nc nc] hex_inj js_string_of_int_inj)
qed simp

section \<open>Properties\<close>

text \<open>The clock window is exactly ten minutes ahead and seven days behind: an envelope passes step 8 if
  and only if it was created inside that interval, bounds included, and otherwise the rejection is
  one a client may retry.\<close>

theorem clock_window_exact:
  "(acceptClock created now DEFAULT_CLOCK_WINDOW = Inr () \<longleftrightarrow>
      now - 604800000 \<le> created \<and> created \<le> now + 600000)
   \<and> (case acceptClock created now DEFAULT_CLOCK_WINDOW of Inl r \<Rightarrow> rj_retryable r | Inr _ \<Rightarrow> True)"
  by (auto simp: acceptClock_def DEFAULT_CLOCK_WINDOW_def DEFAULT_MAX_AGE_MS_def DEFAULT_MAX_SKEW_MS_def
      rj_retryable_def RETRYABLE_def)

text \<open>Revocation is not retroactive: revoking a key in the store leaves the verdict of step 10 unchanged
  for everything the key signed before the revocation takes effect, rejects what it signs from then
  on, and changes nothing for any other key or plane.\<close>

theorem revocation_not_retroactive:
  assumes "acceptCertificate env (in_memory_certificates st) True = Inr ()"
  shows "acceptCertificate env (in_memory_certificates (cert_revoke r st)) True =
    (if kr_plane r = plane env \<and> kr_key r = author_key env \<and> kr_effective_from_ms r \<le> js_number (created_at_ms env)
     then Inl (rejected KEY_REVOKED ''author key was revoked'' None) else Inr ())"
proof (cases "kr_plane r = plane env \<and> kr_key r = author_key env")
  case True
  with assms show ?thesis
    by (auto simp: acceptCertificate_def in_memory_certificates_def cert_revoke_def Let_def split: if_splits)
next
  case False
  then have "plane_key (kr_plane r) (kr_key r) \<noteq> plane_key (plane env) (author_key env)"
    by (auto simp: plane_key_inj)
  with assms False show ?thesis
    by (auto simp: acceptCertificate_def in_memory_certificates_def cert_revoke_def Let_def)
qed

theorem revocation_not_retroactive_witness:
  "acceptCertificate sample_envelope (in_memory_certificates (cert_revoke
      \<lparr>kr_key = [7, 8], kr_plane = 1, kr_effective_from_ms = 90\<rparr>
      (cert_add \<lparr>kc_key = [7, 8], kc_plane = 1, kc_issued_at_ms = 10\<rparr> \<lparr>cs_certs = [], cs_revocations = []\<rparr>))) True
    = Inl (rejected KEY_REVOKED ''author key was revoked'' None)"
  by (subst revocation_not_retroactive)
     (simp_all add: acceptCertificate_def in_memory_certificates_def cert_add_def sample_envelope_def Let_def)

end
