(* ===== verification/JB_Ingress.thy ===== *)
theory JB_Ingress
  imports JB_Store JB_Pipeline
begin

text \<open>
  The validation pipeline composed: \<open>IngressPipeline\<close> of \<open>backend/src/core/app/ingress.ts\<close>, all 19
  steps over the node state of \<open>JB_Store\<close>. What the pipeline is constructed with is the record
  \<open>deps\<close>: the registry, the hash, normalisation, signature and proof-of-work checks, the certificate
  port, the node's identity, which optional ports are wired and which post-commit calls throw. The
  four instants one call reads from the clock are an argument. Calls that leave the node after the
  commit are returned as a list of effects, in order. One call runs to its end before the next.
\<close>

section \<open>What the pipeline is built with\<close>

record ingress_origin =
  io_transport_id :: string
  io_peer_id :: "string option"
  io_origin_server_id :: "string option"

definition LOCAL_ORIGIN :: ingress_origin where
  "LOCAL_ORIGIN = \<lparr>io_transport_id = ''local'', io_peer_id = None, io_origin_server_id = None\<rparr>"

text \<open>\<open>if (origin.peerId)\<close>: the empty string counts as absent.\<close>

definition peer_of :: "ingress_origin \<Rightarrow> string option" where
  "peer_of origin = (case io_peer_id origin of Some p \<Rightarrow> if p = [] then None else Some p | None \<Rightarrow> None)"

datatype effect =
    AfterCommit string
  | FederationEnqueue parsed_envelope "string list option" nat
  | AuxiliaryFanout bytes parsed_envelope
  | AcceptedEvent parsed_envelope receipt
  | CacheInvalidate string

record readings =
  at_check :: int
  at_accept :: int
  at_put :: int
  at_sth :: int

record ('b, 'd) deps =
  dp_registry :: "('b, 'd) registry"
  dp_sha :: "bytes \<Rightarrow> bytes"
  dp_nfc :: "string \<Rightarrow> string"
  dp_verify :: verifier
  dp_pow_verify :: "bytes \<Rightarrow> bytes \<Rightarrow> bool"
  dp_certificates :: "'d node_state \<Rightarrow> certificate_port"
  dp_public_key :: bytes
  dp_server_id :: string
  dp_sign :: "bytes \<Rightarrow> bytes"
  dp_clock_window :: "clock_window option"
  dp_has_after_commit :: "string \<Rightarrow> bool"
  dp_has_federation :: bool
  dp_has_auxiliary :: bool
  dp_has_ledger :: bool
  dp_has_events :: bool
  dp_has_cache :: bool
  dp_throws :: "effect \<Rightarrow> bool"

section \<open>Steps 1 to 10\<close>

definition lift_rejection :: "rejection + 'a \<Rightarrow> ingress_error + 'a" where
  "lift_rejection r = (case r of Inl x \<Rightarrow> Inl (Rejected x) | Inr y \<Rightarrow> Inr y)"

definition ingress_checks ::
  "('b, 'd) deps \<Rightarrow> readings \<Rightarrow> bytes \<Rightarrow> 'd node_state
     \<Rightarrow> rejection + (parsed_envelope \<times> ('b, 'd) handler \<times> domain_spec)" where
  "ingress_checks d clk raw n =
     res_bind (acceptSize raw) (\<lambda>_.
     res_bind (parseEnvelope (dp_sha d) (dp_nfc d) raw) (\<lambda>(envelope, canonical).
     res_bind (acceptVersion (version envelope)) (\<lambda>_.
     res_bind (acceptDomain (domain envelope) (dp_registry d)) (\<lambda>_.
     res_bind (acceptPlane (domain envelope) (plane envelope) (dp_registry d)) (\<lambda>_.
     (case reg_lookup (domain envelope) (dp_registry d) of
        None \<Rightarrow> Inl (rejected UNKNOWN_DOMAIN ''domain is not registered'' None)
      | Some (handler, spec) \<Rightarrow>
          res_bind (acceptDomainSize raw spec) (\<lambda>_.
          res_bind (acceptAlgPolicy envelope spec) (\<lambda>_.
          res_bind (acceptPriority envelope spec) (\<lambda>_.
          res_bind (acceptClock (created_at_ms envelope) (at_check clk)
              (case dp_clock_window d of Some w \<Rightarrow> w | None \<Rightarrow> DEFAULT_CLOCK_WINDOW)) (\<lambda>_.
          res_bind (acceptSignature (dp_verify d) (signed_envelope.truncate envelope) canonical) (\<lambda>_.
          res_bind (acceptCertificate envelope (dp_certificates d n) (ds_requires_certificate spec)) (\<lambda>_.
          Inr (envelope, handler, spec)))))))))))))"

section \<open>Receipts\<close>

definition sign_receipt ::
  "('b, 'd) deps \<Rightarrow> int \<Rightarrow> string \<Rightarrow> nat \<Rightarrow> nat \<Rightarrow> int \<Rightarrow> 'd node_state \<Rightarrow> ingress_error + receipt" where
  "sign_receipt d sth_now cid log_index leaf_index accepted_at n =
     (let sth = log_current_sth (dp_sha d) (dp_public_key d) (dp_sign d) sth_now (nd_log n)
      in (case log_inclusion_proof (dp_sha d) cid (nd_log n) of
         Inl e \<Rightarrow> Inl (ErrorThrown ''content is not in the log'')
       | Inr (leaf, tree_size, path) \<Rightarrow> Inr
           \<lparr>rc_content_id = cid, rc_log_index = int log_index, rc_leaf_index = int leaf_index,
            rc_accepted_at_ms = accepted_at, rc_server_id = dp_server_id d, rc_server_key = dp_public_key d,
            rc_signature = dp_sign d (node_receipt_signing_bytes cid (int log_index) (int leaf_index) accepted_at
               (dp_server_id d) (dp_public_key d) sth path),
            rc_sth = sth, rc_inclusion_proof = path\<rparr>))"

definition receipt_for_existing :: "string \<Rightarrow> 'd node_state \<Rightarrow> ingress_error + receipt" where
  "receipt_for_existing cid n =
     (case env_get cid (nd_envelopes n) of
        None \<Rightarrow> Inl (Rejected (rejected DUPLICATE ''content already accepted'' None))
      | Some stored \<Rightarrow>
          (case se_receipt stored of
             Some r \<Rightarrow> Inr r
           | None \<Rightarrow> Inl (ErrorThrown (''accepted envelope '' @ cid @ '' has no persisted receipt''))))"

section \<open>Steps 16 and 17\<close>

definition apply_and_witness ::
  "('b, 'd) deps \<Rightarrow> readings \<Rightarrow> bytes \<Rightarrow> ingress_origin \<Rightarrow> parsed_envelope \<Rightarrow> ('b, 'd) handler
     \<Rightarrow> domain_spec \<Rightarrow> 'b \<Rightarrow> string \<Rightarrow> ('d node_state, receipt) txn" where
  "apply_and_witness d clk raw origin envelope handler spec bdy origin_server_id =
     (let cid = content_id envelope in
      tx_bind (if ds_idempotent spec then tx_return True else tx_reserve (author_key envelope) (nonce envelope)) (\<lambda>fresh.
      tx_bind (if fresh then tx_return () else tx_throw (Rejected (rejected REPLAY ''nonce has already been used'' None))) (\<lambda>_.
      tx_bind (tx_put envelope raw (at_put clk)) (\<lambda>stored.
      tx_bind (case peer_of origin of
          Some peer \<Rightarrow> if dp_has_ledger d
            then tx_ledger_record \<lparr>le_content_id = cid, le_direction = FedIn, le_peer_id = peer,
              le_recorded_at_ms = at_accept clk\<rparr>
            else tx_return ()
        | None \<Rightarrow> tx_return ()) (\<lambda>_.
      tx_bind (tx_project (h_project handler bdy envelope origin_server_id)) (\<lambda>_.
      tx_bind (tx_witness_append (dp_sha d) cid) (\<lambda>leaf_index.
      tx_bind (tx_read (sign_receipt d (at_sth clk) cid (se_log_index stored) leaf_index (at_accept clk))) (\<lambda>r.
      tx_bind (tx_record_receipt cid r leaf_index) (\<lambda>_.
      tx_return r)))))))))"

section \<open>Step 19\<close>

text \<open>The calls of one \<open>try\<close> block: the first that throws ends the block, and the error is dropped.\<close>

fun attempt :: "(effect \<Rightarrow> bool) \<Rightarrow> effect list \<Rightarrow> effect list" where
  "attempt throws [] = []"
| "attempt throws (e # es) = (if throws e then [e] else e # attempt throws es)"

definition fanout ::
  "('b, 'd) deps \<Rightarrow> bytes \<Rightarrow> ingress_origin \<Rightarrow> parsed_envelope \<Rightarrow> domain_spec \<Rightarrow> receipt
     \<Rightarrow> (ingress_error + receipt) \<times> effect list" where
  "fanout d raw origin envelope spec r =
     (let cid = content_id envelope;
          before = attempt (dp_throws d) (opt (dp_has_after_commit d (domain envelope)) (AfterCommit cid))
            @ (if ds_federate spec
               then attempt (dp_throws d) (opt (dp_has_federation d)
                 (FederationEnqueue envelope (map_option (\<lambda>p. [p]) (peer_of origin)) (length raw)))
               else [])
            @ attempt (dp_throws d) (opt (dp_has_auxiliary d) (AuxiliaryFanout raw envelope));
          event = opt (dp_has_events d) (AcceptedEvent envelope r)
      in if \<exists>e \<in> set event. dp_throws d e
         then (Inl (ErrorThrown ''event listener threw''), before @ event)
         else (Inr r, before @ event @ (if dp_has_cache d
              then attempt (dp_throws d) ([CacheInvalidate ''forum'']
                @ opt (env_scope envelope \<noteq> []) (CacheInvalidate (''scope:'' @ env_scope envelope))
                @ [CacheInvalidate (''content:'' @ cid)])
              else [])))"

section \<open>The pipeline\<close>

definition decode_body :: "('b, 'd) handler \<Rightarrow> parsed_envelope \<Rightarrow> rejection + 'b" where
  "decode_body handler envelope = (case h_decode handler (body envelope) of
     Some b \<Rightarrow> Inr b | None \<Rightarrow> Inl (rejected BODY_INVALID ''body could not be decoded'' (Some ''body'')))"

text \<open>Steps 14 and 15, which only read.\<close>

definition authorise_and_validate ::
  "('b, 'd) handler \<Rightarrow> parsed_envelope \<Rightarrow> string \<Rightarrow> 'd node_state \<Rightarrow> rejection + 'b" where
  "authorise_and_validate handler envelope origin_server_id n =
     res_bind (decode_body handler envelope) (\<lambda>b.
     (case h_authorize handler b envelope origin_server_id (pj_live (nd_projections n)) of
        Denied reason \<Rightarrow> Inl (rejected FORBIDDEN reason None)
      | Allowed \<Rightarrow>
          (case h_validate handler b envelope of
             Invalid reason fld \<Rightarrow> Inl (rejected BODY_INVALID reason fld)
           | Valid \<Rightarrow> Inr b)))"

definition accept ::
  "('b, 'd) deps \<Rightarrow> readings \<Rightarrow> bytes \<Rightarrow> ingress_origin \<Rightarrow> 'd node_state
     \<Rightarrow> (ingress_error + receipt) \<times> 'd node_state \<times> effect list" where
  "accept d clk raw origin n =
     (case ingress_checks d clk raw n of
        Inl r \<Rightarrow> (Inl (Rejected r), n, [])
      | Inr (envelope, handler, spec) \<Rightarrow>
          if acceptDedupe (env_has (content_id envelope) (nd_envelopes n)) \<noteq> Inr ()
          then (receipt_for_existing (content_id envelope) n, n, [])
          else (case acceptReplay envelope (ds_idempotent spec) (\<lambda>k v. nonce_seen k v (nd_nonces n)) of
            Inl r \<Rightarrow> (Inl (Rejected r), n, [])
          | Inr _ \<Rightarrow>
              (case (if peer_of origin = None then acceptAntiAbuse (dp_pow_verify d) envelope spec (nd_anti_abuse n)
                     else (Inr (), nd_anti_abuse n)) of
                 (Inl r, aa) \<Rightarrow> (Inl (Rejected r), n\<lparr>nd_anti_abuse := aa\<rparr>, [])
               | (Inr _, aa) \<Rightarrow>
                   let n1 = n\<lparr>nd_anti_abuse := aa\<rparr>;
                       origin_server_id = (case io_origin_server_id origin of Some s \<Rightarrow> s | None \<Rightarrow> dp_server_id d)
                   in (case authorise_and_validate handler envelope origin_server_id n1 of
                      Inl r \<Rightarrow> (Inl (Rejected r), n1, [])
                    | Inr b \<Rightarrow>
                        (case transaction (apply_and_witness d clk raw origin envelope handler spec b origin_server_id) n1 of
                           (Inr r, n2) \<Rightarrow> (case fanout d raw origin envelope spec r of (res, effects) \<Rightarrow> (res, n2, effects))
                         | (Inl (DuplicateContentError cid), n2) \<Rightarrow> (receipt_for_existing cid n2, n2, [])
                         | (Inl (DuplicateFederationEntryError cid), n2) \<Rightarrow> (receipt_for_existing cid n2, n2, [])
                         | (Inl e, n2) \<Rightarrow> (Inl e, n2, []))))))"

section \<open>Rollback of the whole step\<close>

lemma apply_tx_step: "tx_step node_frame in_transaction (apply_and_witness d clk raw origin env h spec b osid)"
  unfolding apply_and_witness_def Let_def
  by (intro tx_step_bind) (auto split: option.splits intro: tx_step_return tx_step_throw
      put_step.tx_step_axioms receipt_step.tx_step_axioms reserve_step.tx_step_axioms
      witness_step.tx_step_axioms ledger_step.tx_step_axioms project_step.tx_step_axioms read_step.tx_step_axioms)

section \<open>What a successful step writes\<close>

lemma tx_bind_Inr: "tx_bind m f s = (Inr y, s') \<longleftrightarrow> (\<exists>x s1. m s = (Inr x, s1) \<and> f x s1 = (Inr y, s'))"
  by (auto simp: tx_bind_def split: prod.splits sum.splits)

lemma tx_return_Inr: "tx_return x s = (Inr y, s') \<longleftrightarrow> y = x \<and> s' = s"
  by (auto simp: tx_return_def)

lemma tx_throw_Inr: "tx_throw e s = (Inr y, s') \<longleftrightarrow> False"
  by (simp add: tx_throw_def)

definition fresh_record :: "parsed_envelope \<Rightarrow> bytes \<Rightarrow> int \<Rightarrow> envelope_store \<Rightarrow> stored_envelope" where
  "fresh_record env raw now st = \<lparr>se_envelope = env, se_raw = raw, se_log_index = length (es_log st),
     se_received_at_ms = now, se_receipt = None, se_leaf_index = None\<rparr>"

lemma tx_put_Inr:
  "tx_put env raw now (n, us) = (Inr stored, s') \<Longrightarrow>
     map_of (es_by_content_id (nd_envelopes n)) (content_id env) = None \<and>
     stored = fresh_record env raw now (nd_envelopes n) \<and>
     fst s' = n\<lparr>nd_envelopes := \<lparr>es_by_content_id = es_by_content_id (nd_envelopes n) @ [(content_id env, stored)],
        es_log = es_log (nd_envelopes n) @ [stored]\<rparr>\<rparr>"
  by (auto simp: tx_put_def env_put_def fresh_record_def Let_def al_set_fresh split: option.splits)

lemma tx_record_receipt_Inr:
  "tx_record_receipt cid r leaf (n, us) = (Inr x, s') \<Longrightarrow>
     \<exists>previous. map_of (es_by_content_id (nd_envelopes n)) cid = Some previous \<and>
     fst s' = n\<lparr>nd_envelopes :=
        \<lparr>es_by_content_id = al_set cid (previous\<lparr>se_receipt := Some r, se_leaf_index := Some leaf\<rparr>)
            (es_by_content_id (nd_envelopes n)),
         es_log = log_replace (index_of previous (es_log (nd_envelopes n)))
            (previous\<lparr>se_receipt := Some r, se_leaf_index := Some leaf\<rparr>) (es_log (nd_envelopes n))\<rparr>\<rparr>"
  by (auto simp: tx_record_receipt_def env_record_receipt_def Let_def split: option.splits)

lemma tx_reserve_Inr:
  "tx_reserve k v (n, us) = (Inr ok, s') \<Longrightarrow> \<exists>seen. fst s' = n\<lparr>nd_nonces := seen\<rparr> \<and> set (nd_nonces n) \<subseteq> set seen"
  by (auto simp: tx_reserve_def nonce_reserve_def Let_def split: if_splits intro: exI [of _ "nd_nonces n"])

lemma tx_witness_Inr:
  "tx_witness_append sha cid (n, us) = (Inr i, s') \<Longrightarrow>
     \<exists>log' u. log_append sha cid (nd_log n) = (log', i, u) \<and> fst s' = n\<lparr>nd_log := log'\<rparr>"
  by (auto simp: tx_witness_append_def split: prod.splits option.splits)

lemma tx_ledger_Inr:
  "tx_ledger_record e (n, us) = (Inr x, s') \<Longrightarrow>
     map_of (ld_entries (nd_ledger n)) (ledger_key (le_content_id e) (le_direction e)) = None \<and>
     fst s' = n\<lparr>nd_ledger := (nd_ledger n)\<lparr>ld_entries := ld_entries (nd_ledger n)
        @ [(ledger_key (le_content_id e) (le_direction e), e)]\<rparr>\<rparr>"
  by (auto simp: tx_ledger_record_def ledger_record_def Let_def al_set_fresh split: prod.splits sum.splits if_splits)

lemma tx_project_Inr:
  "tx_project f (n, us) = (Inr x, s') \<Longrightarrow> \<exists>ps. f (pj_live (nd_projections n)) = (Inr x, ps) \<and>
     fst s' = n\<lparr>nd_projections := pj_set_live ps (nd_projections n)\<rparr>"
  by (auto simp: tx_project_def split: prod.splits)

lemma tx_read_Inr: "tx_read f (n, us) = (Inr x, s') \<longleftrightarrow> f n = Inr x \<and> s' = (n, us)"
  by (auto simp: tx_read_def)

definition ledger_row :: "('b, 'd) deps \<Rightarrow> ingress_origin \<Rightarrow> string \<Rightarrow> int \<Rightarrow> ledger \<Rightarrow> ledger" where
  "ledger_row d origin cid now l = (case peer_of origin of
     Some p \<Rightarrow> if dp_has_ledger d then l\<lparr>ld_entries := ld_entries l @ [(ledger_key cid FedIn,
         \<lparr>le_content_id = cid, le_direction = FedIn, le_peer_id = p, le_recorded_at_ms = now\<rparr>)]\<rparr> else l
   | None \<Rightarrow> l)"

text \<open>The node after a successful step, in one expression.\<close>

definition committed ::
  "('b, 'd) deps \<Rightarrow> readings \<Rightarrow> bytes \<Rightarrow> ingress_origin \<Rightarrow> parsed_envelope \<Rightarrow> receipt \<Rightarrow> nat
     \<Rightarrow> string list \<Rightarrow> 'd projections \<Rightarrow> merkle_log \<Rightarrow> 'd node_state \<Rightarrow> 'd node_state" where
  "committed d clk raw origin env r leaf seen ps log' n =
     (let es = nd_envelopes n; fresh = fresh_record env raw (at_put clk) es;
          s = fresh\<lparr>se_receipt := Some r, se_leaf_index := Some leaf\<rparr>
      in n\<lparr>nd_envelopes := \<lparr>es_by_content_id = es_by_content_id es @ [(content_id env, s)],
             es_log = log_replace (index_of fresh (es_log es @ [fresh])) s (es_log es @ [fresh])\<rparr>,
           nd_projections := pj_set_live ps (nd_projections n), nd_nonces := seen, nd_log := log',
           nd_ledger := ledger_row d origin (content_id env) (at_accept clk) (nd_ledger n)\<rparr>)"

lemma al_set_last: "map_of m k = None \<Longrightarrow> al_set k v (m @ [(k, w)]) = m @ [(k, v)]"
  by (induction m) (auto split: if_splits)

lemma apply_Inr:
  assumes "apply_and_witness d clk raw origin env h spec b osid (n, []) = (Inr r, n', us)"
  obtains seen ps log' leaf u where
    "set (nd_nonces n) \<subseteq> set seen"
    and "map_of (es_by_content_id (nd_envelopes n)) (content_id env) = None"
    and "h_project h b env osid (pj_live (nd_projections n)) = (Inr (), ps)"
    and "log_append (dp_sha d) (content_id env) (nd_log n) = (log', leaf, u)"
    and "sign_receipt d (at_sth clk) (content_id env) (length (es_log (nd_envelopes n))) leaf (at_accept clk)
           (n\<lparr>nd_log := log'\<rparr>) = Inr r"
    and "n' = committed d clk raw origin env r leaf seen ps log' n"
proof -
  let ?cid = "content_id env"
  from assms obtain fresh s1 stored s2 s3 s4 leaf s5 s6 s7 where
    r1: "(if ds_idempotent spec then tx_return True else tx_reserve (author_key env) (nonce env)) (n, []) = (Inr fresh, s1)"
    and r2: "tx_put env raw (at_put clk) s1 = (Inr stored, s2)"
    and r3: "(case peer_of origin of
          Some peer \<Rightarrow> if dp_has_ledger d
            then tx_ledger_record \<lparr>le_content_id = ?cid, le_direction = FedIn, le_peer_id = peer,
              le_recorded_at_ms = at_accept clk\<rparr>
            else tx_return ()
        | None \<Rightarrow> tx_return ()) s2 = (Inr (), s3)"
    and r4: "tx_project (h_project h b env osid) s3 = (Inr (), s4)"
    and r5: "tx_witness_append (dp_sha d) ?cid s4 = (Inr leaf, s5)"
    and r6: "tx_read (sign_receipt d (at_sth clk) ?cid (se_log_index stored) leaf (at_accept clk)) s5 = (Inr r, s6)"
    and r7: "tx_record_receipt ?cid r leaf s6 = (Inr (), s7)" and r8: "s7 = (n', us)"
    by (auto simp: apply_and_witness_def Let_def tx_bind_Inr tx_return_Inr tx_throw_Inr split: if_splits)
  let ?es = "nd_envelopes n" let ?fresh = "fresh_record env raw (at_put clk) ?es"
  from r1 obtain seen where s1: "fst s1 = n\<lparr>nd_nonces := seen\<rparr>" and seen: "set (nd_nonces n) \<subseteq> set seen"
  proof (cases "ds_idempotent spec")
    case True
    with r1 have "fst s1 = n\<lparr>nd_nonces := nd_nonces n\<rparr>" by (auto simp: tx_return_def)
    then show ?thesis using that by blast
  next
    case False
    with r1 have "tx_reserve (author_key env) (nonce env) (n, []) = (Inr fresh, s1)" by simp
    from tx_reserve_Inr [OF this] that show ?thesis by blast
  qed
  have r2': "tx_put env raw (at_put clk) (fst s1, snd s1) = (Inr stored, s2)" using r2 by simp
  from tx_put_Inr [OF r2'] s1 have none: "map_of (es_by_content_id ?es) ?cid = None" and stored: "stored = ?fresh"
    and s2: "fst s2 = n\<lparr>nd_nonces := seen, nd_envelopes := \<lparr>es_by_content_id = es_by_content_id ?es @ [(?cid, ?fresh)],
        es_log = es_log ?es @ [?fresh]\<rparr>\<rparr>" by simp_all
  have s3: "fst s3 = (fst s2)\<lparr>nd_ledger := ledger_row d origin ?cid (at_accept clk) (nd_ledger n)\<rparr>"
  proof (cases s2)
    case (Pair n2 us2)
    from s2 Pair have l: "nd_ledger n2 = nd_ledger n" by simp
    show ?thesis
    proof (cases "\<exists>p. peer_of origin = Some p \<and> dp_has_ledger d")
      case True
      then obtain p where p: "peer_of origin = Some p" "dp_has_ledger d" by blast
      with r3 Pair have "tx_ledger_record \<lparr>le_content_id = ?cid, le_direction = FedIn, le_peer_id = p,
          le_recorded_at_ms = at_accept clk\<rparr> (n2, us2) = (Inr (), s3)" by simp
      from tx_ledger_Inr [OF this] p Pair l show ?thesis by (simp add: ledger_row_def)
    next
      case False
      with r3 have "s3 = s2" by (auto simp: tx_return_def split: option.splits if_splits)
      with False l Pair show ?thesis by (auto simp: ledger_row_def split: option.splits)
    qed
  qed
  have r4': "tx_project (h_project h b env osid) (fst s3, snd s3) = (Inr (), s4)" using r4 by simp
  from tx_project_Inr [OF r4'] s3 s2 obtain ps where ps: "h_project h b env osid (pj_live (nd_projections n)) = (Inr (), ps)"
    and s4: "fst s4 = (fst s3)\<lparr>nd_projections := pj_set_live ps (nd_projections n)\<rparr>" by auto
  have r5': "tx_witness_append (dp_sha d) ?cid (fst s4, snd s4) = (Inr leaf, s5)" using r5 by simp
  from tx_witness_Inr [OF r5'] s4 s3 s2 obtain log' u where
    log: "log_append (dp_sha d) ?cid (nd_log n) = (log', leaf, u)" and s5: "fst s5 = (fst s4)\<lparr>nd_log := log'\<rparr>" by auto
  from r6 have r6': "sign_receipt d (at_sth clk) ?cid (se_log_index stored) leaf (at_accept clk) (fst s5) = Inr r"
    and s6: "s6 = s5" by (auto simp: tx_read_def split: prod.splits)
  have sign: "sign_receipt d (at_sth clk) ?cid (length (es_log ?es)) leaf (at_accept clk) (n\<lparr>nd_log := log'\<rparr>) = Inr r"
  proof -
    have "sign_receipt d t c i l a (fst s5) = sign_receipt d t c i l a (n\<lparr>nd_log := log'\<rparr>)" for t c i l a
      by (simp add: sign_receipt_def s5)
    moreover have "se_log_index stored = length (es_log ?es)" by (simp add: stored fresh_record_def)
    ultimately show ?thesis using r6' by simp
  qed
  have r7': "tx_record_receipt ?cid r leaf (fst s6, snd s6) = (Inr (), s7)" using r7 by simp
  from tx_record_receipt_Inr [OF r7'] s6 s5 s4 s3 s2 r8 none have "n' = committed d clk raw origin env r leaf seen ps log' n"
    by (auto simp: committed_def Let_def al_set_last)
  with seen none ps log sign show ?thesis using that by blast
qed

end
