(* ===== verification/JB_Node.thy ===== *)
theory JB_Node
  imports JB_Ingress
begin

text \<open>
  What the ingress pipeline guarantees of the node it runs on: the invariant that ties the envelope
  store, the witness log and the federation ledger together, what each outcome of \<open>accept\<close> leaves
  behind, and the runs of a node as an inductive relation over the requests it serves.
\<close>

section \<open>The invariant\<close>

text \<open>
  Entry \<open>i\<close> of the store is leaf \<open>i\<close> of the log, and carries the receipt that says so; the two are
  indexed by the same identifiers in the same order; an inbound ledger row names stored content.
\<close>

definition entry_ok :: "nat \<Rightarrow> string \<times> stored_envelope \<Rightarrow> bool" where
  "entry_ok i kv = (case kv of (cid, s) \<Rightarrow>
     content_id (se_envelope s) = cid \<and> se_log_index s = i \<and> se_leaf_index s = Some i \<and>
     (case se_receipt s of None \<Rightarrow> False
      | Some r \<Rightarrow> rc_content_id r = cid \<and> rc_log_index r = int i \<and> rc_leaf_index r = int i))"

definition store_inv :: "envelope_store \<Rightarrow> bool" where
  "store_inv es \<longleftrightarrow> distinct (map fst (es_by_content_id es)) \<and> es_log es = map snd (es_by_content_id es)
     \<and> (\<forall>i < length (es_by_content_id es). entry_ok i (es_by_content_id es ! i))"

definition node_inv :: "(bytes \<Rightarrow> bytes) \<Rightarrow> 'd node_state \<Rightarrow> bool" where
  "node_inv sha n \<longleftrightarrow> pj_staged (nd_projections n) = None \<and> log_inv sha (nd_log n) \<and> store_inv (nd_envelopes n)
     \<and> map fst (ml_index_by_id (nd_log n)) = map fst (es_by_content_id (nd_envelopes n))
     \<and> (\<forall>cid. map_of (ld_entries (nd_ledger n)) (ledger_key cid FedIn) \<noteq> None \<longrightarrow> env_has cid (nd_envelopes n))"

definition initial_node :: "'d node_state" where
  "initial_node = \<lparr>nd_envelopes = empty_envelope_store, nd_projections = empty_projection_store, nd_nonces = [],
     nd_log = empty_log, nd_ledger = empty_ledger, nd_anti_abuse = \<lparr>st_credits = [], st_spent = [], st_issued = []\<rparr>\<rparr>"

lemma initial_node_inv: "node_inv sha initial_node"
  by (simp add: node_inv_def initial_node_def empty_projection_store_def empty_envelope_store_def store_inv_def
      empty_log_inv [unfolded empty_log_def] empty_log_def empty_ledger_def)

text \<open>A node that differs only in the books of step 13, the transaction number and the count of duplicates.\<close>

definition same_content :: "'d node_state \<Rightarrow> 'd node_state \<Rightarrow> bool" where
  "same_content n n' \<longleftrightarrow> (\<exists>aa k h. n' = n\<lparr>nd_anti_abuse := aa,
     nd_projections := (nd_projections n)\<lparr>pj_tx_counter := k\<rparr>,
     nd_ledger := (nd_ledger n)\<lparr>ld_duplicate_hits := h\<rparr>\<rparr>)"

lemma same_content_refl [simp]: "same_content n n"
  unfolding same_content_def
  by (intro exI [of _ "nd_anti_abuse n"] exI [of _ "pj_tx_counter (nd_projections n)"]
      exI [of _ "ld_duplicate_hits (nd_ledger n)"]) simp

lemma same_content_aa: "same_content n (n\<lparr>nd_anti_abuse := aa\<rparr>)"
  unfolding same_content_def
  by (intro exI [of _ aa] exI [of _ "pj_tx_counter (nd_projections n)"]
      exI [of _ "ld_duplicate_hits (nd_ledger n)"]) simp

lemma same_content_trans: "same_content a b \<Longrightarrow> same_content b c \<Longrightarrow> same_content a c"
  unfolding same_content_def by fastforce

lemma same_content_inv: "same_content n n' \<Longrightarrow> node_inv sha n' = node_inv sha n"
  by (auto simp: same_content_def node_inv_def)

lemma same_content_views:
  "same_content n n' \<Longrightarrow> nd_envelopes n' = nd_envelopes n \<and> nd_log n' = nd_log n \<and> nd_nonces n' = nd_nonces n
     \<and> pj_data (nd_projections n') = pj_data (nd_projections n) \<and> ld_entries (nd_ledger n') = ld_entries (nd_ledger n)"
  by (auto simp: same_content_def)

section \<open>Commits\<close>

definition opened :: "'d node_state \<Rightarrow> 'd node_state" where
  "opened n = n\<lparr>nd_projections := (nd_projections n)\<lparr>pj_tx_counter := pj_tx_counter (nd_projections n) + 1,
     pj_staged := Some (pj_data (nd_projections n))\<rparr>\<rparr>"

lemma transaction_commit:
  assumes "pj_staged (nd_projections n) = None" and "transaction act n = (Inr r, n')"
  obtains n1 us where "act (opened n, []) = (Inr r, n1, us)"
    and "n' = n1\<lparr>nd_projections := (nd_projections n1)\<lparr>pj_data := merge_staged (pj_live (nd_projections n1))
           (pj_data (nd_projections n1)), pj_staged := None\<rparr>\<rparr>"
proof -
  obtain res n1 us where run: "act (opened n, []) = (res, n1, us)" by (cases "act (opened n, [])")
  with assms have "res = Inr r" and "n' = n1\<lparr>nd_projections := (nd_projections n1)\<lparr>pj_data :=
      merge_staged (pj_live (nd_projections n1)) (pj_data (nd_projections n1)), pj_staged := None\<rparr>\<rparr>"
    by (auto simp: transaction_def Let_def opened_def split: sum.splits)
  with run that show thesis by blast
qed

text \<open>The record that a commit adds.\<close>

definition receipted :: "parsed_envelope \<Rightarrow> bytes \<Rightarrow> int \<Rightarrow> nat \<Rightarrow> receipt \<Rightarrow> nat \<Rightarrow> stored_envelope" where
  "receipted env raw now i r leaf = \<lparr>se_envelope = env, se_raw = raw, se_log_index = i, se_received_at_ms = now,
     se_receipt = Some r, se_leaf_index = Some leaf\<rparr>"

lemma index_of_new: "x \<notin> set xs \<Longrightarrow> index_of x (xs @ [x]) = Some (length xs)"
  by (induction xs) auto

lemma store_inv_receipts: "store_inv es \<Longrightarrow> s \<in> set (es_log es) \<Longrightarrow> se_receipt s \<noteq> None"
  by (auto simp: store_inv_def entry_ok_def in_set_conv_nth split: option.splits prod.splits)

lemma commit_log:
  assumes "store_inv es"
  shows "log_replace (index_of (fresh_record env raw now es) (es_log es @ [fresh_record env raw now es])) s
    (es_log es @ [fresh_record env raw now es]) = es_log es @ [s]"
proof -
  have "fresh_record env raw now es \<notin> set (es_log es)"
    using store_inv_receipts [OF assms] by (force simp: fresh_record_def)
  then show ?thesis by (simp add: index_of_new log_replace_def)
qed

lemma same_ids:
  assumes "map fst (m1 :: (string \<times> 'x) list) = map fst (m2 :: (string \<times> 'y) list)"
  shows "map_of m1 k = None \<longleftrightarrow> map_of m2 k = None"
proof -
  have "fst ` set m1 = fst ` set m2" using assms by (metis list.set_map)
  then show ?thesis by (simp add: map_of_eq_None_iff)
qed

definition new_node ::
  "('b, 'd) deps \<Rightarrow> readings \<Rightarrow> bytes \<Rightarrow> ingress_origin \<Rightarrow> parsed_envelope \<Rightarrow> receipt
     \<Rightarrow> string list \<Rightarrow> 'd projections \<Rightarrow> 'd node_state \<Rightarrow> 'd node_state" where
  "new_node d clk raw origin env r seen ps n =
     (let i = length (es_log (nd_envelopes n)); cid = content_id env; s = receipted env raw (at_put clk) i r i
      in n\<lparr>nd_envelopes := \<lparr>es_by_content_id = es_by_content_id (nd_envelopes n) @ [(cid, s)],
             es_log = es_log (nd_envelopes n) @ [s]\<rparr>,
           nd_projections := (nd_projections n)\<lparr>pj_tx_counter := pj_tx_counter (nd_projections n) + 1,
             pj_data := merge_staged ps (pj_data (nd_projections n))\<rparr>,
           nd_nonces := seen,
           nd_log := \<lparr>ml_leaves = ml_leaves (nd_log n) @ [hash_leaf (dp_sha d) (text_encode cid)],
             ml_index_by_id = ml_index_by_id (nd_log n) @ [(cid, i)]\<rparr>,
           nd_ledger := ledger_row d origin cid (at_accept clk) (nd_ledger n)\<rparr>)"

lemma inv_lengths:
  assumes "node_inv sha n"
  shows "length (es_log (nd_envelopes n)) = length (ml_leaves (nd_log n))"
    and "length (es_by_content_id (nd_envelopes n)) = length (ml_leaves (nd_log n))"
proof -
  have "length (ml_index_by_id (nd_log n)) = length (es_by_content_id (nd_envelopes n))"
    using assms by (metis length_map node_inv_def)
  moreover have "length (ml_index_by_id (nd_log n)) = length (ml_leaves (nd_log n))"
    using assms by (metis node_inv_def log_inv_def length_map)
  ultimately show "length (es_by_content_id (nd_envelopes n)) = length (ml_leaves (nd_log n))" by simp
  then show "length (es_log (nd_envelopes n)) = length (ml_leaves (nd_log n))"
    using assms by (simp add: node_inv_def store_inv_def)
qed

lemma commit_outcome:
  assumes inv: "node_inv (dp_sha d) n"
    and run: "transaction (apply_and_witness d clk raw origin env h spec b osid) n = (Inr r, n')"
  obtains seen ps where
    "env_has (content_id env) (nd_envelopes n) = False"
    and "set (nd_nonces n) \<subseteq> set seen"
    and "h_project h b env osid (pj_data (nd_projections n)) = (Inr (), ps)"
    and "sign_receipt d (at_sth clk) (content_id env) (length (ml_leaves (nd_log n))) (length (ml_leaves (nd_log n)))
           (at_accept clk) n' = Inr r"
    and "n' = new_node d clk raw origin env r seen ps n"
proof -
  let ?cid = "content_id env"
  from inv have st: "pj_staged (nd_projections n) = None" by (simp add: node_inv_def)
  from transaction_commit [OF st run] obtain n1 us where
    act: "apply_and_witness d clk raw origin env h spec b osid (opened n, []) = (Inr r, n1, us)"
    and n': "n' = n1\<lparr>nd_projections := (nd_projections n1)\<lparr>pj_data := merge_staged (pj_live (nd_projections n1))
           (pj_data (nd_projections n1)), pj_staged := None\<rparr>\<rparr>" .
  have views: "nd_envelopes (opened n) = nd_envelopes n" "nd_nonces (opened n) = nd_nonces n"
    "nd_log (opened n) = nd_log n" "nd_ledger (opened n) = nd_ledger n"
    "pj_live (nd_projections (opened n)) = pj_data (nd_projections n)"
    by (simp_all add: opened_def pj_live_def)
  from apply_Inr [OF act, unfolded views] obtain seen ps log' leaf u where
    seen: "set (nd_nonces n) \<subseteq> set seen"
    and none: "map_of (es_by_content_id (nd_envelopes n)) ?cid = None"
    and proj: "h_project h b env osid (pj_data (nd_projections n)) = (Inr (), ps)"
    and log: "log_append (dp_sha d) ?cid (nd_log n) = (log', leaf, u)"
    and sign: "sign_receipt d (at_sth clk) ?cid (length (es_log (nd_envelopes n))) leaf (at_accept clk)
           ((opened n)\<lparr>nd_log := log'\<rparr>) = Inr r"
    and n1: "n1 = committed d clk raw origin env r leaf seen ps log' (opened n)" .
  have "map_of (ml_index_by_id (nd_log n)) ?cid = None"
    using none inv same_ids by (metis node_inv_def)
  from log_append_fresh [OF this, of "dp_sha d"] log
  have leaf: "leaf = length (ml_leaves (nd_log n))"
    and log': "log' = \<lparr>ml_leaves = ml_leaves (nd_log n) @ [hash_leaf (dp_sha d) (text_encode ?cid)],
       ml_index_by_id = ml_index_by_id (nd_log n) @ [(?cid, leaf)]\<rparr>" by auto
  have si: "store_inv (nd_envelopes n)" using inv by (simp add: node_inv_def)
  have node: "n' = new_node d clk raw origin env r seen ps n"
    using st unfolding n' n1 committed_def new_node_def Let_def views commit_log [OF si] inv_lengths [OF inv]
    by (simp add: opened_def pj_set_live_def pj_live_def log' leaf receipted_def fresh_record_def inv_lengths [OF inv])
  have "sign_receipt d (at_sth clk) ?cid (length (ml_leaves (nd_log n))) leaf (at_accept clk) n' = Inr r"
  proof -
    have "nd_log n' = log'" by (simp add: node new_node_def Let_def log' leaf inv_lengths [OF inv])
    with sign show ?thesis
      by (simp add: inv_lengths [OF inv] sign_receipt_def)
  qed
  with seen none proj node leaf show thesis using that by (simp add: env_has_def)
qed

lemma sign_receipt_fields:
  "sign_receipt d t cid i leaf at n = Inr r \<Longrightarrow> rc_content_id r = cid \<and> rc_log_index r = int i
     \<and> rc_leaf_index r = int leaf \<and> rc_accepted_at_ms r = at \<and> rc_server_id r = dp_server_id d"
  by (auto simp: sign_receipt_def Let_def split: sum.splits)

lemma ledger_key_inj: "ledger_key a FedIn = ledger_key b FedIn \<longleftrightarrow> a = b"
  by (simp add: ledger_key_def)

lemma map_of_ledger_row:
  "map_of (ld_entries (ledger_row d origin cid now l)) (ledger_key c FedIn) \<noteq> None \<Longrightarrow>
     c = cid \<or> map_of (ld_entries l) (ledger_key c FedIn) \<noteq> None"
  by (auto simp: ledger_row_def ledger_key_inj map_add_def split: option.splits if_splits)

lemma store_inv_snoc:
  assumes "store_inv es" and "map_of (es_by_content_id es) cid = None"
    and "entry_ok (length (es_by_content_id es)) (cid, s)"
  shows "store_inv \<lparr>es_by_content_id = es_by_content_id es @ [(cid, s)], es_log = es_log es @ [s]\<rparr>"
  using assms by (auto simp: store_inv_def nth_append map_of_eq_None_iff less_Suc_eq)

lemma log_inv_snoc:
  assumes "log_inv sha l" and "map_of (ml_index_by_id l) cid = None"
  shows "log_inv sha \<lparr>ml_leaves = ml_leaves l @ [hash_leaf sha (text_encode cid)],
    ml_index_by_id = ml_index_by_id l @ [(cid, length (ml_leaves l))]\<rparr>"
  using log_append_inv [OF assms(1) log_append_fresh [OF assms(2)]] by simp

lemma new_node_inv:
  assumes inv: "node_inv (dp_sha d) n" and fresh: "\<not> env_has (content_id env) (nd_envelopes n)"
    and sign: "sign_receipt d t (content_id env) (length (ml_leaves (nd_log n))) (length (ml_leaves (nd_log n))) at n' = Inr r"
  shows "node_inv (dp_sha d) (new_node d clk raw origin env r seen ps n)"
proof -
  let ?cid = "content_id env" and ?es = "nd_envelopes n" and ?i = "length (ml_leaves (nd_log n))"
  have none: "map_of (es_by_content_id ?es) ?cid = None" using fresh by (simp add: env_has_def)
  then have none': "map_of (ml_index_by_id (nd_log n)) ?cid = None"
    using inv same_ids by (metis node_inv_def)
  have "entry_ok (length (es_by_content_id ?es)) (?cid, receipted env raw (at_put clk) ?i r ?i)"
    using sign_receipt_fields [OF sign] by (simp add: entry_ok_def receipted_def inv_lengths [OF inv])
  with store_inv_snoc none inv have "store_inv (nd_envelopes (new_node d clk raw origin env r seen ps n))"
    by (simp add: new_node_def Let_def inv_lengths [OF inv] node_inv_def)
  moreover have "log_inv (dp_sha d) (nd_log (new_node d clk raw origin env r seen ps n))"
    using log_inv_snoc [OF _ none', of "dp_sha d"] inv by (simp add: new_node_def Let_def inv_lengths [OF inv] node_inv_def)
  moreover have "env_has c (nd_envelopes (new_node d clk raw origin env r seen ps n))"
    if "map_of (ld_entries (nd_ledger (new_node d clk raw origin env r seen ps n))) (ledger_key c FedIn) \<noteq> None" for c
    using inv map_of_ledger_row [of d origin ?cid "at_accept clk" "nd_ledger n" c] that
    by (auto simp: new_node_def Let_def env_has_def node_inv_def map_add_def split: option.splits)
  ultimately show ?thesis using inv by (simp add: node_inv_def new_node_def Let_def)
qed

section \<open>The duplicate errors cannot come from a consistent node\<close>

text \<open>Handlers reject or fail; they do not raise the errors of the stores.\<close>

definition store_error :: "ingress_error \<Rightarrow> bool" where
  "store_error e = (case e of DuplicateContentError _ \<Rightarrow> True | DuplicateFederationEntryError _ \<Rightarrow> True | _ \<Rightarrow> False)"

definition handler_ok :: "('b, 'd) handler \<Rightarrow> bool" where
  "handler_ok h \<longleftrightarrow> (\<forall>b env osid ps e. fst (h_project h b env osid ps) = Inl e \<longrightarrow> \<not> store_error e)"

definition handlers_ok :: "('b, 'd) deps \<Rightarrow> bool" where
  "handlers_ok d \<longleftrightarrow> (\<forall>(name, h, spec) \<in> set (dp_registry d). handler_ok h)"

definition quiet :: "('n \<Rightarrow> bool) \<Rightarrow> ('n, 'a) txn \<Rightarrow> ('n \<Rightarrow> bool) \<Rightarrow> bool" where
  "quiet I m J \<longleftrightarrow> (\<forall>n us. I n \<longrightarrow> (case m (n, us) of (Inl e, _) \<Rightarrow> \<not> store_error e | (Inr x, n', _) \<Rightarrow> J n'))"

lemma quietD: "quiet I m J \<Longrightarrow> I n \<Longrightarrow> m (n, us) = (Inl e, s') \<Longrightarrow> \<not> store_error e"
  by (auto simp: quiet_def dest!: spec [of _ n] spec [of _ us])

lemma quiet_bind:
  assumes "quiet I m J" and "\<And>x. quiet J (f x) K"
  shows "quiet I (tx_bind m f) K"
  unfolding quiet_def
proof (intro allI impI)
  fix n us assume "I n"
  obtain r n1 us1 where m: "m (n, us) = (r, n1, us1)" by (cases "m (n, us)")
  have step: "case m (n, us) of (Inl e, _) \<Rightarrow> \<not> store_error e | (Inr x, n', _) \<Rightarrow> J n'"
    using assms(1) \<open>I n\<close> by (simp add: quiet_def)
  show "case tx_bind m f (n, us) of (Inl e, _) \<Rightarrow> \<not> store_error e | (Inr x, n', _) \<Rightarrow> K n'"
  proof (cases r)
    case (Inl e)
    with step m show ?thesis by (simp add: tx_bind_def)
  next
    case (Inr x)
    with step m have "J n1" by simp
    with assms(2) [of x] have "case f x (n1, us1) of (Inl e, _) \<Rightarrow> \<not> store_error e | (Inr x, n', _) \<Rightarrow> K n'"
      by (simp add: quiet_def)
    with Inr m show ?thesis by (simp add: tx_bind_def)
  qed
qed

text \<open>What the first two steps of the transaction rely on.\<close>

definition unseen :: "string \<Rightarrow> 'd node_state \<Rightarrow> bool" where
  "unseen cid n \<longleftrightarrow> map_of (es_by_content_id (nd_envelopes n)) cid = None
     \<and> map_of (ld_entries (nd_ledger n)) (ledger_key cid FedIn) = None"

definition unrecorded :: "string \<Rightarrow> 'd node_state \<Rightarrow> bool" where
  "unrecorded cid n \<longleftrightarrow> map_of (ld_entries (nd_ledger n)) (ledger_key cid FedIn) = None"

lemma apply_quiet:
  assumes "handler_ok h"
  shows "quiet (unseen (content_id env)) (apply_and_witness d clk raw origin env h spec b osid) (\<lambda>_. True)"
proof -
  let ?cid = "content_id env"
  have 1: "quiet (unseen ?cid) (if ds_idempotent spec then tx_return True else tx_reserve (author_key env) (nonce env))
      (unseen ?cid)"
    by (auto simp: quiet_def tx_return_def tx_reserve_def unseen_def split: prod.splits option.splits)
  have 2: "quiet (unseen ?cid) (if ok then tx_return ()
      else tx_throw (Rejected (rejected REPLAY ''nonce has already been used'' None))) (unseen ?cid)" for ok
    by (auto simp: quiet_def tx_return_def tx_throw_def store_error_def)
  have 3: "quiet (unseen ?cid) (tx_put env raw (at_put clk)) (unrecorded ?cid)"
    by (auto simp: quiet_def tx_put_def env_put_def unseen_def unrecorded_def Let_def)
  have 4: "quiet (unrecorded ?cid) (case peer_of origin of
          Some peer \<Rightarrow> if dp_has_ledger d
            then tx_ledger_record \<lparr>le_content_id = ?cid, le_direction = FedIn, le_peer_id = peer,
              le_recorded_at_ms = at_accept clk\<rparr>
            else tx_return ()
        | None \<Rightarrow> tx_return ()) (\<lambda>_. True)"
    by (auto simp: quiet_def tx_return_def tx_ledger_record_def ledger_record_def Let_def unrecorded_def
        split: option.splits)
  have 5: "quiet (\<lambda>_. True) (tx_project (h_project h b env osid)) (\<lambda>_. True)"
    using assms by (auto simp: quiet_def tx_project_def handler_ok_def split: prod.splits sum.splits) (metis fst_conv)
  have 6: "quiet (\<lambda>_. True) (tx_witness_append (dp_sha d) ?cid) (\<lambda>_. True)"
    by (auto simp: quiet_def tx_witness_append_def split: prod.splits option.splits)
  have 7: "quiet (\<lambda>_. True) (tx_read (sign_receipt d (at_sth clk) ?cid i leaf (at_accept clk))) (\<lambda>_. True)" for i leaf
    by (auto simp: quiet_def tx_read_def sign_receipt_def Let_def store_error_def split: sum.splits prod.splits)
  have 8: "quiet (\<lambda>_. True) (tx_record_receipt ?cid r leaf) (\<lambda>_. True)" for r leaf
    by (auto simp: quiet_def tx_record_receipt_def env_record_receipt_def Let_def store_error_def
        split: sum.splits prod.splits option.splits)
  have 9: "quiet (\<lambda>_. True) (tx_return r) (\<lambda>_. True)" for r :: receipt
    by (simp add: quiet_def tx_return_def)
  show ?thesis unfolding apply_and_witness_def Let_def
    by (intro quiet_bind [OF 1] quiet_bind [OF 2] quiet_bind [OF 3] quiet_bind [OF 4] quiet_bind [OF 5]
        quiet_bind [OF 6] quiet_bind [OF 7] quiet_bind [OF 8] 9)
qed

section \<open>The outcomes of a call\<close>

definition admissible ::
  "('b, 'd) deps \<Rightarrow> readings \<Rightarrow> bytes \<Rightarrow> 'd node_state \<Rightarrow> parsed_envelope \<Rightarrow> ('b, 'd) handler \<Rightarrow> domain_spec \<Rightarrow> bool" where
  "admissible d clk raw n env h spec \<longleftrightarrow> length raw \<le> domain_budget spec
     \<and> (\<exists>canonical. parseEnvelope (dp_sha d) (dp_nfc d) raw = Inr (env, canonical)
          \<and> dp_verify d (key_alg env) (author_key env) canonical (signature env))
     \<and> version env = 1 \<and> reg_lookup (domain env) (dp_registry d) = Some (h, spec) \<and> h_plane h = plane env
     \<and> acceptAlgPolicy env spec = Inr () \<and> acceptPriority env spec = Inr ()
     \<and> acceptClock (created_at_ms env) (at_check clk)
         (case dp_clock_window d of Some w \<Rightarrow> w | None \<Rightarrow> DEFAULT_CLOCK_WINDOW) = Inr ()
     \<and> acceptCertificate env (dp_certificates d n) (ds_requires_certificate spec) = Inr ()"

lemma checks_admissible: "ingress_checks d clk raw n = Inr (env, h, spec) \<Longrightarrow> admissible d clk raw n env h spec"
  by (auto simp: ingress_checks_def res_bind_eq_Inr admissible_def acceptSize_def acceptVersion_def
      acceptDomain_def acceptPlane_def acceptDomainSize_def acceptSignature_def ENVELOPE_VERSION_def
      reg_plane_for_def reg_lookup_def signed_envelope.truncate_def split: if_splits option.splits prod.splits)

definition origin_of :: "('b, 'd) deps \<Rightarrow> ingress_origin \<Rightarrow> string" where
  "origin_of d origin = (case io_origin_server_id origin of Some s \<Rightarrow> s | None \<Rightarrow> dp_server_id d)"

definition payment ::
  "('b, 'd) deps \<Rightarrow> ingress_origin \<Rightarrow> parsed_envelope \<Rightarrow> domain_spec \<Rightarrow> aa_state \<Rightarrow> (rejection + unit) \<times> aa_state" where
  "payment d origin env spec aa =
     (if peer_of origin = None then acceptAntiAbuse (dp_pow_verify d) env spec aa else (Inr (), aa))"

lemma node_frame_aa: "node_inv sha (n\<lparr>nd_anti_abuse := aa\<rparr>) = node_inv sha n"
  by (simp add: node_inv_def)

lemma accept_cases:
  assumes inv: "node_inv (dp_sha d) n" and hok: "handlers_ok d"
    and run: "accept d clk raw origin n = (res, n', eff)"
  obtains (refused) e where "res = Inl e" "eff = []" "same_content n n'"
  | (duplicate) env h spec where "ingress_checks d clk raw n = Inr (env, h, spec)"
      "env_has (content_id env) (nd_envelopes n)" "res = receipt_for_existing (content_id env) n" "n' = n" "eff = []"
  | (committed) env h spec b aa r seen ps where "ingress_checks d clk raw n = Inr (env, h, spec)"
      "\<not> env_has (content_id env) (nd_envelopes n)"
      "acceptReplay env (ds_idempotent spec) (\<lambda>k v. nonce_seen k v (nd_nonces n)) = Inr ()"
      "payment d origin env spec (nd_anti_abuse n) = (Inr (), aa)"
      "authorise_and_validate h env (origin_of d origin) (n\<lparr>nd_anti_abuse := aa\<rparr>) = Inr b"
      "transaction (apply_and_witness d clk raw origin env h spec b (origin_of d origin)) (n\<lparr>nd_anti_abuse := aa\<rparr>)
         = (Inr r, n')"
      "set (nd_nonces n) \<subseteq> set seen" "h_project h b env (origin_of d origin) (pj_data (nd_projections n)) = (Inr (), ps)"
      "sign_receipt d (at_sth clk) (content_id env) (length (ml_leaves (nd_log n))) (length (ml_leaves (nd_log n)))
           (at_accept clk) n' = Inr r"
      "n' = new_node d clk raw origin env r seen ps (n\<lparr>nd_anti_abuse := aa\<rparr>)"
      "fanout d raw origin env spec r = (res, eff)"
proof (cases "ingress_checks d clk raw n")
  case (Inl r)
  with run have "res = Inl (Rejected r)" "eff = []" "n' = n" by (simp_all add: accept_def)
  then show thesis using refused by simp
next
  case (Inr out)
  obtain env h spec where out: "ingress_checks d clk raw n = Inr (env, h, spec)" using Inr by (cases out) simp
  show thesis
  proof (cases "env_has (content_id env) (nd_envelopes n)")
    case True
    with run out have "res = receipt_for_existing (content_id env) n" "n' = n" "eff = []"
      by (auto simp: accept_def acceptDedupe_def)
    with duplicate out True show thesis by blast
  next
    case new: False
    show thesis
    proof (cases "acceptReplay env (ds_idempotent spec) (\<lambda>k v. nonce_seen k v (nd_nonces n))")
      case (Inl r)
      with run out new have "res = Inl (Rejected r)" "eff = []" "n' = n" by (simp_all add: accept_def acceptDedupe_def)
      then show thesis using refused by simp
    next
      case replay: (Inr u)
      obtain pr aa where pay: "payment d origin env spec (nd_anti_abuse n) = (pr, aa)"
        by (cases "payment d origin env spec (nd_anti_abuse n)")
      let ?n1 = "n\<lparr>nd_anti_abuse := aa\<rparr>" and ?osid = "origin_of d origin"
      have inv1: "node_inv (dp_sha d) ?n1" using inv by (simp add: node_frame_aa)
      note step = run [unfolded accept_def out, folded payment_def origin_of_def]
        new replay pay acceptDedupe_def [of False]
      show thesis
      proof (cases pr)
        case (Inl r)
        with step have "res = Inl (Rejected r)" "eff = []" "n' = ?n1" by (auto simp: Let_def)
        then show thesis using refused same_content_aa by blast
      next
        case paid: (Inr u')
        show thesis
        proof (cases "authorise_and_validate h env ?osid ?n1")
          case (Inl r)
          with step paid have "res = Inl (Rejected r)" "eff = []" "n' = ?n1" by (auto simp: Let_def)
          then show thesis using refused same_content_aa by blast
        next
          case authorised: (Inr b)
          let ?act = "apply_and_witness d clk raw origin env h spec b ?osid"
          obtain tr n2 where tx: "transaction ?act ?n1 = (tr, n2)" by (cases "transaction ?act ?n1")
          show thesis
          proof (cases tr)
            case (Inr r)
            with step paid authorised tx have "fanout d raw origin env spec r = (res, eff)" and n': "n' = n2"
              by (auto simp: Let_def split: prod.splits)
            moreover obtain seen ps where "set (nd_nonces n) \<subseteq> set seen"
              "h_project h b env ?osid (pj_data (nd_projections n)) = (Inr (), ps)"
              "sign_receipt d (at_sth clk) (content_id env) (length (ml_leaves (nd_log n)))
                 (length (ml_leaves (nd_log n))) (at_accept clk) n' = Inr r"
              "n' = new_node d clk raw origin env r seen ps ?n1"
              by (rule commit_outcome [OF inv1 tx [unfolded Inr]]) (use n' in simp_all)
            ultimately show thesis
              using committed [OF out new _ _ authorised] replay pay paid tx Inr by simp
          next
            case (Inl e)
            have st: "pj_staged (nd_projections ?n1) = None" using inv1 by (simp add: node_inv_def)
            from transaction_abort [OF apply_tx_step st tx [unfolded Inl]] obtain c where
              n2: "n2 = ?n1\<lparr>nd_projections := (nd_projections ?n1)\<lparr>pj_tx_counter := pj_tx_counter (nd_projections ?n1) + 1\<rparr>,
                nd_ledger := (nd_ledger ?n1)\<lparr>ld_duplicate_hits := c\<rparr>\<rparr>" by blast
            then have same: "same_content n n2" unfolding same_content_def by (intro exI) simp
            have "handler_ok h"
            proof -
              have "map_of (dp_registry d) (domain env) = Some (h, spec)"
                using checks_admissible [OF out] by (simp add: admissible_def reg_lookup_def)
              from map_of_SomeD [OF this] hok show ?thesis by (auto simp: handlers_ok_def)
            qed
            moreover have "unseen (content_id env) (opened ?n1)"
              using inv new by (auto simp: unseen_def opened_def env_has_def node_inv_def)
            moreover obtain n3 us where "?act (opened ?n1, []) = (Inl e, n3, us)"
              using tx Inl st by (auto simp: transaction_def opened_def Let_def split: prod.splits sum.splits)
            ultimately have "\<not> store_error e" by (rule quietD [OF apply_quiet])
            with step paid authorised tx Inl have "res = Inl e" "eff = []" "n' = n2"
              by (auto simp: Let_def store_error_def split: ingress_error.splits)
            with same show thesis using refused by blast
          qed
        qed
      qed
    qed
  qed
qed

section \<open>Steps and runs of a node\<close>

lemma new_node_views:
  assumes "node_inv sha n"
  shows "es_by_content_id (nd_envelopes (new_node d clk raw origin env r seen ps n)) = es_by_content_id (nd_envelopes n)
      @ [(content_id env, receipted env raw (at_put clk) (length (ml_leaves (nd_log n))) r (length (ml_leaves (nd_log n))))]"
    and "ml_leaves (nd_log (new_node d clk raw origin env r seen ps n))
      = ml_leaves (nd_log n) @ [hash_leaf (dp_sha d) (text_encode (content_id env))]"
    and "nd_anti_abuse (new_node d clk raw origin env r seen ps n) = nd_anti_abuse n"
    and "nd_nonces (new_node d clk raw origin env r seen ps n) = seen"
  by (simp_all add: new_node_def Let_def inv_lengths [OF assms])

lemma accept_inv:
  assumes "node_inv (dp_sha d) n" and "handlers_ok d" and "accept d clk raw origin n = (res, n', eff)"
  shows "node_inv (dp_sha d) n'"
  using assms(1,2,3)
proof (cases rule: accept_cases)
  case (refused e)
  with assms(1) show ?thesis by (simp add: same_content_inv)
next
  case (duplicate env h spec)
  with assms(1) show ?thesis by simp
next
  case (committed env h spec b aa r seen ps)
  have "node_inv (dp_sha d) (n\<lparr>nd_anti_abuse := aa\<rparr>)" using assms(1) by (simp add: node_frame_aa)
  from new_node_inv [OF this] committed show ?thesis by simp
qed

lemma accept_extends:
  assumes "node_inv (dp_sha d) n" and "handlers_ok d" and "accept d clk raw origin n = (res, n', eff)"
  shows "\<exists>xs. ml_leaves (nd_log n') = ml_leaves (nd_log n) @ xs"
    and "\<exists>ys. es_by_content_id (nd_envelopes n') = es_by_content_id (nd_envelopes n) @ ys"
proof -
  have "(\<exists>xs. ml_leaves (nd_log n') = ml_leaves (nd_log n) @ xs)
     \<and> (\<exists>ys. es_by_content_id (nd_envelopes n') = es_by_content_id (nd_envelopes n) @ ys)"
    using assms
  proof (cases rule: accept_cases)
    case (refused e)
    then show ?thesis using same_content_views by fastforce
  next
    case (duplicate env h spec)
    then show ?thesis by simp
  next
    case (committed env h spec b aa r seen ps)
    have i: "node_inv (dp_sha d) (n\<lparr>nd_anti_abuse := aa\<rparr>)" using assms(1) by (simp add: node_frame_aa)
    show ?thesis unfolding committed(10) new_node_views [OF i] by auto
  qed
  then show "\<exists>xs. ml_leaves (nd_log n') = ml_leaves (nd_log n) @ xs"
    "\<exists>ys. es_by_content_id (nd_envelopes n') = es_by_content_id (nd_envelopes n) @ ys" by auto
qed

type_synonym request = "readings \<times> bytes \<times> ingress_origin"

inductive serves :: "('b, 'd) deps \<Rightarrow> 'd node_state \<Rightarrow> request list \<Rightarrow> 'd node_state \<Rightarrow> bool" where
  idle: "serves d n [] n"
| request: "accept d clk raw origin n = (res, n', eff) \<Longrightarrow> serves d n' reqs n'' \<Longrightarrow>
    serves d n ((clk, raw, origin) # reqs) n''"

inductive_simps serves_Nil: "serves d n [] n'"
inductive_simps serves_Cons: "serves d n (q # reqs) n'"

lemma serves_total: "\<exists>n'. serves d n reqs n'"
proof (induction reqs arbitrary: n)
  case (Cons q reqs)
  obtain clk raw origin where q: "q = (clk, raw, origin)" by (cases q)
  obtain res n1 eff where "accept d clk raw origin n = (res, n1, eff)" by (cases "accept d clk raw origin n")
  with Cons [of n1] q show ?case by (auto intro: serves.request)
qed (auto intro: serves.idle)

lemma serves_inv: "serves d n reqs n' \<Longrightarrow> handlers_ok d \<Longrightarrow> node_inv (dp_sha d) n \<Longrightarrow> node_inv (dp_sha d) n'"
  by (induction rule: serves.induct) (auto dest: accept_inv)

lemma serves_extends:
  "serves d n reqs n' \<Longrightarrow> handlers_ok d \<Longrightarrow> node_inv (dp_sha d) n \<Longrightarrow>
     (\<exists>xs. ml_leaves (nd_log n') = ml_leaves (nd_log n) @ xs)
     \<and> (\<exists>ys. es_by_content_id (nd_envelopes n') = es_by_content_id (nd_envelopes n) @ ys)"
proof (induction rule: serves.induct)
  case (request d clk raw origin n res n' eff reqs n'')
  from accept_extends [OF request.prems(2,1) request.hyps(1)]
  obtain xs ys where "ml_leaves (nd_log n') = ml_leaves (nd_log n) @ xs"
    "es_by_content_id (nd_envelopes n') = es_by_content_id (nd_envelopes n) @ ys" by blast
  with request.IH [OF request.prems(1) accept_inv [OF request.prems(2,1) request.hyps(1)]]
  show ?case by auto
qed auto

lemma stored_receipt:
  assumes "node_inv sha n" and "env_get cid (nd_envelopes n) = Some s"
  obtains r where "se_receipt s = Some r" and "rc_content_id r = cid" and "rc_log_index r = int (se_log_index s)"
    and "rc_leaf_index r = int (se_log_index s)" and "content_id (se_envelope s) = cid"
    and "map_of (ml_index_by_id (nd_log n)) cid = Some (se_log_index s)"
proof -
  let ?m = "es_by_content_id (nd_envelopes n)" and ?l = "ml_index_by_id (nd_log n)"
  from assms(2) have "(cid, s) \<in> set ?m" by (auto simp: env_get_def dest: map_of_SomeD)
  then obtain i where i: "i < length ?m" "?m ! i = (cid, s)" by (auto simp: in_set_conv_nth)
  with assms(1) have ok: "entry_ok i (cid, s)" unfolding node_inv_def store_inv_def by metis
  have len: "length ?l = length ?m" using assms(1) by (metis node_inv_def length_map)
  have "map snd ?l = [0..<length (ml_leaves (nd_log n))]" using assms(1) by (simp add: node_inv_def log_inv_def)
  then have "snd (?l ! i) = i" using i len inv_lengths [OF assms(1)] by (metis add_0 nth_map nth_upt)
  moreover have "fst (?l ! i) = cid" using i len assms(1) by (metis fst_conv node_inv_def nth_map)
  ultimately have "(cid, i) \<in> set ?l" using i len by (metis nth_mem prod.collapse)
  moreover have "distinct (map fst ?l)" using assms(1) unfolding node_inv_def log_inv_def by blast
  ultimately have "map_of ?l cid = Some i" by simp
  with ok that show thesis by (auto simp: entry_ok_def split: option.splits)
qed

end
