(* ===== verification/JB_Inbox.thy ===== *)
theory JB_Inbox
  imports JB_Peers JB_Node
begin

text \<open>
  The inbound half of federation, \<open>backend/src/core/app/federation-inbox.ts\<close>: everything a peer can ask this
  node to do. The state is the node's (\<open>JB_Store\<close>) with the peer directory, the quota limiter, the alert list
  and the cached view of whom we trust. Instants read from the clock are arguments, one per reading; the
  aggregate counters of the observability port are left out. One call runs to its end before the next, but
  a call that reads a record, waits and writes it back takes the record it read as its argument, so the
  writes of two overlapping calls can be put in any order.
\<close>

section \<open>State\<close>

record 'd fed_state =
  fs_node :: "'d node_state"
  fs_peers :: directory
  fs_quotas :: limiter
  fs_alerts :: operator_alerts
  fs_asserter_trust :: "(string, peer_trust) jsmap"

record ('b, 'd) fed_deps =
  fd_pipeline :: "('b, 'd) deps"
  fd_admin_trust :: "string \<Rightarrow> peer_trust option"
  fd_has_alerts :: bool

record announce_admission =
  aa_peer :: peer_record
  aa_assigned :: peer_trust
  aa_quota :: peer_quota
  aa_reason :: string

datatype peer_log_status = CONSISTENT | FORKED | UNKNOWN

definition upsert :: "peer_record \<Rightarrow> 'd fed_state \<Rightarrow> 'd fed_state" where
  "upsert p st = st\<lparr>fs_peers := dir_upsert p (fs_peers st)\<rparr>"

definition alert :: "('b, 'd) fed_deps \<Rightarrow> alert_severity \<Rightarrow> string \<Rightarrow> string \<Rightarrow> string \<Rightarrow> int \<Rightarrow> 'd fed_state \<Rightarrow> 'd fed_state" where
  "alert d severity code subject detail now_ms st =
     (if fd_has_alerts d then st\<lparr>fs_alerts := raise_alert \<lparr>oa_id = '''', oa_severity = severity, oa_code = code,
        oa_subject = subject, oa_detail = detail, oa_raised_at_ms = now_ms\<rparr> (fs_alerts st)\<rparr> else st)"

section \<open>Whom we trust\<close>

definition asserter_trust_sync :: "'d fed_state \<Rightarrow> bytes \<Rightarrow> peer_trust" where
  "asserter_trust_sync st asserter_key =
     nullish (map_of (fs_asserter_trust st) (identityId asserter_key)) UNSPECIFIED"

definition refresh_asserter_trust :: "'d fed_state \<Rightarrow> 'd fed_state" where
  "refresh_asserter_trust st = st\<lparr>fs_asserter_trust :=
     fold (\<lambda>p m. al_set (identityId (pr_public_key p)) (pr_trust p) m) (dir_all (fs_peers st)) []\<rparr>"

definition same_key :: "bytes \<Rightarrow> bytes \<Rightarrow> bool" where
  "same_key a b \<longleftrightarrow> (if length a \<noteq> length b then False else list_all (\<lambda>(x, y). x = y) (zip a b))"

lemma same_key_iff [simp]: "same_key a b \<longleftrightarrow> a = b"
  by (auto simp: same_key_def list_all_zip_eq)

section \<open>Tree heads\<close>

definition observe_peer_sth ::
  "('b, 'd) fed_deps \<Rightarrow> int \<Rightarrow> peer_record \<Rightarrow> tree_head \<Rightarrow> 'd fed_state \<Rightarrow> peer_log_status \<times> 'd fed_state" where
  "observe_peer_sth d now_ms peer sth st =
     (if th_server_key sth = [] \<or> \<not> same_key (th_server_key sth) (pr_public_key peer) then (UNKNOWN, st)
      else
        let previous = last_peer_sth (pr_server_id peer) (nd_ledger (fs_node st)) in
        if (case previous of Some p \<Rightarrow> th_timestamp_ms sth < th_timestamp_ms p | None \<Rightarrow> False) then (UNKNOWN, st)
        else
          let regressed = (case previous of Some p \<Rightarrow> th_tree_size sth < th_tree_size p | None \<Rightarrow> False);
              rewritten = (case previous of
                 Some p \<Rightarrow> th_tree_size sth = th_tree_size p \<and> \<not> same_key (th_root_hash sth) (th_root_hash p) | None \<Rightarrow> False)
          in if regressed \<or> rewritten
             then let detail = (if regressed
                    then ''tree shrank from '' @ js_string_of_int (th_tree_size (the previous)) @ '' to ''
                      @ js_string_of_int (th_tree_size sth)
                    else ''presented a different root for a tree size it already attested'')
                  in (FORKED, alert d CRITICAL ''peer.forked'' (pr_server_id peer) detail now_ms
                       (upsert (peer\<lparr>pr_trust := BLOCKED, pr_blocked_reason := Some (''log fork detected: '' @ detail)\<rparr>) st))
             else let st' = st\<lparr>fs_node := (fs_node st)\<lparr>nd_ledger :=
                        record_peer_sth (pr_server_id peer) sth (nd_ledger (fs_node st))\<rparr>\<rparr>
                  in (if (case previous of Some p \<Rightarrow> th_tree_size sth = th_tree_size p | None \<Rightarrow> False)
                      then (CONSISTENT, st') else (UNKNOWN, st')))"

section \<open>Announce\<close>

definition SCOPE_BY_WIRE :: "int \<Rightarrow> reachability_scope option" where
  "SCOPE_BY_WIRE n = map_of [(1, GLOBAL), (2, NATIONAL), (3, ISP_LOCAL), (4, LAN), (5, MESH), (6, RETICULUM)] n"

definition WIRE_BY_SCOPE :: "reachability_scope \<Rightarrow> int" where
  "WIRE_BY_SCOPE s = (case s of GLOBAL \<Rightarrow> 1 | NATIONAL \<Rightarrow> 2 | ISP_LOCAL \<Rightarrow> 3 | LAN \<Rightarrow> 4 | MESH \<Rightarrow> 5 | RETICULUM \<Rightarrow> 6)"

lemma scope_wire_roundtrip: "SCOPE_BY_WIRE (WIRE_BY_SCOPE s) = Some s"
  by (cases s) (simp_all add: SCOPE_BY_WIRE_def WIRE_BY_SCOPE_def)

definition to_endpoint :: "federation_endpoint \<Rightarrow> peer_endpoint" where
  "to_endpoint e = \<lparr>ep_address = fe_uri e, ep_scope = nullish (SCOPE_BY_WIRE (fe_scope e)) GLOBAL,
     ep_asn = (if fe_asn e = 0 then None else Some (fe_asn e)),
     ep_isp = (if fe_isp_name e = '''' then None else Some (fe_isp_name e)),
     ep_region = (if fe_region e = '''' then None else Some (fe_region e)),
     ep_inbound_capable = Some (fe_inbound_capable e), ep_last_ok_at_ms = Some (js_number (fe_last_ok_at_ms e)),
     ep_last_attempt_at_ms = None, ep_rtt_ms = Some (fe_rtt_ms e),
     ep_consecutive_failures = Some (fe_consecutive_failures e)\<rparr>"

definition to_tree_head :: "federation_tree_head \<Rightarrow> tree_head" where
  "to_tree_head h = \<lparr>th_server_key = ft_server_key h, th_tree_size = js_number (ft_tree_size h),
     th_root_hash = ft_root_hash h, th_timestamp_ms = js_number (ft_timestamp_ms h), th_signature = ft_signature h\<rparr>"

definition announced_record ::
  "announce_request \<Rightarrow> peer_record option \<Rightarrow> string \<Rightarrow> peer_trust \<Rightarrow> int \<Rightarrow> peer_record" where
  "announced_record req existing peer_id level now_ms =
     \<lparr>pr_server_id = peer_id, pr_public_key = ar_server_key req, pr_display_name = Some (ar_display_name req),
      pr_software = Some (ar_software req), pr_version = Some (ar_version req),
      pr_endpoints = map to_endpoint (ar_endpoints req), pr_trust = level, pr_planes = Some (ar_planes req),
      pr_accepted_classes = Some (ar_accepted_classes req), pr_communities = Some (ar_communities req),
      pr_channels = Some (ar_channels req),
      pr_vouches = Some (nullish (Option.bind existing pr_vouches) []), pr_is_bridge = None, pr_bridged_asns = None,
      pr_first_seen_ms = Some (nullish (Option.bind existing pr_first_seen_ms) now_ms), pr_last_seen_ms = now_ms,
      pr_quota_breaches = Some (nullish (Option.bind existing pr_quota_breaches) 0),
      pr_blocked_reason = (let r = Option.bind existing pr_blocked_reason in if truthy r then r else None)\<rparr>"

definition announce_evaluation ::
  "('b, 'd) fed_deps \<Rightarrow> peer_record option \<Rightarrow> string \<Rightarrow> int \<Rightarrow> 'd fed_state \<Rightarrow> peer_trust \<times> string" where
  "announce_evaluation d existing peer_id now_ms st =
     evaluate_trust \<lparr>ti_current = map_option pr_trust existing, ti_admin_level = fd_admin_trust d peer_id,
       ti_vouches = nullish (Option.bind existing pr_vouches) [], ti_asserter_trust = asserter_trust_sync st,
       ti_first_seen_ms = nullish (Option.bind existing pr_first_seen_ms) now_ms, ti_now_ms = now_ms,
       ti_quota_breaches = Some (nullish (Option.bind existing pr_quota_breaches) 0),
       ti_blocked_reason = Option.bind existing pr_blocked_reason\<rparr>"

definition announce ::
  "('b, 'd) fed_deps \<Rightarrow> int \<Rightarrow> int \<Rightarrow> announce_request \<Rightarrow> bytes \<Rightarrow> 'd fed_state
     \<Rightarrow> (rejection + announce_admission) \<times> 'd fed_state" where
  "announce d now_ms alert_ms req sig st =
     (case check_announce (dp_nfc (fd_pipeline d)) \<lparr>ac_fields = req, ac_signature = sig, ac_now_ms = now_ms,
          ac_window_ms = None, ac_verify = dp_verify (fd_pipeline d) 1\<rparr> of
        Inl reason \<Rightarrow> (Inl (rejected BAD_SIGNATURE reason None), st)
      | Inr _ \<Rightarrow>
          let peer_id = serverId (ar_server_key req);
              existing = dir_get peer_id (fs_peers st);
              evaluation = announce_evaluation d existing peer_id now_ms st;
              record' = announced_record req existing peer_id (fst evaluation) now_ms;
              st1 = upsert record' st;
              st2 = (case ar_current_sth req of
                  Some h \<Rightarrow> snd (observe_peer_sth d alert_ms record' (to_tree_head h) st1)
                | None \<Rightarrow> st1)
          in (Inr \<lparr>aa_peer = record', aa_assigned = fst evaluation, aa_quota = quota_for (fst evaluation),
                aa_reason = snd evaluation\<rparr>, st2))"

section \<open>Vouches\<close>

definition vouch_fields :: "peer_vouch \<Rightarrow> server_vouch" where
  "vouch_fields v = \<lparr>sv_peer_key = pv_peer_key v, sv_level = TRUST_LEVEL_WIRE (pv_level v), sv_note = pv_note v,
     sv_asserted_at_ms = pv_asserted_at_ms v\<rparr>"

definition record_vouch ::
  "('b, 'd) fed_deps \<Rightarrow> int \<Rightarrow> peer_vouch \<Rightarrow> 'd fed_state \<Rightarrow> peer_record option \<times> 'd fed_state" where
  "record_vouch d now_ms vouch st =
     (let peer_id = serverId (pv_peer_key vouch) in
      case dir_get peer_id (fs_peers st) of
        None \<Rightarrow> (None, st)
      | Some peer \<Rightarrow>
          if \<not> dp_verify (fd_pipeline d) 1 (pv_asserter_key vouch)
               (server_vouch_signing_bytes (dp_nfc (fd_pipeline d)) (vouch_fields vouch)) (pv_signature vouch)
          then (None, st)
          else
            let kept = filter (\<lambda>v. \<not> same_key (pv_asserter_key v) (pv_asserter_key vouch)) (nullish (pr_vouches peer) []);
                vouches = kept @ [vouch];
                st1 = refresh_asserter_trust st;
                evaluation = evaluate_trust \<lparr>ti_current = Some (pr_trust peer), ti_admin_level = fd_admin_trust d peer_id,
                  ti_vouches = vouches, ti_asserter_trust = asserter_trust_sync st1,
                  ti_first_seen_ms = nullish (pr_first_seen_ms peer) (pr_last_seen_ms peer), ti_now_ms = now_ms,
                  ti_quota_breaches = Some (nullish (pr_quota_breaches peer) 0), ti_blocked_reason = pr_blocked_reason peer\<rparr>;
                updated = peer\<lparr>pr_vouches := Some vouches, pr_trust := fst evaluation\<rparr>
            in (Some updated, upsert updated st1))"

section \<open>Deliver\<close>

definition trust_name :: "peer_trust \<Rightarrow> string" where
  "trust_name t = (case t of UNSPECIFIED \<Rightarrow> ''UNSPECIFIED'' | BLOCKED \<Rightarrow> ''BLOCKED'' | PROBATION \<Rightarrow> ''PROBATION''
     | NORMAL \<Rightarrow> ''NORMAL'' | TRUSTED \<Rightarrow> ''TRUSTED'')"

record delivery_rejection =
  dr_content_id :: string
  dr_code :: rejection_code
  dr_detail :: string

record deliver_outcome =
  do_accepted :: "string list"
  do_rejected :: "delivery_rejection list"
  do_backpressure_hint_ms :: int
  do_our_log_size :: int

text \<open>One pass of the loop: what has been collected so far.\<close>

record deliver_progress =
  dg_accepted :: "string list"
  dg_rejected :: "delivery_rejection list"
  dg_worst_over_by :: rat
  dg_breached :: bool
  dg_effects :: "effect list"

text \<open>A frame with the instants read while it is handled.\<close>

record frame =
  fr_raw :: bytes
  fr_quota_ms :: int
  fr_readings :: readings

definition require_peer :: "string \<Rightarrow> 'd fed_state \<Rightarrow> rejection + peer_record" where
  "require_peer peer_id st =
     (case dir_get peer_id (fs_peers st) of
        None \<Rightarrow> Inl (rejected FORBIDDEN ''peer has not completed a handshake'' None)
      | Some peer \<Rightarrow> if \<not> at_least (pr_trust peer) PROBATION then Inl (rejected FORBIDDEN ''peer is blocked'' None)
          else Inr peer)"

definition rejection_of :: "string \<Rightarrow> ingress_error \<Rightarrow> delivery_rejection" where
  "rejection_of cid e = (case e of
     Rejected r \<Rightarrow> \<lparr>dr_content_id = cid, dr_code = rj_code r, dr_detail = rj_detail r\<rparr>
   | _ \<Rightarrow> \<lparr>dr_content_id = cid, dr_code = MALFORMED, dr_detail = ''envelope was not accepted''\<rparr>)"

definition refuse :: "delivery_rejection \<Rightarrow> deliver_progress \<Rightarrow> deliver_progress" where
  "refuse r g = g\<lparr>dg_rejected := dg_rejected g @ [r]\<rparr>"

definition deliver_frame ::
  "('b, 'd) fed_deps \<Rightarrow> peer_record \<Rightarrow> string \<Rightarrow> int option \<Rightarrow> frame \<Rightarrow> deliver_progress \<times> 'd fed_state
     \<Rightarrow> deliver_progress \<times> 'd fed_state" where
  "deliver_frame d peer peer_id stream_plane f = (\<lambda>(g, st).
     (let quota = quota_for (pr_trust peer) in
      case parseEnvelope (dp_sha (fd_pipeline d)) (dp_nfc (fd_pipeline d)) (fr_raw f) of
        Inl r \<Rightarrow> (refuse \<lparr>dr_content_id = '''', dr_code = rj_code r, dr_detail = ''frame is not a canonical envelope''\<rparr> g, st)
      | Inr (envelope, _) \<Rightarrow>
          (case (case stream_plane of Some p \<Rightarrow> assert_stream_plane p (plane envelope) | None \<Rightarrow> Inr ()) of
             Inl r \<Rightarrow> (refuse (rejection_of (content_id envelope) (Rejected r)) g, st)
           | Inr _ \<Rightarrow>
               if \<not> class_permitted (pr_trust peer) (priority envelope)
               then ((refuse \<lparr>dr_content_id = content_id envelope, dr_code = FORBIDDEN,
                   dr_detail = ''trust level '' @ trust_name (pr_trust peer) @ '' does not carry priority class ''
                     @ js_string_of_int (priority envelope)\<rparr> g)\<lparr>dg_breached := True\<rparr>, st)
               else (case limiter_consume \<lparr>qr_peer_id = peer_id, qr_priority = priority envelope,
                     qr_cost = cost_of (priority envelope), qr_per_minute = envelopes_per_minute_for quota (priority envelope),
                     qr_bytes = of_nat (length (fr_raw f)), qr_bytes_per_minute = bytes_per_minute_for quota (priority envelope),
                     qr_now_ms = fr_quota_ms f\<rparr> (fs_quotas st) of (verdict, quotas) \<Rightarrow>
                   let st1 = st\<lparr>fs_quotas := quotas\<rparr> in
                   if \<not> qv_allowed verdict
                   then ((refuse \<lparr>dr_content_id = content_id envelope, dr_code = RATE_LIMITED,
                       dr_detail = ''peer quota exhausted for this priority class''\<rparr> g)
                         \<lparr>dg_worst_over_by := max (dg_worst_over_by g) (qv_over_by verdict), dg_breached := True\<rparr>, st1)
                   else (case accept (fd_pipeline d) (fr_readings f) (fr_raw f)
                         \<lparr>io_transport_id = ''grpc'', io_peer_id = Some peer_id, io_origin_server_id = Some peer_id\<rparr>
                         (fs_node st1) of (res, n, effects) \<Rightarrow>
                       let st2 = st1\<lparr>fs_node := n\<rparr>; g1 = g\<lparr>dg_effects := dg_effects g @ effects\<rparr> in
                       (case res of
                          Inr _ \<Rightarrow> (g1\<lparr>dg_accepted := dg_accepted g1 @ [content_id envelope]\<rparr>, st2)
                        | Inl e \<Rightarrow> (refuse (rejection_of (content_id envelope) e) g1, st2)))))))"

definition deliver_frames ::
  "('b, 'd) fed_deps \<Rightarrow> peer_record \<Rightarrow> string \<Rightarrow> int option \<Rightarrow> frame list \<Rightarrow> 'd fed_state
     \<Rightarrow> deliver_progress \<times> 'd fed_state" where
  "deliver_frames d peer peer_id stream_plane frames st =
     fold (deliver_frame d peer peer_id stream_plane) frames
       (\<lparr>dg_accepted = [], dg_rejected = [], dg_worst_over_by = 0, dg_breached = False, dg_effects = []\<rparr>, st)"

definition note_quota_breach :: "('b, 'd) fed_deps \<Rightarrow> int \<Rightarrow> peer_record \<Rightarrow> 'd fed_state \<Rightarrow> 'd fed_state" where
  "note_quota_breach d now_ms peer st =
     (let breaches = nullish (pr_quota_breaches peer) 0 + 1 in
      if breaches < QUOTA_BREACH_LIMIT then upsert (peer\<lparr>pr_quota_breaches := Some breaches\<rparr>) st
      else let demoted = demote_one (pr_trust peer)
           in alert d WARNING ''peer.demoted'' (pr_server_id peer)
                (''demoted to '' @ trust_name demoted @ '' after '' @ js_string_of_int breaches @ '' quota breaches'') now_ms
                (upsert (peer\<lparr>pr_quota_breaches := Some 0, pr_trust := demoted\<rparr>) st))"

text \<open>
  A delivery with nothing else touching the peer while it waits for the pipeline. The record it holds is the one read
  before the first frame, and \<open>note_quota_breach\<close> writes that copy back; what happens when other calls write the
  directory in between is \<open>JB_Fork\<close>.
\<close>

definition deliver ::
  "('b, 'd) fed_deps \<Rightarrow> int \<Rightarrow> string \<Rightarrow> frame list \<Rightarrow> int option \<Rightarrow> 'd fed_state
     \<Rightarrow> (rejection + deliver_outcome) \<times> 'd fed_state \<times> effect list" where
  "deliver d alert_ms peer_id frames stream_plane st =
     (case require_peer peer_id st of
        Inl r \<Rightarrow> (Inl r, st, [])
      | Inr peer \<Rightarrow>
          (case deliver_frames d peer peer_id stream_plane frames st of (g, st1) \<Rightarrow>
             let st2 = (if dg_breached g then note_quota_breach d alert_ms peer st1 else st1)
             in (Inr \<lparr>do_accepted = dg_accepted g, do_rejected = dg_rejected g,
                   do_backpressure_hint_ms = backpressure_hint_ms (dg_worst_over_by g)
                     (pq_envelopes_per_min (quota_for (pr_trust peer))),
                   do_our_log_size = int (length (ml_leaves (nd_log (fs_node st2))))\<rparr>, st2, dg_effects g)))"

section \<open>Streams and backfill\<close>

definition candidate_of :: "stored_envelope \<Rightarrow> stream_candidate" where
  "candidate_of s = \<lparr>sc_plane = plane (se_envelope s), sc_priority = priority (se_envelope s),
     sc_scope = env_scope (se_envelope s), sc_log_index = int (se_log_index s)\<rparr>"

definition select ::
  "stream_filter \<Rightarrow> nat \<Rightarrow> int option \<Rightarrow> 'd fed_state \<Rightarrow> (bytes \<times> nat \<times> string) list" where
  "select filt limit to_index st =
     take limit (map (\<lambda>s. (se_raw s, se_log_index s, content_id (se_envelope s)))
       (filter (\<lambda>s. matches_stream_filter (candidate_of s) filt)
         (env_range (nullish (sf_since_index filt) 0) (nullish to_index (2 ^ 53 - 1)) (nd_envelopes (fs_node st)))))"

definition ledger_directions :: "string \<Rightarrow> 'd fed_state \<Rightarrow> federation_direction list" where
  "ledger_directions cid st = map le_direction (ledger_entries_for cid (nd_ledger (fs_node st)))"

end
