(* ===== verification/JB_Guarantees.thy ===== *)
theory JB_Guarantees
  imports JB_Node
begin

text \<open>
  The promises of the ingress pipeline, stated over single calls and over runs of a node: what is
  never written, what is written together, what a receipt is worth, what a replay returns, what
  arriving from a peer changes. The witnesses run the pipeline on a concrete vote.
\<close>

section \<open>Running the transaction forward\<close>

lemma tx_bind_run: "m s = (Inr x, s1) \<Longrightarrow> f x s1 = t \<Longrightarrow> tx_bind m f s = t"
  by (simp add: tx_bind_def)

definition reserved :: "domain_spec \<Rightarrow> parsed_envelope \<Rightarrow> string list \<Rightarrow> string list" where
  "reserved spec env seen =
     (if ds_idempotent spec then seen else fst (snd (nonce_reserve (author_key env) (nonce env) seen)))"

lemma reserve_run:
  assumes "acceptReplay env (ds_idempotent spec) (\<lambda>k v. nonce_seen k v (nd_nonces n)) = Inr ()"
  shows "\<exists>us. (if ds_idempotent spec then tx_return True else tx_reserve (author_key env) (nonce env)) (n, [])
    = (Inr True, n\<lparr>nd_nonces := reserved spec env (nd_nonces n)\<rparr>, us)"
  using assms by (auto simp: acceptReplay_def tx_return_def tx_reserve_def nonce_reserve_def nonce_seen_def Let_def
      reserved_def split: if_splits)

lemma ledger_run:
  assumes "map_of (ld_entries (nd_ledger n)) (ledger_key cid FedIn) = None"
  shows "\<exists>us'. (case peer_of origin of
          Some peer \<Rightarrow> if dp_has_ledger d
            then tx_ledger_record \<lparr>le_content_id = cid, le_direction = FedIn, le_peer_id = peer,
              le_recorded_at_ms = now\<rparr>
            else tx_return ()
        | None \<Rightarrow> tx_return ()) (n, us) = (Inr (), n\<lparr>nd_ledger := ledger_row d origin cid now (nd_ledger n)\<rparr>, us')"
proof (cases "\<exists>p. peer_of origin = Some p \<and> dp_has_ledger d")
  case True
  with assms show ?thesis
    by (auto simp: tx_ledger_record_def ledger_record_def Let_def ledger_row_def al_set_fresh)
next
  case False
  then show ?thesis by (auto simp: tx_return_def ledger_row_def split: option.splits)
qed

lemma apply_forward:
  fixes n :: "'d node_state"
  assumes replay: "acceptReplay env (ds_idempotent spec) (\<lambda>k v. nonce_seen k v (nd_nonces n)) = Inr ()"
    and unseen: "unseen (content_id env) n"
    and proj: "h_project h b env osid (pj_live (nd_projections n)) = (Inr (), ps)"
    and log: "log_append (dp_sha d) (content_id env) (nd_log n) = (log', leaf, u)"
    and sign: "sign_receipt d (at_sth clk) (content_id env) (length (es_log (nd_envelopes n))) leaf (at_accept clk)
           (n\<lparr>nd_log := log'\<rparr>) = Inr r"
  shows "\<exists>us. apply_and_witness d clk raw origin env h spec b osid (n, []) =
    (Inr r, committed d clk raw origin env r leaf (reserved spec env (nd_nonces n)) ps log' n, us)"
proof -
  let ?cid = "content_id env" and ?es = "nd_envelopes n"
  let ?fresh = "fresh_record env raw (at_put clk) ?es"
  have none: "map_of (es_by_content_id ?es) ?cid = None" and row: "map_of (ld_entries (nd_ledger n)) (ledger_key ?cid FedIn) = None"
    using unseen by (simp_all add: unseen_def)
  let ?seen = "reserved spec env (nd_nonces n)"
  let ?s1 = "n\<lparr>nd_nonces := ?seen\<rparr>"
  let ?s2 = "?s1\<lparr>nd_envelopes := \<lparr>es_by_content_id = es_by_content_id ?es @ [(?cid, ?fresh)], es_log = es_log ?es @ [?fresh]\<rparr>\<rparr>"
  let ?s3 = "?s2\<lparr>nd_ledger := ledger_row d origin ?cid (at_accept clk) (nd_ledger n)\<rparr>"
  let ?s4 = "?s3\<lparr>nd_projections := pj_set_live ps (nd_projections n)\<rparr>"
  let ?s5 = "?s4\<lparr>nd_log := log'\<rparr>"
  obtain us1 where 1: "(if ds_idempotent spec then tx_return True else tx_reserve (author_key env) (nonce env)) (n, [])
      = (Inr True, ?s1, us1)" using reserve_run [OF replay] by blast
  obtain us2 where 2: "tx_put env raw (at_put clk) (?s1, us1) = (Inr ?fresh, ?s2, us2)"
    using none by (simp add: tx_put_def env_put_def fresh_record_def Let_def al_set_fresh)
  have row2: "map_of (ld_entries (nd_ledger ?s2)) (ledger_key ?cid FedIn) = None" using row by simp
  from ledger_run [OF row2, where origin = origin and d = d and now = "at_accept clk" and us = us2] obtain us3 where 3: "(case peer_of origin of
          Some peer \<Rightarrow> if dp_has_ledger d
            then tx_ledger_record \<lparr>le_content_id = ?cid, le_direction = FedIn, le_peer_id = peer,
              le_recorded_at_ms = at_accept clk\<rparr>
            else tx_return ()
        | None \<Rightarrow> tx_return ()) (?s2, us2) = (Inr (), ?s3, us3)" by auto
  have 4: "tx_project (h_project h b env osid) (?s3, us3) = (Inr (), ?s4, us3)"
    using proj by (simp add: tx_project_def)
  obtain us5 where 5: "tx_witness_append (dp_sha d) ?cid (?s4, us3) = (Inr leaf, ?s5, us5)"
    using log by (cases u) (auto simp: tx_witness_append_def)
  have 6: "tx_read (sign_receipt d (at_sth clk) ?cid (se_log_index ?fresh) leaf (at_accept clk)) (?s5, us5)
      = (Inr r, ?s5, us5)"
    using sign by (simp add: tx_read_def sign_receipt_def fresh_record_def)
  obtain us7 where 7: "tx_record_receipt ?cid r leaf (?s5, us5)
      = (Inr (), committed d clk raw origin env r leaf ?seen ps log' n, us7)"
    using none by (simp add: tx_record_receipt_def env_record_receipt_def committed_def Let_def al_set_last map_add_def)
  have skip: "(if True then tx_return () else tx_throw e) s = (Inr (), s)" for e and s :: "'d node_state \<times> 'd node_state rollbacks"
    by (simp add: tx_return_def)
  show ?thesis unfolding apply_and_witness_def Let_def
    by (intro exI, rule tx_bind_run, rule 1, rule tx_bind_run, rule skip, rule tx_bind_run, rule 2,
        rule tx_bind_run, rule 3, rule tx_bind_run, rule 4, rule tx_bind_run, rule 5, rule tx_bind_run, rule 6,
        rule tx_bind_run, rule 7, simp add: tx_return_def)
qed

section \<open>A concrete node\<close>

definition sample_vote :: signed_envelope where
  "sample_vote = sample_envelope\<lparr>priority := 4, env_anti_abuse :=
     Some \<lparr>aa_credential = Some [1], aa_nullifier = None, aa_epoch = None, aa_pow = None\<rparr>\<rparr>"

definition sample_vote_spec :: domain_spec where
  "sample_vote_spec = \<lparr>ds_domain = ''jb:vote:cast:v1'', ds_plane = FORUM, ds_body = ''jagoo.v1.VoteCast'',
     ds_priority = BULK, ds_idempotent = False, ds_scope_kind = SCOPE_COMMUNITY, ds_key_algs = [ED25519],
     ds_max_bytes = 1024, ds_credit_cost = 1, ds_credit_cost_per_mb = None, ds_requires = [CREDENTIAL],
     ds_requires_certificate = True, ds_federate = True, ds_permission = ''member''\<rparr>"

definition sample_node :: "bytes node_state" where
  "sample_node = initial_node\<lparr>nd_anti_abuse := \<lparr>st_credits = [], st_spent = [], st_issued = [''01'']\<rparr>\<rparr>"

definition sample_handler :: "(bytes, bytes) handler" where
  "sample_handler = \<lparr>h_domain = ''jb:vote:cast:v1'', h_plane = 1, h_decode = Some,
     h_validate = (\<lambda>b e. if b = [] then Invalid ''empty'' None else Valid), h_authorize = (\<lambda>b e o' ps. Allowed),
     h_project = (\<lambda>b e o' ps. (Inr (), col_put ''votes'' (content_id e) b ps))\<rparr>"

definition sample_deps :: "(effect \<Rightarrow> bool) \<Rightarrow> (bytes, bytes) deps" where
  "sample_deps throws = \<lparr>dp_registry = [(''jb:vote:cast:v1'', sample_handler, sample_vote_spec)], dp_sha = sample_sha,
     dp_nfc = (\<lambda>s. s), dp_verify = (\<lambda>alg key msg sig. sig = [5]), dp_pow_verify = (\<lambda>k p. False),
     dp_certificates = (\<lambda>n. \<lparr>certificate_at = (\<lambda>p k t. k = [7, 8]), revocation_for = (\<lambda>p k. None)\<rparr>),
     dp_public_key = [3], dp_server_id = ''jbs1a'', dp_sign = (\<lambda>m. m), dp_clock_window = None,
     dp_has_after_commit = (\<lambda>dom. False), dp_has_federation = True, dp_has_auxiliary = False, dp_has_ledger = True,
     dp_has_events = True, dp_has_cache = True, dp_throws = throws\<rparr>"

definition sample_readings :: readings where
  "sample_readings = \<lparr>at_check = 100, at_accept = 101, at_put = 102, at_sth = 103\<rparr>"

definition sample_peer :: ingress_origin where
  "sample_peer = \<lparr>io_transport_id = ''grpc'', io_peer_id = Some ''jbs1b'', io_origin_server_id = None\<rparr>"

definition sample_raw :: bytes where
  "sample_raw = encode_signed_envelope (\<lambda>s. s) sample_vote"

definition sample_parsed :: parsed_envelope where
  "sample_parsed = signed_envelope.extend sample_vote
     \<lparr>content_id = contentIdFromCanonical sample_sha (canonical_bytes (\<lambda>s. s) sample_vote)\<rparr>"

lemma sample_vote_ok: "envelope_ok (\<lambda>s. s) sample_vote"
  by (simp add: envelope_ok_def num_ok_def string_ok_def anti_abuse_ok_def is_anti_abuse_empty_def
      sample_vote_def sample_envelope_def aa_number_def opt_length_def text_encode_def BOM_def)

lemma sample_raw_length: "length sample_raw \<le> 512" "sample_raw \<noteq> []"
  by (simp_all add: sample_raw_def encode_signed_envelope_def canonical_bytes_def envelope_fields_def signature_fields_def
      sample_vote_def sample_envelope_def write_varint_field_def write_length_delimited_def tag_small WIRE_VARINT_def
      WIRE_LEN_def varint_small is_anti_abuse_empty_def aa_number_def opt_length_def encode_utf8_nfc_def
      text_encode_def encode_anti_abuse_def anti_abuse_fields_def aa_bytes_def del: One_nat_def)

lemma sample_parse:
  "parseEnvelope sample_sha (\<lambda>s. s) sample_raw = Inr (sample_parsed, canonical_bytes (\<lambda>s. s) sample_vote)"
proof -
  have "length (encode_signed_envelope (\<lambda>s. s) sample_vote) \<le> 2 ^ 53"
    using sample_raw_length by (simp add: sample_raw_def)
  from decode_encode [OF sample_vote_ok this] show ?thesis
    by (simp add: parseEnvelope_def sample_raw_def sample_parsed_def Let_def)
qed

lemma sample_fields:
  "version sample_parsed = 1" "plane sample_parsed = 1" "domain sample_parsed = ''jb:vote:cast:v1''"
  "author_key sample_parsed = [7, 8]" "key_alg sample_parsed = 1" "created_at_ms sample_parsed = 90"
  "nonce sample_parsed = [1, 2, 3]" "priority sample_parsed = 4" "body sample_parsed = [255]"
  "signature sample_parsed = [5]" "env_scope sample_parsed = ''town@jbs1a''"
  "env_anti_abuse sample_parsed = Some \<lparr>aa_credential = Some [1], aa_nullifier = None, aa_epoch = None, aa_pow = None\<rparr>"
  "content_id sample_parsed = contentIdFromCanonical sample_sha (canonical_bytes (\<lambda>s. s) sample_vote)"
  by (simp_all add: sample_parsed_def sample_vote_def sample_envelope_def signed_envelope.extend_def)

lemma sample_handlers_ok: "handlers_ok (sample_deps throws)"
  by (simp add: handlers_ok_def sample_deps_def handler_ok_def sample_handler_def)

lemmas sample_check_defs = acceptSize_def ABSOLUTE_MAX_def sample_deps_def sample_parse sample_fields
  acceptVersion_def ENVELOPE_VERSION_def acceptDomain_def acceptPlane_def reg_has_def reg_plane_for_def reg_lookup_def
  acceptDomainSize_def domain_budget_def sample_vote_spec_def CLASS_SIZE_BUDGET_def PRIORITY_BY_NAME_def
  acceptAlgPolicy_def KEY_ALG_BY_NAME_def acceptPriority_def acceptClock_def DEFAULT_CLOCK_WINDOW_def
  DEFAULT_MAX_AGE_MS_def DEFAULT_MAX_SKEW_MS_def sample_readings_def acceptSignature_def acceptCertificate_def
  sample_handler_def signed_envelope.truncate_def

lemma sample_checks:
  "ingress_checks (sample_deps throws) sample_readings sample_raw n = Inr (sample_parsed, sample_handler, sample_vote_spec)"
  using sample_raw_length
  by (simp add: ingress_checks_def sample_check_defs)

lemma sample_id: "\<not> env_has (content_id sample_parsed) (nd_envelopes sample_node)"
  by (simp add: sample_node_def initial_node_def env_has_def empty_envelope_store_def)

text \<open>The vote is accepted by the empty node.\<close>

lemma sample_transaction:
  fixes throws
  defines "d \<equiv> sample_deps throws"
  assumes "nd_envelopes n = empty_envelope_store" and "nd_log n = empty_log" and "nd_ledger n = empty_ledger"
    and "nd_projections n = empty_projection_store" and "nd_nonces n = []"
  shows "\<exists>r n'. transaction (apply_and_witness d sample_readings sample_raw origin sample_parsed sample_handler
      sample_vote_spec [255] osid) n = (Inr r, n')"
proof -
  let ?cid = "content_id sample_parsed"
  obtain ps where "col_put ''votes'' ?cid [255 :: byte] [] = ps" by blast
  then have proj: "h_project sample_handler [255] sample_parsed osid (pj_live (nd_projections (opened n))) = (Inr (), ps)"
    by (simp add: sample_handler_def opened_def assms pj_live_def empty_projection_store_def)
  have replay: "acceptReplay sample_parsed (ds_idempotent sample_vote_spec)
      (\<lambda>k v. nonce_seen k v (nd_nonces (opened n))) = Inr ()"
    by (simp add: acceptReplay_def sample_fields nonce_seen_def opened_def assms)
  have unseen: "unseen ?cid (opened n)"
    by (simp add: unseen_def opened_def assms empty_envelope_store_def empty_ledger_def)
  let ?log = "\<lparr>ml_leaves = [hash_leaf (dp_sha d) (text_encode ?cid)], ml_index_by_id = [(?cid, 0)]\<rparr>"
  have log: "log_append (dp_sha d) ?cid (nd_log (opened n)) = (?log, 0, Some (?cid, 0))"
    using log_append_fresh [of empty_log ?cid "dp_sha d"] by (simp add: opened_def assms empty_log_def)
  have "map_of (ml_index_by_id ?log) ?cid = Some 0" by simp
  moreover have "log_inv (dp_sha d) ?log"
    using log_append_inv [OF empty_log_inv, of "dp_sha d" ?cid] log by (simp add: opened_def assms)
  ultimately obtain path where "log_inclusion_proof (dp_sha d) ?cid ?log = Inr (0, 1, path)"
    using log_inclusion_proof_exists by fastforce
  then obtain r where sign: "sign_receipt d (at_sth sample_readings) ?cid (length (es_log (nd_envelopes (opened n)))) 0
      (at_accept sample_readings) ((opened n)\<lparr>nd_log := ?log\<rparr>) = Inr r"
    by (simp add: sign_receipt_def Let_def)
  from apply_forward [OF replay unseen proj log sign] obtain us n1 where
    "apply_and_witness d sample_readings sample_raw origin sample_parsed sample_handler sample_vote_spec [255] osid
       (opened n, []) = (Inr r, n1, us)" by blast
  then show ?thesis by (simp add: transaction_def opened_def Let_def assms empty_projection_store_def)
qed

lemma sample_payment:
  "payment (sample_deps throws) origin sample_parsed sample_vote_spec (nd_anti_abuse sample_node) = (Inr (),
     if peer_of origin = None then (nd_anti_abuse sample_node)\<lparr>st_credits := [(''key:0708'', 249)]\<rparr>
     else nd_anti_abuse sample_node)"
  by (simp add: payment_def acceptAntiAbuse_def sample_vote_spec_def credential_gate_def env_credential_def sample_fields
      aa_bytes_def credential_verify_def sample_node_def hex_def hex_byte_def hex_digit_def char_of_def bit_0
      credit_gate_def credit_consume_def creditSubjectFor_def env_nullifier_def balance_of_def credit_key_def
      kind_name_def STARTING_BALANCE_def sample_deps_def)

lemma sample_accept:
  obtains r n' where "accept (sample_deps throws) sample_readings sample_raw origin sample_node
    = (case fanout (sample_deps throws) sample_raw origin sample_parsed sample_vote_spec r of (res, eff) \<Rightarrow> (res, n', eff))"
    and "length (es_log (nd_envelopes n')) = 1"
proof -
  define n1 where "n1 = sample_node\<lparr>nd_anti_abuse := snd (payment (sample_deps throws) origin sample_parsed sample_vote_spec
    (nd_anti_abuse sample_node))\<rparr>"
  obtain r n' where tx: "transaction (apply_and_witness (sample_deps throws) sample_readings sample_raw origin sample_parsed
      sample_handler sample_vote_spec [255] (origin_of (sample_deps throws) origin)) n1 = (Inr r, n')"
    using sample_transaction [of n1 throws origin "origin_of (sample_deps throws) origin"]
    by (auto simp: n1_def sample_node_def initial_node_def)
  have replay: "acceptReplay sample_parsed (ds_idempotent sample_vote_spec) (\<lambda>k v. nonce_seen k v (nd_nonces sample_node)) = Inr ()"
    by (simp add: acceptReplay_def sample_fields nonce_seen_def sample_node_def initial_node_def)
  have auth: "authorise_and_validate sample_handler sample_parsed o' n = Inr [255]" for o' n
    by (simp add: authorise_and_validate_def decode_body_def sample_handler_def sample_fields)
  have run: "accept (sample_deps throws) sample_readings sample_raw origin sample_node
    = (case fanout (sample_deps throws) sample_raw origin sample_parsed sample_vote_spec r of (res, eff) \<Rightarrow> (res, n', eff))"
    unfolding accept_def sample_checks payment_def [symmetric] origin_of_def [symmetric]
    using tx by (cases "peer_of origin = None")
      (auto simp: acceptDedupe_def sample_id replay sample_payment auth n1_def Let_def)
  have inv: "node_inv (dp_sha (sample_deps throws)) n1"
    using initial_node_inv [of "dp_sha (sample_deps throws)"] by (simp add: n1_def sample_node_def node_frame_aa)
  obtain seen ps where "n' = new_node (sample_deps throws) sample_readings sample_raw origin sample_parsed r seen ps n1"
    by (rule commit_outcome [OF inv tx])
  then have "length (es_log (nd_envelopes n')) = 1"
    by (simp add: new_node_def Let_def n1_def sample_node_def initial_node_def empty_envelope_store_def)
  with run that show thesis by blast
qed

lemma sample_node_inv: "node_inv sha sample_node"
  by (simp add: sample_node_def node_frame_aa initial_node_inv)

section \<open>What is never written\<close>

lemma accept_changes:
  assumes "accept d clk raw origin n = (res, n', eff)" and "n' \<noteq> n"
  obtains env h spec where "ingress_checks d clk raw n = Inr (env, h, spec)"
    and "\<not> env_has (content_id env) (nd_envelopes n)"
    and "acceptReplay env (ds_idempotent spec) (\<lambda>k v. nonce_seen k v (nd_nonces n)) = Inr ()"
proof (cases "ingress_checks d clk raw n")
  case (Inl r)
  with assms show thesis by (simp add: accept_def)
next
  case (Inr out)
  obtain env h spec where out: "out = (env, h, spec)" by (cases out)
  have "\<not> env_has (content_id env) (nd_envelopes n)"
    using assms Inr out by (auto simp: accept_def acceptDedupe_def)
  moreover have "acceptReplay env (ds_idempotent spec) (\<lambda>k v. nonce_seen k v (nd_nonces n)) = Inr ()"
    using assms Inr out calculation
    by (cases "acceptReplay env (ds_idempotent spec) (\<lambda>k v. nonce_seen k v (nd_nonces n))")
       (auto simp: accept_def acceptDedupe_def)
  ultimately show thesis using that Inr out by blast
qed

lemma authorise_aa [simp]:
  "authorise_and_validate h env o' (n\<lparr>nd_anti_abuse := aa\<rparr>) = authorise_and_validate h env o' n"
  by (simp add: authorise_and_validate_def)

text \<open>C1: No transport writes an unchecked envelope: if a call changes the node at all, the bytes decode to
  an envelope that passed every check (size, version, plane, algorithm, priority, clock, signature over
  its canonical bytes, certificate), whose content was not known and whose nonce was not used; and if
  it changes more than the books of step 13, the handler also authorised it and found its body valid.\<close>

theorem writes_only_after_checks:
  assumes "node_inv (dp_sha d) n" and "handlers_ok d"
    and "accept d clk raw origin n = (res, n', eff)" and "n' \<noteq> n"
  shows "\<exists>env h spec. admissible d clk raw n env h spec \<and> \<not> env_has (content_id env) (nd_envelopes n)
    \<and> acceptReplay env (ds_idempotent spec) (\<lambda>k v. nonce_seen k v (nd_nonces n)) = Inr ()
    \<and> (same_content n n' \<or> (\<exists>b. authorise_and_validate h env (origin_of d origin) n = Inr b))"
proof -
  obtain env h spec where 1: "ingress_checks d clk raw n = Inr (env, h, spec)"
    "\<not> env_has (content_id env) (nd_envelopes n)"
    "acceptReplay env (ds_idempotent spec) (\<lambda>k v. nonce_seen k v (nd_nonces n)) = Inr ()"
    using accept_changes [OF assms(3,4)] by blast
  from assms(1-3) have "same_content n n' \<or> (\<exists>b. authorise_and_validate h env (origin_of d origin) n = Inr b)"
    by (cases rule: accept_cases) (use 1 in auto)
  with 1 checks_admissible [OF 1(1)] show ?thesis by blast
qed

theorem writes_only_after_checks_witness:
  "\<exists>env h spec. admissible (sample_deps (\<lambda>e. False)) sample_readings sample_raw sample_node env h spec
    \<and> content_id env \<noteq> []"
proof -
  obtain r n' where run: "accept (sample_deps (\<lambda>e. False)) sample_readings sample_raw LOCAL_ORIGIN sample_node
    = (case fanout (sample_deps (\<lambda>e. False)) sample_raw LOCAL_ORIGIN sample_parsed sample_vote_spec r of (res, eff) \<Rightarrow> (res, n', eff))"
    and len: "length (es_log (nd_envelopes n')) = 1" by (rule sample_accept)
  obtain res eff where f: "fanout (sample_deps (\<lambda>e. False)) sample_raw LOCAL_ORIGIN sample_parsed sample_vote_spec r = (res, eff)"
    by fastforce
  have "n' \<noteq> sample_node" using len by (auto simp: sample_node_def initial_node_def empty_envelope_store_def)
  have acc: "accept (sample_deps (\<lambda>e. False)) sample_readings sample_raw LOCAL_ORIGIN sample_node = (res, n', eff)"
    using run f by simp
  from writes_only_after_checks [OF sample_node_inv sample_handlers_ok acc \<open>n' \<noteq> sample_node\<close>]
  obtain env h spec where a: "admissible (sample_deps (\<lambda>e. False)) sample_readings sample_raw sample_node env h spec"
    by blast
  moreover from a have "content_id env \<noteq> []"
    by (auto simp: admissible_def sample_deps_def sample_parse sample_fields contentIdFromCanonical_def prefix_content_def)
  ultimately show ?thesis by blast
qed

lemma fanout_quiet: "(\<And>e r. \<not> dp_throws d (AcceptedEvent e r)) \<Longrightarrow> \<exists>eff. fanout d raw origin env spec r = (Inr r, eff)"
  by (auto simp: fanout_def Let_def)

lemma sample_quiet: "\<not> dp_throws (sample_deps (\<lambda>e. False)) e"
  by (simp add: sample_deps_def)

lemma sample_accepted:
  obtains r n' eff where "accept (sample_deps (\<lambda>e. False)) sample_readings sample_raw origin sample_node = (Inr r, n', eff)"
    and "length (es_log (nd_envelopes n')) = 1"
    and "fanout (sample_deps (\<lambda>e. False)) sample_raw origin sample_parsed sample_vote_spec r = (Inr r, eff)"
proof -
  obtain r n' where a: "accept (sample_deps (\<lambda>e. False)) sample_readings sample_raw origin sample_node
    = (case fanout (sample_deps (\<lambda>e. False)) sample_raw origin sample_parsed sample_vote_spec r of (res, eff) \<Rightarrow> (res, n', eff))"
    and len: "length (es_log (nd_envelopes n')) = 1" by (rule sample_accept)
  obtain eff where "fanout (sample_deps (\<lambda>e. False)) sample_raw origin sample_parsed sample_vote_spec r = (Inr r, eff)"
    using fanout_quiet [of "sample_deps (\<lambda>e. False)", OF sample_quiet] by blast
  with a len that show thesis by simp
qed

section \<open>What is written together\<close>

text \<open>C2: Apply and witness are atomic: a call that ends in an error leaves the stored envelopes, the projections,
  the witness log, the used nonces and the federation rows exactly as they were, and nothing left the
  node. The one exception is named in the hypothesis: no listener of the event bus throws.\<close>

theorem rejected_leaves_no_trace:
  assumes "node_inv (dp_sha d) n" and "handlers_ok d" and "\<And>e r. \<not> dp_throws d (AcceptedEvent e r)"
    and "accept d clk raw origin n = (Inl e, n', eff)"
  shows "nd_envelopes n' = nd_envelopes n \<and> pj_data (nd_projections n') = pj_data (nd_projections n)
    \<and> nd_log n' = nd_log n \<and> nd_nonces n' = nd_nonces n \<and> ld_entries (nd_ledger n') = ld_entries (nd_ledger n)
    \<and> eff = []"
  using assms(1,2,4)
proof (cases rule: accept_cases)
  case (refused e)
  then show ?thesis using same_content_views by blast
next
  case (duplicate env h spec)
  then show ?thesis by simp
next
  case (committed env h spec b aa r seen ps)
  with fanout_quiet [of d, OF assms(3)] show ?thesis by (metis Inl_Inr_False prod.inject)
qed

definition sample_refusing :: "(bytes, bytes) deps" where
  "sample_refusing = (sample_deps (\<lambda>e. False))\<lparr>dp_registry := [(''jb:vote:cast:v1'', sample_handler\<lparr>h_project :=
     (\<lambda>b e o' ps. (Inl (ErrorThrown ''no such post''), col_put ''votes'' (content_id e) b ps))\<rparr>, sample_vote_spec)]\<rparr>"

text \<open>A handler that fails after it has written: the vote is not kept.\<close>

lemma sample_refusing_checks:
  "ingress_checks sample_refusing sample_readings sample_raw n = Inr (sample_parsed, sample_handler\<lparr>h_project :=
     (\<lambda>b e o' ps. (Inl (ErrorThrown ''no such post''), col_put ''votes'' (content_id e) b ps))\<rparr>, sample_vote_spec)"
  using sample_raw_length by (simp add: ingress_checks_def sample_refusing_def sample_check_defs)

lemma sample_refused: "fst (accept sample_refusing sample_readings sample_raw LOCAL_ORIGIN sample_node)
    = Inl (ErrorThrown ''no such post'')"
proof -
  have pay: "payment sample_refusing LOCAL_ORIGIN sample_parsed sample_vote_spec (nd_anti_abuse sample_node)
    = payment (sample_deps (\<lambda>e. False)) LOCAL_ORIGIN sample_parsed sample_vote_spec (nd_anti_abuse sample_node)"
    by (simp add: payment_def sample_refusing_def)
  have replay: "acceptReplay sample_parsed (ds_idempotent sample_vote_spec) (\<lambda>k v. nonce_seen k v (nd_nonces sample_node)) = Inr ()"
    by (simp add: acceptReplay_def sample_fields nonce_seen_def sample_node_def initial_node_def)
  have auth: "authorise_and_validate (sample_handler\<lparr>h_project := f\<rparr>) sample_parsed o' n = Inr [255]" for f o' n
    by (simp add: authorise_and_validate_def decode_body_def sample_handler_def sample_fields)
  have local: "peer_of LOCAL_ORIGIN = None" by (simp add: peer_of_def LOCAL_ORIGIN_def)
  let ?h = "sample_handler\<lparr>h_project := (\<lambda>b e o' ps. (Inl (ErrorThrown ''no such post''), col_put ''votes'' (content_id e) b ps))\<rparr>"
  have tx: "fst (transaction (apply_and_witness sample_refusing sample_readings sample_raw LOCAL_ORIGIN sample_parsed ?h
      sample_vote_spec [255] o') (sample_node\<lparr>nd_anti_abuse := aa\<rparr>)) = Inl (ErrorThrown ''no such post'')" for o' aa
    by (simp add: transaction_def apply_and_witness_def Let_def sample_node_def initial_node_def
        empty_projection_store_def tx_bind_def tx_return_def tx_reserve_def nonce_reserve_def sample_vote_spec_def
        sample_fields tx_put_def env_put_def empty_envelope_store_def local tx_project_def)
  obtain n2 where tx2: "transaction (apply_and_witness sample_refusing sample_readings sample_raw LOCAL_ORIGIN sample_parsed
      ?h sample_vote_spec [255] (origin_of sample_refusing LOCAL_ORIGIN)) (sample_node\<lparr>nd_anti_abuse :=
      (nd_anti_abuse sample_node)\<lparr>st_credits := [(''key:0708'', 249)]\<rparr>\<rparr>) = (Inl (ErrorThrown ''no such post''), n2)"
    using tx by (metis prod.collapse)
  show ?thesis
    unfolding accept_def sample_refusing_checks payment_def [symmetric] origin_of_def [symmetric]
    by (simp add: acceptDedupe_def sample_id replay pay sample_payment local auth tx2 Let_def)
qed

theorem rejected_leaves_no_trace_witness:
  "nd_envelopes (fst (snd (accept sample_refusing sample_readings sample_raw LOCAL_ORIGIN sample_node)))
    = empty_envelope_store"
proof -
  obtain n' eff where run: "accept sample_refusing sample_readings sample_raw LOCAL_ORIGIN sample_node
    = (Inl (ErrorThrown ''no such post''), n', eff)" using sample_refused by (metis prod.collapse)
  have "handlers_ok sample_refusing"
    by (auto simp: handlers_ok_def sample_refusing_def handler_ok_def store_error_def)
  moreover have "\<not> dp_throws sample_refusing (AcceptedEvent e r)" for e r
    by (simp add: sample_refusing_def sample_deps_def)
  ultimately have "nd_envelopes n' = nd_envelopes sample_node"
    using rejected_leaves_no_trace [OF sample_node_inv _ _ run] by blast
  moreover have "nd_envelopes sample_node = empty_envelope_store" by (simp add: sample_node_def initial_node_def)
  ultimately show ?thesis using run by simp
qed

section \<open>Receipts\<close>

lemma content_id_parsed:
  "parseEnvelope sha nfc raw = Inr (env, c) \<Longrightarrow> content_id env = contentIdFromCanonical sha c"
  using parse_truncate by blast

text \<open>C3: Exactly-once effect: once a call has returned a receipt, submitting the same bytes again later, after
  any other requests and over any transport, changes nothing, sends nothing and returns that same
  receipt, as long as the bytes still pass the checks of steps 1 to 10.\<close>

theorem replay_returns_original_receipt:
  assumes "node_inv (dp_sha d) n" and "handlers_ok d" and "accept d clk raw origin n = (Inr r, n1, eff)"
    and "serves d n1 reqs n2" and "ingress_checks d clk' raw n2 = Inr x"
  shows "accept d clk' raw origin' n2 = (Inr r, n2, [])"
proof -
  have inv1: "node_inv (dp_sha d) n1" by (rule accept_inv [OF assms(1-3)])
  have inv2: "node_inv (dp_sha d) n2" by (rule serves_inv [OF assms(4,2) inv1])
  obtain env h spec where x: "x = (env, h, spec)" by (cases x)
  obtain c where p2: "parseEnvelope (dp_sha d) (dp_nfc d) raw = Inr (env, c)"
    using checks_admissible [OF assms(5) [unfolded x]] by (auto simp: admissible_def)
  have "\<exists>s. env_get (content_id env) (nd_envelopes n1) = Some s \<and> se_receipt s = Some r"
    using assms(1-3)
  proof (cases rule: accept_cases)
    case (refused e)
    then show ?thesis by simp
  next
    case (duplicate env' h' spec')
    then obtain c' where "parseEnvelope (dp_sha d) (dp_nfc d) raw = Inr (env', c')"
      using checks_admissible by (fastforce simp: admissible_def)
    with p2 duplicate show ?thesis
      by (auto simp: receipt_for_existing_def split: option.splits)
  next
    case (committed env' h' spec' b aa r' seen ps)
    then obtain c' where "parseEnvelope (dp_sha d) (dp_nfc d) raw = Inr (env', c')"
      using checks_admissible by (fastforce simp: admissible_def)
    with p2 have env: "env' = env" by simp
    have inv': "node_inv (dp_sha d) (n\<lparr>nd_anti_abuse := aa\<rparr>)" using assms(1) by (simp add: node_frame_aa)
    have "r' = r" using committed(11) by (auto simp: fanout_def Let_def split: if_splits)
    moreover have "env_get (content_id env) (nd_envelopes n1) = Some (receipted env raw (at_put clk)
        (length (ml_leaves (nd_log n))) r' (length (ml_leaves (nd_log n))))"
      using committed(2) unfolding committed(10) env
      by (simp add: env_get_def new_node_views [OF inv'] env_has_def map_add_def)
    ultimately show ?thesis by (simp add: receipted_def)
  qed
  then obtain s where s: "env_get (content_id env) (nd_envelopes n1) = Some s" "se_receipt s = Some r" by blast
  obtain ys where ys: "es_by_content_id (nd_envelopes n2) = es_by_content_id (nd_envelopes n1) @ ys"
    using serves_extends [OF assms(4,2) inv1] by blast
  have "env_get (content_id env) (nd_envelopes n2) = Some s"
    using s ys inv2 by (auto simp: env_get_def map_add_def node_inv_def store_inv_def map_of_eq_None_iff dest: map_of_SomeD
      split: option.splits)
  with s assms(5) x show ?thesis
    by (simp add: accept_def acceptDedupe_def env_has_def env_get_def receipt_for_existing_def)
qed

theorem replay_returns_original_receipt_witness:
  "\<exists>r n1 eff. accept (sample_deps (\<lambda>e. False)) sample_readings sample_raw LOCAL_ORIGIN sample_node = (Inr r, n1, eff)
    \<and> accept (sample_deps (\<lambda>e. False)) sample_readings sample_raw sample_peer n1 = (Inr r, n1, [])"
proof -
  obtain r n1 eff where a: "accept (sample_deps (\<lambda>e. False)) sample_readings sample_raw LOCAL_ORIGIN sample_node
    = (Inr r, n1, eff)" by (rule sample_accepted)
  from replay_returns_original_receipt [OF sample_node_inv sample_handlers_ok a serves.idle sample_checks] a
  show ?thesis by blast
qed

text \<open>Every receipt in the store passes the client's verification.\<close>

definition receipts_verify :: "(bytes \<Rightarrow> bytes) \<Rightarrow> (bytes \<Rightarrow> bytes \<Rightarrow> bytes \<Rightarrow> bool) \<Rightarrow> 'd node_state \<Rightarrow> bool" where
  "receipts_verify sha verify n \<longleftrightarrow> (\<forall>(cid, s) \<in> set (es_by_content_id (nd_envelopes n)).
     case se_receipt s of None \<Rightarrow> False | Some r \<Rightarrow> verify_receipt sha verify r)"

lemma commit_receipt_verifies:
  assumes "\<And>m. verify (dp_sign d m) m (dp_public_key d)" and inv: "node_inv (dp_sha d) n'"
    and "length (ml_leaves (nd_log n')) \<le> 2 ^ 31" and sign: "sign_receipt d t cid i leaf at n' = Inr r"
    and leaf: "map_of (ml_index_by_id (nd_log n')) cid = Some leaf"
  shows "verify_receipt (dp_sha d) verify r"
proof -
  have li: "log_inv (dp_sha d) (nd_log n')" using inv by (simp add: node_inv_def)
  obtain path where p: "log_inclusion_proof (dp_sha d) cid (nd_log n') = Inr (leaf, length (ml_leaves (nd_log n')), path)"
    using log_inclusion_proof_exists [OF li leaf] by blast
  with sign have r: "r = \<lparr>rc_content_id = cid, rc_log_index = int i, rc_leaf_index = int leaf,
            rc_accepted_at_ms = at, rc_server_id = dp_server_id d, rc_server_key = dp_public_key d,
            rc_signature = dp_sign d (node_receipt_signing_bytes cid (int i) (int leaf) at
               (dp_server_id d) (dp_public_key d) (log_current_sth (dp_sha d) (dp_public_key d) (dp_sign d) t (nd_log n')) path),
            rc_sth = log_current_sth (dp_sha d) (dp_public_key d) (dp_sign d) t (nd_log n'), rc_inclusion_proof = path\<rparr>"
    by (simp add: sign_receipt_def Let_def)
  show ?thesis
    by (rule verify_receipt_issued [where ?verify_ed25519.0 = verify and sign = "dp_sign d" and public_key = "dp_public_key d" and log = "nd_log n'"
          and i = leaf and n = "length (ml_leaves (nd_log n'))" and path = path and now = t, OF assms(1) li assms(3)])
       (simp_all add: r p)
qed

lemma accept_receipts_verify:
  assumes sig: "\<And>m. verify (dp_sign d m) m (dp_public_key d)" and inv: "node_inv (dp_sha d) n" and hok: "handlers_ok d"
    and run: "accept d clk raw origin n = (res, n', eff)" and len: "length (ml_leaves (nd_log n')) \<le> 2 ^ 31"
    and ok: "receipts_verify (dp_sha d) verify n"
  shows "receipts_verify (dp_sha d) verify n' \<and> (case res of Inl e \<Rightarrow> True | Inr r \<Rightarrow> verify_receipt (dp_sha d) verify r)"
  using inv hok run
proof (cases rule: accept_cases)
  case (refused e)
  with ok same_content_views show ?thesis by (fastforce simp: receipts_verify_def)
next
  case (duplicate env h spec)
  with ok show ?thesis
    by (fastforce simp: receipts_verify_def receipt_for_existing_def env_get_def dest: map_of_SomeD split: option.splits)
next
  case (committed env h spec b aa r seen ps)
  let ?n = "n\<lparr>nd_anti_abuse := aa\<rparr>"
  have inv1: "node_inv (dp_sha d) ?n" using inv by (simp add: node_frame_aa)
  have inv': "node_inv (dp_sha d) n'" by (rule accept_inv [OF inv hok run])
  have get: "env_get (content_id env) (nd_envelopes n') = Some (receipted env raw (at_put clk)
      (length (ml_leaves (nd_log n))) r (length (ml_leaves (nd_log n))))"
    using committed(2) unfolding committed(10) by (simp add: env_get_def new_node_views [OF inv1] env_has_def map_add_def)
  have leaf: "map_of (ml_index_by_id (nd_log n')) (content_id env) = Some (length (ml_leaves (nd_log n)))"
    by (rule stored_receipt [OF inv' get]) (simp add: receipted_def)
  have "verify_receipt (dp_sha d) verify r"
    by (rule commit_receipt_verifies [where verify = verify and d = d, OF sig inv' len committed(9) leaf])
  then show ?thesis
    using ok committed(11) unfolding committed(10) receipts_verify_def new_node_views [OF inv1]
    by (auto simp: receipted_def fanout_def Let_def split: if_splits)
qed

lemma serves_receipts_verify:
  assumes "serves d n reqs n'" and "\<And>m. verify (dp_sign d m) m (dp_public_key d)" and "handlers_ok d"
    and "node_inv (dp_sha d) n" and "length (ml_leaves (nd_log n')) \<le> 2 ^ 31" and "receipts_verify (dp_sha d) verify n"
  shows "receipts_verify (dp_sha d) verify n'"
  using assms
proof (induction rule: serves.induct)
  case (request d clk raw origin n res n' eff reqs n'')
  have inv': "node_inv (dp_sha d) n'" by (rule accept_inv [OF request.prems(3,2) request.hyps(1)])
  obtain xs where "ml_leaves (nd_log n'') = ml_leaves (nd_log n') @ xs"
    using serves_extends [OF request.hyps(2) request.prems(2) inv'] by blast
  with request.prems(4) have "length (ml_leaves (nd_log n')) \<le> 2 ^ 31" by simp
  from accept_receipts_verify [where verify = verify and d = d, OF request.prems(1,3,2) request.hyps(1) this request.prems(5)]
  show ?case using request.IH [OF request.prems(1,2) inv' request.prems(4)] by simp
qed

text \<open>C4: A receipt is evidence on its own: whatever requests the node has served since it was empty, each
  receipt it returns, for new content or for a replay, names the hash of the submitted envelope's
  canonical bytes and passes the client's offline verification (both signatures and the inclusion
  proof). Ed25519 enters by one documented fact: a signature made with the node's key verifies.\<close>

theorem receipts_verify_offline:
  assumes "\<And>m. verify (dp_sign d m) m (dp_public_key d)" and "handlers_ok d"
    and "node_inv (dp_sha d) n0" and "nd_envelopes n0 = empty_envelope_store" and "serves d n0 reqs n"
    and "accept d clk raw origin n = (Inr r, n', eff)" and "length (ml_leaves (nd_log n')) \<le> 2 ^ 31"
  shows "verify_receipt (dp_sha d) verify r
    \<and> (\<exists>env c. parseEnvelope (dp_sha d) (dp_nfc d) raw = Inr (env, c) \<and> rc_content_id r = contentIdFromCanonical (dp_sha d) c)"
proof -
  have inv: "node_inv (dp_sha d) n" by (rule serves_inv [OF assms(5,2,3)])
  obtain xs where "ml_leaves (nd_log n') = ml_leaves (nd_log n) @ xs" using accept_extends(1) [OF inv assms(2,6)] by blast
  with assms(7) have len: "length (ml_leaves (nd_log n)) \<le> 2 ^ 31" by simp
  have "receipts_verify (dp_sha d) verify n0" by (simp add: receipts_verify_def assms(4) empty_envelope_store_def)
  from serves_receipts_verify [where verify = verify and d = d, OF assms(5,1,2,3) len this] have ok: "receipts_verify (dp_sha d) verify n" .
  have "verify_receipt (dp_sha d) verify r"
    using accept_receipts_verify [where verify = verify, OF assms(1) inv assms(2,6,7) ok] by simp
  moreover have "\<exists>env c. parseEnvelope (dp_sha d) (dp_nfc d) raw = Inr (env, c) \<and> rc_content_id r = content_id env"
    using inv assms(2,6)
  proof (cases rule: accept_cases)
    case (duplicate env h spec)
    then obtain s where "env_get (content_id env) (nd_envelopes n) = Some s" "se_receipt s = Some r"
      by (auto simp: receipt_for_existing_def split: option.splits)
    then have "rc_content_id r = content_id env" using stored_receipt [OF inv] by (metis option.inject)
    with checks_admissible [OF duplicate(1)] show ?thesis by (auto simp: admissible_def)
  next
    case (committed env h spec b aa r' seen ps)
    then have "r' = r" by (auto simp: fanout_def Let_def split: if_splits)
    with checks_admissible [OF committed(1)] sign_receipt_fields [OF committed(9)] show ?thesis
      by (auto simp: admissible_def)
  qed simp
  ultimately show ?thesis using content_id_parsed by metis
qed

theorem receipts_verify_offline_witness:
  "\<exists>r n' eff. accept (sample_deps (\<lambda>e. False)) sample_readings sample_raw LOCAL_ORIGIN sample_node = (Inr r, n', eff)
    \<and> verify_receipt sample_sha (\<lambda>sig m key. sig = m \<and> key = [3]) r"
proof -
  obtain r n' eff where a: "accept (sample_deps (\<lambda>e. False)) sample_readings sample_raw LOCAL_ORIGIN sample_node
    = (Inr r, n', eff)" and len: "length (es_log (nd_envelopes n')) = 1" by (rule sample_accepted)
  have inv': "node_inv (dp_sha (sample_deps (\<lambda>e. False))) n'" by (rule accept_inv [OF sample_node_inv sample_handlers_ok a])
  have "nd_envelopes sample_node = empty_envelope_store" by (simp add: sample_node_def initial_node_def)
  from receipts_verify_offline [where verify = "\<lambda>sig m key. sig = m \<and> key = [3]", OF _ sample_handlers_ok sample_node_inv this
      serves.idle a] len inv_lengths(1) [OF inv']
  have "verify_receipt (dp_sha (sample_deps (\<lambda>e. False))) (\<lambda>sig m key. sig = m \<and> key = [3]) r"
    by (simp add: sample_deps_def)
  moreover have "dp_sha (sample_deps (\<lambda>e. False)) = sample_sha" by (simp add: sample_deps_def)
  ultimately show ?thesis using a by simp
qed

section \<open>The log only grows\<close>

text \<open>C5: The witness log is append-only for a client that remembers a tree head: whatever requests the node
  serves after signing a head, it can produce a consistency proof from that head to its current one,
  and the client's verifier accepts it (up to \<open>2 ^ 31\<close> leaves).\<close>

theorem served_log_is_append_only:
  assumes "handlers_ok d" and "node_inv (dp_sha d) n" and "serves d n reqs n'"
    and "0 < length (ml_leaves (nd_log n))" and "length (ml_leaves (nd_log n')) \<le> 2 ^ 31"
  shows "\<exists>p. log_consistency_proof (dp_sha d) (int (length (ml_leaves (nd_log n)))) (int (length (ml_leaves (nd_log n'))))
      (nd_log n') = Inr p \<and>
    verify_consistency (dp_sha d)
      (int (length (ml_leaves (nd_log n)))) (th_root_hash (log_current_sth (dp_sha d) key sign t (nd_log n)))
      (int (length (ml_leaves (nd_log n')))) (th_root_hash (log_current_sth (dp_sha d) key sign t' (nd_log n'))) p
      = Some True"
proof -
  obtain xs where xs: "ml_leaves (nd_log n') = ml_leaves (nd_log n) @ xs"
    using serves_extends [OF assms(3,1,2)] by blast
  from verify_consistency_complete [OF assms(4), of "ml_leaves (nd_log n')" "dp_sha d"] xs assms(5)
  show ?thesis by (simp add: log_consistency_proof_def log_current_sth_def Let_def)
qed

definition sample_served :: "bytes node_state" where
  "sample_served = fst (snd (accept (sample_deps (\<lambda>e. False)) sample_readings sample_raw LOCAL_ORIGIN sample_node))"

lemma sample_served_inv: "node_inv (dp_sha (sample_deps (\<lambda>e. False))) sample_served"
  and sample_served_leaves: "length (ml_leaves (nd_log sample_served)) = 1"
proof -
  obtain r n' eff where a: "accept (sample_deps (\<lambda>e. False)) sample_readings sample_raw LOCAL_ORIGIN sample_node
    = (Inr r, n', eff)" and len: "length (es_log (nd_envelopes n')) = 1" by (rule sample_accepted)
  then have n': "sample_served = n'" by (simp add: sample_served_def)
  show inv: "node_inv (dp_sha (sample_deps (\<lambda>e. False))) sample_served"
    unfolding n' by (rule accept_inv [OF sample_node_inv sample_handlers_ok a])
  show "length (ml_leaves (nd_log sample_served)) = 1" using len inv_lengths(1) [OF inv] n' by simp
qed

theorem served_log_is_append_only_witness:
  "\<exists>p. verify_consistency sample_sha 1 (merkle_root sample_sha (ml_leaves (nd_log sample_served)))
      1 (merkle_root sample_sha (ml_leaves (nd_log sample_served))) p = Some True"
proof -
  have s: "dp_sha (sample_deps (\<lambda>e. False)) = sample_sha" by (simp add: sample_deps_def)
  show ?thesis
    using served_log_is_append_only [OF sample_handlers_ok sample_served_inv serves.idle, of "[]" "\<lambda>m. m" 0 0]
    by (auto simp: sample_served_leaves s log_current_sth_def Let_def)
qed

section \<open>What a peer's delivery changes\<close>

text \<open>An accepted envelope is never relayed back to the peer it came from, and a domain whose policy row
  keeps it node-local is never relayed at all: every relay request among a call's effects belongs to a
  federated row and excludes exactly the delivering peer.\<close>

theorem never_relayed_back:
  assumes "node_inv (dp_sha d) n" and "handlers_ok d" and "accept d clk raw origin n = (res, n', eff)"
    and "FederationEnqueue env excluded size' \<in> set eff"
  shows "excluded = map_option (\<lambda>p. [p]) (peer_of origin) \<and> size' = length raw
    \<and> (\<exists>h spec. reg_lookup (domain env) (dp_registry d) = Some (h, spec) \<and> ds_federate spec)"
proof -
  have sub: "x \<in> set (attempt t es) \<Longrightarrow> x \<in> set es" for x t es
    by (induction es) (auto split: if_splits)
  from assms(1-3) show ?thesis
  proof (cases rule: accept_cases)
    case (committed env' h spec b aa r seen ps)
    then show ?thesis using assms(4) checks_admissible [OF committed(1)]
      by (auto simp: fanout_def Let_def admissible_def split: if_splits dest!: sub)
  qed (use assms(4) in simp_all)
qed

theorem never_relayed_back_witness:
  "\<exists>res n' eff. accept (sample_deps (\<lambda>e. False)) sample_readings sample_raw sample_peer sample_node = (res, n', eff)
    \<and> FederationEnqueue sample_parsed (Some [''jbs1b'']) (length sample_raw) \<in> set eff
    \<and> (\<exists>h spec. reg_lookup (domain sample_parsed) (dp_registry (sample_deps (\<lambda>e. False))) = Some (h, spec) \<and> ds_federate spec)"
proof -
  obtain r n' eff where a: "accept (sample_deps (\<lambda>e. False)) sample_readings sample_raw sample_peer sample_node = (Inr r, n', eff)"
    and f: "fanout (sample_deps (\<lambda>e. False)) sample_raw sample_peer sample_parsed sample_vote_spec r = (Inr r, eff)"
    by (rule sample_accepted)
  from f have "FederationEnqueue sample_parsed (Some [''jbs1b'']) (length sample_raw) \<in> set eff"
    by (auto simp: fanout_def Let_def sample_deps_def sample_vote_spec_def sample_peer_def peer_of_def)
  with a never_relayed_back [OF sample_node_inv sample_handlers_ok a this] show ?thesis by blast
qed

lemma transaction_forward:
  assumes inv: "node_inv (dp_sha d) n" and new: "\<not> env_has (content_id env) (nd_envelopes n)"
    and replay: "acceptReplay env (ds_idempotent spec) (\<lambda>k v. nonce_seen k v (nd_nonces n)) = Inr ()"
    and proj: "h_project h b env osid (pj_data (nd_projections n)) = (Inr (), ps)"
    and sign: "sign_receipt d (at_sth clk) (content_id env) (length (ml_leaves (nd_log n))) (length (ml_leaves (nd_log n)))
           (at_accept clk) n2 = Inr r"
    and log: "nd_log n2 = fst (log_append (dp_sha d) (content_id env) (nd_log n))"
  shows "transaction (apply_and_witness d clk raw origin env h spec b osid) n
    = (Inr r, new_node d clk raw origin env r (reserved spec env (nd_nonces n)) ps n)"
proof -
  let ?cid = "content_id env"
  have st: "pj_staged (nd_projections n) = None" using inv by (simp add: node_inv_def)
  have none: "map_of (es_by_content_id (nd_envelopes n)) ?cid = None" using new by (simp add: env_has_def)
  have replay': "acceptReplay env (ds_idempotent spec) (\<lambda>k v. nonce_seen k v (nd_nonces (opened n))) = Inr ()"
    using replay by (simp add: opened_def)
  have unseen: "unseen ?cid (opened n)"
    using inv new by (auto simp: unseen_def opened_def env_has_def node_inv_def)
  have proj': "h_project h b env osid (pj_live (nd_projections (opened n))) = (Inr (), ps)"
    using proj by (simp add: opened_def pj_live_def)
  have "map_of (ml_index_by_id (nd_log n)) ?cid = None" using none inv same_ids by (metis node_inv_def)
  note fresh = log_append_fresh [OF this, of "dp_sha d"]
  have app: "log_append (dp_sha d) ?cid (nd_log (opened n)) = (nd_log n2, length (ml_leaves (nd_log n)),
      Some (?cid, length (ml_leaves (nd_log n))))"
    using log fresh by (simp add: opened_def)
  have sign': "sign_receipt d (at_sth clk) ?cid (length (es_log (nd_envelopes (opened n)))) (length (ml_leaves (nd_log n)))
      (at_accept clk) ((opened n)\<lparr>nd_log := nd_log n2\<rparr>) = Inr r"
    using sign by (simp add: sign_receipt_def opened_def inv_lengths [OF inv])
  from apply_forward [OF replay' unseen proj' app sign'] obtain us where
    run: "apply_and_witness d clk raw origin env h spec b osid (opened n, []) = (Inr r, committed d clk raw origin env r
      (length (ml_leaves (nd_log n))) (reserved spec env (nd_nonces (opened n))) ps (nd_log n2) (opened n), us)" by blast
  have si: "store_inv (nd_envelopes (opened n))" using inv by (simp add: node_inv_def opened_def)
  show ?thesis
    using run st log fresh unfolding committed_def Let_def commit_log [OF si]
    by (simp add: transaction_def opened_def Let_def new_node_def pj_set_live_def pj_live_def receipted_def
        fresh_record_def inv_lengths [OF inv])
qed

text \<open>What a peer is spared is a payment, not a check: an envelope the node accepts from a local client it also
  accepts when a peer delivers it, with the same receipt, the same stored record, log, projections and
  nonces; the only difference is that no credit, nullifier or credential of this node is touched.\<close>

theorem peer_delivery_same_but_unpaid:
  assumes inv: "node_inv (dp_sha d) n" and hok: "handlers_ok d" and run: "accept d clk raw loc n = (Inr r, n1, eff)"
    and loc: "peer_of loc = None" and peer: "peer_of peer = Some p"
    and osid: "io_origin_server_id peer = io_origin_server_id loc"
  shows "\<exists>n2 eff2. accept d clk raw peer n = (Inr r, n2, eff2) \<and> nd_envelopes n2 = nd_envelopes n1
    \<and> nd_log n2 = nd_log n1 \<and> pj_data (nd_projections n2) = pj_data (nd_projections n1) \<and> nd_nonces n2 = nd_nonces n1
    \<and> nd_anti_abuse n2 = nd_anti_abuse n"
  using inv hok run
proof (cases rule: accept_cases)
  case (duplicate env h spec)
  then have "accept d clk raw peer n = (Inr r, n, [])" by (simp add: accept_def acceptDedupe_def)
  with duplicate show ?thesis by simp
next
  case (committed env h spec b aa r' seen ps)
  let ?n1 = "n\<lparr>nd_anti_abuse := aa\<rparr>" and ?o = "origin_of d loc"
  have o: "origin_of d peer = ?o" using osid by (simp add: origin_of_def)
  have r': "r' = r" using committed(11) by (auto simp: fanout_def Let_def split: if_splits)
  have inv1: "node_inv (dp_sha d) ?n1" using inv by (simp add: node_frame_aa)
  have "map_of (es_by_content_id (nd_envelopes n)) (content_id env) = None" using committed(2) by (simp add: env_has_def)
  then have "map_of (ml_index_by_id (nd_log n)) (content_id env) = None" using inv same_ids by (metis node_inv_def)
  then have log: "nd_log n1 = fst (log_append (dp_sha d) (content_id env) (nd_log n))"
    by (simp add: committed(10) new_node_def Let_def log_append_fresh inv_lengths [OF inv])
  have local: "transaction (apply_and_witness d clk raw loc env h spec b ?o) ?n1
      = (Inr r, new_node d clk raw loc env r (reserved spec env (nd_nonces ?n1)) ps ?n1)"
    using transaction_forward [OF inv1, of env spec h b ?o ps clk n1 r] committed r' log by simp
  have remote: "transaction (apply_and_witness d clk raw peer env h spec b ?o) n
      = (Inr r, new_node d clk raw peer env r (reserved spec env (nd_nonces n)) ps n)"
    using transaction_forward [OF inv, of env spec h b ?o ps clk n1 r] committed r' log by simp
  have n1: "n1 = new_node d clk raw loc env r (reserved spec env (nd_nonces n)) ps ?n1"
    using local committed(6) by simp
  have "\<exists>eff2. fanout d raw peer env spec r = (Inr r, eff2)"
    using committed(11) r' by (auto simp: fanout_def Let_def split: if_splits)
  moreover have "accept d clk raw peer n = (case fanout d raw peer env spec r of (res, eff) \<Rightarrow>
      (res, new_node d clk raw peer env r (reserved spec env (nd_nonces n)) ps n, eff))"
    using committed(1-3,5) peer remote o
    by (simp add: accept_def acceptDedupe_def Let_def origin_of_def [symmetric])
  ultimately show ?thesis
    by (auto simp: n1 new_node_def Let_def)
qed simp

theorem peer_delivery_same_but_unpaid_witness:
  "\<exists>r n1 n2 eff eff2. accept (sample_deps (\<lambda>e. False)) sample_readings sample_raw LOCAL_ORIGIN sample_node = (Inr r, n1, eff)
    \<and> accept (sample_deps (\<lambda>e. False)) sample_readings sample_raw sample_peer sample_node = (Inr r, n2, eff2)
    \<and> nd_anti_abuse n2 = nd_anti_abuse sample_node"
proof -
  obtain r n1 eff where a: "accept (sample_deps (\<lambda>e. False)) sample_readings sample_raw LOCAL_ORIGIN sample_node
    = (Inr r, n1, eff)" by (rule sample_accepted)
  have "peer_of LOCAL_ORIGIN = None" "peer_of sample_peer = Some ''jbs1b''"
    "io_origin_server_id sample_peer = io_origin_server_id LOCAL_ORIGIN"
    by (simp_all add: peer_of_def LOCAL_ORIGIN_def sample_peer_def)
  from peer_delivery_same_but_unpaid [OF sample_node_inv sample_handlers_ok a this] a show ?thesis by blast
qed

section \<open>A listener that throws\<close>

definition with_throws :: "(effect \<Rightarrow> bool) \<Rightarrow> ('b, 'd) deps \<Rightarrow> ('b, 'd) deps" where
  "with_throws t d = d\<lparr>dp_throws := t\<rparr>"

lemma with_throws_fields [simp]:
  "dp_registry (with_throws t d) = dp_registry d" "dp_sha (with_throws t d) = dp_sha d"
  "dp_nfc (with_throws t d) = dp_nfc d" "dp_verify (with_throws t d) = dp_verify d"
  "dp_pow_verify (with_throws t d) = dp_pow_verify d" "dp_certificates (with_throws t d) = dp_certificates d"
  "dp_public_key (with_throws t d) = dp_public_key d" "dp_server_id (with_throws t d) = dp_server_id d"
  "dp_sign (with_throws t d) = dp_sign d" "dp_clock_window (with_throws t d) = dp_clock_window d"
  "dp_has_ledger (with_throws t d) = dp_has_ledger d" "dp_has_events (with_throws t d) = dp_has_events d"
  "dp_throws (with_throws t d) = t"
  by (simp_all add: with_throws_def)

lemma with_throws_steps [simp]:
  "ingress_checks (with_throws t d) clk raw n = ingress_checks d clk raw n"
  "sign_receipt (with_throws t d) = sign_receipt d"
  "apply_and_witness (with_throws t d) clk raw origin env h spec b osid = apply_and_witness d clk raw origin env h spec b osid"
proof -
  show s: "sign_receipt (with_throws t d) = sign_receipt d"
    unfolding sign_receipt_def [abs_def] with_throws_fields by (rule refl)
  show "ingress_checks (with_throws t d) clk raw n = ingress_checks d clk raw n"
    unfolding ingress_checks_def with_throws_fields by (rule refl)
  show "apply_and_witness (with_throws t d) clk raw origin env h spec b osid = apply_and_witness d clk raw origin env h spec b osid"
    unfolding apply_and_witness_def with_throws_fields s by (rule refl)
qed

lemma accept_effects:
  assumes "accept d clk raw origin n = (res, n', eff)" and "eff \<noteq> []"
  obtains env spec r where "fanout d raw origin env spec r = (res, eff)"
    and "\<And>t. accept (with_throws t d) clk raw origin n =
      (case fanout (with_throws t d) raw origin env spec r of (res', eff') \<Rightarrow> (res', n', eff'))"
proof -
  obtain envelope h spec where c: "ingress_checks d clk raw n = Inr (envelope, h, spec)"
    using assms by (cases "ingress_checks d clk raw n") (auto simp: accept_def)
  let ?dup = "acceptDedupe (env_has (content_id envelope) (nd_envelopes n)) = Inr ()"
  let ?rp = "acceptReplay envelope (ds_idempotent spec) (\<lambda>k v. nonce_seen k v (nd_nonces n))"
  let ?pay = "if peer_of origin = None then acceptAntiAbuse (dp_pow_verify d) envelope spec (nd_anti_abuse n)
    else (Inr (), nd_anti_abuse n)"
  have dup: ?dup using assms c by (auto simp: accept_def split: if_splits)
  have rp: "?rp = Inr ()" using assms c dup by (cases ?rp) (auto simp: accept_def)
  obtain aa where pay: "?pay = (Inr (), aa)"
    using assms c dup rp by (cases ?pay; cases "fst ?pay") (auto simp: accept_def)
  let ?n1 = "n\<lparr>nd_anti_abuse := aa\<rparr>"
    and ?o = "case io_origin_server_id origin of Some s \<Rightarrow> s | None \<Rightarrow> dp_server_id d"
  obtain b where auth: "authorise_and_validate h envelope ?o ?n1 = Inr b"
    using assms c dup rp pay by (cases "authorise_and_validate h envelope ?o ?n1") (auto simp: accept_def Let_def)
  let ?tx = "transaction (apply_and_witness d clk raw origin envelope h spec b ?o) ?n1"
  obtain r where tx: "?tx = (Inr r, n')" and f: "fanout d raw origin envelope spec r = (res, eff)"
    using assms c dup rp pay auth
    by (cases ?tx; cases "fst ?tx") (auto simp: accept_def Let_def split: ingress_error.splits prod.splits)
  have "accept (with_throws t d) clk raw origin n =
      (case fanout (with_throws t d) raw origin envelope spec r of (res', eff') \<Rightarrow> (res', n', eff'))" for t
    unfolding accept_def with_throws_fields with_throws_steps c
    using dup rp pay auth tx by (cases "peer_of origin = None") (auto simp: Let_def)
  with f that show thesis by blast
qed

text \<open>The post-commit calls are best effort except one: if a listener of the event bus throws on the accepted
  event, the caller gets an error although the envelope has been committed and witnessed exactly as in
  the run where no listener throws.\<close>

theorem throwing_listener_fails_after_commit:
  assumes "accept d clk raw origin n = (Inr r, n', eff)" and "AcceptedEvent env r \<in> set eff"
  shows "\<exists>eff'. accept (with_throws (\<lambda>e. e = AcceptedEvent env r) d) clk raw origin n
    = (Inl (ErrorThrown ''event listener threw''), n', eff')"
proof -
  have sub: "x \<in> set (attempt t es) \<Longrightarrow> x \<in> set es" for x t es
    by (induction es) (auto split: if_splits)
  from assms(2) have "eff \<noteq> []" by auto
  then obtain envelope spec r' where f: "fanout d raw origin envelope spec r' = (Inr r, eff)"
    and run: "\<And>t. accept (with_throws t d) clk raw origin n =
      (case fanout (with_throws t d) raw origin envelope spec r' of (res', eff') \<Rightarrow> (res', n', eff'))"
    using accept_effects [OF assms(1)] by blast
  from f assms(2) have "r' = r" "env = envelope" "dp_has_events d"
    by (auto simp: fanout_def Let_def split: if_splits dest!: sub)
  then show ?thesis by (simp add: run fanout_def Let_def)
qed

theorem throwing_listener_fails_after_commit_witness:
  "\<exists>r n' eff eff'. accept (sample_deps (\<lambda>e. False)) sample_readings sample_raw LOCAL_ORIGIN sample_node = (Inr r, n', eff)
    \<and> length (es_log (nd_envelopes n')) = 1
    \<and> accept (with_throws (\<lambda>e. e = AcceptedEvent sample_parsed r) (sample_deps (\<lambda>e. False))) sample_readings sample_raw
        LOCAL_ORIGIN sample_node = (Inl (ErrorThrown ''event listener threw''), n', eff')"
proof -
  obtain r n' eff where a: "accept (sample_deps (\<lambda>e. False)) sample_readings sample_raw LOCAL_ORIGIN sample_node
    = (Inr r, n', eff)" and len: "length (es_log (nd_envelopes n')) = 1"
    and f: "fanout (sample_deps (\<lambda>e. False)) sample_raw LOCAL_ORIGIN sample_parsed sample_vote_spec r = (Inr r, eff)"
    by (rule sample_accepted)
  from f have "AcceptedEvent sample_parsed r \<in> set eff" by (auto simp: fanout_def Let_def sample_deps_def)
  from throwing_listener_fails_after_commit [OF a this] a len show ?thesis by blast
qed

section \<open>The books agree\<close>

text \<open>C6: One position per envelope, everywhere: however many requests a node serves from a consistent state (the
  empty node is one), every stored envelope carries a receipt for its own identifier, and its place in
  the store, the leaf index and the log index of that receipt and its index in the Merkle log are the
  same number.\<close>

theorem store_and_log_agree:
  assumes "handlers_ok d" and "node_inv (dp_sha d) n0" and "serves d n0 reqs n"
    and "env_get cid (nd_envelopes n) = Some s"
  shows "\<exists>r. se_receipt s = Some r \<and> rc_content_id r = cid \<and> rc_log_index r = int (se_log_index s)
    \<and> rc_leaf_index r = int (se_log_index s) \<and> map_of (ml_index_by_id (nd_log n)) cid = Some (se_log_index s)
    \<and> ml_leaves (nd_log n) ! se_log_index s = hash_leaf (dp_sha d) (text_encode cid)"
proof -
  have inv: "node_inv (dp_sha d) n" by (rule serves_inv [OF assms(3,1,2)])
  obtain r where "se_receipt s = Some r" "rc_content_id r = cid" "rc_log_index r = int (se_log_index s)"
    "rc_leaf_index r = int (se_log_index s)" and m: "map_of (ml_index_by_id (nd_log n)) cid = Some (se_log_index s)"
    by (rule stored_receipt [OF inv assms(4)])
  with log_index [OF _ m, of "dp_sha d"] inv show ?thesis by (auto simp: node_inv_def)
qed

theorem store_and_log_agree_witness:
  "\<exists>n s r. serves (sample_deps (\<lambda>e. False)) sample_node [(sample_readings, sample_raw, LOCAL_ORIGIN)] n
    \<and> es_log (nd_envelopes n) = [s] \<and> se_receipt s = Some r \<and> rc_leaf_index r = int (se_log_index s)"
proof -
  obtain r n eff where a: "accept (sample_deps (\<lambda>e. False)) sample_readings sample_raw LOCAL_ORIGIN sample_node = (Inr r, n, eff)"
    and len: "length (es_log (nd_envelopes n)) = 1" by (rule sample_accepted)
  have run: "serves (sample_deps (\<lambda>e. False)) sample_node [(sample_readings, sample_raw, LOCAL_ORIGIN)] n"
    by (rule serves.request [OF a serves.idle])
  have inv: "node_inv (dp_sha (sample_deps (\<lambda>e. False))) n" by (rule accept_inv [OF sample_node_inv sample_handlers_ok a])
  from len obtain s where s: "es_log (nd_envelopes n) = [s]" by (auto simp: length_Suc_conv)
  then obtain cid where "es_by_content_id (nd_envelopes n) = [(cid, s)]" using inv by (auto simp: node_inv_def store_inv_def)
  then have "env_get cid (nd_envelopes n) = Some s" by (simp add: env_get_def)
  from store_and_log_agree [OF sample_handlers_ok sample_node_inv run this] run s show ?thesis by blast
qed

end
