(* ===== verification/JB_Peering.thy ===== *)
theory JB_Peering
  imports JB_Inbox JB_Guarantees
begin

text \<open>
  What holds of a node that federates (\<open>JB_Inbox\<close>): nothing a peer delivers skips the pipeline, a block for a
  rewritten log is final until an operator lifts it, an honest peer is never taken for a forked one; and
  three ways in which the code's own rules about trust can be got round.
\<close>

section \<open>Deliveries\<close>

definition delivered ::
  "('b, 'd) deps \<Rightarrow> peer_record \<Rightarrow> int option \<Rightarrow> bytes set \<Rightarrow> 'd node_state \<Rightarrow> string \<Rightarrow> bool" where
  "delivered p peer stream_plane raws n cid \<longleftrightarrow> (\<exists>raw \<in> raws. \<exists>env canonical.
     parseEnvelope (dp_sha p) (dp_nfc p) raw = Inr (env, canonical) \<and> content_id env = cid
     \<and> dp_verify p (key_alg env) (author_key env) canonical (signature env)
     \<and> class_permitted (pr_trust peer) (priority env) \<and> (\<forall>pl. stream_plane = Some pl \<longrightarrow> plane env = pl)
     \<and> env_has cid (nd_envelopes n))"

lemma accept_has:
  assumes "node_inv (dp_sha d) n" and "handlers_ok d" and "accept d clk raw origin n = (Inr r, n', eff)"
  obtains env canonical where "parseEnvelope (dp_sha d) (dp_nfc d) raw = Inr (env, canonical)"
    and "dp_verify d (key_alg env) (author_key env) canonical (signature env)" and "env_has (content_id env) (nd_envelopes n')"
  using assms
proof (cases rule: accept_cases)
  case (refused e)
  then show thesis by simp
next
  case (duplicate env h spec)
  then show thesis using that checks_admissible [OF duplicate(1)] by (auto simp: admissible_def)
next
  case (committed env h spec b aa r' seen ps)
  have i: "node_inv (dp_sha d) (n\<lparr>nd_anti_abuse := aa\<rparr>)" using assms(1) by (simp add: node_frame_aa)
  have "env_has (content_id env) (nd_envelopes n')"
    unfolding committed(10) env_has_def new_node_views [OF i] by (simp add: map_add_def split: option.splits)
  then show thesis using that checks_admissible [OF committed(1)] by (auto simp: admissible_def)
qed

lemma env_has_extends:
  assumes "node_inv (dp_sha d) n" and "handlers_ok d" and "accept d clk raw origin n = (res, n', eff)"
    and "env_has cid (nd_envelopes n)"
  shows "env_has cid (nd_envelopes n')"
proof -
  from accept_extends(2) [OF assms(1-3)] obtain ys where
    "es_by_content_id (nd_envelopes n') = es_by_content_id (nd_envelopes n) @ ys" by blast
  with assms(4) show ?thesis by (auto simp: env_has_def map_add_def split: option.splits)
qed

text \<open>What one frame can do: nothing to the log of accepted identifiers, or run the pipeline on it.\<close>

lemma deliver_frame_cases:
  assumes "deliver_frame d peer pid sp f (g, st) = (g', st')"
  obtains (skipped) "dg_accepted g' = dg_accepted g" "fs_node st' = fs_node st" "fs_peers st' = fs_peers st"
  | (ran) env canonical res n eff origin where
      "parseEnvelope (dp_sha (fd_pipeline d)) (dp_nfc (fd_pipeline d)) (fr_raw f) = Inr (env, canonical)"
      "class_permitted (pr_trust peer) (priority env)" "\<forall>pl. sp = Some pl \<longrightarrow> plane env = pl"
      "accept (fd_pipeline d) (fr_readings f) (fr_raw f) origin (fs_node st) = (res, n, eff)"
      "fs_node st' = n" "fs_peers st' = fs_peers st"
      "dg_accepted g' = (case res of Inr _ \<Rightarrow> dg_accepted g @ [content_id env] | Inl _ \<Rightarrow> dg_accepted g)"
proof (cases "parseEnvelope (dp_sha (fd_pipeline d)) (dp_nfc (fd_pipeline d)) (fr_raw f)")
  case (Inl r)
  with assms show thesis by (intro skipped) (auto simp: deliver_frame_def Let_def refuse_def)
next
  case (Inr out)
  obtain env canonical where out: "out = (env, canonical)" by (cases out)
  let ?guard = "case sp of Some p \<Rightarrow> assert_stream_plane p (plane env) | None \<Rightarrow> Inr ()"
  show thesis
  proof (cases ?guard)
    case (Inl r)
    with assms Inr out show thesis by (intro skipped) (auto simp: deliver_frame_def Let_def refuse_def)
  next
    case guard: (Inr u)
    then have plane: "\<forall>pl. sp = Some pl \<longrightarrow> plane env = pl" by (auto simp: assert_stream_plane_def split: if_splits)
    show thesis
    proof (cases "class_permitted (pr_trust peer) (priority env)")
      case False
      with assms Inr out guard show thesis by (intro skipped) (auto simp: deliver_frame_def Let_def refuse_def)
    next
      case permitted: True
      let ?q = "\<lparr>qr_peer_id = pid, qr_priority = priority env, qr_cost = cost_of (priority env),
        qr_per_minute = envelopes_per_minute_for (quota_for (pr_trust peer)) (priority env),
        qr_bytes = of_nat (length (fr_raw f)),
        qr_bytes_per_minute = bytes_per_minute_for (quota_for (pr_trust peer)) (priority env), qr_now_ms = fr_quota_ms f\<rparr>"
      obtain v quotas where q: "limiter_consume ?q (fs_quotas st) = (v, quotas)" by (rule prod.exhaust)
      let ?o = "\<lparr>io_transport_id = ''grpc'', io_peer_id = Some pid, io_origin_server_id = Some pid\<rparr>"
      obtain res n eff where a: "accept (fd_pipeline d) (fr_readings f) (fr_raw f) ?o (fs_node st) = (res, n, eff)"
        by (metis prod.exhaust)
      note step = assms [unfolded deliver_frame_def Inr out prod.case Let_def sum.case guard]
      show thesis
      proof (cases "qv_allowed v")
        case False
        with step permitted q show thesis by (intro skipped) (auto simp: refuse_def)
      next
        case True
        with step permitted q a have "fs_node st' = n" "fs_peers st' = fs_peers st"
          "dg_accepted g' = (case res of Inr _ \<Rightarrow> dg_accepted g @ [content_id env] | Inl _ \<Rightarrow> dg_accepted g)"
          by (auto simp: refuse_def split: sum.splits)
        with Inr out permitted plane a show thesis by (intro ran [of env canonical]) simp_all
      qed
    qed
  qed
qed

lemma deliver_frames_sound:
  assumes "node_inv (dp_sha (fd_pipeline d)) (fs_node st)" and "handlers_ok (fd_pipeline d)"
    and "fold (deliver_frame d peer pid sp) frames (g, st) = (g', st')"
    and "\<forall>cid \<in> set (dg_accepted g). delivered (fd_pipeline d) peer sp raws (fs_node st) cid"
    and "fr_raw ` set frames \<subseteq> raws"
  shows "(\<forall>cid \<in> set (dg_accepted g'). delivered (fd_pipeline d) peer sp raws (fs_node st') cid)
    \<and> node_inv (dp_sha (fd_pipeline d)) (fs_node st') \<and> fs_peers st' = fs_peers st"
  using assms
proof (induction frames arbitrary: g st)
  case (Cons f frames)
  obtain g1 st1 where step: "deliver_frame d peer pid sp f (g, st) = (g1, st1)" by (rule prod.exhaust)
  have rest: "fold (deliver_frame d peer pid sp) frames (g1, st1) = (g', st')" using Cons.prems(3) step by simp
  have "node_inv (dp_sha (fd_pipeline d)) (fs_node st1) \<and> fs_peers st1 = fs_peers st
      \<and> (\<forall>cid \<in> set (dg_accepted g1). delivered (fd_pipeline d) peer sp raws (fs_node st1) cid)"
    using step
  proof (cases rule: deliver_frame_cases)
    case skipped
    with Cons.prems show ?thesis by simp
  next
    case (ran env canonical res n eff origin)
    note inv = Cons.prems(1,2) ran(4)
    have keep: "delivered (fd_pipeline d) peer sp raws n cid" if "delivered (fd_pipeline d) peer sp raws (fs_node st) cid" for cid
      using that env_has_extends [OF inv] by (auto simp: delivered_def)
    have "delivered (fd_pipeline d) peer sp raws n (content_id env)" if "res = Inr r" for r
    proof -
      note acc = inv [unfolded that]
      obtain env' c' where a: "parseEnvelope (dp_sha (fd_pipeline d)) (dp_nfc (fd_pipeline d)) (fr_raw f) = Inr (env', c')"
        "dp_verify (fd_pipeline d) (key_alg env') (author_key env') c' (signature env')"
        "env_has (content_id env') (nd_envelopes n)"
        by (rule accept_has [OF acc])
      have "env' = env" using a(1) ran(1) by simp
      with a ran(2,3) Cons.prems(5) show ?thesis unfolding delivered_def by auto
    qed
    with ran keep Cons.prems(4) accept_inv [OF inv] show ?thesis by (auto split: sum.splits)
  qed
  with Cons.IH [OF _ Cons.prems(2) rest] Cons.prems(5) show ?case by simp
qed simp

lemma note_quota_breach_node [simp]: "fs_node (note_quota_breach d t p st) = fs_node st"
  by (simp add: note_quota_breach_def Let_def alert_def upsert_def)

text \<open>C28: Peer trust never stands in for verification: whatever a peer's level, every identifier a delivery reports as
  accepted belongs to one of its frames, whose bytes decode to an envelope carrying a valid signature over
  its canonical bytes, of the stream's one plane and of a class that level may push; and it is in the
  store afterwards.\<close>

theorem delivery_reverifies_everything:
  assumes "node_inv (dp_sha (fd_pipeline d)) (fs_node st)" and "handlers_ok (fd_pipeline d)"
    and "deliver d t pid frames sp st = (Inr out, st', eff)"
  shows "\<exists>peer. dir_get pid (fs_peers st) = Some peer \<and> PROBATION \<le> pr_trust peer
    \<and> (\<forall>cid \<in> set (do_accepted out). delivered (fd_pipeline d) peer sp (fr_raw ` set frames) (fs_node st') cid)"
proof -
  obtain peer where peer: "dir_get pid (fs_peers st) = Some peer" "PROBATION \<le> pr_trust peer" "require_peer pid st = Inr peer"
    using assms(3) by (auto simp: deliver_def require_peer_def at_least_iff split: option.splits if_splits)
  obtain g st1 where run: "deliver_frames d peer pid sp frames st = (g, st1)" by (rule prod.exhaust)
  have "\<forall>cid \<in> set (dg_accepted g). delivered (fd_pipeline d) peer sp (fr_raw ` set frames) (fs_node st1) cid"
    using deliver_frames_sound [OF assms(1,2) run [unfolded deliver_frames_def]] by auto
  moreover have "do_accepted out = dg_accepted g" "fs_node st' = fs_node st1"
    using assms(3) peer(3) run by (auto simp: deliver_def Let_def split: if_splits)
  ultimately show ?thesis using peer by auto
qed

definition sample_peer_record :: peer_record where
  "sample_peer_record = \<lparr>pr_server_id = ''jbs1b'', pr_public_key = [6], pr_display_name = None, pr_software = None,
     pr_version = None, pr_endpoints = [], pr_trust = NORMAL, pr_planes = None, pr_accepted_classes = None,
     pr_communities = None, pr_channels = None, pr_vouches = None, pr_is_bridge = None, pr_bridged_asns = None,
     pr_first_seen_ms = Some 0, pr_last_seen_ms = 0, pr_quota_breaches = Some 0, pr_blocked_reason = None\<rparr>"

definition sample_fed :: "peer_record \<Rightarrow> bytes fed_state" where
  "sample_fed p = \<lparr>fs_node = sample_node, fs_peers = [(pr_server_id p, p)], fs_quotas = empty_limiter,
     fs_alerts = new_alerts 10, fs_asserter_trust = []\<rparr>"

definition sample_fed_deps :: "(bytes, bytes) fed_deps" where
  "sample_fed_deps = \<lparr>fd_pipeline = sample_deps (\<lambda>e. False), fd_admin_trust = (\<lambda>p. None), fd_has_alerts = True\<rparr>"

definition sample_frame :: frame where
  "sample_frame = \<lparr>fr_raw = sample_raw, fr_quota_ms = 100, fr_readings = sample_readings\<rparr>"

lemma sample_delivery:
  obtains st' eff out where "deliver sample_fed_deps 100 ''jbs1b'' [sample_frame] (Some 1) (sample_fed sample_peer_record) = (Inr out, st', eff)"
    and "do_accepted out = [content_id sample_parsed]"
proof -
  let ?o = "\<lparr>io_transport_id = ''grpc'', io_peer_id = Some ''jbs1b'', io_origin_server_id = Some ''jbs1b''\<rparr>"
  let ?d = "sample_deps (\<lambda>e. False)"
  obtain r n' eff where acc: "accept ?d sample_readings sample_raw ?o sample_node = (Inr r, n', eff)"
    by (rule sample_accepted)
  let ?k = "bucket_key ''jbs1b'' 4" and ?b = "of_nat (length sample_raw) :: rat"
  have small: "?b \<le> 512" using sample_raw_length(1) by (metis of_nat_le_iff of_nat_numeral)
  have quota: "limiter_consume \<lparr>qr_peer_id = ''jbs1b'', qr_priority = 4, qr_cost = 1, qr_per_minute = 600,
      qr_bytes = ?b, qr_bytes_per_minute = 8388608, qr_now_ms = 100\<rparr> empty_limiter
    = (\<lparr>qv_allowed = True, qv_over_by = 0\<rparr>, \<lparr>lm_envelopes = [(?k, \<lparr>bk_tokens = 599, bk_last_refill_ms = 100\<rparr>)],
       lm_bytes = [(?k, \<lparr>bk_tokens = 8388608 - ?b, bk_last_refill_ms = 100\<rparr>)]\<rparr>)"
    unfolding limiter_consume_def empty_limiter_def consume_pair_def Let_def
    using small by (simp add: new_bucket_def refill_def max_def)
  have peer: "require_peer ''jbs1b'' (sample_fed sample_peer_record) = Inr sample_peer_record"
    by (simp add: require_peer_def sample_fed_def sample_peer_record_def dir_get_def at_least_iff)
  have fields: "fd_pipeline sample_fed_deps = ?d" "pr_trust sample_peer_record = NORMAL" "fr_raw sample_frame = sample_raw"
    "fr_quota_ms sample_frame = 100" "fr_readings sample_frame = sample_readings" "dp_sha ?d = sample_sha" "dp_nfc ?d = (\<lambda>s. s)"
    "fs_quotas (sample_fed sample_peer_record) = empty_limiter" "fs_node (sample_fed sample_peer_record) = sample_node"
    by (simp_all add: sample_fed_deps_def sample_peer_record_def sample_frame_def sample_deps_def sample_fed_def)
  have rates: "class_permitted NORMAL 4" "cost_of 4 = 1" "envelopes_per_minute_for (quota_for NORMAL) 4 = 600"
    "bytes_per_minute_for (quota_for NORMAL) 4 = 8388608"
    by (simp_all add: class_permitted_def cost_of_def envelopes_per_minute_for_def bytes_per_minute_for_def PRIO_BULK_def)
  let ?g0 = "\<lparr>dg_accepted = [], dg_rejected = [], dg_worst_over_by = 0, dg_breached = False, dg_effects = []\<rparr>"
  define res where "res = deliver_frame sample_fed_deps sample_peer_record ''jbs1b'' (Some 1) sample_frame (?g0, sample_fed sample_peer_record)"
  have "dg_accepted (fst res) = [content_id sample_parsed]"
    unfolding res_def deliver_frame_def Let_def prod.case fields rates sample_parse sum.case sample_fields(2,8) option.case
    by (simp add: assert_stream_plane_def rates(1) fields sample_fields(2,8) rates(2-) quota acc del: quota_for.simps)
  then obtain g st1 where run: "res = (g, st1)" and g: "dg_accepted g = [content_id sample_parsed]" by (cases res) simp
  note frame = run [unfolded res_def]
  show thesis
    by (rule that, simp add: deliver_def peer deliver_frames_def frame g Let_def, simp)
qed

theorem delivery_reverifies_everything_witness:
  "\<exists>out st' eff. deliver sample_fed_deps 100 ''jbs1b'' [sample_frame] (Some 1) (sample_fed sample_peer_record) = (Inr out, st', eff)
    \<and> do_accepted out = [content_id sample_parsed] \<and> env_has (content_id sample_parsed) (nd_envelopes (fs_node st'))"
proof -
  obtain st' eff out where run: "deliver sample_fed_deps 100 ''jbs1b'' [sample_frame] (Some 1) (sample_fed sample_peer_record) = (Inr out, st', eff)"
    and ids: "do_accepted out = [content_id sample_parsed]" by (rule sample_delivery)
  have "node_inv (dp_sha (fd_pipeline sample_fed_deps)) (fs_node (sample_fed sample_peer_record))"
    by (simp add: sample_fed_def sample_node_inv)
  moreover have "handlers_ok (fd_pipeline sample_fed_deps)" by (simp add: sample_fed_deps_def sample_handlers_ok)
  ultimately have "env_has (content_id sample_parsed) (nd_envelopes (fs_node st'))"
    using delivery_reverifies_everything [OF _ _ run] ids by (auto simp: delivered_def)
  with run ids show ?thesis by blast
qed

lemma deliver_frames_peers: "deliver_frames d peer pid sp frames st = (g, st') \<Longrightarrow> fs_peers st' = fs_peers st"
proof -
  have "fs_peers (snd (fold (deliver_frame d peer pid sp) frames x)) = fs_peers (snd x)" for x
  proof (induction frames arbitrary: x)
    case (Cons f frames)
    obtain g0 s0 g1 s1 where x: "x = (g0, s0)" and step: "deliver_frame d peer pid sp f (g0, s0) = (g1, s1)"
      by (metis prod.exhaust)
    from step have "fs_peers s1 = fs_peers s0" by (cases rule: deliver_frame_cases) simp_all
    with Cons [of "(g1, s1)"] x step show ?case by simp
  qed simp
  from this [of "(_, st)"] show "deliver_frames d peer pid sp frames st = (g, st') \<Longrightarrow> fs_peers st' = fs_peers st"
    unfolding deliver_frames_def by (metis snd_conv)
qed

section \<open>Everything a peer can make the node do\<close>

text \<open>
  The calls of the inbox, with any arguments and at any instant. \<open>observe\<close> takes any record its caller holds
  for the peer, also one read before other calls ran.
\<close>

inductive fed_step :: "('b, 'd) fed_deps \<Rightarrow> 'd fed_state \<Rightarrow> 'd fed_state \<Rightarrow> bool" for d where
  announce: "announce d t t' req sig st = (res, st') \<Longrightarrow> fed_step d st st'"
| vouch: "record_vouch d t v st = (p, st') \<Longrightarrow> fed_step d st st'"
| deliver: "deliver d t pid frames sp st = (out, st', eff) \<Longrightarrow> fed_step d st st'"
| observe: "observe_peer_sth d t p sth st = (status, st') \<Longrightarrow> fed_step d st st'"
| refresh: "fed_step d st (refresh_asserter_trust st)"

definition dir_ok :: "directory \<Rightarrow> bool" where
  "dir_ok peers \<longleftrightarrow> (\<forall>k p. dir_get k peers = Some p \<longrightarrow> pr_server_id p = k)"

definition fork_blocked :: "string \<Rightarrow> 'd fed_state \<Rightarrow> bool" where
  "fork_blocked pid st \<longleftrightarrow> (\<exists>p. dir_get pid (fs_peers st) = Some p \<and> pr_trust p = BLOCKED \<and> truthy (pr_blocked_reason p))"

lemma dir_ok_upsert: "dir_ok peers \<Longrightarrow> dir_ok (dir_upsert p peers)"
  by (simp add: dir_ok_def)

lemma alert_peers [simp]: "fs_peers (alert d s c sub det t st) = fs_peers st"
  by (simp add: alert_def)

lemma upsert_peers [simp]: "fs_peers (upsert p st) = dir_upsert p (fs_peers st)"
  by (simp add: upsert_def)

lemma refresh_peers [simp]: "fs_peers (refresh_asserter_trust st) = fs_peers st"
  by (simp add: refresh_asserter_trust_def)

lemma observe_peers:
  assumes "observe_peer_sth d t p sth st = (status, st')"
  obtains "status \<noteq> FORKED" "fs_peers st' = fs_peers st" | detail where "status = FORKED"
    "fs_peers st' = dir_upsert (p\<lparr>pr_trust := BLOCKED, pr_blocked_reason := Some (''log fork detected: '' @ detail)\<rparr>) (fs_peers st)"
proof -
  define prev where "prev = last_peer_sth (pr_server_id p) (nd_ledger (fs_node st))"
  show thesis
  proof (cases "th_server_key sth = [] \<or> th_server_key sth \<noteq> pr_public_key p
      \<or> (case prev of Some q \<Rightarrow> th_timestamp_ms sth < th_timestamp_ms q | None \<Rightarrow> False)")
    case True
    with assms that(1) show ?thesis by (auto simp: observe_peer_sth_def Let_def prev_def split: if_splits)
  next
    case False
    show ?thesis
    proof (cases "case prev of Some q \<Rightarrow> th_tree_size sth < th_tree_size q
        \<or> th_tree_size sth = th_tree_size q \<and> th_root_hash sth \<noteq> th_root_hash q | None \<Rightarrow> False")
      case True
      with assms False have "status = FORKED" "\<exists>detail. fs_peers st' =
          dir_upsert (p\<lparr>pr_trust := BLOCKED, pr_blocked_reason := Some (''log fork detected: '' @ detail)\<rparr>) (fs_peers st)"
        by (auto simp: observe_peer_sth_def Let_def prev_def split: option.splits if_splits)
      with that(2) show ?thesis by blast
    next
      case False': False
      with assms False have "status \<noteq> FORKED" "fs_peers st' = fs_peers st"
        by (auto simp: observe_peer_sth_def Let_def prev_def split: option.splits if_splits)
      with that(1) show ?thesis by blast
    qed
  qed
qed

lemma note_quota_breach_peers:
  obtains q where "pr_server_id q = pr_server_id p" and "fs_peers (note_quota_breach d t p st) = dir_upsert q (fs_peers st)"
proof (cases "nullish (pr_quota_breaches p) 0 + 1 < QUOTA_BREACH_LIMIT")
  case True
  then show thesis
    by (intro that [of "p\<lparr>pr_quota_breaches := Some (nullish (pr_quota_breaches p) 0 + 1)\<rparr>"])
      (simp_all add: note_quota_breach_def)
next
  case False
  then show thesis
    by (intro that [of "p\<lparr>pr_quota_breaches := Some 0, pr_trust := demote_one (pr_trust p)\<rparr>"])
      (simp_all add: note_quota_breach_def Let_def)
qed

lemma fork_reason_blocks:
  assumes "\<not> operator_decided inp" and "truthy (ti_blocked_reason inp)"
  shows "fst (evaluate_trust inp) = BLOCKED"
  using assms(1) by (cases rule: evaluate_trust_cases) (use assms(2) in simp_all)

lemma observe_keeps_block:
  assumes "observe_peer_sth d t p sth st = (status, st')" and "dir_ok (fs_peers st)"
  shows "dir_ok (fs_peers st') \<and> (fork_blocked pid st \<longrightarrow> fork_blocked pid st')"
  using assms(1)
proof (cases rule: observe_peers)
  case 1
  with assms show ?thesis by (simp add: fork_blocked_def)
next
  case (2 detail)
  with assms show ?thesis by (auto simp: fork_blocked_def truthy_def dir_ok_upsert)
qed

lemma fed_step_keeps_block:
  assumes "fed_step d st st'" and "dir_ok (fs_peers st)" and "fd_admin_trust d pid = None"
  shows "dir_ok (fs_peers st') \<and> (fork_blocked pid st \<longrightarrow> fork_blocked pid st')"
  using assms(1)
proof (cases rule: fed_step.cases)
  case (announce t t' req sig res)
  define ex where "ex = dir_get (serverId (ar_server_key req)) (fs_peers st)"
  define ev where "ev = announce_evaluation d ex (serverId (ar_server_key req)) t st"
  define rec where "rec = announced_record req ex (serverId (ar_server_key req)) (fst ev) t"
  have id: "pr_server_id rec = serverId (ar_server_key req)" by (simp add: rec_def announced_record_def)
  have one: "dir_ok (fs_peers (upsert rec st)) \<and> (fork_blocked pid st \<longrightarrow> fork_blocked pid (upsert rec st))"
  proof (cases "pid = serverId (ar_server_key req)")
    case True
    have "pr_trust rec = BLOCKED \<and> truthy (pr_blocked_reason rec)" if block: "fork_blocked pid st"
    proof -
      obtain p where p: "ex = Some p" "truthy (pr_blocked_reason p)" using block by (auto simp: fork_blocked_def ex_def True)
      have "fst ev = BLOCKED" unfolding ev_def announce_evaluation_def
        by (rule fork_reason_blocks) (use p assms(3) True in \<open>simp_all add: operator_decided_def\<close>)
      with p show ?thesis by (simp add: rec_def announced_record_def Let_def)
    qed
    with assms(2) id True show ?thesis by (auto simp: fork_blocked_def dir_ok_upsert)
  next
    case False
    with assms(2) id show ?thesis by (auto simp: fork_blocked_def dir_ok_upsert)
  qed
  show ?thesis
  proof (cases "check_announce (dp_nfc (fd_pipeline d)) \<lparr>ac_fields = req, ac_signature = sig, ac_now_ms = t,
          ac_window_ms = None, ac_verify = dp_verify (fd_pipeline d) 1\<rparr>")
    case (Inl r)
    with announce assms show ?thesis by (simp add: announce_def)
  next
    case (Inr u)
    have st': "st' = (case ar_current_sth req of
        Some h \<Rightarrow> snd (observe_peer_sth d t' rec (to_tree_head h) (upsert rec st)) | None \<Rightarrow> upsert rec st)"
      using announce unfolding announce_def Inr sum.case Let_def ex_def [symmetric] ev_def [symmetric] rec_def [symmetric]
      by simp
    show ?thesis
    proof (cases "ar_current_sth req")
      case None
      with st' one show ?thesis by simp
    next
      case (Some h)
      obtain s where "observe_peer_sth d t' rec (to_tree_head h) (upsert rec st) = (s, st')"
        using st' Some by (metis option.simps(5) prod.collapse)
      from observe_keeps_block [OF this] one show ?thesis by blast
    qed
  qed
next
  case (vouch t v p)
  let ?id = "serverId (pv_peer_key v)"
  show ?thesis
  proof (cases "st' = st")
    case True
    with assms show ?thesis by simp
  next
    case False
    then obtain peer inp vs where w: "dir_get ?id (fs_peers st) = Some peer" "ti_admin_level inp = fd_admin_trust d ?id"
      "ti_blocked_reason inp = pr_blocked_reason peer"
      "st' = upsert (peer\<lparr>pr_vouches := Some vs, pr_trust := fst (evaluate_trust inp)\<rparr>) (refresh_asserter_trust st)"
      using vouch unfolding record_vouch_def Let_def
      by (auto split: option.splits if_splits intro!: that [rotated 3])
    have id: "pr_server_id peer = ?id" using assms(2) w(1) by (simp add: dir_ok_def)
    have "fst (evaluate_trust inp) = BLOCKED" if "fork_blocked pid st" "pid = ?id"
      by (rule fork_reason_blocks) (use that w assms(3) in \<open>auto simp: fork_blocked_def operator_decided_def\<close>)
    then show ?thesis using w(1) id assms(2) unfolding w(4) by (auto simp: fork_blocked_def dir_ok_upsert)
  qed
next
  case (deliver t pid' frames sp out eff)
  show ?thesis
  proof (cases "require_peer pid' st")
    case (Inl r)
    with deliver assms show ?thesis by (simp add: deliver_def)
  next
    case (Inr peer)
    then have peer: "dir_get pid' (fs_peers st) = Some peer" "pr_trust peer \<noteq> BLOCKED"
      by (auto simp: require_peer_def at_least_iff split: option.splits if_splits)
    have id: "pr_server_id peer = pid'" using assms(2) peer(1) by (simp add: dir_ok_def)
    obtain g st1 where run: "deliver_frames d peer pid' sp frames st = (g, st1)" by (rule prod.exhaust)
    have same: "fs_peers st1 = fs_peers st" by (rule deliver_frames_peers [OF run])
    have "st' = (if dg_breached g then note_quota_breach d t peer st1 else st1)"
      using deliver Inr run by (auto simp: deliver_def Let_def)
    then have "fs_peers st' = fs_peers st \<or> (\<exists>q. pr_server_id q = pid' \<and> fs_peers st' = dir_upsert q (fs_peers st))"
      using same id note_quota_breach_peers [of peer d t st1] by (cases "dg_breached g") auto
    then show ?thesis using assms(2) peer by (auto simp: fork_blocked_def dir_ok_upsert)
  qed
next
  case (observe t p sth status)
  from observe_keeps_block [OF this assms(2)] show ?thesis .
next
  case refresh
  with assms show ?thesis by (simp add: fork_blocked_def)
qed

text \<open>When calls are made one at a time: once a peer is blocked for a fork, and while the operator has set no level
  for it, no sequence of announcements, vouches, deliveries and observed tree heads lifts the block, and every
  further delivery from the peer is refused. Calls that overlap, and those of the sync, are in \<open>JB_Fork\<close>.\<close>

theorem fork_block_is_final:
  assumes "(fed_step d)\<^sup>*\<^sup>* st st'" and "dir_ok (fs_peers st)" and "fork_blocked pid st" and "fd_admin_trust d pid = None"
  shows "fork_blocked pid st' \<and> deliver d t pid frames sp st' = (Inl (rejected FORBIDDEN ''peer is blocked'' None), st', [])"
proof -
  have "dir_ok (fs_peers st') \<and> fork_blocked pid st'"
    using assms(1-3)
  proof (induction rule: rtranclp_induct)
    case (step a b)
    then show ?case using fed_step_keeps_block [OF step.hyps(2) _ assms(4)] by blast
  qed simp
  then show ?thesis by (auto simp: fork_blocked_def deliver_def require_peer_def at_least_iff less_eq_peer_trust_def)
qed

definition sample_forked :: peer_record where
  "sample_forked = sample_peer_record\<lparr>pr_server_id := serverId [6], pr_trust := BLOCKED,
     pr_blocked_reason := Some ''log fork detected: tree shrank from 3 to 0''\<rparr>"

text \<open>A vouch with a valid signature arrives for a forked peer: it is recorded and changes nothing.\<close>

theorem fork_block_is_final_witness:
  "\<exists>st'. (\<exists>p. record_vouch sample_fed_deps 9 ((sample_vouch 1 TRUSTED)\<lparr>pv_peer_key := [6], pv_signature := [5]\<rparr>)
      (sample_fed sample_forked) = (Some p, st')) \<and> fork_blocked (serverId [6]) st'"
proof -
  let ?v = "(sample_vouch 1 TRUSTED)\<lparr>pv_peer_key := [6], pv_signature := [5]\<rparr>"
  obtain p st' where run: "record_vouch sample_fed_deps 9 ?v (sample_fed sample_forked) = (p, st')" by (rule prod.exhaust)
  have "dir_get (serverId [6]) (fs_peers (sample_fed sample_forked)) = Some sample_forked"
    by (simp add: sample_fed_def sample_forked_def dir_get_def)
  moreover have "dp_verify (fd_pipeline sample_fed_deps) 1 k m [5]" for k m
    by (simp add: sample_fed_deps_def sample_deps_def)
  ultimately have "p \<noteq> None" using run by (auto simp: record_vouch_def Let_def)
  moreover have "fork_blocked (serverId [6]) (sample_fed sample_forked)" "dir_ok (fs_peers (sample_fed sample_forked))"
    by (simp_all add: fork_blocked_def sample_fed_def sample_forked_def dir_ok_def dir_get_def truthy_def)
  then have "fork_blocked (serverId [6]) st'"
    using fork_block_is_final [of sample_fed_deps "sample_fed sample_forked" st' "serverId [6]"] fed_step.vouch [OF run]
    by (auto simp: sample_fed_deps_def)
  ultimately show ?thesis using run by blast
qed

section \<open>Honest peers\<close>

text \<open>
  The tree heads one append-only log signs: later heads cover at least as many leaves, heads of one instant
  the same number, and a size has one root.
\<close>

definition honest_heads :: "tree_head set \<Rightarrow> bool" where
  "honest_heads H \<longleftrightarrow> (\<forall>a \<in> H. \<forall>b \<in> H. (th_timestamp_ms a < th_timestamp_ms b \<longrightarrow> th_tree_size a \<le> th_tree_size b)
     \<and> (th_timestamp_ms a = th_timestamp_ms b \<longrightarrow> th_tree_size a = th_tree_size b)
     \<and> (th_tree_size a = th_tree_size b \<longrightarrow> th_root_hash a = th_root_hash b))"

type_synonym observation = "int \<times> peer_record \<times> tree_head"

fun observe_all :: "('b, 'd) fed_deps \<Rightarrow> observation list \<Rightarrow> 'd fed_state \<Rightarrow> peer_log_status list \<times> 'd fed_state" where
  "observe_all d [] st = ([], st)"
| "observe_all d ((t, p, sth) # obs) st =
     (case observe_peer_sth d t p sth st of (status, st1) \<Rightarrow>
        (case observe_all d obs st1 of (statuses, st2) \<Rightarrow> (status # statuses, st2)))"

definition heard :: "string \<Rightarrow> 'd fed_state \<Rightarrow> tree_head option" where
  "heard pid st = last_peer_sth pid (nd_ledger (fs_node st))"

lemma alert_node [simp]: "fs_node (alert d s c sub det t st) = fs_node st"
  by (simp add: alert_def)

lemma upsert_node [simp]: "fs_node (upsert p st) = fs_node st"
  by (simp add: upsert_def)

lemma heard_record [simp]: "last_peer_sth pid (record_peer_sth q h l) = (if pid = q then Some h else last_peer_sth pid l)"
  by (simp add: last_peer_sth_def record_peer_sth_def)

text \<open>Exactly when an observation is a fork, and what it leaves behind.\<close>

lemma observe_forked:
  assumes "observe_peer_sth d t p sth st = (status, st')"
  shows "status = FORKED \<longleftrightarrow> th_server_key sth \<noteq> [] \<and> th_server_key sth = pr_public_key p \<and>
      (\<exists>q. heard (pr_server_id p) st = Some q \<and> th_timestamp_ms q \<le> th_timestamp_ms sth
        \<and> (th_tree_size sth < th_tree_size q \<or> th_tree_size sth = th_tree_size q \<and> th_root_hash sth \<noteq> th_root_hash q))"
    and "heard pid st' = heard pid st \<or> pid = pr_server_id p \<and> heard pid st' = Some sth \<and> th_server_key sth = pr_public_key p"
    and "status \<noteq> FORKED \<Longrightarrow> fs_peers st' = fs_peers st"
  using assms by (auto simp: observe_peer_sth_def heard_def Let_def split: if_splits option.splits)

lemma observe_honest:
  assumes "observe_peer_sth d t p sth st = (status, st')" and "honest_heads H"
    and "pr_server_id p = pid \<longrightarrow> th_server_key sth = pr_public_key p \<longrightarrow> sth \<in> H"
    and "\<forall>h. heard pid st = Some h \<longrightarrow> h \<in> H"
  shows "(pr_server_id p = pid \<longrightarrow> status \<noteq> FORKED) \<and> (\<forall>h. heard pid st' = Some h \<longrightarrow> h \<in> H)
    \<and> dir_get pid (fs_peers st') = dir_get pid (fs_peers st)"
proof -
  have ok: "status \<noteq> FORKED" if me: "pr_server_id p = pid"
  proof
    assume "status = FORKED"
    then obtain q where q: "th_server_key sth = pr_public_key p" "heard pid st = Some q" "th_timestamp_ms q \<le> th_timestamp_ms sth"
      "th_tree_size sth < th_tree_size q \<or> th_tree_size sth = th_tree_size q \<and> th_root_hash sth \<noteq> th_root_hash q"
      using observe_forked(1) [OF assms(1)] me by auto
    then have "q \<in> H" "sth \<in> H" using assms(3,4) me by blast+
    with assms(2) q show False unfolding honest_heads_def by (metis linorder_not_less order_le_less)
  qed
  moreover have "dir_get pid (fs_peers st') = dir_get pid (fs_peers st)"
  proof (cases "status = FORKED")
    case True
    with ok have "pr_server_id p \<noteq> pid" by blast
    with assms(1) show ?thesis by (cases rule: observe_peers) auto
  next
    case False
    with observe_forked(3) [OF assms(1)] show ?thesis by simp
  qed
  moreover have "\<forall>h. heard pid st' = Some h \<longrightarrow> h \<in> H"
    using observe_forked(2) [OF assms(1), of pid] assms(3,4) by auto
  ultimately show ?thesis by blast
qed

text \<open>An honest peer is never blocked by fork detection: if every tree head attributed to a peer comes from one
  append-only log, then no matter in which order, how often and through which relays the heads arrive, and
  whatever other peers' heads arrive in between, none is taken for a fork and the peer's record stays as it is.\<close>

theorem honest_peer_never_forked:
  assumes "honest_heads H"
    and "\<forall>(t, p, sth) \<in> set obs. pr_server_id p = pid \<longrightarrow> th_server_key sth = pr_public_key p \<longrightarrow> sth \<in> H"
    and "\<forall>h. heard pid st = Some h \<longrightarrow> h \<in> H" and "observe_all d obs st = (statuses, st')"
  shows "(\<forall>((t, p, sth), status) \<in> set (zip obs statuses). pr_server_id p = pid \<longrightarrow> status \<noteq> FORKED)
    \<and> dir_get pid (fs_peers st') = dir_get pid (fs_peers st)"
  using assms(2-)
proof (induction obs arbitrary: st statuses)
  case (Cons ob obs)
  obtain t p sth where ob: "ob = (t, p, sth)" by (cases ob)
  obtain status st1 where step: "observe_peer_sth d t p sth st = (status, st1)" by (rule prod.exhaust)
  obtain rest where run: "observe_all d obs st1 = (rest, st')" "statuses = status # rest"
    using Cons.prems(3) ob step by (auto split: prod.splits)
  have "pr_server_id p = pid \<longrightarrow> th_server_key sth = pr_public_key p \<longrightarrow> sth \<in> H" using Cons.prems(1) ob by simp
  note one = observe_honest [OF step assms(1) this Cons.prems(2)]
  have "\<forall>(t, p, sth) \<in> set obs. pr_server_id p = pid \<longrightarrow> th_server_key sth = pr_public_key p \<longrightarrow> sth \<in> H" using Cons.prems(1) by simp
  from Cons.IH [OF this _ run(1)] one show ?case by (simp add: ob run(2))
qed simp

definition sample_head :: "int \<Rightarrow> int \<Rightarrow> bytes \<Rightarrow> tree_head" where
  "sample_head t n r = \<lparr>th_server_key = [6], th_tree_size = n, th_root_hash = r, th_timestamp_ms = t, th_signature = []\<rparr>"

text \<open>A head of eight leaves is followed by the head of six leaves a slow handshake captured earlier.\<close>

theorem honest_peer_never_forked_witness:
  "fst (observe_all sample_fed_deps [(9, sample_peer_record, sample_head 5 8 [8]), (9, sample_peer_record, sample_head 4 6 [6]),
     (9, sample_peer_record, sample_head 7 8 [8])] (sample_fed sample_peer_record)) = [UNKNOWN, UNKNOWN, CONSISTENT]
   \<and> dir_get ''jbs1b'' (fs_peers (snd (observe_all sample_fed_deps [(9, sample_peer_record, sample_head 5 8 [8]),
     (9, sample_peer_record, sample_head 4 6 [6]), (9, sample_peer_record, sample_head 7 8 [8])] (sample_fed sample_peer_record))))
     = Some sample_peer_record"
proof -
  let ?obs = "[(9, sample_peer_record, sample_head 5 8 [8]), (9, sample_peer_record, sample_head 4 6 [6]),
     (9, sample_peer_record, sample_head 7 8 [8])]"
  let ?H = "{sample_head 5 8 [8], sample_head 4 6 [6], sample_head 7 8 [8]}"
  have H: "honest_heads ?H" by (simp add: honest_heads_def sample_head_def)
  have obs: "\<forall>(t, p, sth) \<in> set ?obs. pr_server_id p = ''jbs1b'' \<longrightarrow> th_server_key sth = pr_public_key p \<longrightarrow> sth \<in> ?H" by simp
  have "heard ''jbs1b'' (sample_fed sample_peer_record) = None"
    by (simp add: heard_def sample_fed_def sample_node_def initial_node_def empty_ledger_def last_peer_sth_def)
  then have last: "\<forall>h. heard ''jbs1b'' (sample_fed sample_peer_record) = Some h \<longrightarrow> h \<in> ?H" by simp
  obtain ss st' where run: "observe_all sample_fed_deps ?obs (sample_fed sample_peer_record) = (ss, st')" by (rule prod.exhaust)
  have "ss = [UNKNOWN, UNKNOWN, CONSISTENT]"
    using run by (auto simp: observe_peer_sth_def sample_head_def sample_peer_record_def sample_fed_def sample_node_def
        initial_node_def empty_ledger_def last_peer_sth_def record_peer_sth_def Let_def)
  moreover have "dir_get ''jbs1b'' (fs_peers st') = dir_get ''jbs1b'' (fs_peers (sample_fed sample_peer_record))"
    using honest_peer_never_forked [OF H obs last run] by blast
  ultimately show ?thesis using run by (simp add: sample_fed_def dir_get_def sample_peer_record_def)
qed

section \<open>Where the rules about trust give way\<close>

text \<open>The signature of a tree head is never checked: for any peer that has attested a non-empty log, a head naming
  its key, with the timestamp of its last head, no leaves and any bytes for a signature is taken for a
  fork, so whoever can relay one observation gets an honest peer blocked for good.\<close>

theorem forged_head_blocks_any_peer:
  assumes "dir_get pid (fs_peers st) = Some p" and "pr_server_id p = pid" and "pr_public_key p \<noteq> []"
    and "heard pid st = Some h" and "0 < th_tree_size h"
    and "observe_peer_sth d t p \<lparr>th_server_key = pr_public_key p, th_tree_size = 0, th_root_hash = [],
      th_timestamp_ms = th_timestamp_ms h, th_signature = anything\<rparr> st = (status, st')"
  shows "status = FORKED \<and> fork_blocked pid st'"
proof -
  have "status = FORKED" using observe_forked(1) [OF assms(6)] assms(2-5) by simp
  moreover have "fork_blocked pid st'"
    using assms(6)
  proof (cases rule: observe_peers)
    case 1
    with \<open>status = FORKED\<close> show ?thesis by simp
  next
    case (2 detail)
    with assms(2) show ?thesis by (simp add: fork_blocked_def truthy_def)
  qed
  ultimately show ?thesis ..
qed

theorem forged_head_blocks_any_peer_witness:
  "\<exists>st st'. heard ''jbs1b'' st = Some (sample_head 5 8 [8]) \<and> fork_blocked ''jbs1b'' st'
    \<and> (\<exists>status. observe_peer_sth sample_fed_deps 9 sample_peer_record \<lparr>th_server_key = [6], th_tree_size = 0, th_root_hash = [],
      th_timestamp_ms = 5, th_signature = [0, 0]\<rparr> st = (status, st'))"
proof -
  define st where "st = (sample_fed sample_peer_record)\<lparr>fs_node := sample_node\<lparr>nd_ledger :=
    record_peer_sth ''jbs1b'' (sample_head 5 8 [8]) empty_ledger\<rparr>\<rparr>"
  have h: "heard ''jbs1b'' st = Some (sample_head 5 8 [8])" by (simp add: st_def heard_def)
  have p: "dir_get ''jbs1b'' (fs_peers st) = Some sample_peer_record"
    by (simp add: st_def sample_fed_def dir_get_def sample_peer_record_def)
  have f: "pr_public_key sample_peer_record = [6]" "pr_server_id sample_peer_record = ''jbs1b''" "th_timestamp_ms (sample_head 5 8 [8]) = 5"
    "th_tree_size (sample_head 5 8 [8]) = 8"
    by (simp_all add: sample_peer_record_def sample_head_def)
  obtain status st' where run: "observe_peer_sth sample_fed_deps 9 sample_peer_record \<lparr>th_server_key = [6], th_tree_size = 0,
      th_root_hash = [], th_timestamp_ms = 5, th_signature = [0, 0]\<rparr> st = (status, st')" by (rule prod.exhaust)
  from forged_head_blocks_any_peer [OF p f(2) _ h, of sample_fed_deps 9 "[0, 0]" status st'] run f
  have "fork_blocked ''jbs1b'' st'" by simp
  with h run show ?thesis by blast
qed

text \<open>The demotion for breaching quota undoes itself: a peer known for a week that is demoted to PROBATION on its
  third breach has its breach counter cleared with the same write, so its next announcement, made at once,
  restores NORMAL as seven clean days at probation.\<close>

theorem demotion_undone_by_next_announce:
  assumes "pr_trust p = NORMAL" and "nullish (pr_quota_breaches p) 0 + 1 \<ge> QUOTA_BREACH_LIMIT"
    and "pr_first_seen_ms p = Some f" and "now - f \<ge> PROBATION_PERIOD_MS" and "nullish (pr_vouches p) [] = []"
    and "\<not> truthy (pr_blocked_reason p)" and "fd_admin_trust d (pr_server_id p) = None"
    and "pr_server_id p = serverId (ar_server_key req)"
    and "announce d now t' req sig (note_quota_breach d t p st) = (Inr adm, st')"
  shows "map_option pr_trust (dir_get (pr_server_id p) (fs_peers (note_quota_breach d t p st))) = Some PROBATION
    \<and> aa_assigned adm = NORMAL"
proof -
  let ?q = "p\<lparr>pr_quota_breaches := Some 0, pr_trust := PROBATION\<rparr>"
  have q: "dir_get (serverId (ar_server_key req)) (fs_peers (note_quota_breach d t p st)) = Some ?q"
    using assms(1,2,8) by (simp add: note_quota_breach_def Let_def)
  have "distinct_asserters [] P tr = 0" for P tr by (simp add: distinct_asserters_def)
  then have "fst (announce_evaluation d (Some ?q) (serverId (ar_server_key req)) now (note_quota_breach d t p st)) = NORMAL"
    using assms(3-8) by (simp add: announce_evaluation_def evaluate_trust_def)
  then have "aa_assigned adm = NORMAL"
    using assms(9) unfolding announce_def q Let_def by (auto split: sum.splits)
  with q assms(8) show ?thesis by simp
qed

definition sample_announce :: announce_request where
  "sample_announce = \<lparr>ar_server_key = replicate 32 7, ar_display_name = '''', ar_software = '''', ar_version = '''', ar_endpoints = [],
     ar_communities = [], ar_channels = [], ar_planes = [1], ar_accepted_classes = [], ar_current_sth = None,
     ar_timestamp_ms = 700000000, ar_nonce = replicate 8 1\<rparr>"

theorem demotion_undone_by_next_announce_witness:
  "\<exists>adm st'. announce (sample_fed_deps\<lparr>fd_pipeline := (sample_deps (\<lambda>e. False))\<lparr>dp_verify := (\<lambda>alg key msg sig. True)\<rparr>\<rparr>) 700000000 0 sample_announce
     (replicate 64 5) (note_quota_breach (sample_fed_deps\<lparr>fd_pipeline := (sample_deps (\<lambda>e. False))\<lparr>dp_verify := (\<lambda>alg key msg sig. True)\<rparr>\<rparr>) 700000000
       (sample_peer_record\<lparr>pr_server_id := serverId (replicate 32 7), pr_quota_breaches := Some 2\<rparr>) (sample_fed sample_peer_record))
     = (Inr adm, st') \<and> aa_assigned adm = NORMAL"
proof -
  let ?d = "sample_fed_deps\<lparr>fd_pipeline := (sample_deps (\<lambda>e. False))\<lparr>dp_verify := (\<lambda>alg key msg sig. True)\<rparr>\<rparr>"
  let ?p = "sample_peer_record\<lparr>pr_server_id := serverId (replicate 32 7), pr_quota_breaches := Some 2\<rparr>"
  let ?st = "note_quota_breach ?d 700000000 ?p (sample_fed sample_peer_record)"
  have num: "js_number 700000000 = 700000000" by simp
  have "check_announce (dp_nfc (fd_pipeline ?d)) \<lparr>ac_fields = sample_announce, ac_signature = replicate 64 5, ac_now_ms = 700000000,
      ac_window_ms = None, ac_verify = dp_verify (fd_pipeline ?d) 1\<rparr> = Inr ()"
    by (simp add: check_announce_def sample_announce_def ED25519_PUBLIC_KEY_BYTES_def ED25519_SIGNATURE_BYTES_def
        MIN_ANNOUNCE_NONCE_BYTES_def ANNOUNCE_WINDOW_MS_def num)
  then obtain adm st' where run: "announce ?d 700000000 0 sample_announce (replicate 64 5) ?st = (Inr adm, st')"
    by (auto simp: announce_def Let_def)
  have "aa_assigned adm = NORMAL"
    using demotion_undone_by_next_announce [OF _ _ _ _ _ _ _ _ run, of 0]
    by (simp add: sample_peer_record_def QUOTA_BREACH_LIMIT_def PROBATION_PERIOD_MS_def truthy_def sample_fed_deps_def sample_announce_def)
  with run show ?thesis by blast
qed

end
