(* ===== verification/JB_Outbox.thy ===== *)
theory JB_Outbox
  imports JB_Bridge JB_Peering "HOL-Library.Multiset"
begin

text \<open>
  The outbound half of federation: the queue (\<open>InMemoryFederationOutbox\<close> of \<open>in-memory-federation.ts\<close>) and the
  service over it, \<open>backend/src/core/app/federation-outbox.ts\<close>. Dialling a peer is the parameter \<open>od_send\<close>: its
  reply, an error or an outcome, and after how long it came, if it ever did. This theory holds the queue, the fanout,
  the lease and what is done with a single row of a pass; how the batches of a pass run, at the same time and
  between the turns of everything else, is \<open>JB_Drain\<close>.
\<close>

section \<open>The queue\<close>

record outbox_draft =
  oe_content_id :: string
  oe_peer_id :: string
  oe_priority :: int
  oe_plane :: int
  oe_next_attempt_at_ms :: int

record outbox_entry = outbox_draft +
  oe_id :: string
  oe_attempts :: int
  oe_last_error :: "string option"

record outbox =
  ob_entries :: "(string, outbox_entry) jsmap"
  ob_dead :: "(string, outbox_entry) jsmap"
  ob_sequence :: int
  ob_order :: "(string, int) jsmap"

definition empty_outbox :: outbox where
  "empty_outbox = \<lparr>ob_entries = [], ob_dead = [], ob_sequence = 0, ob_order = []\<rparr>"

definition outbox_id :: "string \<Rightarrow> string \<Rightarrow> string" where
  "outbox_id cid peer_id = cid @ [CHR 0x00] @ peer_id"

definition ob_enqueue_one :: "outbox_draft \<Rightarrow> outbox \<Rightarrow> outbox" where
  "ob_enqueue_one e ob =
     (let i = outbox_id (oe_content_id e) (oe_peer_id e) in
      if map_of (ob_entries ob) i \<noteq> None \<or> map_of (ob_dead ob) i \<noteq> None then ob
      else let n = ob_sequence ob + 1
           in ob\<lparr>ob_sequence := n, ob_order := al_set i n (ob_order ob),
                ob_entries := al_set i (outbox_draft.extend e (outbox_entry.fields i 0 None)) (ob_entries ob)\<rparr>)"

definition ob_enqueue :: "outbox_draft list \<Rightarrow> outbox \<Rightarrow> outbox" where
  "ob_enqueue es ob = fold ob_enqueue_one es ob"

definition lease_order :: "outbox \<Rightarrow> outbox_entry comparator" where
  "lease_order ob a b =
     (if oe_priority a \<noteq> oe_priority b then of_int (oe_priority a - oe_priority b)
      else of_int (nullish (map_of (ob_order ob) (oe_id a)) 0 - nullish (map_of (ob_order ob) (oe_id b)) 0))"

definition lease :: "int \<Rightarrow> nat \<Rightarrow> outbox \<Rightarrow> outbox_entry list" where
  "lease now_ms limit ob =
     take limit (js_sort (lease_order ob) (filter (\<lambda>e. oe_next_attempt_at_ms e \<le> now_ms) (map snd (ob_entries ob))))"

definition ob_succeed :: "string \<Rightarrow> outbox \<Rightarrow> outbox" where
  "ob_succeed i ob = ob\<lparr>ob_entries := al_del i (ob_entries ob)\<rparr>"

definition ob_fail :: "string \<Rightarrow> int option \<Rightarrow> string \<Rightarrow> outbox \<Rightarrow> outbox" where
  "ob_fail i next_at error ob =
     (case map_of (ob_entries ob) i of
        None \<Rightarrow> ob
      | Some e \<Rightarrow>
          let attempted = e\<lparr>oe_attempts := oe_attempts e + 1, oe_last_error := Some error\<rparr> in
          case next_at of
            None \<Rightarrow> ob\<lparr>ob_entries := al_del i (ob_entries ob), ob_dead := al_set i attempted (ob_dead ob)\<rparr>
          | Some t \<Rightarrow> ob\<lparr>ob_entries := al_set i (attempted\<lparr>oe_next_attempt_at_ms := t\<rparr>) (ob_entries ob)\<rparr>)"

definition ob_stats :: "outbox \<Rightarrow> nat \<times> nat" where
  "ob_stats ob = (length (ob_entries ob), length (ob_dead ob))"

definition ob_dead_letters :: "nat \<Rightarrow> outbox \<Rightarrow> outbox_entry list" where
  "ob_dead_letters limit ob = take limit (map snd (ob_dead ob))"

section \<open>Fanout\<close>

record send_outcome =
  so_accepted :: "string list"
  so_rejected :: "(string \<times> string \<times> string) list"
  so_backpressure_hint_ms :: int

record send_reply =
  sr_after_ms :: "int option"
  sr_result :: "string + send_outcome"

record ('b, 'd) out_deps =
  od_fed :: "('b, 'd) fed_deps"
  od_bridge :: "bridge_config option"
  od_uplink_of :: "peer_record \<Rightarrow> string option"
  od_batch_size :: "nat option"
  od_deliver_timeout_ms :: "int option"
  od_send :: "peer_record \<Rightarrow> int option \<Rightarrow> bytes list \<Rightarrow> send_reply"

record 'd out_state =
  xs_fed :: "'d fed_state"
  xs_outbox :: outbox
  xs_bridge :: bridge_state

record fanout_options =
  fo_targets :: "string list option"
  fo_exclude_peers :: "string list option"
  fo_bytes :: "nat option"

record drain_report =
  dn_attempted :: nat
  dn_delivered :: nat
  dn_failed :: nat
  dn_dead_lettered :: nat

definition DEFAULT_BATCH :: nat where "DEFAULT_BATCH = 64"
definition DEFAULT_DELIVER_TIMEOUT_MS :: int where "DEFAULT_DELIVER_TIMEOUT_MS = 15000"

definition RETRYABLE_REJECTIONS :: "string list" where
  "RETRYABLE_REJECTIONS = [''RATE_LIMITED'', ''NO_CERTIFICATE'', ''CLOCK_SKEW'', ''INSUFFICIENT_CREDITS'']"

definition OUTBOX_PRIORITY_ORDER :: "int list" where
  "OUTBOX_PRIORITY_ORDER = [PRIO_BROADCAST, PRIO_DIRECT, PRIO_CHECKIN, PRIO_BULK]"

definition eligible :: "peer_record \<Rightarrow> parsed_envelope \<Rightarrow> bool" where
  "eligible peer envelope =
     (if \<not> at_least (pr_trust peer) PROBATION then False
      else if \<not> unrestricted (pr_planes peer) \<and> plane envelope \<notin> set (the (pr_planes peer)) then False
      else if \<not> unrestricted (pr_accepted_classes peer) \<and> priority envelope \<notin> set (the (pr_accepted_classes peer)) then False
      else priority envelope \<in> set (allowed_classes (pr_trust peer)))"

text \<open>The peers on the uplink the envelope came in on, and the crossings.\<close>

definition split_crossing ::
  "('b, 'd) out_deps \<Rightarrow> directory \<Rightarrow> string option \<Rightarrow> peer_record
     \<Rightarrow> (peer_record list \<times> peer_record list) \<times> bridge_state \<Rightarrow> (peer_record list \<times> peer_record list) \<times> bridge_state" where
  "split_crossing d peers via peer = (\<lambda>((kept, crossings), bs).
     case uplink_for_peer (od_uplink_of d) peers (pr_server_id peer) bs of (u, bs') \<Rightarrow>
       if \<not> truthy u \<or> u = via then ((kept @ [peer], crossings), bs') else ((kept, crossings @ [peer]), bs'))"

definition admit_crossing ::
  "('b, 'd) out_deps \<Rightarrow> directory \<Rightarrow> string \<Rightarrow> string list \<Rightarrow> int \<Rightarrow> nat \<Rightarrow> peer_record
     \<Rightarrow> peer_record list \<times> bridge_state \<Rightarrow> peer_record list \<times> bridge_state" where
  "admit_crossing d peers via permitted prio byts peer = (\<lambda>(kept, bs).
     case uplink_for_peer (od_uplink_of d) peers (pr_server_id peer) bs of (u, bs') \<Rightarrow>
       (case u of
          Some up \<Rightarrow> if truthy u \<and> up \<in> set permitted then (kept @ [peer], record_relay via up prio byts bs') else (kept, bs')
        | None \<Rightarrow> (kept, bs')))"

definition apply_bridge_policy ::
  "('b, 'd) out_deps \<Rightarrow> directory \<Rightarrow> int \<Rightarrow> parsed_envelope \<Rightarrow> peer_record list \<Rightarrow> fanout_options \<Rightarrow> bridge_state
     \<Rightarrow> peer_record list \<times> bridge_state" where
  "apply_bridge_policy d peers now_ms envelope candidates opts bs =
     (case (od_bridge d, nullish (fo_exclude_peers opts) []) of
        (Some config, origin # _) \<Rightarrow>
          if origin = [] then (candidates, bs)
          else (case uplink_for_peer (od_uplink_of d) peers origin bs of
              (None, bs1) \<Rightarrow> (candidates, bs1)
            | (Some via, bs1) \<Rightarrow>
                if via = [] then (candidates, bs1)
                else (case fold (split_crossing d peers (Some via)) candidates (([], []), bs1) of ((kept, crossings), bs2) \<Rightarrow>
                  if crossings = [] then (kept, bs2)
                  else (case should_relay config now_ms envelope via (nullish (fo_bytes opts) 0) bs2 of
                      (NoRelay _, bs3) \<Rightarrow> (kept, bs3)
                    | (Relay permitted, bs3) \<Rightarrow>
                        fold (admit_crossing d peers via permitted (priority envelope) (nullish (fo_bytes opts) 0)) crossings (kept, bs3))))
      | _ \<Rightarrow> (candidates, bs))"

definition candidates_of :: "directory \<Rightarrow> parsed_envelope \<Rightarrow> fanout_options \<Rightarrow> peer_record list" where
  "candidates_of peers envelope opts =
     filter (\<lambda>peer. eligible peer envelope)
       (filter (\<lambda>peer. if unrestricted (fo_targets opts) then True else pr_server_id peer \<in> set (the (fo_targets opts)))
         (filter (\<lambda>peer. pr_server_id peer \<notin> set (nullish (fo_exclude_peers opts) [])) (dir_all peers)))"

definition fed_enqueue ::
  "('b, 'd) out_deps \<Rightarrow> int \<Rightarrow> int \<Rightarrow> parsed_envelope \<Rightarrow> fanout_options \<Rightarrow> 'd out_state \<Rightarrow> 'd out_state" where
  "fed_enqueue d relay_ms queued_ms envelope opts st =
     (let peers = fs_peers (xs_fed st) in
      case apply_bridge_policy d peers relay_ms envelope (candidates_of peers envelope opts) opts (xs_bridge st) of
        (allowed, bs) \<Rightarrow>
          let entries = map (\<lambda>peer. \<lparr>oe_content_id = content_id envelope, oe_peer_id = pr_server_id peer,
                oe_priority = priority envelope, oe_plane = plane envelope, oe_next_attempt_at_ms = queued_ms\<rparr>) allowed
          in st\<lparr>xs_bridge := bs, xs_outbox := (if length entries > 0 then ob_enqueue entries (xs_outbox st) else xs_outbox st)\<rparr>)"

section \<open>The parts of a pass\<close>

text \<open>\<open>key.split('|')\<close>, and \<open>Number\<close> on the decimal text of an integer; any other text gives \<open>NaN\<close>, here \<open>None\<close>.\<close>

fun js_split :: "char \<Rightarrow> string \<Rightarrow> string list" where
  "js_split c [] = [[]]"
| "js_split c (x # xs) =
     (if x = c then [] # js_split c xs else (case js_split c xs of p # ps \<Rightarrow> (x # p) # ps | [] \<Rightarrow> [[x]]))"

definition is_digit :: "char \<Rightarrow> bool" where
  "is_digit c \<longleftrightarrow> 48 \<le> (of_char c :: nat) \<and> (of_char c :: nat) \<le> 57"

fun js_integer_of :: "string \<Rightarrow> int option" where
  "js_integer_of [] = Some 0"
| "js_integer_of (c # cs) =
     (if c = CHR ''-'' then (if cs \<noteq> [] \<and> list_all is_digit cs then Some (- int (value_of_digits cs)) else None)
      else if list_all is_digit (c # cs) then Some (int (value_of_digits (c # cs))) else None)"

definition with_deadline :: "send_reply \<Rightarrow> int \<Rightarrow> (string + send_outcome) option" where
  "with_deadline reply ms =
     (if ms \<le> 0 then (if sr_after_ms reply = None then None else Some (sr_result reply))
      else case sr_after_ms reply of
          Some t \<Rightarrow> Some (if t < ms then sr_result reply else Inl (''deliver timed out after '' @ js_string_of_int ms @ ''ms''))
        | None \<Rightarrow> Some (Inl (''deliver timed out after '' @ js_string_of_int ms @ ''ms'')))"

record tally =
  ty_delivered :: nat
  ty_failed :: nat
  ty_dead_lettered :: nat

definition no_tally :: tally where
  "no_tally = \<lparr>ty_delivered = 0, ty_failed = 0, ty_dead_lettered = 0\<rparr>"

definition on_outbox :: "(outbox \<Rightarrow> outbox) \<Rightarrow> 'd out_state \<Rightarrow> 'd out_state" where
  "on_outbox f st = st\<lparr>xs_outbox := f (xs_outbox st)\<rparr>"

text \<open>The message of what it throws, if it does: a duplicate is swallowed, and the store refuses a nested transaction.\<close>

definition record_outbound :: "int \<Rightarrow> outbox_entry \<Rightarrow> peer_record \<Rightarrow> 'd out_state \<Rightarrow> string option \<times> 'd out_state" where
  "record_outbound recorded_ms entry peer st =
     (case transaction (tx_ledger_record \<lparr>le_content_id = oe_content_id entry, le_direction = FedOut,
          le_peer_id = pr_server_id peer, le_recorded_at_ms = recorded_ms\<rparr>) (fs_node (xs_fed st)) of
        (res, n) \<Rightarrow>
          ((case res of Inl (ErrorThrown m) \<Rightarrow> Some m | _ \<Rightarrow> None), st\<lparr>xs_fed := (xs_fed st)\<lparr>fs_node := n\<rparr>\<rparr>))"

text \<open>A frame the peer did not accept: a permanent refusal is dead-lettered, anything else waits for a retry.\<close>

definition refuse_frame ::
  "int \<Rightarrow> send_outcome \<Rightarrow> (string, string \<times> string) jsmap \<Rightarrow> outbox_entry \<Rightarrow> tally \<times> 'd out_state \<Rightarrow> tally \<times> 'd out_state" where
  "refuse_frame now_ms outcome rejected_by_id entry = (\<lambda>(ty, st).
     let rejection = map_of rejected_by_id (oe_content_id entry);
         text = (case rejection of Some (code, detail) \<Rightarrow> code @ '': '' @ detail | None \<Rightarrow> ''peer did not acknowledge'') in
     if (case rejection of Some (code, _) \<Rightarrow> code \<notin> set RETRYABLE_REJECTIONS | None \<Rightarrow> False)
     then (ty\<lparr>ty_dead_lettered := ty_dead_lettered ty + 1\<rparr>, on_outbox (ob_fail (oe_id entry) None text) st)
     else
       let retry = next_retry (oe_attempts entry) now_ms;
           next_at = map_option (\<lambda>t. max t (now_ms + so_backpressure_hint_ms outcome)) (rd_next_attempt_at_ms retry)
       in ((if rd_dead_lettered retry then ty\<lparr>ty_dead_lettered := ty_dead_lettered ty + 1\<rparr>
            else ty\<lparr>ty_failed := ty_failed ty + 1\<rparr>), on_outbox (ob_fail (oe_id entry) next_at text) st))"

definition fail_frame ::
  "('b, 'd) out_deps \<Rightarrow> int \<Rightarrow> peer_record \<Rightarrow> string \<Rightarrow> outbox_entry \<Rightarrow> tally \<times> 'd out_state \<Rightarrow> tally \<times> 'd out_state" where
  "fail_frame d now_ms peer message entry = (\<lambda>(ty, st).
     let retry = next_retry (oe_attempts entry) now_ms;
         st1 = on_outbox (ob_fail (oe_id entry) (rd_next_attempt_at_ms retry) message) st
     in if rd_dead_lettered retry
        then (ty\<lparr>ty_dead_lettered := ty_dead_lettered ty + 1\<rparr>,
              st1\<lparr>xs_fed := alert (od_fed d) WARNING ''outbox.dead-letter'' (pr_server_id peer)
                (oe_content_id entry @ '' gave up after '' @ js_string_of_int (oe_attempts entry + 1) @ '' attempts: '' @ message)
                now_ms (xs_fed st1)\<rparr>)
        else (ty\<lparr>ty_failed := ty_failed ty + 1\<rparr>, st1))"

definition batch_key :: "outbox_entry \<Rightarrow> string" where
  "batch_key e = oe_peer_id e @ ''|'' @ js_string_of_int (oe_plane e)"

definition add_to_batch :: "outbox_entry \<Rightarrow> (string, outbox_entry list) jsmap \<Rightarrow> (string, outbox_entry list) jsmap" where
  "add_to_batch e batches = al_set (batch_key e) (nullish (map_of batches (batch_key e)) [] @ [e]) batches"

definition batches_of :: "outbox_entry list \<Rightarrow> (string, outbox_entry list) jsmap" where
  "batches_of leased = fold add_to_batch leased []"

definition add_tally :: "tally \<Rightarrow> drain_report \<Rightarrow> drain_report" where
  "add_tally ty r = r\<lparr>dn_delivered := dn_delivered r + ty_delivered ty, dn_failed := dn_failed r + ty_failed ty,
     dn_dead_lettered := dn_dead_lettered r + ty_dead_lettered ty\<rparr>"

definition lease_pass :: "('b, 'd) out_deps \<Rightarrow> int \<Rightarrow> 'd out_state \<Rightarrow> outbox_entry list" where
  "lease_pass d now_ms st = lease now_ms (nullish (od_batch_size d) DEFAULT_BATCH) (xs_outbox st)"

section \<open>Whom fanout reaches\<close>

lemma enqueued_row:
  assumes "map_of (ob_entries (ob_enqueue es ob)) i = Some e"
  shows "map_of (ob_entries ob) i = Some e
    \<or> (\<exists>x \<in> set es. i = outbox_id (oe_content_id x) (oe_peer_id x) \<and> e = outbox_draft.extend x (outbox_entry.fields i 0 None))"
  using assms
proof (induction es arbitrary: ob)
  case (Cons x es)
  from Cons.prems have "map_of (ob_entries (ob_enqueue es (ob_enqueue_one x ob))) i = Some e" by (simp add: ob_enqueue_def)
  from Cons.IH [OF this] show ?case
    by (auto simp: ob_enqueue_one_def Let_def split: if_splits)
qed (simp add: ob_enqueue_def)

definition peer_uplink :: "('b, 'd) out_deps \<Rightarrow> directory \<Rightarrow> bridge_state \<Rightarrow> string \<Rightarrow> string option" where
  "peer_uplink d peers bs peer_id = fst (uplink_for_peer (od_uplink_of d) peers peer_id bs)"

definition same_uplinks :: "('b, 'd) out_deps \<Rightarrow> directory \<Rightarrow> bridge_state \<Rightarrow> bridge_state \<Rightarrow> bool" where
  "same_uplinks d peers bs bs' \<longleftrightarrow> peer_uplink d peers bs' = peer_uplink d peers bs \<and> bs_trusted_uplinks bs' = bs_trusted_uplinks bs"

lemma same_uplinks_trans: "same_uplinks d peers a b \<Longrightarrow> same_uplinks d peers b c \<Longrightarrow> same_uplinks d peers a c"
  by (simp add: same_uplinks_def)

lemma same_uplinks_lookup:
  assumes "uplink_for_peer (od_uplink_of d) peers k bs = (u, bs')"
  shows "same_uplinks d peers bs bs' \<and> u = peer_uplink d peers bs k"
proof -
  have "peer_uplink d peers bs' j = peer_uplink d peers bs j" for j
    using assms
    by (auto simp: peer_uplink_def uplink_for_peer_def some_uplink_def split: if_splits option.splits)
  moreover have "bs_trusted_uplinks bs' = bs_trusted_uplinks bs"
    using assms by (auto simp: uplink_for_peer_def split: if_splits option.splits)
  ultimately show ?thesis using assms by (auto simp: same_uplinks_def peer_uplink_def)
qed

lemma same_uplinks_should_relay:
  "should_relay config now_ms envelope via byts bs = (decision, bs') \<Longrightarrow> same_uplinks d peers bs bs'"
  by (auto simp: should_relay_def same_uplinks_def peer_uplink_def uplink_for_peer_def fun_eq_iff split: prod.splits option.splits)

lemma same_uplinks_record: "same_uplinks d peers bs (record_relay via u prio n bs)"
  by (auto simp: record_relay_def Let_def same_uplinks_def peer_uplink_def uplink_for_peer_def fun_eq_iff split: option.splits)

lemma split_crossings:
  assumes "fold (split_crossing d peers via) ps ((kept, crossings), bs) = ((kept', crossings'), bs')"
  shows "same_uplinks d peers bs bs' \<and> set kept' \<subseteq> set kept \<union> {p \<in> set ps. \<not> truthy (peer_uplink d peers bs (pr_server_id p))
      \<or> peer_uplink d peers bs (pr_server_id p) = via} \<and> set crossings' \<subseteq> set crossings \<union> set ps"
  using assms
proof (induction ps arbitrary: kept crossings bs)
  case (Cons p ps)
  obtain u bs1 where up: "uplink_for_peer (od_uplink_of d) peers (pr_server_id p) bs = (u, bs1)" by (rule prod.exhaust)
  note u = same_uplinks_lookup [OF up]
  obtain k1 c1 where step: "split_crossing d peers via p ((kept, crossings), bs) = ((k1, c1), bs1)"
    and k1: "k1 = (if \<not> truthy u \<or> u = via then kept @ [p] else kept)"
    and c1: "c1 = (if \<not> truthy u \<or> u = via then crossings else crossings @ [p])"
    by (simp add: split_crossing_def up)
  from Cons.prems have "fold (split_crossing d peers via) ps ((k1, c1), bs1) = ((kept', crossings'), bs')" by (simp add: step)
  from Cons.IH [OF this] u show ?case
    by (auto simp: k1 c1 same_uplinks_def split: if_splits)
qed (simp add: same_uplinks_def)

lemma admit_crossings:
  assumes "fold (admit_crossing d peers via permitted prio n) ps (kept, bs) = (kept', bs')"
  shows "same_uplinks d peers bs bs' \<and> set kept' \<subseteq> set kept
    \<union> {p \<in> set ps. \<exists>u. peer_uplink d peers bs (pr_server_id p) = Some u \<and> u \<in> set permitted}"
  using assms
proof (induction ps arbitrary: kept bs)
  case (Cons p ps)
  obtain u bs1 where up: "uplink_for_peer (od_uplink_of d) peers (pr_server_id p) bs = (u, bs1)" by (rule prod.exhaust)
  note u = same_uplinks_lookup [OF up]
  obtain k1 bs2 where step: "admit_crossing d peers via permitted prio n p (kept, bs) = (k1, bs2)" by (rule prod.exhaust)
  have "set k1 \<subseteq> set kept \<union> {q. q = p \<and> (\<exists>v. u = Some v \<and> v \<in> set permitted)} \<and> same_uplinks d peers bs1 bs2"
    using step up same_uplinks_record [of d peers bs1]
    by (auto simp: admit_crossing_def same_uplinks_def split: option.splits if_splits)
  moreover have "fold (admit_crossing d peers via permitted prio n) ps (k1, bs2) = (kept', bs')"
    using Cons.prems by (simp add: step)
  ultimately show ?case using Cons.IH [of k1 bs2] u by (auto simp: same_uplinks_def)
qed (simp add: same_uplinks_def)

definition may_cross :: "bridge_config \<Rightarrow> bridge_state \<Rightarrow> parsed_envelope \<Rightarrow> string \<Rightarrow> string \<Rightarrow> bool" where
  "may_cross config bs envelope via u \<longleftrightarrow> bc_enabled config \<and> priority envelope \<in> set (bc_classes config)
     \<and> via \<in> set (bs_trusted_uplinks bs) \<and> u \<in> set (bs_trusted_uplinks bs)
     \<and> ((via, u) \<in> set (bc_pairs config) \<or> (u, via) \<in> set (bc_pairs config))"

lemma should_relay_may_cross:
  assumes "should_relay config now_ms envelope via byts bs = (Relay us, bs')" and "u \<in> set us"
  shows "may_cross config bs envelope via u"
proof -
  obtain B where "decide_relay \<lparr>ri_config = config, ri_via_uplink_id = via, ri_priority = priority envelope, ri_bytes = byts,
      ri_trusted_uplinks = bs_trusted_uplinks bs, ri_buckets = bs_buckets bs, ri_now_ms = now_ms\<rparr> = (Relay us, B)"
    using assms by (auto simp: should_relay_def split: prod.splits)
  from relay_targets [OF this] assms(2) show ?thesis by (auto simp: may_cross_def)
qed

lemma bridge_policy_kept:
  assumes "apply_bridge_policy d peers now_ms envelope candidates opts bs = (allowed, bs')" and "p \<in> set allowed"
  shows "p \<in> set candidates \<and> (\<forall>config origin rest via u. od_bridge d = Some config \<longrightarrow> fo_exclude_peers opts = Some (origin # rest)
      \<longrightarrow> origin \<noteq> [] \<longrightarrow> peer_uplink d peers bs origin = Some via \<longrightarrow> via \<noteq> []
      \<longrightarrow> peer_uplink d peers bs (pr_server_id p) = Some u \<longrightarrow> u \<noteq> [] \<longrightarrow> u \<noteq> via \<longrightarrow> may_cross config bs envelope via u)"
proof (cases "\<exists>config origin rest via. od_bridge d = Some config \<and> fo_exclude_peers opts = Some (origin # rest) \<and> origin \<noteq> []
    \<and> peer_uplink d peers bs origin = Some via \<and> via \<noteq> []")
  case False
  have "allowed = candidates"
    using assms(1) False
    by (auto simp: apply_bridge_policy_def nullish_def peer_uplink_def split: option.splits list.splits if_splits prod.splits)
  with assms(2) False show ?thesis by blast
next
  case True
  then obtain config origin rest via where c: "od_bridge d = Some config" "fo_exclude_peers opts = Some (origin # rest)" "origin \<noteq> []"
    "peer_uplink d peers bs origin = Some via" "via \<noteq> []" by blast
  obtain v bs1 where up: "uplink_for_peer (od_uplink_of d) peers origin bs = (v, bs1)" by (rule prod.exhaust)
  note v = same_uplinks_lookup [OF up]
  obtain kept crossings bs2 where sp: "fold (split_crossing d peers (Some via)) candidates (([], []), bs1) = ((kept, crossings), bs2)"
    by (metis surj_pair)
  note s = split_crossings [OF sp]
  have kept: "q \<in> set candidates \<and> (\<forall>u. peer_uplink d peers bs (pr_server_id q) = Some u \<longrightarrow> u \<noteq> [] \<longrightarrow> u = via)"
    if "q \<in> set kept" for q
    using s v that by (auto simp: same_uplinks_def truthy_def)
  obtain dec bs3 where rel: "should_relay config now_ms envelope via (nullish (fo_bytes opts) 0) bs2 = (dec, bs3)" by (rule prod.exhaust)
  have run: "(allowed, bs') = (if crossings = [] then (kept, bs2) else case dec of NoRelay _ \<Rightarrow> (kept, bs3) | Relay permitted \<Rightarrow>
      fold (admit_crossing d peers via permitted (priority envelope) (nullish (fo_bytes opts) 0)) crossings (kept, bs3))"
    using assms(1) v by (cases "crossings = []") (simp_all add: apply_bridge_policy_def c up sp rel split: relay_decision.split)
  have "p \<in> set kept \<or> (\<exists>us u. dec = Relay us \<and> u \<in> set us \<and> p \<in> set candidates \<and> peer_uplink d peers bs (pr_server_id p) = Some u)"
  proof (cases "crossings = [] \<or> (\<exists>r. dec = NoRelay r)")
    case False
    then obtain us where us: "crossings \<noteq> []" "dec = Relay us" by (cases dec) auto
    then have "fold (admit_crossing d peers via us (priority envelope) (nullish (fo_bytes opts) 0)) crossings (kept, bs3) = (allowed, bs')"
      using run by simp
    from admit_crossings [OF this] assms(2) us s v same_uplinks_should_relay [OF rel, of d peers]
    show ?thesis by (auto simp: same_uplinks_def)
  qed (use run assms(2) in \<open>auto split: if_splits\<close>)
  moreover have "may_cross config bs envelope via u" if "dec = Relay us" "u \<in> set us" for us u
    using should_relay_may_cross [of config now_ms envelope via _ bs2 us bs3 u] rel that s v
    by (auto simp: may_cross_def same_uplinks_def)
  ultimately show ?thesis using kept c by auto
qed


lemma candidates_eligible:
  assumes "p \<in> set (candidates_of peers envelope opts)"
  shows "p \<in> set (dir_all peers) \<and> eligible p envelope \<and> pr_server_id p \<notin> set (nullish (fo_exclude_peers opts) [])
    \<and> (unrestricted (fo_targets opts) \<or> pr_server_id p \<in> set (the (fo_targets opts)))"
  using assms by (auto simp: candidates_of_def split: if_splits)

text \<open>Step-19 fanout: every row it adds is for a known peer of at least probationary trust that serves the
  envelope's plane and class, is not the peer the envelope came from and is a named target where targets were
  named; it starts with no attempts; and where the envelope would cross from one uplink of a bridge to another,
  the bridge was enabled for its class, with a configured pair and a trusted peer on both sides.\<close>

theorem fanout_reaches_only_the_eligible:
  assumes "map_of (ob_entries (xs_outbox st)) i = None"
    and "map_of (ob_entries (xs_outbox (fed_enqueue d relay_ms queued_ms envelope opts st))) i = Some e"
  shows "\<exists>p \<in> set (dir_all (fs_peers (xs_fed st))).
      i = outbox_id (content_id envelope) (pr_server_id p) \<and> oe_peer_id e = pr_server_id p \<and> oe_content_id e = content_id envelope
    \<and> oe_attempts e = 0 \<and> PROBATION \<le> pr_trust p \<and> eligible p envelope
    \<and> pr_server_id p \<notin> set (nullish (fo_exclude_peers opts) [])
    \<and> (unrestricted (fo_targets opts) \<or> pr_server_id p \<in> set (the (fo_targets opts)))
    \<and> (\<forall>config origin rest via u. od_bridge d = Some config \<longrightarrow> fo_exclude_peers opts = Some (origin # rest) \<longrightarrow> origin \<noteq> []
      \<longrightarrow> peer_uplink d (fs_peers (xs_fed st)) (xs_bridge st) origin = Some via \<longrightarrow> via \<noteq> []
      \<longrightarrow> peer_uplink d (fs_peers (xs_fed st)) (xs_bridge st) (pr_server_id p) = Some u \<longrightarrow> u \<noteq> [] \<longrightarrow> u \<noteq> via
      \<longrightarrow> may_cross config (xs_bridge st) envelope via u)"
proof -
  let ?peers = "fs_peers (xs_fed st)"
  let ?row = "\<lambda>peer. \<lparr>oe_content_id = content_id envelope, oe_peer_id = pr_server_id peer, oe_priority = priority envelope,
    oe_plane = plane envelope, oe_next_attempt_at_ms = queued_ms\<rparr>"
  obtain allowed bs where pol: "apply_bridge_policy d ?peers relay_ms envelope (candidates_of ?peers envelope opts) opts (xs_bridge st)
      = (allowed, bs)" by (rule prod.exhaust)
  have "map_of (ob_entries (ob_enqueue (map ?row allowed) (xs_outbox st))) i = Some e"
    using assms(2) by (cases "allowed = []") (simp_all add: fed_enqueue_def Let_def pol ob_enqueue_def)
  from enqueued_row [OF this] assms(1) obtain p where p: "p \<in> set allowed" "i = outbox_id (content_id envelope) (pr_server_id p)"
    "e = outbox_draft.extend (?row p) (outbox_entry.fields i 0 None)" by auto
  note k = bridge_policy_kept [OF pol p(1)]
  then have c: "p \<in> set (candidates_of ?peers envelope opts)" by blast
  have trust: "PROBATION \<le> pr_trust p" if "eligible p envelope"
    using that unfolding eligible_def at_least_iff by (auto split: if_splits)
  from p(2,3) k candidates_eligible [OF c] trust show ?thesis
    by (intro bexI [of _ p]) (simp_all add: outbox_draft.defs outbox_entry.defs)
qed


section \<open>The order of a lease\<close>

text \<open>What orders a row: its priority class, and within a class the place it was enqueued at.\<close>

definition urgency :: "outbox \<Rightarrow> outbox_entry \<Rightarrow> int \<times> int" where
  "urgency ob e = (oe_priority e, nullish (map_of (ob_order ob) (oe_id e)) 0)"

interpretation lease_rank: ranked_order "lease_order ob" "urgency ob" for ob
  by unfold_locales (auto simp: lease_order_def urgency_def split: if_splits)

text \<open>The lookups of a well-formed queue: \<open>E\<close> pending, \<open>D\<close> dead, \<open>Q\<close> the places, \<open>n\<close> the last place given out.\<close>

definition rows_ok :: "(string \<rightharpoonup> outbox_entry) \<Rightarrow> (string \<rightharpoonup> outbox_entry) \<Rightarrow> (string \<rightharpoonup> int) \<Rightarrow> int \<Rightarrow> bool" where
  "rows_ok E D Q n \<longleftrightarrow> (\<forall>i. E i = None \<or> D i = None)
     \<and> (\<forall>i e. E i = Some e \<longrightarrow> oe_id e = i \<and> 0 \<le> oe_attempts e \<and> (\<exists>k. Q i = Some k \<and> k \<le> n))
     \<and> (\<forall>i j k. E i \<noteq> None \<longrightarrow> E j \<noteq> None \<longrightarrow> Q i = Some k \<longrightarrow> Q j = Some k \<longrightarrow> i = j)"

lemma rows_okD:
  assumes "rows_ok E D Q n"
  shows "E i = None \<or> D i = None" and "E i = Some e \<Longrightarrow> oe_id e = i" and "E i = Some e \<Longrightarrow> 0 \<le> oe_attempts e"
    and "E i = Some e \<Longrightarrow> \<exists>k. Q i = Some k \<and> k \<le> n"
    and "E i \<noteq> None \<Longrightarrow> E j \<noteq> None \<Longrightarrow> Q i = Some k \<Longrightarrow> Q j = Some k \<Longrightarrow> i = j"
  using assms unfolding rows_ok_def by metis+

lemma rows_ok_add:
  assumes "rows_ok E D Q n" and "E i = None" and "D i = None" and "oe_id e = i" and "oe_attempts e = 0"
  shows "rows_ok (E(i \<mapsto> e)) D (Q(i \<mapsto> n + 1)) (n + 1)"
proof -
  have "k \<noteq> n + 1" if "E j \<noteq> None" "Q j = Some k" for j k
    using rows_okD(4) [OF assms(1), of j] that by auto
  moreover have "\<exists>k. (Q(i \<mapsto> n + 1)) j = Some k \<and> k \<le> n + 1" if "(E(i \<mapsto> e)) j = Some e'" for j e'
    using rows_okD(4) [OF assms(1), of j e'] that by (auto split: if_splits)
  ultimately show ?thesis using rows_okD [OF assms(1)] assms(2-5) unfolding rows_ok_def
    by (auto split: if_splits)
qed

lemma rows_ok_del:
  assumes "rows_ok E D Q n" and "e' = None \<or> D' i = D i"
    and "\<And>x. e' = Some x \<Longrightarrow> E i \<noteq> None \<and> oe_id x = i \<and> 0 \<le> oe_attempts x" and "\<And>j. j \<noteq> i \<Longrightarrow> D' j = D j"
  shows "rows_ok (E(i := e')) D' Q n"
proof -
  have "(E(i := e')) j = None \<or> D' j = None" for j
    using rows_okD(1) [OF assms(1), of j] assms(2-4) by (cases "j = i"; cases e') auto
  moreover have "oe_id x = j \<and> 0 \<le> oe_attempts x \<and> (\<exists>k. Q j = Some k \<and> k \<le> n)" if "(E(i := e')) j = Some x" for j x
    using rows_okD(2-4) [OF assms(1), of j] assms(3) that by (auto split: if_splits)
  moreover have "E j \<noteq> None" if "(E(i := e')) j \<noteq> None" for j
    using assms(3) that by (auto split: if_splits)
  ultimately show ?thesis using rows_okD(5) [OF assms(1)] unfolding rows_ok_def by blast
qed

definition outbox_ok :: "outbox \<Rightarrow> bool" where
  "outbox_ok ob \<longleftrightarrow> distinct (map fst (ob_entries ob))
     \<and> rows_ok (map_of (ob_entries ob)) (map_of (ob_dead ob)) (map_of (ob_order ob)) (ob_sequence ob)"

lemma outbox_okD:
  assumes "outbox_ok ob"
  shows "distinct (map fst (ob_entries ob))"
    and "rows_ok (map_of (ob_entries ob)) (map_of (ob_dead ob)) (map_of (ob_order ob)) (ob_sequence ob)"
  using assms by (simp_all add: outbox_ok_def)

lemma outbox_ok_empty: "outbox_ok empty_outbox"
  by (simp add: outbox_ok_def empty_outbox_def rows_ok_def)

lemma outbox_ok_enqueue_one:
  assumes "outbox_ok ob"
  shows "outbox_ok (ob_enqueue_one x ob)"
proof -
  define i where "i = outbox_id (oe_content_id x) (oe_peer_id x)"
  define e where "e = outbox_draft.extend x (outbox_entry.fields i 0 None)"
  have e: "oe_id e = i" "oe_attempts e = 0" by (simp_all add: e_def outbox_draft.defs outbox_entry.defs)
  show ?thesis
  proof (cases "map_of (ob_entries ob) i = None \<and> map_of (ob_dead ob) i = None")
    case True
    then have "ob_enqueue_one x ob = ob\<lparr>ob_sequence := ob_sequence ob + 1, ob_order := al_set i (ob_sequence ob + 1) (ob_order ob),
        ob_entries := al_set i e (ob_entries ob)\<rparr>"
      by (simp add: ob_enqueue_one_def i_def e_def Let_def)
    with rows_ok_add [OF outbox_okD(2) [OF assms] _ _ e] True outbox_okD(1) [OF assms] show ?thesis
      by (simp add: outbox_ok_def)
  qed (use assms in \<open>auto simp: ob_enqueue_one_def i_def\<close>)
qed

lemma outbox_ok_enqueue: "outbox_ok ob \<Longrightarrow> outbox_ok (ob_enqueue xs ob)"
  by (induction xs arbitrary: ob) (simp_all add: ob_enqueue_def outbox_ok_enqueue_one)

lemma pending_iff:
  assumes "outbox_ok ob"
  shows "e \<in> set (map snd (ob_entries ob)) \<longleftrightarrow> map_of (ob_entries ob) (oe_id e) = Some e"
proof
  assume "e \<in> set (map snd (ob_entries ob))"
  then obtain i where "(i, e) \<in> set (ob_entries ob)" by auto
  then have "map_of (ob_entries ob) i = Some e" using outbox_okD(1) [OF assms] by simp
  with rows_okD(2) [OF outbox_okD(2) [OF assms] this] show "map_of (ob_entries ob) (oe_id e) = Some e" by simp
next
  assume "map_of (ob_entries ob) (oe_id e) = Some e"
  from map_of_SomeD [OF this] show "e \<in> set (map snd (ob_entries ob))" by force
qed

lemma distinct_pending_ids:
  assumes "outbox_ok ob"
  shows "distinct (map oe_id (map snd (ob_entries ob)))"
proof -
  have "map oe_id (map snd (ob_entries ob)) = map fst (ob_entries ob)"
  proof (simp, intro ballI)
    fix p assume "p \<in> set (ob_entries ob)"
    then have "map_of (ob_entries ob) (fst p) = Some (snd p)" using outbox_okD(1) [OF assms] by simp
    then show "oe_id (snd p) = fst p" by (rule rows_okD(2) [OF outbox_okD(2) [OF assms]])
  qed
  then show ?thesis using outbox_okD(1) [OF assms] by (simp only:)
qed

lemma leased_pending:
  assumes "outbox_ok ob" and "e \<in> set (lease now_ms limit ob)"
  shows "map_of (ob_entries ob) (oe_id e) = Some e" and "oe_next_attempt_at_ms e \<le> now_ms" and "0 \<le> oe_attempts e"
proof -
  have "e \<in> set (map snd (ob_entries ob))" and due: "oe_next_attempt_at_ms e \<le> now_ms"
    using set_take_subset assms(2) unfolding lease_def by fastforce+
  then show p: "map_of (ob_entries ob) (oe_id e) = Some e" using pending_iff [OF assms(1)] by blast
  show "oe_next_attempt_at_ms e \<le> now_ms" by (rule due)
  show "0 \<le> oe_attempts e" by (rule rows_okD(3) [OF outbox_okD(2) [OF assms(1)] p])
qed

lemma distinct_leased_ids:
  assumes "outbox_ok ob"
  shows "distinct (map oe_id (lease now_ms limit ob))"
proof -
  let ?due = "filter (\<lambda>e. oe_next_attempt_at_ms e \<le> now_ms) (map snd (ob_entries ob))"
  have d: "distinct (map oe_id ?due)" using distinct_pending_ids [OF assms] by (rule distinct_map_filter)
  then have "distinct (js_sort (lease_order ob) ?due)" by (simp add: distinct_map)
  moreover have "inj_on oe_id (set (js_sort (lease_order ob) ?due))" using d by (simp add: distinct_map)
  ultimately have "distinct (map oe_id (js_sort (lease_order ob) ?due))" by (simp add: distinct_map)
  then show ?thesis unfolding lease_def take_map [symmetric] by (rule distinct_take)
qed

text \<open>A lease takes the most urgent rows that are due, at most the limit: every row of it is pending and due, no
  due row outside it is strictly more urgent than one inside (class first, then first in first out), and a due row
  is left out only when the limit is reached; so an emergency broadcast overtakes any backlog of votes.\<close>

theorem lease_takes_most_urgent:
  assumes "outbox_ok ob"
  shows "length (lease now_ms limit ob) \<le> limit \<and> distinct (map oe_id (lease now_ms limit ob))
    \<and> sorted (map (urgency ob) (lease now_ms limit ob))
    \<and> (\<forall>e. e \<in> set (lease now_ms limit ob) \<longrightarrow> map_of (ob_entries ob) (oe_id e) = Some e \<and> oe_next_attempt_at_ms e \<le> now_ms)
    \<and> (\<forall>e. map_of (ob_entries ob) (oe_id e) = Some e \<and> oe_next_attempt_at_ms e \<le> now_ms \<and> e \<notin> set (lease now_ms limit ob) \<longrightarrow>
        length (lease now_ms limit ob) = limit \<and> (\<forall>l \<in> set (lease now_ms limit ob). urgency ob l \<le> urgency ob e))"
proof -
  let ?due = "filter (\<lambda>e. oe_next_attempt_at_ms e \<le> now_ms) (map snd (ob_entries ob))"
  let ?s = "js_sort (lease_order ob) ?due"
  have sorted: "sorted (map (urgency ob) ?s)" by (rule lease_rank.sorted_rank)
  have split: "?s = take limit ?s @ drop limit ?s" by simp
  have out: "length (lease now_ms limit ob) = limit \<and> (\<forall>l \<in> set (lease now_ms limit ob). urgency ob l \<le> urgency ob e)"
    if e: "map_of (ob_entries ob) (oe_id e) = Some e" "oe_next_attempt_at_ms e \<le> now_ms" "e \<notin> set (lease now_ms limit ob)" for e
  proof -
    have "e \<in> set ?s" using e(1,2) pending_iff [OF assms, of e] by auto
    then have dropped: "e \<in> set (drop limit ?s)" using e(3) split unfolding lease_def by (metis Un_iff set_append)
    then have "limit \<le> length ?s" by (cases "limit \<le> length ?s") auto
    then show ?thesis using lease_rank.later_not_less [OF split _ dropped] by (simp add: lease_def)
  qed
  have "sorted (map (urgency ob) (lease now_ms limit ob))" unfolding lease_def using sorted by (metis sorted_wrt_take take_map)
  moreover have "length (lease now_ms limit ob) \<le> limit" by (simp add: lease_def)
  ultimately show ?thesis using out leased_pending [OF assms] distinct_leased_ids [OF assms] by blast
qed


section \<open>Pending rows and retries\<close>

definition pending :: "outbox_entry \<Rightarrow> outbox \<Rightarrow> bool" where
  "pending e ob \<longleftrightarrow> map_of (ob_entries ob) (oe_id e) = Some e"

lemma pending_attempts: "outbox_ok ob \<Longrightarrow> pending e ob \<Longrightarrow> 0 \<le> oe_attempts e"
  using rows_okD(3) [OF outbox_okD(2)] unfolding pending_def by blast

lemma next_retry_later:
  assumes "0 \<le> attempts" and "rd_next_attempt_at_ms (next_retry attempts now_ms) = Some t"
  shows "now_ms < t \<and> attempts + 1 < MAX_DELIVERY_ATTEMPTS"
proof -
  have "0 < backoff_delay_ms (attempts + 1)"
    using assms(1) by (simp add: backoff_delay_ms_def INITIAL_BACKOFF_MS_def MAX_BACKOFF_MS_def)
  with assms(2) show ?thesis by (auto simp: next_retry_def Let_def split: if_splits)
qed

lemma on_outbox_simps [simp]:
  "xs_outbox (on_outbox f st) = f (xs_outbox st)" "xs_fed (on_outbox f st) = xs_fed st"
  by (simp_all add: on_outbox_def)

section \<open>The batches of a pass hold what it leased\<close>

lemma add_to_batch_mset:
  "mset (concat (map snd (add_to_batch e batches))) = add_mset e (mset (concat (map snd batches)))"
proof -
  have "mset (concat (map snd (al_set k (nullish (map_of m k) [] @ [e]) m))) = add_mset e (mset (concat (map snd m)))" for k and m :: "(string, outbox_entry list) jsmap"
    by (induction m) auto
  then show ?thesis by (simp add: add_to_batch_def)
qed

lemma batches_of_mset: "mset (concat (map snd (batches_of es))) = mset es"
proof -
  have "mset (concat (map snd (fold add_to_batch es m))) = mset es + mset (concat (map snd m))" for m
    by (induction es arbitrary: m) (simp_all add: add_to_batch_mset)
  then show ?thesis by (simp add: batches_of_def)
qed

section \<open>Samples\<close>

definition sample_bulk :: outbox_draft where
  "sample_bulk = \<lparr>oe_content_id = ''b'', oe_peer_id = ''jbs1b'', oe_priority = PRIO_BULK, oe_plane = 1, oe_next_attempt_at_ms = 0\<rparr>"

definition sample_emergency :: outbox_draft where
  "sample_emergency = \<lparr>oe_content_id = ''c'', oe_peer_id = ''jbs1b'', oe_priority = PRIO_BROADCAST, oe_plane = 1, oe_next_attempt_at_ms = 0\<rparr>"

definition sample_queue :: outbox where
  "sample_queue = ob_enqueue [sample_bulk, sample_emergency] empty_outbox"

lemma sample_queue_ok: "outbox_ok sample_queue"
  unfolding sample_queue_def by (rule outbox_ok_enqueue [OF outbox_ok_empty])

definition sample_entry :: outbox_entry where
  "sample_entry = outbox_draft.extend sample_emergency (outbox_entry.fields (outbox_id ''c'' ''jbs1b'') 0 None)"

lemma sample_queue_entries:
  "ob_entries sample_queue = [(outbox_id ''b'' ''jbs1b'', outbox_draft.extend sample_bulk (outbox_entry.fields (outbox_id ''b'' ''jbs1b'') 0 None)),
     (outbox_id ''c'' ''jbs1b'', sample_entry)]"
  "ob_order sample_queue = [(outbox_id ''b'' ''jbs1b'', 1), (outbox_id ''c'' ''jbs1b'', 2)]"
  by (simp_all add: sample_queue_def ob_enqueue_def ob_enqueue_one_def empty_outbox_def Let_def sample_bulk_def sample_emergency_def
      sample_entry_def outbox_id_def outbox_draft.defs outbox_entry.defs)

lemmas sample_rows = sample_entry_def sample_bulk_def sample_emergency_def outbox_draft.defs outbox_entry.defs

lemma sample_lease: "lease 0 1 sample_queue = [sample_entry]"
  by (simp add: lease_def sample_queue_entries js_sort_def lease_order_def)
    (simp add: sample_rows PRIO_BULK_def PRIO_BROADCAST_def)

text \<open>An emergency broadcast enqueued behind a vote is leased alone, before it.\<close>

theorem lease_takes_most_urgent_witness:
  "lease 0 1 sample_queue = [sample_entry] \<and> distinct (map oe_id (lease 0 1 sample_queue))"
  using sample_lease lease_takes_most_urgent [OF sample_queue_ok, of 0 1] by blast

definition sample_logged :: "bytes node_state" where
  "sample_logged = sample_node\<lparr>nd_envelopes := \<lparr>es_by_content_id = [(''c'', \<lparr>se_envelope = sample_class PRIO_BROADCAST, se_raw = [1],
     se_log_index = 0, se_received_at_ms = 0, se_receipt = None, se_leaf_index = None\<rparr>)], es_log = []\<rparr>\<rparr>"

definition sample_out :: "bytes out_state" where
  "sample_out = \<lparr>xs_fed = (sample_fed sample_peer_record)\<lparr>fs_node := sample_logged\<rparr>, xs_outbox = sample_queue, xs_bridge = sample_bridge\<rparr>"

text \<open>A black hole: no delivery ever comes back.\<close>

definition sample_black_hole :: "(bytes, bytes) out_deps" where
  "sample_black_hole = \<lparr>od_fed = sample_fed_deps, od_bridge = Some sample_bridge_config,
     od_uplink_of = (\<lambda>p. if pr_server_id p = ''jbs1b'' then Some ''b'' else Some ''a''), od_batch_size = Some 1, od_deliver_timeout_ms = None,
     od_send = (\<lambda>p pl raws. \<lparr>sr_after_ms = None, sr_result = Inl ''''\<rparr>)\<rparr>"

lemma sample_out_ok: "outbox_ok (xs_outbox sample_out)"
  "0 < nullish (od_deliver_timeout_ms sample_black_hole) DEFAULT_DELIVER_TIMEOUT_MS"
  by (simp_all add: sample_out_def sample_queue_ok sample_fed_def sample_logged_def sample_node_def initial_node_def
      empty_projection_store_def sample_black_hole_def DEFAULT_DELIVER_TIMEOUT_MS_def)

lemma sample_leased: "lease_pass sample_black_hole 0 sample_out = [sample_entry]"
  using sample_lease by (simp add: lease_pass_def sample_black_hole_def sample_out_def)

definition sample_islands :: "bytes out_state" where
  "sample_islands = \<lparr>xs_fed = (sample_fed sample_peer_record)\<lparr>fs_peers := [(''jbs1a'', sample_peer_record\<lparr>pr_server_id := ''jbs1a''\<rparr>),
     (''jbs1b'', sample_peer_record)]\<rparr>, xs_outbox = empty_outbox, xs_bridge = sample_bridge\<rparr>"

definition sample_fanout :: fanout_options where
  "sample_fanout = \<lparr>fo_targets = None, fo_exclude_peers = Some [''jbs1a''], fo_bytes = Some 10\<rparr>"

lemma sample_class_fields [simp]: "content_id (sample_class p) = ''c''" "plane (sample_class p) = 1"
  by (simp_all add: sample_class_def signed_envelope.defs parsed_envelope.defs sample_envelope_def)

lemma sample_candidates:
  "candidates_of (fs_peers (xs_fed sample_islands)) (sample_class PRIO_BROADCAST) sample_fanout = [sample_peer_record]"
  by (simp add: candidates_of_def sample_islands_def sample_fanout_def sample_fed_def dir_all_def eligible_def at_least_iff unrestricted_def
      sample_peer_record_def)

text \<open>A broadcast from island \<open>a\<close> is queued for the peer on island \<open>b\<close>, over the bridge.\<close>

lemma sample_crossing:
  "xs_outbox (fed_enqueue sample_black_hole 5 0 (sample_class PRIO_BROADCAST) sample_fanout sample_islands)
    = ob_enqueue [sample_emergency] empty_outbox"
proof -
  define bs where "bs = sample_bridge\<lparr>bs_uplink_by_peer := [(''jbs1a'', ''a''), (''jbs1b'', ''b'')]\<rparr>"
  have two: "uplink_for_peer (od_uplink_of sample_black_hole) (fs_peers (xs_fed sample_islands)) ''jbs1a'' sample_bridge
      = (Some ''a'', sample_bridge\<lparr>bs_uplink_by_peer := [(''jbs1a'', ''a'')]\<rparr>)"
    "uplink_for_peer (od_uplink_of sample_black_hole) (fs_peers (xs_fed sample_islands)) ''jbs1b''
        (sample_bridge\<lparr>bs_uplink_by_peer := [(''jbs1a'', ''a'')]\<rparr>) = (Some ''b'', bs)"
    by (simp_all add: uplink_for_peer_def sample_bridge_def new_bridge_def truthy_def dir_get_def sample_islands_def some_uplink_def
        sample_black_hole_def bs_def sample_peer_record_def sample_fed_def)
  obtain dec bs' where rel: "should_relay sample_bridge_config 5 (sample_class PRIO_BROADCAST) ''a'' 10 bs = (dec, bs')" by (rule prod.exhaust)
  have "fst (should_relay sample_bridge_config 5 (sample_class PRIO_BROADCAST) ''a'' 10 bs) = Relay [''b'']"
    using sample_relay by (simp add: should_relay_def bs_def case_prod_beta)
  with rel have dec: "dec = Relay [''b'']" by simp
  have "bs_uplink_by_peer bs' = [(''jbs1a'', ''a''), (''jbs1b'', ''b'')]" using rel by (auto simp: should_relay_def bs_def split: prod.splits)
  then have again: "uplink_for_peer (od_uplink_of sample_black_hole) (fs_peers (xs_fed sample_islands)) ''jbs1b'' bs' = (Some ''b'', bs')"
    by (simp add: uplink_for_peer_def truthy_def)
  have id: "pr_server_id sample_peer_record = ''jbs1b''" by (simp add: sample_peer_record_def)
  have deps: "od_bridge sample_black_hole = Some sample_bridge_config" "fo_exclude_peers sample_fanout = Some [''jbs1a'']"
    "fo_bytes sample_fanout = Some 10" "xs_bridge sample_islands = sample_bridge" "xs_outbox sample_islands = empty_outbox"
    by (simp_all add: sample_black_hole_def sample_fanout_def sample_islands_def)
  have "\<exists>bs2. apply_bridge_policy sample_black_hole (fs_peers (xs_fed sample_islands)) 5 (sample_class PRIO_BROADCAST)
      [sample_peer_record] sample_fanout sample_bridge = ([sample_peer_record], bs2)"
    by (simp add: apply_bridge_policy_def deps two split_crossing_def admit_crossing_def id truthy_def rel dec again)
  then obtain bs2 where pol: "apply_bridge_policy sample_black_hole (fs_peers (xs_fed sample_islands)) 5 (sample_class PRIO_BROADCAST)
      [sample_peer_record] sample_fanout sample_bridge = ([sample_peer_record], bs2)" by blast
  show ?thesis
    by (simp add: fed_enqueue_def sample_candidates deps pol id sample_emergency_def Let_def)
qed

theorem fanout_reaches_only_the_eligible_witness:
  "\<exists>e. map_of (ob_entries (xs_outbox (fed_enqueue sample_black_hole 5 0 (sample_class PRIO_BROADCAST) sample_fanout sample_islands)))
      (outbox_id ''c'' ''jbs1b'') = Some e \<and> oe_attempts e = 0 \<and> oe_peer_id e = ''jbs1b''"
proof -
  have new: "map_of (ob_entries (xs_outbox (fed_enqueue sample_black_hole 5 0 (sample_class PRIO_BROADCAST) sample_fanout sample_islands)))
      (outbox_id ''c'' ''jbs1b'') = Some sample_entry"
    unfolding sample_crossing
    by (simp add: ob_enqueue_def ob_enqueue_one_def empty_outbox_def Let_def sample_rows)
  have "map_of (ob_entries (xs_outbox sample_islands)) (outbox_id ''c'' ''jbs1b'') = None"
    by (simp add: sample_islands_def empty_outbox_def)
  from fanout_reaches_only_the_eligible [OF this new] have "oe_attempts sample_entry = 0" by blast
  with new show ?thesis by (simp add: sample_rows)
qed

end
