(* ===== verification/JB_Drain.thy ===== *)
theory JB_Drain
  imports JB_Outbox
begin

text \<open>
  One pass of the drainer as \<open>federation-outbox.ts\<close> runs it: the rows a pass leased are grouped by peer and plane, and
  the batches are delivered at the same time (\<open>Promise.all\<close>), so that no peer holds up another. A batch is a state
  machine whose steps are the turns between two awaits of \<open>deliverBatch\<close>; a schedule says whose turn it is, and other
  code runs in between: the fanout enqueues rows, and the rest of the node changes the log, the directory and the
  projection store as it likes. \<open>recordOutbound\<close> opens a transaction of the projection store in one turn and closes it
  in another; the in-memory store refuses a second one meanwhile, and what that throws ends in the catch of the batch.
\<close>

section \<open>recordOutbound in two turns\<close>

definition begin_record ::
  "int \<Rightarrow> outbox_entry \<Rightarrow> peer_record \<Rightarrow> 'd out_state
     \<Rightarrow> string + ((ingress_error + unit) \<times> ('d node_state \<Rightarrow> 'd node_state) list \<times> 'd out_state)" where
  "begin_record recorded_ms entry peer st =
     (let n = fs_node (xs_fed st); pj = nd_projections n in
      if pj_staged pj \<noteq> None then Inl ''nested transactions are not supported''
      else (case tx_ledger_record \<lparr>le_content_id = oe_content_id entry, le_direction = FedOut,
            le_peer_id = pr_server_id peer, le_recorded_at_ms = recorded_ms\<rparr>
          (n\<lparr>nd_projections := pj\<lparr>pj_tx_counter := pj_tx_counter pj + 1, pj_staged := Some (pj_data pj)\<rparr>\<rparr>, []) of
        (res, n', undo) \<Rightarrow> Inr (res, undo, st\<lparr>xs_fed := (xs_fed st)\<lparr>fs_node := n'\<rparr>\<rparr>)))"

definition end_record ::
  "ingress_error + unit \<Rightarrow> ('d node_state \<Rightarrow> 'd node_state) list \<Rightarrow> 'd out_state \<Rightarrow> string option \<times> 'd out_state" where
  "end_record res undo st =
     (let n = fs_node (xs_fed st) in
      case res of
        Inr _ \<Rightarrow>
          let pj = nd_projections n
          in (None, st\<lparr>xs_fed := (xs_fed st)\<lparr>fs_node := n\<lparr>nd_projections :=
                pj\<lparr>pj_data := merge_staged (pj_live pj) (pj_data pj), pj_staged := None\<rparr>\<rparr>\<rparr>\<rparr>)
      | Inl error \<Rightarrow>
          let n1 = undo_all undo n
          in (case error of ErrorThrown m \<Rightarrow> Some m | _ \<Rightarrow> None,
              st\<lparr>xs_fed := (xs_fed st)\<lparr>fs_node := n1\<lparr>nd_projections := (nd_projections n1)\<lparr>pj_staged := None\<rparr>\<rparr>\<rparr>\<rparr>))"

text \<open>With nothing in between, the two turns are the one call.\<close>

lemma record_in_two_turns:
  "record_outbound t e p st =
     (case begin_record t e p st of Inl m \<Rightarrow> (Some m, st) | Inr (res, undo, st1) \<Rightarrow> end_record res undo st1)"
  by (simp add: record_outbound_def begin_record_def end_record_def transaction_def Let_def split: prod.split sum.split)

section \<open>One batch\<close>

datatype 'd phase =
    B_start
  | B_retire "outbox_entry list"
  | B_collect peer_record "outbox_entry list" "(outbox_entry \<times> bytes) list"
  | B_lose peer_record outbox_entry "outbox_entry list" "(outbox_entry \<times> bytes) list"
  | B_send peer_record "(outbox_entry \<times> bytes) list"
  | B_settle peer_record send_outcome "outbox_entry list" "outbox_entry list"
  | B_record peer_record send_outcome "outbox_entry list" outbox_entry "outbox_entry list"
      "ingress_error + unit" "('d node_state \<Rightarrow> 'd node_state) list"
  | B_recorded peer_record send_outcome "outbox_entry list" outbox_entry "outbox_entry list"
  | B_catch peer_record string "outbox_entry list"
  | B_done

definition batch_peer :: "string \<Rightarrow> 'd out_state \<Rightarrow> peer_record option" where
  "batch_peer key st =
     (case dir_get (hd (js_split (CHR ''|'') key)) (fs_peers (xs_fed st)) of
        None \<Rightarrow> None | Some peer \<Rightarrow> if at_least (pr_trust peer) PROBATION then Some peer else None)"

definition batch_plane :: "string \<Rightarrow> int option" where
  "batch_plane key = js_integer_of (hd (tl (js_split (CHR ''|'') key)))"

text \<open>
  The turns of \<open>deliverBatch\<close>. In \<open>B_settle\<close> and the two phases of a record the first list holds all frames, for the
  catch, and the second those not settled yet. In the catch a row and the alert for it are one turn.
\<close>

fun batch_step ::
  "('b, 'd) out_deps \<Rightarrow> int \<Rightarrow> int \<Rightarrow> string \<Rightarrow> outbox_entry list \<Rightarrow> tally \<times> 'd phase \<Rightarrow> 'd out_state
     \<Rightarrow> (tally \<times> 'd phase) \<times> 'd out_state" where
  "batch_step d now_ms rec_ms key entries (ty, B_start) st =
     (case batch_peer key st of
        None \<Rightarrow> ((ty, B_retire entries), st)
      | Some peer \<Rightarrow> ((ty, B_collect peer entries []), st))"
| "batch_step d now_ms rec_ms key entries (ty, B_retire []) st = ((ty, B_done), st)"
| "batch_step d now_ms rec_ms key entries (ty, B_retire (e # es)) st = ((ty, B_retire es), on_outbox (ob_succeed (oe_id e)) st)"
| "batch_step d now_ms rec_ms key entries (ty, B_collect peer [] frames) st =
     (if frames = [] then ((ty, B_done), st) else ((ty, B_send peer frames), st))"
| "batch_step d now_ms rec_ms key entries (ty, B_collect peer (e # es) frames) st =
     (case env_get (oe_content_id e) (nd_envelopes (fs_node (xs_fed st))) of
        None \<Rightarrow> ((ty, B_lose peer e es frames), st)
      | Some s \<Rightarrow> ((ty, B_collect peer es (frames @ [(e, se_raw s)])), st))"
| "batch_step d now_ms rec_ms key entries (ty, B_lose peer e es frames) st =
     ((ty\<lparr>ty_dead_lettered := ty_dead_lettered ty + 1\<rparr>, B_collect peer es frames),
      on_outbox (ob_fail (oe_id e) None ''envelope not in log'') st)"
| "batch_step d now_ms rec_ms key entries (ty, B_send peer frames) st =
     (case with_deadline (od_send d peer (batch_plane key) (map snd frames)) (nullish (od_deliver_timeout_ms d) DEFAULT_DELIVER_TIMEOUT_MS) of
        None \<Rightarrow> ((ty, B_send peer frames), st)
      | Some (Inl message) \<Rightarrow> ((ty, B_catch peer message (map fst frames)), st)
      | Some (Inr outcome) \<Rightarrow> ((ty, B_settle peer outcome (map fst frames) (map fst frames)), st))"
| "batch_step d now_ms rec_ms key entries (ty, B_settle peer outcome fs []) st = ((ty, B_done), st)"
| "batch_step d now_ms rec_ms key entries (ty, B_settle peer outcome fs (e # es)) st =
     (if oe_content_id e \<in> set (so_accepted outcome)
      then (case begin_record rec_ms e peer st of
          Inl message \<Rightarrow> ((ty, B_catch peer message fs), st)
        | Inr (res, undo, st1) \<Rightarrow> ((ty, B_record peer outcome fs e es res undo), st1))
      else (case refuse_frame now_ms outcome (fold (\<lambda>(cid, code, detail). al_set cid (code, detail)) (so_rejected outcome) []) e (ty, st) of
          (ty1, st1) \<Rightarrow> ((ty1, B_settle peer outcome fs es), st1)))"
| "batch_step d now_ms rec_ms key entries (ty, B_record peer outcome fs e es res undo) st =
     (case end_record res undo st of
        (Some message, st1) \<Rightarrow> ((ty, B_catch peer message fs), st1)
      | (None, st1) \<Rightarrow> ((ty, B_recorded peer outcome fs e es), st1))"
| "batch_step d now_ms rec_ms key entries (ty, B_recorded peer outcome fs e es) st =
     ((ty\<lparr>ty_delivered := ty_delivered ty + 1\<rparr>, B_settle peer outcome fs es), on_outbox (ob_succeed (oe_id e)) st)"
| "batch_step d now_ms rec_ms key entries (ty, B_catch peer message []) st = ((ty, B_done), st)"
| "batch_step d now_ms rec_ms key entries (ty, B_catch peer message (e # es)) st =
     (case fail_frame d now_ms peer message e (ty, st) of (ty1, st1) \<Rightarrow> ((ty1, B_catch peer message es), st1))"
| "batch_step d now_ms rec_ms key entries (ty, B_done) st = ((ty, B_done), st)"

section \<open>One pass\<close>

record 'd batch_run =
  br_key :: string
  br_entries :: "outbox_entry list"
  br_at :: "tally \<times> 'd phase"

record 'd drain_run =
  dr_attempted :: nat
  dr_batches :: "'d batch_run list"
  dr_state :: "'d out_state"

definition drain_start :: "('b, 'd) out_deps \<Rightarrow> int \<Rightarrow> 'd out_state \<Rightarrow> 'd drain_run" where
  "drain_start d now_ms st =
     (let leased = lease_pass d now_ms st
      in \<lparr>dr_attempted = length leased,
          dr_batches = map (\<lambda>(key, es). \<lparr>br_key = key, br_entries = es, br_at = (no_tally, B_start)\<rparr>) (batches_of leased),
          dr_state = st\<rparr>)"

datatype 'd drain_event =
    Turn nat int
  | Enqueue "outbox_draft list"
  | Elsewhere "'d fed_state \<Rightarrow> 'd fed_state"

fun drain_step :: "('b, 'd) out_deps \<Rightarrow> int \<Rightarrow> 'd drain_run \<Rightarrow> 'd drain_event \<Rightarrow> 'd drain_run" where
  "drain_step d now_ms dr (Turn i rec_ms) =
     (if i < length (dr_batches dr)
      then (let b = dr_batches dr ! i in
            case batch_step d now_ms rec_ms (br_key b) (br_entries b) (br_at b) (dr_state dr) of
              (s, st) \<Rightarrow> dr\<lparr>dr_batches := (dr_batches dr)[i := b\<lparr>br_at := s\<rparr>], dr_state := st\<rparr>)
      else dr)"
| "drain_step d now_ms dr (Enqueue drafts) = dr\<lparr>dr_state := on_outbox (ob_enqueue drafts) (dr_state dr)\<rparr>"
| "drain_step d now_ms dr (Elsewhere f) = dr\<lparr>dr_state := (dr_state dr)\<lparr>xs_fed := f (xs_fed (dr_state dr))\<rparr>\<rparr>"

definition drain_turns :: "('b, 'd) out_deps \<Rightarrow> int \<Rightarrow> 'd drain_event list \<Rightarrow> 'd drain_run \<Rightarrow> 'd drain_run" where
  "drain_turns d now_ms evs dr = foldl (drain_step d now_ms) dr evs"

text \<open>\<open>Promise.all\<close> resolves when every batch has, and the tallies are added up.\<close>

definition drain_result :: "'d drain_run \<Rightarrow> drain_report option" where
  "drain_result dr =
     (if list_all (\<lambda>b. case snd (br_at b) of B_done \<Rightarrow> True | _ \<Rightarrow> False) (dr_batches dr)
      then Some (fold (\<lambda>b. add_tally (fst (br_at b))) (dr_batches dr)
        \<lparr>dn_attempted = dr_attempted dr, dn_delivered = 0, dn_failed = 0, dn_dead_lettered = 0\<rparr>)
      else None)"

section \<open>Every turn is progress\<close>

fun work :: "nat \<Rightarrow> 'd phase \<Rightarrow> nat" where
  "work n B_start = 6 * n + 5"
| "work n (B_retire es) = length es + 1"
| "work n (B_collect p es frames) = 2 * length es + 4 * (length frames + length es) + 4"
| "work n (B_lose p e es frames) = 2 * length es + 4 * (length frames + length es) + 5"
| "work n (B_send p frames) = 4 * length frames + 3"
| "work n (B_settle p out fs es) = 3 * length es + length fs + 2"
| "work n (B_record p out fs e es res undo) = 3 * length es + length fs + 4"
| "work n (B_recorded p out fs e es) = 3 * length es + length fs + 3"
| "work n (B_catch p m es) = length es + 1"
| "work n B_done = 0"

lemma deadline_passes:
  assumes "0 < ms"
  shows "with_deadline reply ms \<noteq> None"
  using assms by (simp add: with_deadline_def split: option.split)

lemma batch_step_works:
  assumes "0 < nullish (od_deliver_timeout_ms d) DEFAULT_DELIVER_TIMEOUT_MS"
    and "batch_step d now_ms rec_ms key es (ty, ph) st = ((ty', ph'), st')"
  shows "work (length es) ph' \<le> work (length es) ph - 1"
  using assms(2)
  by (cases "(d, now_ms, rec_ms, key, es, (ty, ph), st)" rule: batch_step.cases)
    (auto split: option.splits sum.splits prod.splits if_splits simp: deadline_passes [OF assms(1)])

lemma work_done: "work n ph = 0 \<longleftrightarrow> ph = B_done"
  by (cases ph) simp_all

section \<open>What a turn does to the rows\<close>

text \<open>
  A leased row somewhere between two numbers of further attempts: still queued for the same peer with that many more,
  and due later once it has failed; or dead-lettered; or taken out for a reason, \<open>gone\<close>.
\<close>

definition row_at :: "int \<Rightarrow> bool \<Rightarrow> outbox_entry \<Rightarrow> nat \<times> nat \<Rightarrow> outbox \<Rightarrow> bool" where
  "row_at now_ms gone e b ob \<longleftrightarrow>
     (case map_of (ob_entries ob) (oe_id e) of
        None \<Rightarrow> map_of (ob_dead ob) (oe_id e) \<noteq> None \<or> gone
      | Some r \<Rightarrow> oe_content_id r = oe_content_id e \<and> oe_peer_id r = oe_peer_id e \<and> oe_plane r = oe_plane e
          \<and> oe_priority r = oe_priority e
          \<and> oe_attempts e + int (fst b) \<le> oe_attempts r \<and> oe_attempts r \<le> oe_attempts e + int (snd b)
          \<and> (0 < fst b \<longrightarrow> now_ms < oe_next_attempt_at_ms r \<and> oe_attempts e + 1 < MAX_DELIVERY_ATTEMPTS))"

lemma row_weaken: "row_at t gone e (lo, hi) ob \<Longrightarrow> lo' \<le> lo \<Longrightarrow> hi \<le> hi' \<Longrightarrow> (gone \<Longrightarrow> gone') \<Longrightarrow> row_at t gone' e (lo', hi') ob"
  by (auto simp: row_at_def split: option.splits)

lemma row_cong:
  "map_of (ob_entries ob') (oe_id e) = map_of (ob_entries ob) (oe_id e) \<Longrightarrow> map_of (ob_dead ob') (oe_id e) = map_of (ob_dead ob) (oe_id e)
     \<Longrightarrow> row_at t gone e b ob' = row_at t gone e b ob"
  by (simp only: row_at_def)

lemma row_fail:
  assumes "row_at t gone e (lo, hi) ob" and "\<And>n. next_at = Some n \<Longrightarrow> t < n \<and> oe_attempts e + 1 < MAX_DELIVERY_ATTEMPTS"
  shows "row_at t gone e (lo + 1, hi + 1) (ob_fail (oe_id e) next_at msg ob)"
  using assms by (auto simp: row_at_def ob_fail_def Let_def split: option.splits)

lemma row_succeed: "row_at t gone e b' ob \<Longrightarrow> gone \<Longrightarrow> row_at t gone e b (ob_succeed (oe_id e) ob)"
  by (simp add: row_at_def ob_succeed_def)

text \<open>What a turn may do to the queue: nothing, or one change of one row of its batch.\<close>

definition touches :: "string set \<Rightarrow> outbox \<Rightarrow> outbox \<Rightarrow> bool" where
  "touches ids ob ob' \<longleftrightarrow> (\<forall>k. k \<notin> ids \<longrightarrow> map_of (ob_entries ob') k = map_of (ob_entries ob) k \<and> map_of (ob_dead ob') k = map_of (ob_dead ob) k)"

lemma touches_simps [simp]:
  "touches ids ob ob" "touches {i} ob (ob_succeed i ob)" "touches {i} ob (ob_fail i n m ob)"
  by (auto simp: touches_def ob_succeed_def ob_fail_def Let_def split: option.split)

lemma touches_mono: "touches A ob ob' \<Longrightarrow> A \<subseteq> B \<Longrightarrow> touches B ob ob'"
  unfolding touches_def by blast

lemma row_untouched: "touches ids ob ob' \<Longrightarrow> oe_id e \<notin> ids \<Longrightarrow> row_at t gone e b ob' = row_at t gone e b ob"
  by (rule row_cong) (simp_all add: touches_def)

lemma refuse_frame_fails:
  assumes "0 \<le> oe_attempts e"
  obtains ty' next_at msg where
    "refuse_frame now_ms outcome rej e (ty, st) = (ty', on_outbox (ob_fail (oe_id e) next_at msg) st)"
    "\<And>n. next_at = Some n \<Longrightarrow> now_ms < n \<and> oe_attempts e + 1 < MAX_DELIVERY_ATTEMPTS"
proof -
  let ?retry = "next_retry (oe_attempts e) now_ms"
  have later: "map_option (\<lambda>t. max t (now_ms + so_backpressure_hint_ms outcome)) (rd_next_attempt_at_ms ?retry) = Some n
      \<Longrightarrow> now_ms < n \<and> oe_attempts e + 1 < MAX_DELIVERY_ATTEMPTS" for n
    using next_retry_later [OF assms, of now_ms] by (cases "rd_next_attempt_at_ms ?retry") (auto simp: less_max_iff_disj)
  show ?thesis
  proof (cases "case map_of rej (oe_content_id e) of Some (code, _) \<Rightarrow> code \<notin> set RETRYABLE_REJECTIONS | None \<Rightarrow> False")
    case True
    then show ?thesis
      by (intro that [of _ None]) (simp_all add: refuse_frame_def Let_def)
  next
    case False
    define msg where "msg = (case map_of rej (oe_content_id e) of Some (code, detail) \<Rightarrow> code @ '': '' @ detail | None \<Rightarrow> ''peer did not acknowledge'')"
    define ty1 where "ty1 = (if rd_dead_lettered ?retry then ty\<lparr>ty_dead_lettered := ty_dead_lettered ty + 1\<rparr>
        else ty\<lparr>ty_failed := ty_failed ty + 1\<rparr>)"
    have "refuse_frame now_ms outcome rej e (ty, st) = (ty1, on_outbox (ob_fail (oe_id e)
        (map_option (\<lambda>t. max t (now_ms + so_backpressure_hint_ms outcome)) (rd_next_attempt_at_ms ?retry)) msg) st)"
      using False by (simp add: refuse_frame_def Let_def msg_def ty1_def)
    then show ?thesis using later by (rule that)
  qed
qed

lemma fail_frame_row:
  "xs_outbox (snd (fail_frame d now_ms peer msg e (ty, st)))
     = ob_fail (oe_id e) (rd_next_attempt_at_ms (next_retry (oe_attempts e) now_ms)) msg (xs_outbox st)"
  by (simp add: fail_frame_def Let_def alert_def)

text \<open>How many further attempts a row of the batch may have in each phase.\<close>

fun stage :: "'d phase \<Rightarrow> outbox_entry \<Rightarrow> nat \<times> nat" where
  "stage B_start e = (0, 0)"
| "stage (B_retire es) e = (if e \<in> set es then (0, 0) else (1, 2))"
| "stage (B_collect p es frames) e = (if e \<in> set es \<union> fst ` set frames then (0, 0) else (1, 2))"
| "stage (B_lose p x es frames) e = (if e = x \<or> e \<in> set es \<union> fst ` set frames then (0, 0) else (1, 2))"
| "stage (B_send p frames) e = (if e \<in> fst ` set frames then (0, 0) else (1, 2))"
| "stage (B_settle p out fs es) e = (if e \<in> set es then (0, 0) else if e \<in> set fs then (1, 1) else (1, 2))"
| "stage (B_record p out fs x es res undo) e = (if e = x \<or> e \<in> set es then (0, 0) else if e \<in> set fs then (1, 1) else (1, 2))"
| "stage (B_recorded p out fs x es) e = (if e = x \<or> e \<in> set es then (0, 0) else if e \<in> set fs then (1, 1) else (1, 2))"
| "stage (B_catch p m es) e = (if e \<in> set es then (0, 1) else (1, 2))"
| "stage B_done e = (1, 2)"

text \<open>The lists a phase holds are rows of the batch, each once; a batch that retires has lost its peer, and an outcome it
  settles is an answer of the peer.\<close>

fun phase_ok :: "(peer_record \<Rightarrow> bool) \<Rightarrow> (outbox_entry \<Rightarrow> bool) \<Rightarrow> outbox_entry list \<Rightarrow> 'd phase \<Rightarrow> bool" where
  "phase_ok seen gone entries (B_retire es) \<longleftrightarrow> distinct es \<and> set es \<subseteq> set entries \<and> (\<forall>e\<in>set entries. gone e)"
| "phase_ok seen gone entries (B_collect p es frames) \<longleftrightarrow> seen p \<and> distinct (es @ map fst frames) \<and> set es \<union> fst ` set frames \<subseteq> set entries"
| "phase_ok seen gone entries (B_lose p x es frames) \<longleftrightarrow>
     seen p \<and> distinct (x # es @ map fst frames) \<and> x \<in> set entries \<and> set es \<union> fst ` set frames \<subseteq> set entries"
| "phase_ok seen gone entries (B_send p frames) \<longleftrightarrow> seen p \<and> distinct (map fst frames) \<and> fst ` set frames \<subseteq> set entries"
| "phase_ok seen gone entries (B_settle p out fs es) \<longleftrightarrow> distinct fs \<and> set fs \<subseteq> set entries \<and> distinct es \<and> set es \<subseteq> set fs
     \<and> (\<forall>e\<in>set entries. oe_content_id e \<in> set (so_accepted out) \<longrightarrow> gone e)"
| "phase_ok seen gone entries (B_record p out fs x es res undo) \<longleftrightarrow> distinct fs \<and> set fs \<subseteq> set entries \<and> distinct (x # es)
     \<and> x \<in> set fs \<and> set es \<subseteq> set fs \<and> gone x \<and> (\<forall>e\<in>set entries. oe_content_id e \<in> set (so_accepted out) \<longrightarrow> gone e)"
| "phase_ok seen gone entries (B_recorded p out fs x es) \<longleftrightarrow> distinct fs \<and> set fs \<subseteq> set entries \<and> distinct (x # es)
     \<and> x \<in> set fs \<and> set es \<subseteq> set fs \<and> gone x \<and> (\<forall>e\<in>set entries. oe_content_id e \<in> set (so_accepted out) \<longrightarrow> gone e)"
| "phase_ok seen gone entries (B_catch p m es) \<longleftrightarrow> distinct es \<and> set es \<subseteq> set entries"
| "phase_ok seen gone entries _ \<longleftrightarrow> True"

definition rows_at :: "int \<Rightarrow> (outbox_entry \<Rightarrow> bool) \<Rightarrow> outbox_entry list \<Rightarrow> 'd phase \<Rightarrow> outbox \<Rightarrow> bool" where
  "rows_at now_ms gone entries ph ob \<longleftrightarrow> (\<forall>e\<in>set entries. row_at now_ms (gone e) e (stage ph e) ob)"

text \<open>A turn that leaves the queue alone, and one that changes the row \<open>x\<close>.\<close>

lemma rows_quiet:
  assumes "rows_at t gone entries ph ob"
    and "\<And>e. e \<in> set entries \<Longrightarrow> fst (stage ph' e) \<le> fst (stage ph e) \<and> snd (stage ph e) \<le> snd (stage ph' e)"
  shows "rows_at t gone entries ph' ob"
  unfolding rows_at_def
proof
  fix e assume e: "e \<in> set entries"
  with assms(1) have "row_at t (gone e) e (fst (stage ph e), snd (stage ph e)) ob" by (simp add: rows_at_def)
  from row_weaken [OF this, of "fst (stage ph' e)" "snd (stage ph' e)"] assms(2) [OF e]
  show "row_at t (gone e) e (stage ph' e) ob" by simp
qed

lemma rows_change:
  assumes "rows_at t gone entries ph ob" and "distinct (map oe_id entries)" and "x \<in> set entries" and "touches {oe_id x} ob ob'"
    and "row_at t (gone x) x (stage ph' x) ob'" and "\<And>e. e \<noteq> x \<Longrightarrow> stage ph' e = stage ph e"
  shows "rows_at t gone entries ph' ob'"
  unfolding rows_at_def
proof
  fix e assume e: "e \<in> set entries"
  show "row_at t (gone e) e (stage ph' e) ob'"
  proof (cases "e = x")
    case False
    with e assms(2,3) have "oe_id e \<notin> {oe_id x}" by (auto simp: distinct_map inj_on_def)
    with row_untouched [OF assms(4) this] assms(1,6) False e show ?thesis by (simp add: rows_at_def)
  qed (simp add: assms(5))
qed

lemma batch_turn:
  assumes ids: "distinct (map oe_id entries)" and nonneg: "\<forall>e\<in>set entries. 0 \<le> oe_attempts e"
    and ok: "phase_ok seen gone entries ph" and rows: "rows_at now_ms gone entries ph (xs_outbox st)"
    and retired: "batch_peer key st = None \<Longrightarrow> \<forall>e\<in>set entries. gone e"
    and met: "\<And>peer. batch_peer key st = Some peer \<Longrightarrow> seen peer"
    and answered: "\<And>peer raws out. seen peer \<Longrightarrow> sr_result (od_send d peer (batch_plane key) raws) = Inr out
      \<Longrightarrow> \<forall>e\<in>set entries. oe_content_id e \<in> set (so_accepted out) \<longrightarrow> gone e"
    and step: "batch_step d now_ms rec_ms key entries (ty, ph) st = ((ty', ph'), st')"
  shows "phase_ok seen gone entries ph' \<and> rows_at now_ms gone entries ph' (xs_outbox st')
    \<and> touches (oe_id ` set entries) (xs_outbox st) (xs_outbox st')"
proof -
  have dist: "distinct entries" using ids by (simp add: distinct_map)
  have quiet: ?thesis
    if "phase_ok seen gone entries ph'" "xs_outbox st' = xs_outbox st"
      "\<And>e. e \<in> set entries \<Longrightarrow> fst (stage ph' e) \<le> fst (stage ph e) \<and> snd (stage ph e) \<le> snd (stage ph' e)"
    using that rows_quiet [OF rows, of ph'] by simp
  have change: ?thesis
    if "x \<in> set entries" "phase_ok seen gone entries ph'" "touches {oe_id x} (xs_outbox st) (xs_outbox st')"
      "row_at now_ms (gone x) x (stage ph' x) (xs_outbox st')" "\<And>e. e \<noteq> x \<Longrightarrow> stage ph' e = stage ph e" for x
    using that rows_change [OF rows ids that(1,3,4,5)] touches_mono [OF that(3), of "oe_id ` set entries"] by simp
  have row: "x \<in> set entries \<Longrightarrow> row_at now_ms (gone x) x (stage ph x) (xs_outbox st)" for x
    using rows by (simp add: rows_at_def)
  show ?thesis
  proof (cases ph)
    case B_start
    show ?thesis
    proof (cases "batch_peer key st")
      case None
      with B_start step have "ph' = B_retire entries" "st' = st" by simp_all
      with retired [OF None] B_start dist show ?thesis by (intro quiet) simp_all
    next
      case (Some peer)
      with B_start step have "ph' = B_collect peer entries []" "st' = st" by simp_all
      with B_start dist met [OF Some] show ?thesis by (intro quiet) simp_all
    qed
  next
    case (B_retire es)
    show ?thesis
    proof (cases es)
      case Nil
      with B_retire step have "ph' = B_done" "st' = st" by simp_all
      with B_retire Nil show ?thesis by (intro quiet) simp_all
    next
      case (Cons x xs)
      with B_retire step have eq: "ph' = B_retire xs" "xs_outbox st' = ob_succeed (oe_id x) (xs_outbox st)" by auto
      show ?thesis
        by (rule change [of x]) (use B_retire Cons ok eq row_succeed [OF row] in auto)
    qed
  next
    case (B_collect peer es frames)
    show ?thesis
    proof (cases es)
      case Nil
      with B_collect step have "ph' = (if frames = [] then B_done else B_send peer frames)" "st' = st" by (auto split: if_splits)
      with B_collect Nil ok show ?thesis by (intro quiet) auto
    next
      case (Cons x xs)
      show ?thesis
      proof (cases "env_get (oe_content_id x) (nd_envelopes (fs_node (xs_fed st)))")
        case None
        with B_collect Cons step have "ph' = B_lose peer x xs frames" "st' = st" by auto
        with B_collect Cons ok show ?thesis by (intro quiet) auto
      next
        case (Some e)
        with B_collect Cons step have "ph' = B_collect peer xs (frames @ [(x, se_raw e)])" "st' = st" by auto
        with B_collect Cons ok show ?thesis by (intro quiet) auto
      qed
    qed
  next
    case (B_lose peer x es frames)
    with step have eq: "ph' = B_collect peer es frames"
      "xs_outbox st' = ob_fail (oe_id x) None ''envelope not in log'' (xs_outbox st)" by auto
    have x: "x \<in> set entries" using B_lose ok by simp
    have "row_at now_ms (gone x) x (0, 0) (xs_outbox st)" using row [OF x] B_lose by simp
    from row_fail [OF this, of None "''envelope not in log''"]
    have "row_at now_ms (gone x) x (1, 1) (xs_outbox st')" by (simp add: eq)
    from row_weaken [OF this, of 1 2] have "row_at now_ms (gone x) x (1, 2) (xs_outbox st')" by simp
    with B_lose ok eq x show ?thesis by (intro change [of x]) auto
  next
    case (B_send peer frames)
    show ?thesis
    proof (cases "with_deadline (od_send d peer (batch_plane key) (map snd frames)) (nullish (od_deliver_timeout_ms d) DEFAULT_DELIVER_TIMEOUT_MS)")
      case None
      with B_send step have "ph' = ph" "st' = st" by auto
      with ok show ?thesis by (intro quiet) simp_all
    next
      case (Some r)
      show ?thesis
      proof (cases r)
        case (Inl m)
        with Some B_send step have "ph' = B_catch peer m (map fst frames)" "st' = st" by auto
        with B_send ok show ?thesis by (intro quiet) auto
      next
        case (Inr out)
        with Some have "sr_result (od_send d peer (batch_plane key) (map snd frames)) = Inr out"
          by (auto simp: with_deadline_def split: if_splits option.splits)
        moreover have "seen peer" using B_send ok by simp
        ultimately have acc: "\<forall>e\<in>set entries. oe_content_id e \<in> set (so_accepted out) \<longrightarrow> gone e"
          using answered by blast
        from Inr Some B_send step have "ph' = B_settle peer out (map fst frames) (map fst frames)" "st' = st" by auto
        with B_send ok acc show ?thesis by (intro quiet) auto
      qed
    qed
  next
    case (B_settle peer out fs es)
    show ?thesis
    proof (cases es)
      case Nil
      with B_settle step have "ph' = B_done" "st' = st" by simp_all
      with B_settle Nil show ?thesis by (intro quiet) simp_all
    next
      case (Cons x xs)
      have x: "x \<in> set entries" "x \<in> set fs" using B_settle Cons ok by auto
      show ?thesis
      proof (cases "oe_content_id x \<in> set (so_accepted out)")
        case acc: True
        show ?thesis
        proof (cases "begin_record rec_ms x peer st")
          case (Inl m)
          with B_settle Cons acc step have "ph' = B_catch peer m fs" "st' = st" by auto
          with B_settle Cons ok show ?thesis by (intro quiet) auto
        next
          case (Inr r)
          obtain res undo st1 where r: "r = (res, undo, st1)" by (cases r)
          with Inr B_settle Cons acc step have "ph' = B_record peer out fs x xs res undo" "st' = st1" by auto
          moreover have "xs_outbox st1 = xs_outbox st"
            using Inr r by (auto simp: begin_record_def Let_def split: if_splits prod.splits)
          ultimately show ?thesis using B_settle Cons ok acc x by (intro quiet) auto
        qed
      next
        case no: False
        obtain ty1 next_at msg where f: "refuse_frame now_ms out
            (fold (\<lambda>(cid, code, detail). al_set cid (code, detail)) (so_rejected out) []) x (ty, st)
            = (ty1, on_outbox (ob_fail (oe_id x) next_at msg) st)"
          "\<And>n. next_at = Some n \<Longrightarrow> now_ms < n \<and> oe_attempts x + 1 < MAX_DELIVERY_ATTEMPTS"
          by (rule refuse_frame_fails [where e = x and now_ms = now_ms and outcome = out and ty = ty and st = st
              and rej = "fold (\<lambda>(cid, code, detail). al_set cid (code, detail)) (so_rejected out) []"])
            (use nonneg x(1) in \<open>blast intro: that\<close>)+
        with B_settle Cons no step have eq: "ph' = B_settle peer out fs xs" "xs_outbox st' = ob_fail (oe_id x) next_at msg (xs_outbox st)"
          by auto
        have "row_at now_ms (gone x) x (0, 0) (xs_outbox st)" using row [OF x(1)] B_settle Cons by simp
        from row_fail [OF this f(2), where msg = msg] have r: "row_at now_ms (gone x) x (1, 1) (xs_outbox st')" by (simp add: eq)
        have "x \<notin> set xs" using ok B_settle Cons by simp
        with B_settle Cons ok eq x r show ?thesis by (intro change [of x]) auto
      qed
    qed
  next
    case (B_record peer out fs x es res undo)
    obtain m st1 where e: "end_record res undo st = (m, st1)" by (rule prod.exhaust)
    have same: "xs_outbox st1 = xs_outbox st" using e by (auto simp: end_record_def Let_def split: sum.splits)
    show ?thesis
    proof (cases m)
      case None
      with B_record step e have "ph' = B_recorded peer out fs x es" "st' = st1" by auto
      with B_record ok same show ?thesis by (intro quiet) auto
    next
      case (Some msg)
      with B_record step e have "ph' = B_catch peer msg fs" "st' = st1" by auto
      with B_record ok same show ?thesis by (intro quiet) auto
    qed
  next
    case (B_recorded peer out fs x es)
    with step have eq: "ph' = B_settle peer out fs es" "xs_outbox st' = ob_succeed (oe_id x) (xs_outbox st)" by auto
    have x: "x \<in> set entries" "gone x" using B_recorded ok by auto
    show ?thesis
      by (rule change [of x]) (use B_recorded ok eq x row_succeed [OF row [OF x(1)] x(2)] in auto)
  next
    case (B_catch peer m es)
    show ?thesis
    proof (cases es)
      case Nil
      with B_catch step have "ph' = B_done" "st' = st" by simp_all
      with B_catch Nil show ?thesis by (intro quiet) simp_all
    next
      case (Cons x xs)
      obtain ty1 st1 where f: "fail_frame d now_ms peer m x (ty, st) = (ty1, st1)" by (rule prod.exhaust)
      let ?next = "rd_next_attempt_at_ms (next_retry (oe_attempts x) now_ms)"
      have x: "x \<in> set entries" using B_catch Cons ok by auto
      from B_catch Cons step f have eq: "ph' = B_catch peer m xs" "st' = st1" by auto
      with fail_frame_row [of d now_ms peer m x ty st] f have o: "xs_outbox st' = ob_fail (oe_id x) ?next m (xs_outbox st)" by simp
      have "row_at now_ms (gone x) x (0, 1) (xs_outbox st)" using row [OF x] B_catch Cons by simp
      from row_fail [OF this, of ?next m] next_retry_later nonneg x
      have "row_at now_ms (gone x) x (0 + 1, 1 + 1) (xs_outbox st')" unfolding o by blast
      then have r: "row_at now_ms (gone x) x (1, 2) (xs_outbox st')" by (simp add: numeral_2_eq_2)
      have "x \<notin> set xs" using ok B_catch Cons by simp
      with B_catch Cons ok eq o x r show ?thesis by (intro change [of x]) auto
    qed
  next
    case B_done
    with step have "ph' = B_done" "st' = st" by simp_all
    with B_done show ?thesis by (intro quiet) simp_all
  qed
qed

section \<open>A pass under any schedule\<close>

definition turns :: "nat \<Rightarrow> 'd drain_event list \<Rightarrow> nat" where
  "turns i evs = length (filter (\<lambda>ev. case ev of Turn j _ \<Rightarrow> j = i | _ \<Rightarrow> False) evs)"

definition seen_peer :: "('b, 'd) out_deps \<Rightarrow> int \<Rightarrow> 'd drain_run \<Rightarrow> 'd drain_event list \<Rightarrow> string \<Rightarrow> peer_record \<Rightarrow> bool" where
  "seen_peer d now_ms dr evs key p \<longleftrightarrow>
     (\<exists>evs1 evs2. evs = evs1 @ evs2 \<and> batch_peer key (dr_state (drain_turns d now_ms evs1 dr)) = Some p)"

text \<open>Why a row may be in neither queue afterwards: its peer, as the batch found it in the directory, answered that it
  accepts the row; or the peer was unknown or blocked at some moment.\<close>

definition taken_out :: "('b, 'd) out_deps \<Rightarrow> int \<Rightarrow> 'd drain_run \<Rightarrow> 'd drain_event list \<Rightarrow> string \<Rightarrow> outbox_entry \<Rightarrow> bool" where
  "taken_out d now_ms dr evs key e \<longleftrightarrow>
     (\<exists>p raws out. seen_peer d now_ms dr evs key p \<and> sr_result (od_send d p (batch_plane key) raws) = Inr out
        \<and> oe_content_id e \<in> set (so_accepted out))
     \<or> (\<exists>evs1 evs2. evs = evs1 @ evs2 \<and> batch_peer key (dr_state (drain_turns d now_ms evs1 dr)) = None)"

lemma seen_peer_later: "seen_peer d now_ms dr evs key p \<Longrightarrow> seen_peer d now_ms dr (evs @ [ev]) key p"
  unfolding seen_peer_def by (metis append.assoc)

lemma taken_out_later: "taken_out d now_ms dr evs key e \<Longrightarrow> taken_out d now_ms dr (evs @ [ev]) key e"
  unfolding taken_out_def using seen_peer_later by (metis append.assoc)

lemma phase_ok_mono:
  "phase_ok m g entries ph \<Longrightarrow> (\<And>p. m p \<Longrightarrow> m' p) \<Longrightarrow> (\<And>e. g e \<Longrightarrow> g' e) \<Longrightarrow> phase_ok m' g' entries ph"
  by (cases ph) auto

lemma rows_at_mono: "rows_at t g entries ph ob \<Longrightarrow> (\<And>e. g e \<Longrightarrow> g' e) \<Longrightarrow> rows_at t g' entries ph ob"
  unfolding rows_at_def using row_weaken by (metis order_refl prod.collapse)

text \<open>The batches keep their keys and rows; only their places move.\<close>

lemma drain_step_static:
  "length (dr_batches (drain_step d t dr ev)) = length (dr_batches dr)"
  "i < length (dr_batches dr) \<Longrightarrow> br_key (dr_batches (drain_step d t dr ev) ! i) = br_key (dr_batches dr ! i)"
  "i < length (dr_batches dr) \<Longrightarrow> br_entries (dr_batches (drain_step d t dr ev) ! i) = br_entries (dr_batches dr ! i)"
  "dr_attempted (drain_step d t dr ev) = dr_attempted dr"
  by (cases "(d, t, dr, ev)" rule: drain_step.cases; auto simp: Let_def nth_list_update split: prod.split)+

lemma drain_turns_snoc: "drain_turns d t (evs @ [ev]) dr = drain_step d t (drain_turns d t evs dr) ev"
  by (simp add: drain_turns_def)

lemma drain_turns_static:
  "length (dr_batches (drain_turns d t evs dr)) = length (dr_batches dr)"
  "i < length (dr_batches dr) \<Longrightarrow> br_key (dr_batches (drain_turns d t evs dr) ! i) = br_key (dr_batches dr ! i)"
  "i < length (dr_batches dr) \<Longrightarrow> br_entries (dr_batches (drain_turns d t evs dr) ! i) = br_entries (dr_batches dr ! i)"
  "dr_attempted (drain_turns d t evs dr) = dr_attempted dr"
proof (induction evs rule: rev_induct)
  case (snoc ev evs)
  { case 1 with snoc show ?case by (simp add: drain_turns_snoc drain_step_static) }
  { case 2 with snoc show ?case by (simp add: drain_turns_snoc drain_step_static) }
  { case 3 with snoc show ?case by (simp add: drain_turns_snoc drain_step_static) }
  { case 4 with snoc show ?case by (simp add: drain_turns_snoc drain_step_static) }
qed (simp_all add: drain_turns_def)

text \<open>Work left in a batch: its own turns use it up, and no other event adds to it.\<close>

definition left :: "nat \<Rightarrow> 'd drain_run \<Rightarrow> nat" where
  "left i dr = work (length (br_entries (dr_batches dr ! i))) (snd (br_at (dr_batches dr ! i)))"

lemma left_step:
  assumes "0 < nullish (od_deliver_timeout_ms d) DEFAULT_DELIVER_TIMEOUT_MS" and "i < length (dr_batches dr)"
  shows "left i (drain_step d t dr ev) \<le> left i dr - turns i [ev]"
proof (cases ev)
  case (Turn j r)
  show ?thesis
  proof (cases "j = i")
    case True
    obtain s st where b: "batch_step d t r (br_key (dr_batches dr ! i)) (br_entries (dr_batches dr ! i)) (br_at (dr_batches dr ! i)) (dr_state dr) = (s, st)"
      by (rule prod.exhaust)
    have "work (length (br_entries (dr_batches dr ! i))) (snd s) \<le> work (length (br_entries (dr_batches dr ! i))) (snd (br_at (dr_batches dr ! i))) - 1"
      by (rule batch_step_works [OF assms(1), of t r "br_key (dr_batches dr ! i)" _ "fst (br_at (dr_batches dr ! i))" _ "dr_state dr" "fst s" _ st])
        (simp add: b)
    with b Turn True assms(2) show ?thesis by (simp add: left_def turns_def Let_def)
  next
    case False
    with Turn show ?thesis by (auto simp: left_def turns_def Let_def split: prod.split)
  qed
qed (simp_all add: left_def turns_def)

lemma left_after:
  assumes "0 < nullish (od_deliver_timeout_ms d) DEFAULT_DELIVER_TIMEOUT_MS" and "i < length (dr_batches dr)"
  shows "left i (drain_turns d t evs dr) \<le> left i dr - turns i evs"
proof (induction evs rule: rev_induct)
  case (snoc ev evs)
  have "turns i (evs @ [ev]) = turns i evs + turns i [ev]" by (simp add: turns_def)
  moreover have "left i (drain_step d t (drain_turns d t evs dr) ev) \<le> left i (drain_turns d t evs dr) - turns i [ev]"
    by (rule left_step [OF assms(1)]) (use assms(2) in \<open>simp add: drain_turns_static\<close>)
  ultimately show ?case using snoc by (simp add: drain_turns_snoc)
qed (simp add: drain_turns_def turns_def)

text \<open>What holds of every batch all along.\<close>

definition batch_sound :: "('b, 'd) out_deps \<Rightarrow> int \<Rightarrow> 'd drain_run \<Rightarrow> 'd drain_event list \<Rightarrow> 'd drain_run \<Rightarrow> nat \<Rightarrow> bool" where
  "batch_sound d now_ms dr0 evs dr i \<longleftrightarrow>
     (let b = dr_batches dr ! i; gone = taken_out d now_ms dr0 evs (br_key b)
      in phase_ok (seen_peer d now_ms dr0 evs (br_key b)) gone (br_entries b) (snd (br_at b)) \<and> rows_at now_ms gone (br_entries b) (snd (br_at b)) (xs_outbox (dr_state dr)))"

definition separate :: "'d drain_run \<Rightarrow> bool" where
  "separate dr \<longleftrightarrow> (\<forall>i<length (dr_batches dr). distinct (map oe_id (br_entries (dr_batches dr ! i)))
       \<and> (\<forall>e\<in>set (br_entries (dr_batches dr ! i)). 0 \<le> oe_attempts e))
     \<and> (\<forall>i j. i < length (dr_batches dr) \<longrightarrow> j < length (dr_batches dr) \<longrightarrow> i \<noteq> j
       \<longrightarrow> oe_id ` set (br_entries (dr_batches dr ! i)) \<inter> oe_id ` set (br_entries (dr_batches dr ! j)) = {})"

lemma rows_untouched:
  assumes "touches ids ob ob'" and "oe_id ` set entries \<inter> ids = {}"
  shows "rows_at t gone entries ph ob' = rows_at t gone entries ph ob"
  unfolding rows_at_def by (rule ball_cong [OF refl], rule row_untouched [OF assms(1)]) (use assms(2) in blast)

lemma enqueue_touches:
  "touches ((\<lambda>x. outbox_id (oe_content_id x) (oe_peer_id x)) ` set drafts) ob (ob_enqueue drafts ob)"
proof -
  have one: "touches {outbox_id (oe_content_id x) (oe_peer_id x)} ob (ob_enqueue_one x ob)" for x :: outbox_draft and ob
    by (auto simp: touches_def ob_enqueue_one_def Let_def)
  show ?thesis unfolding ob_enqueue_def
  proof (induction drafts arbitrary: ob)
    case (Cons x xs)
    with one [of x ob] show ?case by (auto simp: touches_def)
  qed simp
qed

lemma batches_sound:
  assumes sep: "separate dr0" and start: "\<forall>i<length (dr_batches dr0). batch_sound d now_ms dr0 [] dr0 i"
    and foreign: "\<forall>drafts. Enqueue drafts \<in> set evs \<longrightarrow> (\<forall>x\<in>set drafts. \<forall>i<length (dr_batches dr0).
      outbox_id (oe_content_id x) (oe_peer_id x) \<notin> oe_id ` set (br_entries (dr_batches dr0 ! i)))"
  shows "\<forall>i<length (dr_batches dr0). batch_sound d now_ms dr0 evs (drain_turns d now_ms evs dr0) i"
  using foreign
proof (induction evs rule: rev_induct)
  case Nil
  with start show ?case by (simp add: drain_turns_def)
next
  case (snoc ev evs)
  let ?dr = "drain_turns d now_ms evs dr0"
  note static = drain_turns_static(1) [of d now_ms evs dr0] drain_turns_static(2,3) [of _ dr0 d now_ms evs]
  have IH: "batch_sound d now_ms dr0 evs ?dr i" if "i < length (dr_batches dr0)" for i
    using snoc that by simp
  have later: "phase_ok (seen_peer d now_ms dr0 (evs @ [ev]) (br_key (dr_batches dr0 ! i)))
        (taken_out d now_ms dr0 (evs @ [ev]) (br_key (dr_batches dr0 ! i))) (br_entries (dr_batches dr0 ! i)) (snd (br_at (dr_batches ?dr ! i)))
      \<and> rows_at now_ms (taken_out d now_ms dr0 (evs @ [ev]) (br_key (dr_batches dr0 ! i))) (br_entries (dr_batches dr0 ! i))
          (snd (br_at (dr_batches ?dr ! i))) (xs_outbox (dr_state ?dr))" if "i < length (dr_batches dr0)" for i
  proof -
    let ?b = "dr_batches ?dr ! i" and ?old = "taken_out d now_ms dr0 evs (br_key (dr_batches dr0 ! i))"
      and ?new = "taken_out d now_ms dr0 (evs @ [ev]) (br_key (dr_batches dr0 ! i))"
    have mono: "?old e \<Longrightarrow> ?new e" for e by (rule taken_out_later)
    have "phase_ok (seen_peer d now_ms dr0 evs (br_key (dr_batches dr0 ! i))) ?old (br_entries (dr_batches dr0 ! i)) (snd (br_at ?b))"
      "rows_at now_ms ?old (br_entries (dr_batches dr0 ! i)) (snd (br_at ?b)) (xs_outbox (dr_state ?dr))"
      using IH [OF that] unfolding batch_sound_def Let_def static(2) [OF that] static(3) [OF that] by blast+
    from phase_ok_mono [OF this(1) seen_peer_later mono] rows_at_mono [OF this(2) mono] show ?thesis by (rule conjI)
  qed
  show ?case
  proof (intro allI impI)
    fix i assume i: "i < length (dr_batches dr0)"
    let ?gone = "taken_out d now_ms dr0 (evs @ [ev]) (br_key (dr_batches dr0 ! i))"
    show "batch_sound d now_ms dr0 (evs @ [ev]) (drain_turns d now_ms (evs @ [ev]) dr0) i"
    proof (cases ev)
      case (Turn j r)
      show ?thesis
      proof (cases "j < length (dr_batches dr0)")
        case j: True
        let ?gj = "taken_out d now_ms dr0 (evs @ [ev]) (br_key (dr_batches dr0 ! j))"
        obtain ty ph where at: "br_at (dr_batches ?dr ! j) = (ty, ph)" by (rule prod.exhaust)
        obtain ty' ph' st' where b: "batch_step d now_ms r (br_key (dr_batches dr0 ! j)) (br_entries (dr_batches dr0 ! j)) (ty, ph) (dr_state ?dr)
            = ((ty', ph'), st')" by (metis surj_pair)
        have sj: "distinct (map oe_id (br_entries (dr_batches dr0 ! j)))" "\<forall>e\<in>set (br_entries (dr_batches dr0 ! j)). 0 \<le> oe_attempts e"
          using sep j by (simp_all add: separate_def)
        let ?sj = "seen_peer d now_ms dr0 (evs @ [ev]) (br_key (dr_batches dr0 ! j))"
        have turn: "phase_ok ?sj ?gj (br_entries (dr_batches dr0 ! j)) ph' \<and> rows_at now_ms ?gj (br_entries (dr_batches dr0 ! j)) ph' (xs_outbox st')
            \<and> touches (oe_id ` set (br_entries (dr_batches dr0 ! j))) (xs_outbox (dr_state ?dr)) (xs_outbox st')"
        proof (rule batch_turn [OF sj _ _ _ _ _ b])
          show "phase_ok ?sj ?gj (br_entries (dr_batches dr0 ! j)) ph"
            "rows_at now_ms ?gj (br_entries (dr_batches dr0 ! j)) ph (xs_outbox (dr_state ?dr))" using later [OF j] at by simp_all
          show "\<forall>e\<in>set (br_entries (dr_batches dr0 ! j)). ?gj e" if "batch_peer (br_key (dr_batches dr0 ! j)) (dr_state ?dr) = None"
            using that unfolding taken_out_def by blast
          show "\<forall>e\<in>set (br_entries (dr_batches dr0 ! j)). oe_content_id e \<in> set (so_accepted out) \<longrightarrow> ?gj e"
            if "?sj peer" "sr_result (od_send d peer (batch_plane (br_key (dr_batches dr0 ! j))) raws) = Inr out" for peer raws out
            using that unfolding taken_out_def by blast
          show "?sj peer" if "batch_peer (br_key (dr_batches dr0 ! j)) (dr_state ?dr) = Some peer" for peer
            using that unfolding seen_peer_def by blast
        qed
        have new: "drain_turns d now_ms (evs @ [ev]) dr0
            = ?dr\<lparr>dr_batches := (dr_batches ?dr)[j := (dr_batches ?dr ! j)\<lparr>br_at := (ty', ph')\<rparr>], dr_state := st'\<rparr>"
          using j b at by (simp add: drain_turns_snoc Turn static Let_def)
        show ?thesis
        proof (cases "i = j")
          case True
          with turn i j show ?thesis by (simp add: batch_sound_def new Let_def static)
        next
          case False
          with sep i j have "oe_id ` set (br_entries (dr_batches dr0 ! i)) \<inter> oe_id ` set (br_entries (dr_batches dr0 ! j)) = {}"
            by (simp add: separate_def)
          note quiet = rows_untouched [OF conjunct2 [OF conjunct2 [OF turn]] this, of now_ms ?gone "snd (br_at (dr_batches ?dr ! i))"]
          from later [OF i] False i
          show ?thesis by (simp add: batch_sound_def new Let_def static quiet)
        qed
      next
        case False
        with later [OF i] i show ?thesis by (simp add: batch_sound_def Turn drain_turns_snoc static)
      qed
    next
      case (Enqueue drafts)
      have "oe_id ` set (br_entries (dr_batches dr0 ! i)) \<inter> (\<lambda>x. outbox_id (oe_content_id x) (oe_peer_id x)) ` set drafts = {}"
      proof -
        have "Enqueue drafts \<in> set (evs @ [ev])" using Enqueue by simp
        with snoc.prems i have "\<forall>x\<in>set drafts. outbox_id (oe_content_id x) (oe_peer_id x)
            \<notin> oe_id ` set (br_entries (dr_batches dr0 ! i))" by blast
        then show ?thesis unfolding disjoint_iff by (metis (no_types, lifting) imageE)
      qed
      note quiet = rows_untouched [OF enqueue_touches this, of now_ms ?gone "snd (br_at (dr_batches ?dr ! i))" "xs_outbox (dr_state ?dr)"]
      show ?thesis using later [OF i] i by (simp add: batch_sound_def Enqueue drain_turns_snoc static quiet [unfolded Enqueue])
    next
      case (Elsewhere f)
      with later [OF i] i show ?thesis by (simp add: batch_sound_def drain_turns_snoc static)
    qed
  qed
qed

text \<open>The start of a pass: every batch holds leased rows, each row is in one batch, and none has moved.\<close>

lemma drain_start_batches:
  "map br_entries (dr_batches (drain_start d now_ms st)) = map snd (batches_of (lease_pass d now_ms st))"
  by (simp add: drain_start_def Let_def comp_def split_def)

lemma distinct_part: "distinct (map f (concat xss)) \<Longrightarrow> xs \<in> set xss \<Longrightarrow> distinct (map f xs)"
  by (induction xss) auto

lemma separate_concat:
  assumes "distinct (map oe_id (concat xss))" and "i < length xss" and "j < length xss" and "i \<noteq> j"
  shows "oe_id ` set (xss ! i) \<inter> oe_id ` set (xss ! j) = {}"
  using assms
proof (induction xss arbitrary: i j)
  case (Cons xs xss)
  have apart: "oe_id ` set xs \<inter> oe_id ` set (xss ! k) = {}" if "k < length xss" for k
  proof -
    have "set (xss ! k) \<subseteq> set (concat xss)" using nth_mem [OF that] by (simp add: UN_upper)
    with Cons.prems(1) show ?thesis by fastforce
  qed
  from Cons show ?case by (cases i; cases j) (auto simp: apart Int_commute dest: apart)
qed simp

lemma drain_start_sound:
  fixes d :: "('b, 'd) out_deps" and now_ms :: int and st :: "'d out_state"
  assumes "outbox_ok (xs_outbox st)"
  defines "dr \<equiv> drain_start d now_ms st"
  shows "separate dr" and "\<forall>i<length (dr_batches dr). batch_sound d now_ms dr [] dr i"
    and "mset (concat (map br_entries (dr_batches dr))) = mset (lease_pass d now_ms st)"
proof -
  let ?l = "lease_pass d now_ms st" and ?all = "concat (map br_entries (dr_batches dr))"
  show same: "mset ?all = mset ?l" unfolding dr_def drain_start_batches by (rule batches_of_mset)
  have "mset (map oe_id ?all) = mset (map oe_id ?l)" using same by simp
  then have ids: "distinct (map oe_id ?all)"
    using distinct_leased_ids [OF assms(1)] unfolding lease_pass_def by (metis mset_eq_imp_distinct_iff)
  have pend: "pending e (xs_outbox st) \<and> 0 \<le> oe_attempts e" if "i < length (dr_batches dr)" "e \<in> set (br_entries (dr_batches dr ! i))" for i e
  proof -
    have "e \<in> set ?all" using nth_mem [OF that(1)] that(2) by (simp del: nth_mem) blast
    then have "e \<in> set ?l" using mset_eq_setD [OF same] by blast
    then have "pending e (xs_outbox st)" using leased_pending(1) [OF assms(1)] unfolding lease_pass_def pending_def by blast
    with pending_attempts [OF assms(1)] show ?thesis by blast
  qed
  have each: "distinct (map oe_id (br_entries (dr_batches dr ! i)))" if "i < length (dr_batches dr)" for i
    by (rule distinct_part [OF ids]) (use that in simp)
  have apart: "oe_id ` set (br_entries (dr_batches dr ! i)) \<inter> oe_id ` set (br_entries (dr_batches dr ! j)) = {}"
    if "i < length (dr_batches dr)" "j < length (dr_batches dr)" "i \<noteq> j" for i j
    using separate_concat [OF ids, of i j] that by simp
  show "separate dr" unfolding separate_def using each pend apart by blast
  show "\<forall>i<length (dr_batches dr). batch_sound d now_ms dr [] dr i"
  proof (intro allI impI)
    fix i assume i: "i < length (dr_batches dr)"
    have st: "dr_state dr = st" "snd (br_at (dr_batches dr ! i)) = B_start"
      using i by (auto simp: dr_def drain_start_def Let_def split: prod.splits)
    have "row_at now_ms g e (0, 0) (xs_outbox st)" if "e \<in> set (br_entries (dr_batches dr ! i))" for e g
      using pend [OF i that] by (simp add: row_at_def pending_def)
    with st show "batch_sound d now_ms dr [] dr i" by (simp add: batch_sound_def Let_def rows_at_def)
  qed
qed

text \<open>C30: No peer of a pass can hold up another, and nothing leased is lost. With a delivery deadline set, take any schedule
  of the turns of a pass's batches, interleaved with fanout of other rows and with anything the rest of the node does.
  Every leased row is in one batch. A batch of \<open>n\<close> rows that has had \<open>6 n + 5\<close> turns is through, however few the others
  had and whatever their peers answer or do not answer; then each of its rows is either still queued for its peer with
  one or two more attempts and due only later, or dead-lettered, or out of the queue because the peer accepted it or was
  unknown or blocked at some moment. Two attempts happen when the record of an acceptance fails, as it does while
  another transaction of the in-memory store is open: the catch then fails again what had been failed. And once every
  batch has had its turns the pass reports. Rows that another pass has leased too are not covered.\<close>

theorem every_batch_settles_on_its_own:
  fixes d :: "('b, 'd) out_deps" and now_ms :: int and st :: "'d out_state" and evs :: "'d drain_event list"
  assumes "outbox_ok (xs_outbox st)" and "0 < nullish (od_deliver_timeout_ms d) DEFAULT_DELIVER_TIMEOUT_MS"
    and "\<forall>drafts. Enqueue drafts \<in> set evs \<longrightarrow> (\<forall>x\<in>set drafts.
      outbox_id (oe_content_id x) (oe_peer_id x) \<notin> oe_id ` set (lease_pass d now_ms st))"
  defines "dr0 \<equiv> drain_start d now_ms st"
  defines "dr \<equiv> drain_turns d now_ms evs dr0"
  shows "mset (concat (map br_entries (dr_batches dr0))) = mset (lease_pass d now_ms st)
    \<and> (\<forall>i<length (dr_batches dr0). 6 * length (br_entries (dr_batches dr0 ! i)) + 5 \<le> turns i evs \<longrightarrow>
        snd (br_at (dr_batches dr ! i)) = B_done
        \<and> (\<forall>e\<in>set (br_entries (dr_batches dr0 ! i)).
            case map_of (ob_entries (xs_outbox (dr_state dr))) (oe_id e) of
              None \<Rightarrow> map_of (ob_dead (xs_outbox (dr_state dr))) (oe_id e) \<noteq> None \<or> taken_out d now_ms dr0 evs (br_key (dr_batches dr0 ! i)) e
            | Some r \<Rightarrow> oe_content_id r = oe_content_id e \<and> oe_peer_id r = oe_peer_id e \<and> oe_plane r = oe_plane e
                \<and> oe_priority r = oe_priority e \<and> oe_attempts e + 1 \<le> oe_attempts r \<and> oe_attempts r \<le> oe_attempts e + 2
                \<and> now_ms < oe_next_attempt_at_ms r))
    \<and> ((\<forall>i<length (dr_batches dr0). 6 * length (br_entries (dr_batches dr0 ! i)) + 5 \<le> turns i evs) \<longrightarrow>
        (\<exists>r. drain_result dr = Some r \<and> dn_attempted r = length (lease_pass d now_ms st)))"
proof -
  note start = drain_start_sound [OF assms(1), of d now_ms, folded dr0_def]
  have static: "length (dr_batches dr) = length (dr_batches dr0)" "dr_attempted dr = length (lease_pass d now_ms st)"
    by (simp_all add: dr_def drain_turns_static) (simp add: dr0_def drain_start_def Let_def)
  have all: "oe_id ` set (br_entries (dr_batches dr0 ! i)) \<subseteq> oe_id ` set (lease_pass d now_ms st)" if "i < length (dr_batches dr0)" for i
  proof -
    have "set (br_entries (dr_batches dr0 ! i)) \<subseteq> set (concat (map br_entries (dr_batches dr0)))"
      using nth_mem [OF that] by (force simp del: nth_mem)
    then show ?thesis using mset_eq_setD [OF start(3)] by blast
  qed
  have sound: "batch_sound d now_ms dr0 evs dr i" if "i < length (dr_batches dr0)" for i
    using batches_sound [OF start(1,2), of evs] assms(3) all that unfolding dr_def by blast
  have through: "snd (br_at (dr_batches dr ! i)) = B_done"
    if i: "i < length (dr_batches dr0)" and n: "6 * length (br_entries (dr_batches dr0 ! i)) + 5 \<le> turns i evs" for i
  proof -
    have "snd (br_at (dr_batches dr0 ! i)) = B_start" using i by (auto simp: dr0_def drain_start_def Let_def split: prod.splits)
    then have "left i dr0 = 6 * length (br_entries (dr_batches dr0 ! i)) + 5" by (simp add: left_def)
    with left_after [OF assms(2) i, of now_ms evs] n have "left i dr = 0" by (simp add: dr_def)
    then show ?thesis by (simp add: left_def work_done)
  qed
  have rows: "row_at now_ms (taken_out d now_ms dr0 evs (br_key (dr_batches dr0 ! i)) e) e (1, 2) (xs_outbox (dr_state dr))"
    if i: "i < length (dr_batches dr0)" and n: "6 * length (br_entries (dr_batches dr0 ! i)) + 5 \<le> turns i evs"
      and e: "e \<in> set (br_entries (dr_batches dr0 ! i))" for i e
    using sound [OF i] through [OF i n] e drain_turns_static(2,3) [OF i, of d now_ms evs]
    by (simp add: batch_sound_def Let_def rows_at_def dr_def)
  have "\<exists>r. drain_result dr = Some r \<and> dn_attempted r = length (lease_pass d now_ms st)"
    if n: "\<forall>i<length (dr_batches dr0). 6 * length (br_entries (dr_batches dr0 ! i)) + 5 \<le> turns i evs"
  proof -
    have "snd (br_at b) = B_done" if "b \<in> set (dr_batches dr)" for b
      using that through n static(1) by (metis in_set_conv_nth)
    then have "list_all (\<lambda>b. case snd (br_at b) of B_done \<Rightarrow> True | _ \<Rightarrow> False) (dr_batches dr)" by (simp add: list_all_iff)
    moreover have "dn_attempted (fold (\<lambda>b. add_tally (fst (br_at b))) bs r) = dn_attempted r" for bs :: "'d batch_run list" and r
      by (induction bs arbitrary: r) (simp_all add: add_tally_def)
    ultimately show ?thesis by (simp add: drain_result_def static)
  qed
  moreover have "case map_of (ob_entries (xs_outbox (dr_state dr))) (oe_id e) of
              None \<Rightarrow> map_of (ob_dead (xs_outbox (dr_state dr))) (oe_id e) \<noteq> None \<or> taken_out d now_ms dr0 evs (br_key (dr_batches dr0 ! i)) e
            | Some r \<Rightarrow> oe_content_id r = oe_content_id e \<and> oe_peer_id r = oe_peer_id e \<and> oe_plane r = oe_plane e
                \<and> oe_priority r = oe_priority e \<and> oe_attempts e + 1 \<le> oe_attempts r \<and> oe_attempts r \<le> oe_attempts e + 2
                \<and> now_ms < oe_next_attempt_at_ms r"
    if "i < length (dr_batches dr0)" "6 * length (br_entries (dr_batches dr0 ! i)) + 5 \<le> turns i evs"
      "e \<in> set (br_entries (dr_batches dr0 ! i))" for i e
    using rows [OF that] by (auto simp: row_at_def split: option.splits)
  ultimately show ?thesis using start(3) through by blast
qed


text \<open>An accepted row whose record falls into another open transaction: the whole batch, rows already failed
  included, goes to the catch.\<close>

lemma record_in_an_open_transaction:
  assumes "pj_staged (nd_projections (fs_node (xs_fed st))) \<noteq> None" and "oe_content_id e \<in> set (so_accepted outcome)"
  shows "batch_step d now_ms rec_ms key entries (ty, B_settle peer outcome fs (e # es)) st
    = ((ty, B_catch peer ''nested transactions are not supported'' fs), st)"
  using assms by (simp add: begin_record_def Let_def)

text \<open>A black hole: with the fanout and the rest of the node in between, eleven turns of its batch end the pass.\<close>

definition sample_schedule :: "bytes drain_event list" where
  "sample_schedule = Enqueue [sample_bulk] # Elsewhere (\<lambda>fed. fed) # replicate 11 (Turn 0 0)"

lemma sample_start:
  "map br_entries (dr_batches (drain_start sample_black_hole 0 sample_out)) = [[sample_entry]]"
  by (simp add: drain_start_batches sample_leased batches_of_def add_to_batch_def)

lemma sample_start_simps:
  "length (dr_batches (drain_start sample_black_hole 0 sample_out)) = 1"
  "br_entries (dr_batches (drain_start sample_black_hole 0 sample_out) ! 0) = [sample_entry]"
proof -
  show n: "length (dr_batches (drain_start sample_black_hole 0 sample_out)) = 1"
    using arg_cong [OF sample_start, of length] by simp
  show "br_entries (dr_batches (drain_start sample_black_hole 0 sample_out) ! 0) = [sample_entry]"
    using arg_cong [OF sample_start, of "\<lambda>xs. xs ! 0"] n by simp
qed

theorem every_batch_settles_on_its_own_witness:
  "snd (br_at (dr_batches (drain_turns sample_black_hole 0 sample_schedule (drain_start sample_black_hole 0 sample_out)) ! 0)) = B_done
    \<and> (\<exists>r. drain_result (drain_turns sample_black_hole 0 sample_schedule (drain_start sample_black_hole 0 sample_out)) = Some r
        \<and> dn_attempted r = 1)"
proof -
  have foreign: "\<forall>drafts. Enqueue drafts \<in> set sample_schedule \<longrightarrow> (\<forall>x\<in>set drafts.
      outbox_id (oe_content_id x) (oe_peer_id x) \<notin> oe_id ` set (lease_pass sample_black_hole 0 sample_out))"
    by (simp add: sample_leased sample_schedule_def sample_rows outbox_id_def)
  have n: "turns 0 sample_schedule = 11" by (simp add: turns_def sample_schedule_def filter_replicate)
  from every_batch_settles_on_its_own [OF sample_out_ok foreign] n show ?thesis
    by (simp add: sample_start_simps sample_leased)
qed

end
