(* ===== verification/JB_Sync.thy ===== *)
theory JB_Sync
  imports JB_Peering
begin

text \<open>
  The peer-initiated side of federation, \<open>backend/src/core/app/federation-sync.ts\<close>: handshake, catch-up, live
  streams, tree-head gossip and directory exchange. What the network answers is the parameter record
  \<open>peer_sender\<close>; \<open>None\<close> is a call that throws, and a backfill gives the frames that arrived and whether it then
  ended without an error. \<open>clk k\<close> is the \<open>k\<close>-th reading of the clock in a call. A call that reads a peer's
  record, waits for the network and writes the record back takes the record it read as its argument.
\<close>

section \<open>State\<close>

record announce_reply =
  an_peer_key :: bytes
  an_endpoints :: "peer_endpoint list"
  an_sth :: "tree_head option"
  an_vouches :: "peer_vouch list"

record sth_report =
  sx_sth :: "tree_head option"
  sx_observed :: "(bytes \<times> tree_head option) list"

type_synonym arrival = "bytes \<times> readings"

record peer_sender =
  sn_announce :: "peer_record \<Rightarrow> announce_reply option"
  sn_backfill :: "peer_record \<Rightarrow> int \<Rightarrow> int \<Rightarrow> int \<Rightarrow> arrival list \<times> bool"
  sn_exchange_tree_heads :: "peer_record \<Rightarrow> sth_report option"
  sn_exchange_directory :: "peer_record \<Rightarrow> peer_record list option"

record ('b, 'd) sync_deps =
  sd_fed :: "('b, 'd) fed_deps"
  sd_sender :: peer_sender
  sd_self_server_id :: string

text \<open>The open streams: per peer the controller, the aborted controllers, and the pumps started.\<close>

record 'd sync_state =
  sy_fed :: "'d fed_state"
  sy_streams :: "(string, nat) jsmap"
  sy_aborted :: "nat list"
  sy_controllers :: nat
  sy_pumps :: "(nat \<times> string \<times> int) list"

record backfill_report =
  bf_received :: nat
  bf_accepted :: nat
  bf_rejected :: nat
  bf_duplicates :: nat

datatype connect_outcome = NoPeer | Threw | Synced string peer_trust backfill_report

definition EMPTY_BACKFILL :: backfill_report where
  "EMPTY_BACKFILL = \<lparr>bf_received = 0, bf_accepted = 0, bf_rejected = 0, bf_duplicates = 0\<rparr>"

definition FORUM_PLANE :: int where "FORUM_PLANE = 1"

section \<open>Handshake\<close>

definition with_local_knowledge :: "peer_endpoint list \<Rightarrow> peer_endpoint list \<Rightarrow> peer_endpoint list" where
  "with_local_knowledge announced known =
     (if known = [] then announced
      else let by_address = fold (\<lambda>e. al_set (ep_address e) e) known [] in
        map (\<lambda>e. case map_of by_address (ep_address e) of
              None \<Rightarrow> e
            | Some loc \<Rightarrow>
                let e1 = (if ep_asn e = None \<and> ep_asn loc \<noteq> None then e\<lparr>ep_asn := ep_asn loc\<rparr> else e);
                    e2 = (if \<not> truthy (ep_isp e1) \<and> truthy (ep_isp loc) then e1\<lparr>ep_isp := ep_isp loc\<rparr> else e1)
                in if \<not> truthy (ep_region e2) \<and> truthy (ep_region loc) then e2\<lparr>ep_region := ep_region loc\<rparr> else e2) announced)"

definition handshake_record :: "peer_record \<Rightarrow> announce_reply \<Rightarrow> int \<Rightarrow> peer_record" where
  "handshake_record peer reply now_ms =
     peer\<lparr>pr_public_key := (if length (an_peer_key reply) > 0 then an_peer_key reply else pr_public_key peer),
       pr_endpoints := (if length (an_endpoints reply) > 0 then with_local_knowledge (an_endpoints reply) (pr_endpoints peer)
         else pr_endpoints peer),
       pr_last_seen_ms := now_ms, pr_first_seen_ms := Some (nullish (pr_first_seen_ms peer) now_ms)\<rparr>"

definition handshake ::
  "('b, 'd) sync_deps \<Rightarrow> (nat \<Rightarrow> int) \<Rightarrow> peer_record \<Rightarrow> 'd fed_state \<Rightarrow> peer_record option \<times> 'd fed_state" where
  "handshake d clk peer st =
     (case sn_announce (sd_sender d) peer of
        None \<Rightarrow> (None, st)
      | Some reply \<Rightarrow>
          let updated = handshake_record peer reply (clk 0);
              st1 = upsert updated st;
              st2 = (case an_sth reply of Some sth \<Rightarrow> snd (observe_peer_sth (sd_fed d) (clk 1) updated sth st1) | None \<Rightarrow> st1);
              st3 = fold (\<lambda>vouch s. snd (record_vouch (sd_fed d) (clk 2) vouch s)) (an_vouches reply) st2
          in (Some (nullish (dir_get (pr_server_id updated) (fs_peers st3)) updated), st3))"

section \<open>Catching up\<close>

text \<open>\<open>contentIdOf\<close>: nothing for a frame that does not parse.\<close>

definition content_id_of :: "('b, 'd) fed_deps \<Rightarrow> bytes \<Rightarrow> string option" where
  "content_id_of d raw = (case parseEnvelope (dp_sha (fd_pipeline d)) (dp_nfc (fd_pipeline d)) raw of
     Inr (env, _) \<Rightarrow> Some (content_id env) | Inl _ \<Rightarrow> None)"

definition sync_accept ::
  "('b, 'd) fed_deps \<Rightarrow> string \<Rightarrow> arrival \<Rightarrow> 'd fed_state \<Rightarrow> bool \<times> 'd fed_state \<times> effect list" where
  "sync_accept d peer_id a st =
     (case accept (fd_pipeline d) (snd a) (fst a)
          \<lparr>io_transport_id = ''grpc'', io_peer_id = Some peer_id, io_origin_server_id = Some peer_id\<rparr> (fs_node st) of
        (res, n, eff) \<Rightarrow> (\<not> isl res, st\<lparr>fs_node := n\<rparr>, eff))"

definition backfill_frame ::
  "('b, 'd) fed_deps \<Rightarrow> string \<Rightarrow> arrival \<Rightarrow> backfill_report \<times> 'd fed_state \<times> effect list
     \<Rightarrow> backfill_report \<times> 'd fed_state \<times> effect list" where
  "backfill_frame d peer_id a = (\<lambda>(r, st, eff).
     let r1 = r\<lparr>bf_received := bf_received r + 1\<rparr>;
         held = (case content_id_of d (fst a) of Some cid \<Rightarrow> env_has cid (nd_envelopes (fs_node st)) | None \<Rightarrow> False)
     in (case sync_accept d peer_id a st of (ok, st', eff') \<Rightarrow>
          ((if ok then if held then r1\<lparr>bf_duplicates := bf_duplicates r1 + 1\<rparr> else r1\<lparr>bf_accepted := bf_accepted r1 + 1\<rparr>
            else r1\<lparr>bf_rejected := bf_rejected r1 + 1\<rparr>), st', eff @ eff')))"

fun backfill_planes ::
  "('b, 'd) sync_deps \<Rightarrow> peer_record \<Rightarrow> string \<Rightarrow> int \<Rightarrow> int \<Rightarrow> int list \<Rightarrow> backfill_report \<times> 'd fed_state \<times> effect list
     \<Rightarrow> bool \<times> backfill_report \<times> 'd fed_state \<times> effect list" where
  "backfill_planes d peer peer_id from to [] s = (True, s)"
| "backfill_planes d peer peer_id from to (pl # pls) s =
     (case sn_backfill (sd_sender d) peer pl from to of (frames, ok) \<Rightarrow>
        let s1 = fold (backfill_frame (sd_fed d) peer_id) frames s
        in if ok then backfill_planes d peer peer_id from to pls s1 else (False, s1))"

definition planes_of :: "peer_record \<Rightarrow> int list" where
  "planes_of peer = (if \<not> unrestricted (pr_planes peer) then the (pr_planes peer) else [FORUM_PLANE])"

definition backfill_from ::
  "('b, 'd) sync_deps \<Rightarrow> string \<Rightarrow> int \<Rightarrow> 'd fed_state \<Rightarrow> backfill_report option \<times> 'd fed_state \<times> effect list" where
  "backfill_from d peer_id from st =
     (case dir_get peer_id (fs_peers st) of
        None \<Rightarrow> (Some EMPTY_BACKFILL, st, [])
      | Some peer \<Rightarrow>
          let to = (case last_peer_sth peer_id (nd_ledger (fs_node st)) of Some h \<Rightarrow> th_tree_size h | None \<Rightarrow> 0)
          in (case backfill_planes d peer peer_id from to (planes_of peer) (EMPTY_BACKFILL, st, []) of
                (False, r, st1, eff) \<Rightarrow> (None, st1, eff)
              | (True, r, st1, eff) \<Rightarrow>
                  (Some r, (if to > from then st1\<lparr>fs_node := (fs_node st1)\<lparr>nd_ledger :=
                      record_stream_position peer_id to (nd_ledger (fs_node st1))\<rparr>\<rparr> else st1), eff)))"

section \<open>Live streams\<close>

definition stop_stream :: "string \<Rightarrow> 'd sync_state \<Rightarrow> 'd sync_state" where
  "stop_stream peer_id sy =
     sy\<lparr>sy_aborted := (case map_of (sy_streams sy) peer_id of Some c \<Rightarrow> sy_aborted sy @ [c] | None \<Rightarrow> sy_aborted sy),
        sy_streams := al_del peer_id (sy_streams sy)\<rparr>"

definition start_stream :: "peer_record \<Rightarrow> 'd sync_state \<Rightarrow> 'd sync_state" where
  "start_stream peer sy =
     (let sy1 = stop_stream (pr_server_id peer) sy; c = sy_controllers sy1
      in sy1\<lparr>sy_controllers := c + 1, sy_streams := al_set (pr_server_id peer) c (sy_streams sy1),
             sy_pumps := sy_pumps sy1 @ map (\<lambda>pl. (c, pr_server_id peer, pl)) (planes_of peer)\<rparr>)"

definition stop_all :: "'d sync_state \<Rightarrow> 'd sync_state" where
  "stop_all sy = sy\<lparr>sy_aborted := sy_aborted sy @ map snd (sy_streams sy), sy_streams := []\<rparr>"

text \<open>One frame of a pump: the stream's filter, and what the frame does unless the stream was stopped meanwhile.\<close>

definition pump_filter :: "string \<Rightarrow> int \<Rightarrow> 'd sync_state \<Rightarrow> stream_filter" where
  "pump_filter peer_id pl sy = \<lparr>sf_communities = None, sf_channels = None, sf_planes = Some [pl], sf_classes = None,
     sf_since_index = Some (stream_position peer_id (nd_ledger (fs_node (sy_fed sy))))\<rparr>"

definition pump_frame ::
  "('b, 'd) sync_deps \<Rightarrow> nat \<Rightarrow> string \<Rightarrow> arrival \<Rightarrow> 'd sync_state \<Rightarrow> 'd sync_state \<times> effect list" where
  "pump_frame d c peer_id a sy =
     (if c \<in> set (sy_aborted sy) then (sy, [])
      else case sync_accept (sd_fed d) peer_id a (sy_fed sy) of (ok, st, eff) \<Rightarrow> (sy\<lparr>sy_fed := st\<rparr>, eff))"

definition connect ::
  "('b, 'd) sync_deps \<Rightarrow> (nat \<Rightarrow> int) \<Rightarrow> peer_record option \<Rightarrow> string \<Rightarrow> 'd sync_state
     \<Rightarrow> connect_outcome \<times> 'd sync_state \<times> effect list" where
  "connect d clk known peer_id sy =
     (case known of
        None \<Rightarrow> (NoPeer, sy, [])
      | Some k \<Rightarrow> (case handshake d clk k (sy_fed sy) of
            (None, st) \<Rightarrow> (Threw, sy\<lparr>sy_fed := st\<rparr>, [])
          | (Some peer, st) \<Rightarrow>
              let sy1 = sy\<lparr>sy_fed := st\<rparr> in
              if pr_trust peer = BLOCKED then (Synced peer_id (pr_trust peer) EMPTY_BACKFILL, sy1, [])
              else (case backfill_from d peer_id (stream_position peer_id (nd_ledger (fs_node st))) st of
                  (None, st2, eff) \<Rightarrow> (Threw, sy1\<lparr>sy_fed := st2\<rparr>, eff)
                | (Some r, st2, eff) \<Rightarrow> (Synced peer_id (pr_trust peer) r, start_stream peer (sy1\<lparr>sy_fed := st2\<rparr>), eff))))"

section \<open>Gossip and the directory\<close>

definition find_peer_by_key :: "bytes \<Rightarrow> 'd fed_state \<Rightarrow> peer_record option" where
  "find_peer_by_key key st = find (\<lambda>p. length (pr_public_key p) = length key \<and> list_all (\<lambda>(b, k). b = k) (zip (pr_public_key p) key))
     (dir_all (fs_peers st))"

definition gossip_observation ::
  "('b, 'd) sync_deps \<Rightarrow> int \<Rightarrow> bytes \<times> tree_head option \<Rightarrow> (string \<times> peer_log_status) list \<times> 'd fed_state
     \<Rightarrow> (string \<times> peer_log_status) list \<times> 'd fed_state" where
  "gossip_observation d now_ms obs = (\<lambda>(results, st).
     case snd obs of
       None \<Rightarrow> (results, st)
     | Some sth \<Rightarrow> (case find_peer_by_key (fst obs) st of
           None \<Rightarrow> (results, st)
         | Some observed \<Rightarrow> (case observe_peer_sth (sd_fed d) now_ms observed sth st of (status, st') \<Rightarrow>
             (results @ [(pr_server_id observed, status)], st'))))"

definition gossip_peer ::
  "('b, 'd) sync_deps \<Rightarrow> int \<Rightarrow> peer_record \<Rightarrow> (string \<times> peer_log_status) list \<times> 'd fed_state
     \<Rightarrow> (string \<times> peer_log_status) list \<times> 'd fed_state" where
  "gossip_peer d now_ms peer = (\<lambda>(results, st).
     if \<not> is_gossip_partner (pr_trust peer) then (results, st)
     else (case sn_exchange_tree_heads (sd_sender d) peer of
         None \<Rightarrow> (results, st)
       | Some report \<Rightarrow>
           fold (gossip_observation d now_ms) (sx_observed report)
             (case sx_sth report of
                None \<Rightarrow> (results, st)
              | Some sth \<Rightarrow> (case observe_peer_sth (sd_fed d) now_ms peer sth st of (status, st') \<Rightarrow>
                  (results @ [(pr_server_id peer, status)], st')))))"

definition gossip ::
  "('b, 'd) sync_deps \<Rightarrow> int \<Rightarrow> 'd fed_state \<Rightarrow> (string \<times> peer_log_status) list \<times> 'd fed_state" where
  "gossip d now_ms st = fold (gossip_peer d now_ms) (dir_all (fs_peers st)) ([], st)"

definition learn_record ::
  "('b, 'd) sync_deps \<Rightarrow> int \<Rightarrow> peer_record \<Rightarrow> nat \<times> 'd fed_state \<Rightarrow> nat \<times> 'd fed_state" where
  "learn_record d now_ms rec = (\<lambda>(learned, st).
     if pr_server_id rec = [] \<or> length (pr_public_key rec) = 0 then (learned, st)
     else if pr_server_id rec = sd_self_server_id d then (learned, st)
     else (case dir_get (pr_server_id rec) (fs_peers st) of
         Some existing \<Rightarrow>
           (learned, upsert (existing\<lparr>pr_endpoints := (if length (pr_endpoints rec) > 0 then pr_endpoints rec else pr_endpoints existing)\<rparr>) st)
       | None \<Rightarrow>
           (learned + 1, upsert (rec\<lparr>pr_trust := PROBATION, pr_first_seen_ms := Some now_ms, pr_last_seen_ms := now_ms\<rparr>) st)))"

definition exchange_with :: "('b, 'd) sync_deps \<Rightarrow> int \<Rightarrow> peer_record \<Rightarrow> nat \<times> 'd fed_state \<Rightarrow> nat \<times> 'd fed_state" where
  "exchange_with d now_ms peer = (\<lambda>(learned, st).
     if pr_trust peer \<noteq> TRUSTED then (learned, st)
     else (case sn_exchange_directory (sd_sender d) peer of
         None \<Rightarrow> (learned, st)
       | Some records \<Rightarrow> fold (learn_record d now_ms) records (learned, st)))"

definition exchange_directories :: "('b, 'd) sync_deps \<Rightarrow> int \<Rightarrow> 'd fed_state \<Rightarrow> nat \<times> 'd fed_state" where
  "exchange_directories d now_ms st = fold (exchange_with d now_ms) (dir_all (fs_peers st)) (0, st)"


section \<open>Hearsay\<close>

definition keyed :: "directory \<Rightarrow> bool" where
  "keyed peers \<longleftrightarrow> distinct (map fst peers) \<and> (\<forall>i p. map_of peers i = Some p \<longrightarrow> pr_server_id p = i)"

text \<open>What a directory exchange may do: refresh the endpoints of a peer we know, or add one at probation.\<close>

definition hearsay_only :: "string \<Rightarrow> directory \<Rightarrow> directory \<Rightarrow> bool" where
  "hearsay_only self peers peers' \<longleftrightarrow>
     (\<forall>i p. dir_get i peers = Some p \<longrightarrow> (\<exists>eps. dir_get i peers' = Some (p\<lparr>pr_endpoints := eps\<rparr>)))
     \<and> (\<forall>i p. dir_get i peers = None \<and> dir_get i peers' = Some p \<longrightarrow>
          pr_trust p = PROBATION \<and> i \<noteq> self \<and> i \<noteq> [] \<and> pr_public_key p \<noteq> [])"

lemma hearsay_refl: "hearsay_only self peers peers"
proof -
  have "\<exists>eps. p = p\<lparr>pr_endpoints := eps\<rparr>" for p :: peer_record by (rule exI [of _ "pr_endpoints p"]) simp
  then show ?thesis by (auto simp: hearsay_only_def)
qed

lemma hearsay_trans:
  assumes "hearsay_only self a b" and "hearsay_only self b c"
  shows "hearsay_only self a c"
proof -
  have "\<exists>eps. dir_get i c = Some (p\<lparr>pr_endpoints := eps\<rparr>)" if "dir_get i a = Some p" for i p
  proof -
    from assms(1) that obtain e where "dir_get i b = Some (p\<lparr>pr_endpoints := e\<rparr>)" unfolding hearsay_only_def by blast
    with assms(2) obtain e' where "dir_get i c = Some (p\<lparr>pr_endpoints := e\<rparr>\<lparr>pr_endpoints := e'\<rparr>)" unfolding hearsay_only_def by blast
    then show ?thesis by (intro exI [of _ e']) simp
  qed
  moreover have "pr_trust p = PROBATION \<and> i \<noteq> self \<and> i \<noteq> [] \<and> pr_public_key p \<noteq> []"
    if new: "dir_get i a = None" "dir_get i c = Some p" for i p
  proof (cases "dir_get i b")
    case None
    with assms(2) new show ?thesis unfolding hearsay_only_def by blast
  next
    case (Some q)
    with assms(1) new have "pr_trust q = PROBATION \<and> i \<noteq> self \<and> i \<noteq> [] \<and> pr_public_key q \<noteq> []" unfolding hearsay_only_def by blast
    moreover from assms(2) Some obtain e where "dir_get i c = Some (q\<lparr>pr_endpoints := e\<rparr>)" unfolding hearsay_only_def by blast
    ultimately show ?thesis using new by simp
  qed
  ultimately show ?thesis unfolding hearsay_only_def by blast
qed

text \<open>One record learned: the directory stays keyed, and the count grows with it.\<close>

lemma learn_record_hearsay:
  assumes "keyed (fs_peers st)" and "learn_record d t rec (n, st) = (n', st')"
  shows "keyed (fs_peers st') \<and> hearsay_only (sd_self_server_id d) (fs_peers st) (fs_peers st') \<and> fs_node st' = fs_node st
    \<and> n' + length (fs_peers st) = n + length (fs_peers st')"
proof -
  let ?P = "fs_peers st" and ?i = "pr_server_id rec"
  have keys: "length (al_set k v m) = (if k \<in> fst ` set m then length m else Suc (length m))" for k and v :: peer_record and m
    using arg_cong [OF keys_al_set, of length k v m] by (simp split: if_splits)
  consider (skip) "n' = n" "st' = st"
    | (known) q eps where "dir_get ?i ?P = Some q" "n' = n" "st' = upsert (q\<lparr>pr_endpoints := eps\<rparr>) st"
    | (fresh) "dir_get ?i ?P = None" "?i \<noteq> []" "?i \<noteq> sd_self_server_id d" "pr_public_key rec \<noteq> []" "n' = n + 1"
        "st' = upsert (rec\<lparr>pr_trust := PROBATION, pr_first_seen_ms := Some t, pr_last_seen_ms := t\<rparr>) st"
  proof (cases "?i = [] \<or> pr_public_key rec = [] \<or> ?i = sd_self_server_id d")
    case True
    with assms(2) have "n' = n" "st' = st" by (auto simp: learn_record_def split: if_splits)
    then show thesis by (rule that(1))
  next
    case guard: False
    show thesis
    proof (cases "dir_get ?i ?P")
      case None
      with guard assms(2) have "n' = n + 1"
        "st' = upsert (rec\<lparr>pr_trust := PROBATION, pr_first_seen_ms := Some t, pr_last_seen_ms := t\<rparr>) st"
        by (simp_all add: learn_record_def)
      with None guard show thesis by (intro that(3)) simp_all
    next
      case (Some q)
      with guard assms(2) have "n' = n"
        "st' = upsert (q\<lparr>pr_endpoints := (if length (pr_endpoints rec) > 0 then pr_endpoints rec else pr_endpoints q)\<rparr>) st"
        by (simp_all add: learn_record_def)
      with Some show thesis by (rule that(2))
    qed
  qed
  then show ?thesis
  proof cases
    case skip
    with assms(1) show ?thesis by (simp add: hearsay_refl)
  next
    case known
    let ?q = "q\<lparr>pr_endpoints := eps\<rparr>"
    have q: "pr_server_id q = ?i" using assms(1) known(1) by (simp add: keyed_def dir_get_def)
    have P': "fs_peers st' = dir_upsert ?q ?P" by (simp add: known(3) upsert_def)
    have "?i \<in> fst ` set ?P" using known(1) by (simp add: dom_map_of_fst dir_get_def)
    then have "length (fs_peers st') = length ?P" by (simp add: P' dir_upsert_def q keys)
    moreover have "keyed (fs_peers st')" using assms(1) by (auto simp: keyed_def P' dir_upsert_def q)
    moreover have "hearsay_only (sd_self_server_id d) ?P (fs_peers st')"
      using hearsay_refl [of "sd_self_server_id d" ?P] known(1) q unfolding hearsay_only_def P' by auto
    moreover have "fs_node st' = fs_node st" by (simp add: known(3) upsert_def)
    ultimately show ?thesis using known(2) by simp
  next
    case fresh
    let ?r = "rec\<lparr>pr_trust := PROBATION, pr_first_seen_ms := Some t, pr_last_seen_ms := t\<rparr>"
    have P': "fs_peers st' = dir_upsert ?r ?P" by (simp add: fresh(6) upsert_def)
    have "?i \<notin> fst ` set ?P" using fresh(1) by (simp add: dom_map_of_fst dir_get_def)
    then have "length (fs_peers st') = Suc (length ?P)" by (simp add: P' dir_upsert_def keys)
    moreover have "keyed (fs_peers st')" using assms(1) by (auto simp: keyed_def P' dir_upsert_def)
    moreover have "hearsay_only (sd_self_server_id d) ?P (fs_peers st')"
      using hearsay_refl [of "sd_self_server_id d" ?P] fresh unfolding hearsay_only_def P' by auto
    moreover have "fs_node st' = fs_node st" by (simp add: fresh(6) upsert_def)
    ultimately show ?thesis using fresh(5) by simp
  qed
qed

text \<open>A pass over a list that starts and ends in such a relation, once each of its steps does.\<close>

locale learning =
  fixes step :: "'x \<Rightarrow> nat \<times> 'd fed_state \<Rightarrow> nat \<times> 'd fed_state" and self :: string
  assumes learns: "keyed (fs_peers st) \<Longrightarrow> step x (n, st) = (n', st') \<Longrightarrow>
    keyed (fs_peers st') \<and> hearsay_only self (fs_peers st) (fs_peers st') \<and> fs_node st' = fs_node st
      \<and> n' + length (fs_peers st) = n + length (fs_peers st')"
begin

lemma pass:
  assumes "keyed (fs_peers st)" and "fold step xs (n, st) = (n', st')"
  shows "keyed (fs_peers st') \<and> hearsay_only self (fs_peers st) (fs_peers st') \<and> fs_node st' = fs_node st
    \<and> n' + length (fs_peers st) = n + length (fs_peers st')"
  using assms
proof (induction xs arbitrary: n st)
  case Nil
  then show ?case by (simp add: hearsay_refl)
next
  case (Cons x xs)
  obtain n1 st1 where one: "step x (n, st) = (n1, st1)" by (rule prod.exhaust)
  note a = learns [OF Cons.prems(1) one]
  from Cons.prems(2) one have "fold step xs (n1, st1) = (n', st')" by simp
  with Cons.IH [of st1 n1] a have "keyed (fs_peers st')" "hearsay_only self (fs_peers st1) (fs_peers st')" "fs_node st' = fs_node st1"
    "n' + length (fs_peers st1) = n1 + length (fs_peers st')" by blast+
  with a hearsay_trans [of self "fs_peers st" "fs_peers st1" "fs_peers st'"] show ?case by simp
qed

end

interpretation records: learning "learn_record d t" "sd_self_server_id d" for d t
  using learn_record_hearsay by unfold_locales blast

interpretation exchanges: learning "exchange_with d t" "sd_self_server_id d" for d t
proof (unfold_locales, goal_cases)
  case (1 st peer n n' st')
  show ?case
  proof (cases "pr_trust peer = TRUSTED \<and> sn_exchange_directory (sd_sender d) peer \<noteq> None")
    case True
    then obtain rs where "sn_exchange_directory (sd_sender d) peer = Some rs" by blast
    with True 1(2) have "fold (learn_record d t) rs (n, st) = (n', st')" by (simp add: exchange_with_def)
    with records.pass [OF 1(1)] show ?thesis by blast
  next
    case False
    with 1 have "n' = n" "st' = st" by (auto simp: exchange_with_def split: if_splits)
    with 1(1) show ?thesis by (simp add: hearsay_refl)
  qed
qed

text \<open>A directory is hearsay: whatever the records other peers list, an exchange changes nothing about a peer we
  already know except its endpoints, never touches its trust or its key; a peer learned this way starts at
  probation under its own non-empty identifier and key; the node never learns itself; nothing but the directory
  changes; and the count returned is the number of peers added.\<close>

theorem directory_exchange_is_hearsay:
  assumes "keyed (fs_peers st)" and "exchange_directories d now_ms st = (learned, st')"
  shows "hearsay_only (sd_self_server_id d) (fs_peers st) (fs_peers st') \<and> keyed (fs_peers st')
    \<and> fs_node st' = fs_node st \<and> length (fs_peers st') = length (fs_peers st) + learned"
  using exchanges.pass [OF assms(1) assms(2) [unfolded exchange_directories_def]] by simp


section \<open>Backfill\<close>

definition verified_frame :: "('b, 'd) fed_deps \<Rightarrow> bytes \<Rightarrow> string \<Rightarrow> bool" where
  "verified_frame d raw cid \<longleftrightarrow> (\<exists>env canonical. parseEnvelope (dp_sha (fd_pipeline d)) (dp_nfc (fd_pipeline d)) raw = Inr (env, canonical)
     \<and> content_id env = cid \<and> dp_verify (fd_pipeline d) (key_alg env) (author_key env) canonical (signature env))"

lemma accept_new:
  assumes "node_inv (dp_sha (fd_pipeline d)) n" and "handlers_ok (fd_pipeline d)"
    and "accept (fd_pipeline d) clk raw origin n = (res, n', eff)" and "env_has cid (nd_envelopes n')"
  shows "env_has cid (nd_envelopes n) \<or> verified_frame d raw cid"
  using assms(1-3)
proof (cases rule: accept_cases)
  case (refused e)
  then show ?thesis using assms(4) same_content_views by (metis env_has_def)
next
  case (duplicate env h spec)
  then show ?thesis using assms(4) by simp
next
  case (committed env h spec b aa r seen ps)
  have i: "node_inv (dp_sha (fd_pipeline d)) (n\<lparr>nd_anti_abuse := aa\<rparr>)" using assms(1) by (simp add: node_frame_aa)
  have "env_has cid (nd_envelopes n) \<or> cid = content_id env"
    using assms(4) unfolding committed(10) env_has_def new_node_views [OF i] by (auto simp: map_add_def split: option.splits if_splits)
  then show ?thesis using checks_admissible [OF committed(1)] by (auto simp: admissible_def verified_frame_def)
qed

lemma backfill_frame_sound:
  assumes "node_inv (dp_sha (fd_pipeline d)) (fs_node st)" and "handlers_ok (fd_pipeline d)"
    and "backfill_frame d pid a (r, st, e) = (r', st', e')"
  shows "node_inv (dp_sha (fd_pipeline d)) (fs_node st')" and "st' = st\<lparr>fs_node := fs_node st'\<rparr>"
    and "bf_received r' = bf_received r + 1"
    and "bf_received r = bf_accepted r + bf_rejected r + bf_duplicates r \<Longrightarrow> bf_received r' = bf_accepted r' + bf_rejected r' + bf_duplicates r'"
    and "env_has cid (nd_envelopes (fs_node st)) \<Longrightarrow> env_has cid (nd_envelopes (fs_node st'))"
    and "env_has cid (nd_envelopes (fs_node st')) \<Longrightarrow> env_has cid (nd_envelopes (fs_node st)) \<or> verified_frame d (fst a) cid"
proof -
  let ?o = "\<lparr>io_transport_id = ''grpc'', io_peer_id = Some pid, io_origin_server_id = Some pid\<rparr>"
  obtain res n eff where acc: "accept (fd_pipeline d) (snd a) (fst a) ?o (fs_node st) = (res, n, eff)" by (metis surj_pair)
  have st': "st' = st\<lparr>fs_node := n\<rparr>"
    and r': "bf_received r' = bf_received r + 1"
      "bf_received r = bf_accepted r + bf_rejected r + bf_duplicates r \<Longrightarrow> bf_received r' = bf_accepted r' + bf_rejected r' + bf_duplicates r'"
    using assms(3) by (auto simp: backfill_frame_def sync_accept_def acc Let_def split: if_splits)
  show "node_inv (dp_sha (fd_pipeline d)) (fs_node st')" using accept_inv [OF assms(1,2) acc] by (simp add: st')
  show "st' = st\<lparr>fs_node := fs_node st'\<rparr>" by (simp add: st')
  show "bf_received r' = bf_received r + 1" by (rule r')
  show "bf_received r = bf_accepted r + bf_rejected r + bf_duplicates r \<Longrightarrow> bf_received r' = bf_accepted r' + bf_rejected r' + bf_duplicates r'"
    by (rule r')
  show "env_has cid (nd_envelopes (fs_node st)) \<Longrightarrow> env_has cid (nd_envelopes (fs_node st'))"
    using env_has_extends [OF assms(1,2) acc] by (simp add: st')
  show "env_has cid (nd_envelopes (fs_node st')) \<Longrightarrow> env_has cid (nd_envelopes (fs_node st)) \<or> verified_frame d (fst a) cid"
    using accept_new [OF assms(1,2) acc] by (simp add: st')
qed

text \<open>What a run of frames adds to a report and a state, \<open>raws\<close> being the bytes that arrived.\<close>

definition backfilled :: "('b, 'd) fed_deps \<Rightarrow> bytes set \<Rightarrow> backfill_report \<times> 'd fed_state \<Rightarrow> backfill_report \<times> 'd fed_state \<Rightarrow> bool" where
  "backfilled d raws x y \<longleftrightarrow>
     node_inv (dp_sha (fd_pipeline d)) (fs_node (snd y)) \<and> snd y = (snd x)\<lparr>fs_node := fs_node (snd y)\<rparr>
     \<and> (bf_received (fst x) = bf_accepted (fst x) + bf_rejected (fst x) + bf_duplicates (fst x)
         \<longrightarrow> bf_received (fst y) = bf_accepted (fst y) + bf_rejected (fst y) + bf_duplicates (fst y))
     \<and> (\<forall>cid. env_has cid (nd_envelopes (fs_node (snd x))) \<longrightarrow> env_has cid (nd_envelopes (fs_node (snd y))))
     \<and> (\<forall>cid. env_has cid (nd_envelopes (fs_node (snd y))) \<longrightarrow> env_has cid (nd_envelopes (fs_node (snd x))) \<or> (\<exists>raw \<in> raws. verified_frame d raw cid))"

lemma node_only_trans:
  "st1 = st\<lparr>fs_node := fs_node st1\<rparr> \<Longrightarrow> st2 = st1\<lparr>fs_node := fs_node st2\<rparr> \<Longrightarrow> st2 = st\<lparr>fs_node := fs_node st2\<rparr>"
  by (cases st; cases st1; cases st2) simp

lemma backfilled_trans:
  assumes "backfilled d A x y" and "backfilled d A y z"
  shows "backfilled d A x z"
proof -
  have "snd z = (snd x)\<lparr>fs_node := fs_node (snd z)\<rparr>"
    using node_only_trans assms unfolding backfilled_def by blast
  with assms show ?thesis unfolding backfilled_def by blast
qed

lemma backfill_frames:
  assumes "node_inv (dp_sha (fd_pipeline d)) (fs_node st)" and "handlers_ok (fd_pipeline d)" and "fst ` set frames \<subseteq> raws"
    and "fold (backfill_frame d pid) frames (r, st, e) = (r', st', e')"
  shows "backfilled d raws (r, st) (r', st') \<and> bf_received r' = bf_received r + length frames"
  using assms(1,3,4)
proof (induction frames arbitrary: r st e)
  case Nil
  then show ?case by (simp add: backfilled_def)
next
  case (Cons a frames)
  obtain r1 st1 e1 where one: "backfill_frame d pid a (r, st, e) = (r1, st1, e1)" by (metis surj_pair)
  note f = backfill_frame_sound [OF Cons.prems(1) assms(2) one]
  have "backfilled d raws (r, st) (r1, st1)"
    using f(1,2,4,5) f(6) Cons.prems(2) unfolding backfilled_def fst_conv snd_conv by (metis image_subset_iff list.set_intros(1))
  moreover have "backfilled d raws (r1, st1) (r', st') \<and> bf_received r' = bf_received r1 + length frames"
    using Cons.IH [OF f(1)] Cons.prems(2,3) one by simp
  ultimately show ?case using backfilled_trans f(3) by fastforce
qed

definition arrivals :: "('b, 'd) sync_deps \<Rightarrow> peer_record \<Rightarrow> int \<Rightarrow> int \<Rightarrow> int list \<Rightarrow> arrival list" where
  "arrivals d peer from to pls = concat (map (\<lambda>pl. fst (sn_backfill (sd_sender d) peer pl from to)) pls)"

lemma backfill_planes_sound:
  assumes "node_inv (dp_sha (fd_pipeline (sd_fed d))) (fs_node st)" and "handlers_ok (fd_pipeline (sd_fed d))"
    and "fst ` set (arrivals d peer from to pls) \<subseteq> raws"
    and "backfill_planes d peer pid from to pls (r, st, e) = (True, r', st', e')"
  shows "backfilled (sd_fed d) raws (r, st) (r', st') \<and> bf_received r' = bf_received r + length (arrivals d peer from to pls)"
  using assms(1,3,4)
proof (induction pls arbitrary: r st e)
  case Nil
  then show ?case by (simp add: backfilled_def arrivals_def)
next
  case (Cons pl pls)
  obtain frames ok where s: "sn_backfill (sd_sender d) peer pl from to = (frames, ok)" by (rule prod.exhaust)
  obtain r1 st1 e1 where one: "fold (backfill_frame (sd_fed d) pid) frames (r, st, e) = (r1, st1, e1)" by (metis surj_pair)
  have ok: "ok" and rest: "backfill_planes d peer pid from to pls (r1, st1, e1) = (True, r', st', e')"
    using Cons.prems(3) s one by (auto simp: Let_def split: if_splits)
  have raws: "fst ` set frames \<subseteq> raws" "fst ` set (arrivals d peer from to pls) \<subseteq> raws"
    using Cons.prems(2) s by (auto simp: arrivals_def)
  note f = backfill_frames [OF Cons.prems(1) assms(2) raws(1) one]
  then have "node_inv (dp_sha (fd_pipeline (sd_fed d))) (fs_node st1)" by (simp add: backfilled_def)
  with Cons.IH [OF this raws(2) rest] f show ?case
    using backfilled_trans by (fastforce simp: arrivals_def s)
qed

text \<open>C31: Catching up trusts nothing: every frame of a completed backfill is counted once, as accepted, duplicate or
  rejected; what the store held it still holds, and whatever it holds afterwards and did not hold before was in a
  frame that arrived, decodes, and carries a valid signature over its canonical bytes; peers, quotas, alerts and
  trust are untouched.\<close>

theorem backfill_reverifies_and_accounts:
  assumes "node_inv (dp_sha (fd_pipeline (sd_fed d))) (fs_node st)" and "handlers_ok (fd_pipeline (sd_fed d))"
    and "backfill_from d pid from st = (Some r, st', eff)" and "dir_get pid (fs_peers st) = Some peer"
  shows "\<exists>to. bf_received r = length (arrivals d peer from to (planes_of peer))
    \<and> bf_received r = bf_accepted r + bf_rejected r + bf_duplicates r \<and> st' = st\<lparr>fs_node := fs_node st'\<rparr>
    \<and> (\<forall>cid. env_has cid (nd_envelopes (fs_node st)) \<longrightarrow> env_has cid (nd_envelopes (fs_node st')))
    \<and> (\<forall>cid. env_has cid (nd_envelopes (fs_node st')) \<longrightarrow> env_has cid (nd_envelopes (fs_node st))
        \<or> (\<exists>raw \<in> fst ` set (arrivals d peer from to (planes_of peer)). verified_frame (sd_fed d) raw cid))"
proof -
  define to where "to = (case last_peer_sth pid (nd_ledger (fs_node st)) of Some h \<Rightarrow> th_tree_size h | None \<Rightarrow> 0)"
  obtain ok r1 st1 e1 where run: "backfill_planes d peer pid from to (planes_of peer) (EMPTY_BACKFILL, st, []) = (ok, r1, st1, e1)"
    by (metis surj_pair)
  have ok: "ok" "r1 = r" and st': "fs_node st' = fs_node st1 \<or> (\<exists>l. fs_node st' = (fs_node st1)\<lparr>nd_ledger := l\<rparr>)" "st' = st1\<lparr>fs_node := fs_node st'\<rparr>"
    using assms(3,4) run by (auto simp: backfill_from_def Let_def to_def [symmetric] split: bool.splits if_splits)
  note b = backfill_planes_sound [OF assms(1,2) subset_refl run [unfolded ok(1)[THEN eqTrueI]]]
  have "nd_envelopes (fs_node st') = nd_envelopes (fs_node st1)" using st'(1) by auto
  moreover have "st' = st\<lparr>fs_node := fs_node st'\<rparr>"
    using node_only_trans [OF _ st'(2)] b unfolding backfilled_def by simp
  ultimately show ?thesis using b ok(2)
    by (intro exI [of _ to]) (auto simp: backfilled_def EMPTY_BACKFILL_def)
qed


text \<open>The cursor of a peer jumps to the tree size the peer advertised whatever arrived: a backfill that ends without
  an error leaves the stream position at or past that size, however many frames were rejected and however few were
  sent, so the next catch-up starts behind them and never asks for them again.\<close>

theorem cursor_passes_rejected_frames:
  assumes "backfill_from d pid from st = (Some r, st', eff)" and "dir_get pid (fs_peers st) = Some peer"
    and "last_peer_sth pid (nd_ledger (fs_node st)) = Some h" and "from < th_tree_size h"
  shows "th_tree_size h \<le> stream_position pid (nd_ledger (fs_node st'))"
proof -
  obtain ok r1 st1 e1 where run: "backfill_planes d peer pid from (th_tree_size h) (planes_of peer) (EMPTY_BACKFILL, st, []) = (ok, r1, st1, e1)"
    by (metis surj_pair)
  have "st' = st1\<lparr>fs_node := (fs_node st1)\<lparr>nd_ledger := record_stream_position pid (th_tree_size h) (nd_ledger (fs_node st1))\<rparr>\<rparr>"
    using assms run by (auto simp: backfill_from_def Let_def split: bool.splits)
  then show ?thesis by (simp add: record_stream_position_def stream_position_def split: option.split)
qed

text \<open>A handshake that was waiting for its answer undoes a block: it writes back the record it had read before it
  called the peer, so when the node blocked the peer for rewriting its log in between, an answer with no tree head
  and no vouches restores the trust the peer had before, and the block and its reason are gone.\<close>

theorem stale_handshake_lifts_a_fork_block:
  assumes "fork_blocked (pr_server_id peer) st" and "pr_trust peer \<noteq> BLOCKED"
    and "sn_announce (sd_sender d) peer = Some reply" and "an_sth reply = None" and "an_vouches reply = []"
  shows "\<exists>p st'. handshake d clk peer st = (Some p, st') \<and> dir_get (pr_server_id peer) (fs_peers st') = Some p
    \<and> pr_trust p = pr_trust peer \<and> \<not> fork_blocked (pr_server_id peer) st'"
  using assms by (simp add: handshake_def Let_def handshake_record_def upsert_def fork_blocked_def)

section \<open>Samples\<close>

definition sample_sender :: peer_sender where
  "sample_sender = \<lparr>sn_announce = (\<lambda>p. Some \<lparr>an_peer_key = [], an_endpoints = [], an_sth = None, an_vouches = []\<rparr>),
     sn_backfill = (\<lambda>p pl from to. ([([], sample_readings)], True)), sn_exchange_tree_heads = (\<lambda>p. None),
     sn_exchange_directory = (\<lambda>p. Some [p\<lparr>pr_server_id := ''jbs1self'', pr_trust := TRUSTED\<rparr>, p\<lparr>pr_server_id := ''jbs1new''\<rparr>,
       p\<lparr>pr_trust := BLOCKED\<rparr>])\<rparr>"

definition sample_sync :: "(bytes, bytes) sync_deps" where
  "sample_sync = \<lparr>sd_fed = sample_fed_deps, sd_sender = sample_sender, sd_self_server_id = ''jbs1self''\<rparr>"

text \<open>A trusted peer lists this node, a stranger it trusts, and itself as blocked: only the stranger is new, at probation.\<close>

theorem directory_exchange_is_hearsay_witness:
  "\<exists>st'. exchange_directories sample_sync 9 (sample_fed (sample_peer_record\<lparr>pr_trust := TRUSTED\<rparr>)) = (1, st')
    \<and> hearsay_only ''jbs1self'' (fs_peers (sample_fed (sample_peer_record\<lparr>pr_trust := TRUSTED\<rparr>))) (fs_peers st') \<and> length (fs_peers st') = 2"
proof -
  have k: "keyed (fs_peers (sample_fed (sample_peer_record\<lparr>pr_trust := TRUSTED\<rparr>)))"
    by (simp add: keyed_def sample_fed_def)
  obtain n st' where run: "exchange_directories sample_sync 9 (sample_fed (sample_peer_record\<lparr>pr_trust := TRUSTED\<rparr>)) = (n, st')"
    by (rule prod.exhaust)
  have "n = 1"
    using run by (simp add: exchange_directories_def dir_all_def sample_fed_def exchange_with_def sample_sync_def sample_sender_def
        learn_record_def sample_peer_record_def dir_get_def upsert_def dir_upsert_def)
  with run directory_exchange_is_hearsay [OF k run] show ?thesis by (simp add: sample_sync_def sample_fed_def)
qed

definition sample_behind :: "bytes fed_state" where
  "sample_behind = (sample_fed sample_peer_record)\<lparr>fs_node := sample_node\<lparr>nd_ledger := record_peer_sth ''jbs1b'' (sample_head 5 8 [8]) empty_ledger\<rparr>\<rparr>"

lemma sample_behind_inv: "node_inv (dp_sha (fd_pipeline (sd_fed sample_sync))) (fs_node sample_behind)"
  using sample_node_inv by (simp add: sample_behind_def sample_sync_def sample_fed_deps_def node_inv_def record_peer_sth_def empty_ledger_def)

lemma sample_rejects:
  "sync_accept sample_fed_deps pid ([], clk) st = (False, st, [])"
  by (simp add: sync_accept_def accept_def ingress_checks_def acceptSize_def ABSOLUTE_MAX_def res_bind_def)

text \<open>The peer sends one frame, which is refused; the cursor moves from 0 to the advertised 8 all the same.\<close>

theorem cursor_passes_rejected_frames_witness:
  "\<exists>r st' eff. backfill_from sample_sync ''jbs1b'' 0 sample_behind = (Some r, st', eff)
    \<and> bf_rejected r = 1 \<and> bf_accepted r = 0 \<and> 8 \<le> stream_position ''jbs1b'' (nd_ledger (fs_node st'))"
proof -
  obtain r st' eff where run: "backfill_from sample_sync ''jbs1b'' 0 sample_behind = (r, st', eff)" by (metis surj_pair)
  have peer: "dir_get ''jbs1b'' (fs_peers sample_behind) = Some sample_peer_record"
    by (simp add: dir_get_def sample_behind_def sample_fed_def sample_peer_record_def)
  have head: "last_peer_sth ''jbs1b'' (nd_ledger (fs_node sample_behind)) = Some (sample_head 5 8 [8])" "0 < th_tree_size (sample_head 5 8 [8])"
    by (simp_all add: last_peer_sth_def sample_behind_def record_peer_sth_def sample_head_def)
  have planes: "planes_of sample_peer_record = [1]" by (simp add: planes_of_def sample_peer_record_def unrestricted_def FORUM_PLANE_def)
  have frame: "\<exists>eff. backfill_frame sample_fed_deps ''jbs1b'' ([], sample_readings) (EMPTY_BACKFILL, sample_behind, [])
      = (\<lparr>bf_received = 1, bf_accepted = 0, bf_rejected = 1, bf_duplicates = 0\<rparr>, sample_behind, eff)"
    by (simp add: backfill_frame_def Let_def sample_rejects EMPTY_BACKFILL_def)
  then have "r = Some \<lparr>bf_received = 1, bf_accepted = 0, bf_rejected = 1, bf_duplicates = 0\<rparr>"
    using run by (auto simp: backfill_from_def peer head Let_def planes sample_sync_def sample_sender_def)
  with run cursor_passes_rejected_frames [OF _ peer head, of sample_sync _ st' eff] show ?thesis by (auto simp: sample_head_def)
qed

definition sample_good_sync :: "(bytes, bytes) sync_deps" where
  "sample_good_sync = sample_sync\<lparr>sd_sender := sample_sender\<lparr>sn_backfill := (\<lambda>p pl from to. ([(sample_raw, sample_readings), ([], sample_readings)], True))\<rparr>\<rparr>"

theorem backfill_reverifies_and_accounts_witness:
  "\<exists>r st' eff. backfill_from sample_good_sync ''jbs1b'' 0 sample_behind = (Some r, st', eff)
    \<and> bf_received r = 2 \<and> bf_accepted r + bf_rejected r + bf_duplicates r = 2"
proof -
  have inv: "node_inv (dp_sha (fd_pipeline (sd_fed sample_good_sync))) (fs_node sample_behind)"
    using sample_behind_inv by (simp add: sample_good_sync_def)
  have ok: "handlers_ok (fd_pipeline (sd_fed sample_good_sync))"
    by (simp add: sample_good_sync_def sample_sync_def sample_fed_deps_def sample_handlers_ok)
  have peer: "dir_get ''jbs1b'' (fs_peers sample_behind) = Some sample_peer_record"
    by (simp add: dir_get_def sample_behind_def sample_fed_def sample_peer_record_def)
  have planes: "planes_of sample_peer_record = [1]" by (simp add: planes_of_def sample_peer_record_def unrestricted_def FORUM_PLANE_def)
  obtain r st' eff where run: "backfill_from sample_good_sync ''jbs1b'' 0 sample_behind = (r, st', eff)" by (metis surj_pair)
  have "r \<noteq> None"
    using run by (auto simp: backfill_from_def peer Let_def planes sample_good_sync_def sample_sync_def sample_sender_def split: prod.splits)
  then obtain q where q: "r = Some q" by blast
  have "\<And>to. length (arrivals sample_good_sync sample_peer_record 0 to (planes_of sample_peer_record)) = 2"
    by (simp add: arrivals_def planes sample_good_sync_def sample_sync_def)
  with backfill_reverifies_and_accounts [OF inv ok run [unfolded q] peer] run q show ?thesis by auto
qed

text \<open>The record read before the block, still \<open>NORMAL\<close>, is written back over it.\<close>

theorem stale_handshake_lifts_a_fork_block_witness:
  "\<exists>p st'. handshake sample_sync (\<lambda>k. 9) (sample_forked\<lparr>pr_trust := NORMAL, pr_blocked_reason := None\<rparr>) (sample_fed sample_forked) = (Some p, st')
    \<and> pr_trust p = NORMAL \<and> \<not> fork_blocked (serverId [6]) st'"
proof -
  have "fork_blocked (pr_server_id (sample_forked\<lparr>pr_trust := NORMAL, pr_blocked_reason := None\<rparr>)) (sample_fed sample_forked)"
    by (simp add: fork_blocked_def sample_forked_def sample_fed_def dir_get_def truthy_def)
  from stale_handshake_lifts_a_fork_block [OF this, of sample_sync "\<lparr>an_peer_key = [], an_endpoints = [], an_sth = None, an_vouches = []\<rparr>" "\<lambda>k. 9"]
  show ?thesis by (auto simp: sample_sync_def sample_sender_def sample_forked_def)
qed

end
