(* ===== verification/JB_Fork.thy ===== *)
theory JB_Fork
  imports JB_Sync
begin

text \<open>
  The directory under calls that overlap. Every method of \<open>federation-inbox.ts\<close>, \<open>federation-sync.ts\<close> and
  \<open>path-router.ts\<close> that changes a peer reads its record, awaits something - the pipeline for every frame of a delivery,
  the peer's answer to a handshake - and writes the record back as it was read, with its own change. Here such a call is
  two steps with anything in between: it starts by reading, and the record it holds is in flight until it lands. A block
  for a fork stands against every call that starts after it; a call that was in flight already can lift it.
\<close>

section \<open>Calls in flight\<close>

text \<open>What a call has read of the directory when it waits.\<close>

datatype flight =
    In_announce announce_request bytes int "peer_record option"
  | In_vouch peer_vouch peer_record
  | In_deliver string peer_record
  | In_handshake peer_record
  | In_endpoints peer_record "peer_endpoint list"
  | In_directory peer_record

text \<open>The peer whose record the call will write.\<close>

fun flight_peer :: "flight \<Rightarrow> string" where
  "flight_peer (In_announce req sig now_ms existing) = serverId (ar_server_key req)"
| "flight_peer (In_vouch vouch peer) = pr_server_id peer"
| "flight_peer (In_deliver peer_id peer) = pr_server_id peer"
| "flight_peer (In_handshake peer) = pr_server_id peer"
| "flight_peer (In_endpoints peer es) = pr_server_id peer"
| "flight_peer (In_directory rec) = pr_server_id rec"

text \<open>
  The first half of a call: its checks, and the record it reads. An outcome of a dial or a refreshed set of endpoints
  falls back to the caller's copy when the directory has none; a peer named in a directory exchange is new.
\<close>

fun takes_off :: "('b, 'd) sync_deps \<Rightarrow> 'd fed_state \<Rightarrow> flight \<Rightarrow> bool" where
  "takes_off d st (In_announce req sig now_ms existing) \<longleftrightarrow>
     existing = dir_get (serverId (ar_server_key req)) (fs_peers st)
     \<and> check_announce (dp_nfc (fd_pipeline (sd_fed d))) \<lparr>ac_fields = req, ac_signature = sig, ac_now_ms = now_ms,
          ac_window_ms = None, ac_verify = dp_verify (fd_pipeline (sd_fed d)) 1\<rparr> = Inr ()"
| "takes_off d st (In_vouch vouch peer) \<longleftrightarrow>
     dir_get (serverId (pv_peer_key vouch)) (fs_peers st) = Some peer
     \<and> dp_verify (fd_pipeline (sd_fed d)) 1 (pv_asserter_key vouch)
         (server_vouch_signing_bytes (dp_nfc (fd_pipeline (sd_fed d))) (vouch_fields vouch)) (pv_signature vouch)"
| "takes_off d st (In_deliver peer_id peer) \<longleftrightarrow> require_peer peer_id st = Inr peer"
| "takes_off d st (In_handshake peer) \<longleftrightarrow> dir_get (pr_server_id peer) (fs_peers st) = Some peer"
| "takes_off d st (In_endpoints peer es) \<longleftrightarrow>
     (case dir_get (pr_server_id peer) (fs_peers st) of None \<Rightarrow> True | Some current \<Rightarrow> current = peer)"
| "takes_off d st (In_directory rec) \<longleftrightarrow>
     dir_get (pr_server_id rec) (fs_peers st) = None \<and> pr_server_id rec \<noteq> [] \<and> length (pr_public_key rec) \<noteq> 0
     \<and> pr_server_id rec \<noteq> sd_self_server_id d"

text \<open>The second half: what it writes, at time \<open>t\<close>. A delivery writes only when it breached the quota.\<close>

fun lands :: "('b, 'd) sync_deps \<Rightarrow> int \<Rightarrow> announce_reply \<Rightarrow> bool \<Rightarrow> flight \<Rightarrow> 'd fed_state \<Rightarrow> 'd fed_state" where
  "lands d t reply breached (In_announce req sig now_ms existing) st =
     (let peer_id = serverId (ar_server_key req);
          evaluation = announce_evaluation (sd_fed d) existing peer_id now_ms st
      in upsert (announced_record req existing peer_id (fst evaluation) now_ms) st)"
| "lands d t reply breached (In_vouch vouch peer) st =
     (let peer_id = serverId (pv_peer_key vouch);
          kept = filter (\<lambda>v. \<not> same_key (pv_asserter_key v) (pv_asserter_key vouch)) (nullish (pr_vouches peer) []);
          vouches = kept @ [vouch];
          evaluation = evaluate_trust \<lparr>ti_current = Some (pr_trust peer), ti_admin_level = fd_admin_trust (sd_fed d) peer_id,
            ti_vouches = vouches, ti_asserter_trust = asserter_trust_sync st,
            ti_first_seen_ms = nullish (pr_first_seen_ms peer) (pr_last_seen_ms peer), ti_now_ms = t,
            ti_quota_breaches = Some (nullish (pr_quota_breaches peer) 0), ti_blocked_reason = pr_blocked_reason peer\<rparr>
      in upsert (peer\<lparr>pr_vouches := Some vouches, pr_trust := fst evaluation\<rparr>) st)"
| "lands d t reply breached (In_deliver peer_id peer) st = (if breached then note_quota_breach (sd_fed d) t peer st else st)"
| "lands d t reply breached (In_handshake peer) st = upsert (handshake_record peer reply t) st"
| "lands d t reply breached (In_endpoints peer es) st = upsert (peer\<lparr>pr_endpoints := es\<rparr>) st"
| "lands d t reply breached (In_directory rec) st =
     upsert (rec\<lparr>pr_trust := PROBATION, pr_first_seen_ms := Some t, pr_last_seen_ms := t\<rparr>) st"

text \<open>
  The interleaving: calls start, land or end without writing in any order; a tree head is observed with whatever record
  the observer holds; and everything else - the frames of a delivery, quotas, alerts, the log, the cache of asserters -
  leaves the directory alone.
\<close>

inductive interleaved :: "('b, 'd) sync_deps \<Rightarrow> 'd fed_state \<times> flight list \<Rightarrow> 'd fed_state \<times> flight list \<Rightarrow> bool"
  for d :: "('b, 'd) sync_deps" where
  start: "takes_off d st f \<Longrightarrow> interleaved d (st, fs) (st, f # fs)"
| land: "interleaved d (st, fs1 @ f # fs2) (lands d t reply breached f st, fs1 @ fs2)"
| give_up: "interleaved d (st, fs1 @ f # fs2) (st, fs1 @ fs2)"
| observe: "observe_peer_sth (sd_fed d) t p sth st = (status, st') \<Longrightarrow> interleaved d (st, fs) (st', fs)"
| elsewhere: "fs_peers st' = fs_peers st \<Longrightarrow> interleaved d (st, fs) (st', fs)"

section \<open>With nothing in between, the two halves are the call\<close>

lemma announce_in_flight:
  assumes "takes_off d st (In_announce req sig now_ms existing)"
  shows "snd (announce (sd_fed d) now_ms alert_ms req sig st) =
    (let rec = announced_record req existing (serverId (ar_server_key req))
           (fst (announce_evaluation (sd_fed d) existing (serverId (ar_server_key req)) now_ms st)) now_ms;
         st1 = lands d t reply b (In_announce req sig now_ms existing) st
     in case ar_current_sth req of None \<Rightarrow> st1 | Some h \<Rightarrow> snd (observe_peer_sth (sd_fed d) alert_ms rec (to_tree_head h) st1))"
  using assms by (simp add: announce_def Let_def)

lemma vouch_in_flight:
  assumes "takes_off d st (In_vouch vouch peer)"
  shows "snd (record_vouch (sd_fed d) t vouch st) = lands d t reply b (In_vouch vouch peer) (refresh_asserter_trust st)"
  using assms by (simp add: record_vouch_def Let_def)

lemma delivery_in_flight:
  assumes "takes_off d st (In_deliver peer_id peer)"
    and "deliver_frames (sd_fed d) peer peer_id sp frames st = (g, st1)"
  shows "fst (snd (deliver (sd_fed d) t peer_id frames sp st)) = lands d t reply (dg_breached g) (In_deliver peer_id peer) st1"
  using assms by (simp add: deliver_def Let_def)

lemma handshake_in_flight:
  assumes "sn_announce (sd_sender d) peer = Some reply" and "an_sth reply = None" and "an_vouches reply = []"
  shows "snd (handshake d clk peer st) = lands d (clk 0) reply b (In_handshake peer) st"
  using assms by (simp add: handshake_def Let_def)

section \<open>A block stands against later calls\<close>

definition shut_out :: "peer_record \<Rightarrow> bool" where
  "shut_out p \<longleftrightarrow> pr_trust p = BLOCKED \<and> truthy (pr_blocked_reason p)"

lemma fork_blocked_shut_out: "fork_blocked pid st \<longleftrightarrow> (\<exists>p. dir_get pid (fs_peers st) = Some p \<and> shut_out p)"
  by (auto simp: fork_blocked_def shut_out_def)

text \<open>What a call may hold of a blocked peer: the record that says so.\<close>

fun flight_knows :: "string \<Rightarrow> flight \<Rightarrow> bool" where
  "flight_knows pid (In_announce req sig now_ms existing) \<longleftrightarrow>
     (serverId (ar_server_key req) = pid \<longrightarrow> (\<exists>p. existing = Some p \<and> shut_out p))"
| "flight_knows pid (In_vouch vouch peer) \<longleftrightarrow> (pr_server_id peer = pid \<longrightarrow> serverId (pv_peer_key vouch) = pid \<and> shut_out peer)"
| "flight_knows pid (In_deliver peer_id peer) \<longleftrightarrow> pr_server_id peer \<noteq> pid"
| "flight_knows pid (In_handshake peer) \<longleftrightarrow> (pr_server_id peer = pid \<longrightarrow> shut_out peer)"
| "flight_knows pid (In_endpoints peer es) \<longleftrightarrow> (pr_server_id peer = pid \<longrightarrow> shut_out peer)"
| "flight_knows pid (In_directory rec) \<longleftrightarrow> pr_server_id rec \<noteq> pid"

definition block_stands :: "string \<Rightarrow> 'd fed_state \<times> flight list \<Rightarrow> bool" where
  "block_stands pid s \<longleftrightarrow> dir_ok (fs_peers (fst s)) \<and> fork_blocked pid (fst s) \<and> (\<forall>f\<in>set (snd s). flight_knows pid f)"

lemma takes_off_knowing:
  assumes "takes_off d st f" and "dir_ok (fs_peers st)" and "fork_blocked pid st"
  shows "flight_knows pid f"
proof -
  obtain p where p: "dir_get pid (fs_peers st) = Some p" "shut_out p" using assms(3) by (auto simp: fork_blocked_shut_out)
  have id: "dir_get i (fs_peers st) = Some q \<Longrightarrow> pr_server_id q = i" for i q using assms(2) by (simp add: dir_ok_def)
  show ?thesis
  proof (cases f)
    case (In_announce req sig now_ms existing)
    with assms(1) p show ?thesis by auto
  next
    case (In_vouch vouch peer)
    with assms(1) have "dir_get (serverId (pv_peer_key vouch)) (fs_peers st) = Some peer" by simp
    with p id In_vouch show ?thesis by auto
  next
    case (In_deliver peer_id peer)
    with assms(1) have "dir_get peer_id (fs_peers st) = Some peer" "pr_trust peer \<noteq> BLOCKED"
      by (auto simp: require_peer_def at_least_iff split: option.splits if_splits)
    with p id In_deliver show ?thesis by (auto simp: shut_out_def)
  next
    case (In_handshake peer)
    with assms(1) p show ?thesis by auto
  next
    case (In_endpoints peer es)
    with assms(1) p show ?thesis by (auto split: option.splits)
  next
    case (In_directory rec)
    with assms(1) p show ?thesis by auto
  qed
qed

lemma upsert_stands:
  assumes "dir_ok (fs_peers st)" and "fork_blocked pid st" and "pr_server_id q = pid \<longrightarrow> shut_out q"
  shows "dir_ok (fs_peers (upsert q st)) \<and> fork_blocked pid (upsert q st)"
  using assms by (auto simp: fork_blocked_shut_out dir_ok_upsert)

lemma lands_keeps_block:
  assumes "flight_knows pid f" and "dir_ok (fs_peers st)" and "fork_blocked pid st" and "fd_admin_trust (sd_fed d) pid = None"
  shows "dir_ok (fs_peers (lands d t reply b f st)) \<and> fork_blocked pid (lands d t reply b f st)"
proof (cases f)
  case (In_announce req sig now_ms existing)
  define q where "q = announced_record req existing (serverId (ar_server_key req))
    (fst (announce_evaluation (sd_fed d) existing (serverId (ar_server_key req)) now_ms st)) now_ms"
  have "shut_out q" if "pr_server_id q = pid"
  proof -
    have pid: "serverId (ar_server_key req) = pid" using that by (simp add: q_def announced_record_def)
    with assms(1) In_announce obtain p where p: "existing = Some p" "shut_out p" by auto
    have "fst (announce_evaluation (sd_fed d) existing pid now_ms st) = BLOCKED" unfolding announce_evaluation_def
      by (rule fork_reason_blocks) (use p assms(4) in \<open>simp_all add: operator_decided_def shut_out_def\<close>)
    with p pid show ?thesis by (simp add: q_def announced_record_def shut_out_def Let_def)
  qed
  from upsert_stands [OF assms(2,3)] this In_announce show ?thesis by (simp add: q_def Let_def)
next
  case (In_vouch vouch peer)
  have "shut_out (peer\<lparr>pr_vouches := vs, pr_trust := fst (evaluate_trust inp)\<rparr>)"
    if "pr_server_id peer = pid" "ti_admin_level inp = fd_admin_trust (sd_fed d) pid" "ti_blocked_reason inp = pr_blocked_reason peer" for vs inp
  proof -
    from that assms(1) In_vouch have "shut_out peer" by simp
    moreover have "fst (evaluate_trust inp) = BLOCKED"
      by (rule fork_reason_blocks) (use that assms(4) calculation in \<open>simp_all add: operator_decided_def shut_out_def\<close>)
    ultimately show ?thesis by (simp add: shut_out_def)
  qed
  with upsert_stands [OF assms(2,3)] In_vouch assms(1) show ?thesis by (simp add: Let_def)
next
  case (In_deliver peer_id peer)
  obtain q where "pr_server_id q = pr_server_id peer" "fs_peers (note_quota_breach (sd_fed d) t peer st) = dir_upsert q (fs_peers st)"
    by (rule note_quota_breach_peers)
  with In_deliver assms(1-3) show ?thesis by (auto simp: fork_blocked_shut_out dir_ok_upsert)
next
  case (In_handshake peer)
  with upsert_stands [OF assms(2,3), of "handshake_record peer reply t"] assms(1) show ?thesis
    by (simp add: handshake_record_def shut_out_def)
next
  case (In_endpoints peer es)
  with upsert_stands [OF assms(2,3), of "peer\<lparr>pr_endpoints := es\<rparr>"] assms(1) show ?thesis by (simp add: shut_out_def)
next
  case (In_directory rec)
  with upsert_stands [OF assms(2,3), of "rec\<lparr>pr_trust := PROBATION, pr_first_seen_ms := Some t, pr_last_seen_ms := t\<rparr>"] assms(1)
  show ?thesis by simp
qed

lemma interleaved_keeps_block:
  assumes "interleaved d s s'" and "block_stands pid s" and "fd_admin_trust (sd_fed d) pid = None"
  shows "block_stands pid s'"
  using assms(1)
proof (cases rule: interleaved.cases)
  case (start st f fs)
  with assms(2) takes_off_knowing [of d st f pid] show ?thesis by (simp add: block_stands_def)
next
  case (land st fs1 f fs2 t reply b)
  with assms(2) lands_keeps_block [of pid f st d t reply b] assms(3) show ?thesis by (simp add: block_stands_def)
next
  case (give_up st fs1 f fs2)
  with assms(2) show ?thesis by (simp add: block_stands_def)
next
  case (observe t p sth st status st' fs)
  with assms(2) observe_keeps_block [OF observe(3), of pid] show ?thesis by (simp add: block_stands_def)
next
  case (elsewhere st' st fs)
  with assms(2) show ?thesis by (simp add: block_stands_def fork_blocked_def)
qed

text \<open>A delivery that read the peer before it was blocked, and breaches the quota after, lifts the block.\<close>

lemma delivery_in_flight_lifts_the_block:
  assumes "pr_server_id peer = pid" and "demote_one (pr_trust peer) \<noteq> BLOCKED" and "pr_trust peer \<noteq> BLOCKED"
  shows "\<not> fork_blocked pid (lands d t reply True (In_deliver pid peer) st)"
  using assms by (auto simp: note_quota_breach_def Let_def upsert_def alert_def fork_blocked_def)

text \<open>C29: A node caught rewriting its log stays out against everything that starts later: once a peer is blocked for a fork
  and no call about it is in flight, no interleaving of announcements, vouches, deliveries, handshakes, directory
  exchanges, dial outcomes and observed tree heads - each reading the directory at one moment and writing at another,
  with anything in between - lifts the block, as long as the operator has set no level for the peer, and every delivery
  of the peer that starts then is refused. A call that had read the peer's record before it was blocked is outside this:
  when it lands it writes that record back and the block is gone (\<open>delivery_in_flight_lifts_the_block\<close>,
  \<open>stale_handshake_lifts_a_fork_block\<close>).\<close>

theorem fork_block_outlives_every_later_call:
  assumes "(interleaved d)\<^sup>*\<^sup>* (st, fs) (st', fs')" and "dir_ok (fs_peers st)" and "fork_blocked pid st"
    and "\<forall>f\<in>set fs. flight_peer f \<noteq> pid" and "fd_admin_trust (sd_fed d) pid = None"
  shows "fork_blocked pid st'
    \<and> (\<forall>t frames sp. deliver (sd_fed d) t pid frames sp st' = (Inl (rejected FORBIDDEN ''peer is blocked'' None), st', []))"
proof -
  have "flight_knows pid f" if "flight_peer f \<noteq> pid" for f using that by (cases f) auto
  with assms(2-4) have "block_stands pid (st, fs)" by (simp add: block_stands_def)
  with assms(1) have "block_stands pid (st', fs')"
  proof (induction rule: rtranclp_induct)
    case (step a b)
    then show ?case using interleaved_keeps_block [OF step.hyps(2) _ assms(5)] by blast
  qed
  then have "fork_blocked pid st'" by (simp add: block_stands_def)
  then show ?thesis by (auto simp: fork_blocked_def deliver_def require_peer_def at_least_iff less_eq_peer_trust_def)
qed

section \<open>An example\<close>

definition sample_reply :: announce_reply where
  "sample_reply = \<lparr>an_peer_key = [], an_endpoints = [], an_sth = None, an_vouches = []\<rparr>"

text \<open>A vouch with a valid signature for a forked peer starts, waits, and lands: it is recorded and changes nothing else.\<close>

theorem fork_block_outlives_every_later_call_witness:
  "\<exists>vouch peer. pr_server_id peer = serverId [6] \<and> takes_off sample_sync (sample_fed sample_forked) (In_vouch vouch peer)
    \<and> fork_blocked (serverId [6]) (lands sample_sync 9 sample_reply False (In_vouch vouch peer) (sample_fed sample_forked))"
proof -
  let ?v = "(sample_vouch 1 TRUSTED)\<lparr>pv_peer_key := [6], pv_signature := [5]\<rparr>" and ?f = "sample_fed sample_forked"
  have off: "takes_off sample_sync ?f (In_vouch ?v sample_forked)"
    by (simp add: sample_fed_def sample_forked_def dir_get_def sample_sync_def sample_fed_deps_def sample_deps_def)
  have "interleaved sample_sync (?f, []) (?f, [In_vouch ?v sample_forked])" by (rule interleaved.start [OF off])
  moreover have "interleaved sample_sync (?f, [In_vouch ?v sample_forked]) (lands sample_sync 9 sample_reply False (In_vouch ?v sample_forked) ?f, [])"
    using interleaved.land [of sample_sync ?f "[]" "In_vouch ?v sample_forked" "[]" 9 sample_reply False] by simp
  ultimately have "(interleaved sample_sync)\<^sup>*\<^sup>* (?f, []) (lands sample_sync 9 sample_reply False (In_vouch ?v sample_forked) ?f, [])"
    by (meson converse_rtranclp_into_rtranclp rtranclp.rtrancl_refl)
  moreover have "fork_blocked (serverId [6]) ?f" "dir_ok (fs_peers ?f)"
    by (simp_all add: fork_blocked_def sample_fed_def sample_forked_def dir_ok_def dir_get_def truthy_def)
  moreover have "fd_admin_trust (sd_fed sample_sync) (serverId [6]) = None" by (simp add: sample_sync_def sample_fed_deps_def)
  ultimately have "fork_blocked (serverId [6]) (lands sample_sync 9 sample_reply False (In_vouch ?v sample_forked) ?f)"
    using fork_block_outlives_every_later_call [of sample_sync ?f "[]" _ "[]" "serverId [6]"] by simp
  with off show ?thesis by (intro exI [of _ ?v] exI [of _ sample_forked]) (simp add: sample_forked_def)
qed

end
