(* ===== verification/JB_Forum.thy ===== *)
theory JB_Forum
  imports JB_Peers JB_Bridge JB_Canonical
begin

unbundle bit_operations_syntax

text \<open>
  The data of the forum plane: the frozen bitmaps of \<open>features/forum/shared/flags.ts\<close>, the documents the
  handlers project, the store that holds them, and permission resolution (\<open>shared/permissions.ts\<close>,
  \<open>shared/membership.projection.ts\<close>).

  The projection store of the code is a set of named collections whose documents are cast to an interface;
  here every collection is a field of \<open>forum_store\<close> with its own document type, keyed by document id, in
  insertion order. Bitmaps are \<open>BigInt\<close>s, so they are integers with the bitwise operators; a document keeps
  them as a decimal string because BSON has no 64-bit unsigned type, and the model keeps the integer. A
  \<open>null\<close> is \<open>None\<close>.
\<close>

section \<open>Flags\<close>

datatype identity_flag = Id_ACTIVE | Id_BANNED | Id_SHADOWBANNED | Id_VERIFIED | Id_GLOBAL_MODERATOR | Id_GLOBAL_ADMIN
  | Id_KEY_REVOKED

fun IdentityFlag :: "identity_flag \<Rightarrow> int" where
  "IdentityFlag Id_ACTIVE = push_bit 0 1"
| "IdentityFlag Id_BANNED = push_bit 1 1"
| "IdentityFlag Id_SHADOWBANNED = push_bit 2 1"
| "IdentityFlag Id_VERIFIED = push_bit 3 1"
| "IdentityFlag Id_GLOBAL_MODERATOR = push_bit 4 1"
| "IdentityFlag Id_GLOBAL_ADMIN = push_bit 5 1"
| "IdentityFlag Id_KEY_REVOKED = push_bit 6 1"

datatype membership_flag = Ms_MEMBER | Ms_MUTED | Ms_BANNED | Ms_MODERATOR | Ms_CONTRIBUTOR | Ms_APPROVED_SUBMITTER

fun MembershipFlag :: "membership_flag \<Rightarrow> int" where
  "MembershipFlag Ms_MEMBER = push_bit 0 1"
| "MembershipFlag Ms_MUTED = push_bit 1 1"
| "MembershipFlag Ms_BANNED = push_bit 2 1"
| "MembershipFlag Ms_MODERATOR = push_bit 3 1"
| "MembershipFlag Ms_CONTRIBUTOR = push_bit 4 1"
| "MembershipFlag Ms_APPROVED_SUBMITTER = push_bit 5 1"

datatype permission_name =
    community_read | post_create | community_update | member_ban | member_unban | member_kick
  | member_role_update | post_moderate | comment_moderate | modlog_read | report_review | label_trust
  | federation_manage | broadcast_emit

fun Permission :: "permission_name \<Rightarrow> int" where
  "Permission community_read = push_bit 0 1"
| "Permission post_create = push_bit 1 1"
| "Permission community_update = push_bit 2 1"
| "Permission member_ban = push_bit 3 1"
| "Permission member_unban = push_bit 4 1"
| "Permission member_kick = push_bit 5 1"
| "Permission member_role_update = push_bit 6 1"
| "Permission post_moderate = push_bit 7 1"
| "Permission comment_moderate = push_bit 8 1"
| "Permission modlog_read = push_bit 9 1"
| "Permission report_review = push_bit 10 1"
| "Permission label_trust = push_bit 11 1"
| "Permission federation_manage = push_bit 12 1"
| "Permission broadcast_emit = push_bit 13 1"

definition permission_names :: "permission_name list" where
  "permission_names = [community_read, post_create, community_update, member_ban, member_unban, member_kick,
     member_role_update, post_moderate, comment_moderate, modlog_read, report_review, label_trust,
     federation_manage, broadcast_emit]"

definition has_flag :: "int \<Rightarrow> int \<Rightarrow> bool" where
  "has_flag m flag \<longleftrightarrow> m AND flag = flag"

definition set_flag :: "int \<Rightarrow> int \<Rightarrow> int" where
  "set_flag m flag = m OR flag"

definition clear_flag :: "int \<Rightarrow> int \<Rightarrow> int" where
  "clear_flag m flag = m AND NOT flag"

definition DEFAULT_MEMBER_PERMISSIONS :: int where
  "DEFAULT_MEMBER_PERMISSIONS = Permission community_read OR Permission post_create"

definition OWNER_PERMISSIONS :: int where
  "OWNER_PERMISSIONS = foldl (\<lambda>a p. a OR Permission p) 0 permission_names"

definition MODERATOR_PERMISSIONS :: int where
  "MODERATOR_PERMISSIONS =
     Permission community_read OR Permission post_create OR Permission member_ban OR Permission member_unban
     OR Permission member_kick OR Permission post_moderate OR Permission comment_moderate
     OR Permission modlog_read OR Permission report_review"

section \<open>Documents\<close>

record membership_doc =
  ms_id :: string
  ms_community :: string
  ms_member_key :: string
  ms_flags :: int
  ms_joined_at_ms :: int
  ms_restricted_until_ms :: "int option"
  ms_restriction_reason :: "string option"

record role_doc =
  rl_id :: string
  rl_community :: string
  rl_name :: string
  rl_permission_mask :: int
  rl_is_default :: bool
  rl_defined_at_ms :: int

record role_assignment_doc =
  ra_id :: string
  ra_community :: string
  ra_subject_key :: string
  ra_role :: string
  ra_assigned_at_ms :: int

record identity_doc =
  iy_id :: string
  iy_display_name :: string
  iy_bio :: string
  iy_avatar :: string
  iy_banner :: string
  iy_flags :: int
  iy_post_karma :: int
  iy_comment_karma :: int
  iy_first_seen_at_ms :: int

record community_settings =
  allow_text_posts :: bool
  allow_link_posts :: bool
  allow_image_posts :: bool
  allow_video_posts :: bool
  require_post_approval :: bool
  allow_crossposts :: bool
  minimum_karma_to_post :: int
  minimum_account_age_days :: int

record community_theme =
  th_primary :: string
  th_accent :: string
  th_background :: string
  th_foreground :: string

record community_doc =
  cm_id :: string
  cm_name :: string
  cm_title :: string
  cm_description :: string
  cm_rules_markdown :: string
  cm_owner_key :: string
  cm_theme :: community_theme
  cm_settings :: community_settings
  cm_is_private :: bool
  cm_is_nsfw :: bool
  cm_archived :: bool
  cm_member_count :: int
  cm_post_count :: int
  cm_created_at_ms :: int
  cm_updated_at_ms :: int
  cm_content_id :: string

definition membershipKey :: "string \<Rightarrow> string \<Rightarrow> string" where
  "membershipKey community member_key = community @ '':'' @ member_key"

definition roleKey :: "string \<Rightarrow> string \<Rightarrow> string" where
  "roleKey community name = community @ '':'' @ name"

definition roleAssignmentKey :: "string \<Rightarrow> string \<Rightarrow> string \<Rightarrow> string" where
  "roleAssignmentKey community subject_key role = community @ '':'' @ subject_key @ '':'' @ role"

text \<open>Content. \<open>content_flags\<close> is the wire message of the same name, which posts keep as it is.\<close>

record content_flags =
  cf_nsfw :: bool
  cf_spoiler :: bool
  cf_oc :: bool

record poll_doc =
  pl_question :: string
  pl_options :: "string list"
  pl_multiple :: bool
  pl_closes_at_ms :: int

record post_doc =
  po_content_id :: string
  po_author_key :: string
  po_community :: string
  po_title :: string
  po_kind :: int
  po_body_markdown :: string
  po_url :: string
  po_attachments :: "string list"
  po_flair :: string
  po_poll :: "poll_doc option"
  po_crosspost_of :: string
  po_flags :: content_flags
  po_created_at_ms :: int
  po_edited_at_ms :: "int option"
  po_removed :: bool
  po_removed_reason :: "string option"
  po_locked :: bool
  po_pinned :: bool
  po_flagged :: bool
  po_approved :: bool
  po_score :: int
  po_comment_count :: int
  po_award_count :: int

record comment_doc =
  co_content_id :: string
  co_author_key :: string
  co_post :: string
  co_parent_comment :: string
  co_body_markdown :: string
  co_attachments :: "string list"
  co_depth :: int
  co_created_at_ms :: int
  co_removed :: bool
  co_removed_reason :: "string option"
  co_collapsed :: bool
  co_flagged :: bool
  co_approved :: bool
  co_score :: int
  co_reply_count :: int
  co_award_count :: int

record vote_doc =
  vo_id :: string
  vo_author_key :: string
  vo_target :: string
  vo_value :: int
  vo_updated_at_ms :: int
  vo_content_id :: string

text \<open>Governance.\<close>

datatype mod_target_kind = Kind_post | Kind_comment | Kind_identity | Kind_unknown

record mod_target_summary =
  su_kind :: mod_target_kind
  su_target :: string
  su_author_key :: string
  su_author_name :: string
  su_title :: string
  su_excerpt :: string
  su_truncated :: bool
  su_parent_post :: string
  su_created_at_ms :: int
  su_removed :: bool
  su_approved :: bool

record chain_head =
  ch_id :: string
  ch_sequence :: int
  ch_chain_hash :: string

record mod_event_doc =
  me_id :: string
  me_community :: string
  me_actor_key :: string
  me_verb :: int
  me_verb_name :: string
  me_target :: string
  me_target_kind :: int
  me_target_summary :: "mod_target_summary option"
  me_reason :: string
  me_expires_at_ms :: "int option"
  me_created_at_ms :: int
  me_previous_hash :: string
  me_chain_hash :: string
  me_sequence :: int

datatype community_audit_action = Audit_create | Audit_update | Audit_archive

record field_change =
  fc_field :: string
  fc_before :: string
  fc_after :: string

record community_audit_doc =
  au_id :: string
  au_community :: string
  au_actor_key :: string
  au_action :: community_audit_action
  au_changes :: "field_change list"
  au_created_at_ms :: int
  au_previous_hash :: string
  au_chain_hash :: string
  au_sequence :: int

record report_doc =
  rp_id :: string
  rp_community :: string
  rp_reporter_key :: string
  rp_target :: string
  rp_target_kind :: int
  rp_reason :: int
  rp_detail :: string
  rp_status :: int
  rp_action_taken :: int
  rp_resolution_note :: string
  rp_resolved_by_key :: "string option"
  rp_created_at_ms :: int
  rp_resolved_at_ms :: "int option"

datatype notification_kind = Notify_reply | Notify_mention | Notify_award | Notify_mod_action | Notify_follow

record notification_doc =
  nt_id :: string
  nt_recipient_key :: string
  nt_kind :: notification_kind
  nt_content_id :: string
  nt_actor_key :: string
  nt_created_at_ms :: int
  nt_read :: bool

text \<open>Keys.\<close>

record certificate_doc =
  ce_id :: string
  ce_plane :: int
  ce_device_key :: string
  ce_pq_key :: string
  ce_pq_attestation :: string
  ce_valid_from_ms :: int
  ce_valid_until_ms :: int
  ce_self_signature :: string
  ce_content_id :: string
  ce_certified_at_ms :: int

record revocation_doc =
  re_id :: string
  re_plane :: int
  re_revoked_key :: string
  re_kind :: int
  re_effective_from_ms :: int
  re_replacement_key :: string
  re_content_id :: string
  re_revoked_at_ms :: int

text \<open>Self-scoped rows, messages, awards, labels and attachments.\<close>

record edge_doc =
  ed_id :: string
  ed_actor_key :: string
  ed_subject_key :: string
  ed_reason :: string
  ed_updated_at_ms :: int

record saved_doc =
  sv_id :: string
  sv_actor_key :: string
  sv_target :: string
  sv_target_kind :: int
  sv_collection :: string
  sv_updated_at_ms :: int

record feed_prefs_doc =
  fp_id :: string
  fp_default_sort :: int
  fp_default_timeframe :: int
  fp_show_nsfw :: bool
  fp_blur_nsfw :: bool
  fp_layout :: int
  fp_favourite_communities :: "string list"
  fp_hidden_keys :: "string list"
  fp_updated_at_ms :: int

record award_doc =
  aw_id :: string
  aw_target :: string
  aw_target_kind :: int
  aw_award_type :: string
  aw_anonymous :: bool
  aw_giver_key :: "string option"
  aw_message :: string
  aw_created_at_ms :: int

record award_type_doc =
  at_id :: string
  at_slug :: string
  at_name :: string
  at_icon :: string
  at_cost :: int
  at_active :: bool
  at_defined_at_ms :: int

datatype attachment_kind = Att_image | Att_video | Att_audio | Att_document | Att_other

record attachment_doc =
  ac_id :: string
  ac_owner_key :: string
  ac_storage_key :: string
  ac_content_sha256 :: string
  ac_mime :: string
  ac_size_bytes :: int
  ac_width :: int
  ac_height :: int
  ac_duration_ms :: int
  ac_alt_text :: string
  ac_kind :: attachment_kind
  ac_scan_status :: string
  ac_created_at_ms :: int

record attachment_upload_doc =
  up_id :: string
  up_owner_key :: string
  up_storage_key :: string
  up_content_sha256 :: string
  up_mime :: string
  up_size_bytes :: int
  up_confirmed_at_ms :: "int option"

record forum_message_doc =
  fm_id :: string
  fm_sender_key :: string
  fm_recipient_key :: string
  fm_ciphertext :: string
  fm_kem_ciphertext :: string
  fm_ephemeral_x25519 :: string
  fm_thread :: string
  fm_ratchet_index :: int
  fm_created_at_ms :: int

record label_doc =
  la_id :: string
  la_target :: string
  la_labeller_key :: string
  la_verdict :: int
  la_categories :: "string list"
  la_confidence_pct :: int
  la_model_id :: string
  la_reasons :: "string list"
  la_appealable :: bool
  la_created_at_ms :: int

section \<open>The store\<close>

type_synonym 'd collection = "(string, 'd) jsmap"

record forum_store =
  identities :: "identity_doc collection"
  communities :: "community_doc collection"
  memberships :: "membership_doc collection"
  roles :: "role_doc collection"
  role_assignments :: "role_assignment_doc collection"
  posts :: "post_doc collection"
  comments :: "comment_doc collection"
  votes :: "vote_doc collection"
  mod_events :: "mod_event_doc collection"
  mod_heads :: "chain_head collection"
  community_audit :: "community_audit_doc collection"
  community_audit_heads :: "chain_head collection"
  reports :: "report_doc collection"
  notifications :: "notification_doc collection"
  certificates :: "certificate_doc collection"
  revocations :: "revocation_doc collection"
  follows :: "edge_doc collection"
  blocks :: "edge_doc collection"
  saved :: "saved_doc collection"
  feed_prefs :: "feed_prefs_doc collection"
  awards :: "award_doc collection"
  award_types :: "award_type_doc collection"
  attachments :: "attachment_doc collection"
  attachment_uploads :: "attachment_upload_doc collection"
  forum_messages :: "forum_message_doc collection"
  labels :: "label_doc collection"

definition empty_forum_store :: forum_store where
  "empty_forum_store =
     \<lparr>identities = [], communities = [], memberships = [], roles = [], role_assignments = [], posts = [],
      comments = [], votes = [], mod_events = [], mod_heads = [], community_audit = [],
      community_audit_heads = [], reports = [], notifications = [], certificates = [], revocations = [],
      follows = [], blocks = [], saved = [], feed_prefs = [], awards = [], award_types = [], attachments = [],
      attachment_uploads = [], forum_messages = [], labels = []\<rparr>"

text \<open>\<open>find(filter, limit)\<close> of the in-memory store: the first \<open>limit\<close> matching documents.\<close>

definition find_docs :: "('d \<Rightarrow> bool) \<Rightarrow> nat \<Rightarrow> 'd collection \<Rightarrow> 'd list" where
  "find_docs p limit c = take limit (filter p (map snd c))"

section \<open>Permission resolution\<close>

record auth_context =
  ax_actor_key :: string
  ax_community :: "string option"
  ax_community_doc :: "community_doc option"
  ax_membership :: "membership_doc option"
  ax_identity :: "identity_doc option"
  ax_roles :: "role_doc list"
  ax_now_ms :: int

definition restriction_active :: "auth_context \<Rightarrow> bool" where
  "restriction_active ctx = (case Option.bind (ax_membership ctx) ms_restricted_until_ms of
     None \<Rightarrow> True | Some t \<Rightarrow> t > ax_now_ms ctx)"

definition identity_flags :: "auth_context \<Rightarrow> int" where
  "identity_flags ctx = (case ax_identity ctx of None \<Rightarrow> 0 | Some i \<Rightarrow> iy_flags i)"

definition membership_flags :: "auth_context \<Rightarrow> int" where
  "membership_flags ctx = (case ax_membership ctx of None \<Rightarrow> 0 | Some m \<Rightarrow> ms_flags m)"

definition is_owner :: "auth_context \<Rightarrow> bool" where
  "is_owner ctx = (case ax_community_doc ctx of None \<Rightarrow> False | Some c \<Rightarrow> cm_owner_key c = ax_actor_key ctx)"

definition resolve_permissions :: "auth_context \<Rightarrow> int" where
  "resolve_permissions ctx =
     (if has_flag (identity_flags ctx) (IdentityFlag Id_BANNED) then 0
      else if has_flag (identity_flags ctx) (IdentityFlag Id_GLOBAL_ADMIN) then OWNER_PERMISSIONS
      else if ax_community ctx = None \<or> ax_community ctx = Some [] then DEFAULT_MEMBER_PERMISSIONS
      else if has_flag (membership_flags ctx) (MembershipFlag Ms_BANNED) \<and> restriction_active ctx then 0
      else if has_flag (identity_flags ctx) (IdentityFlag Id_GLOBAL_MODERATOR)
        then MODERATOR_PERMISSIONS OR DEFAULT_MEMBER_PERMISSIONS
      else if is_owner ctx then OWNER_PERMISSIONS
      else (let m0 = Permission community_read;
                m1 = (if has_flag (membership_flags ctx) (MembershipFlag Ms_MEMBER)
                      then m0 OR DEFAULT_MEMBER_PERMISSIONS else m0);
                m2 = (if has_flag (membership_flags ctx) (MembershipFlag Ms_MUTED) \<and> restriction_active ctx
                      then m1 AND NOT (Permission post_create) else m1);
                m3 = (if has_flag (membership_flags ctx) (MembershipFlag Ms_MODERATOR)
                      then m2 OR MODERATOR_PERMISSIONS else m2)
            in fold (\<lambda>role m. m OR rl_permission_mask role) (ax_roles ctx) m3))"

definition can :: "auth_context \<Rightarrow> permission_name \<Rightarrow> bool" where
  "can ctx p = (let bit = Permission p in resolve_permissions ctx AND bit = bit)"

definition can_post :: "auth_context \<Rightarrow> bool" where
  "can_post ctx = can ctx post_create"

definition is_community_member :: "auth_context \<Rightarrow> bool" where
  "is_community_member ctx =
     (if has_flag (identity_flags ctx) (IdentityFlag Id_BANNED) then False
      else if has_flag (identity_flags ctx) (IdentityFlag Id_GLOBAL_ADMIN)
        \<or> has_flag (identity_flags ctx) (IdentityFlag Id_GLOBAL_MODERATOR) \<or> is_owner ctx then True
      else if has_flag (membership_flags ctx) (MembershipFlag Ms_BANNED) \<and> restriction_active ctx then False
      else has_flag (membership_flags ctx) (MembershipFlag Ms_MEMBER))"

definition load_auth_context :: "forum_store \<Rightarrow> string \<Rightarrow> string option \<Rightarrow> int \<Rightarrow> auth_context" where
  "load_auth_context st actor community now_ms =
     (case (if community = Some [] then None else community) of
        None \<Rightarrow> \<lparr>ax_actor_key = actor, ax_community = None, ax_community_doc = None, ax_membership = None,
                 ax_identity = map_of (identities st) actor, ax_roles = [], ax_now_ms = now_ms\<rparr>
      | Some c \<Rightarrow>
          \<lparr>ax_actor_key = actor, ax_community = Some c, ax_community_doc = map_of (communities st) c,
           ax_membership = map_of (memberships st) (membershipKey c actor),
           ax_identity = map_of (identities st) actor,
           ax_roles = List.map_filter (\<lambda>a. map_of (roles st) (roleKey c (ra_role a)))
             (filter (\<lambda>a. ra_community a = c \<and> ra_subject_key a = actor)
               (find_docs (\<lambda>a. ra_community a = c \<and> ra_subject_key a = actor) 64 (role_assignments st))),
           ax_now_ms = now_ms\<rparr>)"

section \<open>Text\<close>

text \<open>
  \<open>[...s].length\<close> counts code points, which are the bytes of the UTF-8 form that do not continue a character.
  \<open>trim()\<close> drops the white space and line terminators of the language from both ends.
\<close>

definition continues :: "char \<Rightarrow> bool" where
  "continues c \<longleftrightarrow> (let n = of_char c :: nat in 128 \<le> n \<and> n < 192)"

definition code_point_count :: "string \<Rightarrow> nat" where
  "code_point_count s = length (filter (\<lambda>c. \<not> continues c) s)"

fun take_code_points :: "nat \<Rightarrow> string \<Rightarrow> string" where
  "take_code_points n [] = []"
| "take_code_points n (c # s) =
     (if continues c then c # take_code_points n s
      else (case n of 0 \<Rightarrow> [] | Suc k \<Rightarrow> c # take_code_points k s))"

definition white_space :: "string list" where
  "white_space = map (map char_of)
     ([[9], [10], [11], [12], [13], [32], [0xC2, 0xA0], [0xE1, 0x9A, 0x80]]
      @ map (\<lambda>b. [0xE2, 0x80, b]) ([0x80 ..< 0x8B] @ [0xA8, 0xA9, 0xAF])
      @ [[0xE2, 0x81, 0x9F], [0xE3, 0x80, 0x80], [0xEF, 0xBB, 0xBF :: nat]])"

definition leading_space :: "string list \<Rightarrow> string \<Rightarrow> nat" where
  "leading_space ws s = (case find (\<lambda>w. starts_with w s) ws of None \<Rightarrow> 0 | Some w \<Rightarrow> length w)"

fun trim_start_by :: "nat \<Rightarrow> string list \<Rightarrow> string \<Rightarrow> string" where
  "trim_start_by 0 ws s = s"
| "trim_start_by (Suc k) ws s =
     (if leading_space ws s = 0 then s else trim_start_by k ws (drop (leading_space ws s) s))"

definition js_trim :: "string \<Rightarrow> string" where
  "js_trim s =
     (let front = trim_start_by (length s) white_space s
      in rev (trim_start_by (length front) (map rev white_space) (rev front)))"

definition in_range :: "char \<Rightarrow> char \<Rightarrow> char \<Rightarrow> bool" where
  "in_range a b c \<longleftrightarrow> (of_char a :: nat) \<le> of_char c \<and> (of_char c :: nat) \<le> of_char b"

text \<open>A pattern \<open>/^[class]{a,b}$/\<close> over an ASCII class.\<close>

definition matches_class :: "(char \<Rightarrow> bool) \<Rightarrow> nat \<Rightarrow> nat \<Rightarrow> string \<Rightarrow> bool" where
  "matches_class cls a b s \<longleftrightarrow> a \<le> length s \<and> length s \<le> b \<and> list_all cls s"

definition lower_alnum :: "char \<Rightarrow> bool" where
  "lower_alnum c \<longleftrightarrow> in_range (CHR ''a'') (CHR ''z'') c \<or> in_range (CHR ''0'') (CHR ''9'') c"

definition COMMUNITY_NAME_PATTERN :: "string \<Rightarrow> bool" where
  "COMMUNITY_NAME_PATTERN = matches_class (\<lambda>c. lower_alnum c \<or> c = CHR ''_'') 3 24"

definition ROLE_NAME_PATTERN :: "string \<Rightarrow> bool" where
  "ROLE_NAME_PATTERN = matches_class (\<lambda>c. lower_alnum c \<or> c = CHR ''_'' \<or> c = CHR ''-'') 2 32"

definition AWARD_SLUG_PATTERN :: "string \<Rightarrow> bool" where
  "AWARD_SLUG_PATTERN = matches_class (\<lambda>c. lower_alnum c \<or> c = CHR ''_'' \<or> c = CHR ''-'') 2 32"

definition HEX_KEY_PATTERN :: "string \<Rightarrow> bool" where
  "HEX_KEY_PATTERN = matches_class (\<lambda>c. in_range (CHR ''0'') (CHR ''9'') c \<or> in_range (CHR ''a'') (CHR ''f'') c) 64 64"

text \<open>\<open>toString('base64')\<close>.\<close>

definition base64_digit :: "nat \<Rightarrow> char" where
  "base64_digit n = ''ABCDEFGHIJKLMNOPQRSTUVWXYZabcdefghijklmnopqrstuvwxyz0123456789+/'' ! n"

fun base64 :: "bytes \<Rightarrow> string" where
  "base64 [] = []"
| "base64 [a] = (let v = unat a * 16 in [base64_digit (v div 64), base64_digit (v mod 64), CHR ''='', CHR ''=''])"
| "base64 [a, b] = (let v = (unat a * 256 + unat b) * 4
     in [base64_digit (v div 4096), base64_digit (v div 64 mod 64), base64_digit (v mod 64), CHR ''=''])"
| "base64 (a # b # c # bs) = (let v = (unat a * 256 + unat b) * 256 + unat c
     in base64_digit (v div 262144) # base64_digit (v div 4096 mod 64) # base64_digit (v div 64 mod 64)
        # base64_digit (v mod 64) # base64 bs)"

section \<open>Masks as sets of bits\<close>

definition within_mask :: "int \<Rightarrow> int \<Rightarrow> bool" where
  "within_mask a b \<longleftrightarrow> a AND NOT b = 0"

lemma within_mask_iff: "within_mask a b \<longleftrightarrow> (\<forall>n. bit a n \<longrightarrow> bit b n)"
  by (auto simp: within_mask_def bit_eq_iff bit_simps)

lemma within_mask_refl [simp, intro]: "within_mask a a"
  by (simp add: within_mask_iff)

lemma within_mask_0 [simp]: "within_mask 0 b"
  by (simp add: within_mask_iff)

lemma within_mask_trans: "within_mask a b \<Longrightarrow> within_mask b c \<Longrightarrow> within_mask a c"
  by (simp add: within_mask_iff)

lemma within_mask_or [simp]: "within_mask (a OR b) c \<longleftrightarrow> within_mask a c \<and> within_mask b c"
  by (auto simp: within_mask_iff bit_simps)

lemma within_mask_clear: "within_mask a b \<Longrightarrow> within_mask (a AND NOT c) b"
  by (auto simp: within_mask_iff bit_simps)

lemma within_mask_bit: "a AND b = b \<Longrightarrow> within_mask a c \<Longrightarrow> within_mask b c"
  by (metis bit_and_iff within_mask_iff)

lemma has_flag_set [simp]: "has_flag (set_flag m f) f"
  by (simp add: has_flag_def set_flag_def bit_eq_iff bit_simps) blast

lemma has_flag_bit: "has_flag m (push_bit n 1) \<longleftrightarrow> bit m n"
proof -
  have "m AND push_bit n 1 = push_bit n 1 \<longleftrightarrow> (\<forall>k. bit m k \<and> n \<le> k \<and> k - n = 0 \<longleftrightarrow> n \<le> k \<and> k - n = 0)"
    by (simp only: bit_eq_iff bit_and_iff bit_push_bit_iff bit_1_iff) (auto simp: conj_commute)
  also have "\<dots> \<longleftrightarrow> bit m n" by (metis diff_is_0_eq diff_self_eq_0 le_antisym order_refl)
  finally show ?thesis by (simp only: has_flag_def)
qed

lemma bit_push_1: "bit (push_bit k 1 :: int) n \<longleftrightarrow> n = k"
  unfolding bit_push_bit_iff bit_1_iff by auto

lemma has_flag_set_bit: "has_flag (m OR push_bit k 1) (push_bit n 1) \<longleftrightarrow> n = k \<or> has_flag m (push_bit n 1)"
  unfolding has_flag_bit bit_or_iff bit_push_1 by blast

lemma has_flag_clear_bit: "has_flag (m AND NOT (push_bit k 1)) (push_bit n 1) \<longleftrightarrow> n \<noteq> k \<and> has_flag m (push_bit n 1)"
  unfolding has_flag_bit bit_and_iff bit_not_iff bit_push_1 by auto

text \<open>Position of a membership flag in the bitmap.\<close>

fun membership_bit :: "membership_flag \<Rightarrow> nat" where
  "membership_bit Ms_MEMBER = 0" | "membership_bit Ms_MUTED = 1" | "membership_bit Ms_BANNED = 2"
| "membership_bit Ms_MODERATOR = 3" | "membership_bit Ms_CONTRIBUTOR = 4" | "membership_bit Ms_APPROVED_SUBMITTER = 5"

lemma MembershipFlag_bit: "MembershipFlag f = push_bit (membership_bit f) 1"
  by (cases f) simp_all

lemma membership_bit_inj: "membership_bit f = membership_bit g \<longleftrightarrow> f = g"
  by (cases f; cases g) simp_all

lemma membership_flag_set [simp]:
  "has_flag (set_flag m (MembershipFlag f)) (MembershipFlag g) \<longleftrightarrow> g = f \<or> has_flag m (MembershipFlag g)"
  unfolding set_flag_def MembershipFlag_bit has_flag_set_bit membership_bit_inj by (rule refl)

lemma membership_flag_clear [simp]:
  "has_flag (clear_flag m (MembershipFlag f)) (MembershipFlag g) \<longleftrightarrow> g \<noteq> f \<and> has_flag m (MembershipFlag g)"
  unfolding clear_flag_def MembershipFlag_bit has_flag_clear_bit membership_bit_inj by (rule refl)

lemma membership_flag_or [simp]:
  "has_flag (MembershipFlag f OR MembershipFlag g) (MembershipFlag h) \<longleftrightarrow> h = f \<or> h = g"
  unfolding MembershipFlag_bit membership_bit_inj [symmetric] has_flag_bit bit_or_iff bit_push_1 by (rule refl)

lemma has_flag_0 [simp]: "\<not> has_flag 0 (MembershipFlag f)" "\<not> has_flag 0 (IdentityFlag g)"
  by (cases f; simp add: has_flag_def) (cases g; simp add: has_flag_def)

lemma owner_permissions_value: "OWNER_PERMISSIONS = 16383"
  by (simp add: OWNER_PERMISSIONS_def permission_names_def)

lemma permission_in_owner: "within_mask (Permission p) OWNER_PERMISSIONS"
  by (cases p) (simp_all add: within_mask_def owner_permissions_value)

lemma owner_has_all: "OWNER_PERMISSIONS AND Permission p = Permission p"
  using permission_in_owner [of p] by (auto simp: within_mask_iff bit_eq_iff bit_simps)

text \<open>Every mask that permission resolution can reach is a union of what the store grants.\<close>

lemma within_mask_fold_or:
  "within_mask (fold (\<lambda>x m. m OR f x) xs m) B \<longleftrightarrow> within_mask m B \<and> (\<forall>x\<in>set xs. within_mask (f x) B)"
  by (induction xs arbitrary: m) auto

lemma fold_or_contains: "m AND b = b \<Longrightarrow> fold (\<lambda>x m. m OR f x) xs m AND b = b"
proof (induction xs arbitrary: m)
  case (Cons x xs)
  have "(m OR f x) AND b = b" using Cons.prems by (auto simp: bit_eq_iff bit_simps)
  then show ?case by (simp add: Cons.IH)
qed simp

lemma can_iff: "can ctx p \<longleftrightarrow> within_mask (Permission p) (resolve_permissions ctx)"
  by (auto simp: can_def Let_def within_mask_iff bit_eq_iff bit_simps)

section \<open>What the handlers are constructed with\<close>

text \<open>
  The node's own identifier, the hash and signature functions of the SDK's cryptography, and the two optional
  ports: object storage (whose \<open>confirm\<close> gives \<open>None\<close> where it throws) and the operator's settings, of which
  the handlers read one.
\<close>

record blob_info =
  bl_mime :: string
  bl_size :: int
  bl_sha256 :: bytes

record forum_deps =
  fd_sha :: "bytes \<Rightarrow> bytes"
  fd_server_id :: string
  fd_ed_verify :: "bytes \<Rightarrow> bytes \<Rightarrow> bytes \<Rightarrow> bool"
  fd_mldsa_verify :: "bytes \<Rightarrow> bytes \<Rightarrow> bytes \<Rightarrow> bool"
  fd_blobs :: "(string \<Rightarrow> blob_info option) option"
  fd_registrations_open :: "bool option"

definition env_time :: "parsed_envelope \<Rightarrow> int" where
  "env_time env = js_number (created_at_ms env)"

definition env_author :: "parsed_envelope \<Rightarrow> string" where
  "env_author env = hex (author_key env)"

definition env_auth :: "forum_store \<Rightarrow> parsed_envelope \<Rightarrow> string \<Rightarrow> auth_context" where
  "env_auth st env community = load_auth_context st (env_author env) (Some community) (env_time env)"

text \<open>\<open>a || b\<close> on strings.\<close>

definition or_else :: "string \<Rightarrow> string \<Rightarrow> string" where
  "or_else a b = (if a = [] then b else a)"

end
