(* ===== verification/JB_Chain.thy ===== *)
theory JB_Chain
  imports JB_Forum
begin

text \<open>
  Hash chains over public rows: what the mod log (\<open>moderation.projection.ts\<close>) and the community audit
  (\<open>community-audit.projection.ts\<close>) have in common. Each row keeps the hash of the row before it and its own
  hash over that and its own fields; a verifier walks the rows and answers the index of the first bad link.
  The locale \<open>chained\<close> is that contract, and its lemmas hold of both chains.
\<close>

section \<open>Joining with NUL\<close>

definition NUL :: char where "NUL = char_of (0 :: nat)"

fun join_nul :: "string list \<Rightarrow> string" where
  "join_nul [] = []"
| "join_nul [p] = p"
| "join_nul (p # q # ps) = p @ NUL # join_nul (q # ps)"

lemma join_nul_Cons: "ps \<noteq> [] \<Longrightarrow> join_nul (p # ps) = p @ NUL # join_nul ps"
  by (cases ps) simp_all

lemma join_nul_head:
  assumes "join_nul (p # ps) = join_nul (q # qs)" and "ps \<noteq> []" and "qs \<noteq> []" and "NUL \<notin> set p" and "NUL \<notin> set q"
  shows "p = q" and "join_nul ps = join_nul qs"
  using delimited_eq [of NUL p q "join_nul ps" "join_nul qs"] assms by (simp_all add: join_nul_Cons)

text \<open>A text that may hold anything, split off by its announced length.\<close>

lemma utf16_length_append [simp]: "utf16_length (a @ b) = utf16_length a + utf16_length b"
  by (simp add: utf16_length_def)

lemma utf16_length_NUL [simp]: "utf16_length (NUL # b) = Suc (utf16_length b)"
  by (simp add: utf16_length_def utf16_units_def NUL_def)

lemma split_at_length:
  assumes "a @ NUL # r = b @ NUL # s" and "utf16_length a = utf16_length b"
  shows "a = b \<and> r = s"
proof -
  from assms(1) obtain c where c: "a = b @ c \<and> c @ NUL # r = NUL # s \<or> a @ c = b \<and> NUL # r = c @ NUL # s"
    unfolding append_eq_append_conv2 by blast
  with assms(2) have "utf16_length c = 0" by auto
  with c show ?thesis by (cases c) auto
qed

lemma join_nul_text:
  assumes "join_nul (p # ps) = join_nul (q # qs)" and "ps \<noteq> []" and "qs \<noteq> []" and "utf16_length p = utf16_length q"
  shows "p = q" and "join_nul ps = join_nul qs"
  using split_at_length [of p "join_nul ps" q "join_nul qs"] assms by (simp_all add: join_nul_Cons)

section \<open>Chains\<close>

locale chained =
  fixes expected :: "string \<Rightarrow> 'e \<Rightarrow> string"
    and previous_of :: "'e \<Rightarrow> string"
    and hash_of :: "'e \<Rightarrow> string"
    and verify :: "nat \<Rightarrow> string \<Rightarrow> 'e list \<Rightarrow> nat option"
  assumes verify_Nil: "verify i p [] = None"
    and verify_Cons: "verify i p (e # es) =
      (if previous_of e \<noteq> p then Some i
       else if expected p e \<noteq> hash_of e then Some i else verify (Suc i) (hash_of e) es)"
begin

definition last_hash :: "string \<Rightarrow> 'e list \<Rightarrow> string" where
  "last_hash p es = (case rev es of [] \<Rightarrow> p | e # _ \<Rightarrow> hash_of e)"

lemma last_hash_simps [simp]:
  "last_hash p [] = p" "last_hash p (es @ [e]) = hash_of e" "last_hash p (e # es) = last_hash (hash_of e) es"
  by (auto simp: last_hash_def split: list.splits)

lemma verify_snoc:
  "verify i p (es @ [e]) = None \<longleftrightarrow>
     verify i p es = None \<and> previous_of e = last_hash p es \<and> expected (last_hash p es) e = hash_of e"
  by (induction es arbitrary: i p) (auto simp: verify_Nil verify_Cons)

text \<open>The answer is the first bad link: everything before it verifies.\<close>

lemma verify_position:
  assumes "verify i p es = Some k"
  shows "i \<le> k \<and> k < i + length es \<and> verify i p (take (k - i) es) = None"
  using assms
proof (induction es arbitrary: i p)
  case (Cons e es)
  show ?case
  proof (cases "previous_of e = p \<and> expected p e = hash_of e")
    case True
    with Cons.prems have "verify (Suc i) (hash_of e) es = Some k" by (simp add: verify_Cons)
    from Cons.IH [OF this] True show ?thesis
      by (auto simp: verify_Cons take_Cons' split: if_splits)
  next
    case False
    with Cons.prems show ?thesis by (auto simp: verify_Cons verify_Nil split: if_splits)
  qed
qed (simp add: verify_Nil)

text \<open>Two chains that verify and end in the same hash agree row by row on whatever the hash commits to.\<close>

lemma same_end_same_rows:
  assumes "verify i p es = None" and "verify j p fs = None" and "last_hash p es = last_hash p fs"
    and "\<And>e. e \<in> set es \<union> set fs \<Longrightarrow> ok e"
    and commits: "\<And>e f. ok e \<Longrightarrow> ok f \<Longrightarrow> expected (previous_of e) e = expected (previous_of f) f \<Longrightarrow>
      previous_of e = previous_of f \<and> same e f"
    and starts: "\<And>e q. expected q e \<noteq> p"
  shows "list_all2 same es fs"
  using assms(1-4)
proof (induction es arbitrary: fs rule: rev_induct)
  case Nil
  then show ?case by (cases fs rule: rev_cases) (use starts in \<open>auto simp: verify_snoc\<close>)
next
  case (snoc e es)
  show ?case
  proof (cases fs rule: rev_cases)
    case Nil
    with snoc.prems starts show ?thesis by (auto simp: verify_snoc)
  next
    case (snoc gs f)
    from snoc.prems snoc have vs: "verify i p es = None" "verify j p gs = None"
      and prev: "previous_of e = last_hash p es" "previous_of f = last_hash p gs"
      and eq: "expected (previous_of e) e = expected (previous_of f) f" by (simp_all add: verify_snoc)
    have both: "previous_of e = previous_of f \<and> same e f"
      by (rule commits [OF _ _ eq]) (use snoc.prems(4) snoc in auto)
    with prev vs have "list_all2 same es gs"
      by (intro snoc.IH) (use snoc.prems(4) snoc in auto)
    with both snoc show ?thesis by (simp add: list_all2_appendI)
  qed
qed

end

end
