(* ===== verification/JB_Community.thy ===== *)
theory JB_Community
  imports JB_Chain
begin

text \<open>
  The life cycle of a community (\<open>community/community.handlers.ts\<close>): create, update and archive, and the chained
  audit of its settings (\<open>community-audit.projection.ts\<close>). A handler is three definitions, as in the code:
  \<open>_validate\<close> reads the body and the envelope, \<open>_authorize\<close> the store, and \<open>_project\<close> gives the store after it.
\<close>

section \<open>Messages and defaults\<close>

record community_create_msg =
  cc_name :: string
  cc_title :: string
  cc_description :: string
  cc_rules_markdown :: string
  cc_theme :: "community_theme option"
  cc_settings :: "community_settings option"
  cc_is_private :: bool
  cc_is_nsfw :: bool

record community_update_msg =
  cu_target :: string
  cu_patch :: "community_create_msg option"

record community_archive_msg =
  ca_target :: string
  ca_archived :: bool

definition DEFAULT_SETTINGS :: community_settings where
  "DEFAULT_SETTINGS =
     \<lparr>allow_text_posts = True, allow_link_posts = True, allow_image_posts = True, allow_video_posts = True,
      require_post_approval = False, allow_crossposts = True, minimum_karma_to_post = 0,
      minimum_account_age_days = 0\<rparr>"

definition DEFAULT_THEME :: community_theme where
  "DEFAULT_THEME = \<lparr>th_primary = [], th_accent = [], th_background = [], th_foreground = []\<rparr>"

definition community_id :: "string \<Rightarrow> string \<Rightarrow> string" where
  "community_id name origin = name @ ''@'' @ origin"

definition settings_from :: "community_create_msg \<Rightarrow> community_settings" where
  "settings_from patch = (case cc_settings patch of None \<Rightarrow> DEFAULT_SETTINGS | Some s \<Rightarrow> s)"

definition theme_from :: "community_create_msg \<Rightarrow> community_theme" where
  "theme_from patch = (case cc_theme patch of None \<Rightarrow> DEFAULT_THEME | Some t \<Rightarrow> t)"

definition MAX_TITLE :: nat where "MAX_TITLE = 100"
definition MAX_DESCRIPTION :: nat where "MAX_DESCRIPTION = 500"
definition MAX_RULES :: nat where "MAX_RULES = 10000"

definition validate_metadata :: "string \<Rightarrow> string \<Rightarrow> string \<Rightarrow> validation" where
  "validate_metadata title description rules =
     (if code_point_count title > MAX_TITLE
      then Invalid (''title exceeds '' @ digits_of MAX_TITLE @ '' characters'') (Some ''title'')
      else if code_point_count description > MAX_DESCRIPTION
      then Invalid (''description exceeds '' @ digits_of MAX_DESCRIPTION @ '' characters'') (Some ''description'')
      else if code_point_count rules > MAX_RULES
      then Invalid (''rules exceed '' @ digits_of MAX_RULES @ '' characters'') (Some ''rules_markdown'')
      else Valid)"

section \<open>The audit chain\<close>

fun audit_action_text :: "community_audit_action \<Rightarrow> string" where
  "audit_action_text Audit_create = ''create''"
| "audit_action_text Audit_update = ''update''"
| "audit_action_text Audit_archive = ''archive''"

definition change_parts :: "field_change \<Rightarrow> string list" where
  "change_parts c =
     [digits_of (utf16_length (fc_field c)), fc_field c, digits_of (utf16_length (fc_before c)), fc_before c,
      digits_of (utf16_length (fc_after c)), fc_after c]"

definition audit_material ::
  "string \<Rightarrow> string \<Rightarrow> string \<Rightarrow> string \<Rightarrow> community_audit_action \<Rightarrow> field_change list \<Rightarrow> int \<Rightarrow> string" where
  "audit_material previous_hash cid community actor action changes created_at =
     join_nul ([''jb:community-audit:v1'', previous_hash, cid, community, actor, audit_action_text action,
                digits_of (length changes)]
               @ concat (map change_parts changes) @ [js_string_of_int created_at])"

definition community_audit_chain_hash ::
  "(bytes \<Rightarrow> bytes) \<Rightarrow> string \<Rightarrow> string \<Rightarrow> string \<Rightarrow> string \<Rightarrow> community_audit_action \<Rightarrow> field_change list \<Rightarrow> int \<Rightarrow> string" where
  "community_audit_chain_hash sha previous_hash cid community actor action changes created_at =
     hex (sha (text_encode (audit_material previous_hash cid community actor action changes created_at)))"

definition audit_expected :: "(bytes \<Rightarrow> bytes) \<Rightarrow> string \<Rightarrow> community_audit_doc \<Rightarrow> string" where
  "audit_expected sha previous_hash e =
     community_audit_chain_hash sha previous_hash (au_id e) (au_community e) (au_actor_key e) (au_action e)
       (au_changes e) (au_created_at_ms e)"

text \<open>\<open>verifyCommunityAuditChain\<close>: \<open>None\<close> is \<open>{ ok: true }\<close>, \<open>Some i\<close> is \<open>{ ok: false, brokenAt: i }\<close>.\<close>

fun audit_verify_from :: "(bytes \<Rightarrow> bytes) \<Rightarrow> nat \<Rightarrow> string \<Rightarrow> community_audit_doc list \<Rightarrow> nat option" where
  "audit_verify_from sha i previous_hash [] = None"
| "audit_verify_from sha i previous_hash (e # es) =
     (if au_previous_hash e \<noteq> previous_hash then Some i
      else if audit_expected sha previous_hash e \<noteq> au_chain_hash e then Some i
      else audit_verify_from sha (Suc i) (au_chain_hash e) es)"

definition verify_community_audit_chain :: "(bytes \<Rightarrow> bytes) \<Rightarrow> community_audit_doc list \<Rightarrow> nat option" where
  "verify_community_audit_chain sha events = audit_verify_from sha 0 [] events"

interpretation audit_chain: chained "audit_expected sha" au_previous_hash au_chain_hash "audit_verify_from sha"
  for sha
  by unfold_locales simp_all

definition append_community_audit ::
  "forum_deps \<Rightarrow> string \<Rightarrow> string \<Rightarrow> string \<Rightarrow> community_audit_action \<Rightarrow> field_change list \<Rightarrow> int \<Rightarrow> forum_store \<Rightarrow> forum_store" where
  "append_community_audit d community cid actor action changes created_at st =
     (let previous = map_of (community_audit_heads st) community;
          previous_hash = (case previous of None \<Rightarrow> [] | Some h \<Rightarrow> ch_chain_hash h);
          sequence = (case previous of None \<Rightarrow> -1 | Some h \<Rightarrow> ch_sequence h) + 1;
          h = community_audit_chain_hash (fd_sha d) previous_hash cid community actor action changes created_at;
          doc = \<lparr>au_id = cid, au_community = community, au_actor_key = actor, au_action = action,
                 au_changes = changes, au_created_at_ms = created_at, au_previous_hash = previous_hash,
                 au_chain_hash = h, au_sequence = sequence\<rparr>
      in st\<lparr>community_audit := al_set cid doc (community_audit st),
            community_audit_heads := al_set community
              \<lparr>ch_id = community, ch_sequence = sequence, ch_chain_hash = h\<rparr> (community_audit_heads st)\<rparr>)"

section \<open>Field differences\<close>

text \<open>A flat object is its keys and the \<open>String(...)\<close> of their values, in insertion order.\<close>

type_synonym flat = "(string \<times> string) list"

definition text_of_bool :: "bool \<Rightarrow> string" where
  "text_of_bool b = (if b then ''true'' else ''false'')"

definition diff_fields :: "flat \<Rightarrow> flat \<Rightarrow> string \<Rightarrow> field_change list" where
  "diff_fields before after prefix =
     (let was = (\<lambda>k. case map_of before k of None \<Rightarrow> [] | Some v \<Rightarrow> v)
      in map (\<lambda>(k, v). \<lparr>fc_field = prefix @ k, fc_before = was k, fc_after = v\<rparr>)
           (filter (\<lambda>(k, v). was k \<noteq> v) after))"

definition flat_metadata :: "community_doc \<Rightarrow> flat" where
  "flat_metadata c =
     [(''title'', cm_title c), (''description'', cm_description c), (''rulesMarkdown'', cm_rules_markdown c),
      (''isPrivate'', text_of_bool (cm_is_private c)), (''isNsfw'', text_of_bool (cm_is_nsfw c))]"

definition flat_settings :: "community_settings \<Rightarrow> flat" where
  "flat_settings s =
     [(''allowTextPosts'', text_of_bool (allow_text_posts s)), (''allowLinkPosts'', text_of_bool (allow_link_posts s)),
      (''allowImagePosts'', text_of_bool (allow_image_posts s)), (''allowVideoPosts'', text_of_bool (allow_video_posts s)),
      (''requirePostApproval'', text_of_bool (require_post_approval s)),
      (''allowCrossposts'', text_of_bool (allow_crossposts s)),
      (''minimumKarmaToPost'', js_string_of_int (minimum_karma_to_post s)),
      (''minimumAccountAgeDays'', js_string_of_int (minimum_account_age_days s))]"

definition flat_theme :: "community_theme \<Rightarrow> flat" where
  "flat_theme t =
     [(''primary'', th_primary t), (''accent'', th_accent t), (''background'', th_background t),
      (''foreground'', th_foreground t)]"

section \<open>Create\<close>

definition created_id :: "forum_deps \<Rightarrow> string option \<Rightarrow> community_create_msg \<Rightarrow> string" where
  "created_id d origin m = community_id (cc_name m) (case origin of None \<Rightarrow> fd_server_id d | Some s \<Rightarrow> s)"

definition CommunityCreate_validate :: "community_create_msg \<Rightarrow> parsed_envelope \<Rightarrow> validation" where
  "CommunityCreate_validate m env =
     (if \<not> COMMUNITY_NAME_PATTERN (cc_name m)
      then Invalid ''name must be 3-24 lowercase letters, digits or underscores'' (Some ''name'')
      else validate_metadata (cc_title m) (cc_description m) (cc_rules_markdown m))"

definition CommunityCreate_authorize ::
  "forum_deps \<Rightarrow> string option \<Rightarrow> forum_store \<Rightarrow> community_create_msg \<Rightarrow> parsed_envelope \<Rightarrow> auth_decision" where
  "CommunityCreate_authorize d origin st m env =
     (case map_of (communities st) (created_id d origin m) of
        Some _ \<Rightarrow> Denied (''community '' @ cc_name m @ '' already exists on this instance'')
      | None \<Rightarrow> Allowed)"

definition created_doc :: "forum_deps \<Rightarrow> string option \<Rightarrow> community_create_msg \<Rightarrow> parsed_envelope \<Rightarrow> community_doc" where
  "created_doc d origin m env =
     \<lparr>cm_id = created_id d origin m, cm_name = cc_name m, cm_title = cc_title m,
      cm_description = cc_description m, cm_rules_markdown = cc_rules_markdown m, cm_owner_key = env_author env,
      cm_theme = theme_from m, cm_settings = settings_from m, cm_is_private = cc_is_private m,
      cm_is_nsfw = cc_is_nsfw m, cm_archived = False, cm_member_count = 1, cm_post_count = 0,
      cm_created_at_ms = env_time env, cm_updated_at_ms = env_time env, cm_content_id = content_id env\<rparr>"

definition CommunityCreate_project ::
  "forum_deps \<Rightarrow> string option \<Rightarrow> community_create_msg \<Rightarrow> parsed_envelope \<Rightarrow> forum_store \<Rightarrow> forum_store" where
  "CommunityCreate_project d origin m env st =
     (let i = created_id d origin m;
          owner = env_author env;
          doc = created_doc d origin m env;
          st1 = st\<lparr>communities := al_set i doc (communities st)\<rparr>;
          st2 = append_community_audit d i (content_id env) owner Audit_create
                  (diff_fields [] (flat_metadata doc) []
                   @ diff_fields [] (flat_settings (cm_settings doc)) ''settings.''
                   @ diff_fields [] (flat_theme (cm_theme doc)) ''theme.'')
                  (env_time env) st1;
          membership = \<lparr>ms_id = membershipKey i owner, ms_community = i, ms_member_key = owner,
            ms_flags = MembershipFlag Ms_MEMBER OR MembershipFlag Ms_MODERATOR, ms_joined_at_ms = env_time env,
            ms_restricted_until_ms = None, ms_restriction_reason = None\<rparr>
      in st2\<lparr>memberships := al_set (ms_id membership) membership (memberships st2)\<rparr>)"

section \<open>Update\<close>

definition CommunityUpdate_validate :: "community_update_msg \<Rightarrow> parsed_envelope \<Rightarrow> validation" where
  "CommunityUpdate_validate m env =
     (if cu_target m = [] then Invalid ''target community is required'' (Some ''target'')
      else if env_scope env \<noteq> [] \<and> env_scope env \<noteq> cu_target m
      then Invalid ''scope must match the community being updated'' (Some ''scope'')
      else (case cu_patch m of
          None \<Rightarrow> Invalid ''patch is required'' (Some ''patch'')
        | Some patch \<Rightarrow> validate_metadata (cc_title patch) (cc_description patch) (cc_rules_markdown patch)))"

definition CommunityUpdate_authorize :: "forum_store \<Rightarrow> community_update_msg \<Rightarrow> parsed_envelope \<Rightarrow> auth_decision" where
  "CommunityUpdate_authorize st m env =
     (let ctx = env_auth st env (cu_target m)
      in if ax_community_doc ctx = None then Denied ''community is not known here''
         else if \<not> can ctx community_update then Denied ''community.update permission required''
         else Allowed)"

definition updated_doc :: "community_create_msg \<Rightarrow> parsed_envelope \<Rightarrow> community_doc \<Rightarrow> community_doc" where
  "updated_doc patch env existing = existing\<lparr>
     cm_title := or_else (cc_title patch) (cm_title existing),
     cm_description := or_else (cc_description patch) (cm_description existing),
     cm_rules_markdown := or_else (cc_rules_markdown patch) (cm_rules_markdown existing),
     cm_theme := (if cc_theme patch \<noteq> None then theme_from patch else cm_theme existing),
     cm_settings := (if cc_settings patch \<noteq> None then settings_from patch else cm_settings existing),
     cm_is_private := cc_is_private patch,
     cm_is_nsfw := cc_is_nsfw patch,
     cm_updated_at_ms := env_time env\<rparr>"

definition CommunityUpdate_project ::
  "forum_deps \<Rightarrow> community_update_msg \<Rightarrow> parsed_envelope \<Rightarrow> forum_store \<Rightarrow> forum_store" where
  "CommunityUpdate_project d m env st =
     (case map_of (communities st) (cu_target m) of
        None \<Rightarrow> st
      | Some existing \<Rightarrow> (case cu_patch m of
          None \<Rightarrow> st
        | Some patch \<Rightarrow>
            let next_doc = updated_doc patch env existing;
                st1 = st\<lparr>communities := al_set (cu_target m) next_doc (communities st)\<rparr>
            in append_community_audit d (cu_target m) (content_id env) (env_author env) Audit_update
                 (diff_fields (flat_metadata existing) (flat_metadata next_doc) []
                  @ diff_fields (flat_settings (cm_settings existing)) (flat_settings (cm_settings next_doc)) ''settings.''
                  @ diff_fields (flat_theme (cm_theme existing)) (flat_theme (cm_theme next_doc)) ''theme.'')
                 (env_time env) st1))"

section \<open>Archive\<close>

definition CommunityArchive_validate :: "community_archive_msg \<Rightarrow> parsed_envelope \<Rightarrow> validation" where
  "CommunityArchive_validate m env =
     (if ca_target m = [] then Invalid ''target community is required'' (Some ''target'') else Valid)"

definition CommunityArchive_authorize :: "forum_store \<Rightarrow> community_archive_msg \<Rightarrow> parsed_envelope \<Rightarrow> auth_decision" where
  "CommunityArchive_authorize st m env =
     (case ax_community_doc (env_auth st env (ca_target m)) of
        None \<Rightarrow> Denied ''community is not known here''
      | Some c \<Rightarrow> if cm_owner_key c \<noteq> env_author env then Denied ''only the community owner may archive it'' else Allowed)"

definition CommunityArchive_project ::
  "forum_deps \<Rightarrow> community_archive_msg \<Rightarrow> parsed_envelope \<Rightarrow> forum_store \<Rightarrow> forum_store" where
  "CommunityArchive_project d m env st =
     (case map_of (communities st) (ca_target m) of
        None \<Rightarrow> st
      | Some existing \<Rightarrow>
          let st1 = st\<lparr>communities := al_set (ca_target m)
                (existing\<lparr>cm_archived := ca_archived m, cm_updated_at_ms := env_time env\<rparr>) (communities st)\<rparr>
          in append_community_audit d (ca_target m) (content_id env) (env_author env) Audit_archive
               (diff_fields [(''archived'', text_of_bool (cm_archived existing))]
                  [(''archived'', text_of_bool (ca_archived m))] [])
               (env_time env) st1)"

end
