(* ===== verification/JB_Moderation.thy ===== *)
theory JB_Moderation
  imports JB_Chain
begin

unbundle bit_operations_syntax

text \<open>
  Moderation: notifications (\<open>shared/notification.projection.ts\<close>), the summary of a target
  (\<open>shared/target-summary.ts\<close>), the public mod log (\<open>moderation/moderation.projection.ts\<close>) and the handler of
  all sixteen verbs (\<open>moderation/mod-action.handler.ts\<close>).
\<close>

section \<open>Notifications\<close>

fun notification_kind_text :: "notification_kind \<Rightarrow> string" where
  "notification_kind_text Notify_reply = ''reply''"
| "notification_kind_text Notify_mention = ''mention''"
| "notification_kind_text Notify_award = ''award''"
| "notification_kind_text Notify_mod_action = ''mod_action''"
| "notification_kind_text Notify_follow = ''follow''"

definition add_notification :: "string \<Rightarrow> notification_kind \<Rightarrow> string \<Rightarrow> string \<Rightarrow> int \<Rightarrow> forum_store \<Rightarrow> forum_store" where
  "add_notification recipient kind cid actor created_at st =
     (if recipient = actor then st
      else let i = cid @ '':'' @ recipient @ '':'' @ notification_kind_text kind
           in st\<lparr>notifications := al_set i
                \<lparr>nt_id = i, nt_recipient_key = recipient, nt_kind = kind, nt_content_id = cid, nt_actor_key = actor,
                 nt_created_at_ms = created_at, nt_read = False\<rparr> (notifications st)\<rparr>)"

text \<open>
  The pattern \<open>/@jbk1([a-z2-7]{52})(?![a-z2-7])/g\<close>: a match consumes 57 characters, all ASCII, and the search
  goes on behind it.
\<close>

definition base32_char :: "char \<Rightarrow> bool" where
  "base32_char c \<longleftrightarrow> in_range (CHR ''a'') (CHR ''z'') c \<or> in_range (CHR ''2'') (CHR ''7'') c"

definition mention_at :: "string \<Rightarrow> string option" where
  "mention_at s =
     (let k = take 52 (drop 5 s)
      in if starts_with ''@jbk1'' s \<and> length k = 52 \<and> list_all base32_char k
            \<and> (case drop 57 s of [] \<Rightarrow> True | c # _ \<Rightarrow> \<not> base32_char c)
         then Some k else None)"

fun mentions_from :: "nat \<Rightarrow> string \<Rightarrow> string list" where
  "mentions_from skip [] = []"
| "mentions_from (Suc k) (c # s) = mentions_from k s"
| "mentions_from 0 (c # s) = (case mention_at (c # s) of
     Some k \<Rightarrow> k # mentions_from 56 s | None \<Rightarrow> mentions_from 0 s)"

definition mentioned_keys :: "string \<Rightarrow> string list" where
  "mentioned_keys t = unique (List.map_filter (\<lambda>k. case base32Decode k of Inl _ \<Rightarrow> None | Inr bs \<Rightarrow> Some (hex bs))
     (mentions_from 0 t))"

definition add_mention_notifications :: "string \<Rightarrow> string \<Rightarrow> string \<Rightarrow> int \<Rightarrow> forum_store \<Rightarrow> forum_store" where
  "add_mention_notifications t cid actor created_at st =
     fold (\<lambda>recipient. add_notification recipient Notify_mention cid actor created_at) (mentioned_keys t) st"

section \<open>Target summaries\<close>

definition SUMMARY_EXCERPT_CHARS :: nat where "SUMMARY_EXCERPT_CHARS = 280"

definition excerpt_of :: "string \<Rightarrow> string \<times> bool" where
  "excerpt_of t =
     (let points = js_trim t
      in if code_point_count points \<le> SUMMARY_EXCERPT_CHARS then (points, False)
         else (take_code_points SUMMARY_EXCERPT_CHARS points, True))"

definition display_name_of :: "forum_store \<Rightarrow> string \<Rightarrow> string" where
  "display_name_of st author = (case map_of (identities st) author of None \<Rightarrow> [] | Some i \<Rightarrow> iy_display_name i)"

definition summarise_imported_post :: "post_doc \<Rightarrow> string \<Rightarrow> mod_target_summary" where
  "summarise_imported_post p author_name =
     \<lparr>su_kind = Kind_post, su_target = po_content_id p, su_author_key = po_author_key p, su_author_name = author_name,
      su_title = po_title p, su_excerpt = fst (excerpt_of (po_body_markdown p)),
      su_truncated = snd (excerpt_of (po_body_markdown p)), su_parent_post = [],
      su_created_at_ms = po_created_at_ms p, su_removed = po_removed p, su_approved = po_approved p\<rparr>"

definition summarise_imported_comment :: "comment_doc \<Rightarrow> string \<Rightarrow> mod_target_summary" where
  "summarise_imported_comment c author_name =
     \<lparr>su_kind = Kind_comment, su_target = co_content_id c, su_author_key = co_author_key c, su_author_name = author_name,
      su_title = [], su_excerpt = fst (excerpt_of (co_body_markdown c)),
      su_truncated = snd (excerpt_of (co_body_markdown c)), su_parent_post = co_post c,
      su_created_at_ms = co_created_at_ms c, su_removed = co_removed c, su_approved = co_approved c\<rparr>"

definition bare_summary :: "mod_target_kind \<Rightarrow> string \<Rightarrow> string \<Rightarrow> string \<Rightarrow> mod_target_summary" where
  "bare_summary kind target author author_name =
     \<lparr>su_kind = kind, su_target = target, su_author_key = author, su_author_name = author_name, su_title = [],
      su_excerpt = [], su_truncated = False, su_parent_post = [], su_created_at_ms = 0, su_removed = False,
      su_approved = False\<rparr>"

definition resolve_target_summary :: "forum_store \<Rightarrow> string \<Rightarrow> bool \<Rightarrow> mod_target_summary" where
  "resolve_target_summary st target is_member_action =
     (if is_member_action then bare_summary Kind_identity target target (display_name_of st target)
      else (case map_of (posts st) target of
          Some p \<Rightarrow> summarise_imported_post p (display_name_of st (po_author_key p))
        | None \<Rightarrow> (case map_of (comments st) target of
            Some c \<Rightarrow> summarise_imported_comment c (display_name_of st (co_author_key c))
          | None \<Rightarrow> bare_summary Kind_unknown target [] [])))"

section \<open>The mod log\<close>

definition mod_material :: "string \<Rightarrow> string \<Rightarrow> int \<Rightarrow> string \<Rightarrow> string \<Rightarrow> int \<Rightarrow> string" where
  "mod_material previous_hash cid verb target actor created_at =
     join_nul [''jb:modlog:v1'', previous_hash, cid, js_string_of_int verb, target, actor, js_string_of_int created_at]"

definition mod_chain_hash ::
  "(bytes \<Rightarrow> bytes) \<Rightarrow> string \<Rightarrow> string \<Rightarrow> int \<Rightarrow> string \<Rightarrow> string \<Rightarrow> int \<Rightarrow> string" where
  "mod_chain_hash sha previous_hash cid verb target actor created_at =
     hex (sha (text_encode (mod_material previous_hash cid verb target actor created_at)))"

definition mod_expected :: "(bytes \<Rightarrow> bytes) \<Rightarrow> string \<Rightarrow> mod_event_doc \<Rightarrow> string" where
  "mod_expected sha previous_hash e =
     mod_chain_hash sha previous_hash (me_id e) (me_verb e) (me_target e) (me_actor_key e) (me_created_at_ms e)"

fun mod_verify_from :: "(bytes \<Rightarrow> bytes) \<Rightarrow> nat \<Rightarrow> string \<Rightarrow> mod_event_doc list \<Rightarrow> nat option" where
  "mod_verify_from sha i previous_hash [] = None"
| "mod_verify_from sha i previous_hash (e # es) =
     (if me_previous_hash e \<noteq> previous_hash then Some i
      else if mod_expected sha previous_hash e \<noteq> me_chain_hash e then Some i
      else mod_verify_from sha (Suc i) (me_chain_hash e) es)"

text \<open>\<open>verifyModChain\<close>: \<open>None\<close> is \<open>{ ok: true }\<close>, \<open>Some i\<close> is \<open>{ ok: false, brokenAt: i }\<close>.\<close>

definition verify_mod_chain :: "(bytes \<Rightarrow> bytes) \<Rightarrow> mod_event_doc list \<Rightarrow> nat option" where
  "verify_mod_chain sha events = mod_verify_from sha 0 [] events"

interpretation mod_chain: chained "mod_expected sha" me_previous_hash me_chain_hash "mod_verify_from sha"
  for sha
  by unfold_locales simp_all

datatype mod_verb = V_UNSPECIFIED | V_APPROVE | V_REMOVE | V_RESTORE | V_LOCK | V_UNLOCK | V_PIN | V_UNPIN
  | V_FLAG | V_UNFLAG | V_COLLAPSE | V_UNCOLLAPSE | V_BAN | V_UNBAN | V_MUTE | V_UNMUTE | V_KICK

text \<open>\<open>ModVerb\<close> and \<open>ModVerbName\<close>: the numbers 0 to 16; other numbers of the wire have no name.\<close>

definition mod_verbs :: "(mod_verb \<times> string) list" where
  "mod_verbs = [(V_UNSPECIFIED, ''UNSPECIFIED''), (V_APPROVE, ''APPROVE''), (V_REMOVE, ''REMOVE''),
     (V_RESTORE, ''RESTORE''), (V_LOCK, ''LOCK''), (V_UNLOCK, ''UNLOCK''), (V_PIN, ''PIN''), (V_UNPIN, ''UNPIN''),
     (V_FLAG, ''FLAG''), (V_UNFLAG, ''UNFLAG''), (V_COLLAPSE, ''COLLAPSE''), (V_UNCOLLAPSE, ''UNCOLLAPSE''),
     (V_BAN, ''BAN''), (V_UNBAN, ''UNBAN''), (V_MUTE, ''MUTE''), (V_UNMUTE, ''UNMUTE''), (V_KICK, ''KICK'')]"

definition verb_of :: "int \<Rightarrow> mod_verb option" where
  "verb_of n = (if 0 \<le> n \<and> n < int (length mod_verbs) then Some (fst (mod_verbs ! nat n)) else None)"

definition verb_name :: "int \<Rightarrow> string option" where
  "verb_name n = (if 0 \<le> n \<and> n < int (length mod_verbs) then Some (snd (mod_verbs ! nat n)) else None)"

fun VERB_PERMISSION :: "mod_verb \<Rightarrow> permission_name option" where
  "VERB_PERMISSION V_UNSPECIFIED = None"
| "VERB_PERMISSION V_COLLAPSE = Some comment_moderate"
| "VERB_PERMISSION V_UNCOLLAPSE = Some comment_moderate"
| "VERB_PERMISSION V_BAN = Some member_ban"
| "VERB_PERMISSION V_UNBAN = Some member_unban"
| "VERB_PERMISSION V_MUTE = Some member_ban"
| "VERB_PERMISSION V_UNMUTE = Some member_unban"
| "VERB_PERMISSION V_KICK = Some member_kick"
| "VERB_PERMISSION _ = Some post_moderate"

definition MEMBER_VERBS :: "mod_verb list" where "MEMBER_VERBS = [V_BAN, V_UNBAN, V_MUTE, V_UNMUTE, V_KICK]"
definition POST_ONLY_VERBS :: "mod_verb list" where "POST_ONLY_VERBS = [V_PIN, V_UNPIN]"
definition COMMENT_ONLY_VERBS :: "mod_verb list" where "COMMENT_ONLY_VERBS = [V_COLLAPSE, V_UNCOLLAPSE]"

section \<open>Moderation actions\<close>

record mod_action_msg =
  ma_verb :: int
  ma_target :: string
  ma_target_kind :: int
  ma_reason :: string
  ma_expires_at_ms :: int

definition TARGET_KIND_UNSPECIFIED :: int where "TARGET_KIND_UNSPECIFIED = 0"
definition TARGET_KIND_POST :: int where "TARGET_KIND_POST = 1"
definition TARGET_KIND_COMMENT :: int where "TARGET_KIND_COMMENT = 2"
definition TARGET_KIND_IDENTITY :: int where "TARGET_KIND_IDENTITY = 3"

definition MAX_REASON :: nat where "MAX_REASON = 1000"

definition verb_in :: "int \<Rightarrow> mod_verb list \<Rightarrow> bool" where
  "verb_in n vs = (case verb_of n of None \<Rightarrow> False | Some v \<Rightarrow> v \<in> set vs)"

definition ModAction_validate :: "mod_action_msg \<Rightarrow> parsed_envelope \<Rightarrow> validation" where
  "ModAction_validate m env =
     (if ma_verb m = 0 \<or> verb_name (ma_verb m) = None then Invalid ''unknown moderation verb'' (Some ''verb'')
      else if ma_target m = [] then Invalid ''target is required'' (Some ''target'')
      else if env_scope env = [] then Invalid ''a moderation action must name its community'' (Some ''scope'')
      else if code_point_count (ma_reason m) > MAX_REASON
      then Invalid (''reason exceeds '' @ digits_of MAX_REASON @ '' characters'') (Some ''reason'')
      else (case (if verb_in (ma_verb m) MEMBER_VERBS
                  then if \<not> HEX_KEY_PATTERN (ma_target m)
                       then Invalid ''member actions target a hex public key'' (Some ''target'')
                       else if ma_target_kind m \<noteq> TARGET_KIND_UNSPECIFIED \<and> ma_target_kind m \<noteq> TARGET_KIND_IDENTITY
                       then Invalid ''member actions require an identity target_kind'' (Some ''target_kind'')
                       else Valid
                  else if \<not> starts_with ''jb1'' (ma_target m)
                  then Invalid ''content actions target a content ID'' (Some ''target'')
                  else if ma_target_kind m = TARGET_KIND_IDENTITY
                  then Invalid ''content actions cannot use an identity target_kind'' (Some ''target_kind'')
                  else Valid) of
          Invalid r f \<Rightarrow> Invalid r f
        | Valid \<Rightarrow>
            if ma_expires_at_ms m \<noteq> 0 \<and> js_number (ma_expires_at_ms m) \<le> env_time env
            then Invalid ''expiry must be in the future'' (Some ''expires_at_ms'') else Valid))"

definition content_author :: "forum_store \<Rightarrow> string \<Rightarrow> string option" where
  "content_author st target = (case map_of (posts st) target of
     Some p \<Rightarrow> Some (po_author_key p) | None \<Rightarrow> map_option co_author_key (map_of (comments st) target))"

definition content_target_kind :: "forum_store \<Rightarrow> string \<Rightarrow> int option" where
  "content_target_kind st target = (case map_of (posts st) target of
     Some _ \<Rightarrow> Some TARGET_KIND_POST
   | None \<Rightarrow> (case map_of (comments st) target of Some _ \<Rightarrow> Some TARGET_KIND_COMMENT | None \<Rightarrow> None))"

fun permission_text :: "permission_name \<Rightarrow> string" where
  "permission_text post_moderate = ''post.moderate''"
| "permission_text comment_moderate = ''comment.moderate''"
| "permission_text member_ban = ''member.ban''"
| "permission_text member_unban = ''member.unban''"
| "permission_text member_kick = ''member.kick''"
| "permission_text _ = []"

text \<open>The permission a content verb needs follows the stored target, not the verb.\<close>

definition required_permission :: "forum_store \<Rightarrow> mod_action_msg \<Rightarrow> string + permission_name" where
  "required_permission st m =
     (case Option.bind (verb_of (ma_verb m)) VERB_PERMISSION of
        None \<Rightarrow> Inl ''verb has no permission mapping''
      | Some by_verb \<Rightarrow>
          if verb_in (ma_verb m) MEMBER_VERBS then Inr by_verb
          else (case content_target_kind st (ma_target m) of
              None \<Rightarrow> Inl ''moderation target is not known here''
            | Some actual \<Rightarrow>
                if ma_target_kind m \<noteq> TARGET_KIND_UNSPECIFIED \<and> ma_target_kind m \<noteq> actual
                then Inl ''target_kind does not match the stored content''
                else if verb_in (ma_verb m) POST_ONLY_VERBS \<and> actual \<noteq> TARGET_KIND_POST
                then Inl ''this moderation verb applies only to posts''
                else if verb_in (ma_verb m) COMMENT_ONLY_VERBS \<and> actual \<noteq> TARGET_KIND_COMMENT
                then Inl ''this moderation verb applies only to comments''
                else Inr (if actual = TARGET_KIND_COMMENT then comment_moderate else post_moderate)))"

definition ModAction_authorize :: "forum_store \<Rightarrow> mod_action_msg \<Rightarrow> parsed_envelope \<Rightarrow> auth_decision" where
  "ModAction_authorize st m env =
     (case required_permission st m of
        Inl r \<Rightarrow> Denied r
      | Inr required \<Rightarrow>
          let ctx = env_auth st env (env_scope env)
          in case ax_community_doc ctx of
               None \<Rightarrow> Denied ''community is not known here''
             | Some c \<Rightarrow>
                 if \<not> can ctx required then Denied (permission_text required @ '' permission required'')
                 else if verb_in (ma_verb m) MEMBER_VERBS \<and> cm_owner_key c = ma_target m
                 then Denied ''the community owner cannot be moderated'' else Allowed)"

definition expiry_of :: "mod_action_msg \<Rightarrow> int option" where
  "expiry_of m = (if ma_expires_at_ms m = 0 then None else Some (js_number (ma_expires_at_ms m)))"

definition append_to_chain :: "forum_deps \<Rightarrow> mod_action_msg \<Rightarrow> parsed_envelope \<Rightarrow> forum_store \<Rightarrow> forum_store" where
  "append_to_chain d m env st =
     (let community = env_scope env;
          previous = map_of (mod_heads st) community;
          previous_hash = (case previous of None \<Rightarrow> [] | Some h \<Rightarrow> ch_chain_hash h);
          sequence = (case previous of None \<Rightarrow> -1 | Some h \<Rightarrow> ch_sequence h) + 1;
          h = mod_chain_hash (fd_sha d) previous_hash (content_id env) (ma_verb m) (ma_target m) (env_author env)
                (env_time env);
          doc = \<lparr>me_id = content_id env, me_community = community, me_actor_key = env_author env, me_verb = ma_verb m,
            me_verb_name = (case verb_name (ma_verb m) of None \<Rightarrow> ''UNKNOWN'' | Some n \<Rightarrow> n),
            me_target = ma_target m, me_target_kind = ma_target_kind m,
            me_target_summary = Some (resolve_target_summary st (ma_target m) (verb_in (ma_verb m) MEMBER_VERBS)),
            me_reason = ma_reason m, me_expires_at_ms = expiry_of m, me_created_at_ms = env_time env,
            me_previous_hash = previous_hash, me_chain_hash = h, me_sequence = sequence\<rparr>
      in st\<lparr>mod_events := al_set (content_id env) doc (mod_events st),
            mod_heads := al_set community \<lparr>ch_id = community, ch_sequence = sequence, ch_chain_hash = h\<rparr> (mod_heads st)\<rparr>)"


text \<open>
  \<open>contentPatch\<close>. The patch of a lock or a pin on a comment sets a property that comment documents do not declare
  and no code reads; it is not represented.
\<close>

fun post_patch :: "mod_action_msg \<Rightarrow> mod_verb option \<Rightarrow> post_doc \<Rightarrow> post_doc" where
  "post_patch m (Some V_REMOVE) p = p\<lparr>po_removed := True, po_removed_reason := Some (or_else (ma_reason m) ''removed by a moderator'')\<rparr>"
| "post_patch m (Some V_RESTORE) p = p\<lparr>po_removed := False, po_removed_reason := None\<rparr>"
| "post_patch m (Some V_APPROVE) p = p\<lparr>po_approved := True, po_removed := False, po_removed_reason := None\<rparr>"
| "post_patch m (Some V_LOCK) p = p\<lparr>po_locked := True\<rparr>"
| "post_patch m (Some V_UNLOCK) p = p\<lparr>po_locked := False\<rparr>"
| "post_patch m (Some V_PIN) p = p\<lparr>po_pinned := True\<rparr>"
| "post_patch m (Some V_UNPIN) p = p\<lparr>po_pinned := False\<rparr>"
| "post_patch m (Some V_FLAG) p = p\<lparr>po_flagged := True\<rparr>"
| "post_patch m (Some V_UNFLAG) p = p\<lparr>po_flagged := False\<rparr>"
| "post_patch m _ p = p"

fun comment_patch :: "mod_action_msg \<Rightarrow> mod_verb option \<Rightarrow> comment_doc \<Rightarrow> comment_doc" where
  "comment_patch m (Some V_REMOVE) c = c\<lparr>co_removed := True, co_removed_reason := Some (or_else (ma_reason m) ''removed by a moderator'')\<rparr>"
| "comment_patch m (Some V_RESTORE) c = c\<lparr>co_removed := False, co_removed_reason := None\<rparr>"
| "comment_patch m (Some V_APPROVE) c = c\<lparr>co_approved := True, co_removed := False, co_removed_reason := None\<rparr>"
| "comment_patch m (Some V_FLAG) c = c\<lparr>co_flagged := True\<rparr>"
| "comment_patch m (Some V_UNFLAG) c = c\<lparr>co_flagged := False\<rparr>"
| "comment_patch m (Some V_COLLAPSE) c = c\<lparr>co_collapsed := True\<rparr>"
| "comment_patch m (Some V_UNCOLLAPSE) c = c\<lparr>co_collapsed := False\<rparr>"
| "comment_patch m _ c = c"

definition apply_content_verb :: "mod_action_msg \<Rightarrow> forum_store \<Rightarrow> forum_store" where
  "apply_content_verb m st =
     (case (if ma_target_kind m = TARGET_KIND_COMMENT then None else map_of (posts st) (ma_target m)) of
        Some p \<Rightarrow> st\<lparr>posts := al_set (ma_target m) (post_patch m (verb_of (ma_verb m)) p) (posts st)\<rparr>
      | None \<Rightarrow> (case (if ma_target_kind m = TARGET_KIND_POST then None else map_of (comments st) (ma_target m)) of
          Some c \<Rightarrow> st\<lparr>comments := al_set (ma_target m) (comment_patch m (verb_of (ma_verb m)) c) (comments st)\<rparr>
        | None \<Rightarrow> st))"

definition text_or_null :: "string \<Rightarrow> string option" where
  "text_or_null s = (if s = [] then None else Some s)"

fun member_patch :: "mod_action_msg \<Rightarrow> mod_verb option \<Rightarrow> membership_doc \<Rightarrow> membership_doc option" where
  "member_patch m (Some V_BAN) b = Some (b\<lparr>
     ms_flags := clear_flag (set_flag (ms_flags b) (MembershipFlag Ms_BANNED)) (MembershipFlag Ms_MEMBER),
     ms_restricted_until_ms := expiry_of m, ms_restriction_reason := text_or_null (ma_reason m)\<rparr>)"
| "member_patch m (Some V_UNBAN) b = Some (b\<lparr>
     ms_flags := clear_flag (ms_flags b) (MembershipFlag Ms_BANNED),
     ms_restricted_until_ms := None, ms_restriction_reason := None\<rparr>)"
| "member_patch m (Some V_MUTE) b = Some (b\<lparr>
     ms_flags := set_flag (ms_flags b) (MembershipFlag Ms_MUTED),
     ms_restricted_until_ms := expiry_of m, ms_restriction_reason := text_or_null (ma_reason m)\<rparr>)"
| "member_patch m (Some V_UNMUTE) b = Some (b\<lparr>
     ms_flags := clear_flag (ms_flags b) (MembershipFlag Ms_MUTED),
     ms_restricted_until_ms := None, ms_restriction_reason := None\<rparr>)"
| "member_patch m (Some V_KICK) b = Some (b\<lparr>
     ms_flags := clear_flag (clear_flag (ms_flags b) (MembershipFlag Ms_MEMBER)) (MembershipFlag Ms_MODERATOR)\<rparr>)"
| "member_patch m _ b = None"

definition apply_member_verb :: "mod_action_msg \<Rightarrow> string \<Rightarrow> int \<Rightarrow> forum_store \<Rightarrow> forum_store" where
  "apply_member_verb m community created_at st =
     (let i = membershipKey community (ma_target m);
          base = (case map_of (memberships st) i of
              Some e \<Rightarrow> e
            | None \<Rightarrow> \<lparr>ms_id = i, ms_community = community, ms_member_key = ma_target m, ms_flags = 0,
                ms_joined_at_ms = created_at, ms_restricted_until_ms = None, ms_restriction_reason = None\<rparr>)
      in case member_patch m (verb_of (ma_verb m)) base of
           None \<Rightarrow> st
         | Some doc \<Rightarrow> st\<lparr>memberships := al_set i doc (memberships st)\<rparr>)"

definition ModAction_project :: "forum_deps \<Rightarrow> mod_action_msg \<Rightarrow> parsed_envelope \<Rightarrow> forum_store \<Rightarrow> forum_store" where
  "ModAction_project d m env st =
     (let st1 = append_to_chain d m env st;
          st2 = (if verb_in (ma_verb m) MEMBER_VERBS then apply_member_verb m (env_scope env) (env_time env) st1
                 else apply_content_verb m st1)
      in case (if verb_in (ma_verb m) MEMBER_VERBS then Some (ma_target m) else content_author st2 (ma_target m)) of
           None \<Rightarrow> st2
         | Some recipient \<Rightarrow>
             if recipient = [] then st2
             else add_notification recipient Notify_mod_action (content_id env) (env_author env) (env_time env) st2)"

end
