(* ===== verification/JB_Content.thy ===== *)
theory JB_Content
  imports JB_Moderation
begin

unbundle bit_operations_syntax

text \<open>
  What people write: posts (\<open>post/post-create.handler.ts\<close>, \<open>post/post-edit.handlers.ts\<close>), comments
  (\<open>comment/comment-create.handler.ts\<close>, \<open>comment/comment-edit.handlers.ts\<close>), votes
  (\<open>vote/vote-cast.handler.ts\<close>) and reports (\<open>report/report.handlers.ts\<close>).
\<close>

section \<open>Posts\<close>

record poll_msg =
  pm_question :: string
  pm_options :: "string list"
  pm_multiple :: bool
  pm_closes_at_ms :: int

record post_create_msg =
  pc_title :: string
  pc_kind :: int
  pc_body_markdown :: string
  pc_url :: string
  pc_attachments :: "string list"
  pc_poll :: "poll_msg option"
  pc_crosspost_of :: string
  pc_flair :: string
  pc_flags :: "content_flags option"

definition POST_KIND_UNSPECIFIED :: int where "POST_KIND_UNSPECIFIED = 0"
definition POST_KIND_TEXT :: int where "POST_KIND_TEXT = 1"
definition POST_KIND_LINK :: int where "POST_KIND_LINK = 2"
definition POST_KIND_IMAGE :: int where "POST_KIND_IMAGE = 3"
definition POST_KIND_VIDEO :: int where "POST_KIND_VIDEO = 4"
definition POST_KIND_POLL :: int where "POST_KIND_POLL = 5"
definition POST_KIND_CROSSPOST :: int where "POST_KIND_CROSSPOST = 6"

definition MAX_TITLE_CHARS :: nat where "MAX_TITLE_CHARS = 300"
definition MAX_BODY_CHARS :: nat where "MAX_BODY_CHARS = 40000"

definition is_content_id :: "string \<Rightarrow> bool" where
  "is_content_id s = starts_with ''jb1'' s"

definition validate_poll :: "post_create_msg \<Rightarrow> validation" where
  "validate_poll m =
     (case pc_poll m of
        None \<Rightarrow> Invalid ''a poll requires a question'' (Some ''poll'')
      | Some p \<Rightarrow>
          if js_trim (pm_question p) = [] then Invalid ''a poll requires a question'' (Some ''poll'')
          else if length (pm_options p) < 2 then Invalid ''a poll requires at least two options'' (Some ''poll.options'')
          else if list_ex (\<lambda>q. utf16_length (js_trim q) = 0) (pm_options p)
          then Invalid ''poll options cannot be empty'' (Some ''poll.options'')
          else Valid)"

definition PostCreate_validate :: "post_create_msg \<Rightarrow> parsed_envelope \<Rightarrow> validation" where
  "PostCreate_validate m env =
     (if env_scope env = [] then Invalid ''a post must name the community it belongs to'' (Some ''scope'')
      else if utf16_length (js_trim (pc_title m)) = 0 then Invalid ''title is required'' (Some ''title'')
      else if code_point_count (js_trim (pc_title m)) > MAX_TITLE_CHARS
      then Invalid (''title exceeds '' @ digits_of MAX_TITLE_CHARS @ '' characters'') (Some ''title'')
      else if code_point_count (pc_body_markdown m) > MAX_BODY_CHARS
      then Invalid (''body exceeds '' @ digits_of MAX_BODY_CHARS @ '' characters'') (Some ''body_markdown'')
      else if list_ex (\<lambda>a. \<not> is_content_id a) (pc_attachments m)
      then Invalid ''attachment references must be content IDs'' (Some ''attachments'')
      else if pc_crosspost_of m \<noteq> [] \<and> \<not> is_content_id (pc_crosspost_of m)
      then Invalid ''crosspost_of must be a content ID'' (Some ''crosspost_of'')
      else if pc_kind m = POST_KIND_UNSPECIFIED then Invalid ''post kind is required'' (Some ''kind'')
      else if pc_kind m = POST_KIND_LINK \<and> pc_url m = [] then Invalid ''a link post requires a URL'' (Some ''url'')
      else if pc_kind m \<in> {POST_KIND_IMAGE, POST_KIND_VIDEO} \<and> length (pc_attachments m) = 0
      then Invalid ''a media post requires an attachment'' (Some ''attachments'')
      else if pc_kind m = POST_KIND_CROSSPOST \<and> pc_crosspost_of m = []
      then Invalid ''a crosspost requires crosspost_of'' (Some ''crosspost_of'')
      else if pc_kind m = POST_KIND_POLL then validate_poll m
      else Valid)"

text \<open>The first attachment the author may not use; malformed references are left to validation.\<close>

fun attachment_refusal :: "forum_store \<Rightarrow> string \<Rightarrow> string list \<Rightarrow> string option" where
  "attachment_refusal st author [] = None"
| "attachment_refusal st author (i # is) =
     (if \<not> is_content_id i then attachment_refusal st author is
      else (case map_of (attachments st) i of
          None \<Rightarrow> Some (''attachment '' @ i @ '' is not known here'')
        | Some a \<Rightarrow>
            if ac_owner_key a \<noteq> author then Some (''attachment '' @ i @ '' belongs to another identity'')
            else attachment_refusal st author is))"

definition kind_allowed :: "community_settings \<Rightarrow> int \<Rightarrow> bool" where
  "kind_allowed s kind \<longleftrightarrow>
     kind = POST_KIND_TEXT \<and> allow_text_posts s \<or> kind = POST_KIND_LINK \<and> allow_link_posts s
     \<or> kind = POST_KIND_IMAGE \<and> allow_image_posts s \<or> kind = POST_KIND_VIDEO \<and> allow_video_posts s
     \<or> kind = POST_KIND_POLL \<or> kind = POST_KIND_CROSSPOST \<and> allow_crossposts s"

definition community_policy :: "auth_context \<Rightarrow> post_create_msg \<Rightarrow> parsed_envelope \<Rightarrow> community_doc \<Rightarrow> auth_decision" where
  "community_policy ctx m env c =
     (let s = cm_settings c;
          karma = (case ax_identity ctx of None \<Rightarrow> 0 | Some i \<Rightarrow> iy_post_karma i + iy_comment_karma i);
          minimum_age = minimum_account_age_days s * 24 * 60 * 60 * 1000
      in if cm_archived c then Denied ''the community is archived''
         else if \<not> can_post ctx then Denied ''post.create permission required''
         else if \<not> kind_allowed s (pc_kind m) then Denied ''this post kind is disabled in the community''
         else if karma < minimum_karma_to_post s
         then Denied (''minimum karma to post is '' @ js_string_of_int (minimum_karma_to_post s))
         else if minimum_age > 0 \<and> (case ax_identity ctx of None \<Rightarrow> True
                | Some i \<Rightarrow> env_time env - iy_first_seen_at_ms i < minimum_age)
         then Denied (''minimum account age is '' @ js_string_of_int (minimum_account_age_days s) @ '' days'')
         else Allowed)"

definition PostCreate_authorize :: "forum_store \<Rightarrow> post_create_msg \<Rightarrow> parsed_envelope \<Rightarrow> auth_decision" where
  "PostCreate_authorize st m env =
     (case attachment_refusal st (env_author env) (pc_attachments m) of
        Some r \<Rightarrow> Denied r
      | None \<Rightarrow>
          if is_content_id (pc_crosspost_of m) \<and> map_of (posts st) (pc_crosspost_of m) = None
          then Denied ''crosspost source is not known here''
          else (let ctx = env_auth st env (env_scope env) in
            case ax_community_doc ctx of None \<Rightarrow> Allowed | Some c \<Rightarrow> community_policy ctx m env c))"

definition created_post :: "post_create_msg \<Rightarrow> parsed_envelope \<Rightarrow> post_doc" where
  "created_post m env =
     \<lparr>po_content_id = content_id env, po_author_key = env_author env, po_community = env_scope env,
      po_title = js_trim (pc_title m), po_kind = pc_kind m, po_body_markdown = pc_body_markdown m, po_url = pc_url m,
      po_attachments = pc_attachments m, po_flair = pc_flair m,
      po_poll = map_option (\<lambda>p. \<lparr>pl_question = pm_question p, pl_options = pm_options p, pl_multiple = pm_multiple p,
        pl_closes_at_ms = js_number (pm_closes_at_ms p)\<rparr>) (pc_poll m),
      po_crosspost_of = pc_crosspost_of m,
      po_flags = (case pc_flags m of None \<Rightarrow> \<lparr>cf_nsfw = False, cf_spoiler = False, cf_oc = False\<rparr> | Some f \<Rightarrow> f),
      po_created_at_ms = env_time env, po_edited_at_ms = None, po_removed = False, po_removed_reason = None,
      po_locked = False, po_pinned = False, po_flagged = False, po_approved = False, po_score = 0,
      po_comment_count = 0, po_award_count = 0\<rparr>"

definition PostCreate_project :: "post_create_msg \<Rightarrow> parsed_envelope \<Rightarrow> forum_store \<Rightarrow> forum_store" where
  "PostCreate_project m env st =
     (let st1 = st\<lparr>posts := al_set (content_id env) (created_post m env) (posts st)\<rparr>;
          st2 = (case map_of (communities st1) (env_scope env) of
              None \<Rightarrow> st1
            | Some c \<Rightarrow> st1\<lparr>communities := al_set (env_scope env) (c\<lparr>cm_post_count := cm_post_count c + 1\<rparr>)
                (communities st1)\<rparr>)
      in add_mention_notifications (pc_title m @ CHR 0x0A # pc_body_markdown m) (content_id env) (env_author env)
           (env_time env) st2)"

record post_update_msg =
  pu_target :: string
  pu_body_markdown :: string
  pu_flair :: string
  pu_flags :: "content_flags option"

record delete_msg =
  de_target :: string
  de_reason :: string

definition need_content_id :: "string \<Rightarrow> validation" where
  "need_content_id t = (if is_content_id t then Valid else Invalid ''target must be a content ID'' (Some ''target''))"

definition PostUpdate_validate :: "post_update_msg \<Rightarrow> parsed_envelope \<Rightarrow> validation" where
  "PostUpdate_validate m env =
     (if \<not> is_content_id (pu_target m) then Invalid ''target must be a content ID'' (Some ''target'')
      else if code_point_count (pu_body_markdown m) > MAX_BODY_CHARS
      then Invalid (''body exceeds '' @ digits_of MAX_BODY_CHARS @ '' characters'') (Some ''body_markdown'')
      else Valid)"

definition PostUpdate_authorize :: "forum_store \<Rightarrow> post_update_msg \<Rightarrow> parsed_envelope \<Rightarrow> auth_decision" where
  "PostUpdate_authorize st m env =
     (case map_of (posts st) (pu_target m) of
        None \<Rightarrow> Denied ''post is not known here''
      | Some p \<Rightarrow>
          if po_author_key p \<noteq> env_author env then Denied ''only the author may edit a post''
          else if po_removed p then Denied ''a removed post cannot be edited'' else Allowed)"

definition PostUpdate_project :: "post_update_msg \<Rightarrow> parsed_envelope \<Rightarrow> forum_store \<Rightarrow> forum_store" where
  "PostUpdate_project m env st =
     (case map_of (posts st) (pu_target m) of
        None \<Rightarrow> st
      | Some p \<Rightarrow> st\<lparr>posts := al_set (pu_target m) (p\<lparr>
            po_body_markdown := pu_body_markdown m,
            po_flair := or_else (pu_flair m) (po_flair p),
            po_flags := (case pu_flags m of None \<Rightarrow> po_flags p | Some f \<Rightarrow> f),
            po_edited_at_ms := Some (env_time env)\<rparr>) (posts st)\<rparr>)"

definition PostDelete_validate :: "delete_msg \<Rightarrow> parsed_envelope \<Rightarrow> validation" where
  "PostDelete_validate m env = need_content_id (de_target m)"

definition PostDelete_authorize :: "forum_store \<Rightarrow> delete_msg \<Rightarrow> parsed_envelope \<Rightarrow> auth_decision" where
  "PostDelete_authorize st m env =
     (case map_of (posts st) (de_target m) of
        None \<Rightarrow> Denied ''post is not known here''
      | Some p \<Rightarrow> if po_author_key p \<noteq> env_author env then Denied ''only the author may delete their post'' else Allowed)"

definition PostDelete_project :: "delete_msg \<Rightarrow> parsed_envelope \<Rightarrow> forum_store \<Rightarrow> forum_store" where
  "PostDelete_project m env st =
     (case map_of (posts st) (de_target m) of
        None \<Rightarrow> st
      | Some p \<Rightarrow> st\<lparr>posts := al_set (de_target m) (p\<lparr>po_removed := True,
            po_removed_reason := Some (or_else (de_reason m) ''deleted by the author'')\<rparr>) (posts st)\<rparr>)"


section \<open>Comments\<close>

record comment_create_msg =
  cr_post :: string
  cr_parent_comment :: string
  cr_body_markdown :: string
  cr_attachments :: "string list"

definition MAX_COMMENT_CHARS :: nat where "MAX_COMMENT_CHARS = 10000"
definition MAX_DEPTH :: int where "MAX_DEPTH = 8"

definition validate_comment_text :: "string \<Rightarrow> validation" where
  "validate_comment_text t =
     (if utf16_length (js_trim t) = 0 then Invalid ''comment body is required'' (Some ''body_markdown'')
      else if code_point_count (js_trim t) > MAX_COMMENT_CHARS
      then Invalid (''comment exceeds '' @ digits_of MAX_COMMENT_CHARS @ '' characters'') (Some ''body_markdown'')
      else Valid)"

definition CommentCreate_validate :: "comment_create_msg \<Rightarrow> parsed_envelope \<Rightarrow> validation" where
  "CommentCreate_validate m env =
     (if \<not> is_content_id (cr_post m) then Invalid ''post must be a content ID'' (Some ''post'')
      else if cr_parent_comment m \<noteq> [] \<and> \<not> is_content_id (cr_parent_comment m)
      then Invalid ''parent_comment must be a content ID'' (Some ''parent_comment'')
      else validate_comment_text (cr_body_markdown m))"

definition CommentCreate_authorize :: "forum_store \<Rightarrow> comment_create_msg \<Rightarrow> parsed_envelope \<Rightarrow> auth_decision" where
  "CommentCreate_authorize st m env =
     (case map_of (posts st) (cr_post m) of
        None \<Rightarrow> Denied ''the post being commented on is not known here''
      | Some p \<Rightarrow> (case attachment_refusal st (env_author env) (cr_attachments m) of
          Some r \<Rightarrow> Denied r
        | None \<Rightarrow>
            let ctx = env_auth st env (po_community p)
            in if (case ax_community_doc ctx of None \<Rightarrow> False | Some c \<Rightarrow> cm_archived c)
               then Denied ''the community is archived''
               else if ax_community_doc ctx \<noteq> None \<and> \<not> can_post ctx then Denied ''post.create permission required''
               else if po_locked p then Denied ''the post is locked''
               else Allowed))"

definition created_comment :: "comment_create_msg \<Rightarrow> parsed_envelope \<Rightarrow> forum_store \<Rightarrow> comment_doc" where
  "created_comment m env st =
     \<lparr>co_content_id = content_id env, co_author_key = env_author env, co_post = cr_post m,
      co_parent_comment = cr_parent_comment m, co_body_markdown = cr_body_markdown m, co_attachments = cr_attachments m,
      co_depth = (if cr_parent_comment m = [] then 0
                  else (case map_of (comments st) (cr_parent_comment m) of
                      None \<Rightarrow> 0 | Some pa \<Rightarrow> min (co_depth pa + 1) MAX_DEPTH)),
      co_created_at_ms = env_time env, co_removed = False, co_removed_reason = None, co_collapsed = False,
      co_flagged = False, co_approved = False, co_score = 0, co_reply_count = 0, co_award_count = 0\<rparr>"

definition count_reply :: "comment_create_msg \<Rightarrow> parsed_envelope \<Rightarrow> forum_store \<Rightarrow> forum_store" where
  "count_reply m env st =
     (case map_of (posts st) (cr_post m) of
        None \<Rightarrow> st
      | Some p \<Rightarrow>
          let st1 = st\<lparr>posts := al_set (cr_post m) (p\<lparr>po_comment_count := po_comment_count p + 1\<rparr>) (posts st)\<rparr>;
              replied = (if cr_parent_comment m = [] then None else map_of (comments st1) (cr_parent_comment m));
              st2 = (case replied of
                  None \<Rightarrow> st1
                | Some c \<Rightarrow> st1\<lparr>comments := al_set (co_content_id c) (c\<lparr>co_reply_count := co_reply_count c + 1\<rparr>)
                    (comments st1)\<rparr>)
          in add_notification (case replied of None \<Rightarrow> po_author_key p | Some c \<Rightarrow> co_author_key c) Notify_reply
               (content_id env) (env_author env) (env_time env) st2)"

definition CommentCreate_project :: "comment_create_msg \<Rightarrow> parsed_envelope \<Rightarrow> forum_store \<Rightarrow> forum_store" where
  "CommentCreate_project m env st =
     (let st1 = st\<lparr>comments := al_set (content_id env) (created_comment m env st) (comments st)\<rparr>
      in add_mention_notifications (cr_body_markdown m) (content_id env) (env_author env) (env_time env)
           (count_reply m env st1))"

record comment_update_msg =
  ct_target :: string
  ct_body_markdown :: string

definition CommentUpdate_validate :: "comment_update_msg \<Rightarrow> parsed_envelope \<Rightarrow> validation" where
  "CommentUpdate_validate m env =
     (if \<not> is_content_id (ct_target m) then Invalid ''target must be a content ID'' (Some ''target'')
      else validate_comment_text (ct_body_markdown m))"

definition CommentUpdate_authorize :: "forum_store \<Rightarrow> comment_update_msg \<Rightarrow> parsed_envelope \<Rightarrow> auth_decision" where
  "CommentUpdate_authorize st m env =
     (case map_of (comments st) (ct_target m) of
        None \<Rightarrow> Denied ''comment is not known here''
      | Some c \<Rightarrow>
          if co_author_key c \<noteq> env_author env then Denied ''only the author may edit a comment''
          else if co_removed c then Denied ''a removed comment cannot be edited'' else Allowed)"

definition CommentUpdate_project :: "comment_update_msg \<Rightarrow> parsed_envelope \<Rightarrow> forum_store \<Rightarrow> forum_store" where
  "CommentUpdate_project m env st =
     (case map_of (comments st) (ct_target m) of
        None \<Rightarrow> st
      | Some c \<Rightarrow> st\<lparr>comments := al_set (ct_target m) (c\<lparr>co_body_markdown := ct_body_markdown m\<rparr>) (comments st)\<rparr>)"

definition CommentDelete_validate :: "delete_msg \<Rightarrow> parsed_envelope \<Rightarrow> validation" where
  "CommentDelete_validate m env = need_content_id (de_target m)"

definition CommentDelete_authorize :: "forum_store \<Rightarrow> delete_msg \<Rightarrow> parsed_envelope \<Rightarrow> auth_decision" where
  "CommentDelete_authorize st m env =
     (case map_of (comments st) (de_target m) of
        None \<Rightarrow> Denied ''comment is not known here''
      | Some c \<Rightarrow> if co_author_key c \<noteq> env_author env then Denied ''only the author may delete their comment'' else Allowed)"

definition CommentDelete_project :: "delete_msg \<Rightarrow> parsed_envelope \<Rightarrow> forum_store \<Rightarrow> forum_store" where
  "CommentDelete_project m env st =
     (case map_of (comments st) (de_target m) of
        None \<Rightarrow> st
      | Some c \<Rightarrow> st\<lparr>comments := al_set (de_target m) (c\<lparr>co_removed := True,
            co_removed_reason := Some (or_else (de_reason m) ''deleted by the author'')\<rparr>) (comments st)\<rparr>)"

section \<open>Votes\<close>

record vote_cast_msg =
  vc_target :: string
  vc_value :: int

definition string_greater :: "string \<Rightarrow> string \<Rightarrow> bool" where
  "string_greater a b \<longleftrightarrow> \<not> js_string_le a b"

definition vote_supersedes :: "int \<Rightarrow> string \<Rightarrow> vote_doc option \<Rightarrow> bool" where
  "vote_supersedes created_at cid stored =
     (case stored of
        None \<Rightarrow> True
      | Some v \<Rightarrow>
          if created_at \<noteq> vo_updated_at_ms v then created_at > vo_updated_at_ms v
          else string_greater cid (vo_content_id v))"

definition vote_key :: "string \<Rightarrow> string \<Rightarrow> string" where
  "vote_key author target = author @ '':'' @ target"

definition VoteCast_validate :: "vote_cast_msg \<Rightarrow> parsed_envelope \<Rightarrow> validation" where
  "VoteCast_validate m env =
     (if \<not> is_content_id (vc_target m) then Invalid ''target must be a content ID'' (Some ''target'')
      else if vc_value m \<notin> {-1, 0, 1} then Invalid ''value must be -1, 0 or +1'' (Some ''value'') else Valid)"

text \<open>The post a target belongs to: itself, or the post of a comment.\<close>

definition parent_post :: "forum_store \<Rightarrow> string \<Rightarrow> string + post_doc" where
  "parent_post st target =
     (case map_of (posts st) target of
        Some p \<Rightarrow> Inr p
      | None \<Rightarrow> (case map_of (comments st) target of
          None \<Rightarrow> Inl ''target is not known here''
        | Some c \<Rightarrow> (case map_of (posts st) (co_post c) of
            None \<Rightarrow> Inl ''target parent is not known here'' | Some p \<Rightarrow> Inr p)))"

definition engage_authorize :: "string \<Rightarrow> string \<Rightarrow> forum_store \<Rightarrow> string \<Rightarrow> parsed_envelope \<Rightarrow> auth_decision" where
  "engage_authorize what refusal st target env =
     (case parent_post st target of
        Inl r \<Rightarrow> Denied (what @ '' '' @ r)
      | Inr p \<Rightarrow>
          if env_scope env \<noteq> [] \<and> env_scope env \<noteq> po_community p
          then Denied ''scope does not match the target community''
          else (let ctx = env_auth st env (po_community p)
            in if ax_community_doc ctx \<noteq> None \<and> \<not> is_community_member ctx then Denied refusal else Allowed))"

definition VoteCast_authorize :: "forum_store \<Rightarrow> vote_cast_msg \<Rightarrow> parsed_envelope \<Rightarrow> auth_decision" where
  "VoteCast_authorize st m env = engage_authorize ''vote'' ''community membership required'' st (vc_target m) env"

definition fresh_identity :: "string \<Rightarrow> int \<Rightarrow> identity_doc" where
  "fresh_identity key first_seen =
     \<lparr>iy_id = key, iy_display_name = [], iy_bio = [], iy_avatar = [], iy_banner = [], iy_flags = IdentityFlag Id_ACTIVE,
      iy_post_karma = 0, iy_comment_karma = 0, iy_first_seen_at_ms = first_seen\<rparr>"

definition apply_karma :: "string \<Rightarrow> (identity_doc \<Rightarrow> identity_doc) \<Rightarrow> int \<Rightarrow> forum_store \<Rightarrow> forum_store" where
  "apply_karma author add first_seen st =
     (let i = (case map_of (identities st) author of Some i \<Rightarrow> i | None \<Rightarrow> fresh_identity author first_seen)
      in st\<lparr>identities := al_set author (add i) (identities st)\<rparr>)"

definition VoteCast_project :: "vote_cast_msg \<Rightarrow> parsed_envelope \<Rightarrow> forum_store \<Rightarrow> forum_store" where
  "VoteCast_project m env st =
     (let key = vote_key (env_author env) (vc_target m);
          previous = map_of (votes st) key
      in if \<not> vote_supersedes (env_time env) (content_id env) previous then st
         else let delta = vc_value m - (case previous of None \<Rightarrow> 0 | Some v \<Rightarrow> vo_value v);
                  st1 = st\<lparr>votes := al_set key
                    \<lparr>vo_id = key, vo_author_key = env_author env, vo_target = vc_target m, vo_value = vc_value m,
                     vo_updated_at_ms = env_time env, vo_content_id = content_id env\<rparr> (votes st)\<rparr>
              in if delta = 0 then st1
                 else (case map_of (posts st1) (vc_target m) of
                     Some p \<Rightarrow>
                       apply_karma (po_author_key p) (\<lambda>i. i\<lparr>iy_post_karma := iy_post_karma i + delta\<rparr>) (po_created_at_ms p)
                         (st1\<lparr>posts := al_set (vc_target m) (p\<lparr>po_score := po_score p + delta\<rparr>) (posts st1)\<rparr>)
                   | None \<Rightarrow> (case map_of (comments st1) (vc_target m) of
                         Some c \<Rightarrow>
                           apply_karma (co_author_key c) (\<lambda>i. i\<lparr>iy_comment_karma := iy_comment_karma i + delta\<rparr>) (co_created_at_ms c)
                             (st1\<lparr>comments := al_set (vc_target m) (c\<lparr>co_score := co_score c + delta\<rparr>) (comments st1)\<rparr>)
                       | None \<Rightarrow> st1)))"


section \<open>Reports\<close>

record report_create_msg =
  rc_target :: string
  rc_target_kind :: int
  rc_reason :: int
  rc_detail :: string

record report_resolve_msg =
  rr_target :: string
  rr_status :: int
  rr_action_taken :: int
  rr_note :: string

definition REPORT_UNSPECIFIED :: int where "REPORT_UNSPECIFIED = 0"
definition REPORT_PENDING :: int where "REPORT_PENDING = 1"
definition MAX_DETAIL :: nat where "MAX_DETAIL = 2000"

definition ReportCreate_validate :: "report_create_msg \<Rightarrow> parsed_envelope \<Rightarrow> validation" where
  "ReportCreate_validate m env =
     (if rc_target m = [] then Invalid ''target is required'' (Some ''target'')
      else if env_scope env = [] then Invalid ''a report must name its community'' (Some ''scope'')
      else if rc_reason m = 0 then Invalid ''a reason is required'' (Some ''reason'')
      else if code_point_count (rc_detail m) > MAX_DETAIL
      then Invalid (''detail exceeds '' @ digits_of MAX_DETAIL @ '' characters'') (Some ''detail'')
      else Valid)"

definition ReportCreate_authorize :: "forum_store \<Rightarrow> report_create_msg \<Rightarrow> parsed_envelope \<Rightarrow> auth_decision" where
  "ReportCreate_authorize st m env =
     (let ctx = env_auth st env (env_scope env)
      in if ax_community_doc ctx = None then Denied ''community is not known here''
         else if \<not> is_community_member ctx then Denied ''community membership required''
         else (case map_of (posts st) (rc_target m) of
             Some p \<Rightarrow> if po_community p \<noteq> env_scope env then Denied ''target is in another community'' else Allowed
           | None \<Rightarrow> (case map_of (comments st) (rc_target m) of
               Some c \<Rightarrow> (case map_of (posts st) (co_post c) of
                   None \<Rightarrow> Denied ''target is in another community''
                 | Some p \<Rightarrow> if po_community p \<noteq> env_scope env then Denied ''target is in another community'' else Allowed)
             | None \<Rightarrow> if map_of (identities st) (rc_target m) = None then Denied ''report target is not known here''
                else Allowed)))"

definition ReportCreate_project :: "report_create_msg \<Rightarrow> parsed_envelope \<Rightarrow> forum_store \<Rightarrow> forum_store" where
  "ReportCreate_project m env st = st\<lparr>reports := al_set (content_id env)
     \<lparr>rp_id = content_id env, rp_community = env_scope env, rp_reporter_key = env_author env, rp_target = rc_target m,
      rp_target_kind = rc_target_kind m, rp_reason = rc_reason m, rp_detail = rc_detail m, rp_status = REPORT_PENDING,
      rp_action_taken = 0, rp_resolution_note = [], rp_resolved_by_key = None, rp_created_at_ms = env_time env,
      rp_resolved_at_ms = None\<rparr> (reports st)\<rparr>"

definition ReportResolve_validate :: "report_resolve_msg \<Rightarrow> parsed_envelope \<Rightarrow> validation" where
  "ReportResolve_validate m env =
     (if \<not> is_content_id (rr_target m) then Invalid ''target must be the content ID of a report'' (Some ''target'')
      else if rr_status m = REPORT_UNSPECIFIED \<or> rr_status m = REPORT_PENDING
      then Invalid ''resolution must set a terminal status'' (Some ''status'') else Valid)"

definition ReportResolve_authorize :: "forum_store \<Rightarrow> report_resolve_msg \<Rightarrow> parsed_envelope \<Rightarrow> auth_decision" where
  "ReportResolve_authorize st m env =
     (case map_of (reports st) (rr_target m) of
        None \<Rightarrow> Denied ''report is not known here''
      | Some r \<Rightarrow> if \<not> can (env_auth st env (rp_community r)) report_review
          then Denied ''report.review permission required'' else Allowed)"

definition ReportResolve_project :: "report_resolve_msg \<Rightarrow> parsed_envelope \<Rightarrow> forum_store \<Rightarrow> forum_store" where
  "ReportResolve_project m env st =
     (case map_of (reports st) (rr_target m) of
        None \<Rightarrow> st
      | Some r \<Rightarrow> st\<lparr>reports := al_set (rr_target m) (r\<lparr>
            rp_status := rr_status m, rp_action_taken := rr_action_taken m, rp_resolution_note := rr_note m,
            rp_resolved_by_key := Some (env_author env), rp_resolved_at_ms := Some (env_time env)\<rparr>) (reports st)\<rparr>)"

end
