(* ===== verification/JB_Membership.thy ===== *)
theory JB_Membership
  imports JB_Forum
begin

unbundle bit_operations_syntax

text \<open>
  Who may do what in a community: joining and leaving (\<open>membership/membership.handlers.ts\<close>) and the roles a
  community defines, assigns and revokes (\<open>role/role.handlers.ts\<close>).
\<close>

section \<open>Join\<close>

record membership_msg =
  mj_community :: string

definition Membership_validate :: "membership_msg \<Rightarrow> parsed_envelope \<Rightarrow> validation" where
  "Membership_validate m env =
     (if mj_community m = [] then Invalid ''community is required'' (Some ''community'') else Valid)"

definition still_restricted :: "membership_doc \<Rightarrow> int \<Rightarrow> bool" where
  "still_restricted doc now_ms = (case ms_restricted_until_ms doc of None \<Rightarrow> True | Some t \<Rightarrow> t > now_ms)"

definition MembershipJoin_authorize :: "forum_store \<Rightarrow> membership_msg \<Rightarrow> parsed_envelope \<Rightarrow> auth_decision" where
  "MembershipJoin_authorize st m env =
     (case map_of (communities st) (mj_community m) of
        None \<Rightarrow> Denied ''community is not known here''
      | Some c \<Rightarrow>
          if cm_archived c then Denied ''community is archived''
          else (case map_of (memberships st) (membershipKey (mj_community m) (env_author env)) of
              None \<Rightarrow> Allowed
            | Some existing \<Rightarrow>
                if has_flag (ms_flags existing) (MembershipFlag Ms_BANNED) \<and> still_restricted existing (env_time env)
                then Denied ''this key is banned from the community'' else Allowed))"

definition bump_member_count :: "string \<Rightarrow> int \<Rightarrow> forum_store \<Rightarrow> forum_store" where
  "bump_member_count community delta st =
     (case map_of (communities st) community of
        None \<Rightarrow> st
      | Some doc \<Rightarrow> st\<lparr>communities := al_set community
          (doc\<lparr>cm_member_count := max 0 (cm_member_count doc + delta)\<rparr>) (communities st)\<rparr>)"

definition joined_doc :: "string \<Rightarrow> string \<Rightarrow> int \<Rightarrow> membership_doc option \<Rightarrow> membership_doc" where
  "joined_doc community member now_ms existing =
     \<lparr>ms_id = membershipKey community member, ms_community = community, ms_member_key = member,
      ms_flags = set_flag (case existing of None \<Rightarrow> 0 | Some e \<Rightarrow> ms_flags e) (MembershipFlag Ms_MEMBER),
      ms_joined_at_ms = (case existing of None \<Rightarrow> now_ms | Some e \<Rightarrow> ms_joined_at_ms e),
      ms_restricted_until_ms = Option.bind existing ms_restricted_until_ms,
      ms_restriction_reason = Option.bind existing ms_restriction_reason\<rparr>"

definition assign_role :: "string \<Rightarrow> string \<Rightarrow> int \<Rightarrow> string \<Rightarrow> forum_store \<Rightarrow> forum_store" where
  "assign_role community subject now_ms role st =
     (let i = roleAssignmentKey community subject role
      in st\<lparr>role_assignments := al_set i
           \<lparr>ra_id = i, ra_community = community, ra_subject_key = subject, ra_role = role, ra_assigned_at_ms = now_ms\<rparr>
           (role_assignments st)\<rparr>)"

definition MembershipJoin_project :: "membership_msg \<Rightarrow> parsed_envelope \<Rightarrow> forum_store \<Rightarrow> forum_store" where
  "MembershipJoin_project m env st =
     (let member = env_author env;
          c = mj_community m;
          i = membershipKey c member;
          existing = map_of (memberships st) i;
          was_member = (case existing of None \<Rightarrow> False | Some e \<Rightarrow> has_flag (ms_flags e) (MembershipFlag Ms_MEMBER));
          st1 = st\<lparr>memberships := al_set i (joined_doc c member (env_time env) existing) (memberships st)\<rparr>;
          st2 = (if was_member then st1 else bump_member_count c 1 st1);
          defaults = find_docs (\<lambda>r. rl_community r = c \<and> rl_is_default r) 64 (roles st2)
      in fold (\<lambda>r. assign_role c member (env_time env) (rl_name r)) defaults st2)"

section \<open>Leave\<close>

definition MembershipLeave_authorize :: "membership_msg \<Rightarrow> parsed_envelope \<Rightarrow> auth_decision" where
  "MembershipLeave_authorize m env = Allowed"

definition MembershipLeave_project :: "membership_msg \<Rightarrow> parsed_envelope \<Rightarrow> forum_store \<Rightarrow> forum_store" where
  "MembershipLeave_project m env st =
     (let c = mj_community m; i = membershipKey c (env_author env)
      in case map_of (memberships st) i of
           None \<Rightarrow> st
         | Some existing \<Rightarrow>
             let flags = clear_flag (clear_flag (ms_flags existing) (MembershipFlag Ms_MEMBER)) (MembershipFlag Ms_MODERATOR);
                 st1 = st\<lparr>memberships := al_set i (existing\<lparr>ms_flags := flags\<rparr>) (memberships st)\<rparr>
             in if has_flag (ms_flags existing) (MembershipFlag Ms_MEMBER) then bump_member_count c (-1) st1 else st1)"

section \<open>Roles\<close>

record role_define_msg =
  rd_community :: string
  rd_name :: string
  rd_permission_mask :: int
  rd_is_default :: bool

record role_grant_msg =
  rg_community :: string
  rg_subject_key :: bytes
  rg_role :: string

definition RoleDefine_validate :: "role_define_msg \<Rightarrow> parsed_envelope \<Rightarrow> validation" where
  "RoleDefine_validate m env =
     (if rd_community m = [] then Invalid ''community is required'' (Some ''community'')
      else if \<not> ROLE_NAME_PATTERN (rd_name m)
      then Invalid ''role name must be 2-32 lowercase letters, digits, - or _'' (Some ''name'')
      else if rd_permission_mask m AND NOT OWNER_PERMISSIONS \<noteq> 0
      then Invalid ''permission_mask contains undefined bits'' (Some ''permission_mask'')
      else Valid)"

definition RoleDefine_authorize :: "forum_store \<Rightarrow> role_define_msg \<Rightarrow> parsed_envelope \<Rightarrow> auth_decision" where
  "RoleDefine_authorize st m env =
     (let ctx = env_auth st env (rd_community m); author_mask = resolve_permissions ctx
      in if ax_community_doc ctx = None then Denied ''community is not known here''
         else if \<not> can ctx member_role_update then Denied ''member.role.update permission required''
         else if rd_permission_mask m AND NOT author_mask \<noteq> 0
         then Denied ''a role cannot grant permissions its author does not hold''
         else (case map_of (roles st) (roleKey (rd_community m) (rd_name m)) of
             None \<Rightarrow> Allowed
           | Some existing \<Rightarrow>
               if rl_permission_mask existing AND NOT author_mask \<noteq> 0
               then Denied ''cannot redefine a role granting more than you hold'' else Allowed))"

definition RoleDefine_project :: "role_define_msg \<Rightarrow> parsed_envelope \<Rightarrow> forum_store \<Rightarrow> forum_store" where
  "RoleDefine_project m env st =
     (let i = roleKey (rd_community m) (rd_name m)
      in st\<lparr>roles := al_set i
           \<lparr>rl_id = i, rl_community = rd_community m, rl_name = rd_name m, rl_permission_mask = rd_permission_mask m,
            rl_is_default = rd_is_default m, rl_defined_at_ms = env_time env\<rparr> (roles st)\<rparr>)"

definition RoleGrant_validate :: "role_grant_msg \<Rightarrow> parsed_envelope \<Rightarrow> validation" where
  "RoleGrant_validate m env =
     (if rg_community m = [] then Invalid ''community is required'' (Some ''community'')
      else if rg_role m = [] then Invalid ''role is required'' (Some ''role'')
      else if length (rg_subject_key m) \<noteq> 32
      then Invalid ''subject_key must be a 32-byte Ed25519 key'' (Some ''subject_key'')
      else Valid)"

definition RoleAssign_authorize :: "forum_store \<Rightarrow> role_grant_msg \<Rightarrow> parsed_envelope \<Rightarrow> auth_decision" where
  "RoleAssign_authorize st m env =
     (let ctx = env_auth st env (rg_community m)
      in if ax_community_doc ctx = None then Denied ''community is not known here''
         else if \<not> can ctx member_role_update then Denied ''member.role.update permission required''
         else (case map_of (roles st) (roleKey (rg_community m) (rg_role m)) of
             None \<Rightarrow> Denied ''role is not defined in this community''
           | Some role \<Rightarrow>
               if rl_permission_mask role AND NOT (resolve_permissions ctx) \<noteq> 0
               then Denied ''cannot assign a role granting more than you hold'' else Allowed))"

definition RoleAssign_project :: "role_grant_msg \<Rightarrow> parsed_envelope \<Rightarrow> forum_store \<Rightarrow> forum_store" where
  "RoleAssign_project m env st = assign_role (rg_community m) (hex (rg_subject_key m)) (env_time env) (rg_role m) st"

definition RoleRevoke_authorize :: "forum_store \<Rightarrow> role_grant_msg \<Rightarrow> parsed_envelope \<Rightarrow> auth_decision" where
  "RoleRevoke_authorize st m env =
     (let ctx = env_auth st env (rg_community m)
      in case ax_community_doc ctx of
           None \<Rightarrow> Denied ''community is not known here''
         | Some c \<Rightarrow>
             if \<not> can ctx member_role_update then Denied ''member.role.update permission required''
             else if cm_owner_key c = hex (rg_subject_key m) then Denied ''the community owner's roles cannot be revoked''
             else (case map_of (roles st) (roleKey (rg_community m) (rg_role m)) of
                 None \<Rightarrow> Denied ''role is not defined in this community''
               | Some role \<Rightarrow>
                   if rl_permission_mask role AND NOT (resolve_permissions ctx) \<noteq> 0
                   then Denied ''cannot revoke a role granting more than you hold'' else Allowed))"

definition RoleRevoke_project :: "role_grant_msg \<Rightarrow> parsed_envelope \<Rightarrow> forum_store \<Rightarrow> forum_store" where
  "RoleRevoke_project m env st = st\<lparr>role_assignments :=
     al_del (roleAssignmentKey (rg_community m) (hex (rg_subject_key m)) (rg_role m)) (role_assignments st)\<rparr>"

end
