(* ===== verification/JB_Identity.thy ===== *)
theory JB_Identity
  imports JB_Content JB_Membership
begin

text \<open>
  Keys of the forum plane: the statements they sign (\<open>packages/sdk-ts/src/signer/key-certificate.ts\<close>), and the
  handlers that certify and revoke them (\<open>identity/certificate.handlers.ts\<close>), a rotation's inheritance of
  standing included.
\<close>

section \<open>Signed statements\<close>

record key_certificate_fields =
  kc_plane :: int
  kc_device_key :: bytes
  kc_pq_key :: bytes
  kc_valid_from :: int
  kc_valid_until :: int

record key_revocation_fields =
  kr_plane :: int
  kr_revoked_key :: bytes
  kr_kind :: int
  kr_effective_from_ms :: int
  kr_replacement_key :: bytes

definition write_bytes :: "bytes \<Rightarrow> bytes" where
  "write_bytes v = varint (int (length v)) @ v"

definition write_context :: "string \<Rightarrow> bytes" where
  "write_context c = (let bs = text_encode c in varint (int (length bs)) @ bs)"

definition pq_attestation_bytes :: "key_certificate_fields \<Rightarrow> bytes" where
  "pq_attestation_bytes f =
     write_context ''jb:key:certificate:pq:v1'' @ write_bytes (kc_device_key f)
     @ varint (kc_valid_from f) @ varint (kc_valid_until f)"

definition certificate_self_signature_bytes :: "key_certificate_fields \<Rightarrow> bytes \<Rightarrow> bytes" where
  "certificate_self_signature_bytes f attestation =
     write_context ''jb:key:certificate:self:v1'' @ varint (kc_plane f) @ write_bytes (kc_device_key f)
     @ write_bytes (kc_pq_key f) @ write_bytes attestation @ varint (kc_valid_from f) @ varint (kc_valid_until f)"

definition revocation_authorization_bytes :: "key_revocation_fields \<Rightarrow> bytes" where
  "revocation_authorization_bytes f =
     write_context ''jb:key:revocation:authorize:v1'' @ varint (kr_plane f) @ write_bytes (kr_revoked_key f)
     @ varint (kr_kind f) @ varint (kr_effective_from_ms f) @ write_bytes (kr_replacement_key f)"

section \<open>Certify\<close>

record key_certificate_msg =
  cf_plane :: int
  cf_device_key :: bytes
  cf_pq_key :: bytes
  cf_pq_attestation :: bytes
  cf_valid_from :: int
  cf_valid_until :: int
  cf_self_signature :: bytes

definition MAX_VALIDITY_MS :: int where "MAX_VALIDITY_MS = 5 * 365 * 24 * 60 * 60 * 1000"

definition certificate_fields :: "key_certificate_msg \<Rightarrow> key_certificate_fields" where
  "certificate_fields m =
     \<lparr>kc_plane = cf_plane m, kc_device_key = cf_device_key m, kc_pq_key = cf_pq_key m,
      kc_valid_from = cf_valid_from m, kc_valid_until = cf_valid_until m\<rparr>"

definition KeyCertify_validate :: "forum_deps \<Rightarrow> key_certificate_msg \<Rightarrow> parsed_envelope \<Rightarrow> validation" where
  "KeyCertify_validate d m env =
     (if cf_plane m \<noteq> plane_by_name FORUM then Invalid ''a forum certificate must declare the FORUM plane'' (Some ''plane'')
      else if length (cf_device_key m) \<noteq> 32
      then Invalid ''device_key must be a 32-byte Ed25519 key'' (Some ''device_key'')
      else if length (cf_pq_key m) \<noteq> 1312
      then Invalid ''pq_key must be a 1312-byte ML-DSA-44 key'' (Some ''pq_key'')
      else if length (cf_pq_attestation m) \<noteq> 2420
      then Invalid ''pq_attestation must be a 2420-byte ML-DSA-44 signature'' (Some ''pq_attestation'')
      else if length (cf_self_signature m) \<noteq> 64
      then Invalid ''self_signature must be a 64-byte Ed25519 signature'' (Some ''self_signature'')
      else if cf_device_key m \<noteq> author_key env
      then Invalid ''a certificate must be self-published by its own key'' (Some ''device_key'')
      else if cf_valid_until m \<le> cf_valid_from m then Invalid ''valid_until must be after valid_from'' (Some ''valid_until'')
      else if cf_valid_until m - cf_valid_from m > MAX_VALIDITY_MS
      then Invalid ''certificate validity window is too long'' (Some ''valid_until'')
      else if created_at_ms env < cf_valid_from m \<or> created_at_ms env \<ge> cf_valid_until m
      then Invalid ''certificate is not valid at its own publication time'' (Some ''valid_from'')
      else if \<not> fd_mldsa_verify d (cf_pq_attestation m) (pq_attestation_bytes (certificate_fields m)) (cf_pq_key m)
      then Invalid ''post-quantum attestation does not verify'' (Some ''pq_attestation'')
      else if \<not> fd_ed_verify d (cf_self_signature m)
             (certificate_self_signature_bytes (certificate_fields m) (cf_pq_attestation m)) (cf_device_key m)
      then Invalid ''certificate self-signature does not verify'' (Some ''self_signature'')
      else Valid)"

datatype revocation_kind = R_UNSPECIFIED | R_ROTATE | R_COMPROMISE | R_DURESS | R_RETIRE

fun RevocationKind :: "revocation_kind \<Rightarrow> int" where
  "RevocationKind R_UNSPECIFIED = 0"
| "RevocationKind R_ROTATE = 1"
| "RevocationKind R_COMPROMISE = 2"
| "RevocationKind R_DURESS = 3"
| "RevocationKind R_RETIRE = 4"

definition KeyCertify_authorize :: "forum_deps \<Rightarrow> forum_store \<Rightarrow> key_certificate_msg \<Rightarrow> parsed_envelope \<Rightarrow> auth_decision" where
  "KeyCertify_authorize d st m env =
     (if (case map_of (revocations st) (env_author env) of None \<Rightarrow> False | Some r \<Rightarrow> re_kind r \<noteq> RevocationKind R_ROTATE)
      then Denied ''this key has been revoked and cannot be re-certified''
      else (case fd_registrations_open d of
          None \<Rightarrow> Allowed
        | Some is_open \<Rightarrow>
            if map_of (certificates st) (env_author env) = None \<and> \<not> is_open
            then Denied ''new Forum identity registrations are closed on this node'' else Allowed))"

definition KeyCertify_project :: "key_certificate_msg \<Rightarrow> parsed_envelope \<Rightarrow> forum_store \<Rightarrow> forum_store" where
  "KeyCertify_project m env st =
     (let i = env_author env;
          st1 = st\<lparr>certificates := al_set i
            \<lparr>ce_id = i, ce_plane = cf_plane m, ce_device_key = i, ce_pq_key = base64 (cf_pq_key m),
             ce_pq_attestation = base64 (cf_pq_attestation m), ce_valid_from_ms = js_number (cf_valid_from m),
             ce_valid_until_ms = js_number (cf_valid_until m), ce_self_signature = base64 (cf_self_signature m),
             ce_content_id = content_id env, ce_certified_at_ms = env_time env\<rparr> (certificates st)\<rparr>
      in case map_of (identities st1) i of
           Some _ \<Rightarrow> st1
         | None \<Rightarrow> st1\<lparr>identities := al_set i (fresh_identity i (env_time env)) (identities st1)\<rparr>)"

section \<open>Revoke\<close>

record key_revocation_msg =
  rv_plane :: int
  rv_revoked_key :: bytes
  rv_kind :: int
  rv_effective_from_ms :: int
  rv_replacement_key :: bytes
  rv_authorization_signature :: bytes

definition KeyRevoke_validate :: "forum_deps \<Rightarrow> key_revocation_msg \<Rightarrow> parsed_envelope \<Rightarrow> validation" where
  "KeyRevoke_validate d m env =
     (if rv_plane m \<noteq> plane_by_name FORUM then Invalid ''a forum revocation must declare the FORUM plane'' (Some ''plane'')
      else if length (rv_revoked_key m) \<noteq> 32
      then Invalid ''revoked_key must be a 32-byte Ed25519 key'' (Some ''revoked_key'')
      else if rv_kind m = RevocationKind R_UNSPECIFIED then Invalid ''a revocation kind is required'' (Some ''kind'')
      else if rv_kind m = RevocationKind R_ROTATE \<and> length (rv_replacement_key m) \<noteq> 32
      then Invalid ''a rotation must name its replacement key'' (Some ''replacement_key'')
      else if rv_kind m \<noteq> RevocationKind R_DURESS \<and> rv_revoked_key m \<noteq> author_key env
      then Invalid ''only a duress revocation may be published by another key'' (Some ''revoked_key'')
      else if rv_kind m = RevocationKind R_DURESS \<and> length (rv_authorization_signature m) \<noteq> 64
      then Invalid ''a duress revocation requires a 64-byte owner authorization'' (Some ''authorization_signature'')
      else if rv_kind m = RevocationKind R_DURESS
        \<and> \<not> fd_ed_verify d (rv_authorization_signature m)
             (revocation_authorization_bytes \<lparr>kr_plane = rv_plane m, kr_revoked_key = rv_revoked_key m, kr_kind = rv_kind m,
               kr_effective_from_ms = rv_effective_from_ms m, kr_replacement_key = rv_replacement_key m\<rparr>)
             (rv_revoked_key m)
      then Invalid ''duress authorization does not verify'' (Some ''authorization_signature'')
      else Valid)"

definition KeyRevoke_authorize :: "key_revocation_msg \<Rightarrow> parsed_envelope \<Rightarrow> auth_decision" where
  "KeyRevoke_authorize m env = Allowed"

definition inherit_membership :: "string \<Rightarrow> membership_doc \<Rightarrow> forum_store \<Rightarrow> forum_store" where
  "inherit_membership replacement doc st =
     (let i = membershipKey (ms_community doc) replacement
      in st\<lparr>memberships := al_set i (doc\<lparr>ms_id := i, ms_member_key := replacement\<rparr>) (memberships st)\<rparr>)"

definition inherit_assignment :: "string \<Rightarrow> role_assignment_doc \<Rightarrow> forum_store \<Rightarrow> forum_store" where
  "inherit_assignment replacement a st =
     (let i = roleAssignmentKey (ra_community a) replacement (ra_role a)
      in st\<lparr>role_assignments := al_set i (a\<lparr>ra_id := i, ra_subject_key := replacement\<rparr>) (role_assignments st)\<rparr>)"

definition inherit_standing :: "string \<Rightarrow> string \<Rightarrow> forum_store \<Rightarrow> forum_store" where
  "inherit_standing revoked replacement st =
     (let st1 = (case map_of (identities st) revoked of
              None \<Rightarrow> st
            | Some i \<Rightarrow> st\<lparr>identities := al_set replacement (i\<lparr>iy_id := replacement\<rparr>) (identities st)\<rparr>);
          st2 = fold (inherit_membership replacement)
                  (find_docs (\<lambda>x. ms_member_key x = revoked) 100000 (memberships st1)) st1
      in fold (inherit_assignment replacement)
           (find_docs (\<lambda>x. ra_subject_key x = revoked) 100000 (role_assignments st2)) st2)"

definition MAX_SAFE_INTEGER :: int where "MAX_SAFE_INTEGER = 9007199254740991"

definition revocation_row :: "key_revocation_msg \<Rightarrow> parsed_envelope \<Rightarrow> revocation_doc option \<Rightarrow> revocation_doc" where
  "revocation_row m env existing =
     (let claimed = js_number (rv_effective_from_ms m);
          from_ms = min (if claimed = 0 then env_time env else claimed)
            (case existing of None \<Rightarrow> MAX_SAFE_INTEGER | Some e \<Rightarrow> re_effective_from_ms e)
      in \<lparr>re_id = hex (rv_revoked_key m), re_plane = rv_plane m, re_revoked_key = hex (rv_revoked_key m),
          re_kind = (case existing of None \<Rightarrow> rv_kind m
            | Some e \<Rightarrow> if re_effective_from_ms e \<le> from_ms then re_kind e else rv_kind m),
          re_effective_from_ms = from_ms,
          re_replacement_key = (if length (rv_replacement_key m) > 0 then hex (rv_replacement_key m)
            else (case existing of None \<Rightarrow> [] | Some e \<Rightarrow> re_replacement_key e)),
          re_content_id = content_id env, re_revoked_at_ms = env_time env\<rparr>)"

definition KeyRevoke_project :: "key_revocation_msg \<Rightarrow> parsed_envelope \<Rightarrow> forum_store \<Rightarrow> forum_store" where
  "KeyRevoke_project m env st =
     (let revoked = hex (rv_revoked_key m);
          row = revocation_row m env (map_of (revocations st) revoked);
          st1 = st\<lparr>revocations := al_set revoked row (revocations st)\<rparr>
      in if rv_kind m = RevocationKind R_ROTATE \<and> re_replacement_key row \<noteq> []
         then inherit_standing revoked (re_replacement_key row) st1 else st1)"

end
