(* ===== verification/JB_Social.thy ===== *)
theory JB_Social
  imports JB_Content
begin

unbundle bit_operations_syntax

text \<open>
  The remaining forum features: profile, follow, block, save and feed preferences (\<open>social/social.handlers.ts\<close>),
  private messages (\<open>message/forum-message.handler.ts\<close>), labels (\<open>label/label.handler.ts\<close>), awards
  (\<open>award/award.handlers.ts\<close>) and attachments (\<open>attachment/attachment.handler.ts\<close>).
\<close>

section \<open>Self-scoped rows\<close>

record profile_msg =
  pf_display_name :: string
  pf_bio :: string
  pf_avatar :: string
  pf_banner :: string

record edge_msg =
  eg_subject_key :: bytes
  eg_on :: bool
  eg_reason :: string

record save_msg =
  sc_target :: string
  sc_target_kind :: int
  sc_save :: bool
  sc_collection :: string

record feed_prefs_msg =
  ff_default_sort :: int
  ff_default_timeframe :: int
  ff_show_nsfw :: bool
  ff_blur_nsfw :: bool
  ff_layout :: int
  ff_favourite_communities :: "string list"
  ff_hidden_keys :: "bytes list"

definition MAX_DISPLAY_NAME :: nat where "MAX_DISPLAY_NAME = 64"
definition MAX_BIO :: nat where "MAX_BIO = 500"

definition edge_key :: "string \<Rightarrow> string \<Rightarrow> string" where
  "edge_key actor subject = actor @ '':'' @ subject"

definition SelfScoped_authorize :: "parsed_envelope \<Rightarrow> auth_decision" where
  "SelfScoped_authorize env = Allowed"

definition upsert_identity :: "parsed_envelope \<Rightarrow> (identity_doc \<Rightarrow> identity_doc) \<Rightarrow> forum_store \<Rightarrow> forum_store" where
  "upsert_identity env patch st =
     (let i = env_author env;
          base = (case map_of (identities st) i of Some e \<Rightarrow> e | None \<Rightarrow> fresh_identity i (env_time env))
      in st\<lparr>identities := al_set i (patch base) (identities st)\<rparr>)"

definition ProfileUpdate_validate :: "profile_msg \<Rightarrow> parsed_envelope \<Rightarrow> validation" where
  "ProfileUpdate_validate m env =
     (if code_point_count (pf_display_name m) > MAX_DISPLAY_NAME
      then Invalid (''display name exceeds '' @ digits_of MAX_DISPLAY_NAME @ '' characters'') (Some ''display_name'')
      else if code_point_count (pf_bio m) > MAX_BIO
      then Invalid (''bio exceeds '' @ digits_of MAX_BIO @ '' characters'') (Some ''bio'')
      else Valid)"

definition ProfileUpdate_project :: "profile_msg \<Rightarrow> parsed_envelope \<Rightarrow> forum_store \<Rightarrow> forum_store" where
  "ProfileUpdate_project m env st = upsert_identity env (\<lambda>i. i\<lparr>iy_display_name := pf_display_name m,
     iy_bio := pf_bio m, iy_avatar := pf_avatar m, iy_banner := pf_banner m\<rparr>) st"

definition Follow_validate :: "edge_msg \<Rightarrow> parsed_envelope \<Rightarrow> validation" where
  "Follow_validate m env =
     (if length (eg_subject_key m) \<noteq> 32 then Invalid ''subject_key must be a 32-byte Ed25519 key'' (Some ''subject_key'')
      else if eg_subject_key m = author_key env then Invalid ''a key cannot follow itself'' (Some ''subject_key'')
      else Valid)"

definition Follow_project :: "edge_msg \<Rightarrow> parsed_envelope \<Rightarrow> forum_store \<Rightarrow> forum_store" where
  "Follow_project m env st =
     (let actor = env_author env; subject = hex (eg_subject_key m); i = edge_key actor subject
      in if \<not> eg_on m then st\<lparr>follows := al_del i (follows st)\<rparr>
         else add_notification subject Notify_follow (content_id env) actor (env_time env)
           (st\<lparr>follows := al_set i \<lparr>ed_id = i, ed_actor_key = actor, ed_subject_key = subject, ed_reason = [],
             ed_updated_at_ms = env_time env\<rparr> (follows st)\<rparr>))"

definition Block_validate :: "edge_msg \<Rightarrow> parsed_envelope \<Rightarrow> validation" where
  "Block_validate m env =
     (if length (eg_subject_key m) \<noteq> 32 then Invalid ''subject_key must be a 32-byte Ed25519 key'' (Some ''subject_key'')
      else if eg_subject_key m = author_key env then Invalid ''a key cannot block itself'' (Some ''subject_key'')
      else Valid)"

definition Block_project :: "edge_msg \<Rightarrow> parsed_envelope \<Rightarrow> forum_store \<Rightarrow> forum_store" where
  "Block_project m env st =
     (let actor = env_author env; subject = hex (eg_subject_key m); i = edge_key actor subject
      in if \<not> eg_on m then st\<lparr>blocks := al_del i (blocks st)\<rparr>
         else st\<lparr>blocks := al_set i \<lparr>ed_id = i, ed_actor_key = actor, ed_subject_key = subject,
           ed_reason = eg_reason m, ed_updated_at_ms = env_time env\<rparr> (blocks st)\<rparr>)"

definition Save_validate :: "save_msg \<Rightarrow> parsed_envelope \<Rightarrow> validation" where
  "Save_validate m env = need_content_id (sc_target m)"

definition Save_project :: "save_msg \<Rightarrow> parsed_envelope \<Rightarrow> forum_store \<Rightarrow> forum_store" where
  "Save_project m env st =
     (let actor = env_author env; i = actor @ '':'' @ sc_target m
      in if \<not> sc_save m then st\<lparr>saved := al_del i (saved st)\<rparr>
         else st\<lparr>saved := al_set i \<lparr>sv_id = i, sv_actor_key = actor, sv_target = sc_target m,
           sv_target_kind = sc_target_kind m, sv_collection = sc_collection m, sv_updated_at_ms = env_time env\<rparr>
           (saved st)\<rparr>)"

definition FeedPrefs_validate :: "feed_prefs_msg \<Rightarrow> parsed_envelope \<Rightarrow> validation" where
  "FeedPrefs_validate m env =
     (if list_ex (\<lambda>k. length k \<noteq> 32) (ff_hidden_keys m)
      then Invalid ''hidden_keys must be 32-byte keys'' (Some ''hidden_keys'') else Valid)"

definition FeedPrefs_project :: "feed_prefs_msg \<Rightarrow> parsed_envelope \<Rightarrow> forum_store \<Rightarrow> forum_store" where
  "FeedPrefs_project m env st =
     (let i = env_author env
      in st\<lparr>feed_prefs := al_set i \<lparr>fp_id = i, fp_default_sort = ff_default_sort m,
           fp_default_timeframe = ff_default_timeframe m, fp_show_nsfw = ff_show_nsfw m, fp_blur_nsfw = ff_blur_nsfw m,
           fp_layout = ff_layout m, fp_favourite_communities = ff_favourite_communities m,
           fp_hidden_keys = map hex (ff_hidden_keys m), fp_updated_at_ms = env_time env\<rparr> (feed_prefs st)\<rparr>)"

section \<open>Messages\<close>

record forum_message_msg =
  mg_recipient_key :: bytes
  mg_kem_ciphertext :: bytes
  mg_ephemeral_x25519 :: bytes
  mg_ciphertext :: bytes
  mg_thread :: string
  mg_ratchet_index :: int

definition ForumMessage_validate :: "forum_message_msg \<Rightarrow> parsed_envelope \<Rightarrow> validation" where
  "ForumMessage_validate m env =
     (if length (mg_recipient_key m) \<noteq> 32 then Invalid ''recipient_key must be a 32-byte key'' (Some ''recipient_key'')
      else if length (mg_ciphertext m) = 0 then Invalid ''ciphertext is required'' (Some ''ciphertext'')
      else if mg_recipient_key m = author_key env then Invalid ''a key cannot message itself'' (Some ''recipient_key'')
      else Valid)"

definition ForumMessage_authorize :: "forum_store \<Rightarrow> forum_message_msg \<Rightarrow> parsed_envelope \<Rightarrow> auth_decision" where
  "ForumMessage_authorize st m env =
     (case map_of (blocks st) (hex (mg_recipient_key m) @ '':'' @ env_author env) of
        Some _ \<Rightarrow> Denied ''the recipient does not accept messages from this key'' | None \<Rightarrow> Allowed)"

definition ForumMessage_project :: "forum_message_msg \<Rightarrow> parsed_envelope \<Rightarrow> forum_store \<Rightarrow> forum_store" where
  "ForumMessage_project m env st = st\<lparr>forum_messages := al_set (content_id env)
     \<lparr>fm_id = content_id env, fm_sender_key = env_author env, fm_recipient_key = hex (mg_recipient_key m),
      fm_ciphertext = base64 (mg_ciphertext m), fm_kem_ciphertext = base64 (mg_kem_ciphertext m),
      fm_ephemeral_x25519 = base64 (mg_ephemeral_x25519 m), fm_thread = mg_thread m,
      fm_ratchet_index = mg_ratchet_index m, fm_created_at_ms = env_time env\<rparr> (forum_messages st)\<rparr>"

section \<open>Labels\<close>

record label_msg =
  lb_target :: string
  lb_verdict :: int
  lb_categories :: "string list"
  lb_confidence_pct :: int
  lb_model_id :: string
  lb_reasons :: "string list"
  lb_appealable :: bool

definition Verdict_UNSPECIFIED :: int where "Verdict_UNSPECIFIED = 0"
definition Verdict_RESTRICT :: int where "Verdict_RESTRICT = 3"
definition Verdict_DANGEROUS :: int where "Verdict_DANGEROUS = 4"

definition LabelEmit_validate :: "label_msg \<Rightarrow> parsed_envelope \<Rightarrow> validation" where
  "LabelEmit_validate m env =
     (if \<not> is_content_id (lb_target m) then Invalid ''target must be a content ID'' (Some ''target'')
      else if lb_verdict m = Verdict_UNSPECIFIED then Invalid ''a verdict is required'' (Some ''verdict'')
      else if lb_confidence_pct m > 100 then Invalid ''confidence must be 0-100'' (Some ''confidence_pct'')
      else if lb_model_id m = [] then Invalid ''model_id is required for attribution'' (Some ''model_id'')
      else if (lb_verdict m = Verdict_RESTRICT \<or> lb_verdict m = Verdict_DANGEROUS) \<and> length (lb_reasons m) = 0
      then Invalid ''a restrictive verdict must state its reasons'' (Some ''reasons'')
      else Valid)"

definition LabelEmit_authorize :: "forum_store \<Rightarrow> label_msg \<Rightarrow> parsed_envelope \<Rightarrow> auth_decision" where
  "LabelEmit_authorize st m env =
     (if env_scope env = [] then Allowed
      else if \<not> can (env_auth st env (env_scope env)) label_trust
      then Denied ''label.trust permission required in this community'' else Allowed)"

definition LabelEmit_project :: "label_msg \<Rightarrow> parsed_envelope \<Rightarrow> forum_store \<Rightarrow> forum_store" where
  "LabelEmit_project m env st = st\<lparr>labels := al_set (content_id env)
     \<lparr>la_id = content_id env, la_target = lb_target m, la_labeller_key = env_author env, la_verdict = lb_verdict m,
      la_categories = lb_categories m, la_confidence_pct = lb_confidence_pct m, la_model_id = lb_model_id m,
      la_reasons = lb_reasons m, la_appealable = lb_appealable m, la_created_at_ms = env_time env\<rparr> (labels st)\<rparr>"

section \<open>Awards\<close>

record award_give_msg =
  ag_target :: string
  ag_target_kind :: int
  ag_award_type :: string
  ag_anonymous :: bool
  ag_message :: string

record award_type_msg =
  ay_slug :: string
  ay_name :: string
  ay_icon :: string
  ay_cost :: int
  ay_active :: bool

definition MAX_AWARD_MESSAGE :: nat where "MAX_AWARD_MESSAGE = 200"

definition AwardGive_validate :: "award_give_msg \<Rightarrow> parsed_envelope \<Rightarrow> validation" where
  "AwardGive_validate m env =
     (if \<not> is_content_id (ag_target m) then Invalid ''target must be a content ID'' (Some ''target'')
      else if ag_award_type m = [] then Invalid ''award_type is required'' (Some ''award_type'')
      else if code_point_count (ag_message m) > MAX_AWARD_MESSAGE
      then Invalid (''message exceeds '' @ digits_of MAX_AWARD_MESSAGE @ '' characters'') (Some ''message'')
      else Valid)"

definition AwardGive_authorize :: "forum_store \<Rightarrow> award_give_msg \<Rightarrow> parsed_envelope \<Rightarrow> auth_decision" where
  "AwardGive_authorize st m env =
     (case map_of (award_types st) (ag_award_type m) of
        None \<Rightarrow> Denied ''award type is not defined on this instance''
      | Some t \<Rightarrow>
          if \<not> at_active t then Denied ''award type is not active''
          else engage_authorize ''award'' ''community membership required'' st (ag_target m) env)"

definition AwardGive_project :: "award_give_msg \<Rightarrow> parsed_envelope \<Rightarrow> forum_store \<Rightarrow> forum_store" where
  "AwardGive_project m env st =
     (let st1 = st\<lparr>awards := al_set (content_id env)
            \<lparr>aw_id = content_id env, aw_target = ag_target m, aw_target_kind = ag_target_kind m,
             aw_award_type = ag_award_type m, aw_anonymous = ag_anonymous m,
             aw_giver_key = (if ag_anonymous m then None else Some (env_author env)), aw_message = ag_message m,
             aw_created_at_ms = env_time env\<rparr> (awards st)\<rparr>;
          (recipient, st2) = (case map_of (posts st1) (ag_target m) of
              Some p \<Rightarrow> (Some (po_author_key p), st1\<lparr>posts := al_set (po_content_id p)
                (p\<lparr>po_award_count := po_award_count p + 1\<rparr>) (posts st1)\<rparr>)
            | None \<Rightarrow> (case map_of (comments st1) (ag_target m) of
                Some c \<Rightarrow> (Some (co_author_key c), st1\<lparr>comments := al_set (co_content_id c)
                  (c\<lparr>co_award_count := co_award_count c + 1\<rparr>) (comments st1)\<rparr>)
              | None \<Rightarrow> (None, st1)))
      in case recipient of
           None \<Rightarrow> st2
         | Some r \<Rightarrow> if r = [] then st2
             else add_notification r Notify_award (content_id env) (env_author env) (env_time env) st2)"

definition AwardType_validate :: "award_type_msg \<Rightarrow> parsed_envelope \<Rightarrow> validation" where
  "AwardType_validate m env =
     (if \<not> AWARD_SLUG_PATTERN (ay_slug m)
      then Invalid ''slug must be 2-32 lowercase letters, digits, - or _'' (Some ''slug'')
      else if js_trim (ay_name m) = [] then Invalid ''name is required'' (Some ''name'')
      else if ay_cost m < 0 then Invalid ''cost cannot be negative'' (Some ''cost'')
      else Valid)"

definition AwardType_authorize :: "forum_store \<Rightarrow> award_type_msg \<Rightarrow> parsed_envelope \<Rightarrow> auth_decision" where
  "AwardType_authorize st m env =
     (case map_of (identities st) (env_author env) of
        None \<Rightarrow> Denied ''defining award types requires instance admin''
      | Some i \<Rightarrow> if \<not> has_flag (iy_flags i) (IdentityFlag Id_GLOBAL_ADMIN)
          then Denied ''defining award types requires instance admin'' else Allowed)"

definition AwardType_project :: "award_type_msg \<Rightarrow> parsed_envelope \<Rightarrow> forum_store \<Rightarrow> forum_store" where
  "AwardType_project m env st = st\<lparr>award_types := al_set (ay_slug m)
     \<lparr>at_id = ay_slug m, at_slug = ay_slug m, at_name = ay_name m, at_icon = ay_icon m, at_cost = ay_cost m,
      at_active = ay_active m, at_defined_at_ms = env_time env\<rparr> (award_types st)\<rparr>"

section \<open>Attachments\<close>

record attachment_claim_msg =
  cl_storage_key :: string
  cl_content_sha256 :: bytes
  cl_mime :: string
  cl_size_bytes :: int
  cl_width :: int
  cl_height :: int
  cl_duration_ms :: int
  cl_alt_text :: string

definition MAX_ATTACHMENT_BYTES :: int where "MAX_ATTACHMENT_BYTES = 64 * 1024 * 1024"

text \<open>\<open>ALLOWED_MIME\<close>: one of five top-level types, a slash, and a non-empty subtype.\<close>

definition mime_char :: "char \<Rightarrow> bool" where
  "mime_char c \<longleftrightarrow> lower_alnum c \<or> in_range (CHR ''A'') (CHR ''Z'') c \<or> c \<in> {CHR ''.'', CHR ''+'', CHR ''-''}"

definition ALLOWED_MIME :: "string \<Rightarrow> bool" where
  "ALLOWED_MIME s = list_ex (\<lambda>t. starts_with (t @ ''/'') s
     \<and> (let sub = drop (length t + 1) s in sub \<noteq> [] \<and> list_all mime_char sub))
     [''image'', ''video'', ''audio'', ''application'', ''text'']"

definition kind_for_mime :: "string \<Rightarrow> attachment_kind" where
  "kind_for_mime mime =
     (if starts_with ''image/'' mime then Att_image
      else if starts_with ''video/'' mime then Att_video
      else if starts_with ''audio/'' mime then Att_audio
      else if mime = ''application/octet-stream'' then Att_other
      else Att_document)"

definition AttachmentClaim_validate :: "attachment_claim_msg \<Rightarrow> parsed_envelope \<Rightarrow> validation" where
  "AttachmentClaim_validate m env =
     (if cl_storage_key m = [] then Invalid ''storage_key is required'' (Some ''storage_key'')
      else if length (cl_content_sha256 m) \<noteq> 32
      then Invalid ''content_sha256 must be a 32-byte SHA-256 digest'' (Some ''content_sha256'')
      else if \<not> ALLOWED_MIME (cl_mime m) then Invalid ''mime type is not permitted'' (Some ''mime'')
      else if cl_size_bytes m = 0 then Invalid ''size_bytes is required'' (Some ''size_bytes'')
      else if cl_size_bytes m > MAX_ATTACHMENT_BYTES
      then Invalid (''attachment exceeds '' @ js_string_of_int MAX_ATTACHMENT_BYTES @ '' bytes'') (Some ''size_bytes'')
      else Valid)"

definition claim_matches :: "attachment_claim_msg \<Rightarrow> attachment_upload_doc \<Rightarrow> blob_info \<Rightarrow> bool" where
  "claim_matches m upload found \<longleftrightarrow>
     bl_mime found = cl_mime m \<and> bl_size found = js_number (cl_size_bytes m) \<and> bl_sha256 found = cl_content_sha256 m
     \<and> up_mime upload = cl_mime m \<and> up_size_bytes upload = js_number (cl_size_bytes m)
     \<and> up_content_sha256 upload = hex (cl_content_sha256 m)"

definition AttachmentClaim_authorize ::
  "forum_deps \<Rightarrow> forum_store \<Rightarrow> attachment_claim_msg \<Rightarrow> parsed_envelope \<Rightarrow> auth_decision" where
  "AttachmentClaim_authorize d st m env =
     (case fd_blobs d of
        None \<Rightarrow> Allowed
      | Some confirm \<Rightarrow>
          (case map_of (attachment_uploads st) (cl_storage_key m) of
             None \<Rightarrow> Denied ''blob upload is not confirmed for this identity''
           | Some upload \<Rightarrow>
               if up_owner_key upload \<noteq> env_author env \<or> up_confirmed_at_ms upload = None
               then Denied ''blob upload is not confirmed for this identity''
               else (case confirm (cl_storage_key m) of
                   None \<Rightarrow> Denied ''blob has not been confirmed''
                 | Some found \<Rightarrow> if claim_matches m upload found then Allowed
                     else Denied ''blob metadata does not match the claim'')))"

definition AttachmentClaim_project :: "attachment_claim_msg \<Rightarrow> parsed_envelope \<Rightarrow> forum_store \<Rightarrow> forum_store" where
  "AttachmentClaim_project m env st =
     st\<lparr>attachments := al_set (content_id env)
          \<lparr>ac_id = content_id env, ac_owner_key = env_author env, ac_storage_key = cl_storage_key m,
           ac_content_sha256 = hex (cl_content_sha256 m), ac_mime = cl_mime m,
           ac_size_bytes = js_number (cl_size_bytes m), ac_width = cl_width m, ac_height = cl_height m,
           ac_duration_ms = cl_duration_ms m, ac_alt_text = cl_alt_text m, ac_kind = kind_for_mime (cl_mime m),
           ac_scan_status = ''unscanned'', ac_created_at_ms = env_time env\<rparr> (attachments st),
        attachment_uploads := al_del (cl_storage_key m) (attachment_uploads st)\<rparr>"

end
