(* ===== verification/JB_ForumNode.thy ===== *)
theory JB_ForumNode
  imports JB_Community JB_Identity JB_Social
begin

unbundle bit_operations_syntax

text \<open>
  The forum plane as one machine (\<open>features/forum/index.ts\<close>): an operation is the decoded body of one of the
  registered domains, a step runs its handler as the pipeline does - authorisation, then validation, then the
  projection - and a refused operation changes nothing. A run folds steps over the store. The second half says
  which operations can move authority at all: owners, memberships, roles, their assignment and the global flags
  of identities.
\<close>

section \<open>Operations\<close>

datatype forum_op =
    Op_post_create post_create_msg | Op_post_update post_update_msg | Op_post_delete delete_msg
  | Op_comment_create comment_create_msg | Op_comment_update comment_update_msg | Op_comment_delete delete_msg
  | Op_vote vote_cast_msg
  | Op_community_create community_create_msg | Op_community_update community_update_msg
  | Op_community_archive community_archive_msg
  | Op_join membership_msg | Op_leave membership_msg
  | Op_mod mod_action_msg
  | Op_report report_create_msg | Op_resolve report_resolve_msg
  | Op_role_define role_define_msg | Op_role_assign role_grant_msg | Op_role_revoke role_grant_msg
  | Op_award award_give_msg | Op_award_type award_type_msg
  | Op_attachment attachment_claim_msg
  | Op_profile profile_msg | Op_follow edge_msg | Op_block edge_msg | Op_save save_msg | Op_prefs feed_prefs_msg
  | Op_message forum_message_msg | Op_label label_msg
  | Op_certify key_certificate_msg | Op_revoke key_revocation_msg

text \<open>An envelope with its decoded body, and the node it came from where the pipeline knows one.\<close>

record forum_event =
  ev_op :: forum_op
  ev_env :: parsed_envelope
  ev_origin :: "string option"

fun forum_validate :: "forum_deps \<Rightarrow> forum_op \<Rightarrow> parsed_envelope \<Rightarrow> validation" where
  "forum_validate d (Op_post_create m) env = PostCreate_validate m env"
| "forum_validate d (Op_post_update m) env = PostUpdate_validate m env"
| "forum_validate d (Op_post_delete m) env = PostDelete_validate m env"
| "forum_validate d (Op_comment_create m) env = CommentCreate_validate m env"
| "forum_validate d (Op_comment_update m) env = CommentUpdate_validate m env"
| "forum_validate d (Op_comment_delete m) env = CommentDelete_validate m env"
| "forum_validate d (Op_vote m) env = VoteCast_validate m env"
| "forum_validate d (Op_community_create m) env = CommunityCreate_validate m env"
| "forum_validate d (Op_community_update m) env = CommunityUpdate_validate m env"
| "forum_validate d (Op_community_archive m) env = CommunityArchive_validate m env"
| "forum_validate d (Op_join m) env = Membership_validate m env"
| "forum_validate d (Op_leave m) env = Membership_validate m env"
| "forum_validate d (Op_mod m) env = ModAction_validate m env"
| "forum_validate d (Op_report m) env = ReportCreate_validate m env"
| "forum_validate d (Op_resolve m) env = ReportResolve_validate m env"
| "forum_validate d (Op_role_define m) env = RoleDefine_validate m env"
| "forum_validate d (Op_role_assign m) env = RoleGrant_validate m env"
| "forum_validate d (Op_role_revoke m) env = RoleGrant_validate m env"
| "forum_validate d (Op_award m) env = AwardGive_validate m env"
| "forum_validate d (Op_award_type m) env = AwardType_validate m env"
| "forum_validate d (Op_attachment m) env = AttachmentClaim_validate m env"
| "forum_validate d (Op_profile m) env = ProfileUpdate_validate m env"
| "forum_validate d (Op_follow m) env = Follow_validate m env"
| "forum_validate d (Op_block m) env = Block_validate m env"
| "forum_validate d (Op_save m) env = Save_validate m env"
| "forum_validate d (Op_prefs m) env = FeedPrefs_validate m env"
| "forum_validate d (Op_message m) env = ForumMessage_validate m env"
| "forum_validate d (Op_label m) env = LabelEmit_validate m env"
| "forum_validate d (Op_certify m) env = KeyCertify_validate d m env"
| "forum_validate d (Op_revoke m) env = KeyRevoke_validate d m env"

fun forum_authorize :: "forum_deps \<Rightarrow> string option \<Rightarrow> forum_store \<Rightarrow> forum_op \<Rightarrow> parsed_envelope \<Rightarrow> auth_decision" where
  "forum_authorize d origin st (Op_post_create m) env = PostCreate_authorize st m env"
| "forum_authorize d origin st (Op_post_update m) env = PostUpdate_authorize st m env"
| "forum_authorize d origin st (Op_post_delete m) env = PostDelete_authorize st m env"
| "forum_authorize d origin st (Op_comment_create m) env = CommentCreate_authorize st m env"
| "forum_authorize d origin st (Op_comment_update m) env = CommentUpdate_authorize st m env"
| "forum_authorize d origin st (Op_comment_delete m) env = CommentDelete_authorize st m env"
| "forum_authorize d origin st (Op_vote m) env = VoteCast_authorize st m env"
| "forum_authorize d origin st (Op_community_create m) env = CommunityCreate_authorize d origin st m env"
| "forum_authorize d origin st (Op_community_update m) env = CommunityUpdate_authorize st m env"
| "forum_authorize d origin st (Op_community_archive m) env = CommunityArchive_authorize st m env"
| "forum_authorize d origin st (Op_join m) env = MembershipJoin_authorize st m env"
| "forum_authorize d origin st (Op_leave m) env = MembershipLeave_authorize m env"
| "forum_authorize d origin st (Op_mod m) env = ModAction_authorize st m env"
| "forum_authorize d origin st (Op_report m) env = ReportCreate_authorize st m env"
| "forum_authorize d origin st (Op_resolve m) env = ReportResolve_authorize st m env"
| "forum_authorize d origin st (Op_role_define m) env = RoleDefine_authorize st m env"
| "forum_authorize d origin st (Op_role_assign m) env = RoleAssign_authorize st m env"
| "forum_authorize d origin st (Op_role_revoke m) env = RoleRevoke_authorize st m env"
| "forum_authorize d origin st (Op_award m) env = AwardGive_authorize st m env"
| "forum_authorize d origin st (Op_award_type m) env = AwardType_authorize st m env"
| "forum_authorize d origin st (Op_attachment m) env = AttachmentClaim_authorize d st m env"
| "forum_authorize d origin st (Op_profile m) env = SelfScoped_authorize env"
| "forum_authorize d origin st (Op_follow m) env = SelfScoped_authorize env"
| "forum_authorize d origin st (Op_block m) env = SelfScoped_authorize env"
| "forum_authorize d origin st (Op_save m) env = SelfScoped_authorize env"
| "forum_authorize d origin st (Op_prefs m) env = SelfScoped_authorize env"
| "forum_authorize d origin st (Op_message m) env = ForumMessage_authorize st m env"
| "forum_authorize d origin st (Op_label m) env = LabelEmit_authorize st m env"
| "forum_authorize d origin st (Op_certify m) env = KeyCertify_authorize d st m env"
| "forum_authorize d origin st (Op_revoke m) env = KeyRevoke_authorize m env"

fun forum_project :: "forum_deps \<Rightarrow> string option \<Rightarrow> forum_op \<Rightarrow> parsed_envelope \<Rightarrow> forum_store \<Rightarrow> forum_store" where
  "forum_project d origin (Op_post_create m) env st = PostCreate_project m env st"
| "forum_project d origin (Op_post_update m) env st = PostUpdate_project m env st"
| "forum_project d origin (Op_post_delete m) env st = PostDelete_project m env st"
| "forum_project d origin (Op_comment_create m) env st = CommentCreate_project m env st"
| "forum_project d origin (Op_comment_update m) env st = CommentUpdate_project m env st"
| "forum_project d origin (Op_comment_delete m) env st = CommentDelete_project m env st"
| "forum_project d origin (Op_vote m) env st = VoteCast_project m env st"
| "forum_project d origin (Op_community_create m) env st = CommunityCreate_project d origin m env st"
| "forum_project d origin (Op_community_update m) env st = CommunityUpdate_project d m env st"
| "forum_project d origin (Op_community_archive m) env st = CommunityArchive_project d m env st"
| "forum_project d origin (Op_join m) env st = MembershipJoin_project m env st"
| "forum_project d origin (Op_leave m) env st = MembershipLeave_project m env st"
| "forum_project d origin (Op_mod m) env st = ModAction_project d m env st"
| "forum_project d origin (Op_report m) env st = ReportCreate_project m env st"
| "forum_project d origin (Op_resolve m) env st = ReportResolve_project m env st"
| "forum_project d origin (Op_role_define m) env st = RoleDefine_project m env st"
| "forum_project d origin (Op_role_assign m) env st = RoleAssign_project m env st"
| "forum_project d origin (Op_role_revoke m) env st = RoleRevoke_project m env st"
| "forum_project d origin (Op_award m) env st = AwardGive_project m env st"
| "forum_project d origin (Op_award_type m) env st = AwardType_project m env st"
| "forum_project d origin (Op_attachment m) env st = AttachmentClaim_project m env st"
| "forum_project d origin (Op_profile m) env st = ProfileUpdate_project m env st"
| "forum_project d origin (Op_follow m) env st = Follow_project m env st"
| "forum_project d origin (Op_block m) env st = Block_project m env st"
| "forum_project d origin (Op_save m) env st = Save_project m env st"
| "forum_project d origin (Op_prefs m) env st = FeedPrefs_project m env st"
| "forum_project d origin (Op_message m) env st = ForumMessage_project m env st"
| "forum_project d origin (Op_label m) env st = LabelEmit_project m env st"
| "forum_project d origin (Op_certify m) env st = KeyCertify_project m env st"
| "forum_project d origin (Op_revoke m) env st = KeyRevoke_project m env st"

definition forum_accepts :: "forum_deps \<Rightarrow> forum_store \<Rightarrow> forum_event \<Rightarrow> bool" where
  "forum_accepts d st e \<longleftrightarrow>
     forum_authorize d (ev_origin e) st (ev_op e) (ev_env e) = Allowed \<and> forum_validate d (ev_op e) (ev_env e) = Valid"

definition forum_step :: "forum_deps \<Rightarrow> forum_store \<Rightarrow> forum_event \<Rightarrow> forum_store" where
  "forum_step d st e = (if forum_accepts d st e then forum_project d (ev_origin e) (ev_op e) (ev_env e) st else st)"

definition forum_run :: "forum_deps \<Rightarrow> forum_event list \<Rightarrow> forum_store \<Rightarrow> forum_store" where
  "forum_run d es st = foldl (forum_step d) st es"


section \<open>Invariants of the machine\<close>

text \<open>What every guarded machine gives: a property that accepted effects keep holds along every run.\<close>

locale guarded_invariant =
  fixes accepts :: "'s \<Rightarrow> 'e \<Rightarrow> bool"
    and effect :: "'e \<Rightarrow> 's \<Rightarrow> 's"
    and ok :: "'e \<Rightarrow> bool"
    and inv :: "'s \<Rightarrow> bool"
  assumes effect_keeps: "inv s \<Longrightarrow> ok e \<Longrightarrow> accepts s e \<Longrightarrow> inv (effect e s)"
begin

lemma step_keeps: "inv s \<Longrightarrow> ok e \<Longrightarrow> inv (if accepts s e then effect e s else s)"
  by (simp add: effect_keeps)

lemma run_keeps:
  assumes "inv s" and "list_all ok es"
  shows "inv (foldl (\<lambda>s e. if accepts s e then effect e s else s) s es)"
  using assms by (induction es arbitrary: s) (simp_all add: effect_keeps)

end

definition forum_effect :: "forum_deps \<Rightarrow> forum_event \<Rightarrow> forum_store \<Rightarrow> forum_store" where
  "forum_effect d e st = forum_project d (ev_origin e) (ev_op e) (ev_env e) st"

lemma forum_run_eq: "forum_run d es st = foldl (\<lambda>s e. if forum_accepts d s e then forum_effect d e s else s) st es"
  unfolding forum_run_def forum_step_def [abs_def] forum_effect_def ..

lemma forum_run_Nil [simp]: "forum_run d [] st = st"
  by (simp add: forum_run_def)

lemma forum_run_Cons [simp]: "forum_run d (e # es) st = forum_run d es (forum_step d st e)"
  by (simp add: forum_run_def)

section \<open>Authority\<close>

definition owner_of :: "forum_store \<Rightarrow> string \<Rightarrow> string option" where
  "owner_of st c = map_option cm_owner_key (map_of (communities st) c)"

definition standing :: "forum_store \<Rightarrow> string \<Rightarrow> bool \<times> bool \<times> bool" where
  "standing st k = (let f = (case map_of (identities st) k of None \<Rightarrow> 0 | Some i \<Rightarrow> iy_flags i)
     in (has_flag f (IdentityFlag Id_BANNED), has_flag f (IdentityFlag Id_GLOBAL_ADMIN),
         has_flag f (IdentityFlag Id_GLOBAL_MODERATOR)))"

definition same_authority :: "forum_store \<Rightarrow> forum_store \<Rightarrow> bool" where
  "same_authority st st' \<longleftrightarrow>
     owner_of st' = owner_of st \<and> standing st' = standing st \<and> memberships st' = memberships st
     \<and> roles st' = roles st \<and> role_assignments st' = role_assignments st"

named_theorems frame

lemma same_authority_refl [simp, intro]: "same_authority st st"
  by (simp add: same_authority_def)

lemma same_authority_trans: "same_authority a b \<Longrightarrow> same_authority b c \<Longrightarrow> same_authority a c"
  by (simp add: same_authority_def)

lemma fresh_identity_flags [simp]: "iy_flags (fresh_identity k t) = IdentityFlag Id_ACTIVE"
  by (simp add: fresh_identity_def)

lemma active_standing [simp]:
  "\<not> has_flag (IdentityFlag Id_ACTIVE) (IdentityFlag Id_BANNED)"
  "\<not> has_flag (IdentityFlag Id_ACTIVE) (IdentityFlag Id_GLOBAL_ADMIN)"
  "\<not> has_flag (IdentityFlag Id_ACTIVE) (IdentityFlag Id_GLOBAL_MODERATOR)"
  by (simp_all add: has_flag_def)

text \<open>Writing an identity row keeps its standing when the flags are those of the old row, or of a fresh one.\<close>

lemma standing_kept:
  assumes "iy_flags i = (case map_of (identities st) k of None \<Rightarrow> IdentityFlag Id_ACTIVE | Some j \<Rightarrow> iy_flags j)"
  shows "standing (st\<lparr>identities := al_set k i (identities st)\<rparr>) = standing st"
  using assms by (auto simp: standing_def fun_eq_iff Let_def simp del: IdentityFlag.simps split: option.splits)

lemma owner_kept:
  assumes "map_of (communities st) c = Some doc" and "cm_owner_key doc' = cm_owner_key doc"
  shows "owner_of (st\<lparr>communities := al_set c doc' (communities st)\<rparr>) = owner_of st"
  using assms by (auto simp: owner_of_def fun_eq_iff)

lemma owner_of_cong: "communities st' = communities st \<Longrightarrow> owner_of st' = owner_of st"
  by (simp add: owner_of_def fun_eq_iff)

lemma standing_cong: "identities st' = identities st \<Longrightarrow> standing st' = standing st"
  by (simp add: standing_def fun_eq_iff)

text \<open>Permission resolution reads nothing but authority.\<close>

lemma resolve_same_authority:
  assumes "same_authority st st'"
  shows "resolve_permissions (load_auth_context st' k c t) = resolve_permissions (load_auth_context st k c t)"
proof -
  from assms have own: "owner_of st' = owner_of st" and stand: "standing st' = standing st"
    and eq: "memberships st' = memberships st" "roles st' = roles st" "role_assignments st' = role_assignments st"
    by (simp_all add: same_authority_def)
  from stand have "standing st' k = standing st k" by simp
  then have flags: "has_flag (identity_flags (load_auth_context st' k c t)) (IdentityFlag f)
      = has_flag (identity_flags (load_auth_context st k c t)) (IdentityFlag f)"
    if "f \<in> {Id_BANNED, Id_GLOBAL_ADMIN, Id_GLOBAL_MODERATOR}" for f
    using that by (auto simp: standing_def load_auth_context_def identity_flags_def Let_def simp del: IdentityFlag.simps
        split: option.splits)
  have owner: "is_owner (load_auth_context st' k c t) = is_owner (load_auth_context st k c t)"
    using fun_cong [OF own, of "the c"] by (auto simp: owner_of_def load_auth_context_def is_owner_def split: option.splits)
  have rest: "membership_flags (load_auth_context st' k c t) = membership_flags (load_auth_context st k c t)"
    "restriction_active (load_auth_context st' k c t) = restriction_active (load_auth_context st k c t)"
    "ax_roles (load_auth_context st' k c t) = ax_roles (load_auth_context st k c t)"
    "ax_community (load_auth_context st' k c t) = ax_community (load_auth_context st k c t)"
    using eq by (auto simp: load_auth_context_def membership_flags_def restriction_active_def split: option.splits)
  show ?thesis
    unfolding resolve_permissions_def flags [OF insertI1] flags [OF insertI2, OF insertI1]
      flags [OF insertI2, OF insertI2, OF insertI1] owner rest ..
qed


section \<open>Which operations move authority\<close>

lemma notification_frame [simp]:
  "same_authority st (add_notification r k cid a t st)"
  "communities (add_notification r k cid a t st) = communities st"
  "identities (add_notification r k cid a t st) = identities st"
  "memberships (add_notification r k cid a t st) = memberships st"
  "posts (add_notification r k cid a t st) = posts st"
  "comments (add_notification r k cid a t st) = comments st"
  "votes (add_notification r k cid a t st) = votes st"
  "mod_events (add_notification r k cid a t st) = mod_events st"
  "mod_heads (add_notification r k cid a t st) = mod_heads st"
  by (simp_all add: add_notification_def Let_def same_authority_def owner_of_def standing_def fun_eq_iff)

lemma fold_frame:
  assumes "\<And>x s. f (g x s) = f s"
  shows "f (fold g xs s) = f s"
  using assms by (induction xs arbitrary: s) simp_all

lemma mentions_frame [simp]:
  "communities (add_mention_notifications x cid a t st) = communities st"
  "identities (add_mention_notifications x cid a t st) = identities st"
  "memberships (add_mention_notifications x cid a t st) = memberships st"
  "roles (add_mention_notifications x cid a t st) = roles st"
  "role_assignments (add_mention_notifications x cid a t st) = role_assignments st"
  "posts (add_mention_notifications x cid a t st) = posts st"
  "comments (add_mention_notifications x cid a t st) = comments st"
  "votes (add_mention_notifications x cid a t st) = votes st"
  "mod_events (add_mention_notifications x cid a t st) = mod_events st"
  "mod_heads (add_mention_notifications x cid a t st) = mod_heads st"
  unfolding add_mention_notifications_def
  by (rule fold_frame, simp add: add_notification_def Let_def)+

lemma authority_of_fields:
  assumes "communities st' = communities st" "identities st' = identities st" "memberships st' = memberships st"
    "roles st' = roles st" "role_assignments st' = role_assignments st"
  shows "same_authority st st'"
  using assms by (simp add: same_authority_def owner_of_def standing_def fun_eq_iff)

lemma mentions_authority [simp]: "same_authority st (add_mention_notifications x cid a t st)"
  by (rule authority_of_fields) simp_all

lemma authority_owner_kept:
  assumes "map_of (communities st) c = Some doc" and "cm_owner_key doc' = cm_owner_key doc"
    and "communities st' = al_set c doc' (communities st)" and "identities st' = identities st"
    and "memberships st' = memberships st" and "roles st' = roles st" and "role_assignments st' = role_assignments st"
  shows "same_authority st st'"
  using assms by (simp add: same_authority_def owner_of_def standing_def fun_eq_iff)

lemma authority_standing_kept:
  assumes "iy_flags i = (case map_of (identities st) k of None \<Rightarrow> IdentityFlag Id_ACTIVE | Some j \<Rightarrow> iy_flags j)"
    and "identities st' = al_set k i (identities st)" and "communities st' = communities st"
    and "memberships st' = memberships st" and "roles st' = roles st" and "role_assignments st' = role_assignments st"
  shows "same_authority st st'"
proof -
  have "standing st' = standing (st\<lparr>identities := al_set k i (identities st)\<rparr>)"
    using assms(2) by (simp add: standing_def fun_eq_iff)
  with standing_kept [OF assms(1)] assms(3-) show ?thesis
    by (simp add: same_authority_def owner_of_def fun_eq_iff)
qed

lemma PostCreate_authority [frame]: "same_authority st (PostCreate_project m env st)"
proof (cases "map_of (communities st) (env_scope env)")
  case None
  then show ?thesis by (intro authority_of_fields) (simp_all add: PostCreate_project_def Let_def)
next
  case (Some c)
  then show ?thesis
    by (intro authority_owner_kept [of st _ c "c\<lparr>cm_post_count := cm_post_count c + 1\<rparr>"])
      (simp_all add: PostCreate_project_def Let_def)
qed

lemma content_authority [frame]:
  "same_authority st (PostUpdate_project pu env st)"
  "same_authority st (PostDelete_project de env st)"
  "same_authority st (CommentUpdate_project cu env st)"
  "same_authority st (CommentDelete_project de env st)"
  "same_authority st (ReportCreate_project rc env st)"
  "same_authority st (ReportResolve_project rr env st)"
  "same_authority st (AwardType_project ay env st)"
  "same_authority st (AttachmentClaim_project cl env st)"
  "same_authority st (Follow_project eg env st)"
  "same_authority st (Block_project eg env st)"
  "same_authority st (Save_project sc env st)"
  "same_authority st (FeedPrefs_project ff env st)"
  "same_authority st (ForumMessage_project mg env st)"
  "same_authority st (LabelEmit_project lb env st)"
  by (auto intro!: authority_of_fields
      simp: PostUpdate_project_def PostDelete_project_def CommentUpdate_project_def CommentDelete_project_def
        ReportCreate_project_def ReportResolve_project_def AwardType_project_def AttachmentClaim_project_def
        Follow_project_def Block_project_def Save_project_def FeedPrefs_project_def ForumMessage_project_def
        LabelEmit_project_def Let_def add_notification_def split: option.split)

lemma CommentCreate_authority [frame]: "same_authority st (CommentCreate_project m env st)"
  by (rule authority_of_fields)
    (simp_all add: CommentCreate_project_def count_reply_def add_notification_def Let_def split: option.split)

lemma AwardGive_authority [frame]: "same_authority st (AwardGive_project m env st)"
  by (rule authority_of_fields)
    (simp_all add: AwardGive_project_def add_notification_def Let_def split: option.split prod.split)

lemma karma_authority:
  assumes "\<And>i. iy_flags (f i) = iy_flags i" and "same_authority st s"
  shows "same_authority st (apply_karma k f t s)"
proof -
  have "same_authority s (apply_karma k f t s)"
    unfolding apply_karma_def Let_def
    by (rule authority_standing_kept [of "f (case map_of (identities s) k of Some i \<Rightarrow> i | None \<Rightarrow> fresh_identity k t)" s k])
      (simp_all add: assms(1) split: option.split)
  with assms(2) show ?thesis by (rule same_authority_trans)
qed

lemma VoteCast_authority [frame]: "same_authority st (VoteCast_project m env st)"
  by (auto simp: VoteCast_project_def Let_def intro!: karma_authority authority_of_fields split: option.split)

lemma ProfileUpdate_authority [frame]: "same_authority st (ProfileUpdate_project m env st)"
  unfolding ProfileUpdate_project_def upsert_identity_def Let_def
  by (rule authority_standing_kept [where k = "env_author env", rotated], simp, simp_all split: option.split)

lemma KeyCertify_authority [frame]: "same_authority st (KeyCertify_project m env st)"
proof (cases "map_of (identities st) (env_author env)")
  case None
  then show ?thesis
    by (intro authority_standing_kept [of "fresh_identity (env_author env) (env_time env)" st "env_author env"])
      (simp_all add: KeyCertify_project_def Let_def)
next
  case (Some i)
  then show ?thesis by (intro authority_of_fields) (simp_all add: KeyCertify_project_def Let_def)
qed

lemma append_audit_fields [simp]:
  "communities (append_community_audit d c cid a act ch t st) = communities st"
  "memberships (append_community_audit d c cid a act ch t st) = memberships st"
  "identities (append_community_audit d c cid a act ch t st) = identities st"
  "roles (append_community_audit d c cid a act ch t st) = roles st"
  "role_assignments (append_community_audit d c cid a act ch t st) = role_assignments st"
  "posts (append_community_audit d c cid a act ch t st) = posts st"
  "comments (append_community_audit d c cid a act ch t st) = comments st"
  "votes (append_community_audit d c cid a act ch t st) = votes st"
  "mod_events (append_community_audit d c cid a act ch t st) = mod_events st"
  "mod_heads (append_community_audit d c cid a act ch t st) = mod_heads st"
  by (simp_all add: append_community_audit_def Let_def)

lemma CommunityUpdate_authority [frame]: "same_authority st (CommunityUpdate_project d m env st)"
proof (cases "map_of (communities st) (cu_target m)")
  case None
  then show ?thesis by (simp add: CommunityUpdate_project_def)
next
  case (Some c)
  show ?thesis
  proof (cases "cu_patch m")
    case None
    with Some show ?thesis by (simp add: CommunityUpdate_project_def)
  next
    case patch: (Some p)
    from Some patch show ?thesis
      by (intro authority_owner_kept [of st "cu_target m" c "updated_doc p env c"])
        (simp_all add: CommunityUpdate_project_def Let_def updated_doc_def)
  qed
qed

lemma CommunityArchive_authority [frame]: "same_authority st (CommunityArchive_project d m env st)"
proof (cases "map_of (communities st) (ca_target m)")
  case None
  then show ?thesis by (simp add: CommunityArchive_project_def)
next
  case (Some c)
  then show ?thesis
    by (intro authority_owner_kept [of st "ca_target m" c "c\<lparr>cm_archived := ca_archived m, cm_updated_at_ms := env_time env\<rparr>"])
      (simp_all add: CommunityArchive_project_def Let_def)
qed

end
