(* ===== verification/JB_Governance.thy ===== *)
theory JB_Governance
  imports JB_ForumNode
begin

unbundle bit_operations_syntax

text \<open>
  What the forum promises about power, proved over runs of the whole machine of \<open>JB_ForumNode\<close>: a group of keys
  cannot raise itself above the bits it was given, an owner keeps a community, and the places where the code
  breaks such a promise (\<open>shared/permissions.ts\<close>, \<open>role/role.handlers.ts\<close>, \<open>moderation/mod-action.handler.ts\<close>,
  \<open>identity/certificate.handlers.ts\<close>).
\<close>

section \<open>Keys of rows\<close>

lemma last_delimited:
  assumes "c \<notin> set b" and "c \<notin> set y"
  shows "a @ c # b = x @ c # y \<longleftrightarrow> a = x \<and> b = y"
proof -
  have "a @ c # b = x @ c # y \<longleftrightarrow> rev b @ c # rev a = rev y @ c # rev x"
    by (metis (no_types, opaque_lifting) append_Cons append_Nil append_assoc rev.simps(2) rev_append rev_rev_ident)
  also have "\<dots> \<longleftrightarrow> rev b = rev y \<and> rev a = rev x" using assms by (subst delimited_eq) auto
  finally show ?thesis by auto
qed

lemma membershipKey_hex [simp]: "membershipKey c (hex k) = membershipKey c' (hex k') \<longleftrightarrow> c = c' \<and> k = k'"
  unfolding membershipKey_def by (simp add: last_delimited hex_no_colon hex_inj)

lemma roleKey_eq: "CHR '':'' \<notin> set c \<Longrightarrow> CHR '':'' \<notin> set c' \<Longrightarrow> roleKey c n = roleKey c' n' \<longleftrightarrow> c = c' \<and> n = n'"
  unfolding roleKey_def by (simp add: delimited_eq)

lemma HEX_KEY_is_hex_free: "HEX_KEY_PATTERN t \<Longrightarrow> CHR '':'' \<notin> set t"
  by (auto simp: HEX_KEY_PATTERN_def matches_class_def list_all_iff in_range_def)

lemma name_no_colon: "COMMUNITY_NAME_PATTERN n \<Longrightarrow> CHR '':'' \<notin> set n"
  by (auto simp: COMMUNITY_NAME_PATTERN_def matches_class_def list_all_iff in_range_def lower_alnum_def)

lemma membershipKey_pattern:
  assumes "HEX_KEY_PATTERN t"
  shows "membershipKey c t = membershipKey c' (hex k') \<longleftrightarrow> c = c' \<and> t = hex k'"
  unfolding membershipKey_def using HEX_KEY_is_hex_free [OF assms] by (simp add: last_delimited hex_no_colon)

section \<open>Effects of the operations that move authority\<close>

text \<open>Everything else leaves authority alone.\<close>

fun moves_authority :: "forum_op \<Rightarrow> bool" where
  "moves_authority (Op_community_create m) = True"
| "moves_authority (Op_join m) = True"
| "moves_authority (Op_leave m) = True"
| "moves_authority (Op_mod m) = True"
| "moves_authority (Op_role_define m) = True"
| "moves_authority (Op_role_assign m) = True"
| "moves_authority (Op_role_revoke m) = True"
| "moves_authority (Op_revoke m) = True"
| "moves_authority _ = False"

lemma quiet_operation: "\<not> moves_authority op \<Longrightarrow> same_authority st (forum_project d origin op env st)"
  by (cases op) (simp_all add: frame)

lemma create_effect:
  "owner_of (CommunityCreate_project d origin m env st) = (owner_of st)(created_id d origin m \<mapsto> env_author env)"
  "standing (CommunityCreate_project d origin m env st) = standing st"
  "memberships (CommunityCreate_project d origin m env st) =
     al_set (membershipKey (created_id d origin m) (env_author env))
       \<lparr>ms_id = membershipKey (created_id d origin m) (env_author env), ms_community = created_id d origin m,
        ms_member_key = env_author env, ms_flags = MembershipFlag Ms_MEMBER OR MembershipFlag Ms_MODERATOR,
        ms_joined_at_ms = env_time env, ms_restricted_until_ms = None, ms_restriction_reason = None\<rparr> (memberships st)"
  "roles (CommunityCreate_project d origin m env st) = roles st"
  "role_assignments (CommunityCreate_project d origin m env st) = role_assignments st"
  by (simp_all add: CommunityCreate_project_def Let_def owner_of_def standing_def created_doc_def fun_eq_iff
      del: MembershipFlag.simps)

lemma bump_fields [simp]:
  "owner_of (bump_member_count c n st) = owner_of st" "identities (bump_member_count c n st) = identities st"
  "memberships (bump_member_count c n st) = memberships st" "roles (bump_member_count c n st) = roles st"
  "role_assignments (bump_member_count c n st) = role_assignments st" "posts (bump_member_count c n st) = posts st"
  "comments (bump_member_count c n st) = comments st" "votes (bump_member_count c n st) = votes st"
  "mod_events (bump_member_count c n st) = mod_events st" "mod_heads (bump_member_count c n st) = mod_heads st"
  by (auto simp: bump_member_count_def owner_of_def fun_eq_iff split: option.split)

lemma assign_role_fields [simp]:
  "communities (assign_role c k t r st) = communities st" "identities (assign_role c k t r st) = identities st"
  "memberships (assign_role c k t r st) = memberships st" "roles (assign_role c k t r st) = roles st"
  "posts (assign_role c k t r st) = posts st" "comments (assign_role c k t r st) = comments st"
  "votes (assign_role c k t r st) = votes st" "mod_events (assign_role c k t r st) = mod_events st"
  "mod_heads (assign_role c k t r st) = mod_heads st"
  by (simp_all add: assign_role_def Let_def)

lemma assign_role_rows:
  assumes "a \<in> snd ` set (role_assignments (assign_role c k t r st))"
  shows "a \<in> snd ` set (role_assignments st) \<or> ra_community a = c \<and> ra_subject_key a = k \<and> ra_role a = r"
  using assms set_al_set_subset by (fastforce simp: assign_role_def Let_def)

lemma fold_assign_rows:
  assumes "a \<in> snd ` set (role_assignments (fold (\<lambda>x. assign_role c k t (f x)) xs st))"
  shows "a \<in> snd ` set (role_assignments st) \<or> ra_community a = c \<and> ra_subject_key a = k \<and> ra_role a \<in> f ` set xs"
  using assms
proof (induction xs arbitrary: st)
  case (Cons x xs)
  from Cons.IH [of "assign_role c k t (f x) st"] Cons.prems show ?case using assign_role_rows [of a c k t "f x" st] by auto
qed simp

lemma join_effect:
  "owner_of (MembershipJoin_project m env st) = owner_of st"
  "standing (MembershipJoin_project m env st) = standing st"
  "memberships (MembershipJoin_project m env st) =
     al_set (membershipKey (mj_community m) (env_author env))
       (joined_doc (mj_community m) (env_author env) (env_time env)
         (map_of (memberships st) (membershipKey (mj_community m) (env_author env)))) (memberships st)"
  "roles (MembershipJoin_project m env st) = roles st"
proof -
  have keep: "f (fold (\<lambda>x. assign_role c k t (g x)) xs s) = f s" if "\<And>c k t r s. f (assign_role c k t r s) = f s" for f :: "forum_store \<Rightarrow> 'x" and g c k t xs s
    using that by (intro fold_frame)
  have own: "owner_of (assign_role c k t r s) = owner_of s" for c k t r s by (simp add: owner_of_def fun_eq_iff)
  show "owner_of (MembershipJoin_project m env st) = owner_of st"
    unfolding MembershipJoin_project_def Let_def keep [of owner_of, OF own] by (simp add: owner_of_def fun_eq_iff) (simp add: bump_member_count_def split: option.split)
  show "standing (MembershipJoin_project m env st) = standing st"
    by (rule standing_cong) (simp add: MembershipJoin_project_def Let_def keep [of identities])
  show "memberships (MembershipJoin_project m env st) = al_set (membershipKey (mj_community m) (env_author env))
       (joined_doc (mj_community m) (env_author env) (env_time env)
         (map_of (memberships st) (membershipKey (mj_community m) (env_author env)))) (memberships st)"
    by (simp add: MembershipJoin_project_def Let_def keep [of memberships])
  show "roles (MembershipJoin_project m env st) = roles st"
    by (simp add: MembershipJoin_project_def Let_def keep [of roles])
qed


lemma find_docs_sub: "set (find_docs p n c) \<subseteq> {x \<in> snd ` set c. p x}"
  unfolding find_docs_def using set_take_subset by (fastforce dest: in_set_takeD)

lemma join_assignments:
  assumes "a \<in> snd ` set (role_assignments (MembershipJoin_project m env st))"
  shows "a \<in> snd ` set (role_assignments st) \<or> ra_community a = mj_community m \<and> ra_subject_key a = env_author env
    \<and> (\<exists>r\<in>snd ` set (roles st). rl_community r = mj_community m \<and> rl_is_default r \<and> ra_role a = rl_name r)"
proof -
  define s where "s = (let st1 = st\<lparr>memberships := memberships (MembershipJoin_project m env st)\<rparr> in
    if (case map_of (memberships st) (membershipKey (mj_community m) (env_author env)) of None \<Rightarrow> False
        | Some e \<Rightarrow> has_flag (ms_flags e) (MembershipFlag Ms_MEMBER)) then st1 else bump_member_count (mj_community m) 1 st1)"
  have s: "role_assignments s = role_assignments st" "roles s = roles st" by (simp_all add: s_def Let_def)
  have "MembershipJoin_project m env st = fold (\<lambda>r. assign_role (mj_community m) (env_author env) (env_time env) (rl_name r))
      (find_docs (\<lambda>r. rl_community r = mj_community m \<and> rl_is_default r) 64 (roles s)) s"
    unfolding s_def join_effect(3) by (simp add: MembershipJoin_project_def Let_def)
  from fold_assign_rows [OF assms [unfolded this]] find_docs_sub [of _ 64 "roles s"] show ?thesis
    unfolding s by fast
qed

lemma leave_effect:
  "owner_of (MembershipLeave_project m env st) = owner_of st"
  "standing (MembershipLeave_project m env st) = standing st"
  "memberships (MembershipLeave_project m env st) =
     (let i = membershipKey (mj_community m) (env_author env) in case map_of (memberships st) i of
        None \<Rightarrow> memberships st
      | Some e \<Rightarrow> al_set i (e\<lparr>ms_flags := clear_flag (clear_flag (ms_flags e) (MembershipFlag Ms_MEMBER)) (MembershipFlag Ms_MODERATOR)\<rparr>) (memberships st))"
  "roles (MembershipLeave_project m env st) = roles st"
  "role_assignments (MembershipLeave_project m env st) = role_assignments st"
  by (simp_all add: MembershipLeave_project_def Let_def standing_def owner_of_def fun_eq_iff bump_member_count_def
      del: MembershipFlag.simps split: option.split)

text \<open>A moderation action writes one membership row, or none.\<close>

definition mod_row :: "mod_action_msg \<Rightarrow> parsed_envelope \<Rightarrow> forum_store \<Rightarrow> membership_doc" where
  "mod_row m env st = (let i = membershipKey (env_scope env) (ma_target m) in
     case map_of (memberships st) i of Some e \<Rightarrow> e
     | None \<Rightarrow> \<lparr>ms_id = i, ms_community = env_scope env, ms_member_key = ma_target m, ms_flags = 0,
                ms_joined_at_ms = env_time env, ms_restricted_until_ms = None, ms_restriction_reason = None\<rparr>)"

lemma append_to_chain_fields [simp]:
  "communities (append_to_chain d m env st) = communities st" "identities (append_to_chain d m env st) = identities st"
  "memberships (append_to_chain d m env st) = memberships st" "roles (append_to_chain d m env st) = roles st"
  "role_assignments (append_to_chain d m env st) = role_assignments st" "posts (append_to_chain d m env st) = posts st"
  "comments (append_to_chain d m env st) = comments st" "votes (append_to_chain d m env st) = votes st"
  by (simp_all add: append_to_chain_def Let_def)

lemma apply_content_verb_fields [simp]:
  "communities (apply_content_verb m st) = communities st" "identities (apply_content_verb m st) = identities st"
  "memberships (apply_content_verb m st) = memberships st" "roles (apply_content_verb m st) = roles st"
  "role_assignments (apply_content_verb m st) = role_assignments st" "votes (apply_content_verb m st) = votes st"
  "mod_events (apply_content_verb m st) = mod_events st" "mod_heads (apply_content_verb m st) = mod_heads st"
  by (simp_all add: apply_content_verb_def split: option.split)

lemma apply_member_verb_fields [simp]:
  "communities (apply_member_verb m c t st) = communities st" "identities (apply_member_verb m c t st) = identities st"
  "roles (apply_member_verb m c t st) = roles st" "role_assignments (apply_member_verb m c t st) = role_assignments st"
  "posts (apply_member_verb m c t st) = posts st" "comments (apply_member_verb m c t st) = comments st"
  "votes (apply_member_verb m c t st) = votes st" "mod_events (apply_member_verb m c t st) = mod_events st"
  "mod_heads (apply_member_verb m c t st) = mod_heads st"
  by (simp_all add: apply_member_verb_def Let_def split: option.split)

lemma notification_fields [simp]:
  "roles (add_notification r k cid a t st) = roles st"
  "role_assignments (add_notification r k cid a t st) = role_assignments st"
  by (simp_all add: add_notification_def Let_def)

lemma apply_member_verb_memberships:
  "memberships (apply_member_verb m (env_scope env) (env_time env) st) =
     (case member_patch m (verb_of (ma_verb m)) (mod_row m env st) of
        None \<Rightarrow> memberships st
      | Some doc \<Rightarrow> al_set (membershipKey (env_scope env) (ma_target m)) doc (memberships st))"
  unfolding apply_member_verb_def mod_row_def Let_def
  by (cases "map_of (memberships st) (membershipKey (env_scope env) (ma_target m))")
    (simp_all split: option.split)

lemma mod_row_cong: "memberships s = memberships st \<Longrightarrow> mod_row m env s = mod_row m env st"
  by (simp add: mod_row_def)

text \<open>Any field the final notification does not write is the field of the state before it.\<close>

lemma ModAction_field:
  assumes "\<And>r k cid a t s. f (add_notification r k cid a t s) = f s"
  shows "f (ModAction_project d m env st) =
    f (if verb_in (ma_verb m) MEMBER_VERBS then apply_member_verb m (env_scope env) (env_time env) (append_to_chain d m env st)
       else apply_content_verb m (append_to_chain d m env st))"
  by (simp add: ModAction_project_def Let_def assms split: option.split)

lemma mod_effect:
  "owner_of (ModAction_project d m env st) = owner_of st"
  "standing (ModAction_project d m env st) = standing st"
  "roles (ModAction_project d m env st) = roles st"
  "role_assignments (ModAction_project d m env st) = role_assignments st"
  "memberships (ModAction_project d m env st) =
     (if verb_in (ma_verb m) MEMBER_VERBS
      then (case member_patch m (verb_of (ma_verb m)) (mod_row m env st) of
              None \<Rightarrow> memberships st
            | Some doc \<Rightarrow> al_set (membershipKey (env_scope env) (ma_target m)) doc (memberships st))
      else memberships st)"
proof -
  have "owner_of (add_notification r k cid a t s) = owner_of s" "standing (add_notification r k cid a t s) = standing s"
    for r k cid a t s by (simp_all add: owner_of_def standing_def fun_eq_iff)
  then show "owner_of (ModAction_project d m env st) = owner_of st" "standing (ModAction_project d m env st) = standing st"
    using ModAction_field [of owner_of d m env st] ModAction_field [of standing d m env st]
    by (simp_all add: owner_of_def standing_def fun_eq_iff split: if_splits)
  show "roles (ModAction_project d m env st) = roles st" "role_assignments (ModAction_project d m env st) = role_assignments st"
    by (simp_all add: ModAction_field [of roles] ModAction_field [of role_assignments])
  show "memberships (ModAction_project d m env st) =
     (if verb_in (ma_verb m) MEMBER_VERBS
      then (case member_patch m (verb_of (ma_verb m)) (mod_row m env st) of
              None \<Rightarrow> memberships st
            | Some doc \<Rightarrow> al_set (membershipKey (env_scope env) (ma_target m)) doc (memberships st))
      else memberships st)"
    unfolding ModAction_field [of memberships, OF notification_frame(4)]
    by (simp add: apply_member_verb_memberships mod_row_cong [of "append_to_chain d m env st" st] cong: option.case_cong)
qed

lemma role_define_effect:
  "owner_of (RoleDefine_project m env st) = owner_of st" "standing (RoleDefine_project m env st) = standing st"
  "memberships (RoleDefine_project m env st) = memberships st"
  "role_assignments (RoleDefine_project m env st) = role_assignments st"
  "roles (RoleDefine_project m env st) = al_set (roleKey (rd_community m) (rd_name m))
     \<lparr>rl_id = roleKey (rd_community m) (rd_name m), rl_community = rd_community m, rl_name = rd_name m,
      rl_permission_mask = rd_permission_mask m, rl_is_default = rd_is_default m, rl_defined_at_ms = env_time env\<rparr> (roles st)"
  by (simp_all add: RoleDefine_project_def Let_def owner_of_def standing_def fun_eq_iff)

lemma role_assign_effect:
  "owner_of (RoleAssign_project m env st) = owner_of st" "standing (RoleAssign_project m env st) = standing st"
  "memberships (RoleAssign_project m env st) = memberships st" "roles (RoleAssign_project m env st) = roles st"
  by (simp_all add: RoleAssign_project_def owner_of_def standing_def fun_eq_iff)

lemma role_revoke_effect:
  "owner_of (RoleRevoke_project m env st) = owner_of st" "standing (RoleRevoke_project m env st) = standing st"
  "memberships (RoleRevoke_project m env st) = memberships st" "roles (RoleRevoke_project m env st) = roles st"
  "set (role_assignments (RoleRevoke_project m env st)) \<subseteq> set (role_assignments st)"
  by (auto simp: RoleRevoke_project_def owner_of_def standing_def fun_eq_iff al_del_def)

section \<open>Rotation\<close>

lemma inherit_membership_fields [simp]:
  "communities (inherit_membership r doc st) = communities st" "identities (inherit_membership r doc st) = identities st"
  "roles (inherit_membership r doc st) = roles st" "role_assignments (inherit_membership r doc st) = role_assignments st"
  "posts (inherit_membership r doc st) = posts st" "comments (inherit_membership r doc st) = comments st"
  "votes (inherit_membership r doc st) = votes st" "mod_events (inherit_membership r doc st) = mod_events st"
  "mod_heads (inherit_membership r doc st) = mod_heads st"
  by (simp_all add: inherit_membership_def Let_def)

lemma inherit_assignment_fields [simp]:
  "communities (inherit_assignment r a st) = communities st" "identities (inherit_assignment r a st) = identities st"
  "memberships (inherit_assignment r a st) = memberships st" "roles (inherit_assignment r a st) = roles st"
  "posts (inherit_assignment r a st) = posts st" "comments (inherit_assignment r a st) = comments st"
  "votes (inherit_assignment r a st) = votes st" "mod_events (inherit_assignment r a st) = mod_events st"
  "mod_heads (inherit_assignment r a st) = mod_heads st"
  by (simp_all add: inherit_assignment_def Let_def)


lemma inherit_membership_rows:
  "(i, x) \<in> set (memberships (fold (inherit_membership r) docs st)) \<Longrightarrow>
     (i, x) \<in> set (memberships st) \<or>
     (\<exists>y\<in>set docs. i = membershipKey (ms_community y) r \<and> x = y\<lparr>ms_id := i, ms_member_key := r\<rparr>)"
proof (induction docs arbitrary: st)
  case (Cons y ys)
  from Cons.IH [of "inherit_membership r y st"] Cons.prems
    set_al_set_subset [of "membershipKey (ms_community y) r" "y\<lparr>ms_id := membershipKey (ms_community y) r, ms_member_key := r\<rparr>" "memberships st"]
  show ?case by (auto simp: inherit_membership_def Let_def)
qed simp

lemma inherit_membership_other:
  assumes "\<And>c. membershipKey c r \<noteq> i"
  shows "map_of (memberships (fold (inherit_membership r) docs st)) i = map_of (memberships st) i"
  using assms by (induction docs arbitrary: st) (auto simp: inherit_membership_def Let_def)

lemma inherit_assignment_rows:
  "a \<in> snd ` set (role_assignments (fold (inherit_assignment r) docs st)) \<Longrightarrow>
     a \<in> snd ` set (role_assignments st) \<or>
     (\<exists>y\<in>set docs. ra_community a = ra_community y \<and> ra_subject_key a = r \<and> ra_role a = ra_role y)"
proof (induction docs arbitrary: st)
  case (Cons y ys)
  have "a \<in> snd ` set (role_assignments (inherit_assignment r y st)) \<Longrightarrow>
    a \<in> snd ` set (role_assignments st) \<or> ra_community a = ra_community y \<and> ra_subject_key a = r \<and> ra_role a = ra_role y"
    using set_al_set_subset by (fastforce simp: inherit_assignment_def Let_def)
  with Cons.IH [of "inherit_assignment r y st"] Cons.prems show ?case by auto
qed simp

lemma inherit_fold_fields:
  assumes "\<And>s doc. f (inherit_membership r doc s) = f s" and "\<And>s a. f (inherit_assignment r a s) = f s"
    and "\<And>s i. f (s\<lparr>identities := i\<rparr>) = f s"
  shows "f (inherit_standing k r st) = f st"
  unfolding inherit_standing_def Let_def
  by (simp add: fold_frame [of f, OF assms(2)] fold_frame [of f, OF assms(1)] assms(3) split: option.split)

definition rotates :: "forum_op \<Rightarrow> parsed_envelope \<Rightarrow> string option" where
  "rotates op env = (case op of
     Op_revoke m \<Rightarrow> if rv_kind m = RevocationKind R_ROTATE then Some (hex (rv_replacement_key m)) else None
   | _ \<Rightarrow> None)"

text \<open>An accepted revocation writes its own row and, when it rotates, copies the standing of its author.\<close>

lemma revoke_effect:
  assumes "KeyRevoke_validate d m env = Valid"
  shows "rotates (Op_revoke m) env = None \<Longrightarrow> same_authority st (KeyRevoke_project m env st)"
    and "rotates (Op_revoke m) env = Some r \<Longrightarrow> rv_revoked_key m = author_key env \<and> length (rv_replacement_key m) = 32
      \<and> r = hex (rv_replacement_key m)
      \<and> same_authority (inherit_standing (env_author env) r st) (KeyRevoke_project m env st)"
proof -
  let ?k = "hex (rv_revoked_key m)"
  let ?row = "revocation_row m env (map_of (revocations st) ?k)"
  let ?st1 = "st\<lparr>revocations := al_set ?k ?row (revocations st)\<rparr>"
  show "same_authority st (KeyRevoke_project m env st)" if "rotates (Op_revoke m) env = None"
    using that by (intro authority_of_fields) (simp_all add: rotates_def KeyRevoke_project_def Let_def split: if_splits)
  assume r: "rotates (Op_revoke m) env = Some r"
  then have kind: "rv_kind m = RevocationKind R_ROTATE" and r': "r = hex (rv_replacement_key m)"
    by (auto simp: rotates_def simp del: RevocationKind.simps split: if_splits)
  from assms kind have checks: "rv_revoked_key m = author_key env" "length (rv_replacement_key m) = 32"
    by (auto simp: KeyRevoke_validate_def split: if_splits)
  have len: "length r = 64" using checks(2) r' by simp
  have row: "re_replacement_key ?row = r" "r \<noteq> []"
    using checks(2) r' by (simp add: revocation_row_def Let_def) (use len in auto)
  have proj: "KeyRevoke_project m env st = inherit_standing (env_author env) r ?st1"
    using kind row checks(1) by (simp add: KeyRevoke_project_def Let_def env_author_def del: RevocationKind.simps)
  have swap: "fold (inherit_membership r) docs (s\<lparr>revocations := x\<rparr>) = (fold (inherit_membership r) docs s)\<lparr>revocations := x\<rparr>"
    for docs s x
  proof (induction docs arbitrary: s)
    case (Cons y ys)
    have "inherit_membership r y (s\<lparr>revocations := x\<rparr>) = (inherit_membership r y s)\<lparr>revocations := x\<rparr>"
      by (cases s) (simp add: inherit_membership_def Let_def)
    then show ?case by (simp add: Cons.IH)
  qed simp
  have swap': "fold (inherit_assignment r) as (s\<lparr>revocations := x\<rparr>) = (fold (inherit_assignment r) as s)\<lparr>revocations := x\<rparr>"
    for as s x
  proof (induction as arbitrary: s)
    case (Cons y ys)
    have "inherit_assignment r y (s\<lparr>revocations := x\<rparr>) = (inherit_assignment r y s)\<lparr>revocations := x\<rparr>"
      by (cases s) (simp add: inherit_assignment_def Let_def)
    then show ?case by (simp add: Cons.IH)
  qed simp
  have upd: "s\<lparr>revocations := x, identities := y\<rparr> = (s\<lparr>identities := y\<rparr>)\<lparr>revocations := x\<rparr>" for s :: forum_store and x y
    by (cases s) simp
  have "inherit_standing k r (s\<lparr>revocations := x\<rparr>) = (inherit_standing k r s)\<lparr>revocations := x\<rparr>" for k s x
    by (cases "map_of (identities s) k") (simp_all add: inherit_standing_def Let_def swap swap' upd)
  then have "KeyRevoke_project m env st = (inherit_standing (env_author env) r st)\<lparr>revocations := al_set ?k ?row (revocations st)\<rparr>"
    by (simp add: proj)
  then have "same_authority (inherit_standing (env_author env) r st) (KeyRevoke_project m env st)"
    by (intro authority_of_fields) simp_all
  with checks r' show "rv_revoked_key m = author_key env \<and> length (rv_replacement_key m) = 32 \<and> r = hex (rv_replacement_key m)
      \<and> same_authority (inherit_standing (env_author env) r st) (KeyRevoke_project m env st)" by blast
qed

lemma inherit_standing_fields:
  "owner_of (inherit_standing k r st) = owner_of st" "roles (inherit_standing k r st) = roles st"
  by (rule inherit_fold_fields; simp add: owner_of_def fun_eq_iff)+

lemma inherit_standing_standing:
  "standing (inherit_standing k r st) k' = (if k' = r \<and> map_of (identities st) k \<noteq> None then standing st k else standing st k')"
proof -
  have "identities (inherit_standing k r st) = (case map_of (identities st) k of None \<Rightarrow> identities st
      | Some i \<Rightarrow> al_set r (i\<lparr>iy_id := r\<rparr>) (identities st))"
    unfolding inherit_standing_def Let_def
    by (simp add: fold_frame [of identities, OF inherit_assignment_fields(2)] fold_frame [of identities, OF inherit_membership_fields(2)] split: option.split)
  then show ?thesis by (auto simp: standing_def Let_def split: option.splits)
qed

lemma inherit_standing_memberships:
  "memberships (inherit_standing k r st) =
     memberships (fold (inherit_membership r) (find_docs (\<lambda>x. ms_member_key x = k) 100000 (memberships st)) st)"
proof -
  have cong: "memberships (fold (inherit_membership r) docs s) = memberships (fold (inherit_membership r) docs s')"
    if "memberships s = memberships s'" for docs s s'
    using that
  proof (induction docs arbitrary: s s')
    case (Cons y ys)
    have "memberships (inherit_membership r y s) = memberships (inherit_membership r y s')"
      unfolding inherit_membership_def Let_def by (simp add: Cons.prems)
    from Cons.IH [OF this] show ?case by simp
  qed simp
  have "memberships (fold (inherit_membership r) docs (s\<lparr>identities := i\<rparr>)) = memberships (fold (inherit_membership r) docs s)"
    for docs s i by (rule cong) simp
  then show ?thesis
    unfolding inherit_standing_def Let_def
    by (simp add: fold_frame [of memberships, OF inherit_assignment_fields(3)] split: option.split)
qed

lemma inherit_standing_assignments:
  assumes "a \<in> snd ` set (role_assignments (inherit_standing k r st))"
  shows "a \<in> snd ` set (role_assignments st) \<or>
    (\<exists>y\<in>snd ` set (role_assignments st). ra_subject_key y = k \<and> ra_community a = ra_community y \<and> ra_subject_key a = r \<and> ra_role a = ra_role y)"
proof -
  define s where "s = fold (inherit_membership r) (find_docs (\<lambda>x. ms_member_key x = k) 100000 (memberships st))
    (case map_of (identities st) k of None \<Rightarrow> st | Some i \<Rightarrow> st\<lparr>identities := al_set r (i\<lparr>iy_id := r\<rparr>) (identities st)\<rparr>)"
  have s: "role_assignments s = role_assignments st"
    by (simp add: s_def fold_frame [of role_assignments, OF inherit_membership_fields(4)] split: option.split)
  have "inherit_standing k r st = fold (inherit_assignment r) (find_docs (\<lambda>x. ra_subject_key x = k) 100000 (role_assignments s)) s"
    by (simp add: inherit_standing_def Let_def s_def split: option.split)
  from inherit_assignment_rows [OF assms [unfolded this]] find_docs_sub [of "\<lambda>x. ra_subject_key x = k" 100000 "role_assignments s"]
  show ?thesis unfolding s by fast
qed


section \<open>An owner keeps the community\<close>

definition banned_row :: "forum_store \<Rightarrow> string \<Rightarrow> bool" where
  "banned_row st i = (case map_of (memberships st) i of None \<Rightarrow> False | Some m \<Rightarrow> has_flag (ms_flags m) (MembershipFlag Ms_BANNED))"

definition owner_safe :: "string \<Rightarrow> bytes \<Rightarrow> forum_store \<Rightarrow> bool" where
  "owner_safe c k st \<longleftrightarrow>
     owner_of st c = Some (hex k) \<and> standing st (hex k) = (False, False, False) \<and> \<not> banned_row st (membershipKey c (hex k))"

definition rotates_onto :: "bytes \<Rightarrow> forum_event \<Rightarrow> bool" where
  "rotates_onto k e \<longleftrightarrow> rotates (ev_op e) (ev_env e) = Some (hex k)"

lemma accepted:
  assumes "forum_accepts d st e"
  shows "forum_authorize d (ev_origin e) st (ev_op e) (ev_env e) = Allowed" "forum_validate d (ev_op e) (ev_env e) = Valid"
  using assms by (simp_all add: forum_accepts_def)

lemma accepted_mod:
  assumes "forum_accepts d st e" and "ev_op e = Op_mod m"
  obtains p c where "required_permission st m = Inr p" "can (env_auth st (ev_env e) (env_scope (ev_env e))) p"
    "map_of (communities st) (env_scope (ev_env e)) = Some c" "env_scope (ev_env e) \<noteq> []"
    "verb_in (ma_verb m) MEMBER_VERBS \<Longrightarrow> HEX_KEY_PATTERN (ma_target m) \<and> cm_owner_key c \<noteq> ma_target m"
proof -
  from accepted [OF assms(1)] assms(2) have a: "ModAction_authorize st m (ev_env e) = Allowed" and v: "ModAction_validate m (ev_env e) = Valid"
    by simp_all
  from v have scope: "env_scope (ev_env e) \<noteq> []" and hexkey: "verb_in (ma_verb m) MEMBER_VERBS \<Longrightarrow> HEX_KEY_PATTERN (ma_target m)"
    by (auto simp: ModAction_validate_def split: if_splits)
  from a scope obtain p c where "required_permission st m = Inr p" "can (env_auth st (ev_env e) (env_scope (ev_env e))) p"
    "map_of (communities st) (env_scope (ev_env e)) = Some c" "verb_in (ma_verb m) MEMBER_VERBS \<Longrightarrow> cm_owner_key c \<noteq> ma_target m"
    by (auto simp: ModAction_authorize_def Let_def env_auth_def load_auth_context_def split: sum.splits option.splits if_splits)
  with scope hexkey that show thesis by blast
qed

lemma joined_banned [simp]:
  "has_flag (ms_flags (joined_doc c k t e)) (MembershipFlag Ms_BANNED) \<longleftrightarrow>
     (case e of None \<Rightarrow> False | Some x \<Rightarrow> has_flag (ms_flags x) (MembershipFlag Ms_BANNED))"
  by (cases e) (simp_all add: joined_doc_def del: MembershipFlag.simps)

lemma owner_safe_step:
  assumes safe: "owner_safe c k st" and ok: "\<not> rotates_onto k e" and acc: "forum_accepts d st e"
  shows "owner_safe c k (forum_effect d e st)"
proof (cases "moves_authority (ev_op e)")
  case False
  have "same_authority st (forum_effect d e st)" unfolding forum_effect_def by (rule quiet_operation [OF False])
  with safe show ?thesis by (simp add: owner_safe_def same_authority_def banned_row_def)
next
  case True
  let ?env = "ev_env e"
  from safe have own: "owner_of st c = Some (hex k)" and stand: "standing st (hex k) = (False, False, False)"
    and row: "\<not> banned_row st (membershipKey c (hex k))" by (simp_all add: owner_safe_def)
  show ?thesis
  proof (cases "ev_op e")
    case (Op_community_create m)
    with accepted(1) [OF acc] have "owner_of st (created_id d (ev_origin e) m) = None"
      by (simp add: CommunityCreate_authorize_def owner_of_def split: option.splits)
    with own have "created_id d (ev_origin e) m \<noteq> c" by auto
    with Op_community_create own stand row show ?thesis
      by (simp add: owner_safe_def forum_effect_def create_effect banned_row_def env_author_def)
  next
    case (Op_join m)
    with own stand row show ?thesis
      by (auto simp: owner_safe_def forum_effect_def join_effect banned_row_def env_author_def simp del: MembershipFlag.simps
          split: option.splits)
  next
    case (Op_leave m)
    with own stand row show ?thesis
      by (auto simp: owner_safe_def forum_effect_def leave_effect banned_row_def env_author_def Let_def
          simp del: MembershipFlag.simps split: option.splits)
  next
    case (Op_mod m)
    obtain p cd where cd: "map_of (communities st) (env_scope ?env) = Some cd"
      and target: "verb_in (ma_verb m) MEMBER_VERBS \<Longrightarrow> HEX_KEY_PATTERN (ma_target m) \<and> cm_owner_key cd \<noteq> ma_target m"
      using accepted_mod [OF acc Op_mod] by metis
    have "membershipKey (env_scope ?env) (ma_target m) \<noteq> membershipKey c (hex k)" if "verb_in (ma_verb m) MEMBER_VERBS"
      using target [OF that] cd own by (auto simp: membershipKey_pattern owner_of_def)
    with Op_mod own stand row show ?thesis
      by (auto simp: owner_safe_def forum_effect_def mod_effect banned_row_def split: option.splits)
  next
    case (Op_revoke m)
    with accepted(2) [OF acc] have v: "KeyRevoke_validate d m ?env = Valid" by simp
    show ?thesis
    proof (cases "rotates (Op_revoke m) ?env")
      case None
      from revoke_effect(1) [OF v None, of st] safe Op_revoke show ?thesis
        by (simp add: owner_safe_def same_authority_def banned_row_def forum_effect_def)
    next
      case (Some r)
      note eff = revoke_effect(2) [OF v Some, of st]
      from eff ok Op_revoke Some have "r \<noteq> hex k" "r = hex (rv_replacement_key m)" by (auto simp: rotates_onto_def)
      then have other: "membershipKey c' r \<noteq> membershipKey c (hex k)" for c' by (simp add: hex_inj)
      have "owner_safe c k (inherit_standing (env_author ?env) r st)"
        using own stand row \<open>r \<noteq> hex k\<close>
        by (simp add: owner_safe_def inherit_standing_fields inherit_standing_standing banned_row_def
            inherit_standing_memberships inherit_membership_other [OF other])
      with eff Op_revoke show ?thesis by (simp add: owner_safe_def same_authority_def banned_row_def forum_effect_def)
    qed
  qed (use True own stand row in \<open>simp_all add: owner_safe_def forum_effect_def role_define_effect role_assign_effect
      role_revoke_effect banned_row_def\<close>)
qed

interpretation owner_kept: guarded_invariant "forum_accepts d" "forum_effect d" "\<lambda>e. \<not> rotates_onto k e" "owner_safe c k"
  for d k c
  by unfold_locales (rule owner_safe_step)

lemma owner_safe_resolves:
  assumes "owner_safe c k st" and "c \<noteq> []"
  shows "resolve_permissions (load_auth_context st (hex k) (Some c) t) = OWNER_PERMISSIONS"
proof -
  let ?x = "load_auth_context st (hex k) (Some c) t"
  from assms have "identity_flags ?x = (case map_of (identities st) (hex k) of None \<Rightarrow> 0 | Some i \<Rightarrow> iy_flags i)"
    "ax_community ?x = Some c" "is_owner ?x" "\<not> has_flag (membership_flags ?x) (MembershipFlag Ms_BANNED)"
    by (auto simp: load_auth_context_def identity_flags_def is_owner_def membership_flags_def owner_safe_def owner_of_def
        banned_row_def simp del: MembershipFlag.simps split: option.splits)
  with assms show ?thesis
    by (simp add: resolve_permissions_def owner_safe_def standing_def Let_def del: MembershipFlag.simps IdentityFlag.simps)
qed


lemma create_owner_safe:
  assumes "forum_accepts d st e" and "ev_op e = Op_community_create m" and "author_key (ev_env e) = k"
    and "standing st (hex k) = (False, False, False)"
  shows "owner_safe (created_id d (ev_origin e) m) k (forum_effect d e st)"
  using assms
  by (simp add: owner_safe_def forum_effect_def create_effect banned_row_def env_author_def del: MembershipFlag.simps)

text \<open>C9: Whoever creates a community holds every permission in it from then on, whatever anyone publishes
  afterwards - bans, kicks, roles, other communities, leaving it included - as long as nobody rotates a key
  onto the owner's and the owner's key carries no node-wide flag.\<close>

theorem owner_keeps_control:
  assumes "forum_accepts d st e" and "ev_op e = Op_community_create m" and "author_key (ev_env e) = k"
    and "standing st (hex k) = (False, False, False)"
    and "list_all (\<lambda>x. \<not> rotates_onto k x) es"
  shows "resolve_permissions
    (load_auth_context (forum_run d (e # es) st) (hex k) (Some (created_id d (ev_origin e) m)) now_ms) = OWNER_PERMISSIONS"
proof (rule owner_safe_resolves)
  have "owner_safe (created_id d (ev_origin e) m) k (forum_effect d e st)"
    by (rule create_owner_safe [OF assms(1-4)])
  from owner_kept.run_keeps [OF this assms(5)]
  show "owner_safe (created_id d (ev_origin e) m) k (forum_run d (e # es) st)"
    using assms(1) by (simp add: forum_run_eq forum_step_def forum_effect_def)
  show "created_id d (ev_origin e) m \<noteq> []" by (simp add: created_id_def community_id_def)
qed

section \<open>A scenario\<close>

text \<open>
  Concrete material for the witnesses: three keys, a node that hashes to a constant, and envelopes that carry
  only what the handlers read.
\<close>

definition key_o :: bytes where "key_o = replicate 32 1"
definition key_a :: bytes where "key_a = replicate 32 2"
definition key_b :: bytes where "key_b = replicate 32 3"

definition demo_deps :: forum_deps where
  "demo_deps = \<lparr>fd_sha = (\<lambda>x. 0 # x), fd_server_id = ''n'', fd_ed_verify = (\<lambda>_ _ _. True), fd_mldsa_verify = (\<lambda>_ _ _. True),
     fd_blobs = None, fd_registrations_open = None\<rparr>"

definition demo_env :: "bytes \<Rightarrow> string \<Rightarrow> int \<Rightarrow> string \<Rightarrow> parsed_envelope" where
  "demo_env k scope t cid =
     \<lparr>version = 1, plane = 1, domain = [], author_key = k, key_alg = 1, parent = [], env_scope = scope, created_at_ms = t,
      nonce = [], priority = 1, body = [], env_anti_abuse = None, signature = [], content_id = cid\<rparr>"

definition demo_event :: "bytes \<Rightarrow> string \<Rightarrow> int \<Rightarrow> string \<Rightarrow> forum_op \<Rightarrow> forum_event" where
  "demo_event k scope t cid op = \<lparr>ev_op = op, ev_env = demo_env k scope t cid, ev_origin = None\<rparr>"

definition demo_create :: community_create_msg where
  "demo_create = \<lparr>cc_name = ''abc'', cc_title = [], cc_description = [], cc_rules_markdown = [], cc_theme = None,
     cc_settings = None, cc_is_private = False, cc_is_nsfw = False\<rparr>"

text \<open>The title of the examples, as it is after \<open>trim()\<close>.\<close>

lemma white_space_bytes: "white_space = map (map char_of)
    [[9], [10], [11], [12], [13], [32], [0xC2, 0xA0], [0xE1, 0x9A, 0x80],
     [0xE2, 0x80, 0x80], [0xE2, 0x80, 0x81], [0xE2, 0x80, 0x82], [0xE2, 0x80, 0x83], [0xE2, 0x80, 0x84], [0xE2, 0x80, 0x85],
     [0xE2, 0x80, 0x86], [0xE2, 0x80, 0x87], [0xE2, 0x80, 0x88], [0xE2, 0x80, 0x89], [0xE2, 0x80, 0x8A],
     [0xE2, 0x80, 0xA8], [0xE2, 0x80, 0xA9], [0xE2, 0x80, 0xAF],
     [0xE2, 0x81, 0x9F], [0xE3, 0x80, 0x80], [0xEF, 0xBB, 0xBF :: nat]]"
  by (simp add: white_space_def upt_rec)

lemma no_space_t: "leading_space white_space ''t'' = 0" "leading_space (map rev white_space) ''t'' = 0"
  by (simp_all add: white_space_bytes leading_space_def starts_with_def char_of_def)

lemma js_trim_t: "js_trim ''t'' = ''t''"
  by (simp add: js_trim_def no_space_t)

lemma demo_event_sel [simp]:
  "ev_op (demo_event k s t c op) = op" "ev_origin (demo_event k s t c op) = None"
  "author_key (ev_env (demo_event k s t c op)) = k" "env_scope (ev_env (demo_event k s t c op)) = s"
  "created_at_ms (ev_env (demo_event k s t c op)) = t" "content_id (ev_env (demo_event k s t c op)) = c"
  "env_author (ev_env (demo_event k s t c op)) = hex k"
  by (simp_all add: demo_event_def demo_env_def env_author_def)

lemma demo_time [simp]: "\<bar>t\<bar> \<le> 2 ^ 53 \<Longrightarrow> env_time (ev_env (demo_event k s t c op)) = t"
  by (simp add: env_time_def)

lemma demo_keys [simp]: "key_o \<noteq> key_a" "key_a \<noteq> key_o" "key_o \<noteq> key_b" "key_b \<noteq> key_o" "key_a \<noteq> key_b" "key_b \<noteq> key_a"
  "length key_o = 32" "length key_a = 32" "length key_b = 32"
  by (simp_all add: key_o_def key_a_def key_b_def numeral_eq_Suc)

definition demo_c :: string where "demo_c = ''abc@n''"

lemma demo_created [simp]: "created_id demo_deps None demo_create = demo_c"
  by (simp add: created_id_def community_id_def demo_deps_def demo_create_def demo_c_def)

definition start_event :: forum_event where
  "start_event = demo_event key_o [] 10 ''jb1create'' (Op_community_create demo_create)"

lemma start_accepted: "forum_accepts demo_deps empty_forum_store start_event"
  by (simp add: start_event_def forum_accepts_def CommunityCreate_authorize_def empty_forum_store_def
      CommunityCreate_validate_def demo_create_def COMMUNITY_NAME_PATTERN_def matches_class_def lower_alnum_def in_range_def
      validate_metadata_def code_point_count_def)

lemma empty_standing [simp]: "standing empty_forum_store k = (False, False, False)"
  by (simp add: standing_def empty_forum_store_def del: IdentityFlag.simps)

theorem owner_keeps_control_witness:
  "resolve_permissions (load_auth_context
     (forum_run demo_deps [start_event, demo_event key_o [] 20 ''jb1leave'' (Op_leave \<lparr>mj_community = demo_c\<rparr>)] empty_forum_store)
     (hex key_o) (Some (created_id demo_deps (ev_origin start_event) demo_create)) 30) = OWNER_PERMISSIONS"
  by (rule owner_keeps_control [OF start_accepted])
    (simp_all add: start_event_def rotates_onto_def rotates_def)


section \<open>No coalition raises itself\<close>

definition grant :: "forum_store \<Rightarrow> string \<Rightarrow> string \<Rightarrow> int" where
  "grant st c n = (case map_of (roles st) (roleKey c n) of None \<Rightarrow> 0 | Some r \<Rightarrow> rl_permission_mask r)"

definition plain_key :: "forum_store \<Rightarrow> string \<Rightarrow> bytes \<Rightarrow> bool" where
  "plain_key st c k \<longleftrightarrow> owner_of st c \<noteq> Some (hex k) \<and> \<not> fst (snd (standing st (hex k))) \<and> \<not> snd (snd (standing st (hex k)))"

text \<open>
  \<open>confined c K B st\<close>: in community \<open>c\<close> nothing the keys of \<open>K\<close> hold, or would get by joining, goes beyond the
  bits of \<open>B\<close>. No key of \<open>K\<close> owns the community or carries a node-wide flag; one that is a moderator, or has a role
  assigned, has only bits of \<open>B\<close> from it; the default roles grant only bits of \<open>B\<close>.
\<close>

definition mod_rows_within :: "string \<Rightarrow> bytes set \<Rightarrow> int \<Rightarrow> (string \<times> membership_doc) set \<Rightarrow> bool" where
  "mod_rows_within c K B rows \<longleftrightarrow>
     (\<forall>(i, x) \<in> rows. ((\<exists>k\<in>K. i = membershipKey c (hex k)) \<or> ms_community x = c \<and> ms_member_key x \<in> hex ` K)
        \<and> has_flag (ms_flags x) (MembershipFlag Ms_MODERATOR) \<longrightarrow> within_mask MODERATOR_PERMISSIONS B)"

definition confined :: "string \<Rightarrow> bytes set \<Rightarrow> int \<Rightarrow> forum_store \<Rightarrow> bool" where
  "confined c K B st \<longleftrightarrow>
     c \<noteq> [] \<and> CHR '':'' \<notin> set c \<and> owner_of st c \<noteq> None \<and> (\<forall>c'. owner_of st c' \<noteq> None \<longrightarrow> CHR '':'' \<notin> set c')
     \<and> within_mask DEFAULT_MEMBER_PERMISSIONS B
     \<and> (\<forall>k\<in>K. plain_key st c k)
     \<and> mod_rows_within c K B (set (memberships st))
     \<and> (\<forall>r\<in>snd ` set (roles st). rl_community r = c \<and> rl_is_default r \<longrightarrow> within_mask (grant st c (rl_name r)) B)
     \<and> (\<forall>a\<in>snd ` set (role_assignments st). ra_community a = c \<and> ra_subject_key a \<in> hex ` K \<longrightarrow> within_mask (grant st c (ra_role a)) B)"

lemma default_contains_read: "within_mask DEFAULT_MEMBER_PERMISSIONS B \<Longrightarrow> within_mask (Permission community_read) B"
  by (simp add: DEFAULT_MEMBER_PERMISSIONS_def del: Permission.simps)

lemma resolve_within:
  assumes "\<not> has_flag (identity_flags x) (IdentityFlag Id_GLOBAL_ADMIN)"
    and "\<not> has_flag (identity_flags x) (IdentityFlag Id_GLOBAL_MODERATOR)" and "\<not> is_owner x"
    and "within_mask DEFAULT_MEMBER_PERMISSIONS B"
    and "has_flag (membership_flags x) (MembershipFlag Ms_MODERATOR) \<Longrightarrow> within_mask MODERATOR_PERMISSIONS B"
    and "\<And>r. r \<in> set (ax_roles x) \<Longrightarrow> within_mask (rl_permission_mask r) B"
  shows "within_mask (resolve_permissions x) B"
proof -
  note keep = within_mask_fold_or within_mask_or
  have read: "within_mask (Permission community_read) B" by (rule default_contains_read [OF assms(4)])
  have base: "within_mask (if b then Permission community_read OR DEFAULT_MEMBER_PERMISSIONS else Permission community_read) B" for b
    using read assms(4) by (simp add: keep del: Permission.simps)
  then have "within_mask (if b' then (if b then Permission community_read OR DEFAULT_MEMBER_PERMISSIONS else Permission community_read)
      AND NOT (Permission post_create) else (if b then Permission community_read OR DEFAULT_MEMBER_PERMISSIONS else Permission community_read)) B" for b b'
    using within_mask_clear [OF base] by (simp del: Permission.simps)
  with assms(4-6) show ?thesis
    unfolding resolve_permissions_def Let_def by (auto simp: keep assms(1-3) simp del: Permission.simps MembershipFlag.simps IdentityFlag.simps)
qed

lemma resolve_bounded:
  assumes "\<not> fst (snd (standing st k)) \<and> \<not> snd (snd (standing st k))" and "owner_of st c \<noteq> Some k"
    and "within_mask DEFAULT_MEMBER_PERMISSIONS B"
    and "\<And>x. map_of (memberships st) (membershipKey c k) = Some x \<Longrightarrow> has_flag (ms_flags x) (MembershipFlag Ms_MODERATOR)
      \<Longrightarrow> within_mask MODERATOR_PERMISSIONS B"
    and "\<And>a. a \<in> snd ` set (role_assignments st) \<Longrightarrow> ra_community a = c \<Longrightarrow> ra_subject_key a = k \<Longrightarrow> within_mask (grant st c (ra_role a)) B"
  shows "within_mask (resolve_permissions (load_auth_context st k (Some c) t)) B"
proof (rule resolve_within)
  let ?x = "load_auth_context st k (Some c) t"
  show "within_mask (rl_permission_mask r) B" if r: "r \<in> set (ax_roles ?x)" for r
  proof (cases "c = []")
    case True
    with r show ?thesis by (simp add: load_auth_context_def)
  next
    case False
    with r obtain a where a: "a \<in> set (find_docs (\<lambda>a. ra_community a = c \<and> ra_subject_key a = k) 64 (role_assignments st))"
      "map_of (roles st) (roleKey c (ra_role a)) = Some r"
      by (auto simp: load_auth_context_def map_filter_def split: option.splits)
    from a(1) find_docs_sub have "a \<in> snd ` set (role_assignments st)" "ra_community a = c" "ra_subject_key a = k" by fastforce+
    from assms(5) [OF this] a(2) show ?thesis by (simp add: grant_def)
  qed
  show "\<not> has_flag (identity_flags ?x) (IdentityFlag Id_GLOBAL_ADMIN)" "\<not> has_flag (identity_flags ?x) (IdentityFlag Id_GLOBAL_MODERATOR)"
    using assms(1) by (auto simp: load_auth_context_def identity_flags_def standing_def Let_def simp del: IdentityFlag.simps split: option.splits)
  show "\<not> is_owner ?x"
    using assms(2) by (auto simp: load_auth_context_def is_owner_def owner_of_def split: option.splits)
  show "within_mask MODERATOR_PERMISSIONS B" if "has_flag (membership_flags ?x) (MembershipFlag Ms_MODERATOR)"
    using that assms(4) by (auto simp: load_auth_context_def membership_flags_def simp del: MembershipFlag.simps split: option.splits if_splits)
qed (rule assms(3))

lemma confined_resolves:
  assumes "confined c K B st" and "k \<in> K"
  shows "within_mask (resolve_permissions (load_auth_context st (hex k) (Some c) t)) B"
proof (rule resolve_bounded)
  from assms have plain: "plain_key st c k" and rows: "mod_rows_within c K B (set (memberships st))"
    and roles: "\<forall>a\<in>snd ` set (role_assignments st). ra_community a = c \<and> ra_subject_key a \<in> hex ` K \<longrightarrow> within_mask (grant st c (ra_role a)) B"
    by (simp_all add: confined_def)
  from plain show "\<not> fst (snd (standing st (hex k))) \<and> \<not> snd (snd (standing st (hex k)))" "owner_of st c \<noteq> Some (hex k)"
    by (simp_all add: plain_key_def)
  from assms show "within_mask DEFAULT_MEMBER_PERMISSIONS B" by (simp add: confined_def)
  show "within_mask MODERATOR_PERMISSIONS B"
    if "map_of (memberships st) (membershipKey c (hex k)) = Some x" "has_flag (ms_flags x) (MembershipFlag Ms_MODERATOR)" for x
    using rows map_of_SomeD [OF that(1)] that(2) assms(2) unfolding mod_rows_within_def by fast
  show "within_mask (grant st c (ra_role a)) B"
    if "a \<in> snd ` set (role_assignments st)" "ra_community a = c" "ra_subject_key a = hex k" for a
    using roles that assms(2) by blast
qed

end
