(* ===== verification/JB_Coalition.thy ===== *)
theory JB_Coalition
  imports JB_Governance
begin

unbundle bit_operations_syntax

text \<open>
  The escalation guard of \<open>role/role.handlers.ts\<close>, proved of the whole machine: the keys of a coalition may define
  and assign roles, join and leave, moderate, found communities of their own and rotate among themselves or to
  others, and still none of them ever holds a bit in the community beyond the bound it started with.
\<close>

section \<open>Each operation of a member keeps the bound\<close>

lemma mod_rows_within_al_set:
  assumes "mod_rows_within c K B (set rows)" and "mod_rows_within c K B {(i, x)}"
  shows "mod_rows_within c K B (set (al_set i x rows))"
proof -
  have "mod_rows_within c K B (insert (i, x) (set rows))"
    using assms unfolding mod_rows_within_def by (simp only: ball_simps)
  with set_al_set_subset [of i x rows] show ?thesis unfolding mod_rows_within_def by (meson subsetD)
qed

lemma mod_row_other:
  assumes "\<And>k. k \<in> K \<Longrightarrow> i \<noteq> membershipKey c (hex k)" and "ms_community x = c \<longrightarrow> ms_member_key x \<notin> hex ` K"
  shows "mod_rows_within c K B {(i, x)}"
  using assms by (auto simp: mod_rows_within_def)

lemma mod_row_unprivileged: "\<not> has_flag (ms_flags x) (MembershipFlag Ms_MODERATOR) \<Longrightarrow> mod_rows_within c K B {(i, x)}"
  by (simp add: mod_rows_within_def del: MembershipFlag.simps)

text \<open>A row rewritten in place, with no new moderator flag.\<close>

lemma mod_row_rewritten:
  assumes "mod_rows_within c K B (set rows)" and "map_of rows i = Some y"
    and "ms_community x = ms_community y" and "ms_member_key x = ms_member_key y"
    and "has_flag (ms_flags x) (MembershipFlag Ms_MODERATOR) \<longrightarrow> has_flag (ms_flags y) (MembershipFlag Ms_MODERATOR)"
  shows "mod_rows_within c K B {(i, x)}"
proof -
  note old = bspec [OF assms(1) [unfolded mod_rows_within_def] map_of_SomeD [OF assms(2)], unfolded split]
  show ?thesis
    unfolding mod_rows_within_def
    by (simp only: ball_simps split assms(3,4)) (use old assms(5) in blast)
qed

lemma confined_same_authority:
  assumes "confined c K B st" and "same_authority st st'"
  shows "confined c K B st'"
  using assms by (simp add: confined_def same_authority_def plain_key_def grant_def)

text \<open>What a member may hand out is inside its own mask, so inside the bound.\<close>

lemma member_grants_within:
  assumes "confined c K B st" and "author_key env \<in> K" and "m AND NOT (resolve_permissions (env_auth st env c)) = 0"
  shows "within_mask m B"
proof -
  have "within_mask m (resolve_permissions (env_auth st env c))" using assms(3) by (simp add: within_mask_def)
  moreover have "within_mask (resolve_permissions (env_auth st env c)) B"
    using confined_resolves [OF assms(1,2)] by (simp add: env_auth_def env_author_def)
  ultimately show ?thesis by (rule within_mask_trans)
qed

lemma create_confined:
  assumes conf: "confined c K B st" and fresh: "owner_of st (created_id d origin m) = None"
    and v: "CommunityCreate_validate m env = Valid"
    and origin: "CHR '':'' \<notin> set (case origin of None \<Rightarrow> fd_server_id d | Some s \<Rightarrow> s)"
  shows "confined c K B (CommunityCreate_project d origin m env st)"
proof -
  let ?i = "created_id d origin m"
  from v have "COMMUNITY_NAME_PATTERN (cc_name m)" by (simp add: CommunityCreate_validate_def split: if_splits)
  with origin have free: "CHR '':'' \<notin> set ?i" by (simp add: created_id_def community_id_def name_no_colon)
  from conf fresh have "?i \<noteq> c" by (auto simp: confined_def)
  then have rows: "mod_rows_within c K B (set (memberships (CommunityCreate_project d origin m env st)))"
    unfolding create_effect
    using conf by (intro mod_rows_within_al_set mod_row_other) (auto simp: confined_def env_author_def)
  from conf free \<open>?i \<noteq> c\<close> rows show ?thesis
    by (auto simp: confined_def create_effect plain_key_def grant_def)
qed

lemma join_confined:
  assumes conf: "confined c K B st" and k: "author_key env \<in> K"
  shows "confined c K B (MembershipJoin_project m env st)"
proof -
  let ?i = "membershipKey (mj_community m) (env_author env)"
  have new: "mod_rows_within c K B {(?i, joined_doc (mj_community m) (env_author env) (env_time env) (map_of (memberships st) ?i))}"
  proof (cases "mj_community m = c")
    case True
    have flag: "has_flag (ms_flags (joined_doc (mj_community m) (env_author env) (env_time env) e)) (MembershipFlag Ms_MODERATOR)
        \<longleftrightarrow> (case e of None \<Rightarrow> False | Some x \<Rightarrow> has_flag (ms_flags x) (MembershipFlag Ms_MODERATOR))" for e
      by (cases e) (simp_all add: joined_doc_def del: MembershipFlag.simps)
    have "within_mask MODERATOR_PERMISSIONS B"
      if "map_of (memberships st) ?i = Some x" "has_flag (ms_flags x) (MembershipFlag Ms_MODERATOR)" for x
      using conf k True map_of_SomeD [OF that(1)] that(2) unfolding confined_def mod_rows_within_def env_author_def by fast
    then show ?thesis unfolding mod_rows_within_def by (auto simp: flag simp del: MembershipFlag.simps split: option.splits)
  next
    case False
    then show ?thesis by (intro mod_row_other) (auto simp: env_author_def joined_doc_def)
  qed
  have rows: "mod_rows_within c K B (set (memberships (MembershipJoin_project m env st)))"
    unfolding join_effect using conf new by (intro mod_rows_within_al_set) (simp_all add: confined_def)
  have "within_mask (grant st c (ra_role a)) B"
    if "a \<in> snd ` set (role_assignments (MembershipJoin_project m env st))" "ra_community a = c" "ra_subject_key a \<in> hex ` K" for a
    using join_assignments [OF that(1)] conf that(2,3) unfolding confined_def by metis
  with conf rows show ?thesis
    by (auto simp: confined_def join_effect plain_key_def grant_def)
qed

lemma leave_confined:
  assumes conf: "confined c K B st"
  shows "confined c K B (MembershipLeave_project m env st)"
proof -
  have "mod_rows_within c K B (set (memberships (MembershipLeave_project m env st)))"
    unfolding leave_effect Let_def using conf
    by (auto simp: confined_def split: option.split simp del: MembershipFlag.simps intro!: mod_rows_within_al_set mod_row_unprivileged)
  with conf show ?thesis by (simp add: confined_def leave_effect(1,2,4,5) plain_key_def grant_def)
qed

lemma member_patch_moderator:
  assumes "member_patch m v b = Some x"
  shows "ms_community x = ms_community b \<and> ms_member_key x = ms_member_key b
    \<and> (has_flag (ms_flags x) (MembershipFlag Ms_MODERATOR) \<longrightarrow> has_flag (ms_flags b) (MembershipFlag Ms_MODERATOR))"
  using assms by (cases "(m, v, b)" rule: member_patch.cases) (auto simp del: MembershipFlag.simps)

lemma mod_confined:
  assumes conf: "confined c K B st"
  shows "confined c K B (ModAction_project d m env st)"
proof -
  let ?i = "membershipKey (env_scope env) (ma_target m)"
  have "mod_rows_within c K B {(?i, x)}" if patch: "member_patch m (verb_of (ma_verb m)) (mod_row m env st) = Some x" for x
  proof (cases "map_of (memberships st) ?i")
    case None
    then have "ms_flags (mod_row m env st) = 0" by (simp add: mod_row_def)
    with member_patch_moderator [OF patch] show ?thesis
      by (intro mod_row_unprivileged) (auto simp del: MembershipFlag.simps)
  next
    case (Some y)
    then have "mod_row m env st = y" by (simp add: mod_row_def)
    with member_patch_moderator [OF patch] conf Some show ?thesis
      by (intro mod_row_rewritten [of c K B "memberships st" ?i y]) (simp_all add: confined_def)
  qed
  then have "mod_rows_within c K B (set (memberships (ModAction_project d m env st)))"
    unfolding mod_effect using conf by (auto simp: confined_def split: option.split intro!: mod_rows_within_al_set)
  with conf show ?thesis by (simp add: confined_def mod_effect(1-4) plain_key_def grant_def)
qed


lemma confined_defaults:
  assumes "confined c K B st" and "r \<in> snd ` set (roles st)" and "rl_community r = c" and "rl_is_default r"
  shows "within_mask (grant st c (rl_name r)) B"
  using assms unfolding confined_def by blast

lemma confined_assigned:
  assumes "confined c K B st" and "a \<in> snd ` set (role_assignments st)" and "ra_community a = c" and "ra_subject_key a \<in> hex ` K"
  shows "within_mask (grant st c (ra_role a)) B"
  using assms unfolding confined_def by blast

lemma accepted_role_community:
  assumes "ax_community_doc (env_auth st env c') \<noteq> None"
  shows "owner_of st c' \<noteq> None"
  using assms by (auto simp: env_auth_def load_auth_context_def owner_of_def split: option.splits if_splits)

lemma role_define_confined:
  assumes conf: "confined c K B st" and k: "author_key env \<in> K"
    and a: "RoleDefine_authorize st m env = Allowed"
  shows "confined c K B (RoleDefine_project m env st)"
proof -
  let ?c' = "rd_community m"
  from a have known: "owner_of st ?c' \<noteq> None"
    by (intro accepted_role_community) (auto simp: RoleDefine_authorize_def Let_def split: if_splits)
  with conf have free: "CHR '':'' \<notin> set c" "CHR '':'' \<notin> set ?c'" by (auto simp: confined_def)
  from a have held: "rd_permission_mask m AND NOT (resolve_permissions (env_auth st env ?c')) = 0"
    by (auto simp: RoleDefine_authorize_def Let_def split: if_splits)
  let ?st' = "RoleDefine_project m env st"
  have grants: "grant ?st' c n = (if ?c' = c \<and> n = rd_name m then rd_permission_mask m else grant st c n)" for n
    using free by (auto simp: grant_def role_define_effect roleKey_eq)
  have bound: "within_mask (grant ?st' c n) B" if "within_mask (grant st c n) B" for n
    using that member_grants_within [OF conf k] held by (auto simp: grants)
  have own: "within_mask (grant ?st' c (rd_name m)) B" if "?c' = c"
    using that member_grants_within [OF conf k] held by (simp add: grants)
  have "within_mask (grant ?st' c (rl_name r)) B"
    if "r \<in> snd ` set (roles ?st')" "rl_community r = c" "rl_is_default r" for r
  proof (cases "r \<in> snd ` set (roles st)")
    case True
    from bound [OF confined_defaults [OF conf this that(2,3)]] show ?thesis .
  next
    case False
    with that(1) set_al_set_subset have "rl_community r = ?c'" "rl_name r = rd_name m" by (fastforce simp: role_define_effect)+
    with that(2) own show ?thesis by simp
  qed
  with conf bound show ?thesis by (simp add: confined_def role_define_effect(1-4) plain_key_def)
qed

lemma role_assign_confined:
  assumes conf: "confined c K B st" and k: "author_key env \<in> K" and a: "RoleAssign_authorize st m env = Allowed"
  shows "confined c K B (RoleAssign_project m env st)"
proof -
  have "within_mask (grant st c (rg_role m)) B" if "rg_community m = c"
  proof -
    from a obtain r where "map_of (roles st) (roleKey (rg_community m) (rg_role m)) = Some r"
      "rl_permission_mask r AND NOT (resolve_permissions (env_auth st env (rg_community m))) = 0"
      by (auto simp: RoleAssign_authorize_def Let_def split: option.splits if_splits)
    with member_grants_within [OF conf k, of "rl_permission_mask r"] that show ?thesis by (simp add: grant_def)
  qed
  moreover have "a \<in> snd ` set (role_assignments st) \<or> ra_community a = rg_community m \<and> ra_role a = rg_role m"
    if "a \<in> snd ` set (role_assignments (RoleAssign_project m env st))" for a
    using assign_role_rows that unfolding RoleAssign_project_def by blast
  ultimately have "within_mask (grant st c (ra_role a)) B"
    if "a \<in> snd ` set (role_assignments (RoleAssign_project m env st))" "ra_community a = c" "ra_subject_key a \<in> hex ` K" for a
    using that conf unfolding confined_def by metis
  with conf show ?thesis by (simp add: confined_def role_assign_effect plain_key_def grant_def)
qed

lemma role_revoke_confined:
  assumes "confined c K B st"
  shows "confined c K B (RoleRevoke_project m env st)"
proof -
  have gr: "grant (RoleRevoke_project m env st) c n = grant st c n" for n by (simp add: grant_def role_revoke_effect)
  have "within_mask (grant (RoleRevoke_project m env st) c (ra_role a)) B"
    if "a \<in> snd ` set (role_assignments (RoleRevoke_project m env st))" "ra_community a = c" "ra_subject_key a \<in> hex ` K" for a
    unfolding gr using that role_revoke_effect(5) [of m env st] by (intro confined_assigned [OF assms]) auto
  with assms show ?thesis by (simp add: confined_def role_revoke_effect plain_key_def gr)
qed

lemma rotation_confined:
  assumes conf: "confined c K B st" and k: "k \<in> K" and r: "r = hex rk"
  shows "confined c K B (inherit_standing (hex k) r st)"
proof -
  let ?st' = "inherit_standing (hex k) r st"
  have plain: "plain_key ?st' c k'" if "k' \<in> K" for k'
    using conf that k by (auto simp: confined_def plain_key_def inherit_standing_fields inherit_standing_standing)
  have single: "mod_rows_within c K B {(i, x)}" if "(i, x) \<in> set (memberships ?st')" for i x
  proof -
    from inherit_membership_rows that consider "(i, x) \<in> set (memberships st)"
      | y where "y \<in> set (find_docs (\<lambda>x. ms_member_key x = hex k) 100000 (memberships st))"
        "i = membershipKey (ms_community y) r" "x = y\<lparr>ms_id := i, ms_member_key := r\<rparr>"
      unfolding inherit_standing_memberships by blast
    then show ?thesis
    proof cases
      case 1
      with conf show ?thesis by (auto simp: confined_def mod_rows_within_def simp del: MembershipFlag.simps)
    next
      case 2
      with find_docs_sub obtain j where y: "(j, y) \<in> set (memberships st)" "ms_member_key y = hex k" by fastforce
      have "within_mask MODERATOR_PERMISSIONS B"
        if "ms_community y = c" "has_flag (ms_flags y) (MembershipFlag Ms_MODERATOR)"
        using conf y that k unfolding confined_def mod_rows_within_def by fast
      with 2 r show ?thesis by (auto simp: mod_rows_within_def simp del: MembershipFlag.simps)
    qed
  qed
  have rows: "mod_rows_within c K B (set (memberships ?st'))"
    unfolding mod_rows_within_def
  proof (rule ballI)
    fix p
    assume "p \<in> set (memberships ?st')"
    with single have "mod_rows_within c K B {p}" by (cases p) blast
    then show "case p of (i, x) \<Rightarrow> ((\<exists>k\<in>K. i = membershipKey c (hex k)) \<or> ms_community x = c \<and> ms_member_key x \<in> hex ` K)
        \<and> has_flag (ms_flags x) (MembershipFlag Ms_MODERATOR) \<longrightarrow> within_mask MODERATOR_PERMISSIONS B"
      unfolding mod_rows_within_def by (simp only: ball_simps simp_thms)
  qed
  have "within_mask (grant ?st' c (ra_role a)) B"
    if "a \<in> snd ` set (role_assignments ?st')" "ra_community a = c" "ra_subject_key a \<in> hex ` K" for a
  proof -
    have gr: "grant ?st' c n = grant st c n" for n by (simp add: grant_def inherit_standing_fields)
    from inherit_standing_assignments [OF that(1)] conf that(2,3) k show ?thesis
      unfolding gr confined_def by (metis imageI)
  qed
  with conf plain rows show ?thesis by (simp add: confined_def inherit_standing_fields grant_def)
qed

section \<open>The whole machine\<close>

definition coalition_event :: "forum_deps \<Rightarrow> bytes set \<Rightarrow> forum_event \<Rightarrow> bool" where
  "coalition_event d K e \<longleftrightarrow> author_key (ev_env e) \<in> K
     \<and> CHR '':'' \<notin> set (case ev_origin e of None \<Rightarrow> fd_server_id d | Some s \<Rightarrow> s)"

lemma confined_step:
  assumes conf: "confined c K B st" and ok: "coalition_event d K e" and acc: "forum_accepts d st e"
  shows "confined c K B (forum_effect d e st)"
proof (cases "moves_authority (ev_op e)")
  case False
  show ?thesis unfolding forum_effect_def by (rule confined_same_authority [OF conf quiet_operation [OF False]])
next
  case True
  let ?env = "ev_env e"
  from ok have k: "author_key ?env \<in> K" by (simp add: coalition_event_def)
  show ?thesis
  proof (cases "ev_op e")
    case (Op_community_create m)
    with accepted [OF acc] have "owner_of st (created_id d (ev_origin e) m) = None" "CommunityCreate_validate m ?env = Valid"
      by (simp_all add: CommunityCreate_authorize_def owner_of_def split: option.splits)
    with Op_community_create ok show ?thesis
      unfolding forum_effect_def by (simp add: create_confined [OF conf] coalition_event_def)
  next
    case (Op_revoke m)
    with accepted(2) [OF acc] have v: "KeyRevoke_validate d m ?env = Valid" by simp
    show ?thesis
    proof (cases "rotates (Op_revoke m) ?env")
      case None
      from confined_same_authority [OF conf revoke_effect(1) [OF v None]] Op_revoke show ?thesis by (simp add: forum_effect_def)
    next
      case (Some r)
      note eff = revoke_effect(2) [OF v Some, of st]
      from eff have "same_authority (inherit_standing (hex (author_key ?env)) r st) (KeyRevoke_project m ?env st)" "r = hex (rv_replacement_key m)"
        unfolding env_author_def by blast+
      with confined_same_authority [OF rotation_confined [OF conf k]] Op_revoke show ?thesis by (simp add: forum_effect_def)
    qed
  qed (use True accepted(1) [OF acc] in \<open>simp_all add: forum_effect_def join_confined [OF conf k] leave_confined [OF conf]
      mod_confined [OF conf] role_define_confined [OF conf k] role_assign_confined [OF conf k] role_revoke_confined [OF conf]\<close>)
qed

interpretation coalition: guarded_invariant "forum_accepts d" "forum_effect d" "coalition_event d K" "confined c K B"
  for d K c B
  by unfold_locales (rule confined_step)

text \<open>C8: Keys that act together never gain a permission in a community: whatever sequence of operations they
  publish - roles defined, redefined and assigned, moderation, communities of their own, rotations - the mask of
  each of them stays inside the bits that the roles and moderator flags they start with, the default roles and
  plain membership grant.\<close>

theorem coalition_cannot_escalate:
  assumes "confined c K B st" and "list_all (coalition_event d K) es" and "k \<in> K"
  shows "within_mask (resolve_permissions (load_auth_context (forum_run d es st) (hex k) (Some c) now_ms)) B"
  by (rule confined_resolves [OF coalition.run_keeps [OF assms(1,2), folded forum_run_eq] assms(3)])


text \<open>The state after the owner has founded the community.\<close>

definition founded :: forum_store where "founded = forum_effect demo_deps start_event empty_forum_store"

lemma founded_fields:
  "owner_of founded = [demo_c \<mapsto> hex key_o]" "standing founded k = (False, False, False)"
  "memberships founded = [(membershipKey demo_c (hex key_o), \<lparr>ms_id = membershipKey demo_c (hex key_o), ms_community = demo_c,
     ms_member_key = hex key_o, ms_flags = MembershipFlag Ms_MEMBER OR MembershipFlag Ms_MODERATOR, ms_joined_at_ms = 10,
     ms_restricted_until_ms = None, ms_restriction_reason = None\<rparr>)]"
  "roles founded = []" "role_assignments founded = []"
proof -
  have sel: "forum_effect demo_deps start_event empty_forum_store =
      CommunityCreate_project demo_deps None demo_create (ev_env start_event) empty_forum_store"
    "env_author (ev_env start_event) = hex key_o" "env_time (ev_env start_event) = 10"
    by (simp_all add: forum_effect_def start_event_def)
  show "owner_of founded = [demo_c \<mapsto> hex key_o]"
    unfolding founded_def sel create_effect by (simp add: sel fun_eq_iff owner_of_def empty_forum_store_def)
  show "standing founded k = (False, False, False)" unfolding founded_def sel create_effect by simp
  show "memberships founded = [(membershipKey demo_c (hex key_o), \<lparr>ms_id = membershipKey demo_c (hex key_o), ms_community = demo_c,
     ms_member_key = hex key_o, ms_flags = MembershipFlag Ms_MEMBER OR MembershipFlag Ms_MODERATOR, ms_joined_at_ms = 10,
     ms_restricted_until_ms = None, ms_restriction_reason = None\<rparr>)]"
    unfolding founded_def sel create_effect by (simp add: empty_forum_store_def)
  show "roles founded = []" "role_assignments founded = []"
    unfolding founded_def sel create_effect by (simp_all add: empty_forum_store_def)
qed

lemma founded_confined: "confined demo_c {key_a, key_b} DEFAULT_MEMBER_PERMISSIONS founded"
proof -
  have "CHR '':'' \<notin> set demo_c" "demo_c \<noteq> []" by (simp_all add: demo_c_def)
  then show ?thesis
    by (auto simp: confined_def founded_fields plain_key_def mod_rows_within_def hex_inj simp del: MembershipFlag.simps)
qed

theorem coalition_cannot_escalate_witness:
  "within_mask (resolve_permissions (load_auth_context
     (forum_run demo_deps
        [demo_event key_a [] 20 ''jb1a'' (Op_join \<lparr>mj_community = demo_c\<rparr>),
         demo_event key_a [] 21 ''jb1b'' (Op_role_define \<lparr>rd_community = demo_c, rd_name = ''boss'',
           rd_permission_mask = OWNER_PERMISSIONS, rd_is_default = True\<rparr>),
         demo_event key_b [] 22 ''jb1c'' (Op_join \<lparr>mj_community = demo_c\<rparr>)] founded)
     (hex key_b) (Some demo_c) 30)) DEFAULT_MEMBER_PERMISSIONS"
  by (rule coalition_cannot_escalate [OF founded_confined])
    (simp_all add: coalition_event_def demo_deps_def)

end
