(* ===== verification/JB_Breaches.thy ===== *)
theory JB_Breaches
  imports JB_Coalition
begin

unbundle bit_operations_syntax

text \<open>
  Where the forum's code breaks its own promises, each proved as a run of the machine: a moderation action is not
  tied to the community it names, a rotation overwrites the key it names, and a mute shares the expiry of a ban.
\<close>

section \<open>Membership rows\<close>

definition membership_row_ok :: "string \<times> membership_doc \<Rightarrow> bool" where
  "membership_row_ok = (\<lambda>(i, x). i = membershipKey (ms_community x) (ms_member_key x) \<and> CHR '':'' \<notin> set (ms_member_key x))"

definition rows_ok :: "membership_doc collection \<Rightarrow> bool" where
  "rows_ok m \<longleftrightarrow> distinct (map fst m) \<and> (\<forall>row\<in>set m. membership_row_ok row)"

definition membership_rows_ok :: "forum_store \<Rightarrow> bool" where
  "membership_rows_ok st \<longleftrightarrow> rows_ok (memberships st)"

lemma rows_ok_set [intro]:
  assumes "rows_ok m" and "membership_row_ok (i, x)"
  shows "rows_ok (al_set i x m)"
  using assms set_al_set_subset [of i x m] unfolding rows_ok_def by (auto simp: image_iff)

lemma row_ok_of: "rows_ok m \<Longrightarrow> map_of m i = Some x \<Longrightarrow> membership_row_ok (i, x)"
  unfolding rows_ok_def by (blast dest: map_of_SomeD)

lemma rows_ok_inherit:
  assumes "rows_ok (memberships st)" and "CHR '':'' \<notin> set r"
  shows "rows_ok (memberships (fold (inherit_membership r) docs st))"
  using assms(1)
proof (induction docs arbitrary: st)
  case (Cons y ys)
  have "rows_ok (memberships (inherit_membership r y st))"
    using Cons.prems assms(2) by (auto simp: inherit_membership_def Let_def membership_row_ok_def)
  then show ?case using Cons.IH by simp
qed simp

lemma rows_ok_step:
  assumes ok: "membership_rows_ok st" and acc: "forum_accepts d st e"
  shows "membership_rows_ok (forum_effect d e st)"
proof (cases "moves_authority (ev_op e)")
  case False
  from quiet_operation [OF False, of st d "ev_origin e" "ev_env e"] ok show ?thesis
    by (simp add: forum_effect_def same_authority_def membership_rows_ok_def)
next
  case True
  let ?env = "ev_env e"
  from ok have ok': "rows_ok (memberships st)" by (simp add: membership_rows_ok_def)
  show ?thesis
  proof (cases "ev_op e")
    case (Op_community_create m)
    with ok' show ?thesis
      by (auto simp: forum_effect_def membership_rows_ok_def create_effect membership_row_ok_def env_author_def hex_no_colon
          simp del: MembershipFlag.simps)
  next
    case (Op_join m)
    with ok' show ?thesis
      by (auto simp: forum_effect_def membership_rows_ok_def join_effect membership_row_ok_def joined_doc_def env_author_def hex_no_colon
          simp del: MembershipFlag.simps)
  next
    case (Op_leave m)
    with ok' row_ok_of [OF ok'] show ?thesis
      by (auto simp: forum_effect_def membership_rows_ok_def leave_effect Let_def membership_row_ok_def simp del: MembershipFlag.simps
          split: option.split)
  next
    case (Op_mod m)
    let ?i = "membershipKey (env_scope ?env) (ma_target m)"
    have "membership_row_ok (?i, x)"
      if v: "verb_in (ma_verb m) MEMBER_VERBS" and x: "member_patch m (verb_of (ma_verb m)) (mod_row m ?env st) = Some x" for x
    proof -
      from accepted_mod [OF acc Op_mod] v have "HEX_KEY_PATTERN (ma_target m)" by metis
      then have "membership_row_ok (?i, mod_row m ?env st)"
        using row_ok_of [OF ok', of ?i] by (auto simp: mod_row_def Let_def membership_row_ok_def HEX_KEY_is_hex_free split: option.splits)
      then show ?thesis using x
        by (cases "(m, verb_of (ma_verb m), mod_row m ?env st)" rule: member_patch.cases)
          (auto simp: membership_row_ok_def simp del: MembershipFlag.simps)
    qed
    with Op_mod ok' show ?thesis
      by (auto simp: forum_effect_def membership_rows_ok_def mod_effect split: option.split)
  next
    case (Op_revoke m)
    with accepted(2) [OF acc] have v: "KeyRevoke_validate d m ?env = Valid" by simp
    show ?thesis
    proof (cases "rotates (Op_revoke m) ?env")
      case None
      from revoke_effect(1) [OF v None, of st] ok Op_revoke show ?thesis
        by (simp add: same_authority_def membership_rows_ok_def forum_effect_def)
    next
      case (Some r)
      note eff = revoke_effect(2) [OF v Some, of st]
      then have "CHR '':'' \<notin> set r" by (auto simp: hex_no_colon)
      from rows_ok_inherit [OF ok' this] have "membership_rows_ok (inherit_standing (env_author ?env) r st)"
        by (simp add: membership_rows_ok_def inherit_standing_memberships)
      with eff Op_revoke show ?thesis by (simp add: same_authority_def membership_rows_ok_def forum_effect_def)
    qed
  qed (use True ok in \<open>simp_all add: forum_effect_def membership_rows_ok_def role_define_effect role_assign_effect role_revoke_effect\<close>)
qed

interpretation rows_kept: guarded_invariant "forum_accepts d" "forum_effect d" "\<lambda>_. True" membership_rows_ok
  for d
  by unfold_locales (rule rows_ok_step)

lemma reachable_rows_ok: "membership_rows_ok (forum_run d es empty_forum_store)"
  unfolding forum_run_eq
  by (rule rows_kept.run_keeps) (simp_all add: membership_rows_ok_def rows_ok_def empty_forum_store_def list_all_iff)


section \<open>A rotation overwrites the key it names\<close>

lemma inherit_membership_wins:
  assumes "x \<in> set docs" and "\<And>y. y \<in> set docs \<Longrightarrow> ms_community y = c \<Longrightarrow> y = x" and "ms_community x = c"
  shows "map_of (memberships (fold (inherit_membership (hex k)) docs st)) (membershipKey c (hex k)) =
    Some (x\<lparr>ms_id := membershipKey c (hex k), ms_member_key := hex k\<rparr>)"
  using assms
proof (induction docs rule: rev_induct)
  case (snoc y ys)
  have one: "map_of (memberships (inherit_membership (hex k) y s)) (membershipKey c (hex k)) =
    (if ms_community y = c then Some (y\<lparr>ms_id := membershipKey c (hex k), ms_member_key := hex k\<rparr>)
     else map_of (memberships s) (membershipKey c (hex k)))" for s
    by (auto simp: inherit_membership_def Let_def)
  show ?case
  proof (cases "ms_community y = c")
    case True
    with snoc.prems(2) [of y] have "y = x" by simp
    with True one show ?thesis by simp
  next
    case False
    with snoc.prems(1,3) have "x \<in> set ys" by auto
    from snoc.IH [OF this snoc.prems(2) snoc.prems(3)]
    have "map_of (memberships (fold (inherit_membership (hex k)) ys st)) (membershipKey c (hex k)) =
      Some (x\<lparr>ms_id := membershipKey c (hex k), ms_member_key := hex k\<rparr>)" by simp
    with False one show ?thesis by simp
  qed
qed simp

lemma row_of_member:
  assumes "rows_ok m" and "y \<in> snd ` set m" and "ms_member_key y = hex a" and "ms_community y = c"
  shows "map_of m (membershipKey c (hex a)) = Some y"
proof -
  from assms(2) obtain i where i: "(i, y) \<in> set m" by auto
  with assms have "i = membershipKey c (hex a)" unfolding rows_ok_def membership_row_ok_def by fastforce
  with i assms(1) show ?thesis by (simp add: rows_ok_def)
qed

lemma banned_resolves_nothing:
  assumes "map_of (memberships st) (membershipKey c k) = Some x" and "has_flag (ms_flags x) (MembershipFlag Ms_BANNED)"
    and "ms_restricted_until_ms x = None" and "\<not> fst (snd (standing st k))" and "c \<noteq> []"
  shows "resolve_permissions (load_auth_context st k (Some c) t) = 0"
proof -
  let ?x = "load_auth_context st k (Some c) t"
  from assms(1,5) have sel: "ax_membership ?x = Some x" "ax_community ?x = Some c" "ax_identity ?x = map_of (identities st) k"
    by (simp_all add: load_auth_context_def)
  then have "membership_flags ?x = ms_flags x" "restriction_active ?x" "\<not> has_flag (identity_flags ?x) (IdentityFlag Id_GLOBAL_ADMIN)"
    using assms(3,4) by (auto simp: membership_flags_def restriction_active_def identity_flags_def standing_def Let_def
        simp del: IdentityFlag.simps split: option.splits)
  with assms(2,5) sel show ?thesis
    unfolding resolve_permissions_def by (simp del: MembershipFlag.simps IdentityFlag.simps)
qed

definition rotation_to :: "bytes \<Rightarrow> bytes \<Rightarrow> key_revocation_msg" where
  "rotation_to a k = \<lparr>rv_plane = plane_by_name FORUM, rv_revoked_key = a, rv_kind = RevocationKind R_ROTATE, rv_effective_from_ms = 0,
     rv_replacement_key = k, rv_authorization_signature = []\<rparr>"

lemma rotation_accepted:
  assumes "ev_op e = Op_revoke (rotation_to a k)" and "author_key (ev_env e) = a" and "length a = 32" and "length k = 32"
  shows "forum_accepts d st e"
  using assms by (simp add: forum_accepts_def KeyRevoke_authorize_def KeyRevoke_validate_def rotation_to_def)

text \<open>C27: A key that is banned from a community for good can pass its ban to any key it names, the owner's included:
  it publishes a rotation onto that key, which nobody has to agree to, and from then on the named key - whatever it
  held - resolves to no permission at all. So \<open>owner_keeps_control\<close> really needs its condition on rotations.\<close>

theorem rotation_passes_a_ban_to_any_key:
  assumes reached: "st = forum_run d es empty_forum_store" and few: "length (memberships st) \<le> 100000"
    and ban: "map_of (memberships st) (membershipKey c (hex a)) = Some x" "has_flag (ms_flags x) (MembershipFlag Ms_BANNED)"
      "ms_restricted_until_ms x = None"
    and plain: "standing st (hex a) = (False, False, False)" "standing st (hex k) = (False, False, False)" and c: "c \<noteq> []"
    and e: "ev_op e = Op_revoke (rotation_to a k)" "author_key (ev_env e) = a" "length a = 32" "length k = 32"
  shows "forum_accepts d st e
    \<and> resolve_permissions (load_auth_context (forum_step d st e) (hex k) (Some c) now_ms) = 0"
proof -
  from rotation_accepted [OF e] have acc: "forum_accepts d st e" .
  from reached reachable_rows_ok have ok: "rows_ok (memberships st)" by (simp add: membership_rows_ok_def)
  from row_ok_of [OF ok ban(1)] have "membershipKey (ms_community x) (ms_member_key x) = membershipKey c (hex a)"
    "CHR '':'' \<notin> set (ms_member_key x)" by (simp_all add: membership_row_ok_def)
  then have x: "ms_community x = c" "ms_member_key x = hex a"
    unfolding membershipKey_def by (simp_all add: last_delimited hex_no_colon)
  let ?docs = "find_docs (\<lambda>y. ms_member_key y = hex a) 100000 (memberships st)"
  have "length (filter (\<lambda>y. ms_member_key y = hex a) (map snd (memberships st))) \<le> 100000"
    by (rule order_trans [OF length_filter_le]) (use few in simp)
  then have docs: "set ?docs = {y \<in> snd ` set (memberships st). ms_member_key y = hex a}" by (auto simp: find_docs_def)
  have "x \<in> set ?docs" using map_of_SomeD [OF ban(1)] x unfolding docs by force
  moreover have "y = x" if "y \<in> set ?docs" "ms_community y = c" for y
    using row_of_member [OF ok, of y a c] that ban(1) unfolding docs by simp
  ultimately have row: "map_of (memberships (inherit_standing (hex a) (hex k) st)) (membershipKey c (hex k)) =
      Some (x\<lparr>ms_id := membershipKey c (hex k), ms_member_key := hex k\<rparr>)"
    unfolding inherit_standing_memberships by (intro inherit_membership_wins x(1))
  from acc e(1) have v: "KeyRevoke_validate d (rotation_to a k) (ev_env e) = Valid" by (simp add: forum_accepts_def)
  have "rotates (Op_revoke (rotation_to a k)) (ev_env e) = Some (hex k)" by (simp add: rotates_def rotation_to_def)
  from conjunct2 [OF conjunct2 [OF conjunct2 [OF revoke_effect(2) [OF v this, of st]]]] e(2)
  have same: "same_authority (inherit_standing (hex a) (hex k) st) (KeyRevoke_project (rotation_to a k) (ev_env e) st)"
    unfolding env_author_def by simp
  have "standing (inherit_standing (hex a) (hex k) st) (hex k) = (False, False, False)"
    using plain by (simp add: inherit_standing_standing)
  with banned_resolves_nothing [OF row _ _ _ c] ban(2,3)
  have "resolve_permissions (load_auth_context (inherit_standing (hex a) (hex k) st) (hex k) (Some c) now_ms) = 0" by simp
  with acc e(1) show ?thesis
    by (simp add: forum_step_def resolve_same_authority [OF same])
qed


section \<open>The scenario with a ban\<close>

lemma hex_is_key: "length k = 32 \<Longrightarrow> HEX_KEY_PATTERN (hex k)"
proof -
  assume len: "length k = 32"
  have digit: "in_range (CHR ''0'') (CHR ''9'') (hex_digit n) \<or> in_range (CHR ''a'') (CHR ''f'') (hex_digit n)" if "n < 16" for n
    using of_char_hex_digit [OF that] that by (simp add: in_range_def split: if_splits)
  have m: "unat (b :: byte) mod 16 < 16" for b by simp
  have "list_all (\<lambda>c. in_range (CHR ''0'') (CHR ''9'') c \<or> in_range (CHR ''a'') (CHR ''f'') c) (hex k)"
    by (auto simp: hex_def hex_byte_def list_all_iff intro!: digit m unat_byte_div16 simp del: unat_byte_div16)
  with len show ?thesis by (simp add: HEX_KEY_PATTERN_def matches_class_def)
qed

text \<open>An owner may ban or mute any other key.\<close>

definition member_action :: "int \<Rightarrow> bytes \<Rightarrow> int \<Rightarrow> mod_action_msg" where
  "member_action verb k expires = \<lparr>ma_verb = verb, ma_target = hex k, ma_target_kind = 0, ma_reason = [], ma_expires_at_ms = expires\<rparr>"

lemma owner_moderates:
  assumes safe: "owner_safe c ow st" and e: "ev_op e = Op_mod (member_action verb k expires)" "author_key (ev_env e) = ow" "env_scope (ev_env e) = c"
    and verb: "verb \<in> {12, 13, 14, 15, 16}" and k: "k \<noteq> ow" "length k = 32" and c: "c \<noteq> []"
    and expires: "expires = 0 \<or> js_number expires > env_time (ev_env e)"
  shows "forum_accepts d st e"
proof -
  let ?m = "member_action verb k expires"
  from safe obtain cd where cd: "map_of (communities st) c = Some cd" "cm_owner_key cd = hex ow"
    by (auto simp: owner_safe_def owner_of_def)
  from verb obtain p where p: "Option.bind (verb_of verb) VERB_PERMISSION = Some p" "verb_in verb MEMBER_VERBS" "verb_name verb \<noteq> None"
    by (auto simp: verb_of_def verb_name_def verb_in_def mod_verbs_def MEMBER_VERBS_def)
  have "can (load_auth_context st (hex ow) (Some c) t) q" for t q
    unfolding can_iff owner_safe_resolves [OF safe c] by (rule permission_in_owner)
  moreover have "ax_community_doc (load_auth_context st (hex ow) (Some c) t) = Some cd" for t
    using cd c by (simp add: load_auth_context_def)
  ultimately have "ModAction_authorize st ?m (ev_env e) = Allowed"
    using p cd e k by (simp add: ModAction_authorize_def required_permission_def member_action_def env_auth_def env_author_def Let_def hex_inj)
  moreover have "hex k \<noteq> []" using length_hex [of k] k(2) by (metis length_0_conv mult_eq_0_iff zero_neq_numeral)
  then have "ModAction_validate ?m (ev_env e) = Valid"
    using p e k verb expires c hex_is_key [OF k(2)]
    by (auto simp: ModAction_validate_def member_action_def code_point_count_def TARGET_KIND_UNSPECIFIED_def)
  ultimately show ?thesis using e by (simp add: forum_accepts_def)
qed

lemma founded_communities:
  "communities founded = [(demo_c, created_doc demo_deps None demo_create (ev_env start_event))]"
  by (simp add: founded_def forum_effect_def start_event_def CommunityCreate_project_def Let_def empty_forum_store_def)

lemma founded_safe: "owner_safe demo_c key_o founded"
  using create_owner_safe [OF start_accepted, of demo_create key_o] by (simp add: founded_def start_event_def)

definition join_a :: forum_event where "join_a = demo_event key_a [] 20 ''jb1join'' (Op_join \<lparr>mj_community = demo_c\<rparr>)"
definition ban_a :: forum_event where "ban_a = demo_event key_o demo_c 30 ''jb1ban'' (Op_mod (member_action 12 key_a 0))"

lemma demo_c_nonempty [simp]: "demo_c \<noteq> []" by (simp add: demo_c_def)

lemma join_a_accepted: "forum_accepts demo_deps founded join_a"
  by (simp add: join_a_def forum_accepts_def MembershipJoin_authorize_def founded_communities created_doc_def founded_fields
      Membership_validate_def del: demo_c_nonempty) simp

definition with_a :: forum_store where "with_a = forum_step demo_deps founded join_a"
definition banned_a :: forum_store where "banned_a = forum_step demo_deps with_a ban_a"

lemma with_a_safe: "owner_safe demo_c key_o with_a"
  unfolding with_a_def forum_step_def
  using owner_safe_step [OF founded_safe _ join_a_accepted] join_a_accepted
  by (simp add: forum_effect_def rotates_onto_def rotates_def join_a_def)

lemma ban_a_accepted: "forum_accepts demo_deps with_a ban_a"
  by (rule owner_moderates [OF with_a_safe, where verb = 12 and k = key_a and expires = 0]) (simp_all add: ban_a_def)

lemma with_a_memberships: "memberships with_a = al_set (membershipKey demo_c (hex key_a))
    (joined_doc demo_c (hex key_a) 20 None) (memberships founded)"
  using join_a_accepted by (simp add: with_a_def forum_step_def join_a_def join_effect founded_fields)

lemma banned_a_row:
  "map_of (memberships banned_a) (membershipKey demo_c (hex key_a)) = Some ((joined_doc demo_c (hex key_a) 20 None)\<lparr>
     ms_flags := clear_flag (set_flag (ms_flags (joined_doc demo_c (hex key_a) 20 None)) (MembershipFlag Ms_BANNED)) (MembershipFlag Ms_MEMBER),
     ms_restricted_until_ms := None, ms_restriction_reason := None\<rparr>)"
  using ban_a_accepted
  by (simp add: banned_a_def forum_step_def ban_a_def mod_effect member_action_def verb_in_def verb_of_def mod_verbs_def MEMBER_VERBS_def
      mod_row_def with_a_memberships expiry_of_def text_or_null_def del: MembershipFlag.simps)

lemma banned_a_length: "length (memberships banned_a) \<le> 100000"
proof -
  have len: "length (al_set k v m) \<le> Suc (length m)" for k and v :: membership_doc and m
    by (induction k v m rule: al_set.induct) auto
  have "length (memberships with_a) \<le> 2" unfolding with_a_memberships using len [of _ _ "memberships founded"] by (simp add: founded_fields)
  moreover have "length (memberships banned_a) \<le> Suc (length (memberships with_a))"
    using ban_a_accepted len by (auto simp: banned_a_def forum_step_def ban_a_def mod_effect split: option.split)
  ultimately show ?thesis by simp
qed

lemma banned_a_standing: "standing banned_a k = (False, False, False)"
proof -
  have "standing with_a = standing founded" using join_a_accepted by (simp add: with_a_def forum_step_def join_a_def join_effect)
  moreover have "standing banned_a = standing with_a" using ban_a_accepted by (simp add: banned_a_def forum_step_def ban_a_def mod_effect)
  ultimately show ?thesis by (simp add: founded_fields)
qed

lemma banned_a_reached: "banned_a = forum_run demo_deps [start_event, join_a, ban_a] empty_forum_store"
  using start_accepted by (simp add: banned_a_def with_a_def founded_def forum_step_def forum_effect_def)


theorem rotation_passes_a_ban_to_any_key_witness:
  "forum_accepts demo_deps banned_a (demo_event key_a [] 40 ''jb1rot'' (Op_revoke (rotation_to key_a key_o)))
   \<and> resolve_permissions (load_auth_context
        (forum_step demo_deps banned_a (demo_event key_a [] 40 ''jb1rot'' (Op_revoke (rotation_to key_a key_o))))
        (hex key_o) (Some demo_c) 50) = 0"
  by (rule rotation_passes_a_ban_to_any_key [OF banned_a_reached banned_a_length banned_a_row])
    (simp_all add: banned_a_standing del: MembershipFlag.simps)

section \<open>A moderation action is not tied to its community\<close>

definition removal :: "string \<Rightarrow> mod_action_msg" where
  "removal target = \<lparr>ma_verb = 2, ma_target = target, ma_target_kind = 0, ma_reason = [], ma_expires_at_ms = 0\<rparr>"

lemma removal_effect:
  assumes "map_of (posts st) target = Some p"
  shows "map_of (posts (ModAction_project d (removal target) env st)) target =
    Some (p\<lparr>po_removed := True, po_removed_reason := Some ''removed by a moderator''\<rparr>)"
  unfolding ModAction_field [of posts, OF notification_frame(5)]
  using assms by (simp add: removal_def verb_in_def verb_of_def mod_verbs_def MEMBER_VERBS_def apply_content_verb_def or_else_def
      TARGET_KIND_COMMENT_def)

lemma owner_removes:
  assumes safe: "owner_safe c ow st" and c: "c \<noteq> []" and e: "ev_op e = Op_mod (removal target)" "author_key (ev_env e) = ow" "env_scope (ev_env e) = c"
    and post: "map_of (posts st) target = Some p" "is_content_id target"
  shows "forum_accepts d st e"
proof -
  from safe obtain cd where cd: "map_of (communities st) c = Some cd" by (auto simp: owner_safe_def owner_of_def)
  have "can (load_auth_context st (hex ow) (Some c) t) q" for t q
    unfolding can_iff owner_safe_resolves [OF safe c] by (rule permission_in_owner)
  moreover have "ax_community_doc (load_auth_context st (hex ow) (Some c) t) = Some cd" for t
    using cd c by (simp add: load_auth_context_def)
  ultimately have "ModAction_authorize st (removal target) (ev_env e) = Allowed"
    using e post by (simp add: ModAction_authorize_def required_permission_def removal_def env_auth_def env_author_def Let_def
        verb_in_def verb_of_def mod_verbs_def MEMBER_VERBS_def POST_ONLY_VERBS_def COMMENT_ONLY_VERBS_def content_target_kind_def
        TARGET_KIND_UNSPECIFIED_def TARGET_KIND_POST_def TARGET_KIND_COMMENT_def)
  moreover have "target \<noteq> []" using post(2) by (auto simp: is_content_id_def starts_with_def)
  then have "ModAction_validate (removal target) (ev_env e) = Valid"
    using e post(2) c by (simp add: ModAction_validate_def removal_def verb_name_def verb_in_def verb_of_def mod_verbs_def MEMBER_VERBS_def
        code_point_count_def is_content_id_def TARGET_KIND_IDENTITY_def)
  ultimately show ?thesis using e by (simp add: forum_accepts_def)
qed

lemma removal_heads:
  assumes "c \<noteq> env_scope env"
  shows "map_of (mod_heads (ModAction_project d m env st)) c = map_of (mod_heads st) c"
  unfolding ModAction_field [of mod_heads, OF notification_frame(9)]
  using assms by (simp add: append_to_chain_def Let_def)

lemma create_posts:
  "posts (CommunityCreate_project d origin m env st) = posts st"
  "mod_heads (CommunityCreate_project d origin m env st) = mod_heads st"
  by (simp_all add: CommunityCreate_project_def Let_def)

text \<open>C26: The handler of moderation actions checks the actor's permission in the community its envelope names and
  that the target exists, never that the target belongs to that community. So any key can remove any post of the
  node: it founds a community of its own and, as its owner, removes the post of another community, which loses its
  body from view while the public log of that community does not move.\<close>

theorem any_key_can_remove_any_post:
  assumes e1: "forum_accepts d st e1" "ev_op e1 = Op_community_create m" "author_key (ev_env e1) = k"
    and plain: "standing st (hex k) = (False, False, False)"
    and e2: "ev_op e2 = Op_mod (removal target)" "author_key (ev_env e2) = k" "env_scope (ev_env e2) = created_id d (ev_origin e1) m"
    and post: "map_of (posts st) target = Some p" "is_content_id target" "po_community p \<noteq> created_id d (ev_origin e1) m"
  shows "forum_accepts d (forum_step d st e1) e2
    \<and> map_option po_removed (map_of (posts (forum_run d [e1, e2] st)) target) = Some True
    \<and> map_of (mod_heads (forum_run d [e1, e2] st)) (po_community p) = map_of (mod_heads st) (po_community p)"
proof -
  let ?c = "created_id d (ev_origin e1) m" and ?s1 = "forum_step d st e1"
  have s1: "?s1 = forum_effect d e1 st" using e1(1) by (simp add: forum_step_def forum_effect_def)
  have safe: "owner_safe ?c k ?s1" unfolding s1 by (rule create_owner_safe [OF e1 plain])
  have p1: "map_of (posts ?s1) target = Some p"
    using post(1) e1(2) by (simp add: s1 forum_effect_def create_posts)
  have acc: "forum_accepts d ?s1 e2"
    by (rule owner_removes [OF safe _ e2 p1 post(2)]) (simp add: created_id_def community_id_def)
  then have run: "forum_run d [e1, e2] st = ModAction_project d (removal target) (ev_env e2) ?s1"
    using e2(1) by (simp add: forum_step_def [of d ?s1])
  with removal_effect [OF p1] have "map_option po_removed (map_of (posts (forum_run d [e1, e2] st)) target) = Some True" by simp
  moreover have "map_of (mod_heads (forum_run d [e1, e2] st)) (po_community p) = map_of (mod_heads ?s1) (po_community p)"
    using run removal_heads [of "po_community p" "ev_env e2"] post(3) e2(3) by simp
  moreover have "mod_heads ?s1 = mod_heads st" using e1(2) by (simp add: s1 forum_effect_def create_posts)
  ultimately show ?thesis using acc by simp
qed


definition other_create :: community_create_msg where "other_create = demo_create\<lparr>cc_name := ''xyz''\<rparr>"

definition demo_post :: post_doc where
  "demo_post = created_post \<lparr>pc_title = ''t'', pc_kind = 1, pc_body_markdown = ''b'', pc_url = [], pc_attachments = [], pc_poll = None,
     pc_crosspost_of = [], pc_flair = [], pc_flags = None\<rparr> (demo_env key_o demo_c 15 ''jb1post'')"

definition with_post :: forum_store where "with_post = founded\<lparr>posts := [(''jb1post'', demo_post)]\<rparr>"

definition found_other :: forum_event where "found_other = demo_event key_a [] 20 ''jb1xyz'' (Op_community_create other_create)"

lemma found_other_accepted: "forum_accepts demo_deps with_post found_other"
  by (simp add: found_other_def forum_accepts_def CommunityCreate_authorize_def with_post_def founded_communities created_id_def
      community_id_def other_create_def demo_create_def demo_c_def
      CommunityCreate_validate_def COMMUNITY_NAME_PATTERN_def matches_class_def lower_alnum_def in_range_def
      validate_metadata_def code_point_count_def)

lemma demo_post_community: "po_community demo_post = demo_c"
  by (simp add: demo_post_def created_post_def demo_env_def)

theorem any_key_can_remove_any_post_witness:
  "map_option po_removed (map_of (posts (forum_run demo_deps [found_other,
       demo_event key_a (created_id demo_deps None other_create) 30 ''jb1rem'' (Op_mod (removal ''jb1post''))] with_post)) ''jb1post'') = Some True"
proof -
  have "standing with_post (hex key_a) = (False, False, False)"
    using founded_fields(2) [of "hex key_a"] by (simp add: with_post_def standing_def)
  then show ?thesis
    using any_key_can_remove_any_post [of demo_deps with_post found_other other_create key_a
        "demo_event key_a (created_id demo_deps None other_create) 30 ''jb1rem'' (Op_mod (removal ''jb1post''))" "''jb1post''" demo_post]
      found_other_accepted
    by (simp add: found_other_def with_post_def demo_post_community is_content_id_def starts_with_def created_id_def community_id_def
        other_create_def demo_create_def demo_c_def)
qed

section \<open>A mute shares the expiry of a ban\<close>

text \<open>A ban without an end is lifted by muting the banned key: the mute overwrites the one expiry the row has, and
  when the mute has passed the key may join again, which it could not before, without anyone having lifted the ban.\<close>

theorem mute_lifts_a_ban:
  assumes mute: "forum_accepts d st e1" "ev_op e1 = Op_mod (member_action 14 k expires)" "env_scope (ev_env e1) = c" "expires \<noteq> 0"
    and ban: "map_of (memberships st) (membershipKey c (hex k)) = Some x" "has_flag (ms_flags x) (MembershipFlag Ms_BANNED)"
      "ms_restricted_until_ms x = None"
    and home: "map_of (communities st) c = Some cd" "\<not> cm_archived cd" "c \<noteq> []"
    and join: "ev_op e2 = Op_join \<lparr>mj_community = c\<rparr>" "author_key (ev_env e2) = k" "env_time (ev_env e2) \<ge> js_number expires"
  shows "\<not> forum_accepts d st e2 \<and> forum_accepts d (forum_step d st e1) e2"
proof -
  let ?m = "member_action 14 k expires" and ?s = "forum_step d st e1"
  have s: "?s = ModAction_project d ?m (ev_env e1) st" using mute by (simp add: forum_step_def)
  have target: "ma_target ?m = hex k" by (simp add: member_action_def)
  have row: "map_of (memberships ?s) (membershipKey c (hex k)) = Some (x\<lparr>ms_flags := set_flag (ms_flags x) (MembershipFlag Ms_MUTED),
      ms_restricted_until_ms := Some (js_number expires), ms_restriction_reason := None\<rparr>)"
    using mute(3,4) ban(1) unfolding s mod_effect
    by (simp add: member_action_def verb_in_def verb_of_def mod_verbs_def MEMBER_VERBS_def mod_row_def expiry_of_def text_or_null_def
        del: MembershipFlag.simps)
  have "communities ?s = communities st"
    unfolding s by (simp add: ModAction_field [of communities])
  with home(1) have cd: "map_of (communities ?s) c = Some cd" by simp
  have no: "\<not> forum_accepts d st e2"
    using ban home join by (simp add: forum_accepts_def MembershipJoin_authorize_def env_author_def still_restricted_def del: MembershipFlag.simps)
  have "forum_accepts d ?s e2"
    using row cd home(2,3) join by (simp add: forum_accepts_def MembershipJoin_authorize_def env_author_def still_restricted_def
        Membership_validate_def del: MembershipFlag.simps)
  with no show ?thesis ..
qed

lemma banned_a_communities: "map_of (communities banned_a) demo_c = Some ((created_doc demo_deps None demo_create (ev_env start_event))\<lparr>
    cm_member_count := max 0 (1 + 1)\<rparr>)"
proof -
  have "communities banned_a = communities with_a"
    using ban_a_accepted by (simp add: banned_a_def forum_step_def ban_a_def ModAction_field [of communities])
  moreover have "communities with_a = al_set demo_c ((created_doc demo_deps None demo_create (ev_env start_event))\<lparr>cm_member_count := max 0 (1 + 1)\<rparr>) (communities founded)"
  proof -
    have none: "map_of (memberships founded) (membershipKey demo_c (hex key_a)) = None" by (simp add: founded_fields)
    have keep: "communities (fold (\<lambda>r. assign_role c k t (g r)) xs s) = communities s" for c k t g xs s
      by (rule fold_frame) simp
    show ?thesis
      using join_a_accepted
      by (simp add: with_a_def forum_step_def join_a_def MembershipJoin_project_def Let_def none keep bump_member_count_def founded_communities)
        (simp add: created_doc_def)
  qed
  ultimately show ?thesis by simp
qed

definition mute_a :: forum_event where "mute_a = demo_event key_o demo_c 40 ''jb1mute'' (Op_mod (member_action 14 key_a 100))"

theorem mute_lifts_a_ban_witness:
  "\<not> forum_accepts demo_deps banned_a (demo_event key_a [] 200 ''jb1back'' (Op_join \<lparr>mj_community = demo_c\<rparr>))
   \<and> forum_accepts demo_deps (forum_step demo_deps banned_a mute_a)
       (demo_event key_a [] 200 ''jb1back'' (Op_join \<lparr>mj_community = demo_c\<rparr>))"
proof (rule mute_lifts_a_ban [where expires = 100, OF _ _ _ _ banned_a_row _ _ banned_a_communities])
  have "owner_safe demo_c key_o banned_a"
    unfolding banned_a_def forum_step_def using owner_safe_step [OF with_a_safe _ ban_a_accepted] ban_a_accepted
    by (simp add: forum_effect_def rotates_onto_def rotates_def ban_a_def)
  then show "forum_accepts demo_deps banned_a mute_a"
    by (rule owner_moderates [where verb = 14 and k = key_a and expires = 100]) (simp_all add: mute_a_def)
qed (simp_all add: mute_a_def created_doc_def del: MembershipFlag.simps)

end
