(* ===== verification/JB_Logs.thy ===== *)
theory JB_Logs
  imports JB_Breaches
begin

text \<open>
  The two public logs as evidence: along every run the log of a community verifies and its head row is the last
  hash of it, and a log that verifies to the same head commits to the same history (\<open>moderation.projection.ts\<close>,
  \<open>community-audit.projection.ts\<close>).
\<close>

section \<open>Links\<close>

lemma digits_no_NUL: "NUL \<notin> set (digits_of n)"
proof
  assume "NUL \<in> set (digits_of n)"
  from digits_of_range [OF this] show False by (simp add: NUL_def)
qed

lemma int_no_NUL: "NUL \<notin> set (js_string_of_int z)"
proof -
  have "NUL \<noteq> CHR ''-''"
  proof
    assume "NUL = CHR ''-''"
    then have "(of_char NUL :: nat) = of_char (CHR ''-'')" by simp
    then show False by (simp add: NUL_def)
  qed
  with digits_no_NUL show ?thesis by (auto simp: js_string_of_int_def)
qed

lemma hex_empty [simp]: "hex bs = [] \<longleftrightarrow> bs = []"
  by (cases bs) (simp_all add: hex_def hex_byte_def)

definition plain :: "string \<Rightarrow> bool" where "plain s \<longleftrightarrow> NUL \<notin> set s"

lemma mod_material_eq:
  assumes "mod_material p i v t a m = mod_material p' i' v' t' a' m'"
    and "plain p" "plain i" "plain t" "plain a" "plain p'" "plain i'" "plain t'" "plain a'"
  shows "p = p' \<and> i = i' \<and> v = v' \<and> t = t' \<and> a = a' \<and> m = m'"
proof -
  note J = join_nul_head [where ps = "_ # _" and qs = "_ # _", OF _ list.distinct(2) list.distinct(2)]
  note n = assms(2-) [unfolded plain_def]
  from assms(1) have e1: "join_nul [p, i, js_string_of_int v, t, a, js_string_of_int m] = join_nul [p', i', js_string_of_int v', t', a', js_string_of_int m']"
    by (simp add: mod_material_def)
  from J(2) [OF e1 n(1) n(5)] J(1) [OF e1 n(1) n(5)]
  have e2: "join_nul [i, js_string_of_int v, t, a, js_string_of_int m] = join_nul [i', js_string_of_int v', t', a', js_string_of_int m']" "p = p'" by blast+
  from J(2) [OF e2(1) n(2) n(6)] J(1) [OF e2(1) n(2) n(6)]
  have e3: "join_nul [js_string_of_int v, t, a, js_string_of_int m] = join_nul [js_string_of_int v', t', a', js_string_of_int m']" "i = i'" by blast+
  from J(2) [OF e3(1) int_no_NUL int_no_NUL] J(1) [OF e3(1) int_no_NUL int_no_NUL]
  have e4: "join_nul [t, a, js_string_of_int m] = join_nul [t', a', js_string_of_int m']" "js_string_of_int v = js_string_of_int v'" by blast+
  from J(2) [OF e4(1) n(3) n(7)] J(1) [OF e4(1) n(3) n(7)]
  have e5: "join_nul [a, js_string_of_int m] = join_nul [a', js_string_of_int m']" "t = t'" by blast+
  from J(2) [OF e5(1) n(4) n(8)] J(1) [OF e5(1) n(4) n(8)]
  have "js_string_of_int m = js_string_of_int m'" "a = a'" by simp_all
  with e2 e3 e4 e5 show ?thesis by (auto dest: js_string_of_int_inj)
qed

text \<open>What a row of the mod log commits to.\<close>

definition same_action :: "mod_event_doc \<Rightarrow> mod_event_doc \<Rightarrow> bool" where
  "same_action e f \<longleftrightarrow> me_id e = me_id f \<and> me_verb e = me_verb f \<and> me_target e = me_target f
     \<and> me_actor_key e = me_actor_key f \<and> me_created_at_ms e = me_created_at_ms f"

definition plain_action :: "mod_event_doc \<Rightarrow> bool" where
  "plain_action e \<longleftrightarrow> plain (me_previous_hash e) \<and> plain (me_id e) \<and> plain (me_target e) \<and> plain (me_actor_key e)"

definition action_bytes :: "mod_event_doc \<Rightarrow> bytes" where
  "action_bytes e = text_encode (mod_material (me_previous_hash e) (me_id e) (me_verb e) (me_target e) (me_actor_key e) (me_created_at_ms e))"

lemma mod_chains_agree:
  assumes "mod_verify_from sha 0 [] es = None" and "mod_verify_from sha 0 [] fs = None"
    and "mod_chain.last_hash [] es = mod_chain.last_hash [] fs"
    and plain: "\<And>e. e \<in> set es \<union> set fs \<Longrightarrow> plain_action e"
    and inj: "inj_on sha (action_bytes ` (set es \<union> set fs))" and out: "\<And>x. sha x \<noteq> []"
  shows "list_all2 same_action es fs"
proof (rule mod_chain.same_end_same_rows [OF assms(1-3), where ok = "\<lambda>e. e \<in> set es \<union> set fs"])
  show "me_previous_hash e = me_previous_hash f \<and> same_action e f"
    if e: "e \<in> set es \<union> set fs" and f: "f \<in> set es \<union> set fs"
      and eq: "mod_expected sha (me_previous_hash e) e = mod_expected sha (me_previous_hash f) f" for e f
  proof -
    from eq have "sha (action_bytes e) = sha (action_bytes f)"
      by (simp add: mod_expected_def mod_chain_hash_def action_bytes_def hex_inj)
    with inj e f have "action_bytes e = action_bytes f" by (meson imageI inj_onD)
    then show ?thesis
      using mod_material_eq plain [OF e] plain [OF f]
      unfolding action_bytes_def text_encode_inj plain_action_def same_action_def by blast
  qed
  show "mod_expected sha q e \<noteq> []" for e q
    using out by (simp add: mod_expected_def mod_chain_hash_def)
qed simp

section \<open>The log of a community along a run\<close>

definition mod_log :: "forum_store \<Rightarrow> string \<Rightarrow> mod_event_doc list" where
  "mod_log st c = filter (\<lambda>e. me_community e = c) (map snd (mod_events st))"

definition mod_head :: "forum_store \<Rightarrow> string \<Rightarrow> string" where
  "mod_head st c = (case map_of (mod_heads st) c of None \<Rightarrow> [] | Some h \<Rightarrow> ch_chain_hash h)"

definition mod_log_ok :: "(bytes \<Rightarrow> bytes) \<Rightarrow> forum_store \<Rightarrow> bool" where
  "mod_log_ok sha st \<longleftrightarrow> (\<forall>c. mod_verify_from sha 0 [] (mod_log st c) = None \<and> mod_chain.last_hash [] (mod_log st c) = mod_head st c)"

text \<open>Only moderation actions write the log, and each appends one row.\<close>

lemma mod_log_frame:
  assumes "\<not> (\<exists>m. op = Op_mod m)"
  shows "mod_events (forum_project d origin op env st) = mod_events st" "mod_heads (forum_project d origin op env st) = mod_heads st"
proof -
  have inherit: "mod_events (inherit_standing k r s) = mod_events s" "mod_heads (inherit_standing k r s) = mod_heads s" for k r s
    by (rule inherit_fold_fields; simp)+
  have folds: "mod_events (fold (\<lambda>x. assign_role c k t (g x)) xs s) = mod_events s"
    "mod_heads (fold (\<lambda>x. assign_role c k t (g x)) xs s) = mod_heads s" for c k t g xs s
    by (rule fold_frame; simp)+
  show "mod_events (forum_project d origin op env st) = mod_events st"
  proof (cases op)
    case (Op_join m)
    then show ?thesis by (simp add: MembershipJoin_project_def Let_def folds)
  qed (use assms in \<open>simp_all add: PostCreate_project_def PostUpdate_project_def PostDelete_project_def CommentCreate_project_def
      count_reply_def CommentUpdate_project_def CommentDelete_project_def VoteCast_project_def apply_karma_def
      CommunityCreate_project_def CommunityUpdate_project_def CommunityArchive_project_def MembershipLeave_project_def
      ReportCreate_project_def ReportResolve_project_def RoleDefine_project_def RoleAssign_project_def RoleRevoke_project_def
      AwardGive_project_def AwardType_project_def AttachmentClaim_project_def ProfileUpdate_project_def upsert_identity_def
      Follow_project_def Block_project_def Save_project_def FeedPrefs_project_def ForumMessage_project_def LabelEmit_project_def
      KeyCertify_project_def KeyRevoke_project_def inherit Let_def split: option.split prod.split\<close>)
  show "mod_heads (forum_project d origin op env st) = mod_heads st"
  proof (cases op)
    case (Op_join m)
    then show ?thesis by (simp add: MembershipJoin_project_def Let_def folds)
  qed (use assms in \<open>simp_all add: PostCreate_project_def PostUpdate_project_def PostDelete_project_def CommentCreate_project_def
      count_reply_def CommentUpdate_project_def CommentDelete_project_def VoteCast_project_def apply_karma_def
      CommunityCreate_project_def CommunityUpdate_project_def CommunityArchive_project_def MembershipLeave_project_def
      ReportCreate_project_def ReportResolve_project_def RoleDefine_project_def RoleAssign_project_def RoleRevoke_project_def
      AwardGive_project_def AwardType_project_def AttachmentClaim_project_def ProfileUpdate_project_def upsert_identity_def
      Follow_project_def Block_project_def Save_project_def FeedPrefs_project_def ForumMessage_project_def LabelEmit_project_def
      KeyCertify_project_def KeyRevoke_project_def inherit Let_def split: option.split prod.split\<close>)
qed

definition linked_event :: "forum_deps \<Rightarrow> mod_action_msg \<Rightarrow> parsed_envelope \<Rightarrow> forum_store \<Rightarrow> mod_event_doc" where
  "linked_event d m env st = the (map_of (mod_events (append_to_chain d m env st)) (content_id env))"

lemma mod_appends:
  "mod_events (ModAction_project d m env st) = al_set (content_id env) (linked_event d m env st) (mod_events st)"
  "map_of (mod_heads (ModAction_project d m env st)) c =
     (if c = env_scope env then Some \<lparr>ch_id = env_scope env, ch_sequence = me_sequence (linked_event d m env st),
        ch_chain_hash = me_chain_hash (linked_event d m env st)\<rparr> else map_of (mod_heads st) c)"
  "me_community (linked_event d m env st) = env_scope env"
  "me_previous_hash (linked_event d m env st) = mod_head st (env_scope env)"
  "mod_expected (fd_sha d) (mod_head st (env_scope env)) (linked_event d m env st) = me_chain_hash (linked_event d m env st)"
  unfolding ModAction_field [of mod_events, OF notification_frame(8)] ModAction_field [of mod_heads, OF notification_frame(9)]
  by (auto simp: linked_event_def append_to_chain_def Let_def mod_head_def mod_expected_def split: option.split)

lemma mod_log_ok_append:
  assumes ok: "mod_log_ok (fd_sha d) st" and fresh: "content_id env \<notin> fst ` set (mod_events st)"
  shows "mod_log_ok (fd_sha d) (ModAction_project d m env st)"
proof -
  let ?st = "ModAction_project d m env st" and ?e = "linked_event d m env st"
  have log: "mod_log ?st c = mod_log st c @ (if c = env_scope env then [?e] else [])" for c
    by (simp add: mod_log_def mod_appends(1,3) al_set_fresh [OF fresh [folded map_of_eq_None_iff]])
  have head: "mod_head ?st c = (if c = env_scope env then me_chain_hash ?e else mod_head st c)" for c
    by (simp add: mod_head_def mod_appends(2))
  from ok show ?thesis
    unfolding mod_log_ok_def log head by (auto simp: mod_chain.verify_snoc mod_appends(4,5))
qed

definition event_ids :: "forum_event list \<Rightarrow> string list" where
  "event_ids es = map (\<lambda>e. content_id (ev_env e)) es"

lemma forum_run_snoc: "forum_run d (es @ [e]) st = forum_step d (forum_run d es st) e"
  by (simp add: forum_run_def)

lemma mod_log_along_run:
  assumes "distinct (event_ids es)"
  shows "mod_log_ok (fd_sha d) (forum_run d es empty_forum_store)
    \<and> fst ` set (mod_events (forum_run d es empty_forum_store)) \<subseteq> set (event_ids es)"
  using assms
proof (induction es rule: rev_induct)
  case Nil
  show ?case by (simp add: mod_log_ok_def mod_log_def mod_head_def empty_forum_store_def)
next
  case (snoc e es)
  let ?st = "forum_run d es empty_forum_store"
  from snoc have ok: "mod_log_ok (fd_sha d) ?st" and ids: "fst ` set (mod_events ?st) \<subseteq> set (event_ids es)"
    and fresh: "content_id (ev_env e) \<notin> set (event_ids es)" by (simp_all add: event_ids_def)
  show ?case
  proof (cases "forum_accepts d ?st e \<and> (\<exists>m. ev_op e = Op_mod m)")
    case True
    then obtain m where "forum_step d ?st e = ModAction_project d m (ev_env e) ?st" by (auto simp: forum_step_def)
    moreover have "content_id (ev_env e) \<notin> fst ` set (mod_events ?st)" using ids fresh by blast
    moreover have "fst ` set (al_set k v m') \<subseteq> insert k (fst ` set m')" for k and v :: mod_event_doc and m'
      using set_al_set_subset by fastforce
    then have "fst ` set (al_set (content_id (ev_env e)) v (mod_events ?st)) \<subseteq> insert (content_id (ev_env e)) (set (event_ids es))" for v
      using ids by (meson insert_mono subset_trans)
    ultimately show ?thesis
      using mod_log_ok_append [OF ok] by (simp add: forum_run_snoc mod_appends(1) event_ids_def)
  next
    case False
    then have "mod_events (forum_step d ?st e) = mod_events ?st \<and> mod_heads (forum_step d ?st e) = mod_heads ?st"
      using mod_log_frame by (auto simp: forum_step_def)
    with ok ids show ?thesis by (auto simp: forum_run_snoc mod_log_ok_def mod_log_def mod_head_def event_ids_def)
  qed
qed

text \<open>The chain hash covers neither the reason nor the expiry of an action, nor its verb's name, the target's kind and
  summary, the community and the sequence number: a list that differs in the first two still verifies.\<close>

lemma reasons_are_not_hashed:
  "mod_verify_from sha i p (map (\<lambda>e. e\<lparr>me_reason := r e, me_expires_at_ms := x e\<rparr>) es) = mod_verify_from sha i p es"
  by (induction es arbitrary: i p) (simp_all add: mod_expected_def)

text \<open>C10: A moderator cannot act invisibly. Whatever operations a node has accepted (each event once), the mod log of
  every community verifies and the community's head row holds the chain hash of the last entry. Any other list that
  verifies and ends in that head, and whose hashed texts (like the log's own) hold no NUL character, agrees with the log
  entry by entry on what was done, to what, by whom and when - so removing, reordering, inserting or rewriting an entry
  shows, as long as the hash has no collision among the entries. The reason and the expiry of an entry are not
  hashed: a list in which any of them are rewritten verifies and ends in the same head.\<close>

theorem mod_log_detects_rewriting:
  assumes run: "st = forum_run d es empty_forum_store" "distinct (event_ids es)" and out: "\<And>x. fd_sha d x \<noteq> []"
  shows "verify_mod_chain (fd_sha d) (mod_log st c) = None \<and> mod_chain.last_hash [] (mod_log st c) = mod_head st c
    \<and> (\<forall>fs. verify_mod_chain (fd_sha d) fs = None \<longrightarrow> mod_chain.last_hash [] fs = mod_head st c
        \<longrightarrow> (\<forall>e \<in> set (mod_log st c) \<union> set fs. plain_action e)
        \<longrightarrow> inj_on (fd_sha d) (action_bytes ` (set (mod_log st c) \<union> set fs))
        \<longrightarrow> list_all2 same_action (mod_log st c) fs)
    \<and> (\<forall>r x. verify_mod_chain (fd_sha d) (map (\<lambda>e. e\<lparr>me_reason := r e, me_expires_at_ms := x e\<rparr>) (mod_log st c)) = None
        \<and> mod_chain.last_hash [] (map (\<lambda>e. e\<lparr>me_reason := r e, me_expires_at_ms := x e\<rparr>) (mod_log st c)) = mod_head st c)"
proof (intro conjI allI impI)
  from mod_log_along_run [OF run(2), of d] have ok: "mod_verify_from (fd_sha d) 0 [] (mod_log st c) = None"
    "mod_chain.last_hash [] (mod_log st c) = mod_head st c" unfolding run(1) mod_log_ok_def by simp_all
  then show "verify_mod_chain (fd_sha d) (mod_log st c) = None" "mod_chain.last_hash [] (mod_log st c) = mod_head st c"
    by (simp_all add: verify_mod_chain_def)
  show "list_all2 same_action (mod_log st c) fs"
    if "verify_mod_chain (fd_sha d) fs = None" "mod_chain.last_hash [] fs = mod_head st c"
      "\<forall>e \<in> set (mod_log st c) \<union> set fs. plain_action e"
      "inj_on (fd_sha d) (action_bytes ` (set (mod_log st c) \<union> set fs))" for fs
    using mod_chains_agree [OF ok(1) that(1) [unfolded verify_mod_chain_def] _ _ that(4) out] ok that by simp
  show "verify_mod_chain (fd_sha d) (map (\<lambda>e. e\<lparr>me_reason := r e, me_expires_at_ms := x e\<rparr>) (mod_log st c)) = None" for r x
    using ok by (simp add: verify_mod_chain_def reasons_are_not_hashed)
  show "mod_chain.last_hash [] (map (\<lambda>e. e\<lparr>me_reason := r e, me_expires_at_ms := x e\<rparr>) (mod_log st c)) = mod_head st c" for r x
    using ok by (cases "mod_log st c" rule: rev_cases) (simp_all add: mod_chain.last_hash_def)
qed

lemma hex_no_NUL: "NUL \<notin> set (hex bs)"
  by (auto simp: NUL_def dest!: hex_chars)

lemma linked_fields:
  "me_id (linked_event d m env st) = content_id env" "me_target (linked_event d m env st) = ma_target m"
  "me_actor_key (linked_event d m env st) = env_author env"
  by (simp_all add: linked_event_def append_to_chain_def Let_def)

lemma with_a_log: "mod_events with_a = []" "mod_head with_a demo_c = []"
proof -
  have "mod_events founded = []" "mod_heads founded = []"
    using mod_log_frame [of "ev_op start_event"]
    by (simp_all add: founded_def forum_effect_def start_event_def empty_forum_store_def del: forum_project.simps)
  then have "mod_events with_a = []" "mod_heads with_a = []"
    using join_a_accepted mod_log_frame [of "ev_op join_a"]
    by (simp_all add: with_a_def forum_step_def join_a_def del: forum_project.simps)
  then show "mod_events with_a = []" "mod_head with_a demo_c = []" by (simp_all add: mod_head_def)
qed

lemma banned_a_log: "mod_log banned_a demo_c = [linked_event demo_deps (member_action 12 key_a 0) (ev_env ban_a) with_a]"
proof -
  have eq: "banned_a = ModAction_project demo_deps (member_action 12 key_a 0) (ev_env ban_a) with_a"
    using ban_a_accepted by (simp add: banned_a_def forum_step_def ban_a_def)
  have "mod_log banned_a demo_c = filter (\<lambda>e. me_community e = demo_c)
      [linked_event demo_deps (member_action 12 key_a 0) (ev_env ban_a) with_a]"
    unfolding mod_log_def eq mod_appends(1) with_a_log by simp
  then show ?thesis by (simp add: mod_appends(3)) (simp add: ban_a_def)
qed

lemma banned_a_plain: "e \<in> set (mod_log banned_a demo_c) \<Longrightarrow> plain_action e"
  by (simp add: banned_a_log plain_action_def plain_def linked_fields mod_appends(4))
    (simp add: ban_a_def with_a_log member_action_def hex_no_NUL, simp add: NUL_def char_of_def)

theorem mod_log_detects_rewriting_witness:
  "verify_mod_chain (fd_sha demo_deps) (mod_log banned_a demo_c) = None \<and> length (mod_log banned_a demo_c) = 1
   \<and> mod_chain.last_hash [] (mod_log banned_a demo_c) = mod_head banned_a demo_c
   \<and> list_all2 same_action (mod_log banned_a demo_c) (mod_log banned_a demo_c)"
proof -
  have distinct: "distinct (event_ids [start_event, join_a, ban_a])"
    by (simp add: event_ids_def start_event_def join_a_def ban_a_def)
  have out: "fd_sha demo_deps x \<noteq> []" for x by (simp add: demo_deps_def)
  have inj: "inj_on (fd_sha demo_deps) S" for S by (simp add: demo_deps_def inj_on_def)
  have all: "\<forall>e \<in> set (mod_log banned_a demo_c) \<union> set (mod_log banned_a demo_c). plain_action e"
    using banned_a_plain by blast
  note t = mod_log_detects_rewriting [OF banned_a_reached distinct out, of demo_c]
  have "list_all2 same_action (mod_log banned_a demo_c) (mod_log banned_a demo_c)" using t all inj by blast
  moreover have "length (mod_log banned_a demo_c) = 1" by (simp add: banned_a_log)
  ultimately show ?thesis using t by blast
qed


section \<open>The community audit\<close>

definition same_change :: "community_audit_doc \<Rightarrow> community_audit_doc \<Rightarrow> bool" where
  "same_change e f \<longleftrightarrow> au_id e = au_id f \<and> au_community e = au_community f \<and> au_actor_key e = au_actor_key f
     \<and> au_action e = au_action f \<and> au_changes e = au_changes f \<and> au_created_at_ms e = au_created_at_ms f"

definition plain_change :: "community_audit_doc \<Rightarrow> bool" where
  "plain_change e \<longleftrightarrow> plain (au_previous_hash e) \<and> plain (au_id e) \<and> plain (au_community e) \<and> plain (au_actor_key e)"

definition change_bytes :: "community_audit_doc \<Rightarrow> bytes" where
  "change_bytes e = text_encode (audit_material (au_previous_hash e) (au_id e) (au_community e) (au_actor_key e) (au_action e)
     (au_changes e) (au_created_at_ms e))"

lemma action_no_NUL: "NUL \<notin> set (audit_action_text a)"
  by (cases a) (simp_all add: NUL_def char_of_def)

lemma change_parts_eq:
  assumes "join_nul (change_parts x @ ps) = join_nul (change_parts y @ qs)" and ne: "ps \<noteq> []" "qs \<noteq> []"
  shows "x = y \<and> join_nul ps = join_nul qs"
proof -
  have ll: "utf16_length a = utf16_length b" if "digits_of (utf16_length a) = digits_of (utf16_length b)" for a b
    using that by (rule digits_of_inj)
  note D = join_nul_head [OF _ _ _ digits_no_NUL digits_no_NUL] and T = join_nul_text
  from assms(1) have e1: "join_nul (digits_of (utf16_length (fc_field x)) # fc_field x # digits_of (utf16_length (fc_before x)) # fc_before x
      # digits_of (utf16_length (fc_after x)) # fc_after x # ps)
    = join_nul (digits_of (utf16_length (fc_field y)) # fc_field y # digits_of (utf16_length (fc_before y)) # fc_before y
      # digits_of (utf16_length (fc_after y)) # fc_after y # qs)" by (simp add: change_parts_def)
  note e2 = D(2) [OF e1 list.distinct(2) list.distinct(2)] and l1 = ll [OF D(1) [OF e1 list.distinct(2) list.distinct(2)]]
  note e3 = T(2) [OF e2 list.distinct(2) list.distinct(2) l1] and f1 = T(1) [OF e2 list.distinct(2) list.distinct(2) l1]
  note e4 = D(2) [OF e3 list.distinct(2) list.distinct(2)] and l2 = ll [OF D(1) [OF e3 list.distinct(2) list.distinct(2)]]
  note e5 = T(2) [OF e4 list.distinct(2) list.distinct(2) l2] and f2 = T(1) [OF e4 list.distinct(2) list.distinct(2) l2]
  note e6 = D(2) [OF e5 list.distinct(2) list.distinct(2)] and l3 = ll [OF D(1) [OF e5 list.distinct(2) list.distinct(2)]]
  from T(2) [OF e6 ne l3] T(1) [OF e6 ne l3] f1 f2 show ?thesis by simp
qed

lemma all_changes_eq:
  assumes "join_nul (concat (map change_parts xs) @ [p]) = join_nul (concat (map change_parts ys) @ [q])" and "length xs = length ys"
  shows "xs = ys \<and> p = q"
  using assms(2,1)
proof (induction xs ys rule: list_induct2)
  case (Cons x xs y ys)
  from Cons.prems have "x = y \<and> join_nul (concat (map change_parts xs) @ [p]) = join_nul (concat (map change_parts ys) @ [q])"
    by (intro change_parts_eq) simp_all
  with Cons.IH show ?case by simp
qed simp

text \<open>The audit commits to the changed texts too, whatever they hold: each is preceded by its length.\<close>

lemma audit_material_eq:
  assumes "audit_material p i c a act ch m = audit_material p' i' c' a' act' ch' m'"
    and "plain p" "plain i" "plain c" "plain a" "plain p'" "plain i'" "plain c'" "plain a'"
  shows "p = p' \<and> i = i' \<and> c = c' \<and> a = a' \<and> act = act' \<and> ch = ch' \<and> m = m'"
proof -
  note J = join_nul_head [where ps = "_ # _" and qs = "_ # _", OF _ list.distinct(2) list.distinct(2)]
  note n = assms(2-) [unfolded plain_def]
  define rest rest' where "rest = concat (map change_parts ch) @ [js_string_of_int m]" and "rest' = concat (map change_parts ch') @ [js_string_of_int m']"
  have ne: "rest \<noteq> []" "rest' \<noteq> []" by (simp_all add: rest_def rest'_def)
  from assms(1) have e1: "join_nul (p # i # c # a # audit_action_text act # digits_of (length ch) # rest)
      = join_nul (p' # i' # c' # a' # audit_action_text act' # digits_of (length ch') # rest')"
    by (simp add: audit_material_def rest_def rest'_def)
  note e2 = J(2) [OF e1 n(1) n(5)] and f1 = J(1) [OF e1 n(1) n(5)]
  note e3 = J(2) [OF e2 n(2) n(6)] and f2 = J(1) [OF e2 n(2) n(6)]
  note e4 = J(2) [OF e3 n(3) n(7)] and f3 = J(1) [OF e3 n(3) n(7)]
  note e5 = J(2) [OF e4 n(4) n(8)] and f4 = J(1) [OF e4 n(4) n(8)]
  note e6 = J(2) [OF e5 action_no_NUL action_no_NUL] and f5 = J(1) [OF e5 action_no_NUL action_no_NUL]
  from join_nul_head [OF e6 ne digits_no_NUL digits_no_NUL] have "length ch = length ch'" "join_nul rest = join_nul rest'"
    by (simp_all add: digits_of_inj)
  with all_changes_eq [of ch _ ch'] have "ch = ch' \<and> js_string_of_int m = js_string_of_int m'" by (simp add: rest_def rest'_def)
  moreover have "act = act'" using f5 by (cases act; cases act') simp_all
  ultimately show ?thesis using f1 f2 f3 f4 by (auto dest: js_string_of_int_inj)
qed

theorem audit_chains_agree:
  assumes "verify_community_audit_chain sha es = None" and "verify_community_audit_chain sha fs = None"
    and "audit_chain.last_hash [] es = audit_chain.last_hash [] fs"
    and plain: "\<And>e. e \<in> set es \<union> set fs \<Longrightarrow> plain_change e"
    and inj: "inj_on sha (change_bytes ` (set es \<union> set fs))" and out: "\<And>x. sha x \<noteq> []"
  shows "list_all2 same_change es fs"
proof (rule audit_chain.same_end_same_rows [OF assms(1) [unfolded verify_community_audit_chain_def]
      assms(2) [unfolded verify_community_audit_chain_def] assms(3), where ok = "\<lambda>e. e \<in> set es \<union> set fs"])
  show "au_previous_hash e = au_previous_hash f \<and> same_change e f"
    if e: "e \<in> set es \<union> set fs" and f: "f \<in> set es \<union> set fs"
      and eq: "audit_expected sha (au_previous_hash e) e = audit_expected sha (au_previous_hash f) f" for e f
  proof -
    from eq have "sha (change_bytes e) = sha (change_bytes f)"
      by (simp add: audit_expected_def community_audit_chain_hash_def change_bytes_def hex_inj)
    with inj e f have "change_bytes e = change_bytes f" by (meson imageI inj_onD)
    then show ?thesis
      using audit_material_eq plain [OF e] plain [OF f]
      unfolding change_bytes_def text_encode_inj plain_change_def same_change_def by blast
  qed
  show "audit_expected sha q e \<noteq> []" for e q
    using out by (simp add: audit_expected_def community_audit_chain_hash_def)
qed simp

end
