(* ===== verification/JB_Votes.thy ===== *)
theory JB_Votes
  imports JB_Logs
begin

text \<open>
  What becomes of content: which fields of a post or comment no operation can change, and how the votes on it add
  up (\<open>vote-cast.handler.ts\<close>, \<open>post-edit.handlers.ts\<close>, \<open>comment-edit.handlers.ts\<close>). The first part says which part of
  a row the other operations keep, the second the invariant that ties scores to votes, the third that the winning
  votes do not depend on the order in which they arrived.
\<close>

section \<open>What the author signed\<close>

text \<open>The fields no operation may change, and with them the fields an edit by the author changes.\<close>

type_synonym post_signed = "string \<times> string \<times> string \<times> string \<times> int \<times> string \<times> string list \<times> poll_doc option \<times> string \<times> int"
type_synonym comment_signed = "string \<times> string \<times> string \<times> string \<times> string list \<times> int \<times> int"

definition post_signed :: "post_doc \<Rightarrow> post_signed" where
  "post_signed p = (po_content_id p, po_author_key p, po_community p, po_title p, po_kind p, po_url p, po_attachments p,
     po_poll p, po_crosspost_of p, po_created_at_ms p)"

definition comment_signed :: "comment_doc \<Rightarrow> comment_signed" where
  "comment_signed c = (co_content_id c, co_author_key c, co_post c, co_parent_comment c, co_attachments c, co_depth c,
     co_created_at_ms c)"

definition post_core :: "post_doc \<Rightarrow> post_signed \<times> string \<times> string \<times> content_flags \<times> int option" where
  "post_core p = (post_signed p, po_body_markdown p, po_flair p, po_flags p, po_edited_at_ms p)"

definition comment_core :: "comment_doc \<Rightarrow> comment_signed \<times> string" where
  "comment_core c = (comment_signed c, co_body_markdown c)"

definition post_view :: "forum_store \<Rightarrow> string \<Rightarrow> ((post_signed \<times> string \<times> string \<times> content_flags \<times> int option) \<times> int) option" where
  "post_view st k = map_option (\<lambda>p. (post_core p, po_score p)) (map_of (posts st) k)"

definition comment_view :: "forum_store \<Rightarrow> string \<Rightarrow> ((comment_signed \<times> string) \<times> int) option" where
  "comment_view st k = map_option (\<lambda>c. (comment_core c, co_score c)) (map_of (comments st) k)"

definition same_articles :: "forum_store \<Rightarrow> forum_store \<Rightarrow> bool" where
  "same_articles st st' \<longleftrightarrow> post_view st' = post_view st \<and> comment_view st' = comment_view st \<and> votes st' = votes st"

text \<open>Rows lie under their own identifier.\<close>

definition ids_match :: "forum_store \<Rightarrow> bool" where
  "ids_match st \<longleftrightarrow> (\<forall>k p. map_of (posts st) k = Some p \<longrightarrow> po_content_id p = k)
     \<and> (\<forall>k c. map_of (comments st) k = Some c \<longrightarrow> co_content_id c = k)"

lemma ids_matchD:
  "ids_match st \<Longrightarrow> map_of (posts st) k = Some p \<Longrightarrow> po_content_id p = k"
  "ids_match st \<Longrightarrow> map_of (comments st) k = Some c \<Longrightarrow> co_content_id c = k"
  by (simp_all add: ids_match_def)

lemma post_viewD:
  "post_view st' = post_view st \<Longrightarrow> map_of (posts st') k = Some p
     \<Longrightarrow> \<exists>q. map_of (posts st) k = Some q \<and> post_core q = post_core p \<and> po_score q = po_score p"
  by (drule fun_cong [of _ _ k]) (auto simp: post_view_def dest: sym)

lemma comment_viewD:
  "comment_view st' = comment_view st \<Longrightarrow> map_of (comments st') k = Some c
     \<Longrightarrow> \<exists>q. map_of (comments st) k = Some q \<and> comment_core q = comment_core c \<and> co_score q = co_score c"
  by (drule fun_cong [of _ _ k]) (auto simp: comment_view_def dest: sym)

lemma core_ids: "post_core p = post_core q \<Longrightarrow> po_content_id p = po_content_id q"
  "comment_core c = comment_core e \<Longrightarrow> co_content_id c = co_content_id e"
  by (simp_all add: post_core_def comment_core_def post_signed_def comment_signed_def)

lemma same_articles_ids:
  assumes same: "same_articles st st'" and ids: "ids_match st"
  shows "ids_match st'"
  unfolding ids_match_def
proof (intro conjI allI impI)
  from same have v: "post_view st' = post_view st" "comment_view st' = comment_view st" by (simp_all add: same_articles_def)
  show "po_content_id p = k" if p: "map_of (posts st') k = Some p" for k p
  proof -
    from post_viewD [OF v(1) p] obtain q where "map_of (posts st) k = Some q" "post_core q = post_core p" by blast
    then show ?thesis using ids_matchD(1) [OF ids, of k q] core_ids(1) [of q p] by simp
  qed
  show "co_content_id c = k" if c: "map_of (comments st') k = Some c" for k c
  proof -
    from comment_viewD [OF v(2) c] obtain q where "map_of (comments st) k = Some q" "comment_core q = comment_core c" by blast
    then show ?thesis using ids_matchD(2) [OF ids, of k q] core_ids(2) [of q c] by simp
  qed
qed

lemma same_articles_refl [simp, intro]: "same_articles st st"
  by (simp add: same_articles_def)

lemma same_articles_trans: "same_articles a b \<Longrightarrow> same_articles b c \<Longrightarrow> same_articles a c"
  by (simp add: same_articles_def)

lemma same_articles_fields:
  "posts st' = posts st \<Longrightarrow> comments st' = comments st \<Longrightarrow> votes st' = votes st \<Longrightarrow> same_articles st st'"
  by (simp add: same_articles_def post_view_def comment_view_def fun_eq_iff)

lemma post_kept:
  "map_of (posts st) k = Some p \<Longrightarrow> post_core p' = post_core p \<Longrightarrow> po_score p' = po_score p
     \<Longrightarrow> same_articles st (st\<lparr>posts := al_set k p' (posts st)\<rparr>)"
  by (auto simp: same_articles_def post_view_def comment_view_def fun_eq_iff)

lemma comment_kept:
  "map_of (comments st) k = Some c \<Longrightarrow> comment_core c' = comment_core c \<Longrightarrow> co_score c' = co_score c
     \<Longrightarrow> same_articles st (st\<lparr>comments := al_set k c' (comments st)\<rparr>)"
  by (auto simp: same_articles_def post_view_def comment_view_def fun_eq_iff)

named_theorems content_frame

lemma delete_content [content_frame]:
  "same_articles st (PostDelete_project de env st)" "same_articles st (CommentDelete_project de env st)"
  by (auto simp: PostDelete_project_def CommentDelete_project_def post_core_def post_signed_def comment_core_def comment_signed_def intro!: post_kept comment_kept split: option.split)

lemma post_patch_core [simp]: "post_core (post_patch m v p) = post_core p \<and> po_score (post_patch m v p) = po_score p"
  by (cases "(m, v, p)" rule: post_patch.cases) (simp_all add: post_core_def post_signed_def)

lemma comment_patch_core [simp]:
  "comment_core (comment_patch m v c) = comment_core c \<and> co_score (comment_patch m v c) = co_score c"
  by (cases "(m, v, c)" rule: comment_patch.cases) (simp_all add: comment_core_def comment_signed_def)

lemma content_verb_content: "same_articles st (apply_content_verb m st)"
  unfolding apply_content_verb_def
  by (auto intro!: post_kept comment_kept split: option.split)

lemma notification_content [simp]: "same_articles st (add_notification r k cid a t s) = same_articles st s"
  "same_articles st (add_mention_notifications x cid a t s) = same_articles st s"
  by (simp_all add: same_articles_def post_view_def comment_view_def fun_eq_iff)

lemma append_chain_content: "same_articles st (append_to_chain d m env st)"
  by (rule same_articles_fields) simp_all

lemma ModAction_content [content_frame]: "same_articles st (ModAction_project d m env st)"
proof -
  have "same_articles st (if verb_in (ma_verb m) MEMBER_VERBS then apply_member_verb m (env_scope env) (env_time env) (append_to_chain d m env st)
       else apply_content_verb m (append_to_chain d m env st))"
  proof (cases "verb_in (ma_verb m) MEMBER_VERBS")
    case True
    then show ?thesis by (simp add: same_articles_fields)
  next
    case False
    with same_articles_trans [OF append_chain_content content_verb_content] show ?thesis by simp
  qed
  then show ?thesis by (simp only: ModAction_field [where f = "same_articles st", OF notification_content(1)])
qed

lemma AwardGive_content [content_frame]:
  assumes "ids_match st"
  shows "same_articles st (AwardGive_project m env st)"
proof (cases "map_of (posts st) (ag_target m)")
  case (Some p)
  from post_kept [OF Some, of "p\<lparr>po_award_count := po_award_count p + 1\<rparr>"]
  have "same_articles st (st\<lparr>awards := aw, posts := al_set (po_content_id p) (p\<lparr>po_award_count := po_award_count p + 1\<rparr>) (posts st)\<rparr>)" for aw
    by (simp add: ids_matchD(1) [OF assms Some] post_core_def post_signed_def same_articles_def post_view_def comment_view_def fun_eq_iff)
  then show ?thesis by (simp add: AwardGive_project_def Let_def Some)
next
  case None
  show ?thesis
  proof (cases "map_of (comments st) (ag_target m)")
    case (Some c)
    from comment_kept [OF Some, of "c\<lparr>co_award_count := co_award_count c + 1\<rparr>"]
    have "same_articles st (st\<lparr>awards := aw, comments := al_set (co_content_id c) (c\<lparr>co_award_count := co_award_count c + 1\<rparr>) (comments st)\<rparr>)" for aw
      by (simp add: ids_matchD(2) [OF assms Some] comment_core_def comment_signed_def same_articles_def post_view_def comment_view_def fun_eq_iff)
    then show ?thesis by (simp add: AwardGive_project_def Let_def Some None)
  qed (simp add: AwardGive_project_def Let_def None same_articles_fields)
qed

lemma inherit_content [simp]: "same_articles s (inherit_standing k r st) = same_articles s st"
  by (rule inherit_fold_fields [where f = "same_articles s"]) (simp_all add: same_articles_def post_view_def comment_view_def fun_eq_iff)

lemma assign_fold_content: "same_articles s (fold (\<lambda>x. assign_role c k t (g x)) xs st) = same_articles s st"
  by (rule fold_frame) (simp add: assign_role_def Let_def same_articles_def post_view_def comment_view_def fun_eq_iff)

fun authors :: "forum_op \<Rightarrow> bool" where
  "authors (Op_post_create m) = True"
| "authors (Op_post_update m) = True"
| "authors (Op_comment_create m) = True"
| "authors (Op_comment_update m) = True"
| "authors (Op_vote m) = True"
| "authors _ = False"

text \<open>Besides the operations of authors and voters nothing changes what an author wrote, a score or a vote.\<close>

lemma others_keep_articles:
  assumes "ids_match st" and "\<not> authors op"
  shows "same_articles st (forum_project d origin op env st)"
proof (cases op)
  case (Op_join m)
  then show ?thesis
    by (simp add: MembershipJoin_project_def Let_def assign_fold_content)
      (simp add: same_articles_fields bump_member_count_def split: option.split)
next
  case (Op_revoke m)
  then show ?thesis
    by (simp add: KeyRevoke_project_def Let_def same_articles_fields)
qed (use assms content_frame in \<open>auto intro!: same_articles_fields
      simp: CommunityCreate_project_def CommunityUpdate_project_def CommunityArchive_project_def MembershipLeave_project_def
        bump_member_count_def ReportCreate_project_def ReportResolve_project_def RoleDefine_project_def RoleAssign_project_def
        RoleRevoke_project_def AwardType_project_def AttachmentClaim_project_def ProfileUpdate_project_def upsert_identity_def
        Follow_project_def Block_project_def Save_project_def FeedPrefs_project_def ForumMessage_project_def
        LabelEmit_project_def KeyCertify_project_def Let_def split: option.split\<close>)


section \<open>Scores are the sum of the winning votes\<close>

definition weight :: "string \<Rightarrow> vote_doc \<Rightarrow> int" where
  "weight t v = (if vo_target v = t then vo_value v else 0)"

definition tally :: "string \<Rightarrow> (string \<times> vote_doc) list \<Rightarrow> int" where
  "tally t vs = sum_list (map (weight t \<circ> snd) vs)"

lemma tally_al_set:
  "distinct (map fst vs) \<Longrightarrow>
     tally t (al_set k v vs) = tally t vs + weight t v - (case map_of vs k of None \<Rightarrow> 0 | Some u \<Rightarrow> weight t u)"
  by (induction k v vs rule: al_set.induct) (auto simp: tally_def map_of_eq_None_iff split: option.split)

definition vote_row_ok :: "string \<times> vote_doc \<Rightarrow> bool" where
  "vote_row_ok x \<longleftrightarrow> fst x = vote_key (vo_author_key (snd x)) (vo_target (snd x)) \<and> vo_id (snd x) = fst x
     \<and> CHR '':'' \<notin> set (vo_author_key (snd x)) \<and> vo_value (snd x) \<in> {-1, 0, 1}"

definition votes_ok :: "string set \<Rightarrow> (string \<times> vote_doc) list \<Rightarrow> bool" where
  "votes_ok targets vs \<longleftrightarrow> distinct (map fst vs) \<and> (\<forall>x\<in>set vs. vote_row_ok x \<and> vo_target (snd x) \<in> targets)"

definition scores_ok :: "string set \<Rightarrow> ('a \<Rightarrow> string) \<Rightarrow> (string \<Rightarrow> ('a \<times> int) option) \<Rightarrow> (string \<times> vote_doc) list \<Rightarrow> bool" where
  "scores_ok seen name view vs \<longleftrightarrow>
     (\<forall>k core score. view k = Some (core, score) \<longrightarrow> name core = k \<and> k \<in> seen \<and> score = tally k vs)"

lemma scores_ok_mono: "scores_ok seen name view vs \<Longrightarrow> seen \<subseteq> seen' \<Longrightarrow> scores_ok seen' name view vs"
  by (auto simp: scores_ok_def)

lemma scores_ok_dom: "scores_ok seen name view vs \<Longrightarrow> dom view \<subseteq> seen"
  by (auto simp: scores_ok_def)

lemma scores_ok_name: "scores_ok seen name view vs \<Longrightarrow> view k = Some (core, score) \<Longrightarrow> name core = k"
  by (simp add: scores_ok_def)

lemma scores_ok_new:
  "scores_ok seen name view vs \<Longrightarrow> tally k vs = 0 \<Longrightarrow> name core = k
     \<Longrightarrow> scores_ok (insert k seen) name (view(k \<mapsto> (core, 0))) vs"
  by (auto simp: scores_ok_def)

text \<open>Both kinds of articles begin with their identifier.\<close>

definition article_id :: "(string \<times> 'a) \<times> 'b \<Rightarrow> string" where
  "article_id core = fst (fst core)"

lemma article_id_core [simp]: "article_id (post_core p) = po_content_id p" "article_id (comment_core c) = co_content_id c"
  by (simp_all add: article_id_def post_core_def post_signed_def comment_core_def comment_signed_def)

lemma scores_ok_edit:
  "scores_ok seen name view vs \<Longrightarrow> view k = Some (core, score) \<Longrightarrow> name core' = k
     \<Longrightarrow> scores_ok seen name (view(k \<mapsto> (core', score))) vs"
  by (auto simp: scores_ok_def)

definition rescored :: "string \<Rightarrow> int \<Rightarrow> (string \<Rightarrow> ('a \<times> int) option) \<Rightarrow> string \<Rightarrow> ('a \<times> int) option" where
  "rescored t delta view = (\<lambda>k. map_option (\<lambda>(core, score). (core, if k = t then score + delta else score)) (view k))"

lemma scores_ok_rescored:
  "scores_ok seen name view vs \<Longrightarrow> (\<And>k. tally k vs' = tally k vs + (if k = t then delta else 0))
     \<Longrightarrow> scores_ok seen name (rescored t delta view) vs'"
  by (auto simp: scores_ok_def rescored_def)

lemma dom_rescored [simp]: "dom (rescored t delta view) = dom view"
  by (auto simp: rescored_def dom_def)

lemma rescored_0 [simp]: "rescored t 0 view = view"
  by (auto simp: rescored_def fun_eq_iff option.map_comp intro!: option.map_ident_strong)

definition articles_ok :: "string set \<Rightarrow> forum_store \<Rightarrow> bool" where
  "articles_ok seen st \<longleftrightarrow>
     scores_ok seen article_id (post_view st) (votes st) \<and> scores_ok seen article_id (comment_view st) (votes st)
     \<and> dom (post_view st) \<inter> dom (comment_view st) = {}
     \<and> votes_ok (dom (post_view st) \<union> dom (comment_view st)) (votes st)"

lemma same_articles_ok: "same_articles st st' \<Longrightarrow> articles_ok seen st' = articles_ok seen st"
  by (simp add: same_articles_def articles_ok_def)

lemma articles_ok_mono: "articles_ok seen st \<Longrightarrow> seen \<subseteq> seen' \<Longrightarrow> articles_ok seen' st"
  by (auto simp: articles_ok_def intro: scores_ok_mono)

lemma articles_ok_ids:
  assumes "articles_ok seen st"
  shows "ids_match st"
  unfolding ids_match_def
proof (intro conjI allI impI)
  from assms have p: "scores_ok seen article_id (post_view st) (votes st)" and c: "scores_ok seen article_id (comment_view st) (votes st)"
    by (simp_all add: articles_ok_def)
  show "po_content_id x = k" if "map_of (posts st) k = Some x" for k x
    using scores_ok_name [OF p, of k "post_core x" "po_score x"] that by (simp add: post_view_def)
  show "co_content_id x = k" if "map_of (comments st) k = Some x" for k x
    using scores_ok_name [OF c, of k "comment_core x" "co_score x"] that by (simp add: comment_view_def)
qed

lemma untargeted: "(\<forall>x\<in>set vs. vo_target (snd x) \<noteq> t) \<Longrightarrow> tally t vs = 0"
  by (induction vs) (simp_all add: tally_def weight_def)

lemma unseen:
  assumes "articles_ok seen st" and "k \<notin> seen"
  shows "k \<notin> dom (post_view st)" "k \<notin> dom (comment_view st)" "tally k (votes st) = 0"
proof -
  from assms show "k \<notin> dom (post_view st)" "k \<notin> dom (comment_view st)"
    using scores_ok_dom unfolding articles_ok_def by blast+
  with assms(1) show "tally k (votes st) = 0"
    unfolding articles_ok_def votes_ok_def by (intro untargeted) blast
qed

lemma votes_ok_insert: "votes_ok T vs \<Longrightarrow> votes_ok (insert k T) vs"
  by (auto simp: votes_ok_def)

lemma articles_ok_new_post:
  assumes ok: "articles_ok seen st" and k: "k \<notin> seen"
    and view: "post_view st' = (post_view st)(k \<mapsto> (core, 0))" "comment_view st' = comment_view st" "votes st' = votes st"
    and name: "article_id core = k"
  shows "articles_ok (insert k seen) st'"
  using ok unseen [OF ok k] unfolding articles_ok_def view
  by (simp add: scores_ok_new name scores_ok_mono [OF _ subset_insertI] Int_insert_left votes_ok_insert)

lemma articles_ok_new_comment:
  assumes ok: "articles_ok seen st" and k: "k \<notin> seen"
    and view: "comment_view st' = (comment_view st)(k \<mapsto> (core, 0))" "post_view st' = post_view st" "votes st' = votes st"
    and name: "article_id core = k"
  shows "articles_ok (insert k seen) st'"
  using ok unseen [OF ok k] unfolding articles_ok_def view
  by (simp add: scores_ok_new name scores_ok_mono [OF _ subset_insertI] Int_insert_right votes_ok_insert)


lemma PostCreate_views:
  "post_view (PostCreate_project m env st) = (post_view st)(content_id env \<mapsto> (post_core (created_post m env), 0))"
  "comment_view (PostCreate_project m env st) = comment_view st" "votes (PostCreate_project m env st) = votes st"
  by (auto simp: PostCreate_project_def Let_def post_view_def comment_view_def fun_eq_iff created_post_def split: option.split)

lemma count_reply_content:
  assumes "ids_match st"
  shows "same_articles st (count_reply m env st)"
proof (cases "map_of (posts st) (cr_post m)")
  case None
  then show ?thesis by (simp add: count_reply_def)
next
  case (Some p)
  let ?st1 = "st\<lparr>posts := al_set (cr_post m) (p\<lparr>po_comment_count := po_comment_count p + 1\<rparr>) (posts st)\<rparr>"
  have st1: "same_articles st ?st1" by (rule post_kept [OF Some]) (simp_all add: post_core_def post_signed_def)
  show ?thesis
  proof (cases "cr_parent_comment m = [] \<or> map_of (comments st) (cr_parent_comment m) = None")
    case True
    with Some st1 show ?thesis by (auto simp: count_reply_def Let_def)
  next
    case False
    then obtain c where c: "cr_parent_comment m \<noteq> []" "map_of (comments st) (cr_parent_comment m) = Some c" by blast
    have "same_articles ?st1 (?st1\<lparr>comments := al_set (cr_parent_comment m) (c\<lparr>co_reply_count := co_reply_count c + 1\<rparr>) (comments ?st1)\<rparr>)"
      by (rule comment_kept) (simp_all add: c comment_core_def comment_signed_def)
    from same_articles_trans [OF st1 this] show ?thesis
      using c ids_matchD(2) [OF assms c(2)] by (simp add: count_reply_def Let_def Some)
  qed
qed

lemma CommentCreate_views:
  assumes "ids_match st"
  shows "comment_view (CommentCreate_project m env st) = (comment_view st)(content_id env \<mapsto> (comment_core (created_comment m env st), 0))"
    "post_view (CommentCreate_project m env st) = post_view st" "votes (CommentCreate_project m env st) = votes st"
proof -
  let ?st1 = "st\<lparr>comments := al_set (content_id env) (created_comment m env st) (comments st)\<rparr>"
  have "ids_match ?st1" using assms by (simp add: ids_match_def created_comment_def)
  from count_reply_content [OF this] have "same_articles ?st1 (CommentCreate_project m env st)"
    by (simp add: CommentCreate_project_def Let_def)
  then show "comment_view (CommentCreate_project m env st) = (comment_view st)(content_id env \<mapsto> (comment_core (created_comment m env st), 0))"
    "post_view (CommentCreate_project m env st) = post_view st" "votes (CommentCreate_project m env st) = votes st"
    by (auto simp: same_articles_def comment_view_def post_view_def fun_eq_iff created_comment_def)
qed

definition vote_row :: "vote_cast_msg \<Rightarrow> parsed_envelope \<Rightarrow> vote_doc" where
  "vote_row m env = \<lparr>vo_id = vote_key (env_author env) (vc_target m), vo_author_key = env_author env, vo_target = vc_target m,
     vo_value = vc_value m, vo_updated_at_ms = env_time env, vo_content_id = content_id env\<rparr>"

definition vote_delta :: "vote_cast_msg \<Rightarrow> parsed_envelope \<Rightarrow> forum_store \<Rightarrow> int" where
  "vote_delta m env st = vc_value m - (case map_of (votes st) (vo_id (vote_row m env)) of None \<Rightarrow> 0 | Some v \<Rightarrow> vo_value v)"

lemma VoteCast_loses:
  "\<not> vote_supersedes (env_time env) (content_id env) (map_of (votes st) (vo_id (vote_row m env))) \<Longrightarrow> VoteCast_project m env st = st"
  by (simp add: VoteCast_project_def Let_def vote_row_def)

lemma rescored_other: "t \<notin> dom view \<Longrightarrow> rescored t delta view = view"
  by (auto simp: rescored_def fun_eq_iff option.map_comp intro!: option.map_ident_strong)

lemma karma_views [simp]:
  "post_view (apply_karma k f t st) = post_view st" "comment_view (apply_karma k f t st) = comment_view st"
  "votes (apply_karma k f t st) = votes st"
  by (simp_all add: apply_karma_def Let_def post_view_def comment_view_def fun_eq_iff)

lemma VoteCast_wins:
  assumes wins: "vote_supersedes (env_time env) (content_id env) (map_of (votes st) (vo_id (vote_row m env)))"
    and disjoint: "dom (post_view st) \<inter> dom (comment_view st) = {}"
  shows "votes (VoteCast_project m env st) = al_set (vo_id (vote_row m env)) (vote_row m env) (votes st)"
    "post_view (VoteCast_project m env st) = rescored (vc_target m) (vote_delta m env st) (post_view st)"
    "comment_view (VoteCast_project m env st) = rescored (vc_target m) (vote_delta m env st) (comment_view st)"
proof -
  let ?st1 = "st\<lparr>votes := al_set (vo_id (vote_row m env)) (vote_row m env) (votes st)\<rparr>"
  have eq: "VoteCast_project m env st =
     (if vote_delta m env st = 0 then ?st1
      else (case map_of (posts st) (vc_target m) of
          Some p \<Rightarrow> apply_karma (po_author_key p) (\<lambda>i. i\<lparr>iy_post_karma := iy_post_karma i + vote_delta m env st\<rparr>) (po_created_at_ms p)
            (?st1\<lparr>posts := al_set (vc_target m) (p\<lparr>po_score := po_score p + vote_delta m env st\<rparr>) (posts st)\<rparr>)
        | None \<Rightarrow> (case map_of (comments st) (vc_target m) of
            Some c \<Rightarrow> apply_karma (co_author_key c) (\<lambda>i. i\<lparr>iy_comment_karma := iy_comment_karma i + vote_delta m env st\<rparr>) (co_created_at_ms c)
              (?st1\<lparr>comments := al_set (vc_target m) (c\<lparr>co_score := co_score c + vote_delta m env st\<rparr>) (comments st)\<rparr>)
          | None \<Rightarrow> ?st1)))"
    using wins by (simp add: VoteCast_project_def Let_def vote_row_def vote_delta_def cong: option.case_cong)
  show "votes (VoteCast_project m env st) = al_set (vo_id (vote_row m env)) (vote_row m env) (votes st)"
    unfolding eq by (simp split: option.split)
  have "post_view ?st1 = post_view st" "comment_view ?st1 = comment_view st" by (simp_all add: post_view_def comment_view_def fun_eq_iff)
  note base = this
  show "post_view (VoteCast_project m env st) = rescored (vc_target m) (vote_delta m env st) (post_view st)"
  proof (cases "map_of (posts st) (vc_target m)")
    case None
    then have "vc_target m \<notin> dom (post_view st)" by (simp add: post_view_def dom_def)
    with None show ?thesis unfolding eq
      by (simp add: rescored_other split: option.split) (simp add: post_view_def fun_eq_iff)
  next
    case (Some p)
    then show ?thesis unfolding eq
      by (auto simp: base) (auto simp: post_view_def rescored_def fun_eq_iff option.map_comp post_core_def post_signed_def)
  qed
  show "comment_view (VoteCast_project m env st) = rescored (vc_target m) (vote_delta m env st) (comment_view st)"
  proof (cases "map_of (posts st) (vc_target m)")
    case p: None
    show ?thesis
    proof (cases "map_of (comments st) (vc_target m)")
      case None
      then have "vc_target m \<notin> dom (comment_view st)" by (simp add: comment_view_def dom_def)
      with p None show ?thesis unfolding eq by (simp add: rescored_other base)
    next
      case (Some c)
      with p show ?thesis unfolding eq
        by (auto simp: base) (auto simp: comment_view_def rescored_def fun_eq_iff option.map_comp comment_core_def comment_signed_def)
    qed
  next
    case (Some p)
    then have "vc_target m \<in> dom (post_view st)" by (simp add: post_view_def dom_def)
    with disjoint have "vc_target m \<notin> dom (comment_view st)" by blast
    with Some show ?thesis unfolding eq by (simp add: rescored_other) (simp add: comment_view_def fun_eq_iff)
  qed
qed


lemma vote_key_eq:
  "CHR '':'' \<notin> set a \<Longrightarrow> CHR '':'' \<notin> set b \<Longrightarrow> vote_key a t = vote_key b u \<longleftrightarrow> a = b \<and> t = u"
  by (simp add: vote_key_def delimited_eq)

lemma env_author_no_colon: "CHR '':'' \<notin> set (env_author env)"
  by (simp add: env_author_def hex_no_colon)

lemma vote_row_is_ok: "vc_value m \<in> {-1, 0, 1} \<Longrightarrow> vote_row_ok (vo_id (vote_row m env), vote_row m env)"
  by (simp add: vote_row_ok_def vote_row_def env_author_no_colon)

lemma previous_target:
  assumes "votes_ok T vs" and "map_of vs (vo_id (vote_row m env)) = Some u"
  shows "vo_target u = vc_target m" "vo_author_key u = env_author env"
proof -
  from assms(2) have "(vo_id (vote_row m env), u) \<in> set vs" by (rule map_of_SomeD)
  with assms(1) have "vote_row_ok (vo_id (vote_row m env), u)" by (auto simp: votes_ok_def)
  then have "vote_key (env_author env) (vc_target m) = vote_key (vo_author_key u) (vo_target u)" "CHR '':'' \<notin> set (vo_author_key u)"
    by (simp_all add: vote_row_ok_def vote_row_def)
  then show "vo_target u = vc_target m" "vo_author_key u = env_author env"
    using vote_key_eq [OF env_author_no_colon] by simp_all
qed

lemma tally_vote:
  assumes ok: "votes_ok T (votes st)"
  shows "tally k (al_set (vo_id (vote_row m env)) (vote_row m env) (votes st))
    = tally k (votes st) + (if k = vc_target m then vote_delta m env st else 0)"
proof -
  from ok have "distinct (map fst (votes st))" by (simp add: votes_ok_def)
  moreover have w: "weight k (vote_row m env) = (if k = vc_target m then vc_value m else 0)"
    by (simp add: weight_def vote_row_def)
  ultimately show ?thesis
    using previous_target(1) [OF ok] by (simp add: tally_al_set vote_delta_def w weight_def split: option.split)
qed

lemma votes_ok_set:
  assumes "votes_ok T vs" and "vote_row_ok (k, v)" and "vo_target v \<in> T"
  shows "votes_ok T (al_set k v vs)"
  using assms set_al_set_subset [of k v vs] by (auto simp: votes_ok_def)

lemma vote_accepted:
  assumes "VoteCast_authorize st m env = Allowed" and "VoteCast_validate m env = Valid"
  shows "vc_target m \<in> dom (post_view st) \<union> dom (comment_view st)" "vc_value m \<in> {-1, 0, 1}"
proof -
  from assms(1) show "vc_target m \<in> dom (post_view st) \<union> dom (comment_view st)"
    by (auto simp: VoteCast_authorize_def engage_authorize_def parent_post_def post_view_def comment_view_def dom_def
        split: option.splits sum.splits)
  from assms(2) show "vc_value m \<in> {-1, 0, 1}" by (simp add: VoteCast_validate_def split: if_splits)
qed

lemma articles_ok_vote:
  assumes ok: "articles_ok seen st" and acc: "VoteCast_authorize st m env = Allowed" "VoteCast_validate m env = Valid"
  shows "articles_ok seen (VoteCast_project m env st)"
proof (cases "vote_supersedes (env_time env) (content_id env) (map_of (votes st) (vo_id (vote_row m env)))")
  case False
  with ok show ?thesis by (simp add: VoteCast_loses)
next
  case True
  let ?row = "vote_row m env" and ?T = "dom (post_view st) \<union> dom (comment_view st)"
  from ok have parts: "scores_ok seen article_id (post_view st) (votes st)" "scores_ok seen article_id (comment_view st) (votes st)"
    and disjoint: "dom (post_view st) \<inter> dom (comment_view st) = {}" and vs: "votes_ok ?T (votes st)"
    by (simp_all add: articles_ok_def)
  have t: "vo_target ?row \<in> ?T" using vote_accepted(1) [OF acc] by (simp add: vote_row_def)
  have "votes_ok ?T (al_set (vo_id ?row) ?row (votes st))"
    by (rule votes_ok_set [OF vs vote_row_is_ok t]) (rule vote_accepted(2) [OF acc])
  with parts disjoint show ?thesis
    unfolding articles_ok_def VoteCast_wins [OF True disjoint]
    by (simp add: scores_ok_rescored tally_vote [OF vs])
qed

text \<open>An edit changes the text of its target and nothing else of any article.\<close>

lemma PostUpdate_views:
  "post_view (PostUpdate_project m env st) = (case map_of (posts st) (pu_target m) of
      None \<Rightarrow> post_view st
    | Some p \<Rightarrow> (post_view st)(pu_target m \<mapsto> ((post_signed p, pu_body_markdown m, or_else (pu_flair m) (po_flair p),
        (case pu_flags m of None \<Rightarrow> po_flags p | Some f \<Rightarrow> f), Some (env_time env)), po_score p)))"
  "comment_view (PostUpdate_project m env st) = comment_view st" "votes (PostUpdate_project m env st) = votes st"
  by (auto simp: PostUpdate_project_def post_view_def comment_view_def post_core_def post_signed_def fun_eq_iff split: option.split)

lemma CommentUpdate_views:
  "comment_view (CommentUpdate_project m env st) = (case map_of (comments st) (ct_target m) of
      None \<Rightarrow> comment_view st
    | Some c \<Rightarrow> (comment_view st)(ct_target m \<mapsto> ((comment_signed c, ct_body_markdown m), co_score c)))"
  "post_view (CommentUpdate_project m env st) = post_view st" "votes (CommentUpdate_project m env st) = votes st"
  by (auto simp: CommentUpdate_project_def post_view_def comment_view_def comment_core_def comment_signed_def fun_eq_iff split: option.split)

lemma articles_ok_edit:
  assumes ok: "articles_ok seen st"
  shows "articles_ok seen (PostUpdate_project pu env st)" "articles_ok seen (CommentUpdate_project ct env st)"
proof -
  note ids = ids_matchD [OF articles_ok_ids [OF ok]]
  show "articles_ok seen (PostUpdate_project pu env st)"
  proof (cases "map_of (posts st) (pu_target pu)")
    case None
    with ok show ?thesis by (simp add: articles_ok_def PostUpdate_views)
  next
    case (Some p)
    then have v: "post_view st (pu_target pu) = Some (post_core p, po_score p)" by (simp add: post_view_def)
    then have d: "insert (pu_target pu) (dom (post_view st)) = dom (post_view st)" by blast
    from ok ids(1) [OF Some] v show ?thesis
      by (auto simp: articles_ok_def PostUpdate_views Some article_id_def post_signed_def d intro!: scores_ok_edit)
  qed
  show "articles_ok seen (CommentUpdate_project ct env st)"
  proof (cases "map_of (comments st) (ct_target ct)")
    case None
    with ok show ?thesis by (simp add: articles_ok_def CommentUpdate_views)
  next
    case (Some c)
    then have v: "comment_view st (ct_target ct) = Some (comment_core c, co_score c)" by (simp add: comment_view_def)
    then have d: "insert (ct_target ct) (dom (comment_view st)) = dom (comment_view st)" by blast
    from ok ids(2) [OF Some] v show ?thesis
      by (auto simp: articles_ok_def CommentUpdate_views Some article_id_def comment_signed_def d intro!: scores_ok_edit)
  qed
qed

lemma articles_ok_step:
  assumes ok: "articles_ok seen st" and fresh: "content_id (ev_env e) \<notin> seen"
  shows "articles_ok (insert (content_id (ev_env e)) seen) (forum_step d st e)"
proof -
  note ids = articles_ok_ids [OF ok] and later = articles_ok_mono [OF _ subset_insertI]
  show ?thesis
  proof (cases "forum_accepts d st e")
    case False
    with ok later show ?thesis by (simp add: forum_step_def)
  next
    case acc: True
    show ?thesis
    proof (cases "authors (ev_op e)")
      case False
      with same_articles_ok [OF others_keep_articles [OF ids]] ok acc later show ?thesis by (simp add: forum_step_def)
    next
      case True
      then consider m where "ev_op e = Op_post_create m" | m where "ev_op e = Op_comment_create m" | m where "ev_op e = Op_vote m"
        | m where "ev_op e = Op_post_update m" | m where "ev_op e = Op_comment_update m"
        by (cases "ev_op e") auto
      then show ?thesis
      proof cases
        case 1
        with acc articles_ok_new_post [OF ok fresh PostCreate_views] show ?thesis
          by (simp add: forum_step_def created_post_def)
      next
        case 2
        with acc articles_ok_new_comment [OF ok fresh CommentCreate_views [OF ids]] show ?thesis
          by (simp add: forum_step_def created_comment_def)
      next
        case 3
        with acc have "articles_ok seen (forum_step d st e)"
          using articles_ok_vote [OF ok] by (simp add: forum_step_def forum_accepts_def)
        with later show ?thesis by blast
      next
        case 4
        with acc articles_ok_edit(1) [OF ok] later show ?thesis by (simp add: forum_step_def)
      next
        case 5
        with acc articles_ok_edit(2) [OF ok] later show ?thesis by (simp add: forum_step_def)
      qed
    qed
  qed
qed

lemma articles_ok_empty: "articles_ok {} empty_forum_store"
  by (simp add: articles_ok_def empty_forum_store_def post_view_def comment_view_def scores_ok_def votes_ok_def dom_def)

lemma forum_run_append_one: "forum_run d (es @ [e]) st = forum_step d (forum_run d es st) e"
  by (simp add: forum_run_def)

lemma articles_ok_run:
  assumes "distinct (event_ids es)"
  shows "articles_ok (set (event_ids es)) (forum_run d es empty_forum_store)"
  using assms
proof (induction es rule: rev_induct)
  case Nil
  show ?case using articles_ok_empty by (simp add: event_ids_def)
next
  case (snoc e es)
  then have "articles_ok (set (event_ids es)) (forum_run d es empty_forum_store)"
    and "content_id (ev_env e) \<notin> set (event_ids es)" by (simp_all add: event_ids_def)
  from articles_ok_step [OF this] show ?case by (simp add: forum_run_append_one) (simp add: event_ids_def)
qed

end
