(* ===== verification/JB_Ballots.thy ===== *)
theory JB_Ballots
  imports JB_Votes
begin

text \<open>
  Votes that arrive in any order (\<open>voteSupersedes\<close> in \<open>vote-cast.handler.ts\<close>): the order of votes is total on
  content identifiers, the stored row is the best of the accepted votes of an author, and a set of accepted votes
  gives one score whatever the sequence it came in. The last part says what becomes of an article.
\<close>

section \<open>Which vote wins\<close>

lemma list_le_linear: "list_le a b \<or> list_le b a"
  by (induction a b rule: list_le.induct) auto

lemma list_le_trans: "list_le a b \<Longrightarrow> list_le b c \<Longrightarrow> list_le a c"
proof (induction a b arbitrary: c rule: list_le.induct)
  case (3 x xs y ys)
  then show ?case by (cases c) auto
qed auto

lemma list_le_antisym: "list_le a b \<Longrightarrow> list_le b a \<Longrightarrow> a = b"
proof (induction a b rule: list_le.induct)
  case (1 ys)
  then show ?case by (cases ys) auto
qed auto

text \<open>Content identifiers are \<open>jb1\<close> and base-32 digits, so their code units are their bytes.\<close>

definition ascii :: "string \<Rightarrow> bool" where
  "ascii s \<longleftrightarrow> list_all (\<lambda>c. (of_char c :: nat) < 128) s"

lemma utf16_of_ascii: "ascii s \<Longrightarrow> utf16_of (map of_char s) = map of_char s"
  by (induction s) (simp_all add: ascii_def)

lemma ascii_order_antisym:
  assumes "ascii a" "ascii b" "js_string_le a b" "js_string_le b a"
  shows "a = b"
proof -
  from assms have "(map of_char a :: nat list) = map of_char b" by (simp add: js_string_le_def utf16_of_ascii list_le_antisym)
  then show ?thesis by (simp add: inj_map_eq_map inj_on_def)
qed

definition beats :: "vote_doc \<Rightarrow> vote_doc \<Rightarrow> bool" where
  "beats v u \<longleftrightarrow> vote_supersedes (vo_updated_at_ms v) (vo_content_id v) (Some u)"

lemma beats_iff:
  "beats v u \<longleftrightarrow> vo_updated_at_ms u < vo_updated_at_ms v
     \<or> vo_updated_at_ms u = vo_updated_at_ms v \<and> \<not> js_string_le (vo_content_id v) (vo_content_id u)"
  by (auto simp: beats_def vote_supersedes_def string_greater_def)

lemma beats_asym: "beats v u \<Longrightarrow> \<not> beats u v"
  using list_le_linear by (auto simp: beats_iff js_string_le_def)

lemma beats_trans: "beats w v \<Longrightarrow> beats v u \<Longrightarrow> beats w u"
proof -
  assume w: "beats w v" and v: "beats v u"
  let ?le = "\<lambda>a b. js_string_le (vo_content_id a) (vo_content_id b)"
  have lin: "?le a b \<or> ?le b a" and trans: "?le a b \<Longrightarrow> ?le b c \<Longrightarrow> ?le a c" for a b c
    using list_le_linear list_le_trans by (auto simp: js_string_le_def)
  have "\<not> ?le w u" if "\<not> ?le w v" "\<not> ?le v u"
    using that lin [of u v] trans [of w u v] by blast
  with w v show ?thesis by (auto simp: beats_iff)
qed

lemma beats_total:
  "ascii (vo_content_id v) \<Longrightarrow> ascii (vo_content_id u) \<Longrightarrow> vo_content_id v \<noteq> vo_content_id u \<Longrightarrow> beats v u \<or> beats u v"
  using ascii_order_antisym by (auto simp: beats_iff)

text \<open>The vote kept of those that arrive one after another, and what it is whatever their order.\<close>

definition winner :: "vote_doc list \<Rightarrow> vote_doc option" where
  "winner vs = fold (\<lambda>v best. if vote_supersedes (vo_updated_at_ms v) (vo_content_id v) best then Some v else best) vs None"

lemma winner_Nil [simp]: "winner [] = None"
  by (simp add: winner_def)

lemma winner_snoc:
  "winner (vs @ [v]) = (if vote_supersedes (vo_updated_at_ms v) (vo_content_id v) (winner vs) then Some v else winner vs)"
  by (simp add: winner_def)

definition clear_ids :: "vote_doc list \<Rightarrow> bool" where
  "clear_ids vs \<longleftrightarrow> inj_on vo_content_id (set vs) \<and> (\<forall>v\<in>set vs. ascii (vo_content_id v))"

lemma winner_best:
  assumes "clear_ids vs"
  shows "(winner vs = None \<longleftrightarrow> vs = []) \<and> (\<forall>w. winner vs = Some w \<longrightarrow> w \<in> set vs \<and> (\<forall>u\<in>set vs. u \<noteq> w \<longrightarrow> beats w u))"
  using assms
proof (induction vs rule: rev_induct)
  case (snoc v vs)
  then have ids: "clear_ids vs" by (auto simp: clear_ids_def)
  show ?case
  proof (cases "winner vs")
    case None
    with snoc.IH [OF ids] have "vs = []" by blast
    then show ?thesis by (simp add: winner_def vote_supersedes_def)
  next
    case (Some w)
    with snoc.IH [OF ids] have w: "w \<in> set vs" "\<And>u. u \<in> set vs \<Longrightarrow> u \<noteq> w \<Longrightarrow> beats w u" by blast+
    show ?thesis
    proof (cases "beats v w")
      case True
      then have "winner (vs @ [v]) = Some v" by (simp add: winner_snoc Some beats_def)
      moreover have "beats v u" if "u \<in> set vs" for u
        using True w(2) [OF that] beats_trans by blast
      ultimately show ?thesis by auto
    next
      case False
      then have "winner (vs @ [v]) = Some w" by (simp add: winner_snoc Some beats_def)
      moreover have "beats w v" if "v \<noteq> w"
      proof -
        from snoc.prems w(1) that have "vo_content_id v \<noteq> vo_content_id w" "ascii (vo_content_id v)" "ascii (vo_content_id w)"
          by (auto simp: clear_ids_def inj_on_def)
        with beats_total False show ?thesis by blast
      qed
      ultimately show ?thesis using w by auto
    qed
  qed
qed simp

lemma winner_order_free:
  assumes vs: "clear_ids vs" and same: "set us = set vs"
  shows "winner us = winner vs"
proof -
  from vs same have us: "clear_ids us" by (simp add: clear_ids_def)
  note U = winner_best [OF us] and V = winner_best [OF vs]
  show ?thesis
  proof (cases "winner vs")
    case None
    with V U same show ?thesis by auto
  next
    case (Some v)
    with V have "vs \<noteq> []" by force
    with same U obtain u where u: "winner us = Some u" by (metis not_Some_eq set_empty)
    with Some U V same have "u = v \<or> beats u v \<and> beats v u" by metis
    with u Some beats_asym show ?thesis by metis
  qed
qed

section \<open>The votes a run accepts\<close>

definition cast :: "forum_deps \<Rightarrow> forum_store \<Rightarrow> forum_event \<Rightarrow> vote_doc list" where
  "cast d st e = (case ev_op e of Op_vote m \<Rightarrow> if forum_accepts d st e then [vote_row m (ev_env e)] else [] | _ \<Rightarrow> [])"

fun accepted_votes :: "forum_deps \<Rightarrow> forum_store \<Rightarrow> forum_event list \<Rightarrow> vote_doc list" where
  "accepted_votes d st [] = []"
| "accepted_votes d st (e # es) = cast d st e @ accepted_votes d (forum_step d st e) es"

lemma accepted_votes_snoc: "accepted_votes d st (es @ [e]) = accepted_votes d st es @ cast d (forum_run d es st) e"
  by (induction es arbitrary: st) simp_all

lemma cast_shape:
  assumes "v \<in> set (cast d st e)"
  shows "vo_id v = vote_key (vo_author_key v) (vo_target v)" "CHR '':'' \<notin> set (vo_author_key v)" "vo_content_id v = content_id (ev_env e)"
    "cast d st e = [v]"
  using assms by (auto simp: cast_def vote_row_def env_author_no_colon split: forum_op.splits if_splits)

lemma accepted_shape:
  "v \<in> set (accepted_votes d st es) \<Longrightarrow> vo_id v = vote_key (vo_author_key v) (vo_target v) \<and> CHR '':'' \<notin> set (vo_author_key v)
     \<and> vo_content_id v \<in> set (event_ids es)"
  by (induction es arbitrary: st) (auto simp: event_ids_def dest: cast_shape)

lemma accepted_ids_inj:
  "distinct (event_ids es) \<Longrightarrow> inj_on vo_content_id (set (accepted_votes d st es))"
proof (induction es arbitrary: st)
  case (Cons e es)
  let ?later = "set (accepted_votes d (forum_step d st e) es)"
  have "inj_on vo_content_id ?later" using Cons by (simp add: event_ids_def)
  moreover have "inj_on vo_content_id (set (cast d st e))" using cast_shape(4) by (metis inj_onI list.inject)
  moreover have "vo_content_id u \<noteq> vo_content_id v" if "u \<in> set (cast d st e)" "v \<in> ?later" for u v
    using cast_shape(3) [OF that(1)] accepted_shape [OF that(2)] Cons.prems by (auto simp: event_ids_def)
  ultimately show ?case by (auto simp: inj_on_Un)
qed simp

lemma step_votes:
  assumes ok: "articles_ok seen st"
  shows "map_of (votes (forum_step d st e)) k =
    (case cast d st e of [] \<Rightarrow> map_of (votes st) k
     | v # _ \<Rightarrow> if vo_id v = k \<and> vote_supersedes (vo_updated_at_ms v) (vo_content_id v) (map_of (votes st) k) then Some v
               else map_of (votes st) k)"
proof (cases "\<exists>m. ev_op e = Op_vote m \<and> forum_accepts d st e")
  case True
  then obtain m where m: "ev_op e = Op_vote m" "forum_accepts d st e" by blast
  let ?row = "vote_row m (ev_env e)"
  from m have step: "forum_step d st e = VoteCast_project m (ev_env e) st" "cast d st e = [?row]"
    by (simp_all add: forum_step_def cast_def)
  have row: "vo_updated_at_ms ?row = env_time (ev_env e)" "vo_content_id ?row = content_id (ev_env e)" by (simp_all add: vote_row_def)
  from ok have disjoint: "dom (post_view st) \<inter> dom (comment_view st) = {}" by (simp add: articles_ok_def)
  show ?thesis
    using VoteCast_wins(1) [OF _ disjoint, where m = m and env = "ev_env e"] VoteCast_loses [of "ev_env e" st m]
    by (cases "vote_supersedes (env_time (ev_env e)) (content_id (ev_env e)) (map_of (votes st) (vo_id ?row))")
      (auto simp: step row)
next
  case False
  then have cast: "cast d st e = []" by (auto simp: cast_def split: forum_op.split)
  have "votes (forum_step d st e) = votes st"
  proof (cases "authors (ev_op e)")
    case True
    with False show ?thesis
      by (cases "ev_op e")
        (auto simp: forum_step_def PostCreate_views PostUpdate_views CommentUpdate_views CommentCreate_views(3) [OF articles_ok_ids [OF ok]])
  next
    case unauthored: False
    show ?thesis
      using others_keep_articles [OF articles_ok_ids [OF ok] unauthored, of d "ev_origin e" "ev_env e"]
      by (simp add: forum_step_def same_articles_def)
  qed
  with cast show ?thesis by simp
qed

lemma stored_vote_is_winner:
  assumes "distinct (event_ids es)"
  shows "map_of (votes (forum_run d es empty_forum_store)) k =
    winner (filter (\<lambda>v. vo_id v = k) (accepted_votes d empty_forum_store es))"
  using assms
proof (induction es rule: rev_induct)
  case Nil
  show ?case by (simp add: empty_forum_store_def)
next
  case (snoc e es)
  let ?st = "forum_run d es empty_forum_store"
  from snoc have d: "distinct (event_ids es)" by (simp add: event_ids_def)
  note step = step_votes [OF articles_ok_run [OF d], of d d e k]
  have "cast d ?st e = [] \<or> (\<exists>v. cast d ?st e = [v])" using cast_shape(4) by (metis list.exhaust list.set_intros(1))
  then show ?case
    using snoc.IH [OF d] by (auto simp: forum_run_append_one step accepted_votes_snoc winner_snoc)
qed


section \<open>One ballot a voter\<close>

definition ballots :: "forum_store \<Rightarrow> string \<Rightarrow> vote_doc set" where
  "ballots st t = {v \<in> snd ` set (votes st). vo_target v = t}"

definition score_of :: "forum_store \<Rightarrow> string \<Rightarrow> int option" where
  "score_of st t = (case map_of (posts st) t of
      Some p \<Rightarrow> Some (po_score p)
    | None \<Rightarrow> map_option co_score (map_of (comments st) t))"

lemma ballot_rows:
  assumes "votes_ok T (votes st)"
  shows "v \<in> ballots st t \<longleftrightarrow> map_of (votes st) (vo_id v) = Some v \<and> vo_target v = t"
proof -
  from assms have d: "distinct (map fst (votes st))" and rows: "\<And>x. x \<in> set (votes st) \<Longrightarrow> vo_id (snd x) = fst x"
    by (auto simp: votes_ok_def vote_row_ok_def)
  have "v \<in> snd ` set (votes st) \<longleftrightarrow> (vo_id v, v) \<in> set (votes st)"
  proof
    assume "v \<in> snd ` set (votes st)"
    then obtain x where "x \<in> set (votes st)" "snd x = v" by blast
    with rows [of x] show "(vo_id v, v) \<in> set (votes st)" by (metis prod.collapse)
  qed force
  with d show ?thesis by (simp add: ballots_def)
qed

lemma ballot_ok:
  assumes "votes_ok T (votes st)" and "v \<in> ballots st t"
  shows "vo_id v = vote_key (vo_author_key v) t" "CHR '':'' \<notin> set (vo_author_key v)" "vo_value v \<in> {-1, 0, 1}"
  using assms by (auto simp: votes_ok_def vote_row_ok_def ballots_def)

lemma tally_ballots:
  assumes ok: "votes_ok T (votes st)"
  shows "tally t (votes st) = sum vo_value (ballots st t)"
proof -
  let ?rows = "set (votes st)"
  from ok have d: "distinct (votes st)" by (auto simp: votes_ok_def distinct_map)
  from ok have rows: "\<And>x. x \<in> ?rows \<Longrightarrow> vo_id (snd x) = fst x" by (auto simp: votes_ok_def vote_row_ok_def)
  have inj: "inj_on snd ?rows" using rows by (metis inj_onI prod.collapse)
  have "tally t (votes st) = sum (weight t \<circ> snd) ?rows" by (simp add: tally_def sum_list_distinct_conv_sum_set d)
  also have "\<dots> = sum (weight t) (snd ` ?rows)" by (simp add: sum.reindex [OF inj])
  also have "\<dots> = sum vo_value (ballots st t)"
    unfolding ballots_def weight_def by (simp add: sum.inter_filter)
  finally show ?thesis .
qed

lemma scores_ok_score: "scores_ok seen name view vs \<Longrightarrow> view k = Some (core, score) \<Longrightarrow> score = tally k vs"
  by (simp add: scores_ok_def)

lemma score_of_ballots:
  assumes ok: "articles_ok seen st" and s: "score_of st t = Some s"
  shows "s = sum vo_value (ballots st t)"
proof -
  from ok have vs: "votes_ok (dom (post_view st) \<union> dom (comment_view st)) (votes st)"
    and p: "scores_ok seen article_id (post_view st) (votes st)" and c: "scores_ok seen article_id (comment_view st) (votes st)"
    by (simp_all add: articles_ok_def)
  have "s = tally t (votes st)"
  proof (cases "map_of (posts st) t")
    case (Some q)
    then have "post_view st t = Some (post_core q, po_score q)" by (simp add: post_view_def)
    with p have "po_score q = tally t (votes st)" by (rule scores_ok_score)
    with Some s show ?thesis by (simp add: score_of_def)
  next
    case None
    with s obtain q where q: "map_of (comments st) t = Some q" "s = co_score q" by (auto simp: score_of_def)
    then have "comment_view st t = Some (comment_core q, co_score q)" by (simp add: comment_view_def)
    with c have "co_score q = tally t (votes st)" by (rule scores_ok_score)
    with q show ?thesis by simp
  qed
  with tally_ballots [OF vs] show ?thesis by simp
qed

lemma run_votes_ok:
  assumes "distinct (event_ids es)"
  shows "\<exists>T. votes_ok T (votes (forum_run d es empty_forum_store))"
  using articles_ok_run [OF assms] by (auto simp: articles_ok_def)

text \<open>C13: A score counts every voter once: after any sequence of events whose content identifiers are distinct, the
  score shown on a post or a comment is the sum of the ballots on it, each of -1, 0 or 1, and no two ballots on it are
  of one key, whatever edits, moderation, awards and changed votes came in between.\<close>

theorem score_counts_every_voter_once:
  assumes "distinct (event_ids es)" and "score_of (forum_run d es empty_forum_store) t = Some s"
  shows "s = sum vo_value (ballots (forum_run d es empty_forum_store) t)
    \<and> inj_on vo_author_key (ballots (forum_run d es empty_forum_store) t)
    \<and> vo_value ` ballots (forum_run d es empty_forum_store) t \<subseteq> {-1, 0, 1}"
proof -
  let ?st = "forum_run d es empty_forum_store"
  from run_votes_ok [OF assms(1)] obtain T where vs: "votes_ok T (votes ?st)" by blast
  have "inj_on vo_author_key (ballots ?st t)"
  proof (rule inj_onI)
    fix u v assume b: "u \<in> ballots ?st t" "v \<in> ballots ?st t" and same: "vo_author_key u = vo_author_key v"
    with ballot_ok(1) [OF vs] have "vo_id u = vo_id v" by metis
    with b ballot_rows [OF vs] show "u = v" by (metis option.inject)
  qed
  moreover have "vo_value ` ballots ?st t \<subseteq> {-1, 0, 1}" using ballot_ok(3) [OF vs] by blast
  ultimately show ?thesis using score_of_ballots [OF articles_ok_run [OF assms(1)] assms(2)] by blast
qed

section \<open>The order of arrival does not matter\<close>

lemma ballot_converges:
  assumes es: "distinct (event_ids es)" and fs: "distinct (event_ids fs)"
    and ids: "list_all ascii (event_ids es)"
    and same: "\<And>v. vo_target v = t \<Longrightarrow>
      v \<in> set (accepted_votes d empty_forum_store es) \<longleftrightarrow> v \<in> set (accepted_votes d' empty_forum_store fs)"
    and b: "v \<in> ballots (forum_run d es empty_forum_store) t"
  shows "v \<in> ballots (forum_run d' fs empty_forum_store) t"
proof -
  let ?cast = "accepted_votes d empty_forum_store es" and ?cast' = "accepted_votes d' empty_forum_store fs"
  let ?of = "filter (\<lambda>u. vo_id u = vo_id v)"
  from run_votes_ok [OF es] obtain T where vs: "votes_ok T (votes (forum_run d es empty_forum_store))" by blast
  from run_votes_ok [OF fs] obtain T' where vs': "votes_ok T' (votes (forum_run d' fs empty_forum_store))" by blast
  from b ballot_rows [OF vs] have v: "vo_target v = t" and row: "winner (?of ?cast) = Some v"
    using stored_vote_is_winner [OF es] by metis+
  have key: "vo_target u = t" if "vo_id u = vo_id v" and "u \<in> set ?cast \<or> u \<in> set ?cast'" for u
  proof -
    from that(2) accepted_shape have "vo_id u = vote_key (vo_author_key u) (vo_target u)" "CHR '':'' \<notin> set (vo_author_key u)" by blast+
    with that(1) ballot_ok(1,2) [OF vs b] vote_key_eq show ?thesis by metis
  qed
  have "set (?of ?cast') = set (?of ?cast)" using key same by auto
  moreover have "clear_ids (?of ?cast)"
    unfolding clear_ids_def
  proof (intro conjI ballI)
    show "inj_on vo_content_id (set (?of ?cast))" by (rule inj_on_subset [OF accepted_ids_inj [OF es]]) auto
    show "ascii (vo_content_id u)" if "u \<in> set (?of ?cast)" for u
      using accepted_shape [of u d empty_forum_store es] that ids by (auto simp: list_all_iff)
  qed
  ultimately have "winner (?of ?cast') = Some v" using winner_order_free row by metis
  then show ?thesis using v by (simp add: ballot_rows [OF vs'] stored_vote_is_winner [OF fs])
qed

text \<open>C12: Votes converge: two nodes that took their events in different orders (or through different deployments),
  and accepted the same votes on an article, keep the same ballots on it and show the same score, because each voter's
  ballot is the last signed one and not the last to arrive. The identifiers of events are distinct and in ASCII.\<close>

theorem votes_converge:
  assumes "distinct (event_ids es)" and "distinct (event_ids fs)"
    and "list_all ascii (event_ids es)" and "list_all ascii (event_ids fs)"
    and "\<And>v. vo_target v = t \<Longrightarrow>
      v \<in> set (accepted_votes d empty_forum_store es) \<longleftrightarrow> v \<in> set (accepted_votes d' empty_forum_store fs)"
  shows "ballots (forum_run d es empty_forum_store) t = ballots (forum_run d' fs empty_forum_store) t
    \<and> (\<forall>s s'. score_of (forum_run d es empty_forum_store) t = Some s
         \<longrightarrow> score_of (forum_run d' fs empty_forum_store) t = Some s' \<longrightarrow> s = s')"
proof -
  have same: "ballots (forum_run d es empty_forum_store) t = ballots (forum_run d' fs empty_forum_store) t"
    using ballot_converges [OF assms(1,2,3,5)] ballot_converges [OF assms(2,1,4) assms(5) [symmetric]] by blast
  then show ?thesis
    using score_of_ballots [OF articles_ok_run [OF assms(1), of d], of t]
      score_of_ballots [OF articles_ok_run [OF assms(2), of d'], of t] by metis
qed

section \<open>Nothing an author wrote is erased\<close>

text \<open>What a step leaves of an article: the signed part always, the text unless its author edits it.\<close>

definition edits_post :: "forum_event \<Rightarrow> string \<Rightarrow> string \<Rightarrow> bool" where
  "edits_post e t author \<longleftrightarrow> (case ev_op e of Op_post_update m \<Rightarrow> pu_target m = t \<and> env_author (ev_env e) = author | _ \<Rightarrow> False)"

definition edits_comment :: "forum_event \<Rightarrow> string \<Rightarrow> string \<Rightarrow> bool" where
  "edits_comment e t author \<longleftrightarrow> (case ev_op e of Op_comment_update m \<Rightarrow> ct_target m = t \<and> env_author (ev_env e) = author | _ \<Rightarrow> False)"

definition post_text :: "forum_store \<Rightarrow> string \<Rightarrow> (post_signed \<times> string) option" where
  "post_text st k = map_option (\<lambda>p. (post_signed p, po_body_markdown p)) (map_of (posts st) k)"

definition comment_text :: "forum_store \<Rightarrow> string \<Rightarrow> (comment_signed \<times> string) option" where
  "comment_text st k = map_option (\<lambda>c. (comment_signed c, co_body_markdown c)) (map_of (comments st) k)"

lemma post_text_view: "post_text st k = map_option (\<lambda>((s, b, _), _). (s, b)) (post_view st k)"
  by (simp add: post_text_def post_view_def post_core_def option.map_comp comp_def)

lemma comment_text_view: "comment_text st k = map_option fst (comment_view st k)"
  by (simp add: comment_text_def comment_view_def comment_core_def option.map_comp comp_def)

lemma texts_of_views:
  "post_view st' = post_view st \<Longrightarrow> post_text st' = post_text st"
  "comment_view st' = comment_view st \<Longrightarrow> comment_text st' = comment_text st"
  by (simp_all add: fun_eq_iff post_text_view comment_text_view)

lemma rescored_texts:
  "post_view st' = rescored t delta (post_view st) \<Longrightarrow> post_text st' = post_text st"
  "comment_view st' = rescored t delta (comment_view st) \<Longrightarrow> comment_text st' = comment_text st"
  by (auto simp: fun_eq_iff post_text_view comment_text_view rescored_def option.map_comp comp_def split_beta intro!: option.map_cong)

lemma vote_texts:
  assumes "articles_ok seen st"
  shows "post_text (VoteCast_project m env st) = post_text st" "comment_text (VoteCast_project m env st) = comment_text st"
proof -
  from assms have disjoint: "dom (post_view st) \<inter> dom (comment_view st) = {}" by (simp add: articles_ok_def)
  show "post_text (VoteCast_project m env st) = post_text st"
    by (cases "vote_supersedes (env_time env) (content_id env) (map_of (votes st) (vo_id (vote_row m env)))")
      (auto simp: VoteCast_loses intro: rescored_texts(1) VoteCast_wins(2) [OF _ disjoint])
  show "comment_text (VoteCast_project m env st) = comment_text st"
    by (cases "vote_supersedes (env_time env) (content_id env) (map_of (votes st) (vo_id (vote_row m env)))")
      (auto simp: VoteCast_loses intro: rescored_texts(2) VoteCast_wins(3) [OF _ disjoint])
qed


definition kept :: "('k \<Rightarrow> (('a \<times> string \<times> 'b) \<times> string) option) \<Rightarrow> ('k \<Rightarrow> (('a \<times> string \<times> 'b) \<times> string) option) \<Rightarrow> ('k \<Rightarrow> string \<Rightarrow> bool) \<Rightarrow> bool" where
  "kept view view' edits \<longleftrightarrow> (\<forall>k s b. view k = Some (s, b) \<longrightarrow> (\<exists>b'. view' k = Some (s, b') \<and> (b' = b \<or> edits k (fst (snd s)))))"

lemma kept_same [simp]: "view' = view \<Longrightarrow> kept view view' edits"
  by (simp add: kept_def)

lemma kept_new: "k \<notin> dom view \<Longrightarrow> kept view (view(k \<mapsto> x)) edits"
  by (auto simp: kept_def)

lemma kept_edit: "view k = Some (s, b) \<Longrightarrow> edits k (fst (snd s)) \<Longrightarrow> kept view (view(k \<mapsto> (s, b'))) edits"
  by (auto simp: kept_def)

lemma kept_trans:
  "kept u v f \<Longrightarrow> kept v w g \<Longrightarrow> (\<And>k a. f k a \<Longrightarrow> h k a) \<Longrightarrow> (\<And>k a. g k a \<Longrightarrow> h k a) \<Longrightarrow> kept u w h"
  unfolding kept_def by metis

lemma text_dom: "dom (post_text st) = dom (post_view st)" "dom (comment_text st) = dom (comment_view st)"
  by (auto simp: dom_def post_text_def comment_text_def post_view_def comment_view_def)

lemma new_texts:
  "post_view st' = (post_view st)(k \<mapsto> (post_core p, n)) \<Longrightarrow> post_text st' = (post_text st)(k \<mapsto> (post_signed p, po_body_markdown p))"
  "comment_view st' = (comment_view st)(k \<mapsto> (comment_core c, n)) \<Longrightarrow> comment_text st' = (comment_text st)(k \<mapsto> (comment_signed c, co_body_markdown c))"
  by (simp_all add: fun_eq_iff post_text_view comment_text_view post_core_def comment_core_def)

lemma post_edit_texts:
  assumes "PostUpdate_authorize st m (ev_env e) = Allowed" and "ev_op e = Op_post_update m"
  shows "kept (post_text st) (post_text (PostUpdate_project m (ev_env e) st)) (edits_post e)"
    "comment_text (PostUpdate_project m (ev_env e) st) = comment_text st"
proof -
  from assms(1) obtain p where p: "map_of (posts st) (pu_target m) = Some p" "po_author_key p = env_author (ev_env e)"
    by (auto simp: PostUpdate_authorize_def split: option.splits if_splits)
  then have "post_text (PostUpdate_project m (ev_env e) st) = (post_text st)(pu_target m \<mapsto> (post_signed p, pu_body_markdown m))"
    by (simp add: PostUpdate_project_def post_text_def fun_eq_iff post_signed_def)
  then show "kept (post_text st) (post_text (PostUpdate_project m (ev_env e) st)) (edits_post e)"
    using p assms(2) by (auto intro!: kept_edit simp: edits_post_def post_text_def post_signed_def)
  show "comment_text (PostUpdate_project m (ev_env e) st) = comment_text st"
    by (rule texts_of_views(2)) (rule PostUpdate_views(2))
qed

lemma comment_edit_texts:
  assumes "CommentUpdate_authorize st m (ev_env e) = Allowed" and "ev_op e = Op_comment_update m"
  shows "kept (comment_text st) (comment_text (CommentUpdate_project m (ev_env e) st)) (edits_comment e)"
    "post_text (CommentUpdate_project m (ev_env e) st) = post_text st"
proof -
  from assms(1) obtain c where c: "map_of (comments st) (ct_target m) = Some c" "co_author_key c = env_author (ev_env e)"
    by (auto simp: CommentUpdate_authorize_def split: option.splits if_splits)
  then have "comment_text (CommentUpdate_project m (ev_env e) st) = (comment_text st)(ct_target m \<mapsto> (comment_signed c, ct_body_markdown m))"
    by (simp add: CommentUpdate_project_def comment_text_def fun_eq_iff comment_signed_def)
  then show "kept (comment_text st) (comment_text (CommentUpdate_project m (ev_env e) st)) (edits_comment e)"
    using c assms(2) by (auto intro!: kept_edit simp: edits_comment_def comment_text_def comment_signed_def)
  show "post_text (CommentUpdate_project m (ev_env e) st) = post_text st"
    by (rule texts_of_views(1)) (rule CommentUpdate_views(2))
qed

lemma step_texts:
  assumes ok: "articles_ok seen st" and fresh: "content_id (ev_env e) \<notin> seen"
  shows "kept (post_text st) (post_text (forum_step d st e)) (edits_post e)
    \<and> kept (comment_text st) (comment_text (forum_step d st e)) (edits_comment e)"
proof (cases "forum_accepts d st e")
  case False
  then show ?thesis by (simp add: forum_step_def)
next
  case acc: True
  note new = unseen(1,2) [OF ok fresh, folded text_dom]
  show ?thesis
  proof (cases "authors (ev_op e)")
    case False
    with others_keep_articles [OF articles_ok_ids [OF ok], of "ev_op e" d "ev_origin e" "ev_env e"] acc
    have "post_view (forum_step d st e) = post_view st" "comment_view (forum_step d st e) = comment_view st"
      by (simp_all add: forum_step_def same_articles_def)
    from texts_of_views(1) [OF this(1)] texts_of_views(2) [OF this(2)] show ?thesis by simp
  next
    case True
    then consider m where "ev_op e = Op_post_create m" | m where "ev_op e = Op_comment_create m" | m where "ev_op e = Op_vote m"
      | m where "ev_op e = Op_post_update m" | m where "ev_op e = Op_comment_update m"
      by (cases "ev_op e") auto
    then show ?thesis
    proof cases
      case 1
      with acc show ?thesis
        by (simp add: forum_step_def new_texts(1) [OF PostCreate_views(1)] texts_of_views(2) [OF PostCreate_views(2)] kept_new new)
    next
      case 2
      note v = CommentCreate_views [OF articles_ok_ids [OF ok]]
      from 2 acc show ?thesis
        by (simp add: forum_step_def new_texts(2) [OF v(1)] texts_of_views(1) [OF v(2)] kept_new new)
    next
      case 3
      with acc show ?thesis by (simp add: forum_step_def vote_texts [OF ok])
    next
      case 4
      with acc post_edit_texts [of st m e] show ?thesis by (simp add: forum_step_def forum_accepts_def)
    next
      case 5
      with acc comment_edit_texts [of st m e] show ?thesis by (simp add: forum_step_def forum_accepts_def)
    qed
  qed
qed

lemma run_texts:
  assumes "articles_ok seen st" and "distinct (event_ids fs)" and "set (event_ids fs) \<inter> seen = {}"
  shows "kept (post_text st) (post_text (forum_run d fs st)) (\<lambda>k a. \<exists>e\<in>set fs. edits_post e k a)
    \<and> kept (comment_text st) (comment_text (forum_run d fs st)) (\<lambda>k a. \<exists>e\<in>set fs. edits_comment e k a)"
  using assms
proof (induction fs arbitrary: seen st)
  case (Cons e fs)
  then have fresh: "content_id (ev_env e) \<notin> seen" by (simp add: event_ids_def)
  note ok = articles_ok_step [OF Cons.prems(1) fresh, of d]
  have "set (event_ids fs) \<inter> insert (content_id (ev_env e)) seen = {}" "distinct (event_ids fs)"
    using Cons.prems by (auto simp: event_ids_def)
  from step_texts [OF Cons.prems(1) fresh, of d] Cons.IH [OF ok this(2,1)] show ?case
    using kept_trans [of "post_text st" "post_text (forum_step d st e)" "edits_post e" "post_text (forum_run d fs (forum_step d st e))"]
      kept_trans [of "comment_text st" "comment_text (forum_step d st e)" "edits_comment e" "comment_text (forum_run d fs (forum_step d st e))"]
    by auto
qed simp

text \<open>C11: Nothing an author published is erased: a post or a comment that is in the store stays in it whatever is
  accepted afterwards, with the same author, community or thread, title, attachments and time; no moderator, owner or
  node changes its text, which differs only if the author's own key signed an edit of it. Removal, hiding and deletion
  are marks on the row.\<close>

theorem content_never_erased:
  assumes "distinct (event_ids (es @ fs))"
  shows "(\<forall>p. map_of (posts (forum_run d es empty_forum_store)) t = Some p \<longrightarrow>
      (\<exists>q. map_of (posts (forum_run d (es @ fs) empty_forum_store)) t = Some q \<and> post_signed q = post_signed p
        \<and> (po_body_markdown q = po_body_markdown p \<or> (\<exists>e\<in>set fs. edits_post e t (po_author_key p)))))
    \<and> (\<forall>c. map_of (comments (forum_run d es empty_forum_store)) t = Some c \<longrightarrow>
      (\<exists>q. map_of (comments (forum_run d (es @ fs) empty_forum_store)) t = Some q \<and> comment_signed q = comment_signed c
        \<and> (co_body_markdown q = co_body_markdown c \<or> (\<exists>e\<in>set fs. edits_comment e t (co_author_key c)))))"
proof -
  let ?st = "forum_run d es empty_forum_store"
  from assms have d: "distinct (event_ids es)" "distinct (event_ids fs)" "set (event_ids fs) \<inter> set (event_ids es) = {}"
    by (auto simp: event_ids_def)
  have run: "forum_run d (es @ fs) empty_forum_store = forum_run d fs ?st" by (simp add: forum_run_def)
  from run_texts [OF articles_ok_run [OF d(1)] d(2,3), of d]
  have p: "kept (post_text ?st) (post_text (forum_run d fs ?st)) (\<lambda>k a. \<exists>e\<in>set fs. edits_post e k a)"
    and c: "kept (comment_text ?st) (comment_text (forum_run d fs ?st)) (\<lambda>k a. \<exists>e\<in>set fs. edits_comment e k a)"
    by blast+
  have author: "fst (snd (post_signed q)) = po_author_key q" "fst (snd (comment_signed q')) = co_author_key q'" for q q'
    by (simp_all add: post_signed_def comment_signed_def)
  show ?thesis
    unfolding run
  proof (intro conjI allI impI)
    fix q assume "map_of (posts ?st) t = Some q"
    then have "post_text ?st t = Some (post_signed q, po_body_markdown q)" by (simp add: post_text_def)
    with p obtain b where "post_text (forum_run d fs ?st) t = Some (post_signed q, b)"
      "b = po_body_markdown q \<or> (\<exists>e\<in>set fs. edits_post e t (fst (snd (post_signed q))))" unfolding kept_def by blast
    then show "\<exists>r. map_of (posts (forum_run d fs ?st)) t = Some r \<and> post_signed r = post_signed q
        \<and> (po_body_markdown r = po_body_markdown q \<or> (\<exists>e\<in>set fs. edits_post e t (po_author_key q)))"
      unfolding author by (auto simp: post_text_def)
  next
    fix q assume "map_of (comments ?st) t = Some q"
    then have "comment_text ?st t = Some (comment_signed q, co_body_markdown q)" by (simp add: comment_text_def)
    with c obtain b where "comment_text (forum_run d fs ?st) t = Some (comment_signed q, b)"
      "b = co_body_markdown q \<or> (\<exists>e\<in>set fs. edits_comment e t (fst (snd (comment_signed q))))" unfolding kept_def by blast
    then show "\<exists>r. map_of (comments (forum_run d fs ?st)) t = Some r \<and> comment_signed r = comment_signed q
        \<and> (co_body_markdown r = co_body_markdown q \<or> (\<exists>e\<in>set fs. edits_comment e t (co_author_key q)))"
      unfolding author by (auto simp: comment_text_def)
  qed
qed


section \<open>An example\<close>

definition demo_x :: string where "demo_x = ''x''"

definition demo_text :: post_create_msg where
  "demo_text = \<lparr>pc_title = ''t'', pc_kind = 1, pc_body_markdown = ''b'', pc_url = [], pc_attachments = [], pc_poll = None,
     pc_crosspost_of = [], pc_flair = [], pc_flags = None\<rparr>"

definition posted :: forum_event where "posted = demo_event key_o demo_x 10 ''jb1p'' (Op_post_create demo_text)"
definition up :: forum_event where "up = demo_event key_a demo_x 20 ''jb1u'' (Op_vote \<lparr>vc_target = ''jb1p'', vc_value = 1\<rparr>)"
definition down :: forum_event where "down = demo_event key_a demo_x 30 ''jb1d'' (Op_vote \<lparr>vc_target = ''jb1p'', vc_value = -1\<rparr>)"
lemma demo_title: "utf16_length (js_trim ''t'') = Suc 0" "code_point_count (js_trim ''t'') = Suc 0" "code_point_count ''b'' = Suc 0"
    "mentioned_keys ''t\<newline>b'' = []"
  by (simp_all add: js_trim_t code_point_count_def continues_def utf16_length_def utf16_units_def mentioned_keys_def
      mention_at_def starts_with_def unique_def)

lemma demo_text_valid: "PostCreate_validate demo_text (ev_env posted) = Valid"
  by (simp add: PostCreate_validate_def demo_text_def posted_def demo_title demo_x_def MAX_TITLE_CHARS_def MAX_BODY_CHARS_def
      POST_KIND_UNSPECIFIED_def POST_KIND_LINK_def POST_KIND_IMAGE_def POST_KIND_VIDEO_def POST_KIND_POLL_def POST_KIND_CROSSPOST_def)

lemma posted_accepted: "forum_accepts demo_deps empty_forum_store posted"
  using demo_text_valid
  by (simp add: posted_def forum_accepts_def PostCreate_authorize_def demo_text_def env_auth_def load_auth_context_def demo_x_def
      empty_forum_store_def is_content_id_def starts_with_def)

lemma after_posted:
  "forum_step demo_deps empty_forum_store posted = empty_forum_store\<lparr>posts := [(''jb1p'', created_post demo_text (ev_env posted))]\<rparr>"
proof -
  have "add_mention_notifications (pc_title demo_text @ CHR 0x0A # pc_body_markdown demo_text) c a t s = s" for c a t s
    by (simp add: add_mention_notifications_def demo_text_def demo_title)
  then show ?thesis
    using posted_accepted
  by (simp add: forum_step_def posted_def PostCreate_project_def Let_def) (simp add: empty_forum_store_def)
qed

lemma vote_demo:
  assumes "map_of (posts st) ''jb1p'' = Some p" and "po_community p = demo_x" and "communities st = []" and "v \<in> {-1, 0, 1}"
  shows "forum_accepts demo_deps st (demo_event k demo_x t c (Op_vote \<lparr>vc_target = ''jb1p'', vc_value = v\<rparr>))"
  using assms
  by (auto simp: forum_accepts_def VoteCast_authorize_def engage_authorize_def parent_post_def VoteCast_validate_def is_content_id_def
      starts_with_def env_auth_def load_auth_context_def demo_x_def)

lemma posted_post: "po_community (created_post demo_text (ev_env posted)) = demo_x" "po_score (created_post demo_text (ev_env posted)) = 0"
    "po_author_key (created_post demo_text (ev_env posted)) = hex key_o"
  by (simp_all add: created_post_def posted_def)

lemma vote_steps:
  "communities (VoteCast_project m env st) = communities st"
  "(case map_of (posts (VoteCast_project m env st)) k of None \<Rightarrow> None | Some p \<Rightarrow> Some (po_community p))
     = (case map_of (posts st) k of None \<Rightarrow> None | Some p \<Rightarrow> Some (po_community p))"
  by (auto simp: VoteCast_project_def Let_def apply_karma_def split: option.split)

definition shown :: "forum_store \<Rightarrow> bool" where
  "shown st \<longleftrightarrow> communities st = [] \<and> (\<exists>p. map_of (posts st) ''jb1p'' = Some p \<and> po_community p = demo_x)"

lemma shown_posted: "shown (forum_step demo_deps empty_forum_store posted)"
  by (simp add: after_posted shown_def posted_post) (simp add: empty_forum_store_def)

lemma shown_vote:
  assumes "shown st" and "e \<in> {up, down}"
  shows "forum_accepts demo_deps st e" "shown (forum_step demo_deps st e)"
proof -
  from assms(1) obtain p where p: "map_of (posts st) ''jb1p'' = Some p" "po_community p = demo_x" "communities st = []"
    by (auto simp: shown_def)
  show acc: "forum_accepts demo_deps st e"
    using vote_demo [OF p, of 1] vote_demo [OF p, of "-1"] assms(2) by (auto simp: up_def down_def)
  from assms(2) obtain m where m: "ev_op e = Op_vote m" by (auto simp: up_def down_def)
  have "case map_of (posts (VoteCast_project m (ev_env e) st)) ''jb1p'' of None \<Rightarrow> False | Some p \<Rightarrow> po_community p = demo_x"
    using vote_steps(2) [of m "ev_env e" st "''jb1p''"] p by (auto split: option.splits)
  then show "shown (forum_step demo_deps st e)"
    using acc m p vote_steps(1) by (auto simp: forum_step_def shown_def split: option.splits)
qed

lemma cast_posted: "cast demo_deps st posted = []"
  by (simp add: cast_def posted_def)

lemma cast_demo:
  "shown st \<Longrightarrow> cast demo_deps st up = [vote_row \<lparr>vc_target = ''jb1p'', vc_value = 1\<rparr> (ev_env up)]"
  "shown st \<Longrightarrow> cast demo_deps st down = [vote_row \<lparr>vc_target = ''jb1p'', vc_value = -1\<rparr> (ev_env down)]"
  using shown_vote(1) [of st up] shown_vote(1) [of st down] by (simp_all add: cast_def up_def down_def)

lemma demo_ids: "event_ids [posted, up, down] = [''jb1p'', ''jb1u'', ''jb1d'']" "event_ids [posted, down, up] = [''jb1p'', ''jb1d'', ''jb1u'']"
    "event_ids [posted, up] = [''jb1p'', ''jb1u'']"
  by (simp_all add: event_ids_def posted_def up_def down_def)

lemma demo_score: "score_of (forum_run demo_deps [posted, up] empty_forum_store) ''jb1p'' = Some 1"
proof -
  let ?st = "empty_forum_store\<lparr>posts := [(''jb1p'', created_post demo_text (ev_env posted))]\<rparr>"
  have "forum_accepts demo_deps ?st up" using shown_vote(1) [OF shown_posted, of up] by (simp add: after_posted)
  then have "forum_run demo_deps [posted, up] empty_forum_store
      = VoteCast_project \<lparr>vc_target = ''jb1p'', vc_value = 1\<rparr> (ev_env up) ?st"
    by (simp add: after_posted) (simp add: forum_step_def up_def)
  then show ?thesis
    by (simp add: VoteCast_project_def Let_def vote_supersedes_def apply_karma_def posted_post score_of_def)
      (simp add: empty_forum_store_def vote_supersedes_def posted_post)
qed

theorem score_counts_every_voter_once_witness:
  "(1 :: int) = sum vo_value (ballots (forum_run demo_deps [posted, up] empty_forum_store) ''jb1p'')"
  using score_counts_every_voter_once [of "[posted, up]" demo_deps "''jb1p''" 1] demo_score demo_ids(3) by simp

theorem votes_converge_witness:
  "ballots (forum_run demo_deps [posted, up, down] empty_forum_store) ''jb1p''
     = ballots (forum_run demo_deps [posted, down, up] empty_forum_store) ''jb1p''"
proof -
  have cast: "accepted_votes demo_deps empty_forum_store [posted, up, down]
      = [vote_row \<lparr>vc_target = ''jb1p'', vc_value = 1\<rparr> (ev_env up), vote_row \<lparr>vc_target = ''jb1p'', vc_value = -1\<rparr> (ev_env down)]"
    using cast_demo shown_vote(2) [of _ up] shown_posted by (simp add: cast_posted)
  have cast': "accepted_votes demo_deps empty_forum_store [posted, down, up]
      = [vote_row \<lparr>vc_target = ''jb1p'', vc_value = -1\<rparr> (ev_env down), vote_row \<lparr>vc_target = ''jb1p'', vc_value = 1\<rparr> (ev_env up)]"
    using cast_demo shown_vote(2) [of _ down] shown_posted by (simp add: cast_posted)
  show ?thesis
    using votes_converge [of "[posted, up, down]" "[posted, down, up]" "''jb1p''" demo_deps demo_deps]
    unfolding demo_ids cast cast' by (auto simp: ascii_def)
qed

theorem content_never_erased_witness:
  "\<exists>q. map_of (posts (forum_run demo_deps ([posted] @ [up, down]) empty_forum_store)) ''jb1p'' = Some q
     \<and> po_body_markdown q = ''b''"
proof -
  have "map_of (posts (forum_run demo_deps [posted] empty_forum_store)) ''jb1p'' = Some (created_post demo_text (ev_env posted))"
    by (simp add: after_posted)
  with content_never_erased [of "[posted]" "[up, down]" demo_deps "''jb1p''"] obtain q where
    "map_of (posts (forum_run demo_deps ([posted] @ [up, down]) empty_forum_store)) ''jb1p'' = Some q"
    "po_body_markdown q = po_body_markdown (created_post demo_text (ev_env posted))
       \<or> (\<exists>e\<in>set [up, down]. edits_post e ''jb1p'' (po_author_key (created_post demo_text (ev_env posted))))"
    using demo_ids(1) by (auto simp del: forum_run_Cons)
  moreover have "\<not> edits_post e ''jb1p'' a" if "e \<in> set [up, down]" for e a
    using that by (auto simp: edits_post_def up_def down_def)
  moreover have "po_body_markdown (created_post demo_text (ev_env posted)) = ''b''" by (simp add: created_post_def demo_text_def)
  ultimately show ?thesis by metis
qed

end
