(* ===== verification/JB_Signal.thy ===== *)
theory JB_Signal
  imports JB_Identity
begin

text \<open>
  The data of the Signal plane (\<open>backend/src/features/signal\<close>): the documents its handlers project, the store they
  make up, and the text rules its handlers share. A decimal string that holds a \<open>bigint\<close> (\<open>sequence\<close>,
  \<open>lastCounter\<close>, \<open>revision\<close>) is the integer itself. The Unicode operations of the language are parameters.
\<close>

section \<open>Documents\<close>

record geo_area =
  ga_lat_e5 :: int
  ga_lon_e5 :: int
  ga_radius_m :: int
  ga_place_name :: string

record claim_doc =
  cl_kind :: int
  cl_value :: string
  cl_proof :: string
  cl_asserted_at_ms :: int

record signal_channel_doc =
  ch_channel_id :: string
  ch_name :: string
  ch_name_skeleton :: string
  ch_confusable_with :: "string list"
  ch_description :: string
  ch_kind :: int
  ch_categories :: "int list"
  ch_default_area :: "geo_area option"
  ch_claims :: "claim_doc list"
  ch_original_signing_key :: string
  ch_current_signing_key :: string
  ch_kem_public_key :: string
  ch_pq_key :: string
  ch_language :: string
  ch_valid_from_ms :: int
  ch_declared_at_ms :: int
  ch_rotated_at_ms :: "int option"
  ch_retired_at_ms :: "int option"
  ch_retirement_note :: string
  ch_successor_key :: string
  ch_last_sequence :: int

record signal_channel_vouch_doc =
  cv_id :: string
  cv_channel :: string
  cv_voucher_key :: string
  cv_level :: int
  cv_basis :: string
  cv_asserted_at_ms :: int
  cv_content_id :: string

record signal_push_subscription_doc =
  ps_id :: string
  ps_channel :: string
  ps_subscriber_key :: string
  ps_push_token :: string
  ps_updated_at_ms :: int
  ps_content_id :: string

record signal_broadcast_doc =
  bd_id :: string
  bd_channel :: string
  bd_sequence :: int
  bd_previous_sequence :: int
  bd_severity :: int
  bd_category :: int
  bd_headline :: string
  bd_detail :: string
  bd_area :: "geo_area option"
  bd_expires_at_ms :: int
  bd_supersedes :: string
  bd_superseded_by :: string
  bd_language :: string
  bd_author_key :: string
  bd_created_at_ms :: int
  bd_revoked_at_ms :: "int option"
  bd_revoke_reason :: int
  bd_revoke_note :: string
  bd_revoke_content_id :: string

record signal_checkin_doc =
  ck_id :: string
  ck_author_key :: string
  ck_status :: int
  ck_area :: "geo_area option"
  ck_note :: string
  ck_notify_keys :: "string list"
  ck_created_at_ms :: int
  ck_supersedes :: string

record signal_missing_person_doc =
  mp_id :: string
  mp_content_id :: string
  mp_reporter_key :: string
  mp_name :: string
  mp_age :: int
  mp_description :: string
  mp_last_seen_place :: string
  mp_last_seen_at_ms :: int
  mp_contact_channel :: string
  mp_photos :: "string list"
  mp_status :: int
  mp_reported_at_ms :: int
  mp_updated_at_ms :: int

record signal_resource_doc =
  rs_id :: string
  rs_reporter_key :: string
  rs_kind :: int
  rs_area :: "geo_area option"
  rs_detail :: string
  rs_state :: int
  rs_observed_at_ms :: int
  rs_reported_at_ms :: int

record signal_prekey_doc =
  pk_id :: string
  pk_identity_key :: string
  pk_signed_prekey :: string
  pk_signed_prekey_signature :: string
  pk_kem_public_key :: string
  pk_one_time_prekeys :: "string list"
  pk_valid_until_ms :: int
  pk_content_id :: string

record signal_session_doc =
  ss_id :: string
  ss_sender_key :: string
  ss_recipient_key :: string
  ss_kem_ciphertext :: string
  ss_ephemeral_x25519 :: string
  ss_used_prekey_id :: string
  ss_ciphertext :: string
  ss_created_at_ms :: int
  ss_last_counter :: int

record signal_message_doc =
  sm_id :: string
  sm_session :: string
  sm_sender_key :: string
  sm_recipient_key :: string
  sm_counter :: int
  sm_header :: string
  sm_ciphertext :: string
  sm_attachment_refs :: "string list"
  sm_created_at_ms :: int
  sm_delivery_state :: int
  sm_delivery_updated_at_ms :: int

record signal_group_doc =
  gr_id :: string
  gr_name :: string
  gr_admin_key :: string
  gr_member_keys :: "string list"
  gr_group_key_wrapped :: string
  gr_created_at_ms :: int
  gr_updated_at_ms :: int

record signal_directory_profile_doc =
  dp_id :: string
  dp_codename :: string
  dp_identity_key :: string
  dp_display_name :: string
  dp_name_skeleton :: string
  dp_bio :: string
  dp_claims :: "claim_doc list"
  dp_rns_public_key :: string
  dp_lxmf_destination_hash :: string
  dp_transport_binding_signature :: string
  dp_languages :: "string list"
  dp_discoverable :: bool
  dp_revision :: int
  dp_updated_at_ms :: int
  dp_content_id :: string

text \<open>The certificate rows have the fields of the forum's, in collections of their own.\<close>

type_synonym signal_certificate_doc = certificate_doc
type_synonym signal_revocation_doc = revocation_doc

record signal_store =
  sg_channels :: "signal_channel_doc collection"
  sg_vouches :: "signal_channel_vouch_doc collection"
  sg_subscriptions :: "signal_push_subscription_doc collection"
  sg_broadcasts :: "signal_broadcast_doc collection"
  sg_checkins :: "signal_checkin_doc collection"
  sg_latest_checkins :: "signal_checkin_doc collection"
  sg_missing :: "signal_missing_person_doc collection"
  sg_resources :: "signal_resource_doc collection"
  sg_prekeys :: "signal_prekey_doc collection"
  sg_sessions :: "signal_session_doc collection"
  sg_messages :: "signal_message_doc collection"
  sg_groups :: "signal_group_doc collection"
  sg_profiles :: "signal_directory_profile_doc collection"
  sg_certificates :: "signal_certificate_doc collection"
  sg_revocations :: "signal_revocation_doc collection"

definition empty_signal_store :: signal_store where
  "empty_signal_store =
     \<lparr>sg_channels = [], sg_vouches = [], sg_subscriptions = [], sg_broadcasts = [], sg_checkins = [],
      sg_latest_checkins = [], sg_missing = [], sg_resources = [], sg_prekeys = [], sg_sessions = [],
      sg_messages = [], sg_groups = [], sg_profiles = [], sg_certificates = [], sg_revocations = []\<rparr>"

section \<open>Parameters\<close>

text \<open>
  The signature functions of the SDK, and of the language \<open>normalize('NFKC')\<close>, \<open>normalize('NFKD')\<close>,
  \<open>toLowerCase()\<close>, \<open>toLocaleLowerCase()\<close> and the tests \<open>\p{Mark}\<close> and \<open>\p{Letter}\<close> or \<open>\p{Number}\<close> of a character.
\<close>

record signal_deps =
  sd_ed_verify :: "bytes \<Rightarrow> bytes \<Rightarrow> bytes \<Rightarrow> bool"
  sd_mldsa_verify :: "bytes \<Rightarrow> bytes \<Rightarrow> bytes \<Rightarrow> bool"
  sd_nfkc :: "string \<Rightarrow> string"
  sd_nfkd :: "string \<Rightarrow> string"
  sd_lower :: "string \<Rightarrow> string"
  sd_locale_lower :: "string \<Rightarrow> string"
  sd_mark :: "string \<Rightarrow> bool"
  sd_letter_or_number :: "string \<Rightarrow> bool"

section \<open>Text\<close>

text \<open>\<open>[...s]\<close>: the characters of a text, each by its UTF-8 bytes.\<close>

fun characters :: "string \<Rightarrow> string list" where
  "characters [] = []"
| "characters (c # s) =
     (case characters s of
        [] \<Rightarrow> [[c]]
      | x # xs \<Rightarrow> if continues (hd x) then (c # x) # xs else [c] # x # xs)"

text \<open>The pattern \<open>/^[a-z]{2,3}(?:-[A-Za-z0-9]{2,8})*$/\<close>; the argument counts the characters of the running part.\<close>

definition lower_letter :: "char \<Rightarrow> bool" where
  "lower_letter c \<longleftrightarrow> in_range (CHR ''a'') (CHR ''z'') c"

fun subtags :: "nat \<Rightarrow> string \<Rightarrow> bool" where
  "subtags n [] \<longleftrightarrow> 2 \<le> n \<and> n \<le> 8"
| "subtags n (c # s) \<longleftrightarrow>
     (if c = CHR ''-'' then 2 \<le> n \<and> n \<le> 8 \<and> subtags 0 s
      else (lower_alnum c \<or> in_range (CHR ''A'') (CHR ''Z'') c) \<and> subtags (Suc n) s)"

definition LANGUAGE_PATTERN :: "string \<Rightarrow> bool" where
  "LANGUAGE_PATTERN s \<longleftrightarrow>
     (let primary = takeWhile lower_letter s
      in (length primary = 2 \<or> length primary = 3)
         \<and> (case drop (length primary) s of [] \<Rightarrow> True | c # rest \<Rightarrow> c = CHR ''-'' \<and> subtags 0 rest))"

text \<open>The wire messages \<open>GeoArea\<close> and \<open>IdentityClaim\<close> carry the fields of the documents they become.\<close>

record identity_claim_msg =
  ic_kind :: int
  ic_value :: string
  ic_proof :: string
  ic_asserted_at_ms :: int

definition claims_of :: "identity_claim_msg list \<Rightarrow> claim_doc list" where
  "claims_of = map (\<lambda>c. \<lparr>cl_kind = ic_kind c, cl_value = ic_value c, cl_proof = ic_proof c,
     cl_asserted_at_ms = js_number (ic_asserted_at_ms c)\<rparr>)"

text \<open>\<open>a || b\<close> on numbers.\<close>

definition nonzero_or :: "int \<Rightarrow> int \<Rightarrow> int" where
  "nonzero_or a b = (if a = 0 then b else a)"

text \<open>\<open>BroadcastCategory\<close> and the other enumerations: 0 is the unset value of each.\<close>

definition UNSPECIFIED :: int where "UNSPECIFIED = 0"

definition scope_equals_channel :: "string \<Rightarrow> parsed_envelope \<Rightarrow> bool" where
  "scope_equals_channel channel env \<longleftrightarrow> channel \<noteq> [] \<and> channel = env_scope env"

end
