(* ===== verification/JB_Channels.thy ===== *)
theory JB_Channels
  imports JB_Signal
begin

text \<open>
  Channels and what they say (\<open>channel/channel.handlers.ts\<close>, \<open>channel/channel-subscribe.handler.ts\<close>,
  \<open>broadcast/broadcast.handlers.ts\<close>): a channel is declared by its signing key and identified by it, only the
  current key changes it or speaks for it, others vouch for it and subscribe to it.
\<close>

section \<open>Names\<close>

text \<open>The keys of \<open>CONFUSABLES\<close> as their two UTF-8 bytes: nine Cyrillic small letters, then Greek capitals.\<close>

definition utf8_2 :: "nat \<Rightarrow> nat \<Rightarrow> string" where
  "utf8_2 a b = [char_of a, char_of b]"

definition CONFUSABLES :: "(string \<times> string) list" where
  "CONFUSABLES =
     [(utf8_2 0xD0 0xB0, ''a''), (utf8_2 0xD0 0xB5, ''e''), (utf8_2 0xD0 0xBE, ''o''), (utf8_2 0xD1 0x80, ''p''),
      (utf8_2 0xD1 0x81, ''c''), (utf8_2 0xD1 0x83, ''y''), (utf8_2 0xD1 0x85, ''x''), (utf8_2 0xD1 0x96, ''i''),
      (utf8_2 0xD1 0x98, ''j''),
      (utf8_2 0xCE 0x91, ''a''), (utf8_2 0xCE 0x92, ''b''), (utf8_2 0xCE 0x95, ''e''), (utf8_2 0xCE 0x97, ''h''),
      (utf8_2 0xCE 0x99, ''i''), (utf8_2 0xCE 0x9A, ''k''), (utf8_2 0xCE 0x9C, ''m''), (utf8_2 0xCE 0x9D, ''n''),
      (utf8_2 0xCE 0x9F, ''o''), (utf8_2 0xCE 0xA1, ''p''), (utf8_2 0xCE 0xA4, ''t''), (utf8_2 0xCE 0xA7, ''x'')]"

text \<open>\<open>replace(/\p{Mark}/gu, '')\<close> and \<open>replace(/[^\p{Letter}\p{Number}]/gu, '')\<close>.\<close>

definition keep_characters :: "(string \<Rightarrow> bool) \<Rightarrow> string \<Rightarrow> string" where
  "keep_characters p s = concat (filter p (characters s))"

definition channelNameSkeleton :: "signal_deps \<Rightarrow> string \<Rightarrow> string" where
  "channelNameSkeleton d value =
     (let folded = concat (map (\<lambda>c. case map_of CONFUSABLES c of None \<Rightarrow> c | Some l \<Rightarrow> l)
            (characters (sd_lower d (sd_nfkc d value))))
      in keep_characters (sd_letter_or_number d) (keep_characters (\<lambda>c. \<not> sd_mark d c) (sd_nfkd d folded)))"

section \<open>Messages\<close>

record channel_declare_msg =
  cd_channel_name :: string
  cd_description :: string
  cd_kind :: int
  cd_categories :: "int list"
  cd_default_area :: "geo_area option"
  cd_claims :: "identity_claim_msg list"
  cd_signing_key :: bytes
  cd_kem_public_key :: bytes
  cd_pq_key :: bytes
  cd_language :: string
  cd_valid_from :: int

record channel_update_msg =
  cx_channel :: string
  cx_patch :: "channel_declare_msg option"

record channel_rotate_msg =
  xr_channel :: string
  xr_new_signing_key :: bytes
  xr_new_kem_key :: bytes
  xr_effective_from_ms :: int

record channel_retire_msg =
  xt_channel :: string
  xt_note :: string
  xt_successor_key :: bytes

record channel_vouch_msg =
  xv_channel :: string
  xv_level :: int
  xv_basis :: string
  xv_asserted_at_ms :: int

record channel_subscribe_msg =
  xs_channel :: string
  xs_push :: bool
  xs_push_token :: bytes

record broadcast_emit_msg =
  bm_channel :: string
  bm_sequence :: int
  bm_severity :: int
  bm_category :: int
  bm_headline :: string
  bm_detail :: string
  bm_area :: "geo_area option"
  bm_expires_at_ms :: int
  bm_supersedes :: string
  bm_language :: string

record broadcast_revoke_msg =
  br_channel :: string
  br_target :: string
  br_reason :: int
  br_note :: string

definition need_channel_scope :: "string \<Rightarrow> parsed_envelope \<Rightarrow> validation" where
  "need_channel_scope channel env =
     (if scope_equals_channel channel env then Valid
      else Invalid ''body channel must equal envelope scope'' (Some ''channel''))"

section \<open>Declaration\<close>

definition validateDeclaration :: "channel_declare_msg \<Rightarrow> parsed_envelope \<Rightarrow> validation" where
  "validateDeclaration m env =
     (if env_scope env \<noteq> [] then Invalid ''channel declaration must not set a scope'' (Some ''scope'')
      else if length (cd_signing_key m) \<noteq> 32
      then Invalid ''signing_key must be a 32-byte Ed25519 key'' (Some ''signing_key'')
      else if cd_signing_key m \<noteq> author_key env
      then Invalid ''a channel must be declared by its signing key'' (Some ''signing_key'')
      else if js_trim (cd_channel_name m) = [] then Invalid ''channel_name is required'' (Some ''channel_name'')
      else if code_point_count (js_trim (cd_channel_name m)) > 80
      then Invalid ''channel_name exceeds 80 characters'' (Some ''channel_name'')
      else if cd_kind m = UNSPECIFIED then Invalid ''channel kind is required'' (Some ''kind'')
      else if \<not> LANGUAGE_PATTERN (cd_language m) then Invalid ''language must be a BCP-47 tag'' (Some ''language'')
      else if length (cd_kem_public_key m) = 0 \<or> length (cd_pq_key m) \<noteq> 1312
      then Invalid ''channel KEM and ML-DSA public keys are required'' (Some ''kem_public_key'')
      else Valid)"

definition ChannelDeclare_authorize :: "signal_store \<Rightarrow> channel_declare_msg \<Rightarrow> auth_decision" where
  "ChannelDeclare_authorize st m =
     (case map_of (sg_channels st) (channelId (cd_signing_key m)) of
        Some _ \<Rightarrow> Denied ''channel already exists'' | None \<Rightarrow> Allowed)"

text \<open>The other channels that show the same name: the first twenty of that skeleton, itself left out.\<close>

definition name_conflicts :: "signal_store \<Rightarrow> string \<Rightarrow> string \<Rightarrow> string list" where
  "name_conflicts st skeleton chan =
     filter (\<lambda>i. i \<noteq> chan) (map ch_channel_id (find_docs (\<lambda>c. ch_name_skeleton c = skeleton) 20 (sg_channels st)))"

definition declared_channel :: "signal_deps \<Rightarrow> channel_declare_msg \<Rightarrow> parsed_envelope \<Rightarrow> signal_store \<Rightarrow> signal_channel_doc" where
  "declared_channel d m env st =
     (let chan = channelId (cd_signing_key m); skeleton = channelNameSkeleton d (cd_channel_name m)
      in \<lparr>ch_channel_id = chan, ch_name = js_trim (cd_channel_name m), ch_name_skeleton = skeleton,
          ch_confusable_with = name_conflicts st skeleton chan, ch_description = cd_description m, ch_kind = cd_kind m,
          ch_categories = cd_categories m, ch_default_area = cd_default_area m, ch_claims = claims_of (cd_claims m),
          ch_original_signing_key = hex (cd_signing_key m), ch_current_signing_key = hex (cd_signing_key m),
          ch_kem_public_key = base64 (cd_kem_public_key m), ch_pq_key = base64 (cd_pq_key m),
          ch_language = cd_language m, ch_valid_from_ms = js_number (cd_valid_from m), ch_declared_at_ms = env_time env,
          ch_rotated_at_ms = None, ch_retired_at_ms = None, ch_retirement_note = [], ch_successor_key = [],
          ch_last_sequence = 0\<rparr>)"

definition ChannelDeclare_project :: "signal_deps \<Rightarrow> channel_declare_msg \<Rightarrow> parsed_envelope \<Rightarrow> signal_store \<Rightarrow> signal_store" where
  "ChannelDeclare_project d m env st =
     st\<lparr>sg_channels := al_set (channelId (cd_signing_key m)) (declared_channel d m env st) (sg_channels st)\<rparr>"

section \<open>What the owner does\<close>

definition owner_authorize :: "signal_store \<Rightarrow> string \<Rightarrow> parsed_envelope \<Rightarrow> auth_decision" where
  "owner_authorize st chan env =
     (case map_of (sg_channels st) chan of
        None \<Rightarrow> Denied ''channel is not known here''
      | Some c \<Rightarrow>
          if ch_retired_at_ms c \<noteq> None then Denied ''channel is retired''
          else if hex (author_key env) \<noteq> ch_current_signing_key c
          then Denied ''the current channel signing key is required''
          else Allowed)"

definition ChannelUpdate_validate :: "channel_update_msg \<Rightarrow> parsed_envelope \<Rightarrow> validation" where
  "ChannelUpdate_validate m env =
     (if \<not> scope_equals_channel (cx_channel m) env then need_channel_scope (cx_channel m) env
      else (case cx_patch m of
          None \<Rightarrow> Invalid ''channel patch is required'' (Some ''patch'')
        | Some p \<Rightarrow>
            if js_trim (cd_channel_name p) = [] then Invalid ''channel_name is required'' (Some ''patch.channel_name'')
            else Valid))"

definition patched_channel :: "signal_deps \<Rightarrow> channel_declare_msg \<Rightarrow> signal_store \<Rightarrow> signal_channel_doc \<Rightarrow> signal_channel_doc" where
  "patched_channel d p st c =
     (let skeleton = channelNameSkeleton d (cd_channel_name p)
      in c\<lparr>ch_name := js_trim (cd_channel_name p), ch_name_skeleton := skeleton,
           ch_confusable_with := name_conflicts st skeleton (ch_channel_id c), ch_description := cd_description p,
           ch_kind := cd_kind p, ch_categories := cd_categories p, ch_default_area := cd_default_area p,
           ch_claims := claims_of (cd_claims p),
           ch_kem_public_key := (if length (cd_kem_public_key p) > 0 then base64 (cd_kem_public_key p) else ch_kem_public_key c),
           ch_pq_key := (if length (cd_pq_key p) > 0 then base64 (cd_pq_key p) else ch_pq_key c),
           ch_language := or_else (cd_language p) (ch_language c)\<rparr>)"

definition ChannelUpdate_project :: "signal_deps \<Rightarrow> channel_update_msg \<Rightarrow> parsed_envelope \<Rightarrow> signal_store \<Rightarrow> signal_store" where
  "ChannelUpdate_project d m env st =
     (case cx_patch m of
        None \<Rightarrow> st
      | Some p \<Rightarrow> (case map_of (sg_channels st) (cx_channel m) of
          None \<Rightarrow> st
        | Some c \<Rightarrow> st\<lparr>sg_channels := al_set (ch_channel_id c) (patched_channel d p st c) (sg_channels st)\<rparr>))"

definition ChannelRotate_validate :: "channel_rotate_msg \<Rightarrow> parsed_envelope \<Rightarrow> validation" where
  "ChannelRotate_validate m env =
     (if \<not> scope_equals_channel (xr_channel m) env then need_channel_scope (xr_channel m) env
      else if length (xr_new_signing_key m) \<noteq> 32 \<or> length (xr_new_kem_key m) = 0
      then Invalid ''new signing and KEM keys are required'' (Some ''new_signing_key'')
      else if xr_effective_from_ms m < created_at_ms env
      then Invalid ''rotation cannot take effect before publication'' (Some ''effective_from_ms'')
      else Valid)"

definition ChannelRotate_project :: "channel_rotate_msg \<Rightarrow> parsed_envelope \<Rightarrow> signal_store \<Rightarrow> signal_store" where
  "ChannelRotate_project m env st =
     (case map_of (sg_channels st) (xr_channel m) of
        None \<Rightarrow> st
      | Some c \<Rightarrow> st\<lparr>sg_channels := al_set (ch_channel_id c)
            (c\<lparr>ch_current_signing_key := hex (xr_new_signing_key m), ch_kem_public_key := base64 (xr_new_kem_key m),
               ch_rotated_at_ms := Some (js_number (nonzero_or (xr_effective_from_ms m) (created_at_ms env)))\<rparr>)
            (sg_channels st)\<rparr>)"

definition ChannelRetire_validate :: "channel_retire_msg \<Rightarrow> parsed_envelope \<Rightarrow> validation" where
  "ChannelRetire_validate m env = need_channel_scope (xt_channel m) env"

definition ChannelRetire_project :: "channel_retire_msg \<Rightarrow> parsed_envelope \<Rightarrow> signal_store \<Rightarrow> signal_store" where
  "ChannelRetire_project m env st =
     (case map_of (sg_channels st) (xt_channel m) of
        None \<Rightarrow> st
      | Some c \<Rightarrow> st\<lparr>sg_channels := al_set (ch_channel_id c)
            (c\<lparr>ch_retired_at_ms := Some (env_time env), ch_retirement_note := xt_note m,
               ch_successor_key := hex (xt_successor_key m)\<rparr>) (sg_channels st)\<rparr>)"

section \<open>What others do\<close>

definition known_channel :: "signal_store \<Rightarrow> string \<Rightarrow> auth_decision" where
  "known_channel st chan = (case map_of (sg_channels st) chan of None \<Rightarrow> Denied ''channel is not known here'' | Some _ \<Rightarrow> Allowed)"

definition ChannelVouch_validate :: "channel_vouch_msg \<Rightarrow> parsed_envelope \<Rightarrow> validation" where
  "ChannelVouch_validate m env =
     (if \<not> scope_equals_channel (xv_channel m) env then need_channel_scope (xv_channel m) env
      else if xv_level m = UNSPECIFIED then Invalid ''vouch level is required'' (Some ''level'')
      else if js_trim (xv_basis m) = [] then Invalid ''vouch basis is required'' (Some ''basis'')
      else Valid)"

definition ChannelVouch_authorize :: "signal_store \<Rightarrow> channel_vouch_msg \<Rightarrow> auth_decision" where
  "ChannelVouch_authorize st m = known_channel st (xv_channel m)"

definition ChannelVouch_project :: "channel_vouch_msg \<Rightarrow> parsed_envelope \<Rightarrow> signal_store \<Rightarrow> signal_store" where
  "ChannelVouch_project m env st =
     (let voucher = hex (author_key env); row = xv_channel m @ '':'' @ voucher
      in st\<lparr>sg_vouches := al_set row
           \<lparr>cv_id = row, cv_channel = xv_channel m, cv_voucher_key = voucher, cv_level = xv_level m,
            cv_basis = js_trim (xv_basis m),
            cv_asserted_at_ms = js_number (nonzero_or (xv_asserted_at_ms m) (created_at_ms env)),
            cv_content_id = content_id env\<rparr> (sg_vouches st)\<rparr>)"

definition ChannelSubscribe_validate :: "channel_subscribe_msg \<Rightarrow> parsed_envelope \<Rightarrow> validation" where
  "ChannelSubscribe_validate m env =
     (if \<not> scope_equals_channel (xs_channel m) env then need_channel_scope (xs_channel m) env
      else if xs_push m \<and> (length (xs_push_token m) < 8 \<or> length (xs_push_token m) > 1024)
      then Invalid ''push_token must be between 8 and 1024 bytes'' (Some ''push_token'')
      else if \<not> xs_push m \<and> length (xs_push_token m) > 0
      then Invalid ''unsubscription must not include a push token'' (Some ''push_token'')
      else Valid)"

definition ChannelSubscribe_authorize :: "signal_store \<Rightarrow> channel_subscribe_msg \<Rightarrow> auth_decision" where
  "ChannelSubscribe_authorize st m = known_channel st (xs_channel m)"

definition ChannelSubscribe_project :: "channel_subscribe_msg \<Rightarrow> parsed_envelope \<Rightarrow> signal_store \<Rightarrow> signal_store" where
  "ChannelSubscribe_project m env st =
     (let subscriber = hex (author_key env); row = xs_channel m @ '':'' @ subscriber
      in if \<not> xs_push m then st\<lparr>sg_subscriptions := al_del row (sg_subscriptions st)\<rparr>
         else st\<lparr>sg_subscriptions := al_set row
           \<lparr>ps_id = row, ps_channel = xs_channel m, ps_subscriber_key = subscriber, ps_push_token = base64 (xs_push_token m),
            ps_updated_at_ms = env_time env, ps_content_id = content_id env\<rparr> (sg_subscriptions st)\<rparr>)"

section \<open>Verification\<close>

datatype verification_level = Vf_unverified | Vf_known | Vf_verified | Vf_endorsed | Vf_disputed

definition VOUCH_LEVEL_NEGATIVE :: int where "VOUCH_LEVEL_NEGATIVE = 1"
definition VOUCH_LEVEL_KNOWN :: int where "VOUCH_LEVEL_KNOWN = 2"
definition VOUCH_LEVEL_VERIFIED :: int where "VOUCH_LEVEL_VERIFIED = 3"
definition VOUCH_LEVEL_ENDORSED :: int where "VOUCH_LEVEL_ENDORSED = 4"

definition channelVerificationLevel :: "signal_store \<Rightarrow> string \<Rightarrow> verification_level" where
  "channelVerificationLevel st channel =
     (let rows = find_docs (\<lambda>v. cv_channel v = channel) 1000 (sg_vouches st);
          has = (\<lambda>level. list_ex (\<lambda>v. cv_level v = level) rows)
      in if has VOUCH_LEVEL_NEGATIVE then Vf_disputed
         else if has VOUCH_LEVEL_ENDORSED then Vf_endorsed
         else if has VOUCH_LEVEL_VERIFIED then Vf_verified
         else if has VOUCH_LEVEL_KNOWN then Vf_known
         else Vf_unverified)"

definition SEVERITY_CRITICAL :: int where "SEVERITY_CRITICAL = 4"

definition defaultSeverityAllows :: "int \<Rightarrow> verification_level \<Rightarrow> bool" where
  "defaultSeverityAllows severity v \<longleftrightarrow>
     severity \<noteq> SEVERITY_CRITICAL \<or> v = Vf_known \<or> v = Vf_verified \<or> v = Vf_endorsed"

section \<open>Broadcasts\<close>

definition MAX_HEADLINE_CHARS :: nat where "MAX_HEADLINE_CHARS = 120"

definition BroadcastEmit_validate :: "broadcast_emit_msg \<Rightarrow> parsed_envelope \<Rightarrow> validation" where
  "BroadcastEmit_validate m env =
     (if \<not> scope_equals_channel (bm_channel m) env then need_channel_scope (bm_channel m) env
      else if bm_sequence m \<le> 0 then Invalid ''sequence must be positive'' (Some ''sequence'')
      else if bm_severity m = UNSPECIFIED then Invalid ''severity is required'' (Some ''severity'')
      else if bm_category m = UNSPECIFIED then Invalid ''category is required'' (Some ''category'')
      else if js_trim (bm_headline m) = [] then Invalid ''headline is required'' (Some ''headline'')
      else if code_point_count (js_trim (bm_headline m)) > MAX_HEADLINE_CHARS
      then Invalid (''headline exceeds '' @ digits_of MAX_HEADLINE_CHARS @ '' characters'') (Some ''headline'')
      else if bm_expires_at_ms m \<le> created_at_ms env
      then Invalid ''broadcast expiry must be after publication'' (Some ''expires_at_ms'')
      else if bm_supersedes m \<noteq> [] \<and> \<not> starts_with ''jb1'' (bm_supersedes m)
      then Invalid ''supersedes must be a content ID'' (Some ''supersedes'')
      else Valid)"

definition BroadcastEmit_authorize :: "signal_store \<Rightarrow> broadcast_emit_msg \<Rightarrow> parsed_envelope \<Rightarrow> auth_decision" where
  "BroadcastEmit_authorize st m env =
     (case map_of (sg_channels st) (bm_channel m) of
        None \<Rightarrow> Denied ''channel is not known here''
      | Some c \<Rightarrow>
          if ch_retired_at_ms c \<noteq> None then Denied ''channel is retired''
          else if ch_current_signing_key c \<noteq> hex (author_key env)
          then Denied ''the current channel signing key is required''
          else if bm_sequence m \<le> ch_last_sequence c then Denied ''broadcast sequence must increase monotonically''
          else if bm_supersedes m \<noteq> [] \<and>
            (case map_of (sg_broadcasts st) (bm_supersedes m) of None \<Rightarrow> True | Some b \<Rightarrow> bd_channel b \<noteq> bm_channel m)
          then Denied ''superseded broadcast is not part of this channel''
          else Allowed)"

definition emitted_broadcast :: "broadcast_emit_msg \<Rightarrow> parsed_envelope \<Rightarrow> int \<Rightarrow> signal_broadcast_doc" where
  "emitted_broadcast m env previous =
     \<lparr>bd_id = content_id env, bd_channel = bm_channel m, bd_sequence = bm_sequence m, bd_previous_sequence = previous,
      bd_severity = bm_severity m, bd_category = bm_category m, bd_headline = js_trim (bm_headline m),
      bd_detail = bm_detail m, bd_area = bm_area m, bd_expires_at_ms = js_number (bm_expires_at_ms m),
      bd_supersedes = bm_supersedes m, bd_superseded_by = [], bd_language = or_else (bm_language m) ''und'',
      bd_author_key = hex (author_key env), bd_created_at_ms = env_time env, bd_revoked_at_ms = None,
      bd_revoke_reason = UNSPECIFIED, bd_revoke_note = [], bd_revoke_content_id = []\<rparr>"

definition mark_superseded :: "string \<Rightarrow> string \<Rightarrow> signal_broadcast_doc collection \<Rightarrow> signal_broadcast_doc collection" where
  "mark_superseded target by_id bs =
     (if target = [] then bs
      else (case map_of bs target of
          None \<Rightarrow> bs
        | Some p \<Rightarrow> al_set (bd_id p) (p\<lparr>bd_superseded_by := by_id\<rparr>) bs))"

definition BroadcastEmit_project :: "broadcast_emit_msg \<Rightarrow> parsed_envelope \<Rightarrow> signal_store \<Rightarrow> signal_store" where
  "BroadcastEmit_project m env st =
     (let channel = map_of (sg_channels st) (bm_channel m);
          previous = (case channel of None \<Rightarrow> 0 | Some c \<Rightarrow> ch_last_sequence c);
          st1 = st\<lparr>sg_broadcasts := mark_superseded (bm_supersedes m) (content_id env)
            (al_set (content_id env) (emitted_broadcast m env previous) (sg_broadcasts st))\<rparr>
      in (case channel of
            None \<Rightarrow> st1
          | Some c \<Rightarrow> st1\<lparr>sg_channels := al_set (ch_channel_id c) (c\<lparr>ch_last_sequence := bm_sequence m\<rparr>) (sg_channels st1)\<rparr>))"

text \<open>\<open>afterCommit\<close> hands these tokens and this notice to the push gateway; it writes nothing.\<close>

definition push_tokens :: "signal_store \<Rightarrow> broadcast_emit_msg \<Rightarrow> string list" where
  "push_tokens st m = map ps_push_token (find_docs (\<lambda>s. ps_channel s = bm_channel m) 10000 (sg_subscriptions st))"

definition BroadcastRevoke_validate :: "broadcast_revoke_msg \<Rightarrow> parsed_envelope \<Rightarrow> validation" where
  "BroadcastRevoke_validate m env =
     (if \<not> scope_equals_channel (br_channel m) env then need_channel_scope (br_channel m) env
      else if \<not> starts_with ''jb1'' (br_target m) then Invalid ''target must be a content ID'' (Some ''target'')
      else if br_reason m = UNSPECIFIED then Invalid ''revoke reason is required'' (Some ''reason'')
      else Valid)"

definition BroadcastRevoke_authorize :: "signal_store \<Rightarrow> broadcast_revoke_msg \<Rightarrow> parsed_envelope \<Rightarrow> auth_decision" where
  "BroadcastRevoke_authorize st m env =
     (if (case map_of (sg_channels st) (br_channel m) of None \<Rightarrow> True | Some c \<Rightarrow> ch_current_signing_key c \<noteq> hex (author_key env))
      then Denied ''the current channel signing key is required''
      else if (case map_of (sg_broadcasts st) (br_target m) of None \<Rightarrow> False | Some b \<Rightarrow> bd_channel b = br_channel m)
      then Allowed else Denied ''broadcast target is not known'')"

definition BroadcastRevoke_project :: "broadcast_revoke_msg \<Rightarrow> parsed_envelope \<Rightarrow> signal_store \<Rightarrow> signal_store" where
  "BroadcastRevoke_project m env st =
     (case map_of (sg_broadcasts st) (br_target m) of
        None \<Rightarrow> st
      | Some b \<Rightarrow> st\<lparr>sg_broadcasts := al_set (bd_id b)
            (b\<lparr>bd_revoked_at_ms := Some (env_time env), bd_revoke_reason := br_reason m, bd_revoke_note := br_note m,
               bd_revoke_content_id := content_id env\<rparr>) (sg_broadcasts st)\<rparr>)"

end
