(* ===== verification/JB_Crisis.thy ===== *)
theory JB_Crisis
  imports JB_Channels
begin

text \<open>
  What people report about themselves (\<open>crisis/crisis.handlers.ts\<close>: check-ins, missing persons, resources;
  \<open>directory/profile.handlers.ts\<close>: the searchable name of an identity) and the keys of the plane
  (\<open>identity/certificate.handlers.ts\<close>).
\<close>

section \<open>Check-ins\<close>

record checkin_msg =
  km_status :: int
  km_area :: "geo_area option"
  km_note :: string
  km_notify_keys :: "bytes list"

definition CheckIn_validate :: "checkin_msg \<Rightarrow> validation" where
  "CheckIn_validate m =
     (if km_status m = UNSPECIFIED then Invalid ''check-in status is required'' (Some ''status'')
      else if code_point_count (km_note m) > 80 then Invalid ''note exceeds 80 characters'' (Some ''note'')
      else if list_ex (\<lambda>k. length k \<noteq> 32) (km_notify_keys m)
      then Invalid ''notify_keys must contain 32-byte keys'' (Some ''notify_keys'')
      else Valid)"

definition checkin_row :: "checkin_msg \<Rightarrow> parsed_envelope \<Rightarrow> signal_checkin_doc option \<Rightarrow> signal_checkin_doc" where
  "checkin_row m env previous =
     \<lparr>ck_id = content_id env, ck_author_key = hex (author_key env), ck_status = km_status m, ck_area = km_area m,
      ck_note = km_note m, ck_notify_keys = map hex (km_notify_keys m), ck_created_at_ms = env_time env,
      ck_supersedes = (case previous of None \<Rightarrow> [] | Some p \<Rightarrow> ck_id p)\<rparr>"

definition CheckIn_project :: "checkin_msg \<Rightarrow> parsed_envelope \<Rightarrow> signal_store \<Rightarrow> signal_store" where
  "CheckIn_project m env st =
     (let author = hex (author_key env);
          row = checkin_row m env (map_of (sg_latest_checkins st) author)
      in st\<lparr>sg_checkins := al_set (ck_id row) row (sg_checkins st),
            sg_latest_checkins := al_set author (row\<lparr>ck_id := author\<rparr>) (sg_latest_checkins st)\<rparr>)"

section \<open>Missing persons and resources\<close>

record missing_person_msg =
  pm_name :: string
  pm_age :: int
  pm_description :: string
  pm_last_seen_place :: string
  pm_last_seen_at_ms :: int
  pm_contact_channel :: string
  pm_photos :: "string list"
  pm_status :: int

definition MissingPerson_validate :: "missing_person_msg \<Rightarrow> validation" where
  "MissingPerson_validate m =
     (if js_trim (pm_name m) = [] then Invalid ''name is required'' (Some ''name'')
      else if pm_age m > 130 then Invalid ''age is outside the supported range'' (Some ''age'')
      else if pm_status m = UNSPECIFIED then Invalid ''missing-person status is required'' (Some ''status'')
      else if list_ex (\<lambda>p. \<not> starts_with ''jb1'' p) (pm_photos m)
      then Invalid ''photos must be content IDs'' (Some ''photos'')
      else Valid)"

definition MissingPerson_project :: "signal_deps \<Rightarrow> missing_person_msg \<Rightarrow> parsed_envelope \<Rightarrow> signal_store \<Rightarrow> signal_store" where
  "MissingPerson_project d m env st =
     (let reporter = hex (author_key env);
          row = reporter @ '':'' @ sd_lower d (sd_nfkc d (js_trim (pm_name m)));
          existing = map_of (sg_missing st) row
      in st\<lparr>sg_missing := al_set row
           \<lparr>mp_id = row, mp_content_id = content_id env, mp_reporter_key = reporter, mp_name = js_trim (pm_name m),
            mp_age = pm_age m, mp_description = pm_description m, mp_last_seen_place = pm_last_seen_place m,
            mp_last_seen_at_ms = js_number (pm_last_seen_at_ms m), mp_contact_channel = pm_contact_channel m,
            mp_photos = pm_photos m, mp_status = pm_status m,
            mp_reported_at_ms = (case existing of None \<Rightarrow> env_time env | Some e \<Rightarrow> mp_reported_at_ms e),
            mp_updated_at_ms = env_time env\<rparr> (sg_missing st)\<rparr>)"

record resource_msg =
  rm_kind :: int
  rm_area :: "geo_area option"
  rm_detail :: string
  rm_state :: int
  rm_observed_at_ms :: int

definition ResourceReport_validate :: "resource_msg \<Rightarrow> validation" where
  "ResourceReport_validate m =
     (if rm_kind m = UNSPECIFIED then Invalid ''resource kind is required'' (Some ''kind'')
      else if rm_state m = UNSPECIFIED then Invalid ''resource state is required'' (Some ''state'')
      else if rm_area m = None then Invalid ''resource area is required'' (Some ''area'')
      else if js_trim (rm_detail m) = [] then Invalid ''resource detail is required'' (Some ''detail'')
      else Valid)"

definition ResourceReport_project :: "resource_msg \<Rightarrow> parsed_envelope \<Rightarrow> signal_store \<Rightarrow> signal_store" where
  "ResourceReport_project m env st =
     st\<lparr>sg_resources := al_set (content_id env)
       \<lparr>rs_id = content_id env, rs_reporter_key = hex (author_key env), rs_kind = rm_kind m, rs_area = rm_area m,
        rs_detail = js_trim (rm_detail m), rs_state = rm_state m, rs_observed_at_ms = js_number (rm_observed_at_ms m),
        rs_reported_at_ms = env_time env\<rparr> (sg_resources st)\<rparr>"

section \<open>The directory\<close>

record directory_profile_msg =
  dm_display_name :: string
  dm_bio :: string
  dm_claims :: "identity_claim_msg list"
  dm_rns_public_key :: bytes
  dm_lxmf_destination_hash :: bytes
  dm_transport_binding_sig :: bytes
  dm_languages :: "string list"
  dm_discoverable :: bool
  dm_revision :: int

definition BINDING_PREFIX :: bytes where
  "BINDING_PREFIX = text_encode (''jb:signal:lxmf-binding:v1'' @ [char_of (0 :: nat)])"

definition signalTransportBindingBytes :: "bytes \<Rightarrow> bytes \<Rightarrow> bytes" where
  "signalTransportBindingBytes rns lxmf = BINDING_PREFIX @ rns @ lxmf"

definition signalDirectoryNameSkeleton :: "signal_deps \<Rightarrow> string \<Rightarrow> string" where
  "signalDirectoryNameSkeleton d value =
     keep_characters (sd_letter_or_number d) (keep_characters (\<lambda>c. \<not> sd_mark d c) (sd_nfkd d (sd_locale_lower d (sd_nfkc d value))))"

definition signalDirectoryCodename :: "string \<Rightarrow> string" where
  "signalDirectoryCodename identity = identity"

definition trimmed_claims :: "identity_claim_msg list \<Rightarrow> claim_doc list" where
  "trimmed_claims = map (\<lambda>c. \<lparr>cl_kind = ic_kind c, cl_value = js_trim (ic_value c), cl_proof = js_trim (ic_proof c),
     cl_asserted_at_ms = js_number (ic_asserted_at_ms c)\<rparr>)"

definition SignalProfile_validate :: "signal_deps \<Rightarrow> directory_profile_msg \<Rightarrow> parsed_envelope \<Rightarrow> validation" where
  "SignalProfile_validate d m env =
     (let name = js_trim (dm_display_name m);
          absent = list_all (\<lambda>n. n = 0) [length (dm_rns_public_key m), length (dm_lxmf_destination_hash m), length (dm_transport_binding_sig m)]
      in if name = [] \<or> code_point_count name > 80
         then Invalid ''display_name must be 1 to 80 characters'' (Some ''display_name'')
         else if code_point_count (dm_bio m) > 500 then Invalid ''bio exceeds 500 characters'' (Some ''bio'')
         else if dm_revision m = 0 then Invalid ''revision must be positive'' (Some ''revision'')
         else if length (dm_languages m) > 8 \<or> list_ex (\<lambda>l. \<not> LANGUAGE_PATTERN l) (dm_languages m)
         then Invalid ''languages must contain at most 8 BCP-47 tags'' (Some ''languages'')
         else if \<not> absent \<and> length (dm_rns_public_key m) \<noteq> 64
         then Invalid ''rns_public_key must be 64 bytes'' (Some ''rns_public_key'')
         else if \<not> absent \<and> length (dm_lxmf_destination_hash m) \<noteq> 16
         then Invalid ''lxmf_destination_hash must be 16 bytes'' (Some ''lxmf_destination_hash'')
         else if \<not> absent \<and> length (dm_transport_binding_sig m) \<noteq> 64
         then Invalid ''transport_binding_sig must be 64 bytes'' (Some ''transport_binding_sig'')
         else if \<not> absent \<and> \<not> sd_ed_verify d (dm_transport_binding_sig m)
             (signalTransportBindingBytes (dm_rns_public_key m) (dm_lxmf_destination_hash m)) (author_key env)
         then Invalid ''transport binding signature does not verify'' (Some ''transport_binding_sig'')
         else Valid)"

text \<open>\<open>findOne({ nameSkeleton })\<close>: the first row that shows the name.\<close>

definition name_holder :: "signal_store \<Rightarrow> string \<Rightarrow> signal_directory_profile_doc option" where
  "name_holder st skeleton = List.find (\<lambda>p. dp_name_skeleton p = skeleton) (map snd (sg_profiles st))"

definition SignalProfile_authorize :: "signal_deps \<Rightarrow> signal_store \<Rightarrow> directory_profile_msg \<Rightarrow> parsed_envelope \<Rightarrow> auth_decision" where
  "SignalProfile_authorize d st m env =
     (let author = identityId (author_key env); skeleton = signalDirectoryNameSkeleton d (dm_display_name m)
      in if (case map_of (sg_profiles st) author of None \<Rightarrow> False | Some p \<Rightarrow> dp_revision p \<ge> dm_revision m)
         then Denied ''profile revision must increase''
         else if skeleton = [] then Denied ''display_name must contain at least one letter or number''
         else if (case name_holder st skeleton of None \<Rightarrow> False | Some p \<Rightarrow> dp_id p \<noteq> author)
         then Denied ''that name is already taken on this server''
         else Allowed)"

definition profile_row :: "signal_deps \<Rightarrow> directory_profile_msg \<Rightarrow> parsed_envelope \<Rightarrow> signal_directory_profile_doc" where
  "profile_row d m env =
     (let author = identityId (author_key env)
      in \<lparr>dp_id = author, dp_codename = signalDirectoryCodename author, dp_identity_key = hex (author_key env),
          dp_display_name = js_trim (dm_display_name m), dp_name_skeleton = signalDirectoryNameSkeleton d (dm_display_name m),
          dp_bio = js_trim (dm_bio m), dp_claims = trimmed_claims (dm_claims m),
          dp_rns_public_key = base64 (dm_rns_public_key m), dp_lxmf_destination_hash = hex (dm_lxmf_destination_hash m),
          dp_transport_binding_signature = base64 (dm_transport_binding_sig m), dp_languages = unique (dm_languages m),
          dp_discoverable = dm_discoverable m, dp_revision = dm_revision m, dp_updated_at_ms = env_time env,
          dp_content_id = content_id env\<rparr>)"

definition SignalProfile_project :: "signal_deps \<Rightarrow> directory_profile_msg \<Rightarrow> parsed_envelope \<Rightarrow> signal_store \<Rightarrow> signal_store" where
  "SignalProfile_project d m env st =
     st\<lparr>sg_profiles := al_set (identityId (author_key env)) (profile_row d m env) (sg_profiles st)\<rparr>"

section \<open>Keys\<close>

definition SignalKeyCertify_validate :: "signal_deps \<Rightarrow> key_certificate_msg \<Rightarrow> parsed_envelope \<Rightarrow> validation" where
  "SignalKeyCertify_validate d m env =
     (let f = (certificate_fields m)\<lparr>kc_plane := plane_by_name SIGNAL\<rparr>
      in if cf_plane m \<noteq> plane_by_name SIGNAL then Invalid ''a Signal certificate must declare the SIGNAL plane'' (Some ''plane'')
         else if length (cf_device_key m) \<noteq> 32
         then Invalid ''device_key must be a 32-byte Ed25519 key'' (Some ''device_key'')
         else if length (cf_pq_key m) \<noteq> 1312 \<or> length (cf_pq_attestation m) \<noteq> 2420
         then Invalid ''a valid ML-DSA-44 key and attestation are required'' (Some ''pq_key'')
         else if length (cf_self_signature m) \<noteq> 64
         then Invalid ''self_signature must be a 64-byte Ed25519 signature'' (Some ''self_signature'')
         else if cf_device_key m \<noteq> author_key env
         then Invalid ''a certificate must be self-published by its own key'' (Some ''device_key'')
         else if cf_valid_until m \<le> cf_valid_from m \<or> cf_valid_until m - cf_valid_from m > MAX_VALIDITY_MS
              \<or> created_at_ms env < cf_valid_from m \<or> created_at_ms env \<ge> cf_valid_until m
         then Invalid ''certificate validity window is invalid'' (Some ''valid_until'')
         else if \<not> sd_mldsa_verify d (cf_pq_attestation m) (pq_attestation_bytes f) (cf_pq_key m)
         then Invalid ''post-quantum attestation does not verify'' (Some ''pq_attestation'')
         else if \<not> sd_ed_verify d (cf_self_signature m) (certificate_self_signature_bytes f (cf_pq_attestation m)) (cf_device_key m)
         then Invalid ''certificate self-signature does not verify'' (Some ''self_signature'')
         else Valid)"

definition SignalKeyCertify_authorize :: "signal_store \<Rightarrow> parsed_envelope \<Rightarrow> auth_decision" where
  "SignalKeyCertify_authorize st env =
     (if (case map_of (sg_revocations st) (hex (author_key env)) of None \<Rightarrow> False | Some r \<Rightarrow> re_kind r \<noteq> RevocationKind R_ROTATE)
      then Denied ''this Signal key has been revoked'' else Allowed)"

definition SignalKeyCertify_project :: "key_certificate_msg \<Rightarrow> parsed_envelope \<Rightarrow> signal_store \<Rightarrow> signal_store" where
  "SignalKeyCertify_project m env st =
     (let i = hex (author_key env)
      in st\<lparr>sg_certificates := al_set i
           \<lparr>ce_id = i, ce_plane = plane_by_name SIGNAL, ce_device_key = i, ce_pq_key = base64 (cf_pq_key m),
            ce_pq_attestation = base64 (cf_pq_attestation m), ce_valid_from_ms = js_number (cf_valid_from m),
            ce_valid_until_ms = js_number (cf_valid_until m), ce_self_signature = base64 (cf_self_signature m),
            ce_content_id = content_id env, ce_certified_at_ms = env_time env\<rparr> (sg_certificates st)\<rparr>)"

definition SignalKeyRevoke_validate :: "signal_deps \<Rightarrow> key_revocation_msg \<Rightarrow> parsed_envelope \<Rightarrow> validation" where
  "SignalKeyRevoke_validate d m env =
     (if rv_plane m \<noteq> plane_by_name SIGNAL then Invalid ''a Signal revocation must declare the SIGNAL plane'' (Some ''plane'')
      else if length (rv_revoked_key m) \<noteq> 32
      then Invalid ''revoked_key must be a 32-byte Ed25519 key'' (Some ''revoked_key'')
      else if rv_kind m = RevocationKind R_UNSPECIFIED then Invalid ''a revocation kind is required'' (Some ''kind'')
      else if rv_kind m \<noteq> RevocationKind R_DURESS \<and> rv_revoked_key m \<noteq> author_key env
      then Invalid ''only a duress revocation may be published by another key'' (Some ''revoked_key'')
      else if rv_kind m = RevocationKind R_DURESS
        \<and> (length (rv_authorization_signature m) \<noteq> 64
           \<or> \<not> sd_ed_verify d (rv_authorization_signature m)
             (revocation_authorization_bytes \<lparr>kr_plane = plane_by_name SIGNAL, kr_revoked_key = rv_revoked_key m, kr_kind = rv_kind m,
               kr_effective_from_ms = rv_effective_from_ms m, kr_replacement_key = rv_replacement_key m\<rparr>)
             (rv_revoked_key m))
      then Invalid ''duress authorization does not verify'' (Some ''authorization_signature'')
      else Valid)"

definition SignalKeyRevoke_project :: "key_revocation_msg \<Rightarrow> parsed_envelope \<Rightarrow> signal_store \<Rightarrow> signal_store" where
  "SignalKeyRevoke_project m env st =
     (let revoked = hex (rv_revoked_key m);
          row = (revocation_row m env (map_of (sg_revocations st) revoked))\<lparr>re_plane := plane_by_name SIGNAL\<rparr>
      in st\<lparr>sg_revocations := al_set revoked row (sg_revocations st)\<rparr>)"

end
