(* ===== verification/JB_Messages.thy ===== *)
theory JB_Messages
  imports JB_Signal JB_Bridge
begin

text \<open>
  Private messages and groups (\<open>message/signal-message.handlers.ts\<close>): prekey bundles, sessions, the messages of a
  session with their counters and delivery states, and groups with their members; and of the SDK
  (\<open>packages/sdk-ts/src/crypto/signal.ts\<close>) the bytes a prekey signature covers and the symmetric ratchet. The store
  only ever sees ciphertext.
\<close>

section \<open>What a prekey signature covers\<close>

text \<open>\<open>setBigInt64\<close> and \<open>setBigUint64\<close>, big-endian: the low eight bytes of the number.\<close>

definition set_bigint64_be :: "int \<Rightarrow> bytes" where
  "set_bigint64_be v = map (\<lambda>i. word_of_int (v div 2 ^ (8 * i))) [7, 6, 5, 4, 3, 2, 1, 0]"

record prekey_signed_fields =
  pf_identity_key :: bytes
  pf_signed_prekey :: bytes
  pf_kem_public_key :: bytes
  pf_valid_until_ms :: int

definition signalPrekeySignatureBytes :: "prekey_signed_fields \<Rightarrow> bytes" where
  "signalPrekeySignatureBytes f = concat_bytes
     [text_encode (''jb:signal:prekey:v1'' @ [char_of (0 :: nat)]), frame_part (pf_identity_key f),
      frame_part (pf_signed_prekey f), frame_part (pf_kem_public_key f), set_bigint64_be (pf_valid_until_ms f)]"

section \<open>The ratchet\<close>

text \<open>HKDF and the AEAD are parameters: \<open>rb_open\<close> gives \<open>None\<close> where the backend throws.\<close>

record ratchet_backend =
  rb_hkdf :: "bytes \<Rightarrow> bytes \<Rightarrow> bytes \<Rightarrow> nat \<Rightarrow> bytes"
  rb_seal :: "bytes \<Rightarrow> bytes \<Rightarrow> bytes \<Rightarrow> bytes \<Rightarrow> bytes"
  rb_open :: "bytes \<Rightarrow> bytes \<Rightarrow> bytes \<Rightarrow> bytes \<Rightarrow> bytes option"

record ratchet_state =
  rt_chain_key :: bytes
  rt_counter :: int

record ratchet_ciphertext =
  rc_counter :: int
  rc_nonce :: bytes
  rc_ciphertext :: bytes

definition RATCHET_INFO :: bytes where "RATCHET_INFO = text_encode ''jb:signal:ratchet:v1''"

definition advance :: "ratchet_backend \<Rightarrow> ratchet_state \<Rightarrow> string + bytes \<times> ratchet_state" where
  "advance b s =
     (if length (rt_chain_key s) \<noteq> 32 then Inl ''ratchet chain key must be 32 bytes''
      else let material = rb_hkdf b (rt_chain_key s) (set_bigint64_be (rt_counter s)) RATCHET_INFO 64
           in Inr (take 32 material, \<lparr>rt_chain_key = drop 32 material, rt_counter = rt_counter s + 1\<rparr>))"

definition sealRatchetMessage :: "ratchet_backend \<Rightarrow> ratchet_state \<Rightarrow> bytes \<Rightarrow> bytes \<Rightarrow> bytes \<Rightarrow> string + ratchet_ciphertext \<times> ratchet_state" where
  "sealRatchetMessage b s plaintext aad iv =
     (if length iv \<noteq> 12 then Inl ''ratchet nonce must be 12 bytes''
      else (case advance b s of
          Inl e \<Rightarrow> Inl e
        | Inr (key, next) \<Rightarrow> Inr (\<lparr>rc_counter = rt_counter s, rc_nonce = iv,
            rc_ciphertext = rb_seal b key iv plaintext aad\<rparr>, next)))"

definition openRatchetMessage :: "ratchet_backend \<Rightarrow> ratchet_state \<Rightarrow> ratchet_ciphertext \<Rightarrow> bytes \<Rightarrow> string + bytes \<times> ratchet_state" where
  "openRatchetMessage b s m aad =
     (if rc_counter m \<noteq> rt_counter s
      then Inl (''ratchet counter gap: expected '' @ js_string_of_int (rt_counter s) @ '', received '' @ js_string_of_int (rc_counter m))
      else (case advance b s of
          Inl e \<Rightarrow> Inl e
        | Inr (key, next) \<Rightarrow> (case rb_open b key (rc_nonce m) (rc_ciphertext m) aad of
            None \<Rightarrow> Inl ''authentication failed'' | Some p \<Rightarrow> Inr (p, next))))"

text \<open>Sender and receiver with the same state stay in step: what is sealed opens, and both move to the same next state.\<close>

lemma ratchet_in_step:
  assumes "sealRatchetMessage b s plaintext aad iv = Inr (m, next)"
    and "\<And>k n p a. rb_open b k n (rb_seal b k n p a) a = Some p"
  shows "openRatchetMessage b s m aad = Inr (plaintext, next)"
  using assms by (auto simp: sealRatchetMessage_def openRatchetMessage_def split: if_splits sum.splits)

section \<open>Messages\<close>

record prekey_bundle_msg =
  pb_identity_key :: bytes
  pb_signed_prekey :: bytes
  pb_signed_prekey_sig :: bytes
  pb_kem_public_key :: bytes
  pb_one_time_prekeys :: "bytes list"
  pb_valid_until_ms :: int

record session_init_msg =
  sx_recipient_key :: bytes
  sx_kem_ciphertext :: bytes
  sx_ephemeral_x25519 :: bytes
  sx_used_prekey_id :: bytes
  sx_ciphertext :: bytes

record signal_message_msg =
  mx_session :: string
  mx_counter :: int
  mx_header :: bytes
  mx_ciphertext :: bytes
  mx_attachment_refs :: "string list"

record delivery_receipt_msg =
  dr_message :: string
  dr_state :: int

record group_create_msg =
  gc_name :: string
  gc_member_keys :: "bytes list"
  gc_group_key_wrapped :: bytes

record group_update_msg =
  gu_group :: string
  gu_add :: "bytes list"
  gu_remove :: "bytes list"
  gu_rekey_wrapped :: bytes

section \<open>Prekeys and sessions\<close>

definition PrekeyBundle_validate :: "signal_deps \<Rightarrow> prekey_bundle_msg \<Rightarrow> parsed_envelope \<Rightarrow> validation" where
  "PrekeyBundle_validate d m env =
     (if length (pb_identity_key m) \<noteq> 32 \<or> pb_identity_key m \<noteq> author_key env
      then Invalid ''identity_key must equal the 32-byte envelope author key'' (Some ''identity_key'')
      else if length (pb_signed_prekey m) \<noteq> 32 \<or> length (pb_signed_prekey_sig m) \<noteq> 64
      then Invalid ''a signed 32-byte X25519 prekey is required'' (Some ''signed_prekey'')
      else if length (pb_kem_public_key m) = 0
      then Invalid ''ML-KEM-768 public key is required'' (Some ''kem_public_key'')
      else if length (pb_one_time_prekeys m) > 100
      then Invalid ''at most 100 one-time prekeys may be published'' (Some ''one_time_prekeys'')
      else if list_ex (\<lambda>k. length k \<noteq> 32) (pb_one_time_prekeys m)
      then Invalid ''one-time prekeys must be 32 bytes'' (Some ''one_time_prekeys'')
      else if pb_valid_until_ms m \<le> created_at_ms env
      then Invalid ''prekey bundle must expire in the future'' (Some ''valid_until_ms'')
      else if \<not> sd_ed_verify d (pb_signed_prekey_sig m)
             (signalPrekeySignatureBytes \<lparr>pf_identity_key = pb_identity_key m, pf_signed_prekey = pb_signed_prekey m,
               pf_kem_public_key = pb_kem_public_key m, pf_valid_until_ms = pb_valid_until_ms m\<rparr>) (pb_identity_key m)
      then Invalid ''signed prekey signature does not verify'' (Some ''signed_prekey_sig'')
      else Valid)"

definition PrekeyBundle_project :: "prekey_bundle_msg \<Rightarrow> parsed_envelope \<Rightarrow> signal_store \<Rightarrow> signal_store" where
  "PrekeyBundle_project m env st =
     (let i = hex (author_key env)
      in st\<lparr>sg_prekeys := al_set i
           \<lparr>pk_id = i, pk_identity_key = i, pk_signed_prekey = base64 (pb_signed_prekey m),
            pk_signed_prekey_signature = base64 (pb_signed_prekey_sig m), pk_kem_public_key = base64 (pb_kem_public_key m),
            pk_one_time_prekeys = map base64 (pb_one_time_prekeys m), pk_valid_until_ms = js_number (pb_valid_until_ms m),
            pk_content_id = content_id env\<rparr> (sg_prekeys st)\<rparr>)"

definition SignalSession_validate :: "session_init_msg \<Rightarrow> parsed_envelope \<Rightarrow> validation" where
  "SignalSession_validate m env =
     (if length (sx_recipient_key m) \<noteq> 32 then Invalid ''recipient_key must be 32 bytes'' (Some ''recipient_key'')
      else if sx_recipient_key m = author_key env then Invalid ''a key cannot message itself'' (Some ''recipient_key'')
      else if length (sx_kem_ciphertext m) = 0 \<or> length (sx_ephemeral_x25519 m) \<noteq> 32 \<or> length (sx_ciphertext m) < 28
      then Invalid ''hybrid session ciphertext is incomplete'' (Some ''ciphertext'')
      else Valid)"

definition SignalSession_authorize :: "signal_store \<Rightarrow> session_init_msg \<Rightarrow> parsed_envelope \<Rightarrow> auth_decision" where
  "SignalSession_authorize st m env =
     (if (case map_of (sg_prekeys st) (hex (sx_recipient_key m)) of None \<Rightarrow> False | Some p \<Rightarrow> pk_valid_until_ms p > env_time env)
      then Allowed else Denied ''recipient has no valid prekey bundle'')"

definition SignalSession_project :: "session_init_msg \<Rightarrow> parsed_envelope \<Rightarrow> signal_store \<Rightarrow> signal_store" where
  "SignalSession_project m env st =
     st\<lparr>sg_sessions := al_set (content_id env)
       \<lparr>ss_id = content_id env, ss_sender_key = hex (author_key env), ss_recipient_key = hex (sx_recipient_key m),
        ss_kem_ciphertext = base64 (sx_kem_ciphertext m), ss_ephemeral_x25519 = base64 (sx_ephemeral_x25519 m),
        ss_used_prekey_id = base64 (sx_used_prekey_id m), ss_ciphertext = base64 (sx_ciphertext m),
        ss_created_at_ms = env_time env, ss_last_counter = -1\<rparr> (sg_sessions st)\<rparr>"

section \<open>Messages of a session\<close>

definition SignalMessage_validate :: "signal_message_msg \<Rightarrow> validation" where
  "SignalMessage_validate m =
     (if \<not> starts_with ''jb1'' (mx_session m) then Invalid ''session must be a content ID'' (Some ''session'')
      else if length (mx_ciphertext m) < 16 then Invalid ''ciphertext is required'' (Some ''ciphertext'')
      else if list_ex (\<lambda>v. \<not> starts_with ''jb1'' v) (mx_attachment_refs m)
      then Invalid ''attachment_refs must be content IDs'' (Some ''attachment_refs'')
      else Valid)"

definition SignalMessage_authorize :: "signal_store \<Rightarrow> signal_message_msg \<Rightarrow> parsed_envelope \<Rightarrow> auth_decision" where
  "SignalMessage_authorize st m env =
     (case map_of (sg_sessions st) (mx_session m) of
        None \<Rightarrow> Denied ''session is not known here''
      | Some s \<Rightarrow>
          if ss_sender_key s \<noteq> hex (author_key env) \<and> ss_recipient_key s \<noteq> hex (author_key env)
          then Denied ''message author is not part of the session''
          else if mx_counter m \<le> ss_last_counter s then Denied ''ratchet counter must increase''
          else Allowed)"

definition DELIVERY_STATE_QUEUED :: int where "DELIVERY_STATE_QUEUED = 1"

definition sent_message :: "signal_message_msg \<Rightarrow> parsed_envelope \<Rightarrow> signal_session_doc \<Rightarrow> signal_message_doc" where
  "sent_message m env s =
     (let sender = hex (author_key env)
      in \<lparr>sm_id = content_id env, sm_session = mx_session m, sm_sender_key = sender,
          sm_recipient_key = (if sender = ss_sender_key s then ss_recipient_key s else ss_sender_key s),
          sm_counter = mx_counter m, sm_header = base64 (mx_header m), sm_ciphertext = base64 (mx_ciphertext m),
          sm_attachment_refs = mx_attachment_refs m, sm_created_at_ms = env_time env,
          sm_delivery_state = DELIVERY_STATE_QUEUED, sm_delivery_updated_at_ms = env_time env\<rparr>)"

definition SignalMessage_project :: "signal_message_msg \<Rightarrow> parsed_envelope \<Rightarrow> signal_store \<Rightarrow> signal_store" where
  "SignalMessage_project m env st =
     (case map_of (sg_sessions st) (mx_session m) of
        None \<Rightarrow> st
      | Some s \<Rightarrow> st\<lparr>sg_messages := al_set (content_id env) (sent_message m env s) (sg_messages st),
                    sg_sessions := al_set (ss_id s) (s\<lparr>ss_last_counter := mx_counter m\<rparr>) (sg_sessions st)\<rparr>)"

definition DeliveryReceipt_validate :: "delivery_receipt_msg \<Rightarrow> validation" where
  "DeliveryReceipt_validate m =
     (if \<not> starts_with ''jb1'' (dr_message m) then Invalid ''message must be a content ID'' (Some ''message'')
      else if dr_state m = UNSPECIFIED then Invalid ''delivery state is required'' (Some ''state'')
      else Valid)"

definition DeliveryReceipt_authorize :: "signal_store \<Rightarrow> delivery_receipt_msg \<Rightarrow> parsed_envelope \<Rightarrow> auth_decision" where
  "DeliveryReceipt_authorize st m env =
     (if map_option sm_recipient_key (map_of (sg_messages st) (dr_message m)) = Some (hex (author_key env))
      then Allowed else Denied ''only the recipient can acknowledge this message'')"

definition DeliveryReceipt_project :: "delivery_receipt_msg \<Rightarrow> parsed_envelope \<Rightarrow> signal_store \<Rightarrow> signal_store" where
  "DeliveryReceipt_project m env st =
     (case map_of (sg_messages st) (dr_message m) of
        None \<Rightarrow> st
      | Some x \<Rightarrow>
          if dr_state m < sm_delivery_state x then st
          else st\<lparr>sg_messages := al_set (sm_id x)
            (x\<lparr>sm_delivery_state := dr_state m, sm_delivery_updated_at_ms := env_time env\<rparr>) (sg_messages st)\<rparr>)"

section \<open>Groups\<close>

definition GroupCreate_validate :: "group_create_msg \<Rightarrow> validation" where
  "GroupCreate_validate m =
     (if js_trim (gc_name m) = [] then Invalid ''group name is required'' (Some ''name'')
      else if length (gc_member_keys m) < 2 \<or> length (gc_member_keys m) > 64
      then Invalid ''groups require 2 to 64 members'' (Some ''member_keys'')
      else if list_ex (\<lambda>k. length k \<noteq> 32) (gc_member_keys m)
      then Invalid ''member keys must be 32 bytes'' (Some ''member_keys'')
      else if length (unique (map hex (gc_member_keys m))) \<noteq> length (gc_member_keys m)
      then Invalid ''group members must be unique'' (Some ''member_keys'')
      else if length (gc_group_key_wrapped m) = 0
      then Invalid ''wrapped sender key is required'' (Some ''group_key_wrapped'')
      else Valid)"

definition GroupCreate_project :: "group_create_msg \<Rightarrow> parsed_envelope \<Rightarrow> signal_store \<Rightarrow> signal_store" where
  "GroupCreate_project m env st =
     st\<lparr>sg_groups := al_set (content_id env)
       \<lparr>gr_id = content_id env, gr_name = js_trim (gc_name m), gr_admin_key = hex (author_key env),
        gr_member_keys = unique (map hex (gc_member_keys m)), gr_group_key_wrapped = base64 (gc_group_key_wrapped m),
        gr_created_at_ms = env_time env, gr_updated_at_ms = env_time env\<rparr> (sg_groups st)\<rparr>"

definition GroupUpdate_validate :: "group_update_msg \<Rightarrow> validation" where
  "GroupUpdate_validate m =
     (let add = unique (map hex (gu_add m)); gone = unique (map hex (gu_remove m))
      in if \<not> starts_with ''jb1'' (gu_group m) then Invalid ''group must be a content ID'' (Some ''group'')
         else if length (gu_rekey_wrapped m) = 0
         then Invalid ''membership changes require a wrapped replacement key'' (Some ''rekey_wrapped'')
         else if list_ex (\<lambda>k. length k \<noteq> 32) (gu_add m @ gu_remove m)
         then Invalid ''member keys must be 32 bytes'' (Some ''add'')
         else if length add \<noteq> length (gu_add m) \<or> length gone \<noteq> length (gu_remove m) \<or> list_ex (\<lambda>k. k \<in> set gone) add
         then Invalid ''membership changes must be unique and disjoint'' (Some ''add'')
         else Valid)"

definition updated_members :: "group_update_msg \<Rightarrow> signal_group_doc \<Rightarrow> string list" where
  "updated_members m g =
     unique (filter (\<lambda>k. k \<notin> set (map hex (gu_remove m))) (gr_member_keys g) @ map hex (gu_add m))"

definition GroupUpdate_authorize :: "signal_store \<Rightarrow> group_update_msg \<Rightarrow> parsed_envelope \<Rightarrow> auth_decision" where
  "GroupUpdate_authorize st m env =
     (case map_of (sg_groups st) (gu_group m) of
        None \<Rightarrow> Denied ''group admin key required''
      | Some g \<Rightarrow>
          if gr_admin_key g \<noteq> hex (author_key env) then Denied ''group admin key required''
          else let n = length (updated_members m g)
               in if n \<ge> 2 \<and> n \<le> 64 then Allowed
                  else Denied ''groups require 2 to 64 members after every update'')"

definition GroupUpdate_project :: "group_update_msg \<Rightarrow> parsed_envelope \<Rightarrow> signal_store \<Rightarrow> signal_store" where
  "GroupUpdate_project m env st =
     (case map_of (sg_groups st) (gu_group m) of
        None \<Rightarrow> st
      | Some g \<Rightarrow> st\<lparr>sg_groups := al_set (gr_id g)
            (g\<lparr>gr_member_keys := updated_members m g, gr_group_key_wrapped := base64 (gu_rekey_wrapped m),
               gr_updated_at_ms := env_time env\<rparr>) (sg_groups st)\<rparr>)"

end
