(* ===== verification/JB_SignalNode.thy ===== *)
theory JB_SignalNode
  imports JB_Crisis JB_Messages JB_ForumNode
begin

text \<open>
  The Signal plane as one machine (\<open>features/signal/index.ts\<close>, \<open>signalHandlers\<close>): the decoded body of one of its
  twenty domains, checked and projected as the pipeline does, and runs of events over the store. A property that every
  accepted effect keeps holds along every run (\<open>guarded_invariant\<close>).
\<close>

section \<open>Operations\<close>

datatype signal_op =
    So_certify key_certificate_msg | So_revoke key_revocation_msg
  | So_declare channel_declare_msg | So_update channel_update_msg | So_rotate channel_rotate_msg
  | So_retire channel_retire_msg | So_vouch channel_vouch_msg | So_subscribe channel_subscribe_msg
  | So_profile directory_profile_msg
  | So_emit broadcast_emit_msg | So_revoke_broadcast broadcast_revoke_msg
  | So_checkin checkin_msg | So_missing missing_person_msg | So_resource resource_msg
  | So_prekeys prekey_bundle_msg | So_session session_init_msg | So_message signal_message_msg
  | So_receipt delivery_receipt_msg | So_group_create group_create_msg | So_group_update group_update_msg

record signal_event =
  se_op :: signal_op
  se_env :: parsed_envelope

fun signal_validate :: "signal_deps \<Rightarrow> signal_op \<Rightarrow> parsed_envelope \<Rightarrow> validation" where
  "signal_validate d (So_certify m) env = SignalKeyCertify_validate d m env"
| "signal_validate d (So_revoke m) env = SignalKeyRevoke_validate d m env"
| "signal_validate d (So_declare m) env = validateDeclaration m env"
| "signal_validate d (So_update m) env = ChannelUpdate_validate m env"
| "signal_validate d (So_rotate m) env = ChannelRotate_validate m env"
| "signal_validate d (So_retire m) env = ChannelRetire_validate m env"
| "signal_validate d (So_vouch m) env = ChannelVouch_validate m env"
| "signal_validate d (So_subscribe m) env = ChannelSubscribe_validate m env"
| "signal_validate d (So_profile m) env = SignalProfile_validate d m env"
| "signal_validate d (So_emit m) env = BroadcastEmit_validate m env"
| "signal_validate d (So_revoke_broadcast m) env = BroadcastRevoke_validate m env"
| "signal_validate d (So_checkin m) env = CheckIn_validate m"
| "signal_validate d (So_missing m) env = MissingPerson_validate m"
| "signal_validate d (So_resource m) env = ResourceReport_validate m"
| "signal_validate d (So_prekeys m) env = PrekeyBundle_validate d m env"
| "signal_validate d (So_session m) env = SignalSession_validate m env"
| "signal_validate d (So_message m) env = SignalMessage_validate m"
| "signal_validate d (So_receipt m) env = DeliveryReceipt_validate m"
| "signal_validate d (So_group_create m) env = GroupCreate_validate m"
| "signal_validate d (So_group_update m) env = GroupUpdate_validate m"

text \<open>Check-ins, reports, prekeys, new groups and revocations are open to every key.\<close>

fun signal_authorize :: "signal_deps \<Rightarrow> signal_store \<Rightarrow> signal_op \<Rightarrow> parsed_envelope \<Rightarrow> auth_decision" where
  "signal_authorize d st (So_certify m) env = SignalKeyCertify_authorize st env"
| "signal_authorize d st (So_declare m) env = ChannelDeclare_authorize st m"
| "signal_authorize d st (So_update m) env = owner_authorize st (cx_channel m) env"
| "signal_authorize d st (So_rotate m) env = owner_authorize st (xr_channel m) env"
| "signal_authorize d st (So_retire m) env = owner_authorize st (xt_channel m) env"
| "signal_authorize d st (So_vouch m) env = ChannelVouch_authorize st m"
| "signal_authorize d st (So_subscribe m) env = ChannelSubscribe_authorize st m"
| "signal_authorize d st (So_profile m) env = SignalProfile_authorize d st m env"
| "signal_authorize d st (So_emit m) env = BroadcastEmit_authorize st m env"
| "signal_authorize d st (So_revoke_broadcast m) env = BroadcastRevoke_authorize st m env"
| "signal_authorize d st (So_session m) env = SignalSession_authorize st m env"
| "signal_authorize d st (So_message m) env = SignalMessage_authorize st m env"
| "signal_authorize d st (So_receipt m) env = DeliveryReceipt_authorize st m env"
| "signal_authorize d st (So_group_update m) env = GroupUpdate_authorize st m env"
| "signal_authorize d st _ env = Allowed"

fun signal_project :: "signal_deps \<Rightarrow> signal_op \<Rightarrow> parsed_envelope \<Rightarrow> signal_store \<Rightarrow> signal_store" where
  "signal_project d (So_certify m) env st = SignalKeyCertify_project m env st"
| "signal_project d (So_revoke m) env st = SignalKeyRevoke_project m env st"
| "signal_project d (So_declare m) env st = ChannelDeclare_project d m env st"
| "signal_project d (So_update m) env st = ChannelUpdate_project d m env st"
| "signal_project d (So_rotate m) env st = ChannelRotate_project m env st"
| "signal_project d (So_retire m) env st = ChannelRetire_project m env st"
| "signal_project d (So_vouch m) env st = ChannelVouch_project m env st"
| "signal_project d (So_subscribe m) env st = ChannelSubscribe_project m env st"
| "signal_project d (So_profile m) env st = SignalProfile_project d m env st"
| "signal_project d (So_emit m) env st = BroadcastEmit_project m env st"
| "signal_project d (So_revoke_broadcast m) env st = BroadcastRevoke_project m env st"
| "signal_project d (So_checkin m) env st = CheckIn_project m env st"
| "signal_project d (So_missing m) env st = MissingPerson_project d m env st"
| "signal_project d (So_resource m) env st = ResourceReport_project m env st"
| "signal_project d (So_prekeys m) env st = PrekeyBundle_project m env st"
| "signal_project d (So_session m) env st = SignalSession_project m env st"
| "signal_project d (So_message m) env st = SignalMessage_project m env st"
| "signal_project d (So_receipt m) env st = DeliveryReceipt_project m env st"
| "signal_project d (So_group_create m) env st = GroupCreate_project m env st"
| "signal_project d (So_group_update m) env st = GroupUpdate_project m env st"

definition signal_accepts :: "signal_deps \<Rightarrow> signal_store \<Rightarrow> signal_event \<Rightarrow> bool" where
  "signal_accepts d st e \<longleftrightarrow>
     signal_authorize d st (se_op e) (se_env e) = Allowed \<and> signal_validate d (se_op e) (se_env e) = Valid"

definition signal_effect :: "signal_deps \<Rightarrow> signal_event \<Rightarrow> signal_store \<Rightarrow> signal_store" where
  "signal_effect d e st = signal_project d (se_op e) (se_env e) st"

definition signal_step :: "signal_deps \<Rightarrow> signal_store \<Rightarrow> signal_event \<Rightarrow> signal_store" where
  "signal_step d st e = (if signal_accepts d st e then signal_effect d e st else st)"

definition signal_run :: "signal_deps \<Rightarrow> signal_event list \<Rightarrow> signal_store \<Rightarrow> signal_store" where
  "signal_run d es st = foldl (signal_step d) st es"

lemma signal_run_simps [simp]:
  "signal_run d [] st = st" "signal_run d (e # es) st = signal_run d es (signal_step d st e)"
  by (simp_all add: signal_run_def)

lemma signal_run_eq: "signal_run d es st = foldl (\<lambda>s e. if signal_accepts d s e then signal_effect d e s else s) st es"
  unfolding signal_run_def signal_step_def [abs_def] ..

definition signal_ids :: "signal_event list \<Rightarrow> string list" where
  "signal_ids es = map (content_id \<circ> se_env) es"

section \<open>Rows lie under their own identifier\<close>

definition keyed_rows :: "('d \<Rightarrow> string) \<Rightarrow> 'd collection \<Rightarrow> bool" where
  "keyed_rows name c \<longleftrightarrow> (\<forall>k x. map_of c k = Some x \<longrightarrow> name x = k)"

lemma keyed_rows_set [simp]: "keyed_rows name c \<Longrightarrow> name x = k \<Longrightarrow> keyed_rows name (al_set k x c)"
  by (simp add: keyed_rows_def)

lemma keyed_rowsD: "keyed_rows name c \<Longrightarrow> map_of c k = Some x \<Longrightarrow> name x = k"
  by (simp add: keyed_rows_def)

definition signal_keyed :: "signal_store \<Rightarrow> bool" where
  "signal_keyed st \<longleftrightarrow> keyed_rows ch_channel_id (sg_channels st) \<and> keyed_rows bd_id (sg_broadcasts st)
     \<and> keyed_rows ss_id (sg_sessions st) \<and> keyed_rows sm_id (sg_messages st) \<and> keyed_rows gr_id (sg_groups st)
     \<and> keyed_rows dp_id (sg_profiles st)"

named_theorems signal_projects

lemmas signal_project_defs [signal_projects] =
  SignalKeyCertify_project_def SignalKeyRevoke_project_def ChannelDeclare_project_def ChannelUpdate_project_def
  ChannelRotate_project_def ChannelRetire_project_def ChannelVouch_project_def ChannelSubscribe_project_def
  SignalProfile_project_def BroadcastEmit_project_def BroadcastRevoke_project_def CheckIn_project_def
  MissingPerson_project_def ResourceReport_project_def PrekeyBundle_project_def SignalSession_project_def
  SignalMessage_project_def DeliveryReceipt_project_def GroupCreate_project_def GroupUpdate_project_def

lemma mark_superseded_keyed: "keyed_rows bd_id bs \<Longrightarrow> keyed_rows bd_id (mark_superseded t i bs)"
  by (auto simp: mark_superseded_def keyed_rowsD split: option.split)

lemma signal_keyed_effect: "signal_keyed st \<Longrightarrow> signal_keyed (signal_effect d e st)"
  unfolding signal_effect_def signal_keyed_def
  by (cases "se_op e")
    (auto simp: signal_projects Let_def declared_channel_def patched_channel_def emitted_broadcast_def sent_message_def
      profile_row_def keyed_rowsD intro!: mark_superseded_keyed split: option.split)

interpretation signal_keyed: guarded_invariant "signal_accepts d" "signal_effect d" "\<lambda>_. True" signal_keyed
  by unfold_locales (rule signal_keyed_effect)

lemma signal_keyed_run: "signal_keyed st \<Longrightarrow> signal_keyed (signal_run d es st)"
  unfolding signal_run_eq using signal_keyed.run_keeps [of st es d] by (simp add: list_all_iff)

lemma empty_signal_keyed: "signal_keyed empty_signal_store"
  by (simp add: signal_keyed_def empty_signal_store_def keyed_rows_def)

end
