(* ===== verification/JB_Broadcasts.thy ===== *)
theory JB_Broadcasts
  imports JB_SignalNode JB_Governance
begin

text \<open>
  What the Signal plane guarantees about channels: only the holder of a channel's key changes it or speaks for it, and
  its broadcasts form one numbered chain. And what it does not: any key at all can mark a channel as disputed.
\<close>

section \<open>Broadcasts as subscribers see them\<close>

definition spoken :: "signal_store \<Rightarrow> string \<Rightarrow> string \<Rightarrow> signal_broadcast_doc option" where
  "spoken st c i = (case map_of (sg_broadcasts st) i of None \<Rightarrow> None | Some b \<Rightarrow> if bd_channel b = c then Some b else None)"

text \<open>What a projection does to the two collections, for every operation but those of the owner and of broadcasts.\<close>

fun channel_op :: "signal_op \<Rightarrow> bool" where
  "channel_op (So_declare m) = True"
| "channel_op (So_update m) = True"
| "channel_op (So_rotate m) = True"
| "channel_op (So_retire m) = True"
| "channel_op (So_emit m) = True"
| "channel_op (So_revoke_broadcast m) = True"
| "channel_op _ = False"

lemma other_ops:
  assumes "\<not> channel_op op"
  shows "sg_channels (signal_project d op env st) = sg_channels st" "sg_broadcasts (signal_project d op env st) = sg_broadcasts st"
  using assms by (cases op; simp add: signal_projects Let_def split: option.split)+

lemma emit_channels:
  assumes "map_of (sg_channels st) (bm_channel m) = Some c"
  shows "sg_channels (BroadcastEmit_project m env st) = al_set (ch_channel_id c) (c\<lparr>ch_last_sequence := bm_sequence m\<rparr>) (sg_channels st)"
    "sg_broadcasts (BroadcastEmit_project m env st) = mark_superseded (bm_supersedes m) (content_id env)
      (al_set (content_id env) (emitted_broadcast m env (ch_last_sequence c)) (sg_broadcasts st))"
  using assms by (simp_all add: BroadcastEmit_project_def Let_def)

lemma broadcast_ids_step:
  "dom (map_of (sg_broadcasts (signal_effect d e st))) \<subseteq> insert (content_id (se_env e)) (dom (map_of (sg_broadcasts st)))"
  if "signal_keyed st"
proof (cases "channel_op (se_op e)")
  case False
  then show ?thesis by (auto simp: signal_effect_def other_ops)
next
  case True
  from that have keyed: "keyed_rows bd_id (sg_broadcasts st)" by (simp add: signal_keyed_def)
  have mark: "dom (map_of (mark_superseded t i bs)) \<subseteq> dom (map_of bs)" if "keyed_rows bd_id bs" for t i bs
    using that by (auto simp: mark_superseded_def keyed_rowsD split: option.splits if_splits)
  from True show ?thesis
  proof (cases "se_op e")
    case (So_emit m)
    have new: "keyed_rows bd_id (al_set (content_id (se_env e)) (emitted_broadcast m (se_env e) p) (sg_broadcasts st))" for p
      using keyed by (simp add: emitted_broadcast_def)
    show ?thesis
      using mark [OF new, of "bm_supersedes m" "content_id (se_env e)"] So_emit
      by (auto simp: signal_effect_def BroadcastEmit_project_def Let_def split: option.splits)
  qed (auto simp: signal_effect_def signal_projects keyed_rowsD [OF keyed] split: option.splits if_splits)
qed

lemma broadcast_ids_run:
  "dom (map_of (sg_broadcasts (signal_run d es empty_signal_store))) \<subseteq> set (signal_ids es)"
proof (induction es rule: rev_induct)
  case Nil
  show ?case by (simp add: empty_signal_store_def)
next
  case (snoc e es)
  let ?st = "signal_run d es empty_signal_store"
  have keyed: "signal_keyed ?st" by (rule signal_keyed_run [OF empty_signal_keyed])
  have "dom (map_of (sg_broadcasts (signal_step d ?st e))) \<subseteq> insert (content_id (se_env e)) (dom (map_of (sg_broadcasts ?st)))"
    using broadcast_ids_step [OF keyed, of d e] by (auto simp: signal_step_def)
  with snoc have "dom (map_of (sg_broadcasts (signal_step d ?st e))) \<subseteq> insert (content_id (se_env e)) (set (signal_ids es))" by blast
  then show ?case by (simp add: signal_run_def signal_ids_def)
qed

section \<open>Only the key speaks\<close>

definition silent :: "string \<Rightarrow> signal_channel_doc \<Rightarrow> (string \<Rightarrow> signal_broadcast_doc option) \<Rightarrow> signal_store \<Rightarrow> bool" where
  "silent c ch bs st \<longleftrightarrow> signal_keyed st \<and> map_of (sg_channels st) c = Some ch \<and> spoken st c = bs"

definition stranger :: "signal_channel_doc \<Rightarrow> (string \<Rightarrow> signal_broadcast_doc option) \<Rightarrow> signal_event \<Rightarrow> bool" where
  "stranger ch bs e \<longleftrightarrow> hex (author_key (se_env e)) \<noteq> ch_current_signing_key ch \<and> content_id (se_env e) \<notin> dom bs"

lemma owner_channel:
  "owner_authorize st i env = Allowed \<Longrightarrow> \<exists>c. map_of (sg_channels st) i = Some c \<and> ch_current_signing_key c = hex (author_key env)"
  by (auto simp: owner_authorize_def split: option.splits if_splits)

lemma spoken_emit:
  assumes keyed: "keyed_rows bd_id (sg_broadcasts st)" and x: "map_of (sg_channels st) (bm_channel m) = Some x"
    and other: "bm_channel m \<noteq> c" and fresh: "content_id env \<notin> dom (spoken st c)"
    and target: "bm_supersedes m = [] \<or> (\<exists>b. map_of (sg_broadcasts st) (bm_supersedes m) = Some b \<and> bd_channel b = bm_channel m)"
  shows "spoken (BroadcastEmit_project m env st) c = spoken st c"
proof
  fix i
  define row where "row = emitted_broadcast m env (ch_last_sequence x)"
  define bs where "bs = al_set (content_id env) row (sg_broadcasts st)"
  have row: "bd_channel row = bm_channel m" "bd_id row = content_id env" by (simp_all add: row_def emitted_broadcast_def)
  have keyed': "keyed_rows bd_id bs" using keyed row by (simp add: bs_def)
  have put: "spoken (st\<lparr>sg_broadcasts := bs\<rparr>) c i = spoken st c i"
    using fresh other row by (auto simp: spoken_def bs_def dom_def split: option.splits)
  have mark: "spoken (st\<lparr>sg_broadcasts := mark_superseded (bm_supersedes m) (content_id env) bs\<rparr>) c i = spoken (st\<lparr>sg_broadcasts := bs\<rparr>) c i"
  proof (cases "bm_supersedes m = [] \<or> map_of bs (bm_supersedes m) = None")
    case True
    then show ?thesis by (auto simp: mark_superseded_def)
  next
    case False
    then obtain p where p: "map_of bs (bm_supersedes m) = Some p" "bm_supersedes m \<noteq> []" by auto
    with target row have "bd_channel p = bm_channel m" by (auto simp: bs_def split: if_splits)
    with p keyed_rowsD [OF keyed' p(1)] other show ?thesis by (simp add: spoken_def mark_superseded_def)
  qed
  have "sg_broadcasts (BroadcastEmit_project m env st) = mark_superseded (bm_supersedes m) (content_id env) bs"
    by (simp add: emit_channels(2) [OF x] bs_def row_def)
  then have "spoken (BroadcastEmit_project m env st) c i = spoken (st\<lparr>sg_broadcasts := mark_superseded (bm_supersedes m) (content_id env) bs\<rparr>) c i"
    by (simp add: spoken_def)
  with put mark show "spoken (BroadcastEmit_project m env st) c i = spoken st c i" by simp
qed

lemma silent_step:
  assumes inv: "silent c ch bs st" and e: "stranger ch bs e" and acc: "signal_accepts d st e"
  shows "silent c ch bs (signal_effect d e st)"
proof -
  from inv have keyed: "signal_keyed st" and chan: "map_of (sg_channels st) c = Some ch" and bs: "spoken st c = bs"
    by (simp_all add: silent_def)
  then have kc: "keyed_rows ch_channel_id (sg_channels st)" and kb: "keyed_rows bd_id (sg_broadcasts st)" by (simp_all add: signal_keyed_def)
  from e have stranger: "hex (author_key (se_env e)) \<noteq> ch_current_signing_key ch" and fresh: "content_id (se_env e) \<notin> dom (spoken st c)"
    by (simp_all add: stranger_def bs)
  from acc have auth: "signal_authorize d st (se_op e) (se_env e) = Allowed" by (simp add: signal_accepts_def)
  note owner = owner_channel [of st _ "se_env e"]
  have "map_of (sg_channels (signal_effect d e st)) c = Some ch \<and> spoken (signal_effect d e st) c = spoken st c"
  proof (cases "channel_op (se_op e)")
    case False
    with chan show ?thesis by (simp add: signal_effect_def other_ops spoken_def fun_eq_iff)
  next
    case True
    then show ?thesis
    proof (cases "se_op e")
      case (So_declare m)
      with auth chan show ?thesis
        by (auto simp: signal_effect_def ChannelDeclare_project_def ChannelDeclare_authorize_def spoken_def fun_eq_iff)
    next
      case (So_update m)
      with auth owner obtain x where "map_of (sg_channels st) (cx_channel m) = Some x" "ch_current_signing_key x = hex (author_key (se_env e))"
        by auto
      with So_update chan stranger keyed_rowsD [OF kc] show ?thesis
        by (auto simp: signal_effect_def ChannelUpdate_project_def spoken_def fun_eq_iff split: option.split)
    next
      case (So_rotate m)
      with auth owner obtain x where "map_of (sg_channels st) (xr_channel m) = Some x" "ch_current_signing_key x = hex (author_key (se_env e))"
        by auto
      with So_rotate chan stranger keyed_rowsD [OF kc] show ?thesis
        by (auto simp: signal_effect_def ChannelRotate_project_def spoken_def fun_eq_iff)
    next
      case (So_retire m)
      with auth owner obtain x where "map_of (sg_channels st) (xt_channel m) = Some x" "ch_current_signing_key x = hex (author_key (se_env e))"
        by auto
      with So_retire chan stranger keyed_rowsD [OF kc] show ?thesis
        by (auto simp: signal_effect_def ChannelRetire_project_def spoken_def fun_eq_iff)
    next
      case (So_emit m)
      with auth obtain x where x: "map_of (sg_channels st) (bm_channel m) = Some x" "ch_current_signing_key x = hex (author_key (se_env e))"
        and target: "bm_supersedes m = [] \<or> (\<exists>b. map_of (sg_broadcasts st) (bm_supersedes m) = Some b \<and> bd_channel b = bm_channel m)"
        by (auto simp: BroadcastEmit_authorize_def split: option.splits if_splits)
      with chan stranger have other: "bm_channel m \<noteq> c" by auto
      have "spoken (signal_effect d e st) c = spoken st c"
        using spoken_emit [OF kb x(1) other fresh target] So_emit by (simp add: signal_effect_def)
      with So_emit x other chan keyed_rowsD [OF kc] show ?thesis
        by (auto simp: signal_effect_def emit_channels fun_eq_iff)
    next
      case (So_revoke_broadcast m)
      with auth obtain x b where x: "map_of (sg_channels st) (br_channel m) = Some x" "ch_current_signing_key x = hex (author_key (se_env e))"
        and b: "map_of (sg_broadcasts st) (br_target m) = Some b" "bd_channel b = br_channel m"
        by (auto simp: BroadcastRevoke_authorize_def split: option.splits if_splits)
      with chan stranger have other: "br_channel m \<noteq> c" by auto
      with So_revoke_broadcast b keyed_rowsD [OF kb b(1)] chan show ?thesis
        by (auto simp: signal_effect_def BroadcastRevoke_project_def spoken_def fun_eq_iff)
    qed simp_all
  qed
  with signal_keyed_effect [OF keyed] bs show ?thesis by (simp add: silent_def)
qed

interpretation strangers: guarded_invariant "signal_accepts d" "signal_effect d" "stranger ch bs" "silent c ch bs"
  by unfold_locales (rule silent_step)

text \<open>C14: Only its key speaks for a channel: once a channel is known, nothing that other keys publish changes its row -
  its name, keys, claims, retirement or counter - and nothing adds, alters or revokes a broadcast of it, whatever
  operations they try and whatever channels of their own they run. Event identifiers are distinct, as content
  identifiers are.\<close>

theorem only_the_key_speaks:
  assumes "distinct (signal_ids (es @ fs))"
    and "map_of (sg_channels (signal_run d es empty_signal_store)) c = Some ch"
    and "\<forall>e\<in>set fs. hex (author_key (se_env e)) \<noteq> ch_current_signing_key ch"
  shows "map_of (sg_channels (signal_run d (es @ fs) empty_signal_store)) c = Some ch
    \<and> spoken (signal_run d (es @ fs) empty_signal_store) c = spoken (signal_run d es empty_signal_store) c"
proof -
  let ?st = "signal_run d es empty_signal_store"
  have "dom (spoken ?st c) \<subseteq> set (signal_ids es)"
    using broadcast_ids_run [of d es] by (auto simp: spoken_def dom_def split: option.splits)
  with assms(1,3) have "list_all (stranger ch (spoken ?st c)) fs"
    by (force simp: stranger_def list_all_iff signal_ids_def)
  then have "silent c ch (spoken ?st c) (signal_run d fs ?st)"
    unfolding signal_run_eq [of d fs]
    by (rule strangers.run_keeps [rotated]) (simp add: silent_def assms(2) signal_keyed_run [OF empty_signal_keyed])
  then show ?thesis by (simp add: silent_def signal_run_def)
qed


section \<open>The chain of broadcasts\<close>

text \<open>Number, previous number and identifier of every broadcast, and the counter of every channel.\<close>

definition number_view :: "signal_broadcast_doc collection \<Rightarrow> string \<Rightarrow> (string \<times> int \<times> int) option" where
  "number_view bs i = map_option (\<lambda>b. (bd_channel b, bd_sequence b, bd_previous_sequence b)) (map_of bs i)"

definition numbers :: "signal_broadcast_doc collection \<Rightarrow> (string \<times> int \<times> int \<times> string) set" where
  "numbers bs = {(c, n, p, i). number_view bs i = Some (c, n, p)}"

definition counters :: "signal_store \<Rightarrow> string \<Rightarrow> int option" where
  "counters st c = map_option ch_last_sequence (map_of (sg_channels st) c)"

definition linked :: "(string \<times> int \<times> int \<times> string) set \<Rightarrow> (string \<Rightarrow> int option) \<Rightarrow> string \<Rightarrow> int \<Rightarrow> int \<Rightarrow> string \<Rightarrow> bool" where
  "linked N L c n p i \<longleftrightarrow> 0 \<le> p \<and> p < n \<and> (\<exists>l. L c = Some l \<and> n \<le> l) \<and> (p = 0 \<or> (\<exists>q j. (c, p, q, j) \<in> N))
     \<and> (\<forall>m q j. (c, m, q, j) \<in> N \<longrightarrow> (m \<le> p \<or> n \<le> m) \<and> (m = n \<longrightarrow> j = i))"

definition topped :: "(string \<times> int \<times> int \<times> string) set \<Rightarrow> (string \<Rightarrow> int option) \<Rightarrow> bool" where
  "topped N L \<longleftrightarrow> (\<forall>c l. L c = Some l \<longrightarrow> 0 \<le> l \<and> (l = 0 \<or> (\<exists>p i. (c, l, p, i) \<in> N)))"

definition numbered :: "(string \<times> int \<times> int \<times> string) set \<Rightarrow> (string \<Rightarrow> int option) \<Rightarrow> bool" where
  "numbered N L \<longleftrightarrow> (\<forall>c n p i. (c, n, p, i) \<in> N \<longrightarrow> linked N L c n p i) \<and> topped N L"

lemma numberedD: "numbered N L \<Longrightarrow> (c, n, p, i) \<in> N \<Longrightarrow> linked N L c n p i"
  by (simp add: numbered_def)

lemma linked_other: "linked N L c n p i \<Longrightarrow> (c, m, q, j) \<in> N \<Longrightarrow> (m \<le> p \<or> n \<le> m) \<and> (m = n \<longrightarrow> j = i)"
  by (simp add: linked_def)

lemma numbered_counter: "numbered N L \<Longrightarrow> (c, n, p, i) \<in> N \<Longrightarrow> \<exists>l. L c = Some l \<and> n \<le> l"
  using numberedD by (simp add: linked_def)

lemma numbered_new_channel:
  assumes ok: "numbered N L" and "L c = None"
  shows "numbered N (L(c \<mapsto> 0))"
proof -
  from assms numbered_counter have none: "(c, n, p, i) \<notin> N" for n p i by fastforce
  have "linked N (L(c \<mapsto> 0)) a n p i" if "(a, n, p, i) \<in> N" for a n p i
  proof -
    from none that have "a \<noteq> c" by blast
    with numberedD [OF ok that] show ?thesis by (simp add: linked_def)
  qed
  moreover have "topped N (L(c \<mapsto> 0))" using ok by (simp add: numbered_def topped_def)
  ultimately show ?thesis by (simp add: numbered_def)
qed

lemma numbered_emit:
  assumes ok: "numbered N L" and l: "L c = Some l" "l < n"
  shows "numbered (insert (c, n, l, i) N) (L(c \<mapsto> n))"
proof -
  let ?N = "insert (c, n, l, i) N" and ?L = "L(c \<mapsto> n)"
  from ok l(1) have l0: "0 \<le> l" "l = 0 \<or> (\<exists>p j. (c, l, p, j) \<in> N)" by (simp_all add: numbered_def topped_def)
  have below: "m \<le> l" if "(c, m, q, j) \<in> N" for m q j
    using numbered_counter [OF ok that] l(1) by simp
  have "linked ?N ?L c n l i"
    using l0 l(2) below by (fastforce simp: linked_def)
  moreover have "linked ?N ?L a m p j" if "(a, m, p, j) \<in> N" for a m p j
  proof (cases "a = c")
    case True
    with below that l(2) have "m < n" by fastforce
    with numberedD [OF ok that] True show ?thesis by (auto simp: linked_def)
  next
    case False
    with numberedD [OF ok that] show ?thesis by (simp add: linked_def)
  qed
  moreover have "topped ?N ?L"
    unfolding topped_def
  proof (intro allI impI)
    fix a k assume k: "?L a = Some k"
    show "0 \<le> k \<and> (k = 0 \<or> (\<exists>p i. (a, k, p, i) \<in> ?N))"
    proof (cases "a = c")
      case True
      with k l0(1) l(2) show ?thesis by auto
    next
      case False
      with k ok have "0 \<le> k \<and> (k = 0 \<or> (\<exists>p i. (a, k, p, i) \<in> N))" by (simp add: numbered_def topped_def)
      then show ?thesis by blast
    qed
  qed
  ultimately show ?thesis by (simp add: numbered_def)
qed

lemma mark_numbers: "keyed_rows bd_id bs \<Longrightarrow> number_view (mark_superseded t j bs) = number_view bs"
  by (auto simp: number_view_def mark_superseded_def keyed_rowsD fun_eq_iff split: option.split)

lemma same_numbers: "number_view bs' = number_view bs \<Longrightarrow> numbers bs' = numbers bs"
  by (simp add: numbers_def)

definition chained :: "signal_store \<Rightarrow> bool" where
  "chained st \<longleftrightarrow> signal_keyed st \<and> numbered (numbers (sg_broadcasts st)) (counters st)"

lemma emit_numbers:
  assumes keyed: "keyed_rows bd_id (sg_broadcasts st)" "keyed_rows ch_channel_id (sg_channels st)"
    and x: "map_of (sg_channels st) (bm_channel m) = Some x" and fresh: "map_of (sg_broadcasts st) (content_id env) = None"
  shows "numbers (sg_broadcasts (BroadcastEmit_project m env st))
      = insert (bm_channel m, bm_sequence m, ch_last_sequence x, content_id env) (numbers (sg_broadcasts st))"
    "counters (BroadcastEmit_project m env st) = (counters st)(bm_channel m \<mapsto> bm_sequence m)"
proof -
  let ?bs = "al_set (content_id env) (emitted_broadcast m env (ch_last_sequence x)) (sg_broadcasts st)"
  have "keyed_rows bd_id ?bs" using keyed(1) by (simp add: emitted_broadcast_def)
  from same_numbers [OF mark_numbers [OF this]]
  have "numbers (sg_broadcasts (BroadcastEmit_project m env st)) = numbers ?bs" by (simp add: emit_channels(2) [OF x])
  also have "number_view ?bs = (number_view (sg_broadcasts st))(content_id env \<mapsto> (bm_channel m, bm_sequence m, ch_last_sequence x))"
    by (simp add: number_view_def fun_eq_iff emitted_broadcast_def)
  then have "numbers ?bs = insert (bm_channel m, bm_sequence m, ch_last_sequence x, content_id env) (numbers (sg_broadcasts st))"
    using fresh by (auto simp: numbers_def number_view_def [of "sg_broadcasts st"] split: if_splits)
  finally show "numbers (sg_broadcasts (BroadcastEmit_project m env st))
      = insert (bm_channel m, bm_sequence m, ch_last_sequence x, content_id env) (numbers (sg_broadcasts st))" .
  show "counters (BroadcastEmit_project m env st) = (counters st)(bm_channel m \<mapsto> bm_sequence m)"
    using x keyed_rowsD [OF keyed(2) x] by (simp add: emit_channels counters_def fun_eq_iff)
qed

text \<open>The owner's other operations keep the counter, and everything but a new broadcast keeps the numbers.\<close>

lemma update_counters:
  assumes "keyed_rows ch_channel_id (sg_channels st)"
  shows "counters (ChannelUpdate_project d u env st) = counters st" "counters (ChannelRotate_project r env st) = counters st"
    "counters (ChannelRetire_project t env st) = counters st"
  using keyed_rowsD [OF assms]
  by (auto simp: counters_def fun_eq_iff ChannelUpdate_project_def ChannelRotate_project_def ChannelRetire_project_def
      patched_channel_def Let_def split: option.split)

lemma update_broadcasts:
  "sg_broadcasts (ChannelUpdate_project d u env st) = sg_broadcasts st" "sg_broadcasts (ChannelRotate_project r env st) = sg_broadcasts st"
  "sg_broadcasts (ChannelRetire_project t env st) = sg_broadcasts st"
  by (simp_all add: ChannelUpdate_project_def ChannelRotate_project_def ChannelRetire_project_def split: option.split)

lemma revoke_numbers:
  assumes "keyed_rows bd_id (sg_broadcasts st)"
  shows "numbers (sg_broadcasts (BroadcastRevoke_project m env st)) = numbers (sg_broadcasts st)"
    "counters (BroadcastRevoke_project m env st) = counters st"
proof -
  show "numbers (sg_broadcasts (BroadcastRevoke_project m env st)) = numbers (sg_broadcasts st)"
    using keyed_rowsD [OF assms]
    by (intro same_numbers) (auto simp: number_view_def fun_eq_iff BroadcastRevoke_project_def split: option.split)
  show "counters (BroadcastRevoke_project m env st) = counters st"
    by (simp add: counters_def fun_eq_iff BroadcastRevoke_project_def split: option.split)
qed

lemma declare_numbers:
  "sg_broadcasts (ChannelDeclare_project d m env st) = sg_broadcasts st"
  "counters (ChannelDeclare_project d m env st) = (counters st)(channelId (cd_signing_key m) \<mapsto> 0)"
  by (simp_all add: ChannelDeclare_project_def counters_def declared_channel_def Let_def fun_eq_iff)

lemma chained_effect:
  assumes ok: "chained st" and fresh: "map_of (sg_broadcasts st) (content_id (se_env e)) = None" and acc: "signal_accepts d st e"
  shows "chained (signal_effect d e st)"
proof -
  let ?st = "signal_effect d e st"
  from ok have keyed: "signal_keyed st" and num: "numbered (numbers (sg_broadcasts st)) (counters st)" by (simp_all add: chained_def)
  then have kc: "keyed_rows ch_channel_id (sg_channels st)" and kb: "keyed_rows bd_id (sg_broadcasts st)" by (simp_all add: signal_keyed_def)
  from acc have auth: "signal_authorize d st (se_op e) (se_env e) = Allowed" by (simp add: signal_accepts_def)
  have "numbered (numbers (sg_broadcasts ?st)) (counters ?st)"
  proof (cases "channel_op (se_op e)")
    case False
    then have "sg_broadcasts ?st = sg_broadcasts st" "counters ?st = counters st"
      by (simp_all add: signal_effect_def other_ops counters_def fun_eq_iff)
    with num show ?thesis by simp
  next
    case True
    then show ?thesis
    proof (cases "se_op e")
      case (So_declare m)
      with auth have new: "counters st (channelId (cd_signing_key m)) = None"
        by (auto simp: ChannelDeclare_authorize_def counters_def split: option.splits)
      show ?thesis using numbered_new_channel [OF num new] So_declare by (simp add: signal_effect_def declare_numbers)
    next
      case (So_emit m)
      with auth obtain x where x: "map_of (sg_channels st) (bm_channel m) = Some x" "ch_last_sequence x < bm_sequence m"
        by (auto simp: BroadcastEmit_authorize_def split: option.splits if_splits)
      then have "counters st (bm_channel m) = Some (ch_last_sequence x)" by (simp add: counters_def)
      from numbered_emit [OF num this x(2), of "content_id (se_env e)"] emit_numbers [OF kb kc x(1) fresh] So_emit
      show ?thesis by (simp add: signal_effect_def)
    qed (use num in \<open>simp_all add: signal_effect_def update_counters [OF kc] update_broadcasts revoke_numbers [OF kb]\<close>)
  qed
  with signal_keyed_effect [OF keyed] show ?thesis by (simp add: chained_def)
qed

lemma chained_run:
  "distinct (signal_ids es) \<Longrightarrow> chained (signal_run d es empty_signal_store)"
proof (induction es rule: rev_induct)
  case Nil
  have "numbered (numbers (sg_broadcasts empty_signal_store)) (counters empty_signal_store)"
    by (simp add: numbered_def numbers_def number_view_def topped_def counters_def empty_signal_store_def)
  then show ?case by (simp add: chained_def empty_signal_keyed)
next
  case (snoc e es)
  let ?st = "signal_run d es empty_signal_store"
  from snoc have ok: "chained ?st" and "content_id (se_env e) \<notin> set (signal_ids es)" by (simp_all add: signal_ids_def)
  then have "map_of (sg_broadcasts ?st) (content_id (se_env e)) = None" using broadcast_ids_run [of d es] by blast
  with ok chained_effect [of ?st e d] show ?case by (simp add: signal_run_def signal_step_def)
qed

text \<open>C15: The broadcasts of a channel form one numbered chain: every stored broadcast has a positive number that is at
  most the counter of its channel, which is known; no other broadcast of the channel has its number; and the number it
  names as its predecessor is that of the broadcast immediately before it, which is stored too, or 0 for the first. A
  subscriber who has the newest broadcast can tell which ones are missing.\<close>

theorem broadcasts_are_numbered:
  assumes "distinct (signal_ids es)" and "map_of (sg_broadcasts (signal_run d es empty_signal_store)) i = Some b"
  shows "0 \<le> bd_previous_sequence b \<and> bd_previous_sequence b < bd_sequence b
    \<and> (\<exists>ch. map_of (sg_channels (signal_run d es empty_signal_store)) (bd_channel b) = Some ch \<and> bd_sequence b \<le> ch_last_sequence ch)
    \<and> (bd_previous_sequence b = 0 \<or> (\<exists>j p. map_of (sg_broadcasts (signal_run d es empty_signal_store)) j = Some p
         \<and> bd_channel p = bd_channel b \<and> bd_sequence p = bd_previous_sequence b))
    \<and> (\<forall>j p. map_of (sg_broadcasts (signal_run d es empty_signal_store)) j = Some p \<longrightarrow> bd_channel p = bd_channel b \<longrightarrow>
         (bd_sequence p \<le> bd_previous_sequence b \<or> bd_sequence b \<le> bd_sequence p) \<and> (bd_sequence p = bd_sequence b \<longrightarrow> j = i))"
proof -
  let ?st = "signal_run d es empty_signal_store"
  have num: "numbered (numbers (sg_broadcasts ?st)) (counters ?st)" using chained_run [OF assms(1)] by (simp add: chained_def)
  have row: "(bd_channel p, bd_sequence p, bd_previous_sequence p, j) \<in> numbers (sg_broadcasts ?st)"
    if "map_of (sg_broadcasts ?st) j = Some p" for j p
    using that by (simp add: numbers_def number_view_def)
  have link: "linked (numbers (sg_broadcasts ?st)) (counters ?st) (bd_channel b) (bd_sequence b) (bd_previous_sequence b) i"
    by (rule numberedD [OF num row [OF assms(2)]])
  have known: "\<exists>ch. map_of (sg_channels ?st) (bd_channel b) = Some ch \<and> bd_sequence b \<le> ch_last_sequence ch"
    using numbered_counter [OF num row [OF assms(2)]] by (auto simp: counters_def)
  from link have prev: "bd_previous_sequence b = 0 \<or> (\<exists>q j. (bd_channel b, bd_previous_sequence b, q, j) \<in> numbers (sg_broadcasts ?st))"
    by (simp add: linked_def)
  have before: "bd_previous_sequence b = 0 \<or> (\<exists>j p. map_of (sg_broadcasts ?st) j = Some p
      \<and> bd_channel p = bd_channel b \<and> bd_sequence p = bd_previous_sequence b)"
    using prev by (auto simp: numbers_def number_view_def)
  have others: "(bd_sequence p \<le> bd_previous_sequence b \<or> bd_sequence b \<le> bd_sequence p) \<and> (bd_sequence p = bd_sequence b \<longrightarrow> j = i)"
    if "map_of (sg_broadcasts ?st) j = Some p" "bd_channel p = bd_channel b" for j p
    using linked_other [OF link] row [OF that(1)] that(2) by simp
  from link have bounds: "0 \<le> bd_previous_sequence b" "bd_previous_sequence b < bd_sequence b" by (simp_all add: linked_def)
  from bounds known before others show ?thesis by (intro conjI allI impI) simp_all
qed


section \<open>What decides whether an alarm may sound\<close>

lemma filter_al_set:
  "length (filter P (map snd (al_set k v m))) \<le> Suc (length (filter P (map snd m)))"
  "P v \<Longrightarrow> v \<in> set (filter P (map snd (al_set k v m)))"
  "P v \<Longrightarrow> filter P (map snd m) = [] \<Longrightarrow> filter P (map snd (al_set k v m)) = [v]"
  by (induction k v m rule: al_set.induct) (auto split: if_splits)

text \<open>C16: One vouch decides what may alarm, and any key can give it: a vouch needs a known channel, a level and a basis,
  nothing of its author. While a channel has fewer than 1000 vouches, a negative one from any key marks it as disputed
  and the default filter drops its critical broadcasts; and for a channel without vouches one positive vouch from any
  key, a fresh one or the channel's own, lets its critical broadcasts through. The requirement asks for vouches of
  other channels.\<close>

theorem any_key_decides_what_alarms:
  assumes "map_of (sg_channels st) c \<noteq> None" and "c \<noteq> []" and "env_scope (se_env e) = c"
    and "se_op e = So_vouch m" and "xv_channel m = c" and "js_trim (xv_basis m) \<noteq> []"
    and "length (filter (\<lambda>v. cv_channel v = c) (map snd (sg_vouches st))) < 1000"
  shows "(xv_level m = VOUCH_LEVEL_NEGATIVE \<longrightarrow> signal_accepts d st e
        \<and> channelVerificationLevel (signal_step d st e) c = Vf_disputed
        \<and> \<not> defaultSeverityAllows SEVERITY_CRITICAL (channelVerificationLevel (signal_step d st e) c))
    \<and> (xv_level m \<in> {VOUCH_LEVEL_KNOWN, VOUCH_LEVEL_VERIFIED, VOUCH_LEVEL_ENDORSED}
        \<longrightarrow> filter (\<lambda>v. cv_channel v = c) (map snd (sg_vouches st)) = []
        \<longrightarrow> signal_accepts d st e \<and> defaultSeverityAllows SEVERITY_CRITICAL (channelVerificationLevel (signal_step d st e) c))"
proof -
  let ?of = "\<lambda>st. filter (\<lambda>v. cv_channel v = c) (map snd (sg_vouches st))"
  have acc: "signal_accepts d st e" if "xv_level m \<noteq> UNSPECIFIED"
    using assms that
    by (auto simp: signal_accepts_def ChannelVouch_authorize_def known_channel_def ChannelVouch_validate_def scope_equals_channel_def)
  obtain k v where v: "sg_vouches (ChannelVouch_project m (se_env e) st) = al_set k v (sg_vouches st)" "cv_channel v = c" "cv_level v = xv_level m"
    using assms(5) by (simp add: ChannelVouch_project_def Let_def)
  have step: "sg_vouches (signal_step d st e) = al_set k v (sg_vouches st)" if "xv_level m \<noteq> UNSPECIFIED"
    using acc [OF that] v assms(4) by (simp add: signal_step_def signal_effect_def)
  have level: "channelVerificationLevel (signal_step d st e) c =
      (let has = (\<lambda>level. list_ex (\<lambda>v. cv_level v = level) (?of (signal_step d st e)))
       in if has VOUCH_LEVEL_NEGATIVE then Vf_disputed else if has VOUCH_LEVEL_ENDORSED then Vf_endorsed
          else if has VOUCH_LEVEL_VERIFIED then Vf_verified else if has VOUCH_LEVEL_KNOWN then Vf_known else Vf_unverified)"
    if "xv_level m \<noteq> UNSPECIFIED"
  proof -
    have "length (?of (signal_step d st e)) \<le> 1000"
      using filter_al_set(1) [of "\<lambda>v. cv_channel v = c" k v "sg_vouches st"] assms(7) step [OF that] by simp
    then show ?thesis by (simp add: channelVerificationLevel_def find_docs_def)
  qed
  note numbers = VOUCH_LEVEL_NEGATIVE_def VOUCH_LEVEL_KNOWN_def VOUCH_LEVEL_VERIFIED_def VOUCH_LEVEL_ENDORSED_def UNSPECIFIED_def
  have negative: "channelVerificationLevel (signal_step d st e) c = Vf_disputed" if neg: "xv_level m = VOUCH_LEVEL_NEGATIVE"
  proof -
    have set: "xv_level m \<noteq> UNSPECIFIED" by (simp add: neg numbers)
    have "v \<in> set (?of (signal_step d st e))"
      using filter_al_set(2) [of "\<lambda>v. cv_channel v = c" v k "sg_vouches st"] v(2) step [OF set] by simp
    then have "list_ex (\<lambda>v. cv_level v = VOUCH_LEVEL_NEGATIVE) (?of (signal_step d st e))"
      using v(3) neg by (auto simp: list_ex_iff)
    then show ?thesis by (simp add: level [OF set])
  qed
  have positive: "defaultSeverityAllows SEVERITY_CRITICAL (channelVerificationLevel (signal_step d st e) c)"
    if pos: "xv_level m \<in> {VOUCH_LEVEL_KNOWN, VOUCH_LEVEL_VERIFIED, VOUCH_LEVEL_ENDORSED}" and none: "?of st = []"
  proof -
    from pos have set: "xv_level m \<noteq> UNSPECIFIED" by (auto simp: numbers)
    have "?of (signal_step d st e) = [v]"
      using filter_al_set(3) [of "\<lambda>v. cv_channel v = c" v "sg_vouches st" k] v(2) none step [OF set] by simp
    with pos v(3) show ?thesis by (auto simp: level [OF set] defaultSeverityAllows_def numbers)
  qed
  have "xv_level m \<noteq> UNSPECIFIED" if "xv_level m = VOUCH_LEVEL_NEGATIVE \<or> xv_level m \<in> {VOUCH_LEVEL_KNOWN, VOUCH_LEVEL_VERIFIED, VOUCH_LEVEL_ENDORSED}"
    using that by (auto simp: numbers)
  with acc negative positive show ?thesis by (auto simp: defaultSeverityAllows_def)
qed

section \<open>An example\<close>

definition demo_signal :: signal_deps where
  "demo_signal = \<lparr>sd_ed_verify = (\<lambda>_ _ _. True), sd_mldsa_verify = (\<lambda>_ _ _. True), sd_nfkc = (\<lambda>s. s), sd_nfkd = (\<lambda>s. s),
     sd_lower = (\<lambda>s. s), sd_locale_lower = (\<lambda>s. s), sd_mark = (\<lambda>_. False), sd_letter_or_number = (\<lambda>_. True)\<rparr>"

definition signal_demo :: "bytes \<Rightarrow> string \<Rightarrow> int \<Rightarrow> string \<Rightarrow> signal_op \<Rightarrow> signal_event" where
  "signal_demo k scope t cid op = \<lparr>se_op = op, se_env = demo_env k scope t cid\<rparr>"

lemma signal_demo_sel [simp]:
  "se_op (signal_demo k s t c op) = op" "author_key (se_env (signal_demo k s t c op)) = k"
  "env_scope (se_env (signal_demo k s t c op)) = s" "created_at_ms (se_env (signal_demo k s t c op)) = t"
  "content_id (se_env (signal_demo k s t c op)) = c"
  by (simp_all add: signal_demo_def demo_env_def)

definition demo_channel :: string where "demo_channel = channelId key_o"

lemma demo_channel_nonempty [simp]: "demo_channel \<noteq> []"
  by (simp add: demo_channel_def channelId_def prefix_channel_def)

definition declare_o :: signal_event where
  "declare_o = signal_demo key_o [] 10 ''jb1c'' (So_declare \<lparr>cd_channel_name = ''t'', cd_description = [], cd_kind = 1,
     cd_categories = [], cd_default_area = None, cd_claims = [], cd_signing_key = key_o, cd_kem_public_key = [1],
     cd_pq_key = replicate 1312 0, cd_language = ''en'', cd_valid_from = 0\<rparr>)"

definition emission :: "int \<Rightarrow> broadcast_emit_msg" where
  "emission n = \<lparr>bm_channel = demo_channel, bm_sequence = n, bm_severity = 4, bm_category = 1, bm_headline = ''t'', bm_detail = [],
     bm_area = None, bm_expires_at_ms = 100, bm_supersedes = [], bm_language = []\<rparr>"

definition emit_o :: signal_event where "emit_o = signal_demo key_o demo_channel 20 ''jb1b'' (So_emit (emission 5))"
definition forge_a :: signal_event where "forge_a = signal_demo key_a demo_channel 20 ''jb1f'' (So_emit (emission 5))"
definition dispute_a :: signal_event where
  "dispute_a = signal_demo key_a demo_channel 30 ''jb1v'' (So_vouch \<lparr>xv_channel = demo_channel, xv_level = 1, xv_basis = ''t'', xv_asserted_at_ms = 0\<rparr>)"

lemma demo_texts: "js_trim ''t'' \<noteq> []" "code_point_count (js_trim ''t'') = Suc 0" "LANGUAGE_PATTERN ''en''"
  by (simp_all add: js_trim_t code_point_count_def continues_def LANGUAGE_PATTERN_def lower_letter_def in_range_def)

lemma declare_accepted: "signal_accepts d empty_signal_store declare_o"
  by (simp add: signal_accepts_def declare_o_def ChannelDeclare_authorize_def validateDeclaration_def demo_texts UNSPECIFIED_def)
    (simp add: empty_signal_store_def)

definition declared :: signal_store where "declared = signal_step demo_signal empty_signal_store declare_o"

lemma declared_channel_o:
  "\<exists>ch. map_of (sg_channels declared) demo_channel = Some ch \<and> ch_current_signing_key ch = hex key_o \<and> ch_last_sequence ch = 0
     \<and> ch_retired_at_ms ch = None" "sg_vouches declared = []" "sg_broadcasts declared = []"
  using declare_accepted [of demo_signal]
  by (simp_all add: declared_def signal_step_def signal_effect_def declare_o_def ChannelDeclare_project_def declared_channel_def
      Let_def demo_channel_def empty_signal_store_def)

theorem only_the_key_speaks_witness:
  "spoken (signal_run demo_signal ([declare_o] @ [forge_a]) empty_signal_store) demo_channel
     = spoken (signal_run demo_signal [declare_o] empty_signal_store) demo_channel"
proof -
  obtain ch where ch: "map_of (sg_channels declared) demo_channel = Some ch" "ch_current_signing_key ch = hex key_o"
    using declared_channel_o(1) by blast
  have "distinct (signal_ids ([declare_o] @ [forge_a]))" by (simp add: signal_ids_def declare_o_def forge_a_def)
  moreover have "map_of (sg_channels (signal_run demo_signal [declare_o] empty_signal_store)) demo_channel = Some ch"
    using ch(1) by (simp add: declared_def)
  moreover have "\<forall>e\<in>set [forge_a]. hex (author_key (se_env e)) \<noteq> ch_current_signing_key ch"
    using ch(2) by (simp add: forge_a_def hex_inj)
  ultimately show ?thesis using only_the_key_speaks by blast
qed

lemma emit_accepted: "signal_accepts demo_signal declared emit_o"
  using declared_channel_o(1) demo_texts
  by (auto simp: signal_accepts_def emit_o_def emission_def BroadcastEmit_authorize_def BroadcastEmit_validate_def
      scope_equals_channel_def UNSPECIFIED_def MAX_HEADLINE_CHARS_def)

theorem broadcasts_are_numbered_witness:
  "\<exists>b. map_of (sg_broadcasts (signal_run demo_signal [declare_o, emit_o] empty_signal_store)) ''jb1b'' = Some b
     \<and> bd_previous_sequence b < bd_sequence b"
proof -
  obtain ch where ch: "map_of (sg_channels declared) demo_channel = Some ch" using declared_channel_o(1) by blast
  have "signal_run demo_signal [declare_o, emit_o] empty_signal_store = BroadcastEmit_project (emission 5) (se_env emit_o) declared"
    using emit_accepted by (simp add: declared_def [symmetric]) (simp add: signal_step_def signal_effect_def emit_o_def)
  then have "map_of (sg_broadcasts (signal_run demo_signal [declare_o, emit_o] empty_signal_store)) ''jb1b'' =
      Some (emitted_broadcast (emission 5) (se_env emit_o) (ch_last_sequence ch))"
    using emit_channels(2) [of declared "emission 5" ch "se_env emit_o"] ch declared_channel_o(3)
    by (simp add: emission_def mark_superseded_def emit_o_def)
  with broadcasts_are_numbered [OF _ this] show ?thesis
    by (simp add: signal_ids_def) (simp add: declare_o_def emit_o_def)
qed

theorem any_key_decides_what_alarms_witness:
  "channelVerificationLevel (signal_step demo_signal declared dispute_a) demo_channel = Vf_disputed"
  using any_key_decides_what_alarms [of declared demo_channel dispute_a
      "\<lparr>xv_channel = demo_channel, xv_level = 1, xv_basis = ''t'', xv_asserted_at_ms = 0\<rparr>" demo_signal]
    declared_channel_o demo_texts by (auto simp: dispute_a_def VOUCH_LEVEL_NEGATIVE_def)

end
