(* ===== verification/JB_People.thy ===== *)
theory JB_People
  imports JB_Broadcasts
begin

text \<open>
  What the Signal plane guarantees about people: groups keep their shape, a name has one holder on a node. And where
  it lets them down: a session has one counter for both parties, and the latest check-in is the last to arrive.
\<close>

section \<open>Groups\<close>

definition member_key :: "string \<Rightarrow> bool" where
  "member_key k \<longleftrightarrow> (\<exists>bs. length bs = 32 \<and> k = hex bs)"

definition group_ok :: "signal_group_doc \<Rightarrow> bool" where
  "group_ok g \<longleftrightarrow> 2 \<le> length (gr_member_keys g) \<and> length (gr_member_keys g) \<le> 64 \<and> distinct (gr_member_keys g)
     \<and> list_all member_key (gr_member_keys g)"

definition groups_ok :: "signal_store \<Rightarrow> bool" where
  "groups_ok st \<longleftrightarrow> list_all (group_ok \<circ> snd) (sg_groups st)"

lemma distinct_unique [simp]: "distinct (unique xs)"
  by (simp add: unique_def)

lemma list_all_al_set: "list_all P m \<Longrightarrow> P (k, v) \<Longrightarrow> list_all P (al_set k v m)"
  by (induction k v m rule: al_set.induct) auto

lemma other_groups:
  assumes "\<And>m. op \<noteq> So_group_create m" "\<And>m. op \<noteq> So_group_update m"
  shows "sg_groups (signal_project d op env st) = sg_groups st"
  using assms by (cases op; simp add: signal_projects Let_def split: option.split)

lemma groups_ok_effect:
  assumes ok: "groups_ok st" and acc: "signal_accepts d st e"
  shows "groups_ok (signal_effect d e st)"
proof -
  consider m where "se_op e = So_group_create m" | m where "se_op e = So_group_update m"
    | "\<And>m. se_op e \<noteq> So_group_create m" "\<And>m. se_op e \<noteq> So_group_update m" by blast
  then show ?thesis
  proof cases
    case (1 m)
    with acc have valid: "GroupCreate_validate m = Valid" by (simp add: signal_accepts_def)
    then have "2 \<le> length (gc_member_keys m)" "length (gc_member_keys m) \<le> 64" "list_all (\<lambda>k. length k = 32) (gc_member_keys m)"
      "length (unique (map hex (gc_member_keys m))) = length (gc_member_keys m)"
      by (simp_all add: GroupCreate_validate_def list_ex_iff list_all_iff split: if_splits)
    then have "group_ok \<lparr>gr_id = i, gr_name = n, gr_admin_key = a, gr_member_keys = unique (map hex (gc_member_keys m)),
        gr_group_key_wrapped = w, gr_created_at_ms = t, gr_updated_at_ms = u\<rparr>" for i n a w t u
      by (auto simp: group_ok_def list_all_iff member_key_def)
    with ok 1 show ?thesis
      by (simp add: groups_ok_def signal_effect_def GroupCreate_project_def list_all_al_set)
  next
    case (2 m)
    with acc obtain g where g: "map_of (sg_groups st) (gu_group m) = Some g" "2 \<le> length (updated_members m g)" "length (updated_members m g) \<le> 64"
      and keys: "list_all (\<lambda>k. length k = 32) (gu_add m)"
      by (auto simp: signal_accepts_def GroupUpdate_authorize_def GroupUpdate_validate_def Let_def list_ex_iff list_all_iff
          split: option.splits if_splits)
    from g(1) ok have "group_ok g" by (force simp: groups_ok_def list_all_iff dest: map_of_SomeD)
    with g keys have "group_ok (g\<lparr>gr_member_keys := updated_members m g, gr_group_key_wrapped := w, gr_updated_at_ms := t\<rparr>)" for w t
      by (auto simp: group_ok_def updated_members_def list_all_iff member_key_def)
    with ok 2 g(1) show ?thesis
      by (auto simp: groups_ok_def signal_effect_def GroupUpdate_project_def intro!: list_all_al_set)
  next
    case 3
    with ok show ?thesis by (simp add: groups_ok_def signal_effect_def other_groups)
  qed
qed

interpretation groups: guarded_invariant "signal_accepts d" "signal_effect d" "\<lambda>_. True" groups_ok
  by unfold_locales (rule groups_ok_effect)

text \<open>C18: Groups keep their shape: whatever was accepted, every stored group has between 2 and 64 members, no member
  twice, each the hexadecimal form of a 32-byte key.\<close>

theorem groups_keep_their_shape:
  assumes "map_of (sg_groups (signal_run d es empty_signal_store)) i = Some g"
  shows "2 \<le> length (gr_member_keys g) \<and> length (gr_member_keys g) \<le> 64 \<and> distinct (gr_member_keys g)
    \<and> (\<forall>k\<in>set (gr_member_keys g). \<exists>bs. length bs = 32 \<and> k = hex bs)"
proof -
  have "groups_ok (signal_run d es empty_signal_store)"
    unfolding signal_run_eq by (rule groups.run_keeps) (simp_all add: groups_ok_def empty_signal_store_def list_all_iff)
  with assms show ?thesis by (auto simp: groups_ok_def group_ok_def list_all_iff member_key_def dest!: map_of_SomeD)
qed

section \<open>Names\<close>

definition names_ok :: "signal_store \<Rightarrow> bool" where
  "names_ok st \<longleftrightarrow> distinct (map fst (sg_profiles st)) \<and> list_all (\<lambda>x. dp_id (snd x) = fst x) (sg_profiles st)
     \<and> (\<forall>x\<in>set (sg_profiles st). dp_name_skeleton (snd x) \<noteq> []
        \<and> (\<forall>y\<in>set (sg_profiles st). dp_name_skeleton (snd x) = dp_name_skeleton (snd y) \<longrightarrow> x = y))"

lemma other_profiles:
  assumes "\<And>m. op \<noteq> So_profile m"
  shows "sg_profiles (signal_project d op env st) = sg_profiles st"
  using assms by (cases op; simp add: signal_projects Let_def split: option.split)

lemma held_name:
  assumes ok: "names_ok st" and x: "x \<in> set (sg_profiles st)"
  shows "name_holder st (dp_name_skeleton (snd x)) = Some (snd x)"
proof -
  let ?p = "\<lambda>p. dp_name_skeleton p = dp_name_skeleton (snd x)"
  from x have "snd x \<in> set (map snd (sg_profiles st))" "?p (snd x)" by simp_all
  then obtain q where q: "List.find ?p (map snd (sg_profiles st)) = Some q"
    by (metis (mono_tags, lifting) find_None_iff not_Some_eq)
  then have "?p q" "q \<in> set (map snd (sg_profiles st))" by (auto simp: find_Some_iff)
  then obtain y where "y \<in> set (sg_profiles st)" "q = snd y" "dp_name_skeleton (snd x) = dp_name_skeleton (snd y)" by auto
  with ok x q show ?thesis by (auto simp: names_ok_def name_holder_def)
qed

lemma row_of_map: "distinct (map fst m) \<Longrightarrow> x \<in> set m \<longleftrightarrow> map_of m (fst x) = Some (snd x)"
  by (cases x) simp

lemma names_ok_effect:
  assumes ok: "names_ok st" and acc: "signal_accepts d st e"
  shows "names_ok (signal_effect d e st)"
proof (cases "\<exists>m. se_op e = So_profile m")
  case False
  then have "sg_profiles (signal_effect d e st) = sg_profiles st" by (simp add: signal_effect_def other_profiles)
  with ok show ?thesis by (simp add: names_ok_def)
next
  case True
  then obtain m where m: "se_op e = So_profile m" by blast
  let ?author = "identityId (author_key (se_env e))" and ?row = "profile_row d m (se_env e)"
  from acc m have name: "dp_name_skeleton ?row \<noteq> []"
    and free: "\<And>p. name_holder st (dp_name_skeleton ?row) = Some p \<Longrightarrow> dp_id p = ?author"
    by (auto simp: signal_accepts_def SignalProfile_authorize_def profile_row_def Let_def split: if_splits option.splits)
  have profiles: "sg_profiles (signal_effect d e st) = al_set ?author ?row (sg_profiles st)"
    by (simp add: signal_effect_def m SignalProfile_project_def)
  from ok have d: "distinct (map fst (sg_profiles st))" and ids: "\<And>x. x \<in> set (sg_profiles st) \<Longrightarrow> dp_id (snd x) = fst x"
    by (auto simp: names_ok_def list_all_iff)
  have rows: "x \<in> set (al_set ?author ?row (sg_profiles st)) \<longleftrightarrow> x = (?author, ?row) \<or> x \<in> set (sg_profiles st) \<and> fst x \<noteq> ?author" for x
  proof -
    have "x \<in> set (al_set ?author ?row (sg_profiles st)) \<longleftrightarrow> map_of (al_set ?author ?row (sg_profiles st)) (fst x) = Some (snd x)"
      by (rule row_of_map) (simp add: d)
    also have "\<dots> \<longleftrightarrow> (if fst x = ?author then snd x = ?row else map_of (sg_profiles st) (fst x) = Some (snd x))" by (auto simp: eq_commute)
    also have "\<dots> \<longleftrightarrow> x = (?author, ?row) \<or> x \<in> set (sg_profiles st) \<and> fst x \<noteq> ?author"
      using row_of_map [OF d, of x] by (auto simp: prod_eq_iff)
    finally show ?thesis .
  qed
  have clash: "dp_name_skeleton (snd x) \<noteq> dp_name_skeleton ?row" if "x \<in> set (sg_profiles st)" "fst x \<noteq> ?author" for x
  proof
    assume "dp_name_skeleton (snd x) = dp_name_skeleton ?row"
    with held_name [OF ok that(1)] free have "dp_id (snd x) = ?author" by simp
    with ids [OF that(1)] that(2) show False by simp
  qed
  have author: "dp_id ?row = ?author" by (simp add: profile_row_def Let_def)
  show ?thesis
    unfolding names_ok_def profiles
  proof (intro conjI ballI impI)
    fix x y assume x: "x \<in> set (al_set ?author ?row (sg_profiles st))" and y: "y \<in> set (al_set ?author ?row (sg_profiles st))"
      and same: "dp_name_skeleton (snd x) = dp_name_skeleton (snd y)"
    from x y same clash [of x] clash [of y] ok show "x = y" unfolding rows names_ok_def by force
  next
    fix x assume "x \<in> set (al_set ?author ?row (sg_profiles st))"
    with name ok show "dp_name_skeleton (snd x) \<noteq> []" by (auto simp: rows names_ok_def)
  next
    show "list_all (\<lambda>x. dp_id (snd x) = fst x) (al_set ?author ?row (sg_profiles st))"
      using ok author by (simp add: names_ok_def list_all_al_set)
  qed (simp add: d)
qed

interpretation names: guarded_invariant "signal_accepts d" "signal_effect d" "\<lambda>_. True" names_ok
  by unfold_locales (rule names_ok_effect)

text \<open>C19: A name has one holder on a node: however profiles were published, renamed and republished, two profiles of
  the directory whose names have the same skeleton are the same profile, and no stored name has an empty skeleton.\<close>

theorem a_name_has_one_holder:
  assumes "map_of (sg_profiles (signal_run d es empty_signal_store)) i = Some p"
    and "map_of (sg_profiles (signal_run d es empty_signal_store)) j = Some q"
    and "dp_name_skeleton p = dp_name_skeleton q"
  shows "i = j \<and> p = q \<and> dp_name_skeleton p \<noteq> []"
proof -
  have "names_ok (signal_run d es empty_signal_store)"
    unfolding signal_run_eq by (rule names.run_keeps) (simp_all add: names_ok_def empty_signal_store_def list_all_iff)
  with map_of_SomeD [OF assms(1)] map_of_SomeD [OF assms(2)] assms(3) show ?thesis
    unfolding names_ok_def by (metis fst_conv snd_conv)
qed

section \<open>One counter for two parties\<close>

definition spent :: "string \<Rightarrow> int \<Rightarrow> signal_store \<Rightarrow> bool" where
  "spent s n st \<longleftrightarrow> signal_keyed st \<and> (\<exists>x. map_of (sg_sessions st) s = Some x \<and> n \<le> ss_last_counter x)"

lemma other_sessions:
  assumes "\<And>m. op \<noteq> So_session m" "\<And>m. op \<noteq> So_message m"
  shows "sg_sessions (signal_project d op env st) = sg_sessions st"
  using assms by (cases op; simp add: signal_projects Let_def split: option.split)

lemma spent_effect:
  assumes inv: "spent s n st" and fresh: "content_id (se_env e) \<noteq> s" and acc: "signal_accepts d st e"
  shows "spent s n (signal_effect d e st)"
proof -
  from inv obtain x where keyed: "signal_keyed st" and x: "map_of (sg_sessions st) s = Some x" "n \<le> ss_last_counter x"
    by (auto simp: spent_def)
  from keyed have ks: "keyed_rows ss_id (sg_sessions st)" by (simp add: signal_keyed_def)
  consider m where "se_op e = So_session m" | m where "se_op e = So_message m"
    | "\<And>m. se_op e \<noteq> So_session m" "\<And>m. se_op e \<noteq> So_message m" by blast
  then have "\<exists>x. map_of (sg_sessions (signal_effect d e st)) s = Some x \<and> n \<le> ss_last_counter x"
  proof cases
    case (1 m)
    with x fresh show ?thesis by (simp add: signal_effect_def SignalSession_project_def)
  next
    case (2 m)
    with acc obtain y where y: "map_of (sg_sessions st) (mx_session m) = Some y" "ss_last_counter y < mx_counter m"
      by (auto simp: signal_accepts_def SignalMessage_authorize_def split: option.splits if_splits)
    with 2 x keyed_rowsD [OF ks y(1)] show ?thesis
      by (auto simp: signal_effect_def SignalMessage_project_def)
  next
    case 3
    with x show ?thesis by (simp add: signal_effect_def other_sessions)
  qed
  with signal_keyed_effect [OF keyed] show ?thesis by (simp add: spent_def)
qed

interpretation spent: guarded_invariant "signal_accepts d" "signal_effect d" "\<lambda>e. content_id (se_env e) \<noteq> s" "spent s n"
  by unfold_locales (rule spent_effect)

text \<open>C17: A session has one counter for both parties, which only grows: once a message is accepted, every message of the
  session with a number that is not higher is refused for ever, whoever of the two wrote it and however much earlier.
  Of two people who write to each other at the same time, each with the next number as their devices count, the one
  whose message arrives second loses it; and a message that overtakes another on the way destroys it.\<close>

theorem overtaken_messages_are_refused_for_ever:
  assumes "signal_accepts d (signal_run d es empty_signal_store) e" and "se_op e = So_message m"
    and "se_op e' = So_message m'" and "mx_session m' = mx_session m" and "mx_counter m' \<le> mx_counter m"
    and "\<forall>x\<in>set fs. content_id (se_env x) \<noteq> mx_session m"
  shows "\<not> signal_accepts d (signal_run d (es @ e # fs) empty_signal_store) e'"
proof -
  let ?st = "signal_run d es empty_signal_store"
  have keyed: "signal_keyed ?st" by (rule signal_keyed_run [OF empty_signal_keyed])
  then have ks: "keyed_rows ss_id (sg_sessions ?st)" by (simp add: signal_keyed_def)
  from assms(1,2) obtain x where x: "map_of (sg_sessions ?st) (mx_session m) = Some x"
    by (auto simp: signal_accepts_def SignalMessage_authorize_def split: option.splits)
  have "spent (mx_session m) (mx_counter m) (signal_step d ?st e)"
    using x keyed_rowsD [OF ks x] signal_keyed_effect [OF keyed, of d e] assms(1,2)
    by (auto simp: spent_def signal_step_def signal_effect_def SignalMessage_project_def)
  then have "spent (mx_session m) (mx_counter m) (signal_run d fs (signal_step d ?st e))"
    unfolding signal_run_eq [of d fs] by (rule spent.run_keeps) (use assms(6) in \<open>simp add: list_all_iff\<close>)
  moreover have "signal_run d (es @ e # fs) empty_signal_store = signal_run d fs (signal_step d ?st e)" by (simp add: signal_run_def)
  ultimately show ?thesis
    using assms(3,4,5) by (auto simp: spent_def signal_accepts_def SignalMessage_authorize_def split: if_splits)
qed

section \<open>The latest check-in\<close>

text \<open>The latest check-in of a person is the last to arrive: a check-in that was signed earlier and is delivered
  later replaces the newer one as the current state - a delayed "safe" hides a "need help" - and the history row names
  as its predecessor the key of the author, where the identifier of the replaced check-in belongs.\<close>

theorem a_late_check_in_replaces_a_newer_one:
  assumes "se_op e = So_checkin m" and "se_op e' = So_checkin m'"
    and "CheckIn_validate m = Valid" and "CheckIn_validate m' = Valid"
    and "author_key (se_env e') = author_key (se_env e)" and "env_time (se_env e') < env_time (se_env e)"
  shows "\<exists>r h. map_of (sg_latest_checkins (signal_run d [e, e'] st)) (hex (author_key (se_env e))) = Some r
      \<and> ck_status r = km_status m' \<and> ck_created_at_ms r = env_time (se_env e')
      \<and> map_of (sg_checkins (signal_run d [e, e'] st)) (content_id (se_env e')) = Some h
      \<and> ck_supersedes h = hex (author_key (se_env e))"
  using assms
  by (simp add: signal_step_def signal_accepts_def signal_effect_def CheckIn_project_def checkin_row_def Let_def)


section \<open>An example\<close>

definition group_of :: "bytes list \<Rightarrow> group_create_msg" where
  "group_of ks = \<lparr>gc_name = ''t'', gc_member_keys = ks, gc_group_key_wrapped = [1]\<rparr>"

definition group_a :: signal_event where "group_a = signal_demo key_a [] 10 ''jb1g'' (So_group_create (group_of [key_a, key_b]))"

lemma group_accepted: "signal_accepts demo_signal empty_signal_store group_a"
  by (simp add: signal_accepts_def group_a_def group_of_def GroupCreate_validate_def demo_texts unique_def hex_inj)

theorem groups_keep_their_shape_witness:
  "\<exists>g. map_of (sg_groups (signal_run demo_signal [group_a] empty_signal_store)) ''jb1g'' = Some g \<and> length (gr_member_keys g) \<le> 64"
proof -
  obtain g where "map_of (sg_groups (signal_run demo_signal [group_a] empty_signal_store)) ''jb1g'' = Some g"
    using group_accepted by (simp add: signal_step_def signal_effect_def) (simp add: group_a_def GroupCreate_project_def)
  with groups_keep_their_shape [OF this] show ?thesis by blast
qed

definition profile_named :: "string \<Rightarrow> int \<Rightarrow> directory_profile_msg" where
  "profile_named n r = \<lparr>dm_display_name = n, dm_bio = [], dm_claims = [], dm_rns_public_key = [], dm_lxmf_destination_hash = [],
     dm_transport_binding_sig = [], dm_languages = [], dm_discoverable = True, dm_revision = r\<rparr>"

definition named_a :: signal_event where "named_a = signal_demo key_a [] 10 ''jb1n'' (So_profile (profile_named ''t'' 1))"
definition squat_b :: signal_event where "squat_b = signal_demo key_b [] 20 ''jb1o'' (So_profile (profile_named ''t'' 1))"

lemma skeleton_t: "signalDirectoryNameSkeleton demo_signal ''t'' = ''t''"
  by (simp add: signalDirectoryNameSkeleton_def keep_characters_def demo_signal_def)

lemma named_accepted: "signal_accepts demo_signal empty_signal_store named_a"
  by (simp add: signal_accepts_def named_a_def profile_named_def SignalProfile_authorize_def SignalProfile_validate_def skeleton_t
      name_holder_def js_trim_t demo_texts Let_def code_point_count_def) (simp add: empty_signal_store_def)

theorem a_name_has_one_holder_witness:
  "\<exists>p. map_of (sg_profiles (signal_run demo_signal [named_a, squat_b] empty_signal_store)) (identityId key_a) = Some p
     \<and> dp_name_skeleton p \<noteq> []"
proof -
  have "\<not> signal_accepts demo_signal (signal_step demo_signal empty_signal_store named_a) squat_b"
    using named_accepted
    by (simp add: signal_step_def signal_effect_def)
      (simp add: signal_accepts_def squat_b_def named_a_def SignalProfile_project_def SignalProfile_authorize_def profile_row_def
        profile_named_def skeleton_t name_holder_def empty_signal_store_def Let_def identityId_def)
  then have "signal_run demo_signal [named_a, squat_b] empty_signal_store = SignalProfile_project demo_signal (profile_named ''t'' 1) (se_env named_a) empty_signal_store"
    using named_accepted by (simp add: signal_step_def signal_effect_def) (simp add: named_a_def)
  then obtain p where p: "map_of (sg_profiles (signal_run demo_signal [named_a, squat_b] empty_signal_store)) (identityId key_a) = Some p"
    by (simp add: SignalProfile_project_def named_a_def)
  with a_name_has_one_holder [OF p p] show ?thesis by blast
qed

text \<open>Two people write at the same time: both count from 0, the second is refused.\<close>

definition prekeys_b :: signal_event where
  "prekeys_b = signal_demo key_b [] 10 ''jb1k'' (So_prekeys \<lparr>pb_identity_key = key_b, pb_signed_prekey = replicate 32 0,
     pb_signed_prekey_sig = replicate 64 0, pb_kem_public_key = [1], pb_one_time_prekeys = [], pb_valid_until_ms = 1000\<rparr>)"

definition session_ab :: signal_event where
  "session_ab = signal_demo key_a [] 20 ''jb1s'' (So_session \<lparr>sx_recipient_key = key_b, sx_kem_ciphertext = [1],
     sx_ephemeral_x25519 = replicate 32 0, sx_used_prekey_id = [], sx_ciphertext = replicate 28 0\<rparr>)"

definition hello :: signal_message_msg where
  "hello = \<lparr>mx_session = ''jb1s'', mx_counter = 0, mx_header = [], mx_ciphertext = replicate 16 0, mx_attachment_refs = []\<rparr>"

definition hello_a :: signal_event where "hello_a = signal_demo key_a [] 30 ''jb1x'' (So_message hello)"
definition hello_b :: signal_event where "hello_b = signal_demo key_b [] 29 ''jb1y'' (So_message hello)"

lemma prekeys_accepted: "signal_accepts demo_signal st prekeys_b"
  by (simp add: signal_accepts_def prekeys_b_def PrekeyBundle_validate_def) (simp add: demo_signal_def)

lemma session_accepted: "signal_accepts demo_signal (signal_step demo_signal empty_signal_store prekeys_b) session_ab"
  using prekeys_accepted [of empty_signal_store]
  by (simp add: signal_step_def signal_effect_def)
    (simp add: signal_accepts_def session_ab_def prekeys_b_def SignalSession_authorize_def SignalSession_validate_def
      PrekeyBundle_project_def env_time_def Let_def)

lemma hello_accepted: "signal_accepts demo_signal (signal_run demo_signal [prekeys_b, session_ab] empty_signal_store) hello_a"
proof -
  have "signal_run demo_signal [prekeys_b, session_ab] empty_signal_store
      = signal_effect demo_signal session_ab (signal_step demo_signal empty_signal_store prekeys_b)"
    using session_accepted by (simp add: signal_step_def [of _ "signal_step demo_signal empty_signal_store prekeys_b"])
  then show ?thesis
    by (simp add: signal_effect_def)
      (simp add: signal_accepts_def hello_a_def hello_def session_ab_def SignalSession_project_def SignalMessage_authorize_def
        SignalMessage_validate_def starts_with_def)
qed

theorem overtaken_messages_are_refused_for_ever_witness:
  "\<not> signal_accepts demo_signal (signal_run demo_signal ([prekeys_b, session_ab] @ hello_a # []) empty_signal_store) hello_b"
  by (rule overtaken_messages_are_refused_for_ever [OF hello_accepted, of hello _ hello])
    (simp_all add: hello_a_def hello_b_def)

definition says :: "int \<Rightarrow> checkin_msg" where
  "says status = \<lparr>km_status = status, km_area = None, km_note = [], km_notify_keys = []\<rparr>"

theorem a_late_check_in_replaces_a_newer_one_witness:
  "\<exists>r. map_of (sg_latest_checkins (signal_run demo_signal
       [signal_demo key_a [] 20 ''jb1h'' (So_checkin (says 2)), signal_demo key_a [] 10 ''jb1i'' (So_checkin (says 1))]
       empty_signal_store)) (hex key_a) = Some r \<and> ck_status r = 1"
  using a_late_check_in_replaces_a_newer_one [of "signal_demo key_a [] 20 ''jb1h'' (So_checkin (says 2))" "says 2"
      "signal_demo key_a [] 10 ''jb1i'' (So_checkin (says 1))" "says 1" demo_signal empty_signal_store]
  by (auto simp: says_def CheckIn_validate_def UNSPECIFIED_def code_point_count_def env_time_def)

end
