(* ===== verification/JB_Rebuild.thy ===== *)
theory JB_Rebuild
  imports JB_Coalition JB_Broadcasts
begin

text \<open>
  The projection rebuilder (\<open>core/app/projection-rebuilder.ts\<close>) as its one entry point runs it
  (\<open>cli/rebuild-projections.ts\<close>): \<open>reset\<close> of the Mongo projection store, which drops the collections whose names start
  with \<open>forum_\<close>, then a replay of the log of accepted envelopes through the handlers of the registry, without the
  checks they passed and without the context the pipeline gives them. The CLI registers the forum handlers only. A node
  keeps the rows of both planes; beside the log, the HTTP adapter writes the upload tickets of attachments into a
  \<open>forum_\<close> collection (\<open>adapters/inbound/http/attachments.controller.ts\<close>). What a rebuild restores, and what it does not.
\<close>

section \<open>The rows of a node and what writes them\<close>

record node_rows =
  forum_rows :: forum_store
  signal_rows :: signal_store

definition empty_rows :: node_rows where
  "empty_rows = \<lparr>forum_rows = empty_forum_store, signal_rows = empty_signal_store\<rparr>"

text \<open>An entry of the log, by the plane of its domain.\<close>

datatype logged = Logged_forum forum_event | Logged_signal signal_event

text \<open>
  \<open>POST upload-url\<close> and \<open>POST confirm\<close> by an authenticated actor: \<open>None\<close> for a digest that does not decode to 32
  bytes, and for a blob the blob store does not hold.
\<close>

definition upload_url :: "string \<Rightarrow> string \<Rightarrow> string \<Rightarrow> int \<Rightarrow> bytes option \<Rightarrow> forum_store \<Rightarrow> forum_store" where
  "upload_url key actor mime bytes_long digest st =
     (if mime = [] \<or> bytes_long \<le> 0 \<or> MAX_ATTACHMENT_BYTES < bytes_long then st
      else (case digest of
          None \<Rightarrow> st
        | Some dg \<Rightarrow> st\<lparr>attachment_uploads := al_set key
            \<lparr>up_id = key, up_owner_key = actor, up_storage_key = key, up_content_sha256 = hex dg, up_mime = mime,
             up_size_bytes = bytes_long, up_confirmed_at_ms = None\<rparr> (attachment_uploads st)\<rparr>))"

definition confirm_upload :: "string \<Rightarrow> string \<Rightarrow> string \<Rightarrow> int \<Rightarrow> bytes option \<Rightarrow> blob_info option \<Rightarrow> int \<Rightarrow> forum_store \<Rightarrow> forum_store" where
  "confirm_upload key actor mime bytes_long digest stored_blob now_ms st =
     (case map_of (attachment_uploads st) key of
        None \<Rightarrow> st
      | Some upload \<Rightarrow>
          if up_owner_key upload \<noteq> actor then st
          else (case (stored_blob, digest) of
              (Some blob, Some dg) \<Rightarrow>
                if bl_mime blob = mime \<and> bl_size blob = bytes_long \<and> bl_sha256 blob = dg
                then st\<lparr>attachment_uploads := al_set (up_id upload) (upload\<lparr>up_confirmed_at_ms := Some now_ms\<rparr>) (attachment_uploads st)\<rparr>
                else st
            | _ \<Rightarrow> st))"

datatype node_event =
    Ne_forum forum_event
  | Ne_signal signal_event
  | Ne_ticket string string string int "bytes option"
  | Ne_confirm string string string int "bytes option" "blob_info option" int

fun node_step :: "forum_deps \<Rightarrow> signal_deps \<Rightarrow> node_rows \<Rightarrow> node_event \<Rightarrow> node_rows" where
  "node_step d sd ns (Ne_forum e) = ns\<lparr>forum_rows := forum_step d (forum_rows ns) e\<rparr>"
| "node_step d sd ns (Ne_signal e) = ns\<lparr>signal_rows := signal_step sd (signal_rows ns) e\<rparr>"
| "node_step d sd ns (Ne_ticket key actor mime n dg) = ns\<lparr>forum_rows := upload_url key actor mime n dg (forum_rows ns)\<rparr>"
| "node_step d sd ns (Ne_confirm key actor mime n dg blob t) =
     ns\<lparr>forum_rows := confirm_upload key actor mime n dg blob t (forum_rows ns)\<rparr>"

definition node_run :: "forum_deps \<Rightarrow> signal_deps \<Rightarrow> node_event list \<Rightarrow> node_rows \<Rightarrow> node_rows" where
  "node_run d sd es ns = foldl (node_step d sd) ns es"

text \<open>The log a run leaves behind: its accepted envelopes in the order of acceptance.\<close>

fun log_entry :: "forum_deps \<Rightarrow> signal_deps \<Rightarrow> node_rows \<Rightarrow> node_event \<Rightarrow> logged list" where
  "log_entry d sd ns (Ne_forum e) = (if forum_accepts d (forum_rows ns) e then [Logged_forum e] else [])"
| "log_entry d sd ns (Ne_signal e) = (if signal_accepts sd (signal_rows ns) e then [Logged_signal e] else [])"
| "log_entry d sd ns _ = []"

fun node_log :: "forum_deps \<Rightarrow> signal_deps \<Rightarrow> node_rows \<Rightarrow> node_event list \<Rightarrow> logged list" where
  "node_log d sd ns [] = []"
| "node_log d sd ns (e # es) = log_entry d sd ns e @ node_log d sd (node_step d sd ns e) es"

section \<open>The rebuilder\<close>

record rebuild_report =
  rp_scanned :: nat
  rp_projected :: nat
  rp_last_log_index :: "nat option"

text \<open>A replay over stored envelopes in the order of the log; \<open>Inl\<close> is the envelope that has no handler.\<close>

fun rebuild_from :: "('e \<Rightarrow> ('s \<Rightarrow> 's) option) \<Rightarrow> (nat \<times> 'e) list \<Rightarrow> rebuild_report \<Rightarrow> 's \<Rightarrow> ('e + rebuild_report) \<times> 's" where
  "rebuild_from handler [] r st = (Inr r, st)"
| "rebuild_from handler ((i, e) # lg) r st =
     (let r1 = r\<lparr>rp_scanned := rp_scanned r + 1, rp_last_log_index := Some i\<rparr>
      in (case handler e of
            None \<Rightarrow> (Inl e, st)
          | Some project \<Rightarrow> rebuild_from handler lg (r1\<lparr>rp_projected := rp_projected r1 + 1\<rparr>) (project st)))"

definition rebuild :: "('s \<Rightarrow> 's) \<Rightarrow> ('e \<Rightarrow> ('s \<Rightarrow> 's) option) \<Rightarrow> (nat \<times> 'e) list \<Rightarrow> 's \<Rightarrow> ('e + rebuild_report) \<times> 's" where
  "rebuild reset handler lg st =
     rebuild_from handler lg \<lparr>rp_scanned = 0, rp_projected = 0, rp_last_log_index = None\<rparr> (reset st)"

text \<open>\<open>MongoProjectionStore.reset\<close>: the \<open>forum_\<close> collections, the upload tickets among them, and no other.\<close>

definition mongo_reset :: "node_rows \<Rightarrow> node_rows" where
  "mongo_reset ns = ns\<lparr>forum_rows := empty_forum_store\<rparr>"

text \<open>
  The registry of the CLI, and \<open>handler.project(body, envelope, tx)\<close>: the context is left out, so the origin of an
  envelope is unknown.
\<close>

fun cli_handler :: "forum_deps \<Rightarrow> logged \<Rightarrow> (node_rows \<Rightarrow> node_rows) option" where
  "cli_handler d (Logged_forum e) = Some (\<lambda>ns. ns\<lparr>forum_rows := forum_project d None (ev_op e) (ev_env e) (forum_rows ns)\<rparr>)"
| "cli_handler d (Logged_signal e) = None"

definition stored :: "'e list \<Rightarrow> (nat \<times> 'e) list" where
  "stored lg = enumerate 0 lg"

definition rebuild_projections :: "forum_deps \<Rightarrow> logged list \<Rightarrow> node_rows \<Rightarrow> (logged + rebuild_report) \<times> node_rows" where
  "rebuild_projections d lg ns = rebuild mongo_reset (cli_handler d) (stored lg) ns"

section \<open>Upload tickets never reach the other rows\<close>

definition no_uploads :: "forum_store \<Rightarrow> forum_store" where
  "no_uploads st = st\<lparr>attachment_uploads := []\<rparr>"

lemma no_uploads_fields [simp]:
  "identities (no_uploads st) = identities st"
  "communities (no_uploads st) = communities st"
  "memberships (no_uploads st) = memberships st"
  "roles (no_uploads st) = roles st"
  "role_assignments (no_uploads st) = role_assignments st"
  "posts (no_uploads st) = posts st"
  "comments (no_uploads st) = comments st"
  "votes (no_uploads st) = votes st"
  "mod_events (no_uploads st) = mod_events st"
  "mod_heads (no_uploads st) = mod_heads st"
  "community_audit (no_uploads st) = community_audit st"
  "community_audit_heads (no_uploads st) = community_audit_heads st"
  "reports (no_uploads st) = reports st"
  "notifications (no_uploads st) = notifications st"
  "certificates (no_uploads st) = certificates st"
  "revocations (no_uploads st) = revocations st"
  "follows (no_uploads st) = follows st"
  "blocks (no_uploads st) = blocks st"
  "saved (no_uploads st) = saved st"
  "feed_prefs (no_uploads st) = feed_prefs st"
  "awards (no_uploads st) = awards st"
  "award_types (no_uploads st) = award_types st"
  "attachments (no_uploads st) = attachments st"
  "forum_messages (no_uploads st) = forum_messages st"
  "labels (no_uploads st) = labels st"
  "attachment_uploads (no_uploads st) = []"
  "no_uploads (st\<lparr>identities := x_identities\<rparr>) = (no_uploads st)\<lparr>identities := x_identities\<rparr>"
  "no_uploads (st\<lparr>communities := x_communities\<rparr>) = (no_uploads st)\<lparr>communities := x_communities\<rparr>"
  "no_uploads (st\<lparr>memberships := x_memberships\<rparr>) = (no_uploads st)\<lparr>memberships := x_memberships\<rparr>"
  "no_uploads (st\<lparr>roles := x_roles\<rparr>) = (no_uploads st)\<lparr>roles := x_roles\<rparr>"
  "no_uploads (st\<lparr>role_assignments := x_role_assignments\<rparr>) = (no_uploads st)\<lparr>role_assignments := x_role_assignments\<rparr>"
  "no_uploads (st\<lparr>posts := x_posts\<rparr>) = (no_uploads st)\<lparr>posts := x_posts\<rparr>"
  "no_uploads (st\<lparr>comments := x_comments\<rparr>) = (no_uploads st)\<lparr>comments := x_comments\<rparr>"
  "no_uploads (st\<lparr>votes := x_votes\<rparr>) = (no_uploads st)\<lparr>votes := x_votes\<rparr>"
  "no_uploads (st\<lparr>mod_events := x_mod_events\<rparr>) = (no_uploads st)\<lparr>mod_events := x_mod_events\<rparr>"
  "no_uploads (st\<lparr>mod_heads := x_mod_heads\<rparr>) = (no_uploads st)\<lparr>mod_heads := x_mod_heads\<rparr>"
  "no_uploads (st\<lparr>community_audit := x_community_audit\<rparr>) = (no_uploads st)\<lparr>community_audit := x_community_audit\<rparr>"
  "no_uploads (st\<lparr>community_audit_heads := x_community_audit_heads\<rparr>) = (no_uploads st)\<lparr>community_audit_heads := x_community_audit_heads\<rparr>"
  "no_uploads (st\<lparr>reports := x_reports\<rparr>) = (no_uploads st)\<lparr>reports := x_reports\<rparr>"
  "no_uploads (st\<lparr>notifications := x_notifications\<rparr>) = (no_uploads st)\<lparr>notifications := x_notifications\<rparr>"
  "no_uploads (st\<lparr>certificates := x_certificates\<rparr>) = (no_uploads st)\<lparr>certificates := x_certificates\<rparr>"
  "no_uploads (st\<lparr>revocations := x_revocations\<rparr>) = (no_uploads st)\<lparr>revocations := x_revocations\<rparr>"
  "no_uploads (st\<lparr>follows := x_follows\<rparr>) = (no_uploads st)\<lparr>follows := x_follows\<rparr>"
  "no_uploads (st\<lparr>blocks := x_blocks\<rparr>) = (no_uploads st)\<lparr>blocks := x_blocks\<rparr>"
  "no_uploads (st\<lparr>saved := x_saved\<rparr>) = (no_uploads st)\<lparr>saved := x_saved\<rparr>"
  "no_uploads (st\<lparr>feed_prefs := x_feed_prefs\<rparr>) = (no_uploads st)\<lparr>feed_prefs := x_feed_prefs\<rparr>"
  "no_uploads (st\<lparr>awards := x_awards\<rparr>) = (no_uploads st)\<lparr>awards := x_awards\<rparr>"
  "no_uploads (st\<lparr>award_types := x_award_types\<rparr>) = (no_uploads st)\<lparr>award_types := x_award_types\<rparr>"
  "no_uploads (st\<lparr>attachments := x_attachments\<rparr>) = (no_uploads st)\<lparr>attachments := x_attachments\<rparr>"
  "no_uploads (st\<lparr>forum_messages := x_forum_messages\<rparr>) = (no_uploads st)\<lparr>forum_messages := x_forum_messages\<rparr>"
  "no_uploads (st\<lparr>labels := x_labels\<rparr>) = (no_uploads st)\<lparr>labels := x_labels\<rparr>"
  "no_uploads (st\<lparr>attachment_uploads := u\<rparr>) = no_uploads st"
  by (simp_all add: no_uploads_def)

lemma fold_wipes:
  assumes "\<And>x s. no_uploads (g x s) = g x (no_uploads s)"
  shows "no_uploads (fold g xs s) = fold g xs (no_uploads s)"
  using assms by (induction xs arbitrary: s) simp_all

lemma wipe_parts [simp]:
  "no_uploads (add_notification r n cid a t st) = add_notification r n cid a t (no_uploads st)"
  "no_uploads (bump_member_count c i st) = bump_member_count c i (no_uploads st)"
  "no_uploads (assign_role c k i r st) = assign_role c k i r (no_uploads st)"
  "no_uploads (count_reply cm env st) = count_reply cm env (no_uploads st)"
  "no_uploads (apply_karma au f i st) = apply_karma au f i (no_uploads st)"
  "no_uploads (upsert_identity env f st) = upsert_identity env f (no_uploads st)"
  "no_uploads (inherit_membership s ms st) = inherit_membership s ms (no_uploads st)"
  "no_uploads (inherit_assignment s ra st) = inherit_assignment s ra (no_uploads st)"
  by (simp_all add: add_notification_def bump_member_count_def assign_role_def count_reply_def apply_karma_def
      upsert_identity_def inherit_membership_def inherit_assignment_def Let_def del: MembershipFlag.simps split: option.split prod.split)

lemma wipe_folds [simp]:
  "no_uploads (add_mention_notifications x cid a t st) = add_mention_notifications x cid a t (no_uploads st)"
  by (simp_all add: add_mention_notifications_def fold_wipes)

lemma wipe_inherit [simp]: "no_uploads (inherit_standing k r st) = inherit_standing k r (no_uploads st)"
proof -
  have m: "no_uploads (fold (inherit_membership s) xs st) = fold (inherit_membership s) xs (no_uploads st)" for s xs st
    by (rule fold_wipes) simp
  have a: "no_uploads (fold (inherit_assignment s) xs st) = fold (inherit_assignment s) xs (no_uploads st)" for s xs st
    by (rule fold_wipes) simp
  have "role_assignments (fold (inherit_membership s) xs (no_uploads st)) = role_assignments (fold (inherit_membership s) xs st)" for s xs st
    by (metis m no_uploads_fields(5))
  then have r: "role_assignments (fold (inherit_membership s) xs (no_uploads st)) = role_assignments (fold (inherit_membership s) xs st)"
    for s xs st .
  show ?thesis
  proof (cases "map_of (identities st) k")
    case None
    then show ?thesis by (simp add: inherit_standing_def Let_def m a r)
  next
    case (Some i)
    note r' = r [of _ _ "st\<lparr>identities := x\<rparr>" for x, simplified]
    from Some show ?thesis by (simp add: inherit_standing_def Let_def m a r')
  qed
qed

lemma wipe_mod [simp]:
  "no_uploads (append_to_chain d m env st) = append_to_chain d m env (no_uploads st)"
  "no_uploads (apply_content_verb m st) = apply_content_verb m (no_uploads st)"
  "no_uploads (apply_member_verb m c t st) = apply_member_verb m c t (no_uploads st)"
  by (simp_all add: append_to_chain_def apply_content_verb_def apply_member_verb_def Let_def resolve_target_summary_def display_name_of_def
      split: option.split)

lemma content_author_wiped [simp]: "content_author (no_uploads st) = content_author st"
  by (simp add: content_author_def fun_eq_iff split: option.split)

lemma wipe_mod_action [simp]: "no_uploads (ModAction_project d m env st) = ModAction_project d m env (no_uploads st)"
proof -
  have "content_author (apply_content_verb m (append_to_chain d m env (no_uploads st))) = content_author (apply_content_verb m (append_to_chain d m env st))"
     "content_author (apply_member_verb m c t (append_to_chain d m env (no_uploads st))) = content_author (apply_member_verb m c t (append_to_chain d m env st))" for c t
    by (metis content_author_wiped wipe_mod(1,2), metis content_author_wiped wipe_mod(1,3))
  then show ?thesis by (simp add: ModAction_project_def Let_def split: option.split)
qed

lemma wipe_audit [simp]:
  "no_uploads (append_community_audit d c cid a act ch t st) = append_community_audit d c cid a act ch t (no_uploads st)"
  by (simp add: append_community_audit_def Let_def)

lemma wipe_comment [simp]: "created_comment m env (no_uploads st) = created_comment m env st"
  by (simp add: created_comment_def)

lemma wipe_vote [simp]: "no_uploads (VoteCast_project m env st) = VoteCast_project m env (no_uploads st)"
  by (simp add: VoteCast_project_def Let_def split: option.split)

lemma wipe_join [simp]: "no_uploads (MembershipJoin_project m env st) = MembershipJoin_project m env (no_uploads st)"
  by (simp add: MembershipJoin_project_def Let_def fold_wipes del: MembershipFlag.simps split: option.split)

lemma wipe_claim [simp]: "no_uploads (AttachmentClaim_project m env st) = AttachmentClaim_project m env (no_uploads st)"
  by (simp add: AttachmentClaim_project_def al_del_def no_uploads_def)

lemma wipe_project: "no_uploads (forum_project d origin op env st) = forum_project d origin op env (no_uploads st)"
  by (cases op) (simp_all add: PostCreate_project_def PostUpdate_project_def PostDelete_project_def CommentCreate_project_def
      CommentUpdate_project_def CommentDelete_project_def
      CommunityCreate_project_def CommunityUpdate_project_def CommunityArchive_project_def MembershipLeave_project_def
      ReportCreate_project_def ReportResolve_project_def RoleDefine_project_def RoleAssign_project_def RoleRevoke_project_def
      AwardGive_project_def AwardType_project_def ProfileUpdate_project_def
      Follow_project_def Block_project_def Save_project_def FeedPrefs_project_def ForumMessage_project_def LabelEmit_project_def
      KeyCertify_project_def KeyRevoke_project_def Let_def
      del: MembershipFlag.simps RevocationKind.simps split: option.split prod.split)

lemma wipe_uploads [simp]:
  "no_uploads (upload_url key actor mime n dg st) = no_uploads st"
  "no_uploads (confirm_upload key actor mime n dg blob t st) = no_uploads st"
  by (simp_all add: upload_url_def confirm_upload_def split: option.split prod.split)

section \<open>A replay of what was accepted\<close>

text \<open>The envelopes before the first of the Signal plane, and what a report on them says.\<close>

fun forum_prefix :: "logged list \<Rightarrow> forum_event list" where
  "forum_prefix (Logged_forum e # lg) = e # forum_prefix lg"
| "forum_prefix _ = []"

fun first_signal :: "logged list \<Rightarrow> signal_event option" where
  "first_signal [] = None"
| "first_signal (Logged_forum e # lg) = first_signal lg"
| "first_signal (Logged_signal e # lg) = Some e"

definition replayed :: "forum_deps \<Rightarrow> forum_event list \<Rightarrow> forum_store \<Rightarrow> forum_store" where
  "replayed d es st = fold (\<lambda>e. forum_project d None (ev_op e) (ev_env e)) es st"

definition full_report :: "'e list \<Rightarrow> rebuild_report" where
  "full_report lg = \<lparr>rp_scanned = length lg, rp_projected = length lg,
     rp_last_log_index = (if lg = [] then None else Some (length lg - 1))\<rparr>"

lemma cli_replay:
  "rebuild_from (cli_handler d) (enumerate n lg) r ns =
    (case first_signal lg of
       Some s \<Rightarrow> Inl (Logged_signal s)
     | None \<Rightarrow> Inr (if lg = [] then r else r\<lparr>rp_scanned := rp_scanned r + length lg, rp_projected := rp_projected r + length lg,
         rp_last_log_index := Some (n + length lg - 1)\<rparr>),
     ns\<lparr>forum_rows := replayed d (forum_prefix lg) (forum_rows ns)\<rparr>)"
proof (induction lg arbitrary: n r ns)
  case (Cons l lg)
  show ?case
  proof (cases l)
    case (Logged_forum e)
    then show ?thesis by (cases "lg = []") (simp_all add: Cons replayed_def Let_def split: option.split)
  qed (simp add: replayed_def)
qed (simp add: replayed_def)

lemma rebuild_projections_result:
  "rebuild_projections d lg ns =
    (case first_signal lg of Some s \<Rightarrow> Inl (Logged_signal s) | None \<Rightarrow> Inr (full_report lg),
     ns\<lparr>forum_rows := replayed d (forum_prefix lg) empty_forum_store\<rparr>)"
  by (simp add: rebuild_projections_def rebuild_def stored_def cli_replay mongo_reset_def full_report_def split: option.split)

lemma origin_irrelevant: "(\<And>m. op \<noteq> Op_community_create m) \<Longrightarrow> forum_project d origin op env st = forum_project d None op env st"
  by (cases op) (simp_all, blast)

definition local_event :: "forum_event \<Rightarrow> bool" where
  "local_event e \<longleftrightarrow> ev_origin e = None \<or> (\<forall>m. ev_op e \<noteq> Op_community_create m)"

lemma node_run_simps [simp]:
  "node_run d sd [] ns = ns" "node_run d sd (e # es) ns = node_run d sd es (node_step d sd ns e)"
  "node_run d sd (es @ [e]) ns = node_step d sd (node_run d sd es ns) e"
  by (simp_all add: node_run_def)

lemma node_log_append: "node_log d sd ns (es @ fs) = node_log d sd ns es @ node_log d sd (node_run d sd es ns) fs"
  by (induction es arbitrary: ns) simp_all

lemma forum_replays:
  assumes "first_signal (node_log d sd ns es) = None" and "\<forall>e\<in>set (forum_prefix (node_log d sd ns es)). local_event e"
  shows "replayed d (forum_prefix (node_log d sd ns es)) (no_uploads (forum_rows ns)) = no_uploads (forum_rows (node_run d sd es ns))"
  using assms
proof (induction es arbitrary: ns)
  case (Cons e es)
  show ?case
  proof (cases e)
    case (Ne_forum f)
    show ?thesis
    proof (cases "forum_accepts d (forum_rows ns) f")
      case True
      with Cons.prems Ne_forum have "local_event f" by simp
      then have "forum_project d (ev_origin f) (ev_op f) (ev_env f) st = forum_project d None (ev_op f) (ev_env f) st" for st
        using origin_irrelevant [of "ev_op f" d "ev_origin f"] by (auto simp: local_event_def)
      with True have "no_uploads (forum_step d (forum_rows ns) f) = forum_project d None (ev_op f) (ev_env f) (no_uploads (forum_rows ns))"
        by (simp add: forum_step_def wipe_project)
      moreover have "replayed d (forum_prefix (node_log d sd (node_step d sd ns e) es)) (no_uploads (forum_rows (node_step d sd ns e)))
          = no_uploads (forum_rows (node_run d sd es (node_step d sd ns e)))"
        by (rule Cons.IH) (use Cons.prems Ne_forum True in simp_all)
      ultimately show ?thesis using Ne_forum True by (simp add: replayed_def)
    next
      case False
      with Cons Ne_forum show ?thesis by (simp add: forum_step_def)
    qed
  next
    case (Ne_signal s)
    with Cons.prems have no: "\<not> signal_accepts sd (signal_rows ns) s" by (cases "signal_accepts sd (signal_rows ns) s") simp_all
    with Cons.IH [of "node_step d sd ns e"] Cons.prems Ne_signal show ?thesis by simp
  next
    case (Ne_ticket key actor mime n dg)
    with Cons.IH [of "node_step d sd ns e"] Cons.prems show ?thesis by simp
  next
    case (Ne_confirm key actor mime n dg blob t)
    with Cons.IH [of "node_step d sd ns e"] Cons.prems show ?thesis by simp
  qed
qed (simp add: replayed_def)

text \<open>A log with a Signal envelope has a first one, and the run that left it has the moment it was accepted.\<close>

lemma first_signal_moment:
  assumes "first_signal (node_log d sd ns es) = Some s"
  shows "\<exists>es1 es2. es = es1 @ Ne_signal s # es2 \<and> first_signal (node_log d sd ns es1) = None
    \<and> forum_prefix (node_log d sd ns es) = forum_prefix (node_log d sd ns es1)"
  using assms
proof (induction es arbitrary: ns)
  case (Cons e es)
  show ?case
  proof (cases "first_signal (log_entry d sd ns e)")
    case None
    then have split: "first_signal (log_entry d sd ns e @ lg) = first_signal lg" 
      "forum_prefix (log_entry d sd ns e @ lg) = forum_prefix (log_entry d sd ns e) @ forum_prefix lg" for lg
      by (cases e; auto split: if_splits)+
    with Cons.prems Cons.IH [of "node_step d sd ns e"] obtain es1 es2 where "es = es1 @ Ne_signal s # es2" "first_signal (node_log d sd (node_step d sd ns e) es1) = None"
      "forum_prefix (node_log d sd (node_step d sd ns e) es) = forum_prefix (node_log d sd (node_step d sd ns e) es1)" by auto
    then show ?thesis by (intro exI [of _ "e # es1"] exI [of _ es2]) (simp add: split)
  next
    case (Some t)
    then have "e = Ne_signal t" "log_entry d sd ns e = [Logged_signal t]" by (cases e; auto split: if_splits)+
    with Cons.prems have "s = t" "forum_prefix (node_log d sd ns (e # es)) = []" by (simp_all del: log_entry.simps)
    with \<open>e = Ne_signal t\<close> have "e # es = [] @ Ne_signal s # es \<and> first_signal (node_log d sd ns []) = None
      \<and> forum_prefix (node_log d sd ns (e # es)) = forum_prefix (node_log d sd ns [])" by simp
    then show ?thesis by blast
  qed
qed simp

text \<open>C24: What the rebuild command restores. Take any run of a node from empty - operations of both planes, accepted or
  refused, and upload tickets written over HTTP - after which every community in the log was created here. If no Signal
  envelope is in the log, the command reports every envelope and leaves exactly the rows the node had, except that the
  upload tickets are gone (they are in a dropped collection and not in the log). If there is one, the command throws on
  the first, having dropped every forum row: what is left are the forum rows of the moment before that envelope was
  accepted, again without tickets, and everything the forum did since is gone. The Signal rows are never touched.\<close>

theorem rebuild_restores_the_store:
  assumes "\<forall>e. Logged_forum e \<in> set (node_log d sd empty_rows es) \<longrightarrow> local_event e"
  defines "lg \<equiv> node_log d sd empty_rows es" and "ns \<equiv> node_run d sd es empty_rows"
  shows "(case first_signal lg of
      None \<Rightarrow> rebuild_projections d lg ns = (Inr (full_report lg), ns\<lparr>forum_rows := no_uploads (forum_rows ns)\<rparr>)
    | Some s \<Rightarrow> \<exists>es1 es2. es = es1 @ Ne_signal s # es2 \<and> first_signal (node_log d sd empty_rows es1) = None
        \<and> rebuild_projections d lg ns =
            (Inl (Logged_signal s), ns\<lparr>forum_rows := no_uploads (forum_rows (node_run d sd es1 empty_rows))\<rparr>))"
proof -
  have pre: "e \<in> set (forum_prefix l) \<Longrightarrow> Logged_forum e \<in> set l" for e l
    by (induction l rule: forum_prefix.induct) auto
  have start: "no_uploads (forum_rows empty_rows) = empty_forum_store"
    by (simp add: empty_rows_def no_uploads_def empty_forum_store_def)
  have local: "\<forall>e\<in>set (forum_prefix lg). local_event e" using assms(1) pre unfolding lg_def by blast
  show ?thesis
  proof (cases "first_signal lg")
    case None
    with forum_replays [of d sd empty_rows es] local show ?thesis
      by (simp add: rebuild_projections_result start) (simp add: lg_def ns_def start)
  next
    case (Some s)
    from first_signal_moment [OF Some [unfolded lg_def]] obtain es1 es2 where
      es: "es = es1 @ Ne_signal s # es2" "first_signal (node_log d sd empty_rows es1) = None"
      "forum_prefix lg = forum_prefix (node_log d sd empty_rows es1)" unfolding lg_def by blast
    with forum_replays [OF es(2)] local have "replayed d (forum_prefix lg) empty_forum_store
        = no_uploads (forum_rows (node_run d sd es1 empty_rows))" by (simp add: start)
    with Some es show ?thesis by (auto simp: rebuild_projections_result)
  qed
qed

section \<open>Communities of other nodes\<close>

lemma others_keep_owners:
  assumes "\<And>m. op \<noteq> Op_community_create m"
  shows "owner_of (forum_project d origin op env st) = owner_of st"
proof (cases "moves_authority op")
  case False
  from quiet_operation [OF False, of st d origin env] show ?thesis by (simp add: same_authority_def)
next
  case True
  have "owner_of (st\<lparr>revocations := x\<rparr>) = owner_of st" for x by (rule owner_of_cong) simp
  then have revoke: "owner_of (KeyRevoke_project m env st) = owner_of st" for m
    by (simp add: KeyRevoke_project_def Let_def inherit_standing_fields del: RevocationKind.simps)
  have "op \<noteq> Op_community_create m" for m by (rule assms)
  with True show ?thesis
    by (cases op) (simp_all only: moves_authority.simps forum_project.simps join_effect leave_effect mod_effect
      role_define_effect role_assign_effect role_revoke_effect revoke simp_thms, blast)
qed

definition created_here :: "string \<Rightarrow> forum_store \<Rightarrow> bool" where
  "created_here server st \<longleftrightarrow> (\<forall>c\<in>dom (owner_of st). \<exists>n. CHR ''@'' \<notin> set n \<and> c = community_id n server)"

lemma created_hereD: "created_here server st \<Longrightarrow> (\<And>n. CHR ''@'' \<notin> set n \<Longrightarrow> c \<noteq> community_id n server) \<Longrightarrow> owner_of st c = None"
  unfolding created_here_def by (cases "owner_of st c") blast+

lemma plain_name: "CommunityCreate_validate m env = Valid \<Longrightarrow> CHR ''@'' \<notin> set (cc_name m)"
  by (auto simp: CommunityCreate_validate_def COMMUNITY_NAME_PATTERN_def matches_class_def list_all_iff lower_alnum_def in_range_def
      split: if_splits)

lemma replay_created_here:
  assumes "created_here (fd_server_id d) st" and "\<forall>e\<in>set lg. forum_validate d (ev_op e) (ev_env e) = Valid"
  shows "created_here (fd_server_id d) (replayed d lg st)"
  using assms
proof (induction lg arbitrary: st)
  case (Cons e lg)
  have "created_here (fd_server_id d) (forum_project d None (ev_op e) (ev_env e) st)"
  proof (cases "\<exists>m. ev_op e = Op_community_create m")
    case True
    then obtain m where m: "ev_op e = Op_community_create m" by blast
    with Cons.prems(2) have "CHR ''@'' \<notin> set (cc_name m)" by (auto dest: plain_name)
    with Cons.prems(1) m show ?thesis by (auto simp: created_here_def create_effect created_id_def)
  next
    case False
    with Cons.prems(1) others_keep_owners [of "ev_op e"] show ?thesis by (simp add: created_here_def)
  qed
  with Cons show ?case by (simp add: replayed_def)
qed (simp add: replayed_def)

lemma node_log_valid: "Logged_forum e \<in> set (node_log d sd ns es) \<Longrightarrow> forum_validate d (ev_op e) (ev_env e) = Valid"
proof (induction es arbitrary: ns)
  case (Cons x es)
  then show ?case by (cases x) (auto simp: forum_accepts_def split: if_splits)
qed simp

text \<open>C25: A rebuild forgets the communities of other nodes: a community that was created on another node is in the live
  store under the name of that node, and after a rebuild from the same log, whether the command ends or throws, it is
  not in the store at all - its create envelope is replayed as one of this node - so its posts, members and moderation
  log refer to a community that does not exist.\<close>

theorem rebuild_forgets_foreign_communities:
  assumes "forum_accepts d (forum_rows (node_run d sd es empty_rows)) e"
    and "ev_op e = Op_community_create m" and "ev_origin e = Some s" and "s \<noteq> fd_server_id d"
  defines "ns \<equiv> node_run d sd (es @ [Ne_forum e]) empty_rows" and "lg \<equiv> node_log d sd empty_rows (es @ [Ne_forum e])"
  shows "map_of (communities (forum_rows ns)) (community_id (cc_name m) s) \<noteq> None
    \<and> map_of (communities (forum_rows (snd (rebuild_projections d lg ns)))) (community_id (cc_name m) s) = None"
proof -
  have "owner_of (forum_rows ns) (community_id (cc_name m) s) \<noteq> None"
    using assms(1-4) by (simp add: ns_def forum_step_def create_effect created_id_def)
  then have live: "map_of (communities (forum_rows ns)) (community_id (cc_name m) s) \<noteq> None"
    by (auto simp: owner_of_def)
  have pre: "x \<in> set (forum_prefix l) \<Longrightarrow> Logged_forum x \<in> set l" for x l
    by (induction l rule: forum_prefix.induct) auto
  have "created_here (fd_server_id d) (replayed d (forum_prefix lg) empty_forum_store)"
    by (rule replay_created_here)
      (auto simp: created_here_def owner_of_def empty_forum_store_def lg_def dest!: pre intro: node_log_valid)
  moreover have "community_id (cc_name m) s \<noteq> community_id n (fd_server_id d)" if "CHR ''@'' \<notin> set n" for n
  proof -
    from assms(1,2) have "CHR ''@'' \<notin> set (cc_name m)" by (auto simp: forum_accepts_def dest: plain_name)
    with that assms(4) show ?thesis by (simp add: community_id_def delimited_eq)
  qed
  ultimately have "owner_of (replayed d (forum_prefix lg) empty_forum_store) (community_id (cc_name m) s) = None"
    by (rule created_hereD)
  then have "map_of (communities (forum_rows (snd (rebuild_projections d lg ns)))) (community_id (cc_name m) s) = None"
    by (simp add: rebuild_projections_result owner_of_def)
  with live show ?thesis by (rule conjI)
qed

section \<open>An example\<close>

definition foreign_start :: forum_event where "foreign_start = start_event\<lparr>ev_origin := Some ''far''\<rparr>"

lemma foreign_accepted: "forum_accepts demo_deps empty_forum_store foreign_start"
  using start_accepted by (simp add: foreign_start_def forum_accepts_def start_event_def CommunityCreate_authorize_def empty_forum_store_def)

text \<open>A node that accepted one community and handed out one upload ticket.\<close>

definition ticket_run :: "node_event list" where
  "ticket_run = [Ne_forum start_event, Ne_ticket ''forum/1'' ''k'' ''image/png'' 10 (Some [1])]"

lemma ticket_run_log: "node_log demo_deps demo_signal empty_rows ticket_run = [Logged_forum start_event]"
  using start_accepted by (simp add: ticket_run_def empty_rows_def)

lemma al_set_nonempty: "al_set k v m \<noteq> []"
  by (cases "(k, v, m)" rule: al_set.cases) simp_all

theorem rebuild_restores_the_store_witness:
  "fst (rebuild_projections demo_deps (node_log demo_deps demo_signal empty_rows ticket_run) (node_run demo_deps demo_signal ticket_run empty_rows))
     = Inr (full_report [start_event])
   \<and> attachment_uploads (forum_rows (node_run demo_deps demo_signal ticket_run empty_rows)) \<noteq> []
   \<and> forum_rows (snd (rebuild_projections demo_deps (node_log demo_deps demo_signal empty_rows ticket_run) (node_run demo_deps demo_signal ticket_run empty_rows)))
     = no_uploads (forum_rows (node_run demo_deps demo_signal ticket_run empty_rows))"
proof -
  have "\<forall>e. Logged_forum e \<in> set (node_log demo_deps demo_signal empty_rows ticket_run) \<longrightarrow> local_event e"
    by (simp add: ticket_run_log local_event_def start_event_def)
  from rebuild_restores_the_store [OF this]
  have "rebuild_projections demo_deps (node_log demo_deps demo_signal empty_rows ticket_run) (node_run demo_deps demo_signal ticket_run empty_rows)
      = (Inr (full_report [Logged_forum start_event]), (node_run demo_deps demo_signal ticket_run empty_rows)
          \<lparr>forum_rows := no_uploads (forum_rows (node_run demo_deps demo_signal ticket_run empty_rows))\<rparr>)"
    by (simp add: ticket_run_log)
  moreover have "attachment_uploads (forum_rows (node_run demo_deps demo_signal ticket_run empty_rows)) \<noteq> []"
    by (simp add: ticket_run_def upload_url_def MAX_ATTACHMENT_BYTES_def al_set_nonempty)
  ultimately show ?thesis by (simp add: full_report_def)
qed

theorem rebuild_forgets_foreign_communities_witness:
  "map_of (communities (forum_rows (snd (rebuild_projections demo_deps
       (node_log demo_deps demo_signal empty_rows ([] @ [Ne_forum foreign_start])) (node_run demo_deps demo_signal ([] @ [Ne_forum foreign_start]) empty_rows)))))
     (community_id ''abc'' ''far'') = None"
proof -
  have "ev_op foreign_start = Op_community_create demo_create" "ev_origin foreign_start = Some ''far''" "''far'' \<noteq> fd_server_id demo_deps"
    by (simp_all add: foreign_start_def start_event_def demo_deps_def)
  moreover have "forum_accepts demo_deps (forum_rows (node_run demo_deps demo_signal [] empty_rows)) foreign_start"
    using foreign_accepted by (simp add: empty_rows_def)
  ultimately show ?thesis
    using rebuild_forgets_foreign_communities [of demo_deps demo_signal "[]" foreign_start demo_create "''far''"]
    by (simp add: demo_create_def)
qed

end
