(* ===== verification/JB_Builder.thy ===== *)
theory JB_Builder
  imports JB_Pipeline
begin

text \<open>
  The client's side of an envelope (\<open>packages/sdk-ts/src/signer/envelope-builder.ts\<close>): it is built from the policy table,
  sealed with a signature under the size budget of its domain, and verified offline. What a client can seal is what
  the pure steps of the pipeline let through.
\<close>

section \<open>The builder\<close>

datatype builder_error =
    EnvelopeTooLargeError string nat nat
  | UnknownDomainError string
  | PlaneMismatchError string int int
  | NonceError string

record build_input =
  bi_domain :: string
  bi_plane :: int
  bi_author_key :: bytes
  bi_body :: bytes
  bi_now_ms :: int
  bi_nonce :: bytes
  bi_parent :: "string option"
  bi_scope :: "string option"
  bi_anti_abuse :: "anti_abuse option"

definition text_or_empty :: "string option \<Rightarrow> string" where
  "text_or_empty t = (case t of None \<Rightarrow> [] | Some s \<Rightarrow> s)"

definition buildEnvelope :: "build_input \<Rightarrow> builder_error + envelope" where
  "buildEnvelope inp =
     (case lookup_domain (bi_domain inp) of
        None \<Rightarrow> Inl (UnknownDomainError (bi_domain inp))
      | Some spec \<Rightarrow>
          if plane_by_name (ds_plane spec) \<noteq> bi_plane inp
          then Inl (PlaneMismatchError (bi_domain inp) (plane_by_name (ds_plane spec)) (bi_plane inp))
          else if \<not> ds_idempotent spec \<and> length (bi_nonce inp) \<noteq> NONCE_BYTES
          then Inl (NonceError (bi_domain inp))
          else Inr \<lparr>version = ENVELOPE_VERSION, plane = bi_plane inp, domain = bi_domain inp, author_key = bi_author_key inp,
            key_alg = ALG_ED25519, parent = text_or_empty (bi_parent inp), env_scope = text_or_empty (bi_scope inp),
            created_at_ms = bi_now_ms inp, nonce = bi_nonce inp, priority = PRIORITY_BY_NAME (ds_priority spec),
            body = bi_body inp, env_anti_abuse = bi_anti_abuse inp\<rparr>)"

definition sealEnvelope ::
  "(bytes \<Rightarrow> bytes) \<Rightarrow> (string \<Rightarrow> string) \<Rightarrow> envelope \<Rightarrow> bytes \<Rightarrow> builder_error + (signed_envelope \<times> string \<times> bytes)" where
  "sealEnvelope sha nfc env sig =
     (case lookup_domain (domain env) of
        None \<Rightarrow> Inl (UnknownDomainError (domain env))
      | Some spec \<Rightarrow>
          let senv = envelope.extend env \<lparr>signature = sig\<rparr>;
              wire = encode_signed_envelope nfc senv
          in if length wire > ds_max_bytes spec
             then Inl (EnvelopeTooLargeError (domain env) (length wire) (ds_max_bytes spec))
             else Inr (senv, contentIdFromCanonical sha (canonical_bytes nfc env), wire))"

text \<open>\<open>ed25519Verify(signature, message, key)\<close> is the parameter \<open>ed\<close>.\<close>

definition verifyEnvelope :: "(bytes \<Rightarrow> bytes \<Rightarrow> bytes \<Rightarrow> bool) \<Rightarrow> (string \<Rightarrow> string) \<Rightarrow> signed_envelope \<Rightarrow> bool" where
  "verifyEnvelope ed nfc env = (if key_alg env \<noteq> ALG_ED25519 then False else ed (signature env) (canonical_bytes nfc env) (author_key env))"

section \<open>Facts of the policy table\<close>

definition seven_bit :: "string \<Rightarrow> bool" where
  "seven_bit s \<longleftrightarrow> list_all (\<lambda>c. of_char c < (128 :: nat)) s"

lemma domains_ascii: "s \<in> set DOMAIN_SPECS \<Longrightarrow> seven_bit (ds_domain s)"
proof -
  have "list_all (\<lambda>s. seven_bit (ds_domain s)) DOMAIN_SPECS"
    by (simp add: DOMAIN_SPECS_def domain_specs_defs seven_bit_def)
  then show "s \<in> set DOMAIN_SPECS \<Longrightarrow> seven_bit (ds_domain s)" by (simp add: list_all_iff)
qed

lemma rows_fit_their_class:
  assumes "s \<in> set DOMAIN_SPECS"
  shows "ds_max_bytes s \<le> ABSOLUTE_MAX \<and> domain_budget s = ds_max_bytes s \<and> ED25519 \<in> set (ds_key_algs s)"
proof -
  have "list_all (\<lambda>s. ds_max_bytes s \<le> 131072 \<and> ds_max_bytes s \<le> (case ds_priority s of BROADCAST \<Rightarrow> 512 | DIRECT \<Rightarrow> 2048 | CHECKIN \<Rightarrow> 512 | BULK \<Rightarrow> 131072)
      \<and> ED25519 \<in> set (ds_key_algs s)) DOMAIN_SPECS"
    by (simp add: DOMAIN_SPECS_def domain_specs_defs)
  with assms have "ds_max_bytes s \<le> 131072" "ED25519 \<in> set (ds_key_algs s)"
    "ds_max_bytes s \<le> (case ds_priority s of BROADCAST \<Rightarrow> 512 | DIRECT \<Rightarrow> 2048 | CHECKIN \<Rightarrow> 512 | BULK \<Rightarrow> 131072)"
    by (simp_all add: list_all_iff)
  then show ?thesis
    by (cases "ds_priority s") (simp_all add: domain_budget_def CLASS_SIZE_BUDGET_def PRIORITY_BY_NAME_def ABSOLUTE_MAX_def)
qed

lemma ascii_valid: "seven_bit s \<Longrightarrow> utf8_valid (text_encode s) \<and> take 3 (text_encode s) \<noteq> BOM"
proof (induction s)
  case (Cons c s)
  then have c: "of_char c < (128 :: nat)" by (simp add: seven_bit_def)
  then have "unat (of_nat (of_char c) :: byte) = of_char c" by (simp add: unat_of_nat)
  with c have le: "(of_nat (of_char c) :: byte) \<le> 0x7F" by (simp add: word_le_nat_alt)
  then have "(of_nat (of_char c) :: byte) \<noteq> 0xEF" by auto
  with Cons le show ?case by (simp add: text_encode_def seven_bit_def BOM_def)
qed (simp add: text_encode_def BOM_def)

lemma domain_string_ok:
  assumes "lookup_domain d = Some spec" and "\<And>s. seven_bit s \<Longrightarrow> nfc s = s"
  shows "string_ok nfc d"
  using domains_ascii [of spec] ascii_valid [of d] assms by (auto simp: lookup_domain_iff string_ok_def)

lemma built_fields:
  assumes "buildEnvelope inp = Inr env"
  obtains spec where "lookup_domain (bi_domain inp) = Some spec" "plane_by_name (ds_plane spec) = bi_plane inp"
    "ds_idempotent spec \<or> length (bi_nonce inp) = NONCE_BYTES"
    "env = \<lparr>version = ENVELOPE_VERSION, plane = bi_plane inp, domain = bi_domain inp, author_key = bi_author_key inp,
       key_alg = ALG_ED25519, parent = text_or_empty (bi_parent inp), env_scope = text_or_empty (bi_scope inp),
       created_at_ms = bi_now_ms inp, nonce = bi_nonce inp, priority = PRIORITY_BY_NAME (ds_priority spec),
       body = bi_body inp, env_anti_abuse = bi_anti_abuse inp\<rparr>"
  using assms that by (auto simp: buildEnvelope_def split: option.splits if_splits)

lemma sealed_fields:
  assumes "sealEnvelope sha nfc env sig = Inr (senv, cid, wire)" and "lookup_domain (domain env) = Some spec"
  shows "senv = envelope.extend env \<lparr>signature = sig\<rparr>" "wire = encode_signed_envelope nfc senv"
    "length wire \<le> ds_max_bytes spec" "cid = contentIdFromCanonical sha (canonical_bytes nfc env)"
  using assms by (auto simp: sealEnvelope_def Let_def split: if_splits)

lemma signature_not_signed: "canonical_bytes nfc (envelope.extend env \<lparr>signature = sig\<rparr>) = canonical_bytes nfc env"
  by (simp add: canonical_bytes_def envelope_fields_def envelope.extend_def)

lemma registry_numbers: "num_ok (plane_by_name p)" "num_ok (PRIORITY_BY_NAME q)" "num_ok ENVELOPE_VERSION" "num_ok ALG_ED25519"
  by (simp_all add: num_ok_def plane_by_name_def PRIORITY_BY_NAME_def ENVELOPE_VERSION_def ALG_ED25519_def
      split: registry_plane.split registry_priority.split)

lemma sealed_nonempty: "version e \<noteq> 0 \<Longrightarrow> encode_signed_envelope nfc e \<noteq> []"
  by (simp add: encode_signed_envelope_def canonical_bytes_def envelope_fields_def opt_def write_varint_field_def)

section \<open>Sealed envelopes at the pipeline\<close>

text \<open>C7: What a client seals, the pure steps of a node accept: if an envelope is built from the policy table and sealed
  under its budget with a signature that verifies, then a node parses its wire form back to the same envelope with the
  same content identifier and signed bytes, and the checks of size, version, domain, plane, domain budget, algorithm,
  priority and signature all pass; with a nonce not seen before, so does the replay check. No envelope is refused for
  its form after it has left the client. Text must be normalised and normalisation must keep ASCII.\<close>

theorem sealed_envelope_passes_every_pure_check:
  assumes build: "buildEnvelope inp = Inr env" and seal: "sealEnvelope sha nfc env sig = Inr (senv, cid, wire)"
    and senv: "verifyEnvelope ed nfc senv" and verify: "\<And>k c s. verify ALG_ED25519 k c s = ed s c k"
    and seven_bit: "\<And>s. seven_bit s \<Longrightarrow> nfc s = s"
    and input: "0 \<le> bi_now_ms inp" "bi_now_ms inp < 2 ^ 70" "string_ok nfc (text_or_empty (bi_parent inp))"
      "string_ok nfc (text_or_empty (bi_scope inp))" "anti_abuse_ok (bi_anti_abuse inp)"
    and reg: "reg_inv reg" "reg_lookup (bi_domain inp) reg = Some (h, spec)"
    and parsed: "p = signed_envelope.extend senv \<lparr>content_id = cid\<rparr>"
  shows "parseEnvelope sha nfc wire = Inr (p, canonical_bytes nfc env)
    \<and> acceptSize wire = Inr () \<and> acceptEnvelopeHeader p reg = Inr () \<and> acceptDomainSize wire spec = Inr ()
    \<and> acceptAlgPolicy p spec = Inr () \<and> acceptPriority p spec = Inr () \<and> acceptSignature verify (signed_envelope.truncate p) (canonical_bytes nfc env) = Inr ()
    \<and> (\<not> seen (bi_author_key inp) (bi_nonce inp) \<longrightarrow> acceptReplay p (ds_idempotent spec) seen = Inr ())"
proof -
  from reg_inv_lookup [OF reg] have look: "lookup_domain (bi_domain inp) = Some spec" and hp: "h_plane h = plane_by_name (ds_plane spec)" by auto
  from built_fields [OF build] look have pl: "plane_by_name (ds_plane spec) = bi_plane inp"
    and no: "ds_idempotent spec \<or> length (bi_nonce inp) = NONCE_BYTES"
    and env: "env = \<lparr>version = ENVELOPE_VERSION, plane = bi_plane inp, domain = bi_domain inp, author_key = bi_author_key inp,
       key_alg = ALG_ED25519, parent = text_or_empty (bi_parent inp), env_scope = text_or_empty (bi_scope inp),
       created_at_ms = bi_now_ms inp, nonce = bi_nonce inp, priority = PRIORITY_BY_NAME (ds_priority spec),
       body = bi_body inp, env_anti_abuse = bi_anti_abuse inp\<rparr>" by (metis option.inject)+
  note row = rows_fit_their_class [of spec]
  from look have mem: "spec \<in> set DOMAIN_SPECS" by (simp add: lookup_domain_iff)
  from look env have "lookup_domain (domain env) = Some spec" by simp
  note sl = sealed_fields [OF seal this]
  from sl(1) env have sf: "version senv = 1" "plane senv = bi_plane inp" "domain senv = bi_domain inp" "key_alg senv = 1"
    "author_key senv = bi_author_key inp" "nonce senv = bi_nonce inp" "priority senv = PRIORITY_BY_NAME (ds_priority spec)"
    by (simp_all add: envelope.extend_def ENVELOPE_VERSION_def ALG_ED25519_def)
  have canon: "canonical_bytes nfc senv = canonical_bytes nfc env" by (simp add: sl(1) signature_not_signed)
  have "envelope_ok nfc senv"
    using input registry_numbers(1) [of "ds_plane spec"] registry_numbers(2-4) domain_string_ok [OF look seven_bit] pl
    by (simp add: envelope_ok_def sl(1) env envelope.extend_def)
  moreover have "length (encode_signed_envelope nfc senv) \<le> 2 ^ 53"
    using sl(2,3) row [OF mem] by (simp add: ABSOLUTE_MAX_def)
  ultimately have "decode_signed_envelope nfc wire = Inr senv" unfolding sl(2) by (rule decode_encode)
  then have "parseEnvelope sha nfc wire = Inr (p, canonical_bytes nfc env)"
    by (simp add: parseEnvelope_ok canon parsed sl(4))
  moreover have "acceptSize wire = Inr ()"
    using sealed_nonempty [of senv nfc] sf(1) sl(2,3) row [OF mem] by (simp add: acceptSize_def)
  moreover have "acceptEnvelopeHeader p reg = Inr ()"
    using reg(2) hp pl sf by (simp add: header_ok_iff parsed signed_envelope.extend_def)
  moreover have "acceptDomainSize wire spec = Inr ()" using sl(3) row [OF mem] by (simp add: acceptDomainSize_def)
  moreover have "acceptAlgPolicy p spec = Inr ()"
    using row [OF mem] sf(4) by (force simp: acceptAlgPolicy_def KEY_ALG_BY_NAME_def parsed signed_envelope.extend_def)
  moreover have "acceptPriority p spec = Inr ()" using sf(7) by (simp add: acceptPriority_def parsed signed_envelope.extend_def)
  moreover have "acceptSignature verify (signed_envelope.truncate p) (canonical_bytes nfc env) = Inr ()"
    using senv verify sf(4,5) canon
    by (simp add: acceptSignature_def verifyEnvelope_def parsed ALG_ED25519_def split: if_splits)
  moreover have "acceptReplay p (ds_idempotent spec) seen = Inr ()" if "\<not> seen (bi_author_key inp) (bi_nonce inp)"
    using that no sf(5,6) by (auto simp: acceptReplay_def NONCE_BYTES_def parsed signed_envelope.extend_def)
  ultimately show ?thesis by blast
qed

text \<open>A vote that is built, sealed and offered to a node with a handler for votes.\<close>

definition sample_input :: build_input where
  "sample_input = \<lparr>bi_domain = ''jb:vote:cast:v1'', bi_plane = 1, bi_author_key = [7, 8], bi_body = [255], bi_now_ms = 90,
     bi_nonce = replicate 16 3, bi_parent = None, bi_scope = Some ''town'', bi_anti_abuse = None\<rparr>"

definition sample_unsigned :: envelope where
  "sample_unsigned = \<lparr>version = 1, plane = 1, domain = ''jb:vote:cast:v1'', author_key = [7, 8], key_alg = 1, parent = [],
     env_scope = ''town'', created_at_ms = 90, nonce = replicate 16 3, priority = 4, body = [255], env_anti_abuse = None\<rparr>"

definition vote_handler :: "(bytes, unit) handler" where
  "vote_handler = \<lparr>h_domain = ''jb:vote:cast:v1'', h_plane = 1, h_decode = Some, h_validate = (\<lambda>b e. Valid),
     h_authorize = (\<lambda>b e s p. Allowed), h_project = (\<lambda>b e s p. (Inr (), p))\<rparr>"

definition vote_policy :: domain_spec where
  "vote_policy = \<lparr>ds_domain = ''jb:vote:cast:v1'', ds_plane = FORUM, ds_body = ''jagoo.v1.VoteCast'', ds_priority = BULK,
     ds_idempotent = False, ds_scope_kind = SCOPE_COMMUNITY, ds_key_algs = [ED25519], ds_max_bytes = 1024, ds_credit_cost = 1,
     ds_credit_cost_per_mb = None, ds_requires = [CREDENTIAL], ds_requires_certificate = True, ds_federate = True,
     ds_permission = ''member''\<rparr>"

lemma vote_registered: "lookup_domain ''jb:vote:cast:v1'' = Some vote_policy"
  unfolding lookup_domain_iff by (simp add: DOMAIN_SPECS_def domain_specs_1_def vote_policy_def)

lemma sample_built: "buildEnvelope sample_input = Inr sample_unsigned"
  by (simp add: buildEnvelope_def sample_input_def sample_unsigned_def vote_registered vote_policy_def plane_by_name_def
      NONCE_BYTES_def ENVELOPE_VERSION_def ALG_ED25519_def PRIORITY_BY_NAME_def text_or_empty_def)

lemma sample_sealed:
  "sealEnvelope sha (\<lambda>s. s) sample_unsigned [5] = Inr (envelope.extend sample_unsigned \<lparr>signature = [5]\<rparr>,
     contentIdFromCanonical sha (canonical_bytes (\<lambda>s. s) sample_unsigned),
     encode_signed_envelope (\<lambda>s. s) (envelope.extend sample_unsigned \<lparr>signature = [5]\<rparr>))"
proof -
  have "length (encode_signed_envelope (\<lambda>s. s) (envelope.extend sample_unsigned \<lparr>signature = [5]\<rparr>)) \<le> 1024"
    by (simp add: encode_signed_envelope_def canonical_bytes_def envelope_fields_def signature_fields_def envelope.extend_def
      sample_unsigned_def write_varint_field_def write_length_delimited_def tag_small WIRE_VARINT_def WIRE_LEN_def
      varint_small is_anti_abuse_empty_def encode_utf8_nfc_def text_encode_def del: One_nat_def)
  moreover have "domain sample_unsigned = ''jb:vote:cast:v1''" by (simp add: sample_unsigned_def)
  ultimately show ?thesis by (simp add: sealEnvelope_def vote_registered vote_policy_def Let_def)
qed

theorem sealed_envelope_passes_every_pure_check_witness:
  "acceptSize (encode_signed_envelope (\<lambda>s. s) (envelope.extend sample_unsigned \<lparr>signature = [5]\<rparr>)) = Inr ()
   \<and> acceptDomainSize (encode_signed_envelope (\<lambda>s. s) (envelope.extend sample_unsigned \<lparr>signature = [5]\<rparr>)) vote_policy = Inr ()"
proof -
  have input: "0 \<le> bi_now_ms sample_input" "bi_now_ms sample_input < 2 ^ 70" "string_ok (\<lambda>s. s) (text_or_empty (bi_parent sample_input))"
    "string_ok (\<lambda>s. s) (text_or_empty (bi_scope sample_input))" "anti_abuse_ok (bi_anti_abuse sample_input)"
    by (simp_all add: sample_input_def text_or_empty_def string_ok_def anti_abuse_ok_def text_encode_def BOM_def)
  have reg: "reg_inv [(''jb:vote:cast:v1'', vote_handler, vote_policy)]"
    "reg_lookup (bi_domain sample_input) [(''jb:vote:cast:v1'', vote_handler, vote_policy)] = Some (vote_handler, vote_policy)"
    by (simp_all add: reg_inv_def vote_registered reg_lookup_def vote_handler_def sample_input_def plane_by_name_def)
       (simp add: vote_policy_def)
  have ver: "verifyEnvelope (\<lambda>s c k. s = [5]) (\<lambda>s. s) (envelope.extend sample_unsigned \<lparr>signature = [5]\<rparr>)"
    by (simp add: verifyEnvelope_def envelope.extend_def sample_unsigned_def ALG_ED25519_def)
  show ?thesis
    using sealed_envelope_passes_every_pure_check
        [of sample_input sample_unsigned "\<lambda>b. b" "\<lambda>s. s" "[5]" _ _ _ "\<lambda>s c k. s = [5]" "\<lambda>a k c s. s = [5]",
         OF sample_built sample_sealed ver refl refl input reg refl] by blast
qed

end
