(* ===== verification/JB_Credentials.thy ===== *)
theory JB_Credentials
  imports JB_Wire "HOL-Library.Signed_Division"
begin

text \<open>
  Blind credentials: the client's half (\<open>packages/sdk-ts/src/signer/blind-credential.ts\<close>) and the issuer's half
  (\<open>backend/src/adapters/outbound/redis/rsa-blind-credentials.ts\<close>) of RSA blind signatures. A \<open>bigint\<close> is an \<open>int\<close>, its \<open>/\<close> and
  \<open>%\<close> are the truncated \<open>sdiv\<close> and \<open>smod\<close>; SHA-256 and the random bytes are arguments. A credential that was issued blind
  is accepted, and what the issuer saw fits every other token.
\<close>

section \<open>Base64\<close>

definition b64_value :: "char \<Rightarrow> nat option" where
  "b64_value c = (let n = of_char c :: nat in
     if 65 \<le> n \<and> n \<le> 90 then Some (n - 65) else if 97 \<le> n \<and> n \<le> 122 then Some (n - 71)
     else if 48 \<le> n \<and> n \<le> 57 then Some (n + 4) else if n = 43 then Some 62 else if n = 47 then Some 63 else None)"

definition url_to_std :: "char \<Rightarrow> char" where
  "url_to_std c = (if c = CHR ''-'' then CHR ''+'' else if c = CHR ''_'' then CHR ''/'' else c)"

fun sextet_bytes :: "nat list \<Rightarrow> bytes" where
  "sextet_bytes (a # b # c # d # r) =
     of_nat (a * 4 + b div 16) # of_nat (b mod 16 * 16 + c div 4) # of_nat (c mod 4 * 64 + d) # sextet_bytes r"
| "sextet_bytes [a, b, c] = [of_nat (a * 4 + b div 16), of_nat (b mod 16 * 16 + c div 4)]"
| "sextet_bytes [a, b] = [of_nat (a * 4 + b div 16)]"
| "sextet_bytes _ = []"

definition strip_eq :: "string \<Rightarrow> string" where
  "strip_eq s = (if s \<noteq> [] \<and> last s = CHR ''='' then butlast s else s)"

text \<open>\<open>atob\<close> of the browser: white space is dropped, at most two paddings are, anything else foreign is an error.\<close>

definition atob :: "string \<Rightarrow> bytes option" where
  "atob s = (let t = filter (\<lambda>c. of_char c \<notin> {9, 10, 12, 13, 32 :: nat}) s;
                 u = (if length t mod 4 = 0 then strip_eq (strip_eq t) else t)
     in if length u mod 4 = 1 \<or> list_ex (\<lambda>c. b64_value c = None) u then None
        else Some (sextet_bytes (map (\<lambda>c. the (b64_value c)) u)))"

definition fromBase64Url :: "string \<Rightarrow> bytes option" where
  "fromBase64Url value = (let b = map url_to_std value in atob (b @ replicate ((length b + 3) div 4 * 4 - length b) (CHR ''='')))"

text \<open>\<open>Buffer.from(value, 'base64url')\<close> of the node: both alphabets, and what is in neither is skipped.\<close>

definition decodeBase64Url :: "string \<Rightarrow> bytes" where
  "decodeBase64Url value = sextet_bytes (map the (filter (\<lambda>v. v \<noteq> None) (map (\<lambda>c. b64_value (url_to_std c)) value)))"

section \<open>Integers and bytes\<close>

definition toBigInt :: "bytes \<Rightarrow> int" where
  "toBigInt value = foldl (\<lambda>n b. n * 256 + uint b) 0 value"

function hex_digits :: "int \<Rightarrow> int list" where
  "hex_digits v = (if v < 16 then [v] else hex_digits (v div 16) @ [v mod 16])"
  by pat_completeness auto
termination by (relation "measure nat") auto

declare hex_digits.simps [simp del]

fun byte_pairs :: "int list \<Rightarrow> bytes" where
  "byte_pairs (a # b # r) = word_of_int (a * 16 + b) # byte_pairs r"
| "byte_pairs _ = []"

definition padded_digits :: "int \<Rightarrow> nat \<Rightarrow> int list" where
  "padded_digits v width = (let h = hex_digits v in replicate (width * 2 - length h) 0 @ h)"

definition toBytes :: "int \<Rightarrow> nat \<Rightarrow> bytes" where
  "toBytes v width = byte_pairs (padded_digits v width)"

section \<open>Modular arithmetic\<close>

function mod_pow_loop :: "int \<Rightarrow> int \<Rightarrow> int \<Rightarrow> int \<Rightarrow> int" where
  "mod_pow_loop result factor pw modulus =
     (if pw > 0
      then mod_pow_loop (if pw AND 1 = 1 then (result * factor) smod modulus else result)
             ((factor * factor) smod modulus) (drop_bit 1 pw) modulus
      else result)"
  by pat_completeness auto
termination by (relation "measure (\<lambda>(r, f, p, m). nat p)") (auto simp: drop_bit_eq_div)

declare mod_pow_loop.simps [simp del]

definition modPow :: "int \<Rightarrow> int \<Rightarrow> int \<Rightarrow> int" where
  "modPow base exponent modulus = mod_pow_loop 1 (base smod modulus) exponent modulus"

lemma smod_less: "a \<noteq> 0 \<Longrightarrow> \<bar>b smod a\<bar> < \<bar>a :: int\<bar>"
  using smod_int_range [of a b] by auto

function extendedGcd :: "int \<Rightarrow> int \<Rightarrow> int \<times> int \<times> int" where
  "extendedGcd a b =
     (if a = 0 then (b, 0, 1)
      else let (g, x, y) = extendedGcd (b smod a) a in (g, y - (b sdiv a) * x, x))"
  by pat_completeness auto
termination by (relation "measure (\<lambda>(a, b). nat \<bar>a\<bar>)") (auto simp: smod_less)

declare extendedGcd.simps [simp del]

text \<open>\<open>inverse\<close> of the code; \<open>None\<close> is its error.\<close>

definition mod_inverse :: "int \<Rightarrow> int \<Rightarrow> int option" where
  "mod_inverse value modulus =
     (let (g, x, y) = extendedGcd value modulus
      in if g \<noteq> 1 then None else Some ((x smod modulus + modulus) smod modulus))"

section \<open>The client\<close>

datatype credential_error =
  BadTokenLength | InvalidBase64 | RangeError | BadBlindedLength | BadBlinded | DoesNotFit | BadJwk

record blind_public_key =
  pk_n :: string
  pk_e :: string
  pk_width :: nat

record blind_state =
  bs_token :: bytes
  bs_inverse :: bytes
  bs_public_key :: blind_public_key

definition representative :: "(bytes \<Rightarrow> bytes) \<Rightarrow> bytes \<Rightarrow> int \<Rightarrow> int" where
  "representative sha token modulus =
     toBigInt (sha (concat_bytes [text_encode (''jb-blind-credential-v1'' @ [CHR 0x00]), token])) smod modulus"

text \<open>The loop that looks for an invertible blinding factor; it has no bound of its own.\<close>

partial_function (option) blind_loop :: "int \<Rightarrow> int \<Rightarrow> (int \<times> int) option" where
  "blind_loop modulus r =
     (case mod_inverse r modulus of
        Some i \<Rightarrow> Some (r, i)
      | None \<Rightarrow> blind_loop modulus ((r + 1) smod modulus))"

text \<open>
  \<open>None\<close>: the call does not return. With a modulus of 0 or 2 a remainder by zero is thrown, before the loop or out of it.
\<close>

definition blindCredential ::
  "(bytes \<Rightarrow> bytes) \<Rightarrow> blind_public_key \<Rightarrow> bytes \<Rightarrow> bytes \<Rightarrow> (credential_error + (bytes \<times> blind_state)) option" where
  "blindCredential sha pk token factor =
     (if length token \<noteq> 32 then Some (Inl BadTokenLength)
      else (case (fromBase64Url (pk_n pk), fromBase64Url (pk_e pk)) of
          (Some nb, Some eb) \<Rightarrow>
            (let modulus = toBigInt nb; exponent = toBigInt eb in
             if modulus = 0 \<or> modulus = 2 then Some (Inl RangeError)
             else (case blind_loop modulus (toBigInt factor smod (modulus - 2) + 2) of
                 None \<Rightarrow> None
               | Some (r, i) \<Rightarrow>
                   let blinded = (representative sha token modulus * modPow r exponent modulus) smod modulus
                   in Some (Inr (toBytes blinded (pk_width pk),
                        \<lparr>bs_token = token, bs_inverse = toBytes i (pk_width pk), bs_public_key = pk\<rparr>))))
        | _ \<Rightarrow> Some (Inl InvalidBase64)))"

definition unblindCredential :: "blind_state \<Rightarrow> bytes \<Rightarrow> credential_error + bytes" where
  "unblindCredential st blind_signature =
     (case fromBase64Url (pk_n (bs_public_key st)) of
        None \<Rightarrow> Inl InvalidBase64
      | Some nb \<Rightarrow>
          let modulus = toBigInt nb in
          if modulus = 0 then Inl RangeError
          else let sig = (toBigInt blind_signature * toBigInt (bs_inverse st)) smod modulus
               in Inr (concat_bytes [bs_token st, toBytes sig (pk_width (bs_public_key st))]))"

section \<open>The issuer\<close>

record rsa_jwk =
  jwk_kty :: string
  jwk_n :: string
  jwk_e :: string
  jwk_d :: string

record rsa_issuer =
  is_modulus :: int
  is_public_exponent :: int
  is_private_exponent :: int
  is_public_key :: blind_public_key

definition new_issuer :: "rsa_jwk \<Rightarrow> credential_error + rsa_issuer" where
  "new_issuer jwk =
     (if jwk_kty jwk \<noteq> ''RSA'' \<or> jwk_n jwk = [] \<or> jwk_e jwk = [] \<or> jwk_d jwk = [] then Inl BadJwk
      else let n = decodeBase64Url (jwk_n jwk)
           in Inr \<lparr>is_modulus = toBigInt n, is_public_exponent = toBigInt (decodeBase64Url (jwk_e jwk)),
                is_private_exponent = toBigInt (decodeBase64Url (jwk_d jwk)),
                is_public_key = \<lparr>pk_n = jwk_n jwk, pk_e = jwk_e jwk, pk_width = length n\<rparr>\<rparr>)"

definition issuer_bytes :: "int \<Rightarrow> nat \<Rightarrow> credential_error + bytes" where
  "issuer_bytes v width = (if length (padded_digits v width) > width * 2 then Inl DoesNotFit else Inr (byte_pairs (padded_digits v width)))"

definition issuer_issue :: "rsa_issuer \<Rightarrow> bytes \<Rightarrow> credential_error + bytes" where
  "issuer_issue k blinded =
     (if length blinded \<noteq> pk_width (is_public_key k) then Inl BadBlindedLength
      else let v = toBigInt blinded in
        if v \<le> 0 \<or> v \<ge> is_modulus k then Inl BadBlinded
        else issuer_bytes (modPow v (is_private_exponent k) (is_modulus k)) (pk_width (is_public_key k)))"

definition issuer_verify :: "(bytes \<Rightarrow> bytes) \<Rightarrow> rsa_issuer \<Rightarrow> bytes \<Rightarrow> bool" where
  "issuer_verify sha k credential =
     (if length credential \<noteq> 32 + pk_width (is_public_key k) then False
      else let token = take 32 credential; sig = toBigInt (drop 32 credential) in
        if sig \<le> 0 \<or> sig \<ge> is_modulus k then False
        else modPow sig (is_public_exponent k) (is_modulus k) = representative sha token (is_modulus k))"

section \<open>Arithmetic facts\<close>

lemma smod_mod: "0 \<le> a \<Longrightarrow> 0 \<le> b \<Longrightarrow> a smod b = a mod (b :: int)"
  by (rule smod_mod_positive)

lemma toBigInt_snoc [simp]: "toBigInt (bs @ [b]) = toBigInt bs * 256 + uint b" "toBigInt [] = 0"
  by (simp_all add: toBigInt_def)

lemma toBigInt_bound: "0 \<le> toBigInt bs \<and> toBigInt bs < 256 ^ length bs"
proof (induction bs rule: rev_induct)
  case (snoc b bs)
  have "0 \<le> uint b" "uint b < 256" using uint_lt2p [of b] by simp_all
  with snoc show ?case by simp
qed simp

lemma modPow_step:
  assumes "1 < m" "0 \<le> r" "r < m" "0 \<le> f" "0 \<le> p"
  shows "mod_pow_loop r f p m = r * f ^ nat p mod m"
  using assms
proof (induction r f p m rule: mod_pow_loop.induct)
  case (1 r f p m)
  show ?case
  proof (cases "p = 0")
    case True
    with 1 show ?thesis by (subst mod_pow_loop.simps) simp
  next
    case False
    with 1 have p: "p > 0" by simp
    let ?r = "if p AND 1 = 1 then (r * f) smod m else r"
    have sq: "(f * f) smod m = f * f mod m" "(r * f) smod m = r * f mod m" using 1 by (simp_all add: smod_mod)
    have "mod_pow_loop r f p m = mod_pow_loop ?r ((f * f) smod m) (drop_bit 1 p) m"
      using p by (subst mod_pow_loop.simps) simp
    also have "\<dots> = ?r * ((f * f) smod m) ^ nat (drop_bit 1 p) mod m"
      using 1 p by (intro "1.IH") (simp_all add: sq drop_bit_eq_div)
    also have "\<dots> = r * f ^ nat p mod m"
    proof -
      have split: "nat p = 2 * nat (p div 2) + (if p mod 2 = 1 then 1 else 0)" 
      proof -
        obtain n where n: "p = int n" using p nonneg_int_cases [of p] by auto
        have halves: "nat (int n div 2) = n div 2" "(int n mod 2 = 1) = (n mod 2 = 1)" by (simp add: nat_div_distrib) presburger
        show ?thesis unfolding n nat_int halves by presburger
      qed
      have r: "?r = (if p mod 2 = 1 then r * f mod m else r)" by (simp only: sq and_one_eq)
      have "?r * ((f * f) smod m) ^ nat (drop_bit 1 p) mod m = ?r * (f * f) ^ nat (p div 2) mod m"
        unfolding sq by (simp only: drop_bit_eq_div power_one_right) (metis mod_mult_right_eq power_mod)
      also have "\<dots> = (if p mod 2 = 1 then r * f else r) * (f * f) ^ nat (p div 2) mod m"
        unfolding r by (simp only: mod_mult_left_eq split: if_split) simp
      also have "(if p mod 2 = 1 then r * f else r) * (f * f) ^ nat (p div 2) = r * f ^ nat p"
        by (subst split) (simp add: power_mult power2_eq_square power_add)
      finally show ?thesis .
    qed
    finally show ?thesis .
  qed
qed

lemma modPow_power: "1 < m \<Longrightarrow> 0 \<le> b \<Longrightarrow> 0 \<le> e \<Longrightarrow> modPow b e m = b ^ nat e mod m"
  by (simp add: modPow_def modPow_step smod_mod power_mod)

lemma extendedGcd_bezout:
  assumes "0 \<le> a" "0 \<le> b" "extendedGcd a b = (g, x, y)"
  shows "g = gcd a b \<and> a * x + b * y = g"
  using assms
proof (induction a b arbitrary: g x y rule: extendedGcd.induct)
  case (1 a b)
  show ?case
  proof (cases "a = 0")
    case True
    with 1 show ?thesis by (simp add: extendedGcd.simps [of 0])
  next
    case False
    obtain g' x' y' where r: "extendedGcd (b smod a) a = (g', x', y')" by (cases "extendedGcd (b smod a) a")
    with False 1 have res: "g = g'" "x = y' - (b sdiv a) * x'" "y = x'" by (auto simp: extendedGcd.simps [of a])
    have nn: "b smod a = b mod a" "b sdiv a = b div a" using 1 False
      by (simp_all add: smod_mod signed_divide_int_def sgn_if)
    have "g' = gcd (b mod a) a \<and> (b mod a) * x' + a * y' = g'"
      using "1.IH" [OF False _ _ r] 1 False by (simp add: nn)
    moreover have "a * y' - a * (b div a) * x' + b * x' = (b mod a) * x' + a * y'"
      by (simp add: minus_div_mult_eq_mod [symmetric] algebra_simps)
    moreover have "gcd (b mod a) a = gcd a b" by (metis gcd.commute gcd_red_int)
    ultimately show ?thesis unfolding res nn by (simp add: algebra_simps)
  qed
qed

lemma normalised: "0 < m \<Longrightarrow> (x smod m + m) smod m = x mod (m :: int)"
proof -
  assume m: "0 < m"
  then have "0 \<le> x smod m + m" using smod_int_range [of m x] by auto
  then have "(x smod m + m) smod m = (x smod m + m) mod m" using m by (simp add: smod_mod)
  also have "\<dots> = (x - x sdiv m * m) mod m" by (simp add: minus_sdiv_mult_eq_smod)
  also have "\<dots> = x mod m" by (simp add: mod_diff_eq [symmetric])
  finally show ?thesis .
qed

lemma mod_inverse_iff:
  assumes "1 < m" "0 \<le> v"
  shows "(\<exists>i. mod_inverse v m = Some i) \<longleftrightarrow> coprime v m"
    and "mod_inverse v m = Some i \<Longrightarrow> v * i mod m = 1 \<and> 0 \<le> i \<and> i < m"
proof -
  obtain g x y where e: "extendedGcd v m = (g, x, y)" by (cases "extendedGcd v m")
  from extendedGcd_bezout [OF _ _ e] assms have g: "g = gcd v m" "v * x + m * y = g" by auto
  show "(\<exists>i. mod_inverse v m = Some i) \<longleftrightarrow> coprime v m" using g by (auto simp: mod_inverse_def e coprime_iff_gcd_eq_1)
  assume "mod_inverse v m = Some i"
  then have i: "g = 1" "i = x mod m" using assms by (auto simp: mod_inverse_def e normalised split: if_splits)
  have "v * i mod m = v * x mod m" by (simp add: i mod_mult_right_eq)
  also have "v * x = 1 - m * y" using g(2) i(1) by simp
  also have "(1 - m * y) mod m = 1 mod m" by (simp add: mod_diff_eq [symmetric])
  also have "\<dots> = 1" using assms by simp
  finally show "v * i mod m = 1 \<and> 0 \<le> i \<and> i < m" using i assms by simp
qed

lemma blind_loop_returns:
  assumes "2 \<le> r" "r < n"
  shows "\<exists>r' i. blind_loop n r = Some (r', i) \<and> 2 \<le> r' \<and> r' < n \<and> mod_inverse r' n = Some i"
  using assms
proof (induction "nat (n - r)" arbitrary: r rule: less_induct)
  case less
  show ?case
  proof (cases "mod_inverse r n")
    case (Some i)
    with less.prems show ?thesis by (subst blind_loop.simps) auto
  next
    case None
    have "r \<noteq> n - 1" using None less.prems mod_inverse_iff(1) [of n r] by auto
    with less.prems have "(r + 1) smod n = r + 1" "2 \<le> r + 1" "r + 1 < n" by (simp_all add: smod_mod)
    with less.hyps [of "r + 1"] less.prems None show ?thesis by (subst blind_loop.simps) auto
  qed
qed

lemma blind_loop_here: "mod_inverse r n = Some i \<Longrightarrow> blind_loop n r = Some (r, i)"
  by (subst blind_loop.simps) simp

section \<open>Facts of the encodings\<close>

definition digits_value :: "int \<Rightarrow> int list \<Rightarrow> int" where
  "digits_value acc ds = foldl (\<lambda>n d. n * 16 + d) acc ds"

lemma digits_value_snoc: "digits_value acc (ds @ [d]) = digits_value acc ds * 16 + d"
  by (simp add: digits_value_def)

lemma hex_digits_value:
  assumes "0 \<le> v"
  shows "digits_value 0 (hex_digits v) = v \<and> (\<forall>d\<in>set (hex_digits v). 0 \<le> d \<and> d < 16)"
  using assms
proof (induction v rule: hex_digits.induct)
  case (1 v)
  show ?case
  proof (cases "v < 16")
    case True
    with 1 show ?thesis by (simp add: hex_digits.simps [of v] digits_value_def)
  next
    case False
    then have step: "hex_digits v = hex_digits (v div 16) @ [v mod 16]" by (subst hex_digits.simps) simp
    have ih: "digits_value 0 (hex_digits (v div 16)) = v div 16 \<and> (\<forall>d\<in>set (hex_digits (v div 16)). 0 \<le> d \<and> d < 16)"
      by (rule "1.IH" [OF False]) (use "1.prems" in simp)
    then have "digits_value 0 (hex_digits v) = v" unfolding step digits_value_snoc by simp
    moreover have "\<forall>d\<in>set (hex_digits v). 0 \<le> d \<and> d < 16" unfolding step using ih by auto
    ultimately show ?thesis by (rule conjI)
  qed
qed

lemma hex_digits_length: "0 \<le> v \<Longrightarrow> v < 16 ^ Suc k \<Longrightarrow> length (hex_digits v) \<le> Suc k"
proof (induction k arbitrary: v)
  case 0
  then show ?case by (simp add: hex_digits.simps [of v])
next
  case (Suc k)
  show ?case
  proof (cases "v < 16")
    case False
    have "v div 16 < 16 ^ Suc k" 
    proof -
      have "16 * (v div 16) \<le> v" by simp
      with Suc.prems(2) show ?thesis unfolding power_Suc [of _ "Suc k"] by linarith
    qed
    with Suc False show ?thesis by (subst hex_digits.simps) simp
  qed (simp add: hex_digits.simps [of v])
qed

lemma byte_pairs_value:
  assumes "even (length ds)" "\<forall>d\<in>set ds. 0 \<le> d \<and> d < 16"
  shows "foldl (\<lambda>n b. n * 256 + uint b) acc (byte_pairs ds) = digits_value acc ds \<and> length (byte_pairs ds) = length ds div 2"
  using assms
proof (induction ds arbitrary: acc rule: byte_pairs.induct)
  case (1 a b r)
  then have "0 \<le> a * 16 + b" "a * 16 + b < 256" by simp_all
  then have "uint (word_of_int (a * 16 + b) :: byte) = a * 16 + b" by (simp only: uint_word_of_int) simp
  with 1 show ?case by (simp add: digits_value_def algebra_simps)
qed (simp_all add: digits_value_def)

lemma padded:
  assumes "0 \<le> v" "v < 256 ^ w" "0 < w"
  shows "length (padded_digits v w) = w * 2" "toBigInt (byte_pairs (padded_digits v w)) = v" "length (byte_pairs (padded_digits v w)) = w"
proof -
  obtain k where k: "w * 2 = Suc k" using assms(3) by (cases "w * 2") auto
  have "(16 :: int) ^ (2 * w) = (16 ^ 2) ^ w" by (rule power_mult)
  then have "(256 :: int) ^ w = 16 ^ (w * 2)" by (simp add: mult.commute)
  with assms k have "length (hex_digits v) \<le> w * 2" using hex_digits_length [of v k] by simp
  then show len: "length (padded_digits v w) = w * 2" by (simp add: padded_digits_def Let_def)
  have zeros: "digits_value 0 (replicate k 0 @ ds) = digits_value 0 ds" for k ds
    by (induction k) (simp_all add: digits_value_def)
  have "\<forall>d\<in>set (padded_digits v w). 0 \<le> d \<and> d < 16" "digits_value 0 (padded_digits v w) = v"
    using hex_digits_value [OF assms(1)] by (auto simp: padded_digits_def Let_def zeros)
  with byte_pairs_value [of "padded_digits v w" 0] len
  show "toBigInt (byte_pairs (padded_digits v w)) = v" "length (byte_pairs (padded_digits v w)) = w"
    by (simp_all add: toBigInt_def)
qed

lemma toBytes_ok:
  assumes "0 \<le> v" "v < 256 ^ w" "0 < w"
  shows "length (toBytes v w) = w" "toBigInt (toBytes v w) = v" "issuer_bytes v w = Inr (toBytes v w)"
  using padded [OF assms] by (simp_all add: toBytes_def issuer_bytes_def)

text \<open>Base64url text as a key carries it: of the alphabet, unpadded, of a length that encodes whole bytes.\<close>

definition url_text :: "string \<Rightarrow> bool" where
  "url_text s \<longleftrightarrow> length s mod 4 \<noteq> 1 \<and> list_all (\<lambda>c. b64_value (url_to_std c) \<noteq> None) s"

lemma sextet_char: "b64_value c = Some v \<Longrightarrow> of_char c \<notin> {9, 10, 12, 13, 32 :: nat} \<and> c \<noteq> CHR ''=''"
  by (auto simp: b64_value_def Let_def split: if_splits)

lemma strip_none: "CHR ''='' \<notin> set b \<Longrightarrow> strip_eq b = b"
  by (cases b rule: rev_cases) (auto simp: strip_eq_def)

lemma strip_pads: "CHR ''='' \<notin> set b \<Longrightarrow> k \<le> 2 \<Longrightarrow> strip_eq (strip_eq (b @ replicate k (CHR ''=''))) = b"
proof -
  assume b: "CHR ''='' \<notin> set b" and "k \<le> 2"
  have one: "strip_eq (c @ [CHR ''='']) = c" for c by (simp add: strip_eq_def)
  have two: "b @ replicate 2 (CHR ''='') = (b @ [CHR ''='']) @ [CHR ''='']" by (simp add: numeral_2_eq_2)
  from \<open>k \<le> 2\<close> consider "k = 0" | "k = 1" | "k = 2" by linarith
  then show ?thesis
  proof cases
    case 1
    then show ?thesis by (simp add: strip_none b)
  next
    case 2
    then show ?thesis by (simp add: strip_none b one)
  next
    case 3
    show ?thesis unfolding 3 two one ..
  qed
qed

lemma url_decodes:
  assumes "url_text s"
  shows "fromBase64Url s = Some (decodeBase64Url s)"
proof -
  let ?b = "map url_to_std s" and ?k = "(length s + 3) div 4 * 4 - length s"
  have val: "\<exists>v. b64_value c = Some v" if "c \<in> set ?b" for c using assms that by (auto simp: url_text_def list_all_iff)
  then have plain: "of_char c \<notin> {9, 10, 12, 13, 32 :: nat} \<and> c \<noteq> CHR ''=''" if "c \<in> set ?b" for c
    using that sextet_char [of c] by blast
  have "length s mod 4 \<noteq> 1" using assms by (simp add: url_text_def)
  then have "?k \<le> 2" "(length s + ?k) mod 4 = 0" by presburger+
  moreover have "filter (\<lambda>c. of_char c \<notin> {9, 10, 12, 13, 32 :: nat}) (?b @ replicate ?k (CHR ''='')) = ?b @ replicate ?k (CHR ''='')"
    using plain by (intro filter_True) auto
  moreover have "CHR ''='' \<notin> set ?b" using plain by blast
  ultimately have "atob (?b @ replicate ?k (CHR ''='')) = Some (sextet_bytes (map (\<lambda>c. the (b64_value c)) ?b))"
    using assms val strip_pads [of ?b ?k]
    by (auto simp: atob_def Let_def list_ex_iff url_text_def)
  moreover have "filter (\<lambda>v. v \<noteq> None) (map (\<lambda>c. b64_value (url_to_std c)) s) = map (\<lambda>c. b64_value (url_to_std c)) s"
    using val by (intro filter_True) force
  ultimately show ?thesis by (simp add: fromBase64Url_def decodeBase64Url_def Let_def comp_def)
qed

section \<open>Blind signatures\<close>

text \<open>What RSA key generation promises of a modulus and its two exponents: signing and then raising to the public exponent
  is the identity on the residues.\<close>

definition key_pair :: "int \<Rightarrow> int \<Rightarrow> int \<Rightarrow> bool" where
  "key_pair n e d \<longleftrightarrow> 3 \<le> n \<and> 0 \<le> e \<and> 0 \<le> d \<and> (\<forall>x\<in>{0..<n}. x ^ (nat e * nat d) mod n = x)"

lemma key_pairD:
  assumes "key_pair n e d"
  shows "3 \<le> n" "0 \<le> e" "0 \<le> d" "0 < nat e" "0 < nat d" "x ^ (nat e * nat d) mod n = x mod n"
proof -
  show n: "3 \<le> n" and "0 \<le> e" "0 \<le> d" using assms by (simp_all add: key_pair_def)
  have "(0 :: int) ^ (nat e * nat d) mod n = 0" using assms by (simp add: key_pair_def)
  moreover have "(1 :: int) mod n = 1" using n by simp
  ultimately have "nat e * nat d \<noteq> 0" by (metis power_0 zero_neq_one)
  then show "0 < nat e" "0 < nat d" by simp_all
  have "x mod n \<in> {0..<n}" using n by simp
  with assms have "(x mod n) ^ (nat e * nat d) mod n = x mod n" by (simp only: key_pair_def)
  then show "x ^ (nat e * nat d) mod n = x mod n" by (simp only: power_mod)
qed

lemma blind_signature:
  assumes "key_pair n e d" and ri: "r * i mod n = 1" and m: "0 < m" "m < n"
    and b: "b = m * (r ^ nat e mod n) mod n" and s: "s = (b ^ nat d mod n) * i mod n"
  shows "0 < b \<and> b < n \<and> 0 < s \<and> s < n \<and> s ^ nat e mod n = m"
proof -
  note k = key_pairD [OF assms(1)]
  have "b ^ nat d mod n = (m * r ^ nat e) ^ nat d mod n" by (simp only: b power_mod mod_mult_right_eq)
  also have "\<dots> = m ^ nat d * r ^ (nat e * nat d) mod n" by (simp only: power_mult_distrib power_mult)
  also have "\<dots> = m ^ nat d * r mod n" by (metis k(6) mod_mult_right_eq)
  finally have "s = m ^ nat d * r * i mod n" by (simp only: s mod_mult_left_eq)
  also have "\<dots> = m ^ nat d * (r * i mod n) mod n" by (simp only: mult.assoc mod_mult_right_eq)
  finally have sd: "s = m ^ nat d mod n" by (simp only: ri mult_1_right)
  have "s ^ nat e mod n = m ^ (nat d * nat e) mod n" by (simp only: sd power_mod power_mult)
  also have "\<dots> = m" using k(6) [of m] m by (simp add: mult.commute)
  finally have se: "s ^ nat e mod n = m" .
  then have "s \<noteq> 0" using m k(4) by (auto simp: zero_power)
  moreover from this have "b \<noteq> 0" using s k(5) by (auto simp: zero_power)
  moreover have "0 \<le> b" "b < n" "0 \<le> s" "s < n" using k(1) by (simp_all add: b sd)
  ultimately show ?thesis using se by simp
qed

lemma representative_range: "0 < n \<Longrightarrow> 0 \<le> representative sha t n \<and> representative sha t n < n"
  using toBigInt_bound by (simp add: representative_def smod_mod)

text \<open>The issuer of a key, and its public key in the hands of a client.\<close>

definition serves :: "rsa_jwk \<Rightarrow> rsa_issuer \<Rightarrow> bool" where
  "serves jwk k \<longleftrightarrow> new_issuer jwk = Inr k \<and> url_text (jwk_n jwk) \<and> url_text (jwk_e jwk)
     \<and> key_pair (is_modulus k) (is_public_exponent k) (is_private_exponent k)"

lemma servesD:
  assumes "serves jwk k"
  obtains nb eb where "fromBase64Url (pk_n (is_public_key k)) = Some nb" "fromBase64Url (pk_e (is_public_key k)) = Some eb"
    "is_modulus k = toBigInt nb" "is_public_exponent k = toBigInt eb" "pk_width (is_public_key k) = length nb"
    "key_pair (is_modulus k) (is_public_exponent k) (is_private_exponent k)" "0 < length nb" "is_modulus k < 256 ^ length nb"
proof -
  let ?nb = "decodeBase64Url (jwk_n jwk)" and ?eb = "decodeBase64Url (jwk_e jwk)"
  from assms have k: "is_modulus k = toBigInt ?nb" "is_public_exponent k = toBigInt ?eb" "pk_width (is_public_key k) = length ?nb"
    "fromBase64Url (pk_n (is_public_key k)) = Some ?nb" "fromBase64Url (pk_e (is_public_key k)) = Some ?eb"
    "key_pair (is_modulus k) (is_public_exponent k) (is_private_exponent k)"
    by (auto simp: serves_def new_issuer_def Let_def url_decodes split: if_splits)
  have "?nb \<noteq> []"
  proof
    assume "?nb = []"
    with k(1) have "is_modulus k = 0" by simp
    with key_pairD(1) [OF k(6)] show False by simp
  qed
  with that [OF k(4,5,1,2,3,6)] toBigInt_bound [of ?nb] k(1) show ?thesis by simp
qed

lemma blinds:
  assumes "serves jwk k" and "length token = 32" and "blind_loop (is_modulus k) (toBigInt factor smod (is_modulus k - 2) + 2) = Some (r, i)"
  shows "blindCredential sha (is_public_key k) token factor = Some (Inr
    (toBytes ((representative sha token (is_modulus k) * modPow r (is_public_exponent k) (is_modulus k)) smod is_modulus k) (pk_width (is_public_key k)),
     \<lparr>bs_token = token, bs_inverse = toBytes i (pk_width (is_public_key k)), bs_public_key = is_public_key k\<rparr>))"
proof -
  obtain nb eb where k: "fromBase64Url (pk_n (is_public_key k)) = Some nb" "fromBase64Url (pk_e (is_public_key k)) = Some eb"
    "is_modulus k = toBigInt nb" "is_public_exponent k = toBigInt eb"
    "key_pair (is_modulus k) (is_public_exponent k) (is_private_exponent k)"
    using servesD [OF assms(1)] by metis
  from key_pairD(1) [OF k(5)] have "toBigInt nb \<noteq> 0" "toBigInt nb \<noteq> 2" unfolding k(3) by simp_all
  with assms(2,3) k show ?thesis by (simp add: blindCredential_def Let_def)
qed

lemma factor_starts: "3 \<le> n \<Longrightarrow> 2 \<le> toBigInt f smod (n - 2) + 2 \<and> toBigInt f smod (n - 2) + 2 < n"
proof -
  assume n: "3 \<le> n"
  then have "toBigInt f smod (n - 2) = toBigInt f mod (n - 2)" using toBigInt_bound [of f] by (simp add: smod_mod)
  moreover have "0 \<le> toBigInt f mod (n - 2)" "toBigInt f mod (n - 2) < n - 2"
    by (rule pos_mod_sign, use n in simp, rule pos_mod_bound, use n in simp)
  ultimately show ?thesis by linarith
qed

text \<open>C20: A credential that is issued blind is accepted: for every key pair, token and blinding factor the client's search
  for an invertible factor ends, the issuer signs what the client sends, and the token with the unblinded signature,
  which the issuer never saw, verifies at the node. The token's hash must not be 0 modulo the key.\<close>

theorem blind_credentials_are_accepted:
  assumes "serves jwk k" and "length token = 32" and "representative sha token (is_modulus k) \<noteq> 0"
  shows "\<exists>b st sig credential. blindCredential sha (is_public_key k) token factor = Some (Inr (b, st))
    \<and> issuer_issue k b = Inr sig \<and> unblindCredential st sig = Inr credential
    \<and> take 32 credential = token \<and> issuer_verify sha k credential"
proof -
  let ?n = "is_modulus k" and ?e = "is_public_exponent k" and ?d = "is_private_exponent k" and ?w = "pk_width (is_public_key k)"
  let ?m = "representative sha token ?n"
  obtain nb where k: "fromBase64Url (pk_n (is_public_key k)) = Some nb" "?n = toBigInt nb" "key_pair ?n ?e ?d" "0 < ?w" "?n < 256 ^ ?w"
    using servesD [OF assms(1)] by metis
  note kp = key_pairD [OF k(3)]
  obtain r i where loop: "blind_loop ?n (toBigInt factor smod (?n - 2) + 2) = Some (r, i)" and r: "2 \<le> r" "r < ?n" and inv: "mod_inverse r ?n = Some i"
    using blind_loop_returns factor_starts [OF kp(1), of factor] by metis
  have i: "r * i mod ?n = 1" "0 \<le> i" "i < ?n" using mod_inverse_iff(2) [OF _ _ inv] kp(1) r by auto
  have m: "0 < ?m" "?m < ?n" using representative_range [of ?n sha token] kp(1) assms(3) by auto
  let ?b = "(?m * modPow r ?e ?n) smod ?n"
  have b: "?b = ?m * (r ^ nat ?e mod ?n) mod ?n" using m kp r by (simp add: modPow_power smod_mod)
  let ?sig = "modPow ?b ?d ?n"
  let ?s = "(?b ^ nat ?d mod ?n) * i mod ?n"
  have bs: "0 < ?b \<and> ?b < ?n \<and> 0 < ?s \<and> ?s < ?n \<and> ?s ^ nat ?e mod ?n = ?m"
    by (rule blind_signature [OF k(3) i(1) m b refl])
  have sig: "?sig = ?b ^ nat ?d mod ?n" "0 \<le> ?sig" "?sig < ?n" using bs kp by (simp_all add: modPow_power)
  have bb: "length (toBytes ?b ?w) = ?w" "toBigInt (toBytes ?b ?w) = ?b" using toBytes_ok [of ?b ?w] bs k by auto
  have ss: "issuer_bytes ?sig ?w = Inr (toBytes ?sig ?w)" "toBigInt (toBytes ?sig ?w) = ?sig"
    using toBytes_ok [of ?sig ?w] sig k by auto
  have ii: "toBigInt (toBytes i ?w) = i" using toBytes_ok [of i ?w] i k by auto
  have fs: "length (toBytes ?s ?w) = ?w" "toBigInt (toBytes ?s ?w) = ?s" using toBytes_ok [of ?s ?w] bs k by auto
  let ?st = "\<lparr>bs_token = token, bs_inverse = toBytes i ?w, bs_public_key = is_public_key k\<rparr>"
  have "blindCredential sha (is_public_key k) token factor = Some (Inr (toBytes ?b ?w, ?st))"
    by (rule blinds [OF assms(1,2) loop])
  moreover have "issuer_issue k (toBytes ?b ?w) = Inr (toBytes ?sig ?w)"
    using bs by (simp add: issuer_issue_def Let_def bb ss)
  moreover have "unblindCredential ?st (toBytes ?sig ?w) = Inr (token @ toBytes ?s ?w)"
  proof -
    have "(?sig * i) smod ?n = ?s" using sig i kp by (simp add: smod_mod)
    with k(1) kp(1) show ?thesis by (simp add: unblindCredential_def Let_def ss ii k(2) [symmetric] concat_bytes_def)
  qed
  moreover have "issuer_verify sha k (token @ toBytes ?s ?w)"
    using bs kp assms(2) by (simp add: issuer_verify_def Let_def fs modPow_power not_le)
  ultimately show ?thesis using assms(2) by (intro exI [of _ "toBytes ?b ?w"] exI [of _ ?st] exI [of _ "toBytes ?sig ?w"]
      exI [of _ "token @ toBytes ?s ?w"]) simp
qed

lemma unblinding_factor:
  assumes "key_pair n e d" and "coprime b n" "0 < b" "b < n" and "coprime m n" "0 \<le> m" "m < n" and "b \<noteq> m"
  obtains r i where "2 \<le> r" "r < n" "mod_inverse r n = Some i" "m * (r ^ nat e mod n) mod n = b"
proof -
  note k = key_pairD [OF assms(1)]
  obtain j where "mod_inverse m n = Some j" using mod_inverse_iff(1) [of n m] k(1) assms(5,6) by auto
  with mod_inverse_iff(2) [of n m j] k(1) assms(6) have j: "m * j mod n = 1" by simp
  have cj: "coprime j n"
  proof (rule coprimeI)
    fix c assume c: "c dvd j" "c dvd n"
    then have "c dvd (m * j) mod n" by (simp add: dvd_mod)
    then show "is_unit c" by (simp only: j)
  qed
  let ?r = "(b * j) ^ nat d mod n"
  have cop: "coprime ?r n" using assms(2) cj k(1) by (subst coprime_mod_left_iff) simp_all
  have "?r ^ nat e mod n = (b * j) ^ (nat e * nat d) mod n" by (simp only: power_mod power_mult [symmetric] mult.commute)
  also have "\<dots> = b * j mod n" by (rule k(6))
  finally have "m * (?r ^ nat e mod n) mod n = m * (b * j mod n) mod n" by (simp only:)
  also have "\<dots> = b * (m * j) mod n" by (simp only: mod_mult_right_eq ac_simps)
  also have "\<dots> = b" using assms(3,4) by (metis j mod_mult_right_eq mod_pos_pos_trivial mult_1_right order_less_imp_le)
  finally have rb: "m * (?r ^ nat e mod n) mod n = b" .
  have "?r \<noteq> 0"
  proof
    assume "?r = 0"
    with cop k(1) show False by simp
  qed
  moreover have "?r \<noteq> 1"
  proof
    assume "?r = 1"
    then have "m * (1 ^ nat e mod n) mod n = b" using rb by (simp only:)
    with assms(6,7,8) k(1) show False by simp
  qed
  moreover have "0 \<le> ?r" "?r < n" using k(1) by simp_all
  ultimately have r: "2 \<le> ?r" "?r < n" by linarith+
  obtain i where "mod_inverse ?r n = Some i" using mod_inverse_iff(1) [of n ?r] k(1) r cop by auto
  with that [OF r _ rb] show ?thesis by blast
qed

text \<open>C21: The issuer learns nothing from what it signs: whatever value a client sent, and whoever the issuer suspects of it,
  every other token could have been behind it - there is a blinding factor under which the client would have sent exactly
  the same bytes. The tokens are those whose hash is invertible modulo the key, and the one token whose hash is the value
  itself is left out, because the code never chooses the factor 1.\<close>

theorem blinding_hides_the_token:
  assumes "serves jwk k" and "length token = 32" "length other = 32"
    and "coprime (representative sha token (is_modulus k)) (is_modulus k)"
    and "coprime (representative sha other (is_modulus k)) (is_modulus k)"
    and "blindCredential sha (is_public_key k) token factor = Some (Inr (b, st))"
    and "toBigInt b \<noteq> representative sha other (is_modulus k)"
  shows "\<exists>factor' st'. length factor' = pk_width (is_public_key k)
    \<and> blindCredential sha (is_public_key k) other factor' = Some (Inr (b, st'))"
proof -
  let ?n = "is_modulus k" and ?e = "is_public_exponent k" and ?w = "pk_width (is_public_key k)"
  let ?m = "representative sha token ?n" and ?m' = "representative sha other ?n"
  obtain nb where k: "key_pair ?n ?e (is_private_exponent k)" "0 < ?w" "?n < 256 ^ ?w"
    using servesD [OF assms(1)] by metis
  note kp = key_pairD [OF k(1)]
  obtain r i where loop: "blind_loop ?n (toBigInt factor smod (?n - 2) + 2) = Some (r, i)" and r: "2 \<le> r" "r < ?n" and inv: "mod_inverse r ?n = Some i"
    using blind_loop_returns factor_starts [OF kp(1), of factor] by metis
  have m: "0 \<le> ?m" "?m < ?n" "0 \<le> ?m'" "?m' < ?n" using representative_range [of ?n sha] kp(1) by auto
  have sent: "(x * modPow y ?e ?n) smod ?n = x * (y ^ nat ?e mod ?n) mod ?n" if "0 \<le> x" "0 \<le> y" for x y
    using that kp by (simp add: modPow_power smod_mod)
  let ?b = "?m * (r ^ nat ?e mod ?n) mod ?n"
  have b: "b = toBytes ?b ?w" using assms(6) blinds [OF assms(1,2) loop, of sha] r m by (simp add: sent)
  have "coprime r ?n" using mod_inverse_iff(1) [of ?n r] kp(1) r inv by auto
  then have cb: "coprime ?b ?n" using assms(4) kp(1) by (simp add: coprime_mod_left_iff)
  moreover have "?b \<noteq> 0"
  proof
    assume "?b = 0"
    with cb kp(1) show False by simp
  qed
  moreover have "0 \<le> ?b" "?b < ?n" using kp(1) by simp_all
  ultimately have bn: "0 < ?b" "?b < ?n" by linarith+
  have "toBigInt b = ?b" using toBytes_ok [of ?b ?w] bn k b by auto
  with assms(7) have "?b \<noteq> ?m'" by simp
  with unblinding_factor [OF k(1) cb bn assms(5) m(3,4)] obtain r' i' where
    r': "2 \<le> r'" "r' < ?n" "mod_inverse r' ?n = Some i'" "?m' * (r' ^ nat ?e mod ?n) mod ?n = ?b" by metis
  let ?f = "toBytes (r' - 2) ?w"
  have f: "length ?f = ?w" "toBigInt ?f = r' - 2" using toBytes_ok [of "r' - 2" ?w] r' k by auto
  then have "toBigInt ?f smod (?n - 2) + 2 = r'" using r' by (simp add: smod_mod)
  with blind_loop_here [OF r'(3)] have "blind_loop ?n (toBigInt ?f smod (?n - 2) + 2) = Some (r', i')" by simp
  from blinds [OF assms(1,3) this, of sha] r' m
  have "blindCredential sha (is_public_key k) other ?f = Some (Inr (b,
      \<lparr>bs_token = other, bs_inverse = toBytes i' ?w, bs_public_key = is_public_key k\<rparr>))" by (simp add: sent b)
  with f(1) show ?thesis by blast
qed

section \<open>An example\<close>

text \<open>The key with modulus 33 and exponents 3 and 7.\<close>

definition toy_jwk :: rsa_jwk where
  "toy_jwk = \<lparr>jwk_kty = ''RSA'', jwk_n = ''IQ'', jwk_e = ''Aw'', jwk_d = ''Bw''\<rparr>"

definition toy_issuer :: rsa_issuer where
  "toy_issuer = \<lparr>is_modulus = 33, is_public_exponent = 3, is_private_exponent = 7,
     is_public_key = \<lparr>pk_n = ''IQ'', pk_e = ''Aw'', pk_width = 1\<rparr>\<rparr>"

lemma toy_pair: "key_pair 33 3 7"
proof -
  have "list_all (\<lambda>x. x ^ 21 mod 33 = (x :: int)) [0..32]" by code_simp
  moreover have "x \<in> set [0..32]" if "x \<in> {0..<33}" for x :: int using that by simp
  ultimately show ?thesis by (auto simp: key_pair_def list_all_iff)
qed

lemma toy_serves: "serves toy_jwk toy_issuer"
  using toy_pair by (simp add: serves_def new_issuer_def toy_jwk_def toy_issuer_def decodeBase64Url_def b64_value_def
      url_to_std_def toBigInt_def url_text_def Let_def)

lemma toy_blinded:
  "blindCredential (\<lambda>_. [2]) (is_public_key toy_issuer) (replicate 32 0) [5] = Some (Inr (toBytes 26 1,
     \<lparr>bs_token = replicate 32 0, bs_inverse = toBytes 19 1, bs_public_key = is_public_key toy_issuer\<rparr>))"
proof -
  have "extendedGcd 0 1 = (1, 0, 1)" by (subst extendedGcd.simps) simp
  then have "extendedGcd 1 2 = (1, 1, 0)" by (subst extendedGcd.simps) (simp add: smod_int_alt_def)
  then have "extendedGcd 2 5 = (1, -2, 1)" by (subst extendedGcd.simps) simp
  then have "extendedGcd 5 7 = (1, 3, -2)" by (subst extendedGcd.simps) simp
  then have "extendedGcd 7 33 = (1, -14, 3)" by (subst extendedGcd.simps) simp
  then have "mod_inverse 7 33 = Some 19" by (simp add: mod_inverse_def)
  then have "blind_loop 33 7 = Some (7, 19)" by (rule blind_loop_here)
  then have "blind_loop (is_modulus toy_issuer) (toBigInt [5] smod (is_modulus toy_issuer - 2) + 2) = Some (7, 19)"
    by (simp add: toy_issuer_def toBigInt_def)
  from blinds [OF toy_serves _ this, of "replicate 32 0" "\<lambda>_. [2]"] show ?thesis
    by (simp add: toy_issuer_def representative_def toBigInt_def modPow_power)
qed

theorem blind_credentials_are_accepted_witness:
  "\<exists>b st sig credential. blindCredential (\<lambda>_. [2]) (is_public_key toy_issuer) (replicate 32 0) [5] = Some (Inr (b, st))
    \<and> issuer_issue toy_issuer b = Inr sig \<and> unblindCredential st sig = Inr credential
    \<and> take 32 credential = replicate 32 0 \<and> issuer_verify (\<lambda>_. [2]) toy_issuer credential"
proof (rule blind_credentials_are_accepted [OF toy_serves])
  show "representative (\<lambda>_. [2]) (replicate 32 0) (is_modulus toy_issuer) \<noteq> 0"
    by (simp add: representative_def toy_issuer_def toBigInt_def)
qed simp

theorem blinding_hides_the_token_witness:
  "\<exists>factor' st'. length factor' = 1 \<and> blindCredential (\<lambda>_. [2]) (is_public_key toy_issuer) (replicate 32 1) factor' = Some (Inr (toBytes 26 1, st'))"
proof -
  have rep: "representative (\<lambda>_. [2]) t (is_modulus toy_issuer) = 2" for t
    by (simp add: representative_def toy_issuer_def toBigInt_def)
  have "coprime 2 (33 :: int)"
  proof (rule coprimeI)
    fix c :: int assume "c dvd 2" "c dvd 33"
    then have "c dvd 33 - 16 * 2" by (intro dvd_diff dvd_mult)
    then show "is_unit c" by simp
  qed
  then have cop: "coprime (representative (\<lambda>_. [2]) t (is_modulus toy_issuer)) (is_modulus toy_issuer)" for t
    unfolding rep by (simp add: toy_issuer_def)
  have "toBigInt (toBytes 26 1) \<noteq> representative (\<lambda>_. [2]) (replicate 32 1) (is_modulus toy_issuer)"
    using toBytes_ok(2) [of 26 1] unfolding rep by simp
  from blinding_hides_the_token [OF toy_serves _ _ cop cop toy_blinded this] show ?thesis by (simp add: toy_issuer_def)
qed

end
