(* ===== verification/JB_Tunnel.thy ===== *)
theory JB_Tunnel
  imports JB_Credentials
begin

text \<open>
  The reverse tunnel (\<open>backend/src/core/app/reverse-tunnel.ts\<close>): an exit node queues a client's request for a node that
  cannot be reached, and the node fetches it by a held-open poll and answers. A promise is a number or the id of a job,
  its resolution an output of the step that resolves it, a timer that fires an event. Every request is answered once;
  a request that timed out still runs.
\<close>

section \<open>Requests and endpoints\<close>

record tunnel_request =
  tq_method :: string
  tq_path :: string
  tq_headers :: "(string, string) jsmap"
  tq_body :: "string option"

record tunnel_job = tunnel_request +
  tj_id :: string
  tj_queued_at_ms :: int

record tunnel_response =
  tr_id :: string
  tr_status :: nat
  tr_headers :: "(string, string) jsmap"
  tr_body :: "string option"

text \<open>An endpoint: what \<open>poller\<close> and \<open>pollTimer\<close> hold is the number of the poll they belong to.\<close>

record tunnel_endpoint =
  ep_connected_at_ms :: int
  ep_last_poll_at_ms :: int
  ep_served :: nat
  ep_queue :: "tunnel_job list"
  ep_waiters :: "(string, tunnel_job) jsmap"
  ep_poller :: "nat option"
  ep_poll_timer :: "nat option"

record tunnel_state =
  tn_endpoints :: "(string, tunnel_endpoint) jsmap"
  tn_sequence :: nat

record tunnel_session =
  ts_server_id :: string
  ts_connected_at_ms :: int
  ts_last_poll_at_ms :: int
  ts_pending :: nat
  ts_served :: nat

definition no_tunnels :: tunnel_state where "no_tunnels = \<lparr>tn_endpoints = [], tn_sequence = 0\<rparr>"

definition DEFAULT_MAX_QUEUED :: nat where "DEFAULT_MAX_QUEUED = 64"

definition b64_char :: "nat \<Rightarrow> char" where
  "b64_char v = char_of (if v < 26 then v + 65 else if v < 52 then v + 71 else if v < 62 then v - 4 else if v = 62 then 43 else 47)"

fun encode_base64 :: "nat list \<Rightarrow> string" where
  "encode_base64 (a # b # c # r) =
     b64_char (a div 4) # b64_char (a mod 4 * 16 + b div 16) # b64_char (b mod 16 * 4 + c div 64) # b64_char (c mod 64) # encode_base64 r"
| "encode_base64 [a, b] = [b64_char (a div 4), b64_char (a mod 4 * 16 + b div 16), b64_char (b mod 16 * 4), CHR ''='']"
| "encode_base64 [a] = [b64_char (a div 4), b64_char (a mod 4 * 16), CHR ''='', CHR ''='']"
| "encode_base64 [] = []"

definition encodeBody :: "string \<Rightarrow> string" where
  "encodeBody t = encode_base64 (map of_char t)"

definition tunnel_error :: "string \<Rightarrow> nat \<Rightarrow> string \<Rightarrow> tunnel_response" where
  "tunnel_error i status msg =
     \<lparr>tr_id = i, tr_status = status, tr_headers = [(''content-type'', ''application/json'')],
      tr_body = Some (encodeBody ([CHR ''{'', CHR 0x22] @ ''error'' @ [CHR 0x22, CHR '':'', CHR 0x22] @ msg @ [CHR 0x22, CHR ''}'']))\<rparr>"

definition job_id :: "int \<Rightarrow> nat \<Rightarrow> string" where
  "job_id now seq = js_string_of_int now @ ''-'' @ js_string_of_int (int seq)"

section \<open>The exchange\<close>

text \<open>What a step makes happen: a promise for a job, an answer to a caller, an end of a held-open poll, a Boolean.\<close>

datatype tunnel_output =
    Pending string
  | Refused tunnel_response
  | Answer string tunnel_response
  | Polled nat "tunnel_job option"
  | Responded bool

type_synonym tunnel_result = "tunnel_output list \<times> tunnel_state"

definition put_endpoint :: "string \<Rightarrow> tunnel_endpoint \<Rightarrow> tunnel_state \<Rightarrow> tunnel_state" where
  "put_endpoint server ep st = st\<lparr>tn_endpoints := al_set server ep (tn_endpoints st)\<rparr>"

definition tunnel_exchange :: "nat option \<Rightarrow> int \<Rightarrow> string \<Rightarrow> tunnel_request \<Rightarrow> tunnel_state \<Rightarrow> tunnel_result" where
  "tunnel_exchange max_queued now server request st =
     (case map_of (tn_endpoints st) server of
        None \<Rightarrow> ([Refused (tunnel_error [] 502 ''no tunnel is registered for this node'')], st)
      | Some ep \<Rightarrow>
          if length (ep_waiters ep) + length (ep_queue ep) \<ge> (case max_queued of None \<Rightarrow> DEFAULT_MAX_QUEUED | Some n \<Rightarrow> n)
          then ([Refused (tunnel_error [] 503 ''tunnel queue is full'')], st)
          else
            let st1 = st\<lparr>tn_sequence := tn_sequence st + 1\<rparr>;
                job = tunnel_request.extend request \<lparr>tj_id = job_id now (tn_sequence st1), tj_queued_at_ms = now\<rparr>;
                ep1 = ep\<lparr>ep_waiters := al_set (tj_id job) job (ep_waiters ep)\<rparr>
            in (case ep_poller ep1 of
                Some p \<Rightarrow> ([Pending (tj_id job), Polled p (Some job)],
                           put_endpoint server (ep1\<lparr>ep_poller := None, ep_poll_timer := None\<rparr>) st1)
              | None \<Rightarrow> ([Pending (tj_id job)], put_endpoint server (ep1\<lparr>ep_queue := ep_queue ep1 @ [job]\<rparr>) st1)))"

text \<open>The timer of a request; it is cleared when its waiter is removed.\<close>

definition request_timeout :: "string \<Rightarrow> string \<Rightarrow> tunnel_state \<Rightarrow> tunnel_result" where
  "request_timeout server i st =
     (case map_of (tn_endpoints st) server of
        None \<Rightarrow> ([], st)
      | Some ep \<Rightarrow>
          if map_of (ep_waiters ep) i = None then ([], st)
          else ([Answer i (tunnel_error i 504 ''the tunnelled node did not answer'')],
                put_endpoint server (ep\<lparr>ep_waiters := al_del i (ep_waiters ep)\<rparr>) st))"

definition tunnel_register :: "int \<Rightarrow> tunnel_endpoint" where
  "tunnel_register now = \<lparr>ep_connected_at_ms = now, ep_last_poll_at_ms = now, ep_served = 0, ep_queue = [], ep_waiters = [],
     ep_poller = None, ep_poll_timer = None\<rparr>"

definition tunnel_poll :: "int \<Rightarrow> string \<Rightarrow> nat \<Rightarrow> tunnel_state \<Rightarrow> tunnel_result" where
  "tunnel_poll now server p st =
     (let ep0 = (case map_of (tn_endpoints st) server of None \<Rightarrow> tunnel_register now | Some ep \<Rightarrow> ep);
          ep = ep0\<lparr>ep_last_poll_at_ms := now\<rparr>
      in (case ep_queue ep of
            job # rest \<Rightarrow> ([Polled p (Some job)], put_endpoint server (ep\<lparr>ep_queue := rest\<rparr>) st)
          | [] \<Rightarrow> ((case ep_poller ep of None \<Rightarrow> [] | Some q \<Rightarrow> [Polled q None]),
                   put_endpoint server (ep\<lparr>ep_poller := Some p, ep_poll_timer := Some p\<rparr>) st)))"

definition poll_timeout :: "string \<Rightarrow> nat \<Rightarrow> tunnel_state \<Rightarrow> tunnel_result" where
  "poll_timeout server p st =
     (case map_of (tn_endpoints st) server of
        None \<Rightarrow> ([], st)
      | Some ep \<Rightarrow>
          if ep_poll_timer ep \<noteq> Some p then ([], st)
          else ([Polled p None],
                put_endpoint server (ep\<lparr>ep_poller := (if ep_poller ep = Some p then None else ep_poller ep), ep_poll_timer := None\<rparr>) st))"

definition tunnel_respond :: "string \<Rightarrow> tunnel_response \<Rightarrow> tunnel_state \<Rightarrow> tunnel_result" where
  "tunnel_respond server response st =
     (case map_of (tn_endpoints st) server of
        None \<Rightarrow> ([Responded False], st)
      | Some ep \<Rightarrow>
          if map_of (ep_waiters ep) (tr_id response) = None then ([Responded False], st)
          else ([Answer (tr_id response) response, Responded True],
                put_endpoint server (ep\<lparr>ep_waiters := al_del (tr_id response) (ep_waiters ep), ep_served := ep_served ep + 1\<rparr>) st))"

definition tunnel_close :: "string \<Rightarrow> tunnel_state \<Rightarrow> tunnel_result" where
  "tunnel_close server st =
     (case map_of (tn_endpoints st) server of
        None \<Rightarrow> ([], st)
      | Some ep \<Rightarrow>
          ((case ep_poller ep of None \<Rightarrow> [] | Some p \<Rightarrow> [Polled p None])
             @ map (\<lambda>(i, job). Answer i (tunnel_error (tj_id job) 502 ''the tunnel closed'')) (ep_waiters ep),
           st\<lparr>tn_endpoints := al_del server (tn_endpoints st)\<rparr>))"

definition tunnel_sessions :: "tunnel_state \<Rightarrow> tunnel_session list" where
  "tunnel_sessions st = map (\<lambda>(server, ep). \<lparr>ts_server_id = server, ts_connected_at_ms = ep_connected_at_ms ep,
     ts_last_poll_at_ms = ep_last_poll_at_ms ep, ts_pending = length (ep_waiters ep) + length (ep_queue ep),
     ts_served = ep_served ep\<rparr>) (tn_endpoints st)"

datatype tunnel_event =
    Ev_exchange int string tunnel_request
  | Ev_request_timeout string string
  | Ev_poll int string nat
  | Ev_poll_timeout string nat
  | Ev_respond string tunnel_response
  | Ev_close string

fun tunnel_step :: "nat option \<Rightarrow> tunnel_event \<Rightarrow> tunnel_state \<Rightarrow> tunnel_result" where
  "tunnel_step mx (Ev_exchange now server request) st = tunnel_exchange mx now server request st"
| "tunnel_step mx (Ev_request_timeout server i) st = request_timeout server i st"
| "tunnel_step mx (Ev_poll now server p) st = tunnel_poll now server p st"
| "tunnel_step mx (Ev_poll_timeout server p) st = poll_timeout server p st"
| "tunnel_step mx (Ev_respond server response) st = tunnel_respond server response st"
| "tunnel_step mx (Ev_close server) st = tunnel_close server st"

fun tunnel_run :: "nat option \<Rightarrow> tunnel_event list \<Rightarrow> tunnel_result \<Rightarrow> tunnel_result" where
  "tunnel_run mx [] r = r"
| "tunnel_run mx (e # es) r = (let (out, st) = tunnel_step mx e (snd r) in tunnel_run mx es (fst r @ out, st))"

section \<open>Counting promises\<close>

definition promised :: "string \<Rightarrow> tunnel_output list \<Rightarrow> nat" where
  "promised i outs = length (filter (\<lambda>x. x = Pending i) outs)"

definition answered :: "string \<Rightarrow> tunnel_output list \<Rightarrow> nat" where
  "answered i outs = length (filter (\<lambda>x. case x of Answer j r \<Rightarrow> j = i | _ \<Rightarrow> False) outs)"

definition handed :: "string \<Rightarrow> tunnel_output list \<Rightarrow> nat" where
  "handed i outs = length (filter (\<lambda>x. case x of Polled p (Some job) \<Rightarrow> tj_id job = i | _ \<Rightarrow> False) outs)"

definition ep_waiting :: "string \<Rightarrow> tunnel_endpoint \<Rightarrow> nat" where
  "ep_waiting i ep = count_list (map fst (ep_waiters ep)) i"

definition ep_queued :: "string \<Rightarrow> tunnel_endpoint \<Rightarrow> nat" where
  "ep_queued i ep = count_list (map tj_id (ep_queue ep)) i"

definition weigh :: "(tunnel_endpoint \<Rightarrow> nat) \<Rightarrow> tunnel_state \<Rightarrow> nat" where
  "weigh f st = sum_list (map (f \<circ> snd) (tn_endpoints st))"

definition weigh_at :: "(tunnel_endpoint \<Rightarrow> nat) \<Rightarrow> string \<Rightarrow> tunnel_state \<Rightarrow> nat" where
  "weigh_at f server st = (case map_of (tn_endpoints st) server of None \<Rightarrow> 0 | Some ep \<Rightarrow> f ep)"

lemma counts_append [simp]:
  "promised i (a @ b) = promised i a + promised i b" "answered i (a @ b) = answered i a + answered i b"
  "handed i (a @ b) = handed i a + handed i b"
  by (simp_all add: promised_def answered_def handed_def)

lemma counts [simp]:
  "promised i [] = 0" "promised i (x # xs) = (if x = Pending i then 1 else 0) + promised i xs"
  "answered i [] = 0" "answered i (Answer j r # xs) = (if j = i then 1 else 0) + answered i xs"
  "answered i (Pending j # xs) = answered i xs" "answered i (Refused r # xs) = answered i xs"
  "answered i (Polled p o' # xs) = answered i xs" "answered i (Responded b # xs) = answered i xs"
  "handed i [] = 0" "handed i (Polled p (Some job) # xs) = (if tj_id job = i then 1 else 0) + handed i xs"
  "handed i (Polled p None # xs) = handed i xs" "handed i (Pending j # xs) = handed i xs" "handed i (Refused r # xs) = handed i xs"
  "handed i (Answer j r # xs) = handed i xs" "handed i (Responded b # xs) = handed i xs"
  by (simp_all add: promised_def answered_def handed_def)

lemma sum_al_set:
  "distinct (map fst m) \<Longrightarrow> sum_list (map (f \<circ> snd) (al_set k v m)) + (case map_of m k of None \<Rightarrow> 0 | Some x \<Rightarrow> f x)
     = sum_list (map (f \<circ> snd) m) + (f v :: nat)"
proof (induction k v m rule: al_set.induct)
  case (2 k v k' v' m)
  show ?case
  proof (cases "k' = k")
    case True
    with 2 have "map_of m k = None" by (simp add: map_of_eq_None_iff)
    with True show ?thesis by simp
  next
    case False
    with 2 show ?thesis by simp
  qed
qed simp

lemma sum_al_del:
  "distinct (map fst m) \<Longrightarrow> sum_list (map (f \<circ> snd) (al_del k m)) + (case map_of m k of None \<Rightarrow> 0 | Some x \<Rightarrow> f x)
     = (sum_list (map (f \<circ> snd) m) :: nat)"
proof (induction m)
  case (Cons x m)
  obtain k' v' where x: "x = (k', v')" by (cases x)
  show ?case
  proof (cases "k' = k")
    case True
    with Cons x have "map_of m k = None" by (auto simp: map_of_eq_None_iff)
    moreover from this have "al_del k m = m" unfolding al_del_def by (intro filter_True) (auto simp: map_of_eq_None_iff image_iff)
    ultimately show ?thesis using True x by (simp add: al_del_def)
  next
    case False
    with Cons x show ?thesis by (simp add: al_del_def)
  qed
qed (simp add: al_del_def)

lemma weigh_set: "distinct (map fst (tn_endpoints st)) \<Longrightarrow> tn_endpoints st' = al_set server ep (tn_endpoints st)
    \<Longrightarrow> weigh f st' + weigh_at f server st = weigh f st + f ep"
  by (simp add: weigh_def weigh_at_def sum_al_set)

lemma weigh_del: "distinct (map fst (tn_endpoints st)) \<Longrightarrow> tn_endpoints st' = al_del server (tn_endpoints st)
    \<Longrightarrow> weigh f st' + weigh_at f server st = weigh f st"
  by (simp add: weigh_def weigh_at_def sum_al_del)

lemma count_distinct: "distinct xs \<Longrightarrow> count_list xs x = (if x \<in> set xs then 1 else 0)"
  by (induction xs) auto

lemma waiting_del:
  assumes "distinct (map fst m)" "map_of m k \<noteq> None"
  shows "count_list (map fst (al_del k m)) i + (if k = i then 1 else 0) = count_list (map fst m) i"
proof -
  have "set (map fst (al_del k m)) = set (map fst m) - {k}" by (auto simp: al_del_def)
  moreover have "k \<in> set (map fst m)" using assms(2) by (auto simp: map_of_eq_None_iff)
  ultimately show ?thesis using assms(1) by (auto simp: count_distinct)
qed

section \<open>The invariant\<close>

definition endpoint_ok :: "tunnel_endpoint \<Rightarrow> bool" where
  "endpoint_ok ep \<longleftrightarrow> distinct (map fst (ep_waiters ep)) \<and> (ep_poller ep \<noteq> None \<longrightarrow> ep_queue ep = [])"

definition tunnel_inv :: "tunnel_result \<Rightarrow> bool" where
  "tunnel_inv r \<longleftrightarrow> distinct (map fst (tn_endpoints (snd r))) \<and> (\<forall>ep\<in>snd ` set (tn_endpoints (snd r)). endpoint_ok ep)
     \<and> (\<forall>i. answered i (fst r) + weigh (ep_waiting i) (snd r) = promised i (fst r))
     \<and> (\<forall>i. handed i (fst r) + weigh (ep_queued i) (snd r) \<le> promised i (fst r))
     \<and> (\<forall>i. promised i (fst r) \<le> 1)
     \<and> (\<forall>i. promised i (fst r) \<noteq> 0 \<longrightarrow> (\<exists>now n. n \<le> tn_sequence (snd r) \<and> i = job_id now n))"

lemma job_id_inj: "job_id now n = job_id now' n' \<Longrightarrow> n = n'"
proof -
  assume "job_id now n = job_id now' n'"
  then have "rev (job_id now n) = rev (job_id now' n')" by simp
  then have "rev (js_string_of_int (int n)) @ CHR ''-'' # rev (js_string_of_int now) = rev (js_string_of_int (int n')) @ CHR ''-'' # rev (js_string_of_int now')"
    by (simp add: job_id_def)
  moreover have "CHR ''-'' \<notin> set (rev (js_string_of_int (int m)))" for m
    using digits_of_range [of "CHR ''-''" m] by (auto simp: js_string_of_int_def)
  ultimately show "n = n'" using js_string_of_int_inj [of "int n" "int n'"] by (simp add: delimited_eq)
qed

lemma inv_set:
  assumes "tunnel_inv (outs, st)" and "tn_endpoints st' = al_set server ep (tn_endpoints st)" and "tn_sequence st \<le> tn_sequence st'"
    and "endpoint_ok ep"
    and "\<And>i. answered i out + ep_waiting i ep = weigh_at (ep_waiting i) server st + promised i out"
    and "\<And>i. handed i out + ep_queued i ep \<le> weigh_at (ep_queued i) server st + promised i out"
    and "\<And>i. promised i (outs @ out) \<le> 1"
    and "\<And>i. promised i out \<noteq> 0 \<Longrightarrow> \<exists>now n. n \<le> tn_sequence st' \<and> i = job_id now n"
  shows "tunnel_inv (outs @ out, st')"
proof -
  have d: "distinct (map fst (tn_endpoints st))" using assms(1) by (simp add: tunnel_inv_def)
  have "\<forall>ep\<in>snd ` set (tn_endpoints st'). endpoint_ok ep"
    using assms(1,4) set_al_set_subset [of server ep "tn_endpoints st"] unfolding assms(2) tunnel_inv_def by fastforce
  moreover have "answered i (outs @ out) + weigh (ep_waiting i) st' = promised i (outs @ out)" for i
  proof -
    have "answered i outs + weigh (ep_waiting i) st = promised i outs" using assms(1) by (simp add: tunnel_inv_def)
    with weigh_set [OF d assms(2), of "ep_waiting i"] assms(5) [of i] show ?thesis by simp
  qed
  moreover have "handed i (outs @ out) + weigh (ep_queued i) st' \<le> promised i (outs @ out)" for i
  proof -
    have "handed i outs + weigh (ep_queued i) st \<le> promised i outs" using assms(1) by (simp add: tunnel_inv_def)
    with weigh_set [OF d assms(2), of "ep_queued i"] assms(6) [of i] show ?thesis by simp
  qed
  moreover have "\<exists>now n. n \<le> tn_sequence st' \<and> i = job_id now n" if "promised i (outs @ out) \<noteq> 0" for i
  proof (cases "promised i outs = 0")
    case True
    with that assms(8) show ?thesis by simp
  next
    case False
    with assms(1) obtain now n where "n \<le> tn_sequence st" "i = job_id now n"
      unfolding tunnel_inv_def fst_conv snd_conv by blast
    with assms(3) show ?thesis by (intro exI [of _ now] exI [of _ n]) simp
  qed
  ultimately show ?thesis using assms(2,7) d by (simp add: tunnel_inv_def)
qed

lemma inv_endpoint: "tunnel_inv (outs, st) \<Longrightarrow> map_of (tn_endpoints st) server = Some ep \<Longrightarrow> endpoint_ok ep"
  unfolding tunnel_inv_def by (metis map_of_SomeD image_eqI snd_conv)

lemma inv_quiet: "tunnel_inv (outs, st) \<Longrightarrow> (\<And>i. answered i out = 0 \<and> handed i out = 0 \<and> promised i out = 0) \<Longrightarrow> tunnel_inv (outs @ out, st)"
  by (simp add: tunnel_inv_def)

lemma inv_fresh:
  assumes "tunnel_inv (outs, st)"
  shows "promised (job_id now (tn_sequence st + 1)) outs = 0"
proof (rule ccontr)
  assume "promised (job_id now (tn_sequence st + 1)) outs \<noteq> 0"
  with assms obtain now' n where "n \<le> tn_sequence st" "job_id now (tn_sequence st + 1) = job_id now' n"
    unfolding tunnel_inv_def fst_conv snd_conv by blast
  then show False using job_id_inj by fastforce
qed

lemma inv_fresh_waiter:
  assumes inv: "tunnel_inv (outs, st)" and ep: "map_of (tn_endpoints st) server = Some ep"
  shows "job_id now (tn_sequence st + 1) \<notin> set (map fst (ep_waiters ep))"
proof -
  let ?i = "job_id now (tn_sequence st + 1)"
  have "answered ?i outs + weigh (ep_waiting ?i) st = 0" using inv inv_fresh [OF inv, of now] by (simp add: tunnel_inv_def)
  then have "weigh (ep_waiting ?i) st = 0" by simp
  moreover have "ep \<in> snd ` set (tn_endpoints st)" using ep by (metis map_of_SomeD image_eqI snd_conv)
  ultimately have "ep_waiting ?i ep = 0" by (auto simp: weigh_def)
  then show ?thesis by (simp add: ep_waiting_def count_list_0_iff)
qed

lemma exchange_keeps:
  assumes inv: "tunnel_inv (outs, st)"
  shows "tunnel_inv (outs @ fst (tunnel_exchange mx now server request st), snd (tunnel_exchange mx now server request st))"
proof (cases "map_of (tn_endpoints st) server")
  case None
  with inv show ?thesis by (simp add: tunnel_exchange_def inv_quiet)
next
  case ep: (Some ep)
  let ?i = "job_id now (tn_sequence st + 1)"
  have ok: "endpoint_ok ep" by (rule inv_endpoint [OF inv ep])
  have fresh: "?i \<notin> set (map fst (ep_waiters ep))" by (rule inv_fresh_waiter [OF inv ep])
  then have new: "al_set ?i j (ep_waiters ep) = ep_waiters ep @ [(?i, j)]" for j
    by (intro al_set_fresh) (simp add: map_of_eq_None_iff)
  have one: "promised i outs + (if Pending ?i = Pending i then 1 else 0) \<le> 1" for i
    using inv inv_fresh [OF inv, of now] by (auto simp: tunnel_inv_def)
  have born: "\<exists>now' n. n \<le> tn_sequence st + 1 \<and> i = job_id now' n" if "Pending ?i = Pending i" for i
    using that by (intro exI [of _ now] exI [of _ "tn_sequence st + 1"]) simp
  show ?thesis
  proof (cases "length (ep_waiters ep) + length (ep_queue ep) \<ge> (case mx of None \<Rightarrow> DEFAULT_MAX_QUEUED | Some n \<Rightarrow> n)")
    case True
    with ep inv show ?thesis by (simp add: tunnel_exchange_def inv_quiet)
  next
    case room: False
    let ?job = "tunnel_request.extend request \<lparr>tj_id = ?i, tj_queued_at_ms = now\<rparr>"
    have id: "tj_id (tunnel_request.extend request \<lparr>tj_id = x, tj_queued_at_ms = now\<rparr>) = x" for x by (simp add: tunnel_request.extend_def)
    show ?thesis
    proof (cases "ep_poller ep")
      case None
      let ?ep = "ep\<lparr>ep_waiters := ep_waiters ep @ [(?i, ?job)], ep_queue := ep_queue ep @ [?job]\<rparr>"
      have "tunnel_exchange mx now server request st = ([Pending ?i], put_endpoint server ?ep (st\<lparr>tn_sequence := tn_sequence st + 1\<rparr>))"
        using ep room None by (simp add: tunnel_exchange_def Let_def tunnel_request.extend_def new [unfolded Suc_eq_plus1 [symmetric]])
      moreover have "tunnel_inv (outs @ [Pending ?i], put_endpoint server ?ep (st\<lparr>tn_sequence := tn_sequence st + 1\<rparr>))"
        by (rule inv_set [OF inv, where server = server and ep = ?ep])
          (use ok fresh one born None in \<open>auto simp: put_endpoint_def endpoint_ok_def ep_waiting_def ep_queued_def weigh_at_def ep id split: if_splits\<close>)
      ultimately show ?thesis by simp
    next
      case (Some p)
      let ?ep = "ep\<lparr>ep_waiters := ep_waiters ep @ [(?i, ?job)], ep_poller := None, ep_poll_timer := None\<rparr>"
      have "tunnel_exchange mx now server request st = ([Pending ?i, Polled p (Some ?job)], put_endpoint server ?ep (st\<lparr>tn_sequence := tn_sequence st + 1\<rparr>))"
        using ep room Some by (simp add: tunnel_exchange_def Let_def tunnel_request.extend_def new [unfolded Suc_eq_plus1 [symmetric]])
      moreover have "tunnel_inv (outs @ [Pending ?i, Polled p (Some ?job)], put_endpoint server ?ep (st\<lparr>tn_sequence := tn_sequence st + 1\<rparr>))"
        by (rule inv_set [OF inv, where server = server and ep = ?ep])
          (use ok fresh one born in \<open>auto simp: put_endpoint_def endpoint_ok_def ep_waiting_def ep_queued_def weigh_at_def ep id split: if_splits\<close>)
      ultimately show ?thesis by simp
    qed
  qed
qed

lemma promised_once: "tunnel_inv (outs, st) \<Longrightarrow> promised i outs \<le> Suc 0"
  by (simp add: tunnel_inv_def)

lemma poll_keeps:
  assumes inv: "tunnel_inv (outs, st)"
  shows "tunnel_inv (outs @ fst (tunnel_poll now server p st), snd (tunnel_poll now server p st))"
proof -
  define ep where "ep = (case map_of (tn_endpoints st) server of None \<Rightarrow> tunnel_register now | Some ep \<Rightarrow> ep)\<lparr>ep_last_poll_at_ms := now\<rparr>"
  have ok: "endpoint_ok ep"
    using inv_endpoint [OF inv, of server] by (auto simp: ep_def endpoint_ok_def tunnel_register_def split: option.split)
  have w: "weigh_at (ep_waiting i) server st = ep_waiting i ep" "weigh_at (ep_queued i) server st = ep_queued i ep" for i
    by (auto simp: weigh_at_def ep_def ep_waiting_def ep_queued_def tunnel_register_def split: option.split)
  show ?thesis
  proof (cases "ep_queue ep")
    case (Cons job rest)
    then have "tunnel_poll now server p st = ([Polled p (Some job)], put_endpoint server (ep\<lparr>ep_queue := rest\<rparr>) st)"
      by (simp add: tunnel_poll_def Let_def ep_def)
    moreover have "tunnel_inv (outs @ [Polled p (Some job)], put_endpoint server (ep\<lparr>ep_queue := rest\<rparr>) st)"
      by (rule inv_set [OF inv, where server = server and ep = "ep\<lparr>ep_queue := rest\<rparr>"])
        (use ok promised_once [OF inv] in \<open>simp_all add: put_endpoint_def endpoint_ok_def ep_waiting_def ep_queued_def w Cons\<close>)
    ultimately show ?thesis by simp
  next
    case Nil
    let ?ep = "ep\<lparr>ep_poller := Some p, ep_poll_timer := Some p\<rparr>"
    have "tunnel_poll now server p st = ((case ep_poller ep of None \<Rightarrow> [] | Some q \<Rightarrow> [Polled q None]), put_endpoint server ?ep st)"
      using Nil by (simp add: tunnel_poll_def Let_def ep_def)
    moreover have "tunnel_inv (outs @ (case ep_poller ep of None \<Rightarrow> [] | Some q \<Rightarrow> [Polled q None]), put_endpoint server ?ep st)"
      by (rule inv_set [OF inv, where server = server and ep = ?ep])
        (use ok promised_once [OF inv] in \<open>simp_all add: put_endpoint_def endpoint_ok_def ep_waiting_def ep_queued_def w Nil split: option.splits\<close>)
    ultimately show ?thesis by simp
  qed
qed

lemma request_timeout_keeps:
  assumes inv: "tunnel_inv (outs, st)"
  shows "tunnel_inv (outs @ fst (request_timeout server i st), snd (request_timeout server i st))"
proof (cases "\<exists>ep. map_of (tn_endpoints st) server = Some ep \<and> map_of (ep_waiters ep) i \<noteq> None")
  case True
  then obtain ep where ep: "map_of (tn_endpoints st) server = Some ep" "map_of (ep_waiters ep) i \<noteq> None" by blast
  have ok: "endpoint_ok ep" by (rule inv_endpoint [OF inv ep(1)])
  then have del: "count_list (map fst (al_del i (ep_waiters ep))) k + (if i = k then 1 else 0) = count_list (map fst (ep_waiters ep)) k" for k
    using ep(2) by (simp add: waiting_del endpoint_ok_def)
  let ?ep = "ep\<lparr>ep_waiters := al_del i (ep_waiters ep)\<rparr>"
  have "tunnel_inv (outs @ [Answer i (tunnel_error i 504 ''the tunnelled node did not answer'')], put_endpoint server ?ep st)"
  proof (rule inv_set [OF inv, where server = server and ep = ?ep])
    show "answered k [Answer i (tunnel_error i 504 ''the tunnelled node did not answer'')] + ep_waiting k ?ep
        = weigh_at (ep_waiting k) server st + promised k [Answer i (tunnel_error i 504 ''the tunnelled node did not answer'')]" for k
      using del [of k] by (simp add: ep_waiting_def weigh_at_def ep)
  qed (use ok promised_once [OF inv] in \<open>simp_all add: put_endpoint_def endpoint_ok_def ep_queued_def weigh_at_def ep\<close>)
  with ep show ?thesis by (auto simp: request_timeout_def)
next
  case False
  then show ?thesis using inv by (auto simp: request_timeout_def split: option.split)
qed

lemma respond_keeps:
  assumes inv: "tunnel_inv (outs, st)"
  shows "tunnel_inv (outs @ fst (tunnel_respond server r st), snd (tunnel_respond server r st))"
proof (cases "\<exists>ep. map_of (tn_endpoints st) server = Some ep \<and> map_of (ep_waiters ep) (tr_id r) \<noteq> None")
  case True
  then obtain ep where ep: "map_of (tn_endpoints st) server = Some ep" "map_of (ep_waiters ep) (tr_id r) \<noteq> None" by blast
  have ok: "endpoint_ok ep" by (rule inv_endpoint [OF inv ep(1)])
  then have del: "count_list (map fst (al_del (tr_id r) (ep_waiters ep))) k + (if tr_id r = k then 1 else 0) = count_list (map fst (ep_waiters ep)) k" for k
    using ep(2) by (simp add: waiting_del endpoint_ok_def)
  let ?ep = "ep\<lparr>ep_waiters := al_del (tr_id r) (ep_waiters ep), ep_served := ep_served ep + 1\<rparr>"
  have "tunnel_inv (outs @ [Answer (tr_id r) r, Responded True], put_endpoint server ?ep st)"
  proof (rule inv_set [OF inv, where server = server and ep = ?ep])
    show "answered k [Answer (tr_id r) r, Responded True] + ep_waiting k ?ep
        = weigh_at (ep_waiting k) server st + promised k [Answer (tr_id r) r, Responded True]" for k
      using del [of k] by (simp add: ep_waiting_def weigh_at_def ep)
  qed (use ok promised_once [OF inv] in \<open>simp_all add: put_endpoint_def endpoint_ok_def ep_queued_def weigh_at_def ep\<close>)
  with ep show ?thesis by (auto simp: tunnel_respond_def)
next
  case False
  then have "tunnel_respond server r st = ([Responded False], st)" by (auto simp: tunnel_respond_def split: option.split)
  with inv show ?thesis by (simp add: inv_quiet)
qed

lemma poll_timeout_keeps:
  assumes inv: "tunnel_inv (outs, st)"
  shows "tunnel_inv (outs @ fst (poll_timeout server p st), snd (poll_timeout server p st))"
proof (cases "\<exists>ep. map_of (tn_endpoints st) server = Some ep \<and> ep_poll_timer ep = Some p")
  case True
  then obtain ep where ep: "map_of (tn_endpoints st) server = Some ep" "ep_poll_timer ep = Some p" by blast
  have ok: "endpoint_ok ep" by (rule inv_endpoint [OF inv ep(1)])
  let ?ep = "ep\<lparr>ep_poller := (if ep_poller ep = Some p then None else ep_poller ep), ep_poll_timer := None\<rparr>"
  have "tunnel_inv (outs @ [Polled p None], put_endpoint server ?ep st)"
    by (rule inv_set [OF inv, where server = server and ep = ?ep])
      (use ok promised_once [OF inv] in \<open>simp_all add: put_endpoint_def endpoint_ok_def ep_queued_def ep_waiting_def weigh_at_def ep\<close>)
  with ep show ?thesis by (simp add: poll_timeout_def)
next
  case False
  then show ?thesis using inv by (auto simp: poll_timeout_def split: option.split)
qed

lemma close_outputs:
  "answered i ((case q of None \<Rightarrow> [] | Some p \<Rightarrow> [Polled p None]) @ map (\<lambda>(i, job). Answer i (f job)) ws) = count_list (map fst ws) i
   \<and> promised i ((case q of None \<Rightarrow> [] | Some p \<Rightarrow> [Polled p None]) @ map (\<lambda>(i, job). Answer i (f job)) ws) = 0
   \<and> handed i ((case q of None \<Rightarrow> [] | Some p \<Rightarrow> [Polled p None]) @ map (\<lambda>(i, job). Answer i (f job)) ws) = 0"
  by (induction ws) (auto split: option.split)

lemma close_keeps:
  assumes inv: "tunnel_inv (outs, st)"
  shows "tunnel_inv (outs @ fst (tunnel_close server st), snd (tunnel_close server st))"
proof (cases "map_of (tn_endpoints st) server")
  case None
  with inv show ?thesis by (simp add: tunnel_close_def)
next
  case ep: (Some ep)
  let ?out = "fst (tunnel_close server st)" and ?st = "snd (tunnel_close server st)"
  have out: "answered i ?out = ep_waiting i ep" "promised i ?out = 0" "handed i ?out = 0" for i
    using close_outputs [of i "ep_poller ep" "\<lambda>job. tunnel_error (tj_id job) 502 ''the tunnel closed''" "ep_waiters ep"]
    by (simp_all add: tunnel_close_def ep ep_waiting_def)
  have st: "tn_endpoints ?st = al_del server (tn_endpoints st)" "tn_sequence ?st = tn_sequence st" by (simp_all add: tunnel_close_def ep)
  have d: "distinct (map fst (tn_endpoints st))" using inv by (simp add: tunnel_inv_def)
  have w: "weigh f ?st + f ep = weigh f st" for f using weigh_del [OF d st(1), of f] by (simp add: weigh_at_def ep)
  have "answered i (outs @ ?out) + weigh (ep_waiting i) ?st = promised i (outs @ ?out)" for i
  proof -
    have "answered i outs + weigh (ep_waiting i) st = promised i outs" using inv by (simp add: tunnel_inv_def)
    with w [of "ep_waiting i"] out show ?thesis by simp
  qed
  moreover have "handed i (outs @ ?out) + weigh (ep_queued i) ?st \<le> promised i (outs @ ?out)" for i
  proof -
    have "handed i outs + weigh (ep_queued i) st \<le> promised i outs" using inv by (simp add: tunnel_inv_def)
    with w [of "ep_queued i"] out show ?thesis by simp
  qed
  moreover have "\<forall>ep\<in>snd ` set (tn_endpoints ?st). endpoint_ok ep" using inv by (auto simp: st tunnel_inv_def al_del_def)
  moreover have "\<forall>i. promised i (outs @ ?out) \<noteq> 0 \<longrightarrow> (\<exists>now n. n \<le> tn_sequence ?st \<and> i = job_id now n)"
    using inv unfolding tunnel_inv_def fst_conv snd_conv st by (simp add: out)
  ultimately show ?thesis using promised_once [OF inv] d by (simp add: tunnel_inv_def st out)
qed

lemma tunnel_step_keeps: "tunnel_inv (outs, st) \<Longrightarrow> tunnel_inv (outs @ fst (tunnel_step mx e st), snd (tunnel_step mx e st))"
  by (cases e) (simp_all add: exchange_keeps poll_keeps request_timeout_keeps respond_keeps poll_timeout_keeps close_keeps)

lemma run_keeps_tunnels: "tunnel_inv r \<Longrightarrow> tunnel_inv (tunnel_run mx es r)"
proof (induction es arbitrary: r)
  case (Cons e es)
  obtain outs st where r: "r = (outs, st)" by (cases r)
  from tunnel_step_keeps [OF Cons.prems [unfolded r], of mx e] Cons.IH show ?case by (simp add: r split_beta)
qed simp

section \<open>What the tunnel guarantees, and what not\<close>

text \<open>C22: The tunnel answers every request exactly once: along any run of requests, polls, answers, timeouts and closings,
  over any number of nodes, a request that was let in has been answered once or its caller is still waiting, never
  both and never twice; and its job is handed to the node at most once.\<close>

theorem tunnel_answers_each_request_once:
  "case tunnel_run mx es ([], no_tunnels) of (outs, st) \<Rightarrow>
     answered i outs + weigh (ep_waiting i) st = promised i outs \<and> promised i outs \<le> 1 \<and> handed i outs \<le> promised i outs"
proof -
  have "tunnel_inv ([], no_tunnels)" by (simp add: tunnel_inv_def no_tunnels_def weigh_def)
  then have inv: "tunnel_inv (tunnel_run mx es ([], no_tunnels))" by (rule run_keeps_tunnels)
  obtain outs st where r: "tunnel_run mx es ([], no_tunnels) = (outs, st)" by (cases "tunnel_run mx es ([], no_tunnels)")
  have "answered i outs + weigh (ep_waiting i) st = promised i outs" "promised i outs \<le> 1"
    and "handed i outs + weigh (ep_queued i) st \<le> promised i outs" using inv r by (simp_all add: tunnel_inv_def)
  then show ?thesis by (simp add: r)
qed

text \<open>C23: A request the client was told had failed still runs: when no poll is open, a request that times out with 504 stays
  in the queue, the node's next poll is given it although nobody waits for it any more, and the node's answer is
  dropped. A client that then tries again sends the same request to the node twice.\<close>

theorem timed_out_requests_still_run:
  assumes "map_of (tn_endpoints st) server = Some ep" and "ep_poller ep = None" and "ep_queue ep = []"
    and "length (ep_waiters ep) < (case mx of None \<Rightarrow> DEFAULT_MAX_QUEUED | Some n \<Rightarrow> n)"
    and "i = job_id now (tn_sequence st + 1)" and "tr_id r = i"
  shows "\<exists>job. tq_method job = tq_method request \<and> tq_path job = tq_path request \<and> tq_body job = tq_body request
    \<and> fst (tunnel_run mx [Ev_exchange now server request, Ev_request_timeout server i, Ev_poll later server p, Ev_respond server r] ([], st))
      = [Pending i, Answer i (tunnel_error i 504 ''the tunnelled node did not answer''), Polled p (Some job), Responded False]"
  using assms
  by (simp add: tunnel_exchange_def request_timeout_def tunnel_poll_def tunnel_respond_def put_endpoint_def Let_def
      tunnel_request.extend_def)

theorem timed_out_requests_still_run_witness:
  "\<exists>job. tq_path job = ''/post'' \<and> fst (tunnel_run None [Ev_exchange 5 ''node'' \<lparr>tq_method = ''POST'', tq_path = ''/post'', tq_headers = [], tq_body = None\<rparr>,
       Ev_request_timeout ''node'' (job_id 5 1), Ev_poll 9 ''node'' 2, Ev_respond ''node'' (tunnel_error (job_id 5 1) 200 [])]
       ([], no_tunnels\<lparr>tn_endpoints := [(''node'', tunnel_register 1)]\<rparr>))
     = [Pending (job_id 5 1), Answer (job_id 5 1) (tunnel_error (job_id 5 1) 504 ''the tunnelled node did not answer''),
        Polled 2 (Some job), Responded False]"
proof -
  let ?st = "no_tunnels\<lparr>tn_endpoints := [(''node'', tunnel_register 1)]\<rparr>"
  have "map_of (tn_endpoints ?st) ''node'' = Some (tunnel_register 1)" "ep_poller (tunnel_register 1) = None" "ep_queue (tunnel_register 1) = []"
    "length (ep_waiters (tunnel_register 1)) < (case None of None \<Rightarrow> DEFAULT_MAX_QUEUED | Some n \<Rightarrow> n)"
    "job_id 5 1 = job_id 5 (tn_sequence ?st + 1)" "tr_id (tunnel_error (job_id 5 1) 200 []) = job_id 5 1"
    by (simp_all add: tunnel_register_def no_tunnels_def DEFAULT_MAX_QUEUED_def tunnel_error_def)
  from timed_out_requests_still_run [OF this, of "\<lparr>tq_method = ''POST'', tq_path = ''/post'', tq_headers = [], tq_body = None\<rparr>" 9 2]
  show ?thesis by (simp only: tunnel_request.simps) blast
qed

end
