(* ===== verification/Spec2Isabelle.thy ===== *)
theory Spec2Isabelle
  imports JB_Drain JB_Fork JB_Ballots JB_People JB_Rebuild JB_Builder JB_Tunnel
begin

text \<open>
  A verification development for jagoo-bahee, a federated node for a public forum and a crisis-signalling service that
  is meant to keep working through network shutdowns. Everything a person does is a signed envelope: the client builds
  and signs it (\<open>src/packages/sdk-ts\<close>), a node checks it in a pipeline of nineteen steps, stores it, witnesses it in a
  Merkle log, answers with a signed receipt and projects it into documents (\<open>src/backend/src/core\<close>,
  \<open>src/backend/src/features\<close>), and nodes pass envelopes on to the peers they trust. The development models that core in
  the order the program has it, one theory for each part, and proves what the parts promise. Paths below are relative
  to \<open>src/backend/src\<close> unless they begin with \<open>packages\<close>.

  THE LAYERS AND THE THEORIES THAT MODEL THEM

  Shared vocabulary. \<open>JB_Prelude\<close>: bytes, JavaScript strings (their UTF-8 bytes, as a HOL \<open>string\<close>), number conversion,
  results that may be errors, insertion-ordered maps (\<open>al_set\<close>, \<open>al_del\<close>) and the locale \<open>keyed_store\<close>. \<open>JB_Order\<close>: the
  stable sort of the language with a comparator (locale \<open>ranked_order\<close>).

  The envelope (\<open>packages/sdk-ts/src/core\<close>). \<open>JB_Wire\<close> models \<open>wire.ts\<close> and the reader of \<open>decode.ts\<close> (locale
  \<open>prefix_code\<close>); \<open>JB_Base32\<close> models \<open>base32.ts\<close> and \<open>content-id.ts\<close>; \<open>JB_Canonical\<close> models \<open>types.ts\<close>, \<open>canonical.ts\<close> and
  \<open>decode.ts\<close>: encoding and decoding are inverse, exactly one encoding of an envelope is accepted, and the growable
  byte writer refines the plain list. \<open>JB_Builder\<close> models \<open>signer/envelope-builder.ts\<close>: what a client seals is what
  the checks of a node accept. \<open>JB_Credentials\<close> models both halves of the blind credentials (\<open>signer/blind-credential.ts\<close>
  and \<open>adapters/outbound/redis/rsa-blind-credentials.ts\<close>): they are accepted, and the issuer cannot tell them apart.

  Evidence. \<open>JB_Merkle\<close> models \<open>core/domain/merkle.ts\<close>, \<open>JB_Evidence\<close> the offline verifier
  \<open>packages/sdk-ts/src/core/evidence.ts\<close>, the receipts (\<open>core/domain/receipt.ts\<close>) and the log of the in-memory adapter.
  Soundness is stated without assuming that the hash has no collisions: only that it has none among the listed strings.

  The pipeline. \<open>JB_Registry\<close> (policy table, header checks, handler registry), \<open>JB_Pipeline\<close> and \<open>JB_AntiAbuse\<close> (the step
  functions), \<open>JB_Store\<close> (stores and their transaction, locale \<open>tx_step\<close>), \<open>JB_Ingress\<close> (\<open>core/app/ingress.ts\<close>, all
  steps composed). \<open>JB_Node\<close> has the invariant of a node and its runs, \<open>JB_Guarantees\<close> the promises: nothing is written
  before every check has passed, a refusal leaves no trace, store and log agree, receipts verify offline, the served log
  only grows, a replay returns the original receipt.

  Federation. \<open>JB_FedSigning\<close> (statements between nodes), \<open>JB_Trust\<close>, \<open>JB_Quota\<close> (token buckets and back-off, locale
  \<open>rate_bounded\<close>; one request larger than its grant widens a bucket for good, and the bound counts it), \<open>JB_Peers\<close>,
  \<open>JB_Inbox\<close> (\<open>core/app/federation-inbox.ts\<close>) with its promises in \<open>JB_Peering\<close>, \<open>JB_Transport\<close> (scopes, uplink health, path
  selection), \<open>JB_Bridge\<close> (relay between two networks), \<open>JB_Outbox\<close> and \<open>JB_Drain\<close> (\<open>core/app/federation-outbox.ts\<close>: the
  queue and what is done with a row; one pass, whose batches are state machines that run at the same time under any
  schedule), \<open>JB_Sync\<close> (\<open>core/app/federation-sync.ts\<close>), \<open>JB_Fork\<close> (the directory under calls that overlap: each reads a
  peer at one moment and writes it back at another), \<open>JB_Tunnel\<close> (\<open>core/app/reverse-tunnel.ts\<close>: every request is answered
  once).

  The forum plane (\<open>features/forum\<close>). \<open>JB_Forum\<close> (documents, bitmaps, permission resolution), \<open>JB_Chain\<close> (hash chains,
  locale \<open>chained\<close>), \<open>JB_Community\<close>, \<open>JB_Membership\<close>, \<open>JB_Moderation\<close>, \<open>JB_Content\<close>, \<open>JB_Identity\<close>, \<open>JB_Social\<close>: a handler is
  three definitions, \<open>_validate\<close>, \<open>_authorize\<close> and \<open>_project\<close>, named after its class. \<open>JB_ForumNode\<close> makes the thirty
  handlers one machine: \<open>forum_accepts\<close>, \<open>forum_step\<close>, \<open>forum_run\<close>, and the locale \<open>guarded_invariant\<close> (a property that
  accepted effects keep holds along every run), which is interpreted for every invariant of the two planes.
  \<open>JB_Governance\<close> and \<open>JB_Coalition\<close>: owners keep control and no coalition escalates; \<open>JB_Breaches\<close>: where the code breaks
  its own promises; \<open>JB_Logs\<close>: the public logs detect rewriting; \<open>JB_Votes\<close> and \<open>JB_Ballots\<close>: scores are the sum of one
  ballot a voter, votes converge whatever the order of arrival, and nothing an author wrote is erased.

  The signal plane (\<open>features/signal\<close>). \<open>JB_Signal\<close> (documents and text rules), \<open>JB_Channels\<close> (channels, vouches,
  broadcasts), \<open>JB_Messages\<close> (prekeys, sessions, messages, groups, and the ratchet of \<open>packages/sdk-ts/src/crypto/signal.ts\<close>),
  \<open>JB_Crisis\<close> (check-ins, reports, the name directory, keys), \<open>JB_SignalNode\<close> (the twenty handlers as one machine).
  \<open>JB_Broadcasts\<close> and \<open>JB_People\<close> have what the plane guarantees - only its key speaks for a channel, broadcasts form one
  numbered chain, groups keep their shape, a name has one holder - and where it does not.

  \<open>JB_Rebuild\<close> models the rebuild command (\<open>cli/rebuild-projections.ts\<close>, \<open>core/app/projection-rebuilder.ts\<close>, the reset of
  \<open>adapters/outbound/mongo/mongo-stores.ts\<close>) on a node that keeps the rows of both planes and hands out upload tickets over
  HTTP: what a replay of the log restores, where a Signal envelope stops it, and that it forgets the tickets and the
  communities of other nodes.

  HOW THE MODEL CORRESPONDS TO THE CODE

  An interface of the code is a \<open>record\<close>, an enumeration a \<open>datatype\<close> or its numbers, a \<open>Map\<close> or a collection of documents
  an association list in insertion order, an operation a function from the state it reads to its outcome and the state
  it leaves. A rejection or a thrown error is a value (\<open>Inl\<close>, \<open>Denied\<close>, \<open>Invalid\<close>). Bytes and the integers the code
  treats with 32-bit operators are words; a \<open>bigint\<close> and a number used as an integer is an \<open>int\<close>, with \<open>js_number\<close> where
  a \<open>bigint\<close> is rounded to a double; bucket levels and jitter are rational. What is not under \<open>src\<close> is an argument: SHA-256,
  Ed25519, ML-DSA, HKDF, the AEAD, proof of work, Unicode normalisation and case mapping, and what the network answers.
  Where a theorem needs something of them it is a hypothesis of it, and its witness instantiates them. One call of an
  operation runs to its end before the next, except in three places. \<open>JB_Sync\<close> and \<open>JB_Fork\<close>: a call that reads a peer,
  waits and writes it back is two steps with anything in between. \<open>JB_Drain\<close>: a turn is what a batch does between two
  awaits, and the batches, the fanout and the rest of the node take turns in any order; two passes over the same rows
  are not composed. \<open>JB_Tunnel\<close>: a timer that fires is an event of its own.

  Fuel and bounds. Loops are structural or have a measure; the search for a blinding factor, which has no
  bound in the code, is a partial function that is proved to return; a batch of \<open>n\<close> rows is through after \<open>6 n + 5\<close> turns,
  which the measure \<open>work\<close> shows; the two that are given fuel (the varint reader, ten bytes at
  most, and \<open>js_trim\<close>, the length of the text) have as much as they can use. Limits of the code (64 role assignments, 20 name
  conflicts, 1000 vouches, 100000 inherited rows) are kept in the definitions. Runs are arbitrary lists of events.

  THE PROPERTIES

  A property is a theorem after a text block that begins with its number, and its witness applies it to concrete data.
  Where the code does not do what it means to, the property is the behaviour it has, with the run that shows it.

  NOT MODELLED

  The HTTP, gRPC and WebSocket adapters and the Nest modules (\<open>adapters/inbound\<close>): routing and serialisation around the
  pipeline; of the attachments controller only what it writes (\<open>JB_Rebuild\<close>). The MongoDB, Redis, S3 and file adapters (\<open>adapters/outbound\<close>): calls into drivers; the in-memory adapters,
  which have the same contracts, are modelled, and of the Mongo adapter the reset. The generated protobuf readers and writers (\<open>packages/sdk-ts/src/gen\<close>):
  generated code; the message types they carry are records here. The front end (\<open>src/frontend\<close>): screens and caches.
  The primitives of \<open>packages/sdk-ts/src/crypto\<close> and the key derivation of BIP-32, BIP-39 and BIP-85: calls into
  cryptographic libraries. Of the core: the audit certificate (\<open>packages/sdk-ts/src/core/audit-certificate.ts\<close>, which
  parses JSON and then calls the verifiers modelled here), the classification of a caller's address
  (\<open>core/domain/transport/link-scope.ts\<close>) and of service addresses (\<open>core/domain/service-map.ts\<close>), which are regular
  expressions over addresses, and the supervisor and router (\<open>core/app/transport-supervisor.ts\<close>, \<open>path-router.ts\<close>), which
  call the operations of \<open>JB_Transport\<close>, \<open>JB_Bridge\<close> and \<open>JB_Sync\<close> on a schedule; what the router writes into the directory
  is in \<open>JB_Fork\<close>. Statistics and observability counters,
  which nothing reads back, are left out of the states.
\<close>

end
